(* ===== verification/Prelude.thy ===== *)
theory Prelude
  imports Complex_Main "HOL-Library.Finite_Map" "HOL-Library.Multiset"
    "HOL-Library.List_Lexorder" "HOL-Library.Char_ord" "HOL-Library.Option_ord"
    "HOL-Library.Word"
begin

text \<open>
  Shared material of the development: the Go constructs that every component uses.

  \<^item> A Go map with string keys is a finite map \<open>(string, 'v) fmap\<close>; \<open>m[k]\<close> with the
    comma-ok form is \<open>fmlookup m k\<close>.
  \<^item> The order in which Go's \<open>range\<close> visits a map is unspecified, so every loop over a map
    takes the order as an argument: a function \<open>it\<close> that lists a finite set of keys. The
    laws of such a function are \<open>range_order\<close>; results about a loop are proved for every
    function that satisfies them.
  \<^item> Go's \<open>int64\<close> arithmetic wraps around; \<open>wrap64\<close> writes it out.
  \<^item> A generated protobuf getter on a nil message returns the zero value of the field
    (\<open>get_or\<close>).
\<close>

section \<open>Collections of facts\<close>

named_theorems hlc_simps "rewrite rules of the clock and of timestamps"
named_theorems apply_simps "the transition function on each kind of operation"
named_theorems frame_simps "what an operation leaves unchanged"
named_theorems walk_simps "one step of the walks over the layout tree"
named_theorems check_defs "definitions of the validator's checks"

section \<open>Strings as identifiers\<close>

type_synonym ident = string

abbreviation empty_id :: ident where
  "empty_id \<equiv> []"

section \<open>Nil-safe getters\<close>

definition get_or :: "'b \<Rightarrow> ('a \<Rightarrow> 'b) \<Rightarrow> 'a option \<Rightarrow> 'b" where
  "get_or d f x = (case x of None \<Rightarrow> d | Some v \<Rightarrow> f v)"

lemma get_or_simps [simp]:
  "get_or d f None = d" "get_or d f (Some v) = f v"
  by (simp_all add: get_or_def)

section \<open>Machine integers\<close>

definition wrap64 :: "int \<Rightarrow> int" where
  "wrap64 x = (x + 2 ^ 63) mod 2 ^ 64 - 2 ^ 63"

definition is_int64 :: "int \<Rightarrow> bool" where
  "is_int64 x \<longleftrightarrow> - (2 ^ 63) \<le> x \<and> x < 2 ^ 63"

lemma wrap64_id: "is_int64 x \<Longrightarrow> wrap64 x = x"
  by (simp add: wrap64_def is_int64_def)

lemma wrap64_range: "is_int64 (wrap64 x)"
  by (simp add: wrap64_def is_int64_def)

section \<open>Ranging over a Go map\<close>

type_synonym range_fun = "ident fset \<Rightarrow> ident list"

definition range_order :: "range_fun \<Rightarrow> bool" where
  "range_order it \<longleftrightarrow> (\<forall>S. set (it S) = fset S \<and> distinct (it S))"

text \<open>The key-value pairs of a map in the order in which the loop visits them.\<close>

definition go_range :: "range_fun \<Rightarrow> (ident, 'v) fmap \<Rightarrow> (ident \<times> 'v) list" where
  "go_range it m = map (\<lambda>k. (k, the (fmlookup m k))) (it (fmdom m))"

lemma range_order_set: "range_order it \<Longrightarrow> set (it S) = fset S"
  and range_order_distinct: "range_order it \<Longrightarrow> distinct (it S)"
  by (simp_all add: range_order_def)

lemma range_order_empty: "range_order it \<Longrightarrow> it {||} = []"
  using range_order_set [of it "{||}"] by simp

lemma range_order_single:
  assumes "range_order it"
  shows "it {|x|} = [x]"
proof -
  have "length (it {|x|}) = card (set (it {|x|}))"
    using assms by (simp add: range_order_distinct distinct_card)
  then have "length (it {|x|}) = 1"
    using assms by (simp add: range_order_set)
  then show ?thesis
    using range_order_set [OF assms, of "{|x|}"] by (cases "it {|x|}") auto
qed

lemma set_go_range:
  assumes "range_order it"
  shows "set (go_range it m) = {(k, v). fmlookup m k = Some v}"
  using assms by (auto simp: go_range_def range_order_set fmdom_notD fmdom'_notD
      intro!: image_eqI fmdomI dest: fmdomI)

lemma go_range_mem [simp]:
  "range_order it \<Longrightarrow> (k, v) \<in> set (go_range it m) \<longleftrightarrow> fmlookup m k = Some v"
  by (simp add: set_go_range)

lemma map_fst_go_range [simp]: "map fst (go_range it m) = it (fmdom m)"
  by (simp add: go_range_def comp_def)

lemma distinct_go_range: "range_order it \<Longrightarrow> distinct (go_range it m)"
  by (metis distinct_map map_fst_go_range range_order_distinct)

text \<open>The interface of an iteration order, and one order that satisfies it.\<close>

locale go_map_range =
  fixes it :: range_fun
  assumes order: "range_order it"
begin

lemma ball_range: "(\<forall>p \<in> set (go_range it m). P (fst p) (snd p)) \<longleftrightarrow>
    (\<forall>k v. fmlookup m k = Some v \<longrightarrow> P k v)"
  using set_go_range [OF order, of m] by auto

lemma bex_range: "(\<exists>p \<in> set (go_range it m). P (fst p) (snd p)) \<longleftrightarrow>
    (\<exists>k v. fmlookup m k = Some v \<and> P k v)"
  using set_go_range [OF order, of m] by auto

lemma length_range: "length (go_range it m) = fcard (fmdom m)"
  using distinct_card [OF range_order_distinct [OF order], of "fmdom m"]
  by (simp add: go_range_def range_order_set [OF order] fcard.rep_eq)

end

definition sorted_range :: range_fun where
  "sorted_range S = sorted_list_of_fset S"

lemma sorted_range_order: "range_order sorted_range"
  by (simp add: range_order_def sorted_range_def sorted_list_of_fset.rep_eq)

interpretation sorted_order: go_map_range sorted_range
  by unfold_locales (rule sorted_range_order)

lemma sorted_range_simps [simp]:
  "sorted_range {||} = []" "sorted_range {|x|} = [x]"
  using range_order_empty range_order_single sorted_range_order by auto

section \<open>Finite maps\<close>

lemma fmupd_cong: "fmupd k v m = fmupd k w m \<longleftrightarrow> v = w"
  by (metis fmupd_lookup option.inject)

lemma fmap_eqI: "(\<And>k. fmlookup m k = fmlookup n k) \<Longrightarrow> m = n"
  by (rule fmap_ext) blast

section \<open>Lists\<close>

text \<open>The first error that a check reports over a list, as a loop with an early return does.\<close>

fun first_error :: "('a \<Rightarrow> 'e option) \<Rightarrow> 'a list \<Rightarrow> 'e option" where
  "first_error f [] = None"
| "first_error f (x # xs) = (case f x of Some e \<Rightarrow> Some e | None \<Rightarrow> first_error f xs)"

lemma first_error_None: "first_error f xs = None \<longleftrightarrow> (\<forall>x \<in> set xs. f x = None)"
  by (induction xs) (auto split: option.splits)

lemma first_error_Some: "first_error f xs = Some e \<Longrightarrow> \<exists>x \<in> set xs. f x = Some e"
  by (induction xs) (auto split: option.splits)

lemma first_error_append:
  "first_error f (xs @ ys) = (case first_error f xs of Some e \<Rightarrow> Some e | None \<Rightarrow> first_error f ys)"
  by (induction xs) (auto split: option.splits)

lemma fold_invariant_mem:
  assumes "P s" and "\<And>x s. x \<in> set xs \<Longrightarrow> P s \<Longrightarrow> P (f x s)"
  shows "P (fold f xs s)"
  using assms by (induction xs arbitrary: s) auto

end
