(* ===== verification/Hlc.thy ===== *)
theory Hlc
  imports Prelude
begin

text \<open>
  Hybrid logical clocks (backend/internal/hub/crdt/op.go): the timestamp message \<open>HLC\<close>, its
  lexicographic comparison \<open>HLCCmp\<close>, and the \<open>Clock\<close> that the hub stamps canonical
  timestamps with. A pointer \<open>*HLC\<close> is an \<open>hlc option\<close>. The \<open>int64\<close> fields are integers and
  the increment of the logical counter wraps as Go's does, so that the strict growth of the
  clock is proved exactly where it holds: below the largest \<open>int64\<close>.
\<close>

record hlc =
  hlc_physical :: int
  hlc_logical :: int
  hlc_client :: ident

section \<open>Comparison\<close>

definition HLCCmp :: "hlc option \<Rightarrow> hlc option \<Rightarrow> int" where
  "HLCCmp x y = (case (x, y) of
       (None, None) \<Rightarrow> 0
     | (None, Some _) \<Rightarrow> - 1
     | (Some _, None) \<Rightarrow> 1
     | (Some a, Some b) \<Rightarrow>
         if hlc_physical a < hlc_physical b then - 1
         else if hlc_physical a > hlc_physical b then 1
         else if hlc_logical a < hlc_logical b then - 1
         else if hlc_logical a > hlc_logical b then 1
         else if hlc_client a < hlc_client b then - 1
         else if hlc_client a > hlc_client b then 1
         else 0)"

definition HLCIsZero :: "hlc option \<Rightarrow> bool" where
  "HLCIsZero x = (case x of None \<Rightarrow> True
     | Some h \<Rightarrow> hlc_physical h = 0 \<and> hlc_logical h = 0 \<and> hlc_client h = [])"

definition HLCClone :: "hlc option \<Rightarrow> hlc option" where
  "HLCClone x = (case x of None \<Rightarrow> None
     | Some h \<Rightarrow> Some \<lparr>hlc_physical = hlc_physical h, hlc_logical = hlc_logical h,
                       hlc_client = hlc_client h\<rparr>)"

lemma HLCIsZero_None [simp]: "HLCIsZero None"
  by (simp add: HLCIsZero_def)

lemma HLCClone_id [simp]: "HLCClone x = x"
  by (simp add: HLCClone_def split: option.splits)

text \<open>Timestamps are linearly ordered; \<open>HLCCmp\<close> is the comparison of that order, with the
  nil pointer below every timestamp.\<close>

instantiation hlc_ext :: (linorder) linorder
begin

definition less_eq_hlc_ext :: "'a hlc_scheme \<Rightarrow> 'a hlc_scheme \<Rightarrow> bool" where
  "less_eq_hlc_ext a b \<longleftrightarrow>
     hlc_physical a < hlc_physical b \<or> hlc_physical a = hlc_physical b \<and>
     (hlc_logical a < hlc_logical b \<or> hlc_logical a = hlc_logical b \<and>
     (hlc_client a < hlc_client b \<or> hlc_client a = hlc_client b \<and> hlc.more a \<le> hlc.more b))"

definition less_hlc_ext :: "'a hlc_scheme \<Rightarrow> 'a hlc_scheme \<Rightarrow> bool" where
  "less_hlc_ext a b \<longleftrightarrow> a \<le> b \<and> \<not> b \<le> a"

instance
proof
  fix x y z :: "'a hlc_scheme"
  show "(x < y) = (x \<le> y \<and> \<not> y \<le> x)" by (simp add: less_hlc_ext_def)
  show "x \<le> x" by (simp add: less_eq_hlc_ext_def)
  show "x \<le> y \<Longrightarrow> y \<le> z \<Longrightarrow> x \<le> z"
    by (auto simp: less_eq_hlc_ext_def)
  show "x \<le> y \<Longrightarrow> y \<le> x \<Longrightarrow> x = y"
    by (auto simp: less_eq_hlc_ext_def intro!: hlc.equality)
  show "x \<le> y \<or> y \<le> x"
    by (auto simp: less_eq_hlc_ext_def)
qed

end

lemma hlc_less_iff: "(a :: hlc) < b \<longleftrightarrow>
     hlc_physical a < hlc_physical b \<or> hlc_physical a = hlc_physical b \<and>
     (hlc_logical a < hlc_logical b \<or> hlc_logical a = hlc_logical b \<and> hlc_client a < hlc_client b)"
  by (auto simp: less_hlc_ext_def less_eq_hlc_ext_def)

lemma HLCCmp_Some: "HLCCmp (Some a) (Some b) = (if a < b then - 1 else if b < a then 1 else 0)"
  by (auto simp: HLCCmp_def hlc_less_iff)

lemma HLCCmp_order: "HLCCmp x y = (if x < y then - 1 else if y < x then 1 else 0)"
  by (cases x; cases y) (auto simp: HLCCmp_Some, auto simp: HLCCmp_def)

lemma HLCCmp_pos [hlc_simps]: "0 < HLCCmp x y \<longleftrightarrow> y < x"
  by (auto simp: HLCCmp_order)

lemma HLCCmp_nonpos [hlc_simps]: "HLCCmp x y \<le> 0 \<longleftrightarrow> x \<le> y"
  by (auto simp: HLCCmp_order not_less)

text \<open>The interface a three-way comparison promises its clients.\<close>

locale three_way =
  fixes cmp :: "'a \<Rightarrow> 'a \<Rightarrow> int"
  assumes cmp_zero: "cmp x y = 0 \<longleftrightarrow> x = y"
    and cmp_neg: "cmp x y < 0 \<longleftrightarrow> 0 < cmp y x"
    and cmp_trans: "0 < cmp x y \<Longrightarrow> 0 < cmp y z \<Longrightarrow> 0 < cmp x z"
begin

lemma cmp_total: "0 < cmp x y \<or> x = y \<or> 0 < cmp y x"
  using cmp_zero [of x y] cmp_neg [of x y] by linarith

lemma cmp_irrefl: "\<not> 0 < cmp x x"
  using cmp_zero [of x x] by simp

lemma cmp_asym: "0 < cmp x y \<Longrightarrow> \<not> 0 < cmp y x"
  using cmp_trans cmp_irrefl by blast

text \<open>Keeping the greater of two candidates is independent of the order in which they arrive.\<close>

definition keep_max :: "'a \<Rightarrow> 'a \<Rightarrow> 'a" where
  "keep_max new old = (if 0 < cmp new old then new else old)"

lemma keep_max_commute: "keep_max x (keep_max y z) = keep_max y (keep_max x z)"
  using cmp_total [of x y] cmp_total [of x z] cmp_total [of y z]
  by (auto simp: keep_max_def cmp_irrefl dest: cmp_asym intro: cmp_trans)

lemma keep_max_idem: "keep_max x (keep_max x z) = keep_max x z"
  by (simp add: keep_max_def cmp_irrefl)

end

interpretation hlc_cmp: three_way HLCCmp
  by unfold_locales (auto simp: HLCCmp_order split: if_splits)

section \<open>The clock\<close>

record clock =
  clock_client :: ident
  maxPhys :: int
  maxLog :: int

definition NewClock :: "ident \<Rightarrow> clock" where
  "NewClock c = \<lparr>clock_client = c, maxPhys = 0, maxLog = 0\<rparr>"

definition Current :: "clock \<Rightarrow> hlc" where
  "Current c = \<lparr>hlc_physical = maxPhys c, hlc_logical = maxLog c, hlc_client = clock_client c\<rparr>"

definition Tick :: "clock \<Rightarrow> int \<Rightarrow> clock \<times> hlc" where
  "Tick c now =
     (let c' = (if now > maxPhys c then c\<lparr>maxPhys := now, maxLog := 0\<rparr>
                else c\<lparr>maxLog := wrap64 (maxLog c + 1)\<rparr>)
      in (c', \<lparr>hlc_physical = maxPhys c', hlc_logical = maxLog c', hlc_client = clock_client c'\<rparr>))"

definition Observe :: "clock \<Rightarrow> hlc option \<Rightarrow> clock" where
  "Observe c remote = (case remote of None \<Rightarrow> c
     | Some r \<Rightarrow>
         if hlc_physical r > maxPhys c then c\<lparr>maxPhys := hlc_physical r, maxLog := hlc_logical r\<rparr>
         else if hlc_physical r = maxPhys c \<and> hlc_logical r > maxLog c then c\<lparr>maxLog := hlc_logical r\<rparr>
         else c)"

text \<open>The room left before the logical counter wraps. \<open>n\<close> more ticks fit.\<close>

definition clock_room :: "nat \<Rightarrow> clock \<Rightarrow> bool" where
  "clock_room n c \<longleftrightarrow> is_int64 (maxLog c) \<and> max 0 (maxLog c) + int n < 2 ^ 63"

definition hlc_le_clock :: "hlc option \<Rightarrow> clock \<Rightarrow> bool" where
  "hlc_le_clock x c = (case x of None \<Rightarrow> True
     | Some h \<Rightarrow> hlc_physical h < maxPhys c \<or> hlc_physical h = maxPhys c \<and> hlc_logical h \<le> maxLog c)"

lemma Tick_stamp: "snd (Tick c now) = Current (fst (Tick c now))"
  by (simp add: Tick_def Current_def Let_def)

lemma Tick_client [simp]: "clock_client (fst (Tick c now)) = clock_client c"
  by (simp add: Tick_def Let_def)

lemma Tick_future:
  assumes "now > maxPhys c"
  shows "Tick c now = (c\<lparr>maxPhys := now, maxLog := 0\<rparr>,
    \<lparr>hlc_physical = now, hlc_logical = 0, hlc_client = clock_client c\<rparr>)"
  using assms by (simp add: Tick_def Let_def)

lemma Tick_same:
  assumes "\<not> now > maxPhys c" and "clock_room 1 c"
  shows "Tick c now = (c\<lparr>maxLog := maxLog c + 1\<rparr>,
    \<lparr>hlc_physical = maxPhys c, hlc_logical = maxLog c + 1, hlc_client = clock_client c\<rparr>)"
proof -
  have "is_int64 (maxLog c + 1)"
    using assms(2) by (auto simp: clock_room_def is_int64_def)
  then show ?thesis using assms(1) by (simp add: Tick_def Let_def wrap64_id)
qed

lemma Tick_above:
  assumes "clock_room 1 c" and "hlc_le_clock x c"
  shows "x < Some (snd (Tick c now))"
proof (cases "now > maxPhys c")
  case True
  then show ?thesis using assms(2)
    by (auto simp: Tick_future hlc_le_clock_def hlc_less_iff split: option.splits)
next
  case False
  then show ?thesis using assms
    by (auto simp: Tick_same hlc_le_clock_def hlc_less_iff split: option.splits)
qed

lemma Tick_covers: "hlc_le_clock (Some (snd (Tick c now))) (fst (Tick c now))"
  by (simp add: Tick_def Let_def hlc_le_clock_def)

lemma Tick_mono:
  assumes "clock_room 1 c" and "hlc_le_clock x c"
  shows "hlc_le_clock x (fst (Tick c now))"
  using assms by (cases "now > maxPhys c")
    (auto simp: Tick_future Tick_same hlc_le_clock_def split: option.splits)

lemma Observe_covers: "hlc_le_clock x (Observe c x)"
  by (auto simp: Observe_def hlc_le_clock_def split: option.splits)

lemma Observe_mono: "hlc_le_clock y c \<Longrightarrow> hlc_le_clock y (Observe c x)"
  by (auto simp: Observe_def hlc_le_clock_def split: option.splits)

lemma clock_room_less: "clock_room n c \<Longrightarrow> m \<le> n \<Longrightarrow> clock_room m c"
  by (auto simp: clock_room_def)


lemma Tick_room:
  assumes "clock_room (Suc n) c"
  shows "clock_room n (fst (Tick c now))"
proof (cases "now > maxPhys c")
  case True
  with assms show ?thesis by (auto simp: Tick_future clock_room_def is_int64_def)
next
  case False
  moreover have "clock_room 1 c" using assms by (rule clock_room_less) simp
  ultimately show ?thesis using assms
    by (auto simp: Tick_same clock_room_def is_int64_def)
qed

end
