(* ===== verification/Float64.thy ===== *)
theory Float64
  imports Prelude "HOL-Library.Log_Nat"
begin

text \<open>
  Go's \<open>float64\<close> as the layout registers use it. A value is its 64-bit IEEE-754 pattern, so
  that \<open>-0\<close> and \<open>+0\<close> are different values with equal numeric value and NaN is a class of
  patterns. Comparison and arithmetic go through the exact rational value of a finite pattern;
  the result of an arithmetic operation is rounded to nearest, ties to even. All definitions
  compute.

  The file holds the numeric helpers of the layout engine: \<open>canonicalizeZero\<close>,
  \<open>canonicalizeZeros\<close> (state.go), \<open>finite\<close>, \<open>validRatios\<close> (validate.go),
  \<open>normalizeRatios\<close> (project.go) and \<open>EqualRatios\<close> (ratios.go).
\<close>

unbundle bit_operations_syntax

section \<open>Bit patterns\<close>

type_synonym float64 = "64 word"

definition f64_sign :: "float64 \<Rightarrow> bool" where
  "f64_sign w \<longleftrightarrow> bit w 63"

definition f64_expo :: "float64 \<Rightarrow> nat" where
  "f64_expo w = unat (take_bit 11 (drop_bit 52 w))"

definition f64_frac :: "float64 \<Rightarrow> nat" where
  "f64_frac w = unat (take_bit 52 w)"

definition IsNaN :: "float64 \<Rightarrow> bool" where
  "IsNaN w \<longleftrightarrow> f64_expo w = 2047 \<and> f64_frac w \<noteq> 0"

definition IsInf :: "float64 \<Rightarrow> bool" where
  "IsInf w \<longleftrightarrow> f64_expo w = 2047 \<and> f64_frac w = 0"

definition pow2 :: "int \<Rightarrow> rat" where
  "pow2 k = (if 0 \<le> k then 2 ^ nat k else 1 / 2 ^ nat (- k))"

lemma pow2_pos [simp]: "0 < pow2 k"
  by (simp add: pow2_def)

text \<open>The magnitude and the value of a finite pattern; subnormals have exponent field 0.\<close>

definition f64_mag :: "float64 \<Rightarrow> rat" where
  "f64_mag w =
     (if f64_expo w = 0 then of_nat (f64_frac w) * pow2 (- 1074)
      else of_nat (2 ^ 52 + f64_frac w) * pow2 (int (f64_expo w) - 1075))"

definition f64_rat :: "float64 \<Rightarrow> rat" where
  "f64_rat w = (if f64_sign w then - f64_mag w else f64_mag w)"

abbreviation f64_zero :: float64 where "f64_zero \<equiv> 0"
abbreviation f64_neg_zero :: float64 where "f64_neg_zero \<equiv> 0x8000000000000000"
abbreviation f64_one :: float64 where "f64_one \<equiv> 0x3FF0000000000000"
abbreviation f64_inf :: float64 where "f64_inf \<equiv> 0x7FF0000000000000"
abbreviation f64_nan :: float64 where "f64_nan \<equiv> 0x7FF8000000000001"

lemma f64_mag_nonneg [simp]: "0 \<le> f64_mag w"
  by (simp add: f64_mag_def order_less_imp_le)

lemma f64_mag_zero_iff: "f64_mag w = 0 \<longleftrightarrow> f64_expo w = 0 \<and> f64_frac w = 0"
proof -
  have *: "pow2 k \<noteq> 0" for k using pow2_pos [of k] by linarith
  have "(of_nat (2 ^ 52 + f64_frac w) :: rat) \<noteq> 0"
    by (simp only: of_nat_eq_0_iff) simp
  then show ?thesis using * by (auto simp: f64_mag_def)
qed

section \<open>Comparison\<close>

text \<open>Infinities compare outside the finite range; a comparison with NaN is false.\<close>

definition f64_lt :: "float64 \<Rightarrow> float64 \<Rightarrow> bool" where
  "f64_lt a b \<longleftrightarrow> \<not> IsNaN a \<and> \<not> IsNaN b \<and>
     (if IsInf a then f64_sign a \<and> \<not> (IsInf b \<and> f64_sign b)
      else if IsInf b then \<not> f64_sign b
      else f64_rat a < f64_rat b)"

definition f64_eq :: "float64 \<Rightarrow> float64 \<Rightarrow> bool" where
  "f64_eq a b \<longleftrightarrow> \<not> IsNaN a \<and> \<not> IsNaN b \<and>
     (if IsInf a \<or> IsInf b then a = b else f64_rat a = f64_rat b)"

definition f64_le :: "float64 \<Rightarrow> float64 \<Rightarrow> bool" where
  "f64_le a b \<longleftrightarrow> f64_lt a b \<or> f64_eq a b"

section \<open>Rounded arithmetic\<close>

definition round_half_even :: "rat \<Rightarrow> int" where
  "round_half_even q =
     (let f = \<lfloor>q\<rfloor>; d = q - of_int f
      in if d < 1/2 then f else if d > 1/2 then f + 1 else if even f then f else f + 1)"

definition floor_log2 :: "rat \<Rightarrow> int" where
  "floor_log2 r = (case quotient_of r of (n, d) \<Rightarrow>
     (let e = bitlen n - bitlen d in if pow2 e \<le> r then e else e - 1))"

definition f64_encode_mag :: "rat \<Rightarrow> float64" where
  "f64_encode_mag r =
     (if r = 0 then 0
      else let e = max (floor_log2 r) (- 1022);
               m = round_half_even (r * pow2 (52 - e));
               bits = (e + 1022) * 2 ^ 52 + m
           in if 2047 * 2 ^ 52 \<le> bits then f64_inf else word_of_int bits)"

definition f64_set_sign :: "bool \<Rightarrow> float64 \<Rightarrow> float64" where
  "f64_set_sign s w = (if s then w OR f64_neg_zero else w AND 0x7FFFFFFFFFFFFFFF)"

definition f64_neg :: "float64 \<Rightarrow> float64" where
  "f64_neg w = w XOR f64_neg_zero"

definition f64_abs :: "float64 \<Rightarrow> float64" where
  "f64_abs w = f64_set_sign False w"

definition f64_of_rat :: "bool \<Rightarrow> rat \<Rightarrow> float64" where
  "f64_of_rat zero_sign r =
     (if r = 0 then f64_set_sign zero_sign 0 else f64_set_sign (r < 0) (f64_encode_mag \<bar>r\<bar>))"

definition f64_add :: "float64 \<Rightarrow> float64 \<Rightarrow> float64" where
  "f64_add a b =
     (if IsNaN a \<or> IsNaN b then f64_nan
      else if IsInf a then (if IsInf b \<and> a \<noteq> b then f64_nan else a)
      else if IsInf b then b
      else f64_of_rat (f64_sign a \<and> f64_sign b) (f64_rat a + f64_rat b))"

definition f64_sub :: "float64 \<Rightarrow> float64 \<Rightarrow> float64" where
  "f64_sub a b = f64_add a (f64_neg b)"

text \<open>\<open>1.0 / float64(n)\<close> for a positive count \<open>n\<close>: one rounding to convert \<open>n\<close>, one to divide.\<close>

definition f64_of_int :: "int \<Rightarrow> float64" where
  "f64_of_int n = f64_of_rat False (of_int n)"

definition f64_inverse :: "float64 \<Rightarrow> float64" where
  "f64_inverse a =
     (if IsNaN a then f64_nan
      else if IsInf a then f64_set_sign (f64_sign a) 0
      else if f64_rat a = 0 then f64_set_sign (f64_sign a) f64_inf
      else f64_of_rat False (1 / f64_rat a))"

section \<open>The numeric helpers of the layout engine\<close>

definition canonicalizeZero :: "float64 \<Rightarrow> float64" where
  "canonicalizeZero v = (if f64_sign v \<and> f64_eq v f64_zero then f64_zero else v)"

definition canonicalizeZeros :: "float64 list \<Rightarrow> float64 list" where
  "canonicalizeZeros vs = map canonicalizeZero vs"

definition f64_finite :: "float64 \<Rightarrow> bool" where
  "f64_finite v \<longleftrightarrow> \<not> IsNaN v \<and> \<not> IsInf v"

definition ratioTolerance :: float64 where
  "ratioTolerance = f64_of_rat False (1 / 10 ^ 9)"

text \<open>The loop of \<open>validRatios\<close>: \<open>None\<close> is the early \<open>return false\<close>.\<close>

fun ratios_sum :: "float64 \<Rightarrow> float64 list \<Rightarrow> float64 option" where
  "ratios_sum s [] = Some s"
| "ratios_sum s (v # vs) =
     (if \<not> f64_finite v \<or> f64_lt v f64_zero then None else ratios_sum (f64_add s v) vs)"

definition validRatios :: "float64 list \<Rightarrow> bool" where
  "validRatios vs =
     (if vs = [] then True
      else case ratios_sum f64_zero vs of
             None \<Rightarrow> False
           | Some s \<Rightarrow> f64_lt (f64_abs (f64_sub s f64_one)) ratioTolerance)"

definition EqualRatios :: "int \<Rightarrow> float64 list" where
  "EqualRatios n = (if n \<le> 0 then [] else replicate (nat n) (f64_inverse (f64_of_int n)))"

text \<open>The overwrite loop of \<open>normalizeRatios\<close>: index \<open>i\<close> takes the given ratio if it is \<open>>= 0\<close>.\<close>

definition normalizeRatios :: "float64 list \<Rightarrow> int \<Rightarrow> float64 list" where
  "normalizeRatios rs n =
     (if n \<le> 0 then []
      else map (\<lambda>i. if i < length rs \<and> f64_le f64_zero (rs ! i) then rs ! i
                    else f64_inverse (f64_of_int n)) [0 ..< nat n])"

section \<open>Properties\<close>

lemma f64_zero_fields [simp]:
  "\<not> f64_sign f64_zero" "f64_expo f64_zero = 0" "f64_frac f64_zero = 0"
  "\<not> IsNaN f64_zero" "\<not> IsInf f64_zero" "f64_rat f64_zero = 0" "f64_mag f64_zero = 0"
  by (simp_all add: f64_sign_def f64_expo_def f64_frac_def IsNaN_def IsInf_def f64_rat_def f64_mag_def)

lemma canonicalizeZero_idem [simp]: "canonicalizeZero (canonicalizeZero v) = canonicalizeZero v"
  by (simp add: canonicalizeZero_def)

lemma canonicalizeZeros_idem [simp]: "canonicalizeZeros (canonicalizeZeros vs) = canonicalizeZeros vs"
  by (simp add: canonicalizeZeros_def)

lemma canonicalizeZero_value: "f64_rat (canonicalizeZero v) = f64_rat v"
  by (auto simp: canonicalizeZero_def f64_eq_def split: if_splits)

lemma ratios_sum_valid:
  "ratios_sum s vs = Some t \<Longrightarrow> \<forall>v \<in> set vs. f64_finite v \<and> \<not> f64_lt v f64_zero"
  by (induction vs arbitrary: s) (simp_all split: if_splits)

lemma f64_not_lt_zero: "f64_finite v \<Longrightarrow> \<not> f64_lt v f64_zero \<Longrightarrow> 0 \<le> f64_rat v"
  by (simp add: f64_lt_def f64_finite_def)

lemma validRatios_sum: "validRatios vs \<Longrightarrow> \<exists>t. ratios_sum f64_zero vs = Some t"
  by (auto simp: validRatios_def split: if_splits option.splits)

lemma validRatios_elements:
  assumes "validRatios vs" and "v \<in> set vs"
  shows "f64_finite v \<and> 0 \<le> f64_rat v"
proof -
  obtain t where "ratios_sum f64_zero vs = Some t"
    using validRatios_sum [OF assms(1)] by blast
  then have "f64_finite v \<and> \<not> f64_lt v f64_zero"
    using ratios_sum_valid assms(2) by blast
  then show ?thesis using f64_not_lt_zero by blast
qed

text \<open>The sum of a list in double precision, from left to right.\<close>

definition f64_sum :: "float64 list \<Rightarrow> float64" where
  "f64_sum vs = fold (\<lambda>v s. f64_add s v) vs f64_zero"

lemma ratios_sum_fold: "ratios_sum s vs = Some t \<Longrightarrow> t = fold (\<lambda>v s. f64_add s v) vs s"
  by (induction vs arbitrary: s) (simp_all split: if_splits)

lemma validRatios_total:
  assumes "validRatios vs" and "vs \<noteq> []"
  shows "f64_lt (f64_abs (f64_sub (f64_sum vs) f64_one)) ratioTolerance"
  using assms ratios_sum_fold [of f64_zero vs] by (auto simp: validRatios_def f64_sum_def split: option.splits)

lemma f64_set_sign_False: "\<not> f64_sign (f64_set_sign False w)"
  by (simp add: f64_set_sign_def f64_sign_def bit_and_iff)

lemma f64_add_sign:
  assumes "\<not> f64_sign s" and "0 \<le> f64_rat v" and "f64_finite v"
  shows "\<not> f64_sign (f64_add s v)"
proof -
  have "0 \<le> f64_rat s" using assms(1) by (simp add: f64_rat_def)
  then have "\<not> f64_rat s + f64_rat v < 0" using assms(2) by simp
  moreover have "\<not> f64_sign f64_nan" by (simp add: f64_sign_def)
  ultimately show ?thesis
    using assms(1,3) by (simp add: f64_add_def f64_of_rat_def f64_set_sign_False f64_finite_def)
qed

text \<open>Replacing a negative zero does not change a sum of values that are not negative: the partial
  sums never have the sign bit set.\<close>

lemma f64_add_canonicalizeZero:
  assumes "\<not> f64_sign s" and "f64_finite v"
  shows "f64_add s (canonicalizeZero v) = f64_add s v"
proof (cases "f64_sign v \<and> f64_eq v f64_zero")
  case True
  then have "f64_rat v = 0" using assms(2) by (simp add: f64_eq_def f64_finite_def)
  then show ?thesis using True assms by (simp add: canonicalizeZero_def f64_add_def f64_finite_def)
qed (simp only: canonicalizeZero_def if_False)

lemma fold_canonicalizeZeros:
  "\<not> f64_sign s \<Longrightarrow> \<forall>v \<in> set vs. f64_finite v \<and> 0 \<le> f64_rat v \<Longrightarrow>
    fold (\<lambda>v s. f64_add s v) (canonicalizeZeros vs) s = fold (\<lambda>v s. f64_add s v) vs s"
  by (induction vs arbitrary: s) (simp_all add: canonicalizeZeros_def f64_add_canonicalizeZero f64_add_sign)

lemma f64_sum_canonicalizeZeros:
  "\<forall>v \<in> set vs. f64_finite v \<and> 0 \<le> f64_rat v \<Longrightarrow> f64_sum (canonicalizeZeros vs) = f64_sum vs"
  by (simp add: f64_sum_def fold_canonicalizeZeros)

lemma length_normalizeRatios [simp]: "length (normalizeRatios rs n) = nat n"
  by (simp add: normalizeRatios_def)

end
