(* ===== verification/OrgOps.thy ===== *)
theory OrgOps
  imports Hlc Float64
begin

text \<open>
  The data of the workspace CRDT: the operation messages and the entity records
  (backend/internal/hub/crdt/op.go; the message shapes are those of
  proto/leapmux/v1/org\_ops.proto and org\_crdt.proto). A \<open>oneof\<close> is a datatype with one
  constructor per arm and one for the unset case; an enum is open, as proto3 enums are, so it
  carries a constructor for numbers outside the declared ones. A last-writer-wins register is
  a value with the timestamp of its last write, and an absent wrapper message is \<open>None\<close>.
\<close>

section \<open>Enumerations\<close>

datatype node_kind = NODE_KIND_UNSPECIFIED | NODE_KIND_LEAF | NODE_KIND_SPLIT | NODE_KIND_GRID
  | NODE_KIND_OTHER int

datatype split_direction = SPLIT_DIRECTION_UNSPECIFIED | SPLIT_DIRECTION_HORIZONTAL
  | SPLIT_DIRECTION_VERTICAL | SPLIT_DIRECTION_OTHER int

datatype tab_type = TAB_TYPE_UNSPECIFIED | TAB_TYPE_AGENT | TAB_TYPE_TERMINAL | TAB_TYPE_FILE
  | TAB_TYPE_OTHER int

section \<open>Operations\<close>

datatype node_field =
    NodeKindField node_kind
  | NodeParentId ident
  | NodePosition string
  | NodeDirection split_direction
  | NodeRatios "float64 list"
  | NodeRows "32 word"
  | NodeCols "32 word"
  | NodeRowRatios "float64 list"
  | NodeColRatios "float64 list"
  | NodeFieldUnset

datatype tab_field =
    TabTileId ident
  | TabPosition string
  | TabWorkerId ident
  | TabDisplayMode "32 word"
  | TabFileViewMode "32 word"
  | TabFileDiffBase string
  | TabFieldUnset

datatype window_field =
    WindowWorkspaceId ident
  | WindowX float64
  | WindowY float64
  | WindowWidth float64
  | WindowHeight float64
  | WindowOpacity float64
  | WindowRootNodeId ident
  | WindowFieldUnset

datatype op_body =
    SetNodeRegister ident node_field
  | TombstoneNode ident
  | SetTabRegister tab_type ident tab_field
  | TombstoneTab tab_type ident
  | SetFloatingWindowRegister ident window_field
  | TombstoneFloatingWindow ident
  | SetWorkspaceRootNode ident ident
  | BodyUnset

record org_op =
  op_org_id :: ident
  op_id :: ident
  op_origin_client :: ident
  op_client_hlc :: "hlc option"
  op_canonical_hlc :: "hlc option"
  op_body :: op_body

record op_batch =
  batch_id :: ident
  batch_ops :: "org_op list"

section \<open>Records\<close>

record 'a lww =
  lww_value :: 'a
  lww_hlc :: "hlc option"

record node_record =
  nd_node_id :: ident
  nd_kind :: "node_kind lww option"
  nd_parent_id :: ident
  nd_position :: "string lww option"
  nd_direction :: "split_direction lww option"
  nd_ratios :: "float64 list lww option"
  nd_rows :: "32 word lww option"
  nd_cols :: "32 word lww option"
  nd_row_ratios :: "float64 list lww option"
  nd_col_ratios :: "float64 list lww option"
  nd_tombstone_at :: "hlc option"

record tab_record =
  tb_tab_type :: tab_type
  tb_tab_id :: ident
  tb_tile_id :: "ident lww option"
  tb_position :: "string lww option"
  tb_worker_id :: "ident lww option"
  tb_display_mode :: "32 word lww option"
  tb_file_view_mode :: "32 word lww option"
  tb_file_diff_base :: "string lww option"
  tb_tombstone_at :: "hlc option"

record window_record =
  fw_window_id :: ident
  fw_workspace_id :: "ident lww option"
  fw_x :: "float64 lww option"
  fw_y :: "float64 lww option"
  fw_width :: "float64 lww option"
  fw_height :: "float64 lww option"
  fw_opacity :: "float64 lww option"
  fw_root_node_id :: ident
  fw_tombstone_at :: "hlc option"

record workspace_record =
  ws_workspace_id :: ident
  ws_root_node_id :: ident

record org_state =
  st_org_id :: ident
  st_nodes :: "(ident, node_record) fmap"
  st_tabs :: "(ident, tab_record) fmap"
  st_windows :: "(ident, window_record) fmap"
  st_workspaces :: "(ident, workspace_record) fmap"
  st_watermark :: "hlc option"
  st_max_hlc :: "hlc option"
  st_epoch :: int
  st_epoch_started :: "int option"

text \<open>The record that a struct literal naming only the identity fields denotes.\<close>

definition empty_node :: "ident \<Rightarrow> node_record" where
  "empty_node i = \<lparr>nd_node_id = i, nd_kind = None, nd_parent_id = empty_id, nd_position = None,
     nd_direction = None, nd_ratios = None, nd_rows = None, nd_cols = None,
     nd_row_ratios = None, nd_col_ratios = None, nd_tombstone_at = None\<rparr>"

definition empty_tab :: "tab_type \<Rightarrow> ident \<Rightarrow> tab_record" where
  "empty_tab ty i = \<lparr>tb_tab_type = ty, tb_tab_id = i, tb_tile_id = None, tb_position = None,
     tb_worker_id = None, tb_display_mode = None, tb_file_view_mode = None,
     tb_file_diff_base = None, tb_tombstone_at = None\<rparr>"

definition empty_window :: "ident \<Rightarrow> window_record" where
  "empty_window i = \<lparr>fw_window_id = i, fw_workspace_id = None, fw_x = None, fw_y = None,
     fw_width = None, fw_height = None, fw_opacity = None, fw_root_node_id = empty_id,
     fw_tombstone_at = None\<rparr>"

abbreviation node_live :: "node_record \<Rightarrow> bool" where
  "node_live n \<equiv> HLCIsZero (nd_tombstone_at n)"

abbreviation tab_live :: "tab_record \<Rightarrow> bool" where
  "tab_live t \<equiv> HLCIsZero (tb_tombstone_at t)"

abbreviation window_live :: "window_record \<Rightarrow> bool" where
  "window_live f \<equiv> HLCIsZero (fw_tombstone_at f)"

text \<open>The getters the code chains on a wrapper that may be nil.\<close>

abbreviation tile_of :: "tab_record \<Rightarrow> ident" where
  "tile_of t \<equiv> get_or empty_id lww_value (tb_tile_id t)"

abbreviation worker_of :: "tab_record \<Rightarrow> ident" where
  "worker_of t \<equiv> get_or empty_id lww_value (tb_worker_id t)"

abbreviation workspace_of :: "window_record \<Rightarrow> ident" where
  "workspace_of f \<equiv> get_or empty_id lww_value (fw_workspace_id f)"

abbreviation kind_of :: "node_record \<Rightarrow> node_kind" where
  "kind_of n \<equiv> get_or NODE_KIND_UNSPECIFIED lww_value (nd_kind n)"

abbreviation position_of :: "node_record \<Rightarrow> string" where
  "position_of n \<equiv> get_or [] lww_value (nd_position n)"

abbreviation tab_position_of :: "tab_record \<Rightarrow> string" where
  "tab_position_of t \<equiv> get_or [] lww_value (tb_position t)"

section \<open>Targets\<close>

text \<open>
  \<open>EntityRef\<close> names the entity an operation acts on. The struct of the source has one field
  per kind and leaves the others zero, so the tagged form carries the same information and has
  the same equality, which is what the maps keyed by it use.
\<close>

datatype entity_ref =
    EntityUnknown
  | EntityNode ident
  | EntityTab tab_type ident
  | EntityWindow ident
  | EntityWorkspaceRoot ident

fun OpTarget :: "op_body \<Rightarrow> entity_ref" where
  "OpTarget (SetNodeRegister i _) = EntityNode i"
| "OpTarget (TombstoneNode i) = EntityNode i"
| "OpTarget (SetTabRegister ty i _) = EntityTab ty i"
| "OpTarget (TombstoneTab ty i) = EntityTab ty i"
| "OpTarget (SetFloatingWindowRegister i _) = EntityWindow i"
| "OpTarget (TombstoneFloatingWindow i) = EntityWindow i"
| "OpTarget (SetWorkspaceRootNode ws _) = EntityWorkspaceRoot ws"
| "OpTarget BodyUnset = EntityUnknown"

fun IsTombstoneOp :: "op_body \<Rightarrow> bool" where
  "IsTombstoneOp (TombstoneNode _) = True"
| "IsTombstoneOp (TombstoneTab _ _) = True"
| "IsTombstoneOp (TombstoneFloatingWindow _) = True"
| "IsTombstoneOp _ = False"

abbreviation op_target :: "org_op \<Rightarrow> entity_ref" where
  "op_target p \<equiv> OpTarget (op_body p)"

text \<open>
  The JSON rendering of a target: the identifying fields by their wire names, none for an
  unknown kind.
\<close>

datatype json_id = JsonId ident | JsonTabType tab_type

fun entity_to_json :: "entity_ref \<Rightarrow> (string \<times> json_id) list" where
  "entity_to_json (EntityNode i) = [(''node_id'', JsonId i)]"
| "entity_to_json (EntityTab ty i) = [(''tab_type'', JsonTabType ty), (''tab_id'', JsonId i)]"
| "entity_to_json (EntityWindow i) = [(''window_id'', JsonId i)]"
| "entity_to_json (EntityWorkspaceRoot i) = [(''workspace_id'', JsonId i)]"
| "entity_to_json EntityUnknown = []"

text \<open>
  \<open>BatchBodyHash\<close> hashes the deterministic encoding of the batch with everything but the
  operation bodies stripped. The encoder and SHA-256 are parameters (\<open>marshal\<close> gives
  \<open>None\<close> on an encoding error).
\<close>

definition strip_op :: "org_op \<Rightarrow> org_op" where
  "strip_op p = \<lparr>op_org_id = empty_id, op_id = empty_id, op_origin_client = empty_id,
     op_client_hlc = None, op_canonical_hlc = None, op_body = op_body p\<rparr>"

definition BatchBodyHash ::
    "(op_batch \<Rightarrow> 'b option) \<Rightarrow> ('b \<Rightarrow> 'h) \<Rightarrow> op_batch \<Rightarrow> 'h option" where
  "BatchBodyHash marshal sha b =
     map_option sha (marshal \<lparr>batch_id = empty_id, batch_ops = map strip_op (batch_ops b)\<rparr>)"

lemma BatchBodyHash_bodies:
  assumes "map op_body (batch_ops b) = map op_body (batch_ops b')"
  shows "BatchBodyHash marshal sha b = BatchBodyHash marshal sha b'"
proof -
  have "map strip_op xs = map (strip_op o (\<lambda>y. \<lparr>op_org_id = empty_id, op_id = empty_id,
      op_origin_client = empty_id, op_client_hlc = None, op_canonical_hlc = None, op_body = y\<rparr>))
      (map op_body xs)" for xs
    by (simp add: strip_op_def)
  then have "map strip_op (batch_ops b) = map strip_op (batch_ops b')"
    using assms by metis
  then show ?thesis by (simp add: BatchBodyHash_def)
qed

end
