(* ===== verification/OrgState.thy ===== *)
theory OrgState
  imports OrgOps
begin

text \<open>
  The transition function of the CRDT (backend/internal/hub/crdt/state.go): \<open>Apply\<close> and the
  per-entity transitions it dispatches to, the last-writer-wins write helpers, the empty
  state, tombstone pruning and the working copy a validation pass runs on. The Go functions
  mutate the state through a pointer; the definitions here return the new state.
\<close>

section \<open>Registers\<close>

definition shouldWrite :: "hlc option \<Rightarrow> hlc \<Rightarrow> bool" where
  "shouldWrite current h \<longleftrightarrow> HLCCmp (Some h) current > 0"

text \<open>The body shared by the typed helpers: replace the whole wrapper when the write is newer.\<close>

definition setLWW :: "'a lww option \<Rightarrow> hlc \<Rightarrow> 'a \<Rightarrow> 'a lww option" where
  "setLWW slot h v =
     (if shouldWrite (get_or None lww_hlc slot) h
      then Some \<lparr>lww_value = v, lww_hlc = HLCClone (Some h)\<rparr> else slot)"

definition setLWWString :: "string lww option \<Rightarrow> hlc \<Rightarrow> string \<Rightarrow> string lww option" where
  "setLWWString slot h v = setLWW slot h v"

definition setLWWInt32 :: "32 word lww option \<Rightarrow> hlc \<Rightarrow> 32 word \<Rightarrow> 32 word lww option" where
  "setLWWInt32 slot h v = setLWW slot h v"

definition setLWWUint32 :: "32 word lww option \<Rightarrow> hlc \<Rightarrow> 32 word \<Rightarrow> 32 word lww option" where
  "setLWWUint32 slot h v = setLWW slot h v"

definition setLWWDouble :: "float64 lww option \<Rightarrow> hlc \<Rightarrow> float64 \<Rightarrow> float64 lww option" where
  "setLWWDouble slot h v = setLWW slot h (canonicalizeZero v)"

definition setLWWDoubles ::
    "float64 list lww option \<Rightarrow> hlc \<Rightarrow> float64 list \<Rightarrow> float64 list lww option" where
  "setLWWDoubles slot h vs = setLWW slot h (canonicalizeZeros vs)"

definition setLWWDirection ::
    "split_direction lww option \<Rightarrow> hlc \<Rightarrow> split_direction \<Rightarrow> split_direction lww option" where
  "setLWWDirection slot h v = setLWW slot h v"

definition setLWWNodeKind ::
    "node_kind lww option \<Rightarrow> hlc \<Rightarrow> node_kind \<Rightarrow> node_kind lww option" where
  "setLWWNodeKind slot h v = setLWW slot h v"

lemmas lww_defs = setLWWString_def setLWWInt32_def setLWWUint32_def setLWWDouble_def
  setLWWDoubles_def setLWWDirection_def setLWWNodeKind_def

definition advanceMaxHLC :: "org_state \<Rightarrow> hlc \<Rightarrow> org_state" where
  "advanceMaxHLC s h =
     (if HLCCmp (Some h) (st_max_hlc s) > 0 then s\<lparr>st_max_hlc := HLCClone (Some h)\<rparr> else s)"

section \<open>Transitions on one record\<close>

text \<open>
  The \<open>switch\<close> on the register of a set operation, on a record that is already known to be
  live.
\<close>

fun write_node_field :: "node_field \<Rightarrow> hlc \<Rightarrow> node_record \<Rightarrow> node_record" where
  "write_node_field (NodeKindField v) h r = r\<lparr>nd_kind := setLWWNodeKind (nd_kind r) h v\<rparr>"
| "write_node_field (NodeParentId v) h r =
     (if nd_parent_id r = empty_id then r\<lparr>nd_parent_id := v\<rparr> else r)"
| "write_node_field (NodePosition v) h r = r\<lparr>nd_position := setLWWString (nd_position r) h v\<rparr>"
| "write_node_field (NodeDirection v) h r = r\<lparr>nd_direction := setLWWDirection (nd_direction r) h v\<rparr>"
| "write_node_field (NodeRatios v) h r = r\<lparr>nd_ratios := setLWWDoubles (nd_ratios r) h v\<rparr>"
| "write_node_field (NodeRows v) h r = r\<lparr>nd_rows := setLWWUint32 (nd_rows r) h v\<rparr>"
| "write_node_field (NodeCols v) h r = r\<lparr>nd_cols := setLWWUint32 (nd_cols r) h v\<rparr>"
| "write_node_field (NodeRowRatios v) h r = r\<lparr>nd_row_ratios := setLWWDoubles (nd_row_ratios r) h v\<rparr>"
| "write_node_field (NodeColRatios v) h r = r\<lparr>nd_col_ratios := setLWWDoubles (nd_col_ratios r) h v\<rparr>"
| "write_node_field NodeFieldUnset h r = r"

fun write_tab_field :: "tab_field \<Rightarrow> hlc \<Rightarrow> tab_record \<Rightarrow> tab_record" where
  "write_tab_field (TabTileId v) h r = r\<lparr>tb_tile_id := setLWWString (tb_tile_id r) h v\<rparr>"
| "write_tab_field (TabPosition v) h r = r\<lparr>tb_position := setLWWString (tb_position r) h v\<rparr>"
| "write_tab_field (TabWorkerId v) h r = r\<lparr>tb_worker_id := setLWWString (tb_worker_id r) h v\<rparr>"
| "write_tab_field (TabDisplayMode v) h r = r\<lparr>tb_display_mode := setLWWInt32 (tb_display_mode r) h v\<rparr>"
| "write_tab_field (TabFileViewMode v) h r =
     r\<lparr>tb_file_view_mode := setLWWInt32 (tb_file_view_mode r) h v\<rparr>"
| "write_tab_field (TabFileDiffBase v) h r =
     r\<lparr>tb_file_diff_base := setLWWString (tb_file_diff_base r) h v\<rparr>"
| "write_tab_field TabFieldUnset h r = r"

fun write_window_field :: "window_field \<Rightarrow> hlc \<Rightarrow> window_record \<Rightarrow> window_record" where
  "write_window_field (WindowWorkspaceId v) h r =
     r\<lparr>fw_workspace_id := setLWWString (fw_workspace_id r) h v\<rparr>"
| "write_window_field (WindowX v) h r = r\<lparr>fw_x := setLWWDouble (fw_x r) h v\<rparr>"
| "write_window_field (WindowY v) h r = r\<lparr>fw_y := setLWWDouble (fw_y r) h v\<rparr>"
| "write_window_field (WindowWidth v) h r = r\<lparr>fw_width := setLWWDouble (fw_width r) h v\<rparr>"
| "write_window_field (WindowHeight v) h r = r\<lparr>fw_height := setLWWDouble (fw_height r) h v\<rparr>"
| "write_window_field (WindowOpacity v) h r = r\<lparr>fw_opacity := setLWWDouble (fw_opacity r) h v\<rparr>"
| "write_window_field (WindowRootNodeId v) h r =
     (if fw_root_node_id r = empty_id then r\<lparr>fw_root_node_id := v\<rparr> else r)"
| "write_window_field WindowFieldUnset h r = r"

text \<open>
  One entity's slot of its map, before and after an operation: \<open>None\<close> is an absent key. A set
  operation creates the record when it is absent and is dropped on a tombstoned one
  (remove-wins); a tombstone replaces the record by the cleared form.
\<close>

definition step_set_node :: "ident \<Rightarrow> node_field \<Rightarrow> hlc \<Rightarrow> node_record option \<Rightarrow> node_record option" where
  "step_set_node i fld h slot =
     (let r = (case slot of None \<Rightarrow> empty_node i | Some r \<Rightarrow> r)
      in Some (if node_live r then write_node_field fld h r else r))"

definition step_tombstone_node :: "ident \<Rightarrow> hlc \<Rightarrow> node_record option \<Rightarrow> node_record option" where
  "step_tombstone_node i h slot =
     (if slot = None \<or> HLCCmp (Some h) (get_or None nd_tombstone_at slot) > 0
      then Some ((empty_node i)\<lparr>nd_tombstone_at := HLCClone (Some h)\<rparr>) else slot)"

definition step_set_tab ::
    "tab_type \<Rightarrow> ident \<Rightarrow> tab_field \<Rightarrow> hlc \<Rightarrow> tab_record option \<Rightarrow> tab_record option" where
  "step_set_tab ty i fld h slot =
     (let r = (case slot of None \<Rightarrow> empty_tab ty i | Some r \<Rightarrow> r)
      in Some (if tb_tab_type r \<noteq> ty then r
               else if \<not> tab_live r then r
               else write_tab_field fld h r))"

definition step_tombstone_tab ::
    "tab_type \<Rightarrow> ident \<Rightarrow> hlc \<Rightarrow> tab_record option \<Rightarrow> tab_record option" where
  "step_tombstone_tab ty i h slot =
     (if slot = None \<or> HLCCmp (Some h) (get_or None tb_tombstone_at slot) > 0
      then let ty' = (case slot of None \<Rightarrow> ty | Some r \<Rightarrow> tb_tab_type r)
           in Some ((empty_tab ty' i)\<lparr>tb_tombstone_at := HLCClone (Some h)\<rparr>)
      else slot)"

definition step_set_window ::
    "ident \<Rightarrow> window_field \<Rightarrow> hlc \<Rightarrow> window_record option \<Rightarrow> window_record option" where
  "step_set_window i fld h slot =
     (let r = (case slot of None \<Rightarrow> empty_window i | Some r \<Rightarrow> r)
      in Some (if window_live r then write_window_field fld h r else r))"

definition step_tombstone_window :: "ident \<Rightarrow> hlc \<Rightarrow> window_record option \<Rightarrow> window_record option" where
  "step_tombstone_window i h slot =
     (if slot = None \<or> HLCCmp (Some h) (get_or None fw_tombstone_at slot) > 0
      then Some ((empty_window i)\<lparr>fw_tombstone_at := HLCClone (Some h)\<rparr>) else slot)"

definition step_set_root :: "ident \<Rightarrow> ident \<Rightarrow> workspace_record option \<Rightarrow> workspace_record option" where
  "step_set_root ws rid slot =
     (let r = (case slot of None \<Rightarrow> \<lparr>ws_workspace_id = ws, ws_root_node_id = empty_id\<rparr> | Some r \<Rightarrow> r)
      in Some (if ws_root_node_id r = empty_id then r\<lparr>ws_root_node_id := rid\<rparr> else r))"

section \<open>Transitions on the state\<close>

text \<open>Rewriting one slot of a map.\<close>

definition fmslot :: "'k \<Rightarrow> ('v option \<Rightarrow> 'v option) \<Rightarrow> ('k, 'v) fmap \<Rightarrow> ('k, 'v) fmap" where
  "fmslot k f m = (case f (fmlookup m k) of None \<Rightarrow> fmdrop k m | Some v \<Rightarrow> fmupd k v m)"

definition applySetNodeRegister :: "org_state \<Rightarrow> ident \<Rightarrow> node_field \<Rightarrow> hlc \<Rightarrow> org_state" where
  "applySetNodeRegister s i fld h = s\<lparr>st_nodes := fmslot i (step_set_node i fld h) (st_nodes s)\<rparr>"

definition applyTombstoneNode :: "org_state \<Rightarrow> ident \<Rightarrow> hlc \<Rightarrow> org_state" where
  "applyTombstoneNode s i h = s\<lparr>st_nodes := fmslot i (step_tombstone_node i h) (st_nodes s)\<rparr>"

definition applySetTabRegister ::
    "org_state \<Rightarrow> tab_type \<Rightarrow> ident \<Rightarrow> tab_field \<Rightarrow> hlc \<Rightarrow> org_state" where
  "applySetTabRegister s ty i fld h = s\<lparr>st_tabs := fmslot i (step_set_tab ty i fld h) (st_tabs s)\<rparr>"

definition applyTombstoneTab :: "org_state \<Rightarrow> tab_type \<Rightarrow> ident \<Rightarrow> hlc \<Rightarrow> org_state" where
  "applyTombstoneTab s ty i h = s\<lparr>st_tabs := fmslot i (step_tombstone_tab ty i h) (st_tabs s)\<rparr>"

definition applySetFloatingWindowRegister ::
    "org_state \<Rightarrow> ident \<Rightarrow> window_field \<Rightarrow> hlc \<Rightarrow> org_state" where
  "applySetFloatingWindowRegister s i fld h =
     s\<lparr>st_windows := fmslot i (step_set_window i fld h) (st_windows s)\<rparr>"

definition applyTombstoneFloatingWindow :: "org_state \<Rightarrow> ident \<Rightarrow> hlc \<Rightarrow> org_state" where
  "applyTombstoneFloatingWindow s i h =
     s\<lparr>st_windows := fmslot i (step_tombstone_window i h) (st_windows s)\<rparr>"

definition applySetWorkspaceRootNode :: "org_state \<Rightarrow> ident \<Rightarrow> ident \<Rightarrow> org_state" where
  "applySetWorkspaceRootNode s ws rid =
     s\<lparr>st_workspaces := fmslot ws (step_set_root ws rid) (st_workspaces s)\<rparr>"

fun apply_body :: "op_body \<Rightarrow> hlc \<Rightarrow> org_state \<Rightarrow> org_state" where
  "apply_body (SetNodeRegister i fld) h s = applySetNodeRegister s i fld h"
| "apply_body (TombstoneNode i) h s = applyTombstoneNode s i h"
| "apply_body (SetTabRegister ty i fld) h s = applySetTabRegister s ty i fld h"
| "apply_body (TombstoneTab ty i) h s = applyTombstoneTab s ty i h"
| "apply_body (SetFloatingWindowRegister i fld) h s = applySetFloatingWindowRegister s i fld h"
| "apply_body (TombstoneFloatingWindow i) h s = applyTombstoneFloatingWindow s i h"
| "apply_body (SetWorkspaceRootNode ws rid) h s = applySetWorkspaceRootNode s ws rid"
| "apply_body BodyUnset h s = s"

definition Apply :: "org_op \<Rightarrow> org_state \<Rightarrow> org_state" where
  "Apply p s = (case op_canonical_hlc p of None \<Rightarrow> s
     | Some h \<Rightarrow> apply_body (op_body p) h (advanceMaxHLC s h))"

definition apply_all :: "org_op list \<Rightarrow> org_state \<Rightarrow> org_state" where
  "apply_all ops s = fold Apply ops s"

definition NewState :: "ident \<Rightarrow> org_state" where
  "NewState org = \<lparr>st_org_id = org, st_nodes = fmempty, st_tabs = fmempty, st_windows = fmempty,
     st_workspaces = fmempty, st_watermark = None,
     st_max_hlc = Some \<lparr>hlc_physical = 0, hlc_logical = 0, hlc_client = empty_id\<rparr>,
     st_epoch = 1, st_epoch_started = None\<rparr>"

section \<open>Pruning\<close>

definition prune_map :: "range_fun \<Rightarrow> ('v \<Rightarrow> hlc option) \<Rightarrow> hlc option \<Rightarrow> (ident, 'v) fmap \<Rightarrow>
    (ident, 'v) fmap \<times> nat" where
  "prune_map it ts wm m =
     fold (\<lambda>(k, r) (acc, n).
             if HLCIsZero (ts r) then (acc, n)
             else if HLCCmp (ts r) wm \<le> 0 then (fmdrop k acc, Suc n) else (acc, n))
       (go_range it m) (m, 0)"

definition PruneTombstonesAtOrBelow :: "range_fun \<Rightarrow> org_state \<Rightarrow> hlc option \<Rightarrow> org_state \<times> nat" where
  "PruneTombstonesAtOrBelow it s wm =
     (if HLCIsZero wm then (s, 0)
      else let (ns, a) = prune_map it nd_tombstone_at wm (st_nodes s);
               (ts, b) = prune_map it tb_tombstone_at wm (st_tabs s);
               (fs, c) = prune_map it fw_tombstone_at wm (st_windows s)
           in (s\<lparr>st_nodes := ns, st_tabs := ts, st_windows := fs\<rparr>, a + b + c))"

end
