(* ===== verification/Converge.thy ===== *)
theory Converge
  imports OrgState
begin

text \<open>
  Convergence: the transition function gives the same state for every order of a compatible
  operation log. Two operations are compatible when their canonical timestamps are distinct
  and not zero, they do not assign different non-empty values to the same set-once register,
  and they agree on the type of a tab they both name. Compatible operations commute on every
  state, and the interface \<open>commuting_log\<close> lifts that to permutations.
\<close>

section \<open>The abstract argument\<close>

locale commuting_log =
  fixes step :: "'op \<Rightarrow> 'st \<Rightarrow> 'st" and compat :: "'op \<Rightarrow> 'op \<Rightarrow> bool"
  assumes commute: "compat p q \<Longrightarrow> step p (step q s) = step q (step p s)"
begin

lemma step_past:
  assumes "\<And>q. q \<in> set qs \<Longrightarrow> compat p q"
  shows "fold step qs (step p s) = step p (fold step qs s)"
  using assms
proof (induction qs arbitrary: s)
  case (Cons q qs)
  then have "step q (step p s) = step p (step q s)" by (metis commute list.set_intros(1))
  with Cons show ?case by simp
qed simp

lemma converges:
  assumes "sorted_wrt compat ps" and "mset ps = mset qs"
  shows "fold step ps s = fold step qs s"
  using assms
proof (induction ps arbitrary: qs s)
  case Nil
  then show ?case by simp
next
  case (Cons p ps)
  from Cons.prems(2) have "p \<in># mset qs" by (metis union_single_eq_member mset.simps(2))
  then obtain as bs where qs: "qs = as @ p # bs" by (auto dest: split_list)
  with Cons.prems(2) have perm: "mset ps = mset (as @ bs)" by simp
  have "compat p q" if "q \<in> set as" for q
  proof -
    have "q \<in> set ps" using that perm by (metis Un_iff set_append set_mset_mset)
    then show ?thesis using Cons.prems(1) by simp
  qed
  then have "fold step qs s = fold step bs (fold step as (step p s))"
    by (simp add: qs step_past)
  also have "\<dots> = fold step (as @ bs) (step p s)" by simp
  also have "\<dots> = fold step ps (step p s)"
    using Cons.IH [OF _ perm] Cons.prems(1) by simp
  finally show ?case by simp
qed

end

section \<open>Compatible operations\<close>

fun set_once_conflict :: "op_body \<Rightarrow> op_body \<Rightarrow> bool" where
  "set_once_conflict (SetNodeRegister i (NodeParentId u)) (SetNodeRegister j (NodeParentId v)) =
     (i = j \<and> u \<noteq> empty_id \<and> v \<noteq> empty_id \<and> u \<noteq> v)"
| "set_once_conflict (SetFloatingWindowRegister i (WindowRootNodeId u))
     (SetFloatingWindowRegister j (WindowRootNodeId v)) =
     (i = j \<and> u \<noteq> empty_id \<and> v \<noteq> empty_id \<and> u \<noteq> v)"
| "set_once_conflict (SetWorkspaceRootNode i u) (SetWorkspaceRootNode j v) =
     (i = j \<and> u \<noteq> empty_id \<and> v \<noteq> empty_id \<and> u \<noteq> v)"
| "set_once_conflict _ _ = False"

fun tab_type_conflict :: "op_body \<Rightarrow> op_body \<Rightarrow> bool" where
  "tab_type_conflict b c = (case (OpTarget b, OpTarget c) of
     (EntityTab t i, EntityTab u j) \<Rightarrow> i = j \<and> t \<noteq> u | _ \<Rightarrow> False)"

definition op_compat :: "org_op \<Rightarrow> org_op \<Rightarrow> bool" where
  "op_compat p q \<longleftrightarrow>
     \<not> HLCIsZero (op_canonical_hlc p) \<and> \<not> HLCIsZero (op_canonical_hlc q) \<and>
     op_canonical_hlc p \<noteq> op_canonical_hlc q \<and>
     \<not> set_once_conflict (op_body p) (op_body q) \<and> \<not> tab_type_conflict (op_body p) (op_body q)"

section \<open>Slots\<close>

lemma fmlookup_fmslot [simp]:
  "fmlookup (fmslot k f m) j = (if j = k then f (fmlookup m k) else fmlookup m j)"
  by (auto simp: fmslot_def split: option.splits)

lemma fmslot_other: "k \<noteq> j \<Longrightarrow> fmslot k f (fmslot j g m) = fmslot j g (fmslot k f m)"
  by (rule fmap_eqI) auto

lemma fmslot_commute:
  assumes "\<And>x. f (g x) = g (f x)"
  shows "fmslot k f (fmslot k g m) = fmslot k g (fmslot k f m)"
  by (rule fmap_eqI) (simp add: assms)

lemma fmslot_both:
  assumes "k = j \<Longrightarrow> (\<And>x. f (g x) = g (f x))"
  shows "fmslot k f (fmslot j g m) = fmslot j g (fmslot k f m)"
  using assms by (cases "k = j") (auto intro: fmslot_commute fmslot_other)

section \<open>Registers commute\<close>

lemma shouldWrite_iff [hlc_simps]: "shouldWrite x h \<longleftrightarrow> x < Some h"
  by (simp add: shouldWrite_def hlc_simps)

lemma opt_less_up: "x < Some h \<Longrightarrow> h < k \<Longrightarrow> x < Some (k :: hlc)"
  and opt_less_between: "\<not> x < Some h \<Longrightarrow> x < Some k \<Longrightarrow> h < (k :: hlc)"
  by (cases x; auto)+

lemma setLWW_commute:
  assumes "h \<noteq> k"
  shows "setLWW (setLWW s h v) k w = setLWW (setLWW s k w) h v"
  using assms by (cases s) (auto simp: setLWW_def hlc_simps dest: opt_less_up opt_less_between)

lemma write_node_field_live [simp]:
  "nd_tombstone_at (write_node_field f h r) = nd_tombstone_at r"
  "nd_node_id (write_node_field f h r) = nd_node_id r"
  by (cases f; simp)+

lemma write_tab_field_live [simp]:
  "tb_tombstone_at (write_tab_field f h r) = tb_tombstone_at r"
  "tb_tab_type (write_tab_field f h r) = tb_tab_type r"
  "tb_tab_id (write_tab_field f h r) = tb_tab_id r"
  by (cases f; simp)+

lemma write_window_field_live [simp]:
  "fw_tombstone_at (write_window_field f h r) = fw_tombstone_at r"
  "fw_window_id (write_window_field f h r) = fw_window_id r"
  by (cases f; simp)+

lemma write_node_field_commute:
  assumes hk: "h \<noteq> k" and "\<not> set_once_conflict (SetNodeRegister i f) (SetNodeRegister i g)"
  shows "write_node_field f h (write_node_field g k r) = write_node_field g k (write_node_field f h r)"
  using assms(2) by (cases f; cases g) (auto simp: lww_defs setLWW_commute [OF assms(1)])

lemma write_tab_field_commute:
  assumes "h \<noteq> k"
  shows "write_tab_field f h (write_tab_field g k r) = write_tab_field g k (write_tab_field f h r)"
  by (cases f; cases g) (simp_all add: lww_defs setLWW_commute [OF assms])

lemma write_window_field_commute:
  assumes "h \<noteq> k"
    and "\<not> set_once_conflict (SetFloatingWindowRegister i f) (SetFloatingWindowRegister i g)"
  shows "write_window_field f h (write_window_field g k r) =
    write_window_field g k (write_window_field f h r)"
  using assms(2) by (cases f; cases g) (auto simp: lww_defs setLWW_commute [OF assms(1)])

section \<open>Steps commute\<close>

lemma empty_records_live [simp]:
  "nd_tombstone_at (empty_node i) = None" "tb_tombstone_at (empty_tab ty i) = None"
  "fw_tombstone_at (empty_window i) = None" "tb_tab_type (empty_tab ty i) = ty"
  by (simp_all add: empty_node_def empty_tab_def empty_window_def)

lemma set_set_node:
  assumes "h \<noteq> k" and "\<not> set_once_conflict (SetNodeRegister i f) (SetNodeRegister i g)"
  shows "step_set_node i f h (step_set_node i g k x) = step_set_node i g k (step_set_node i f h x)"
  using write_node_field_commute [OF assms] by (auto simp: step_set_node_def Let_def split: option.splits)

lemma set_tomb_node:
  assumes "\<not> HLCIsZero (Some k)"
  shows "step_set_node i f h (step_tombstone_node i k x) = step_tombstone_node i k (step_set_node i f h x)"
  using assms by (auto simp: step_set_node_def step_tombstone_node_def Let_def hlc_simps split: option.splits)

lemma tomb_tomb_node:
  "step_tombstone_node i h (step_tombstone_node i k x) = step_tombstone_node i k (step_tombstone_node i h x)"
  by (cases x) (auto simp: step_tombstone_node_def hlc_simps dest: opt_less_up opt_less_between)

lemma set_set_tab:
  assumes "h \<noteq> k"
  shows "step_set_tab ty i f h (step_set_tab ty i g k x) = step_set_tab ty i g k (step_set_tab ty i f h x)"
  using write_tab_field_commute [OF assms] by (auto simp: step_set_tab_def Let_def split: option.splits)

lemma set_tomb_tab:
  assumes "\<not> HLCIsZero (Some k)"
  shows "step_set_tab ty i f h (step_tombstone_tab ty i k x) = step_tombstone_tab ty i k (step_set_tab ty i f h x)"
  using assms by (auto simp: step_set_tab_def step_tombstone_tab_def Let_def hlc_simps split: option.splits)

lemma tomb_tomb_tab:
  "step_tombstone_tab ty i h (step_tombstone_tab ty i k x) =
    step_tombstone_tab ty i k (step_tombstone_tab ty i h x)"
  by (cases x) (auto simp: step_tombstone_tab_def hlc_simps dest: opt_less_up opt_less_between)

lemma set_set_window:
  assumes "h \<noteq> k"
    and "\<not> set_once_conflict (SetFloatingWindowRegister i f) (SetFloatingWindowRegister i g)"
  shows "step_set_window i f h (step_set_window i g k x) = step_set_window i g k (step_set_window i f h x)"
  using write_window_field_commute [OF assms] by (auto simp: step_set_window_def Let_def split: option.splits)

lemma set_tomb_window:
  assumes "\<not> HLCIsZero (Some k)"
  shows "step_set_window i f h (step_tombstone_window i k x) = step_tombstone_window i k (step_set_window i f h x)"
  using assms by (auto simp: step_set_window_def step_tombstone_window_def Let_def hlc_simps split: option.splits)

lemma tomb_tomb_window:
  "step_tombstone_window i h (step_tombstone_window i k x) = step_tombstone_window i k (step_tombstone_window i h x)"
  by (cases x) (auto simp: step_tombstone_window_def hlc_simps dest: opt_less_up opt_less_between)

lemma set_set_root:
  assumes "\<not> set_once_conflict (SetWorkspaceRootNode i u) (SetWorkspaceRootNode i v)"
  shows "step_set_root i u (step_set_root i v x) = step_set_root i v (step_set_root i u x)"
  using assms by (cases x) (auto simp: step_set_root_def Let_def)

lemmas step_commute = set_set_node set_tomb_node tomb_tomb_node set_set_tab set_tomb_tab
  tomb_tomb_tab set_set_window set_tomb_window tomb_tomb_window set_set_root

section \<open>Operations commute\<close>

lemmas apply_defs = applySetNodeRegister_def applyTombstoneNode_def applySetTabRegister_def
  applyTombstoneTab_def applySetFloatingWindowRegister_def applyTombstoneFloatingWindow_def
  applySetWorkspaceRootNode_def

lemma set_once_conflict_sym: "set_once_conflict b c \<longleftrightarrow> set_once_conflict c b"
proof -
  have "set_once_conflict b c \<Longrightarrow> set_once_conflict c b" for b c
    by (induction b c rule: set_once_conflict.induct) auto
  then show ?thesis by blast
qed

lemma apply_body_commute:
  assumes "h \<noteq> k" "\<not> HLCIsZero (Some h)" "\<not> HLCIsZero (Some k)"
    and "\<not> set_once_conflict b c" and "\<not> tab_type_conflict b c"
  shows "apply_body b h (apply_body c k s) = apply_body c k (apply_body b h s)"
  using assms assms(4) [unfolded set_once_conflict_sym [of b c]]
  by (cases b; cases c) (auto simp: apply_defs intro!: org_state.fold_congs fmslot_both step_commute
      step_commute [symmetric])

lemma advance_apply_body: "apply_body b h (advanceMaxHLC s k) = advanceMaxHLC (apply_body b h s) k"
  by (cases b) (simp_all add: advanceMaxHLC_def apply_defs)

lemma advance_advance: "advanceMaxHLC (advanceMaxHLC s h) k = advanceMaxHLC (advanceMaxHLC s k) h"
  by (auto simp: advanceMaxHLC_def hlc_simps dest: opt_less_up opt_less_between)

lemma Apply_commute:
  assumes "op_compat p q"
  shows "Apply p (Apply q s) = Apply q (Apply p s)"
proof -
  obtain h k where hk: "op_canonical_hlc p = Some h" "op_canonical_hlc q = Some k"
    using assms by (auto simp: op_compat_def HLCIsZero_def split: option.splits)
  have "apply_body (op_body p) h (apply_body (op_body q) k s') =
      apply_body (op_body q) k (apply_body (op_body p) h s')" for s'
    using assms hk by (intro apply_body_commute) (auto simp: op_compat_def)
  then show ?thesis
    by (simp add: Apply_def hk advance_apply_body advance_advance [of _ h k])
qed

lemma op_compat_sym: "op_compat p q \<Longrightarrow> op_compat q p"
  using set_once_conflict_sym [of "op_body p" "op_body q"]
  by (auto simp: op_compat_def split: entity_ref.splits)

interpretation org_log: commuting_log Apply op_compat
  by unfold_locales (rule Apply_commute)

text \<open>An operation log in which every two operations are compatible.\<close>

definition log_compat :: "org_op list \<Rightarrow> bool" where
  "log_compat ops = sorted_wrt op_compat ops"

lemma apply_all_permutation:
  assumes "log_compat ops" and "mset ops = mset ops'"
  shows "apply_all ops s = apply_all ops' s"
  using org_log.converges [of ops ops' s] assms by (simp add: apply_all_def log_compat_def)

text \<open>C1: convergence. Every order of a log of pairwise compatible operations leads from a state
  to the same state, so replicas that apply the same committed operations agree whatever the
  order of arrival.\<close>

theorem org_log_converges:
  assumes "log_compat ops" and "mset ops = mset ops'"
  shows "apply_all ops s = apply_all ops' s"
  by (rule apply_all_permutation [OF assms])

end
