(* ===== verification/StateLaws.thy ===== *)
theory StateLaws
  imports Converge
begin

text \<open>
  Laws of the transition function beyond convergence: applying an operation twice is applying
  it once, a tombstone wins over every other operation and leaves the cleared record, a
  register holds the write with the greatest timestamp, the maximum timestamp of the state
  grows, an operation touches only the entity it names, and pruning removes exactly the
  tombstones at or below the watermark.
\<close>

section \<open>Frame: an operation touches one entity\<close>

text \<open>The identifiers a batch may write, per kind (\<open>batchTouchedIDs\<close> of state.go).\<close>

record touched_ids =
  touched_nodes :: "ident set"
  touched_tabs :: "ident set"
  touched_windows :: "ident set"
  touched_workspaces :: "ident set"

fun touch_ref :: "entity_ref \<Rightarrow> touched_ids \<Rightarrow> touched_ids" where
  "touch_ref (EntityNode i) t = t\<lparr>touched_nodes := insert i (touched_nodes t)\<rparr>"
| "touch_ref (EntityTab _ i) t = t\<lparr>touched_tabs := insert i (touched_tabs t)\<rparr>"
| "touch_ref (EntityWindow i) t = t\<lparr>touched_windows := insert i (touched_windows t)\<rparr>"
| "touch_ref (EntityWorkspaceRoot i) t = t\<lparr>touched_workspaces := insert i (touched_workspaces t)\<rparr>"
| "touch_ref EntityUnknown t = t"

definition batchTouchedIDs :: "org_op list \<Rightarrow> touched_ids" where
  "batchTouchedIDs ops = fold (\<lambda>p. touch_ref (op_target p)) ops
     \<lparr>touched_nodes = {}, touched_tabs = {}, touched_windows = {}, touched_workspaces = {}\<rparr>"

lemma touch_ref_mem:
  "i \<in> touched_nodes (touch_ref r t) \<longleftrightarrow> r = EntityNode i \<or> i \<in> touched_nodes t"
  "i \<in> touched_tabs (touch_ref r t) \<longleftrightarrow> (\<exists>ty. r = EntityTab ty i) \<or> i \<in> touched_tabs t"
  "i \<in> touched_windows (touch_ref r t) \<longleftrightarrow> r = EntityWindow i \<or> i \<in> touched_windows t"
  "i \<in> touched_workspaces (touch_ref r t) \<longleftrightarrow> r = EntityWorkspaceRoot i \<or> i \<in> touched_workspaces t"
  by (cases r; auto)+

lemma touched_fold:
  "i \<in> touched_nodes (fold (\<lambda>p. touch_ref (op_target p)) ops t) \<longleftrightarrow>
     i \<in> touched_nodes t \<or> (\<exists>p \<in> set ops. op_target p = EntityNode i)"
  "i \<in> touched_tabs (fold (\<lambda>p. touch_ref (op_target p)) ops t) \<longleftrightarrow>
     i \<in> touched_tabs t \<or> (\<exists>p \<in> set ops. \<exists>ty. op_target p = EntityTab ty i)"
  "i \<in> touched_windows (fold (\<lambda>p. touch_ref (op_target p)) ops t) \<longleftrightarrow>
     i \<in> touched_windows t \<or> (\<exists>p \<in> set ops. op_target p = EntityWindow i)"
  "i \<in> touched_workspaces (fold (\<lambda>p. touch_ref (op_target p)) ops t) \<longleftrightarrow>
     i \<in> touched_workspaces t \<or> (\<exists>p \<in> set ops. op_target p = EntityWorkspaceRoot i)"
  by (induction ops arbitrary: t) (auto simp: touch_ref_mem)

lemma touched_iff:
  "i \<in> touched_nodes (batchTouchedIDs ops) \<longleftrightarrow> (\<exists>p \<in> set ops. op_target p = EntityNode i)"
  "i \<in> touched_tabs (batchTouchedIDs ops) \<longleftrightarrow> (\<exists>p \<in> set ops. \<exists>ty. op_target p = EntityTab ty i)"
  "i \<in> touched_windows (batchTouchedIDs ops) \<longleftrightarrow> (\<exists>p \<in> set ops. op_target p = EntityWindow i)"
  "i \<in> touched_workspaces (batchTouchedIDs ops) \<longleftrightarrow>
     (\<exists>p \<in> set ops. op_target p = EntityWorkspaceRoot i)"
  by (simp_all add: batchTouchedIDs_def touched_fold)

lemma advanceMaxHLC_frame [frame_simps]:
  "st_nodes (advanceMaxHLC s h) = st_nodes s" "st_tabs (advanceMaxHLC s h) = st_tabs s"
  "st_windows (advanceMaxHLC s h) = st_windows s"
  "st_workspaces (advanceMaxHLC s h) = st_workspaces s"
  "st_org_id (advanceMaxHLC s h) = st_org_id s" "st_watermark (advanceMaxHLC s h) = st_watermark s"
  "st_epoch (advanceMaxHLC s h) = st_epoch s"
  "st_epoch_started (advanceMaxHLC s h) = st_epoch_started s"
  by (simp_all add: advanceMaxHLC_def)

lemma Apply_frame_fields [frame_simps]:
  "st_org_id (Apply p s) = st_org_id s" "st_watermark (Apply p s) = st_watermark s"
  "st_epoch (Apply p s) = st_epoch s" "st_epoch_started (Apply p s) = st_epoch_started s"
  by (cases "op_body p"; simp add: Apply_def apply_defs frame_simps split: option.splits)+

lemma Apply_frame_slots:
  "op_target p \<noteq> EntityNode i \<Longrightarrow> fmlookup (st_nodes (Apply p s)) i = fmlookup (st_nodes s) i"
  "\<forall>ty. op_target p \<noteq> EntityTab ty i \<Longrightarrow> fmlookup (st_tabs (Apply p s)) i = fmlookup (st_tabs s) i"
  "op_target p \<noteq> EntityWindow i \<Longrightarrow> fmlookup (st_windows (Apply p s)) i = fmlookup (st_windows s) i"
  "op_target p \<noteq> EntityWorkspaceRoot i \<Longrightarrow>
     fmlookup (st_workspaces (Apply p s)) i = fmlookup (st_workspaces s) i"
  by (cases "op_body p"; simp add: Apply_def apply_defs frame_simps split: option.splits)+

lemma apply_all_simps [apply_simps]:
  "apply_all [] s = s" "apply_all (p # ps) s = apply_all ps (Apply p s)"
  "apply_all (ps @ qs) s = apply_all qs (apply_all ps s)"
  by (simp_all add: apply_all_def)

lemma apply_all_frame_fields [frame_simps]:
  "st_org_id (apply_all ps s) = st_org_id s" "st_watermark (apply_all ps s) = st_watermark s"
  "st_epoch (apply_all ps s) = st_epoch s" "st_epoch_started (apply_all ps s) = st_epoch_started s"
  by (induction ps arbitrary: s) (simp_all add: apply_simps frame_simps)

lemma apply_all_frame_slots:
  "i \<notin> touched_nodes (batchTouchedIDs ps) \<Longrightarrow>
     fmlookup (st_nodes (apply_all ps s)) i = fmlookup (st_nodes s) i"
  "i \<notin> touched_tabs (batchTouchedIDs ps) \<Longrightarrow>
     fmlookup (st_tabs (apply_all ps s)) i = fmlookup (st_tabs s) i"
  "i \<notin> touched_windows (batchTouchedIDs ps) \<Longrightarrow>
     fmlookup (st_windows (apply_all ps s)) i = fmlookup (st_windows s) i"
  "i \<notin> touched_workspaces (batchTouchedIDs ps) \<Longrightarrow>
     fmlookup (st_workspaces (apply_all ps s)) i = fmlookup (st_workspaces s) i"
  by (induction ps arbitrary: s) (auto simp: apply_simps touched_iff Apply_frame_slots)

section \<open>Idempotence\<close>

lemma setLWW_idem [simp]: "setLWW (setLWW s h v) h v = setLWW s h v"
  by (cases s) (auto simp: setLWW_def hlc_simps)

lemma write_field_idem [simp]:
  "write_node_field f h (write_node_field f h n) = write_node_field f h n"
  "write_tab_field g h (write_tab_field g h t) = write_tab_field g h t"
  "write_window_field k h (write_window_field k h w) = write_window_field k h w"
  subgoal by (cases f) (simp_all add: lww_defs)
  subgoal by (cases g) (simp_all add: lww_defs)
  subgoal by (cases k) (simp_all add: lww_defs)
  done

lemma step_idem:
  "step_set_node i f h (step_set_node i f h x1) = step_set_node i f h x1"
  "step_tombstone_node i h (step_tombstone_node i h x1) = step_tombstone_node i h x1"
  "step_set_tab ty i g h (step_set_tab ty i g h x2) = step_set_tab ty i g h x2"
  "step_tombstone_tab ty i h (step_tombstone_tab ty i h x2) = step_tombstone_tab ty i h x2"
  "step_set_window i k h (step_set_window i k h x3) = step_set_window i k h x3"
  "step_tombstone_window i h (step_tombstone_window i h x3) = step_tombstone_window i h x3"
  "step_set_root i u (step_set_root i u x4) = step_set_root i u x4"
  by (auto simp: step_set_node_def step_tombstone_node_def step_set_tab_def step_tombstone_tab_def
      step_set_window_def step_tombstone_window_def step_set_root_def Let_def hlc_simps
      split: option.splits)

lemma fmslot_idem:
  assumes "\<And>x. f (f x) = f x"
  shows "fmslot k f (fmslot k f m) = fmslot k f m"
  by (rule fmap_eqI) (simp add: assms)

lemma apply_body_idem: "apply_body b h (apply_body b h s) = apply_body b h s"
  by (cases b) (simp_all add: apply_defs fmslot_idem step_idem)

lemma Apply_twice: "Apply p (Apply p s) = Apply p s"
proof (cases "op_canonical_hlc p")
  case None
  then show ?thesis by (simp add: Apply_def)
next
  case (Some h)
  have "advanceMaxHLC (advanceMaxHLC s h) h = advanceMaxHLC s h" for s
    by (simp add: advanceMaxHLC_def hlc_simps)
  then show ?thesis
    by (simp add: Apply_def Some advance_apply_body [symmetric])
       (simp add: advance_apply_body apply_body_idem)
qed

section \<open>The history of one slot\<close>

text \<open>What an operation does to the slot of one node, tab, window or workspace.\<close>

definition node_slot :: "ident \<Rightarrow> org_op \<Rightarrow> node_record option \<Rightarrow> node_record option" where
  "node_slot i p x = (case op_canonical_hlc p of None \<Rightarrow> x | Some h \<Rightarrow>
     (case op_body p of
        SetNodeRegister j f \<Rightarrow> if j = i then step_set_node i f h x else x
      | TombstoneNode j \<Rightarrow> if j = i then step_tombstone_node i h x else x
      | _ \<Rightarrow> x))"

definition tab_slot :: "ident \<Rightarrow> org_op \<Rightarrow> tab_record option \<Rightarrow> tab_record option" where
  "tab_slot i p x = (case op_canonical_hlc p of None \<Rightarrow> x | Some h \<Rightarrow>
     (case op_body p of
        SetTabRegister ty j f \<Rightarrow> if j = i then step_set_tab ty i f h x else x
      | TombstoneTab ty j \<Rightarrow> if j = i then step_tombstone_tab ty i h x else x
      | _ \<Rightarrow> x))"

definition window_slot :: "ident \<Rightarrow> org_op \<Rightarrow> window_record option \<Rightarrow> window_record option" where
  "window_slot i p x = (case op_canonical_hlc p of None \<Rightarrow> x | Some h \<Rightarrow>
     (case op_body p of
        SetFloatingWindowRegister j f \<Rightarrow> if j = i then step_set_window i f h x else x
      | TombstoneFloatingWindow j \<Rightarrow> if j = i then step_tombstone_window i h x else x
      | _ \<Rightarrow> x))"

definition root_slot :: "ident \<Rightarrow> org_op \<Rightarrow> workspace_record option \<Rightarrow> workspace_record option" where
  "root_slot i p x = (case op_canonical_hlc p of None \<Rightarrow> x | Some h \<Rightarrow>
     (case op_body p of SetWorkspaceRootNode j v \<Rightarrow> if j = i then step_set_root i v x else x | _ \<Rightarrow> x))"

lemma Apply_slots [apply_simps]:
  "fmlookup (st_nodes (Apply p s)) i = node_slot i p (fmlookup (st_nodes s) i)"
  "fmlookup (st_tabs (Apply p s)) i = tab_slot i p (fmlookup (st_tabs s) i)"
  "fmlookup (st_windows (Apply p s)) i = window_slot i p (fmlookup (st_windows s) i)"
  "fmlookup (st_workspaces (Apply p s)) i = root_slot i p (fmlookup (st_workspaces s) i)"
  by (cases "op_body p"; simp add: Apply_def apply_defs frame_simps node_slot_def tab_slot_def
      window_slot_def root_slot_def split: option.splits)+

lemma apply_all_slots:
  "fmlookup (st_nodes (apply_all ps s)) i = fold (node_slot i) ps (fmlookup (st_nodes s) i)"
  "fmlookup (st_tabs (apply_all ps s)) i = fold (tab_slot i) ps (fmlookup (st_tabs s) i)"
  "fmlookup (st_windows (apply_all ps s)) i = fold (window_slot i) ps (fmlookup (st_windows s) i)"
  "fmlookup (st_workspaces (apply_all ps s)) i = fold (root_slot i) ps (fmlookup (st_workspaces s) i)"
  by (induction ps arbitrary: s) (simp_all add: apply_simps)

lemmas slot_defs = node_slot_def tab_slot_def window_slot_def root_slot_def step_set_node_def
  step_tombstone_node_def step_set_tab_def step_tombstone_tab_def step_set_window_def
  step_tombstone_window_def step_set_root_def Let_def

section \<open>Remove wins\<close>

text \<open>
  The records that occur in a reachable state: a record is stored under its own identifier,
  and a tombstoned one is the cleared form.
\<close>

definition node_ok :: "ident \<Rightarrow> node_record \<Rightarrow> bool" where
  "node_ok i r \<longleftrightarrow> nd_node_id r = i \<and>
     (\<not> node_live r \<longrightarrow> r = (empty_node i)\<lparr>nd_tombstone_at := nd_tombstone_at r\<rparr>)"

definition tab_ok :: "ident \<Rightarrow> tab_record \<Rightarrow> bool" where
  "tab_ok i r \<longleftrightarrow> tb_tab_id r = i \<and>
     (\<not> tab_live r \<longrightarrow> r = (empty_tab (tb_tab_type r) i)\<lparr>tb_tombstone_at := tb_tombstone_at r\<rparr>)"

definition window_ok :: "ident \<Rightarrow> window_record \<Rightarrow> bool" where
  "window_ok i r \<longleftrightarrow> fw_window_id r = i \<and>
     (\<not> window_live r \<longrightarrow> r = (empty_window i)\<lparr>fw_tombstone_at := fw_tombstone_at r\<rparr>)"

definition workspace_ok :: "ident \<Rightarrow> workspace_record \<Rightarrow> bool" where
  "workspace_ok i r \<longleftrightarrow> ws_workspace_id r = i"

definition state_ok :: "org_state \<Rightarrow> bool" where
  "state_ok s \<longleftrightarrow> fmpred node_ok (st_nodes s) \<and> fmpred tab_ok (st_tabs s) \<and>
     fmpred window_ok (st_windows s) \<and> fmpred workspace_ok (st_workspaces s)"

lemmas record_ok_defs = node_ok_def tab_ok_def window_ok_def workspace_ok_def

lemma empty_records_id [simp]:
  "nd_node_id (empty_node i) = i" "tb_tab_id (empty_tab ty i) = i"
  "fw_window_id (empty_window i) = i"
  by (simp_all add: empty_node_def empty_tab_def empty_window_def)

lemma slot_ok:
  "pred_option (node_ok i) x1 \<Longrightarrow> pred_option (node_ok i) (node_slot i p x1)"
  "pred_option (tab_ok i) x2 \<Longrightarrow> pred_option (tab_ok i) (tab_slot i p x2)"
  "pred_option (window_ok i) x3 \<Longrightarrow> pred_option (window_ok i) (window_slot i p x3)"
  "pred_option (workspace_ok i) x4 \<Longrightarrow> pred_option (workspace_ok i) (root_slot i p x4)"
  by (auto simp: slot_defs record_ok_defs split: option.splits op_body.splits)

lemma fmpred_slots: "fmpred P m \<longleftrightarrow> (\<forall>i. pred_option (P i) (fmlookup m i))"
  by (auto simp: fmpred_iff option.pred_set)

lemma Apply_state_ok: "state_ok s \<Longrightarrow> state_ok (Apply p s)"
  by (simp add: state_ok_def fmpred_slots apply_simps slot_ok)

lemma apply_all_state_ok: "state_ok s \<Longrightarrow> state_ok (apply_all ps s)"
  by (induction ps arbitrary: s) (simp_all add: apply_simps Apply_state_ok)

lemma state_ok_id:
  assumes "state_ok s"
  shows "fmlookup (st_nodes s) i = Some n \<Longrightarrow> nd_node_id n = i"
    "fmlookup (st_tabs s) i = Some t \<Longrightarrow> tb_tab_id t = i"
    "fmlookup (st_windows s) i = Some f \<Longrightarrow> fw_window_id f = i"
    "fmlookup (st_workspaces s) i = Some w \<Longrightarrow> ws_workspace_id w = i"
  using assms by (auto simp: state_ok_def record_ok_defs fmpred_iff)

lemma NewState_ok: "state_ok (NewState org)"
  by (simp add: state_ok_def NewState_def)

text \<open>
  A canonical timestamp is above the zero timestamp, and every operation of a committed log
  carries one.
\<close>

definition positive :: "hlc option \<Rightarrow> bool" where
  "positive x \<longleftrightarrow> HLCCmp x (Some \<lparr>hlc_physical = 0, hlc_logical = 0, hlc_client = empty_id\<rparr>) > 0"

definition stamped :: "org_op list \<Rightarrow> bool" where
  "stamped ops \<longleftrightarrow> (\<forall>p \<in> set ops. positive (op_canonical_hlc p))"

lemma positive_not_zero: "positive x \<Longrightarrow> \<not> HLCIsZero x"
  by (auto simp: positive_def HLCIsZero_def HLCCmp_def split: option.splits)

lemma positive_up: "positive x \<Longrightarrow> x \<le> y \<Longrightarrow> positive y"
  by (auto simp: positive_def hlc_simps)

lemma stamped_simps [simp]:
  "stamped []" "stamped (p # ps) \<longleftrightarrow> positive (op_canonical_hlc p) \<and> stamped ps"
  "stamped (ps @ qs) \<longleftrightarrow> stamped ps \<and> stamped qs"
  by (auto simp: stamped_def)

text \<open>An operation keeps a tombstone or raises its timestamp.\<close>

definition dead_at :: "('r \<Rightarrow> hlc option) \<Rightarrow> hlc option \<Rightarrow> 'r option \<Rightarrow> bool" where
  "dead_at ts h x \<longleftrightarrow> (case x of None \<Rightarrow> False | Some r \<Rightarrow> \<not> HLCIsZero (ts r) \<and> h \<le> ts r)"

lemma slot_dead:
  assumes "positive (op_canonical_hlc p)"
  shows "dead_at nd_tombstone_at h x1 \<Longrightarrow> dead_at nd_tombstone_at h (node_slot i p x1)"
    "dead_at tb_tombstone_at h x2 \<Longrightarrow> dead_at tb_tombstone_at h (tab_slot i p x2)"
    "dead_at fw_tombstone_at h x3 \<Longrightarrow> dead_at fw_tombstone_at h (window_slot i p x3)"
  using positive_not_zero [OF assms]
  by (auto simp: dead_at_def slot_defs hlc_simps split: option.splits op_body.splits)

lemma slots_dead:
  assumes "stamped ps"
  shows "dead_at nd_tombstone_at h x1 \<Longrightarrow> dead_at nd_tombstone_at h (fold (node_slot i) ps x1)"
    "dead_at tb_tombstone_at h x2 \<Longrightarrow> dead_at tb_tombstone_at h (fold (tab_slot i) ps x2)"
    "dead_at fw_tombstone_at h x3 \<Longrightarrow> dead_at fw_tombstone_at h (fold (window_slot i) ps x3)"
  using assms by (induction ps arbitrary: x1 x2 x3) (simp_all add: slot_dead)

lemma tombstone_slot_dead:
  assumes "positive (op_canonical_hlc p)"
  shows "op_body p = TombstoneNode i \<Longrightarrow>
      dead_at nd_tombstone_at (op_canonical_hlc p) (node_slot i p x1)"
    "op_body p = TombstoneTab ty i \<Longrightarrow>
      dead_at tb_tombstone_at (op_canonical_hlc p) (tab_slot i p x2)"
    "op_body p = TombstoneFloatingWindow i \<Longrightarrow>
      dead_at fw_tombstone_at (op_canonical_hlc p) (window_slot i p x3)"
  using positive_not_zero [OF assms] positive_not_zero [OF positive_up [OF assms]]
  by (cases "op_canonical_hlc p"; auto simp: dead_at_def slot_defs hlc_simps not_less
      split: option.splits)+

lemma slots_ok:
  "pred_option (node_ok i) x1 \<Longrightarrow> pred_option (node_ok i) (fold (node_slot i) ps x1)"
  "pred_option (tab_ok i) x2 \<Longrightarrow> pred_option (tab_ok i) (fold (tab_slot i) ps x2)"
  "pred_option (window_ok i) x3 \<Longrightarrow> pred_option (window_ok i) (fold (window_slot i) ps x3)"
  by (induction ps arbitrary: x1 x2 x3) (simp_all add: slot_ok)

text \<open>Remove wins. Once a log with canonical timestamps holds a tombstone of a node, the
  state the log leads to holds the cleared record of that node, tombstoned no earlier than
  that operation, wherever in the log the tombstone stands and whatever other operations
  name the node.\<close>

theorem tombstone_node_wins:
  assumes "state_ok s" and "stamped ops" and "p \<in> set ops" and "op_body p = TombstoneNode i"
  shows "\<exists>h. fmlookup (st_nodes (apply_all ops s)) i =
      Some ((empty_node i)\<lparr>nd_tombstone_at := Some h\<rparr>) \<and> op_canonical_hlc p \<le> Some h"
proof -
  obtain as bs where ops: "ops = as @ p # bs" using assms(3) by (auto dest: split_list)
  have "dead_at nd_tombstone_at (op_canonical_hlc p) (fmlookup (st_nodes (apply_all ops s)) i)"
    using assms(2,4) by (simp add: ops apply_all_slots slots_dead tombstone_slot_dead)
  moreover have "pred_option (node_ok i) (fmlookup (st_nodes (apply_all ops s)) i)"
    using apply_all_state_ok [OF assms(1)] by (simp add: state_ok_def fmpred_slots)
  ultimately show ?thesis
    by (auto simp: dead_at_def node_ok_def split: option.splits) (metis HLCIsZero_None option.exhaust)
qed

section \<open>Last writer wins\<close>

text \<open>The writes a log makes to one register, and what the register must hold for them.\<close>

definition writes_of :: "(op_body \<Rightarrow> 'a option) \<Rightarrow> org_op list \<Rightarrow> (hlc \<times> 'a) list" where
  "writes_of sel ops = concat (map (\<lambda>p. case op_canonical_hlc p of None \<Rightarrow> []
     | Some h \<Rightarrow> (case sel (op_body p) of None \<Rightarrow> [] | Some v \<Rightarrow> [(h, v)])) ops)"

definition lww_latest :: "(hlc \<times> 'a) list \<Rightarrow> 'a lww option \<Rightarrow> bool" where
  "lww_latest ws reg = (case reg of None \<Rightarrow> ws = []
     | Some l \<Rightarrow> (\<exists>h. lww_hlc l = Some h \<and> (h, lww_value l) \<in> set ws \<and>
                      (\<forall>w \<in> set ws. fst w \<le> h)))"

lemma lww_latest_step:
  assumes "lww_latest ws reg"
  shows "lww_latest (ws @ [(h, v)]) (setLWW reg h v)"
  using assms by (auto simp: lww_latest_def setLWW_def hlc_simps not_less split: option.splits
      dest: order.trans less_imp_le)

text \<open>
  The contract of a register: a slot that is dead stays dead, and an operation on a live slot
  either leaves the register or writes it through \<open>setLWW\<close>.
\<close>

locale lww_register =
  fixes slot :: "org_op \<Rightarrow> 'r option \<Rightarrow> 'r option" and live :: "'r \<Rightarrow> bool"
    and reg :: "'r \<Rightarrow> 'a lww option" and wr :: "op_body \<Rightarrow> 'a option"
  assumes stays_dead: "positive (op_canonical_hlc p) \<Longrightarrow> \<not> live r \<Longrightarrow>
      \<exists>r'. slot p (Some r) = Some r' \<and> \<not> live r'"
    and kept: "positive (op_canonical_hlc p) \<Longrightarrow> \<exists>r'. slot p (Some r) = Some r'"
    and untouched: "op_canonical_hlc p = Some h \<Longrightarrow> slot p None = None \<Longrightarrow> wr (op_body p) = None"
    and created: "op_canonical_hlc p = Some h \<Longrightarrow> positive (Some h) \<Longrightarrow> slot p None = Some r' \<Longrightarrow>
      live r' \<Longrightarrow> reg r' = (case wr (op_body p) of None \<Rightarrow> None | Some v \<Rightarrow> setLWW None h v)"
    and written: "op_canonical_hlc p = Some h \<Longrightarrow> positive (Some h) \<Longrightarrow> live r \<Longrightarrow>
      slot p (Some r) = Some r' \<Longrightarrow> live r' \<Longrightarrow>
      reg r' = (case wr (op_body p) of None \<Rightarrow> reg r | Some v \<Rightarrow> setLWW (reg r) h v)"
begin

definition slot_latest :: "org_op list \<Rightarrow> 'r option \<Rightarrow> bool" where
  "slot_latest ops x = (case x of None \<Rightarrow> writes_of wr ops = []
     | Some r \<Rightarrow> live r \<longrightarrow> lww_latest (writes_of wr ops) (reg r))"

lemma slot_latest_step:
  assumes "positive (op_canonical_hlc p)" and "slot_latest ops x"
  shows "slot_latest (ops @ [p]) (slot p x)"
proof -
  obtain h where h: "op_canonical_hlc p = Some h"
    using positive_not_zero [OF assms(1)] by (cases "op_canonical_hlc p") auto
  have app: "writes_of wr (ops @ [p]) = writes_of wr ops @
      (case wr (op_body p) of None \<Rightarrow> [] | Some v \<Rightarrow> [(h, v)])"
    by (simp add: writes_of_def h)
  show ?thesis
  proof (cases x)
    case None
    then show ?thesis
      using assms(2) untouched [OF h] created [OF h] assms(1) lww_latest_step [of "[]" None h]
      by (auto simp: slot_latest_def app h split: option.splits) (auto simp: lww_latest_def)
  next
    case (Some r)
    show ?thesis
    proof (cases "live r")
      case True
      then show ?thesis
        using Some assms(2) written [OF h _ True] kept [OF assms(1), of r] assms(1)
          lww_latest_step [of "writes_of wr ops" "reg r" h]
        by (auto simp: slot_latest_def app h split: option.splits)
    next
      case False
      then show ?thesis
        using Some stays_dead [OF assms(1) False] by (auto simp: slot_latest_def)
    qed
  qed
qed

lemma latest:
  assumes "stamped ops" and "fold slot ops None = Some r" and "live r"
  shows "lww_latest (writes_of wr ops) (reg r)"
proof -
  have "slot_latest ops (fold slot ops None)"
    using assms(1)
  proof (induction ops rule: rev_induct)
    case Nil
    then show ?case by (simp add: slot_latest_def writes_of_def)
  next
    case (snoc p ops)
    then show ?case using slot_latest_step by simp
  qed
  then show ?thesis using assms by (simp add: slot_latest_def)
qed

end

text \<open>The writes to the registers of a node, of a tab of a given type, and of a window.\<close>

definition node_write :: "(node_field \<Rightarrow> 'a option) \<Rightarrow> ident \<Rightarrow> op_body \<Rightarrow> 'a option" where
  "node_write fld i b = (case b of SetNodeRegister j f \<Rightarrow> if j = i then fld f else None | _ \<Rightarrow> None)"

definition tab_write :: "(tab_field \<Rightarrow> 'a option) \<Rightarrow> tab_type \<Rightarrow> ident \<Rightarrow> op_body \<Rightarrow> 'a option" where
  "tab_write fld ty i b = (case b of
     SetTabRegister t j f \<Rightarrow> if t = ty \<and> j = i then fld f else None | _ \<Rightarrow> None)"

definition window_write :: "(window_field \<Rightarrow> 'a option) \<Rightarrow> ident \<Rightarrow> op_body \<Rightarrow> 'a option" where
  "window_write fld i b = (case b of
     SetFloatingWindowRegister j f \<Rightarrow> if j = i then fld f else None | _ \<Rightarrow> None)"

fun kind_val :: "node_field \<Rightarrow> node_kind option" where
  "kind_val (NodeKindField v) = Some v"
| "kind_val _ = None"

fun position_val :: "node_field \<Rightarrow> string option" where
  "position_val (NodePosition v) = Some v"
| "position_val _ = None"

fun ratios_val :: "node_field \<Rightarrow> float64 list option" where
  "ratios_val (NodeRatios v) = Some (canonicalizeZeros v)"
| "ratios_val _ = None"

fun tile_val :: "tab_field \<Rightarrow> ident option" where
  "tile_val (TabTileId v) = Some v"
| "tile_val _ = None"

fun tab_position_val :: "tab_field \<Rightarrow> string option" where
  "tab_position_val (TabPosition v) = Some v"
| "tab_position_val _ = None"

fun worker_val :: "tab_field \<Rightarrow> ident option" where
  "worker_val (TabWorkerId v) = Some v"
| "worker_val _ = None"

fun workspace_val :: "window_field \<Rightarrow> ident option" where
  "workspace_val (WindowWorkspaceId v) = Some v"
| "workspace_val _ = None"

lemma node_register:
  assumes "\<And>f h r. reg (write_node_field f h r) =
      (case fld f of None \<Rightarrow> reg r | Some v \<Rightarrow> setLWW (reg r) h v)"
    and "reg (empty_node i) = None"
  shows "lww_register (node_slot i) node_live reg (node_write fld i)"
  by unfold_locales
    (auto simp: slot_defs node_write_def hlc_simps assms dest: positive_not_zero
      split: op_body.splits option.splits if_splits)

lemma tombstoned_tab_at: "(empty_tab ty i)\<lparr>tb_tombstone_at := x\<rparr> = r \<Longrightarrow> tb_tombstone_at r = x"
  by auto

lemma tab_register:
  assumes "\<And>f h r. reg (write_tab_field f h r) =
      (case fld f of None \<Rightarrow> reg r | Some v \<Rightarrow> setLWW (reg r) h v)"
    and "reg (empty_tab ty i) = None"
  shows "lww_register (tab_slot i) (\<lambda>r. tb_tab_type r = ty \<and> tab_live r) reg (tab_write fld ty i)"
  by unfold_locales
    (auto simp: slot_defs tab_write_def hlc_simps assms dest: positive_not_zero
      split: op_body.splits option.splits if_splits, auto dest!: tombstoned_tab_at positive_not_zero)

lemma window_register:
  assumes "\<And>f h r. reg (write_window_field f h r) =
      (case fld f of None \<Rightarrow> reg r | Some v \<Rightarrow> setLWW (reg r) h v)"
    and "reg (empty_window i) = None"
  shows "lww_register (window_slot i) window_live reg (window_write fld i)"
  by unfold_locales
    (auto simp: slot_defs window_write_def hlc_simps assms dest: positive_not_zero
      split: op_body.splits option.splits if_splits)


lemma register_writes:
  "nd_kind (write_node_field f h r) = (case kind_val f of None \<Rightarrow> nd_kind r | Some v \<Rightarrow> setLWW (nd_kind r) h v)"
  "nd_position (write_node_field f h r) =
     (case position_val f of None \<Rightarrow> nd_position r | Some v \<Rightarrow> setLWW (nd_position r) h v)"
  "nd_ratios (write_node_field f h r) =
     (case ratios_val f of None \<Rightarrow> nd_ratios r | Some v \<Rightarrow> setLWW (nd_ratios r) h v)"
  "tb_tile_id (write_tab_field g h t) =
     (case tile_val g of None \<Rightarrow> tb_tile_id t | Some v \<Rightarrow> setLWW (tb_tile_id t) h v)"
  "tb_position (write_tab_field g h t) =
     (case tab_position_val g of None \<Rightarrow> tb_position t | Some v \<Rightarrow> setLWW (tb_position t) h v)"
  "tb_worker_id (write_tab_field g h t) =
     (case worker_val g of None \<Rightarrow> tb_worker_id t | Some v \<Rightarrow> setLWW (tb_worker_id t) h v)"
  "fw_workspace_id (write_window_field k h w) =
     (case workspace_val k of None \<Rightarrow> fw_workspace_id w | Some v \<Rightarrow> setLWW (fw_workspace_id w) h v)"
  by (cases f; simp add: lww_defs | cases g; simp add: lww_defs | cases k; simp add: lww_defs)+

lemma empty_registers [simp]:
  "nd_kind (empty_node i) = None" "nd_position (empty_node i) = None" "nd_ratios (empty_node i) = None"
  "nd_parent_id (empty_node i) = empty_id"
  "tb_tile_id (empty_tab ty i) = None" "tb_position (empty_tab ty i) = None"
  "tb_worker_id (empty_tab ty i) = None"
  "fw_workspace_id (empty_window i) = None" "fw_root_node_id (empty_window i) = empty_id"
  by (simp_all add: empty_node_def empty_tab_def empty_window_def)

interpretation kind_register: lww_register "node_slot i" node_live nd_kind "node_write kind_val i"
  for i by (rule node_register) (simp_all add: register_writes)

interpretation position_register: lww_register "node_slot i" node_live nd_position
    "node_write position_val i"
  for i by (rule node_register) (simp_all add: register_writes)

interpretation ratios_register: lww_register "node_slot i" node_live nd_ratios
    "node_write ratios_val i"
  for i by (rule node_register) (simp_all add: register_writes)

interpretation tile_register: lww_register "tab_slot i" "\<lambda>r. tb_tab_type r = ty \<and> tab_live r"
    tb_tile_id "tab_write tile_val ty i"
  for ty i by (rule tab_register) (simp_all add: register_writes)

interpretation tab_position_register: lww_register "tab_slot i"
    "\<lambda>r. tb_tab_type r = ty \<and> tab_live r" tb_position "tab_write tab_position_val ty i"
  for ty i by (rule tab_register) (simp_all add: register_writes)

interpretation worker_register: lww_register "tab_slot i" "\<lambda>r. tb_tab_type r = ty \<and> tab_live r"
    tb_worker_id "tab_write worker_val ty i"
  for ty i by (rule tab_register) (simp_all add: register_writes)

interpretation workspace_register: lww_register "window_slot i" window_live fw_workspace_id
    "window_write workspace_val i"
  for i by (rule window_register) (simp_all add: register_writes)

text \<open>Last writer wins. From the empty state, every register of a live tab holds the value
  with the greatest canonical timestamp among the log's writes to that register of a tab of
  that identifier and type, and is unset exactly when there is none: the tile the tab sits on,
  its position and its worker.\<close>

theorem tab_registers_latest:
  assumes "stamped ops" and "fmlookup (st_tabs (apply_all ops (NewState org))) i = Some r"
    and "tab_live r"
  shows "lww_latest (writes_of (tab_write tile_val (tb_tab_type r) i) ops) (tb_tile_id r) \<and>
    lww_latest (writes_of (tab_write tab_position_val (tb_tab_type r) i) ops) (tb_position r) \<and>
    lww_latest (writes_of (tab_write worker_val (tb_tab_type r) i) ops) (tb_worker_id r)"
proof -
  have "fold (tab_slot i) ops None = Some r"
    using assms(2) by (simp add: apply_all_slots NewState_def)
  then show ?thesis
    using assms tile_register.latest [of ops i r] tab_position_register.latest [of ops i r]
      worker_register.latest [of ops i r] by blast
qed

text \<open>Last writer wins for a node: its kind, its position among its siblings and its ratios
  (written with negative zeros canonicalised).\<close>

theorem node_registers_latest:
  assumes "stamped ops" and "fmlookup (st_nodes (apply_all ops (NewState org))) i = Some r"
    and "node_live r"
  shows "lww_latest (writes_of (node_write kind_val i) ops) (nd_kind r) \<and>
    lww_latest (writes_of (node_write position_val i) ops) (nd_position r) \<and>
    lww_latest (writes_of (node_write ratios_val i) ops) (nd_ratios r)"
proof -
  have "fold (node_slot i) ops None = Some r"
    using assms(2) by (simp add: apply_all_slots NewState_def)
  then show ?thesis
    using assms kind_register.latest [of ops i r] position_register.latest [of ops i r]
      ratios_register.latest [of ops i r] by blast
qed

section \<open>The maximum timestamp\<close>

lemma Apply_max_hlc: "st_max_hlc (Apply p s) = max (st_max_hlc s) (op_canonical_hlc p)"
proof (cases "op_canonical_hlc p")
  case None
  then show ?thesis by (cases "st_max_hlc s") (simp_all add: Apply_def max_def)
next
  case (Some h)
  have "st_max_hlc (apply_body b h t) = st_max_hlc t" for b t
    by (cases b) (simp_all add: apply_defs)
  then show ?thesis
    by (auto simp: Apply_def Some advanceMaxHLC_def hlc_simps max_def)
qed

lemma Max_merge: "finite X \<Longrightarrow> Max (insert (max a c) X) = Max (insert a (insert c X))"
  by (cases "X = {}") (simp_all add: max.assoc)

text \<open>The maximum timestamp of the state is the greatest of its old value and the canonical
  timestamps of the log.\<close>

theorem max_hlc_of_log:
  "st_max_hlc (apply_all ops s) = Max (insert (st_max_hlc s) (op_canonical_hlc ` set ops))"
  by (induction ops arbitrary: s) (simp_all add: apply_simps Apply_max_hlc Max_merge)

section \<open>Pruning\<close>

definition prunable :: "('r \<Rightarrow> hlc option) \<Rightarrow> hlc option \<Rightarrow> 'r \<Rightarrow> bool" where
  "prunable ts wm r \<longleftrightarrow> \<not> HLCIsZero (ts r) \<and> ts r \<le> wm"

lemma prune_fold:
  "fold (\<lambda>(k, r) (acc, n).
       if HLCIsZero (ts r) then (acc, n)
       else if HLCCmp (ts r) wm \<le> 0 then (fmdrop k acc, Suc n) else (acc, n)) ps (m, n) =
   (fmfilter (\<lambda>k. k \<notin> fst ` set (filter (prunable ts wm o snd) ps)) m,
    n + length (filter (prunable ts wm o snd) ps))"
proof (induction ps arbitrary: m n)
  case Nil
  then show ?case by (simp add: fmfilter_true)
next
  case (Cons p ps)
  show ?case
    by (cases p) (auto simp: Cons.IH prunable_def hlc_simps intro!: fmap_eqI)
qed

lemma prune_map_spec:
  assumes "range_order it"
  shows "fmlookup (fst (prune_map it ts wm m)) k =
      (case fmlookup m k of None \<Rightarrow> None | Some r \<Rightarrow> if prunable ts wm r then None else Some r)"
    and "snd (prune_map it ts wm m) = card {k. \<exists>r. fmlookup m k = Some r \<and> prunable ts wm r}"
proof -
  let ?ps = "filter (prunable ts wm o snd) (go_range it m)"
  have keys: "fst ` set ?ps = {k. \<exists>r. fmlookup m k = Some r \<and> prunable ts wm r}"
    using set_go_range [OF assms, of m] by force
  show "fmlookup (fst (prune_map it ts wm m)) k =
      (case fmlookup m k of None \<Rightarrow> None | Some r \<Rightarrow> if prunable ts wm r then None else Some r)"
    unfolding prune_map_def prune_fold fst_conv by (auto simp only: fmlookup_filter keys split: option.splits) auto
  have "distinct (map fst (go_range it m))"
    using range_order_distinct [OF assms] by simp
  then have "distinct (map fst ?ps)" by (rule distinct_map_filter)
  then have "length ?ps = card (fst ` set ?ps)"
    using distinct_card [of "map fst ?ps"] by simp
  then show "snd (prune_map it ts wm m) = card {k. \<exists>r. fmlookup m k = Some r \<and> prunable ts wm r}"
    unfolding prune_map_def prune_fold snd_conv by (simp only: keys add_0)
qed

lemma prune_fields:
  assumes "\<not> HLCIsZero wm"
  shows "st_nodes (fst (PruneTombstonesAtOrBelow it s wm)) = fst (prune_map it nd_tombstone_at wm (st_nodes s))"
    and "st_tabs (fst (PruneTombstonesAtOrBelow it s wm)) = fst (prune_map it tb_tombstone_at wm (st_tabs s))"
    and "st_windows (fst (PruneTombstonesAtOrBelow it s wm)) = fst (prune_map it fw_tombstone_at wm (st_windows s))"
    and "st_workspaces (fst (PruneTombstonesAtOrBelow it s wm)) = st_workspaces s"
    and "st_max_hlc (fst (PruneTombstonesAtOrBelow it s wm)) = st_max_hlc s"
    and "snd (PruneTombstonesAtOrBelow it s wm) = snd (prune_map it nd_tombstone_at wm (st_nodes s)) +
      snd (prune_map it tb_tombstone_at wm (st_tabs s)) + snd (prune_map it fw_tombstone_at wm (st_windows s))"
  using assms by (simp_all add: PruneTombstonesAtOrBelow_def split: prod.splits)

text \<open>Pruning at a watermark removes exactly the nodes, tabs and windows whose tombstone is
  at or below it, whatever order the maps are visited in, and nothing else of the state.\<close>

theorem prune_removes_exactly:
  assumes "range_order it" and "\<not> HLCIsZero wm"
  shows "fmlookup (st_nodes (fst (PruneTombstonesAtOrBelow it s wm))) i =
      (case fmlookup (st_nodes s) i of None \<Rightarrow> None | Some r \<Rightarrow> if prunable nd_tombstone_at wm r then None else Some r) \<and>
    fmlookup (st_tabs (fst (PruneTombstonesAtOrBelow it s wm))) i =
      (case fmlookup (st_tabs s) i of None \<Rightarrow> None | Some r \<Rightarrow> if prunable tb_tombstone_at wm r then None else Some r) \<and>
    fmlookup (st_windows (fst (PruneTombstonesAtOrBelow it s wm))) i =
      (case fmlookup (st_windows s) i of None \<Rightarrow> None | Some r \<Rightarrow> if prunable fw_tombstone_at wm r then None else Some r) \<and>
    st_workspaces (fst (PruneTombstonesAtOrBelow it s wm)) = st_workspaces s \<and>
    snd (PruneTombstonesAtOrBelow it s wm) =
      card {k. \<exists>r. fmlookup (st_nodes s) k = Some r \<and> prunable nd_tombstone_at wm r} +
      card {k. \<exists>r. fmlookup (st_tabs s) k = Some r \<and> prunable tb_tombstone_at wm r} +
      card {k. \<exists>r. fmlookup (st_windows s) k = Some r \<and> prunable fw_tombstone_at wm r}"
  by (simp add: prune_fields [OF assms(2)] prune_map_spec [OF assms(1)])

end
