(* ===== verification/TreeOps.thy ===== *)
theory TreeOps
  imports StateLaws "HOL-Library.Product_Lexorder"
begin

text \<open>Walks over the layout tree (backend/internal/hub/crdt/treeops.go, with the subtree walks of
  manager\_lifecycle.go and validate\_root\_checks.go): resolving a node to the workspace its
  parent chain ends at, the parent-to-children adjacency, breadth-first collection of a
  subtree, and the iterative post-order. The walks carry a visited set against malformed
  cycles; the definitions keep it, so that they are total on every graph.
\<close>

section \<open>Parent chains\<close>

text \<open>
  \<open>resolveParentChain\<close> takes the parent function as a closure. A closure over the node map is
  its finite graph here: a key is absent where the closure reports that the walk must stop.
\<close>

function resolve_walk :: "(ident, ident) fmap \<Rightarrow> (ident, ident) fmap \<Rightarrow> ident set \<Rightarrow> ident \<Rightarrow> ident" where
  "resolve_walk roots parentOf visited cur =
     (if cur = empty_id then empty_id
      else if cur \<in> visited then empty_id
      else case fmlookup roots cur of Some ws \<Rightarrow> ws
           | None \<Rightarrow> (case fmlookup parentOf cur of None \<Rightarrow> empty_id
                      | Some parent \<Rightarrow> resolve_walk roots parentOf (insert cur visited) parent))"
  by pat_completeness auto

termination
proof (relation "measure (\<lambda>(roots, parentOf, visited, cur). card (fmdom' parentOf - visited))")
  fix roots parentOf :: "(ident, ident) fmap" and visited cur p
  assume "cur \<notin> visited" "fmlookup parentOf cur = Some p"
  moreover from this have "cur \<in> fmdom' parentOf" by (auto intro: fmdom'I)
  ultimately have "fmdom' parentOf - insert cur visited \<subset> fmdom' parentOf - visited" by blast
  then show "((roots, parentOf, insert cur visited, p), roots, parentOf, visited, cur)
      \<in> measure (\<lambda>(roots, parentOf, visited, cur). card (fmdom' parentOf - visited))"
    by (simp add: psubset_card_mono)
qed simp

declare resolve_walk.simps [simp del]

definition resolveParentChain :: "(ident, ident) fmap \<Rightarrow> ident \<Rightarrow> (ident, ident) fmap \<Rightarrow> ident" where
  "resolveParentChain roots startID parentOf = resolve_walk roots parentOf {} startID"

definition root_to_workspace :: "range_fun \<Rightarrow> (ident, workspace_record) fmap \<Rightarrow> (ident, ident) fmap" where
  "root_to_workspace it workspaces =
     fold (\<lambda>(wsID, ws) acc. if ws_root_node_id ws \<noteq> empty_id then fmupd (ws_root_node_id ws) wsID acc
                             else acc) (go_range it workspaces) fmempty"

definition FindRootWorkspace ::
    "range_fun \<Rightarrow> (ident, node_record) fmap \<Rightarrow> (ident, workspace_record) fmap \<Rightarrow> ident \<Rightarrow> ident" where
  "FindRootWorkspace it nodes workspaces nodeID =
     (if nodeID = empty_id then empty_id
      else resolveParentChain (root_to_workspace it workspaces) nodeID (fmmap nd_parent_id nodes))"

text \<open>
  The specification of the walk: from a node the chain of parents leads to a registered root,
  meeting no other root and no missing node on the way.
\<close>

inductive climbs :: "(ident, ident) fmap \<Rightarrow> (ident, ident) fmap \<Rightarrow> ident \<Rightarrow> ident list \<Rightarrow> ident \<Rightarrow> bool"
  for roots parentOf where
  at_root: "cur \<noteq> empty_id \<Longrightarrow> fmlookup roots cur = Some ws \<Longrightarrow> climbs roots parentOf cur [cur] ws"
| up: "cur \<noteq> empty_id \<Longrightarrow> fmlookup roots cur = None \<Longrightarrow> fmlookup parentOf cur = Some p \<Longrightarrow>
    climbs roots parentOf p path ws \<Longrightarrow> climbs roots parentOf cur (cur # path) ws"

inductive_cases climbsE: "climbs roots parentOf cur path ws"

lemma climbs_functional:
  "climbs roots parentOf cur path ws \<Longrightarrow> climbs roots parentOf cur path' ws' \<Longrightarrow> path = path' \<and> ws = ws'"
proof (induction arbitrary: path' ws' rule: climbs.induct)
  case (at_root cur ws)
  from at_root.prems show ?case by (rule climbsE) (use at_root.hyps in auto)
next
  case (up cur p path ws)
  from up.prems obtain path'' where "path' = cur # path''" "climbs roots parentOf p path'' ws'"
    by (rule climbsE) (use up.hyps(2,3) in simp_all)
  with up.IH show ?case by blast
qed

lemma climbs_suffix:
  "climbs roots parentOf cur path ws \<Longrightarrow> x \<in> set path \<Longrightarrow>
    \<exists>path'. climbs roots parentOf x path' ws \<and> length path' \<le> length path"
proof (induction rule: climbs.induct)
  case (at_root cur ws)
  then show ?case by (auto intro!: exI [of _ "[cur]"] climbs.at_root)
next
  case (up cur p path ws)
  show ?case
  proof (cases "x = cur")
    case True
    then show ?thesis using up.hyps by (blast intro: climbs.up)
  next
    case False
    then show ?thesis using up by (metis le_SucI length_Cons set_ConsD)
  qed
qed

lemma climbs_distinct: "climbs roots parentOf cur path ws \<Longrightarrow> distinct path"
proof (induction rule: climbs.induct)
  case (up cur p path ws)
  have "cur \<notin> set path"
  proof
    assume "cur \<in> set path"
    then obtain path' where "climbs roots parentOf cur path' ws" "length path' \<le> length path"
      using climbs_suffix up.hyps(4) by blast
    then show False
      using climbs_functional [OF climbs.up [OF up.hyps]] by fastforce
  qed
  with up.IH show ?case by simp
qed simp

lemma resolve_walk_climbs:
  "climbs roots parentOf cur path ws \<Longrightarrow> distinct path \<Longrightarrow> set path \<inter> visited = {} \<Longrightarrow>
    resolve_walk roots parentOf visited cur = ws"
  by (induction arbitrary: visited rule: climbs.induct) (subst resolve_walk.simps; simp)+

lemma resolve_walk_sound:
  "resolve_walk roots parentOf visited cur = ws \<Longrightarrow> ws \<noteq> empty_id \<Longrightarrow>
    \<exists>path. climbs roots parentOf cur path ws"
proof (induction roots parentOf visited cur rule: resolve_walk.induct)
  case (1 roots parentOf visited cur)
  from "1.prems" show ?case
    using resolve_walk.simps [of roots parentOf visited cur] "1.IH"
    by (auto split: if_splits option.splits intro: climbs.intros)
qed

lemma resolveParentChain_eq:
  assumes "ws \<noteq> empty_id"
  shows "resolveParentChain roots startID parentOf = ws \<longleftrightarrow> (\<exists>path. climbs roots parentOf startID path ws)"
  using assms resolve_walk_sound resolve_walk_climbs climbs_distinct
  unfolding resolveParentChain_def by (metis inf_bot_right)

text \<open>The parent-chain walk is sound and complete: it answers a workspace exactly when the
  chain of parents leads to a root registered for it, and the visited set only cuts off walks
  that would never end.\<close>

theorem resolveParentChain_iff:
  assumes "ws \<noteq> empty_id"
  shows "resolveParentChain roots startID parentOf = ws \<longleftrightarrow> (\<exists>path. climbs roots parentOf startID path ws)"
  by (rule resolveParentChain_eq [OF assms])

section \<open>The adjacency\<close>

type_synonym child_index = "(ident, ident list) fmap"

record materialized =
  mt_nodes :: "(ident, node_record) fmap"
  mt_tabs :: "(ident, tab_record) fmap"
  mt_windows :: "(ident, window_record) fmap"
  mt_workspaces :: "(ident, workspace_record) fmap"

record tab_ref =
  tr_tab_type :: tab_type
  tr_tab_id :: ident

definition kids :: "child_index \<Rightarrow> ident \<Rightarrow> ident list" where
  "kids idx i = (case fmlookup idx i of None \<Rightarrow> [] | Some xs \<Rightarrow> xs)"

definition idx_append :: "ident \<Rightarrow> ident \<Rightarrow> child_index \<Rightarrow> child_index" where
  "idx_append parent child idx = fmupd parent (kids idx parent @ [child]) idx"

definition buildChildrenIndex :: "range_fun \<Rightarrow> org_state \<Rightarrow> bool \<Rightarrow> child_index" where
  "buildChildrenIndex it s includeTombstoned =
     fold (\<lambda>(nodeID, n) idx.
             if \<not> includeTombstoned \<and> \<not> node_live n then idx
             else if nd_parent_id n \<noteq> empty_id then idx_append (nd_parent_id n) nodeID idx
             else idx) (go_range it (st_nodes s)) fmempty"

definition BuildLiveChildrenIndex :: "range_fun \<Rightarrow> org_state \<Rightarrow> child_index" where
  "BuildLiveChildrenIndex it s = buildChildrenIndex it s False"

definition BuildAllChildrenIndex :: "range_fun \<Rightarrow> org_state \<Rightarrow> child_index" where
  "BuildAllChildrenIndex it s = buildChildrenIndex it s True"

definition LiveChildrenByParent :: "range_fun \<Rightarrow> materialized \<Rightarrow> child_index" where
  "LiveChildrenByParent it m =
     fold (\<lambda>(_, n) idx. if \<not> node_live n then idx
                          else idx_append (nd_parent_id n) (nd_node_id n) idx)
       (go_range it (mt_nodes m)) fmempty"

lemma kids_empty [simp]: "kids fmempty i = []"
  by (simp add: kids_def)

lemma kids_append [simp]:
  "kids (idx_append p c idx) i = (if i = p then kids idx p @ [c] else kids idx i)"
  by (simp add: kids_def idx_append_def)

lemma kids_fold:
  "kids (fold (\<lambda>(k, n) idx. if keep k n then idx_append (par n) (val k n) idx else idx) ps idx) i =
   kids idx i @ map (\<lambda>(k, n). val k n) (filter (\<lambda>(k, n). keep k n \<and> par n = i) ps)"
  by (induction ps arbitrary: idx) (simp_all split: prod.splits)

lemma kids_buildChildrenIndex:
  "kids (buildChildrenIndex it s inc) i =
     map fst (filter (\<lambda>(k, n). (inc \<or> node_live n) \<and> nd_parent_id n \<noteq> empty_id \<and> nd_parent_id n = i)
       (go_range it (st_nodes s)))"
proof -
  have "(\<lambda>(nodeID, n) idx.
      if \<not> inc \<and> \<not> node_live n then idx
      else if nd_parent_id n \<noteq> empty_id then idx_append (nd_parent_id n) nodeID idx else idx) =
    (\<lambda>(k, n) idx. if (inc \<or> node_live n) \<and> nd_parent_id n \<noteq> empty_id
       then idx_append (nd_parent_id n) k idx else idx)"
    by (auto intro!: ext)
  then show ?thesis
    by (simp add: buildChildrenIndex_def kids_fold [where val = "\<lambda>k n. k"] case_prod_beta conj_assoc)
qed

lemma kids_LiveChildrenByParent:
  "kids (LiveChildrenByParent it m) i =
     map (nd_node_id o snd) (filter (\<lambda>(k, n). node_live n \<and> nd_parent_id n = i) (go_range it (mt_nodes m)))"
proof -
  have "(\<lambda>(_ :: ident, n) idx. if \<not> node_live n then idx
      else idx_append (nd_parent_id n) (nd_node_id n) idx) =
    (\<lambda>(k, n) idx. if node_live n then idx_append (nd_parent_id n) (nd_node_id n) idx else idx)"
    by (auto intro!: ext)
  then show ?thesis
    by (simp add: LiveChildrenByParent_def kids_fold [where val = "\<lambda>k n. nd_node_id n" and
      keep = "\<lambda>k n. node_live n"] case_prod_beta comp_def)
qed

lemma mem_kids_buildChildrenIndex:
  assumes "range_order it"
  shows "c \<in> set (kids (buildChildrenIndex it s inc) i) \<longleftrightarrow>
    (\<exists>n. fmlookup (st_nodes s) c = Some n \<and> (inc \<or> node_live n) \<and> nd_parent_id n = i \<and> i \<noteq> empty_id)"
  using assms by (force simp: kids_buildChildrenIndex set_go_range)

section \<open>Collecting a subtree\<close>

text \<open>Reachability along the adjacency.\<close>

definition child_rel :: "child_index \<Rightarrow> (ident \<times> ident) set" where
  "child_rel idx = {(p, c). c \<in> set (kids idx p)}"

abbreviation reach :: "child_index \<Rightarrow> ident \<Rightarrow> ident set" where
  "reach idx r \<equiv> (child_rel idx)\<^sup>* `` {r}"

definition all_kids :: "child_index \<Rightarrow> ident set" where
  "all_kids idx = (\<Union>xs \<in> fset (fmran idx). set xs)"

lemma finite_all_kids [simp]: "finite (all_kids idx)"
  by (simp add: all_kids_def)

lemma kids_all_kids: "c \<in> set (kids idx p) \<Longrightarrow> c \<in> all_kids idx"
  by (cases "fmlookup idx p") (auto simp: kids_def all_kids_def dest: fmranI)

definition bfs_push :: "ident list \<Rightarrow> ident set \<times> ident list \<Rightarrow> ident set \<times> ident list" where
  "bfs_push cs acc = fold (\<lambda>child (out, queue). if child \<in> out then (out, queue)
     else (insert child out, queue @ [child])) cs acc"

lemma bfs_push_simps [simp]:
  "bfs_push [] acc = acc"
  "bfs_push (c # cs) (out, q) =
     (if c \<in> out then bfs_push cs (out, q) else bfs_push cs (insert c out, q @ [c]))"
  by (simp_all add: bfs_push_def)

lemma bfs_push_fst: "fst (bfs_push cs (out, q)) = out \<union> set cs"
  by (induction cs arbitrary: out q) auto

lemma bfs_push_snd: "set (snd (bfs_push cs (out, q))) = set q \<union> (set cs - out)"
  by (induction cs arbitrary: out q) auto

lemma bfs_push_seen: "set cs \<subseteq> out \<Longrightarrow> bfs_push cs (out, q) = (out, q)"
  by (induction cs arbitrary: q) auto

lemma bfs_decreases:
  "(bfs_push (kids idx next) (out, queue), (out, next # queue)) \<in>
     inv_image (less_than <*lex*> less_than) (\<lambda>(out, q). (card (all_kids idx - out), length q))"
proof (cases "set (kids idx next) \<subseteq> out")
  case True
  then show ?thesis by (simp add: bfs_push_seen)
next
  case False
  then have "all_kids idx - (out \<union> set (kids idx next)) \<subset> all_kids idx - out"
    using kids_all_kids by blast
  then have "card (all_kids idx - fst (bfs_push (kids idx next) (out, queue))) < card (all_kids idx - out)"
    by (simp add: bfs_push_fst psubset_card_mono)
  then show ?thesis by (simp add: case_prod_beta)
qed

function bfs_loop :: "child_index \<Rightarrow> ident set \<Rightarrow> ident list \<Rightarrow> ident set" where
  "bfs_loop idx out [] = out"
| "bfs_loop idx out (next # queue) =
     (let acc = bfs_push (kids idx next) (out, queue) in bfs_loop idx (fst acc) (snd acc))"
  by pat_completeness auto

termination
  by (relation "inv_image (less_than <*lex*> less_than)
      (\<lambda>(idx, out, q). (card (all_kids idx - out), length q))")
     (use bfs_decreases in \<open>auto simp: case_prod_beta\<close>)

definition collectSubtreeIDs :: "child_index \<Rightarrow> ident \<Rightarrow> ident set \<Rightarrow> ident set" where
  "collectSubtreeIDs children rootID out =
     (if rootID = empty_id then out else bfs_loop children (insert rootID out) [rootID])"

definition collectSubtree :: "child_index \<Rightarrow> ident \<Rightarrow> ident set" where
  "collectSubtree children rootID = bfs_loop children {rootID} [rootID]"

text \<open>The members of \<open>out\<close> that are not in the queue have their children in \<open>out\<close>.\<close>

lemma bfs_loop_closed:
  assumes "set q \<subseteq> out" and "\<forall>x \<in> out - set q. set (kids idx x) \<subseteq> out"
  shows "out \<subseteq> bfs_loop idx out q \<and> (\<forall>x \<in> bfs_loop idx out q. set (kids idx x) \<subseteq> bfs_loop idx out q)"
  using assms
proof (induction idx out q rule: bfs_loop.induct)
  case (2 idx out x q)
  let ?acc = "bfs_push (kids idx x) (out, q)"
  have "fst ?acc \<subseteq> bfs_loop idx (fst ?acc) (snd ?acc) \<and>
      (\<forall>y \<in> bfs_loop idx (fst ?acc) (snd ?acc). set (kids idx y) \<subseteq> bfs_loop idx (fst ?acc) (snd ?acc))"
    using "2.prems" by (intro "2.IH") (auto simp: bfs_push_fst bfs_push_snd)
  then show ?case by (simp add: Let_def bfs_push_fst)
qed simp

lemma rtrancl_Image_closed: "A \<subseteq> R\<^sup>* `` B \<Longrightarrow> R\<^sup>* `` A \<subseteq> R\<^sup>* `` B"
  by (metis Image_mono order_refl relcomp_Image rtrancl_idemp_self_comp)

lemma bfs_loop_reach:
  assumes "set q \<subseteq> out"
  shows "bfs_loop idx out q \<subseteq> (child_rel idx)\<^sup>* `` out"
  using assms
proof (induction idx out q rule: bfs_loop.induct)
  case (2 idx out x q)
  let ?acc = "bfs_push (kids idx x) (out, q)"
  have "bfs_loop idx (fst ?acc) (snd ?acc) \<subseteq> (child_rel idx)\<^sup>* `` fst ?acc"
    using "2.prems" by (intro "2.IH") (auto simp: bfs_push_fst bfs_push_snd)
  also have "fst ?acc \<subseteq> (child_rel idx)\<^sup>* `` out"
    using "2.prems" by (auto simp: bfs_push_fst child_rel_def)
  then have "(child_rel idx)\<^sup>* `` fst ?acc \<subseteq> (child_rel idx)\<^sup>* `` out"
    by (rule rtrancl_Image_closed)
  finally show ?case by (simp add: Let_def)
qed auto

lemma closed_contains_reach:
  assumes "r \<in> X" and "\<forall>x \<in> X. set (kids idx x) \<subseteq> X"
  shows "reach idx r \<subseteq> X"
proof
  fix y assume "y \<in> reach idx r"
  then have "(r, y) \<in> (child_rel idx)\<^sup>*" by simp
  then show "y \<in> X" by induction (use assms in \<open>auto simp: child_rel_def\<close>)
qed

lemma collectSubtree_reach: "collectSubtree idx r = reach idx r"
  using bfs_loop_closed [of "[r]" "{r}" idx] bfs_loop_reach [of "[r]" "{r}" idx]
    closed_contains_reach [of r "bfs_loop idx {r} [r]" idx]
  by (auto simp: collectSubtree_def)

lemma collectSubtreeIDs_reach:
  assumes "r \<noteq> empty_id" and "\<forall>x \<in> out. set (kids idx x) \<subseteq> out"
  shows "collectSubtreeIDs idx r out = out \<union> reach idx r"
proof -
  let ?L = "bfs_loop idx (insert r out) [r]"
  have "insert r out \<subseteq> ?L \<and> (\<forall>x \<in> ?L. set (kids idx x) \<subseteq> ?L)"
    using assms(2) by (intro bfs_loop_closed) auto
  moreover have "?L \<subseteq> (child_rel idx)\<^sup>* `` insert r out" by (rule bfs_loop_reach) simp
  moreover have "(child_rel idx)\<^sup>* `` out \<subseteq> out"
    using closed_contains_reach [OF _ assms(2)] by blast
  ultimately show ?thesis
    using closed_contains_reach [of r ?L idx] assms(1) by (auto simp: collectSubtreeIDs_def)
qed

section \<open>Post-order\<close>

text \<open>The explicit stack of frames \<open>(id, nextIdx)\<close>, top first.\<close>

function post_loop :: "child_index \<Rightarrow> (ident \<times> nat) list \<Rightarrow> ident set \<Rightarrow> ident list \<Rightarrow> ident list" where
  "post_loop children [] visited out = out"
| "post_loop children ((i, nextIdx) # stack) visited out =
     (if nextIdx < length (kids children i)
      then let child = kids children i ! nextIdx in
           if child \<in> visited then post_loop children ((i, Suc nextIdx) # stack) visited out
           else post_loop children ((child, 0) # (i, Suc nextIdx) # stack) (insert child visited) out
      else post_loop children stack visited (out @ [i]))"
  by pat_completeness auto

termination
proof (relation "inv_image (less_than <*lex*> less_than <*lex*> less_than)
    (\<lambda>(ch, st, vis, out). (card (all_kids ch - vis),
       sum_list (map (\<lambda>(i, n). length (kids ch i) - n) st), length st))", goal_cases)
  case (3 ch i n st vis out child)
  then have "all_kids ch - insert child vis \<subset> all_kids ch - vis"
    using kids_all_kids [of child ch i] by auto
  then show ?case by (simp add: psubset_card_mono)
qed auto

definition subtreePostOrder :: "child_index \<Rightarrow> ident \<Rightarrow> ident list" where
  "subtreePostOrder children rootID =
     (if rootID = empty_id then [] else post_loop children [(rootID, 0)] {rootID} [])"

definition children_first :: "child_index \<Rightarrow> ident list \<Rightarrow> bool" where
  "children_first ch out \<longleftrightarrow> (\<forall>as x bs. out = as @ x # bs \<longrightarrow> set (kids ch x) \<subseteq> set as)"

lemma children_first_Nil [simp]: "children_first ch []"
  by (simp add: children_first_def)

lemma children_first_snoc [simp]:
  "children_first ch (out @ [i]) \<longleftrightarrow> children_first ch out \<and> set (kids ch i) \<subseteq> set out"
  unfolding children_first_def
  by (intro iffI conjI allI impI)
    (metis append_Cons append_assoc, blast, metis butlast.simps(2) butlast_append butlast_snoc
      last_snoc last_ConsL last_appendR list.distinct(1) append_butlast_last_id last_ConsR snoc_eq_iff_butlast)

definition post_inv :: "child_index \<Rightarrow> ident \<Rightarrow> (ident \<times> nat) list \<Rightarrow> ident set \<Rightarrow> ident list \<Rightarrow> bool" where
  "post_inv ch r st vis out \<longleftrightarrow>
     vis = set out \<union> fst ` set st \<and> distinct (out @ map fst st) \<and>
     successively (\<lambda>x y. (y, x) \<in> child_rel ch) (map fst st) \<and>
     vis \<subseteq> reach ch r \<and>
     (if st = [] then out \<noteq> [] \<and> last out = r else fst (last st) = r) \<and>
     (\<forall>(i, n) \<in> set st. set (take n (kids ch i)) \<subseteq> vis) \<and>
     (\<forall>x \<in> set out. set (kids ch x) \<subseteq> vis) \<and>
     (acyclic (child_rel ch) \<longrightarrow> children_first ch out)"

lemma post_inv_start: "post_inv ch r [(r, 0)] {r} []"
  by (simp add: post_inv_def)

lemma post_inv_skip:
  assumes "post_inv ch r ((i, n) # st) vis out" and "n < length (kids ch i)" and "kids ch i ! n \<in> vis"
  shows "post_inv ch r ((i, Suc n) # st) vis out"
proof -
  have "set (take (Suc n) (kids ch i)) \<subseteq> vis"
    using assms by (auto simp: post_inv_def take_Suc_conv_app_nth)
  then show ?thesis using assms(1) by (auto simp: post_inv_def split: if_splits)
qed

lemma post_inv_push:
  assumes inv: "post_inv ch r ((i, n) # st) vis out" and n: "n < length (kids ch i)"
    and fresh: "kids ch i ! n \<notin> vis"
  shows "post_inv ch r ((kids ch i ! n, 0) # (i, Suc n) # st) (insert (kids ch i ! n) vis) out"
proof -
  let ?c = "kids ch i ! n"
  have edge: "(i, ?c) \<in> child_rel ch" using n by (simp add: child_rel_def)
  have "i \<in> reach ch r" using inv by (auto simp: post_inv_def)
  with edge have c: "?c \<in> reach ch r" by (auto intro: rtrancl_into_rtrancl)
  have "set (take (Suc n) (kids ch i)) \<subseteq> insert ?c vis"
    using inv n by (auto simp: post_inv_def take_Suc_conv_app_nth)
  moreover have "?c \<notin> set out" "?c \<notin> fst ` set st" "?c \<noteq> i"
    using inv fresh by (auto simp: post_inv_def)
  ultimately show ?thesis
    using inv c edge by (auto simp: post_inv_def successively_Cons split: if_splits)
qed

lemma stack_reaches_top:
  "successively (\<lambda>x y. (y, x) \<in> R) (x # xs) \<Longrightarrow> y \<in> set (x # xs) \<Longrightarrow> (y, x) \<in> R\<^sup>*"
proof (induction xs arbitrary: x)
  case (Cons z zs)
  then show ?case
    by (cases "y = x") (auto intro: rtrancl_into_rtrancl)
qed simp

lemma post_inv_pop:
  assumes inv: "post_inv ch r ((i, n) # st) vis out" and n: "\<not> n < length (kids ch i)"
  shows "post_inv ch r st vis (out @ [i])"
proof -
  have kids_vis: "set (kids ch i) \<subseteq> vis" using inv n by (auto simp: post_inv_def)
  have "set (kids ch i) \<subseteq> set out" if acyc: "acyclic (child_rel ch)"
  proof
    fix y assume y: "y \<in> set (kids ch i)"
    show "y \<in> set out"
    proof (rule ccontr)
      assume "y \<notin> set out"
      then have "y \<in> set (map fst ((i, n) # st))" using y kids_vis inv by (auto simp: post_inv_def)
      then have "(y, i) \<in> (child_rel ch)\<^sup>*"
        using inv stack_reaches_top [of "child_rel ch" i "map fst st" y] by (simp add: post_inv_def)
      moreover have "(i, y) \<in> child_rel ch" using y by (simp add: child_rel_def)
      ultimately show False
        using acyc by (auto simp: acyclic_def dest: rtrancl_into_trancl2)
    qed
  qed
  then show ?thesis
    using inv kids_vis
    by (auto simp: post_inv_def successively_Cons split: if_splits)
qed

lemma post_loop_inv:
  "post_inv ch r st vis out \<Longrightarrow> \<exists>vis'. post_inv ch r [] vis' (post_loop ch st vis out)"
proof (induction ch st vis out rule: post_loop.induct)
  case (2 ch i n st vis out)
  then show ?case
    using post_inv_skip [OF "2.prems"] post_inv_push [OF "2.prems"] post_inv_pop [OF "2.prems"]
    by (simp add: Let_def)
qed auto

text \<open>The iterative post-order lists every node reachable from the root exactly once, the
  root last, and, on an adjacency without cycles, every node after all of its children.\<close>

theorem subtreePostOrder_spec:
  assumes "rid \<noteq> empty_id"
  shows "distinct (subtreePostOrder ch rid) \<and> set (subtreePostOrder ch rid) = (child_rel ch)\<^sup>* `` {rid} \<and>
    last (subtreePostOrder ch rid) = rid \<and>
    (acyclic (child_rel ch) \<longrightarrow> children_first ch (subtreePostOrder ch rid))"
proof -
  obtain vis where inv: "post_inv ch rid [] vis (subtreePostOrder ch rid)"
    using post_loop_inv [OF post_inv_start] assms unfolding subtreePostOrder_def by auto
  then have "rid \<in> set (subtreePostOrder ch rid)" by (auto simp: post_inv_def dest: last_in_set)
  then have "reach ch rid \<subseteq> set (subtreePostOrder ch rid)"
    using inv by (intro closed_contains_reach) (auto simp: post_inv_def)
  then show ?thesis using inv by (auto simp: post_inv_def)
qed

section \<open>Queries over the materialized state\<close>

definition LiveOrderedChildren :: "materialized \<Rightarrow> child_index \<Rightarrow> ident \<Rightarrow> ident list" where
  "LiveOrderedChildren m index parentID =
     sort_key (\<lambda>i. get_or [] position_of (fmlookup (mt_nodes m) i)) (kids index parentID)"

definition DescendantsLeavesFirst :: "range_fun \<Rightarrow> materialized \<Rightarrow> ident \<Rightarrow> ident list" where
  "DescendantsLeavesFirst it m nodeID = (case fmlookup (mt_nodes m) nodeID of None \<Rightarrow> []
     | Some r \<Rightarrow> if \<not> node_live r then [] else subtreePostOrder (LiveChildrenByParent it m) nodeID)"

abbreviation ref_of_tab :: "tab_record \<Rightarrow> tab_ref" where
  "ref_of_tab t \<equiv> \<lparr>tr_tab_type = tb_tab_type t, tr_tab_id = tb_tab_id t\<rparr>"

definition TabsOnTile :: "range_fun \<Rightarrow> materialized \<Rightarrow> ident \<Rightarrow> tab_ref list" where
  "TabsOnTile it m tileID =
     map ref_of_tab (sort_key (\<lambda>t. (tab_position_of t, tb_tab_id t))
       (filter (\<lambda>t. tab_live t \<and> tile_of t = tileID) (map snd (go_range it (mt_tabs m)))))"

definition LiveTabsInSubtree :: "range_fun \<Rightarrow> materialized \<Rightarrow> ident \<Rightarrow> tab_ref list" where
  "LiveTabsInSubtree it m subtreeRoot =
     (let seen = set (DescendantsLeavesFirst it m subtreeRoot)
      in map ref_of_tab (filter (\<lambda>t. tab_live t \<and> tile_of t \<in> seen)
           (map snd (go_range it (mt_tabs m)))))"

text \<open>
  The two recursive walks of the heir search have no visited set, so they need not end on a
  cyclic graph: the first argument bounds the depth of the recursion and \<open>None\<close> is running
  out of it.
\<close>

fun buildPathToNode :: "nat \<Rightarrow> materialized \<Rightarrow> child_index \<Rightarrow> ident \<Rightarrow> ident \<Rightarrow> ident list \<Rightarrow>
      (ident list \<times> bool) option"
  and path_through_kids :: "nat \<Rightarrow> materialized \<Rightarrow> child_index \<Rightarrow> ident list \<Rightarrow> ident \<Rightarrow> ident list \<Rightarrow>
      (ident list \<times> bool) option" where
  "buildPathToNode 0 m index rootID targetID out = None"
| "buildPathToNode (Suc n) m index rootID targetID out =
     (case fmlookup (mt_nodes m) rootID of None \<Rightarrow> Some (out, False)
      | Some r \<Rightarrow>
          if \<not> node_live r then Some (out, False)
          else if rootID = targetID then Some (out @ [rootID], True)
          else (case path_through_kids n m index (kids index rootID) targetID (out @ [rootID]) of
                  None \<Rightarrow> None
                | Some (out', found) \<Rightarrow> if found then Some (out', True) else Some (butlast out', False)))"
| "path_through_kids n m index [] targetID out = Some (out, False)"
| "path_through_kids n m index (c # cs) targetID out =
     (case buildPathToNode n m index c targetID out of None \<Rightarrow> None
      | Some (out', found) \<Rightarrow> if found then Some (out', True)
                              else path_through_kids n m index cs targetID out')"

fun firstLeafID :: "nat \<Rightarrow> materialized \<Rightarrow> child_index \<Rightarrow> ident \<Rightarrow> ident option"
  and first_leaf_in :: "nat \<Rightarrow> materialized \<Rightarrow> child_index \<Rightarrow> ident list \<Rightarrow> ident option" where
  "firstLeafID 0 m index subtreeRoot = None"
| "firstLeafID (Suc n) m index subtreeRoot =
     (case fmlookup (mt_nodes m) subtreeRoot of None \<Rightarrow> Some empty_id
      | Some r \<Rightarrow>
          if \<not> node_live r then Some empty_id
          else if kind_of r = NODE_KIND_LEAF \<or> kind_of r = NODE_KIND_UNSPECIFIED then Some subtreeRoot
          else first_leaf_in n m index (LiveOrderedChildren m index subtreeRoot))"
| "first_leaf_in n m index [] = Some empty_id"
| "first_leaf_in n m index (c # cs) =
     (case firstLeafID n m index c of None \<Rightarrow> None
      | Some leaf \<Rightarrow> if leaf \<noteq> empty_id then Some leaf else first_leaf_in n m index cs)"

text \<open>The position of the first occurrence, \<open>None\<close> for the loop's -1.\<close>

fun index_of :: "'a \<Rightarrow> 'a list \<Rightarrow> nat option" where
  "index_of x [] = None"
| "index_of x (y # ys) = (if y = x then Some 0 else map_option Suc (index_of x ys))"

definition adjacent_sibling :: "ident list \<Rightarrow> ident \<Rightarrow> ident" where
  "adjacent_sibling siblings childID = (case index_of childID siblings of None \<Rightarrow> empty_id
     | Some i \<Rightarrow> if i > 0 then siblings ! (i - 1)
                 else if i + 1 < length siblings then siblings ! (i + 1) else empty_id)"

text \<open>The upward loop, over the pairs (parent, child) of the path from its end.\<close>

fun heir_loop :: "nat \<Rightarrow> materialized \<Rightarrow> child_index \<Rightarrow> (ident \<times> ident) list \<Rightarrow> ident option" where
  "heir_loop n m index [] = Some empty_id"
| "heir_loop n m index ((parentID, childID) # rest) =
     (let adj = adjacent_sibling (LiveOrderedChildren m index parentID) childID in
      if adj = empty_id then heir_loop n m index rest
      else (case firstLeafID n m index adj of None \<Rightarrow> None
            | Some leaf \<Rightarrow> if leaf \<noteq> empty_id then Some leaf else heir_loop n m index rest))"

definition FindHeirTileID :: "nat \<Rightarrow> range_fun \<Rightarrow> materialized \<Rightarrow> ident \<Rightarrow> ident \<Rightarrow> ident option" where
  "FindHeirTileID n it m closingTileID rootNodeID =
     (if rootNodeID = empty_id \<or> closingTileID = empty_id then Some empty_id
      else let index = LiveChildrenByParent it m in
           case buildPathToNode n m index rootNodeID closingTileID [] of None \<Rightarrow> None
           | Some (path, found) \<Rightarrow>
               if \<not> found then Some empty_id else heir_loop n m index (rev (zip path (tl path))))"

lemma firstLeafID_sound:
  "firstLeafID n m index r = Some leaf \<Longrightarrow> leaf \<noteq> empty_id \<Longrightarrow>
     \<exists>rec. fmlookup (mt_nodes m) leaf = Some rec \<and> node_live rec \<and>
           (kind_of rec = NODE_KIND_LEAF \<or> kind_of rec = NODE_KIND_UNSPECIFIED) \<and> leaf \<in> reach index r"
  "first_leaf_in n m index cs = Some leaf \<Longrightarrow> leaf \<noteq> empty_id \<Longrightarrow>
     \<exists>rec. fmlookup (mt_nodes m) leaf = Some rec \<and> node_live rec \<and>
           (kind_of rec = NODE_KIND_LEAF \<or> kind_of rec = NODE_KIND_UNSPECIFIED) \<and>
           (\<exists>c \<in> set cs. leaf \<in> reach index c)"
proof (induction n m index r and n m index cs rule: firstLeafID_first_leaf_in.induct)
  case (2 n m index r)
  then show ?case
    by (auto split: option.splits if_splits simp: LiveOrderedChildren_def child_rel_def
        intro: converse_rtrancl_into_rtrancl)
qed (auto split: option.splits if_splits)

text \<open>On an adjacency without cycles a depth above the number of reachable nodes is enough.\<close>

lemma reach_child_psubset:
  assumes "acyclic (child_rel index)" and "c \<in> set (kids index r)"
  shows "reach index c \<subset> reach index r"
proof -
  have rc: "(r, c) \<in> child_rel index" using assms(2) by (simp add: child_rel_def)
  then have "reach index c \<subseteq> reach index r" by (auto intro: converse_rtrancl_into_rtrancl)
  moreover have "r \<notin> reach index c"
    using assms(1) rc by (auto simp: acyclic_def dest: rtrancl_into_trancl2)
  ultimately show ?thesis by auto
qed

lemma finite_reach: "finite (reach index r)"
proof -
  have "reach index r \<subseteq> insert r (all_kids index)"
    using closed_contains_reach [of r "insert r (all_kids index)" index] kids_all_kids by blast
  then show ?thesis using finite_subset by fastforce
qed

lemma reach_child_card:
  assumes "acyclic (child_rel index)" and "c \<in> set (kids index r)"
  shows "card (reach index c) < card (reach index r)"
  by (rule psubset_card_mono [OF finite_reach reach_child_psubset [OF assms]])

lemma firstLeafID_enough:
  assumes "acyclic (child_rel index)"
  shows "card (reach index r) < n \<Longrightarrow> firstLeafID n m index r \<noteq> None"
    "(\<forall>c \<in> set cs. card (reach index c) < n) \<Longrightarrow> first_leaf_in n m index cs \<noteq> None"
  using assms
proof (induction n m index r and n m index cs rule: firstLeafID_first_leaf_in.induct)
  case (2 n m index r)
  have "\<forall>c \<in> set (LiveOrderedChildren m index r). card (reach index c) < n"
    using reach_child_card [OF "2.prems"(2)] "2.prems"(1) by (fastforce simp: LiveOrderedChildren_def)
  then show ?case using 2 by (auto split: option.splits)
qed (auto split: option.splits)

lemma buildPathToNode_enough:
  assumes "acyclic (child_rel index)"
  shows "card (reach index r) < n \<Longrightarrow> buildPathToNode n m index r t out \<noteq> None"
    "(\<forall>c \<in> set cs. card (reach index c) < n) \<Longrightarrow> path_through_kids n m index cs t out \<noteq> None"
  using assms
proof (induction n m index r t out and n m index cs t out rule: buildPathToNode_path_through_kids.induct)
  case (2 n m index r t out)
  have "\<forall>c \<in> set (kids index r). card (reach index c) < n"
    using reach_child_card [OF "2.prems"(2)] "2.prems"(1) by fastforce
  then show ?case using 2 by (cases "r = t") (auto split: option.splits prod.splits)
qed (auto split: option.splits prod.splits)

lemma heir_loop_sound:
  "heir_loop n m index ps = Some leaf \<Longrightarrow> leaf \<noteq> empty_id \<Longrightarrow>
     \<exists>rec. fmlookup (mt_nodes m) leaf = Some rec \<and> node_live rec \<and>
           (kind_of rec = NODE_KIND_LEAF \<or> kind_of rec = NODE_KIND_UNSPECIFIED)"
  by (induction n m index ps rule: heir_loop.induct)
     (auto simp: Let_def split: if_splits option.splits dest: firstLeafID_sound(1))

lemma index_of_nth: "index_of x xs = Some i \<Longrightarrow> i < length xs \<and> xs ! i = x"
  by (induction xs arbitrary: i) (auto split: if_splits)

lemma adjacent_sibling_mem:
  assumes "adjacent_sibling sib c \<noteq> empty_id"
  shows "adjacent_sibling sib c \<in> set sib"
  using assms by (auto simp: adjacent_sibling_def split: option.splits if_splits dest!: index_of_nth)

lemma heir_loop_enough:
  assumes "acyclic (child_rel index)"
    and "\<forall>(p, c) \<in> set ps. card (reach index p) \<le> n"
  shows "heir_loop n m index ps \<noteq> None"
  using assms(2)
proof (induction ps)
  case (Cons pc ps)
  obtain p c where pc: "pc = (p, c)" by fastforce
  let ?adj = "adjacent_sibling (LiveOrderedChildren m index p) c"
  have "firstLeafID n m index ?adj \<noteq> None" if "?adj \<noteq> empty_id"
  proof -
    have "?adj \<in> set (kids index p)"
      using adjacent_sibling_mem [OF that] by (simp add: LiveOrderedChildren_def)
    then have "card (reach index ?adj) < n"
      using reach_child_card [OF assms(1)] Cons.prems pc by fastforce
    then show ?thesis by (rule firstLeafID_enough(1) [OF assms(1)])
  qed
  then show ?case using Cons by (cases "?adj = empty_id") (auto simp: pc Let_def split: option.splits)
qed simp

lemma buildPathToNode_reach:
  "buildPathToNode n m index r t out = Some (p, b) \<Longrightarrow> if b then \<exists>q. p = out @ q \<and> set q \<subseteq> reach index r else p = out"
  "path_through_kids n m index cs t out = Some (p, b) \<Longrightarrow>
     if b then \<exists>q. p = out @ q \<and> set q \<subseteq> (\<Union>c \<in> set cs. reach index c) else p = out"
proof (induction n m index r t out and n m index cs t out arbitrary: p b and p b
    rule: buildPathToNode_path_through_kids.induct)
  case (2 n m index r t out)
  have "(\<Union>c \<in> set (kids index r). reach index c) \<subseteq> reach index r"
    by (auto simp: child_rel_def intro: converse_rtrancl_into_rtrancl)
  then show ?case using 2 by (fastforce split: option.splits if_splits prod.splits)
next
  case (4 n m index c cs t out)
  then show ?case by (fastforce split: option.splits if_splits prod.splits)
qed (auto split: if_splits)

text \<open>C6: on a layout without cycles the search for an heir of a closed tile returns (a recursion
  depth above the number of nodes under the root is enough), and what it returns, when it is
  not empty, is a live tile of leaf kind.\<close>

theorem FindHeirTileID_total:
  assumes "acyclic (child_rel (LiveChildrenByParent it m))"
    and "card ((child_rel (LiveChildrenByParent it m))\<^sup>* `` {rid}) < n"
  shows "\<exists>heir. FindHeirTileID n it m tile rid = Some heir \<and>
    (heir \<noteq> empty_id \<longrightarrow> (\<exists>r. fmlookup (mt_nodes m) heir = Some r \<and> node_live r \<and>
      (kind_of r = NODE_KIND_LEAF \<or> kind_of r = NODE_KIND_UNSPECIFIED)))"
proof -
  let ?idx = "LiveChildrenByParent it m"
  have "FindHeirTileID n it m tile rid \<noteq> None"
  proof (cases "rid = empty_id \<or> tile = empty_id")
    case False
    obtain path b where build: "buildPathToNode n m ?idx rid tile [] = Some (path, b)"
      using buildPathToNode_enough(1) [OF assms, of m tile "[]"] by auto
    have "set path \<subseteq> reach ?idx rid"
      using buildPathToNode_reach(1) [OF build] by (auto split: if_splits)
    then have "card (reach ?idx p) \<le> n" if "p \<in> set path" for p
      using that assms(2) card_mono [OF finite_reach rtrancl_Image_closed [of "{p}" "child_rel ?idx" "{rid}"]]
      by fastforce
    then have "\<forall>(p, c) \<in> set (rev (zip path (tl path))). card (reach ?idx p) \<le> n"
      by (auto dest: set_zip_leftD)
    then have "heir_loop n m ?idx (rev (zip path (tl path))) \<noteq> None"
      by (rule heir_loop_enough [OF assms(1)])
    then show ?thesis using False build by (auto simp: FindHeirTileID_def Let_def)
  qed (simp add: FindHeirTileID_def)
  then obtain heir where heir: "FindHeirTileID n it m tile rid = Some heir" by blast
  then show ?thesis
    by (auto simp: FindHeirTileID_def Let_def split: if_splits option.splits prod.splits
        dest: heir_loop_sound)
qed

end
