(* ===== verification/Roots.thy ===== *)
theory Roots
  imports TreeOps
begin

text \<open>
  Registered roots and the workspace an entity belongs to (backend/internal/hub/crdt/project.go
  and validate\_resolve.go): \<open>registeredRoots\<close> collects the root nodes of workspaces and live
  floating windows, \<open>resolveTileWorkspace\<close> walks a tile to a root through live nodes only, and
  \<open>workspaceForEntity\<close> resolves the target of an operation.
\<close>

section \<open>The root set\<close>

record root_set =
  rs_roots :: "(ident, ident) fmap"
  rs_counts :: "(ident, int) fmap"
  rs_workspace_roots :: "(ident, ident) fmap"
  rs_window_roots :: "(ident, ident) fmap"

definition count_at :: "root_set \<Rightarrow> ident \<Rightarrow> int" where
  "count_at rs i = (case fmlookup (rs_counts rs) i of None \<Rightarrow> 0 | Some n \<Rightarrow> n)"

definition add_workspace_root :: "ident \<times> workspace_record \<Rightarrow> root_set \<Rightarrow> root_set" where
  "add_workspace_root = (\<lambda>(wsID, wsRec) rs. let i = ws_root_node_id wsRec in
     if i \<noteq> empty_id
     then rs\<lparr>rs_roots := fmupd i wsID (rs_roots rs), rs_counts := fmupd i (count_at rs i + 1) (rs_counts rs),
             rs_workspace_roots := fmupd i wsID (rs_workspace_roots rs)\<rparr>
     else rs)"

definition add_window_root :: "ident \<times> window_record \<Rightarrow> root_set \<Rightarrow> root_set" where
  "add_window_root = (\<lambda>(_, fw) rs.
     if \<not> window_live fw then rs
     else let i = fw_root_node_id fw in
       if i \<noteq> empty_id
       then rs\<lparr>rs_roots := fmupd i (workspace_of fw) (rs_roots rs),
               rs_counts := fmupd i (count_at rs i + 1) (rs_counts rs),
               rs_window_roots := fmupd i (fw_window_id fw) (rs_window_roots rs)\<rparr>
       else rs)"

definition empty_root_set :: root_set where
  "empty_root_set = \<lparr>rs_roots = fmempty, rs_counts = fmempty, rs_workspace_roots = fmempty,
     rs_window_roots = fmempty\<rparr>"

definition registeredRoots :: "range_fun \<Rightarrow> org_state \<Rightarrow> root_set" where
  "registeredRoots it s =
     fold add_window_root (go_range it (st_windows s))
       (fold add_workspace_root (go_range it (st_workspaces s)) empty_root_set)"

text \<open>
  A registration: a workspace or a live floating window names a node as its root. The first
  component is the root node, the second the workspace it stands for.
\<close>

inductive registers :: "org_state \<Rightarrow> ident \<Rightarrow> ident \<Rightarrow> bool" for s where
  by_workspace: "fmlookup (st_workspaces s) w = Some r \<Longrightarrow> ws_root_node_id r = i \<Longrightarrow> i \<noteq> empty_id \<Longrightarrow>
    registers s i w"
| by_window: "fmlookup (st_windows s) k = Some f \<Longrightarrow> window_live f \<Longrightarrow> fw_root_node_id f = i \<Longrightarrow>
    i \<noteq> empty_id \<Longrightarrow> workspace_of f = w \<Longrightarrow> registers s i w"

text \<open>How many workspaces and windows register a node.\<close>

definition root_count :: "org_state \<Rightarrow> ident \<Rightarrow> nat" where
  "root_count s i =
     card {w. \<exists>r. fmlookup (st_workspaces s) w = Some r \<and> ws_root_node_id r = i \<and> i \<noteq> empty_id} +
     card {k. \<exists>f. fmlookup (st_windows s) k = Some f \<and> window_live f \<and> fw_root_node_id f = i \<and> i \<noteq> empty_id}"

definition unique_roots :: "org_state \<Rightarrow> bool" where
  "unique_roots s \<longleftrightarrow> (\<forall>i. root_count s i \<le> 1)"

section \<open>What the root set holds\<close>

lemma add_workspace_root_simps [walk_simps]:
  "count_at (add_workspace_root p rs) i =
     count_at rs i + (if ws_root_node_id (snd p) = i \<and> i \<noteq> empty_id then 1 else 0)"
  "fmlookup (rs_roots (add_workspace_root p rs)) i =
     (if ws_root_node_id (snd p) = i \<and> i \<noteq> empty_id then Some (fst p) else fmlookup (rs_roots rs) i)"
  "fmlookup (rs_workspace_roots (add_workspace_root p rs)) i =
     (if ws_root_node_id (snd p) = i \<and> i \<noteq> empty_id then Some (fst p)
      else fmlookup (rs_workspace_roots rs) i)"
  "rs_window_roots (add_workspace_root p rs) = rs_window_roots rs"
  by (auto simp: add_workspace_root_def count_at_def Let_def split: prod.splits)

abbreviation (input) roots_at :: "ident \<Rightarrow> 'k \<times> window_record \<Rightarrow> bool" where
  "roots_at i p \<equiv> window_live (snd p) \<and> fw_root_node_id (snd p) = i \<and> i \<noteq> empty_id"

lemma add_window_root_simps [walk_simps]:
  "count_at (add_window_root p rs) i = count_at rs i + (if roots_at i p then 1 else 0)"
  "fmlookup (rs_roots (add_window_root p rs)) i =
     (if roots_at i p then Some (workspace_of (snd p)) else fmlookup (rs_roots rs) i)"
  "fmlookup (rs_window_roots (add_window_root p rs)) i =
     (if roots_at i p then Some (fw_window_id (snd p)) else fmlookup (rs_window_roots rs) i)"
  "rs_workspace_roots (add_window_root p rs) = rs_workspace_roots rs"
  by (auto simp: add_window_root_def count_at_def Let_def split: prod.splits)

lemma workspace_fold_counts:
  "count_at (fold add_workspace_root ps rs) i =
     count_at rs i + int (length (filter (\<lambda>p. ws_root_node_id (snd p) = i \<and> i \<noteq> empty_id) ps))"
  by (induction ps arbitrary: rs) (simp_all add: walk_simps)

lemma window_fold_counts:
  "count_at (fold add_window_root ps rs) i = count_at rs i + int (length (filter (roots_at i) ps))"
  by (induction ps arbitrary: rs) (simp_all add: walk_simps)

lemma length_filter_go_range:
  assumes "range_order it"
  shows "length (filter (\<lambda>p. P (snd p)) (go_range it m)) = card {k. \<exists>r. fmlookup m k = Some r \<and> P r}"
proof -
  let ?ps = "filter (\<lambda>p. P (snd p)) (go_range it m)"
  have "distinct (map fst ?ps)"
    using range_order_distinct [OF assms] by (intro distinct_map_filter) simp
  moreover have "fst ` set ?ps = {k. \<exists>r. fmlookup m k = Some r \<and> P r}"
    using set_go_range [OF assms, of m] by force
  ultimately show ?thesis using distinct_card [of "map fst ?ps"] by simp
qed

lemma registeredRoots_count:
  assumes "range_order it"
  shows "count_at (registeredRoots it s) i = int (root_count s i)"
proof -
  have "count_at empty_root_set i = 0" by (simp add: count_at_def empty_root_set_def)
  then show ?thesis
    by (simp add: registeredRoots_def window_fold_counts workspace_fold_counts
        length_filter_go_range [OF assms, where P = "\<lambda>r. ws_root_node_id r = i \<and> i \<noteq> empty_id"]
        length_filter_go_range [OF assms,
          where P = "\<lambda>f. window_live f \<and> fw_root_node_id f = i \<and> i \<noteq> empty_id"] root_count_def)
qed

text \<open>
  The maps hold the last registration of a node in the order of the loops. The fold of a
  conditional update is the last element that satisfies the condition.
\<close>

lemma fold_last:
  assumes "\<And>p rs. look (f p rs) = (if Q p then Some (g p) else look rs)"
  shows "look (fold f ps rs) = (case filter Q (rev ps) of [] \<Rightarrow> look rs | p # _ \<Rightarrow> Some (g p))"
  by (induction ps rule: rev_induct) (simp_all add: assms)

lemma fold_keep:
  assumes "\<And>p rs. look (f p rs) = look rs"
  shows "look (fold f ps rs) = look rs"
  by (induction ps rule: rev_induct) (simp_all add: assms)

lemma filter_rev_hd: "filter Q (rev ps) = p # qs \<Longrightarrow> p \<in> set ps \<and> Q p"
proof -
  assume "filter Q (rev ps) = p # qs"
  then have "p \<in> set (filter Q (rev ps))" by simp
  then show ?thesis by simp
qed

lemma filter_rev_Nil: "filter Q (rev ps) = [] \<longleftrightarrow> (\<forall>p \<in> set ps. \<not> Q p)"
  by (simp add: filter_empty_conv)

lemmas workspace_fold_roots = fold_last [where look = "\<lambda>rs. fmlookup (rs_roots rs) i"
    and f = add_workspace_root for i, OF add_workspace_root_simps(2)]
lemmas window_fold_roots = fold_last [where look = "\<lambda>rs. fmlookup (rs_roots rs) i"
    and f = add_window_root for i, OF add_window_root_simps(2)]
lemmas workspace_fold_wroots = fold_last [where look = "\<lambda>rs. fmlookup (rs_workspace_roots rs) i"
    and f = add_workspace_root for i, OF add_workspace_root_simps(3)]
lemmas window_fold_wroots = fold_last [where look = "\<lambda>rs. fmlookup (rs_window_roots rs) i"
    and f = add_window_root for i, OF add_window_root_simps(3)]

lemma registeredRoots_lookup:
  "fmlookup (rs_roots (registeredRoots it s)) i =
     (case filter (roots_at i) (rev (go_range it (st_windows s))) of
        p # _ \<Rightarrow> Some (workspace_of (snd p))
      | [] \<Rightarrow> (case filter (\<lambda>p. ws_root_node_id (snd p) = i \<and> i \<noteq> empty_id)
                     (rev (go_range it (st_workspaces s))) of
                p # _ \<Rightarrow> Some (fst p) | [] \<Rightarrow> None))"
  by (simp add: registeredRoots_def window_fold_roots workspace_fold_roots empty_root_set_def
      split: list.splits)

lemma registeredRoots_workspace_roots:
  "fmlookup (rs_workspace_roots (registeredRoots it s)) i =
     (case filter (\<lambda>p. ws_root_node_id (snd p) = i \<and> i \<noteq> empty_id) (rev (go_range it (st_workspaces s))) of
                p # _ \<Rightarrow> Some (fst p) | [] \<Rightarrow> None)"
  by (simp add: registeredRoots_def workspace_fold_wroots empty_root_set_def
      fold_keep [where look = rs_workspace_roots and f = add_window_root] walk_simps split: list.splits)

lemma registeredRoots_window_roots:
  "fmlookup (rs_window_roots (registeredRoots it s)) i =
     (case filter (roots_at i) (rev (go_range it (st_windows s))) of
        p # _ \<Rightarrow> Some (fw_window_id (snd p)) | [] \<Rightarrow> None)"
  by (simp add: registeredRoots_def window_fold_wroots empty_root_set_def
      fold_keep [where look = rs_window_roots and f = add_workspace_root] walk_simps split: list.splits)

lemma registeredRoots_sound:
  assumes it: "range_order it" and look: "fmlookup (rs_roots (registeredRoots it s)) i = Some w"
  shows "registers s i w"
proof (cases "filter (roots_at i) (rev (go_range it (st_windows s)))")
  case Nil
  with look obtain p qs where "filter (\<lambda>p. ws_root_node_id (snd p) = i \<and> i \<noteq> empty_id)
      (rev (go_range it (st_workspaces s))) = p # qs" "fst p = w"
    by (auto simp: registeredRoots_lookup split: list.splits)
  then show ?thesis
    using filter_rev_hd it by (cases p) (fastforce intro: registers.by_workspace)
next
  case (Cons p qs)
  with look have "workspace_of (snd p) = w" by (simp add: registeredRoots_lookup)
  then show ?thesis
    using filter_rev_hd [OF Cons] it by (cases p) (auto intro: registers.by_window)
qed

lemma registeredRoots_complete:
  assumes it: "range_order it" and reg: "registers s i w"
  shows "fmlookup (rs_roots (registeredRoots it s)) i \<noteq> None"
proof
  assume "fmlookup (rs_roots (registeredRoots it s)) i = None"
  then have "\<forall>p \<in> set (go_range it (st_windows s)). \<not> roots_at i p"
    "\<forall>p \<in> set (go_range it (st_workspaces s)). \<not> (ws_root_node_id (snd p) = i \<and> i \<noteq> empty_id)"
    by (auto simp only: registeredRoots_lookup filter_rev_Nil [symmetric] split: list.splits)
  with it reg show False
    by (auto simp: set_go_range elim!: registers.cases)
qed

lemma registers_window_roots:
  assumes it: "range_order it"
  shows "fmlookup (rs_window_roots (registeredRoots it s)) i = Some k \<Longrightarrow>
      \<exists>j f. fmlookup (st_windows s) j = Some f \<and> window_live f \<and> fw_root_node_id f = i \<and>
            i \<noteq> empty_id \<and> fw_window_id f = k"
    and "fmlookup (st_windows s) j = Some f \<Longrightarrow> window_live f \<Longrightarrow> fw_root_node_id f = i \<Longrightarrow>
      i \<noteq> empty_id \<Longrightarrow> fmlookup (rs_window_roots (registeredRoots it s)) i \<noteq> None"
proof -
  assume "fmlookup (rs_window_roots (registeredRoots it s)) i = Some k"
  then obtain p qs where "filter (roots_at i) (rev (go_range it (st_windows s))) = p # qs"
      "fw_window_id (snd p) = k"
    by (auto simp: registeredRoots_window_roots split: list.splits)
  then show "\<exists>j f. fmlookup (st_windows s) j = Some f \<and> window_live f \<and> fw_root_node_id f = i \<and>
            i \<noteq> empty_id \<and> fw_window_id f = k"
    using filter_rev_hd it by (cases p) fastforce
next
  assume "fmlookup (st_windows s) j = Some f" "window_live f" "fw_root_node_id f = i" "i \<noteq> empty_id"
  with it have "(j, f) \<in> set (go_range it (st_windows s))" "roots_at i (j, f)" by auto
  then have "filter (roots_at i) (rev (go_range it (st_windows s))) \<noteq> []"
    unfolding filter_rev_Nil by blast
  then show "fmlookup (rs_window_roots (registeredRoots it s)) i \<noteq> None"
    by (auto simp: registeredRoots_window_roots neq_Nil_conv)
qed

lemma registers_workspace_roots:
  assumes it: "range_order it"
  shows "fmlookup (rs_workspace_roots (registeredRoots it s)) i \<noteq> None \<longleftrightarrow>
      (\<exists>w r. fmlookup (st_workspaces s) w = Some r \<and> ws_root_node_id r = i \<and> i \<noteq> empty_id)"
proof -
  have "fmlookup (rs_workspace_roots (registeredRoots it s)) i = None \<longleftrightarrow>
    (\<forall>p \<in> set (go_range it (st_workspaces s)). \<not> (ws_root_node_id (snd p) = i \<and> i \<noteq> empty_id))"
    unfolding filter_rev_Nil [symmetric] registeredRoots_workspace_roots by (auto split: list.splits)
  then show ?thesis using it by (auto simp: set_go_range)
qed

text \<open>Where roots are unique, the order of the loops does not matter.\<close>

lemma finite_slots: "finite {k. \<exists>r. fmlookup m k = Some r \<and> P r}"
  by (rule finite_subset [of _ "fmdom' m"]) (auto intro: fmdom'I)

lemma card_le_1_eq: "finite A \<Longrightarrow> card A \<le> 1 \<Longrightarrow> x \<in> A \<Longrightarrow> y \<in> A \<Longrightarrow> x = y"
  by (metis card_le_Suc0_iff_eq One_nat_def)

lemma registers_unique:
  assumes "unique_roots s" and "registers s i w" and "registers s i w'"
  shows "w = w'"
proof -
  let ?A = "{w. \<exists>r. fmlookup (st_workspaces s) w = Some r \<and> ws_root_node_id r = i \<and> i \<noteq> empty_id}"
  let ?B = "{k. \<exists>f. fmlookup (st_windows s) k = Some f \<and> window_live f \<and> fw_root_node_id f = i \<and> i \<noteq> empty_id}"
  have fin: "finite ?A" "finite ?B" by (rule finite_slots)+
  have le: "card ?A + card ?B \<le> 1" using assms(1) by (simp add: unique_roots_def root_count_def)
  have AA: "x = y" if "x \<in> ?A" "y \<in> ?A" for x y
    using card_le_1_eq [OF fin(1) _ that] le by simp
  have BB: "x = y" if "x \<in> ?B" "y \<in> ?B" for x y
    using card_le_1_eq [OF fin(2) _ that] le by simp
  have AB: False if "x \<in> ?A" "y \<in> ?B" for x y
  proof -
    have "card ?A > 0" "card ?B > 0" using that fin by (auto simp: card_gt_0_iff)
    then show False using le by simp
  qed
  have A: "w \<in> ?A \<or> (\<exists>k \<in> ?B. \<exists>f. fmlookup (st_windows s) k = Some f \<and> workspace_of f = w)"
    if "registers s i w" for w
    using that by (cases rule: registers.cases) auto
  show ?thesis
    using A [OF assms(2)] A [OF assms(3)]
  proof (elim disjE bexE exE conjE)
    fix k f k' f'
    assume k: "k \<in> ?B" "k' \<in> ?B" and "fmlookup (st_windows s) k = Some f" "workspace_of f = w"
      "fmlookup (st_windows s) k' = Some f'" "workspace_of f' = w'"
    moreover have "k = k'" using BB [OF k] .
    ultimately show ?thesis by simp
  qed (use AA AB in blast)+
qed

lemma registeredRoots_unique:
  assumes "unique_roots s" and "range_order it"
  shows "fmlookup (rs_roots (registeredRoots it s)) i = Some w \<longleftrightarrow> registers s i w"
  using assms registeredRoots_sound registeredRoots_complete registers_unique by blast

section \<open>Resolving a tile\<close>

text \<open>The parent closure of \<open>resolveTileWorkspace\<close>: defined on live nodes with a parent.\<close>

definition live_parents :: "org_state \<Rightarrow> (ident, ident) fmap" where
  "live_parents s = fmmap nd_parent_id (fmfilter (\<lambda>i. case fmlookup (st_nodes s) i of None \<Rightarrow> False
     | Some n \<Rightarrow> node_live n \<and> nd_parent_id n \<noteq> empty_id) (st_nodes s))"

lemma live_parents_lookup:
  "fmlookup (live_parents s) i = Some p \<longleftrightarrow>
     (\<exists>n. fmlookup (st_nodes s) i = Some n \<and> node_live n \<and> nd_parent_id n = p \<and> p \<noteq> empty_id)"
  by (auto simp: live_parents_def split: option.splits)

function chain_walk :: "org_state \<Rightarrow> ident set \<Rightarrow> ident \<Rightarrow> bool" where
  "chain_walk s visited cur =
     (if cur = empty_id then True
      else if cur \<in> visited then False
      else (case fmlookup (st_nodes s) cur of None \<Rightarrow> False
            | Some node \<Rightarrow> if \<not> node_live node then False
                            else chain_walk s (insert cur visited) (nd_parent_id node)))"
  by pat_completeness auto

termination
proof (relation "measure (\<lambda>(s, visited, cur). card (fmdom' (st_nodes s) - visited))")
  fix s :: org_state and visited cur n
  assume "cur \<notin> visited" "fmlookup (st_nodes s) cur = Some n"
  moreover from this have "cur \<in> fmdom' (st_nodes s)" by (auto intro: fmdom'I)
  ultimately have "fmdom' (st_nodes s) - insert cur visited \<subset> fmdom' (st_nodes s) - visited" by blast
  then show "((s, insert cur visited, nd_parent_id n), s, visited, cur)
      \<in> measure (\<lambda>(s, visited, cur). card (fmdom' (st_nodes s) - visited))"
    by (simp add: psubset_card_mono)
qed simp

declare chain_walk.simps [simp del]

definition chainAlive :: "org_state \<Rightarrow> ident \<Rightarrow> bool" where
  "chainAlive s tileID = chain_walk s {} tileID"

definition resolveTileWorkspace :: "org_state \<Rightarrow> ident \<Rightarrow> root_set \<Rightarrow> ident \<times> bool" where
  "resolveTileWorkspace s tileID roots =
     (if tileID = empty_id then (empty_id, False)
      else let ws = resolveParentChain (rs_roots roots) tileID (live_parents s)
           in if ws = empty_id then (empty_id, False) else (ws, chainAlive s tileID))"

definition tileIsLeaf :: "org_state \<Rightarrow> ident \<Rightarrow> bool" where
  "tileIsLeaf s tileID = (case fmlookup (st_nodes s) tileID of None \<Rightarrow> False
     | Some r \<Rightarrow> kind_of r = NODE_KIND_LEAF)"

definition nodeWorkspace :: "org_state \<Rightarrow> node_record option \<Rightarrow> root_set \<Rightarrow> ident" where
  "nodeWorkspace s node roots = (case node of None \<Rightarrow> empty_id
     | Some n \<Rightarrow> if \<not> node_live n then empty_id
                 else resolveParentChain (rs_roots roots) (nd_node_id n) (fmmap nd_parent_id (st_nodes s)))"

fun workspaceForEntity :: "org_state \<Rightarrow> entity_ref \<Rightarrow> root_set \<Rightarrow> ident" where
  "workspaceForEntity s (EntityNode i) roots = nodeWorkspace s (fmlookup (st_nodes s) i) roots"
| "workspaceForEntity s (EntityTab _ i) roots = (case fmlookup (st_tabs s) i of None \<Rightarrow> empty_id
     | Some t \<Rightarrow> fst (resolveTileWorkspace s (tile_of t) roots))"
| "workspaceForEntity s (EntityWindow i) roots =
     (case fmlookup (st_windows s) i of None \<Rightarrow> empty_id | Some f \<Rightarrow> workspace_of f)"
| "workspaceForEntity s (EntityWorkspaceRoot i) roots =
     (case fmlookup (st_workspaces s) i of None \<Rightarrow> empty_id | Some _ \<Rightarrow> i)"
| "workspaceForEntity s EntityUnknown roots = empty_id"

text \<open>
  The walk of \<open>chainAlive\<close> is a parent-chain walk too: it looks for a live node without a
  parent, so what is known of \<open>resolveParentChain\<close> applies to it.
\<close>

definition top_nodes :: "org_state \<Rightarrow> (ident, ident) fmap" where
  "top_nodes s = fmmap (\<lambda>_. ''top'') (fmfilter (\<lambda>i. case fmlookup (st_nodes s) i of None \<Rightarrow> False
     | Some n \<Rightarrow> node_live n \<and> nd_parent_id n = empty_id) (st_nodes s))"

lemma top_nodes_lookup:
  "fmlookup (top_nodes s) i = Some w \<longleftrightarrow> w = ''top'' \<and>
     (\<exists>n. fmlookup (st_nodes s) i = Some n \<and> node_live n \<and> nd_parent_id n = empty_id)"
  by (auto simp: top_nodes_def split: option.splits)

lemma chain_walk_resolve:
  "chain_walk s visited cur \<longleftrightarrow> cur = empty_id \<or>
     resolve_walk (top_nodes s) (live_parents s) visited cur = ''top''"
proof (induction s visited cur rule: chain_walk.induct)
  case (1 s visited cur)
  show ?case
  proof (cases "fmlookup (st_nodes s) cur")
    case None
    then have "fmlookup (top_nodes s) cur = None" "fmlookup (live_parents s) cur = None"
      by (simp_all add: top_nodes_def live_parents_def)
    with None show ?thesis by (simp add: chain_walk.simps [of s] resolve_walk.simps [of _ _ visited])
  next
    case (Some n)
    have top: "fmlookup (top_nodes s) cur = (if node_live n \<and> nd_parent_id n = empty_id then Some ''top'' else None)"
      and par: "fmlookup (live_parents s) cur =
        (if node_live n \<and> nd_parent_id n \<noteq> empty_id then Some (nd_parent_id n) else None)"
      using Some by (simp_all add: top_nodes_def live_parents_def)
    have walk: "chain_walk s visited cur \<longleftrightarrow> cur = empty_id \<or> cur \<notin> visited \<and> node_live n \<and>
        chain_walk s (insert cur visited) (nd_parent_id n)"
      by (subst chain_walk.simps) (simp add: Some)
    have res: "resolve_walk (top_nodes s) (live_parents s) visited cur = ''top'' \<longleftrightarrow>
        cur \<noteq> empty_id \<and> cur \<notin> visited \<and> node_live n \<and> (nd_parent_id n = empty_id \<or>
        resolve_walk (top_nodes s) (live_parents s) (insert cur visited) (nd_parent_id n) = ''top'')"
      by (subst resolve_walk.simps) (auto simp: top par)
    show ?thesis
      using "1.IH" [of n] Some unfolding walk res by blast
  qed
qed

text \<open>A live chain from a tile to a node without a parent.\<close>

definition alive_above :: "org_state \<Rightarrow> ident \<Rightarrow> bool" where
  "alive_above s i \<longleftrightarrow> i = empty_id \<or> (\<exists>path. climbs (top_nodes s) (live_parents s) i path ''top'')"

lemma chainAlive_iff: "chainAlive s i \<longleftrightarrow> alive_above s i"
  using resolveParentChain_eq [of "''top''" "top_nodes s" i "live_parents s"]
  by (simp add: chainAlive_def chain_walk_resolve alive_above_def resolveParentChain_def)

lemma resolveTileWorkspace_fst:
  assumes "ws \<noteq> empty_id"
  shows "fst (resolveTileWorkspace s tile roots) = ws \<longleftrightarrow>
    (\<exists>path. climbs (rs_roots roots) (live_parents s) tile path ws)"
  using resolveParentChain_eq [OF assms, of "rs_roots roots" tile "live_parents s"] assms
  by (auto simp: resolveTileWorkspace_def Let_def elim: climbsE)

text \<open>
  A tile is placed in a workspace: a chain of live nodes leads to a registered root, every
  ancestor is live, and the tile is a leaf. This is what tab placement and the rendered
  projection require.
\<close>

definition placed :: "org_state \<Rightarrow> root_set \<Rightarrow> ident \<Rightarrow> ident \<Rightarrow> bool" where
  "placed s roots tile ws \<longleftrightarrow> ws \<noteq> empty_id \<and>
     (\<exists>path. climbs (rs_roots roots) (live_parents s) tile path ws) \<and> alive_above s tile \<and> tileIsLeaf s tile"

lemma resolve_placed:
  "fst (resolveTileWorkspace s tile roots) \<noteq> empty_id \<and> snd (resolveTileWorkspace s tile roots) \<and>
     tileIsLeaf s tile \<longleftrightarrow> placed s roots tile (fst (resolveTileWorkspace s tile roots))"
proof -
  have "snd (resolveTileWorkspace s tile roots) \<longleftrightarrow>
      fst (resolveTileWorkspace s tile roots) \<noteq> empty_id \<and> chainAlive s tile"
    by (simp add: resolveTileWorkspace_def Let_def)
  then show ?thesis
    using resolveTileWorkspace_fst [of "fst (resolveTileWorkspace s tile roots)" s tile roots]
    by (auto simp: placed_def chainAlive_iff)
qed

end
