(* ===== verification/Project.thy ===== *)
theory Project
  imports Roots
begin

text \<open>
  The projection of a state to what is rendered (backend/internal/hub/crdt/project.go): the
  tile trees of workspaces and floating windows, and the owned and rendered tabs. Every loop
  over a Go map takes the iteration order as an argument, and the results are proved not to
  depend on it.
\<close>

section \<open>Rendered data\<close>

datatype render_tree = RenderTree (rt_node_id: ident) (rt_kind: node_kind) (rt_direction: split_direction)
  (rt_ratios: "float64 list") (rt_rows: "32 word") (rt_cols: "32 word") (rt_row_ratios: "float64 list")
  (rt_col_ratios: "float64 list") (rt_children: "render_tree list")

record rendered_tab =
  rd_org_id :: ident
  rd_workspace_id :: ident
  rd_tab_type :: tab_type
  rd_tab_id :: ident
  rd_worker_id :: ident
  rd_tile_id :: ident
  rd_position :: string

record rendered_window =
  rw_window_id :: ident
  rw_x :: float64
  rw_y :: float64
  rw_width :: float64
  rw_height :: float64
  rw_opacity :: float64
  rw_inner_tree :: render_tree

record workspace_projection =
  wp_workspace_id :: ident
  wp_main_tree :: render_tree
  wp_windows :: "rendered_window list"

record projection =
  pj_org_id :: ident
  pj_workspaces :: "(ident, workspace_projection) fmap"
  pj_owned :: "rendered_tab list"
  pj_rendered :: "rendered_tab list"

definition leaf_tree :: "ident \<Rightarrow> render_tree" where
  "leaf_tree i = RenderTree i NODE_KIND_LEAF SPLIT_DIRECTION_UNSPECIFIED [] 0 0 [] [] []"

section \<open>Tile trees\<close>

text \<open>The decimal rendering of \<open>fmt.Sprintf("%d,%d", r, col)\<close>.\<close>

fun decimal :: "nat \<Rightarrow> string" where
  "decimal n = (if n < 10 then [char_of (48 + n)] else decimal (n div 10) @ [char_of (48 + n mod 10)])"

declare decimal.simps [simp del]

definition cell_key :: "nat \<Rightarrow> nat \<Rightarrow> string" where
  "cell_key r c = decimal r @ '','' @ decimal c"

text \<open>The child that a grid shows at a position: the lower node id wins.\<close>

definition grid_put :: "node_record \<Rightarrow> (string, node_record) fmap \<Rightarrow> (string, node_record) fmap" where
  "grid_put c grid = (case fmlookup grid (position_of c) of
     None \<Rightarrow> fmupd (position_of c) c grid
   | Some old \<Rightarrow> if nd_node_id c < nd_node_id old then fmupd (position_of c) c grid else grid)"

definition grid_cells :: "node_record list \<Rightarrow> nat \<Rightarrow> nat \<Rightarrow> node_record option list" where
  "grid_cells children rows cols =
     (let grid = fold grid_put children fmempty
      in concat (map (\<lambda>r. map (\<lambda>c. fmlookup grid (cell_key r c)) [0..<cols]) [0..<rows]))"

definition live_children :: "org_state \<Rightarrow> child_index \<Rightarrow> ident \<Rightarrow> node_record list" where
  "live_children s idx i = concat (map (\<lambda>c. case fmlookup (st_nodes s) c of None \<Rightarrow> []
     | Some n \<Rightarrow> if node_live n then [n] else []) (kids idx i))"

definition sort_children :: "node_record list \<Rightarrow> node_record list" where
  "sort_children cs = sort_key (\<lambda>c. (position_of c, nd_node_id c)) cs"

definition tree_of_record :: "node_record \<Rightarrow> render_tree list \<Rightarrow> render_tree" where
  "tree_of_record r cs = RenderTree (nd_node_id r) (kind_of r)
     (get_or SPLIT_DIRECTION_UNSPECIFIED lww_value (nd_direction r))
     (get_or [] lww_value (nd_ratios r)) (get_or 0 lww_value (nd_rows r)) (get_or 0 lww_value (nd_cols r))
     (get_or [] lww_value (nd_row_ratios r)) (get_or [] lww_value (nd_col_ratios r)) cs"

definition set_node_id :: "ident \<Rightarrow> render_tree \<Rightarrow> render_tree" where
  "set_node_id i t = RenderTree i (rt_kind t) (rt_direction t) (rt_ratios t) (rt_rows t) (rt_cols t)
     (rt_row_ratios t) (rt_col_ratios t) (rt_children t)"

definition split_tree :: "node_record \<Rightarrow> render_tree list \<Rightarrow> render_tree" where
  "split_tree r cs = (case tree_of_record r cs of RenderTree i k d ratios rows cols rr cr cs' \<Rightarrow>
     RenderTree i k d (normalizeRatios ratios (int (length cs'))) rows cols rr cr cs')"

definition grid_tree :: "node_record \<Rightarrow> render_tree list \<Rightarrow> render_tree" where
  "grid_tree r cs = (case tree_of_record r cs of RenderTree i k d ratios rows cols rr cr cs' \<Rightarrow>
     RenderTree i k d ratios rows cols
       (if word_of_nat (length rr) \<noteq> rows then normalizeRatios rr (uint rows) else rr)
       (if word_of_nat (length cr) \<noteq> cols then normalizeRatios cr (uint cols) else cr) cs')"

text \<open>
  The \<open>switch\<close> on the kind, in the two halves around the loop over the children: which child
  records the loop visits (\<open>None\<close> for an empty grid cell), and what is made of the trees that
  it collects. A split with one live child visits that child and returns its tree under its
  own node id.
\<close>

definition tree_cells :: "org_state \<Rightarrow> node_record \<Rightarrow> child_index \<Rightarrow> node_record option list" where
  "tree_cells s r idx = (let children = live_children s idx (nd_node_id r) in
     case kind_of r of
       NODE_KIND_SPLIT \<Rightarrow> map Some (sort_children children)
     | NODE_KIND_GRID \<Rightarrow>
         (let rows = get_or 0 lww_value (nd_rows r); cols = get_or 0 lww_value (nd_cols r)
          in if rows = 0 \<or> cols = 0 then [] else grid_cells children (unat rows) (unat cols))
     | _ \<Rightarrow> [])"

definition tree_finish :: "node_record \<Rightarrow> render_tree list \<Rightarrow> render_tree" where
  "tree_finish r ts = (case kind_of r of
       NODE_KIND_SPLIT \<Rightarrow> (case ts of [only] \<Rightarrow> set_node_id (nd_node_id r) only | _ \<Rightarrow> split_tree r ts)
     | NODE_KIND_GRID \<Rightarrow>
         (let rows = get_or 0 lww_value (nd_rows r); cols = get_or 0 lww_value (nd_cols r)
          in if rows = 0 \<or> cols = 0 then tree_of_record r [] else grid_tree r ts)
     | _ \<Rightarrow> tree_of_record r [])"

text \<open>
  \<open>buildTree\<close> threads the shared \<open>seen\<close> map through the recursion. The first argument bounds
  the depth; \<open>None\<close> is running out of it. \<open>build_cells\<close> is the loop over the children.
\<close>

fun buildTree :: "nat \<Rightarrow> org_state \<Rightarrow> node_record \<Rightarrow> child_index \<Rightarrow> ident set \<Rightarrow> (render_tree \<times> ident set) option"
  and build_cells :: "nat \<Rightarrow> org_state \<Rightarrow> node_record option list \<Rightarrow> child_index \<Rightarrow> ident set \<Rightarrow>
    (render_tree list \<times> ident set) option" where
  "buildTree 0 s r idx seen = None"
| "buildTree (Suc n) s r idx seen =
     (if nd_node_id r \<in> seen then Some (leaf_tree (nd_node_id r), seen)
      else map_option (\<lambda>(ts, sn). (tree_finish r ts, sn))
        (build_cells n s (tree_cells s r idx) idx (insert (nd_node_id r) seen)))"
| "build_cells n s [] idx seen = Some ([], seen)"
| "build_cells n s (None # cs) idx seen =
     map_option (\<lambda>(ts, sn). (leaf_tree empty_id # ts, sn)) (build_cells n s cs idx seen)"
| "build_cells n s (Some c # cs) idx seen =
     (case buildTree n s c idx seen of None \<Rightarrow> None
      | Some (t, seen') \<Rightarrow> map_option (\<lambda>(ts, sn). (t # ts, sn)) (build_cells n s cs idx seen'))"

definition buildTreeFromRoot :: "nat \<Rightarrow> org_state \<Rightarrow> ident \<Rightarrow> child_index \<Rightarrow> render_tree option" where
  "buildTreeFromRoot n s rootID idx =
     (if rootID = empty_id then Some (leaf_tree empty_id)
      else case fmlookup (st_nodes s) rootID of None \<Rightarrow> Some (leaf_tree rootID)
           | Some r \<Rightarrow> if \<not> node_live r then Some (leaf_tree rootID)
                       else map_option fst (buildTree n s r idx {}))"

section \<open>Tabs\<close>

definition tab_row :: "org_state \<Rightarrow> tab_record \<Rightarrow> ident \<Rightarrow> rendered_tab" where
  "tab_row s t wsID = \<lparr>rd_org_id = st_org_id s, rd_workspace_id = wsID, rd_tab_type = tb_tab_type t,
     rd_tab_id = tb_tab_id t, rd_worker_id = worker_of t, rd_tile_id = tile_of t,
     rd_position = tab_position_of t\<rparr>"

text \<open>The closure that memoizes \<open>resolveTileWorkspace\<close> per tile.\<close>

type_synonym tile_memo = "(ident, ident \<times> bool) fmap"

definition resolve_memo :: "org_state \<Rightarrow> root_set \<Rightarrow> ident \<Rightarrow> tile_memo \<Rightarrow> (ident \<times> bool) \<times> tile_memo" where
  "resolve_memo s roots tile memo = (case fmlookup memo tile of
     Some res \<Rightarrow> (res, memo)
   | None \<Rightarrow> let res = resolveTileWorkspace s tile roots in (res, fmupd tile res memo))"

definition project_tab_step :: "org_state \<Rightarrow> root_set \<Rightarrow> tab_record \<Rightarrow>
    rendered_tab list \<times> rendered_tab list \<times> tile_memo \<Rightarrow> rendered_tab list \<times> rendered_tab list \<times> tile_memo" where
  "project_tab_step s roots t = (\<lambda>(owned, rendered, memo).
     if \<not> tab_live t then (owned, rendered, memo)
     else let ((wsID, leafLive), memo') = resolve_memo s roots (tile_of t) memo in
          if wsID = empty_id then (owned, rendered, memo')
          else let row = tab_row s t wsID in
               (owned @ [row],
                if leafLive \<and> tileIsLeaf s (tile_of t) then rendered @ [row] else rendered, memo'))"

definition projectTabs :: "range_fun \<Rightarrow> org_state \<Rightarrow> root_set \<Rightarrow> rendered_tab list \<times> rendered_tab list" where
  "projectTabs it s roots =
     (let (owned, rendered, _) = fold (project_tab_step s roots) (map snd (go_range it (st_tabs s))) ([], [], fmempty)
      in (sort_key rd_tab_id owned, sort_key rd_tab_id rendered))"

definition projectOneTab :: "org_state \<Rightarrow> ident \<Rightarrow> root_set \<Rightarrow> rendered_tab option \<times> rendered_tab option" where
  "projectOneTab s tabID roots = (case fmlookup (st_tabs s) tabID of None \<Rightarrow> (None, None)
     | Some t \<Rightarrow> if \<not> tab_live t then (None, None)
                 else let (wsID, leafLive) = resolveTileWorkspace s (tile_of t) roots in
                      if wsID = empty_id then (None, None)
                      else let row = tab_row s t wsID in
                           if leafLive \<and> tileIsLeaf s (tile_of t) then (Some row, Some row) else (Some row, None))"

section \<open>The projection\<close>

definition project_workspaces :: "nat \<Rightarrow> org_state \<Rightarrow> child_index \<Rightarrow> (ident \<times> workspace_record) list \<Rightarrow>
    (ident, workspace_projection) fmap option" where
  "project_workspaces n s idx ws = fold (\<lambda>(wsID, wsRec) acc.
     case acc of None \<Rightarrow> None | Some m \<Rightarrow>
       (case buildTreeFromRoot n s (ws_root_node_id wsRec) idx of None \<Rightarrow> None
        | Some t \<Rightarrow> Some (fmupd wsID \<lparr>wp_workspace_id = wsID, wp_main_tree = t, wp_windows = []\<rparr> m)))
     ws (Some fmempty)"

definition rendered_window_of :: "window_record \<Rightarrow> render_tree \<Rightarrow> rendered_window" where
  "rendered_window_of fw t = \<lparr>rw_window_id = fw_window_id fw, rw_x = get_or 0 lww_value (fw_x fw),
     rw_y = get_or 0 lww_value (fw_y fw), rw_width = get_or 0 lww_value (fw_width fw),
     rw_height = get_or 0 lww_value (fw_height fw), rw_opacity = get_or 0 lww_value (fw_opacity fw),
     rw_inner_tree = t\<rparr>"

definition project_windows :: "nat \<Rightarrow> org_state \<Rightarrow> child_index \<Rightarrow> window_record list \<Rightarrow>
    (ident, workspace_projection) fmap \<Rightarrow> (ident, workspace_projection) fmap option" where
  "project_windows n s idx fws m0 = fold (\<lambda>fw acc.
     case acc of None \<Rightarrow> None | Some m \<Rightarrow>
       if \<not> window_live fw then Some m
       else (case fmlookup m (workspace_of fw) of None \<Rightarrow> Some m
             | Some wp \<Rightarrow>
                 (case buildTreeFromRoot n s (fw_root_node_id fw) idx of None \<Rightarrow> None
                  | Some t \<Rightarrow> Some (fmupd (workspace_of fw)
                       (wp\<lparr>wp_windows := wp_windows wp @ [rendered_window_of fw t]\<rparr>) m))))
     fws (Some m0)"

text \<open>The recursion depth the projection needs is bounded by the number of nodes.\<close>

definition tree_fuel :: "org_state \<Rightarrow> nat" where
  "tree_fuel s = Suc (fcard (fmdom (st_nodes s)))"

definition Project :: "range_fun \<Rightarrow> org_state \<Rightarrow> projection option" where
  "Project it s =
     (let roots = registeredRoots it s; idx = BuildAllChildrenIndex it s; n = tree_fuel s in
      case project_workspaces n s idx (go_range it (st_workspaces s)) of None \<Rightarrow> None
      | Some m \<Rightarrow>
          (case project_windows n s idx (map snd (go_range it (st_windows s))) m of None \<Rightarrow> None
           | Some m' \<Rightarrow>
               let (owned, rendered) = projectTabs it s roots in
               Some \<lparr>pj_org_id = st_org_id s,
                     pj_workspaces = fmmap (\<lambda>wp. wp\<lparr>wp_windows := sort_key rw_window_id (wp_windows wp)\<rparr>) m',
                     pj_owned = owned, pj_rendered = rendered\<rparr>))"

definition ProjectOwnership :: "range_fun \<Rightarrow> org_state \<Rightarrow> projection" where
  "ProjectOwnership it s =
     (let (owned, rendered) = projectTabs it s (registeredRoots it s)
      in \<lparr>pj_org_id = st_org_id s, pj_workspaces = fmempty, pj_owned = owned, pj_rendered = rendered\<rparr>)"

section \<open>Building a tree always returns\<close>

lemma buildTree_seen:
  "buildTree n s r idx seen = Some (t, seen') \<Longrightarrow> seen \<subseteq> seen'"
  "build_cells n s cs idx seen = Some (ts, seen') \<Longrightarrow> seen \<subseteq> seen'"
proof (induction n s r idx seen and n s cs idx seen arbitrary: t seen' and ts seen'
    rule: buildTree_build_cells.induct)
  case (2 n s r idx seen)
  then show ?case by (auto split: if_splits)
next
  case (5 n s c cs idx seen)
  from "5.prems" obtain t1 sn1 ts2 where
    "buildTree n s c idx seen = Some (t1, sn1)" "build_cells n s cs idx sn1 = Some (ts2, seen')"
    by (auto split: option.splits)
  with "5.IH" show ?case by blast
qed auto

lemma live_children_mem:
  "n \<in> set (live_children s idx i) \<longleftrightarrow> node_live n \<and> (\<exists>c \<in> set (kids idx i). fmlookup (st_nodes s) c = Some n)"
  by (force simp: live_children_def split: option.splits if_splits)

lemma grid_put_mem: "fmlookup (fold grid_put cs g) k = Some c \<Longrightarrow> c \<in> set cs \<or> fmlookup g k = Some c"
  by (induction cs arbitrary: g) (force simp: grid_put_def split: option.splits if_splits)+

lemma grid_cells_mem: "Some c \<in> set (grid_cells children rows cols) \<Longrightarrow> c \<in> set children"
  by (auto simp: grid_cells_def Let_def dest!: sym [of "Some c"] grid_put_mem)

lemma tree_cells_mem: "Some c \<in> set (tree_cells s r idx) \<Longrightarrow> c \<in> set (live_children s idx (nd_node_id r))"
  by (auto simp: tree_cells_def sort_children_def Let_def split: node_kind.splits if_splits
      dest: grid_cells_mem)

lemma live_children_dom:
  assumes "state_ok s" and "n \<in> set (live_children s idx i)"
  shows "nd_node_id n \<in> fmdom' (st_nodes s)"
proof -
  obtain c where c: "fmlookup (st_nodes s) c = Some n" using assms(2) by (auto simp: live_children_mem)
  then have "nd_node_id n = c" by (rule state_ok_id(1) [OF assms(1)])
  with c show ?thesis by (auto intro: fmdom'I)
qed

lemma buildTree_enough:
  assumes "state_ok s"
  shows "nd_node_id r \<in> fmdom' (st_nodes s) \<Longrightarrow> card (fmdom' (st_nodes s) - seen) < n \<Longrightarrow>
      buildTree n s r idx seen \<noteq> None"
    "(\<forall>c. Some c \<in> set cs \<longrightarrow> nd_node_id c \<in> fmdom' (st_nodes s)) \<Longrightarrow>
      card (fmdom' (st_nodes s) - seen) < n \<Longrightarrow> build_cells n s cs idx seen \<noteq> None"
  using assms
proof (induction n s r idx seen and n s cs idx seen rule: buildTree_build_cells.induct)
  case (2 n s r idx seen)
  show ?case
  proof (cases "nd_node_id r \<in> seen")
    case False
    have "fmdom' (st_nodes s) - insert (nd_node_id r) seen \<subset> fmdom' (st_nodes s) - seen"
      using False "2.prems"(1) by blast
    from psubset_card_mono [OF _ this]
    have "card (fmdom' (st_nodes s) - insert (nd_node_id r) seen) < n"
      using "2.prems"(2) by simp
    then have "build_cells n s (tree_cells s r idx) idx (insert (nd_node_id r) seen) \<noteq> None"
      using "2.IH" [OF False] "2.prems"(3) live_children_dom tree_cells_mem by blast
    then show ?thesis using False by auto
  qed simp
next
  case (5 n s c cs idx seen)
  have "buildTree n s c idx seen \<noteq> None" using "5.IH"(1) "5.prems" by simp
  then obtain t sn where t: "buildTree n s c idx seen = Some (t, sn)" by auto
  have "card (fmdom' (st_nodes s) - sn) \<le> card (fmdom' (st_nodes s) - seen)"
    using buildTree_seen(1) [OF t] by (intro card_mono) auto
  then have "build_cells n s cs idx sn \<noteq> None"
    using "5.IH"(2) [OF t refl] "5.prems" by simp
  with t show ?case by auto
qed auto

section \<open>Shape of a rendered tree\<close>

fun tree_wf :: "render_tree \<Rightarrow> bool" where
  "tree_wf (RenderTree i k d ratios rows cols rr cr cs) \<longleftrightarrow>
     (k = NODE_KIND_SPLIT \<longrightarrow> length ratios = length cs \<and> length cs \<noteq> 1) \<and>
     (k = NODE_KIND_GRID \<and> rows \<noteq> 0 \<and> cols \<noteq> 0 \<longrightarrow> length cs = unat rows * unat cols \<and>
        word_of_nat (length rr) = rows \<and> word_of_nat (length cr) = cols) \<and>
     (k \<noteq> NODE_KIND_SPLIT \<and> k \<noteq> NODE_KIND_GRID \<longrightarrow> cs = []) \<and> list_all tree_wf cs"

lemma leaf_tree_wf [simp]: "tree_wf (leaf_tree i)"
  by (simp add: leaf_tree_def)

lemma set_node_id_wf [simp]: "tree_wf (set_node_id i t) = tree_wf t"
  by (cases t) (simp add: set_node_id_def)

lemma length_build_cells: "build_cells n s cs idx seen = Some (ts, sn) \<Longrightarrow> length ts = length cs"
proof (induction cs arbitrary: seen ts sn)
  case (Cons a cs)
  then show ?case by (cases a) (auto split: option.splits)
qed simp

lemma length_grid_cells: "length (grid_cells children rows cols) = rows * cols"
  by (simp add: grid_cells_def Let_def length_concat comp_def sum_list_triv)

lemma tree_finish_wf:
  assumes "list_all tree_wf ts" and "length ts = length (tree_cells s r idx)"
  shows "tree_wf (tree_finish r ts)"
  using assms
  by (auto simp: tree_finish_def tree_cells_def split_tree_def grid_tree_def tree_of_record_def Let_def
      length_grid_cells split: node_kind.splits list.splits)

lemma buildTree_wf:
  "buildTree n s r idx seen = Some (t, seen') \<Longrightarrow> tree_wf t"
  "build_cells n s cs idx seen = Some (ts, seen') \<Longrightarrow> list_all tree_wf ts"
proof (induction n s r idx seen and n s cs idx seen arbitrary: t seen' and ts seen'
    rule: buildTree_build_cells.induct)
  case (2 n s r idx seen)
  then show ?case
    by (auto split: if_splits intro: tree_finish_wf length_build_cells)
next
  case (5 n s c cs idx seen)
  then show ?case by (auto split: option.splits)
qed auto

section \<open>The tree does not depend on the order of the adjacency\<close>

definition same_kids :: "child_index \<Rightarrow> child_index \<Rightarrow> bool" where
  "same_kids idx idx' \<longleftrightarrow> (\<forall>i. mset (kids idx i) = mset (kids idx' i))"

lemma mset_concat_map: "mset xs = mset ys \<Longrightarrow> mset (concat (map f xs)) = mset (concat (map f ys))"
  by (simp add: mset_concat comp_def) (metis mset_map sum_mset_sum_list)

lemma live_children_mset:
  "same_kids idx idx' \<Longrightarrow> mset (live_children s idx i) = mset (live_children s idx' i)"
  unfolding live_children_def same_kids_def by (rule mset_concat_map) blast

lemma live_children_inj:
  assumes "state_ok s"
  shows "inj_on nd_node_id (set (live_children s idx i))"
proof (rule inj_onI)
  fix x y assume "x \<in> set (live_children s idx i)" "y \<in> set (live_children s idx i)"
    and id: "nd_node_id x = nd_node_id y"
  then obtain c d where "fmlookup (st_nodes s) c = Some x" "fmlookup (st_nodes s) d = Some y"
    by (auto simp: live_children_mem)
  moreover from this have "c = d" using id state_ok_id(1) [OF assms] by metis
  ultimately show "x = y" by simp
qed

lemma sort_children_eq:
  assumes "mset cs = mset cs'" and "inj_on nd_node_id (set cs)"
  shows "sort_children cs = sort_children cs'"
  unfolding sort_children_def
proof (rule sort_key_inj_key_eq)
  show "mset cs = mset (sort_key (\<lambda>c. (position_of c, nd_node_id c)) cs')" using assms(1) by simp
  show "inj_on (\<lambda>c. (position_of c, nd_node_id c)) (set cs)" using assms(2) by (auto simp: inj_on_def)
qed simp

lemma grid_put_commute:
  assumes "nd_node_id c \<noteq> nd_node_id d \<or> c = d"
  shows "grid_put c (grid_put d g) = grid_put d (grid_put c g)"
  using assms by (intro fmap_eqI) (auto simp: grid_put_def split: option.splits)

lemma grid_fold_eq:
  assumes "mset cs = mset cs'" and "inj_on nd_node_id (set cs)"
  shows "fold grid_put cs g = fold grid_put cs' g"
proof -
  have "fold grid_put cs = fold grid_put cs'"
    using assms(1)
    by (rule fold_multiset_equiv [rotated])
       (rule ext, simp add: grid_put_commute, metis assms(2) grid_put_commute inj_onD)
  then show ?thesis by simp
qed

lemma tree_cells_eq:
  assumes "state_ok s" and "same_kids idx idx'"
  shows "tree_cells s r idx = tree_cells s r idx'"
proof -
  let ?cs = "live_children s idx (nd_node_id r)" and ?cs' = "live_children s idx' (nd_node_id r)"
  have m: "mset ?cs = mset ?cs'" using assms(2) by (rule live_children_mset)
  have i: "inj_on nd_node_id (set ?cs)" using assms(1) by (rule live_children_inj)
  show ?thesis
    using sort_children_eq [OF m i] grid_fold_eq [OF m i]
    by (simp add: tree_cells_def grid_cells_def Let_def split: node_kind.splits)
qed

lemma buildTree_order:
  assumes "state_ok s" and "same_kids idx idx'"
  shows "buildTree n s r idx seen = buildTree n s r idx' seen"
    "build_cells n s cs idx seen = build_cells n s cs idx' seen"
  using assms
proof (induction n s r idx seen and n s cs idx seen rule: buildTree_build_cells.induct)
  case (2 n s r idx seen)
  then show ?case using tree_cells_eq [OF "2.prems"] by simp
qed (auto split: option.splits)

lemma go_range_mset:
  assumes "range_order it" and "range_order it'"
  shows "mset (go_range it m) = mset (go_range it' m)"
  using distinct_go_range [OF assms(1)] distinct_go_range [OF assms(2)]
  by (intro set_eq_iff_mset_eq_distinct [THEN iffD1]) (auto simp: set_go_range assms)

lemma buildChildrenIndex_same_kids:
  assumes "range_order it" and "range_order it'"
  shows "same_kids (buildChildrenIndex it s b) (buildChildrenIndex it' s b)"
  by (simp add: same_kids_def kids_buildChildrenIndex go_range_mset [OF assms])

section \<open>Tabs: the memo changes nothing\<close>

text \<open>What the loop makes of one tab, without the memo.\<close>

definition own_row :: "org_state \<Rightarrow> root_set \<Rightarrow> tab_record \<Rightarrow> rendered_tab option" where
  "own_row s roots t = (let ws = fst (resolveTileWorkspace s (tile_of t) roots) in
     if tab_live t \<and> ws \<noteq> empty_id then Some (tab_row s t ws) else None)"

definition render_row :: "org_state \<Rightarrow> root_set \<Rightarrow> tab_record \<Rightarrow> rendered_tab option" where
  "render_row s roots t = (if snd (resolveTileWorkspace s (tile_of t) roots) \<and> tileIsLeaf s (tile_of t)
     then own_row s roots t else None)"

definition opt_list :: "'a option \<Rightarrow> 'a list" where
  "opt_list x = (case x of None \<Rightarrow> [] | Some y \<Rightarrow> [y])"

definition memo_ok :: "org_state \<Rightarrow> root_set \<Rightarrow> tile_memo \<Rightarrow> bool" where
  "memo_ok s roots memo \<longleftrightarrow> fmpred (\<lambda>tile res. res = resolveTileWorkspace s tile roots) memo"

lemma resolve_memo_ok:
  assumes "memo_ok s roots memo"
  shows "fst (resolve_memo s roots tile memo) = resolveTileWorkspace s tile roots"
    and "memo_ok s roots (snd (resolve_memo s roots tile memo))"
  using assms by (auto simp: resolve_memo_def memo_ok_def Let_def fmpred_iff split: option.splits)

lemma project_tab_step_eq:
  assumes "memo_ok s roots memo"
  shows "\<exists>memo'. memo_ok s roots memo' \<and> project_tab_step s roots t (owned, rendered, memo) =
    (owned @ opt_list (own_row s roots t), rendered @ opt_list (render_row s roots t), memo')"
proof -
  obtain res memo' where r: "resolve_memo s roots (tile_of t) memo = (res, memo')" by fastforce
  have "res = resolveTileWorkspace s (tile_of t) roots" "memo_ok s roots memo'"
    using resolve_memo_ok [OF assms, of "tile_of t"] by (simp_all add: r)
  then show ?thesis
    using assms
    by (auto simp: project_tab_step_def r own_row_def render_row_def opt_list_def Let_def
        split: prod.splits)
qed

lemma project_tabs_fold:
  assumes "memo_ok s roots memo"
  shows "\<exists>memo'. fold (project_tab_step s roots) ts (owned, rendered, memo) =
    (owned @ concat (map (\<lambda>t. opt_list (own_row s roots t)) ts),
     rendered @ concat (map (\<lambda>t. opt_list (render_row s roots t)) ts), memo')"
  using assms
proof (induction ts arbitrary: owned rendered memo)
  case (Cons t ts)
  obtain memo' where m: "memo_ok s roots memo'" "project_tab_step s roots t (owned, rendered, memo) =
    (owned @ opt_list (own_row s roots t), rendered @ opt_list (render_row s roots t), memo')"
    using project_tab_step_eq [OF Cons.prems] by blast
  show ?case
    using Cons.IH [OF m(1), of "owned @ opt_list (own_row s roots t)" "rendered @ opt_list (render_row s roots t)"]
    by (simp add: m(2))
qed simp

lemma projectTabs_eq:
  "projectTabs it s roots =
    (sort_key rd_tab_id (concat (map (\<lambda>t. opt_list (own_row s roots t)) (map snd (go_range it (st_tabs s))))),
     sort_key rd_tab_id (concat (map (\<lambda>t. opt_list (render_row s roots t)) (map snd (go_range it (st_tabs s))))))"
  using project_tabs_fold [of s roots fmempty "map snd (go_range it (st_tabs s))" "[]" "[]"]
  by (auto simp: projectTabs_def memo_ok_def)

lemma projectOneTab_eq:
  "projectOneTab s i roots = (case fmlookup (st_tabs s) i of None \<Rightarrow> (None, None)
     | Some t \<Rightarrow> (own_row s roots t, render_row s roots t))"
  by (auto simp: projectOneTab_def own_row_def render_row_def Let_def split: option.splits prod.splits)

lemma projectTabs_set:
  assumes "range_order it"
  shows "row \<in> set (fst (projectTabs it s roots)) \<longleftrightarrow> (\<exists>i. fst (projectOneTab s i roots) = Some row)"
    and "row \<in> set (snd (projectTabs it s roots)) \<longleftrightarrow> (\<exists>i. snd (projectOneTab s i roots) = Some row)"
proof -
  have mem: "(\<exists>t \<in> set (map snd (go_range it (st_tabs s))). f t = Some row) \<longleftrightarrow>
      (\<exists>i t. fmlookup (st_tabs s) i = Some t \<and> f t = Some row)" for f :: "tab_record \<Rightarrow> rendered_tab option"
    using assms by (force simp: set_go_range)
  have set_opt: "row \<in> set (concat (map (\<lambda>t. opt_list (f t)) ts)) \<longleftrightarrow> (\<exists>t \<in> set ts. f t = Some row)"
    for f :: "tab_record \<Rightarrow> rendered_tab option" and ts
    by (force simp: opt_list_def split: option.splits)
  show "row \<in> set (fst (projectTabs it s roots)) \<longleftrightarrow> (\<exists>i. fst (projectOneTab s i roots) = Some row)"
    by (simp only: projectTabs_eq fst_conv set_sort set_opt mem) (force simp: projectOneTab_eq split: option.splits)
  show "row \<in> set (snd (projectTabs it s roots)) \<longleftrightarrow> (\<exists>i. snd (projectOneTab s i roots) = Some row)"
    by (simp only: projectTabs_eq snd_conv set_sort set_opt mem) (force simp: projectOneTab_eq split: option.splits)
qed

text \<open>The one-tab projection of the incremental path agrees with the full one: the owned and
  the rendered list hold exactly the rows it computes, for any iteration order and in spite of
  the memo of the full projection.\<close>

theorem projectTabs_projectOneTab:
  assumes "range_order it"
  shows "set (fst (projectTabs it s roots)) = {row. \<exists>i. fst (projectOneTab s i roots) = Some row} \<and>
    set (snd (projectTabs it s roots)) = {row. \<exists>i. snd (projectOneTab s i roots) = Some row}"
  using projectTabs_set [OF assms] by blast

text \<open>C7: a tab is rendered exactly when it is live and placed: its tile is a leaf from which a
  chain of live nodes leads to a registered root, with no tombstoned node above.\<close>

theorem rendered_iff_placed:
  "snd (projectOneTab s i roots) = Some row \<longleftrightarrow>
    (\<exists>t ws. fmlookup (st_tabs s) i = Some t \<and> tab_live t \<and> placed s roots (tile_of t) ws \<and>
            row = tab_row s t ws)"
proof -
  have "placed s roots tile ws \<Longrightarrow> fst (resolveTileWorkspace s tile roots) = ws" for tile ws
    by (auto simp: placed_def resolveTileWorkspace_fst)
  then show ?thesis
    using resolve_placed [of s _ roots]
    by (auto simp: projectOneTab_eq render_row_def own_row_def Let_def split: option.splits)
qed

section \<open>The projection is total and does not depend on iteration order\<close>

definition tree_at :: "org_state \<Rightarrow> child_index \<Rightarrow> ident \<Rightarrow> render_tree" where
  "tree_at s idx i = the (buildTreeFromRoot (tree_fuel s) s i idx)"

lemma buildTreeFromRoot_total:
  assumes "state_ok s"
  shows "buildTreeFromRoot (tree_fuel s) s i idx = Some (tree_at s idx i)"
proof -
  have "buildTree (tree_fuel s) s r idx {} \<noteq> None" if "fmlookup (st_nodes s) i = Some r" for r
  proof (rule buildTree_enough(1) [OF assms])
    show "nd_node_id r \<in> fmdom' (st_nodes s)"
      using that state_ok_id(1) [OF assms that] by (auto intro: fmdom'I)
    show "card (fmdom' (st_nodes s) - {}) < tree_fuel s"
      by (simp add: tree_fuel_def fcard.rep_eq fmdom'_alt_def)
  qed
  then have "buildTreeFromRoot (tree_fuel s) s i idx \<noteq> None"
    by (cases "fmlookup (st_nodes s) i") (simp_all add: buildTreeFromRoot_def)
  then show ?thesis by (auto simp: tree_at_def)
qed

lemma buildTreeFromRoot_wf: "buildTreeFromRoot n s i idx = Some t \<Longrightarrow> tree_wf t"
  by (auto simp: buildTreeFromRoot_def split: if_splits option.splits dest: buildTree_wf(1))

lemma tree_at_wf: "state_ok s \<Longrightarrow> tree_wf (tree_at s idx i)"
  using buildTreeFromRoot_wf buildTreeFromRoot_total by blast

lemma tree_at_order:
  assumes "state_ok s" and "same_kids idx idx'"
  shows "tree_at s idx i = tree_at s idx' i"
  using buildTree_order(1) [OF assms]
  by (cases "fmlookup (st_nodes s) i") (simp_all add: tree_at_def buildTreeFromRoot_def)

definition bare_workspace :: "org_state \<Rightarrow> child_index \<Rightarrow> ident \<Rightarrow> workspace_record \<Rightarrow> workspace_projection" where
  "bare_workspace s idx w r =
     \<lparr>wp_workspace_id = w, wp_main_tree = tree_at s idx (ws_root_node_id r), wp_windows = []\<rparr>"

lemma project_workspaces_fold:
  assumes "state_ok s"
  shows "project_workspaces (tree_fuel s) s idx ws =
    Some (fold (\<lambda>(w, r). fmupd w (bare_workspace s idx w r)) ws fmempty)"
proof -
  have "fold (\<lambda>(wsID, wsRec) acc.
     case acc of None \<Rightarrow> None | Some m \<Rightarrow>
       (case buildTreeFromRoot (tree_fuel s) s (ws_root_node_id wsRec) idx of None \<Rightarrow> None
        | Some t \<Rightarrow> Some (fmupd wsID \<lparr>wp_workspace_id = wsID, wp_main_tree = t, wp_windows = []\<rparr> m)))
     ws (Some m0) = Some (fold (\<lambda>(w, r). fmupd w (bare_workspace s idx w r)) ws m0)" for m0
    by (induction ws arbitrary: m0)
       (simp_all add: buildTreeFromRoot_total [OF assms] bare_workspace_def split: prod.splits)
  then show ?thesis unfolding project_workspaces_def .
qed

lemma fmlookup_fold_upd:
  "distinct (map fst ps) \<Longrightarrow> fmlookup (fold (\<lambda>(k, v). fmupd k (g k v)) ps m) x =
     (case map_of ps x of None \<Rightarrow> fmlookup m x | Some v \<Rightarrow> Some (g x v))"
proof (induction ps arbitrary: m)
  case (Cons p ps)
  then show ?case
    by (cases p) (auto split: option.splits dest: map_of_SomeD simp: rev_image_eqI)
qed simp

lemma map_of_go_range:
  assumes "range_order it"
  shows "map_of (go_range it m) = fmlookup m"
proof
  fix k
  have d: "distinct (map fst (go_range it m))" using range_order_distinct [OF assms] by simp
  show "map_of (go_range it m) k = fmlookup m k"
  proof (cases "fmlookup m k")
    case None
    then have "k \<notin> fst ` set (go_range it m)" using assms by (auto simp: set_go_range)
    then show ?thesis using None by (simp add: map_of_eq_None_iff)
  next
    case (Some v)
    then show ?thesis using assms d by (simp add: map_of_eq_Some_iff)
  qed
qed

definition windows_in :: "org_state \<Rightarrow> child_index \<Rightarrow> ident \<Rightarrow> window_record list \<Rightarrow> rendered_window list" where
  "windows_in s idx w fws = map (\<lambda>f. rendered_window_of f (tree_at s idx (fw_root_node_id f)))
     (filter (\<lambda>f. window_live f \<and> workspace_of f = w) fws)"

lemma project_windows_spec:
  assumes "state_ok s"
  shows "\<exists>m. project_windows (tree_fuel s) s idx fws m0 = Some m \<and>
     (\<forall>w. fmlookup m w = map_option (\<lambda>wp. wp\<lparr>wp_windows := wp_windows wp @ windows_in s idx w fws\<rparr>) (fmlookup m0 w))"
proof (induction fws arbitrary: m0)
  case Nil
  then show ?case by (simp add: project_windows_def windows_in_def option.map_ident)
next
  case (Cons f fws)
  show ?case
  proof (cases "window_live f \<and> fmlookup m0 (workspace_of f) \<noteq> None")
    case True
    then obtain wp where wp: "fmlookup m0 (workspace_of f) = Some wp" by blast
    show ?thesis
      using Cons.IH [of "fmupd (workspace_of f) (wp\<lparr>wp_windows := wp_windows wp @
          [rendered_window_of f (tree_at s idx (fw_root_node_id f))]\<rparr>) m0"] True wp
      by (auto simp: project_windows_def buildTreeFromRoot_total [OF assms] windows_in_def)
  next
    case False
    then have step: "project_windows (tree_fuel s) s idx (f # fws) m0 = project_windows (tree_fuel s) s idx fws m0"
      by (auto simp: project_windows_def)
    show ?thesis
      using Cons.IH [of m0] False unfolding step by (auto simp: windows_in_def)
  qed
qed

definition full_workspace :: "range_fun \<Rightarrow> org_state \<Rightarrow> ident \<Rightarrow> workspace_record \<Rightarrow> workspace_projection" where
  "full_workspace it s w r = (let idx = BuildAllChildrenIndex it s in
     (bare_workspace s idx w r)\<lparr>wp_windows := sort_key rw_window_id
        (windows_in s idx w (map snd (go_range it (st_windows s))))\<rparr>)"

lemma Project_total:
  assumes "state_ok s" and "range_order it"
  shows "\<exists>p. Project it s = Some p \<and>
    pj_org_id p = st_org_id s \<and>
    (\<forall>w. fmlookup (pj_workspaces p) w = map_option (full_workspace it s w) (fmlookup (st_workspaces s) w)) \<and>
    (pj_owned p, pj_rendered p) = projectTabs it s (registeredRoots it s)"
proof -
  let ?idx = "BuildAllChildrenIndex it s"
  define m where "m = fold (\<lambda>(w, r). fmupd w (bare_workspace s ?idx w r)) (go_range it (st_workspaces s)) fmempty"
  have ws: "project_workspaces (tree_fuel s) s ?idx (go_range it (st_workspaces s)) = Some m"
    unfolding m_def by (rule project_workspaces_fold [OF assms(1)])
  have m: "fmlookup m w = map_option (bare_workspace s ?idx w) (fmlookup (st_workspaces s) w)" for w
    unfolding m_def using range_order_distinct [OF assms(2)]
    by (subst fmlookup_fold_upd) (simp_all add: map_of_go_range [OF assms(2)] split: option.splits)
  obtain m' where fw: "project_windows (tree_fuel s) s ?idx (map snd (go_range it (st_windows s))) m = Some m'"
    and m': "fmlookup m' w = map_option (\<lambda>wp. wp\<lparr>wp_windows := wp_windows wp @
      windows_in s ?idx w (map snd (go_range it (st_windows s)))\<rparr>) (fmlookup m w)" for w
    using project_windows_spec [OF assms(1)] by blast
  show ?thesis
    by (auto simp: Project_def ws fw m' m Let_def full_workspace_def [abs_def] bare_workspace_def
        option.map_comp comp_def split: prod.splits)
qed

lemma windows_in_order:
  assumes "state_ok s" and "range_order it" and "range_order it'"
  shows "sort_key rw_window_id (windows_in s (BuildAllChildrenIndex it s) w (map snd (go_range it (st_windows s)))) =
    sort_key rw_window_id (windows_in s (BuildAllChildrenIndex it' s) w (map snd (go_range it' (st_windows s))))"
proof -
  let ?fs = "\<lambda>it. filter (\<lambda>f. window_live f \<and> workspace_of f = w) (map snd (go_range it (st_windows s)))"
  let ?g = "\<lambda>f. rendered_window_of f (tree_at s (BuildAllChildrenIndex it' s) (fw_root_node_id f))"
  have kids: "same_kids (BuildAllChildrenIndex it s) (BuildAllChildrenIndex it' s)"
    unfolding BuildAllChildrenIndex_def by (rule buildChildrenIndex_same_kids [OF assms(2,3)])
  have eq: "windows_in s (BuildAllChildrenIndex it s) w (map snd (go_range it (st_windows s))) = map ?g (?fs it)"
    by (simp add: windows_in_def tree_at_order [OF assms(1) kids])
  have m: "mset (map ?g (?fs it)) = mset (map ?g (?fs it'))"
    by (simp add: go_range_mset [OF assms(2,3)])
  have "inj_on rw_window_id (set (map ?g (?fs it)))"
  proof (rule inj_onI)
    fix x y assume "x \<in> set (map ?g (?fs it))" "y \<in> set (map ?g (?fs it))" "rw_window_id x = rw_window_id y"
    then obtain k f k' f' where "fmlookup (st_windows s) k = Some f" "fmlookup (st_windows s) k' = Some f'"
      and xy: "x = ?g f" "y = ?g f'" and "fw_window_id f = fw_window_id f'"
      using assms(2) by (auto simp: set_go_range rendered_window_of_def)
    moreover from this have "k = k'" using state_ok_id(3) [OF assms(1)] by metis
    ultimately show "x = y" by simp
  qed
  then have "sort_key rw_window_id (map ?g (?fs it)) = sort_key rw_window_id (map ?g (?fs it'))"
    using m by (intro sort_key_inj_key_eq) auto
  then show ?thesis by (simp add: eq) (simp add: windows_in_def)
qed

lemma full_workspace_order:
  assumes "state_ok s" and "range_order it" and "range_order it'"
  shows "full_workspace it s w r = full_workspace it' s w r"
proof -
  have kids: "same_kids (BuildAllChildrenIndex it s) (BuildAllChildrenIndex it' s)"
    unfolding BuildAllChildrenIndex_def by (rule buildChildrenIndex_same_kids [OF assms(2,3)])
  then show ?thesis
    by (simp add: full_workspace_def bare_workspace_def Let_def tree_at_order [OF assms(1) kids]
        windows_in_order [OF assms])
qed

lemma sort_rows_eq:
  assumes "mset ts = mset ts'" and "inj_on tb_tab_id (set ts)"
    and "\<And>t row. f t = Some row \<Longrightarrow> rd_tab_id row = tb_tab_id t"
  shows "sort_key rd_tab_id (concat (map (\<lambda>t. opt_list (f t)) ts)) =
    sort_key rd_tab_id (concat (map (\<lambda>t. opt_list (f t)) ts'))"
proof (rule sort_key_inj_key_eq)
  show "mset (concat (map (\<lambda>t. opt_list (f t)) ts)) =
      mset (sort_key rd_tab_id (concat (map (\<lambda>t. opt_list (f t)) ts')))"
    using mset_concat_map [OF assms(1)] by simp
  show "inj_on rd_tab_id (set (concat (map (\<lambda>t. opt_list (f t)) ts)))"
  proof (rule inj_onI)
    fix x y assume "x \<in> set (concat (map (\<lambda>t. opt_list (f t)) ts))"
      "y \<in> set (concat (map (\<lambda>t. opt_list (f t)) ts))" and id: "rd_tab_id x = rd_tab_id y"
    then obtain t u where tu: "t \<in> set ts" "u \<in> set ts" "f t = Some x" "f u = Some y"
      by (auto simp: opt_list_def split: option.splits)
    then have "t = u" using id assms(2,3) by (metis inj_onD)
    with tu show "x = y" by simp
  qed
qed simp

lemma own_row_id: "own_row s roots t = Some row \<Longrightarrow> rd_tab_id row = tb_tab_id t"
  and render_row_id: "render_row s roots t = Some row \<Longrightarrow> rd_tab_id row = tb_tab_id t"
  by (auto simp: own_row_def render_row_def Let_def tab_row_def split: if_splits)

lemma tab_ids_inj:
  assumes "state_ok s" and "range_order it"
  shows "inj_on tb_tab_id (set (map snd (go_range it (st_tabs s))))"
proof (rule inj_onI)
  fix x y assume "x \<in> set (map snd (go_range it (st_tabs s)))" "y \<in> set (map snd (go_range it (st_tabs s)))"
    and id: "tb_tab_id x = tb_tab_id y"
  then obtain c d where "fmlookup (st_tabs s) c = Some x" "fmlookup (st_tabs s) d = Some y"
    using assms(2) by (auto simp: set_go_range)
  moreover from this have "c = d" using id state_ok_id(2) [OF assms(1)] by metis
  ultimately show "x = y" by simp
qed

lemma projectTabs_order:
  assumes "state_ok s" and "range_order it" and "range_order it'"
    and "rs_roots roots = rs_roots roots'"
  shows "projectTabs it s roots = projectTabs it' s roots'"
proof -
  have m: "mset (map snd (go_range it (st_tabs s))) = mset (map snd (go_range it' (st_tabs s)))"
    by (simp add: go_range_mset [OF assms(2,3)])
  have r: "own_row s roots = own_row s roots'" "render_row s roots = render_row s roots'"
    by (intro ext, simp add: own_row_def render_row_def resolveTileWorkspace_def assms(4))+
  show ?thesis
    unfolding projectTabs_eq r
    using sort_rows_eq [OF m tab_ids_inj [OF assms(1,2)] own_row_id]
      sort_rows_eq [OF m tab_ids_inj [OF assms(1,2)] render_row_id] by simp
qed

lemma registeredRoots_roots_order:
  assumes "unique_roots s" and "range_order it" and "range_order it'"
  shows "rs_roots (registeredRoots it s) = rs_roots (registeredRoots it' s)"
proof (rule fmap_eqI)
  fix i show "fmlookup (rs_roots (registeredRoots it s)) i = fmlookup (rs_roots (registeredRoots it' s)) i"
    using registeredRoots_unique [OF assms(1,2), of i] registeredRoots_unique [OF assms(1,3), of i]
    by (metis option.exhaust)
qed

text \<open>Projecting a state whose roots are unique always returns, and the result is the same for
  every order in which the maps are visited: the tile trees, the windows of a workspace and
  both tab lists are deterministic.\<close>

theorem Project_deterministic:
  assumes "state_ok s" and "unique_roots s" and "range_order it" and "range_order it'"
  shows "\<exists>p. Project it s = Some p \<and> Project it' s = Some p"
proof -
  obtain p where p: "Project it s = Some p" "pj_org_id p = st_org_id s"
    "\<And>w. fmlookup (pj_workspaces p) w = map_option (full_workspace it s w) (fmlookup (st_workspaces s) w)"
    "(pj_owned p, pj_rendered p) = projectTabs it s (registeredRoots it s)"
    using Project_total [OF assms(1,3)] by blast
  obtain q where q: "Project it' s = Some q" "pj_org_id q = st_org_id s"
    "\<And>w. fmlookup (pj_workspaces q) w = map_option (full_workspace it' s w) (fmlookup (st_workspaces s) w)"
    "(pj_owned q, pj_rendered q) = projectTabs it' s (registeredRoots it' s)"
    using Project_total [OF assms(1,4)] by blast
  have "pj_workspaces p = pj_workspaces q"
    by (rule fmap_eqI) (simp add: p(3) q(3) full_workspace_order [OF assms(1,3,4)] cong: option.map_cong)
  moreover have "(pj_owned p, pj_rendered p) = (pj_owned q, pj_rendered q)"
    unfolding p(4) q(4)
    by (rule projectTabs_order [OF assms(1,3,4) registeredRoots_roots_order [OF assms(2,3,4)]])
  ultimately have "p = q" using p(2) q(2) by (auto intro: projection.equality)
  with p(1) q(1) show ?thesis by simp
qed

text \<open>Every rendered tile tree is well shaped: a split has one ratio per child and never a
  single child, a grid has rows times columns cells and as many row and column ratios, and no
  other node has children.\<close>

theorem rendered_trees_wf:
  assumes "state_ok s" and "range_order it" and "Project it s = Some p"
    and "fmlookup (pj_workspaces p) w = Some wp"
  shows "tree_wf (wp_main_tree wp) \<and> (\<forall>f \<in> set (wp_windows wp). tree_wf (rw_inner_tree f))"
proof -
  have "fmlookup (pj_workspaces p) w = map_option (full_workspace it s w) (fmlookup (st_workspaces s) w)"
    using Project_total [OF assms(1,2)] assms(3) by auto
  then obtain r where "wp = full_workspace it s w r" using assms(4) by (cases "fmlookup (st_workspaces s) w") auto
  then show ?thesis
    by (auto simp: full_workspace_def bare_workspace_def Let_def windows_in_def rendered_window_of_def
        tree_at_wf [OF assms(1)])
qed

end
