(* ===== verification/TabIndex.thy ===== *)
theory TabIndex
  imports Project
begin

text \<open>
  The materialized tab index (backend/internal/hub/crdt/tabindex.go): the write plan that takes
  the owned and the rendered table from one projection to the next, its incremental form for
  batches that cannot move a tab they do not name, and its application. The tables live in the
  database; the writer interface is a parameter of the model, with the documented effect of the
  bulk operations as hypotheses.
\<close>

section \<open>The write plan\<close>

type_synonym tab_index_row = rendered_tab

type_synonym tab_key = "ident \<times> ident"

record index_diff =
  df_owned_upserts :: "tab_index_row list"
  df_owned_deletes :: "tab_key list"
  df_rendered_upserts :: "tab_index_row list"
  df_rendered_deletes :: "tab_key list"

definition empty_diff :: index_diff where
  "empty_diff = \<lparr>df_owned_upserts = [], df_owned_deletes = [], df_rendered_upserts = [], df_rendered_deletes = []\<rparr>"

definition toRow :: "rendered_tab \<Rightarrow> tab_index_row" where
  "toRow t = \<lparr>rd_org_id = rd_org_id t, rd_workspace_id = rd_workspace_id t, rd_tab_type = rd_tab_type t,
     rd_tab_id = rd_tab_id t, rd_worker_id = rd_worker_id t, rd_tile_id = rd_tile_id t,
     rd_position = rd_position t\<rparr>"

definition row_key :: "rendered_tab \<Rightarrow> tab_key" where
  "row_key t = (rd_org_id t, rd_tab_id t)"

definition mapTabsByID :: "rendered_tab list \<Rightarrow> (ident, rendered_tab) fmap" where
  "mapTabsByID tabs = fold (\<lambda>t m. fmupd (rd_tab_id t) t m) tabs fmempty"

definition rowEqual :: "rendered_tab option \<Rightarrow> rendered_tab option \<Rightarrow> bool" where
  "rowEqual x y = (case (x, y) of
     (Some a, Some b) \<Rightarrow> rd_org_id a = rd_org_id b \<and> rd_workspace_id a = rd_workspace_id b \<and>
        rd_tab_type a = rd_tab_type b \<and> rd_tab_id a = rd_tab_id b \<and>
        rd_worker_id a = rd_worker_id b \<and> rd_tile_id a = rd_tile_id b \<and> rd_position a = rd_position b
   | _ \<Rightarrow> x = y)"

definition diff_upserts :: "range_fun \<Rightarrow> (ident, rendered_tab) fmap \<Rightarrow> (ident, rendered_tab) fmap \<Rightarrow> tab_index_row list" where
  "diff_upserts it prev next = concat (map (\<lambda>(i, t). case fmlookup prev i of
       None \<Rightarrow> [toRow t] | Some pt \<Rightarrow> if \<not> rowEqual (Some pt) (Some t) then [toRow t] else []) (go_range it next))"

definition diff_deletes :: "range_fun \<Rightarrow> (ident, rendered_tab) fmap \<Rightarrow> (ident, rendered_tab) fmap \<Rightarrow> tab_key list" where
  "diff_deletes it prev next = concat (map (\<lambda>(i, t). case fmlookup next i of
       None \<Rightarrow> [row_key t] | Some _ \<Rightarrow> []) (go_range it prev))"

definition DiffProjection :: "range_fun \<Rightarrow> projection \<Rightarrow> projection \<Rightarrow> index_diff" where
  "DiffProjection it prev next =
     (let po = mapTabsByID (pj_owned prev); no = mapTabsByID (pj_owned next);
          pr = mapTabsByID (pj_rendered prev); nr = mapTabsByID (pj_rendered next)
      in \<lparr>df_owned_upserts = diff_upserts it po no, df_owned_deletes = diff_deletes it po no,
          df_rendered_upserts = diff_upserts it pr nr, df_rendered_deletes = diff_deletes it pr nr\<rparr>)"

section \<open>The incremental plan\<close>

fun structural_op :: "op_body \<Rightarrow> bool" where
  "structural_op (TombstoneNode _) = True"
| "structural_op (TombstoneFloatingWindow _) = True"
| "structural_op (SetWorkspaceRootNode _ _) = True"
| "structural_op (SetNodeRegister _ (NodeKindField _)) = True"
| "structural_op (SetFloatingWindowRegister _ (WindowWorkspaceId _)) = True"
| "structural_op (SetFloatingWindowRegister _ (WindowRootNodeId _)) = True"
| "structural_op _ = False"

definition batchHasStructuralOp :: "org_op list \<Rightarrow> bool" where
  "batchHasStructuralOp batch = list_ex (\<lambda>p. structural_op (op_body p)) batch"

fun touched_tab :: "op_body \<Rightarrow> ident list" where
  "touched_tab (SetTabRegister _ i _) = [i]"
| "touched_tab (TombstoneTab _ i) = [i]"
| "touched_tab _ = []"

definition touchedTabIDs :: "org_op list \<Rightarrow> ident fset" where
  "touchedTabIDs batch = fset_of_list (concat (map (\<lambda>p. touched_tab (op_body p)) batch))"

text \<open>One arm of the loop: compare the rows of one tab before and after.\<close>

definition tab_change :: "rendered_tab option \<Rightarrow> rendered_tab option \<Rightarrow> tab_index_row list \<times> tab_key list" where
  "tab_change prev next = (case next of
     None \<Rightarrow> (case prev of None \<Rightarrow> ([], []) | Some p \<Rightarrow> ([], [row_key p]))
   | Some t \<Rightarrow> if prev = None \<or> \<not> rowEqual prev next then ([toRow t], []) else ([], []))"

definition DiffProjectionForBatch :: "range_fun \<Rightarrow> org_state \<Rightarrow> org_state \<Rightarrow> org_op list \<Rightarrow> index_diff" where
  "DiffProjectionForBatch it prev next batch =
     (if batchHasStructuralOp batch
      then DiffProjection it (ProjectOwnership it prev) (ProjectOwnership it next)
      else let touched = touchedTabIDs batch in
        if touched = {||} then empty_diff
        else let prevRoots = registeredRoots it prev; nextRoots = registeredRoots it next;
                 rows = map (\<lambda>i. (projectOneTab prev i prevRoots, projectOneTab next i nextRoots)) (it touched);
                 owned = map (\<lambda>(p, n). tab_change (fst p) (fst n)) rows;
                 rendered = map (\<lambda>(p, n). tab_change (snd p) (snd n)) rows
             in \<lparr>df_owned_upserts = concat (map fst owned), df_owned_deletes = concat (map snd owned),
                 df_rendered_upserts = concat (map fst rendered), df_rendered_deletes = concat (map snd rendered)\<rparr>)"

section \<open>Applying a plan\<close>

text \<open>
  The writer: one bulk operation per table and direction, failing with an error value.
\<close>

record ('db, 'e) index_writer =
  BulkUpsertOwned :: "tab_index_row list \<Rightarrow> 'db \<Rightarrow> 'e + 'db"
  BulkDeleteOwned :: "tab_key list \<Rightarrow> 'db \<Rightarrow> 'e + 'db"
  BulkUpsertRendered :: "tab_index_row list \<Rightarrow> 'db \<Rightarrow> 'e + 'db"
  BulkDeleteRendered :: "tab_key list \<Rightarrow> 'db \<Rightarrow> 'e + 'db"

definition bulk :: "('a list \<Rightarrow> 'db \<Rightarrow> 'e + 'db) \<Rightarrow> 'a list \<Rightarrow> 'e + 'db \<Rightarrow> 'e + 'db" where
  "bulk f xs r = (case r of Inl e \<Rightarrow> Inl e | Inr db \<Rightarrow> if length xs > 0 then f xs db else Inr db)"

definition ApplyDiff :: "('db, 'e) index_writer \<Rightarrow> index_diff \<Rightarrow> 'db \<Rightarrow> 'e + 'db" where
  "ApplyDiff w diff db =
     bulk (BulkDeleteRendered w) (df_rendered_deletes diff)
       (bulk (BulkUpsertRendered w) (df_rendered_upserts diff)
         (bulk (BulkDeleteOwned w) (df_owned_deletes diff)
           (bulk (BulkUpsertOwned w) (df_owned_upserts diff) (Inr db))))"

text \<open>
  What the store documents of the bulk operations: an upsert writes each row under its key and
  leaves other keys alone, a delete removes the keys; neither touches the other table.
\<close>

type_synonym table = "tab_key \<Rightarrow> tab_index_row option"

definition upserted :: "tab_index_row list \<Rightarrow> table \<Rightarrow> table" where
  "upserted rows t = fold (\<lambda>r m. m(row_key r := Some r)) rows t"

definition deleted :: "tab_key list \<Rightarrow> table \<Rightarrow> table" where
  "deleted keys t = (\<lambda>k. if k \<in> set keys then None else t k)"

definition writer_laws :: "('db, 'e) index_writer \<Rightarrow> ('db \<Rightarrow> table) \<Rightarrow> ('db \<Rightarrow> table) \<Rightarrow> bool" where
  "writer_laws w owned rendered \<longleftrightarrow>
     (\<forall>rows db db'. BulkUpsertOwned w rows db = Inr db' \<longrightarrow>
        owned db' = upserted rows (owned db) \<and> rendered db' = rendered db) \<and>
     (\<forall>keys db db'. BulkDeleteOwned w keys db = Inr db' \<longrightarrow>
        owned db' = deleted keys (owned db) \<and> rendered db' = rendered db) \<and>
     (\<forall>rows db db'. BulkUpsertRendered w rows db = Inr db' \<longrightarrow>
        rendered db' = upserted rows (rendered db) \<and> owned db' = owned db) \<and>
     (\<forall>keys db db'. BulkDeleteRendered w keys db = Inr db' \<longrightarrow>
        rendered db' = deleted keys (rendered db) \<and> owned db' = owned db)"

lemma bulk_Inr: "bulk f xs r = Inr db' \<longleftrightarrow>
    (\<exists>db. r = Inr db \<and> (if xs = [] then db' = db else f xs db = Inr db'))"
  by (auto simp: bulk_def split: sum.splits)

lemma upserted_Nil [simp]: "upserted [] t = t" and deleted_Nil [simp]: "deleted [] t = t"
  by (simp_all add: upserted_def deleted_def)

lemma ApplyDiff_effect:
  assumes laws: "writer_laws w owned rendered" and "ApplyDiff w diff db = Inr db'"
  shows "owned db' = deleted (df_owned_deletes diff) (upserted (df_owned_upserts diff) (owned db))"
    and "rendered db' = deleted (df_rendered_deletes diff) (upserted (df_rendered_upserts diff) (rendered db))"
proof -
  obtain d1 d2 d3 where
    s1: "if df_owned_upserts diff = [] then d1 = db else BulkUpsertOwned w (df_owned_upserts diff) db = Inr d1" and
    s2: "if df_owned_deletes diff = [] then d2 = d1 else BulkDeleteOwned w (df_owned_deletes diff) d1 = Inr d2" and
    s3: "if df_rendered_upserts diff = [] then d3 = d2 else BulkUpsertRendered w (df_rendered_upserts diff) d2 = Inr d3" and
    s4: "if df_rendered_deletes diff = [] then db' = d3 else BulkDeleteRendered w (df_rendered_deletes diff) d3 = Inr db'"
    using assms(2) unfolding ApplyDiff_def bulk_Inr by auto
  have 1: "owned d1 = upserted (df_owned_upserts diff) (owned db)" "rendered d1 = rendered db"
    using laws s1 by (auto simp: writer_laws_def split: if_splits)
  have 2: "owned d2 = deleted (df_owned_deletes diff) (owned d1)" "rendered d2 = rendered d1"
    using laws s2 by (auto simp: writer_laws_def split: if_splits)
  have 3: "rendered d3 = upserted (df_rendered_upserts diff) (rendered d2)" "owned d3 = owned d2"
    using laws s3 by (auto simp: writer_laws_def split: if_splits)
  have 4: "rendered db' = deleted (df_rendered_deletes diff) (rendered d3)" "owned db' = owned d3"
    using laws s4 by (auto simp: writer_laws_def split: if_splits)
  show "owned db' = deleted (df_owned_deletes diff) (upserted (df_owned_upserts diff) (owned db))"
    "rendered db' = deleted (df_rendered_deletes diff) (upserted (df_rendered_upserts diff) (rendered db))"
    using 1 2 3 4 by simp_all
qed

section \<open>Plans that are right\<close>

text \<open>
  A plan takes the rows of one organization from \<open>prev\<close> to \<open>next\<close>: it writes only rows of
  \<open>next\<close>, deletes only keys absent from it, and covers every difference.
\<close>

definition plan_ok :: "ident \<Rightarrow> (ident \<Rightarrow> rendered_tab option) \<Rightarrow> (ident \<Rightarrow> rendered_tab option) \<Rightarrow>
    tab_index_row list \<Rightarrow> tab_key list \<Rightarrow> bool" where
  "plan_ok org prev next ups dels \<longleftrightarrow>
     (\<forall>r \<in> set ups. rd_org_id r = org \<and> next (rd_tab_id r) = Some r) \<and>
     (\<forall>k \<in> set dels. fst k = org \<and> next (snd k) = None) \<and>
     (\<forall>i r. next i = Some r \<longrightarrow> r \<in> set ups \<and> rd_tab_id r = i \<or> prev i = Some r) \<and>
     (\<forall>i. next i = None \<longrightarrow> (org, i) \<in> set dels \<or> prev i = None)"

lemma plan_okD:
  assumes "plan_ok org prev next ups dels"
  shows "r \<in> set ups \<Longrightarrow> rd_org_id r = org" "r \<in> set ups \<Longrightarrow> next (rd_tab_id r) = Some r"
    "k \<in> set dels \<Longrightarrow> fst k = org" "k \<in> set dels \<Longrightarrow> next (snd k) = None"
    "next i = Some r \<Longrightarrow> r \<in> set ups \<and> rd_tab_id r = i \<or> prev i = Some r"
    "next i = None \<Longrightarrow> (org, i) \<in> set dels \<or> prev i = None"
proof -
  note plan = assms [unfolded plan_ok_def]
  show "r \<in> set ups \<Longrightarrow> rd_org_id r = org" "r \<in> set ups \<Longrightarrow> next (rd_tab_id r) = Some r"
    using plan [THEN conjunct1] by simp_all
  show "k \<in> set dels \<Longrightarrow> fst k = org" "k \<in> set dels \<Longrightarrow> next (snd k) = None"
    using plan [THEN conjunct2, THEN conjunct1] by simp_all
  show "next i = Some r \<Longrightarrow> r \<in> set ups \<and> rd_tab_id r = i \<or> prev i = Some r"
    using plan [THEN conjunct2, THEN conjunct2, THEN conjunct1] by simp
  show "next i = None \<Longrightarrow> (org, i) \<in> set dels \<or> prev i = None"
    using plan [THEN conjunct2, THEN conjunct2, THEN conjunct2] by simp
qed

lemma upserted_other: "\<forall>r \<in> set rows. row_key r \<noteq> k \<Longrightarrow> upserted rows t k = t k"
  unfolding upserted_def by (induction rows arbitrary: t) auto

lemma upserted_same:
  "r \<in> set rows \<Longrightarrow> row_key r = k \<Longrightarrow> \<forall>r' \<in> set rows. row_key r' = k \<longrightarrow> r' = r \<Longrightarrow>
    upserted rows t k = Some r"
proof (induction rows arbitrary: t)
  case (Cons x rows)
  show ?case
  proof (cases "r \<in> set rows")
    case True
    have "\<forall>r' \<in> set rows. row_key r' = k \<longrightarrow> r' = r" using Cons.prems(3) by simp
    from Cons.IH [OF True Cons.prems(2) this] show ?thesis by (simp add: upserted_def)
  next
    case False
    then have x: "x = r" using Cons.prems(1) by simp
    have "\<forall>r' \<in> set rows. row_key r' \<noteq> k"
    proof
      fix r' assume r': "r' \<in> set rows"
      show "row_key r' \<noteq> k"
      proof
        assume key: "row_key r' = k"
        have "r' \<in> set (x # rows)" using r' by simp
        from bspec [OF Cons.prems(3) this] key have "r' = r" by blast
        with False r' show False by blast
      qed
    qed
    note x this
    then show ?thesis
      using upserted_other [of rows k "t(k := Some r)"] Cons.prems(2) by (simp add: upserted_def)
  qed
qed simp

lemma plan_effect:
  assumes plan: "plan_ok org prev next ups dels" and t: "t (org, i) = prev i"
  shows "deleted dels (upserted ups t) (org, i) = next i"
proof (cases "next i")
  case None
  have "\<forall>r \<in> set ups. row_key r \<noteq> (org, i)"
    using plan_okD(2) [OF plan] None by (fastforce simp: row_key_def)
  then have "upserted ups t (org, i) = prev i" using upserted_other [of ups "(org, i)" t] t by simp
  then show ?thesis using plan_okD(6) [OF plan None] None by (auto simp: deleted_def)
next
  case (Some r)
  have keep: "(org, i) \<notin> set dels" using plan_okD(4) [OF plan] Some by fastforce
  have same: "\<forall>r' \<in> set ups. row_key r' = (org, i) \<longrightarrow> r' = r"
    using plan_okD(2) [OF plan] Some by (fastforce simp: row_key_def)
  show ?thesis
  proof (cases "\<exists>r' \<in> set ups. row_key r' = (org, i)")
    case True
    then obtain r' where r': "r' \<in> set ups" "row_key r' = (org, i)" by blast
    from same r' have "r' = r" by blast
    with r' have "upserted ups t (org, i) = Some r" using upserted_same [OF _ _ same] by blast
    then show ?thesis using keep Some by (simp add: deleted_def)
  next
    case False
    then have "\<not> (r \<in> set ups \<and> rd_tab_id r = i)"
      using plan_okD(1) [OF plan] by (auto simp: row_key_def)
    then have "prev i = Some r" using plan_okD(5) [OF plan Some] by blast
    moreover have "upserted ups t (org, i) = prev i" using False upserted_other [of ups "(org, i)" t] t by simp
    ultimately show ?thesis using keep Some by (simp add: deleted_def)
  qed
qed

lemma plan_frame:
  assumes plan: "plan_ok org prev next ups dels" and k: "fst k \<noteq> org"
  shows "deleted dels (upserted ups t) k = t k"
proof -
  have "\<forall>r \<in> set ups. row_key r \<noteq> k" using plan_okD(1) [OF plan] k by (auto simp: row_key_def)
  moreover have "k \<notin> set dels" using plan_okD(3) [OF plan, of k] k by blast
  ultimately show ?thesis using upserted_other [of ups k t] by (simp add: deleted_def)
qed

lemma toRow_id [simp]: "toRow t = t"
  by (simp add: toRow_def)

lemma rowEqual_iff [simp]: "rowEqual x y \<longleftrightarrow> x = y"
  by (auto simp: rowEqual_def split: option.splits intro: rendered_tab.equality)

text \<open>The maps of a diff hold each row under its own key.\<close>

definition keyed :: "ident \<Rightarrow> (ident \<Rightarrow> rendered_tab option) \<Rightarrow> bool" where
  "keyed org f \<longleftrightarrow> (\<forall>i t. f i = Some t \<longrightarrow> rd_tab_id t = i \<and> rd_org_id t = org)"

lemma diff_plan_ok:
  assumes it: "range_order it" and "keyed org (fmlookup prev)" and "keyed org (fmlookup next)"
  shows "plan_ok org (fmlookup prev) (fmlookup next) (diff_upserts it prev next) (diff_deletes it prev next)"
proof -
  have ups: "r \<in> set (diff_upserts it prev next) \<longleftrightarrow>
      (\<exists>i. fmlookup next i = Some r \<and> fmlookup prev i \<noteq> Some r)" for r
    using it by (force simp: diff_upserts_def set_go_range split: option.splits if_splits)
  have dels: "k \<in> set (diff_deletes it prev next) \<longleftrightarrow>
      (\<exists>i t. fmlookup prev i = Some t \<and> fmlookup next i = None \<and> k = row_key t)" for k
    using it by (force simp: diff_deletes_def set_go_range split: option.splits if_splits)
  show ?thesis
    using assms(2,3) unfolding plan_ok_def Ball_def ups dels
    by (auto simp: keyed_def row_key_def)
qed

section \<open>The projected rows\<close>

definition owned_of :: "range_fun \<Rightarrow> org_state \<Rightarrow> ident \<Rightarrow> rendered_tab option" where
  "owned_of it s i = fst (projectOneTab s i (registeredRoots it s))"

definition rendered_of :: "range_fun \<Rightarrow> org_state \<Rightarrow> ident \<Rightarrow> rendered_tab option" where
  "rendered_of it s i = snd (projectOneTab s i (registeredRoots it s))"

lemma projected_keyed:
  assumes "state_ok s"
  shows "keyed (st_org_id s) (owned_of it s)" "keyed (st_org_id s) (rendered_of it s)"
  using state_ok_id(2) [OF assms]
  by (auto simp: keyed_def owned_of_def rendered_of_def projectOneTab_eq render_row_def own_row_def
      tab_row_def Let_def split: option.splits if_splits)

lemma mapTabsByID_lookup:
  assumes "\<And>t. t \<in> set tabs \<longleftrightarrow> (\<exists>i. f i = Some t)" and "keyed org f"
  shows "fmlookup (mapTabsByID tabs) i = f i"
proof -
  have fold: "fmlookup (fold (\<lambda>t m. fmupd (rd_tab_id t) t m) ts m) i =
      (case filter (\<lambda>t. rd_tab_id t = i) (rev ts) of [] \<Rightarrow> fmlookup m i | t # _ \<Rightarrow> Some t)" for ts m
    by (rule fold_last) simp
  show ?thesis
  proof (cases "filter (\<lambda>t. rd_tab_id t = i) (rev tabs)")
    case Nil
    then have "\<forall>t \<in> set tabs. rd_tab_id t \<noteq> i" by (simp add: filter_rev_Nil)
    then have "f i = None" using assms by (cases "f i") (auto simp: keyed_def)
    then show ?thesis using Nil by (simp add: mapTabsByID_def fold)
  next
    case (Cons t ts)
    then have "t \<in> set tabs" "rd_tab_id t = i" using filter_rev_hd [OF Cons] by simp_all
    then obtain j where "f j = Some t" using assms(1) by auto
    moreover from this have "j = i" using assms(2) \<open>rd_tab_id t = i\<close> by (simp add: keyed_def)
    ultimately have "f i = Some t" by simp
    then show ?thesis using Cons by (simp add: mapTabsByID_def fold)
  qed
qed

lemma mapTabsByID_projection:
  assumes "state_ok s" and "range_order it"
  shows "fmlookup (mapTabsByID (pj_owned (ProjectOwnership it s))) i = owned_of it s i"
    and "fmlookup (mapTabsByID (pj_rendered (ProjectOwnership it s))) i = rendered_of it s i"
proof -
  have p: "pj_owned (ProjectOwnership it s) = fst (projectTabs it s (registeredRoots it s))"
    "pj_rendered (ProjectOwnership it s) = snd (projectTabs it s (registeredRoots it s))"
    by (simp_all add: ProjectOwnership_def split: prod.splits)
  show "fmlookup (mapTabsByID (pj_owned (ProjectOwnership it s))) i = owned_of it s i"
    by (rule mapTabsByID_lookup [OF _ projected_keyed(1) [OF assms(1)]])
       (simp add: p projectTabs_set [OF assms(2)] owned_of_def)
  show "fmlookup (mapTabsByID (pj_rendered (ProjectOwnership it s))) i = rendered_of it s i"
    by (rule mapTabsByID_lookup [OF _ projected_keyed(2) [OF assms(1)]])
       (simp add: p projectTabs_set [OF assms(2)] rendered_of_def)
qed

lemma DiffProjection_plan_ok:
  assumes "state_ok prev" and "state_ok next" and "range_order it" and "st_org_id next = st_org_id prev"
  defines "d \<equiv> DiffProjection it (ProjectOwnership it prev) (ProjectOwnership it next)"
  shows "plan_ok (st_org_id prev) (owned_of it prev) (owned_of it next) (df_owned_upserts d) (df_owned_deletes d)"
    and "plan_ok (st_org_id prev) (rendered_of it prev) (rendered_of it next) (df_rendered_upserts d) (df_rendered_deletes d)"
proof -
  let ?po = "mapTabsByID (pj_owned (ProjectOwnership it prev))" and ?no = "mapTabsByID (pj_owned (ProjectOwnership it next))"
  let ?pr = "mapTabsByID (pj_rendered (ProjectOwnership it prev))" and ?nr = "mapTabsByID (pj_rendered (ProjectOwnership it next))"
  have f: "fmlookup ?po = owned_of it prev" "fmlookup ?no = owned_of it next"
    "fmlookup ?pr = rendered_of it prev" "fmlookup ?nr = rendered_of it next"
    by (intro ext, simp add: mapTabsByID_projection assms)+
  have k: "keyed (st_org_id prev) (owned_of it prev)" "keyed (st_org_id prev) (owned_of it next)"
    "keyed (st_org_id prev) (rendered_of it prev)" "keyed (st_org_id prev) (rendered_of it next)"
    using projected_keyed [OF assms(1)] projected_keyed [OF assms(2)] by (simp_all add: assms(4))
  show "plan_ok (st_org_id prev) (owned_of it prev) (owned_of it next) (df_owned_upserts d) (df_owned_deletes d)"
    using diff_plan_ok [OF assms(3), of "st_org_id prev" ?po ?no] k
    by (simp add: f d_def DiffProjection_def Let_def)
  show "plan_ok (st_org_id prev) (rendered_of it prev) (rendered_of it next) (df_rendered_upserts d) (df_rendered_deletes d)"
    using diff_plan_ok [OF assms(3), of "st_org_id prev" ?pr ?nr] k
    by (simp add: f d_def DiffProjection_def Let_def)
qed

section \<open>The incremental plan is the full plan\<close>

text \<open>
  A batch that keeps the placement of tabs it does not name: it has no structural operation,
  and it writes a parent only to a node that does not exist yet.
\<close>

definition no_reparent :: "org_state \<Rightarrow> org_op list \<Rightarrow> bool" where
  "no_reparent s batch \<longleftrightarrow> (\<forall>p \<in> set batch. \<forall>i v. op_body p = SetNodeRegister i (NodeParentId v) \<longrightarrow>
     fmlookup (st_nodes s) i = None)"

lemma tab_change_mem:
  "r \<in> set (fst (tab_change p n)) \<longleftrightarrow> n = Some r \<and> p \<noteq> n"
  "k \<in> set (snd (tab_change p n)) \<longleftrightarrow> n = None \<and> (\<exists>t. p = Some t \<and> k = row_key t)"
  by (cases p; cases n; auto simp: tab_change_def)+

lemma changes_plan_ok:
  assumes it: "range_order it" and f: "keyed org f" and g: "keyed org g"
    and same: "\<And>i. i |\<notin>| T \<Longrightarrow> g i = f i"
  shows "plan_ok org f g (concat (map (\<lambda>i. fst (tab_change (f i) (g i))) (it T)))
      (concat (map (\<lambda>i. snd (tab_change (f i) (g i))) (it T)))"
proof -
  have ups: "r \<in> set (concat (map (\<lambda>i. fst (tab_change (f i) (g i))) (it T))) \<longleftrightarrow>
      (\<exists>i. i |\<in>| T \<and> g i = Some r \<and> f i \<noteq> g i)" for r
    by (auto simp: tab_change_mem range_order_set [OF it])
  have dels: "k \<in> set (concat (map (\<lambda>i. snd (tab_change (f i) (g i))) (it T))) \<longleftrightarrow>
      (\<exists>i t. i |\<in>| T \<and> g i = None \<and> f i = Some t \<and> k = row_key t)" for k
    by (auto simp: tab_change_mem range_order_set [OF it])
  show ?thesis
    unfolding plan_ok_def Ball_def ups dels
  proof (intro conjI allI impI; (elim exE conjE)?)
    fix r i assume "g i = Some r"
    then show "rd_org_id r = org" "g (rd_tab_id r) = Some r" using g by (auto simp: keyed_def)
  next
    fix k i t assume "f i = Some t" "g i = None" "k = row_key t"
    then show "fst k = org" "g (snd k) = None" using f by (auto simp: keyed_def row_key_def)
  next
    fix i r assume r: "g i = Some r"
    then have "rd_tab_id r = i" using g by (auto simp: keyed_def)
    then show "(\<exists>i. i |\<in>| T \<and> g i = Some r \<and> f i \<noteq> g i) \<and> rd_tab_id r = i \<or> f i = Some r"
    proof (cases "f i = g i")
      case False
      then have "i |\<in>| T" using same [of i] by auto
      with False r \<open>rd_tab_id r = i\<close> show ?thesis by blast
    qed (simp add: r)
  next
    fix i assume n: "g i = None"
    show "(\<exists>j t. j |\<in>| T \<and> g j = None \<and> f j = Some t \<and> (org, i) = row_key t) \<or> f i = None"
    proof (cases "f i")
      case (Some t)
      then have "i |\<in>| T" using same [of i] n by auto
      moreover have "(org, i) = row_key t" using Some f by (auto simp: keyed_def row_key_def)
      ultimately show ?thesis using n Some by blast
    qed simp
  qed
qed

text \<open>The incremental plan is right for every tab it visits; it takes the others for unchanged.\<close>

lemma DiffProjectionForBatch_plan_ok:
  assumes it: "range_order it" and "\<not> batchHasStructuralOp batch"
    and keyed: "keyed org (owned_of it prev)" "keyed org (owned_of it next)"
      "keyed org (rendered_of it prev)" "keyed org (rendered_of it next)"
  defines "d \<equiv> DiffProjectionForBatch it prev next batch"
    and "seen f g \<equiv> \<lambda>i. if i |\<in>| touchedTabIDs batch then f i else g i"
  shows "plan_ok org (seen (owned_of it prev) (owned_of it next)) (owned_of it next) (df_owned_upserts d) (df_owned_deletes d)"
    and "plan_ok org (seen (rendered_of it prev) (rendered_of it next)) (rendered_of it next) (df_rendered_upserts d) (df_rendered_deletes d)"
proof -
  have in_T: "map h (it (touchedTabIDs batch)) = map h' (it (touchedTabIDs batch))"
    if "\<And>i. i |\<in>| touchedTabIDs batch \<Longrightarrow> h i = h' i" for h h' :: "ident \<Rightarrow> 'x"
    using that by (simp add: range_order_set [OF it])
  have o: "df_owned_upserts d = concat (map (\<lambda>i. fst (tab_change (seen (owned_of it prev) (owned_of it next) i) (owned_of it next i))) (it (touchedTabIDs batch)))"
    "df_owned_deletes d = concat (map (\<lambda>i. snd (tab_change (seen (owned_of it prev) (owned_of it next) i) (owned_of it next i))) (it (touchedTabIDs batch)))"
    "df_rendered_upserts d = concat (map (\<lambda>i. fst (tab_change (seen (rendered_of it prev) (rendered_of it next) i) (rendered_of it next i))) (it (touchedTabIDs batch)))"
    "df_rendered_deletes d = concat (map (\<lambda>i. snd (tab_change (seen (rendered_of it prev) (rendered_of it next) i) (rendered_of it next i))) (it (touchedTabIDs batch)))"
    using assms(2) by (auto simp: d_def DiffProjectionForBatch_def Let_def empty_diff_def comp_def
        owned_of_def rendered_of_def range_order_empty [OF it] seen_def intro!: arg_cong [of _ _ concat] in_T)
  have k: "keyed org (seen f g)" if "keyed org f" "keyed org g" for f g
    using that by (simp add: keyed_def seen_def)
  show "plan_ok org (seen (owned_of it prev) (owned_of it next)) (owned_of it next) (df_owned_upserts d) (df_owned_deletes d)"
    unfolding o by (rule changes_plan_ok [OF it k [OF keyed(1,2)] keyed(2)]) (simp add: seen_def)
  show "plan_ok org (seen (rendered_of it prev) (rendered_of it next)) (rendered_of it next) (df_rendered_upserts d) (df_rendered_deletes d)"
    unfolding o by (rule changes_plan_ok [OF it k [OF keyed(3,4)] keyed(4)]) (simp add: seen_def)
qed

section \<open>What a batch without structural operations leaves alone\<close>

text \<open>An existing node keeps its parent, its kind and its tombstone; an existing window keeps its
  root, its workspace and its tombstone, and a new one has no root; workspaces do not change.\<close>

definition node_frame :: "node_record \<Rightarrow> node_record \<Rightarrow> bool" where
  "node_frame n n' \<longleftrightarrow> nd_parent_id n' = nd_parent_id n \<and> nd_kind n' = nd_kind n \<and>
     nd_tombstone_at n' = nd_tombstone_at n"

definition window_frame :: "window_record option \<Rightarrow> window_record option \<Rightarrow> bool" where
  "window_frame x x' = (case x of
     Some f \<Rightarrow> (\<exists>f'. x' = Some f' \<and> fw_root_node_id f' = fw_root_node_id f \<and>
        fw_workspace_id f' = fw_workspace_id f \<and> fw_tombstone_at f' = fw_tombstone_at f)
   | None \<Rightarrow> (\<forall>f'. x' = Some f' \<longrightarrow> fw_root_node_id f' = empty_id))"

definition quiet_for :: "ident \<Rightarrow> org_op \<Rightarrow> bool" where
  "quiet_for i p \<longleftrightarrow> \<not> structural_op (op_body p) \<and> (\<forall>v. op_body p \<noteq> SetNodeRegister i (NodeParentId v))"

lemma node_slot_quiet:
  assumes "quiet_for i p"
  shows "\<exists>n'. node_slot i p (Some n) = Some n' \<and> node_frame n n'"
proof (cases "op_body p")
  case (SetNodeRegister j f)
  then show ?thesis
    using assms by (cases f) (auto simp: slot_defs node_frame_def quiet_for_def split: option.splits)
qed (use assms in \<open>auto simp: slot_defs node_frame_def quiet_for_def split: option.splits\<close>)

lemma window_slot_quiet:
  assumes "\<not> structural_op (op_body p)"
  shows "window_frame x (window_slot i p x)"
proof (cases "op_body p")
  case (SetFloatingWindowRegister j f)
  then show ?thesis
    using assms by (cases f) (auto simp: slot_defs window_frame_def split: option.splits)
qed (use assms in \<open>auto simp: slot_defs window_frame_def split: option.splits\<close>)

lemma window_frame_trans: "window_frame x y \<Longrightarrow> window_frame y z \<Longrightarrow> window_frame x z"
  by (auto simp: window_frame_def split: option.splits)

lemma fold_node_quiet:
  "\<forall>p \<in> set ps. quiet_for i p \<Longrightarrow> \<exists>n'. fold (node_slot i) ps (Some n) = Some n' \<and> node_frame n n'"
proof (induction ps arbitrary: n)
  case (Cons p ps)
  obtain n1 where n1: "node_slot i p (Some n) = Some n1" "node_frame n n1"
    using node_slot_quiet [of i p n] Cons.prems by auto
  obtain n2 where "fold (node_slot i) ps (Some n1) = Some n2" "node_frame n1 n2"
    using Cons.IH [of n1] Cons.prems by auto
  then show ?case using n1 by (auto simp: node_frame_def)
qed (simp add: node_frame_def)

lemma fold_window_quiet:
  "\<forall>p \<in> set ps. \<not> structural_op (op_body p) \<Longrightarrow> window_frame x0 x \<Longrightarrow> window_frame x0 (fold (window_slot i) ps x)"
proof (induction ps arbitrary: x)
  case (Cons p ps)
  then show ?case using window_slot_quiet window_frame_trans by (metis fold_simps(2) list.set_intros)
qed simp

lemma root_slot_quiet: "\<not> structural_op (op_body p) \<Longrightarrow> root_slot i p x = x"
  by (cases "op_body p") (auto simp: root_slot_def split: option.splits)

lemma fold_root_quiet:
  "\<forall>p \<in> set ps. \<not> structural_op (op_body p) \<Longrightarrow> fold (root_slot i) ps x = x"
  by (induction ps arbitrary: x) (auto simp: root_slot_quiet)

lemma tab_slot_untouched: "i \<notin> set (touched_tab (op_body p)) \<Longrightarrow> tab_slot i p x = x"
  by (cases "op_body p") (auto simp: tab_slot_def split: option.splits)

lemma fold_tab_untouched:
  "i |\<notin>| touchedTabIDs ps \<Longrightarrow> fold (tab_slot i) ps x = x"
  by (induction ps arbitrary: x) (auto simp: touchedTabIDs_def fset_of_list_elem tab_slot_untouched)

lemma quiet_registers:
  assumes "\<not> batchHasStructuralOp batch"
  shows "registers (apply_all batch s) i w \<longleftrightarrow> registers s i w"
proof -
  have q: "\<forall>p \<in> set batch. \<not> structural_op (op_body p)"
    using assms by (simp add: batchHasStructuralOp_def list_ex_iff)
  have ws: "fmlookup (st_workspaces (apply_all batch s)) k = fmlookup (st_workspaces s) k" for k
    by (simp add: apply_all_slots fold_root_quiet [OF q])
  have fw: "window_frame (fmlookup (st_windows s) k) (fmlookup (st_windows (apply_all batch s)) k)" for k
    unfolding apply_all_slots by (rule fold_window_quiet [OF q]) (auto simp: window_frame_def split: option.splits)
  show ?thesis
  proof
    assume "registers (apply_all batch s) i w"
    then show "registers s i w"
    proof cases
      case (by_workspace r)
      then show ?thesis by (auto simp: ws intro: registers.by_workspace)
    next
      case (by_window k f)
      then obtain f0 where f0: "fmlookup (st_windows s) k = Some f0"
        using fw [of k] by (auto simp: window_frame_def split: option.splits)
      then show ?thesis
        using fw [of k] by_window by (intro registers.by_window [OF f0]) (auto simp: window_frame_def)
    qed
  next
    assume "registers s i w"
    then show "registers (apply_all batch s) i w"
    proof cases
      case (by_workspace r)
      then show ?thesis by (auto simp: ws intro: registers.by_workspace)
    next
      case (by_window k f)
      then obtain f1 where "fmlookup (st_windows (apply_all batch s)) k = Some f1"
          "fw_root_node_id f1 = fw_root_node_id f" "fw_workspace_id f1 = fw_workspace_id f"
          "fw_tombstone_at f1 = fw_tombstone_at f"
        using fw [of k] by (auto simp: window_frame_def)
      then show ?thesis using by_window by (intro registers.by_window [of _ k f1]) auto
    qed
  qed
qed

lemma quiet_nodes:
  assumes "\<not> batchHasStructuralOp batch" and "no_reparent s batch" and "fmlookup (st_nodes s) i = Some n"
  shows "\<exists>n'. fmlookup (st_nodes (apply_all batch s)) i = Some n' \<and> node_frame n n'"
proof -
  have "\<forall>p \<in> set batch. quiet_for i p"
    using assms by (auto simp: batchHasStructuralOp_def list_ex_iff no_reparent_def quiet_for_def)
  from fold_node_quiet [OF this, of n] show ?thesis by (simp add: apply_all_slots assms(3))
qed

text \<open>Chains survive: every node of a live chain existed before and keeps its parent.\<close>

lemma climbs_transfer:
  assumes "climbs roots par i path w"
    and "\<And>j p. fmlookup par j = Some p \<Longrightarrow> fmlookup par' j = Some p"
  shows "climbs roots par' i path w"
  using assms(1) by induction (auto intro: climbs.intros assms(2))

lemma climbs_transfer_roots:
  assumes "climbs roots par i path w"
    and "\<And>j p. fmlookup par j = Some p \<Longrightarrow> fmlookup par' j = Some p \<and> fmlookup roots' j = fmlookup roots j"
    and "\<And>j x. fmlookup roots j = Some x \<Longrightarrow> fmlookup roots' j = Some x"
  shows "climbs roots' par' i path w"
  using assms(1)
proof induction
  case (up cur p path ws)
  then show ?case using assms(2) [OF up.hyps(3)] by (intro climbs.up) auto
qed (auto intro: climbs.at_root assms(3))

lemma quiet_live_parents:
  assumes "\<not> batchHasStructuralOp batch" and "no_reparent s batch"
  shows "fmlookup (live_parents s) j = Some p \<Longrightarrow> fmlookup (live_parents (apply_all batch s)) j = Some p"
    and "fmlookup (top_nodes s) j = Some x \<Longrightarrow> fmlookup (top_nodes (apply_all batch s)) j = Some x"
    and "fmlookup (live_parents s) j = Some p \<Longrightarrow> fmlookup (top_nodes (apply_all batch s)) j = None"
  using quiet_nodes [OF assms, of j]
  by (fastforce simp: live_parents_lookup top_nodes_lookup node_frame_def not_Some_eq [symmetric])+

lemma quiet_placed:
  assumes quiet: "\<not> batchHasStructuralOp batch" "no_reparent s batch" and "unique_roots s"
    and it: "range_order it" and placed: "placed s (registeredRoots it s) tile ws"
  shows "placed (apply_all batch s) (registeredRoots it (apply_all batch s)) tile ws"
proof -
  let ?s' = "apply_all batch s"
  have roots: "fmlookup (rs_roots (registeredRoots it ?s')) j = fmlookup (rs_roots (registeredRoots it s)) j" for j
    using registeredRoots_sound [OF it, of ?s' j] registeredRoots_complete [OF it, of ?s' j]
      registeredRoots_unique [OF assms(3) it, of j] quiet_registers [OF quiet(1), of s j]
    by (metis option.exhaust)
  have "\<exists>path. climbs (rs_roots (registeredRoots it ?s')) (live_parents ?s') tile path ws"
  proof -
    obtain path where "climbs (rs_roots (registeredRoots it s)) (live_parents s) tile path ws"
      using placed by (auto simp: placed_def)
    then have "climbs (rs_roots (registeredRoots it ?s')) (live_parents ?s') tile path ws"
      by (rule climbs_transfer_roots) (simp_all add: roots quiet_live_parents(1) [OF quiet])
    then show ?thesis by blast
  qed
  moreover have "alive_above ?s' tile"
  proof (cases "tile = empty_id")
    case False
    then obtain path where "climbs (top_nodes s) (live_parents s) tile path ''top''"
      using placed by (auto simp: placed_def alive_above_def)
    then have "climbs (top_nodes ?s') (live_parents ?s') tile path ''top''"
    proof (rule climbs_transfer_roots)
      fix j p assume p: "fmlookup (live_parents s) j = Some p"
      then have "fmlookup (top_nodes s) j = None"
        by (auto simp: live_parents_lookup top_nodes_lookup not_Some_eq [symmetric])
      with p show "fmlookup (live_parents ?s') j = Some p \<and> fmlookup (top_nodes ?s') j = fmlookup (top_nodes s) j"
        using quiet_live_parents [OF quiet] by auto
    qed (rule quiet_live_parents(2) [OF quiet])
    then show ?thesis by (auto simp: alive_above_def)
  qed (simp add: alive_above_def)
  moreover have "tileIsLeaf ?s' tile"
    using placed quiet_nodes [OF quiet, of tile]
    by (auto simp: placed_def tileIsLeaf_def node_frame_def split: option.splits)
  ultimately show ?thesis using placed by (simp add: placed_def)
qed

text \<open>The tab of an identifier, if it is live, is placed: what the validator maintains.\<close>

definition tab_placed :: "range_fun \<Rightarrow> org_state \<Rightarrow> ident \<Rightarrow> bool" where
  "tab_placed it s i \<longleftrightarrow> (\<forall>t. fmlookup (st_tabs s) i = Some t \<longrightarrow> tab_live t \<longrightarrow>
     (\<exists>ws. placed s (registeredRoots it s) (tile_of t) ws))"

definition tabs_placed :: "range_fun \<Rightarrow> org_state \<Rightarrow> bool" where
  "tabs_placed it s \<longleftrightarrow> (\<forall>i. tab_placed it s i)"

lemma placed_rows:
  assumes "placed s roots (tile_of t) ws" and "tab_live t"
  shows "own_row s roots t = Some (tab_row s t ws)" "render_row s roots t = Some (tab_row s t ws)"
proof -
  have "fst (resolveTileWorkspace s (tile_of t) roots) = ws" "ws \<noteq> empty_id"
    using assms(1) by (auto simp: placed_def resolveTileWorkspace_fst)
  moreover from this have "snd (resolveTileWorkspace s (tile_of t) roots)" "tileIsLeaf s (tile_of t)"
    using assms(1) resolve_placed [of s "tile_of t" roots] by auto
  ultimately show "own_row s roots t = Some (tab_row s t ws)" "render_row s roots t = Some (tab_row s t ws)"
    using assms(2) by (simp_all add: own_row_def render_row_def)
qed

lemma quiet_rows:
  assumes quiet: "\<not> batchHasStructuralOp batch" "no_reparent s batch" and "unique_roots s"
    and it: "range_order it" and tabs: "tab_placed it s i" and i: "i |\<notin>| touchedTabIDs batch"
  shows "owned_of it (apply_all batch s) i = owned_of it s i \<and>
    rendered_of it (apply_all batch s) i = rendered_of it s i"
proof -
  let ?s' = "apply_all batch s"
  have t: "fmlookup (st_tabs ?s') i = fmlookup (st_tabs s) i"
    by (simp add: apply_all_slots fold_tab_untouched [OF i])
  show ?thesis
  proof (cases "\<exists>t. fmlookup (st_tabs s) i = Some t \<and> tab_live t")
    case True
    then obtain t where "fmlookup (st_tabs s) i = Some t" "tab_live t" by blast
    moreover from this obtain ws where "placed s (registeredRoots it s) (tile_of t) ws"
      using tabs unfolding tab_placed_def by blast
    moreover from this have "placed ?s' (registeredRoots it ?s') (tile_of t) ws"
      using quiet_placed [OF quiet assms(3) it] by blast
    moreover have "tab_row ?s' t ws = tab_row s t ws" for t by (simp add: tab_row_def frame_simps)
    ultimately show ?thesis
      by (simp add: owned_of_def rendered_of_def projectOneTab_eq t placed_rows)
  next
    case False
    then show ?thesis
      using t by (auto simp: owned_of_def rendered_of_def projectOneTab_eq own_row_def render_row_def
          Let_def split: option.splits)
  qed
qed

text \<open>The row of one placed tab after the plan of a committed batch, and the rows of other
  organizations.\<close>

lemma index_row_follows:
  assumes "range_order it" and "state_ok s" and "unique_roots s" and "no_reparent s batch" and "writer_laws w owned rendered"
    and "ApplyDiff w (DiffProjectionForBatch it s (apply_all batch s) batch) db = Inr db'"
  shows "tab_placed it s i \<Longrightarrow> owned db (st_org_id s, i) = owned_of it s i \<Longrightarrow> rendered db (st_org_id s, i) = rendered_of it s i \<Longrightarrow>
      owned db' (st_org_id s, i) = owned_of it (apply_all batch s) i \<and> rendered db' (st_org_id s, i) = rendered_of it (apply_all batch s) i"
    and "fst k \<noteq> st_org_id s \<Longrightarrow> owned db' k = owned db k \<and> rendered db' k = rendered db k"
proof -
  let ?s' = "apply_all batch s" and ?d = "DiffProjectionForBatch it s (apply_all batch s) batch"
  have ok': "state_ok ?s'" by (rule apply_all_state_ok [OF assms(2)])
  have org: "st_org_id ?s' = st_org_id s" by (simp add: frame_simps)
  have "\<exists>f g. plan_ok (st_org_id s) f (owned_of it ?s') (df_owned_upserts ?d) (df_owned_deletes ?d) \<and>
    plan_ok (st_org_id s) g (rendered_of it ?s') (df_rendered_upserts ?d) (df_rendered_deletes ?d) \<and>
    (\<forall>i. tab_placed it s i \<longrightarrow> f i = owned_of it s i \<and> g i = rendered_of it s i)"
  proof (cases "batchHasStructuralOp batch")
    case True
    then have "?d = DiffProjection it (ProjectOwnership it s) (ProjectOwnership it ?s')"
      by (simp add: DiffProjectionForBatch_def)
    then show ?thesis using DiffProjection_plan_ok [OF assms(2) ok' assms(1) org] by auto
  next
    case False
    have k: "keyed (st_org_id s) (owned_of it s)" "keyed (st_org_id s) (owned_of it ?s')"
      "keyed (st_org_id s) (rendered_of it s)" "keyed (st_org_id s) (rendered_of it ?s')"
      using projected_keyed [OF assms(2), of it] projected_keyed [OF ok', of it] org by simp_all
    show ?thesis
      by (intro exI conjI, rule DiffProjectionForBatch_plan_ok(1) [OF assms(1) False k],
          rule DiffProjectionForBatch_plan_ok(2) [OF assms(1) False k])
         (use quiet_rows [OF False assms(4,3,1)] in auto)
  qed
  then obtain f g where plan: "plan_ok (st_org_id s) f (owned_of it ?s') (df_owned_upserts ?d) (df_owned_deletes ?d)"
    "plan_ok (st_org_id s) g (rendered_of it ?s') (df_rendered_upserts ?d) (df_rendered_deletes ?d)"
    and fg: "\<forall>i. tab_placed it s i \<longrightarrow> f i = owned_of it s i \<and> g i = rendered_of it s i" by blast
  note eff = ApplyDiff_effect [OF assms(5,6)]
  show "owned db' (st_org_id s, i) = owned_of it ?s' i \<and> rendered db' (st_org_id s, i) = rendered_of it ?s' i"
    if "tab_placed it s i" "owned db (st_org_id s, i) = owned_of it s i" "rendered db (st_org_id s, i) = rendered_of it s i"
    using that fg plan_effect [OF plan(1), of "owned db" i] plan_effect [OF plan(2), of "rendered db" i] by (simp add: eff)
  show "owned db' k = owned db k \<and> rendered db' k = rendered db k" if "fst k \<noteq> st_org_id s"
    using plan_frame [OF plan(1) that] plan_frame [OF plan(2) that] by (simp add: eff)
qed

text \<open>The write plan computed for a committed batch is right, on the fast path and on the full
  one: applied to tables that hold the projection of the state before the batch, with a writer
  that does what its interface documents, it leaves tables that hold the projection of the
  state after it, and the rows of other organizations untouched.\<close>

theorem index_follows_commit:
  assumes "range_order it" and "state_ok s" and "unique_roots s" and "tabs_placed it s"
    and "no_reparent s batch" and "writer_laws w owned rendered"
    and "\<forall>i. owned db (st_org_id s, i) = owned_of it s i"
    and "\<forall>i. rendered db (st_org_id s, i) = rendered_of it s i"
    and "ApplyDiff w (DiffProjectionForBatch it s (apply_all batch s) batch) db = Inr db'"
  shows "(\<forall>i. owned db' (st_org_id s, i) = owned_of it (apply_all batch s) i) \<and>
    (\<forall>i. rendered db' (st_org_id s, i) = rendered_of it (apply_all batch s) i) \<and>
    (\<forall>k. fst k \<noteq> st_org_id s \<longrightarrow> owned db' k = owned db k \<and> rendered db' k = rendered db k)"
  using index_row_follows [OF assms(1-3,5,6,9)] assms(4,7,8) by (simp add: tabs_placed_def)

end
