(* ===== verification/Access.thy ===== *)
theory Access
  imports Prelude
begin

text \<open>
  Authorization of workspace and worker access: validated user ids (internal/util/userid),
  credentials, organization bindings, the owner-only workspace rule, the worker rule and the
  delegation scope (internal/hub/auth), and the permission checker that the CRDT validator
  consults in production (internal/hub/service/crdt\_auth.go). The database is a parameter: a
  lookup reads it in some state of the world and may fail, and nothing relates two lookups.
\<close>

section \<open>User ids and credentials\<close>

text \<open>The zero \<open>UserID\<close> is the empty string inside the struct.\<close>

datatype user_id = UserID (uid_id: ident)

definition New_userid :: "string \<Rightarrow> user_id \<times> bool" where
  "New_userid s = (if s = [] then (UserID [], False) else (UserID s, True))"

definition uid_IsZero :: "user_id \<Rightarrow> bool" where
  "uid_IsZero u \<longleftrightarrow> uid_id u = []"

definition uid_Matches :: "user_id \<Rightarrow> string \<Rightarrow> bool" where
  "uid_Matches u stored \<longleftrightarrow> uid_id u \<noteq> [] \<and> uid_id u = stored"

definition uid_MatchesUser :: "user_id \<Rightarrow> user_id \<Rightarrow> bool" where
  "uid_MatchesUser u v \<longleftrightarrow> uid_id u \<noteq> [] \<and> uid_id v \<noteq> [] \<and> uid_id u = uid_id v"

datatype credential_kind = credentialNone | credentialSession | credentialAPI | credentialDelegation

record credential_identity =
  cr_kind :: credential_kind
  cr_id :: ident
  cr_workspace_id :: ident
  cr_worker_id :: ident

text \<open>The constructors panic on an empty id, which is \<open>None\<close> here.\<close>

definition SessionCredential :: "ident \<Rightarrow> credential_identity option" where
  "SessionCredential sessionID = (if sessionID = [] then None
     else Some \<lparr>cr_kind = credentialSession, cr_id = sessionID, cr_workspace_id = [], cr_worker_id = []\<rparr>)"

definition APICredential :: "ident \<Rightarrow> credential_identity option" where
  "APICredential tokenID = (if tokenID = [] then None
     else Some \<lparr>cr_kind = credentialAPI, cr_id = tokenID, cr_workspace_id = [], cr_worker_id = []\<rparr>)"

definition DelegationCredential :: "ident \<Rightarrow> ident \<Rightarrow> ident \<Rightarrow> credential_identity option" where
  "DelegationCredential tokenID workspaceID workerID =
     (if tokenID = [] \<or> workspaceID = [] \<or> workerID = [] then None
      else Some \<lparr>cr_kind = credentialDelegation, cr_id = tokenID, cr_workspace_id = workspaceID,
                 cr_worker_id = workerID\<rparr>)"

definition WorkerScopeID :: "credential_identity \<Rightarrow> ident" where
  "WorkerScopeID c = (if cr_kind c = credentialDelegation then cr_worker_id c else [])"

definition IsDelegation :: "credential_identity \<Rightarrow> bool" where
  "IsDelegation c \<longleftrightarrow> cr_kind c = credentialDelegation"

definition SessionID :: "credential_identity \<Rightarrow> ident" where
  "SessionID c = (if cr_kind c = credentialSession then cr_id c else [])"

datatype bearer_kind = BearerKindAPI | BearerKindDelegation

definition Bearer :: "credential_identity \<Rightarrow> (bearer_kind \<times> ident) option" where
  "Bearer c = (case cr_kind c of credentialAPI \<Rightarrow> Some (BearerKindAPI, cr_id c)
     | credentialDelegation \<Rightarrow> Some (BearerKindDelegation, cr_id c) | _ \<Rightarrow> None)"

record user_info =
  ui_id :: user_id
  ui_credential :: credential_identity

section \<open>The store\<close>

datatype 'e store_error = ErrNotFound | StoreFault 'e

datatype worker_status = WORKER_STATUS_UNSPECIFIED | WORKER_STATUS_ACTIVE
  | WORKER_STATUS_DEREGISTERING | WORKER_STATUS_DELETED | WORKER_STATUS_OTHER int

record workspace_row =
  wr_id :: ident
  wr_org_id :: ident
  wr_owner :: ident

record worker_row =
  kr_id :: ident
  kr_registered_by :: ident
  kr_status :: worker_status

text \<open>
  The lookups of the store that authorization uses. A lookup runs in a state of the world and
  gives a result and the next state. A workspace lookup may answer nil without an error.
\<close>

record ('w, 'e) auth_store =
  GetWorkspaceByID :: "ident \<Rightarrow> 'w \<Rightarrow> ('e store_error + workspace_row option) \<times> 'w"
  ListWorkspacesByIDs :: "ident list \<Rightarrow> 'w \<Rightarrow> ('e store_error + workspace_row list) \<times> 'w"
  GetWorkerByID :: "ident \<Rightarrow> 'w \<Rightarrow> ('e store_error + worker_row) \<times> 'w"

section \<open>Organization bindings\<close>

datatype org_binding = OrgDenyAll | OrgBound ident | OrgAny

definition BindOrg :: "ident \<Rightarrow> org_binding" where
  "BindOrg orgID = (if orgID = [] then OrgDenyAll else OrgBound orgID)"

definition DeniesAll :: "org_binding \<Rightarrow> bool" where
  "DeniesAll b \<longleftrightarrow> b = OrgDenyAll"

fun binding_permits :: "org_binding \<Rightarrow> workspace_row option \<Rightarrow> bool" where
  "binding_permits _ None = False"
| "binding_permits OrgAny (Some ws) = True"
| "binding_permits (OrgBound o') (Some ws) = (wr_org_id ws = o')"
| "binding_permits OrgDenyAll (Some ws) = False"

text \<open>A \<open>BoundOrg\<close> wraps the binding it was made with.\<close>

definition NewBoundOrg :: "ident \<Rightarrow> org_binding \<times> bool" where
  "NewBoundOrg orgID = (let b = BindOrg orgID in if DeniesAll b then (OrgDenyAll, False) else (b, True))"

definition ListFilterOrgID :: "org_binding \<Rightarrow> ident \<times> bool" where
  "ListFilterOrgID b = (case b of OrgBound i \<Rightarrow> (i, True) | _ \<Rightarrow> ([], False))"

section \<open>Workspace access\<close>

definition IsOwner :: "workspace_row option \<Rightarrow> user_id \<Rightarrow> bool" where
  "IsOwner ws u = (case ws of None \<Rightarrow> False | Some r \<Rightarrow> uid_Matches u (wr_owner r))"

text \<open>A result \<open>(ws, ok, err)\<close> is \<open>Inl err\<close>, or the pair of pointer and flag.\<close>

definition loadWorkspace :: "('w, 'e) auth_store \<Rightarrow> ident \<Rightarrow> 'w \<Rightarrow> ('e store_error + workspace_row option \<times> bool) \<times> 'w" where
  "loadWorkspace st wsID w =
     (if wsID = [] then (Inr (None, False), w)
      else (case GetWorkspaceByID st wsID w of
              (Inl ErrNotFound, w') \<Rightarrow> (Inr (None, False), w')
            | (Inl e, w') \<Rightarrow> (Inl e, w')
            | (Inr ws, w') \<Rightarrow> (Inr (ws, True), w')))"

definition loadWorkspaceBound :: "('w, 'e) auth_store \<Rightarrow> org_binding \<Rightarrow> ident \<Rightarrow> 'w \<Rightarrow>
    ('e store_error + workspace_row option \<times> bool) \<times> 'w" where
  "loadWorkspaceBound st b wsID w =
     (if DeniesAll b then (Inr (None, False), w)
      else (case loadWorkspace st wsID w of
              (Inl e, w') \<Rightarrow> (Inl e, w')
            | (Inr (ws, ok), w') \<Rightarrow>
                if \<not> ok then (Inr (None, False), w')
                else if \<not> binding_permits b ws then (Inr (None, False), w')
                else (Inr (ws, True), w')))"

definition WorkspaceCanRead :: "('w, 'e) auth_store \<Rightarrow> org_binding \<Rightarrow> ident \<Rightarrow> user_id \<Rightarrow> 'w \<Rightarrow>
    ('e store_error + bool) \<times> 'w" where
  "WorkspaceCanRead st b wsID u w =
     (if uid_IsZero u \<or> wsID = [] then (Inr False, w)
      else (case loadWorkspaceBound st b wsID w of
              (Inl e, w') \<Rightarrow> (Inl e, w')
            | (Inr (ws, ok), w') \<Rightarrow> if \<not> ok then (Inr False, w') else (Inr (IsOwner ws u), w')))"

definition WorkspaceCanAccessInOrg :: "('w, 'e) auth_store \<Rightarrow> org_binding \<Rightarrow> ident \<Rightarrow> user_id \<Rightarrow> 'w \<Rightarrow>
    ('e store_error + bool) \<times> 'w" where
  "WorkspaceCanAccessInOrg st bound wsID u w = WorkspaceCanRead st bound wsID u w"

definition WorkspaceReadableByUsersInOrg :: "('w, 'e) auth_store \<Rightarrow> org_binding \<Rightarrow> ident \<Rightarrow> user_id list \<Rightarrow> 'w \<Rightarrow>
    ('e store_error + ident set) \<times> 'w" where
  "WorkspaceReadableByUsersInOrg st bound wsID users w =
     (if users = [] then (Inr {}, w)
      else (case loadWorkspaceBound st bound wsID w of
              (Inl e, w') \<Rightarrow> (Inl e, w')
            | (Inr (ws, ok), w') \<Rightarrow>
                if \<not> ok then (Inr {}, w')
                else (Inr (uid_id ` {u \<in> set users. IsOwner ws u}), w')))"

definition WorkspacesReadableByUser :: "('w, 'e) auth_store \<Rightarrow> org_binding \<Rightarrow> user_id \<Rightarrow> ident list \<Rightarrow> 'w \<Rightarrow>
    ('e store_error + ident list) \<times> 'w" where
  "WorkspacesReadableByUser st b u wsIDs w =
     (if uid_IsZero u \<or> wsIDs = [] \<or> DeniesAll b then (Inr [], w)
      else let dedup = rev (remdups (rev (filter (\<lambda>i. i \<noteq> []) wsIDs))) in
        if dedup = [] then (Inr [], w)
        else (case ListWorkspacesByIDs st dedup w of
                (Inl e, w') \<Rightarrow> (Inl e, w')
              | (Inr rows, w') \<Rightarrow>
                  let byID = map_of (rev (map (\<lambda>r. (wr_id r, r)) rows))
                  in (Inr (filter (\<lambda>i. case byID i of None \<Rightarrow> False
                        | Some ws \<Rightarrow> binding_permits b (Some ws) \<and> IsOwner (Some ws) u) dedup), w')))"

section \<open>Worker access\<close>

definition WorkerCanUse :: "('w, 'e) auth_store \<Rightarrow> ident \<Rightarrow> user_id \<Rightarrow> 'w \<Rightarrow>
    ('e store_error + worker_row option \<times> bool) \<times> 'w" where
  "WorkerCanUse st workerID u w =
     (if workerID = [] \<or> uid_IsZero u then (Inr (None, False), w)
      else (case GetWorkerByID st workerID w of
              (Inl ErrNotFound, w') \<Rightarrow> (Inr (None, False), w')
            | (Inl e, w') \<Rightarrow> (Inl e, w')
            | (Inr k, w') \<Rightarrow> (Inr (Some k, uid_Matches u (kr_registered_by k)), w')))"

definition WorkerUsableNow :: "worker_row option \<Rightarrow> bool" where
  "WorkerUsableNow k = (case k of None \<Rightarrow> False | Some r \<Rightarrow> kr_status r = WORKER_STATUS_ACTIVE)"

section \<open>Delegation scope\<close>

datatype delegation_scope = ScopeDenyAll | ScopeUnbounded | ScopeMinterOnly ident | ScopeOwnsMinter

datatype 'e scope_error = ErrDelegationMinterUnknown | ErrDelegationWorkerOutOfScope | ScopeStore "'e store_error"

definition minterReachScope :: "ident \<Rightarrow> bool \<Rightarrow> delegation_scope" where
  "minterReachScope minterID ownsMinter = (if ownsMinter then ScopeOwnsMinter else ScopeMinterOnly minterID)"

definition delegationMinter :: "user_info option \<Rightarrow> 'e scope_error + (ident \<times> bool)" where
  "delegationMinter user = (case user of None \<Rightarrow> Inr ([], False)
     | Some u \<Rightarrow> if \<not> IsDelegation (ui_credential u) then Inr ([], False)
                 else let m = WorkerScopeID (ui_credential u) in
                      if m = [] then Inl ErrDelegationMinterUnknown else Inr (m, True))"

fun scope_Allows :: "delegation_scope \<Rightarrow> ident \<Rightarrow> bool" where
  "scope_Allows ScopeUnbounded t = True"
| "scope_Allows ScopeOwnsMinter t = True"
| "scope_Allows (ScopeMinterOnly m) t = (t = [] \<or> t = m)"
| "scope_Allows ScopeDenyAll t = False"

definition scope_IsBounded :: "delegation_scope \<Rightarrow> bool" where
  "scope_IsBounded s \<longleftrightarrow> s \<noteq> ScopeUnbounded"

text \<open>
  The scope is returned beside the error. With an error it is the deny-all scope, so a caller
  that drops the error still denies.
\<close>

definition ResolveDelegationWorkerScope :: "('w, 'e) auth_store \<Rightarrow> user_info option \<Rightarrow> 'w \<Rightarrow>
    (delegation_scope \<times> 'e scope_error option) \<times> 'w" where
  "ResolveDelegationWorkerScope st user w =
     (case delegationMinter user of
        Inl e \<Rightarrow> ((ScopeDenyAll, Some e), w)
      | Inr (minterID, bounded) \<Rightarrow>
          if \<not> bounded then ((ScopeUnbounded, None), w)
          else (case GetWorkerByID st minterID w of
                  (Inl ErrNotFound, w') \<Rightarrow> ((minterReachScope minterID False, None), w')
                | (Inl e, w') \<Rightarrow> ((ScopeDenyAll, Some (ScopeStore e)), w')
                | (Inr minter, w') \<Rightarrow>
                    ((minterReachScope minterID
                        (uid_Matches (get_or (UserID []) ui_id user) (kr_registered_by minter) \<and>
                         kr_status minter = WORKER_STATUS_ACTIVE), None), w')))"

definition CheckDelegationWorkerScope :: "('w, 'e) auth_store \<Rightarrow> user_info option \<Rightarrow> ident \<Rightarrow> 'w \<Rightarrow>
    'e scope_error option \<times> 'w" where
  "CheckDelegationWorkerScope st user target w =
     (case delegationMinter user of
        Inl e \<Rightarrow> (Some e, w)
      | Inr (minterID, bounded) \<Rightarrow>
          if \<not> bounded \<or> minterID = target then (None, w)
          else (case ResolveDelegationWorkerScope st user w of
                  ((scope, Some e), w') \<Rightarrow> (Some e, w')
                | ((scope, None), w') \<Rightarrow>
                    if \<not> scope_Allows scope target then (Some ErrDelegationWorkerOutOfScope, w') else (None, w')))"

text \<open>A nil predicate is unbounded.\<close>

definition workerScopePredicate :: "delegation_scope \<Rightarrow> (ident \<Rightarrow> bool) option" where
  "workerScopePredicate scope = (if \<not> scope_IsBounded scope then None else Some (scope_Allows scope))"

section \<open>Workspace requests of a delegation bearer\<close>

datatype scope_denied = WorkspaceOutsideScope | OperationNotAllowed

definition WorkspaceScopeID :: "credential_identity \<Rightarrow> ident" where
  "WorkspaceScopeID c = cr_workspace_id c"

definition delegationWorkspaceMismatch :: "user_info option \<Rightarrow> ident \<Rightarrow> bool" where
  "delegationWorkspaceMismatch user wsID = (case user of None \<Rightarrow> False
     | Some u \<Rightarrow> IsDelegation (ui_credential u) \<and> wsID \<noteq> WorkspaceScopeID (ui_credential u))"

definition requireDelegationWorkspace :: "user_info option \<Rightarrow> ident \<Rightarrow> scope_denied option" where
  "requireDelegationWorkspace user wsID =
     (if \<not> delegationWorkspaceMismatch user wsID then None else Some WorkspaceOutsideScope)"

definition rejectDelegationBearer :: "user_info option \<Rightarrow> scope_denied option" where
  "rejectDelegationBearer user = (case user of None \<Rightarrow> None
     | Some u \<Rightarrow> if \<not> IsDelegation (ui_credential u) then None else Some OperationNotAllowed)"

record scoped_request =
  sr_workspaces :: "ident list"
  sr_deny :: bool

text \<open>The loop: skip blank ids, fail on a mismatch, remember whether any id matched.\<close>

fun scan_request :: "user_info option \<Rightarrow> ident list \<Rightarrow> bool \<Rightarrow> scope_denied + bool" where
  "scan_request user [] matched = Inr matched"
| "scan_request user (i # is) matched =
     (if i = [] then scan_request user is matched
      else if delegationWorkspaceMismatch user i then Inl WorkspaceOutsideScope
      else scan_request user is True)"

definition delegationScopedWorkspaceRequest :: "user_info option \<Rightarrow> ident list \<Rightarrow> scope_denied + scoped_request" where
  "delegationScopedWorkspaceRequest user requested = (case user of
     None \<Rightarrow> Inr \<lparr>sr_workspaces = requested, sr_deny = False\<rparr>
   | Some u \<Rightarrow>
       if \<not> IsDelegation (ui_credential u) then Inr \<lparr>sr_workspaces = requested, sr_deny = False\<rparr>
       else if requested = [] then Inr \<lparr>sr_workspaces = [WorkspaceScopeID (ui_credential u)], sr_deny = False\<rparr>
       else (case scan_request user requested False of
               Inl e \<Rightarrow> Inl e
             | Inr matched \<Rightarrow>
                 if \<not> matched then Inr \<lparr>sr_workspaces = [], sr_deny = True\<rparr>
                 else Inr \<lparr>sr_workspaces = [WorkspaceScopeID (ui_credential u)], sr_deny = False\<rparr>))"

section \<open>The permission checker of the CRDT\<close>

record ('w, 'e) auth_checker =
  CanAccessWorkspace :: "ident \<Rightarrow> ident \<Rightarrow> ident \<Rightarrow> 'w \<Rightarrow> ('e store_error + bool) \<times> 'w"
  CanUseWorker :: "ident \<Rightarrow> ident \<Rightarrow> ident \<Rightarrow> 'w \<Rightarrow> ('e store_error + bool) \<times> 'w"

definition crdt_CanAccessWorkspace :: "('w, 'e) auth_store \<Rightarrow> ident \<Rightarrow> ident \<Rightarrow> ident \<Rightarrow> 'w \<Rightarrow>
    ('e store_error + bool) \<times> 'w" where
  "crdt_CanAccessWorkspace st orgID wsID principalID w =
     (case New_userid principalID of (uid, ok) \<Rightarrow>
        if \<not> ok then (Inr False, w)
        else (case NewBoundOrg orgID of (bound, ok') \<Rightarrow>
                if \<not> ok' then (Inr False, w) else WorkspaceCanAccessInOrg st bound wsID uid w))"

definition crdt_CanAccessWorkspaceForUsers :: "('w, 'e) auth_store \<Rightarrow> ident \<Rightarrow> ident \<Rightarrow> ident list \<Rightarrow> 'w \<Rightarrow>
    ('e store_error + ident set) \<times> 'w" where
  "crdt_CanAccessWorkspaceForUsers st orgID wsID userIDs w =
     (case NewBoundOrg orgID of (bound, ok) \<Rightarrow>
        if \<not> ok then (Inr {}, w)
        else WorkspaceReadableByUsersInOrg st bound wsID
               (map (fst o New_userid) (filter (snd o New_userid) userIDs)) w)"

definition crdt_CanUseWorker :: "('w, 'e) auth_store \<Rightarrow> ident \<Rightarrow> ident \<Rightarrow> ident \<Rightarrow> 'w \<Rightarrow>
    ('e store_error + bool) \<times> 'w" where
  "crdt_CanUseWorker st orgID workerID principalID w =
     (if workerID = [] then (Inr True, w)
      else (case New_userid principalID of (uid, ok) \<Rightarrow>
        if \<not> ok then (Inr False, w)
        else (case WorkerCanUse st workerID uid w of
                (Inl e, w') \<Rightarrow> (Inl e, w')
              | (Inr (k, ok'), w') \<Rightarrow>
                  if \<not> ok' \<or> k = None then (Inr False, w') else (Inr (WorkerUsableNow k), w'))))"

definition NewCRDTAuthChecker :: "('w, 'e) auth_store \<Rightarrow> ('w, 'e) auth_checker" where
  "NewCRDTAuthChecker st = \<lparr>CanAccessWorkspace = crdt_CanAccessWorkspace st, CanUseWorker = crdt_CanUseWorker st\<rparr>"

section \<open>What is granted\<close>

lemmas workspace_rule_defs = crdt_CanAccessWorkspace_def WorkspaceCanAccessInOrg_def WorkspaceCanRead_def
  loadWorkspaceBound_def loadWorkspace_def New_userid_def NewBoundOrg_def BindOrg_def DeniesAll_def
  IsOwner_def uid_Matches_def uid_IsZero_def

text \<open>A row of the workspace table that makes a user the owner of a workspace of an organization.\<close>

definition owner_row :: "ident \<Rightarrow> ident \<Rightarrow> workspace_row \<Rightarrow> bool" where
  "owner_row orgID userID row \<longleftrightarrow> wr_org_id row = orgID \<and> wr_owner row = userID"

lemma crdt_access_iff:
  "crdt_CanAccessWorkspace st orgID wsID u w = (Inr True, w') \<longleftrightarrow>
    orgID \<noteq> [] \<and> wsID \<noteq> [] \<and> u \<noteq> [] \<and>
    (\<exists>row. GetWorkspaceByID st wsID w = (Inr (Some row), w') \<and> owner_row orgID u row)"
  by (auto simp: workspace_rule_defs owner_row_def split: prod.splits sum.splits store_error.splits option.splits
      elim: binding_permits.elims)

text \<open>The production checker grants access to a workspace exactly when the lookup in the store
  returned a row of that organization owned by that principal, and none of the three ids is
  empty: missing rows, rows of another organization, nil rows and faults never grant.\<close>

theorem workspace_access_exact:
  "CanAccessWorkspace (NewCRDTAuthChecker st) orgID wsID u w = (Inr True, w') \<longleftrightarrow>
    orgID \<noteq> [] \<and> wsID \<noteq> [] \<and> u \<noteq> [] \<and>
    (\<exists>row. GetWorkspaceByID st wsID w = (Inr (Some row), w') \<and> owner_row orgID u row)"
  by (simp add: NewCRDTAuthChecker_def crdt_access_iff)

lemma crdt_batch_access:
  assumes "crdt_CanAccessWorkspaceForUsers st orgID wsID users w = (Inr granted, w')"
  shows "granted = {u \<in> set users. fst (crdt_CanAccessWorkspace st orgID wsID u w) = Inr True}"
proof (cases "filter (snd o New_userid) users = []")
  case True
  then have "\<forall>u \<in> set users. u = []" by (auto simp: filter_empty_conv New_userid_def split: if_splits)
  moreover have "granted = {}"
    using assms True by (auto simp: crdt_CanAccessWorkspaceForUsers_def WorkspaceReadableByUsersInOrg_def
        split: prod.splits if_splits)
  ultimately show ?thesis by (auto simp: crdt_CanAccessWorkspace_def New_userid_def)
next
  case False
  have real: "(\<exists>v \<in> set (filter (snd o New_userid) users). u = uid_id (fst (New_userid v)) \<and> P (fst (New_userid v))) \<longleftrightarrow>
      u \<in> set users \<and> u \<noteq> [] \<and> P (UserID u)" for u P
    by (auto simp: New_userid_def)
  show ?thesis
  proof (cases "orgID = []")
    case True
    then show ?thesis
      using assms by (auto simp: crdt_CanAccessWorkspaceForUsers_def crdt_CanAccessWorkspace_def NewBoundOrg_def
          BindOrg_def DeniesAll_def New_userid_def)
  next
    case org: False
    obtain ws ok where load: "loadWorkspaceBound st (OrgBound orgID) wsID w = (Inr (ws, ok), w')"
      and granted: "granted = (if \<not> ok then {} else uid_id ` {u \<in> set (map (fst o New_userid)
          (filter (snd o New_userid) users)). IsOwner ws u})"
      using assms org False
      by (auto simp: crdt_CanAccessWorkspaceForUsers_def WorkspaceReadableByUsersInOrg_def NewBoundOrg_def
          BindOrg_def DeniesAll_def split: prod.splits sum.splits if_splits)
    have a: "u \<in> granted \<longleftrightarrow> u \<in> set users \<and> u \<noteq> [] \<and> ok \<and> IsOwner ws (UserID u)" for u
      unfolding granted using real [of u "IsOwner ws"] by (auto simp: image_iff)
    have b: "fst (crdt_CanAccessWorkspace st orgID wsID u w) = Inr True \<longleftrightarrow> ok \<and> IsOwner ws (UserID u)"
      if "u \<noteq> []" for u
      using that org load by (auto simp: crdt_CanAccessWorkspace_def WorkspaceCanAccessInOrg_def WorkspaceCanRead_def
          New_userid_def NewBoundOrg_def BindOrg_def DeniesAll_def uid_IsZero_def loadWorkspaceBound_def loadWorkspace_def
          split: if_splits)
    have c: "fst (crdt_CanAccessWorkspace st orgID wsID [] w) \<noteq> Inr True"
      by (simp add: crdt_CanAccessWorkspace_def New_userid_def)
    show ?thesis
    proof (rule set_eqI)
      fix u show "u \<in> granted \<longleftrightarrow>
          u \<in> {u \<in> set users. fst (crdt_CanAccessWorkspace st orgID wsID u w) = Inr True}"
        using b [of u] c by (cases "u = []") (simp_all add: a)
    qed
  qed
qed

text \<open>The batched form of the check answers exactly what the per-user check answers: the set it
  returns holds the users to whom the single check, run in the same state of the store,
  grants access.\<close>

theorem batch_access_agrees:
  assumes "crdt_CanAccessWorkspaceForUsers st orgID wsID users w = (Inr granted, w')"
  shows "granted = {u \<in> set users. fst (crdt_CanAccessWorkspace st orgID wsID u w) = Inr True}"
  using assms by (rule crdt_batch_access)

text \<open>A delegation bearer that is bounded to its minting worker. Unless the worker that minted
  the token is registered to the token's user and active, the resolved scope reaches no worker
  but the minter itself, and an unresolvable scope reaches none at all, also for a caller that
  drops the error.\<close>

theorem delegation_scope_bounded:
  assumes "IsDelegation (ui_credential u)"
    and "ResolveDelegationWorkerScope st (Some u) w = ((scope, err), w')"
    and "\<nexists>k. fst (GetWorkerByID st (WorkerScopeID (ui_credential u)) w) = Inr k \<and>
            uid_Matches (ui_id u) (kr_registered_by k) \<and> kr_status k = WORKER_STATUS_ACTIVE"
  shows "\<exists>p. workerScopePredicate scope = Some p \<and>
    (\<forall>t. t \<noteq> [] \<and> p t \<longrightarrow> err = None \<and> t = WorkerScopeID (ui_credential u))"
  using assms
  by (auto simp: ResolveDelegationWorkerScope_def delegationMinter_def workerScopePredicate_def
      scope_IsBounded_def minterReachScope_def Let_def split: if_splits sum.splits prod.splits store_error.splits)

text \<open>The check for a single target never disagrees with the scope value: where the scope
  resolves without an error, the target passes exactly when the scope allows it.\<close>

theorem check_agrees_with_scope:
  assumes "ResolveDelegationWorkerScope st user w = ((scope, None), w')" and "target \<noteq> []"
  shows "fst (CheckDelegationWorkerScope st user target w) = None \<longleftrightarrow> scope_Allows scope target"
  using assms
  by (auto simp: CheckDelegationWorkerScope_def ResolveDelegationWorkerScope_def delegationMinter_def
      minterReachScope_def Let_def split: if_splits sum.splits prod.splits store_error.splits option.splits)

end
