(* ===== verification/AuthCheck.thy ===== *)
theory AuthCheck
  imports TabIndex Access
begin

text \<open>
  Permission checks inside the validator (backend/internal/hub/crdt/validate\_auth.go and
  \<open>validateWorkerRefs\<close> of validate\_tab.go): the decorators that narrow a checker to a
  credential's scopes and that memoize it for one batch, the rule for one operation, and the
  check of worker references. A checker runs in a state of the world, so two lookups of the
  same key may differ; the memo keeps its caches in the state it threads.
\<close>

section \<open>Rejections\<close>

datatype rejection = EPOCH_REQUIRED | STALE_EPOCH | FORBIDDEN_WORKSPACE | UNKNOWN_WORKSPACE | TOMBSTONED_TARGET
  | OP_ID_COLLISION | OP_ID_COLLISION_UNAUTHORIZED | HUB_ONLY_OP | TAB_PLACEMENT_INVALID | INCOMPLETE_RECORD
  | ROOT_NODE_PROTECTED | ROOT_NODE_NOT_UNIQUE | FLOATING_MOVE_WITH_DESCENDANTS | VALUE_DOMAIN
  | PARENT_IMMUTABLE | ROOT_IMMUTABLE | TAB_ID_COLLISION_ACROSS_TYPES | INVALID_WORKER_REF

text \<open>The reason and the offending id; \<open>None\<close> is the unspecified reason, which means accepted.\<close>

type_synonym verdict = "(rejection \<times> ident) option"

type_synonym ('w, 'e) lookup = "'w \<Rightarrow> ('e store_error + verdict) \<times> 'w"

section \<open>Decorators\<close>

definition outOfWorkspaceScope :: "ident \<Rightarrow> ident \<Rightarrow> bool" where
  "outOfWorkspaceScope bound wsID \<longleftrightarrow> bound \<noteq> empty_id \<and> wsID \<noteq> bound"

definition workspaceScopedAuthChecker ::
    "('w, 'e) auth_checker \<Rightarrow> ident \<Rightarrow> (ident \<Rightarrow> bool) option \<Rightarrow> ('w, 'e) auth_checker" where
  "workspaceScopedAuthChecker inner bound workerScope = \<lparr>
     CanAccessWorkspace = (\<lambda>orgID wsID u w.
       if outOfWorkspaceScope bound wsID then (Inr False, w) else CanAccessWorkspace inner orgID wsID u w),
     CanUseWorker = (\<lambda>orgID k u w.
       if (case workerScope of None \<Rightarrow> False | Some p \<Rightarrow> \<not> p k) then (Inr False, w)
       else CanUseWorker inner orgID k u w)\<rparr>"

definition scopedAuthChecker ::
    "('w, 'e) auth_checker \<Rightarrow> ident \<Rightarrow> (ident \<Rightarrow> bool) option \<Rightarrow> ('w, 'e) auth_checker" where
  "scopedAuthChecker inner bound workerScope =
     (if bound = empty_id \<and> workerScope = None then inner else workspaceScopedAuthChecker inner bound workerScope)"

text \<open>The three-part key of the memo, and one memoized lookup. An error is not cached.\<close>

type_synonym memo_key = "ident \<times> ident \<times> ident"

type_synonym memo = "memo_key \<Rightarrow> bool option"

definition memoize :: "memo \<Rightarrow> memo_key \<Rightarrow> ('w \<Rightarrow> ('e store_error + bool) \<times> 'w) \<Rightarrow> 'w \<Rightarrow>
    (('e store_error + bool) \<times> memo) \<times> 'w" where
  "memoize cache key fetch w = (case cache key of
     Some v \<Rightarrow> ((Inr v, cache), w)
   | None \<Rightarrow> (case fetch w of
               (Inl e, w') \<Rightarrow> ((Inl e, cache), w')
             | (Inr v, w') \<Rightarrow> ((Inr v, cache(key := Some v)), w')))"

record 'w memo_world =
  mw_world :: 'w
  mw_accessWS :: memo
  mw_useW :: memo

definition memoAuthChecker :: "('w, 'e) auth_checker \<Rightarrow> ('w memo_world, 'e) auth_checker" where
  "memoAuthChecker inner = \<lparr>
     CanAccessWorkspace = (\<lambda>orgID wsID u mw.
       case memoize (mw_accessWS mw) (orgID, wsID, u) (CanAccessWorkspace inner orgID wsID u) (mw_world mw) of
         ((r, cache), w') \<Rightarrow> (r, mw\<lparr>mw_world := w', mw_accessWS := cache\<rparr>)),
     CanUseWorker = (\<lambda>orgID k u mw.
       case memoize (mw_useW mw) (orgID, k, u) (CanUseWorker inner orgID k u) (mw_world mw) of
         ((r, cache), w') \<Rightarrow> (r, mw\<lparr>mw_world := w', mw_useW := cache\<rparr>))\<rparr>"

definition new_memo :: "'w \<Rightarrow> 'w memo_world" where
  "new_memo w = \<lparr>mw_world = w, mw_accessWS = (\<lambda>_. None), mw_useW = (\<lambda>_. None)\<rparr>"

text \<open>The batch capability: used when the inner checker has it, one lookup per user otherwise.\<close>

fun access_each :: "('w, 'e) auth_checker \<Rightarrow> ident \<Rightarrow> ident \<Rightarrow> ident list \<Rightarrow> ident set \<Rightarrow> 'w \<Rightarrow>
    ('e store_error + ident set) \<times> 'w" where
  "access_each chk orgID wsID [] acc w = (Inr acc, w)"
| "access_each chk orgID wsID (u # us) acc w = (case CanAccessWorkspace chk orgID wsID u w of
     (Inl e, w') \<Rightarrow> (Inl e, w')
   | (Inr allowed, w') \<Rightarrow> access_each chk orgID wsID us (if allowed then insert u acc else acc) w')"

definition accessWorkspaceForUsers :: "('w, 'e) auth_checker \<Rightarrow>
    (ident \<Rightarrow> ident \<Rightarrow> ident list \<Rightarrow> 'w \<Rightarrow> ('e store_error + ident set) \<times> 'w) option \<Rightarrow>
    ident \<Rightarrow> ident \<Rightarrow> ident list \<Rightarrow> 'w \<Rightarrow> ('e store_error + ident set) \<times> 'w" where
  "accessWorkspaceForUsers inner batch orgID wsID users w = (case batch of
     Some f \<Rightarrow> f orgID wsID users w
   | None \<Rightarrow> access_each inner orgID wsID users {} w)"

section \<open>The rule for one operation\<close>

definition requireWrite :: "('w, 'e) auth_checker \<Rightarrow> ident \<Rightarrow> ident \<Rightarrow> ident \<Rightarrow> ident \<Rightarrow> ('w, 'e) lookup" where
  "requireWrite chk orgID u opID ws w = (case CanAccessWorkspace chk orgID ws u w of
     (Inl e, w') \<Rightarrow> (Inl e, w')
   | (Inr allowed, w') \<Rightarrow> (Inr (if allowed then None else Some (FORBIDDEN_WORKSPACE, opID)), w'))"

text \<open>Go on only when nothing was rejected and nothing failed.\<close>

definition and_then :: "('w, 'e) lookup \<Rightarrow> ('w, 'e) lookup \<Rightarrow> ('w, 'e) lookup" where
  "and_then m k w = (case m w of (Inr None, w') \<Rightarrow> k w' | r \<Rightarrow> r)"

definition authCheck :: "('w, 'e) auth_checker \<Rightarrow> ident \<Rightarrow> ident \<Rightarrow> org_op \<Rightarrow> ident \<Rightarrow> ident \<Rightarrow> ('w, 'e) lookup" where
  "authCheck chk orgID u p preWS postWS w =
     (let unknown = (Inr (Some (UNKNOWN_WORKSPACE, op_id p)), w); require = requireWrite chk orgID u (op_id p) in
      if IsTombstoneOp (op_body p) then (if preWS = empty_id then unknown else require preWS w)
      else if preWS = empty_id \<and> postWS = empty_id then unknown
      else if preWS = empty_id then require postWS w
      else if postWS = empty_id then require preWS w
      else and_then (require preWS) (require postWS) w)"

fun worker_ref :: "op_body \<Rightarrow> ident option" where
  "worker_ref (SetTabRegister _ _ (TabWorkerId k)) = Some k"
| "worker_ref _ = None"

fun validateWorkerRefs :: "('w, 'e) auth_checker \<Rightarrow> ident \<Rightarrow> ident \<Rightarrow> org_op list \<Rightarrow> ('w, 'e) lookup" where
  "validateWorkerRefs chk orgID u [] w = (Inr None, w)"
| "validateWorkerRefs chk orgID u (p # ps) w = (case worker_ref (op_body p) of
     None \<Rightarrow> validateWorkerRefs chk orgID u ps w
   | Some k \<Rightarrow>
       if k = empty_id then validateWorkerRefs chk orgID u ps w
       else (case CanUseWorker chk orgID k u w of
               (Inl e, w') \<Rightarrow> (Inl e, w')
             | (Inr allowed, w') \<Rightarrow> if \<not> allowed then (Inr (Some (INVALID_WORKER_REF, op_id p)), w')
                                    else validateWorkerRefs chk orgID u ps w'))"

text \<open>The per-operation pass over the resolved batch.\<close>

record resolved_op =
  ro_op :: org_op
  ro_ref :: entity_ref
  ro_preW :: ident
  ro_postW :: ident

fun auth_pass :: "('w, 'e) auth_checker \<Rightarrow> ident \<Rightarrow> ident \<Rightarrow> resolved_op list \<Rightarrow> ('w, 'e) lookup" where
  "auth_pass chk orgID u [] w = (Inr None, w)"
| "auth_pass chk orgID u (r # rs) w =
     and_then (authCheck chk orgID u (ro_op r) (ro_preW r) (ro_postW r)) (auth_pass chk orgID u rs) w"

section \<open>The contract of a checker\<close>

text \<open>
  What a policy requires of one resolved operation: a delete needs the workspace the entity is
  in, any other operation the workspaces it is in before and after, at least one of them known.
\<close>

definition op_authorized :: "(ident \<Rightarrow> ident \<Rightarrow> ident \<Rightarrow> bool) \<Rightarrow> ident \<Rightarrow> ident \<Rightarrow> resolved_op \<Rightarrow> bool" where
  "op_authorized access orgID u r \<longleftrightarrow> (if IsTombstoneOp (op_body (ro_op r))
     then ro_preW r \<noteq> empty_id \<and> access orgID (ro_preW r) u
     else (ro_preW r \<noteq> empty_id \<or> ro_postW r \<noteq> empty_id) \<and>
          (ro_preW r \<noteq> empty_id \<longrightarrow> access orgID (ro_preW r) u) \<and>
          (ro_postW r \<noteq> empty_id \<longrightarrow> access orgID (ro_postW r) u))"

text \<open>The state of a memo whose cached grants the policy permits.\<close>

definition memo_inv :: "('w \<Rightarrow> bool) \<Rightarrow> (ident \<Rightarrow> ident \<Rightarrow> ident \<Rightarrow> bool) \<Rightarrow> (ident \<Rightarrow> ident \<Rightarrow> ident \<Rightarrow> bool) \<Rightarrow>
    'w memo_world \<Rightarrow> bool" where
  "memo_inv good access useW mw \<longleftrightarrow> good (mw_world mw) \<and>
     (\<forall>orgID ws u. mw_accessWS mw (orgID, ws, u) = Some True \<longrightarrow> access orgID ws u) \<and>
     (\<forall>orgID k u. mw_useW mw (orgID, k, u) = Some True \<longrightarrow> useW orgID k u)"


text \<open>
  A checker is sound for a policy: in the states that satisfy an invariant, which it keeps, it
  grants only what the policy permits. The clients of a checker rely on nothing else.
\<close>

locale auth_contract =
  fixes chk :: "('w, 'e) auth_checker" and access :: "ident \<Rightarrow> ident \<Rightarrow> ident \<Rightarrow> bool"
    and useW :: "ident \<Rightarrow> ident \<Rightarrow> ident \<Rightarrow> bool" and good :: "'w \<Rightarrow> bool"
  assumes access_grant: "good w \<Longrightarrow> CanAccessWorkspace chk orgID ws u w = (Inr True, w') \<Longrightarrow> access orgID ws u"
    and use_grant: "good w \<Longrightarrow> CanUseWorker chk orgID k u w = (Inr True, w') \<Longrightarrow> useW orgID k u"
    and access_inv: "good w \<Longrightarrow> good (snd (CanAccessWorkspace chk orgID ws u w))"
    and use_inv: "good w \<Longrightarrow> good (snd (CanUseWorker chk orgID k u w))"
begin

lemma requireWrite_granted:
  assumes "good w" and "requireWrite chk orgID u i ws w = (Inr None, w')"
  shows "access orgID ws u \<and> good w'"
  using assms access_grant [of w orgID ws u w'] access_inv [of w orgID ws u]
  by (auto simp: requireWrite_def split: prod.splits sum.splits if_splits)

lemma authCheck_granted:
  assumes "good w" and "authCheck chk orgID u p preWS postWS w = (Inr None, w')"
  shows "good w' \<and> op_authorized access orgID u \<lparr>ro_op = p, ro_ref = r, ro_preW = preWS, ro_postW = postWS\<rparr>"
proof -
  note rw = requireWrite_granted [of _ orgID u "op_id p"]
  show ?thesis
  proof (cases "IsTombstoneOp (op_body p) \<or> preWS = empty_id \<or> postWS = empty_id")
    case True
    then show ?thesis
      using assms(2) rw [OF assms(1), of preWS w'] rw [OF assms(1), of postWS w']
      by (auto simp: authCheck_def Let_def op_authorized_def split: if_splits)
  next
    case False
    then obtain w1 where one: "requireWrite chk orgID u (op_id p) preWS w = (Inr None, w1)"
      and two: "requireWrite chk orgID u (op_id p) postWS w1 = (Inr None, w')"
      using assms(2) by (auto simp: authCheck_def Let_def and_then_def split: prod.splits sum.splits option.splits)
    from rw [OF assms(1) one] rw [OF _ two] show ?thesis using False by (simp add: op_authorized_def)
  qed
qed

lemma auth_pass_granted:
  "good w \<Longrightarrow> auth_pass chk orgID u rs w = (Inr None, w') \<Longrightarrow> good w' \<and> (\<forall>r \<in> set rs. op_authorized access orgID u r)"
proof (induction rs arbitrary: w)
  case (Cons r rs)
  then obtain w1 where one: "authCheck chk orgID u (ro_op r) (ro_preW r) (ro_postW r) w = (Inr None, w1)"
    and rest: "auth_pass chk orgID u rs w1 = (Inr None, w')"
    by (auto simp: and_then_def split: prod.splits sum.splits option.splits)
  from authCheck_granted [OF Cons.prems(1) one] Cons.IH [OF _ rest] show ?case
    by (auto simp: op_authorized_def split: if_splits)
qed simp

lemma worker_refs_granted:
  "good w \<Longrightarrow> validateWorkerRefs chk orgID u ps w = (Inr None, w') \<Longrightarrow>
    good w' \<and> (\<forall>p \<in> set ps. \<forall>k. worker_ref (op_body p) = Some k \<longrightarrow> k \<noteq> empty_id \<longrightarrow> useW orgID k u)"
proof (induction ps arbitrary: w)
  case (Cons p ps)
  show ?case
  proof (cases "worker_ref (op_body p) = None \<or> worker_ref (op_body p) = Some empty_id")
    case True
    then show ?thesis using Cons by auto
  next
    case False
    then obtain k w1 where k: "worker_ref (op_body p) = Some k" "k \<noteq> empty_id"
        "CanUseWorker chk orgID k u w = (Inr True, w1)" "validateWorkerRefs chk orgID u ps w1 = (Inr None, w')"
      using Cons.prems(2) by (auto split: prod.splits sum.splits if_splits option.splits)
    then show ?thesis
      using Cons.IH [of w1] Cons.prems(1) use_grant [OF _ k(3)] use_inv [of w orgID k u] by auto
  qed
qed simp

text \<open>Both decorators keep the contract; the scoped one strengthens the policy.\<close>

lemma memo_contract: "auth_contract (memoAuthChecker chk) access useW (memo_inv good access useW)"
proof
  fix w :: "'w memo_world" and orgID ws u w'
  assume "memo_inv good access useW w" "CanAccessWorkspace (memoAuthChecker chk) orgID ws u w = (Inr True, w')"
  then show "access orgID ws u"
    by (auto simp: memoAuthChecker_def memoize_def memo_inv_def split: option.splits prod.splits sum.splits
        dest: access_grant)
next
  fix w :: "'w memo_world" and orgID k u w'
  assume "memo_inv good access useW w" "CanUseWorker (memoAuthChecker chk) orgID k u w = (Inr True, w')"
  then show "useW orgID k u"
    by (auto simp: memoAuthChecker_def memoize_def memo_inv_def split: option.splits prod.splits sum.splits
        dest: use_grant)
next
  fix w :: "'w memo_world" and orgID ws u
  assume "memo_inv good access useW w"
  then show "memo_inv good access useW (snd (CanAccessWorkspace (memoAuthChecker chk) orgID ws u w))"
    using access_grant [of "mw_world w" orgID ws u] access_inv [of "mw_world w" orgID ws u]
    by (auto simp: memoAuthChecker_def memoize_def memo_inv_def split: option.splits prod.splits sum.splits)
next
  fix w :: "'w memo_world" and orgID k u
  assume "memo_inv good access useW w"
  then show "memo_inv good access useW (snd (CanUseWorker (memoAuthChecker chk) orgID k u w))"
    using use_grant [of "mw_world w" orgID k u] use_inv [of "mw_world w" orgID k u]
    by (auto simp: memoAuthChecker_def memoize_def memo_inv_def split: option.splits prod.splits sum.splits)
qed

lemma new_memo_inv: "good w \<Longrightarrow> memo_inv good access useW (new_memo w)"
  by (simp add: memo_inv_def new_memo_def)

lemma scoped_contract:
  "auth_contract (scopedAuthChecker chk bound scope)
     (\<lambda>orgID ws u. access orgID ws u \<and> \<not> outOfWorkspaceScope bound ws)
     (\<lambda>orgID k u. useW orgID k u \<and> (\<forall>p. scope = Some p \<longrightarrow> p k)) good"
  by unfold_locales
    (auto simp: scopedAuthChecker_def workspaceScopedAuthChecker_def outOfWorkspaceScope_def
      dest: access_grant use_grant intro: access_inv use_inv split: if_splits option.splits)

end

text \<open>
  The production checker satisfies the contract for the policy read off the store: some row it
  can return makes the principal the owner, or the registrant of an active worker.
\<close>

definition owns_workspace :: "('w, 'e) auth_store \<Rightarrow> ident \<Rightarrow> ident \<Rightarrow> ident \<Rightarrow> bool" where
  "owns_workspace st orgID ws u \<longleftrightarrow> orgID \<noteq> [] \<and> ws \<noteq> [] \<and> u \<noteq> [] \<and>
     (\<exists>w row w'. GetWorkspaceByID st ws w = (Inr (Some row), w') \<and> owner_row orgID u row)"

definition may_use_worker :: "('w, 'e) auth_store \<Rightarrow> ident \<Rightarrow> ident \<Rightarrow> ident \<Rightarrow> bool" where
  "may_use_worker st orgID k u \<longleftrightarrow> k = [] \<or> u \<noteq> [] \<and>
     (\<exists>w row w'. GetWorkerByID st k w = (Inr row, w') \<and> kr_registered_by row = u \<and>
                 kr_status row = WORKER_STATUS_ACTIVE)"

interpretation crdt_checker: auth_contract "NewCRDTAuthChecker st" "owns_workspace st" "may_use_worker st" "\<lambda>_. True"
  for st
proof
  fix w orgID ws u w'
  assume "CanAccessWorkspace (NewCRDTAuthChecker st) orgID ws u w = (Inr True, w')"
  then show "owns_workspace st orgID ws u"
    by (auto simp: NewCRDTAuthChecker_def crdt_access_iff owns_workspace_def)
next
  fix w orgID k u w'
  assume "CanUseWorker (NewCRDTAuthChecker st) orgID k u w = (Inr True, w')"
  then show "may_use_worker st orgID k u"
    by (auto simp: NewCRDTAuthChecker_def crdt_CanUseWorker_def WorkerCanUse_def WorkerUsableNow_def
        New_userid_def uid_Matches_def uid_IsZero_def may_use_worker_def
        split: if_splits prod.splits sum.splits store_error.splits option.splits)
qed simp_all

text \<open>The checker of a submission: the production checker behind the credential's scopes and the memo.\<close>

definition submit_checker :: "('w, 'e) auth_store \<Rightarrow> ident \<Rightarrow> (ident \<Rightarrow> bool) option \<Rightarrow> ('w memo_world, 'e) auth_checker" where
  "submit_checker st bound scope = memoAuthChecker (scopedAuthChecker (NewCRDTAuthChecker st) bound scope)"

interpretation scoped_checker: auth_contract "scopedAuthChecker (NewCRDTAuthChecker st) bound scope"
    "\<lambda>orgID ws u. owns_workspace st orgID ws u \<and> \<not> outOfWorkspaceScope bound ws"
    "\<lambda>orgID k u. may_use_worker st orgID k u \<and> (\<forall>p. scope = Some p \<longrightarrow> p k)" "\<lambda>_. True"
  for st bound scope by (rule crdt_checker.scoped_contract)

interpretation submit_check: auth_contract "submit_checker st bound scope"
    "\<lambda>orgID ws u. owns_workspace st orgID ws u \<and> \<not> outOfWorkspaceScope bound ws"
    "\<lambda>orgID k u. may_use_worker st orgID k u \<and> (\<forall>p. scope = Some p \<longrightarrow> p k)"
    "memo_inv (\<lambda>_. True) (\<lambda>orgID ws u. owns_workspace st orgID ws u \<and> \<not> outOfWorkspaceScope bound ws)
       (\<lambda>orgID k u. may_use_worker st orgID k u \<and> (\<forall>p. scope = Some p \<longrightarrow> p k))"
  for st bound scope unfolding submit_checker_def by (rule scoped_checker.memo_contract)

end
