(* ===== verification/Validate.thy ===== *)
theory Validate
  imports AuthCheck
begin

text \<open>
  The validator (backend/internal/hub/crdt/validate.go, validate\_root\_checks.go,
  validate\_tab.go and validate\_resolve.go): the checks of one batch in the order in which
  \<open>ValidateBatch\<close> runs them, against the state before the batch and a working copy with the
  batch applied. Several checks return an identifier and use the empty one for success; the
  definitions keep that convention. Loops over maps take the iteration order.
\<close>

section \<open>Checks on the state before the batch\<close>

definition preApplyTombstoneCheck :: "org_state \<Rightarrow> org_op \<Rightarrow> ident" where
  "preApplyTombstoneCheck pre p =
     (if IsTombstoneOp (op_body p) then empty_id
      else (case op_target p of
         EntityNode i \<Rightarrow> (case fmlookup (st_nodes pre) i of
             Some r \<Rightarrow> if \<not> node_live r then op_id p else empty_id | None \<Rightarrow> empty_id)
       | EntityTab _ i \<Rightarrow> (case fmlookup (st_tabs pre) i of
             Some r \<Rightarrow> if \<not> tab_live r then op_id p else empty_id | None \<Rightarrow> empty_id)
       | EntityWindow i \<Rightarrow> (case fmlookup (st_windows pre) i of
             Some r \<Rightarrow> if \<not> window_live r then op_id p else empty_id | None \<Rightarrow> empty_id)
       | _ \<Rightarrow> empty_id))"

fun cross_types :: "org_state \<Rightarrow> (ident, tab_type) fmap \<Rightarrow> org_op list \<Rightarrow> verdict" where
  "cross_types pre seen [] = None"
| "cross_types pre seen (p # ps) = (case op_target p of
     EntityTab ty i \<Rightarrow>
       if (case fmlookup seen i of None \<Rightarrow> False | Some ty' \<Rightarrow> ty' \<noteq> ty)
       then Some (TAB_ID_COLLISION_ACROSS_TYPES, op_id p)
       else if (case fmlookup (st_tabs pre) i of None \<Rightarrow> False | Some r \<Rightarrow> tb_tab_type r \<noteq> ty \<and> tab_live r)
       then Some (TAB_ID_COLLISION_ACROSS_TYPES, op_id p)
       else cross_types pre (fmupd i ty seen) ps
   | _ \<Rightarrow> cross_types pre seen ps)"

definition validateTabIDCrossTabTypes :: "org_state \<Rightarrow> org_op list \<Rightarrow> verdict" where
  "validateTabIDCrossTabTypes pre batch = cross_types pre fmempty batch"

definition validateSetOnce :: "org_state \<Rightarrow> bool \<Rightarrow> org_op \<Rightarrow> verdict" where
  "validateSetOnce pre internal p = (case op_body p of
     SetNodeRegister i (NodeParentId _) \<Rightarrow>
       if fmlookup (st_nodes pre) i \<noteq> None then Some (PARENT_IMMUTABLE, op_id p) else None
   | SetFloatingWindowRegister i (WindowRootNodeId _) \<Rightarrow>
       if fmlookup (st_windows pre) i \<noteq> None then Some (ROOT_IMMUTABLE, op_id p) else None
   | SetWorkspaceRootNode ws _ \<Rightarrow>
       if \<not> internal then Some (HUB_ONLY_OP, op_id p)
       else (case fmlookup (st_workspaces pre) ws of
               Some r \<Rightarrow> if ws_root_node_id r \<noteq> empty_id then Some (ROOT_IMMUTABLE, op_id p) else None
             | None \<Rightarrow> None)
   | _ \<Rightarrow> None)"

section \<open>Resolving the batch\<close>

text \<open>The loop that resolves each target before and after, with its two caches.\<close>

type_synonym ws_cache = "(entity_ref, ident) fmap"

definition cached :: "ws_cache \<Rightarrow> entity_ref \<Rightarrow> ident \<Rightarrow> ident \<times> ws_cache" where
  "cached cache ref v = (case fmlookup cache ref of Some w \<Rightarrow> (w, cache) | None \<Rightarrow> (v, fmupd ref v cache))"

definition resolve_step :: "org_state \<Rightarrow> org_state \<Rightarrow> root_set \<Rightarrow> root_set \<Rightarrow> org_op \<Rightarrow>
    resolved_op list \<times> ws_cache \<times> ws_cache \<Rightarrow> resolved_op list \<times> ws_cache \<times> ws_cache" where
  "resolve_step pre working preRoots postRoots p = (\<lambda>(acc, c1, c2).
     let ref = op_target p in
     if ref = EntityUnknown
     then (acc @ [\<lparr>ro_op = p, ro_ref = ref, ro_preW = empty_id, ro_postW = empty_id\<rparr>], c1, c2)
     else let (preW, c1') = cached c1 ref (workspaceForEntity pre ref preRoots) in
          if IsTombstoneOp (op_body p)
          then (acc @ [\<lparr>ro_op = p, ro_ref = ref, ro_preW = preW, ro_postW = empty_id\<rparr>], c1', c2)
          else let (postW, c2') = cached c2 ref (workspaceForEntity working ref postRoots)
               in (acc @ [\<lparr>ro_op = p, ro_ref = ref, ro_preW = preW, ro_postW = postW\<rparr>], c1', c2'))"

definition resolve_batch :: "org_state \<Rightarrow> org_state \<Rightarrow> root_set \<Rightarrow> root_set \<Rightarrow> org_op list \<Rightarrow> resolved_op list" where
  "resolve_batch pre working preRoots postRoots batch =
     fst (fold (resolve_step pre working preRoots postRoots) batch ([], fmempty, fmempty))"

section \<open>Tab placement\<close>

definition checkTabPlacement :: "org_state \<Rightarrow> tab_record \<Rightarrow> root_set \<Rightarrow> ident" where
  "checkTabPlacement s t roots =
     (if \<not> tab_live t then empty_id
      else if tile_of t = empty_id then tb_tab_id t
      else let (wsID, leafLive) = resolveTileWorkspace s (tile_of t) roots in
           if wsID = empty_id \<or> \<not> leafLive \<or> \<not> tileIsLeaf s (tile_of t) then tb_tab_id t else empty_id)"

text \<open>A loop that returns the first identifier that is not empty.\<close>

fun first_id :: "('a \<Rightarrow> ident) \<Rightarrow> 'a list \<Rightarrow> ident" where
  "first_id f [] = empty_id"
| "first_id f (x # xs) = (if f x \<noteq> empty_id then f x else first_id f xs)"

definition tabPlacementCheck :: "range_fun \<Rightarrow> org_state \<Rightarrow> org_op list \<Rightarrow> ident" where
  "tabPlacementCheck it working batch =
     (let roots = registeredRoots it working in
      if batchHasStructuralOp batch
      then first_id (\<lambda>(_, t). checkTabPlacement working t roots) (go_range it (st_tabs working))
      else first_id (\<lambda>p. case op_target p of
             EntityTab _ i \<Rightarrow> (case fmlookup (st_tabs working) i of None \<Rightarrow> empty_id
                | Some t \<Rightarrow> checkTabPlacement working t roots)
           | _ \<Rightarrow> empty_id) batch)"

section \<open>Value domains\<close>

definition MaxGridDimension :: "32 word" where
  "MaxGridDimension = 20"

definition domain_ok :: "op_body \<Rightarrow> bool" where
  "domain_ok b = (case b of
     SetNodeRegister _ (NodeRatios v) \<Rightarrow> validRatios v
   | SetNodeRegister _ (NodeRowRatios v) \<Rightarrow> validRatios v
   | SetNodeRegister _ (NodeColRatios v) \<Rightarrow> validRatios v
   | SetNodeRegister _ (NodeRows v) \<Rightarrow> \<not> (v = 0 \<or> v > MaxGridDimension)
   | SetNodeRegister _ (NodeCols v) \<Rightarrow> \<not> (v = 0 \<or> v > MaxGridDimension)
   | SetFloatingWindowRegister _ (WindowX v) \<Rightarrow> f64_finite v
   | SetFloatingWindowRegister _ (WindowY v) \<Rightarrow> f64_finite v
   | SetFloatingWindowRegister _ (WindowWidth v) \<Rightarrow> \<not> (\<not> f64_finite v \<or> f64_le v 0)
   | SetFloatingWindowRegister _ (WindowHeight v) \<Rightarrow> \<not> (\<not> f64_finite v \<or> f64_le v 0)
   | SetFloatingWindowRegister _ (WindowOpacity v) \<Rightarrow>
       \<not> (\<not> f64_finite v \<or> f64_lt v 0 \<or> f64_lt f64_one v)
   | _ \<Rightarrow> True)"

definition valueDomainCheck :: "org_op \<Rightarrow> verdict" where
  "valueDomainCheck p = (if domain_ok (op_body p) then None else Some (VALUE_DOMAIN, op_id p))"

section \<open>Completeness\<close>

definition tab_incomplete :: "tab_record \<Rightarrow> bool" where
  "tab_incomplete t \<longleftrightarrow> tab_live t \<and>
     (tb_tile_id t = None \<or> tile_of t = empty_id \<or> tb_worker_id t = None \<or> worker_of t = empty_id \<or>
      tb_position t = None)"

definition node_incomplete :: "root_set \<Rightarrow> ident \<Rightarrow> node_record \<Rightarrow> bool" where
  "node_incomplete roots i n \<longleftrightarrow> node_live n \<and>
     (nd_kind n = None \<or>
      (if nd_parent_id n = empty_id then fmlookup (rs_roots roots) i = None else nd_position n = None) \<or>
      (case kind_of n of
         NODE_KIND_SPLIT \<Rightarrow> nd_direction n = None \<or> nd_ratios n = None
       | NODE_KIND_GRID \<Rightarrow> nd_rows n = None \<or> nd_cols n = None \<or> nd_row_ratios n = None \<or> nd_col_ratios n = None
       | _ \<Rightarrow> False))"

definition window_incomplete :: "window_record \<Rightarrow> bool" where
  "window_incomplete f \<longleftrightarrow> window_live f \<and>
     (fw_workspace_id f = None \<or> workspace_of f = empty_id \<or> fw_root_node_id f = empty_id \<or>
      fw_x f = None \<or> fw_y f = None \<or> fw_width f = None \<or> fw_height f = None \<or> fw_opacity f = None)"

text \<open>Each loop returns the key of the first incomplete record it meets, also when it is empty.\<close>

definition first_key :: "(ident \<Rightarrow> 'r \<Rightarrow> bool) \<Rightarrow> (ident \<times> 'r) list \<Rightarrow> ident option" where
  "first_key bad ps = map_option fst (List.find (\<lambda>(k, r). bad k r) ps)"

definition completenessCheck :: "range_fun \<Rightarrow> org_state \<Rightarrow> root_set \<Rightarrow> ident" where
  "completenessCheck it s roots =
     (case first_key (\<lambda>_. tab_incomplete) (go_range it (st_tabs s)) of Some i \<Rightarrow> i
      | None \<Rightarrow> (case first_key (node_incomplete roots) (go_range it (st_nodes s)) of Some i \<Rightarrow> i
                 | None \<Rightarrow> (case first_key (\<lambda>_. window_incomplete) (go_range it (st_windows s)) of
                             Some i \<Rightarrow> i | None \<Rightarrow> empty_id)))"

section \<open>Roots\<close>

definition validateRootAssignment :: "org_state \<Rightarrow> root_set \<Rightarrow> ident \<Rightarrow> rejection option" where
  "validateRootAssignment post postRoots candidateID = (case fmlookup (st_nodes post) candidateID of
     None \<Rightarrow> Some ROOT_NODE_NOT_UNIQUE
   | Some r \<Rightarrow> if \<not> node_live r then Some ROOT_NODE_NOT_UNIQUE
               else if nd_parent_id r \<noteq> empty_id then Some ROOT_NODE_NOT_UNIQUE
               else if count_at postRoots candidateID \<noteq> 1 then Some ROOT_NODE_NOT_UNIQUE else None)"

definition subtreeHasOtherLive :: "org_state \<Rightarrow> child_index \<Rightarrow> ident \<Rightarrow> bool" where
  "subtreeHasOtherLive s children rootID =
     (let subtree = collectSubtree children rootID in
      (\<exists>i \<in> subtree. i \<noteq> rootID \<and> (case fmlookup (st_nodes s) i of None \<Rightarrow> False | Some r \<Rightarrow> node_live r)) \<or>
      (\<exists>t \<in> fset (fmran (st_tabs s)). tab_live t \<and> tile_of t \<in> subtree))"

definition tombstoned_windows :: "org_op list \<Rightarrow> ident set" where
  "tombstoned_windows batch =
     fold (\<lambda>p seen. case op_body p of TombstoneFloatingWindow i \<Rightarrow> insert i seen | _ \<Rightarrow> seen) batch {}"

definition root_check :: "org_state \<Rightarrow> org_op list \<Rightarrow> bool \<Rightarrow> root_set \<Rightarrow> root_set \<Rightarrow> child_index \<Rightarrow> org_op \<Rightarrow> verdict" where
  "root_check post batch internal preRoots postRoots postChildren p = (case op_body p of
     TombstoneNode i \<Rightarrow>
       if fmlookup (rs_workspace_roots preRoots) i \<noteq> None \<and> \<not> internal then Some (ROOT_NODE_PROTECTED, op_id p)
       else (case fmlookup (rs_window_roots preRoots) i of None \<Rightarrow> None
             | Some winID \<Rightarrow>
                 if internal then None
                 else if winID \<notin> tombstoned_windows batch then Some (ROOT_NODE_PROTECTED, op_id p)
                 else if subtreeHasOtherLive post postChildren i then Some (ROOT_NODE_PROTECTED, op_id p)
                 else None)
   | SetFloatingWindowRegister _ (WindowRootNodeId r) \<Rightarrow>
       map_option (\<lambda>reason. (reason, op_id p)) (validateRootAssignment post postRoots r)
   | SetWorkspaceRootNode _ r \<Rightarrow>
       map_option (\<lambda>reason. (reason, op_id p)) (validateRootAssignment post postRoots r)
   | _ \<Rightarrow> None)"

definition rootChecks :: "org_state \<Rightarrow> org_op list \<Rightarrow> bool \<Rightarrow> root_set \<Rightarrow> root_set \<Rightarrow> child_index \<Rightarrow> verdict" where
  "rootChecks post batch internal preRoots postRoots postChildren =
     first_error (root_check post batch internal preRoots postRoots postChildren) batch"

definition floating_move :: "org_state \<Rightarrow> org_state \<Rightarrow> child_index \<Rightarrow> org_op \<Rightarrow> verdict" where
  "floating_move post pre postChildren p = (case op_body p of
     SetFloatingWindowRegister i (WindowWorkspaceId _) \<Rightarrow>
       (case fmlookup (st_windows pre) i of None \<Rightarrow> None
        | Some preFW \<Rightarrow>
            if \<not> window_live preFW then None
            else (case fmlookup (st_windows post) i of None \<Rightarrow> None
                  | Some postFW \<Rightarrow>
                      if workspace_of preFW = workspace_of postFW then None
                      else if fw_root_node_id postFW = empty_id then None
                      else if subtreeHasOtherLive post postChildren (fw_root_node_id postFW)
                      then Some (FLOATING_MOVE_WITH_DESCENDANTS, op_id p) else None))
   | _ \<Rightarrow> None)"

definition floatingMoveCheck :: "org_state \<Rightarrow> org_state \<Rightarrow> org_op list \<Rightarrow> child_index \<Rightarrow> verdict" where
  "floatingMoveCheck post pre batch postChildren = first_error (floating_move post pre postChildren) batch"

section \<open>Affected entities\<close>

type_synonym transitions = "(entity_ref, ident \<times> ident) fmap"

text \<open>Add a transition unless the entity already has one.\<close>

definition add_transition :: "ident \<times> ident \<Rightarrow> entity_ref \<Rightarrow> transitions \<Rightarrow> transitions" where
  "add_transition tr ref m = (case fmlookup m ref of None \<Rightarrow> fmupd ref tr m | Some _ \<Rightarrow> m)"

text \<open>The live nodes and tabs of a moved window's subtree, in the order the loops visit them.\<close>

definition moved_refs :: "range_fun \<Rightarrow> org_state \<Rightarrow> ident set \<Rightarrow> entity_ref list" where
  "moved_refs it s subtree =
     map (\<lambda>(i, _). EntityNode i) (filter (\<lambda>(i, n). i \<in> subtree \<and> node_live n) (go_range it (st_nodes s))) @
     map (\<lambda>(_, t). EntityTab (tb_tab_type t) (tb_tab_id t))
       (filter (\<lambda>(_, t). tab_live t \<and> tile_of t \<in> subtree) (go_range it (st_tabs s)))"

definition track_step :: "range_fun \<Rightarrow> org_state \<Rightarrow> child_index \<Rightarrow> resolved_op \<Rightarrow> transitions \<Rightarrow> transitions" where
  "track_step it working postChildren r m =
     (let preW = ro_preW r;
          postW = (if ro_postW r = empty_id \<and> IsTombstoneOp (op_body (ro_op r)) then ro_preW r else ro_postW r);
          m' = (case fmlookup m (ro_ref r) of
                  Some (pre0, _) \<Rightarrow> fmupd (ro_ref r) (pre0, postW) m
                | None \<Rightarrow> fmupd (ro_ref r) (preW, postW) m)
      in case op_body (ro_op r) of
           SetFloatingWindowRegister i (WindowWorkspaceId _) \<Rightarrow>
             if preW = postW then m'
             else (case fmlookup (st_windows working) i of None \<Rightarrow> m'
                   | Some fw \<Rightarrow>
                       if fw_root_node_id fw = empty_id then m'
                       else fold (add_transition (preW, postW))
                              (moved_refs it working (collectSubtree postChildren (fw_root_node_id fw))) m')
         | _ \<Rightarrow> m')"

section \<open>The pipeline\<close>

text \<open>
  The outcome: a lookup that failed, a rejection with the offending id, or acceptance with the
  affected entities and the working copy.
\<close>

datatype 'e validation = VErr "'e store_error" | VReject rejection ident | VAccept transitions org_state

text \<open>The checks before the permission pass, on the state and the working copy.\<close>

definition state_checks :: "range_fun \<Rightarrow> org_state \<Rightarrow> org_op list \<Rightarrow> bool \<Rightarrow> org_state \<Rightarrow> verdict" where
  "state_checks it pre batch internal working =
     (let preRoots = registeredRoots it pre; postRoots = registeredRoots it working;
          postChildren = BuildAllChildrenIndex it working in
      case first_error (\<lambda>p. if preApplyTombstoneCheck pre p \<noteq> empty_id
                             then Some (TOMBSTONED_TARGET, op_id p) else None) batch of
        Some e \<Rightarrow> Some e
      | None \<Rightarrow> (case validateTabIDCrossTabTypes pre batch of
        Some e \<Rightarrow> Some e
      | None \<Rightarrow> (case first_error (validateSetOnce pre internal) batch of
        Some e \<Rightarrow> Some e
      | None \<Rightarrow>
        if tabPlacementCheck it working batch \<noteq> empty_id
        then Some (TAB_PLACEMENT_INVALID, tabPlacementCheck it working batch)
        else (case first_error valueDomainCheck batch of
        Some e \<Rightarrow> Some e
      | None \<Rightarrow>
        if completenessCheck it working postRoots \<noteq> empty_id
        then Some (INCOMPLETE_RECORD, completenessCheck it working postRoots)
        else (case rootChecks working batch internal preRoots postRoots postChildren of
        Some e \<Rightarrow> Some e
      | None \<Rightarrow> floatingMoveCheck working pre batch postChildren)))))"

definition permission_checks :: "('w, 'e) auth_checker \<Rightarrow> ident \<Rightarrow> ident \<Rightarrow> org_op list \<Rightarrow> resolved_op list \<Rightarrow>
    ('w, 'e) lookup" where
  "permission_checks chk orgID u batch resolved =
     and_then (auth_pass chk orgID u resolved) (validateWorkerRefs chk orgID u batch)"

definition ValidateBatch :: "range_fun \<Rightarrow> org_state \<Rightarrow> org_op list \<Rightarrow> bool \<Rightarrow> ident \<Rightarrow> ('w, 'e) auth_checker \<Rightarrow> 'w \<Rightarrow>
    'e validation \<times> 'w" where
  "ValidateBatch it pre batch internal principalID auth w =
     (let working = apply_all batch pre in
      case state_checks it pre batch internal working of
        Some (reason, i) \<Rightarrow> (VReject reason i, w)
      | None \<Rightarrow>
          let resolved = resolve_batch pre working (registeredRoots it pre) (registeredRoots it working) batch;
              accept = VAccept (fold (track_step it working (BuildAllChildrenIndex it working)) resolved fmempty) working
          in if internal then (accept, w)
             else (case permission_checks (memoAuthChecker auth) (st_org_id pre) principalID batch resolved (new_memo w) of
                     (Inl e, mw) \<Rightarrow> (VErr e, mw_world mw)
                   | (Inr (Some (reason, i)), mw) \<Rightarrow> (VReject reason i, mw_world mw)
                   | (Inr None, mw) \<Rightarrow> (accept, mw_world mw)))"

section \<open>Reading off an acceptance\<close>

text \<open>The conditions that an accepted batch satisfies, one per check.\<close>

lemma ValidateBatch_accept:
  assumes "ValidateBatch it pre batch internal u auth w = (VAccept aff post, w')"
  shows "post = apply_all batch pre" and "state_checks it pre batch internal post = None"
    and "\<not> internal \<Longrightarrow> \<exists>mw. permission_checks (memoAuthChecker auth) (st_org_id pre) u batch
      (resolve_batch pre post (registeredRoots it pre) (registeredRoots it post) batch) (new_memo w) = (Inr None, mw)"
  using assms by (auto simp: ValidateBatch_def Let_def split: option.splits if_splits prod.splits sum.splits)

lemma state_checks_None:
  assumes "state_checks it pre batch internal post = None"
  shows "\<forall>p \<in> set batch. preApplyTombstoneCheck pre p = empty_id"
    and "validateTabIDCrossTabTypes pre batch = None"
    and "\<forall>p \<in> set batch. validateSetOnce pre internal p = None"
    and "tabPlacementCheck it post batch = empty_id"
    and "\<forall>p \<in> set batch. domain_ok (op_body p)"
    and "completenessCheck it post (registeredRoots it post) = empty_id"
    and "rootChecks post batch internal (registeredRoots it pre) (registeredRoots it post) (BuildAllChildrenIndex it post) = None"
    and "floatingMoveCheck post pre batch (BuildAllChildrenIndex it post) = None"
  using assms
  by (auto simp: state_checks_def Let_def first_error_None valueDomainCheck_def split: option.splits if_splits)

lemma resolve_batch_eq:
  "resolve_batch pre post preRoots postRoots batch =
    map (\<lambda>p. \<lparr>ro_op = p, ro_ref = op_target p, ro_preW = workspaceForEntity pre (op_target p) preRoots,
      ro_postW = (if IsTombstoneOp (op_body p) then empty_id else workspaceForEntity post (op_target p) postRoots)\<rparr>) batch"
proof -
  let ?f = "\<lambda>ref. workspaceForEntity pre ref preRoots" and ?g = "\<lambda>ref. workspaceForEntity post ref postRoots"
  let ?r = "\<lambda>p. \<lparr>ro_op = p, ro_ref = op_target p, ro_preW = ?f (op_target p),
      ro_postW = (if IsTombstoneOp (op_body p) then empty_id else ?g (op_target p))\<rparr>"
  have one: "\<exists>c1' c2'. resolve_step pre post preRoots postRoots p (acc, c1, c2) = (acc @ [?r p], c1', c2') \<and>
      fmpred (\<lambda>ref v. v = ?f ref) c1' \<and> fmpred (\<lambda>ref v. v = ?g ref) c2'"
    if "fmpred (\<lambda>ref v. v = ?f ref) c1" "fmpred (\<lambda>ref v. v = ?g ref) c2" for p acc c1 c2
    using that
    by (cases "op_target p = EntityUnknown")
       (auto simp: resolve_step_def cached_def Let_def fmpred_iff split: option.splits)
  have "\<exists>c1' c2'. fold (resolve_step pre post preRoots postRoots) ps (acc, c1, c2) = (acc @ map ?r ps, c1', c2')"
    if "fmpred (\<lambda>ref v. v = ?f ref) c1" "fmpred (\<lambda>ref v. v = ?g ref) c2" for ps acc c1 c2
    using that
  proof (induction ps arbitrary: acc c1 c2)
    case (Cons p ps)
    obtain c1' c2' where st: "resolve_step pre post preRoots postRoots p (acc, c1, c2) = (acc @ [?r p], c1', c2')"
      "fmpred (\<lambda>ref v. v = ?f ref) c1'" "fmpred (\<lambda>ref v. v = ?g ref) c2'"
      using one [OF Cons.prems] by blast
    show ?case using Cons.IH [OF st(2,3), of "acc @ [?r p]"] by (simp add: st(1))
  qed simp
  from this [of fmempty fmempty batch "[]"] show ?thesis by (auto simp: resolve_batch_def)
qed

lemma tombstoned_windows_iff: "i \<in> tombstoned_windows batch \<longleftrightarrow> (\<exists>p \<in> set batch. op_body p = TombstoneFloatingWindow i)"
proof -
  have "i \<in> fold (\<lambda>p seen. case op_body p of TombstoneFloatingWindow i \<Rightarrow> insert i seen | _ \<Rightarrow> seen) batch A \<longleftrightarrow>
      i \<in> A \<or> (\<exists>p \<in> set batch. op_body p = TombstoneFloatingWindow i)" for A
    by (induction batch arbitrary: A) (auto split: op_body.splits)
  then show ?thesis by (simp add: tombstoned_windows_def)
qed

section \<open>Permissions\<close>

text \<open>The workspace of the target of an operation before and after the batch.\<close>

definition pre_workspace :: "range_fun \<Rightarrow> org_state \<Rightarrow> org_op \<Rightarrow> ident" where
  "pre_workspace it s p = workspaceForEntity s (op_target p) (registeredRoots it s)"

text \<open>C3: an accepted client batch is authorized. For every operation, the principal owns, in the
  organization of the state and within the workspace bound of its credential, the workspace
  the target is in before the batch and the one it is in after it (a delete needs the former);
  at least one of the two is known; and every worker that a tab is bound to is registered to
  the principal, active, and within the credential's worker bound.\<close>

theorem accepted_batch_authorized:
  assumes "ValidateBatch it pre batch False u (scopedAuthChecker (NewCRDTAuthChecker st) bound scope) w =
      (VAccept aff post, w')"
    and "p \<in> set batch"
  shows "(if IsTombstoneOp (op_body p)
      then pre_workspace it pre p \<noteq> empty_id
      else pre_workspace it pre p \<noteq> empty_id \<or> pre_workspace it post p \<noteq> empty_id) \<and>
    (pre_workspace it pre p \<noteq> empty_id \<longrightarrow> owns_workspace st (st_org_id pre) (pre_workspace it pre p) u \<and>
       (bound \<noteq> empty_id \<longrightarrow> pre_workspace it pre p = bound)) \<and>
    (\<not> IsTombstoneOp (op_body p) \<and> pre_workspace it post p \<noteq> empty_id \<longrightarrow>
       owns_workspace st (st_org_id pre) (pre_workspace it post p) u \<and>
       (bound \<noteq> empty_id \<longrightarrow> pre_workspace it post p = bound)) \<and>
    (\<forall>k. worker_ref (op_body p) = Some k \<and> k \<noteq> empty_id \<longrightarrow>
       may_use_worker st (st_org_id pre) k u \<and> (\<forall>allowed. scope = Some allowed \<longrightarrow> allowed k))"
proof -
  let ?chk = "submit_checker st bound scope"
  let ?rs = "resolve_batch pre post (registeredRoots it pre) (registeredRoots it post) batch"
  let ?r = "\<lparr>ro_op = p, ro_ref = op_target p, ro_preW = pre_workspace it pre p,
    ro_postW = (if IsTombstoneOp (op_body p) then empty_id else pre_workspace it post p)\<rparr>"
  obtain mw where "permission_checks ?chk (st_org_id pre) u batch ?rs (new_memo w) = (Inr None, mw)"
    using ValidateBatch_accept(3) [OF assms(1)] by (auto simp: submit_checker_def)
  then obtain mw1 where one: "auth_pass ?chk (st_org_id pre) u ?rs (new_memo w) = (Inr None, mw1)"
    and two: "validateWorkerRefs ?chk (st_org_id pre) u batch mw1 = (Inr None, mw)"
    by (auto simp: permission_checks_def and_then_def split: prod.splits sum.splits option.splits)
  have r: "?r \<in> set ?rs" using assms(2) by (auto simp: resolve_batch_eq pre_workspace_def)
  note granted = submit_check.auth_pass_granted [OF scoped_checker.new_memo_inv [OF TrueI] one]
  have auth: "op_authorized (\<lambda>orgID ws u. owns_workspace st orgID ws u \<and> \<not> outOfWorkspaceScope bound ws)
      (st_org_id pre) u ?r"
    using granted r by blast
  have work: "\<forall>k. worker_ref (op_body p) = Some k \<and> k \<noteq> empty_id \<longrightarrow>
       may_use_worker st (st_org_id pre) k u \<and> (\<forall>allowed. scope = Some allowed \<longrightarrow> allowed k)"
    by (intro allI impI, elim conjE)
       (rule bspec [OF submit_check.worker_refs_granted [OF granted [THEN conjunct1] two, THEN conjunct2] assms(2),
          THEN spec, THEN mp, THEN mp])
  have scope: "\<not> outOfWorkspaceScope bound ws \<longleftrightarrow> (bound \<noteq> empty_id \<longrightarrow> ws = bound)" for ws
    by (auto simp: outOfWorkspaceScope_def)
  show ?thesis using auth unfolding op_authorized_def scope
    by (intro conjI work) (auto split: if_splits)
qed

end
