(* ===== verification/Broadcast.thy ===== *)
theory Broadcast
  imports Validate
begin

unbundle bit_operations_syntax

text \<open>
  Subscribers and the fan-out of events (backend/internal/hub/crdt/manager\_broadcast.go,
  subscriber\_controller.go and the subscriber types of manager.go). A subscriber is named by its
  pointer; the closure \<open>Send\<close> is the name of the stream it writes to, and a broadcast returns
  the deliveries it makes in their order (the code drops the error that \<open>Send\<close> returns).
\<close>

section \<open>Filters and subscribers\<close>

type_synonym bool_map = "(ident, bool) fmap"

abbreviation member :: "bool_map \<Rightarrow> ident \<Rightarrow> bool" where
  "member m k \<equiv> get_or False id (fmlookup m k)"

record subscriber_filter =
  WorkspaceIDs :: "bool_map option"

definition IsAllowed :: "subscriber_filter \<Rightarrow> ident \<Rightarrow> bool" where
  "IsAllowed f ws = (if ws = empty_id then False
     else case WorkspaceIDs f of None \<Rightarrow> True | Some m \<Rightarrow> member m ws)"

record subscriber =
  sub_user :: ident
  sub_client :: ident
  sub_requested :: "bool_map option"
  sub_scope :: ident
  sub_filter :: subscriber_filter
  sub_send :: ident

definition subscriberMaySeeWorkspace :: "subscriber \<Rightarrow> ident \<Rightarrow> bool" where
  "subscriberMaySeeWorkspace sub ws =
     (if sub_scope sub \<noteq> empty_id \<and> sub_scope sub \<noteq> ws then False
      else case sub_requested sub of None \<Rightarrow> True | Some m \<Rightarrow> member m ws)"

section \<open>Events\<close>

text \<open>\<open>EvNil\<close> is a wrapper around no event; the code builds one for a reference that has no
  removal event.\<close>

datatype watch_event =
    EvBatch op_batch
  | EvMaterializedTab "hlc option" tab_record
  | EvMaterializedWindow "hlc option" window_record
  | EvMaterializedNode "hlc option" node_record
  | EvRemovedTab "hlc option" tab_type ident
  | EvRemovedWindow "hlc option" ident
  | EvRemovedNode "hlc option" ident
  | EvPresence ident ident int
  | EvCreated ident string ident
  | EvRenamed ident string
  | EvDeleted ident "ident list"
  | EvNil

type_synonym delivery = "ident \<times> watch_event"

fun buildEntityMaterializedEvent :: "org_state \<Rightarrow> entity_ref \<Rightarrow> hlc option \<Rightarrow> watch_event option" where
  "buildEntityMaterializedEvent s (EntityTab ty i) h = map_option (EvMaterializedTab h) (fmlookup (st_tabs s) i)"
| "buildEntityMaterializedEvent s (EntityWindow i) h = map_option (EvMaterializedWindow h) (fmlookup (st_windows s) i)"
| "buildEntityMaterializedEvent s (EntityNode i) h = map_option (EvMaterializedNode h) (fmlookup (st_nodes s) i)"
| "buildEntityMaterializedEvent s _ h = None"

fun buildEntityRemovedEvent :: "entity_ref \<Rightarrow> hlc option \<Rightarrow> watch_event option" where
  "buildEntityRemovedEvent (EntityTab ty i) h = Some (EvRemovedTab h ty i)"
| "buildEntityRemovedEvent (EntityWindow i) h = Some (EvRemovedWindow h i)"
| "buildEntityRemovedEvent (EntityNode i) h = Some (EvRemovedNode h i)"
| "buildEntityRemovedEvent _ h = None"

definition lastBatchHLC :: "op_batch \<Rightarrow> hlc option" where
  "lastBatchHLC b = (if batch_ops b = [] then None else HLCClone (op_canonical_hlc (last (batch_ops b))))"

section \<open>A batch\<close>

definition transition_of :: "transitions \<Rightarrow> entity_ref \<Rightarrow> ident \<times> ident" where
  "transition_of aff ref = get_or (empty_id, empty_id) id (fmlookup aff ref)"

definition add_key :: "ident \<Rightarrow> ident list \<Rightarrow> ident list" where
  "add_key ws keys = (if ws = empty_id then keys else if ws \<in> set keys then keys else keys @ [ws])"

definition batchWorkspaceKeys :: "op_batch \<Rightarrow> transitions \<Rightarrow> ident list" where
  "batchWorkspaceKeys b aff = fold (\<lambda>p keys. case transition_of aff (op_target p) of
     (pre, post) \<Rightarrow> add_key post (add_key pre keys)) (batch_ops b) []"

definition subscriberWorkspaceMask :: "subscriber \<Rightarrow> ident list \<Rightarrow> 64 word" where
  "subscriberWorkspaceMask sub keys = fold (\<lambda>(i, ws) mask.
     if IsAllowed (sub_filter sub) ws then mask OR push_bit i 1 else mask) (enumerate 0 keys) 0"

record subscriber_visibility =
  preVisible :: bool
  postVisible :: bool

definition visible :: "subscriber_filter \<Rightarrow> transitions \<Rightarrow> entity_ref \<Rightarrow> subscriber_visibility" where
  "visible f aff ref = (case transition_of aff ref of (pre, post) \<Rightarrow>
     \<lparr>preVisible = IsAllowed f pre, postVisible = IsAllowed f post\<rparr>)"

definition keep_op :: "(entity_ref \<Rightarrow> subscriber_visibility) \<Rightarrow> org_op \<Rightarrow> bool" where
  "keep_op vis p = (let ref = op_target p; v = vis ref in
     case ref of EntityWorkspaceRoot _ \<Rightarrow> preVisible v \<or> postVisible v | _ \<Rightarrow> preVisible v \<and> postVisible v)"

definition batchVisibleOpsEvent :: "op_batch \<Rightarrow> (entity_ref \<Rightarrow> subscriber_visibility) \<Rightarrow> watch_event option" where
  "batchVisibleOpsEvent b vis = (let ops = filter (keep_op vis) (batch_ops b) in
     if ops = [] then None else Some (EvBatch \<lparr>batch_id = batch_id b, batch_ops = ops\<rparr>))"

text \<open>The three caches of a broadcast, each holding the absence of an event too, and the deliveries.\<close>

record broadcast =
  bc_batch :: "(64 word, watch_event option) fmap option"
  bc_materialized :: "(entity_ref, watch_event option) fmap"
  bc_removed :: "(entity_ref, watch_event option) fmap"
  bc_out :: "delivery list"

definition send :: "subscriber \<Rightarrow> watch_event option \<Rightarrow> broadcast \<Rightarrow> broadcast" where
  "send sub e bc = (case e of None \<Rightarrow> bc | Some ev \<Rightarrow> bc\<lparr>bc_out := bc_out bc @ [(sub_send sub, ev)]\<rparr>)"

definition materialized_event :: "org_state \<Rightarrow> hlc option \<Rightarrow> entity_ref \<Rightarrow> broadcast \<Rightarrow> watch_event option \<times> broadcast" where
  "materialized_event s h ref bc = (case fmlookup (bc_materialized bc) ref of
     Some e \<Rightarrow> (e, bc)
   | None \<Rightarrow> let e = buildEntityMaterializedEvent s ref h in
       (e, bc\<lparr>bc_materialized := fmupd ref e (bc_materialized bc)\<rparr>))"

definition removed_event :: "transitions \<Rightarrow> hlc option \<Rightarrow> entity_ref \<Rightarrow> broadcast \<Rightarrow> watch_event option \<times> broadcast" where
  "removed_event aff h ref bc = (case fmlookup (bc_removed bc) ref of
     Some e \<Rightarrow> (e, bc)
   | None \<Rightarrow> let e = (if fst (transition_of aff ref) \<noteq> empty_id
       then Some (get_or EvNil id (buildEntityRemovedEvent ref h)) else None) in
       (e, bc\<lparr>bc_removed := fmupd ref e (bc_removed bc)\<rparr>))"

definition send_batch_event :: "subscriber \<Rightarrow> op_batch \<Rightarrow> transitions \<Rightarrow> ident list \<Rightarrow> broadcast \<Rightarrow> broadcast" where
  "send_batch_event sub b aff keys bc = (let vis = visible (sub_filter sub) aff in
     case bc_batch bc of
       None \<Rightarrow> send sub (batchVisibleOpsEvent b vis) bc
     | Some cache \<Rightarrow>
         let mask = subscriberWorkspaceMask sub keys in
         case fmlookup cache mask of
           Some e \<Rightarrow> send sub e bc
         | None \<Rightarrow> let e = batchVisibleOpsEvent b vis in
             send sub e (bc\<lparr>bc_batch := Some (fmupd mask e cache)\<rparr>))"

definition send_transition :: "subscriber \<Rightarrow> org_state \<Rightarrow> transitions \<Rightarrow> hlc option \<Rightarrow> entity_ref \<Rightarrow> broadcast \<Rightarrow> broadcast" where
  "send_transition sub s aff h ref bc = (let v = visible (sub_filter sub) aff ref in
     if preVisible v = postVisible v then bc
     else if \<not> preVisible v \<and> postVisible v then
       (case materialized_event s h ref bc of (e, bc') \<Rightarrow> send sub e bc')
     else if preVisible v \<and> \<not> postVisible v then
       (case removed_event aff h ref bc of (e, bc') \<Rightarrow> send sub e bc')
     else bc)"

text \<open>The order in which the loop over the affected entities visits them may differ at every
  subscriber, so it is an argument.\<close>

definition broadcastBatchToSubscriber :: "(subscriber \<Rightarrow> entity_ref fset \<Rightarrow> entity_ref list) \<Rightarrow> org_state \<Rightarrow> op_batch \<Rightarrow>
    transitions \<Rightarrow> hlc option \<Rightarrow> ident list \<Rightarrow> subscriber \<Rightarrow> broadcast \<Rightarrow> broadcast" where
  "broadcastBatchToSubscriber itr s b aff h keys sub bc =
     fold (send_transition sub s aff h) (itr sub (fmdom aff)) (send_batch_event sub b aff keys bc)"

definition broadcastBatch :: "(subscriber \<Rightarrow> entity_ref fset \<Rightarrow> entity_ref list) \<Rightarrow> subscriber list \<Rightarrow> org_state \<Rightarrow>
    op_batch \<Rightarrow> transitions \<Rightarrow> delivery list" where
  "broadcastBatch itr subs s b aff =
     (if subs = [] then []
      else let h = lastBatchHLC b; keys = batchWorkspaceKeys b aff in
           bc_out (fold (broadcastBatchToSubscriber itr s b aff h keys) subs
             \<lparr>bc_batch = (if length keys \<le> 64 then Some fmempty else None), bc_materialized = fmempty,
              bc_removed = fmempty, bc_out = []\<rparr>))"

section \<open>Other events\<close>

definition broadcastTo :: "subscriber list \<Rightarrow> ident \<Rightarrow> watch_event \<Rightarrow> delivery list" where
  "broadcastTo subs ws e = map (\<lambda>sub. (sub_send sub, e)) (filter (\<lambda>sub. IsAllowed (sub_filter sub) ws) subs)"

definition broadcastPresence :: "subscriber list \<Rightarrow> int \<Rightarrow> ident \<Rightarrow> ident \<Rightarrow> delivery list" where
  "broadcastPresence subs now ws client = broadcastTo subs ws (EvPresence ws client now)"

definition broadcastWorkspaceLifecycle :: "subscriber list \<Rightarrow> ident \<Rightarrow> watch_event \<Rightarrow> delivery list" where
  "broadcastWorkspaceLifecycle subs ws e = broadcastTo subs ws e"

definition broadcastWorkspaceCreatedEvent :: "subscriber list \<Rightarrow> ident \<Rightarrow> string \<Rightarrow> ident \<Rightarrow> delivery list" where
  "broadcastWorkspaceCreatedEvent subs ws title rootID = broadcastWorkspaceLifecycle subs ws (EvCreated ws title rootID)"

definition BroadcastWorkspaceRenamed :: "subscriber list \<Rightarrow> ident \<Rightarrow> string \<Rightarrow> delivery list" where
  "BroadcastWorkspaceRenamed subs ws title = broadcastWorkspaceLifecycle subs ws (EvRenamed ws title)"

definition BroadcastWorkspaceDeleted :: "subscriber list \<Rightarrow> ident \<Rightarrow> ident list \<Rightarrow> delivery list" where
  "BroadcastWorkspaceDeleted subs ws workers = broadcastWorkspaceLifecycle subs ws (EvDeleted ws workers)"

section \<open>The set of subscribers\<close>

text \<open>Each registered pointer with the subscriber it points to and the published clone, and the
  published list.\<close>

record subscriber_controller =
  ctl_subs :: "(ident, subscriber \<times> subscriber) fmap"
  ctl_snapshot :: "subscriber list option"

definition newSubscriberController :: subscriber_controller where
  "newSubscriberController = \<lparr>ctl_subs = fmempty, ctl_snapshot = None\<rparr>"

definition cloneSubscriber :: "subscriber \<Rightarrow> subscriber" where
  "cloneSubscriber s = s"

definition subscriberFilterEqual :: "range_fun \<Rightarrow> subscriber_filter \<Rightarrow> subscriber_filter \<Rightarrow> bool" where
  "subscriberFilterEqual it a b =
     (case (WorkspaceIDs a, WorkspaceIDs b) of
        (None, None) \<Rightarrow> True
      | (Some m, Some n) \<Rightarrow>
          if fcard (fmdom m) \<noteq> fcard (fmdom n) then False
          else list_all (\<lambda>(ws, allowed). member n ws = allowed) (go_range it m)
      | _ \<Rightarrow> False)"

definition refreshSnapshotLocked :: "range_fun \<Rightarrow> subscriber_controller \<Rightarrow> subscriber_controller" where
  "refreshSnapshotLocked it c = c\<lparr>ctl_snapshot := Some (map (snd o snd) (go_range it (ctl_subs c)))\<rparr>"

definition ctl_Add :: "range_fun \<Rightarrow> ident \<Rightarrow> subscriber \<Rightarrow> subscriber_controller \<Rightarrow> subscriber_filter \<times> subscriber_controller" where
  "ctl_Add it p s c = (let published = cloneSubscriber s in
     (sub_filter published, refreshSnapshotLocked it (c\<lparr>ctl_subs := fmupd p (s, published) (ctl_subs c)\<rparr>)))"

definition ctl_Remove :: "range_fun \<Rightarrow> ident \<Rightarrow> subscriber_controller \<Rightarrow> subscriber_controller" where
  "ctl_Remove it p c = (if fmlookup (ctl_subs c) p \<noteq> None
     then refreshSnapshotLocked it (c\<lparr>ctl_subs := fmdrop p (ctl_subs c)\<rparr>) else c)"

definition Snapshot :: "subscriber_controller \<Rightarrow> subscriber list" where
  "Snapshot c = get_or [] id (ctl_snapshot c)"

definition ctl_Len :: "subscriber_controller \<Rightarrow> nat" where
  "ctl_Len c = fcard (fmdom (ctl_subs c))"

definition ForEachLocked :: "range_fun \<Rightarrow> (ident \<Rightarrow> subscriber \<Rightarrow> 'a \<Rightarrow> 'a) \<Rightarrow> subscriber_controller \<Rightarrow> 'a \<Rightarrow> 'a" where
  "ForEachLocked it f c a = fold (\<lambda>(p, s, _). f p s) (go_range it (ctl_subs c)) a"

definition republish :: "range_fun \<Rightarrow> subscriber \<Rightarrow> subscriber \<Rightarrow> subscriber" where
  "republish it s published = (if \<not> subscriberFilterEqual it (sub_filter s) (sub_filter published)
     then cloneSubscriber s else published)"

definition MutateEach :: "range_fun \<Rightarrow> (ident \<Rightarrow> subscriber \<Rightarrow> subscriber) \<Rightarrow> subscriber_controller \<Rightarrow> subscriber_controller" where
  "MutateEach it f c = refreshSnapshotLocked it (c\<lparr>ctl_subs :=
     fold (\<lambda>(p, s, published) m. fmupd p (f p s, republish it (f p s) published) m) (go_range it (ctl_subs c)) (ctl_subs c)\<rparr>)"

section \<open>Following the access rules\<close>

definition expand_candidates :: "range_fun \<Rightarrow> ident \<Rightarrow> subscriber_controller \<Rightarrow> (ident \<times> ident) list" where
  "expand_candidates it ws c = ForEachLocked it (\<lambda>p sub out.
     if \<not> subscriberMaySeeWorkspace sub ws then out
     else if IsAllowed (sub_filter sub) ws then out
     else out @ [(p, sub_user sub)]) c []"

definition admit :: "ident \<Rightarrow> subscriber \<Rightarrow> subscriber" where
  "admit ws sub = (if IsAllowed (sub_filter sub) ws then sub
     else sub\<lparr>sub_filter := \<lparr>WorkspaceIDs = Some (fmupd ws True (get_or fmempty id (WorkspaceIDs (sub_filter sub))))\<rparr>\<rparr>)"

text \<open>The permission checker of the manager, with its batch capability when it has one.\<close>

type_synonym ('w, 'e) manager_auth =
  "(('w, 'e) auth_checker \<times> (ident \<Rightarrow> ident \<Rightarrow> ident list \<Rightarrow> 'w \<Rightarrow> ('e store_error + ident set) \<times> 'w) option) option"

definition distinct_users :: "(ident \<times> ident) list \<Rightarrow> ident list" where
  "distinct_users cs = fold (\<lambda>(_, u) out. if u \<in> set out then out else out @ [u]) cs []"

definition allowed_candidates :: "('w, 'e) manager_auth \<Rightarrow> ident \<Rightarrow> ident \<Rightarrow> (ident \<times> ident) list \<Rightarrow> 'w \<Rightarrow>
    ('e store_error + ident list) \<times> 'w" where
  "allowed_candidates auth orgID ws cs w = (case auth of
     None \<Rightarrow> (Inr (map fst cs), w)
   | Some (chk, many) \<Rightarrow> (case accessWorkspaceForUsers chk many orgID ws (distinct_users cs) w of
       (Inl e, w') \<Rightarrow> (Inl e, w')
     | (Inr readable, w') \<Rightarrow> (Inr (map fst (filter (\<lambda>(_, u). u \<in> readable) cs)), w')))"

definition ExpandSubscribersForWorkspace :: "range_fun \<Rightarrow> ('w, 'e) manager_auth \<Rightarrow> ident \<Rightarrow> ident \<Rightarrow> subscriber_controller \<Rightarrow> 'w \<Rightarrow>
    'e store_error option \<times> subscriber_controller \<times> 'w" where
  "ExpandSubscribersForWorkspace it auth orgID ws c w =
     (if ws = empty_id then (None, c, w)
      else case allowed_candidates auth orgID ws (expand_candidates it ws c) w of
        (Inl e, w') \<Rightarrow> (Some e, c, w')
      | (Inr allowed, w') \<Rightarrow>
          if allowed = [] then (None, c, w')
          else (None, MutateEach it (\<lambda>p sub. if p \<notin> set allowed then sub else admit ws sub) c, w'))"

definition evict :: "ident \<Rightarrow> subscriber \<Rightarrow> subscriber" where
  "evict ws sub = (case WorkspaceIDs (sub_filter sub) of None \<Rightarrow> sub
     | Some m \<Rightarrow> sub\<lparr>sub_filter := \<lparr>WorkspaceIDs = Some (fmdrop ws m)\<rparr>\<rparr>)"

definition contractSubscribersForWorkspace :: "range_fun \<Rightarrow> ident \<Rightarrow> subscriber_controller \<Rightarrow> subscriber_controller" where
  "contractSubscribersForWorkspace it ws c = (if ws = empty_id then c else MutateEach it (\<lambda>_. evict ws) c)"

definition BroadcastWorkspaceCreated :: "range_fun \<Rightarrow> ('w, 'e) manager_auth \<Rightarrow> ident \<Rightarrow> ident \<Rightarrow> string \<Rightarrow> ident \<Rightarrow>
    subscriber_controller \<Rightarrow> 'w \<Rightarrow> delivery list \<times> subscriber_controller \<times> 'w" where
  "BroadcastWorkspaceCreated it auth orgID ws title rootID c w =
     (case ExpandSubscribersForWorkspace it auth orgID ws c w of (_, c', w') \<Rightarrow>
        (broadcastWorkspaceCreatedEvent (Snapshot c') ws title rootID, c', w'))"

end
