(* ===== verification/BroadcastLaws.thy ===== *)
theory BroadcastLaws
  imports Broadcast
begin

unbundle bit_operations_syntax

text \<open>
  What the fan-out delivers. The caches of a broadcast are invisible: every subscriber receives
  exactly the events of a direct computation from its own filter, so nothing outside the filter
  reaches it. The published list of subscribers agrees with the subscribers it was cloned from,
  and filters stay within the bounds a subscription was opened with.
\<close>

section \<open>The mask of a subscriber\<close>

lemma visible_simps [simp]:
  "preVisible (visible f aff ref) = IsAllowed f (fst (transition_of aff ref))"
  "postVisible (visible f aff ref) = IsAllowed f (snd (transition_of aff ref))"
  by (simp_all add: visible_def case_prod_beta)

lemma IsAllowed_empty [simp]: "\<not> IsAllowed f empty_id"
  by (simp add: IsAllowed_def)

lemma mask_fold:
  "length keys + n \<le> 64 \<Longrightarrow> bit (fold (\<lambda>(i, ws) mask. if P ws then mask OR push_bit i 1 else mask) (enumerate n keys) (m :: 64 word)) k \<longleftrightarrow>
     bit m k \<or> (n \<le> k \<and> k < n + length keys \<and> P (keys ! (k - n)))"
proof (induction keys arbitrary: n m)
  case (Cons w keys)
  have "bit (push_bit n (1 :: 64 word)) k \<longleftrightarrow> k = n"
    using Cons.prems by (auto simp: bit_simps)
  with Cons show ?case by (cases "k = n") (auto simp: bit_simps nth_Cons' Suc_le_eq)
qed auto

lemma subscriberWorkspaceMask_bit:
  assumes "length keys \<le> 64"
  shows "bit (subscriberWorkspaceMask sub keys) i \<longleftrightarrow> i < length keys \<and> IsAllowed (sub_filter sub) (keys ! i)"
  using assms mask_fold [of keys 0 "\<lambda>ws. IsAllowed (sub_filter sub) ws" 0 i] by (simp add: subscriberWorkspaceMask_def)

lemma same_mask:
  assumes "length keys \<le> 64" and "subscriberWorkspaceMask sub keys = subscriberWorkspaceMask sub' keys" and "ws \<in> set keys"
  shows "IsAllowed (sub_filter sub) ws = IsAllowed (sub_filter sub') ws"
proof -
  obtain i where "i < length keys" "keys ! i = ws" using assms(3) by (auto simp: in_set_conv_nth)
  then show ?thesis
    using subscriberWorkspaceMask_bit [OF assms(1), of sub i] subscriberWorkspaceMask_bit [OF assms(1), of sub' i] assms(2) by simp
qed

lemma set_add_key: "set (add_key ws keys) = set keys \<union> ({ws} - {empty_id})"
  by (auto simp: add_key_def)

lemma batchWorkspaceKeys_set:
  "set (batchWorkspaceKeys b aff) =
     {ws. ws \<noteq> empty_id \<and> (\<exists>p \<in> set (batch_ops b). ws = fst (transition_of aff (op_target p)) \<or> ws = snd (transition_of aff (op_target p)))}"
proof -
  have "set (fold (\<lambda>p keys. case transition_of aff (op_target p) of (pre, post) \<Rightarrow> add_key post (add_key pre keys)) ops ks) =
     set ks \<union> {ws. ws \<noteq> empty_id \<and> (\<exists>p \<in> set ops. ws = fst (transition_of aff (op_target p)) \<or> ws = snd (transition_of aff (op_target p)))}"
    for ops ks
    by (induction ops arbitrary: ks) (auto simp: set_add_key case_prod_beta)
  from this [of "batch_ops b" "[]"] show ?thesis by (simp add: batchWorkspaceKeys_def)
qed

text \<open>Equal masks, equal filtered batches.\<close>

lemma same_mask_event:
  assumes len: "length (batchWorkspaceKeys b aff) \<le> 64"
    and mask: "subscriberWorkspaceMask sub (batchWorkspaceKeys b aff) = subscriberWorkspaceMask sub' (batchWorkspaceKeys b aff)"
  shows "batchVisibleOpsEvent b (visible (sub_filter sub) aff) = batchVisibleOpsEvent b (visible (sub_filter sub') aff)"
proof -
  have one: "IsAllowed (sub_filter sub) ws = IsAllowed (sub_filter sub') ws"
    if "p \<in> set (batch_ops b)" "ws = fst (transition_of aff (op_target p)) \<or> ws = snd (transition_of aff (op_target p))" for p ws
  proof (cases "ws = empty_id")
    case False
    then have "ws \<in> set (batchWorkspaceKeys b aff)" using that unfolding batchWorkspaceKeys_set by blast
    then show ?thesis by (rule same_mask [OF len mask])
  qed (simp add: IsAllowed_def)
  have "keep_op (visible (sub_filter sub) aff) p = keep_op (visible (sub_filter sub') aff) p" if "p \<in> set (batch_ops b)" for p
    using one [OF that, of "fst (transition_of aff (op_target p))"] one [OF that, of "snd (transition_of aff (op_target p))"]
    by (cases "op_target p") (simp_all add: keep_op_def)
  then have "filter (keep_op (visible (sub_filter sub) aff)) (batch_ops b) = filter (keep_op (visible (sub_filter sub') aff)) (batch_ops b)"
    by (rule filter_cong [OF refl])
  then show ?thesis by (simp add: batchVisibleOpsEvent_def)
qed

section \<open>The caches are invisible\<close>

definition transition_event :: "org_state \<Rightarrow> transitions \<Rightarrow> hlc option \<Rightarrow> subscriber_filter \<Rightarrow> entity_ref \<Rightarrow> watch_event option" where
  "transition_event s aff h f ref = (let v = visible f aff ref in
     if \<not> preVisible v \<and> postVisible v then buildEntityMaterializedEvent s ref h
     else if preVisible v \<and> \<not> postVisible v then Some (get_or EvNil id (buildEntityRemovedEvent ref h))
     else None)"

definition opt_list :: "'a option \<Rightarrow> 'a list" where
  "opt_list x = (case x of None \<Rightarrow> [] | Some y \<Rightarrow> [y])"

text \<open>The events of one subscriber, computed from its filter alone.\<close>

definition subscriber_events :: "org_state \<Rightarrow> op_batch \<Rightarrow> transitions \<Rightarrow> entity_ref list \<Rightarrow> subscriber_filter \<Rightarrow> watch_event list" where
  "subscriber_events s b aff refs f = opt_list (batchVisibleOpsEvent b (visible f aff)) @
     concat (map (\<lambda>ref. opt_list (transition_event s aff (lastBatchHLC b) f ref)) refs)"

definition batch_cache_ok :: "op_batch \<Rightarrow> transitions \<Rightarrow> ident list \<Rightarrow> (64 word, watch_event option) fmap option \<Rightarrow> bool" where
  "batch_cache_ok b aff keys x \<longleftrightarrow> (\<forall>cache. x = Some cache \<longrightarrow> length keys \<le> 64 \<and>
     (\<forall>sub e. fmlookup cache (subscriberWorkspaceMask sub keys) = Some e \<longrightarrow> e = batchVisibleOpsEvent b (visible (sub_filter sub) aff)))"

definition memo_of :: "('k \<Rightarrow> 'v) \<Rightarrow> ('k, 'v) fmap \<Rightarrow> bool" where
  "memo_of f m \<longleftrightarrow> (\<forall>k v. fmlookup m k = Some v \<longrightarrow> v = f k)"

definition removal :: "transitions \<Rightarrow> hlc option \<Rightarrow> entity_ref \<Rightarrow> watch_event option" where
  "removal aff h ref = (if fst (transition_of aff ref) \<noteq> empty_id then Some (get_or EvNil id (buildEntityRemovedEvent ref h)) else None)"

definition caches_ok :: "org_state \<Rightarrow> op_batch \<Rightarrow> transitions \<Rightarrow> ident list \<Rightarrow> broadcast \<Rightarrow> bool" where
  "caches_ok s b aff keys bc \<longleftrightarrow> batch_cache_ok b aff keys (bc_batch bc) \<and>
     memo_of (\<lambda>ref. buildEntityMaterializedEvent s ref (lastBatchHLC b)) (bc_materialized bc) \<and>
     memo_of (removal aff (lastBatchHLC b)) (bc_removed bc)"

lemma memo_of_upd: "memo_of f m \<Longrightarrow> memo_of f (fmupd k (f k) m)"
  by (simp add: memo_of_def)

lemma memo_of_hit: "memo_of f m \<Longrightarrow> fmlookup m k = Some v \<Longrightarrow> v = f k"
  by (simp add: memo_of_def)

lemma materialized_event_effect:
  assumes "caches_ok s b aff keys bc"
  shows "fst (materialized_event s (lastBatchHLC b) ref bc) = buildEntityMaterializedEvent s ref (lastBatchHLC b)"
    "caches_ok s b aff keys (snd (materialized_event s (lastBatchHLC b) ref bc))"
    "bc_out (snd (materialized_event s (lastBatchHLC b) ref bc)) = bc_out bc"
proof -
  have m: "memo_of (\<lambda>ref. buildEntityMaterializedEvent s ref (lastBatchHLC b)) (bc_materialized bc)"
    using assms by (simp add: caches_ok_def)
  show "fst (materialized_event s (lastBatchHLC b) ref bc) = buildEntityMaterializedEvent s ref (lastBatchHLC b)"
    using memo_of_hit [OF m, of ref] by (auto simp: materialized_event_def Let_def split: option.splits)
  show "caches_ok s b aff keys (snd (materialized_event s (lastBatchHLC b) ref bc))"
    using assms memo_of_upd [OF m, of ref] by (auto simp: materialized_event_def caches_ok_def Let_def split: option.splits)
  show "bc_out (snd (materialized_event s (lastBatchHLC b) ref bc)) = bc_out bc"
    by (auto simp: materialized_event_def Let_def split: option.splits)
qed

lemma removed_event_effect:
  assumes "caches_ok s b aff keys bc"
  shows "fst (removed_event aff (lastBatchHLC b) ref bc) = removal aff (lastBatchHLC b) ref"
    "caches_ok s b aff keys (snd (removed_event aff (lastBatchHLC b) ref bc))"
    "bc_out (snd (removed_event aff (lastBatchHLC b) ref bc)) = bc_out bc"
proof -
  have m: "memo_of (removal aff (lastBatchHLC b)) (bc_removed bc)" using assms by (simp add: caches_ok_def)
  have e: "removed_event aff (lastBatchHLC b) ref bc = (case fmlookup (bc_removed bc) ref of Some e \<Rightarrow> (e, bc)
     | None \<Rightarrow> (removal aff (lastBatchHLC b) ref, bc\<lparr>bc_removed := fmupd ref (removal aff (lastBatchHLC b) ref) (bc_removed bc)\<rparr>))"
    by (simp add: removed_event_def removal_def Let_def split: option.splits)
  show "fst (removed_event aff (lastBatchHLC b) ref bc) = removal aff (lastBatchHLC b) ref"
    using memo_of_hit [OF m, of ref] unfolding e by (auto split: option.splits)
  show "caches_ok s b aff keys (snd (removed_event aff (lastBatchHLC b) ref bc))"
    using assms memo_of_upd [OF m, of ref] unfolding e by (auto simp: caches_ok_def split: option.splits)
  show "bc_out (snd (removed_event aff (lastBatchHLC b) ref bc)) = bc_out bc"
    unfolding e by (auto split: option.splits)
qed

lemma send_out [simp]:
  "bc_out (send sub e bc) = bc_out bc @ map (Pair (sub_send sub)) (opt_list e)"
  "caches_ok s b aff keys (send sub e bc) = caches_ok s b aff keys bc"
  by (simp_all add: send_def opt_list_def caches_ok_def split: option.splits)

lemma send_batch_event_effect:
  assumes ok: "caches_ok s b aff (batchWorkspaceKeys b aff) bc"
  shows "caches_ok s b aff (batchWorkspaceKeys b aff) (send_batch_event sub b aff (batchWorkspaceKeys b aff) bc) \<and>
    bc_out (send_batch_event sub b aff (batchWorkspaceKeys b aff) bc) =
      bc_out bc @ map (Pair (sub_send sub)) (opt_list (batchVisibleOpsEvent b (visible (sub_filter sub) aff)))"
proof (cases "bc_batch bc")
  case None
  then show ?thesis using ok by (simp add: send_batch_event_def)
next
  case (Some cache)
  let ?keys = "batchWorkspaceKeys b aff" and ?e = "batchVisibleOpsEvent b (visible (sub_filter sub) aff)"
  let ?mask = "subscriberWorkspaceMask sub ?keys"
  have hit: "e = ?e" if "fmlookup cache ?mask = Some e" for e
    using ok Some that by (auto simp: caches_ok_def batch_cache_ok_def)
  have len: "length ?keys \<le> 64" using ok Some by (auto simp: caches_ok_def batch_cache_ok_def)
  show ?thesis
  proof (cases "fmlookup cache ?mask")
    case None
    have "batch_cache_ok b aff ?keys (Some (fmupd ?mask ?e cache))"
      unfolding batch_cache_ok_def
    proof (intro allI impI conjI len)
      fix c sub' e assume c: "Some (fmupd ?mask ?e cache) = Some c" and e: "fmlookup c (subscriberWorkspaceMask sub' ?keys) = Some e"
      show "e = batchVisibleOpsEvent b (visible (sub_filter sub') aff)"
      proof (cases "subscriberWorkspaceMask sub' ?keys = ?mask")
        case True
        with c e have "e = ?e" by auto
        then show ?thesis using same_mask_event [OF len True] by simp
      next
        case False
        with c e have "fmlookup cache (subscriberWorkspaceMask sub' ?keys) = Some e" by auto
        then show ?thesis using ok Some by (auto simp: caches_ok_def batch_cache_ok_def)
      qed
    qed
    then have "caches_ok s b aff ?keys (bc\<lparr>bc_batch := Some (fmupd ?mask ?e cache)\<rparr>)" using ok by (simp add: caches_ok_def)
    with None Some show ?thesis by (simp add: send_batch_event_def Let_def)
  next
    case (Some e)
    with hit len \<open>bc_batch bc = Some cache\<close> ok show ?thesis by (simp add: send_batch_event_def Let_def)
  qed
qed

lemma send_transition_effect:
  assumes ok: "caches_ok s b aff keys bc"
  shows "caches_ok s b aff keys (send_transition sub s aff (lastBatchHLC b) ref bc) \<and>
    bc_out (send_transition sub s aff (lastBatchHLC b) ref bc) =
      bc_out bc @ map (Pair (sub_send sub)) (opt_list (transition_event s aff (lastBatchHLC b) (sub_filter sub) ref))"
proof -
  let ?v = "visible (sub_filter sub) aff ref" and ?h = "lastBatchHLC b"
  consider (same) "preVisible ?v = postVisible ?v" | (into) "\<not> preVisible ?v" "postVisible ?v"
    | (out) "preVisible ?v" "\<not> postVisible ?v" by blast
  then show ?thesis
  proof cases
    case same
    then show ?thesis using ok by (simp add: send_transition_def transition_event_def Let_def opt_list_def)
  next
    case into
    then show ?thesis using materialized_event_effect [OF ok, of ref]
      by (simp add: send_transition_def transition_event_def Let_def case_prod_beta)
  next
    case out
    then have ne: "fst (transition_of aff ref) \<noteq> empty_id" by auto
    then show ?thesis using removed_event_effect [OF ok, of ref] out
      by (simp add: send_transition_def transition_event_def Let_def case_prod_beta removal_def)
  qed
qed

lemma transitions_effect:
  assumes "caches_ok s b aff keys bc"
  shows "caches_ok s b aff keys (fold (send_transition sub s aff (lastBatchHLC b)) refs bc) \<and>
    bc_out (fold (send_transition sub s aff (lastBatchHLC b)) refs bc) = bc_out bc @
      map (Pair (sub_send sub)) (concat (map (\<lambda>ref. opt_list (transition_event s aff (lastBatchHLC b) (sub_filter sub) ref)) refs))"
  using assms
proof (induction refs arbitrary: bc)
  case (Cons ref refs)
  note one = send_transition_effect [OF Cons.prems, of sub ref]
  show ?case using Cons.IH [OF one [THEN conjunct1]] one by simp
qed simp

lemma broadcast_to_subscribers:
  assumes "caches_ok s b aff (batchWorkspaceKeys b aff) bc"
  shows "bc_out (fold (broadcastBatchToSubscriber itr s b aff (lastBatchHLC b) (batchWorkspaceKeys b aff)) subs bc) = bc_out bc @
    concat (map (\<lambda>sub. map (Pair (sub_send sub)) (subscriber_events s b aff (itr sub (fmdom aff)) (sub_filter sub))) subs)"
  using assms
proof (induction subs arbitrary: bc)
  case (Cons sub subs)
  note one = send_batch_event_effect [OF Cons.prems, of sub]
  note two = transitions_effect [OF one [THEN conjunct1], of sub "itr sub (fmdom aff)"]
  show ?case using one two Cons.IH [OF two [THEN conjunct1]]
    by (simp add: broadcastBatchToSubscriber_def subscriber_events_def)
qed simp

lemma broadcast_exact:
  "broadcastBatch itr subs s b aff =
     concat (map (\<lambda>sub. map (Pair (sub_send sub)) (subscriber_events s b aff (itr sub (fmdom aff)) (sub_filter sub))) subs)"
proof (cases "subs = []")
  case False
  let ?bc = "\<lparr>bc_batch = (if length (batchWorkspaceKeys b aff) \<le> 64 then Some fmempty else None), bc_materialized = fmempty,
              bc_removed = fmempty, bc_out = []\<rparr>"
  have "caches_ok s b aff (batchWorkspaceKeys b aff) ?bc" by (simp add: caches_ok_def batch_cache_ok_def memo_of_def)
  from broadcast_to_subscribers [OF this] False show ?thesis by (simp add: broadcastBatch_def Let_def)
qed (simp add: broadcastBatch_def)

section \<open>What a delivery reveals\<close>

text \<open>What an event about a batch tells of the organization, against a filter: an operation on an
  entity that stays visible (on a workspace root: that is visible before or after), the record of
  an entity that becomes visible, the name of one that stops being visible.\<close>

definition event_admitted :: "org_state \<Rightarrow> op_batch \<Rightarrow> transitions \<Rightarrow> subscriber_filter \<Rightarrow> watch_event \<Rightarrow> bool" where
  "event_admitted s b aff f e \<longleftrightarrow> (case e of
     EvBatch b' \<Rightarrow> batch_id b' = batch_id b \<and> batch_ops b' \<noteq> [] \<and> set (batch_ops b') \<subseteq> set (batch_ops b) \<and>
       (\<forall>p \<in> set (batch_ops b'). case transition_of aff (op_target p) of (pre, post) \<Rightarrow>
          IsAllowed f pre \<and> IsAllowed f post \<or> (\<exists>w. op_target p = EntityWorkspaceRoot w) \<and> (IsAllowed f pre \<or> IsAllowed f post))
   | EvMaterializedTab h r \<Rightarrow> \<exists>ty i. IsAllowed f (snd (transition_of aff (EntityTab ty i))) \<and> fmlookup (st_tabs s) i = Some r
   | EvMaterializedWindow h r \<Rightarrow> \<exists>i. IsAllowed f (snd (transition_of aff (EntityWindow i))) \<and> fmlookup (st_windows s) i = Some r
   | EvMaterializedNode h r \<Rightarrow> \<exists>i. IsAllowed f (snd (transition_of aff (EntityNode i))) \<and> fmlookup (st_nodes s) i = Some r
   | EvRemovedTab h ty i \<Rightarrow> IsAllowed f (fst (transition_of aff (EntityTab ty i)))
   | EvRemovedWindow h i \<Rightarrow> IsAllowed f (fst (transition_of aff (EntityWindow i)))
   | EvRemovedNode h i \<Rightarrow> IsAllowed f (fst (transition_of aff (EntityNode i)))
   | EvNil \<Rightarrow> True
   | _ \<Rightarrow> False)"

lemma batch_event_admitted: "batchVisibleOpsEvent b (visible f aff) = Some e \<Longrightarrow> event_admitted s b aff f e"
proof -
  assume "batchVisibleOpsEvent b (visible f aff) = Some e"
  then have e: "e = EvBatch \<lparr>batch_id = batch_id b, batch_ops = filter (keep_op (visible f aff)) (batch_ops b)\<rparr>"
    and ne: "filter (keep_op (visible f aff)) (batch_ops b) \<noteq> []"
    by (auto simp: batchVisibleOpsEvent_def Let_def split: if_splits)
  have "IsAllowed f (fst (transition_of aff (op_target p))) \<and> IsAllowed f (snd (transition_of aff (op_target p))) \<or>
      (\<exists>w. op_target p = EntityWorkspaceRoot w) \<and>
      (IsAllowed f (fst (transition_of aff (op_target p))) \<or> IsAllowed f (snd (transition_of aff (op_target p))))"
    if "keep_op (visible f aff) p" for p
    using that by (cases "op_target p") (auto simp: keep_op_def Let_def)
  with e ne show ?thesis by (simp add: event_admitted_def case_prod_beta)
qed

lemma transition_event_admitted: "transition_event s aff h f ref = Some e \<Longrightarrow> event_admitted s b aff f e"
  by (cases ref) (auto simp: transition_event_def event_admitted_def Let_def split: if_splits, blast)

lemma subscriber_events_admitted:
  assumes "e \<in> set (subscriber_events s b aff refs f)"
  shows "event_admitted s b aff f e"
proof -
  have "batchVisibleOpsEvent b (visible f aff) = Some e \<or> (\<exists>ref. transition_event s aff (lastBatchHLC b) f ref = Some e)"
    using assms by (auto simp: subscriber_events_def opt_list_def split: option.splits)
  then show ?thesis using batch_event_admitted transition_event_admitted by (elim disjE exE)
qed

text \<open>C15: The memo caches of a broadcast are unobservable: every subscriber receives exactly
  the events that a direct evaluation of its own filter gives, the filtered batch first and then
  one event per entity that crosses its horizon.\<close>

theorem broadcastBatch_exact:
  "broadcastBatch itr subs s b aff =
     concat (map (\<lambda>sub. map (Pair (sub_send sub)) (subscriber_events s b aff (itr sub (fmdom aff)) (sub_filter sub))) subs)"
  by (rule broadcast_exact)

text \<open>A broadcast leaks nothing: whatever reaches a stream belongs to a subscriber on that
  stream, and each operation, record or name in it lies in a workspace its filter allows.\<close>

theorem broadcastBatch_no_leak:
  assumes "(stream, e) \<in> set (broadcastBatch itr subs s b aff)"
  shows "\<exists>sub \<in> set subs. sub_send sub = stream \<and> event_admitted s b aff (sub_filter sub) e"
  using assms subscriber_events_admitted unfolding broadcast_exact by fastforce

section \<open>The published list\<close>

text \<open>The maps of a filter are sets: every value in them is true.\<close>

definition filter_is_set :: "subscriber_filter \<Rightarrow> bool" where
  "filter_is_set f \<longleftrightarrow> (\<forall>m ws a. WorkspaceIDs f = Some m \<and> fmlookup m ws = Some a \<longrightarrow> a)"

lemma subscriberFilterEqual_eq:
  assumes it: "range_order it" and "filter_is_set a" "filter_is_set b"
  shows "subscriberFilterEqual it a b \<longleftrightarrow> a = b"
proof (cases "WorkspaceIDs a"; cases "WorkspaceIDs b")
  fix m n assume mn: "WorkspaceIDs a = Some m" "WorkspaceIDs b = Some n"
  have vals: "\<And>ws v. fmlookup m ws = Some v \<Longrightarrow> v" "\<And>ws v. fmlookup n ws = Some v \<Longrightarrow> v"
    using assms(2,3) mn by (auto simp: filter_is_set_def)
  have "m = n" if card: "fcard (fmdom m) = fcard (fmdom n)" and all: "\<And>ws v. fmlookup m ws = Some v \<Longrightarrow> member n ws = v"
  proof -
    have in_n: "fmlookup n ws = Some True" if "fmlookup m ws = Some v" for ws v
      using all [OF that] vals(1) [OF that] by (cases "fmlookup n ws") auto
    have sub: "fmdom m |\<subseteq>| fmdom n" using in_n by (fastforce intro: fmdomI elim: fmdomE)
    have "fmdom m = fmdom n"
      by (rule fset_inject [THEN iffD1], rule card_subset_eq)
         (use sub card in \<open>auto simp: less_eq_fset.rep_eq fcard.rep_eq\<close>)
    show "m = n"
    proof (rule fmap_eqI)
      fix ws show "fmlookup m ws = fmlookup n ws"
      proof (cases "fmlookup m ws")
        case None
        then have "ws |\<notin>| fmdom n" using \<open>fmdom m = fmdom n\<close> fmdom_notI [of m ws] by metis
        with None show ?thesis by (simp add: fmdom_notD)
      qed (use in_n vals in fastforce)
    qed
  qed
  note eq = this
  show ?thesis
  proof
    assume *: "subscriberFilterEqual it a b"
    then have card: "fcard (fmdom m) = fcard (fmdom n)" and all: "\<forall>(ws, v) \<in> set (go_range it m). member n ws = v"
      using mn by (simp_all add: subscriberFilterEqual_def list_all_iff split: if_splits)
    have "m = n" by (rule eq [OF card]) (use all set_go_range [OF it, of m] in blast)
    with mn show "a = b" by simp
  next
    assume "a = b"
    with mn have "m = n" by simp
    moreover have "\<forall>(ws, v) \<in> set (go_range it m). member m ws = v" using set_go_range [OF it, of m] by auto
    ultimately show "subscriberFilterEqual it a b" using mn by (simp add: subscriberFilterEqual_def list_all_iff)
  qed
qed (auto simp: subscriberFilterEqual_def subscriber_filter.equality)

lemma MutateEach_subs:
  assumes it: "range_order it"
  shows "fmlookup (ctl_subs (MutateEach it f c)) p =
    map_option (\<lambda>(s, published). (f p s, republish it (f p s) published)) (fmlookup (ctl_subs c) p)"
proof -
  let ?g = "\<lambda>(p, s, published) m. fmupd p (f p s, republish it (f p s) published) m"
  have "fmlookup (fold ?g ps m) p = (case map_of ps p of None \<Rightarrow> fmlookup m p
      | Some (s, published) \<Rightarrow> Some (f p s, republish it (f p s) published))"
    if "distinct (map fst ps)" for ps m
    using that by (induction ps arbitrary: m) (auto split: option.splits dest: map_of_SomeD simp: rev_image_eqI)
  moreover have "distinct (map fst (go_range it (ctl_subs c)))" by (simp add: range_order_distinct [OF it])
  moreover have "map_of (go_range it (ctl_subs c)) p = fmlookup (ctl_subs c) p"
  proof (cases "fmlookup (ctl_subs c) p")
    case None
    then show ?thesis using set_go_range [OF it, of "ctl_subs c"] by (auto simp: map_of_eq_None_iff)
  next
    case (Some v)
    then show ?thesis using \<open>distinct (map fst (go_range it (ctl_subs c)))\<close> it by (simp add: map_of_eq_Some_iff)
  qed
  ultimately show ?thesis
    by (simp add: MutateEach_def refreshSnapshotLocked_def split: option.splits)
qed

definition ctl_ok :: "subscriber_controller \<Rightarrow> bool" where
  "ctl_ok c \<longleftrightarrow> (\<forall>p s published. fmlookup (ctl_subs c) p = Some (s, published) \<longrightarrow> published = s \<and> filter_is_set (sub_filter s)) \<and>
     (\<exists>it. range_order it \<and> Snapshot c = map (fst o snd) (go_range it (ctl_subs c)))"

lemma ctl_okI:
  assumes it: "range_order it"
    and "\<And>p s published. fmlookup (ctl_subs c) p = Some (s, published) \<Longrightarrow> published = s \<and> filter_is_set (sub_filter s)"
  shows "ctl_ok (refreshSnapshotLocked it c)"
proof -
  have "map (snd o snd) (go_range it (ctl_subs c)) = map (fst o snd) (go_range it (ctl_subs c))"
    using assms(2) set_go_range [OF it, of "ctl_subs c"] by auto
  with assms show ?thesis
    unfolding ctl_ok_def by (auto simp: refreshSnapshotLocked_def Snapshot_def)
qed

lemma new_ctl_ok: "ctl_ok newSubscriberController"
proof -
  have "go_range sorted_range (fmempty :: (ident, subscriber \<times> subscriber) fmap) = []" by (simp add: go_range_def)
  then show ?thesis using sorted_range_order by (auto simp: ctl_ok_def newSubscriberController_def Snapshot_def)
qed

lemma Add_ok:
  assumes "range_order it" "ctl_ok c" "filter_is_set (sub_filter s)"
  shows "ctl_ok (snd (ctl_Add it p s c))"
  using assms unfolding ctl_Add_def Let_def snd_conv
  by (intro ctl_okI) (auto simp: ctl_ok_def cloneSubscriber_def split: if_splits)

lemma Remove_ok:
  assumes "range_order it" "ctl_ok c"
  shows "ctl_ok (ctl_Remove it p c)"
proof (cases "fmlookup (ctl_subs c) p")
  case None
  then show ?thesis using assms(2) by (simp add: ctl_Remove_def)
next
  case (Some x)
  then show ?thesis using assms unfolding ctl_Remove_def
    by (simp, intro ctl_okI) (auto simp: ctl_ok_def split: if_splits)
qed

lemma MutateEach_ok:
  assumes it: "range_order it" and ok: "ctl_ok c"
    and set: "\<And>p s. filter_is_set (sub_filter s) \<Longrightarrow> filter_is_set (sub_filter (f p s))"
    and same: "\<And>p s. \<exists>x. f p s = s\<lparr>sub_filter := x\<rparr>"
  shows "ctl_ok (MutateEach it f c)"
proof -
  let ?c = "c\<lparr>ctl_subs := ctl_subs (MutateEach it f c)\<rparr>"
  have "MutateEach it f c = refreshSnapshotLocked it ?c" by (simp add: MutateEach_def refreshSnapshotLocked_def)
  moreover have "ctl_ok (refreshSnapshotLocked it ?c)"
  proof (rule ctl_okI [OF it])
    fix p s published assume "fmlookup (ctl_subs ?c) p = Some (s, published)"
    then obtain s0 where s0: "fmlookup (ctl_subs c) p = Some (s0, s0)" "filter_is_set (sub_filter s0)"
      and s: "s = f p s0" "published = republish it (f p s0) s0"
      using ok MutateEach_subs [OF it, of f c p] by (auto simp: ctl_ok_def)
    have fs: "filter_is_set (sub_filter s)" using set s0(2) s(1) by simp
    obtain x where x: "f p s0 = s0\<lparr>sub_filter := x\<rparr>" using same by blast
    have "published = s"
      using subscriberFilterEqual_eq [OF it fs s0(2)] x s by (auto simp: republish_def cloneSubscriber_def)
    with fs show "published = s \<and> filter_is_set (sub_filter s)" by simp
  qed
  ultimately show ?thesis by simp
qed

section \<open>Following the access rules\<close>

lemma ForEachLocked_candidates:
  "expand_candidates it ws c = map (\<lambda>(p, s, _). (p, sub_user s))
     (filter (\<lambda>(p, s, _). subscriberMaySeeWorkspace s ws \<and> \<not> IsAllowed (sub_filter s) ws) (go_range it (ctl_subs c)))"
proof -
  let ?g = "\<lambda>(p, sub, _) out. if \<not> subscriberMaySeeWorkspace sub ws then out
     else if IsAllowed (sub_filter sub) ws then out else out @ [(p, sub_user sub)]"
  have "fold ?g ps out = out @ map (\<lambda>(p, s, _). (p, sub_user s))
      (filter (\<lambda>(p, s, _). subscriberMaySeeWorkspace s ws \<and> \<not> IsAllowed (sub_filter s) ws) ps)"
    for ps :: "(ident \<times> subscriber \<times> subscriber) list" and out
    by (induction ps arbitrary: out) (auto split: if_splits)
  moreover have "(\<lambda>(p, s, _). (\<lambda>p sub out. if \<not> subscriberMaySeeWorkspace sub ws then out
     else if IsAllowed (sub_filter sub) ws then out else out @ [(p, sub_user sub)]) p s) = ?g" by (auto simp: fun_eq_iff)
  ultimately show ?thesis by (simp add: expand_candidates_def ForEachLocked_def)
qed

lemma distinct_users_set: "set (distinct_users cs) = snd ` set cs"
proof -
  have "set (fold (\<lambda>(_, u) out. if u \<in> set out then out else out @ [u]) cs out) = set out \<union> snd ` set cs"
    for cs :: "(ident \<times> ident) list" and out
    by (induction cs arbitrary: out) (auto split: if_splits)
  from this [of cs "[]"] show ?thesis by (simp add: distinct_users_def)
qed

lemma admit_allowed:
  assumes "ws \<noteq> empty_id"
  shows "IsAllowed (sub_filter (admit ws s)) x \<longleftrightarrow> IsAllowed (sub_filter s) x \<or> x = ws"
  using assms by (auto simp: admit_def IsAllowed_def split: option.splits)

lemma admit_fields: "\<exists>x. admit ws s = s\<lparr>sub_filter := x\<rparr>" "\<exists>x. evict ws s = s\<lparr>sub_filter := x\<rparr>" "\<exists>x. s = s\<lparr>sub_filter := x\<rparr>"
proof -
  show same: "\<exists>x. s = s\<lparr>sub_filter := x\<rparr>" by (rule exI [of _ "sub_filter s"]) simp
  show "\<exists>x. admit ws s = s\<lparr>sub_filter := x\<rparr>" using same by (auto simp: admit_def)
  show "\<exists>x. evict ws s = s\<lparr>sub_filter := x\<rparr>" using same by (auto simp: evict_def split: option.splits)
qed

lemma admit_is_set: "filter_is_set (sub_filter s) \<Longrightarrow> filter_is_set (sub_filter (admit ws s))"
  by (auto simp: admit_def filter_is_set_def get_or_def split: option.splits if_splits)

lemma evict_is_set: "filter_is_set (sub_filter s) \<Longrightarrow> filter_is_set (sub_filter (evict ws s))"
  by (auto simp: evict_def filter_is_set_def split: option.splits if_splits)

lemma evict_allowed:
  assumes "WorkspaceIDs (sub_filter s) \<noteq> None"
  shows "IsAllowed (sub_filter (evict ws s)) x \<longleftrightarrow> IsAllowed (sub_filter s) x \<and> x \<noteq> ws"
  using assms by (auto simp: evict_def IsAllowed_def split: if_splits)

text \<open>The production checker, with its batch form.\<close>

abbreviation crdt_auth :: "('w, 'e) auth_store \<Rightarrow> ('w, 'e) manager_auth" where
  "crdt_auth st \<equiv> Some (NewCRDTAuthChecker st, Some (crdt_CanAccessWorkspaceForUsers st))"

definition reads :: "('w, 'e) auth_store \<Rightarrow> ident \<Rightarrow> ident \<Rightarrow> 'w \<Rightarrow> ident \<Rightarrow> bool" where
  "reads st orgID ws w u \<longleftrightarrow> fst (crdt_CanAccessWorkspace st orgID ws u w) = Inr True"

lemma crdt_allowed_candidates:
  assumes "allowed_candidates (crdt_auth st) orgID ws cs w = (Inr allowed, w')"
  shows "set allowed = fst ` {c \<in> set cs. reads st orgID ws w (snd c)}"
proof -
  obtain R v' where R: "crdt_CanAccessWorkspaceForUsers st orgID ws (distinct_users cs) w = (Inr R, v')"
    and al: "allowed = map fst (filter (\<lambda>(_, u). u \<in> R) cs)"
    using assms by (auto simp: allowed_candidates_def accessWorkspaceForUsers_def split: prod.splits sum.splits)
  have "R = {u \<in> snd ` set cs. reads st orgID ws w u}"
    using crdt_batch_access [OF R] by (simp add: distinct_users_set reads_def)
  then show ?thesis by (force simp: al image_iff)
qed

text \<open>What a successful pass does to one subscriber.\<close>

lemma expand_subscriber:
  assumes it: "range_order it" and ok: "ctl_ok c" and ws: "ws \<noteq> empty_id"
    and run: "ExpandSubscribersForWorkspace it (crdt_auth st) orgID ws c w = (None, c', w')"
    and s: "fmlookup (ctl_subs c) p = Some (s, t)"
  shows "\<exists>t'. fmlookup (ctl_subs c') p =
    Some (if subscriberMaySeeWorkspace s ws \<and> reads st orgID ws w (sub_user s) then admit ws s else s, t')"
proof -
  obtain allowed where al: "allowed_candidates (crdt_auth st) orgID ws (expand_candidates it ws c) w = (Inr allowed, w')"
    and c': "c' = (if allowed = [] then c else MutateEach it (\<lambda>p sub. if p \<notin> set allowed then sub else admit ws sub) c)"
    using run ws by (auto simp: ExpandSubscribersForWorkspace_def split: prod.splits sum.splits if_splits)
  have in_al: "p \<in> set allowed \<longleftrightarrow> subscriberMaySeeWorkspace s ws \<and> \<not> IsAllowed (sub_filter s) ws \<and> reads st orgID ws w (sub_user s)"
    using crdt_allowed_candidates [OF al] s it unfolding ForEachLocked_candidates by (force simp: image_iff)
  have same: "IsAllowed (sub_filter s) ws \<Longrightarrow> admit ws s = s" by (simp add: admit_def)
  show ?thesis
  proof (cases "allowed = []")
    case True
    then show ?thesis using in_al s same by (auto simp: c')
  next
    case False
    then show ?thesis using in_al s same MutateEach_subs [OF it, of _ c p] by (auto simp: c')
  qed
qed

lemma expand_ok:
  assumes "range_order it" "ctl_ok c" "ExpandSubscribersForWorkspace it auth orgID ws c w = (r, c', w')"
  shows "ctl_ok c'"
proof -
  have "c' = c \<or> (\<exists>al. c' = MutateEach it (\<lambda>p sub. if p \<notin> set al then sub else admit ws sub) c)"
    using assms(3) by (auto simp: ExpandSubscribersForWorkspace_def split: prod.splits sum.splits if_splits)
  then show ?thesis
  proof (elim disjE exE)
    fix al assume "c' = MutateEach it (\<lambda>p sub. if p \<notin> set al then sub else admit ws sub) c"
    then show ?thesis using assms(1,2) admit_fields by (auto intro!: MutateEach_ok simp: admit_is_set)
  qed (simp add: assms(2))
qed

lemma contract_ok: "range_order it \<Longrightarrow> ctl_ok c \<Longrightarrow> ctl_ok (contractSubscribersForWorkspace it ws c)"
  using admit_fields by (auto simp: contractSubscribersForWorkspace_def intro!: MutateEach_ok simp: evict_is_set)

subsection \<open>All histories of a set of subscribers\<close>

definition bounded :: "subscriber \<Rightarrow> bool" where
  "bounded s \<longleftrightarrow> filter_is_set (sub_filter s) \<and> (\<forall>ws. IsAllowed (sub_filter s) ws \<longrightarrow> subscriberMaySeeWorkspace s ws)"

text \<open>The operations on the set: a subscriber within its own bounds connects, one disconnects, a
  workspace is created (the pass may fail), a workspace is deleted.\<close>

inductive ctl_step :: "range_fun \<Rightarrow> ('w, 'e) manager_auth \<Rightarrow> ident \<Rightarrow> subscriber_controller \<Rightarrow> subscriber_controller \<Rightarrow> bool"
  for it auth orgID where
  connect: "bounded s \<Longrightarrow> ctl_step it auth orgID c (snd (ctl_Add it p s c))"
| disconnect: "ctl_step it auth orgID c (ctl_Remove it p c)"
| created: "ExpandSubscribersForWorkspace it auth orgID ws c w = (r, c', w') \<Longrightarrow> ctl_step it auth orgID c c'"
| gone: "ctl_step it auth orgID c (contractSubscribersForWorkspace it ws c)"

definition ctl_bounded :: "subscriber_controller \<Rightarrow> bool" where
  "ctl_bounded c \<longleftrightarrow> ctl_ok c \<and> (\<forall>p s t. fmlookup (ctl_subs c) p = Some (s, t) \<longrightarrow> bounded s)"

lemma may_see_fields [simp]: "subscriberMaySeeWorkspace (s\<lparr>sub_filter := f\<rparr>) ws = subscriberMaySeeWorkspace s ws"
  by (simp add: subscriberMaySeeWorkspace_def)

lemma bounded_evict: "bounded s \<Longrightarrow> bounded (evict ws s)"
proof -
  assume b: "bounded s"
  have "IsAllowed (sub_filter (evict ws s)) x \<Longrightarrow> IsAllowed (sub_filter s) x" for x
    by (auto simp: evict_def IsAllowed_def split: option.splits if_splits)
  moreover have "subscriberMaySeeWorkspace (evict ws s) x = subscriberMaySeeWorkspace s x" for x
    using admit_fields(2) [of ws s] by auto
  ultimately show ?thesis using b evict_is_set by (auto simp: bounded_def)
qed

lemma bounded_admit: "bounded s \<Longrightarrow> ws \<noteq> empty_id \<Longrightarrow> subscriberMaySeeWorkspace s ws \<Longrightarrow> bounded (admit ws s)"
proof -
  assume b: "bounded s" and ws: "ws \<noteq> empty_id" "subscriberMaySeeWorkspace s ws"
  have "subscriberMaySeeWorkspace (admit ws s) x = subscriberMaySeeWorkspace s x" for x
    using admit_fields(1) [of ws s] by auto
  then show ?thesis using b ws admit_is_set by (auto simp: bounded_def admit_allowed)
qed

lemma candidates_may_see:
  assumes it: "range_order it" and "allowed_candidates auth orgID ws (expand_candidates it ws c) w = (Inr al, w')"
    and "p \<in> set al" and "fmlookup (ctl_subs c) p = Some (s, t)"
  shows "subscriberMaySeeWorkspace s ws"
proof -
  have "set al \<subseteq> fst ` set (expand_candidates it ws c)"
    using assms(2) by (force simp: allowed_candidates_def split: option.splits prod.splits sum.splits)
  with assms(3,4) it show ?thesis unfolding ForEachLocked_candidates by auto
qed

lemma ctl_step_bounded:
  assumes it: "range_order it" and "ctl_step it auth orgID c c'" and "ctl_bounded c"
  shows "ctl_bounded c'"
  using assms(2,3)
proof (cases rule: ctl_step.cases)
  case (connect s p)
  then have "ctl_ok c'" using Add_ok [OF it] assms(3) by (simp add: ctl_bounded_def bounded_def)
  with connect assms(3) show ?thesis
    by (auto simp: ctl_bounded_def ctl_Add_def Let_def refreshSnapshotLocked_def split: if_splits)
next
  case (disconnect p)
  then have "ctl_ok c'" using Remove_ok [OF it] assms(3) by (simp add: ctl_bounded_def)
  with disconnect assms(3) show ?thesis
    by (auto simp: ctl_bounded_def ctl_Remove_def refreshSnapshotLocked_def split: if_splits)
next
  case (created ws w r w')
  have ok: "ctl_ok c'" using expand_ok [OF it _ created] assms(3) by (simp add: ctl_bounded_def)
  show ?thesis
  proof (cases "c' = c")
    case False
    then obtain al where ws: "ws \<noteq> empty_id"
      and al: "allowed_candidates auth orgID ws (expand_candidates it ws c) w = (Inr al, w')"
      and c': "c' = MutateEach it (\<lambda>p sub. if p \<notin> set al then sub else admit ws sub) c"
      using created by (auto simp: ExpandSubscribersForWorkspace_def split: prod.splits sum.splits if_splits)
    have "bounded s" if look: "fmlookup (ctl_subs c') p = Some (s, t)" for p s t
    proof -
      obtain s0 t0 where s0: "fmlookup (ctl_subs c) p = Some (s0, t0)" "s = (if p \<notin> set al then s0 else admit ws s0)"
        using look MutateEach_subs [OF it, of "\<lambda>p sub. if p \<notin> set al then sub else admit ws sub" c p] by (auto simp: c')
      then have "bounded s0" using assms(3) by (auto simp: ctl_bounded_def)
      then show ?thesis using bounded_admit [OF _ ws candidates_may_see [OF it al _ s0(1)]] s0(2) by auto
    qed
    with ok show ?thesis by (auto simp: ctl_bounded_def)
  qed (simp add: assms(3))
next
  case (gone ws)
  then have ok: "ctl_ok c'" using contract_ok [OF it] assms(3) by (simp add: ctl_bounded_def)
  have old: "bounded s" if "fmlookup (ctl_subs c) p = Some (s, t)" for p s t
    using that assms(3) by (auto simp: ctl_bounded_def)
  have "bounded s" if look: "fmlookup (ctl_subs c') p = Some (s, t)" for p s t
  proof (cases "ws = empty_id")
    case True
    then show ?thesis using look old by (simp add: gone contractSubscribersForWorkspace_def)
  next
    case False
    then obtain s0 t0 where "fmlookup (ctl_subs c) p = Some (s0, t0)" "s = evict ws s0"
      using look MutateEach_subs [OF it, of "\<lambda>_. evict ws" c p] by (auto simp: gone contractSubscribersForWorkspace_def)
    then show ?thesis using bounded_evict old by simp
  qed
  with ok show ?thesis by (auto simp: ctl_bounded_def)
qed

lemma ctl_reachable_bounded:
  assumes it: "range_order it" and "(ctl_step it auth orgID)\<^sup>*\<^sup>* newSubscriberController c"
  shows "ctl_bounded c"
  using assms(2)
proof (induction rule: rtranclp_induct)
  case base
  then show ?case using new_ctl_ok by (simp add: ctl_bounded_def newSubscriberController_def)
next
  case (step c c')
  show ?case using ctl_step_bounded [OF it step(2,3)] .
qed

section \<open>Properties\<close>

text \<open>C16: Over every history of connects, disconnects, workspace creations (with any outcome of the
  permission lookup) and deletions, what a broadcast sends to a stream stays within the bounds the
  subscription was opened with: the workspace of its delegation and the workspaces it asked for.\<close>

theorem deliveries_within_bounds:
  assumes "range_order it" and "(ctl_step it auth orgID)\<^sup>*\<^sup>* newSubscriberController c"
    and "(stream, e) \<in> set (broadcastBatch itr (Snapshot c) s b aff)"
  shows "\<exists>sub \<in> set (Snapshot c). sub_send sub = stream \<and> event_admitted s b aff (sub_filter sub) e \<and>
    (\<forall>ws. IsAllowed (sub_filter sub) ws \<longrightarrow> subscriberMaySeeWorkspace sub ws)"
proof -
  have b: "ctl_bounded c" using ctl_reachable_bounded [OF assms(1,2)] .
  obtain sub where sub: "sub \<in> set (Snapshot c)" "sub_send sub = stream" "event_admitted s b aff (sub_filter sub) e"
    using assms(3) subscriber_events_admitted unfolding broadcast_exact by fastforce
  obtain it' where it': "range_order it'" "Snapshot c = map (fst o snd) (go_range it' (ctl_subs c))"
    using b by (auto simp: ctl_bounded_def ctl_ok_def)
  then obtain p t where "fmlookup (ctl_subs c) p = Some (sub, t)" using sub(1) by auto
  then have "bounded sub" using b by (auto simp: ctl_bounded_def)
  with sub show ?thesis by (auto simp: bounded_def)
qed

text \<open>A pass over the subscribers for a new workspace that succeeds widens exactly the filters of
  the subscribers that may see the workspace and whose user owns it, by exactly that workspace,
  and the published list shows it at once: the seed batch broadcast next reaches them.\<close>

theorem ExpandSubscribers_exact:
  assumes it: "range_order it" and ok: "ctl_ok c" and ws: "ws \<noteq> empty_id"
    and run: "ExpandSubscribersForWorkspace it (crdt_auth st) orgID ws c w = (None, c', w')"
    and s: "fmlookup (ctl_subs c) p = Some (s, t)"
  shows "\<exists>s'. fmlookup (ctl_subs c') p = Some (s', s') \<and> s' \<in> set (Snapshot c') \<and>
    (\<forall>x. IsAllowed (sub_filter s') x \<longleftrightarrow> IsAllowed (sub_filter s) x \<or>
       x = ws \<and> subscriberMaySeeWorkspace s ws \<and> reads st orgID ws w (sub_user s))"
proof -
  define s' where "s' = (if subscriberMaySeeWorkspace s ws \<and> reads st orgID ws w (sub_user s) then admit ws s else s)"
  have ok': "ctl_ok c'" using expand_ok [OF it ok run] .
  obtain t' where l: "fmlookup (ctl_subs c') p = Some (s', t')" using expand_subscriber [OF it ok ws run s] by (auto simp: s'_def)
  then have t': "t' = s'" using ok' by (auto simp: ctl_ok_def)
  obtain it' where it': "range_order it'" "Snapshot c' = map (fst o snd) (go_range it' (ctl_subs c'))"
    using ok' by (auto simp: ctl_ok_def)
  have "(p, s', t') \<in> set (go_range it' (ctl_subs c'))" using l it'(1) by simp
  from imageI [OF this, of "fst o snd"] have "s' \<in> set (Snapshot c')" by (simp add: it'(2) image_comp)
  with l t' show ?thesis using ws by (auto simp: s'_def admit_allowed)
qed

end
