(* ===== verification/ValidState.thy ===== *)
theory ValidState
  imports Validate
begin

text \<open>
  What the validator guarantees of the state (backend/internal/hub/crdt/validate.go). Records are
  well formed, a node is the root of at most one workspace or window, every live tab sits on a
  reachable live leaf, and every live record is complete: \<open>valid_state\<close>. Records under the empty
  identifier escape the last two checks; \<open>sound_state\<close> is what holds after every accepted batch
  whatever identifiers it names, and it is \<open>valid_state\<close> when there is no such record. Registers that may be set once do not change, the roots of
  workspaces survive the batches of clients, and stored numbers stay within their domains.
\<close>

section \<open>Definitions\<close>

text \<open>Records filed under the empty identifier escape checks that report an identifier and take
  the empty one for success; \<open>valid_state\<close> excludes them.\<close>

definition named_state :: "org_state \<Rightarrow> bool" where
  "named_state s \<longleftrightarrow> fmlookup (st_nodes s) empty_id = None \<and> fmlookup (st_tabs s) empty_id = None \<and>
     fmlookup (st_windows s) empty_id = None"

definition named_batch :: "org_op list \<Rightarrow> bool" where
  "named_batch batch \<longleftrightarrow> (\<forall>p \<in> set batch. case op_target p of
     EntityNode i \<Rightarrow> i \<noteq> empty_id | EntityTab _ i \<Rightarrow> i \<noteq> empty_id | EntityWindow i \<Rightarrow> i \<noteq> empty_id | _ \<Rightarrow> True)"

definition complete_state :: "range_fun \<Rightarrow> org_state \<Rightarrow> bool" where
  "complete_state it s \<longleftrightarrow>
     (\<forall>i t. fmlookup (st_tabs s) i = Some t \<longrightarrow> \<not> tab_incomplete t) \<and>
     (\<forall>i n. fmlookup (st_nodes s) i = Some n \<longrightarrow> \<not> node_incomplete (registeredRoots it s) i n) \<and>
     (\<forall>i f. fmlookup (st_windows s) i = Some f \<longrightarrow> \<not> window_incomplete f)"

definition valid_state :: "range_fun \<Rightarrow> org_state \<Rightarrow> bool" where
  "valid_state it s \<longleftrightarrow> state_ok s \<and> named_state s \<and> unique_roots s \<and> tabs_placed it s \<and> complete_state it s"

text \<open>Batches may name the empty identifier. What the validator keeps of every state, whatever the
  identifiers: tabs under a proper identifier are placed, and records are complete unless an
  incomplete one hides under the empty identifier. A state with no such record is valid.\<close>

definition incomplete_at :: "range_fun \<Rightarrow> org_state \<Rightarrow> ident \<Rightarrow> bool" where
  "incomplete_at it s i \<longleftrightarrow> (\<exists>t. fmlookup (st_tabs s) i = Some t \<and> tab_incomplete t) \<or>
     (\<exists>n. fmlookup (st_nodes s) i = Some n \<and> node_incomplete (registeredRoots it s) i n) \<or>
     (\<exists>f. fmlookup (st_windows s) i = Some f \<and> window_incomplete f)"

definition sound_state :: "range_fun \<Rightarrow> org_state \<Rightarrow> bool" where
  "sound_state it s \<longleftrightarrow> state_ok s \<and> unique_roots s \<and> (\<forall>i. i \<noteq> empty_id \<longrightarrow> tab_placed it s i) \<and>
     (complete_state it s \<or> incomplete_at it s empty_id)"

text \<open>The operation makes a node the root of a window or a workspace.\<close>

definition assigns_root :: "org_op \<Rightarrow> ident \<Rightarrow> bool" where
  "assigns_root p i \<longleftrightarrow> (\<exists>k. op_body p = SetFloatingWindowRegister k (WindowRootNodeId i)) \<or>
     (\<exists>w. op_body p = SetWorkspaceRootNode w i)"

section \<open>Names\<close>

lemma Apply_named: "named_state s \<Longrightarrow> named_batch [p] \<Longrightarrow> named_state (Apply p s)"
  by (cases "op_body p")
     (auto simp: named_state_def named_batch_def apply_simps slot_defs split: option.splits)

lemma apply_all_named: "named_state s \<Longrightarrow> named_batch ps \<Longrightarrow> named_state (apply_all ps s)"
  by (induction ps arbitrary: s) (simp_all add: apply_simps Apply_named named_batch_def)

section \<open>Completeness\<close>

lemma first_key_None: "first_key bad ps = None \<longleftrightarrow> (\<forall>(k, r) \<in> set ps. \<not> bad k r)"
  by (auto simp: first_key_def find_None_iff)

lemma first_key_bad:
  assumes "first_key bad ps = Some k"
  shows "\<exists>r. (k, r) \<in> set ps \<and> bad k r"
proof -
  obtain p where "find (\<lambda>(k, r). bad k r) ps = Some p" "k = fst p" using assms by (auto simp: first_key_def)
  then have "p \<in> set ps" "(\<lambda>(k, r). bad k r) p" by (metis find_Some_iff nth_mem)+
  with \<open>k = fst p\<close> show ?thesis by (cases p) auto
qed

text \<open>The check returns the identifier of a bad record, or the empty one: so it passes when nothing
  is bad, and when the first bad record is filed under the empty identifier.\<close>

lemma completenessCheck_complete:
  assumes it: "range_order it" and check: "completenessCheck it s (registeredRoots it s) = empty_id"
  shows "complete_state it s \<or> incomplete_at it s empty_id"
proof (rule disjCI)
  assume none: "\<not> incomplete_at it s empty_id"
  let ?t = "first_key (\<lambda>_. tab_incomplete) (go_range it (st_tabs s))"
  let ?n = "first_key (node_incomplete (registeredRoots it s)) (go_range it (st_nodes s))"
  let ?w = "first_key (\<lambda>_. window_incomplete) (go_range it (st_windows s))"
  have "?t \<noteq> Some empty_id" "?n \<noteq> Some empty_id" "?w \<noteq> Some empty_id"
    using none it by (auto simp: incomplete_at_def set_go_range dest!: first_key_bad)
  then have "?t = None" "?n = None" "?w = None"
    using check by (auto simp: completenessCheck_def split: option.splits)
  then show "complete_state it s"
    using it by (auto simp: complete_state_def first_key_None set_go_range)
qed

lemma sound_named:
  assumes "sound_state it s" and "named_state s"
  shows "valid_state it s"
proof -
  have "tab_placed it s empty_id" "\<not> incomplete_at it s empty_id"
    using assms(2) by (simp_all add: named_state_def tab_placed_def incomplete_at_def)
  then show ?thesis using assms unfolding sound_state_def valid_state_def tabs_placed_def by metis
qed

lemma valid_sound: "valid_state it s \<Longrightarrow> sound_state it s"
  by (simp add: sound_state_def valid_state_def tabs_placed_def)

section \<open>Tab placement\<close>

lemma first_id_empty: "first_id f xs = empty_id \<longleftrightarrow> (\<forall>x \<in> set xs. f x = empty_id)"
  by (induction xs) auto

lemma checkTabPlacement_placed:
  assumes "checkTabPlacement s t roots = empty_id" and "tab_live t" and "tb_tab_id t \<noteq> empty_id"
  shows "\<exists>ws. placed s roots (tile_of t) ws"
  using assms resolve_placed [of s "tile_of t" roots]
  by (auto simp: checkTabPlacement_def Let_def split: if_splits prod.splits)

lemma op_target_touched: "i |\<in>| touchedTabIDs ps \<Longrightarrow> \<exists>p \<in> set ps. \<exists>ty. op_target p = EntityTab ty i"
proof (induction ps)
  case (Cons p ps)
  then show ?case by (cases "op_body p") (auto simp: touchedTabIDs_def fset_of_list_elem)
qed (simp add: touchedTabIDs_def)

lemma tabPlacementCheck_placed:
  assumes it: "range_order it" and ok: "state_ok pre" and "unique_roots pre" and "tab_placed it pre i" and "no_reparent pre batch"
    and check: "tabPlacementCheck it (apply_all batch pre) batch = empty_id" and i: "i \<noteq> empty_id"
  shows "tab_placed it (apply_all batch pre) i"
  unfolding tab_placed_def
proof (intro allI impI)
  let ?post = "apply_all batch pre"
  fix t assume t: "fmlookup (st_tabs ?post) i = Some t" "tab_live t"
  have "tb_tab_id t = i" using t(1) state_ok_id(2) [OF apply_all_state_ok [OF ok]] by blast
  then have id: "tb_tab_id t \<noteq> empty_id" using i by simp
  show "\<exists>ws. placed ?post (registeredRoots it ?post) (tile_of t) ws"
  proof (cases "batchHasStructuralOp batch")
    case True
    then have "checkTabPlacement ?post t (registeredRoots it ?post) = empty_id"
      using check t(1) it by (auto simp: tabPlacementCheck_def Let_def first_id_empty set_go_range)
    then show ?thesis by (rule checkTabPlacement_placed [OF _ t(2) id])
  next
    case quiet: False
    show ?thesis
    proof (cases "i |\<in>| touchedTabIDs batch")
      case True
      then obtain p ty where "p \<in> set batch" "op_target p = EntityTab ty i" using op_target_touched by blast
      then have "checkTabPlacement ?post t (registeredRoots it ?post) = empty_id"
        using check quiet t(1) by (force simp: tabPlacementCheck_def Let_def first_id_empty)
      then show ?thesis by (rule checkTabPlacement_placed [OF _ t(2) id])
    next
      case False
      then have "fmlookup (st_tabs pre) i = Some t" using t(1) by (simp add: apply_all_slots fold_tab_untouched)
      then obtain ws where "placed pre (registeredRoots it pre) (tile_of t) ws"
        using assms(4) t(2) by (auto simp: tab_placed_def)
      from quiet_placed [OF quiet assms(5,3) it this] show ?thesis by blast
    qed
  qed
qed

section \<open>Roots\<close>

lemma window_registration:
  assumes "fmlookup (st_windows (Apply p s)) k = Some f" and "window_live f" and "fw_root_node_id f = i"
    and "i \<noteq> empty_id" and "\<not> assigns_root p i"
  shows "\<exists>f0. fmlookup (st_windows s) k = Some f0 \<and> window_live f0 \<and> fw_root_node_id f0 = i"
proof (cases "op_body p")
  case (SetFloatingWindowRegister j fld)
  then show ?thesis
    using assms by (cases fld)
      (auto simp: apply_simps slot_defs assigns_root_def empty_window_def split: option.splits if_splits)
qed (use assms in \<open>auto simp: apply_simps slot_defs empty_window_def split: option.splits if_splits\<close>)

lemma workspace_registration:
  assumes "fmlookup (st_workspaces (Apply p s)) w = Some r" and "ws_root_node_id r = i"
    and "i \<noteq> empty_id" and "\<not> assigns_root p i"
  shows "\<exists>r0. fmlookup (st_workspaces s) w = Some r0 \<and> ws_root_node_id r0 = i"
  using assms by (cases "op_body p")
    (auto simp: apply_simps slot_defs assigns_root_def split: option.splits if_splits)

lemma root_count_Apply: "\<not> assigns_root p i \<Longrightarrow> root_count (Apply p s) i \<le> root_count s i"
  unfolding root_count_def
  by (intro add_mono card_mono finite_slots)
     (auto dest!: window_registration workspace_registration)

lemma root_count_apply_all:
  "\<forall>p \<in> set ps. \<not> assigns_root p i \<Longrightarrow> root_count (apply_all ps s) i \<le> root_count s i"
proof (induction ps arbitrary: s)
  case (Cons p ps)
  then show ?case using root_count_Apply [of p i s] order_trans by (fastforce simp: apply_simps)
qed (simp add: apply_simps)

lemma rootChecks_assigned:
  assumes "rootChecks post batch internal preRoots postRoots ch = None"
    and "p \<in> set batch" and "assigns_root p i"
  shows "count_at postRoots i = 1 \<and>
    (\<exists>n. fmlookup (st_nodes post) i = Some n \<and> node_live n \<and> nd_parent_id n = empty_id)"
proof -
  have "root_check post batch internal preRoots postRoots ch p = None"
    using assms(1,2) by (simp add: rootChecks_def first_error_None)
  then have "validateRootAssignment post postRoots i = None"
    using assms(3) by (auto simp: root_check_def assigns_root_def)
  then show ?thesis by (auto simp: validateRootAssignment_def split: option.splits if_splits)
qed

lemma rootChecks_unique:
  assumes it: "range_order it" and "unique_roots pre"
    and "rootChecks (apply_all batch pre) batch internal preRoots (registeredRoots it (apply_all batch pre)) ch = None"
  shows "unique_roots (apply_all batch pre)"
  unfolding unique_roots_def
proof
  fix i
  show "root_count (apply_all batch pre) i \<le> 1"
  proof (cases "\<exists>p \<in> set batch. assigns_root p i")
    case True
    then show ?thesis using rootChecks_assigned [OF assms(3)] registeredRoots_count [OF it] by force
  next
    case False
    then show ?thesis using root_count_apply_all [of batch i pre] assms(2) order_trans
      unfolding unique_roots_def by blast
  qed
qed

section \<open>The invariant\<close>

lemma validateSetOnce_no_reparent:
  "\<forall>p \<in> set batch. validateSetOnce pre internal p = None \<Longrightarrow> no_reparent pre batch"
  by (fastforce simp: no_reparent_def validateSetOnce_def split: if_splits)

lemma NewState_valid: "valid_state it (NewState org)"
  by (simp add: valid_state_def NewState_ok)
     (simp add: NewState_def named_state_def tabs_placed_def tab_placed_def complete_state_def unique_roots_def root_count_def)

lemma accepted_sound:
  assumes it: "range_order it" and pre: "sound_state it pre"
    and acc: "ValidateBatch it pre batch internal u auth w = (VAccept aff post, w')"
  shows "sound_state it post"
proof -
  note post = ValidateBatch_accept(1) [OF acc]
  note checks = state_checks_None [OF ValidateBatch_accept(2) [OF acc]]
  have s: "state_ok pre" "unique_roots pre" "i \<noteq> empty_id \<Longrightarrow> tab_placed it pre i" for i
    using pre by (auto simp: sound_state_def)
  have "state_ok post" using apply_all_state_ok [OF s(1)] post by simp
  moreover have "unique_roots post" using rootChecks_unique [OF it s(2)] checks(7) post by simp
  moreover have "tab_placed it post i" if "i \<noteq> empty_id" for i
    using tabPlacementCheck_placed [OF it s(1,2) s(3) [OF that] validateSetOnce_no_reparent [OF checks(3)] _ that]
      checks(4) post by simp
  moreover have "complete_state it post \<or> incomplete_at it post empty_id"
    by (rule completenessCheck_complete [OF it checks(6)])
  ultimately show ?thesis by (simp add: sound_state_def)
qed

lemma accepted_valid:
  assumes "range_order it" and "valid_state it pre" and "named_batch batch"
    and "ValidateBatch it pre batch internal u auth w = (VAccept aff post, w')"
  shows "valid_state it post"
proof (rule sound_named)
  show "sound_state it post" by (rule accepted_sound [OF assms(1) valid_sound [OF assms(2)] assms(4)])
  show "named_state post"
    using apply_all_named [OF _ assms(3), of pre] assms(2) ValidateBatch_accept(1) [OF assms(4)] by (simp add: valid_state_def)
qed

section \<open>Registers that are set once\<close>

text \<open>While a node is live, an operation that does not set its parent leaves the parent alone.\<close>

definition keeps_parent :: "node_record option \<Rightarrow> node_record option \<Rightarrow> bool" where
  "keeps_parent x x' = (case x of None \<Rightarrow> True
     | Some n \<Rightarrow> (\<exists>n'. x' = Some n' \<and> (node_live n' \<longrightarrow> node_live n \<and> nd_parent_id n' = nd_parent_id n)))"

definition keeps_root :: "window_record option \<Rightarrow> window_record option \<Rightarrow> bool" where
  "keeps_root x x' = (case x of None \<Rightarrow> True
     | Some f \<Rightarrow> (\<exists>f'. x' = Some f' \<and> (window_live f' \<longrightarrow> window_live f \<and> fw_root_node_id f' = fw_root_node_id f)))"

lemma keeps_refl [simp]: "keeps_parent x x" "keeps_root y y"
  by (auto simp: keeps_parent_def keeps_root_def split: option.splits)

lemma keeps_trans:
  "keeps_parent x y \<Longrightarrow> keeps_parent y z \<Longrightarrow> keeps_parent x z"
  "keeps_root a b \<Longrightarrow> keeps_root b c \<Longrightarrow> keeps_root a c"
  by (auto simp: keeps_parent_def keeps_root_def split: option.splits)

lemma node_slot_keeps_parent:
  assumes "positive (op_canonical_hlc p)" and "\<And>v. op_body p \<noteq> SetNodeRegister i (NodeParentId v)"
  shows "keeps_parent x (node_slot i p x)"
proof (cases "op_body p")
  case (SetNodeRegister j fld)
  then show ?thesis
    using assms(2) by (cases fld) (auto simp: slot_defs keeps_parent_def split: option.splits)
qed (use positive_not_zero [OF assms(1)] in \<open>auto simp: slot_defs keeps_parent_def split: option.splits\<close>)

lemma window_slot_keeps_root:
  assumes "positive (op_canonical_hlc p)" and "\<And>v. op_body p \<noteq> SetFloatingWindowRegister i (WindowRootNodeId v)"
  shows "keeps_root x (window_slot i p x)"
proof (cases "op_body p")
  case (SetFloatingWindowRegister j fld)
  then show ?thesis
    using assms(2) by (cases fld) (auto simp: slot_defs keeps_root_def split: option.splits)
qed (use positive_not_zero [OF assms(1)] in \<open>auto simp: slot_defs keeps_root_def split: option.splits\<close>)

lemma fold_keeps:
  "stamped ps \<Longrightarrow> (\<And>p v. p \<in> set ps \<Longrightarrow> op_body p \<noteq> SetNodeRegister i (NodeParentId v)) \<Longrightarrow>
     keeps_parent x (fold (node_slot i) ps x)"
  "stamped ps \<Longrightarrow> (\<And>p v. p \<in> set ps \<Longrightarrow> op_body p \<noteq> SetFloatingWindowRegister i (WindowRootNodeId v)) \<Longrightarrow>
     keeps_root y (fold (window_slot i) ps y)"
proof (induction ps arbitrary: x y)
  case (Cons p ps)
  { case 1
    have "keeps_parent x (node_slot i p x)" using 1 by (intro node_slot_keeps_parent) auto
    then show ?case using 1 keeps_trans(1) Cons.IH(1) [of "node_slot i p x"] by simp
  next
    case 2
    have "keeps_root y (window_slot i p y)" using 2 by (intro window_slot_keeps_root) auto
    then show ?case using 2 keeps_trans(2) Cons.IH(2) [of "window_slot i p y"] by simp }
qed simp_all

lemma fold_root_kept:
  "ws_root_node_id r \<noteq> empty_id \<Longrightarrow> fold (root_slot i) ps (Some r) = Some r"
proof (induction ps)
  case (Cons p ps)
  moreover have "root_slot i p (Some r) = Some r"
    using Cons.prems by (cases "op_body p") (auto simp: slot_defs split: option.splits)
  ultimately show ?case by simp
qed simp

section \<open>Roots survive\<close>

text \<open>Every registered root is a live node without a parent.\<close>

definition roots_alive :: "org_state \<Rightarrow> bool" where
  "roots_alive s \<longleftrightarrow> (\<forall>i w. registers s i w \<longrightarrow>
     (\<exists>n. fmlookup (st_nodes s) i = Some n \<and> node_live n \<and> nd_parent_id n = empty_id))"

lemma fold_node_live:
  assumes "\<forall>p \<in> set ps. op_body p \<noteq> TombstoneNode i" and "node_live n"
  shows "\<exists>n'. fold (node_slot i) ps (Some n) = Some n' \<and> node_live n'"
  using assms
proof (induction ps arbitrary: n)
  case (Cons p ps)
  have "\<exists>n'. node_slot i p (Some n) = Some n' \<and> node_live n'"
  proof (cases "op_body p")
    case (SetNodeRegister j fld)
    then show ?thesis using Cons.prems(2) by (cases fld) (auto simp: slot_defs split: option.splits)
  qed (use Cons.prems in \<open>auto simp: slot_defs split: option.splits\<close>)
  then show ?case using Cons.IH Cons.prems(1) by (auto simp del: fold_simps simp: fold_simps(2))
qed simp

text \<open>A registration after a batch is an old one, or the batch assigns the root.\<close>

lemma window_registration_all:
  assumes "fmlookup (st_windows (apply_all ps s)) k = Some f" and "window_live f"
    and "fw_root_node_id f = i" and "i \<noteq> empty_id" and "\<forall>p \<in> set ps. \<not> assigns_root p i"
  shows "\<exists>f0. fmlookup (st_windows s) k = Some f0 \<and> window_live f0 \<and> fw_root_node_id f0 = i"
  using assms
proof (induction ps arbitrary: s)
  case (Cons p ps)
  then obtain f1 where "fmlookup (st_windows (Apply p s)) k = Some f1" "window_live f1" "fw_root_node_id f1 = i"
    using Cons.IH [of "Apply p s"] by (auto simp: apply_all_simps)
  then show ?case using window_registration Cons.prems(4,5) by (metis list.set_intros(1))
qed (auto simp: apply_simps)

lemma workspace_registration_all:
  assumes "fmlookup (st_workspaces (apply_all ps s)) w = Some r" and "ws_root_node_id r = i"
    and "i \<noteq> empty_id" and "\<forall>p \<in> set ps. \<not> assigns_root p i"
  shows "\<exists>r0. fmlookup (st_workspaces s) w = Some r0 \<and> ws_root_node_id r0 = i"
  using assms
proof (induction ps arbitrary: s)
  case (Cons p ps)
  then obtain r1 where "fmlookup (st_workspaces (Apply p s)) w = Some r1" "ws_root_node_id r1 = i"
    using Cons.IH [of "Apply p s"] by (auto simp: apply_all_simps)
  then show ?case using workspace_registration Cons.prems(3,4) by (metis list.set_intros(1))
qed (auto simp: apply_simps)

lemma window_root_unique:
  assumes "unique_roots s" and "fmlookup (st_windows s) j = Some f" "window_live f" "fw_root_node_id f = i"
    and "fmlookup (st_windows s) k = Some g" "window_live g" "fw_root_node_id g = i" and "i \<noteq> empty_id"
  shows "j = k"
proof -
  let ?B = "{k. \<exists>f. fmlookup (st_windows s) k = Some f \<and> window_live f \<and> fw_root_node_id f = i \<and> i \<noteq> empty_id}"
  have "card ?B \<le> root_count s i" unfolding root_count_def by (rule le_add2)
  also have "\<dots> \<le> 1" using assms(1) by (simp add: unique_roots_def)
  finally show ?thesis
    using assms(2-) by (intro card_le_1_eq [of ?B] finite_slots) auto
qed

lemma tombstoned_window_dead:
  assumes "stamped ps" and "k \<in> tombstoned_windows ps" and "fmlookup (st_windows (apply_all ps s)) k = Some f"
  shows "\<not> window_live f"
proof -
  obtain p as bs where p: "op_body p = TombstoneFloatingWindow k" "ps = as @ p # bs"
    using assms(2) by (auto simp: tombstoned_windows_iff dest: split_list)
  have "dead_at fw_tombstone_at (op_canonical_hlc p) (fmlookup (st_windows (apply_all ps s)) k)"
    using assms(1) p by (simp add: apply_all_slots slots_dead tombstone_slot_dead)
  then show ?thesis by (simp add: assms(3) dead_at_def)
qed

text \<open>A client batch that tombstones the root of a window tombstones the window too, and none
  tombstones the root of a workspace.\<close>

lemma rootChecks_tombstone:
  assumes it: "range_order it" and ok: "state_ok pre" "unique_roots pre"
    and checks: "rootChecks post batch False (registeredRoots it pre) postRoots ch = None"
    and p: "p \<in> set batch" "op_body p = TombstoneNode i"
  shows "\<not> (\<exists>w r. fmlookup (st_workspaces pre) w = Some r \<and> ws_root_node_id r = i \<and> i \<noteq> empty_id)"
    and "fmlookup (st_windows pre) k = Some f \<Longrightarrow> window_live f \<Longrightarrow> fw_root_node_id f = i \<Longrightarrow> i \<noteq> empty_id \<Longrightarrow>
      k \<in> tombstoned_windows batch"
proof -
  have *: "root_check post batch False (registeredRoots it pre) postRoots ch p = None"
    using checks p(1) by (simp add: rootChecks_def first_error_None)
  then show "\<not> (\<exists>w r. fmlookup (st_workspaces pre) w = Some r \<and> ws_root_node_id r = i \<and> i \<noteq> empty_id)"
    unfolding registers_workspace_roots [OF it, symmetric] by (simp add: root_check_def p(2) split: if_splits)
  assume f: "fmlookup (st_windows pre) k = Some f" "window_live f" "fw_root_node_id f = i" "i \<noteq> empty_id"
  obtain winID where win: "fmlookup (rs_window_roots (registeredRoots it pre)) i = Some winID"
    using registers_window_roots(2) [OF it f] by blast
  obtain j g where g: "fmlookup (st_windows pre) j = Some g" "window_live g" "fw_root_node_id g = i" "fw_window_id g = winID"
    using registers_window_roots(1) [OF it win] by blast
  have "j = k" by (rule window_root_unique [OF ok(2) g(1-3) f])
  then have "winID = k" using g(4) state_ok_id(3) [OF ok(1) g(1)] by simp
  then show "k \<in> tombstoned_windows batch"
    using * win by (simp add: root_check_def p(2) split: if_splits)
qed

lemma accepted_roots_alive:
  assumes it: "range_order it" and valid: "valid_state it pre" and stamps: "stamped batch"
    and alive: "roots_alive pre"
    and acc: "ValidateBatch it pre batch False u auth w = (VAccept aff post, w')"
  shows "roots_alive post"
  unfolding roots_alive_def
proof (intro allI impI)
  note post = ValidateBatch_accept(1) [OF acc]
  note checks = state_checks_None [OF ValidateBatch_accept(2) [OF acc]]
  have ok: "state_ok pre" "unique_roots pre" using valid by (auto simp: valid_state_def)
  fix i ws assume reg: "registers post i ws"
  show "\<exists>n. fmlookup (st_nodes post) i = Some n \<and> node_live n \<and> nd_parent_id n = empty_id"
  proof (cases "\<exists>p \<in> set batch. assigns_root p i")
    case True
    then show ?thesis using rootChecks_assigned [OF checks(7)] by blast
  next
    case False
    note tomb = rootChecks_tombstone [OF it ok checks(7)]
    have both: "(\<exists>ws. registers pre i ws) \<and> (\<forall>p \<in> set batch. op_body p \<noteq> TombstoneNode i)"
      using reg
    proof cases
      case (by_workspace r)
      then obtain r0 where r0: "fmlookup (st_workspaces pre) ws = Some r0" "ws_root_node_id r0 = i"
        using workspace_registration_all False post by blast
      then have "\<exists>ws. registers pre i ws" using by_workspace by (blast intro: registers.by_workspace)
      then show ?thesis using tomb(1) r0 by_workspace by blast
    next
      case (by_window k f)
      then obtain f0 where f0: "fmlookup (st_windows pre) k = Some f0" "window_live f0" "fw_root_node_id f0 = i"
        using window_registration_all False post by blast
      then have "\<exists>ws. registers pre i ws" using by_window by (blast intro: registers.by_window)
      then show ?thesis
        using tomb(2) [OF _ _ f0] tombstoned_window_dead [OF stamps _ by_window(1) [unfolded post]] by_window by blast
    qed
    then have quiet: "\<forall>p \<in> set batch. op_body p \<noteq> TombstoneNode i" by blast
    from both obtain n where n: "fmlookup (st_nodes pre) i = Some n" "node_live n" "nd_parent_id n = empty_id"
      using alive by (auto simp: roots_alive_def)
    have "op_body p \<noteq> SetNodeRegister i (NodeParentId v)" if "p \<in> set batch" for p v
      using validateSetOnce_no_reparent [OF checks(3)] that n(1) by (auto simp: no_reparent_def)
    with fold_keeps(1) [OF stamps] have "keeps_parent (Some n) (fold (node_slot i) batch (Some n))" by blast
    with fold_node_live [OF quiet n(2)] show ?thesis
      using n by (auto simp: post apply_all_slots keeps_parent_def)
  qed
qed

section \<open>Domains\<close>

text \<open>The numbers a state may hold, as rationals.\<close>

definition ratios_in_domain :: "float64 list lww option \<Rightarrow> bool" where
  "ratios_in_domain x = (case x of None \<Rightarrow> True
     | Some l \<Rightarrow> (\<forall>v \<in> set (lww_value l). f64_finite v \<and> 0 \<le> f64_rat v) \<and>
        (lww_value l = [] \<or> f64_lt (f64_abs (f64_sub (f64_sum (lww_value l)) f64_one)) (f64_of_rat False (1 / 10 ^ 9))))"

definition dimension_in_domain :: "32 word lww option \<Rightarrow> bool" where
  "dimension_in_domain x = (case x of None \<Rightarrow> True | Some l \<Rightarrow> 1 \<le> unat (lww_value l) \<and> unat (lww_value l) \<le> 20)"

definition real_in :: "(rat \<Rightarrow> bool) \<Rightarrow> float64 lww option \<Rightarrow> bool" where
  "real_in P x = (case x of None \<Rightarrow> True | Some l \<Rightarrow> f64_finite (lww_value l) \<and> P (f64_rat (lww_value l)))"

definition node_domain :: "node_record \<Rightarrow> bool" where
  "node_domain n \<longleftrightarrow> ratios_in_domain (nd_ratios n) \<and> ratios_in_domain (nd_row_ratios n) \<and>
     ratios_in_domain (nd_col_ratios n) \<and> dimension_in_domain (nd_rows n) \<and> dimension_in_domain (nd_cols n)"

definition window_domain :: "window_record \<Rightarrow> bool" where
  "window_domain f \<longleftrightarrow> real_in (\<lambda>_. True) (fw_x f) \<and> real_in (\<lambda>_. True) (fw_y f) \<and>
     real_in (\<lambda>q. 0 < q) (fw_width f) \<and> real_in (\<lambda>q. 0 < q) (fw_height f) \<and>
     real_in (\<lambda>q. 0 \<le> q \<and> q \<le> 1) (fw_opacity f)"

definition state_domain :: "org_state \<Rightarrow> bool" where
  "state_domain s \<longleftrightarrow> fmpred (\<lambda>_. node_domain) (st_nodes s) \<and> fmpred (\<lambda>_. window_domain) (st_windows s)"

lemma canonicalizeZero_finite [simp]: "f64_finite (canonicalizeZero v) \<longleftrightarrow> f64_finite v"
proof (cases "f64_sign v \<and> f64_eq v 0")
  case True
  then have "f64_finite v" unfolding f64_eq_def f64_finite_def by (cases "IsInf v") auto
  with True show ?thesis by (simp add: canonicalizeZero_def f64_finite_def)
qed (simp only: canonicalizeZero_def if_False)

lemma f64_fields_nat:
  "f64_expo w = (unat w div 2 ^ 52) mod 2 ^ 11" "f64_frac w = unat w mod 2 ^ 52"
  "f64_sign w \<longleftrightarrow> odd (unat w div 2 ^ 63)"
proof -
  have "unat w < 2 ^ 64" using unsigned_less [of w] by simp
  then show "f64_expo w = (unat w div 2 ^ 52) mod 2 ^ 11"
    unfolding f64_expo_def unsigned_take_bit_eq unsigned_drop_bit_eq by (simp add: take_bit_eq_mod drop_bit_eq_div)
  show "f64_frac w = unat w mod 2 ^ 52"
    unfolding f64_frac_def unsigned_take_bit_eq by (simp only: take_bit_eq_mod)
  show "f64_sign w \<longleftrightarrow> odd (unat w div 2 ^ 63)"
    unfolding f64_sign_def bit_iff_odd [symmetric] by (simp add: bit_unsigned_iff)
qed

lemma f64_one_rat: "\<not> IsNaN f64_one" "\<not> IsInf f64_one" "f64_rat f64_one = 1"
proof -
  have u: "unat f64_one = 0x3FF0000000000000" by simp
  have e: "f64_expo f64_one = 1023" "f64_frac f64_one = 0" "\<not> f64_sign f64_one"
    by (simp_all only: f64_fields_nat u) simp_all
  then show "\<not> IsNaN f64_one" "\<not> IsInf f64_one" by (simp_all add: IsNaN_def IsInf_def)
  show "f64_rat f64_one = 1" by (simp add: f64_rat_def f64_mag_def e pow2_def)
qed

lemma setLWW_cases: "setLWW x h v = x \<or> (\<exists>h'. setLWW x h v = Some \<lparr>lww_value = v, lww_hlc = h'\<rparr>)"
  by (auto simp: setLWW_def)

lemma set_in_domain:
  "validRatios vs \<Longrightarrow> ratios_in_domain x \<Longrightarrow> ratios_in_domain (setLWWDoubles x h vs)"
  "\<not> (k = 0 \<or> k > MaxGridDimension) \<Longrightarrow> dimension_in_domain y \<Longrightarrow> dimension_in_domain (setLWWUint32 y h k)"
  "f64_finite v \<Longrightarrow> P (f64_rat v) \<Longrightarrow> real_in P z \<Longrightarrow> real_in P (setLWWDouble z h v)"
proof -
  assume vs: "validRatios vs" and x: "ratios_in_domain x"
  have el: "\<forall>v \<in> set vs. f64_finite v \<and> 0 \<le> f64_rat v" using validRatios_elements [OF vs] by blast
  have "ratios_in_domain (Some \<lparr>lww_value = canonicalizeZeros vs, lww_hlc = h'\<rparr>)" for h'
    using el validRatios_total [OF vs] f64_sum_canonicalizeZeros [OF el]
    by (cases vs) (auto simp: ratios_in_domain_def canonicalizeZeros_def canonicalizeZero_value ratioTolerance_def)
  then show "ratios_in_domain (setLWWDoubles x h vs)"
    using setLWW_cases [of x h "canonicalizeZeros vs"] x by (auto simp: setLWWDoubles_def)
next
  assume *: "\<not> (k = 0 \<or> k > MaxGridDimension)" "dimension_in_domain y"
  then have "1 \<le> unat k" "unat k \<le> 20"
    by (auto simp: MaxGridDimension_def word_less_nat_alt unat_gt_0 Suc_le_eq)
  then show "dimension_in_domain (setLWWUint32 y h k)"
    using setLWW_cases [of y h k] *(2) by (auto simp: setLWWUint32_def dimension_in_domain_def)
next
  assume "f64_finite v" "P (f64_rat v)" "real_in P z"
  then show "real_in P (setLWWDouble z h v)"
    using setLWW_cases [of z h "canonicalizeZero v"]
    by (auto simp: setLWWDouble_def real_in_def canonicalizeZero_value)
qed

lemma float_domains:
  "f64_finite v \<Longrightarrow> \<not> f64_le v 0 \<Longrightarrow> 0 < f64_rat v"
  "f64_finite v \<Longrightarrow> \<not> f64_lt v 0 \<Longrightarrow> 0 \<le> f64_rat v"
  "f64_finite v \<Longrightarrow> \<not> f64_lt f64_one v \<Longrightarrow> f64_rat v \<le> 1"
  by (auto simp: f64_finite_def f64_le_def f64_lt_def f64_eq_def f64_one_rat)

lemma slot_domain:
  assumes "domain_ok (op_body p)"
  shows "pred_option node_domain x \<Longrightarrow> pred_option node_domain (node_slot i p x)"
    and "pred_option window_domain y \<Longrightarrow> pred_option window_domain (window_slot i p y)"
proof -
  have new: "node_domain (empty_node i)" "window_domain (empty_window i)" for i
    by (simp_all add: node_domain_def window_domain_def empty_node_def empty_window_def ratios_in_domain_def
        dimension_in_domain_def real_in_def)
  have frame: "node_domain (n\<lparr>nd_tombstone_at := t\<rparr>) = node_domain n"
    "window_domain (f\<lparr>fw_tombstone_at := t\<rparr>) = window_domain f" for n f t
    by (simp_all add: node_domain_def window_domain_def)
  have nf: "node_domain (write_node_field fld h n)"
    if "domain_ok (SetNodeRegister j fld)" "node_domain n" for fld h n j
    using that by (cases fld) (auto simp: node_domain_def domain_ok_def intro!: set_in_domain)
  have wf: "window_domain (write_window_field fld h n)"
    if "domain_ok (SetFloatingWindowRegister j fld)" "window_domain n" for fld h n j
    using that by (cases fld)
      (auto simp: window_domain_def domain_ok_def intro!: set_in_domain float_domains)
  show "pred_option node_domain x \<Longrightarrow> pred_option node_domain (node_slot i p x)"
    using assms nf new(1) by (cases "op_body p"; cases x) (auto simp: slot_defs frame split: option.splits)
  show "pred_option window_domain y \<Longrightarrow> pred_option window_domain (window_slot i p y)"
    using assms wf new(2) by (cases "op_body p"; cases y) (auto simp: slot_defs frame split: option.splits)
qed

lemma accepted_domain:
  assumes "\<forall>p \<in> set batch. domain_ok (op_body p)" and "state_domain s"
  shows "state_domain (apply_all batch s)"
proof -
  have "pred_option node_domain x \<Longrightarrow> pred_option node_domain (fold (node_slot i) batch x)"
    "pred_option window_domain y \<Longrightarrow> pred_option window_domain (fold (window_slot i) batch y)" for i x y
    using assms(1) by (induction batch arbitrary: x y) (simp_all add: slot_domain)
  then show ?thesis
    using assms(2) by (simp add: state_domain_def fmpred_slots apply_all_slots)
qed

section \<open>Pruning\<close>

text \<open>Two states that agree on what is live.\<close>

definition same_live :: "org_state \<Rightarrow> org_state \<Rightarrow> bool" where
  "same_live s s' \<longleftrightarrow> st_org_id s = st_org_id s' \<and> st_workspaces s = st_workspaces s' \<and>
     (\<forall>i n. fmlookup (st_nodes s) i = Some n \<and> node_live n \<longleftrightarrow> fmlookup (st_nodes s') i = Some n \<and> node_live n) \<and>
     (\<forall>i t. fmlookup (st_tabs s) i = Some t \<and> tab_live t \<longleftrightarrow> fmlookup (st_tabs s') i = Some t \<and> tab_live t) \<and>
     (\<forall>i f. fmlookup (st_windows s) i = Some f \<and> window_live f \<longleftrightarrow> fmlookup (st_windows s') i = Some f \<and> window_live f)"

lemma fmap_ext_Some: "(\<And>k v. fmlookup m k = Some v \<longleftrightarrow> fmlookup n k = Some v) \<Longrightarrow> m = n"
  by (intro fmap_ext) (metis not_Some_eq)

lemma same_live_walks:
  assumes "same_live s s'"
  shows "live_parents s = live_parents s'" "top_nodes s = top_nodes s'"
    "registers s i w \<longleftrightarrow> registers s' i w" "root_count s i = root_count s' i"
proof -
  have n: "(\<exists>n. fmlookup (st_nodes s) i = Some n \<and> node_live n \<and> P n) \<longleftrightarrow>
      (\<exists>n. fmlookup (st_nodes s') i = Some n \<and> node_live n \<and> P n)" for i P
    using assms unfolding same_live_def by metis
  have f: "(\<exists>f. fmlookup (st_windows s) i = Some f \<and> window_live f \<and> P f) \<longleftrightarrow>
      (\<exists>f. fmlookup (st_windows s') i = Some f \<and> window_live f \<and> P f)" for i P
    using assms unfolding same_live_def by metis
  have ws: "st_workspaces s = st_workspaces s'" using assms by (simp add: same_live_def)
  show "live_parents s = live_parents s'" by (rule fmap_ext_Some) (simp add: live_parents_lookup n)
  show "top_nodes s = top_nodes s'" by (rule fmap_ext_Some) (simp add: top_nodes_lookup n)
  have "registers t i w \<longleftrightarrow> (\<exists>r. fmlookup (st_workspaces t) w = Some r \<and> ws_root_node_id r = i \<and> i \<noteq> empty_id) \<or>
      (\<exists>k f. fmlookup (st_windows t) k = Some f \<and> window_live f \<and> fw_root_node_id f = i \<and> i \<noteq> empty_id \<and> workspace_of f = w)" for t
    by (auto elim!: registers.cases intro: registers.intros)
  then show "registers s i w \<longleftrightarrow> registers s' i w" by (simp only: ws f)
  show "root_count s i = root_count s' i" by (simp only: root_count_def ws f)
qed

lemma same_live_resolve:
  assumes "same_live s s'" and "unique_roots s" and it: "range_order it"
  shows "rs_roots (registeredRoots it s) = rs_roots (registeredRoots it s')"
    and "resolveTileWorkspace s tile (registeredRoots it s) = resolveTileWorkspace s' tile (registeredRoots it s')"
proof -
  have "unique_roots s'" using assms(2) same_live_walks(4) [OF assms(1)] by (simp add: unique_roots_def)
  then show roots: "rs_roots (registeredRoots it s) = rs_roots (registeredRoots it s')"
    using registeredRoots_unique [OF assms(2) it] registeredRoots_unique [OF _ it, of s'] same_live_walks(3) [OF assms(1)]
    by (intro fmap_ext_Some) simp
  show "resolveTileWorkspace s tile (registeredRoots it s) = resolveTileWorkspace s' tile (registeredRoots it s')"
    by (simp add: resolveTileWorkspace_def Let_def chainAlive_iff alive_above_def roots same_live_walks(1,2) [OF assms(1)])
qed

lemma same_live_leaf:
  assumes "same_live s s'" and "state_ok s" and "state_ok s'"
  shows "tileIsLeaf s i \<longleftrightarrow> tileIsLeaf s' i"
proof -
  have live: "node_live n" if "state_ok t" "fmlookup (st_nodes t) i = Some n" "kind_of n = NODE_KIND_LEAF" for t n
  proof (rule ccontr)
    assume "\<not> node_live n"
    with that(1,2) have "n = (empty_node i)\<lparr>nd_tombstone_at := nd_tombstone_at n\<rparr>"
      by (auto simp: state_ok_def node_ok_def fmpred_iff)
    from arg_cong [OF this, of nd_kind] have "nd_kind n = None" by (simp add: empty_node_def)
    with that(3) show False by simp
  qed
  have "tileIsLeaf t i \<longleftrightarrow> (\<exists>n. fmlookup (st_nodes t) i = Some n \<and> node_live n \<and> kind_of n = NODE_KIND_LEAF)"
    if "state_ok t" for t
    using live [OF that] by (auto simp: tileIsLeaf_def split: option.splits)
  then show ?thesis using assms unfolding same_live_def by metis
qed

lemma same_live_rows:
  assumes same: "same_live s s'" and "unique_roots s" and it: "range_order it" and ok: "state_ok s" "state_ok s'"
  shows "owned_of it s i = owned_of it s' i \<and> rendered_of it s i = rendered_of it s' i"
proof -
  have "tab_row s = tab_row s'" using same by (simp add: same_live_def tab_row_def fun_eq_iff)
  then have rows: "own_row s (registeredRoots it s) t = own_row s' (registeredRoots it s') t"
    "render_row s (registeredRoots it s) t = render_row s' (registeredRoots it s') t" for t
    by (simp_all add: own_row_def render_row_def Let_def same_live_resolve(2) [OF same assms(2) it] same_live_leaf [OF same ok])
  have dead: "own_row t r u = None" "render_row t r u = None" if "\<not> tab_live u" for t r u
    using that by (simp_all add: own_row_def render_row_def)
  have "fmlookup (st_tabs s) i = fmlookup (st_tabs s') i \<or>
    (\<forall>t. fmlookup (st_tabs s) i = Some t \<longrightarrow> \<not> tab_live t) \<and> (\<forall>t. fmlookup (st_tabs s') i = Some t \<longrightarrow> \<not> tab_live t)"
    using same unfolding same_live_def by metis
  then show ?thesis
    by (auto simp: owned_of_def rendered_of_def projectOneTab_eq rows dead split: option.splits)
qed

lemma prune_org: "st_org_id (fst (PruneTombstonesAtOrBelow it s wm)) = st_org_id s"
  by (simp add: PruneTombstonesAtOrBelow_def split: prod.splits)

lemma prune_same_live:
  assumes it: "range_order it"
  shows "same_live (fst (PruneTombstonesAtOrBelow it s wm)) s"
proof (cases "HLCIsZero wm")
  case False
  note look = prune_fields [OF False] prune_map_spec(1) [OF it]
  show ?thesis unfolding same_live_def
    using prune_fields [OF False, where it = it and s = s]
    by (auto simp: look prunable_def prune_org split: option.splits if_splits)
qed (simp add: PruneTombstonesAtOrBelow_def same_live_def)

lemma prune_state_ok:
  assumes it: "range_order it" and "state_ok s"
  shows "state_ok (fst (PruneTombstonesAtOrBelow it s wm))"
proof (cases "HLCIsZero wm")
  case False
  show ?thesis using assms(2)
    by (auto simp: state_ok_def prune_fields [OF False] fmpred_iff prune_map_spec(1) [OF it] split: option.splits if_splits)
qed (simp add: PruneTombstonesAtOrBelow_def assms(2))

lemma prune_named:
  assumes it: "range_order it" and "named_state s"
  shows "named_state (fst (PruneTombstonesAtOrBelow it s wm))"
proof (cases "HLCIsZero wm")
  case False
  show ?thesis using assms(2)
    by (auto simp: named_state_def prune_fields [OF False] prune_map_spec(1) [OF it] split: option.splits if_splits)
qed (simp add: PruneTombstonesAtOrBelow_def assms(2))

lemma same_live_checks:
  assumes same: "same_live s' s" and u: "unique_roots s'" and it: "range_order it" and ok: "state_ok s'" "state_ok s"
  shows "tab_placed it s' i \<longleftrightarrow> tab_placed it s i" "incomplete_at it s' i \<longleftrightarrow> incomplete_at it s i"
    "complete_state it s' \<longleftrightarrow> complete_state it s"
proof -
  note roots = same_live_resolve(1) [OF same u it]
  have placed: "placed s' (registeredRoots it s') tile ws \<longleftrightarrow> placed s (registeredRoots it s) tile ws" for tile ws
    by (simp add: placed_def roots same_live_walks [OF same] alive_above_def same_live_leaf [OF same ok])
  show "tab_placed it s' i \<longleftrightarrow> tab_placed it s i" using same unfolding tab_placed_def placed same_live_def by blast
  have live: "(\<exists>t. fmlookup (st_tabs s') i = Some t \<and> tab_live t \<and> P t) \<longleftrightarrow> (\<exists>t. fmlookup (st_tabs s) i = Some t \<and> tab_live t \<and> P t)"
    "(\<exists>n. fmlookup (st_nodes s') i = Some n \<and> node_live n \<and> Q n) \<longleftrightarrow> (\<exists>n. fmlookup (st_nodes s) i = Some n \<and> node_live n \<and> Q n)"
    "(\<exists>f. fmlookup (st_windows s') i = Some f \<and> window_live f \<and> R f) \<longleftrightarrow> (\<exists>f. fmlookup (st_windows s) i = Some f \<and> window_live f \<and> R f)"
    for i P Q R using same unfolding same_live_def by metis+
  show inc: "incomplete_at it s' i \<longleftrightarrow> incomplete_at it s i" for i
    unfolding incomplete_at_def tab_incomplete_def node_incomplete_def window_incomplete_def roots live ..
  have "complete_state it x \<longleftrightarrow> (\<forall>i. \<not> incomplete_at it x i)" for x
    by (auto simp: complete_state_def incomplete_at_def)
  then show "complete_state it s' \<longleftrightarrow> complete_state it s" using inc by simp
qed

lemma same_live_sound:
  assumes same: "same_live s' s" and ok: "state_ok s'" and it: "range_order it" and sound: "sound_state it s"
  shows "sound_state it s'"
proof -
  have s: "state_ok s" "unique_roots s" using sound by (auto simp: sound_state_def)
  have u: "unique_roots s'" using s(2) same_live_walks(4) [OF same] by (simp add: unique_roots_def)
  show ?thesis using sound ok u same_live_checks [OF same u it ok s(1)] by (simp add: sound_state_def)
qed

lemma same_live_valid:
  assumes "same_live s' s" and "state_ok s'" "named_state s'" and "range_order it" and "valid_state it s"
  shows "valid_state it s'"
  by (rule sound_named [OF same_live_sound [OF assms(1,2,4) valid_sound [OF assms(5)]] assms(3)])

section \<open>Properties\<close>

text \<open>C2: what the validator guarantees of every batch it accepts, of clients and of the hub itself
  and whatever identifiers the batch names: the new state is the old one with the operations
  applied in order; its records are well formed; no node is the root of two owners; every live
  tab with a non-empty id sits on a live leaf that is reachable from a root; and no live record misses
  a register, unless an incomplete one is filed under the empty identifier, which the check takes
  for success. If the old state is valid and the batch names no record by the empty identifier, the
  new state is valid without exception.\<close>

theorem accepted_batch_valid:
  assumes "range_order it" and "sound_state it pre"
    and "ValidateBatch it pre batch internal u auth w = (VAccept aff post, w')"
  shows "post = apply_all batch pre \<and> sound_state it post \<and>
    (valid_state it pre \<and> named_batch batch \<longrightarrow> valid_state it post)"
  using ValidateBatch_accept(1) [OF assms(3)] accepted_sound [OF assms] accepted_valid [OF assms(1) _ _ assms(3)] by blast

text \<open>A batch of a client never destroys a root: every node that is registered as the root
  of a workspace or of a live window is live and without a parent, before and after.\<close>

theorem client_batch_keeps_roots:
  assumes "range_order it" and "valid_state it pre" and "stamped batch" and "roots_alive pre"
    and "ValidateBatch it pre batch False u auth w = (VAccept aff post, w')"
  shows "roots_alive post"
  by (rule accepted_roots_alive [OF assms])

text \<open>Registers that may be set once never change again: an accepted batch leaves the
  parent of every existing node that stays live, the root of every existing window that stays
  live, and the root of every workspace that has one.\<close>

theorem accepted_batch_set_once:
  assumes "stamped batch" and "ValidateBatch it pre batch internal u auth w = (VAccept aff post, w')"
  shows "(fmlookup (st_nodes pre) i = Some n \<longrightarrow> (\<exists>n'. fmlookup (st_nodes post) i = Some n' \<and>
      (node_live n' \<longrightarrow> node_live n \<and> nd_parent_id n' = nd_parent_id n))) \<and>
    (fmlookup (st_windows pre) i = Some f \<longrightarrow> (\<exists>f'. fmlookup (st_windows post) i = Some f' \<and>
      (window_live f' \<longrightarrow> window_live f \<and> fw_root_node_id f' = fw_root_node_id f))) \<and>
    (fmlookup (st_workspaces pre) i = Some r \<longrightarrow> ws_root_node_id r \<noteq> empty_id \<longrightarrow>
      fmlookup (st_workspaces post) i = Some r)"
proof (intro conjI impI)
  note post = ValidateBatch_accept(1) [OF assms(2)]
  note once = state_checks_None(3) [OF ValidateBatch_accept(2) [OF assms(2)]]
  assume n: "fmlookup (st_nodes pre) i = Some n"
  have "op_body p \<noteq> SetNodeRegister i (NodeParentId v)" if "p \<in> set batch" for p v
    using bspec [OF once that] n by (auto simp: validateSetOnce_def)
  with fold_keeps(1) [OF assms(1)] have "keeps_parent (Some n) (fold (node_slot i) batch (Some n))" by blast
  then show "\<exists>n'. fmlookup (st_nodes post) i = Some n' \<and>
      (node_live n' \<longrightarrow> node_live n \<and> nd_parent_id n' = nd_parent_id n)"
    by (simp add: post apply_all_slots n keeps_parent_def)
next
  note post = ValidateBatch_accept(1) [OF assms(2)]
  note once = state_checks_None(3) [OF ValidateBatch_accept(2) [OF assms(2)]]
  assume f: "fmlookup (st_windows pre) i = Some f"
  have "op_body p \<noteq> SetFloatingWindowRegister i (WindowRootNodeId v)" if "p \<in> set batch" for p v
    using bspec [OF once that] f by (auto simp: validateSetOnce_def)
  with fold_keeps(2) [OF assms(1)] have "keeps_root (Some f) (fold (window_slot i) batch (Some f))" by blast
  then show "\<exists>f'. fmlookup (st_windows post) i = Some f' \<and>
      (window_live f' \<longrightarrow> window_live f \<and> fw_root_node_id f' = fw_root_node_id f)"
    by (simp add: post apply_all_slots f keeps_root_def)
next
  assume "fmlookup (st_workspaces pre) i = Some r" "ws_root_node_id r \<noteq> empty_id"
  then show "fmlookup (st_workspaces post) i = Some r"
    by (simp add: ValidateBatch_accept(1) [OF assms(2)] apply_all_slots fold_root_kept)
qed

text \<open>C5: stored numbers stay within their domains. After an accepted batch every ratio is finite
  and not negative, the ratios of a node are none or add up to 1 within 1e-9 in the double arithmetic
  of the code, every grid has 1 to 20 rows and columns, every window has finite
  coordinates, a positive size and an opacity from 0 to 1.\<close>

theorem accepted_batch_domains:
  assumes "state_domain pre" and "ValidateBatch it pre batch internal u auth w = (VAccept aff post, w')"
  shows "state_domain post"
  using accepted_domain [OF state_checks_None(5) [OF ValidateBatch_accept(2) [OF assms(2)]] assms(1)]
    ValidateBatch_accept(1) [OF assms(2)] by simp

text \<open>Pruning tombstones is invisible: a valid state stays valid and every tab has the same
  row in the owned index and in the rendered index.\<close>

theorem prune_invisible:
  assumes "range_order it" and "valid_state it s"
  shows "valid_state it (fst (PruneTombstonesAtOrBelow it s wm)) \<and>
    owned_of it (fst (PruneTombstonesAtOrBelow it s wm)) i = owned_of it s i \<and>
    rendered_of it (fst (PruneTombstonesAtOrBelow it s wm)) i = rendered_of it s i"
proof -
  have s: "state_ok s" "named_state s" using assms(2) by (auto simp: valid_state_def)
  note same = prune_same_live [OF assms(1), of s wm]
  have v: "valid_state it (fst (PruneTombstonesAtOrBelow it s wm))"
    by (rule same_live_valid [OF same prune_state_ok [OF assms(1) s(1)] prune_named [OF assms(1) s(2)] assms])
  then have "unique_roots (fst (PruneTombstonesAtOrBelow it s wm))" by (simp add: valid_state_def)
  from same_live_rows [OF same this assms(1) prune_state_ok [OF assms(1) s(1)] s(1)] v show ?thesis by simp
qed


end
