(* ===== verification/Materialize.thy ===== *)
theory Materialize
  imports BroadcastLaws ValidState
begin

text \<open>
  The snapshot a subscriber starts from (\<open>materializedLocked\<close> and \<open>buildNodeWorkspaceMap\<close> of
  backend/internal/hub/crdt/manager.go), and how a subscription computes its filter
  (\<open>resolveAllowedWorkspaces\<close> and its callers in backend/internal/hub/service/crdt\_service.go
  and ws\_orgevents.go).
\<close>

section \<open>The workspace of every visible node\<close>

definition ws_push :: "ident \<Rightarrow> ident list \<Rightarrow> (ident, ident) fmap \<times> ident list \<Rightarrow> (ident, ident) fmap \<times> ident list" where
  "ws_push wsID cs acc = fold (\<lambda>child (out, queue). if fmlookup out child \<noteq> None then (out, queue)
     else (fmupd child wsID out, queue @ [child])) cs acc"

lemma ws_push_bfs:
  "(fmdom' (fst (ws_push wsID cs (out, q))), snd (ws_push wsID cs (out, q))) = bfs_push cs (fmdom' out, q)"
proof (induction cs arbitrary: out q)
  case (Cons c cs)
  then show ?case
    by (cases "fmlookup out c") (auto simp: ws_push_def fmdom'_notI fmdom'I)
qed (simp add: ws_push_def)

function ws_bfs :: "child_index \<Rightarrow> ident \<Rightarrow> (ident, ident) fmap \<Rightarrow> ident list \<Rightarrow> (ident, ident) fmap" where
  "ws_bfs idx wsID out [] = out"
| "ws_bfs idx wsID out (cur # queue) =
     (let acc = ws_push wsID (kids idx cur) (out, queue) in ws_bfs idx wsID (fst acc) (snd acc))"
  by pat_completeness auto

termination
proof (relation "inv_image (less_than <*lex*> less_than)
    (\<lambda>(idx, _, out, q). (card (all_kids idx - fmdom' out), length q))")
  fix idx wsID out cur queue acc
  assume acc: "acc = ws_push wsID (kids idx cur) (out, queue)"
  have "(fmdom' (fst acc), snd acc) = bfs_push (kids idx cur) (fmdom' out, queue)" unfolding acc by (rule ws_push_bfs)
  with bfs_decreases [of idx cur "fmdom' out" queue]
  show "((idx, wsID, fst acc, snd acc), (idx, wsID, out, cur # queue)) \<in> inv_image (less_than <*lex*> less_than)
      (\<lambda>(idx, _, out, q). (card (all_kids idx - fmdom' out), length q))"
    by (auto simp: case_prod_beta dest: sym)
qed auto

definition buildNodeWorkspaceMap :: "range_fun \<Rightarrow> org_state \<Rightarrow> root_set \<Rightarrow> subscriber_filter \<Rightarrow> (ident, ident) fmap" where
  "buildNodeWorkspaceMap it s roots f = (let idx = BuildAllChildrenIndex it s in
     fold (\<lambda>(rootID, wsID) out. if \<not> IsAllowed f wsID then out
             else ws_bfs idx wsID (fmupd rootID wsID out) [rootID]) (go_range it (rs_roots roots)) fmempty)"

record org_materialized = materialized +
  om_org_id :: ident
  om_max_hlc :: "hlc option"
  om_epoch :: int

text \<open>The entries of a map that satisfy a condition.\<close>

definition fm_keep :: "('k \<Rightarrow> 'v \<Rightarrow> bool) \<Rightarrow> ('k, 'v) fmap \<Rightarrow> ('k, 'v) fmap" where
  "fm_keep P m = fmfilter (\<lambda>k. case fmlookup m k of None \<Rightarrow> False | Some v \<Rightarrow> P k v) m"

lemma fmlookup_keep: "fmlookup (fm_keep P m) k = (case fmlookup m k of None \<Rightarrow> None | Some v \<Rightarrow> if P k v then Some v else None)"
  by (simp add: fm_keep_def split: option.splits)

definition materializedLocked :: "range_fun \<Rightarrow> org_state \<Rightarrow> subscriber_filter \<Rightarrow> org_materialized" where
  "materializedLocked it s f = (let nodeWS = buildNodeWorkspaceMap it s (registeredRoots it s) f in
     \<lparr>mt_nodes = fm_keep (\<lambda>i n. HLCIsZero (nd_tombstone_at n) \<and> fmlookup nodeWS i \<noteq> None) (st_nodes s),
      mt_tabs = fm_keep (\<lambda>i t. fmlookup nodeWS (tile_of t) \<noteq> None) (st_tabs s),
      mt_windows = fm_keep (\<lambda>i w. workspace_of w \<noteq> empty_id \<and> IsAllowed f (workspace_of w)) (st_windows s),
      mt_workspaces = fm_keep (\<lambda>i w. IsAllowed f i) (st_workspaces s),
      om_org_id = st_org_id s, om_max_hlc = HLCClone (st_max_hlc s), om_epoch = st_epoch s\<rparr>)"

section \<open>The filter of a subscription\<close>

text \<open>The errors of the service layer: a refusal, a missing user, a delegation out of its scope, and
  a store that failed. The query for all workspaces of a user is a parameter beside the store.\<close>

datatype 'e service_error = PermissionDenied | NotAuthenticated | DelegationDenied scope_denied | StoreFailed "'e store_error"

type_synonym ('w, 'e) list_accessible = "user_id \<Rightarrow> ident \<Rightarrow> 'w \<Rightarrow> ('e store_error + workspace_row list) \<times> 'w"

definition resolveAllowedWorkspaces :: "('w, 'e) list_accessible \<Rightarrow> ('w, 'e) auth_store \<Rightarrow> org_binding \<Rightarrow> ident list \<Rightarrow>
    user_id \<Rightarrow> 'w \<Rightarrow> ('e service_error + ident list) \<times> 'w" where
  "resolveAllowedWorkspaces la st b requested u w =
     (if DeniesAll b then (Inl PermissionDenied, w)
      else if requested = [] then
        (case ListFilterOrgID b of (orgID, ok) \<Rightarrow>
           if \<not> ok then (Inl PermissionDenied, w)
           else (case la u orgID w of
                   (Inl e, w') \<Rightarrow> (Inl (StoreFailed e), w')
                 | (Inr rows, w') \<Rightarrow> (Inr (map wr_id rows), w')))
      else (case WorkspacesReadableByUser st b u requested w of
              (Inl e, w') \<Rightarrow> (Inl (StoreFailed e), w') | (Inr ids, w') \<Rightarrow> (Inr ids, w')))"

definition resolveAllowedWorkspacesForUser :: "('w, 'e) list_accessible \<Rightarrow> ('w, 'e) auth_store \<Rightarrow> org_binding \<Rightarrow> ident list \<Rightarrow>
    user_info option \<Rightarrow> 'w \<Rightarrow> ('e service_error + ident list) \<times> 'w" where
  "resolveAllowedWorkspacesForUser la st b requested user w = (case user of
     None \<Rightarrow> (Inl NotAuthenticated, w)
   | Some u \<Rightarrow> (case delegationScopedWorkspaceRequest user requested of
       Inl e \<Rightarrow> (Inl (DelegationDenied e), w)
     | Inr scoped \<Rightarrow> if sr_deny scoped then (Inr [], w)
         else resolveAllowedWorkspaces la st b (sr_workspaces scoped) (ui_id u) w))"

definition id_set :: "ident list \<Rightarrow> bool_map" where
  "id_set ids = fold (\<lambda>i m. fmupd i True m) ids fmempty"

definition resolveAllowedWorkspacesSetForUser :: "('w, 'e) list_accessible \<Rightarrow> ('w, 'e) auth_store \<Rightarrow> org_binding \<Rightarrow> ident list \<Rightarrow>
    user_info option \<Rightarrow> 'w \<Rightarrow> ('e service_error + bool_map) \<times> 'w" where
  "resolveAllowedWorkspacesSetForUser la st b requested user w =
     (case resolveAllowedWorkspacesForUser la st b requested user w of
        (Inl e, w') \<Rightarrow> (Inl e, w') | (Inr ids, w') \<Rightarrow> (Inr (id_set ids), w'))"

text \<open>The subscriber that a connection of the event stream builds, with the filter it is given.\<close>

definition stream_subscriber :: "user_info \<Rightarrow> ident \<Rightarrow> ident list \<Rightarrow> ident \<Rightarrow> bool_map \<Rightarrow> subscriber" where
  "stream_subscriber u client workspaceIDs stream allowed =
     \<lparr>sub_user = uid_id (ui_id u), sub_client = client,
      sub_requested = (if workspaceIDs \<noteq> [] then Some (id_set workspaceIDs) else None),
      sub_scope = WorkspaceScopeID (ui_credential u), sub_filter = \<lparr>WorkspaceIDs = Some allowed\<rparr>, sub_send = stream\<rparr>"

section \<open>What the walk finds\<close>

declare ws_bfs.simps [simp del]

lemma ws_bfs_dom: "fmdom' (ws_bfs idx wsID out q) = bfs_loop idx (fmdom' out) q"
proof (induction idx wsID out q rule: ws_bfs.induct)
  case (2 idx wsID out cur queue)
  let ?acc = "ws_push wsID (kids idx cur) (out, queue)"
  have "(fmdom' (fst ?acc), snd ?acc) = bfs_push (kids idx cur) (fmdom' out, queue)" by (rule ws_push_bfs)
  then have "bfs_loop idx (fmdom' out) (cur # queue) = bfs_loop idx (fmdom' (fst ?acc)) (snd ?acc)"
    by (metis bfs_loop.simps(2) fst_conv snd_conv)
  then show ?case using 2 [OF refl] by (simp add: Let_def ws_bfs.simps del: bfs_loop.simps)
qed (simp add: ws_bfs.simps)

definition closed_in :: "child_index \<Rightarrow> ident set \<Rightarrow> bool" where
  "closed_in idx X \<longleftrightarrow> (\<forall>x \<in> X. set (kids idx x) \<subseteq> X)"

lemma ws_bfs_root:
  assumes "closed_in idx (fmdom' out)"
  shows "fmdom' (ws_bfs idx wsID (fmupd r wsID out) [r]) = fmdom' out \<union> reach idx r"
    "closed_in idx (fmdom' (ws_bfs idx wsID (fmupd r wsID out) [r]))"
proof -
  let ?X = "bfs_loop idx (insert r (fmdom' out)) [r]"
  have c: "insert r (fmdom' out) \<subseteq> ?X \<and> (\<forall>x \<in> ?X. set (kids idx x) \<subseteq> ?X)"
    by (rule bfs_loop_closed) (use assms in \<open>auto simp: closed_in_def\<close>)
  have up: "?X \<subseteq> (child_rel idx)\<^sup>* `` insert r (fmdom' out)" by (rule bfs_loop_reach) simp
  have stay: "(child_rel idx)\<^sup>* `` fmdom' out \<subseteq> fmdom' out"
  proof clarify
    fix x y assume "(x, y) \<in> (child_rel idx)\<^sup>*" "x \<in> fmdom' out"
    then show "y \<in> fmdom' out" by induction (use assms in \<open>auto simp: closed_in_def child_rel_def\<close>)
  qed
  have "?X = fmdom' out \<union> reach idx r"
    using c up stay closed_contains_reach [of r ?X idx] by auto
  then show "fmdom' (ws_bfs idx wsID (fmupd r wsID out) [r]) = fmdom' out \<union> reach idx r"
    by (simp add: ws_bfs_dom del: bfs_loop.simps)
  show "closed_in idx (fmdom' (ws_bfs idx wsID (fmupd r wsID out) [r]))"
    using c by (simp add: ws_bfs_dom closed_in_def del: bfs_loop.simps)
qed

lemma buildNodeWorkspaceMap_dom:
  assumes it: "range_order it"
  shows "fmlookup (buildNodeWorkspaceMap it s roots f) i \<noteq> None \<longleftrightarrow>
    (\<exists>r w. fmlookup (rs_roots roots) r = Some w \<and> IsAllowed f w \<and> i \<in> reach (BuildAllChildrenIndex it s) r)"
proof -
  let ?idx = "BuildAllChildrenIndex it s"
  let ?g = "\<lambda>(rootID, wsID) out. if \<not> IsAllowed f wsID then out else ws_bfs ?idx wsID (fmupd rootID wsID out) [rootID]"
  have "closed_in ?idx (fmdom' (fold ?g ps out)) \<and>
      fmdom' (fold ?g ps out) = fmdom' out \<union> (\<Union>(r, w) \<in> set ps. if IsAllowed f w then reach ?idx r else {})"
    if "closed_in ?idx (fmdom' out)" for ps out
    using that
  proof (induction ps arbitrary: out)
    case Nil
    then show ?case by simp
  next
    case (Cons p ps)
    obtain r w where p: "p = (r, w)" by fastforce
    show ?case
    proof (cases "IsAllowed f w")
      case True
      note one = ws_bfs_root [OF Cons.prems, of w r]
      show ?thesis using Cons.IH [OF one(2)] True by (auto simp: p one(1))
    next
      case False
      then have "fold ?g (p # ps) out = fold ?g ps out" by (simp add: p)
      moreover have "(\<Union>(r, w) \<in> set (p # ps). if IsAllowed f w then reach ?idx r else {}) =
          (\<Union>(r, w) \<in> set ps. if IsAllowed f w then reach ?idx r else {})" using False by (simp add: p)
      ultimately show ?thesis using Cons.IH [OF Cons.prems] by metis
    qed
  qed
  from this [of fmempty "go_range it (rs_roots roots)"]
  have "fmdom' (buildNodeWorkspaceMap it s roots f) =
      (\<Union>(r, w) \<in> set (go_range it (rs_roots roots)). if IsAllowed f w then reach ?idx r else {})"
    by (simp add: buildNodeWorkspaceMap_def Let_def closed_in_def)
  then have "i \<in> fmdom' (buildNodeWorkspaceMap it s roots f) \<longleftrightarrow>
      (\<exists>r w. fmlookup (rs_roots roots) r = Some w \<and> IsAllowed f w \<and> i \<in> reach ?idx r)"
    unfolding set_go_range [OF it] by (auto split: if_splits)
  then show ?thesis by (simp add: fmlookup_dom'_iff)
qed

text \<open>When no root hangs below another node, the walk down from the allowed roots finds the nodes
  whose walk up ends in an allowed workspace.\<close>

lemma reach_iff_climbs:
  assumes it: "range_order it" and named: "named_state s" and alive: "roots_alive s"
  shows "(\<exists>r. fmlookup (rs_roots (registeredRoots it s)) r = Some w \<and> i \<in> reach (BuildAllChildrenIndex it s) r) \<longleftrightarrow>
    (\<exists>path. climbs (rs_roots (registeredRoots it s)) (fmmap nd_parent_id (st_nodes s)) i path w)" (is "?down \<longleftrightarrow> ?up i")
proof
  let ?roots = "rs_roots (registeredRoots it s)"
  have kid: "c \<in> set (kids (BuildAllChildrenIndex it s) x) \<longleftrightarrow>
      (\<exists>n. fmlookup (st_nodes s) c = Some n \<and> nd_parent_id n = x \<and> x \<noteq> empty_id)" for c x
    using mem_kids_buildChildrenIndex [OF it, of c s True x] by (simp add: BuildAllChildrenIndex_def)
  assume ?down
  then obtain r where r: "fmlookup ?roots r = Some w" and "(r, i) \<in> (child_rel (BuildAllChildrenIndex it s))\<^sup>*" by auto
  from this(2) show "?up i"
  proof induction
    case base
    have "r \<noteq> empty_id" using registeredRoots_sound [OF it r] by (auto elim: registers.cases)
    then show ?case using r by (blast intro: climbs.at_root)
  next
    case (step x c)
    then obtain n where n: "fmlookup (st_nodes s) c = Some n" "nd_parent_id n = x" "x \<noteq> empty_id"
      by (auto simp: child_rel_def kid)
    have "fmlookup ?roots c = None"
    proof (rule ccontr)
      assume "fmlookup ?roots c \<noteq> None"
      then obtain v where "registers s c v" using registeredRoots_sound [OF it] by blast
      then show False using alive n by (auto simp: roots_alive_def)
    qed
    moreover have "c \<noteq> empty_id" using named n(1) by (auto simp: named_state_def)
    moreover obtain path where "climbs ?roots (fmmap nd_parent_id (st_nodes s)) x path w" using step.IH by blast
    ultimately have "climbs ?roots (fmmap nd_parent_id (st_nodes s)) c (c # path) w"
      using n(1,2) by (intro climbs.up [of c _ _ x]) simp_all
    then show ?case by blast
  qed
next
  assume "?up i"
  then obtain path where "climbs (rs_roots (registeredRoots it s)) (fmmap nd_parent_id (st_nodes s)) i path w" by blast
  then show ?down
  proof induction
    case (up cur p path ws)
    then obtain r n where r: "fmlookup (rs_roots (registeredRoots it s)) r = Some ws" "(r, p) \<in> (child_rel (BuildAllChildrenIndex it s))\<^sup>*"
      and n: "fmlookup (st_nodes s) cur = Some n" "nd_parent_id n = p" by auto
    have "p \<noteq> empty_id" using up.hyps(4) by (auto elim: climbs.cases)
    then have "(p, cur) \<in> child_rel (BuildAllChildrenIndex it s)"
      using n mem_kids_buildChildrenIndex [OF it, of cur s True p] by (simp add: child_rel_def BuildAllChildrenIndex_def)
    with r show ?case by (auto intro: rtrancl_into_rtrancl)
  qed auto
qed

lemma nodeWorkspaceMap_resolves:
  assumes it: "range_order it" and named: "named_state s" and alive: "roots_alive s"
  shows "fmlookup (buildNodeWorkspaceMap it s (registeredRoots it s) f) i \<noteq> None \<longleftrightarrow>
    IsAllowed f (resolveParentChain (rs_roots (registeredRoots it s)) i (fmmap nd_parent_id (st_nodes s)))"
proof -
  let ?roots = "rs_roots (registeredRoots it s)" and ?par = "fmmap nd_parent_id (st_nodes s)"
  have "fmlookup (buildNodeWorkspaceMap it s (registeredRoots it s) f) i \<noteq> None \<longleftrightarrow>
      (\<exists>w. IsAllowed f w \<and> (\<exists>path. climbs ?roots ?par i path w))"
    unfolding buildNodeWorkspaceMap_dom [OF it] using reach_iff_climbs [OF it named alive] by blast
  also have "\<dots> \<longleftrightarrow> (\<exists>w. IsAllowed f w \<and> resolveParentChain ?roots i ?par = w)"
    using resolveParentChain_eq IsAllowed_empty by metis
  finally show ?thesis by simp
qed

section \<open>The filter of a subscription is bounded\<close>

lemma fmlookup_id_set: "fmlookup (id_set ids) i = (if i \<in> set ids then Some True else None)"
proof -
  have "fmlookup (fold (\<lambda>i m. fmupd i True m) ids m) i = (if i \<in> set ids then Some True else fmlookup m i)" for m
    by (induction ids arbitrary: m) auto
  then show ?thesis by (simp add: id_set_def)
qed

lemma readable_subset: "WorkspacesReadableByUser st b u ids w = (Inr out, w') \<Longrightarrow> set out \<subseteq> set ids - {empty_id}"
  by (auto simp: WorkspacesReadableByUser_def Let_def split: if_splits prod.splits sum.splits)

lemma resolve_requested:
  assumes "resolveAllowedWorkspaces la st b requested u w = (Inr out, w')" "requested \<noteq> []"
  shows "set out \<subseteq> set requested - {empty_id}"
  using assms readable_subset [of st b u requested w] by (auto simp: resolveAllowedWorkspaces_def split: if_splits prod.splits sum.splits)

lemma scan_request_scope:
  assumes "scan_request (Some u) ids m = Inr True" and "IsDelegation (ui_credential u)" and "\<not> m"
  shows "WorkspaceScopeID (ui_credential u) \<in> set ids"
  using assms by (induction ids arbitrary: m) (auto simp: delegationWorkspaceMismatch_def split: if_splits)

lemma stream_filter_within:
  assumes run: "resolveAllowedWorkspacesSetForUser la st b ids (Some u) w = (Inr allowed, w')"
    and cred: "\<not> IsDelegation (ui_credential u) \<Longrightarrow> WorkspaceScopeID (ui_credential u) = empty_id"
  shows "bounded (stream_subscriber u client ids stream allowed)"
proof -
  obtain out where out: "resolveAllowedWorkspacesForUser la st b ids (Some u) w = (Inr out, w')" and al: "allowed = id_set out"
    using run by (auto simp: resolveAllowedWorkspacesSetForUser_def split: prod.splits sum.splits)
  let ?scope = "WorkspaceScopeID (ui_credential u)"
  have "(?scope \<noteq> empty_id \<longrightarrow> ws = ?scope) \<and> (ids \<noteq> [] \<longrightarrow> ws \<in> set ids)" if ws: "ws \<in> set out" "ws \<noteq> empty_id" for ws
  proof (cases "IsDelegation (ui_credential u)")
    case False
    then have "resolveAllowedWorkspaces la st b ids (ui_id u) w = (Inr out, w')"
      using out by (simp add: resolveAllowedWorkspacesForUser_def delegationScopedWorkspaceRequest_def)
    then show ?thesis using resolve_requested ws cred [OF False] by fastforce
  next
    case True
    show ?thesis
    proof (cases "ids = []")
      case e: True
      then have "resolveAllowedWorkspaces la st b [?scope] (ui_id u) w = (Inr out, w')"
        using out True by (simp add: resolveAllowedWorkspacesForUser_def delegationScopedWorkspaceRequest_def)
      then show ?thesis using resolve_requested [of la st b "[?scope]"] ws e by fastforce
    next
      case ne: False
      then obtain m where m: "scan_request (Some u) ids False = Inr m"
        using out True by (cases "scan_request (Some u) ids False") (auto simp: resolveAllowedWorkspacesForUser_def delegationScopedWorkspaceRequest_def)
      then have "m" using out True ne ws by (auto simp: resolveAllowedWorkspacesForUser_def delegationScopedWorkspaceRequest_def split: if_splits)
      then have "resolveAllowedWorkspaces la st b [?scope] (ui_id u) w = (Inr out, w')"
        using out True ne m by (simp add: resolveAllowedWorkspacesForUser_def delegationScopedWorkspaceRequest_def)
      then have "ws = ?scope" using resolve_requested [of la st b "[?scope]"] ws by fastforce
      moreover have "?scope \<in> set ids" using scan_request_scope [of u ids False] m \<open>m\<close> True by simp
      ultimately show ?thesis by simp
    qed
  qed
  then show ?thesis
    by (auto simp: bounded_def stream_subscriber_def filter_is_set_def IsAllowed_def al fmlookup_id_set subscriberMaySeeWorkspace_def
        split: if_splits)
qed

section \<open>Properties\<close>

text \<open>The snapshot of a connection agrees with the per-entity rules that broadcasts use: a node is
  in it exactly when it is live and the workspace it resolves to passes the filter, a window or
  a workspace exactly when it passes, and no tab in it sits on a node outside the filter.\<close>

theorem materialized_matches_filter:
  assumes it: "range_order it" and valid: "valid_state it s" and alive: "roots_alive s"
  shows "(fmlookup (mt_nodes (materializedLocked it s f)) i = Some n \<longleftrightarrow> fmlookup (st_nodes s) i = Some n \<and>
      IsAllowed f (workspaceForEntity s (EntityNode i) (registeredRoots it s))) \<and>
    (fmlookup (mt_windows (materializedLocked it s f)) j = Some fw \<longleftrightarrow> fmlookup (st_windows s) j = Some fw \<and>
      IsAllowed f (workspaceForEntity s (EntityWindow j) (registeredRoots it s))) \<and>
    (fmlookup (mt_workspaces (materializedLocked it s f)) k = Some ws \<longleftrightarrow> fmlookup (st_workspaces s) k = Some ws \<and> IsAllowed f k) \<and>
    (fmlookup (mt_tabs (materializedLocked it s f)) l = Some t \<longleftrightarrow> fmlookup (st_tabs s) l = Some t \<and>
      IsAllowed f (resolveParentChain (rs_roots (registeredRoots it s)) (tile_of t) (fmmap nd_parent_id (st_nodes s))))"
proof -
  have named: "named_state s" and ok: "state_ok s" using valid by (simp_all add: valid_state_def)
  note dom = nodeWorkspaceMap_resolves [OF it named alive, of f]
  have id: "nd_node_id n = i" if "fmlookup (st_nodes s) i = Some n" for i n
    using state_ok_id [OF ok] that by blast
  show ?thesis
    using dom [of i] dom [of "tile_of t"] id
    by (auto simp: materializedLocked_def Let_def fmlookup_keep nodeWorkspace_def split: option.splits if_splits)
qed

text \<open>The filter a connection of the event stream starts with lies within the workspace of its
  delegation and the workspaces it asked for, so it is a subscriber that the histories of
  \<open>ctl_step\<close> admit.\<close>

theorem stream_filter_bounded:
  assumes "resolveAllowedWorkspacesSetForUser la st b ids (Some u) w = (Inr allowed, w')"
    and "\<not> IsDelegation (ui_credential u) \<Longrightarrow> WorkspaceScopeID (ui_credential u) = empty_id"
  shows "bounded (stream_subscriber u client ids stream allowed)"
  by (rule stream_filter_within [OF assms])

end
