(* ===== verification/Journal.thy ===== *)
theory Journal
  imports ValidState
begin

text \<open>
  The journal of the CRDT (backend/internal/hub/crdt/journal.go and its implementation
  backend/internal/hub/service/crdt\_journal.go over the tables of the hub database). The tables
  are values; the database engine behind them is a parameter: \<open>flt\<close> decides for every call,
  by its number, whether it fails, and a transaction that fails leaves the tables as they were.
  The protobuf encoder and the hash are parameters too, collected in a codec.
\<close>

section \<open>The tables\<close>

record ('b, 'h) batch_row =
  br_org_id :: ident
  br_physical :: int
  br_logical :: int
  br_last_logical :: int
  br_origin_client :: ident
  br_principal :: ident
  br_batch_id :: ident
  br_body_hash :: 'h
  br_payload :: 'b
  br_op_count :: int
  br_epoch :: int

record 'b org_row =
  or_payload :: 'b
  or_epoch :: int
  or_epoch_started :: int

record 'h recent_batch =
  rb_org_id :: ident
  rb_batch_id :: ident
  rb_body_hash :: 'h
  rb_principal :: ident
  rb_first_hlc :: "hlc option"
  rb_op_count :: int
  rb_epoch :: int
  rb_expires :: int

record ('b, 'h) hub_db =
  db_org_state :: "(ident, 'b org_row) fmap"
  db_batches :: "('b, 'h) batch_row list"
  db_recent :: "(ident \<times> ident, 'h recent_batch) fmap"
  db_owned :: table
  db_rendered :: table
  db_calls :: nat

datatype 'e db_error = DbNotFound | DbConflict | DbFault 'e | CodecError

record ('b, 'h) codec =
  cd_batch :: "op_batch \<Rightarrow> 'b option"
  cd_unbatch :: "'b \<Rightarrow> op_batch option"
  cd_state :: "org_state \<Rightarrow> 'b option"
  cd_unstate :: "'b \<Rightarrow> org_state option"
  cd_hash_batch :: "op_batch \<Rightarrow> 'b option"
  cd_sha :: "'b \<Rightarrow> 'h"

text \<open>What the code relies on: decoding gives back what was encoded.\<close>

definition codec_ok :: "('b, 'h) codec \<Rightarrow> bool" where
  "codec_ok cd \<longleftrightarrow> (\<forall>b x. cd_batch cd b = Some x \<longrightarrow> cd_unbatch cd x = Some b) \<and>
     (\<forall>s x. cd_state cd s = Some x \<longrightarrow> cd_unstate cd x = Some s)"

type_synonym ('b, 'h, 'e, 'a) db_op = "('b, 'h) hub_db \<Rightarrow> ('e db_error + 'a) \<times> ('b, 'h) hub_db"

section \<open>Calls and transactions\<close>

definition db_call :: "(nat \<Rightarrow> 'e option) \<Rightarrow> (('b, 'h) hub_db \<Rightarrow> 'e db_error + ('a \<times> ('b, 'h) hub_db)) \<Rightarrow>
    ('b, 'h, 'e, 'a) db_op" where
  "db_call flt f db = (let db1 = db\<lparr>db_calls := Suc (db_calls db)\<rparr> in
     case flt (db_calls db) of
       Some e \<Rightarrow> (Inl (DbFault e), db1)
     | None \<Rightarrow> (case f db1 of Inl e \<Rightarrow> (Inl e, db1) | Inr (a, db2) \<Rightarrow> (Inr a, db2)))"

definition db_then :: "('b, 'h, 'e, 'a) db_op \<Rightarrow> ('a \<Rightarrow> ('b, 'h, 'e, 'c) db_op) \<Rightarrow> ('b, 'h, 'e, 'c) db_op" where
  "db_then m k db = (case m db of (Inl e, db1) \<Rightarrow> (Inl e, db1) | (Inr a, db1) \<Rightarrow> k a db1)"

text \<open>Roll back: the tables as before, the number of calls as after.\<close>

definition rolled_back :: "('b, 'h) hub_db \<Rightarrow> ('b, 'h) hub_db \<Rightarrow> ('b, 'h) hub_db" where
  "rolled_back db db' = db\<lparr>db_calls := db_calls db'\<rparr>"

definition RunInTransaction :: "(nat \<Rightarrow> 'e option) \<Rightarrow> ('b, 'h, 'e, unit) db_op \<Rightarrow> ('b, 'h, 'e, unit) db_op" where
  "RunInTransaction flt body db =
     (case db_then body (\<lambda>_. db_call flt (\<lambda>d. Inr ((), d))) db of
        (Inl e, db1) \<Rightarrow> (Inl e, rolled_back db db1)
      | (Inr _, db1) \<Rightarrow> (Inr (), db1))"

section \<open>Queries\<close>

definition GetOrgState :: "(nat \<Rightarrow> 'e option) \<Rightarrow> ident \<Rightarrow> ('b, 'h, 'e, 'b org_row) db_op" where
  "GetOrgState flt org = db_call flt (\<lambda>db. case fmlookup (db_org_state db) org of
     None \<Rightarrow> Inl DbNotFound | Some r \<Rightarrow> Inr (r, db))"

definition UpsertOrgState :: "(nat \<Rightarrow> 'e option) \<Rightarrow> ident \<Rightarrow> 'b org_row \<Rightarrow> ('b, 'h, 'e, unit) db_op" where
  "UpsertOrgState flt org r = db_call flt (\<lambda>db. Inr ((), db\<lparr>db_org_state := fmupd org r (db_org_state db)\<rparr>))"

definition AdvanceOrgEpoch :: "(nat \<Rightarrow> 'e option) \<Rightarrow> ident \<Rightarrow> int \<Rightarrow> int \<Rightarrow> ('b, 'h, 'e, unit) db_op" where
  "AdvanceOrgEpoch flt org epoch started = db_call flt (\<lambda>db. Inr ((), case fmlookup (db_org_state db) org of
     None \<Rightarrow> db
   | Some r \<Rightarrow> db\<lparr>db_org_state := fmupd org (r\<lparr>or_epoch := epoch, or_epoch_started := started\<rparr>) (db_org_state db)\<rparr>))"

definition InsertOrgOpBatch :: "(nat \<Rightarrow> 'e option) \<Rightarrow> ('b, 'h) batch_row \<Rightarrow> ('b, 'h, 'e, unit) db_op" where
  "InsertOrgOpBatch flt r = db_call flt (\<lambda>db.
     if \<exists>q \<in> set (db_batches db). br_org_id q = br_org_id r \<and>
          (br_physical q = br_physical r \<and> br_logical q = br_logical r \<and> br_origin_client q = br_origin_client r \<or>
           br_batch_id q = br_batch_id r)
     then Inl DbConflict
     else Inr ((), db\<lparr>db_batches := db_batches db @ [r]\<rparr>))"

definition batch_order :: "('b, 'h) batch_row \<Rightarrow> int \<times> int \<times> ident" where
  "batch_order r = (br_physical r, br_logical r, br_origin_client r)"

definition is_after :: "hlc \<Rightarrow> ('b, 'h) batch_row \<Rightarrow> bool" where
  "is_after h r \<longleftrightarrow> br_physical r > hlc_physical h \<or> br_physical r = hlc_physical h \<and>
     (br_logical r > hlc_logical h \<or> br_logical r = hlc_logical h \<and> br_origin_client r > hlc_client h)"

definition ListAfter :: "(nat \<Rightarrow> 'e option) \<Rightarrow> ident \<Rightarrow> hlc \<Rightarrow> nat \<Rightarrow>
    ('b, 'h, 'e, ('b, 'h) batch_row list) db_op" where
  "ListAfter flt org h limit = db_call flt (\<lambda>db. Inr (take limit (sort_key batch_order
     (filter (\<lambda>r. br_org_id r = org \<and> is_after h r) (db_batches db))), db))"

definition is_through :: "hlc \<Rightarrow> ('b, 'h) batch_row \<Rightarrow> bool" where
  "is_through h r \<longleftrightarrow> br_physical r < hlc_physical h \<or> br_physical r = hlc_physical h \<and>
     (br_last_logical r < hlc_logical h \<or> br_last_logical r = hlc_logical h \<and> br_origin_client r \<le> hlc_client h)"

definition DeleteThrough :: "(nat \<Rightarrow> 'e option) \<Rightarrow> ident \<Rightarrow> hlc \<Rightarrow> ('b, 'h, 'e, unit) db_op" where
  "DeleteThrough flt org h = db_call flt (\<lambda>db.
     Inr ((), db\<lparr>db_batches := filter (\<lambda>r. \<not> (br_org_id r = org \<and> is_through h r)) (db_batches db)\<rparr>))"

definition GetRecentBatchID :: "(nat \<Rightarrow> 'e option) \<Rightarrow> ident \<Rightarrow> ident \<Rightarrow> ('b, 'h, 'e, 'h recent_batch) db_op" where
  "GetRecentBatchID flt org bid = db_call flt (\<lambda>db. case fmlookup (db_recent db) (org, bid) of
     None \<Rightarrow> Inl DbNotFound | Some r \<Rightarrow> Inr (r, db))"

definition InsertRecentBatchID :: "(nat \<Rightarrow> 'e option) \<Rightarrow> 'h recent_batch \<Rightarrow> ('b, 'h, 'e, unit) db_op" where
  "InsertRecentBatchID flt r = db_call flt (\<lambda>db.
     if fmlookup (db_recent db) (rb_org_id r, rb_batch_id r) \<noteq> None then Inl DbConflict
     else Inr ((), db\<lparr>db_recent := fmupd (rb_org_id r, rb_batch_id r) r (db_recent db)\<rparr>))"

definition DeleteExpired :: "(nat \<Rightarrow> 'e option) \<Rightarrow> int \<Rightarrow> ('b, 'h, 'e, nat) db_op" where
  "DeleteExpired flt before = db_call flt (\<lambda>db.
     let kept = fmfilter (\<lambda>k. case fmlookup (db_recent db) k of None \<Rightarrow> True | Some r \<Rightarrow> \<not> rb_expires r < before) (db_recent db)
     in Inr (fcard (fmdom (db_recent db)) - fcard (fmdom kept), db\<lparr>db_recent := kept\<rparr>))"

text \<open>The writer of the tab index inside a transaction; its methods skip an empty list.\<close>

definition tx_write :: "(nat \<Rightarrow> 'e option) \<Rightarrow> ('a list \<Rightarrow> ('b, 'h) hub_db \<Rightarrow> ('b, 'h) hub_db) \<Rightarrow> 'a list \<Rightarrow>
    ('b, 'h) hub_db \<Rightarrow> 'e db_error + ('b, 'h) hub_db" where
  "tx_write flt f xs db = (if xs = [] then Inr db else
     case flt (db_calls db) of Some e \<Rightarrow> Inl (DbFault e) | None \<Rightarrow> Inr (f xs (db\<lparr>db_calls := Suc (db_calls db)\<rparr>)))"

definition txTabIndexWriter :: "(nat \<Rightarrow> 'e option) \<Rightarrow> (('b, 'h) hub_db, 'e db_error) index_writer" where
  "txTabIndexWriter flt = \<lparr>
     BulkUpsertOwned = tx_write flt (\<lambda>rows db. db\<lparr>db_owned := upserted rows (db_owned db)\<rparr>),
     BulkDeleteOwned = tx_write flt (\<lambda>keys db. db\<lparr>db_owned := deleted keys (db_owned db)\<rparr>),
     BulkUpsertRendered = tx_write flt (\<lambda>rows db. db\<lparr>db_rendered := upserted rows (db_rendered db)\<rparr>),
     BulkDeleteRendered = tx_write flt (\<lambda>keys db. db\<lparr>db_rendered := deleted keys (db_rendered db)\<rparr>)\<rparr>"

section \<open>The journal\<close>

record 'h commit_batch =
  cb_org_id :: ident
  cb_batch :: op_batch
  cb_principal :: ident
  cb_epoch :: int
  cb_dedup :: "'h recent_batch"
  cb_diff :: index_diff

definition zero_hlc :: hlc where
  "zero_hlc = \<lparr>hlc_physical = 0, hlc_logical = 0, hlc_client = empty_id\<rparr>"

abbreviation hlc_of :: "hlc option \<Rightarrow> hlc" where
  "hlc_of x \<equiv> get_or zero_hlc id x"

definition first_hlc :: "op_batch \<Rightarrow> hlc" where
  "first_hlc b = hlc_of (op_canonical_hlc (hd (batch_ops b)))"

definition last_hlc :: "op_batch \<Rightarrow> hlc" where
  "last_hlc b = hlc_of (op_canonical_hlc (last (batch_ops b)))"

definition journal_row :: "'h commit_batch \<Rightarrow> 'b \<Rightarrow> ('b, 'h) batch_row" where
  "journal_row c payload = \<lparr>br_org_id = cb_org_id c, br_physical = hlc_physical (first_hlc (cb_batch c)),
     br_logical = hlc_logical (first_hlc (cb_batch c)), br_last_logical = hlc_logical (last_hlc (cb_batch c)),
     br_origin_client = hlc_client (first_hlc (cb_batch c)), br_principal = cb_principal c,
     br_batch_id = batch_id (cb_batch c), br_body_hash = rb_body_hash (cb_dedup c), br_payload = payload,
     br_op_count = int (length (batch_ops (cb_batch c))), br_epoch = cb_epoch c\<rparr>"

text \<open>The dedup row as stored: the timestamp is flattened into columns, so nil becomes zero.\<close>

definition stored_recent :: "'h recent_batch \<Rightarrow> 'h recent_batch" where
  "stored_recent r = r\<lparr>rb_first_hlc := Some (hlc_of (rb_first_hlc r))\<rparr>"

definition apply_diff_tx :: "(nat \<Rightarrow> 'e option) \<Rightarrow> index_diff \<Rightarrow> ('b, 'h, 'e, unit) db_op" where
  "apply_diff_tx flt d db = (case ApplyDiff (txTabIndexWriter flt) d db of
     Inl e \<Rightarrow> (Inl e, db\<lparr>db_calls := db_calls db + 4\<rparr>) | Inr db' \<Rightarrow> (Inr (), db'))"

definition CommitBatch :: "(nat \<Rightarrow> 'e option) \<Rightarrow> ('b, 'h) codec \<Rightarrow> 'h commit_batch \<Rightarrow> ('b, 'h, 'e, unit) db_op" where
  "CommitBatch flt cd c = RunInTransaction flt (case cd_batch cd (cb_batch c) of
     None \<Rightarrow> (\<lambda>db. (Inl CodecError, db))
   | Some payload \<Rightarrow>
       db_then (InsertOrgOpBatch flt (journal_row c payload)) (\<lambda>_.
       db_then (InsertRecentBatchID flt (stored_recent (cb_dedup c))) (\<lambda>_.
       apply_diff_tx flt (cb_diff c))))"

definition LookupRecentBatchID :: "(nat \<Rightarrow> 'e option) \<Rightarrow> ident \<Rightarrow> ident \<Rightarrow> ('b, 'h, 'e, 'h recent_batch) db_op" where
  "LookupRecentBatchID flt org bid = GetRecentBatchID flt org bid"

definition AdvanceEpoch :: "(nat \<Rightarrow> 'e option) \<Rightarrow> ident \<Rightarrow> int \<Rightarrow> int \<Rightarrow> ('b, 'h, 'e, unit) db_op" where
  "AdvanceEpoch flt org epoch started = AdvanceOrgEpoch flt org epoch started"

definition CompactBatch :: "(nat \<Rightarrow> 'e option) \<Rightarrow> ('b, 'h) codec \<Rightarrow> org_state \<Rightarrow> hlc option \<Rightarrow> ('b, 'h, 'e, unit) db_op" where
  "CompactBatch flt cd s dropThrough = RunInTransaction flt (case cd_state cd s of
     None \<Rightarrow> (\<lambda>db. (Inl CodecError, db))
   | Some payload \<Rightarrow>
       db_then (UpsertOrgState flt (st_org_id s) \<lparr>or_payload = payload, or_epoch = st_epoch s,
                  or_epoch_started = get_or 0 id (st_epoch_started s)\<rparr>) (\<lambda>_.
       case dropThrough of None \<Rightarrow> (\<lambda>db. (Inr (), db)) | Some h \<Rightarrow> DeleteThrough flt (st_org_id s) h))"

definition CleanupExpiredRecentBatchIDs :: "(nat \<Rightarrow> 'e option) \<Rightarrow> int \<Rightarrow> ('b, 'h, 'e, nat) db_op" where
  "CleanupExpiredRecentBatchIDs flt before = DeleteExpired flt before"

subsection \<open>Loading\<close>

definition CRDTBatchPageLimit :: nat where
  "CRDTBatchPageLimit = 1024"

fun decode_rows :: "('b, 'h) codec \<Rightarrow> ('b, 'h) batch_row list \<Rightarrow> op_batch list option" where
  "decode_rows cd [] = Some []"
| "decode_rows cd (r # rs) = (case cd_unbatch cd (br_payload r) of None \<Rightarrow> None
     | Some b \<Rightarrow> map_option (Cons b) (decode_rows cd rs))"

text \<open>The paging loop; \<open>None\<close> when the fuel runs out before a short page.\<close>

fun listBatchesAfter :: "nat \<Rightarrow> nat \<Rightarrow> (nat \<Rightarrow> 'e option) \<Rightarrow> ('b, 'h) codec \<Rightarrow> ident \<Rightarrow> hlc \<Rightarrow>
    op_batch list \<Rightarrow> ('b, 'h) hub_db \<Rightarrow> (('e db_error + op_batch list) \<times> ('b, 'h) hub_db) option" where
  "listBatchesAfter 0 limit flt cd org cur out db = None"
| "listBatchesAfter (Suc n) limit flt cd org cur out db = (case ListAfter flt org cur limit db of
     (Inl e, db1) \<Rightarrow> Some (Inl e, db1)
   | (Inr rows, db1) \<Rightarrow>
       if rows = [] then Some (Inr out, db1)
       else (case decode_rows cd rows of None \<Rightarrow> Some (Inl CodecError, db1)
             | Some bs \<Rightarrow>
                 if length rows < limit then Some (Inr (out @ bs), db1)
                 else listBatchesAfter n limit flt cd org
                        \<lparr>hlc_physical = br_physical (last rows), hlc_logical = br_last_logical (last rows),
                         hlc_client = br_origin_client (last rows)\<rparr> (out @ bs) db1))"

definition LoadState :: "(nat \<Rightarrow> 'e option) \<Rightarrow> ('b, 'h) codec \<Rightarrow> ident \<Rightarrow> ('b, 'h) hub_db \<Rightarrow>
    (('e db_error + (org_state option \<times> op_batch list)) \<times> ('b, 'h) hub_db) option" where
  "LoadState flt cd org db =
     (let rest = (\<lambda>s db1. case listBatchesAfter (Suc (length (db_batches db))) CRDTBatchPageLimit flt cd org
                              (hlc_of (case s of None \<Rightarrow> None | Some st \<Rightarrow> st_watermark st)) [] db1 of
              None \<Rightarrow> None
            | Some (Inl e, db2) \<Rightarrow> Some (Inl e, db2)
            | Some (Inr tail, db2) \<Rightarrow> Some (Inr (s, tail), db2))
      in case GetOrgState flt org db of
           (Inl DbNotFound, db1) \<Rightarrow> rest None db1
         | (Inl e, db1) \<Rightarrow> Some (Inl e, db1)
         | (Inr row, db1) \<Rightarrow> (case cd_unstate cd (or_payload row) of
               None \<Rightarrow> Some (Inl CodecError, db1)
             | Some s \<Rightarrow> rest (Some s) db1))"

end
