(* ===== verification/JournalLaws.thy ===== *)
theory JournalLaws
  imports Journal "HOL-Library.Product_Lexorder"
begin

text \<open>
  What the journal promises the manager, as the interface \<open>journal_contract\<close>: a commit that
  succeeds adds exactly its batch to what loading recovers, a compaction that succeeds replaces
  it by the given state, and a call that fails changes nothing. The interface is interpreted on
  the implementation over the database tables.
\<close>

section \<open>Rows in order\<close>

definition row_first :: "('b, 'h) batch_row \<Rightarrow> hlc" where
  "row_first r = \<lparr>hlc_physical = br_physical r, hlc_logical = br_logical r, hlc_client = br_origin_client r\<rparr>"

definition row_last :: "('b, 'h) batch_row \<Rightarrow> hlc" where
  "row_last r = \<lparr>hlc_physical = br_physical r, hlc_logical = br_last_logical r, hlc_client = br_origin_client r\<rparr>"

definition rows_ordered :: "('b, 'h) batch_row list \<Rightarrow> bool" where
  "rows_ordered rs \<longleftrightarrow> (\<forall>r \<in> set rs. row_first r \<le> row_last r) \<and> sorted_wrt (\<lambda>r q. row_last r < row_first q) rs"

lemma is_after_iff: "is_after h r \<longleftrightarrow> h < row_first r"
  by (auto simp: is_after_def row_first_def hlc_less_iff)

lemma hlc_le_iff: "(a :: hlc) \<le> b \<longleftrightarrow> hlc_physical a < hlc_physical b \<or> hlc_physical a = hlc_physical b \<and>
     (hlc_logical a < hlc_logical b \<or> hlc_logical a = hlc_logical b \<and> hlc_client a \<le> hlc_client b)"
  by (auto simp: less_eq_hlc_ext_def)

lemma is_through_iff: "is_through h r \<longleftrightarrow> row_last r \<le> h"
  by (auto simp: is_through_def row_last_def hlc_le_iff)

lemma batch_order_less: "batch_order r \<le> batch_order q \<longleftrightarrow> row_first r \<le> row_first q"
  by (auto simp: batch_order_def row_first_def hlc_le_iff less_eq_prod_def)

lemma rows_ordered_sort:
  assumes "rows_ordered rs"
  shows "sort_key batch_order rs = rs"
proof (rule sort_key_id_if_sorted)
  have step: "batch_order r \<le> batch_order q" if "r \<in> set rs" "row_last r < row_first q" for r q
  proof -
    have "row_first r \<le> row_last r" using assms that(1) by (simp add: rows_ordered_def)
    with that(2) show ?thesis unfolding batch_order_less by simp
  qed
  have "sorted_wrt (\<lambda>r q. batch_order r \<le> batch_order q) rs"
    by (rule sorted_wrt_mono_rel [where P = "\<lambda>r q. row_last r < row_first q"])
       (use assms step in \<open>auto simp: rows_ordered_def\<close>)
  then show "sorted (map batch_order rs)" by (simp add: sorted_map)
qed

lemma rows_ordered_append:
  "rows_ordered (rs @ qs) \<longleftrightarrow> rows_ordered rs \<and> rows_ordered qs \<and> (\<forall>r \<in> set rs. \<forall>q \<in> set qs. row_last r < row_first q)"
  by (auto simp: rows_ordered_def sorted_wrt_append)

lemma rows_ordered_filter: "rows_ordered rs \<Longrightarrow> rows_ordered (filter P rs)"
  by (auto simp: rows_ordered_def sorted_wrt_filter)

lemma after_last:
  assumes "rows_ordered (A @ x # B)"
  shows "filter (is_after (row_last x)) (A @ x # B) = B"
proof -
  have "\<not> row_last x < row_first a" if "a \<in> set A \<or> a = x" for a
  proof
    assume *: "row_last x < row_first a"
    have "row_first a \<le> row_last x"
      using that
    proof
      assume "a \<in> set A"
      then have "row_first a \<le> row_last a" "row_last a < row_first x" "row_first x \<le> row_last x"
        using assms by (auto simp: rows_ordered_def sorted_wrt_append)
      then show ?thesis by simp
    qed (use assms in \<open>auto simp: rows_ordered_def\<close>)
    with * show False by simp
  qed
  moreover have "row_last x < row_first b" if "b \<in> set B" for b
    using that assms by (auto simp: rows_ordered_def sorted_wrt_append)
  ultimately show ?thesis
    by (auto simp: is_after_iff filter_empty_conv filter_id_conv)
qed

section \<open>Loading\<close>

lemma decode_rows_append:
  "decode_rows cd (rs @ qs) = (case decode_rows cd rs of None \<Rightarrow> None
     | Some bs \<Rightarrow> map_option ((@) bs) (decode_rows cd qs))"
  by (induction rs; cases "decode_rows cd qs") (auto split: option.splits)

text \<open>The paging loop delivers every row after the cursor, in order, in as many pages as it takes.\<close>

lemma listBatchesAfter_all:
  assumes "rows_ordered R" and "R = filter (\<lambda>r. br_org_id r = org) (db_batches db)"
    and "R = A @ S" and "filter (is_after cur) R = S" and "decode_rows cd S = Some bs"
    and "length S < n" and "0 < limit"
  shows "\<exists>db'. (listBatchesAfter n limit flt cd org cur out db = Some (Inr (out @ bs), db') \<or>
      (\<exists>e. listBatchesAfter n limit flt cd org cur out db = Some (Inl (DbFault e), db') \<and> (\<exists>i. flt i = Some e))) \<and>
    db' = db\<lparr>db_calls := db_calls db'\<rparr>"
  using assms
proof (induction n arbitrary: A S cur out bs db)
  case (Suc n)
  let ?db1 = "db\<lparr>db_calls := Suc (db_calls db)\<rparr>"
  show ?case
  proof (cases "flt (db_calls db)")
    case (Some e)
    then show ?thesis
      by (intro exI [of _ ?db1]) (auto simp: ListAfter_def db_call_def Let_def)
  next
    case None
    have sel: "filter (\<lambda>r. br_org_id r = org \<and> is_after cur r) (db_batches db) = S"
      using Suc.prems(2,4) by (simp add: conj_commute)
    have "rows_ordered S" using Suc.prems(1,3) rows_ordered_append by blast
    then have page: "ListAfter flt org cur limit db = (Inr (take limit S), ?db1)"
      using None by (simp add: ListAfter_def db_call_def Let_def sel rows_ordered_sort)
    show ?thesis
    proof (cases "length S < limit \<or> S = []")
      case True
      then have "listBatchesAfter (Suc n) limit flt cd org cur out db = Some (Inr (out @ bs), ?db1)"
        using Suc.prems(5) by (auto simp: page split: option.splits)
      then show ?thesis by (intro exI [of _ ?db1]) auto
    next
      case False
      let ?P = "take limit S" and ?D = "drop limit S"
      have ne: "?P \<noteq> []" using False Suc.prems(7) by auto
      let ?x = "last ?P"
      have S: "S = butlast ?P @ ?x # ?D"
        by (metis append_Cons append_Nil append_assoc append_butlast_last_id append_take_drop_id ne)
      obtain b1 b2 where dec: "decode_rows cd ?P = Some b1" "decode_rows cd ?D = Some b2" "bs = b1 @ b2"
        using Suc.prems(5) decode_rows_append [of cd ?P ?D]
        by (cases "decode_rows cd ?D") (auto split: option.splits)
      have R: "R = (A @ butlast ?P) @ ?x # ?D" using Suc.prems(3) S by simp
      have after: "filter (is_after (row_last ?x)) R = ?D"
        using after_last [of "A @ butlast ?P" ?x ?D] Suc.prems(1) unfolding R .
      have "length ?D < n" using Suc.prems(6,7) False by auto
      from Suc.IH [of ?db1 "A @ butlast ?P @ [?x]" ?D "row_last ?x" b2 "out @ b1", OF Suc.prems(1) _ _ after dec(2) this Suc.prems(7)]
      have IH: "\<exists>db'. (listBatchesAfter n limit flt cd org (row_last ?x) (out @ b1) ?db1 = Some (Inr (out @ bs), db') \<or>
          (\<exists>e. listBatchesAfter n limit flt cd org (row_last ?x) (out @ b1) ?db1 = Some (Inl (DbFault e), db') \<and> (\<exists>i. flt i = Some e))) \<and>
          db' = ?db1\<lparr>db_calls := db_calls db'\<rparr>"
        using Suc.prems(2) R dec(3) by simp
      have "listBatchesAfter (Suc n) limit flt cd org cur out db =
          listBatchesAfter n limit flt cd org (row_last ?x) (out @ b1) ?db1"
        using False dec(1) ne by (simp add: page row_last_def)
      with IH show ?thesis by simp
    qed
  qed
qed simp

section \<open>The interface\<close>

text \<open>The Go interface \<open>Journal\<close>: its methods on a state \<open>'j\<close> of the persistence layer.\<close>

record ('j, 'h, 'e) journal =
  jn_load :: "ident \<Rightarrow> 'j \<Rightarrow> (('e db_error + (org_state option \<times> op_batch list)) \<times> 'j) option"
  jn_commit :: "'h commit_batch \<Rightarrow> 'j \<Rightarrow> ('e db_error + unit) \<times> 'j"
  jn_lookup :: "ident \<Rightarrow> ident \<Rightarrow> 'j \<Rightarrow> ('e db_error + 'h recent_batch) \<times> 'j"
  jn_advance :: "ident \<Rightarrow> int \<Rightarrow> int \<Rightarrow> 'j \<Rightarrow> ('e db_error + unit) \<times> 'j"
  jn_compact :: "org_state \<Rightarrow> hlc option \<Rightarrow> 'j \<Rightarrow> ('e db_error + unit) \<times> 'j"
  jn_cleanup :: "int \<Rightarrow> 'j \<Rightarrow> ('e db_error + nat) \<times> 'j"

definition NewCRDTJournal :: "(nat \<Rightarrow> 'e option) \<Rightarrow> ('b, 'h) codec \<Rightarrow> (('b, 'h) hub_db, 'h, 'e) journal" where
  "NewCRDTJournal flt cd = \<lparr>jn_load = LoadState flt cd, jn_commit = CommitBatch flt cd,
     jn_lookup = LookupRecentBatchID flt, jn_advance = AdvanceEpoch flt, jn_compact = CompactBatch flt cd,
     jn_cleanup = CleanupExpiredRecentBatchIDs flt\<rparr>"

text \<open>The stamps of one batch: consecutive logical counters from a first timestamp.\<close>

definition minted :: "hlc \<Rightarrow> op_batch \<Rightarrow> bool" where
  "minted h b \<longleftrightarrow> batch_ops b \<noteq> [] \<and> (\<forall>i < length (batch_ops b).
     op_canonical_hlc (batch_ops b ! i) = Some (h\<lparr>hlc_logical := hlc_logical h + int i\<rparr>))"

text \<open>A batch that is newer than everything in a state.\<close>

definition fresh_for :: "org_state \<Rightarrow> op_batch \<Rightarrow> bool" where
  "fresh_for s b \<longleftrightarrow> (\<exists>h. minted h b \<and> st_max_hlc s < Some h)"

text \<open>The state that a loaded pair leads to.\<close>

definition replay :: "ident \<Rightarrow> org_state option \<Rightarrow> op_batch list \<Rightarrow> org_state" where
  "replay org so tail = apply_all (concat (map batch_ops tail)) (case so of None \<Rightarrow> NewState org | Some s \<Rightarrow> s)"

text \<open>What a manager of an organization sees of a journal: the state that loading leads to, the
  dedup rows, and the two index tables.\<close>

record 'h journal_view =
  jv_state :: org_state
  jv_recent :: "ident \<Rightarrow> 'h recent_batch option"
  jv_owned :: table
  jv_rendered :: table

definition committed_view :: "'h commit_batch \<Rightarrow> 'h journal_view \<Rightarrow> 'h journal_view" where
  "committed_view c v = \<lparr>jv_state = apply_all (batch_ops (cb_batch c)) (jv_state v),
     jv_recent = (jv_recent v)(rb_batch_id (cb_dedup c) \<mapsto> stored_recent (cb_dedup c)),
     jv_owned = deleted (df_owned_deletes (cb_diff c)) (upserted (df_owned_upserts (cb_diff c)) (jv_owned v)),
     jv_rendered = deleted (df_rendered_deletes (cb_diff c)) (upserted (df_rendered_upserts (cb_diff c)) (jv_rendered v))\<rparr>"

locale journal_contract =
  fixes J :: "('j, 'h, 'e) journal" and org :: ident
    and ok :: "'j \<Rightarrow> bool" and view :: "'j \<Rightarrow> 'h journal_view"
  assumes load_returns: "ok j \<Longrightarrow> \<exists>r. jn_load J org j = Some r"
    and load_keeps: "ok j \<Longrightarrow> jn_load J org j = Some (r, j') \<Longrightarrow> ok j' \<and> view j' = view j"
    and load_recovers: "ok j \<Longrightarrow> jn_load J org j = Some (Inr (so, tail), j') \<Longrightarrow> replay org so tail = jv_state (view j)"
    and commit_keeps: "ok j \<Longrightarrow> jn_commit J c j = (Inl e, j') \<Longrightarrow> ok j' \<and> view j' = view j"
    and commit_adds: "ok j \<Longrightarrow> cb_org_id c = org \<Longrightarrow> rb_org_id (cb_dedup c) = org \<Longrightarrow>
        fresh_for (jv_state (view j)) (cb_batch c) \<Longrightarrow> jn_commit J c j = (Inr u, j') \<Longrightarrow>
        ok j' \<and> view j' = committed_view c (view j)"
    and lookup_keeps: "ok j \<Longrightarrow> jn_lookup J org bid j = (r''', j') \<Longrightarrow> ok j' \<and> view j' = view j"
    and lookup_finds: "ok j \<Longrightarrow> jn_lookup J org bid j = (Inr row, j') \<Longrightarrow> jv_recent (view j) bid = Some row"
    and lookup_misses: "ok j \<Longrightarrow> jn_lookup J org bid j = (Inl DbNotFound, j') \<Longrightarrow> jv_recent (view j) bid = None"
    and compact_keeps: "ok j \<Longrightarrow> jn_compact J s d j = (Inl e, j') \<Longrightarrow> ok j' \<and> view j' = view j"
    and compact_replaces: "ok j \<Longrightarrow> st_org_id s = org \<Longrightarrow> st_watermark s = Some h \<Longrightarrow> st_max_hlc s = Some h \<Longrightarrow>
        st_max_hlc (jv_state (view j)) \<le> Some h \<Longrightarrow> jn_compact J s (Some h) j = (Inr u, j') \<Longrightarrow>
        ok j' \<and> view j' = (view j)\<lparr>jv_state := s\<rparr>"
    and advance_keeps: "ok j \<Longrightarrow> jn_advance J org n t j = (r', j') \<Longrightarrow> ok j' \<and> view j' = view j"
    and cleanup_keeps: "ok j \<Longrightarrow> jn_cleanup J t j = (r'', j') \<Longrightarrow>
        ok j' \<and> jv_state (view j') = jv_state (view j) \<and> jv_recent (view j') \<subseteq>\<^sub>m jv_recent (view j) \<and>
        (\<forall>bid row. jv_recent (view j) bid = Some row \<and> t \<le> rb_expires row \<longrightarrow> jv_recent (view j') bid = Some row) \<and>
        jv_owned (view j') = jv_owned (view j) \<and> jv_rendered (view j') = jv_rendered (view j)"
begin

lemma commit_ok:
  assumes "ok j" "cb_org_id c = org" "rb_org_id (cb_dedup c) = org" "fresh_for (jv_state (view j)) (cb_batch c)"
    and r: "jn_commit J c j = (r, j')"
  shows "ok j'"
proof (cases r)
  case (Inl e)
  then show ?thesis using commit_keeps [of j c e j'] assms(1) r by simp
next
  case (Inr u)
  then show ?thesis using commit_adds [OF assms(1-4), of u j'] r by simp
qed

end

section \<open>The journal over the tables\<close>

definition org_rows :: "ident \<Rightarrow> ('b, 'h) hub_db \<Rightarrow> ('b, 'h) batch_row list" where
  "org_rows org db = filter (\<lambda>r. br_org_id r = org) (db_batches db)"

definition base_state :: "('b, 'h) codec \<Rightarrow> ident \<Rightarrow> ('b, 'h) hub_db \<Rightarrow> org_state option" where
  "base_state cd org db = (case fmlookup (db_org_state db) org of
     None \<Rightarrow> Some (NewState org) | Some r \<Rightarrow> cd_unstate cd (or_payload r))"

definition row_minted :: "('b, 'h) batch_row \<Rightarrow> op_batch \<Rightarrow> bool" where
  "row_minted r b \<longleftrightarrow> minted (row_first r) b \<and> br_last_logical r = br_logical r + int (length (batch_ops b)) - 1"

definition journal_ok :: "('b, 'h) codec \<Rightarrow> ident \<Rightarrow> ('b, 'h) hub_db \<Rightarrow> bool" where
  "journal_ok cd org db \<longleftrightarrow> (\<exists>s bs. base_state cd org db = Some s \<and> st_org_id s = org \<and>
     Some (hlc_of (st_watermark s)) \<le> st_max_hlc s \<and>
     decode_rows cd (org_rows org db) = Some bs \<and> list_all2 row_minted (org_rows org db) bs \<and>
     rows_ordered (org_rows org db) \<and> list_all (is_after (hlc_of (st_watermark s))) (org_rows org db))"

definition journal_view_of :: "('b, 'h) codec \<Rightarrow> ident \<Rightarrow> ('b, 'h) hub_db \<Rightarrow> 'h journal_view" where
  "journal_view_of cd org db = \<lparr>jv_state = apply_all (concat (map batch_ops (the (decode_rows cd (org_rows org db)))))
       (the (base_state cd org db)),
     jv_recent = (\<lambda>bid. fmlookup (db_recent db) (org, bid)), jv_owned = db_owned db, jv_rendered = db_rendered db\<rparr>"

text \<open>Only the tables matter, not the number of calls made.\<close>

lemma calls_irrelevant [simp]:
  "org_rows org (db\<lparr>db_calls := n\<rparr>) = org_rows org db" "base_state cd org (db\<lparr>db_calls := n\<rparr>) = base_state cd org db"
  "journal_ok cd org (db\<lparr>db_calls := n\<rparr>) = journal_ok cd org db"
  "journal_view_of cd org (db\<lparr>db_calls := n\<rparr>) = journal_view_of cd org db"
  by (simp_all add: org_rows_def base_state_def journal_ok_def journal_view_of_def)

lemma rolled_back_same [simp]:
  "journal_ok cd org (rolled_back db db') = journal_ok cd org db"
  "journal_view_of cd org (rolled_back db db') = journal_view_of cd org db"
  by (simp_all add: rolled_back_def)

lemma transaction_error: "RunInTransaction flt m db = (Inl e, db') \<Longrightarrow> \<exists>d. db' = rolled_back db d"
  by (auto simp: RunInTransaction_def split: prod.splits sum.splits)

lemma transaction_success:
  assumes "RunInTransaction flt m db = (Inr u, db')"
  shows "\<exists>d v. m db = (Inr v, d) \<and> db' = d\<lparr>db_calls := db_calls db'\<rparr>"
  using assms
  by (auto simp: RunInTransaction_def db_then_def db_call_def Let_def split: prod.splits sum.splits option.splits)

lemma db_then_Inr: "db_then m k db = (Inr v, db') \<longleftrightarrow> (\<exists>a d. m db = (Inr a, d) \<and> k a d = (Inr v, db'))"
  by (auto simp: db_then_def split: prod.splits sum.splits)

lemma db_call_Inr: "db_call flt f db = (Inr v, db') \<longleftrightarrow> flt (db_calls db) = None \<and>
    f (db\<lparr>db_calls := Suc (db_calls db)\<rparr>) = Inr (v, db')"
  by (auto simp: db_call_def Let_def split: option.splits sum.splits)

subsection \<open>Loading\<close>

lemma base_watermark_after:
  assumes "list_all (is_after h) rs"
  shows "filter (is_after h) rs = rs"
  using assms by (simp add: list_all_iff filter_id_conv)

text \<open>Past a successful first query, loading is the paging loop on the base state.\<close>

lemma LoadState_rest:
  assumes "base_state cd org db = Some s" and "flt (db_calls db) = None"
  shows "\<exists>so. (case so of None \<Rightarrow> NewState org | Some s \<Rightarrow> s) = s \<and>
    LoadState flt cd org db = (case listBatchesAfter (Suc (length (db_batches db))) CRDTBatchPageLimit flt cd org
        (hlc_of (st_watermark s)) [] (db\<lparr>db_calls := Suc (db_calls db)\<rparr>) of
      None \<Rightarrow> None | Some (Inl e, d) \<Rightarrow> Some (Inl e, d) | Some (Inr tail, d) \<Rightarrow> Some (Inr (so, tail), d))"
proof (cases "fmlookup (db_org_state db) org")
  case None
  then have "s = NewState org" using assms(1) by (simp add: base_state_def)
  moreover have "GetOrgState flt org db = (Inl DbNotFound, db\<lparr>db_calls := Suc (db_calls db)\<rparr>)"
    using None assms(2) by (simp add: GetOrgState_def db_call_def Let_def)
  ultimately show ?thesis
    by (intro exI [of _ None]) (simp add: LoadState_def NewState_def del: listBatchesAfter.simps)
next
  case (Some row)
  then have "cd_unstate cd (or_payload row) = Some s" using assms(1) by (simp add: base_state_def)
  moreover have "GetOrgState flt org db = (Inr row, db\<lparr>db_calls := Suc (db_calls db)\<rparr>)"
    using Some assms(2) by (simp add: GetOrgState_def db_call_def Let_def)
  ultimately show ?thesis
    by (intro exI [of _ "Some s"]) (simp add: LoadState_def del: listBatchesAfter.simps)
qed

lemma LoadState_ok:
  assumes "journal_ok cd org db"
  shows "\<exists>r db'. LoadState flt cd org db = Some (r, db') \<and> db' = db\<lparr>db_calls := db_calls db'\<rparr> \<and>
    (\<forall>so tail. r = Inr (so, tail) \<longrightarrow> replay org so tail = jv_state (journal_view_of cd org db)) \<and>
    ((\<forall>i. flt i = None) \<longrightarrow> (\<exists>so tail. r = Inr (so, tail)))"
proof -
  let ?db1 = "db\<lparr>db_calls := Suc (db_calls db)\<rparr>"
  obtain s bs where s: "base_state cd org db = Some s" and bs: "decode_rows cd (org_rows org db) = Some bs"
    and ord: "rows_ordered (org_rows org db)" "list_all (is_after (hlc_of (st_watermark s))) (org_rows org db)"
    using assms by (auto simp: journal_ok_def)
  let ?L = "listBatchesAfter (Suc (length (db_batches db))) CRDTBatchPageLimit flt cd org (hlc_of (st_watermark s)) [] ?db1"
  have v: "jv_state (journal_view_of cd org db) = apply_all (concat (map batch_ops bs)) s"
    by (simp add: journal_view_of_def s bs)
  have eq: "org_rows org db = filter (\<lambda>r. br_org_id r = org) (db_batches ?db1)" by (simp add: org_rows_def)
  have len: "length (org_rows org db) < Suc (length (db_batches db))" "0 < CRDTBatchPageLimit"
    by (simp_all add: org_rows_def less_Suc_eq_le CRDTBatchPageLimit_def)
  obtain db2 where loop: "?L = Some (Inr bs, db2) \<or> (\<exists>e. ?L = Some (Inl (DbFault e), db2) \<and> (\<exists>i. flt i = Some e))"
    and db2: "db2 = ?db1\<lparr>db_calls := db_calls db2\<rparr>"
    using listBatchesAfter_all [OF ord(1) eq _ base_watermark_after [OF ord(2)] bs len, of "[]" flt "[]"] by auto
  show ?thesis
  proof (cases "flt (db_calls db)")
    case (Some e)
    then have "LoadState flt cd org db = Some (Inl (DbFault e), ?db1)"
      by (simp add: LoadState_def GetOrgState_def db_call_def Let_def)
    with Some show ?thesis by (intro exI [of _ "Inl (DbFault e)"] exI [of _ ?db1]) auto
  next
    case None
    obtain so where so: "(case so of None \<Rightarrow> NewState org | Some s \<Rightarrow> s) = s"
      and load: "LoadState flt cd org db = (case ?L of
        None \<Rightarrow> None | Some (Inl e, d) \<Rightarrow> Some (Inl e, d) | Some (Inr tail, d) \<Rightarrow> Some (Inr (so, tail), d))"
      using LoadState_rest [OF s, of flt] None by blast
    from loop show ?thesis
    proof
      assume "?L = Some (Inr bs, db2)"
      with load have "LoadState flt cd org db = Some (Inr (so, bs), db2)" by (simp del: listBatchesAfter.simps)
      with db2 so show ?thesis by (intro exI [of _ "Inr (so, bs)"] exI [of _ db2]) (auto simp: v replay_def)
    next
      assume "\<exists>e. ?L = Some (Inl (DbFault e), db2) \<and> (\<exists>i. flt i = Some e)"
      then obtain e i where "LoadState flt cd org db = Some (Inl (DbFault e), db2)" "flt i = Some e"
        using load by (auto simp del: listBatchesAfter.simps)
      with db2 show ?thesis by (intro exI [of _ "Inl (DbFault e)"] exI [of _ db2]) auto
    qed
  qed
qed

subsection \<open>Commits\<close>

lemma max_hlc_apply_all:
  "st_max_hlc s \<le> st_max_hlc (apply_all ps s)"
  "p \<in> set ps \<Longrightarrow> op_canonical_hlc p \<le> st_max_hlc (apply_all ps s)"
proof -
  show mono: "st_max_hlc s \<le> st_max_hlc (apply_all ps s)" for ps s
  proof (induction ps arbitrary: s)
    case (Cons p ps)
    have "st_max_hlc s \<le> st_max_hlc (Apply p s)" by (simp add: Apply_max_hlc)
    with Cons [of "Apply p s"] show ?case unfolding apply_all_simps(2) by (rule order.trans [rotated])
  qed (simp add: apply_simps)
  show "op_canonical_hlc p \<le> st_max_hlc (apply_all ps s)" if "p \<in> set ps"
    using that
  proof (induction ps arbitrary: s)
    case (Cons q ps)
    then show ?case
      using mono [of "Apply q s" ps] by (auto simp: apply_simps Apply_max_hlc)
  qed simp
qed

lemma minted_stamps:
  assumes "minted h b"
  shows "first_hlc b = h" "last_hlc b = h\<lparr>hlc_logical := hlc_logical h + int (length (batch_ops b)) - 1\<rparr>"
    "op_canonical_hlc (last (batch_ops b)) = Some (last_hlc b)" "h \<le> last_hlc b"
proof -
  have ne: "batch_ops b \<noteq> []" and st: "\<And>i. i < length (batch_ops b) \<Longrightarrow>
      op_canonical_hlc (batch_ops b ! i) = Some (h\<lparr>hlc_logical := hlc_logical h + int i\<rparr>)"
    using assms by (auto simp: minted_def)
  show "first_hlc b = h" using st [of 0] ne by (simp add: first_hlc_def hd_conv_nth)
  show l: "last_hlc b = h\<lparr>hlc_logical := hlc_logical h + int (length (batch_ops b)) - 1\<rparr>"
    using st [of "length (batch_ops b) - 1"] ne by (simp add: last_hlc_def last_conv_nth of_nat_diff Suc_le_eq)
  then show "op_canonical_hlc (last (batch_ops b)) = Some (last_hlc b)"
    using st [of "length (batch_ops b) - 1"] ne by (simp add: last_conv_nth of_nat_diff Suc_le_eq)
  have "int 1 \<le> int (length (batch_ops b))" using ne by (simp only: of_nat_le_iff) (simp add: Suc_le_eq)
  then show "h \<le> last_hlc b" unfolding l hlc_le_iff by auto
qed

text \<open>Every stored batch is at or below the clock of the recovered state.\<close>

lemma row_last_le_max:
  assumes "list_all2 row_minted rs bs" and "r \<in> set rs"
  shows "Some (row_last r) \<le> st_max_hlc (apply_all (concat (map batch_ops bs)) s)"
proof -
  obtain i where i: "i < length rs" "rs ! i = r" using assms(2) by (auto simp: in_set_conv_nth)
  define b where "b = bs ! i"
  have "i < length bs" using i assms(1) by (simp add: list_all2_lengthD)
  then have b: "b \<in> set bs" "row_minted r b" using list_all2_nthD [OF assms(1) i(1)] i(2) by (simp_all add: b_def)
  then have m: "minted (row_first r) b" and l: "br_last_logical r = br_logical r + int (length (batch_ops b)) - 1"
    by (simp_all add: row_minted_def)
  have "row_last r = last_hlc b" using minted_stamps(2) [OF m] l by (simp add: row_last_def row_first_def)
  moreover have "last (batch_ops b) \<in> set (concat (map batch_ops bs))" using m b(1) by (force simp: minted_def)
  ultimately show ?thesis using max_hlc_apply_all(2) minted_stamps(3) [OF m] by metis
qed

lemma journal_row_first: "row_first (journal_row c x) = first_hlc (cb_batch c)"
  by (simp add: row_first_def journal_row_def)

text \<open>Appending the row of a fresh batch.\<close>

lemma journal_ok_append:
  assumes ok: "journal_ok cd org db" and fresh: "fresh_for (jv_state (journal_view_of cd org db)) (cb_batch c)"
    and enc: "cd_unbatch cd x = Some (cb_batch c)" and c: "cb_org_id c = org"
    and db': "db_batches db' = db_batches db @ [journal_row c x]" "db_org_state db' = db_org_state db"
  shows "journal_ok cd org db' \<and> jv_state (journal_view_of cd org db') =
    apply_all (batch_ops (cb_batch c)) (jv_state (journal_view_of cd org db))"
proof -
  obtain s bs where s: "base_state cd org db = Some s" and bs: "decode_rows cd (org_rows org db) = Some bs"
    and org: "st_org_id s = org" and wm: "Some (hlc_of (st_watermark s)) \<le> st_max_hlc s"
    and ord: "rows_ordered (org_rows org db)" "list_all (is_after (hlc_of (st_watermark s))) (org_rows org db)"
    and mint: "list_all2 row_minted (org_rows org db) bs"
    using ok by (auto simp: journal_ok_def)
  let ?S = "apply_all (concat (map batch_ops bs)) s" and ?r = "journal_row c x"
  have v: "jv_state (journal_view_of cd org db) = ?S" by (simp add: journal_view_of_def s bs)
  obtain h where h: "minted h (cb_batch c)" "st_max_hlc ?S < Some h" using fresh v by (auto simp: fresh_for_def)
  note stamps = minted_stamps [OF h(1)]
  have first: "row_first ?r = h" by (simp add: journal_row_first stamps(1))
  have rows: "org_rows org db' = org_rows org db @ [?r]" using db' c by (simp add: org_rows_def journal_row_def)
  have base: "base_state cd org db' = Some s" using s db' by (simp add: base_state_def)
  have dec: "decode_rows cd (org_rows org db') = Some (bs @ [cb_batch c])"
    using bs enc by (simp add: rows decode_rows_append journal_row_def)
  have rm: "row_minted ?r (cb_batch c)"
    unfolding row_minted_def first using h(1) stamps(1,2) by (simp add: journal_row_def)
  have "row_last r < row_first ?r" if "r \<in> set (org_rows org db)" for r
    using row_last_le_max [OF mint that, of s] h(2) by (simp add: first)
      (metis less_option_Some order.strict_trans1)
  moreover have "row_first ?r \<le> row_last ?r"
    using stamps(4) unfolding first hlc_le_iff by (simp add: row_last_def journal_row_def stamps(1,2))
  ultimately have "rows_ordered (org_rows org db')" using ord(1) by (simp add: rows rows_ordered_append) (simp add: rows_ordered_def)
  moreover have "is_after (hlc_of (st_watermark s)) ?r"
    using wm max_hlc_apply_all(1) [of s "concat (map batch_ops bs)"] h(2) unfolding is_after_iff first
    by (metis less_option_Some order.strict_trans1)
  ultimately have "journal_ok cd org db'"
    unfolding journal_ok_def using base org wm dec ord(2) mint rm rows
    by (intro exI [of _ s] exI [of _ "bs @ [cb_batch c]"]) (auto simp: list_all2_appendI)
  moreover have "jv_state (journal_view_of cd org db') = apply_all (batch_ops (cb_batch c)) ?S"
    by (simp add: journal_view_of_def base dec apply_all_def)
  ultimately show ?thesis by (simp add: v)
qed

text \<open>The writer of the tab index writes its two tables and nothing else.\<close>

lemma tx_write_Inr:
  "tx_write flt f xs db = Inr db' \<Longrightarrow> xs \<noteq> [] \<Longrightarrow> db' = f xs (db\<lparr>db_calls := Suc (db_calls db)\<rparr>)"
  by (auto simp: tx_write_def split: option.splits)

lemma txTabIndexWriter_laws: "writer_laws (txTabIndexWriter flt) db_owned db_rendered"
  unfolding writer_laws_def txTabIndexWriter_def index_writer.select_convs
  by (intro conjI allI impI) (auto simp: tx_write_def split: if_splits option.splits)

definition other_tables :: "('b, 'h) hub_db \<Rightarrow> (ident, 'b org_row) fmap \<times> ('b, 'h) batch_row list \<times> (ident \<times> ident, 'h recent_batch) fmap" where
  "other_tables db = (db_org_state db, db_batches db, db_recent db)"

lemma bulk_frame:
  assumes "bulk (tx_write flt f) xs (Inr d1) = Inr d2" and "\<And>ys e. other_tables (f ys e) = other_tables e"
  shows "other_tables d2 = other_tables d1"
proof (cases xs)
  case Nil
  then show ?thesis using assms(1) by (simp add: bulk_def)
next
  case (Cons x ys)
  then have "d2 = f xs (d1\<lparr>db_calls := Suc (db_calls d1)\<rparr>)"
    using assms(1) tx_write_Inr [of flt f xs d1 d2] by (simp add: bulk_def)
  then show ?thesis by (simp only: assms(2)) (simp add: other_tables_def)
qed

lemma txTabIndexWriter_frame:
  assumes "ApplyDiff (txTabIndexWriter flt) d db = Inr db'"
  shows "other_tables db' = other_tables db"
proof -
  let ?w = "txTabIndexWriter flt"
  obtain d3 where d3: "bulk (BulkUpsertRendered ?w) (df_rendered_upserts d) (bulk (BulkDeleteOwned ?w) (df_owned_deletes d)
      (bulk (BulkUpsertOwned ?w) (df_owned_upserts d) (Inr db))) = Inr d3" "bulk (BulkDeleteRendered ?w) (df_rendered_deletes d) (Inr d3) = Inr db'"
    using assms unfolding ApplyDiff_def by (auto simp: bulk_Inr)
  then obtain d2 where d2: "bulk (BulkDeleteOwned ?w) (df_owned_deletes d) (bulk (BulkUpsertOwned ?w) (df_owned_upserts d) (Inr db)) = Inr d2"
      "bulk (BulkUpsertRendered ?w) (df_rendered_upserts d) (Inr d2) = Inr d3"
    by (auto simp: bulk_Inr)
  then obtain d1 where d1: "bulk (BulkUpsertOwned ?w) (df_owned_upserts d) (Inr db) = Inr d1"
      "bulk (BulkDeleteOwned ?w) (df_owned_deletes d) (Inr d1) = Inr d2"
    by (auto simp: bulk_Inr)
  note steps = d1 d2(2) d3(2)
  have "other_tables db' = other_tables d3" "other_tables d3 = other_tables d2"
    "other_tables d2 = other_tables d1" "other_tables d1 = other_tables db"
    by (rule bulk_frame [OF steps(4) [unfolded txTabIndexWriter_def index_writer.select_convs]]
        bulk_frame [OF steps(3) [unfolded txTabIndexWriter_def index_writer.select_convs]]
        bulk_frame [OF steps(2) [unfolded txTabIndexWriter_def index_writer.select_convs]]
        bulk_frame [OF steps(1) [unfolded txTabIndexWriter_def index_writer.select_convs]];
        simp add: other_tables_def)+
  then show ?thesis by simp
qed

text \<open>A commit that succeeds writes the row, the dedup row and the tab index.\<close>

lemma CommitBatch_effect:
  assumes "CommitBatch flt cd c db = (Inr u, db')"
  obtains x where "cd_batch cd (cb_batch c) = Some x" "db_batches db' = db_batches db @ [journal_row c x]"
    "db_org_state db' = db_org_state db"
    "db_recent db' = fmupd (rb_org_id (cb_dedup c), rb_batch_id (cb_dedup c)) (stored_recent (cb_dedup c)) (db_recent db)"
    "db_owned db' = deleted (df_owned_deletes (cb_diff c)) (upserted (df_owned_upserts (cb_diff c)) (db_owned db))"
    "db_rendered db' = deleted (df_rendered_deletes (cb_diff c)) (upserted (df_rendered_upserts (cb_diff c)) (db_rendered db))"
proof -
  obtain x where x: "cd_batch cd (cb_batch c) = Some x"
    using assms transaction_success [of flt "\<lambda>d. (Inl CodecError, d)" db u db']
    by (cases "cd_batch cd (cb_batch c)") (auto simp: CommitBatch_def)
  let ?body = "db_then (InsertOrgOpBatch flt (journal_row c x)) (\<lambda>_.
       db_then (InsertRecentBatchID flt (stored_recent (cb_dedup c))) (\<lambda>_. apply_diff_tx flt (cb_diff c)))"
  obtain d where d: "?body db = (Inr (), d)" and db': "db' = d\<lparr>db_calls := db_calls db'\<rparr>"
    using transaction_success [of flt ?body db u db'] assms x by (auto simp: CommitBatch_def)
  obtain d1 where d1: "InsertOrgOpBatch flt (journal_row c x) db = (Inr (), d1)"
    and r1: "db_then (InsertRecentBatchID flt (stored_recent (cb_dedup c))) (\<lambda>_. apply_diff_tx flt (cb_diff c)) d1 = (Inr (), d)"
    using d unfolding db_then_Inr by auto
  obtain d2 where d2: "InsertRecentBatchID flt (stored_recent (cb_dedup c)) d1 = (Inr (), d2)"
    and d3: "apply_diff_tx flt (cb_diff c) d2 = (Inr (), d)"
    using r1 unfolding db_then_Inr by auto
  have e1: "d1 = db\<lparr>db_calls := Suc (db_calls db), db_batches := db_batches db @ [journal_row c x]\<rparr>"
    using d1 by (auto simp: InsertOrgOpBatch_def db_call_Inr split: if_splits)
  have e2: "d2 = d1\<lparr>db_calls := Suc (db_calls d1), db_recent := fmupd (rb_org_id (cb_dedup c), rb_batch_id (cb_dedup c))
      (stored_recent (cb_dedup c)) (db_recent d1)\<rparr>"
    using d2 by (auto simp: InsertRecentBatchID_def db_call_Inr stored_recent_def split: if_splits)
  have ap: "ApplyDiff (txTabIndexWriter flt) (cb_diff c) d2 = Inr d"
    using d3 by (auto simp: apply_diff_tx_def split: sum.splits)
  note eff = ApplyDiff_effect [OF txTabIndexWriter_laws ap] and frame = txTabIndexWriter_frame [OF ap]
  show thesis
  proof (rule that [OF x])
    show "db_batches db' = db_batches db @ [journal_row c x]" "db_org_state db' = db_org_state db"
      "db_recent db' = fmupd (rb_org_id (cb_dedup c), rb_batch_id (cb_dedup c)) (stored_recent (cb_dedup c)) (db_recent db)"
      by (subst db', use frame e1 e2 in \<open>simp add: other_tables_def\<close>)+
    show "db_owned db' = deleted (df_owned_deletes (cb_diff c)) (upserted (df_owned_upserts (cb_diff c)) (db_owned db))"
      "db_rendered db' = deleted (df_rendered_deletes (cb_diff c)) (upserted (df_rendered_upserts (cb_diff c)) (db_rendered db))"
      by (subst db', use eff e1 e2 in simp)+
  qed
qed

lemma CommitBatch_view:
  assumes cd: "codec_ok cd" and ok: "journal_ok cd org db" and org: "cb_org_id c = org" "rb_org_id (cb_dedup c) = org"
    and fresh: "fresh_for (jv_state (journal_view_of cd org db)) (cb_batch c)"
    and commit: "CommitBatch flt cd c db = (Inr u, db')"
  shows "journal_ok cd org db' \<and> journal_view_of cd org db' = committed_view c (journal_view_of cd org db)"
proof -
  obtain x where x: "cd_batch cd (cb_batch c) = Some x" "db_batches db' = db_batches db @ [journal_row c x]"
    "db_org_state db' = db_org_state db"
    and rest: "db_recent db' = fmupd (rb_org_id (cb_dedup c), rb_batch_id (cb_dedup c)) (stored_recent (cb_dedup c)) (db_recent db)"
    "db_owned db' = deleted (df_owned_deletes (cb_diff c)) (upserted (df_owned_upserts (cb_diff c)) (db_owned db))"
    "db_rendered db' = deleted (df_rendered_deletes (cb_diff c)) (upserted (df_rendered_upserts (cb_diff c)) (db_rendered db))"
    using commit by (rule CommitBatch_effect)
  have "cd_unbatch cd x = Some (cb_batch c)" using cd x(1) by (simp add: codec_ok_def)
  note app = journal_ok_append [OF ok fresh this org(1) x(2,3)]
  have rec: "jv_recent (journal_view_of cd org db') = (jv_recent (journal_view_of cd org db))(rb_batch_id (cb_dedup c) \<mapsto> stored_recent (cb_dedup c))"
    by (rule ext) (simp add: journal_view_of_def rest(1) org(2))
  have "journal_view_of cd org db' = committed_view c (journal_view_of cd org db)"
    using app rec by (simp add: committed_view_def journal_view.equality rest(2,3)) (simp add: journal_view_of_def rest(2,3))
  with app show ?thesis by simp
qed

subsection \<open>The other calls\<close>

lemma GetRecentBatchID_same:
  "GetRecentBatchID flt org bid db = (r, db') \<Longrightarrow> db' = db\<lparr>db_calls := Suc (db_calls db)\<rparr>"
  by (auto simp: GetRecentBatchID_def db_call_def Let_def split: option.splits)

lemma GetRecentBatchID_result:
  "GetRecentBatchID flt org bid db = (Inr row, db') \<Longrightarrow> fmlookup (db_recent db) (org, bid) = Some row"
  "GetRecentBatchID flt org bid db = (Inl DbNotFound, db') \<Longrightarrow> fmlookup (db_recent db) (org, bid) = None"
  by (auto simp: GetRecentBatchID_def db_call_def Let_def split: option.splits)

lemma journal_cong:
  assumes "map_option or_payload (fmlookup (db_org_state db') org) = map_option or_payload (fmlookup (db_org_state db) org)"
    and "db_batches db' = db_batches db"
  shows "journal_ok cd org db' = journal_ok cd org db"
    "jv_state (journal_view_of cd org db') = jv_state (journal_view_of cd org db)"
proof -
  have "org_rows org db' = org_rows org db" using assms(2) by (simp add: org_rows_def)
  moreover have "base_state cd org db' = base_state cd org db"
    using assms(1) by (auto simp: base_state_def split: option.splits)
  ultimately show "journal_ok cd org db' = journal_ok cd org db"
    "jv_state (journal_view_of cd org db') = jv_state (journal_view_of cd org db)"
    by (simp_all add: journal_ok_def journal_view_of_def)
qed

text \<open>The epoch column is not read back: advancing it leaves what loading recovers as it was.\<close>

lemma AdvanceEpoch_view:
  assumes "AdvanceEpoch flt org n t db = (r, db')"
  shows "journal_ok cd org db' = journal_ok cd org db \<and> journal_view_of cd org db' = journal_view_of cd org db"
proof -
  have *: "map_option or_payload (fmlookup (db_org_state db') org) = map_option or_payload (fmlookup (db_org_state db) org)"
    and b: "db_batches db' = db_batches db" and rest: "db_recent db' = db_recent db" "db_owned db' = db_owned db" "db_rendered db' = db_rendered db"
    using assms by (auto simp: AdvanceEpoch_def AdvanceOrgEpoch_def db_call_def Let_def split: option.splits)
  from journal_cong [OF * b, of cd] show ?thesis by (simp add: journal_view_of_def rest)
qed

lemma CompactBatch_effect:
  assumes "CompactBatch flt cd s (Some h) db = (Inr u, db')"
  obtains x e t where "cd_state cd s = Some x"
    "db_org_state db' = fmupd (st_org_id s) \<lparr>or_payload = x, or_epoch = e, or_epoch_started = t\<rparr> (db_org_state db)"
    "db_batches db' = filter (\<lambda>r. \<not> (br_org_id r = st_org_id s \<and> is_through h r)) (db_batches db)"
    "db_recent db' = db_recent db" "db_owned db' = db_owned db" "db_rendered db' = db_rendered db"
proof -
  obtain x where x: "cd_state cd s = Some x"
    using assms transaction_success [of flt "\<lambda>d. (Inl CodecError, d)" db u db']
    by (cases "cd_state cd s") (auto simp: CompactBatch_def)
  let ?row = "\<lparr>or_payload = x, or_epoch = st_epoch s, or_epoch_started = get_or 0 id (st_epoch_started s)\<rparr>"
  let ?body = "db_then (UpsertOrgState flt (st_org_id s) ?row) (\<lambda>_. DeleteThrough flt (st_org_id s) h)"
  obtain d where d: "?body db = (Inr (), d)" and db': "db' = d\<lparr>db_calls := db_calls db'\<rparr>"
    using transaction_success [of flt ?body db u db'] assms x by (auto simp: CompactBatch_def)
  from d have "db_org_state d = fmupd (st_org_id s) ?row (db_org_state db)"
    "db_batches d = filter (\<lambda>r. \<not> (br_org_id r = st_org_id s \<and> is_through h r)) (db_batches db)"
    "db_recent d = db_recent db" "db_owned d = db_owned db" "db_rendered d = db_rendered db"
    by (auto simp: db_then_Inr UpsertOrgState_def DeleteThrough_def db_call_Inr)
  then show thesis by (intro that [OF x]; subst db') simp_all
qed

lemma CompactBatch_view:
  assumes cd: "codec_ok cd" and ok: "journal_ok cd org db" and s: "st_org_id s = org" "st_watermark s = Some h" "st_max_hlc s = Some h"
    and le: "st_max_hlc (jv_state (journal_view_of cd org db)) \<le> Some h"
    and run: "CompactBatch flt cd s (Some h) db = (Inr u, db')"
  shows "journal_ok cd org db' \<and> journal_view_of cd org db' = (journal_view_of cd org db)\<lparr>jv_state := s\<rparr>"
proof -
  obtain x e t where x: "cd_state cd s = Some x"
    and db': "db_org_state db' = fmupd (st_org_id s) \<lparr>or_payload = x, or_epoch = e, or_epoch_started = t\<rparr> (db_org_state db)"
    "db_batches db' = filter (\<lambda>r. \<not> (br_org_id r = st_org_id s \<and> is_through h r)) (db_batches db)"
    and rest: "db_recent db' = db_recent db" "db_owned db' = db_owned db" "db_rendered db' = db_rendered db"
    using run by (rule CompactBatch_effect)
  obtain b bs where b: "base_state cd org db = Some b" "decode_rows cd (org_rows org db) = Some bs"
    and mint: "list_all2 row_minted (org_rows org db) bs"
    using ok by (auto simp: journal_ok_def)
  have "is_through h r" if "r \<in> set (org_rows org db)" for r
    using row_last_le_max [OF mint that, of b] le b unfolding is_through_iff
    by (simp add: journal_view_of_def) (metis less_eq_option_Some order.trans)
  then have rows: "org_rows org db' = []"
    unfolding org_rows_def db'(2) by (auto simp: filter_empty_conv s(1) org_rows_def)
  have base: "base_state cd org db' = Some s"
    using cd x by (simp add: base_state_def db'(1) s(1) codec_ok_def)
  have "journal_ok cd org db'"
    unfolding journal_ok_def by (rule exI [of _ s], rule exI [of _ "[]"]) (simp add: base s rows rows_ordered_def)
  moreover have "journal_view_of cd org db' = (journal_view_of cd org db)\<lparr>jv_state := s\<rparr>"
    by (simp add: journal_view_of_def base rows rest apply_all_def)
  ultimately show ?thesis ..
qed

lemma DeleteExpired_effect:
  assumes "DeleteExpired flt t db = (r, db')"
  shows "db_org_state db' = db_org_state db" "db_batches db' = db_batches db" "db_owned db' = db_owned db"
    "db_rendered db' = db_rendered db" "fmlookup (db_recent db') k = Some v \<Longrightarrow> fmlookup (db_recent db) k = Some v"
    "fmlookup (db_recent db) k = Some v \<Longrightarrow> t \<le> rb_expires v \<Longrightarrow> fmlookup (db_recent db') k = Some v"
proof -
  let ?db1 = "db\<lparr>db_calls := Suc (db_calls db)\<rparr>"
  let ?keep = "\<lambda>k. case fmlookup (db_recent ?db1) k of None \<Rightarrow> True | Some r \<Rightarrow> \<not> rb_expires r < t"
  consider "db' = ?db1" | "db' = ?db1\<lparr>db_recent := fmfilter ?keep (db_recent ?db1)\<rparr>"
    using assms unfolding DeleteExpired_def db_call_def Let_def
    by (cases "flt (db_calls db)") (simp_all only: option.case sum.case prod.case prod.inject)
  note cases = this
  show "db_org_state db' = db_org_state db" "db_batches db' = db_batches db" "db_owned db' = db_owned db" "db_rendered db' = db_rendered db"
    by (rule cases; simp)+
  show "fmlookup (db_recent db) k = Some v" if "fmlookup (db_recent db') k = Some v"
    by (rule cases; use that in \<open>simp split: if_splits\<close>)
  show "fmlookup (db_recent db') k = Some v" if "fmlookup (db_recent db) k = Some v" "t \<le> rb_expires v"
    by (rule cases; use that in simp)
qed

lemma Cleanup_view:
  assumes "CleanupExpiredRecentBatchIDs flt t db = (r, db')"
  shows "journal_ok cd org db' = journal_ok cd org db" "jv_state (journal_view_of cd org db') = jv_state (journal_view_of cd org db)"
    "jv_recent (journal_view_of cd org db') \<subseteq>\<^sub>m jv_recent (journal_view_of cd org db)"
    "jv_owned (journal_view_of cd org db') = jv_owned (journal_view_of cd org db)"
    "jv_rendered (journal_view_of cd org db') = jv_rendered (journal_view_of cd org db)"
    "jv_recent (journal_view_of cd org db) bid = Some row \<Longrightarrow> t \<le> rb_expires row \<Longrightarrow> jv_recent (journal_view_of cd org db') bid = Some row"
proof -
  note fields = DeleteExpired_effect [OF assms [unfolded CleanupExpiredRecentBatchIDs_def]]
  note same = fields(1-4) and sub = fields(5)
  show "journal_ok cd org db' = journal_ok cd org db" "jv_state (journal_view_of cd org db') = jv_state (journal_view_of cd org db)"
    using journal_cong [of db' org db cd] same(1,2) by simp_all
  show "jv_recent (journal_view_of cd org db') \<subseteq>\<^sub>m jv_recent (journal_view_of cd org db)"
    unfolding map_le_def
  proof
    fix bid assume "bid \<in> dom (jv_recent (journal_view_of cd org db'))"
    then obtain v where v: "fmlookup (db_recent db') (org, bid) = Some v" by (auto simp: journal_view_of_def)
    with sub [OF v] show "jv_recent (journal_view_of cd org db') bid = jv_recent (journal_view_of cd org db) bid"
      by (simp add: journal_view_of_def)
  qed
  show "jv_owned (journal_view_of cd org db') = jv_owned (journal_view_of cd org db)"
    "jv_rendered (journal_view_of cd org db') = jv_rendered (journal_view_of cd org db)"
    by (simp_all add: journal_view_of_def same)
  show "jv_recent (journal_view_of cd org db') bid = Some row"
    if "jv_recent (journal_view_of cd org db) bid = Some row" "t \<le> rb_expires row"
    using that fields(6) by (simp add: journal_view_of_def)
qed

subsection \<open>The interpretation\<close>

lemma CommitBatch_error: "CommitBatch flt cd c db = (Inl e, db') \<Longrightarrow> \<exists>d. db' = rolled_back db d"
  unfolding CommitBatch_def by (rule transaction_error)

lemma CompactBatch_error: "CompactBatch flt cd s h db = (Inl e, db') \<Longrightarrow> \<exists>d. db' = rolled_back db d"
  unfolding CompactBatch_def by (rule transaction_error)

definition journal_sound :: "('b, 'h) codec \<Rightarrow> ident \<Rightarrow> ('b, 'h) hub_db \<Rightarrow> bool" where
  "journal_sound cd org db \<longleftrightarrow> codec_ok cd \<and> journal_ok cd org db"

lemma same_view: "db' = db\<lparr>db_calls := n\<rparr> \<Longrightarrow> journal_sound cd org db' = journal_sound cd org db \<and>
    journal_view_of cd org db' = journal_view_of cd org db"
  by (simp add: journal_sound_def)

lemma rolled_back_view: "db' = rolled_back db d \<Longrightarrow> journal_sound cd org db' = journal_sound cd org db \<and>
    journal_view_of cd org db' = journal_view_of cd org db"
  by (simp add: journal_sound_def)

interpretation crdt_journal: journal_contract "NewCRDTJournal flt cd" org "journal_sound cd org" "journal_view_of cd org"
  for flt :: "nat \<Rightarrow> 'e option" and cd :: "('b, 'h) codec" and org :: ident
proof (unfold_locales, unfold NewCRDTJournal_def journal.select_convs)
  fix j j' :: "('b, 'h) hub_db" and c :: "'h commit_batch" and s :: org_state and h :: hlc and u :: unit
  assume ok: "journal_sound cd org j"
  then have jok: "journal_ok cd org j" and cd: "codec_ok cd" by (simp_all add: journal_sound_def)
  obtain r db' where load: "LoadState flt cd org j = Some (r, db')" "db' = j\<lparr>db_calls := db_calls db'\<rparr>"
    and rec: "\<forall>so tail. r = Inr (so, tail) \<longrightarrow> replay org so tail = jv_state (journal_view_of cd org j)"
    using LoadState_ok [OF jok, of flt] by blast
  show "\<exists>r. LoadState flt cd org j = Some r" using load by simp
  show "journal_sound cd org j' \<and> journal_view_of cd org j' = journal_view_of cd org j" if "LoadState flt cd org j = Some (r, j')" for r
    using that load same_view [of j' "db_calls j'" j cd org] ok by simp
  show "replay org so tail = jv_state (journal_view_of cd org j)" if "LoadState flt cd org j = Some (Inr (so, tail), j')" for so tail
    using that load rec by simp
  show "journal_sound cd org j' \<and> journal_view_of cd org j' = journal_view_of cd org j" if "CommitBatch flt cd c j = (Inl e, j')" for e
    using CommitBatch_error [OF that] rolled_back_view [of j' j _ cd org] ok by (elim exE) simp
  show "journal_sound cd org j' \<and> journal_view_of cd org j' = committed_view c (journal_view_of cd org j)"
    if "cb_org_id c = org" "rb_org_id (cb_dedup c) = org" "fresh_for (jv_state (journal_view_of cd org j)) (cb_batch c)"
      "CommitBatch flt cd c j = (Inr u, j')"
    using CommitBatch_view [OF cd jok that] cd by (simp add: journal_sound_def)
  show "journal_sound cd org j' \<and> journal_view_of cd org j' = journal_view_of cd org j" if "LookupRecentBatchID flt org bid j = (r, j')" for bid r
    using that GetRecentBatchID_same [of flt org bid j r j'] same_view [of j' "Suc (db_calls j)" j cd org] ok by (simp add: LookupRecentBatchID_def)
  show "jv_recent (journal_view_of cd org j) bid = Some row" if "LookupRecentBatchID flt org bid j = (Inr row, j')" for bid row
    using that GetRecentBatchID_result(1) [of flt org bid j row j'] by (simp add: LookupRecentBatchID_def journal_view_of_def)
  show "jv_recent (journal_view_of cd org j) bid = None" if "LookupRecentBatchID flt org bid j = (Inl DbNotFound, j')" for bid
    using that GetRecentBatchID_result(2) [of flt org bid j j'] by (simp add: LookupRecentBatchID_def journal_view_of_def)
  show "journal_sound cd org j' \<and> journal_view_of cd org j' = journal_view_of cd org j" if "CompactBatch flt cd s d j = (Inl e, j')" for d e
    using CompactBatch_error [OF that] rolled_back_view [of j' j _ cd org] ok by (elim exE) simp
  show "journal_sound cd org j' \<and> journal_view_of cd org j' = (journal_view_of cd org j)\<lparr>jv_state := s\<rparr>"
    if "st_org_id s = org" "st_watermark s = Some h" "st_max_hlc s = Some h"
      "st_max_hlc (jv_state (journal_view_of cd org j)) \<le> Some h" "CompactBatch flt cd s (Some h) j = (Inr u, j')"
    using CompactBatch_view [OF cd jok that] cd by (simp add: journal_sound_def)
  show "journal_sound cd org j' \<and> journal_view_of cd org j' = journal_view_of cd org j" if "AdvanceEpoch flt org n t j = (r, j')" for n t r
    using AdvanceEpoch_view [OF that, of cd] ok by (simp add: journal_sound_def)
  show "journal_sound cd org j' \<and> jv_state (journal_view_of cd org j') = jv_state (journal_view_of cd org j) \<and>
      jv_recent (journal_view_of cd org j') \<subseteq>\<^sub>m jv_recent (journal_view_of cd org j) \<and>
      (\<forall>bid row. jv_recent (journal_view_of cd org j) bid = Some row \<and> t \<le> rb_expires row \<longrightarrow> jv_recent (journal_view_of cd org j') bid = Some row) \<and>
      jv_owned (journal_view_of cd org j') = jv_owned (journal_view_of cd org j) \<and>
      jv_rendered (journal_view_of cd org j') = jv_rendered (journal_view_of cd org j)"
    if "CleanupExpiredRecentBatchIDs flt t j = (r, j')" for t r
    using Cleanup_view [OF that, of cd org] ok by (simp add: journal_sound_def)
qed

end
