(* ===== verification/Presence.thy ===== *)
theory Presence
  imports Broadcast
begin

text \<open>
  Presence: which client of a workspace is active (backend/internal/hub/crdt/presence.go) and the
  reference counts and deferred clears around it (presence\_controller.go). Times are integers
  (nanoseconds), the zero time is 0 and every receive time is later.
\<close>

section \<open>The tracker\<close>

record presence_entry =
  pe_client :: ident
  pe_received :: int

record presence_tracker =
  pt_rows :: "(ident, (ident, presence_entry) fmap) fmap"
  pt_last :: "(ident, ident) fmap"

definition NewPresenceTracker :: presence_tracker where
  "NewPresenceTracker = \<lparr>pt_rows = fmempty, pt_last = fmempty\<rparr>"

abbreviation row_of :: "presence_tracker \<Rightarrow> ident \<Rightarrow> (ident, presence_entry) fmap" where
  "row_of p ws \<equiv> get_or fmempty id (fmlookup (pt_rows p) ws)"

abbreviation last_of :: "presence_tracker \<Rightarrow> ident \<Rightarrow> ident" where
  "last_of p ws \<equiv> get_or empty_id id (fmlookup (pt_last p) ws)"

text \<open>One step of the pass: the leader so far and the time of the runner-up.\<close>

definition active_step :: "presence_entry \<Rightarrow> presence_entry option \<times> int \<Rightarrow> presence_entry option \<times> int" where
  "active_step e acc = (case acc of (leader, runnerUpAt) \<Rightarrow>
     (case leader of
        None \<Rightarrow> (Some e, runnerUpAt)
      | Some l \<Rightarrow> if pe_received e > pe_received l then (Some e, pe_received l)
                  else if pe_received e > runnerUpAt then (Some l, pe_received e)
                  else (Some l, runnerUpAt)))"

definition active_of :: "range_fun \<Rightarrow> (ident, presence_entry) fmap \<Rightarrow> ident" where
  "active_of it row = (case fold (\<lambda>(_, e). active_step e) (go_range it row) (None, 0) of
     (None, _) \<Rightarrow> empty_id
   | (Some l, runnerUpAt) \<Rightarrow>
       if \<not> pe_received l > runnerUpAt \<and> fcard (fmdom row) > 1 then empty_id else pe_client l)"

definition activeLocked :: "range_fun \<Rightarrow> presence_tracker \<Rightarrow> ident \<Rightarrow> ident" where
  "activeLocked it p ws = active_of it (row_of p ws)"

definition Active :: "range_fun \<Rightarrow> presence_tracker \<Rightarrow> ident \<Rightarrow> ident" where
  "Active it p ws = activeLocked it p ws"

definition Heartbeat :: "range_fun \<Rightarrow> int \<Rightarrow> ident \<Rightarrow> ident \<Rightarrow> presence_tracker \<Rightarrow> (ident \<times> bool) \<times> presence_tracker" where
  "Heartbeat it now ws client p =
     (let p1 = p\<lparr>pt_rows := fmupd ws (fmupd client \<lparr>pe_client = client, pe_received = now\<rparr> (row_of p ws)) (pt_rows p)\<rparr>;
          active = activeLocked it p1 ws
      in if active \<noteq> last_of p1 ws then ((active, True), p1\<lparr>pt_last := fmupd ws active (pt_last p1)\<rparr>)
         else ((active, False), p1))"

text \<open>The end of a pass over one workspace: the row as it is now, the leader compared with the one
  last announced.\<close>

definition settle_row :: "range_fun \<Rightarrow> ident \<Rightarrow> (ident, presence_entry) fmap \<Rightarrow> presence_tracker \<times> (ident, ident) fmap \<Rightarrow>
    presence_tracker \<times> (ident, ident) fmap" where
  "settle_row it ws row acc = (case acc of (p, changes) \<Rightarrow>
     let p1 = p\<lparr>pt_rows := (if row = fmempty then fmdrop ws (pt_rows p) else fmupd ws row (pt_rows p))\<rparr>;
         active = activeLocked it p1 ws
     in if active = last_of p1 ws then (p1, changes)
        else (p1\<lparr>pt_last := (if active = empty_id then fmdrop ws (pt_last p1) else fmupd ws active (pt_last p1))\<rparr>,
              fmupd ws active changes))"

definition SweepInactive :: "range_fun \<Rightarrow> int \<Rightarrow> presence_tracker \<Rightarrow> (ident, ident) fmap \<times> presence_tracker" where
  "SweepInactive it cutoff p =
     (case fold (\<lambda>(ws, row). settle_row it ws
              (fold (\<lambda>(client, e) r. if pe_received e < cutoff then fmdrop client r else r) (go_range it row) row))
            (go_range it (pt_rows p)) (p, fmempty) of (p', changes) \<Rightarrow> (changes, p'))"

definition RemoveClient :: "range_fun \<Rightarrow> ident \<Rightarrow> presence_tracker \<Rightarrow> (ident, ident) fmap \<times> presence_tracker" where
  "RemoveClient it client p =
     (case fold (\<lambda>(ws, row) acc. if fmlookup row client = None then acc else settle_row it ws (fmdrop client row) acc)
            (go_range it (pt_rows p)) (p, fmempty) of (p', changes) \<Rightarrow> (changes, p'))"

section \<open>The controller\<close>

text \<open>Beside the reference counts and the table of scheduled timers: the timers that have not fired
  yet, with their deadline, the jobs of the timers that have fired, and a supply of timer names.\<close>

record presence_ctl =
  pc_tracker :: presence_tracker
  pc_conns :: "(ident, int) fmap"
  pc_timers :: "(ident, nat) fmap"
  pc_armed :: "(nat \<times> ident \<times> int) list"
  pc_clearCh :: "ident list"
  pc_next :: nat
  pc_grace :: int

definition newPresenceController :: "int \<Rightarrow> presence_ctl" where
  "newPresenceController grace = \<lparr>pc_tracker = NewPresenceTracker, pc_conns = fmempty, pc_timers = fmempty,
     pc_armed = [], pc_clearCh = [], pc_next = 0, pc_grace = grace\<rparr>"

abbreviation conns :: "presence_ctl \<Rightarrow> ident \<Rightarrow> int" where
  "conns p c \<equiv> get_or 0 id (fmlookup (pc_conns p) c)"

definition OnConnect :: "ident \<Rightarrow> presence_ctl \<Rightarrow> presence_ctl" where
  "OnConnect c p = (if c = empty_id then p
     else let p1 = p\<lparr>pc_conns := fmupd c (conns p c + 1) (pc_conns p)\<rparr> in
          case fmlookup (pc_timers p1) c of
            None \<Rightarrow> p1
          | Some t \<Rightarrow> p1\<lparr>pc_armed := filter (\<lambda>(t', _). t' \<noteq> t) (pc_armed p1), pc_timers := fmdrop c (pc_timers p1)\<rparr>)"

definition OnDisconnect :: "int \<Rightarrow> ident \<Rightarrow> presence_ctl \<Rightarrow> presence_ctl" where
  "OnDisconnect now c p = (if c = empty_id then p
     else let p1 = p\<lparr>pc_conns := fmupd c (conns p c - 1) (pc_conns p)\<rparr> in
          if conns p1 c > 0 then p1
          else p1\<lparr>pc_conns := fmdrop c (pc_conns p1), pc_timers := fmupd c (pc_next p1) (pc_timers p1),
                  pc_armed := pc_armed p1 @ [(pc_next p1, c, now + pc_grace p1)], pc_next := Suc (pc_next p1)\<rparr>)"

text \<open>The timers whose deadline has passed put their job on the channel.\<close>

definition timers_fire :: "int \<Rightarrow> presence_ctl \<Rightarrow> presence_ctl" where
  "timers_fire now p = p\<lparr>pc_clearCh := pc_clearCh p @ map (fst o snd) (filter (\<lambda>(_, _, d). d \<le> now) (pc_armed p)),
     pc_armed := filter (\<lambda>(_, _, d). \<not> d \<le> now) (pc_armed p)\<rparr>"

definition processClear :: "range_fun \<Rightarrow> ident \<Rightarrow> presence_ctl \<Rightarrow> (ident, ident) fmap \<times> presence_ctl" where
  "processClear it c p =
     (if fmlookup (pc_timers p) c = None then (fmempty, p)
      else let p1 = p\<lparr>pc_timers := fmdrop c (pc_timers p)\<rparr> in
           if conns p c > 0 then (fmempty, p1)
           else (case RemoveClient it c (pc_tracker p1) of (changes, t) \<Rightarrow> (changes, p1\<lparr>pc_tracker := t\<rparr>)))"

definition HasLiveConnections :: "presence_ctl \<Rightarrow> bool" where
  "HasLiveConnections p \<longleftrightarrow> fcard (fmdom (pc_conns p)) > 0"

definition Shutdown :: "presence_ctl \<Rightarrow> presence_ctl" where
  "Shutdown p = p\<lparr>pc_armed := filter (\<lambda>(t, _). t \<notin> fmran' (pc_timers p)) (pc_armed p), pc_timers := fmempty\<rparr>"

text \<open>One turn of the event loop: a heartbeat, a clear job, or the sweep; the result is the list of
  announcements it makes.\<close>

definition PresenceEvictAfter :: int where
  "PresenceEvictAfter = 24 * 3600 * 10 ^ 9"

datatype presence_event = PresenceJob ident ident | ClearJob ident | SweepTick

definition presence_turn :: "range_fun \<Rightarrow> int \<Rightarrow> presence_event \<Rightarrow> presence_ctl \<Rightarrow> (ident \<times> ident) list \<times> presence_ctl" where
  "presence_turn it now ev p = (case ev of
     PresenceJob ws c \<Rightarrow> (case Heartbeat it now ws c (pc_tracker p) of
       ((active, changed), t) \<Rightarrow> (if changed then [(ws, active)] else [], p\<lparr>pc_tracker := t\<rparr>))
   | ClearJob c \<Rightarrow> (case processClear it c p of (changes, p') \<Rightarrow> (go_range it changes, p'))
   | SweepTick \<Rightarrow> (case SweepInactive it (now - PresenceEvictAfter) (pc_tracker p) of
       (changes, t) \<Rightarrow> (go_range it changes, p\<lparr>pc_tracker := t\<rparr>)))"

section \<open>The active client\<close>

definition row_ok :: "(ident, presence_entry) fmap \<Rightarrow> bool" where
  "row_ok row \<longleftrightarrow> (\<forall>c e. fmlookup row c = Some e \<longrightarrow> c \<noteq> empty_id \<and> pe_client e = c \<and> 0 < pe_received e)"

text \<open>The client whose last heartbeat is strictly later than every other client's.\<close>

definition leads :: "(ident, presence_entry) fmap \<Rightarrow> ident \<Rightarrow> bool" where
  "leads row c \<longleftrightarrow> (\<exists>e. fmlookup row c = Some e \<and>
     (\<forall>c' e'. fmlookup row c' = Some e' \<and> c' \<noteq> c \<longrightarrow> pe_received e' < pe_received e))"

definition pass_inv :: "(ident \<times> presence_entry) list \<Rightarrow> presence_entry option \<times> int \<Rightarrow> bool" where
  "pass_inv ps acc \<longleftrightarrow> (case acc of (None, r) \<Rightarrow> ps = [] \<and> r = 0
     | (Some l, r) \<Rightarrow> r \<le> pe_received l \<and> 0 \<le> r \<and> (\<exists>k. (k, l) \<in> set ps \<and> (\<forall>k' e. (k', e) \<in> set ps \<and> k' \<noteq> k \<longrightarrow> pe_received e \<le> r) \<and>
         (r = 0 \<or> (\<exists>k' e. (k', e) \<in> set ps \<and> k' \<noteq> k \<and> pe_received e = r))))"

lemma pass_inv_step:
  assumes "pass_inv ps acc" and "0 < pe_received e" and "k \<notin> fst ` set ps" and "distinct (map fst ps)"
  shows "pass_inv (ps @ [(k, e)]) (active_step e acc)"
proof (cases acc)
  case (Pair lo r)
  show ?thesis
  proof (cases lo)
    case None
    then show ?thesis using assms Pair by (auto simp: pass_inv_def active_step_def)
  next
    case (Some l)
    obtain kl where kl: "(kl, l) \<in> set ps" "\<And>k' e. (k', e) \<in> set ps \<Longrightarrow> k' \<noteq> kl \<Longrightarrow> pe_received e \<le> r"
      and r: "r = 0 \<or> (\<exists>k' e. (k', e) \<in> set ps \<and> k' \<noteq> kl \<and> pe_received e = r)" "r \<le> pe_received l" "0 \<le> r"
      using assms(1) Pair Some by (auto simp: pass_inv_def)
    have ne: "kl \<noteq> k" using kl(1) assms(3) by force
    have all: "pe_received e' \<le> pe_received l" if "(k', e') \<in> set ps" for k' e'
    proof (cases "k' = kl")
      case True
      then have "e' = l" using that kl(1) assms(4) eq_key_imp_eq_value by fastforce
      then show ?thesis by simp
    qed (use kl(2) [OF that] r(2) in simp)
    consider "pe_received e > pe_received l" | "pe_received e \<le> pe_received l" "pe_received e > r" | "pe_received e \<le> r" by linarith
    then show ?thesis
    proof cases
      case 1
      then show ?thesis using Pair Some r kl(1) ne all
        by (simp add: pass_inv_def active_step_def) (intro conjI exI [of _ k], auto intro: all)
    next
      case 2
      then show ?thesis using Pair Some r kl ne
        by (simp add: pass_inv_def active_step_def) (intro exI [of _ kl], fastforce)
    next
      case 3
      then show ?thesis using Pair Some r kl ne
        by (simp add: pass_inv_def active_step_def) (intro exI [of _ kl], fastforce)
    qed
  qed
qed

lemma pass_inv_fold:
  assumes "\<forall>(k, e) \<in> set ps. 0 < pe_received e" and "distinct (map fst ps)"
  shows "pass_inv ps (fold (\<lambda>(_, e). active_step e) ps (None, 0))"
  using assms
proof (induction ps rule: rev_induct)
  case (snoc p ps)
  obtain k e where p: "p = (k, e)" by fastforce
  show ?case using pass_inv_step [of ps _ e k] snoc by (auto simp: p)
qed (simp add: pass_inv_def)

lemma active_of_leads:
  assumes it: "range_order it" and ok: "row_ok row"
  shows "active_of it row = c \<and> c \<noteq> empty_id \<longleftrightarrow> leads row c"
proof -
  let ?ps = "go_range it row"
  obtain lo r where acc: "fold (\<lambda>(_, e). active_step e) ?ps (None, 0) = (lo, r)" by fastforce
  have dist: "distinct (map fst ?ps)" by (simp add: range_order_distinct [OF it])
  have inv: "pass_inv ?ps (lo, r)"
    using pass_inv_fold [of ?ps] acc ok it dist by (auto simp: row_ok_def set_go_range [OF it])
  show ?thesis
  proof (cases lo)
    case None
    then have "?ps = []" using inv by (simp add: pass_inv_def)
    then have "fmlookup row c = None" for c using set_go_range [OF it, of row] by auto
    then show ?thesis using acc None by (auto simp: active_of_def leads_def)
  next
    case (Some l)
    obtain k where k: "fmlookup row k = Some l" and others: "\<And>k' e. fmlookup row k' = Some e \<Longrightarrow> k' \<noteq> k \<Longrightarrow> pe_received e \<le> r"
      and r: "r = 0 \<or> (\<exists>k' e. fmlookup row k' = Some e \<and> k' \<noteq> k \<and> pe_received e = r)" "r \<le> pe_received l"
      using inv Some it by (auto simp: pass_inv_def)
    have k': "pe_client l = k" "k \<noteq> empty_id" "0 < pe_received l" using ok k by (auto simp: row_ok_def)
    show ?thesis
    proof (cases "pe_received l > r")
      case True
      then have lead: "leads row k" using k others by (fastforce simp: leads_def)
      have "leads row c \<Longrightarrow> c = k" using lead by (fastforce simp: leads_def)
      then show ?thesis using lead acc Some True k' by (auto simp: active_of_def)
    next
      case False
      then obtain k2 e2 where two: "fmlookup row k2 = Some e2" "k2 \<noteq> k" "pe_received e2 = pe_received l"
        using r k'(3) by auto
      have "{k, k2} \<subseteq> fset (fmdom row)" using k two(1) by (auto intro: fmdomI)
      then have "card {k, k2} \<le> card (fset (fmdom row))" by (intro card_mono) auto
      then have "fcard (fmdom row) > 1" using two(2) by (simp add: fcard.rep_eq)
      moreover have "\<not> leads row c" for c
      proof
        assume "leads row c"
        then obtain e where e: "fmlookup row c = Some e" "\<And>c' e'. fmlookup row c' = Some e' \<Longrightarrow> c' \<noteq> c \<Longrightarrow> pe_received e' < pe_received e"
          by (auto simp: leads_def)
        have "pe_received e \<le> pe_received l" using others [OF e(1)] r(2) e(1) k by (cases "c = k") auto
        then show False using e(2) [OF k] e(2) [OF two(1)] two(2,3) by (cases "c = k") auto
      qed
      ultimately show ?thesis using acc Some False by (simp add: active_of_def)
    qed
  qed
qed

lemma active_of_any_order: "range_order it \<Longrightarrow> range_order it' \<Longrightarrow> row_ok row \<Longrightarrow> active_of it row = active_of it' row"
  using active_of_leads by metis

section \<open>Announcements\<close>

lemma row_ok_empty [simp]: "row_ok fmempty"
  by (simp add: row_ok_def)

lemma row_ok_drop: "row_ok row \<Longrightarrow> row_ok (fmdrop c row)"
  by (auto simp: row_ok_def split: if_splits)

text \<open>Every row is well-formed, and the client last announced for a workspace is its active one.\<close>

definition tracker_ok :: "range_fun \<Rightarrow> presence_tracker \<Rightarrow> bool" where
  "tracker_ok it p \<longleftrightarrow> (\<forall>ws. row_ok (row_of p ws) \<and> last_of p ws = active_of it (row_of p ws))"

text \<open>What settling one workspace does to that workspace and to the others.\<close>

lemma settle_row_same:
  assumes "settle_row it ws row (p, changes) = (p', changes')"
  shows "row_of p' ws = row" "last_of p' ws = active_of it row"
    "fmlookup changes' ws = (if active_of it row = last_of p ws then fmlookup changes ws else Some (active_of it row))"
  using assms by (auto simp: settle_row_def Let_def activeLocked_def split: if_splits)

lemma settle_row_other:
  assumes "settle_row it ws row (p, changes) = (p', changes')" and "ws' \<noteq> ws"
  shows "fmlookup (pt_rows p') ws' = fmlookup (pt_rows p) ws'" "fmlookup (pt_last p') ws' = fmlookup (pt_last p) ws'"
    "fmlookup changes' ws' = fmlookup changes ws'"
  using assms by (auto simp: settle_row_def Let_def split: if_splits)

text \<open>A pass that replaces some rows.\<close>

definition row_pass :: "range_fun \<Rightarrow> ((ident, presence_entry) fmap \<Rightarrow> (ident, presence_entry) fmap option) \<Rightarrow>
    (ident \<times> (ident, presence_entry) fmap) list \<Rightarrow> presence_tracker \<times> (ident, ident) fmap \<Rightarrow> presence_tracker \<times> (ident, ident) fmap" where
  "row_pass it upd rows acc = fold (\<lambda>(ws, row) acc. case upd row of None \<Rightarrow> acc | Some row' \<Rightarrow> settle_row it ws row' acc) rows acc"

definition effect_at :: "range_fun \<Rightarrow> presence_tracker \<Rightarrow> presence_tracker \<times> (ident, ident) fmap \<Rightarrow> ident \<Rightarrow> (ident, presence_entry) fmap option \<Rightarrow> bool" where
  "effect_at it p res ws upd \<longleftrightarrow> (case res of (p', changes) \<Rightarrow>
     (case upd of
        None \<Rightarrow> row_of p' ws = row_of p ws \<and> last_of p' ws = last_of p ws \<and> fmlookup changes ws = None
      | Some row \<Rightarrow> row_of p' ws = row \<and> last_of p' ws = active_of it row \<and>
          fmlookup changes ws = (if active_of it row = last_of p ws then None else Some (active_of it row))))"

lemma row_pass_effect:
  assumes "distinct (map fst rows)" and "\<And>ws. ws \<in> fst ` set rows \<Longrightarrow> fmlookup changes ws = None"
  shows "(\<forall>ws. ws \<notin> fst ` set rows \<longrightarrow> fmlookup (pt_rows (fst (row_pass it upd rows (p, changes)))) ws = fmlookup (pt_rows p) ws \<and>
      fmlookup (pt_last (fst (row_pass it upd rows (p, changes)))) ws = fmlookup (pt_last p) ws \<and>
      fmlookup (snd (row_pass it upd rows (p, changes))) ws = fmlookup changes ws) \<and>
    (\<forall>(ws, row) \<in> set rows. effect_at it p (row_pass it upd rows (p, changes)) ws (upd row))"
  using assms
proof (induction rows arbitrary: p changes)
  case Nil
  then show ?case by (simp add: row_pass_def)
next
  case (Cons wr rows)
  obtain ws row where wr: "wr = (ws, row)" by fastforce
  have out: "ws \<notin> fst ` set rows" using Cons.prems(1) by (auto simp: wr)
  show ?case
  proof (cases "upd row")
    case None
    then have eq: "row_pass it upd (wr # rows) (p, changes) = row_pass it upd rows (p, changes)" by (simp add: row_pass_def wr)
    have IH: "(\<forall>ws. ws \<notin> fst ` set rows \<longrightarrow> fmlookup (pt_rows (fst (row_pass it upd rows (p, changes)))) ws = fmlookup (pt_rows p) ws \<and>
      fmlookup (pt_last (fst (row_pass it upd rows (p, changes)))) ws = fmlookup (pt_last p) ws \<and>
      fmlookup (snd (row_pass it upd rows (p, changes))) ws = fmlookup changes ws) \<and>
      (\<forall>(ws, row) \<in> set rows. effect_at it p (row_pass it upd rows (p, changes)) ws (upd row))"
      by (rule Cons.IH) (use Cons.prems in auto)
    moreover have "effect_at it p (row_pass it upd rows (p, changes)) ws None"
      using IH out Cons.prems(2) [of ws] by (auto simp: effect_at_def wr split: prod.splits)
    ultimately show ?thesis unfolding eq using None by (auto simp: wr)
  next
    case (Some row')
    obtain p1 c1 where st: "settle_row it ws row' (p, changes) = (p1, c1)" by fastforce
    have eq: "row_pass it upd (wr # rows) (p, changes) = row_pass it upd rows (p1, c1)" using Some st by (simp add: row_pass_def wr)
    note same = settle_row_same [OF st] and other = settle_row_other [OF st]
    have IH: "(\<forall>ws. ws \<notin> fst ` set rows \<longrightarrow> fmlookup (pt_rows (fst (row_pass it upd rows (p1, c1)))) ws = fmlookup (pt_rows p1) ws \<and>
      fmlookup (pt_last (fst (row_pass it upd rows (p1, c1)))) ws = fmlookup (pt_last p1) ws \<and>
      fmlookup (snd (row_pass it upd rows (p1, c1))) ws = fmlookup c1 ws) \<and>
      (\<forall>(ws, row) \<in> set rows. effect_at it p1 (row_pass it upd rows (p1, c1)) ws (upd row))"
    proof (rule Cons.IH)
      show "distinct (map fst rows)" using Cons.prems(1) by simp
      show "fmlookup c1 w = None" if "w \<in> fst ` set rows" for w
        using that out other(3) [of w] Cons.prems(2) [of w] by auto
    qed
    have "effect_at it p (row_pass it upd rows (p1, c1)) w (upd r)" if "(w, r) \<in> set rows" for w r
    proof -
      have "w \<noteq> ws" using that out by force
      moreover have "effect_at it p1 (row_pass it upd rows (p1, c1)) w (upd r)" using IH that by auto
      ultimately show ?thesis using other [of w] by (simp add: effect_at_def split: prod.splits option.splits)
    qed
    moreover have "effect_at it p (row_pass it upd rows (p1, c1)) ws (Some row')"
      using IH out same Cons.prems(2) [of ws] by (auto simp: effect_at_def wr split: prod.splits)
    ultimately show ?thesis unfolding eq using IH other Some by (auto simp: wr)
  qed
qed

text \<open>What a client that follows the announcements believes.\<close>

definition announce :: "(ident \<times> ident) list \<Rightarrow> (ident \<Rightarrow> ident) \<Rightarrow> ident \<Rightarrow> ident" where
  "announce as view = fold (\<lambda>(ws, a) v. v(ws := a)) as view"

lemma announce_range:
  assumes "range_order it"
  shows "announce (go_range it m) view ws = get_or (view ws) id (fmlookup m ws)"
proof -
  have "announce ps view ws = (case map_of ps ws of None \<Rightarrow> view ws | Some a \<Rightarrow> a)" if "distinct (map fst ps)" for ps
    using that by (induction ps arbitrary: view) (auto simp: announce_def split: option.splits dest: map_of_SomeD simp: rev_image_eqI)
  moreover have d: "distinct (map fst (go_range it m))" by (simp add: range_order_distinct [OF assms])
  moreover have "map_of (go_range it m) ws = fmlookup m ws"
  proof (cases "fmlookup m ws")
    case None
    then show ?thesis using set_go_range [OF assms, of m] by (auto simp: map_of_eq_None_iff)
  next
    case (Some v)
    then show ?thesis using d assms by (simp add: map_of_eq_Some_iff)
  qed
  ultimately show ?thesis by (simp split: option.splits)
qed

lemma row_pass_ok:
  assumes it: "range_order it" and ok: "tracker_ok it p" and view: "\<And>ws. view ws = last_of p ws"
    and upd: "\<And>row row'. row_ok row \<Longrightarrow> upd row = Some row' \<Longrightarrow> row_ok row'"
    and run: "row_pass it upd (go_range it (pt_rows p)) (p, fmempty) = (p', changes)"
  shows "tracker_ok it p'" "announce (go_range it changes) view ws = last_of p' ws"
proof -
  have d: "distinct (map fst (go_range it (pt_rows p)))" by (simp add: range_order_distinct [OF it])
  note eff = row_pass_effect [OF d, of fmempty it upd p, simplified run, simplified]
  have *: "row_ok (row_of p' ws) \<and> last_of p' ws = active_of it (row_of p' ws) \<and>
      get_or (view ws) id (fmlookup changes ws) = last_of p' ws" for ws
  proof (cases "fmlookup (pt_rows p) ws")
    case None
    then have "ws \<notin> fst ` set (go_range it (pt_rows p))" using set_go_range [OF it, of "pt_rows p"] by auto
    then show ?thesis using eff ok view None by (auto simp: tracker_ok_def)
  next
    case (Some row)
    then have e: "effect_at it p (p', changes) ws (upd row)" using eff it by auto
    have r: "row_ok row" "row_of p ws = row" using ok Some by (auto simp: tracker_ok_def dest: spec [of _ ws])
    show ?thesis
    proof (cases "upd row")
      case None
      then show ?thesis using e ok view by (auto simp: effect_at_def tracker_ok_def)
    next
      case (Some row')
      then show ?thesis using e upd [OF r(1) Some] view by (auto simp: effect_at_def)
    qed
  qed
  then show "tracker_ok it p'" by (simp add: tracker_ok_def)
  show "announce (go_range it changes) view ws = last_of p' ws" using * [of ws] by (simp add: announce_range [OF it])
qed

lemma sweep_row:
  assumes "row_ok row"
  shows "row_ok (fold (\<lambda>(client, e) r. if pe_received e < cutoff then fmdrop client r else r) ps row)"
  using assms by (induction ps arbitrary: row) (auto simp: row_ok_drop)

lemma swap_eq_iff: "prod.swap x = (a, b) \<longleftrightarrow> x = (b, a)"
  by (cases x) auto

lemma SweepInactive_pass:
  "SweepInactive it cutoff p = prod.swap (row_pass it (\<lambda>row. Some (fold (\<lambda>(client, e) r. if pe_received e < cutoff then fmdrop client r else r)
     (go_range it row) row)) (go_range it (pt_rows p)) (p, fmempty))"
  by (simp add: SweepInactive_def row_pass_def case_prod_beta prod.swap_def)

lemma RemoveClient_pass:
  "RemoveClient it c p = prod.swap (row_pass it (\<lambda>row. if fmlookup row c = None then None else Some (fmdrop c row))
     (go_range it (pt_rows p)) (p, fmempty))"
proof -
  have "(\<lambda>(ws, row) acc. if fmlookup row c = None then acc else settle_row it ws (fmdrop c row) acc) =
      (\<lambda>(ws, row) acc. case if fmlookup row c = None then None else Some (fmdrop c row) of None \<Rightarrow> acc | Some row' \<Rightarrow> settle_row it ws row' acc)"
    by (auto simp: fun_eq_iff)
  then show ?thesis by (simp add: RemoveClient_def row_pass_def case_prod_beta prod.swap_def)
qed

lemma SweepInactive_ok:
  assumes it: "range_order it" and ok: "tracker_ok it p" and view: "\<And>ws. view ws = last_of p ws"
    and run: "SweepInactive it cutoff p = (changes, p')"
  shows "tracker_ok it p'" "announce (go_range it changes) view ws = last_of p' ws"
proof -
  let ?upd = "\<lambda>row. Some (fold (\<lambda>(client, e) r. if pe_received e < cutoff then fmdrop client r else r) (go_range it row) row)"
  have "row_pass it ?upd (go_range it (pt_rows p)) (p, fmempty) = (p', changes)"
    using run unfolding SweepInactive_pass swap_eq_iff .
  moreover have "row_ok row \<Longrightarrow> ?upd row = Some row' \<Longrightarrow> row_ok row'" for row row' using sweep_row by auto
  ultimately show "tracker_ok it p'" "announce (go_range it changes) view ws = last_of p' ws"
    using row_pass_ok [OF it ok view, of ?upd p' changes] by simp_all
qed

lemma RemoveClient_ok:
  assumes it: "range_order it" and ok: "tracker_ok it p" and view: "\<And>ws. view ws = last_of p ws"
    and run: "RemoveClient it c p = (changes, p')"
  shows "tracker_ok it p'" "announce (go_range it changes) view ws = last_of p' ws"
proof -
  let ?upd = "\<lambda>row. if fmlookup row c = None then None else Some (fmdrop c row)"
  have "row_pass it ?upd (go_range it (pt_rows p)) (p, fmempty) = (p', changes)"
    using run unfolding RemoveClient_pass swap_eq_iff .
  moreover have "row_ok row \<Longrightarrow> ?upd row = Some row' \<Longrightarrow> row_ok row'" for row row'
    using row_ok_drop by (auto split: if_splits)
  ultimately show "tracker_ok it p'" "announce (go_range it changes) view ws = last_of p' ws"
    using row_pass_ok [OF it ok view, of ?upd p' changes] by simp_all
qed

lemma Heartbeat_ok:
  assumes ok: "tracker_ok it p" and view: "\<And>ws. view ws = last_of p ws" and in_dom: "c \<noteq> empty_id" "0 < now"
    and run: "Heartbeat it now ws c p = ((active, changed), p')"
  shows "tracker_ok it p'" "announce (if changed then [(ws, active)] else []) view ws' = last_of p' ws'"
proof -
  let ?row = "fmupd c \<lparr>pe_client = c, pe_received = now\<rparr> (row_of p ws)"
  have r: "row_ok ?row" using ok in_dom by (auto simp: tracker_ok_def row_ok_def)
  have p': "pt_rows p' = fmupd ws ?row (pt_rows p)" "active = active_of it ?row"
    "last_of p' ws = active" "\<And>w. w \<noteq> ws \<Longrightarrow> last_of p' w = last_of p w" "changed \<longleftrightarrow> active \<noteq> last_of p ws"
    using run by (auto simp: Heartbeat_def Let_def activeLocked_def split: if_splits)
  show "tracker_ok it p'" unfolding tracker_ok_def
  proof
    fix w show "row_ok (row_of p' w) \<and> last_of p' w = active_of it (row_of p' w)"
      using ok r p' by (cases "w = ws") (auto simp: tracker_ok_def)
  qed
  show "announce (if changed then [(ws, active)] else []) view ws' = last_of p' ws'"
    using p'(3-5) view by (cases "ws' = ws") (auto simp: announce_def)
qed

text \<open>The states of a controller together with what a follower of its announcements believes:
  turns of the event loop, connects, disconnects, timers, the shutdown, in any order.\<close>

inductive presence_run :: "range_fun \<Rightarrow> int \<Rightarrow> presence_ctl \<Rightarrow> (ident \<Rightarrow> ident) \<Rightarrow> bool" for it grace where
  init: "presence_run it grace (newPresenceController grace) (\<lambda>_. empty_id)"
| turn: "presence_run it grace p view \<Longrightarrow> presence_turn it now ev p = (as, p') \<Longrightarrow> 0 < now \<Longrightarrow>
    (\<And>ws c. ev = PresenceJob ws c \<Longrightarrow> c \<noteq> empty_id) \<Longrightarrow> presence_run it grace p' (announce as view)"
| on_connect: "presence_run it grace p view \<Longrightarrow> presence_run it grace (OnConnect c p) view"
| on_disconnect: "presence_run it grace p view \<Longrightarrow> presence_run it grace (OnDisconnect now c p) view"
| fire: "presence_run it grace p view \<Longrightarrow> presence_run it grace (timers_fire now p) view"
| down: "presence_run it grace p view \<Longrightarrow> presence_run it grace (Shutdown p) view"

lemma tracker_frame [simp]:
  "pc_tracker (OnConnect c p) = pc_tracker p" "pc_tracker (OnDisconnect now c p) = pc_tracker p"
  "pc_tracker (timers_fire now p) = pc_tracker p" "pc_tracker (Shutdown p) = pc_tracker p"
  by (simp_all add: OnConnect_def OnDisconnect_def timers_fire_def Shutdown_def Let_def split: option.splits)

lemma presence_turn_ok:
  assumes it: "range_order it" and ok: "tracker_ok it (pc_tracker p)" and view: "\<And>ws. view ws = last_of (pc_tracker p) ws"
    and run: "presence_turn it now ev p = (as, p')" and "0 < now" "\<And>ws c. ev = PresenceJob ws c \<Longrightarrow> c \<noteq> empty_id"
  shows "tracker_ok it (pc_tracker p') \<and> (\<forall>ws. announce as view ws = last_of (pc_tracker p') ws)"
proof (cases ev)
  case (PresenceJob ws c)
  obtain active changed t where hb: "Heartbeat it now ws c (pc_tracker p) = ((active, changed), t)" by (metis surj_pair)
  show ?thesis using Heartbeat_ok [OF ok view _ _ hb] assms(5,6) run hb by (auto simp: presence_turn_def PresenceJob)
next
  case (ClearJob c)
  obtain changes q where pcl: "processClear it c p = (changes, q)" by fastforce
  then have out: "as = go_range it changes" "p' = q" using run by (simp_all add: presence_turn_def ClearJob)
  consider "changes = fmempty" "pc_tracker q = pc_tracker p" | "RemoveClient it c (pc_tracker p) = (changes, pc_tracker q)"
    using pcl by (auto simp: processClear_def Let_def split: if_splits prod.splits)
  then show ?thesis
  proof cases
    case 1
    then show ?thesis using ok view out by (simp add: announce_range [OF it])
  next
    case 2
    then show ?thesis using RemoveClient_ok [OF it ok view 2] out by simp
  qed
next
  case SweepTick
  obtain changes t where sw: "SweepInactive it (now - PresenceEvictAfter) (pc_tracker p) = (changes, t)" by fastforce
  show ?thesis using SweepInactive_ok [OF it ok view sw] run sw by (auto simp: presence_turn_def SweepTick)
qed

lemma presence_run_ok:
  assumes it: "range_order it" and "presence_run it grace p view"
  shows "tracker_ok it (pc_tracker p) \<and> (\<forall>ws. view ws = last_of (pc_tracker p) ws)"
  using assms(2)
proof induction
  case init
  have "active_of it fmempty = empty_id" using range_order_empty [OF it] by (simp add: active_of_def go_range_def)
  then show ?case by (simp add: tracker_ok_def newPresenceController_def NewPresenceTracker_def)
next
  case (turn p view now ev as p')
  then show ?case using presence_turn_ok [OF it, of p view now ev as p'] by blast
qed simp_all

text \<open>Whoever follows the announcements knows the truth: over every history, the client last
  announced for a workspace is the active one, and it is active exactly when its last heartbeat
  is strictly later than that of every other client of the workspace.\<close>

theorem presence_announced:
  assumes "range_order it" and "presence_run it grace p view"
  shows "view ws = Active it (pc_tracker p) ws \<and>
    (view ws = c \<and> c \<noteq> empty_id \<longleftrightarrow> leads (row_of (pc_tracker p) ws) c)"
  using presence_run_ok [OF assms] active_of_leads [OF assms(1), of "row_of (pc_tracker p) ws" c]
  by (simp add: Active_def activeLocked_def tracker_ok_def)

section \<open>Deferred clears\<close>

text \<open>The states of a controller together with the number of open connections of each client; a
  connection is closed once (the code guards the callback with a \<open>sync.Once\<close>).\<close>

inductive conn_run :: "range_fun \<Rightarrow> int \<Rightarrow> presence_ctl \<Rightarrow> (ident \<Rightarrow> nat) \<Rightarrow> bool" for it grace where
  init: "conn_run it grace (newPresenceController grace) (\<lambda>_. 0)"
| open_conn: "conn_run it grace p n \<Longrightarrow> c \<noteq> empty_id \<Longrightarrow> conn_run it grace (OnConnect c p) (n(c := Suc (n c)))"
| close_conn: "conn_run it grace p n \<Longrightarrow> c \<noteq> empty_id \<Longrightarrow> n c = Suc k \<Longrightarrow> conn_run it grace (OnDisconnect now c p) (n(c := k))"
| turn: "conn_run it grace p n \<Longrightarrow> presence_turn it now ev p = (as, p') \<Longrightarrow> conn_run it grace p' n"
| fire: "conn_run it grace p n \<Longrightarrow> conn_run it grace (timers_fire now p) n"
| down: "conn_run it grace p n \<Longrightarrow> conn_run it grace (Shutdown p) n"

definition conns_ok :: "presence_ctl \<Rightarrow> (ident \<Rightarrow> nat) \<Rightarrow> bool" where
  "conns_ok p n \<longleftrightarrow> (\<forall>c. fmlookup (pc_conns p) c = (if n c = 0 then None else Some (int (n c))) \<and>
     (fmlookup (pc_timers p) c \<noteq> None \<longrightarrow> n c = 0))"

lemma turn_conns:
  assumes "presence_turn it now ev p = (as, p')"
  shows "pc_conns p' = pc_conns p" "fmlookup (pc_timers p') c \<noteq> None \<Longrightarrow> fmlookup (pc_timers p) c \<noteq> None"
  using assms by (auto simp: presence_turn_def processClear_def Let_def split: presence_event.splits prod.splits if_splits)

lemma conn_run_ok: "conn_run it grace p n \<Longrightarrow> conns_ok p n"
proof (induction rule: conn_run.induct)
  case init
  then show ?case by (simp add: conns_ok_def newPresenceController_def)
next
  case (open_conn p n c)
  then show ?case by (auto simp: conns_ok_def OnConnect_def Let_def split: option.splits)
next
  case (close_conn p n c k now)
  then have "fmlookup (pc_conns p) c = Some (int (Suc k))" by (simp add: conns_ok_def)
  with close_conn show ?case by (auto simp: conns_ok_def OnDisconnect_def Let_def)
next
  case (turn p n now ev as p')
  then show ?case using turn_conns [OF turn.hyps(2)] unfolding conns_ok_def by metis
qed (auto simp: conns_ok_def timers_fire_def Shutdown_def)

text \<open>A deferred clear never evicts a connected client: over every history, a clear job that
  changes the tracker is for a client without an open connection, and the count the idle check of
  the registry reads is positive exactly when some connection is open.\<close>

theorem clear_spares_connected:
  assumes "conn_run it grace p n" and "processClear it c p = (changes, p')" and "pc_tracker p' \<noteq> pc_tracker p"
  shows "n c = 0 \<and> (HasLiveConnections p \<longleftrightarrow> (\<exists>c'. n c' > 0))"
proof -
  have ok: "conns_ok p n" using conn_run_ok [OF assms(1)] .
  have "fmlookup (pc_timers p) c \<noteq> None"
    using assms(2,3) by (auto simp: processClear_def Let_def split: if_splits prod.splits)
  then have "n c = 0" using ok by (simp add: conns_ok_def)
  moreover have "HasLiveConnections p \<longleftrightarrow> (\<exists>c'. fmlookup (pc_conns p) c' \<noteq> None)"
    by (auto simp: HasLiveConnections_def fcard.rep_eq card_gt_0_iff fmlookup_dom_iff[symmetric] fmdom_notD)
  ultimately show ?thesis using ok by (auto simp: conns_ok_def)
qed

text \<open>The grace window can be cut short: a clear job that fired before a reconnect is still on the
  channel after the next disconnect, finds the timer of that disconnect scheduled, and evicts the
  client at once, with the timer of the second disconnect still 60 seconds away.\<close>

definition stale_history :: presence_ctl where
  "stale_history =
     OnDisconnect 61 ''c'' (OnConnect ''c'' (timers_fire 60 (OnDisconnect 0 ''c''
       (snd (presence_turn sorted_range 1 (PresenceJob ''ws'' ''c'') (OnConnect ''c'' (newPresenceController 60)))))))"

theorem stale_clear_cuts_grace:
  "pc_clearCh stale_history = [''c''] \<and> Active sorted_range (pc_tracker stale_history) ''ws'' = ''c'' \<and>
   (let p = snd (processClear sorted_range ''c'' stale_history) in
     Active sorted_range (pc_tracker p) ''ws'' = empty_id \<and> map (snd o snd) (pc_armed p) = [121])"
  by code_simp

end
