(* ===== verification/Manager.thy ===== *)
theory Manager
  imports Materialize JournalLaws Presence
begin

text \<open>
  The manager of one organization (backend/internal/hub/crdt/manager.go, manager\_compaction.go and
  manager\_audit.go): the pipeline of a submission, the recovery of the state at start, the
  housekeeping, subscriptions. The record \<open>manager\<close> holds the fields of the struct and, prefixed
  with \<open>ex\<close>, the state of what the manager calls: the journal, the permission store, the readings
  of the wall clock and the generated ids so far, the deliveries to streams, the audits spawned.
  The calls themselves are in the record \<open>manager_env\<close>.
\<close>

section \<open>Data\<close>

record submit_input =
  in_org_id :: ident
  in_epoch :: int
  in_batches :: "op_batch list"
  in_principal :: ident
  in_origin :: ident
  in_workspace_scope :: ident
  in_worker_scope :: "(ident \<Rightarrow> bool) option"
  in_internal :: bool

datatype batch_outcome =
    Committed "(ident \<times> hlc option) list" "hlc option" int
  | Rejected rejection ident

record batch_result =
  res_batch_id :: ident
  res_outcome :: batch_outcome

datatype 'e submit_error = ErrWrongOrg | ErrPermissionLookup "'e store_error" | ErrDedupLookup "'e db_error"
  | ErrHashBody | ErrCommit "'e db_error"

record audit_job =
  au_input :: submit_input
  au_batch :: op_batch
  au_affected :: transitions
  au_workers :: "(ident, ident) fmap"

record ('j, 'w, 'b, 'h, 'e) manager_env =
  env_it :: range_fun
  env_itr :: "subscriber \<Rightarrow> entity_ref fset \<Rightarrow> entity_ref list"
  env_journal :: "('j, 'h, 'e) journal"
  env_auth :: "('w, 'e) auth_checker"
  env_auth_many :: "(ident \<Rightarrow> ident \<Rightarrow> ident list \<Rightarrow> 'w \<Rightarrow> ('e store_error + ident set) \<times> 'w) option"
  env_now :: "nat \<Rightarrow> int"
  env_gen :: "nat \<Rightarrow> ident"
  env_marshal :: "op_batch \<Rightarrow> 'b option"
  env_sha :: "'b \<Rightarrow> 'h"

record ('j, 'w) manager =
  mg_org_id :: ident
  mg_clock :: clock
  mg_hub_client :: ident
  mg_state :: org_state
  mg_subscribers :: subscriber_controller
  mg_presence :: presence_ctl
  mg_last_activity :: int
  ex_journal :: 'j
  ex_auth :: 'w
  ex_reads :: nat
  ex_gen :: nat
  ex_sent :: "delivery list"
  ex_audits :: "audit_job list"

definition EpochDuration :: int where
  "EpochDuration = 14 * 24 * 3600 * 10 ^ 9"

definition DedupTTL :: int where
  "DedupTTL = 14 * 24 * 3600 * 10 ^ 9"

definition HubReservedPrincipal :: ident where
  "HubReservedPrincipal = ''hub''"

definition PresenceClearGrace :: int where
  "PresenceClearGrace = 60 * 10 ^ 9"

definition read_now :: "('j, 'w, 'b, 'h, 'e) manager_env \<Rightarrow> ('j, 'w) manager \<Rightarrow> int \<times> ('j, 'w) manager" where
  "read_now env m = (env_now env (ex_reads m), m\<lparr>ex_reads := Suc (ex_reads m)\<rparr>)"

definition UnixMilli :: "int \<Rightarrow> int" where
  "UnixMilli t = t div 10 ^ 6"

section \<open>Start\<close>

definition NewManager :: "ident \<Rightarrow> 'j \<Rightarrow> 'w \<Rightarrow> ('j, 'w) manager" where
  "NewManager orgID j w = \<lparr>mg_org_id = orgID, mg_clock = NewClock ''hub-canonical'',
     mg_hub_client = HubReservedPrincipal @ ''-'' @ take 8 orgID, mg_state = NewState orgID,
     mg_subscribers = newSubscriberController, mg_presence = newPresenceController PresenceClearGrace,
     mg_last_activity = 0, ex_journal = j, ex_auth = w, ex_reads = 0, ex_gen = 0, ex_sent = [], ex_audits = []\<rparr>"

definition touchActivity :: "('j, 'w, 'b, 'h, 'e) manager_env \<Rightarrow> ('j, 'w) manager \<Rightarrow> ('j, 'w) manager" where
  "touchActivity env m = (case read_now env m of (t, m') \<Rightarrow> m'\<lparr>mg_last_activity := t\<rparr>)"

text \<open>\<open>None\<close> as a whole: the load did not return.\<close>

definition Bootstrap :: "('j, 'w, 'b, 'h, 'e) manager_env \<Rightarrow> ('j, 'w) manager \<Rightarrow>
    ('e db_error option \<times> ('j, 'w) manager) option" where
  "Bootstrap env m = (case jn_load (env_journal env) (mg_org_id m) (ex_journal m) of
     None \<Rightarrow> None
   | Some (Inl e, j) \<Rightarrow> Some (Some e, m\<lparr>ex_journal := j\<rparr>)
   | Some (Inr (so, tail), j) \<Rightarrow>
       let s0 = (case so of None \<Rightarrow> (NewState (mg_org_id m))\<lparr>st_epoch_started := None\<rparr> | Some s \<Rightarrow> s);
           s = fold (\<lambda>b s. fold Apply (batch_ops b) s) tail s0
       in Some (None, touchActivity env (m\<lparr>ex_journal := j, mg_clock := Observe (mg_clock m) (st_max_hlc s), mg_state := s\<rparr>)))"

section \<open>The pipeline of a batch\<close>

definition rejectBatch :: "op_batch \<Rightarrow> rejection \<Rightarrow> ident \<Rightarrow> batch_result" where
  "rejectBatch b reason opID = \<lparr>res_batch_id = batch_id b, res_outcome = Rejected reason opID\<rparr>"

definition rejectAll :: "op_batch list \<Rightarrow> rejection \<Rightarrow> ident \<Rightarrow> batch_result list" where
  "rejectAll bs reason opID = map (\<lambda>b. rejectBatch b reason opID) bs"

definition makeDedupHitResult :: "op_batch \<Rightarrow> 'h recent_batch \<Rightarrow> int \<Rightarrow> batch_result" where
  "makeDedupHitResult b row epoch = (let first = hlc_of (rb_first_hlc row) in
     \<lparr>res_batch_id = batch_id b, res_outcome = Committed
        (map (\<lambda>(i, p). (op_id p, Some (first\<lparr>hlc_logical := wrap64 (hlc_logical first + int i)\<rparr>))) (enumerate 0 (batch_ops b)))
        (Some (first\<lparr>hlc_logical := wrap64 (hlc_logical first + rb_op_count row - 1)\<rparr>)) epoch\<rparr>)"

datatype ('h, 'e) dedup = DedupErr "'e db_error" | DedupReject batch_result | DedupHit "'h recent_batch" | DedupMiss

definition batch_hash :: "('j, 'w, 'b, 'h, 'e) manager_env \<Rightarrow> op_batch \<Rightarrow> 'h option" where
  "batch_hash env b = BatchBodyHash (env_marshal env) (env_sha env) b"

definition runDedup :: "('j, 'w, 'b, 'h, 'e) manager_env \<Rightarrow> submit_input \<Rightarrow> op_batch \<Rightarrow> ('j, 'w) manager \<Rightarrow>
    ('h, 'e) dedup \<times> ('j, 'w) manager" where
  "runDedup env inp b m = (case jn_lookup (env_journal env) (mg_org_id m) (batch_id b) (ex_journal m) of (r, j) \<Rightarrow>
     (case r of
        Inl DbNotFound \<Rightarrow> DedupMiss
      | Inl e \<Rightarrow> DedupErr e
      | Inr row \<Rightarrow>
          if rb_epoch row < st_epoch (mg_state m) - 1 then DedupReject (rejectBatch b STALE_EPOCH empty_id)
          else if rb_principal row \<noteq> in_principal inp then DedupReject (rejectBatch b OP_ID_COLLISION_UNAUTHORIZED empty_id)
          else if rb_op_count row \<noteq> int (length (batch_ops b)) then DedupReject (rejectBatch b OP_ID_COLLISION empty_id)
          else (case batch_hash env b of
                  None \<Rightarrow> DedupReject (rejectBatch b VALUE_DOMAIN empty_id)
                | Some h \<Rightarrow> if h \<noteq> rb_body_hash row then DedupReject (rejectBatch b OP_ID_COLLISION empty_id)
                            else DedupHit row),
      m\<lparr>ex_journal := j\<rparr>))"

text \<open>The stamps: one tick per operation at one reading of the clock, and an id where there is none.\<close>

fun mint_ops :: "(nat \<Rightarrow> ident) \<Rightarrow> ident \<Rightarrow> int \<Rightarrow> org_op list \<Rightarrow> nat \<Rightarrow> clock \<Rightarrow> org_op list \<times> nat \<times> clock" where
  "mint_ops gen origin now [] n c = ([], n, c)"
| "mint_ops gen origin now (p # ps) n c =
     (let (i, n1) = (if op_id p = empty_id then (gen n, Suc n) else (op_id p, n));
          (c1, h) = Tick c now;
          (qs, n2, c2) = mint_ops gen origin now ps n1 c1
      in (p\<lparr>op_id := i, op_origin_client := origin, op_canonical_hlc := Some h\<rparr> # qs, n2, c2))"

definition commit :: "('j, 'w, 'b, 'h, 'e) manager_env \<Rightarrow> submit_input \<Rightarrow> op_batch \<Rightarrow> org_state \<Rightarrow> ('j, 'w) manager \<Rightarrow>
    'e submit_error option \<times> ('j, 'w) manager" where
  "commit env inp b working m =
     (let diff = DiffProjectionForBatch (env_it env) (mg_state m) working (batch_ops b) in
      case batch_hash env b of
        None \<Rightarrow> (Some ErrHashBody, m)
      | Some h \<Rightarrow>
          (case read_now env m of (t, m1) \<Rightarrow>
             let dedup = \<lparr>rb_org_id = mg_org_id m, rb_batch_id = batch_id b, rb_body_hash = h, rb_principal = in_principal inp,
                          rb_first_hlc = HLCClone (op_canonical_hlc (hd (batch_ops b))), rb_op_count = int (length (batch_ops b)),
                          rb_epoch = st_epoch (mg_state m), rb_expires = t + DedupTTL\<rparr>
             in case jn_commit (env_journal env) \<lparr>cb_org_id = mg_org_id m, cb_batch = b, cb_principal = in_principal inp,
                       cb_epoch = st_epoch (mg_state m), cb_dedup = dedup, cb_diff = diff\<rparr> (ex_journal m1) of
                  (Inl e, j) \<Rightarrow> (Some (ErrCommit e), m1\<lparr>ex_journal := j\<rparr>)
                | (Inr _, j) \<Rightarrow> (None, m1\<lparr>ex_journal := j, mg_state := working\<rparr>)))"

definition containsTombstoneTab :: "op_batch \<Rightarrow> bool" where
  "containsTombstoneTab b = list_ex (\<lambda>p. case op_body p of TombstoneTab _ _ \<Rightarrow> True | _ \<Rightarrow> False) (batch_ops b)"

definition worker_of :: "tab_record \<Rightarrow> ident" where
  "worker_of t = get_or empty_id lww_value (tb_worker_id t)"

definition tombstonedTabWorkerIDs :: "op_batch \<Rightarrow> org_state \<Rightarrow> (ident, ident) fmap" where
  "tombstonedTabWorkerIDs b pre = fold (\<lambda>p out. case op_body p of
     TombstoneTab _ i \<Rightarrow> if i = empty_id then out else (case fmlookup (st_tabs pre) i of
         None \<Rightarrow> out | Some r \<Rightarrow> if worker_of r = empty_id then out else fmupd i (worker_of r) out)
   | _ \<Rightarrow> out) (batch_ops b) fmempty"

definition processBatch :: "('j, 'w, 'b, 'h, 'e) manager_env \<Rightarrow> submit_input \<Rightarrow> op_batch \<Rightarrow> ('j, 'w) manager \<Rightarrow>
    ('e submit_error + batch_result) \<times> ('j, 'w) manager" where
  "processBatch env inp b m =
     (if batch_id b = empty_id then (Inr (rejectBatch b VALUE_DOMAIN empty_id), m)
      else if batch_ops b = [] then (Inr (rejectBatch b VALUE_DOMAIN empty_id), m)
      else (case runDedup env inp b m of
          (DedupErr e, m1) \<Rightarrow> (Inl (ErrDedupLookup e), m1)
        | (DedupReject r, m1) \<Rightarrow> (Inr r, m1)
        | (DedupHit row, m1) \<Rightarrow> (Inr (makeDedupHitResult b row (st_epoch (mg_state m1))), m1)
        | (DedupMiss, m1) \<Rightarrow>
            (case read_now env m1 of (t, m2) \<Rightarrow>
            (case mint_ops (env_gen env) (in_origin inp) (UnixMilli t) (batch_ops b) (ex_gen m2) (mg_clock m2) of (ops, n, c) \<Rightarrow>
             let b' = b\<lparr>batch_ops := ops\<rparr>; m3 = m2\<lparr>ex_gen := n, mg_clock := c\<rparr> in
            (case ValidateBatch (env_it env) (mg_state m3) ops (in_internal inp) (in_principal inp)
                    (scopedAuthChecker (env_auth env) (in_workspace_scope inp) (in_worker_scope inp)) (ex_auth m3) of
                (VErr e, w) \<Rightarrow> (Inl (ErrPermissionLookup e), m3\<lparr>ex_auth := w\<rparr>)
              | (VReject reason i, w) \<Rightarrow> (Inr (rejectBatch b' reason i), m3\<lparr>ex_auth := w\<rparr>)
              | (VAccept aff working, w) \<Rightarrow>
                  let m4 = m3\<lparr>ex_auth := w\<rparr>; preState = mg_state m4 in
                  (case commit env inp b' working m4 of
                      (Some e, m5) \<Rightarrow> (Inl e, m5)
                    | (None, m5) \<Rightarrow>
                        let m6 = (if \<not> in_internal inp \<and> containsTombstoneTab b'
                                  then m5\<lparr>ex_audits := ex_audits m5 @ [\<lparr>au_input = inp, au_batch = b', au_affected = aff,
                                         au_workers = tombstonedTabWorkerIDs b' preState\<rparr>]\<rparr> else m5);
                            m7 = m6\<lparr>ex_sent := ex_sent m6 @
                                   broadcastBatch (env_itr env) (Snapshot (mg_subscribers m6)) (mg_state m6) b' aff\<rparr>
                        in (Inr \<lparr>res_batch_id = batch_id b', res_outcome = Committed
                               (map (\<lambda>p. (op_id p, HLCClone (op_canonical_hlc p))) ops)
                               (HLCClone (op_canonical_hlc (last ops))) (st_epoch (mg_state m7))\<rparr>, m7)))))))"

fun processBatches :: "('j, 'w, 'b, 'h, 'e) manager_env \<Rightarrow> submit_input \<Rightarrow> op_batch list \<Rightarrow> ('j, 'w) manager \<Rightarrow>
    ('e submit_error + batch_result list) \<times> ('j, 'w) manager" where
  "processBatches env inp [] m = (Inr [], m)"
| "processBatches env inp (b # bs) m = (case processBatch env inp b m of
     (Inl e, m1) \<Rightarrow> (Inl e, m1)
   | (Inr r, m1) \<Rightarrow> (case processBatches env inp bs m1 of
       (Inl e, m2) \<Rightarrow> (Inl e, m2) | (Inr rs, m2) \<Rightarrow> (Inr (r # rs), m2)))"

definition processSubmit :: "('j, 'w, 'b, 'h, 'e) manager_env \<Rightarrow> bool \<Rightarrow> submit_input \<Rightarrow> ('j, 'w) manager \<Rightarrow>
    ('e submit_error + batch_result list) \<times> ('j, 'w) manager" where
  "processSubmit env internal inp m =
     (if in_org_id inp \<noteq> mg_org_id m then (Inl ErrWrongOrg, m)
      else if \<not> internal \<and> in_epoch inp = 0 then (Inr (rejectAll (in_batches inp) EPOCH_REQUIRED empty_id), m)
      else if \<not> internal \<and> in_epoch inp < st_epoch (mg_state m) - 1 then (Inr (rejectAll (in_batches inp) STALE_EPOCH empty_id), m)
      else processBatches env inp (in_batches inp) m)"

text \<open>The entry points: both stamp the activity before the job is handed over, the internal one
  again after it; the job is then processed.\<close>

definition Submit :: "('j, 'w, 'b, 'h, 'e) manager_env \<Rightarrow> submit_input \<Rightarrow> ('j, 'w) manager \<Rightarrow>
    ('e submit_error + batch_result list) \<times> ('j, 'w) manager" where
  "Submit env inp m = processSubmit env False inp (touchActivity env m)"

definition internal_input :: "ident \<Rightarrow> submit_input \<Rightarrow> submit_input" where
  "internal_input hubClient inp = (let inp1 = inp\<lparr>in_internal := True\<rparr>;
     inp2 = (if in_principal inp1 = empty_id then inp1\<lparr>in_principal := HubReservedPrincipal\<rparr> else inp1) in
     if in_origin inp2 = empty_id then inp2\<lparr>in_origin := hubClient\<rparr> else inp2)"

definition SubmitInternal :: "('j, 'w, 'b, 'h, 'e) manager_env \<Rightarrow> submit_input \<Rightarrow> ('j, 'w) manager \<Rightarrow>
    ('e submit_error + batch_result list) \<times> ('j, 'w) manager" where
  "SubmitInternal env inp m =
     processSubmit env True (internal_input (mg_hub_client m) inp) (touchActivity env (touchActivity env m))"

section \<open>Housekeeping\<close>

definition maybeAdvanceEpoch :: "('j, 'w, 'b, 'h, 'e) manager_env \<Rightarrow> ('j, 'w) manager \<Rightarrow> ('j, 'w) manager" where
  "maybeAdvanceEpoch env m = (case st_epoch_started (mg_state m) of
     None \<Rightarrow> m
   | Some started \<Rightarrow> (case read_now env m of (t, m1) \<Rightarrow>
       if t - started < EpochDuration then m1
       else let newEpoch = wrap64 (st_epoch (mg_state m1) + 1) in
         (case read_now env m1 of (t2, m2) \<Rightarrow>
         (case jn_advance (env_journal env) (mg_org_id m2) newEpoch t2 (ex_journal m2) of
             (Inl e, j) \<Rightarrow> m2\<lparr>ex_journal := j\<rparr>
           | (Inr _, j) \<Rightarrow> (case read_now env (m2\<lparr>ex_journal := j\<rparr>) of (t3, m3) \<Rightarrow>
               m3\<lparr>mg_state := (mg_state m3)\<lparr>st_epoch := newEpoch, st_epoch_started := Some t3\<rparr>\<rparr>)))))"

definition maybeCompact :: "('j, 'w, 'b, 'h, 'e) manager_env \<Rightarrow> ('j, 'w) manager \<Rightarrow> ('j, 'w) manager" where
  "maybeCompact env m =
     (if HLCIsZero (st_max_hlc (mg_state m)) \<or> HLCCmp (st_max_hlc (mg_state m)) (st_watermark (mg_state m)) \<le> 0 then m
      else let s0 = (mg_state m)\<lparr>st_watermark := HLCClone (st_max_hlc (mg_state m))\<rparr> in
        (case PruneTombstonesAtOrBelow (env_it env) s0 (st_watermark s0) of (s, pruned) \<Rightarrow>
        (case jn_compact (env_journal env) s (st_watermark s) (ex_journal m) of
            (Inl e, j) \<Rightarrow> m\<lparr>ex_journal := j\<rparr>
          | (Inr _, j) \<Rightarrow>
              let m1 = m\<lparr>ex_journal := j, mg_state := (mg_state m)\<lparr>st_watermark := HLCClone (st_watermark s)\<rparr>\<rparr> in
              if pruned > 0
              then m1\<lparr>mg_state := fst (PruneTombstonesAtOrBelow (env_it env) (mg_state m1) (st_watermark (mg_state m1)))\<rparr>
              else m1)))"

definition tickHousekeeping :: "('j, 'w, 'b, 'h, 'e) manager_env \<Rightarrow> ('j, 'w) manager \<Rightarrow> ('j, 'w) manager" where
  "tickHousekeeping env m = (case read_now env m of (t, m1) \<Rightarrow>
     let m2 = m1\<lparr>ex_journal := snd (jn_cleanup (env_journal env) t (ex_journal m1))\<rparr>
     in maybeCompact env (maybeAdvanceEpoch env m2))"

section \<open>Readers and subscriptions\<close>

definition currentEpoch :: "('j, 'w) manager \<Rightarrow> int" where
  "currentEpoch m = st_epoch (mg_state m)"

definition LocateTileWorkspace :: "range_fun \<Rightarrow> ident \<Rightarrow> ('j, 'w) manager \<Rightarrow> ident" where
  "LocateTileWorkspace it tileID m = (if tileID = empty_id then empty_id
     else FindRootWorkspace it (st_nodes (mg_state m)) (st_workspaces (mg_state m)) tileID)"

definition MutateInternal :: "(org_state \<Rightarrow> org_state) \<Rightarrow> ('j, 'w) manager \<Rightarrow> ('j, 'w) manager" where
  "MutateInternal f m = m\<lparr>mg_state := f (mg_state m)\<rparr>"

definition idleSince :: "('j, 'w) manager \<Rightarrow> int \<times> bool" where
  "idleSince m = (mg_last_activity m, ctl_Len (mg_subscribers m) > 0 \<or> HasLiveConnections (mg_presence m))"

definition Subscribe :: "range_fun \<Rightarrow> ident \<Rightarrow> subscriber \<Rightarrow> ('j, 'w) manager \<Rightarrow> org_materialized \<times> ('j, 'w) manager" where
  "Subscribe it p sub m = (case ctl_Add it p sub (mg_subscribers m) of (initialFilter, subs) \<Rightarrow>
     (materializedLocked it (mg_state m) initialFilter,
      m\<lparr>mg_subscribers := subs, mg_presence := OnConnect (sub_client sub) (mg_presence m)\<rparr>))"

definition unsub :: "range_fun \<Rightarrow> int \<Rightarrow> ident \<Rightarrow> subscriber \<Rightarrow> ('j, 'w) manager \<Rightarrow> ('j, 'w) manager" where
  "unsub it now p sub m = m\<lparr>mg_subscribers := ctl_Remove it p (mg_subscribers m),
     mg_presence := OnDisconnect now (sub_client sub) (mg_presence m)\<rparr>"

definition SubscribeWithACL :: "range_fun \<Rightarrow> ident \<Rightarrow> subscriber \<Rightarrow> ('w \<Rightarrow> ('x + bool_map) \<times> 'w) \<Rightarrow> ('j, 'w) manager \<Rightarrow>
    ('x + org_materialized) \<times> ('j, 'w) manager" where
  "SubscribeWithACL it p sub resolve m = (case resolve (ex_auth m) of
     (Inl e, w) \<Rightarrow> (Inl e, m\<lparr>ex_auth := w\<rparr>)
   | (Inr allowed, w) \<Rightarrow>
       (case Subscribe it p (sub\<lparr>sub_filter := \<lparr>WorkspaceIDs = Some allowed\<rparr>\<rparr>) (m\<lparr>ex_auth := w\<rparr>) of
          (initial, m') \<Rightarrow> (Inr initial, m')))"

section \<open>The orphan audit\<close>

datatype audit_log =
    OrphanTab ident ident tab_type ident ident
  | AuditInconclusive ident ident

record 'w audit_run =
  ar_world :: 'w
  ar_cache :: "(ident, bool) fmap"
  ar_warned :: "ident fset"
  ar_log :: "audit_log list"

text \<open>The caches are keyed by worker and principal; the principal is the same throughout a run.\<close>

definition audit_can_use :: "('w, 'e) auth_checker \<Rightarrow> ident \<Rightarrow> ident \<Rightarrow> ident \<Rightarrow> 'w audit_run \<Rightarrow> bool \<times> 'w audit_run" where
  "audit_can_use chk orgID prin worker r = (case fmlookup (ar_cache r) worker of
     Some v \<Rightarrow> (v, r)
   | None \<Rightarrow> (case CanUseWorker chk orgID worker prin (ar_world r) of
       (Inl e, w) \<Rightarrow> (True, if worker |\<in>| ar_warned r then r\<lparr>ar_world := w\<rparr>
          else r\<lparr>ar_world := w, ar_warned := finsert worker (ar_warned r), ar_log := ar_log r @ [AuditInconclusive worker prin]\<rparr>)
     | (Inr v, w) \<Rightarrow> (v, r\<lparr>ar_world := w, ar_cache := fmupd worker v (ar_cache r)\<rparr>)))"

definition audit_step :: "('w, 'e) auth_checker \<Rightarrow> ident \<Rightarrow> audit_job \<Rightarrow> org_op \<Rightarrow> 'w audit_run \<Rightarrow> 'w audit_run" where
  "audit_step chk orgID job p r = (case op_body p of
     TombstoneTab ty i \<Rightarrow> (case fmlookup (au_workers job) i of
         None \<Rightarrow> r
       | Some worker \<Rightarrow> (case audit_can_use chk orgID (in_principal (au_input job)) worker r of
           (usable, r1) \<Rightarrow> if usable then r1
             else r1\<lparr>ar_log := ar_log r1 @ [OrphanTab (fst (transition_of (au_affected job) (EntityTab ty i))) i ty worker (op_id p)]\<rparr>))
   | _ \<Rightarrow> r)"

definition auditOrphanTabTombstones :: "('w, 'e) auth_checker \<Rightarrow> ident \<Rightarrow> audit_job \<Rightarrow> 'w \<Rightarrow> audit_log list \<times> 'w" where
  "auditOrphanTabTombstones chk orgID job w =
     (let r = fold (audit_step chk orgID job) (batch_ops (au_batch job))
        \<lparr>ar_world = w, ar_cache = fmempty, ar_warned = {||}, ar_log = []\<rparr>
      in (ar_log r, ar_world r))"

end
