(* ===== verification/Minting.thy ===== *)
theory Minting
  imports Manager
begin

text \<open>
  The stamps a submission mints, and the state in which a manager is in step with its journal:
  what loading recovers is the state in memory, the index tables hold its projection, and the
  clock is past everything in it.
\<close>

section \<open>Stamps\<close>

lemma clock_room_Suc: "clock_room (Suc n) c \<Longrightarrow> clock_room 1 c"
  by (erule clock_room_less) simp

text \<open>At one reading of the wall clock, all but the first tick count the logical part up.\<close>

lemma mint_same:
  assumes "now \<le> maxPhys c" and "clock_room (length ps) c" and "mint_ops gen origin now ps n c = (qs, n', c')"
  shows "length qs = length ps \<and> (\<forall>i < length ps. op_canonical_hlc (qs ! i) =
      Some \<lparr>hlc_physical = maxPhys c, hlc_logical = maxLog c + 1 + int i, hlc_client = clock_client c\<rparr>)"
  using assms
proof (induction ps arbitrary: n c qs)
  case (Cons p ps)
  have room: "clock_room 1 c" using Cons.prems(2) clock_room_Suc by simp
  have t: "Tick c now = (c\<lparr>maxLog := maxLog c + 1\<rparr>, \<lparr>hlc_physical = maxPhys c, hlc_logical = maxLog c + 1, hlc_client = clock_client c\<rparr>)"
    using Tick_same [OF _ room, of now] Cons.prems(1) by simp
  have room1: "clock_room (length ps) (c\<lparr>maxLog := maxLog c + 1\<rparr>)"
    using Tick_room [of "length ps" c now] Cons.prems(2) t by simp
  obtain q qs1 n1 where q: "qs = q # qs1" "op_canonical_hlc q = Some \<lparr>hlc_physical = maxPhys c, hlc_logical = maxLog c + 1, hlc_client = clock_client c\<rparr>"
    and rest: "mint_ops gen origin now ps n1 (c\<lparr>maxLog := maxLog c + 1\<rparr>) = (qs1, n', c')"
    using Cons.prems(3) by (auto simp: t Let_def split: prod.splits if_splits)
  from Cons.IH [OF _ room1 rest] Cons.prems(1) q show ?case by (auto simp: nth_Cons split: nat.splits)
qed simp

lemma mint_minted:
  assumes "clock_room (length ps) c" and "mint_ops gen origin now ps n c = (qs, n', c')" and "ps \<noteq> []"
  shows "minted (snd (Tick c now)) (b\<lparr>batch_ops := qs\<rparr>) \<and> length qs = length ps"
proof -
  obtain p ps1 where ps: "ps = p # ps1" using assms(3) by (cases ps) auto
  obtain c1 h where t: "Tick c now = (c1, h)" by fastforce
  have room1: "clock_room (length ps1) c1" using Tick_room [of "length ps1" c now] assms(1) t ps by simp
  obtain q qs1 n1 where q: "qs = q # qs1" "op_canonical_hlc q = Some h"
    and rest: "mint_ops gen origin now ps1 n1 c1 = (qs1, n', c')"
    using assms(2) by (auto simp: ps t Let_def split: prod.splits if_splits)
  have phys: "now \<le> maxPhys c1" and h: "h = Current c1"
    using t Tick_stamp [of c now] by (auto simp: Tick_def Let_def split: if_splits)
  from mint_same [OF phys room1 rest] show ?thesis
    unfolding minted_def using q h t ps by (auto simp: nth_Cons Current_def split: nat.splits)
qed

lemma mint_bodies: "mint_ops gen origin now ps n c = (qs, n', c') \<Longrightarrow> map op_body qs = map op_body ps"
  by (induction ps arbitrary: n c qs) (auto simp: Let_def split: prod.splits if_splits)

definition stamps_int64 :: "org_op list \<Rightarrow> bool" where
  "stamps_int64 ops \<longleftrightarrow> (\<forall>p \<in> set ops. \<exists>h. op_canonical_hlc p = Some h \<and> is_int64 (hlc_logical h))"

lemma mint_int64:
  "clock_room (length ps) c \<Longrightarrow> mint_ops gen origin now ps n c = (qs, n', c') \<Longrightarrow> stamps_int64 qs"
proof (induction ps arbitrary: n c qs)
  case (Cons p ps)
  obtain c1 h where t: "Tick c now = (c1, h)" by fastforce
  have room1: "clock_room (length ps) c1" using Tick_room [of "length ps" c now] Cons.prems(1) t by simp
  obtain q qs1 n1 where q: "qs = q # qs1" "op_canonical_hlc q = Some h" and rest: "mint_ops gen origin now ps n1 c1 = (qs1, n', c')"
    using Cons.prems(2) by (auto simp: t Let_def split: prod.splits if_splits)
  have "hlc_logical h = maxLog c1" using Tick_stamp [of c now] t by (simp add: Current_def)
  then show ?case using Cons.IH [OF room1 rest] q room1 by (simp add: stamps_int64_def clock_room_def)
qed (simp add: stamps_int64_def)

text \<open>After minting, the clock covers what the stamped operations bring into the state.\<close>

lemma mint_covers:
  assumes "clock_room (length ps + k) c" and "hlc_le_clock (st_max_hlc s) c" and "mint_ops gen origin now ps n c = (qs, n', c')"
  shows "hlc_le_clock (st_max_hlc (apply_all qs s)) c' \<and> hlc_le_clock (st_max_hlc s) c' \<and> clock_room k c'"
  using assms
proof (induction ps arbitrary: n c qs s)
  case (Cons p ps)
  obtain c1 h where t: "Tick c now = (c1, h)" by fastforce
  have room: "clock_room 1 c" using Cons.prems(1) clock_room_Suc by simp
  have room1: "clock_room (length ps + k) c1" using Tick_room [of "length ps + k" c now] Cons.prems(1) t by simp
  obtain q qs1 n1 where q: "qs = q # qs1" "op_canonical_hlc q = Some h"
    and rest: "mint_ops gen origin now ps n1 c1 = (qs1, n', c')"
    using Cons.prems(3) by (auto simp: t Let_def split: prod.splits if_splits)
  have up: "st_max_hlc s < Some h" using Tick_above [OF room Cons.prems(2), of now] t by simp
  have c1: "hlc_le_clock (Some h) c1" "hlc_le_clock (st_max_hlc s) c1"
    using Tick_covers [of c now] Tick_mono [OF room Cons.prems(2), of now] t by simp_all
  have "st_max_hlc (Apply q s) = Some h" using max.absorb2 [OF less_imp_le [OF up]] by (simp add: Apply_max_hlc q(2))
  then have "hlc_le_clock (st_max_hlc (apply_all qs1 (Apply q s))) c'" "clock_room k c'"
    using Cons.IH [OF room1 _ rest, of "Apply q s"] c1(1) by simp_all
  moreover have "hlc_le_clock (st_max_hlc s) c'" using Cons.IH [OF room1 c1(2) rest] by simp
  ultimately show ?case by (simp add: q(1) apply_simps)
qed (simp add: apply_simps)

lemma mint_fresh:
  assumes "clock_room (length (batch_ops b)) c" and "hlc_le_clock (st_max_hlc s) c" and "batch_ops b \<noteq> []"
    and "mint_ops gen origin now (batch_ops b) n c = (qs, n', c')"
  shows "fresh_for s (b\<lparr>batch_ops := qs\<rparr>)"
proof -
  have "clock_room 1 c" using assms(1,3) clock_room_less [of "length (batch_ops b)" c 1] by (simp add: Suc_le_eq)
  then show ?thesis
    using mint_minted [OF assms(1,4,3), of b] Tick_above [OF _ assms(2), of now] by (auto simp: fresh_for_def)
qed

section \<open>The manager in step with its journal\<close>

definition manager_synced :: "range_fun \<Rightarrow> ident \<Rightarrow> ('j \<Rightarrow> bool) \<Rightarrow> ('j \<Rightarrow> 'h journal_view) \<Rightarrow> ('j, 'w) manager \<Rightarrow> bool" where
  "manager_synced it org ok view m \<longleftrightarrow> mg_org_id m = org \<and> ok (ex_journal m) \<and> jv_state (view (ex_journal m)) = mg_state m \<and>
     st_org_id (mg_state m) = org \<and> hlc_le_clock (st_max_hlc (mg_state m)) (mg_clock m) \<and> sound_state it (mg_state m) \<and>
     st_epoch_started (mg_state m) = None \<and> st_epoch (mg_state m) = 1 \<and>
     (\<forall>i. i \<noteq> empty_id \<longrightarrow> jv_owned (view (ex_journal m)) (org, i) = owned_of it (mg_state m) i \<and>
        jv_rendered (view (ex_journal m)) (org, i) = rendered_of it (mg_state m) i)"

text \<open>Two managers that agree on what the journal must be in step with.\<close>

lemma manager_synced_cong:
  assumes "manager_synced it org ok view m" and "mg_org_id m' = mg_org_id m" "mg_state m' = mg_state m" "mg_clock m' = mg_clock m"
    and "ok (ex_journal m')" "view (ex_journal m') = view (ex_journal m)"
  shows "manager_synced it org ok view m'"
  using assms by (simp add: manager_synced_def)

text \<open>The two tables of the index as a store, to apply the plan of a commit to.\<close>

definition table_writer :: "(table \<times> table, unit) index_writer" where
  "table_writer = \<lparr>BulkUpsertOwned = (\<lambda>rows db. Inr (upserted rows (fst db), snd db)),
     BulkDeleteOwned = (\<lambda>keys db. Inr (deleted keys (fst db), snd db)),
     BulkUpsertRendered = (\<lambda>rows db. Inr (fst db, upserted rows (snd db))),
     BulkDeleteRendered = (\<lambda>keys db. Inr (fst db, deleted keys (snd db)))\<rparr>"

lemma table_writer_laws: "writer_laws table_writer fst snd"
  by (auto simp: writer_laws_def table_writer_def)

lemma table_writer_total: "ApplyDiff table_writer d (o1, r1) =
    Inr (deleted (df_owned_deletes d) (upserted (df_owned_upserts d) o1), deleted (df_rendered_deletes d) (upserted (df_rendered_upserts d) r1))"
  by (simp add: ApplyDiff_def bulk_def table_writer_def)

lemma committed_index:
  assumes it: "range_order it" and sound: "sound_state it s" and batch: "no_reparent s ops" and i: "i \<noteq> empty_id"
    and db: "o1 (st_org_id s, i) = owned_of it s i" "r1 (st_org_id s, i) = rendered_of it s i"
  shows "deleted (df_owned_deletes (DiffProjectionForBatch it s (apply_all ops s) ops))
      (upserted (df_owned_upserts (DiffProjectionForBatch it s (apply_all ops s) ops)) o1) (st_org_id s, i) = owned_of it (apply_all ops s) i"
    "deleted (df_rendered_deletes (DiffProjectionForBatch it s (apply_all ops s) ops))
      (upserted (df_rendered_upserts (DiffProjectionForBatch it s (apply_all ops s) ops)) r1) (st_org_id s, i) = rendered_of it (apply_all ops s) i"
proof -
  have s: "state_ok s" "unique_roots s" "tab_placed it s i" using sound i by (auto simp: sound_state_def)
  note res = index_row_follows(1) [OF it s(1,2) batch table_writer_laws table_writer_total s(3), of o1 r1]
  show "deleted (df_owned_deletes (DiffProjectionForBatch it s (apply_all ops s) ops))
      (upserted (df_owned_upserts (DiffProjectionForBatch it s (apply_all ops s) ops)) o1) (st_org_id s, i) = owned_of it (apply_all ops s) i"
    "deleted (df_rendered_deletes (DiffProjectionForBatch it s (apply_all ops s) ops))
      (upserted (df_rendered_upserts (DiffProjectionForBatch it s (apply_all ops s) ops)) r1) (st_org_id s, i) = rendered_of it (apply_all ops s) i"
    using res db by simp_all
qed

text \<open>The dedup row that a commit leaves.\<close>

definition dedup_row :: "ident \<Rightarrow> submit_input \<Rightarrow> op_batch \<Rightarrow> 'h \<Rightarrow> int \<Rightarrow> int \<Rightarrow> 'h recent_batch" where
  "dedup_row org inp b hash epoch expires = \<lparr>rb_org_id = org, rb_batch_id = batch_id b, rb_body_hash = hash, rb_principal = in_principal inp,
     rb_first_hlc = HLCClone (op_canonical_hlc (hd (batch_ops b))), rb_op_count = int (length (batch_ops b)),
     rb_epoch = epoch, rb_expires = expires\<rparr>"

text \<open>A batch that left no trace, and a batch that was committed.\<close>

definition batch_untouched :: "('j \<Rightarrow> 'h journal_view) \<Rightarrow> ('j, 'w) manager \<Rightarrow> ('j, 'w) manager \<Rightarrow> bool" where
  "batch_untouched view m m' \<longleftrightarrow> mg_state m' = mg_state m \<and> view (ex_journal m') = view (ex_journal m) \<and>
     ex_sent m' = ex_sent m \<and> ex_audits m' = ex_audits m"

definition batch_committed :: "('j, 'w, 'b, 'h, 'e) manager_env \<Rightarrow> ('j \<Rightarrow> 'h journal_view) \<Rightarrow> submit_input \<Rightarrow> op_batch \<Rightarrow> ('j, 'w) manager \<Rightarrow>
    batch_result \<Rightarrow> ('j, 'w) manager \<Rightarrow> org_op list \<Rightarrow> bool" where
  "batch_committed env view inp b m r m' ops \<longleftrightarrow>
     batch_id b \<noteq> empty_id \<and> jv_recent (view (ex_journal m)) (batch_id b) = None \<and>
     fresh_for (mg_state m) (b\<lparr>batch_ops := ops\<rparr>) \<and> map op_body ops = map op_body (batch_ops b) \<and> stamps_int64 ops \<and>
     mg_state m' = apply_all ops (mg_state m) \<and>
     r = \<lparr>res_batch_id = batch_id b, res_outcome = Committed (map (\<lambda>p. (op_id p, op_canonical_hlc p)) ops)
            (op_canonical_hlc (last ops)) (st_epoch (mg_state m))\<rparr> \<and>
     (\<exists>aff w w'. ValidateBatch (env_it env) (mg_state m) ops (in_internal inp) (in_principal inp)
        (scopedAuthChecker (env_auth env) (in_workspace_scope inp) (in_worker_scope inp)) w = (VAccept aff (mg_state m'), w') \<and>
        ex_sent m' = ex_sent m @ broadcastBatch (env_itr env) (Snapshot (mg_subscribers m)) (mg_state m') (b\<lparr>batch_ops := ops\<rparr>) aff) \<and>
     (\<exists>hash. batch_hash env b = Some hash \<and>
        jv_recent (view (ex_journal m')) = (jv_recent (view (ex_journal m)))(batch_id b \<mapsto>
          stored_recent (dedup_row (mg_org_id m) inp (b\<lparr>batch_ops := ops\<rparr>) hash (st_epoch (mg_state m))
            (env_now env (Suc (ex_reads m)) + DedupTTL))))"

lemma batch_hash_bodies: "map op_body ops = map op_body (batch_ops b) \<Longrightarrow> batch_hash env (b\<lparr>batch_ops := ops\<rparr>) = batch_hash env b"
  unfolding batch_hash_def by (rule BatchBodyHash_bodies) simp

end
