(* ===== verification/ManagerLaws.thy ===== *)
theory ManagerLaws
  imports Minting
begin

text \<open>
  The manager against the interface of the journal: what is committed is what is recovered. The
  lemmas about the pipeline are proved in \<open>journal_contract\<close>, for any journal that keeps its
  promises, and the properties are their instances for the journal over the database tables.
\<close>

section \<open>The pipeline of a batch\<close>

text \<open>The verdict on a batch whose id has a dedup row.\<close>

definition dedup_verdict :: "('j, 'w, 'b, 'h, 'e) manager_env \<Rightarrow> submit_input \<Rightarrow> op_batch \<Rightarrow> int \<Rightarrow> 'h recent_batch \<Rightarrow> ('h, 'e) dedup" where
  "dedup_verdict env inp b epoch row =
     (if rb_epoch row < epoch - 1 then DedupReject (rejectBatch b STALE_EPOCH empty_id)
      else if rb_principal row \<noteq> in_principal inp then DedupReject (rejectBatch b OP_ID_COLLISION_UNAUTHORIZED empty_id)
      else if rb_op_count row \<noteq> int (length (batch_ops b)) then DedupReject (rejectBatch b OP_ID_COLLISION empty_id)
      else (case batch_hash env b of
              None \<Rightarrow> DedupReject (rejectBatch b VALUE_DOMAIN empty_id)
            | Some h \<Rightarrow> if h \<noteq> rb_body_hash row then DedupReject (rejectBatch b OP_ID_COLLISION empty_id)
                        else DedupHit row))"

lemma runDedup_cases:
  "runDedup env inp b m = (case jn_lookup (env_journal env) (mg_org_id m) (batch_id b) (ex_journal m) of (r, j) \<Rightarrow>
     (case r of Inl DbNotFound \<Rightarrow> DedupMiss | Inl e \<Rightarrow> DedupErr e | Inr row \<Rightarrow> dedup_verdict env inp b (st_epoch (mg_state m)) row,
      m\<lparr>ex_journal := j\<rparr>))"
  by (simp add: runDedup_def dedup_verdict_def split: prod.splits sum.splits)

lemma manager_synced_ok: "manager_synced it org ok view m \<Longrightarrow> ok (ex_journal m)"
  by (simp add: manager_synced_def)

context journal_contract
begin

lemma runDedup_sync:
  assumes J: "env_journal env = J" and sync: "manager_synced it org ok view m" and run: "runDedup env inp b m = (d, m1)"
  shows "manager_synced it org ok view m1" "\<exists>j. m1 = m\<lparr>ex_journal := j\<rparr>" "view (ex_journal m1) = view (ex_journal m)"
    "(\<exists>e. d = DedupErr e) \<or> d = (case jv_recent (view (ex_journal m)) (batch_id b) of None \<Rightarrow> DedupMiss
       | Some row \<Rightarrow> dedup_verdict env inp b (st_epoch (mg_state m)) row)"
proof -
  have m: "mg_org_id m = org" "ok (ex_journal m)" using sync by (simp_all add: manager_synced_def)
  obtain r j where look: "jn_lookup J org (batch_id b) (ex_journal m) = (r, j)" by fastforce
  note keeps = lookup_keeps [OF m(2) look]
  have m1: "m1 = m\<lparr>ex_journal := j\<rparr>" using run look J m(1) by (simp add: runDedup_cases)
  then show "\<exists>j. m1 = m\<lparr>ex_journal := j\<rparr>" "view (ex_journal m1) = view (ex_journal m)" using keeps by auto
  show "manager_synced it org ok view m1" using keeps by (intro manager_synced_cong [OF sync]) (simp_all add: m1)
  consider e where "r = Inl e" "e \<noteq> DbNotFound" | "r = Inl DbNotFound" | row where "r = Inr row" by (cases r) auto
  then show "(\<exists>e. d = DedupErr e) \<or> d = (case jv_recent (view (ex_journal m)) (batch_id b) of None \<Rightarrow> DedupMiss
       | Some row \<Rightarrow> dedup_verdict env inp b (st_epoch (mg_state m)) row)"
  proof cases
    case 1
    then show ?thesis using run look J m(1) by (cases e) (auto simp: runDedup_cases)
  next
    case 2
    then show ?thesis using run look J m(1) lookup_misses [OF m(2)] by (auto simp: runDedup_cases)
  next
    case 3
    then show ?thesis using run look J m(1) lookup_finds [OF m(2)] by (auto simp: runDedup_cases)
  qed
qed

lemma commit_sync:
  assumes J: "env_journal env = J" and it: "range_order (env_it env)" and sync: "manager_synced (env_it env) org ok view m"
    and fresh: "fresh_for (mg_state m) b"
    and acc: "ValidateBatch (env_it env) (mg_state m) (batch_ops b) internal u auth w = (VAccept aff working, w')"
    and cover: "hlc_le_clock (st_max_hlc working) (mg_clock m)"
    and run: "commit env inp b working m = (r, m')"
  shows "manager_synced (env_it env) org ok view m' \<and> mg_clock m' = mg_clock m \<and> ex_sent m' = ex_sent m \<and>
      mg_subscribers m' = mg_subscribers m \<and> ex_audits m' = ex_audits m \<and>
      (r \<noteq> None \<longrightarrow> mg_state m' = mg_state m \<and> view (ex_journal m') = view (ex_journal m)) \<and>
      (r = None \<longrightarrow> mg_state m' = working \<and> (\<exists>hash. batch_hash env b = Some hash \<and>
        jv_recent (view (ex_journal m')) = (jv_recent (view (ex_journal m)))(batch_id b \<mapsto>
          stored_recent (dedup_row org inp b hash (st_epoch (mg_state m)) (env_now env (ex_reads m) + DedupTTL)))))"
proof (cases "batch_hash env b")
  case None
  then have "m' = m" "r = Some ErrHashBody" using run by (simp_all add: commit_def)
  then show ?thesis using sync by simp
next
  case (Some hash)
  let ?s = "mg_state m" and ?j = "ex_journal m"
  have m: "mg_org_id m = org" "ok ?j" "jv_state (view ?j) = ?s" "st_org_id ?s = org" "sound_state (env_it env) ?s"
      "st_epoch_started ?s = None \<and> st_epoch ?s = 1"
      "\<forall>i. i \<noteq> empty_id \<longrightarrow> jv_owned (view ?j) (org, i) = owned_of (env_it env) ?s i \<and> jv_rendered (view ?j) (org, i) = rendered_of (env_it env) ?s i"
    using sync by (simp_all add: manager_synced_def)
  have working: "working = apply_all (batch_ops b) ?s" using ValidateBatch_accept(1) [OF acc] .
  define t where "t = env_now env (ex_reads m) + DedupTTL"
  define c where "c = \<lparr>cb_org_id = org, cb_batch = b, cb_principal = in_principal inp, cb_epoch = st_epoch ?s,
    cb_dedup = dedup_row org inp b hash (st_epoch ?s) t, cb_diff = DiffProjectionForBatch (env_it env) ?s working (batch_ops b)\<rparr>"
  obtain res j where cm: "jn_commit J c ?j = (res, j)" by fastforce
  have out: "(r, m') = (case res of Inl e \<Rightarrow> (Some (ErrCommit e), m\<lparr>ex_reads := Suc (ex_reads m), ex_journal := j\<rparr>)
      | Inr _ \<Rightarrow> (None, m\<lparr>ex_reads := Suc (ex_reads m), ex_journal := j, mg_state := working\<rparr>))"
    using run Some cm J m(1) by (simp add: commit_def read_now_def Let_def c_def dedup_row_def t_def split: sum.splits)
  show ?thesis
  proof (cases res)
    case (Inl e)
    then have keep: "ok j" "view j = view ?j" using commit_keeps [OF m(2)] cm by auto
    have "manager_synced (env_it env) org ok view m'" using out Inl keep by (intro manager_synced_cong [OF sync]) simp_all
    then show ?thesis using out Inl keep by simp
  next
    case (Inr u)
    have "ok j \<and> view j = committed_view c (view ?j)"
      by (rule commit_adds [OF m(2)]) (use fresh m(3) cm Inr in \<open>simp_all add: c_def dedup_row_def\<close>)
    then have okj: "ok j" and vj: "view j = committed_view c (view ?j)" by simp_all
    have nr: "no_reparent ?s (batch_ops b)"
      by (rule validateSetOnce_no_reparent [OF state_checks_None(3) [OF ValidateBatch_accept(2) [OF acc]]])
    note idx = committed_index [OF it m(5) nr, of _ "jv_owned (view ?j)" "jv_rendered (view ?j)"]
    have fr: "st_org_id working = org" "st_epoch_started working = None \<and> st_epoch working = 1" using m(4,6) by (simp_all add: working frame_simps)
    have m': "m' = m\<lparr>ex_reads := Suc (ex_reads m), ex_journal := j, mg_state := working\<rparr>" "r = None" using out Inr by simp_all
    have "manager_synced (env_it env) org ok view m'"
      unfolding manager_synced_def m'
      using m(1) okj cover fr accepted_sound [OF it m(5) acc] idx m(4,7)
      by (simp add: vj committed_view_def c_def m(3) working)
    moreover have "jv_recent (view j) = (jv_recent (view ?j))(batch_id b \<mapsto> stored_recent (dedup_row org inp b hash (st_epoch ?s) t))"
      by (simp add: vj committed_view_def c_def dedup_row_def)
    ultimately show ?thesis using Some by (auto simp: m' t_def)
  qed
qed

text \<open>The commit of a validated batch, seen from the manager as it was before the submission.\<close>

lemma accepted_outcome:
  assumes J: "env_journal env = J" and it: "range_order (env_it env)" and sync: "manager_synced (env_it env) org ok view m3"
    and m3: "mg_state m3 = mg_state m" "view (ex_journal m3) = view (ex_journal m)" "ex_sent m3 = ex_sent m" "ex_audits m3 = ex_audits m"
      "mg_subscribers m3 = mg_subscribers m" "mg_org_id m = org" "ex_reads m3 = Suc (ex_reads m)"
    and b: "batch_id b \<noteq> empty_id" "jv_recent (view (ex_journal m)) (batch_id b) = None" "map op_body ops = map op_body (batch_ops b)"
      "fresh_for (mg_state m) (b\<lparr>batch_ops := ops\<rparr>)" "stamps_int64 ops"
    and val: "ValidateBatch (env_it env) (mg_state m) ops (in_internal inp) (in_principal inp)
        (scopedAuthChecker (env_auth env) (in_workspace_scope inp) (in_worker_scope inp)) w = (VAccept aff working, w')"
    and cover: "hlc_le_clock (st_max_hlc working) (mg_clock m3)"
    and cm: "commit env inp (b\<lparr>batch_ops := ops\<rparr>) working m3 = (ce, m5)"
    and m': "m' = (if ce = None then m5\<lparr>ex_audits := au, ex_sent := ex_sent m5 @
        broadcastBatch (env_itr env) (Snapshot (mg_subscribers m5)) (mg_state m5) (b\<lparr>batch_ops := ops\<rparr>) aff\<rparr> else m5)"
    and r: "r = (case ce of Some e \<Rightarrow> Inl e | None \<Rightarrow> Inr \<lparr>res_batch_id = batch_id b,
        res_outcome = Committed (map (\<lambda>p. (op_id p, op_canonical_hlc p)) ops) (op_canonical_hlc (last ops)) (st_epoch (mg_state m'))\<rparr>)"
  shows "manager_synced (env_it env) org ok view m' \<and> mg_clock m' = mg_clock m3 \<and> mg_subscribers m' = mg_subscribers m \<and>
    (batch_untouched view m m' \<and> (\<exists>e. r = Inl e) \<or> (\<exists>res. r = Inr res \<and> batch_committed env view inp b m res m' ops))"
proof -
  let ?b = "b\<lparr>batch_ops := ops\<rparr>"
  have vw: "working = apply_all ops (mg_state m)" using ValidateBatch_accept(1) [OF val] .
  have com: "manager_synced (env_it env) org ok view m5 \<and> mg_clock m5 = mg_clock m3 \<and> ex_sent m5 = ex_sent m3 \<and>
      mg_subscribers m5 = mg_subscribers m3 \<and> ex_audits m5 = ex_audits m3 \<and>
      (ce \<noteq> None \<longrightarrow> mg_state m5 = mg_state m3 \<and> view (ex_journal m5) = view (ex_journal m3)) \<and>
      (ce = None \<longrightarrow> mg_state m5 = working \<and> (\<exists>hash. batch_hash env ?b = Some hash \<and>
        jv_recent (view (ex_journal m5)) = (jv_recent (view (ex_journal m3)))(batch_id ?b \<mapsto>
          stored_recent (dedup_row org inp ?b hash (st_epoch (mg_state m3)) (env_now env (ex_reads m3) + DedupTTL)))))"
    by (rule commit_sync [OF J it sync _ _ cover cm]) (use b(4) val m3(1) in simp_all)
  show ?thesis
  proof (cases ce)
    case (Some e)
    then show ?thesis using com m3 m' r by (simp add: batch_untouched_def)
  next
    case None
    have sync': "manager_synced (env_it env) org ok view m'"
      by (rule manager_synced_cong [OF conjunct1 [OF com]]) (use manager_synced_ok [OF conjunct1 [OF com]] in \<open>simp_all add: m' None\<close>)
    have ep: "st_epoch (mg_state m') = st_epoch (mg_state m)" using com None by (simp add: m' vw frame_simps)
    obtain hash where dr: "batch_hash env ?b = Some hash" "jv_recent (view (ex_journal m5)) = (jv_recent (view (ex_journal m3)))(batch_id ?b \<mapsto>
          stored_recent (dedup_row org inp ?b hash (st_epoch (mg_state m3)) (env_now env (ex_reads m3) + DedupTTL)))" using com None by blast
    have st: "mg_state m' = working" "mg_state m5 = working" "ex_sent m5 = ex_sent m" "mg_subscribers m5 = mg_subscribers m"
      using com None m3 by (simp_all add: m')
    have "\<exists>aff w w'. ValidateBatch (env_it env) (mg_state m) ops (in_internal inp) (in_principal inp)
        (scopedAuthChecker (env_auth env) (in_workspace_scope inp) (in_worker_scope inp)) w = (VAccept aff (mg_state m'), w') \<and>
        ex_sent m' = ex_sent m @ broadcastBatch (env_itr env) (Snapshot (mg_subscribers m)) (mg_state m') ?b aff"
      by (rule exI [of _ aff], rule exI [of _ w], rule exI [of _ w']) (simp add: val st m' None)
    moreover have "\<exists>hash. batch_hash env b = Some hash \<and>
        jv_recent (view (ex_journal m')) = (jv_recent (view (ex_journal m)))(batch_id b \<mapsto>
          stored_recent (dedup_row (mg_org_id m) inp ?b hash (st_epoch (mg_state m)) (env_now env (Suc (ex_reads m)) + DedupTTL)))"
      by (rule exI [of _ hash]) (use dr m3 batch_hash_bodies [OF b(3), of env] in \<open>simp add: m' None\<close>)
    ultimately have "batch_committed env view inp b m (\<lparr>res_batch_id = batch_id b,
        res_outcome = Committed (map (\<lambda>p. (op_id p, op_canonical_hlc p)) ops) (op_canonical_hlc (last ops)) (st_epoch (mg_state m'))\<rparr>) m' ops"
      unfolding batch_committed_def using b ep by (simp add: st vw)
    then show ?thesis using sync' com None r m3 by (simp add: m')
  qed
qed

text \<open>Every outcome of the pipeline: no trace, or a commit; in step with the journal either way.\<close>

lemma processBatch_outcome:
  assumes J: "env_journal env = J" and it: "range_order (env_it env)" and sync: "manager_synced (env_it env) org ok view m"
    and room: "clock_room (length (batch_ops b) + k) (mg_clock m)"
    and run: "processBatch env inp b m = (r, m')"
  shows "manager_synced (env_it env) org ok view m' \<and> clock_room k (mg_clock m') \<and> mg_subscribers m' = mg_subscribers m \<and>
    (batch_untouched view m m' \<and> (\<forall>res. r = Inr res \<longrightarrow> (\<exists>reason i. res_outcome res = Rejected reason i) \<or>
        (\<exists>row. jv_recent (view (ex_journal m)) (batch_id b) = Some row \<and> dedup_verdict env inp b (st_epoch (mg_state m)) row = DedupHit row \<and>
           res = makeDedupHitResult b row (st_epoch (mg_state m)))) \<or>
     (\<exists>res ops. r = Inr res \<and> batch_committed env view inp b m res m' ops))"
proof (cases "batch_id b = empty_id \<or> batch_ops b = []")
  case True
  then have "m' = m" "r = Inr (rejectBatch b VALUE_DOMAIN empty_id)" using run by (auto simp: processBatch_def split: if_splits)
  then show ?thesis using sync clock_room_less [OF room, of k] by (auto simp: batch_untouched_def rejectBatch_def)
next
  case False
  obtain d m1 where dd: "runDedup env inp b m = (d, m1)" by fastforce
  note ded = runDedup_sync [OF J sync dd]
  obtain j where m1: "m1 = m\<lparr>ex_journal := j\<rparr>" using ded(2) by blast
  have vj: "view j = view (ex_journal m)" using ded(3) m1 by simp
  have untouched: "batch_untouched view m m1" by (simp add: batch_untouched_def m1 vj)
  have org: "mg_org_id m = org" using sync by (simp add: manager_synced_def)
  show ?thesis
  proof (cases "d = DedupMiss")
    case miss: False
    have m': "m' = m1" and r: "(\<exists>e. d = DedupErr e \<and> r = Inl (ErrDedupLookup e)) \<or> (\<exists>q. d = DedupReject q \<and> r = Inr q) \<or>
        (\<exists>row. d = DedupHit row \<and> r = Inr (makeDedupHitResult b row (st_epoch (mg_state m))))"
      using run False dd miss m1 by (cases d; simp add: processBatch_def)+
    have rej: "\<exists>reason i. res_outcome q = Rejected reason i" if "d = DedupReject q" for q
      using ded(4) that by (auto simp: dedup_verdict_def rejectBatch_def split: option.splits if_splits)
    have hit: "jv_recent (view (ex_journal m)) (batch_id b) = Some row \<and> dedup_verdict env inp b (st_epoch (mg_state m)) row = DedupHit row"
      if "d = DedupHit row" for row
      using ded(4) that by (auto simp: dedup_verdict_def split: option.splits if_splits)
    show ?thesis using ded(1) clock_room_less [OF room, of k] untouched r rej hit by (simp add: m' m1) blast
  next
    case miss: True
    then have none: "jv_recent (view (ex_journal m)) (batch_id b) = None"
      using ded(4) by (auto simp: dedup_verdict_def split: option.splits if_splits)
    define t where "t = env_now env (ex_reads m)"
    obtain ops n c where mint: "mint_ops (env_gen env) (in_origin inp) (UnixMilli t) (batch_ops b) (ex_gen m) (mg_clock m) = (ops, n, c)"
      by (metis surj_pair)
    obtain v w where val: "ValidateBatch (env_it env) (mg_state m) ops (in_internal inp) (in_principal inp)
        (scopedAuthChecker (env_auth env) (in_workspace_scope inp) (in_worker_scope inp)) (ex_auth m) = (v, w)" by fastforce
    define m3 where "m3 = m\<lparr>ex_journal := j, ex_reads := Suc (ex_reads m), ex_gen := n, mg_clock := c, ex_auth := w\<rparr>"
    let ?b = "b\<lparr>batch_ops := ops\<rparr>"
    have cov: "hlc_le_clock (st_max_hlc (mg_state m)) (mg_clock m)" using sync by (simp add: manager_synced_def)
    have room0: "clock_room (length (batch_ops b)) (mg_clock m)" using clock_room_less [OF room] by simp
    note cov' = mint_covers [OF room cov mint]
    have bodies: "map op_body ops = map op_body (batch_ops b)" using mint_bodies [OF mint] .
    have i64: "stamps_int64 ops" using mint_int64 [OF room0 mint] .
    have fresh: "fresh_for (mg_state m) ?b" using mint_fresh [OF room0 cov _ mint] False by simp
    have sync3: "manager_synced (env_it env) org ok view m3" using ded(1) cov' by (simp add: manager_synced_def m3_def m1)
    have un3: "batch_untouched view m m3" by (simp add: batch_untouched_def m3_def vj)
    have step: "processBatch env inp b m = (case v of VErr e \<Rightarrow> (Inl (ErrPermissionLookup e), m3)
        | VReject reason i \<Rightarrow> (Inr (rejectBatch ?b reason i), m3)
        | VAccept aff working \<Rightarrow> (case commit env inp ?b working m3 of (Some e, m5) \<Rightarrow> (Inl e, m5)
           | (None, m5) \<Rightarrow>
             let m6 = (if \<not> in_internal inp \<and> containsTombstoneTab ?b
                       then m5\<lparr>ex_audits := ex_audits m5 @ [\<lparr>au_input = inp, au_batch = ?b, au_affected = aff,
                              au_workers = tombstonedTabWorkerIDs ?b (mg_state m)\<rparr>]\<rparr> else m5);
                 m7 = m6\<lparr>ex_sent := ex_sent m6 @ broadcastBatch (env_itr env) (Snapshot (mg_subscribers m6)) (mg_state m6) ?b aff\<rparr>
             in (Inr \<lparr>res_batch_id = batch_id b, res_outcome = Committed (map (\<lambda>p. (op_id p, op_canonical_hlc p)) ops)
                      (op_canonical_hlc (last ops)) (st_epoch (mg_state m7))\<rparr>, m7)))"
      using False dd miss mint val by (simp add: processBatch_def m1 read_now_def t_def m3_def Let_def split: validation.splits prod.splits option.splits)
    show ?thesis
    proof (cases v)
      case (VAccept aff working)
      obtain ce m5 where cm: "commit env inp ?b working m3 = (ce, m5)" by fastforce
      define au where "au = (if \<not> in_internal inp \<and> containsTombstoneTab ?b
         then ex_audits m5 @ [\<lparr>au_input = inp, au_batch = ?b, au_affected = aff, au_workers = tombstonedTabWorkerIDs ?b (mg_state m)\<rparr>]
         else ex_audits m5)"
      have vw: "working = apply_all ops (mg_state m)" using ValidateBatch_accept(1) [OF val [unfolded VAccept]] .
      have "manager_synced (env_it env) org ok view m' \<and> mg_clock m' = mg_clock m3 \<and> mg_subscribers m' = mg_subscribers m \<and>
        (batch_untouched view m m' \<and> (\<exists>e. r = Inl e) \<or> (\<exists>res. r = Inr res \<and> batch_committed env view inp b m res m' ops))"
      proof (rule accepted_outcome [OF J it sync3 _ _ _ _ _ org _ _ none bodies fresh i64 val [unfolded VAccept] _ cm])
        show "hlc_le_clock (st_max_hlc working) (mg_clock m3)" using cov' vw by (simp add: m3_def)
        show "m' = (if ce = None then m5\<lparr>ex_audits := au, ex_sent := ex_sent m5 @
            broadcastBatch (env_itr env) (Snapshot (mg_subscribers m5)) (mg_state m5) ?b aff\<rparr> else m5)"
          using run step VAccept cm by (auto simp: au_def Let_def split: option.splits if_splits)
        show "r = (case ce of Some e \<Rightarrow> Inl e | None \<Rightarrow> Inr \<lparr>res_batch_id = batch_id b,
          res_outcome = Committed (map (\<lambda>p. (op_id p, op_canonical_hlc p)) ops) (op_canonical_hlc (last ops)) (st_epoch (mg_state m'))\<rparr>)"
          using run step VAccept cm by (auto simp: Let_def split: option.splits if_splits)
      qed (use vj False in \<open>simp_all add: m3_def\<close>)
      then show ?thesis using cov' by (auto simp: m3_def)
    qed (use run step sync3 un3 cov' in \<open>auto simp: m3_def rejectBatch_def\<close>)
  qed
qed

end

end
