(* ===== verification/Recovery.thy ===== *)
theory Recovery
  imports ManagerLaws
begin

text \<open>
  The life of a manager as a step relation: start, submissions, housekeeping, subscriptions,
  restarts. In every reachable state the memory is what a restart would recover, the index
  tables hold its projection, and the state is sound; a dedup row stays until it expires.
\<close>

section \<open>Housekeeping\<close>

lemma watermark_live: "same_live (s\<lparr>st_watermark := w\<rparr>) s"
  by (simp add: same_live_def)

lemma prune_map_none: "snd (prune_map it ts wm m) = 0 \<Longrightarrow> fst (prune_map it ts wm m) = m"
  unfolding prune_map_def prune_fold by (simp add: fmfilter_true)

lemma prune_none:
  assumes "snd (PruneTombstonesAtOrBelow it s wm) = 0"
  shows "fst (PruneTombstonesAtOrBelow it s wm) = s"
proof (cases "HLCIsZero wm")
  case False
  then show ?thesis
    using assms prune_map_none [of it nd_tombstone_at wm "st_nodes s"] prune_map_none [of it tb_tombstone_at wm "st_tabs s"]
      prune_map_none [of it fw_tombstone_at wm "st_windows s"]
    by (auto simp: PruneTombstonesAtOrBelow_def split: prod.splits)
qed (simp add: PruneTombstonesAtOrBelow_def)

text \<open>What the memory holds after a compaction at the greatest timestamp: the pruned state.\<close>

definition compacted :: "range_fun \<Rightarrow> org_state \<Rightarrow> org_state" where
  "compacted it s = fst (PruneTombstonesAtOrBelow it (s\<lparr>st_watermark := st_max_hlc s\<rparr>) (st_max_hlc s))"

lemma prune_frame:
  "st_watermark (fst (PruneTombstonesAtOrBelow it s wm)) = st_watermark s"
  "st_max_hlc (fst (PruneTombstonesAtOrBelow it s wm)) = st_max_hlc s"
  "st_epoch (fst (PruneTombstonesAtOrBelow it s wm)) = st_epoch s"
  "st_epoch_started (fst (PruneTombstonesAtOrBelow it s wm)) = st_epoch_started s"
  by (simp_all add: PruneTombstonesAtOrBelow_def split: prod.splits)

lemma compacted_frame [simp]:
  "st_watermark (compacted it s) = st_max_hlc s" "st_max_hlc (compacted it s) = st_max_hlc s"
  "st_epoch_started (compacted it s) = st_epoch_started s" "st_org_id (compacted it s) = st_org_id s" "st_epoch (compacted it s) = st_epoch s"
  by (simp_all add: compacted_def prune_frame prune_org)

lemma same_live_refl [simp]: "same_live s s"
  by (simp add: same_live_def)

lemma same_live_trans: "same_live a b \<Longrightarrow> same_live b c \<Longrightarrow> same_live a c"
  unfolding same_live_def by simp

lemma compacted_live: "range_order it \<Longrightarrow> same_live (compacted it s) s"
  unfolding compacted_def by (rule same_live_trans [OF prune_same_live watermark_live])

lemma compacted_invisible:
  assumes it: "range_order it" and sound: "sound_state it s"
  shows "sound_state it (compacted it s) \<and> owned_of it (compacted it s) i = owned_of it s i \<and>
    rendered_of it (compacted it s) i = rendered_of it s i"
proof -
  have s: "state_ok (s\<lparr>st_watermark := st_max_hlc s\<rparr>)" "state_ok s" using sound by (simp_all add: sound_state_def state_ok_def)
  note ok = prune_state_ok [OF it s(1), of "st_max_hlc s", folded compacted_def]
  have v: "sound_state it (compacted it s)" by (rule same_live_sound [OF compacted_live [OF it] ok it sound])
  then have "unique_roots (compacted it s)" by (simp add: sound_state_def)
  from same_live_rows [OF compacted_live [OF it] this it ok s(2)] v show ?thesis by simp
qed

lemma HLCIsZero_Some: "\<not> HLCIsZero x \<Longrightarrow> \<exists>h. x = Some h"
  by (cases x) (simp_all add: HLCIsZero_def)

text \<open>The three outcomes of a compaction.\<close>

lemma maybeCompact_cases:
  obtains "maybeCompact env m = m"
  | e j where "jn_compact (env_journal env) (compacted (env_it env) (mg_state m)) (st_max_hlc (mg_state m)) (ex_journal m) = (Inl e, j)"
      "maybeCompact env m = m\<lparr>ex_journal := j\<rparr>"
  | h u j where "st_max_hlc (mg_state m) = Some h"
      "jn_compact (env_journal env) (compacted (env_it env) (mg_state m)) (st_max_hlc (mg_state m)) (ex_journal m) = (Inr u, j)"
      "maybeCompact env m = m\<lparr>ex_journal := j, mg_state := compacted (env_it env) (mg_state m)\<rparr>"
proof (cases "HLCIsZero (st_max_hlc (mg_state m)) \<or> HLCCmp (st_max_hlc (mg_state m)) (st_watermark (mg_state m)) \<le> 0")
  case True
  then show thesis using that(1) by (simp add: maybeCompact_def)
next
  case False
  let ?s = "mg_state m" and ?t = "(mg_state m)\<lparr>st_watermark := st_max_hlc (mg_state m)\<rparr>"
  obtain h where h: "st_max_hlc (mg_state m) = Some h" using False HLCIsZero_Some [of "st_max_hlc (mg_state m)"] by auto
  obtain s n where prune: "PruneTombstonesAtOrBelow (env_it env) ?t (st_max_hlc ?s) = (s, n)" by fastforce
  have s: "s = compacted (env_it env) ?s" using prune by (simp add: compacted_def)
  then have wm: "st_watermark s = st_max_hlc ?s" by simp
  have none: "n = 0 \<Longrightarrow> s = ?t" using prune_none [of "env_it env" ?t "st_max_hlc ?s"] prune by simp
  obtain r j where c: "jn_compact (env_journal env) s (st_max_hlc ?s) (ex_journal m) = (r, j)" by fastforce
  have run: "maybeCompact env m = (case r of Inl e \<Rightarrow> m\<lparr>ex_journal := j\<rparr> | Inr _ \<Rightarrow> m\<lparr>ex_journal := j, mg_state := s\<rparr>)"
    using False prune c none wm by (auto simp: maybeCompact_def Let_def split: sum.splits)
  show thesis
  proof (cases r)
    case (Inl e)
    then show thesis using that(2) [of e j] c run s by simp
  next
    case (Inr u)
    then show thesis using that(3) [OF h, of u j] c run s by simp
  qed
qed

lemma maybeAdvanceEpoch_never: "st_epoch_started (mg_state m) = None \<Longrightarrow> maybeAdvanceEpoch env m = m"
  by (simp add: maybeAdvanceEpoch_def)

lemma synced_fields:
  "manager_synced it org ok view (m\<lparr>ex_reads := n\<rparr>) = manager_synced it org ok view m"
  "manager_synced it org ok view (m\<lparr>mg_last_activity := a\<rparr>) = manager_synced it org ok view m"
  "manager_synced it org ok view (m\<lparr>mg_subscribers := c\<rparr>) = manager_synced it org ok view m"
  "manager_synced it org ok view (m\<lparr>mg_presence := p\<rparr>) = manager_synced it org ok view m"
  "manager_synced it org ok view (m\<lparr>ex_auth := w\<rparr>) = manager_synced it org ok view m"
  by (simp_all add: manager_synced_def)

lemma replay_fold: "fold (\<lambda>b s. fold Apply (batch_ops b) s) tail s = apply_all (concat (map batch_ops tail)) s"
  by (induction tail arbitrary: s) (simp_all add: apply_all_def)

lemma NewState_epoch [simp]: "(NewState org)\<lparr>st_epoch_started := None\<rparr> = NewState org"
  by (simp add: NewState_def)

lemma NewManager_fields [simp]: "mg_org_id (NewManager org j w) = org" "ex_journal (NewManager org j w) = j"
  by (simp_all add: NewManager_def)

lemma Bootstrap_answers:
  "jn_load (env_journal env) (mg_org_id m) (ex_journal m) = Some (Inl e, j) \<Longrightarrow> \<exists>m'. Bootstrap env m = Some (Some e, m')"
  "jn_load (env_journal env) (mg_org_id m) (ex_journal m) = Some (Inr x, j) \<Longrightarrow> \<exists>m'. Bootstrap env m = Some (None, m')"
  by (cases x; simp add: Bootstrap_def Let_def)+

context journal_contract
begin

lemma maybeCompact_sync:
  assumes J: "env_journal env = J" and it: "range_order (env_it env)" and sync: "manager_synced (env_it env) org ok view m"
  shows "manager_synced (env_it env) org ok view (maybeCompact env m) \<and> mg_clock (maybeCompact env m) = mg_clock m \<and>
    (mg_state (maybeCompact env m) = mg_state m \<or> mg_state (maybeCompact env m) = compacted (env_it env) (mg_state m)) \<and>
    (\<exists>s. view (ex_journal (maybeCompact env m)) = (view (ex_journal m))\<lparr>jv_state := s\<rparr>)"
proof (rule maybeCompact_cases [of env m])
  assume "maybeCompact env m = m"
  then show ?thesis using sync exI [of _ "jv_state (view (ex_journal m))"] by simp
next
  fix e j
  assume c: "jn_compact (env_journal env) (compacted (env_it env) (mg_state m)) (st_max_hlc (mg_state m)) (ex_journal m) = (Inl e, j)"
    and m': "maybeCompact env m = m\<lparr>ex_journal := j\<rparr>"
  note keep = compact_keeps [OF manager_synced_ok [OF sync] c [unfolded J]]
  have "manager_synced (env_it env) org ok view (maybeCompact env m)"
    by (rule manager_synced_cong [OF sync]) (use keep in \<open>simp_all add: m'\<close>)
  then show ?thesis using keep exI [of _ "jv_state (view (ex_journal m))"] by (simp add: m')
next
  fix h u j
  assume h: "st_max_hlc (mg_state m) = Some h"
    and c: "jn_compact (env_journal env) (compacted (env_it env) (mg_state m)) (st_max_hlc (mg_state m)) (ex_journal m) = (Inr u, j)"
    and m': "maybeCompact env m = m\<lparr>ex_journal := j, mg_state := compacted (env_it env) (mg_state m)\<rparr>"
  have m: "ok (ex_journal m)" "jv_state (view (ex_journal m)) = mg_state m" "st_org_id (mg_state m) = org" "sound_state (env_it env) (mg_state m)"
    using sync by (simp_all add: manager_synced_def)
  have rec: "ok j \<and> view j = (view (ex_journal m))\<lparr>jv_state := compacted (env_it env) (mg_state m)\<rparr>"
    by (rule compact_replaces [OF m(1)]) (use m h c J in simp_all)
  then have "manager_synced (env_it env) org ok view (maybeCompact env m)"
    using sync compacted_invisible [OF it m(4)] by (simp add: manager_synced_def m')
  then show ?thesis using rec by (auto simp: m')
qed

lemma cleanup_sync:
  assumes sync: "manager_synced it org ok view m" and c: "jn_cleanup J t (ex_journal m) = (r, j)"
  shows "manager_synced it org ok view (m\<lparr>ex_journal := j\<rparr>)"
  using sync cleanup_keeps [OF manager_synced_ok [OF sync] c] by (simp add: manager_synced_def)

lemma tick_sync:
  assumes J: "env_journal env = J" and it: "range_order (env_it env)" and sync: "manager_synced (env_it env) org ok view m"
  shows "manager_synced (env_it env) org ok view (tickHousekeeping env m) \<and> mg_clock (tickHousekeeping env m) = mg_clock m \<and>
    (mg_state (tickHousekeeping env m) = mg_state m \<or> mg_state (tickHousekeeping env m) = compacted (env_it env) (mg_state m)) \<and>
    jv_owned (view (ex_journal (tickHousekeeping env m))) = jv_owned (view (ex_journal m)) \<and>
    jv_rendered (view (ex_journal (tickHousekeeping env m))) = jv_rendered (view (ex_journal m)) \<and>
    (\<forall>bid row. jv_recent (view (ex_journal m)) bid = Some row \<and> env_now env (ex_reads m) \<le> rb_expires row \<longrightarrow>
       jv_recent (view (ex_journal (tickHousekeeping env m))) bid = Some row)"
proof -
  let ?t = "env_now env (ex_reads m)"
  obtain r j where c: "jn_cleanup J ?t (ex_journal m) = (r, j)" by fastforce
  let ?m = "m\<lparr>ex_reads := Suc (ex_reads m), ex_journal := j\<rparr>"
  have s: "manager_synced (env_it env) org ok view ?m"
    using cleanup_sync [OF sync c] by (simp add: manager_synced_def)
  have "st_epoch_started (mg_state ?m) = None" using s by (simp add: manager_synced_def)
  then have "tickHousekeeping env m = maybeCompact env ?m"
    using c by (simp add: tickHousekeeping_def read_now_def J maybeAdvanceEpoch_never)
  with maybeCompact_sync [OF J it s] cleanup_keeps [OF manager_synced_ok [OF sync] c] show ?thesis by auto
qed

text \<open>A submission, batch by batch.\<close>

lemma processBatches_sync:
  assumes J: "env_journal env = J" and it: "range_order (env_it env)"
  shows "manager_synced (env_it env) org ok view m \<Longrightarrow> clock_room (length (concat (map batch_ops bs)) + k) (mg_clock m) \<Longrightarrow>
    processBatches env inp bs m = (r, m') \<Longrightarrow>
    manager_synced (env_it env) org ok view m' \<and> clock_room k (mg_clock m') \<and> mg_subscribers m' = mg_subscribers m \<and>
    jv_recent (view (ex_journal m)) \<subseteq>\<^sub>m jv_recent (view (ex_journal m'))"
proof (induction bs arbitrary: m r)
  case Nil
  then show ?case by simp
next
  case (Cons b bs)
  obtain r1 m1 where p: "processBatch env inp b m = (r1, m1)" by fastforce
  have room: "clock_room (length (batch_ops b) + (length (concat (map batch_ops bs)) + k)) (mg_clock m)"
    using Cons.prems(2) by (simp add: add.assoc)
  note out = processBatch_outcome [OF J it Cons.prems(1) room p]
  then have rows: "jv_recent (view (ex_journal m)) \<subseteq>\<^sub>m jv_recent (view (ex_journal m1))"
    by (auto simp: batch_untouched_def batch_committed_def map_le_def)
  show ?case
  proof (cases r1)
    case (Inl e)
    then have "m' = m1" using Cons.prems(3) p by simp
    then show ?thesis using out rows clock_room_less [OF conjunct1 [OF conjunct2 [OF out]], of k] by simp
  next
    case (Inr res)
    obtain r2 m2 where q: "processBatches env inp bs m1 = (r2, m2)" by fastforce
    have "m' = m2" using Cons.prems(3) p q Inr by (auto split: sum.splits)
    then show ?thesis using Cons.IH [of m1 r2] out q map_le_trans [OF rows] by simp
  qed
qed

lemma processSubmit_sync:
  assumes J: "env_journal env = J" and it: "range_order (env_it env)" and sync: "manager_synced (env_it env) org ok view m"
    and room: "clock_room (length (concat (map batch_ops (in_batches inp)))) (mg_clock m)"
    and run: "processSubmit env internal inp m = (r, m')"
  shows "manager_synced (env_it env) org ok view m' \<and> mg_subscribers m' = mg_subscribers m \<and>
    jv_recent (view (ex_journal m)) \<subseteq>\<^sub>m jv_recent (view (ex_journal m'))"
proof (cases "m' = m")
  case False
  then have "processBatches env inp (in_batches inp) m = (r, m')" using run by (auto simp: processSubmit_def split: if_splits)
  from processBatches_sync [OF J it sync _ this, of 0] room show ?thesis by simp
qed (use sync in simp)

text \<open>A restart: loading gives back the state in memory.\<close>

lemma Bootstrap_sync:
  assumes J: "env_journal env = J" and sync: "manager_synced (env_it env) org ok view m"
    and boot: "Bootstrap env (NewManager org (ex_journal m) w) = Some (None, m')"
  shows "manager_synced (env_it env) org ok view m' \<and> mg_state m' = mg_state m \<and> view (ex_journal m') = view (ex_journal m)"
proof -
  have okj: "ok (ex_journal m)" using manager_synced_ok [OF sync] .
  obtain so tail j where load: "jn_load J org (ex_journal m) = Some (Inr (so, tail), j)"
    using boot J load_returns [OF okj] by (auto simp: Bootstrap_def NewManager_def split: sum.splits option.splits prod.splits)
  have keep: "ok j \<and> view j = view (ex_journal m)" by (rule load_keeps [OF okj load])
  have "replay org so tail = mg_state m" using load_recovers [OF okj load] sync by (simp add: manager_synced_def)
  moreover have "mg_state m' = replay org so tail \<and> ex_journal m' = j \<and> mg_org_id m' = org \<and>
      mg_clock m' = Observe (NewClock ''hub-canonical'') (st_max_hlc (replay org so tail))"
    using boot J load by (auto simp: Bootstrap_def NewManager_def touchActivity_def read_now_def Let_def replay_def replay_fold split: option.splits)
  ultimately show ?thesis using sync keep Observe_covers by (simp add: manager_synced_def)
qed

end

section \<open>The life of a manager\<close>

text \<open>The database holds nothing of an organization.\<close>

definition fresh_org :: "ident \<Rightarrow> ('b, 'h) hub_db \<Rightarrow> bool" where
  "fresh_org org db \<longleftrightarrow> fmlookup (db_org_state db) org = None \<and> (\<forall>r \<in> set (db_batches db). br_org_id r \<noteq> org) \<and>
     (\<forall>i. db_owned db (org, i) = None \<and> db_rendered db (org, i) = None)"

text \<open>Room in the logical part of the clock for the stamps of a submission.\<close>

definition room_for :: "submit_input \<Rightarrow> ('j, 'w) manager \<Rightarrow> bool" where
  "room_for inp m \<longleftrightarrow> clock_room (length (concat (map batch_ops (in_batches inp)))) (mg_clock m)"

text \<open>What may happen to a manager: submissions of clients and of the hub, and each batch of one,
  with any operations as long as the clock has room for their stamps; housekeeping, at a time up to \<open>T\<close>; subscriptions; and a
  restart over the same tables. Faults of the database are part of each step, by the fault plan of
  the journal in \<open>env\<close>.\<close>

inductive org_step :: "(('b, 'h) hub_db, 'w, 'p, 'h, 'e) manager_env \<Rightarrow> ident \<Rightarrow> int \<Rightarrow> (('b, 'h) hub_db, 'w) manager \<Rightarrow> (('b, 'h) hub_db, 'w) manager \<Rightarrow> bool"
  for env org T where
  submit: "room_for inp m \<Longrightarrow> Submit env inp m = (r, m') \<Longrightarrow> org_step env org T m m'"
| batch: "clock_room (length (batch_ops b)) (mg_clock m) \<Longrightarrow> processBatch env inp b m = (r, m') \<Longrightarrow> org_step env org T m m'"
| internal: "room_for inp m \<Longrightarrow> SubmitInternal env inp m = (r, m') \<Longrightarrow> org_step env org T m m'"
| housekeeping: "env_now env (ex_reads m) \<le> T \<Longrightarrow> org_step env org T m (tickHousekeeping env m)"
| subscribe: "SubscribeWithACL (env_it env) p sub resolve m = (out :: 'e store_error + org_materialized, m') \<Longrightarrow> org_step env org T m m'"
| unsubscribe: "org_step env org T m (unsub (env_it env) t p sub m)"
| restart: "Bootstrap env (NewManager org (ex_journal m) w) = Some (None, m') \<Longrightarrow> org_step env org T m m'"

text \<open>The managers of an organization that starts empty.\<close>

inductive org_reachable :: "(('b, 'h) hub_db, 'w, 'p, 'h, 'e) manager_env \<Rightarrow> ident \<Rightarrow> (('b, 'h) hub_db, 'w) manager \<Rightarrow> bool"
  for env org where
  start: "fresh_org org db \<Longrightarrow> Bootstrap env (NewManager org db w) = Some (None, m) \<Longrightarrow> org_reachable env org m"
| step: "org_reachable env org m \<Longrightarrow> org_step env org T m m' \<Longrightarrow> org_reachable env org m'"

inductive_cases org_reachableE: "org_reachable env org m"

lemma fresh_org_sound:
  assumes "fresh_org org db" and "codec_ok cd"
  shows "journal_sound cd org db \<and> jv_state (journal_view_of cd org db) = NewState org"
proof -
  have "org_rows org db = []" using assms(1) by (auto simp: fresh_org_def org_rows_def filter_empty_conv)
  moreover have "base_state cd org db = Some (NewState org)" using assms(1) by (simp add: fresh_org_def base_state_def)
  ultimately show ?thesis
    using assms(2) by (simp add: journal_sound_def journal_ok_def journal_view_of_def apply_all_def rows_ordered_def NewState_def zero_hlc_def)
qed

lemma fresh_synced:
  assumes it: "range_order it" and "fresh_org org db" and "codec_ok cd"
  shows "manager_synced it org (journal_sound cd org) (journal_view_of cd org) (NewManager org db w)"
proof -
  have "owned_of it (NewState org) i = None \<and> rendered_of it (NewState org) i = None" for i
    by (simp add: owned_of_def rendered_of_def projectOneTab_eq NewState_def)
  then show ?thesis
    using fresh_org_sound [OF assms(2,3)] valid_sound [OF NewState_valid [of it org]] assms(2)
    by (simp add: manager_synced_def NewManager_def fresh_org_def journal_view_of_def)
       (simp add: NewState_def hlc_le_clock_def NewClock_def)
qed

lemma touch_sync: "manager_synced it org ok view (touchActivity env m) = manager_synced it org ok view m" "mg_clock (touchActivity env m) = mg_clock m"
  by (simp_all add: touchActivity_def read_now_def manager_synced_def)

lemma touch_journal [simp]: "ex_journal (touchActivity env m) = ex_journal m"
  by (simp add: touchActivity_def read_now_def)

lemma internal_input_batches [simp]: "in_batches (internal_input c inp) = in_batches inp"
  by (simp add: internal_input_def Let_def)

lemma subscribe_sync:
  assumes "manager_synced it org ok view m" and "SubscribeWithACL it p sub resolve m = (out, m')"
  shows "manager_synced it org ok view m' \<and> ex_journal m' = ex_journal m"
  using assms by (auto simp: SubscribeWithACL_def Subscribe_def manager_synced_def split: prod.splits sum.splits)

text \<open>The invariant of every reachable manager, by induction over its life; and the dedup rows that
  have not expired stay.\<close>

lemma map_le_SomeD: "f \<subseteq>\<^sub>m g \<Longrightarrow> f x = Some y \<Longrightarrow> g x = Some y"
  by (metis domI map_le_def)

lemma org_step_synced:
  assumes J: "env_journal env = NewCRDTJournal flt cd" and it: "range_order (env_it env)"
    and sync: "manager_synced (env_it env) org (journal_sound cd org) (journal_view_of cd org) m" and step: "org_step env org T m m'"
  shows "manager_synced (env_it env) org (journal_sound cd org) (journal_view_of cd org) m' \<and>
    (\<forall>bid row. jv_recent (journal_view_of cd org (ex_journal m)) bid = Some row \<and> T \<le> rb_expires row \<longrightarrow>
       jv_recent (journal_view_of cd org (ex_journal m')) bid = Some row)"
  using step
proof cases
  case (submit inp r)
  then have "processSubmit env False inp (touchActivity env m) = (r, m')" by (simp add: Submit_def)
  from crdt_journal.processSubmit_sync [OF J it _ _ this] sync submit(1) show ?thesis
    by (auto simp: touch_sync room_for_def intro: map_le_SomeD)
next
  case (batch b inp r)
  have "clock_room (length (batch_ops b) + 0) (mg_clock m)" using batch(1) by simp
  from crdt_journal.processBatch_outcome [OF J it sync this batch(2)] show ?thesis
    by (auto simp: batch_untouched_def batch_committed_def)
next
  case (internal inp r)
  then have "processSubmit env True (internal_input (mg_hub_client m) inp) (touchActivity env (touchActivity env m)) = (r, m')"
    by (simp add: SubmitInternal_def)
  from crdt_journal.processSubmit_sync [OF J it _ _ this] sync internal(1) show ?thesis
    by (auto simp: touch_sync room_for_def intro: map_le_SomeD)
next
  case housekeeping
  then show ?thesis using crdt_journal.tick_sync [OF J it sync] by (auto intro: order_trans)
next
  case (subscribe p sub resolve out)
  then show ?thesis using subscribe_sync [OF sync subscribe] by simp
next
  case (unsubscribe t p sub)
  then show ?thesis using sync by (simp add: unsub_def manager_synced_def)
next
  case (restart w)
  then show ?thesis using crdt_journal.Bootstrap_sync [OF J sync] by fastforce
qed

lemma org_reachable_synced:
  assumes J: "env_journal env = NewCRDTJournal flt cd" and cd: "codec_ok cd" and it: "range_order (env_it env)"
  shows "org_reachable env org m \<Longrightarrow> manager_synced (env_it env) org (journal_sound cd org) (journal_view_of cd org) m"
proof (induction rule: org_reachable.induct)
  case (start db w m)
  have "ex_journal (NewManager org db w) = db" by (simp add: NewManager_def)
  then show ?case using crdt_journal.Bootstrap_sync [OF J fresh_synced [OF it start(1) cd, of w]] start(2) by simp
next
  case (step m T m')
  then show ?case using org_step_synced [OF J it step.IH step(2)] by simp
qed

text \<open>A run of the manager whose housekeeping happens no later than \<open>T\<close> keeps the dedup rows that
  expire at \<open>T\<close> or later.\<close>

lemma org_run_keeps_row:
  assumes J: "env_journal env = NewCRDTJournal flt cd" and it: "range_order (env_it env)" and run: "(org_step env org T)\<^sup>*\<^sup>* m m'"
    and sync: "manager_synced (env_it env) org (journal_sound cd org) (journal_view_of cd org) m"
    and row: "jv_recent (journal_view_of cd org (ex_journal m)) bid = Some row" "T \<le> rb_expires row"
  shows "manager_synced (env_it env) org (journal_sound cd org) (journal_view_of cd org) m' \<and>
    jv_recent (journal_view_of cd org (ex_journal m')) bid = Some row"
  using run
proof induction
  case (step a c)
  then show ?case using org_step_synced [OF J it _ step(2)] row(2) by blast
qed (use sync row in simp)

lemma max_hlc_bound: "st_max_hlc s \<le> y \<Longrightarrow> (\<And>p. p \<in> set ps \<Longrightarrow> op_canonical_hlc p \<le> y) \<Longrightarrow> st_max_hlc (apply_all ps s) \<le> y"
  by (induction ps arbitrary: s) (simp_all add: apply_simps Apply_max_hlc)

text \<open>After a minted batch the greatest timestamp is that of its last operation.\<close>

lemma minted_max:
  assumes "minted first b" and "st_max_hlc s < Some first"
  shows "st_max_hlc (apply_all (batch_ops b) s) = op_canonical_hlc (last (batch_ops b))"
proof -
  have ne: "batch_ops b \<noteq> []" using assms(1) by (simp add: minted_def)
  have le: "x \<le> op_canonical_hlc (last (batch_ops b))" if "x \<in> insert (st_max_hlc s) (op_canonical_hlc ` set (batch_ops b))" for x
    using that
  proof
    assume "x = st_max_hlc s"
    then show ?thesis using assms(2) minted_stamps(3,4) [OF assms(1)] by (metis less_eq_option_Some order.trans order_less_imp_le)
  next
    assume "x \<in> op_canonical_hlc ` set (batch_ops b)"
    then obtain i where "i < length (batch_ops b)" "x = Some (first\<lparr>hlc_logical := hlc_logical first + int i\<rparr>)"
      using assms(1) by (auto simp: minted_def in_set_conv_nth)
    then show ?thesis using minted_stamps(2,3) [OF assms(1)] by (simp add: hlc_le_iff) linarith
  qed
  show ?thesis
    by (rule order.antisym [OF max_hlc_bound max_hlc_apply_all(2)]) (use le ne in auto)
qed

definition batch_failed :: "'e submit_error + batch_result \<Rightarrow> bool" where
  "batch_failed r = (case r of Inl _ \<Rightarrow> True | Inr res \<Rightarrow> (case res_outcome res of Committed _ _ _ \<Rightarrow> False | Rejected _ _ \<Rightarrow> True))"

section \<open>A batch sent again\<close>

lemma stamp_wrap:
  assumes "minted first b" and "stamps_int64 (batch_ops b)" and "i < length (batch_ops b)"
  shows "wrap64 (hlc_logical first + int i) = hlc_logical first + int i"
proof -
  have "batch_ops b ! i \<in> set (batch_ops b)" using assms(3) by simp
  then obtain h where h: "op_canonical_hlc (batch_ops b ! i) = Some h" "is_int64 (hlc_logical h)" using assms(2) by (auto simp: stamps_int64_def)
  then have "h = first\<lparr>hlc_logical := hlc_logical first + int i\<rparr>" using assms(1,3) by (simp add: minted_def)
  then have "is_int64 (hlc_logical first + int i)" using h(2) by simp
  then show ?thesis by (rule wrap64_id)
qed

text \<open>The answer rebuilt from the dedup row carries the timestamps of the commit.\<close>

lemma makeDedupHitResult_same:
  assumes mint: "minted first b" and i64: "stamps_int64 (batch_ops b)" and len: "length ps = length (batch_ops b)"
    and row: "rb_first_hlc row = Some first" "rb_op_count row = int (length (batch_ops b))"
  shows "makeDedupHitResult (b\<lparr>batch_ops := ps\<rparr>) row e = \<lparr>res_batch_id = batch_id b,
    res_outcome = Committed (zip (map op_id ps) (map op_canonical_hlc (batch_ops b))) (op_canonical_hlc (last (batch_ops b))) e\<rparr>"
proof -
  have ne: "batch_ops b \<noteq> []" using mint by (simp add: minted_def)
  have "map (\<lambda>(i, p). (op_id p, Some (first\<lparr>hlc_logical := wrap64 (hlc_logical first + int i)\<rparr>))) (enumerate 0 ps) =
      zip (map op_id ps) (map op_canonical_hlc (batch_ops b))"
    by (rule nth_equalityI) (use len mint stamp_wrap [OF mint i64] in \<open>auto simp: nth_enumerate_eq minted_def\<close>)
  moreover have "wrap64 (hlc_logical first + int (length (batch_ops b)) - 1) = hlc_logical first + int (length (batch_ops b)) - 1"
    using stamp_wrap [OF mint i64, of "length (batch_ops b) - 1"] ne by (simp add: of_nat_diff Suc_le_eq add_diff_eq)
  then have "Some (first\<lparr>hlc_logical := wrap64 (hlc_logical first + int (length (batch_ops b)) - 1)\<rparr>) = op_canonical_hlc (last (batch_ops b))"
    using minted_stamps(2,3) [OF mint] by simp
  ultimately show ?thesis using row by (simp add: makeDedupHitResult_def Let_def)
qed

context journal_contract
begin

lemma retry_outcome:
  assumes J: "env_journal env = J" and sync: "manager_synced (env_it env) org ok view m" and sync2: "manager_synced (env_it env) org ok view m2"
    and com: "batch_committed env view inp b m res m1 ops"
    and kept: "jv_recent (view (ex_journal m2)) (batch_id b) = jv_recent (view (ex_journal m1)) (batch_id b)"
    and again: "map op_body ps = map op_body (batch_ops b)" "in_principal inp' = in_principal inp"
    and run: "processBatch env inp' (b\<lparr>batch_ops := ps\<rparr>) m2 = (r, m3)"
  shows "batch_untouched view m2 m3 \<and> ((\<exists>e. r = Inl (ErrDedupLookup e)) \<or>
    r = Inr \<lparr>res_batch_id = batch_id b, res_outcome = Committed (zip (map op_id ps) (map op_canonical_hlc ops))
        (op_canonical_hlc (last ops)) (st_epoch (mg_state m))\<rparr>)"
proof -
  let ?b = "b\<lparr>batch_ops := ops\<rparr>" and ?ps = "b\<lparr>batch_ops := ps\<rparr>"
  obtain first where mint: "minted first ?b" using com by (auto simp: batch_committed_def fresh_for_def)
  have i64: "stamps_int64 (batch_ops ?b)" and bodies: "map op_body ops = map op_body (batch_ops b)" and id: "batch_id b \<noteq> empty_id"
    using com by (simp_all add: batch_committed_def)
  have len: "length ps = length ops" "ops \<noteq> []" "ps \<noteq> []"
    using arg_cong [OF bodies, of length] arg_cong [OF again(1), of length] mint by (auto simp: minted_def)
  obtain hash expires where hash: "batch_hash env b = Some hash" and
    rec: "jv_recent (view (ex_journal m2)) (batch_id b) = Some (stored_recent (dedup_row (mg_org_id m) inp ?b hash (st_epoch (mg_state m)) expires))"
    using com kept by (auto simp: batch_committed_def)
  let ?row = "stored_recent (dedup_row (mg_org_id m) inp ?b hash (st_epoch (mg_state m)) expires)"
  have ep: "st_epoch (mg_state m2) = st_epoch (mg_state m)" using sync sync2 by (simp add: manager_synced_def)
  have row: "rb_first_hlc ?row = Some first" "rb_op_count ?row = int (length ops)"
    using minted_stamps(1) [OF mint] by (simp_all add: stored_recent_def dedup_row_def first_hlc_def)
  have hit: "dedup_verdict env inp' ?ps (st_epoch (mg_state m2)) ?row = DedupHit ?row"
    using hash batch_hash_bodies [OF again(1), of env] len(1) again(2) ep
    by (simp add: dedup_verdict_def stored_recent_def dedup_row_def)
  obtain d m' where dd: "runDedup env inp' ?ps m2 = (d, m')" by fastforce
  note ded = runDedup_sync [OF J sync2 dd]
  have un: "batch_untouched view m2 m'" using ded(2,3) by (auto simp: batch_untouched_def)
  have ep': "st_epoch (mg_state m') = st_epoch (mg_state m)" using ded(2) ep by auto
  from ded(4) have "(\<exists>e. d = DedupErr e) \<or> d = DedupHit ?row" using rec hit by simp
  then show ?thesis
  proof
    assume "\<exists>e. d = DedupErr e"
    then show ?thesis using run dd id len(3) un by (auto simp: processBatch_def)
  next
    assume d: "d = DedupHit ?row"
    have "r = Inr (makeDedupHitResult ?ps ?row (st_epoch (mg_state m)))" "m3 = m'"
      using run dd id len(3) d ep' by (simp_all add: processBatch_def)
    then show ?thesis
      using makeDedupHitResult_same [OF mint i64, of ps ?row "st_epoch (mg_state m)"] row len un by simp
  qed
qed

end

section \<open>Properties\<close>

text \<open>C8: crash recovery. In whatever state a manager of the organization is, a new manager over the
  same database gets an answer from loading, and when loading succeeds it holds exactly the state
  the old one had in memory, over unchanged tables.\<close>

theorem restart_recovers:
  assumes "env_journal env = NewCRDTJournal flt cd" and "codec_ok cd" and "range_order (env_it env)" and "org_reachable env org m"
  shows "Bootstrap env (NewManager org (ex_journal m) w) \<noteq> None \<and>
    (\<forall>m'. Bootstrap env (NewManager org (ex_journal m) w) = Some (None, m') \<longrightarrow> mg_state m' = mg_state m \<and>
       hlc_le_clock (st_max_hlc (mg_state m')) (mg_clock m') \<and>
       journal_view_of cd org (ex_journal m') = journal_view_of cd org (ex_journal m))"
proof -
  note sync = org_reachable_synced [OF assms]
  obtain r where r: "jn_load (NewCRDTJournal flt cd) org (ex_journal m) = Some r"
    using crdt_journal.load_returns [OF manager_synced_ok [OF sync]] by blast
  have "Bootstrap env (NewManager org (ex_journal m) w) \<noteq> None"
    using r Bootstrap_answers [where env = env and m = "NewManager org (ex_journal m) w"] by (cases r; cases "fst r") (auto simp: assms(1))
  moreover have "mg_state m' = mg_state m \<and> hlc_le_clock (st_max_hlc (mg_state m')) (mg_clock m') \<and>
      journal_view_of cd org (ex_journal m') = journal_view_of cd org (ex_journal m)"
    if "Bootstrap env (NewManager org (ex_journal m) w) = Some (None, m')" for m'
    using crdt_journal.Bootstrap_sync [OF assms(1) sync that] unfolding manager_synced_def by blast
  ultimately show ?thesis by blast
qed

text \<open>C13: without faults of the database, loading succeeds: a restart always comes up.\<close>

theorem restart_succeeds:
  fixes env :: "(('b, 'h) hub_db, 'w, 'p, 'h, 'e) manager_env"
  assumes "env_journal env = NewCRDTJournal (\<lambda>_. None) cd" and "codec_ok cd" and "range_order (env_it env)" and "org_reachable env org m"
  shows "\<exists>m'. Bootstrap env (NewManager org (ex_journal m) w) = Some (None, m') \<and> mg_state m' = mg_state m"
proof -
  note sync = org_reachable_synced [OF assms]
  have ok: "journal_ok cd org (ex_journal m)" using manager_synced_ok [OF sync] by (simp add: journal_sound_def)
  obtain so tail j where "LoadState (\<lambda>_. None :: 'e option) cd org (ex_journal m) = Some (Inr (so, tail), j)"
    using LoadState_ok [OF ok, of "\<lambda>_. None :: 'e option"] by blast
  then obtain m' where m': "Bootstrap env (NewManager org (ex_journal m) w) = Some (None, m')"
    using Bootstrap_answers(2) [where env = env and m = "NewManager org (ex_journal m) w" and j = j and x = "(so, tail)"] by (auto simp: assms(1) NewCRDTJournal_def)
  then show ?thesis using crdt_journal.Bootstrap_sync [OF assms(1) sync m'] by auto
qed

text \<open>C9: in every state that submissions, faults of the database, compactions, subscriptions and
  restarts lead to from an empty organization, whatever identifiers the batches name: the records are
  well formed, no node is the root of two owners, every live tab with a non-empty id is placed, and
  records are complete unless an incomplete one hides under the empty identifier; with no record
  under the empty identifier the state is valid without exception. The clock is past the state, and the two index tables hold
  exactly its projection, for every tab id but the empty one. Steps are submissions that the
  logical part of the clock has room for; rows of the lifecycle outbox are not among them.\<close>

theorem org_reachable_invariant:
  assumes "env_journal env = NewCRDTJournal flt cd" and "codec_ok cd" and "range_order (env_it env)" and "org_reachable env org m"
  shows "sound_state (env_it env) (mg_state m) \<and> (named_state (mg_state m) \<longrightarrow> valid_state (env_it env) (mg_state m)) \<and>
    hlc_le_clock (st_max_hlc (mg_state m)) (mg_clock m) \<and>
    (\<forall>i. i \<noteq> empty_id \<longrightarrow> db_owned (ex_journal m) (org, i) = owned_of (env_it env) (mg_state m) i \<and>
       db_rendered (ex_journal m) (org, i) = rendered_of (env_it env) (mg_state m) i)"
  using org_reachable_synced [OF assms] sound_named by (auto simp: manager_synced_def journal_view_of_def)

text \<open>C10: a batch that ends in an error, or is rejected, leaves no trace: the state, what the journal
  would recover, the dedup rows, the index tables, the deliveries and the audits are as before.\<close>

theorem failed_batch_no_trace:
  assumes "env_journal env = NewCRDTJournal flt cd" and "codec_ok cd" and "range_order (env_it env)" and "org_reachable env org m"
    and "clock_room (length (batch_ops b)) (mg_clock m)"
    and "processBatch env inp b m = (r, m')"
    and "batch_failed r"
  shows "mg_state m' = mg_state m \<and> journal_view_of cd org (ex_journal m') = journal_view_of cd org (ex_journal m) \<and>
    ex_sent m' = ex_sent m \<and> ex_audits m' = ex_audits m"
  using crdt_journal.processBatch_outcome [OF assms(1,3) org_reachable_synced [OF assms(1-4)] _ assms(6), of 0] assms(5,7)
  by (auto simp: batch_untouched_def batch_committed_def batch_failed_def)

text \<open>C11: a batch that is committed for the first time is stamped with consecutive timestamps above
  everything in the state, keeps the bodies it came with and is the only change of the state; and
  exactly one broadcast is added to the deliveries, of the stamped batch with the affected
  workspaces that its validation computed, as the subscribers' filters say.\<close>

theorem committed_batch_effect:
  assumes "env_journal env = NewCRDTJournal flt cd" and "codec_ok cd" and "range_order (env_it env)" and "org_reachable env org m"
    and "clock_room (length (batch_ops b)) (mg_clock m)"
    and "processBatch env inp b m = (Inr res, m')" and "res_outcome res = Committed ids h e"
    and "fmlookup (db_recent (ex_journal m)) (org, batch_id b) = None"
  shows "\<exists>ops aff first w w'. map op_body ops = map op_body (batch_ops b) \<and> ids = map (\<lambda>p. (op_id p, op_canonical_hlc p)) ops \<and>
    st_max_hlc (mg_state m) < Some first \<and>
    (\<forall>i < length ops. op_canonical_hlc (ops ! i) = Some (first\<lparr>hlc_logical := hlc_logical first + int i\<rparr>)) \<and>
    mg_state m' = apply_all ops (mg_state m) \<and> h = st_max_hlc (mg_state m') \<and>
    ValidateBatch (env_it env) (mg_state m) ops (in_internal inp) (in_principal inp)
      (scopedAuthChecker (env_auth env) (in_workspace_scope inp) (in_worker_scope inp)) w = (VAccept aff (mg_state m'), w') \<and>
    ex_sent m' = ex_sent m @ broadcastBatch (env_itr env) (Snapshot (mg_subscribers m)) (mg_state m') (b\<lparr>batch_ops := ops\<rparr>) aff"
proof -
  have "jv_recent (journal_view_of cd org (ex_journal m)) (batch_id b) = None" using assms(8) by (simp add: journal_view_of_def)
  then obtain ops where c: "batch_committed env (journal_view_of cd org) inp b m res m' ops"
    using crdt_journal.processBatch_outcome [OF assms(1,3) org_reachable_synced [OF assms(1-4)] _ assms(6), of 0] assms(5,7) by auto
  obtain aff w w' where aff: "ValidateBatch (env_it env) (mg_state m) ops (in_internal inp) (in_principal inp)
      (scopedAuthChecker (env_auth env) (in_workspace_scope inp) (in_worker_scope inp)) w = (VAccept aff (mg_state m'), w')"
      "ex_sent m' = ex_sent m @ broadcastBatch (env_itr env) (Snapshot (mg_subscribers m)) (mg_state m') (b\<lparr>batch_ops := ops\<rparr>) aff"
    using c by (auto simp: batch_committed_def)
  obtain first where first: "minted first (b\<lparr>batch_ops := ops\<rparr>)" "st_max_hlc (mg_state m) < Some first"
    using c by (auto simp: batch_committed_def fresh_for_def)
  have st: "mg_state m' = apply_all ops (mg_state m)" and h: "h = op_canonical_hlc (last ops)"
    and ids: "ids = map (\<lambda>p. (op_id p, op_canonical_hlc p)) ops" and bodies: "map op_body ops = map op_body (batch_ops b)"
    using c assms(7) by (auto simp: batch_committed_def)
  have "h = st_max_hlc (mg_state m')" using minted_max [OF first] by (simp add: st h)
  moreover have "\<forall>i < length ops. op_canonical_hlc (ops ! i) = Some (first\<lparr>hlc_logical := hlc_logical first + int i\<rparr>)"
    using first(1) by (simp add: minted_def)
  ultimately show ?thesis using aff first(2) st ids bodies by blast
qed

text \<open>C12: a batch sent again by the same principal, with the same bodies, is not applied twice,
  however many submissions, subscriptions, restarts and database faults lie in between, as long
  as housekeeping has not run later than 14 days after the commit, when the dedup row expires: the
  answer carries the timestamps of the first commit, and nothing changes. The only other outcome
  is that the dedup table cannot be read, which changes nothing either.\<close>

theorem retry_idempotent:
  assumes "env_journal env = NewCRDTJournal flt cd" and "codec_ok cd" and "range_order (env_it env)" and "org_reachable env org m"
    and "clock_room (length (batch_ops b)) (mg_clock m)"
    and "processBatch env inp b m = (Inr res, m1)" and "res_outcome res = Committed ids h e"
    and "fmlookup (db_recent (ex_journal m)) (org, batch_id b) = None"
    and "(org_step env org T)\<^sup>*\<^sup>* m1 m2" and "T \<le> env_now env (Suc (ex_reads m)) + DedupTTL"
    and "map op_body ps = map op_body (batch_ops b)" and "in_principal inp' = in_principal inp"
    and "processBatch env inp' (b\<lparr>batch_ops := ps\<rparr>) m2 = (r, m3)"
  shows "mg_state m3 = mg_state m2 \<and> journal_view_of cd org (ex_journal m3) = journal_view_of cd org (ex_journal m2) \<and>
    ex_sent m3 = ex_sent m2 \<and> ((\<exists>x. r = Inl (ErrDedupLookup x)) \<or>
      r = Inr (res\<lparr>res_outcome := Committed (zip (map op_id ps) (map snd ids)) h e\<rparr>))"
proof -
  have none: "jv_recent (journal_view_of cd org (ex_journal m)) (batch_id b) = None" using assms(8) by (simp add: journal_view_of_def)
  note sync = org_reachable_synced [OF assms(1-4)]
  note out = crdt_journal.processBatch_outcome [OF assms(1,3) sync _ assms(6), of 0]
  obtain ops where c: "batch_committed env (journal_view_of cd org) inp b m res m1 ops" using out assms(5,7) none by auto
  have sync1: "manager_synced (env_it env) org (journal_sound cd org) (journal_view_of cd org) m1" using out assms(5) by simp
  have res: "res = \<lparr>res_batch_id = batch_id b, res_outcome = Committed ids h e\<rparr>" "map snd ids = map op_canonical_hlc ops"
      "h = op_canonical_hlc (last ops)" "e = st_epoch (mg_state m)"
    using c assms(7) by (auto simp: batch_committed_def)
  obtain row where row: "jv_recent (journal_view_of cd org (ex_journal m1)) (batch_id b) = Some row" "T \<le> rb_expires row"
    using c assms(10) by (auto simp: batch_committed_def stored_recent_def dedup_row_def)
  note later = org_run_keeps_row [OF assms(1,3,9) sync1 row]
  from crdt_journal.retry_outcome [OF assms(1) sync conjunct1 [OF later] c _ assms(11-13)] later row(1) show ?thesis
    by (auto simp: batch_untouched_def res)
qed

text \<open>C14: housekeeping is invisible: what is live, what is valid and every row of the index are as
  before, and the journal still recovers the state in memory.\<close>

theorem housekeeping_invisible:
  assumes "env_journal env = NewCRDTJournal flt cd" and "codec_ok cd" and "range_order (env_it env)" and "org_reachable env org m"
  shows "same_live (mg_state (tickHousekeeping env m)) (mg_state m) \<and>
    jv_state (journal_view_of cd org (ex_journal (tickHousekeeping env m))) = mg_state (tickHousekeeping env m) \<and>
    db_owned (ex_journal (tickHousekeeping env m)) (org, i) = db_owned (ex_journal m) (org, i) \<and>
    db_rendered (ex_journal (tickHousekeeping env m)) (org, i) = db_rendered (ex_journal m) (org, i)"
proof -
  note sync = org_reachable_synced [OF assms]
  note tick = crdt_journal.tick_sync [OF assms(1,3) sync]
  have "same_live (mg_state (tickHousekeeping env m)) (mg_state m)"
    using tick compacted_live [OF assms(3), of "mg_state m"] by auto
  with tick show ?thesis by (simp add: manager_synced_def journal_view_of_def fun_eq_iff)
qed

text \<open>The epoch never advances: whatever happens to the manager, the epoch is the one of a new
  organization, because nothing ever records when the epoch started.\<close>

theorem epoch_never_advances:
  assumes "env_journal env = NewCRDTJournal flt cd" and "codec_ok cd" and "range_order (env_it env)" and "org_reachable env org m"
  shows "maybeAdvanceEpoch env m = m \<and> currentEpoch m = 1"
  using org_reachable_synced [OF assms] maybeAdvanceEpoch_never [of m env] by (simp add: manager_synced_def currentEpoch_def)

end
