(* ===== verification/Example.thy ===== *)
theory Example
  imports OrgState
begin

text \<open>
  A small organization to evaluate the definitions on: the hub creates a workspace with a leaf
  as its root, and a client then opens a tab on that leaf.
\<close>

definition stamp :: "nat \<Rightarrow> hlc" where
  "stamp n = \<lparr>hlc_physical = 1000, hlc_logical = int n, hlc_client = ''hub''\<rparr>"

definition demo_op :: "nat \<Rightarrow> op_body \<Rightarrow> org_op" where
  "demo_op n b = \<lparr>op_org_id = ''org'', op_id = ''op'', op_origin_client = ''c1'', op_client_hlc = None,
     op_canonical_hlc = Some (stamp n), op_body = b\<rparr>"

definition hub_batch :: "org_op list" where
  "hub_batch = [demo_op 1 (SetNodeRegister ''root'' (NodeKindField NODE_KIND_LEAF)),
     demo_op 2 (SetWorkspaceRootNode ''ws'' ''root'')]"

definition tab_batch :: "org_op list" where
  "tab_batch = [demo_op 3 (SetTabRegister TAB_TYPE_AGENT ''tab'' (TabTileId ''root'')),
     demo_op 4 (SetTabRegister TAB_TYPE_AGENT ''tab'' (TabWorkerId ''wk'')),
     demo_op 5 (SetTabRegister TAB_TYPE_AGENT ''tab'' (TabPosition ''a''))]"

definition demo_state :: org_state where
  "demo_state = apply_all hub_batch (NewState ''org'')"

definition demo_tabbed :: org_state where
  "demo_tabbed = apply_all tab_batch demo_state"

end
