(* ===== verification/Witnesses.thy ===== *)
theory Witnesses
  imports Converge ValidState Example
begin

text \<open>
  The properties at concrete inputs: the example organization is built by accepted batches, and
  each property that has hypotheses is applied to it.
\<close>

section \<open>The organization is accepted\<close>

definition no_auth :: "(unit, unit) auth_checker" where
  "no_auth = \<lparr>CanAccessWorkspace = (\<lambda>_ _ _ w. (Inr False, w)), CanUseWorker = (\<lambda>_ _ _ w. (Inr False, w))\<rparr>"

text \<open>A store with one workspace and one worker, both of user \<open>u\<close>.\<close>

definition demo_store :: "(unit, unit) auth_store" where
  "demo_store = \<lparr>GetWorkspaceByID = (\<lambda>i w. (Inr (if i = ''ws'' then Some \<lparr>wr_id = ''ws'', wr_org_id = ''org'', wr_owner = ''u''\<rparr> else None), w)),
     ListWorkspacesByIDs = (\<lambda>is w. (Inr (if ''ws'' \<in> set is then [\<lparr>wr_id = ''ws'', wr_org_id = ''org'', wr_owner = ''u''\<rparr>] else []), w)),
     GetWorkerByID = (\<lambda>i w. (if i = ''wk'' then Inr \<lparr>kr_id = ''wk'', kr_registered_by = ''u'', kr_status = WORKER_STATUS_ACTIVE\<rparr> else Inl ErrNotFound, w))\<rparr>"

definition accepts :: "'e validation \<times> 'w \<Rightarrow> bool" where
  "accepts r = (case r of (VAccept _ _, _) \<Rightarrow> True | _ \<Rightarrow> False)"

lemma accepts_obtain:
  assumes "accepts (ValidateBatch it pre batch internal u auth w)"
  obtains aff w' where "ValidateBatch it pre batch internal u auth w = (VAccept aff (apply_all batch pre), w')"
proof -
  obtain aff post w' where "ValidateBatch it pre batch internal u auth w = (VAccept aff post, w')"
    using assms by (auto simp: accepts_def split: prod.splits validation.splits)
  with ValidateBatch_accept(1) [OF this] that show ?thesis by simp
qed

lemma hub_accepts: "accepts (ValidateBatch sorted_range (NewState ''org'') hub_batch True [] no_auth ())"
  by code_simp

lemma tab_accepts:
  "accepts (ValidateBatch sorted_range demo_state tab_batch False ''u''
     (scopedAuthChecker (NewCRDTAuthChecker demo_store) ''ws'' None) ())"
  by code_simp

lemma demo_named: "named_batch hub_batch" "named_batch tab_batch"
  by code_simp+

lemma demo_stamped: "stamped hub_batch" "stamped tab_batch"
  unfolding stamped_def by code_simp+

lemma demo_valid: "valid_state sorted_range demo_state" "valid_state sorted_range demo_tabbed"
proof -
  obtain aff w' where "ValidateBatch sorted_range (NewState ''org'') hub_batch True [] no_auth () =
      (VAccept aff demo_state, w')"
    using accepts_obtain [OF hub_accepts] demo_state_def by metis
  from accepted_valid [OF sorted_range_order NewState_valid demo_named(1) this]
  show v: "valid_state sorted_range demo_state" .
  obtain aff w' where "ValidateBatch sorted_range demo_state tab_batch False ''u''
      (scopedAuthChecker (NewCRDTAuthChecker demo_store) ''ws'' None) () = (VAccept aff demo_tabbed, w')"
    using accepts_obtain [OF tab_accepts] demo_tabbed_def by metis
  from accepted_valid [OF sorted_range_order v demo_named(2) this] show "valid_state sorted_range demo_tabbed" .
qed

section \<open>State, trees and projection\<close>

theorem org_log_converges_witness:
  "apply_all (hub_batch @ tab_batch) (NewState ''org'') = apply_all (tab_batch @ hub_batch) (NewState ''org'')"
  by (rule org_log_converges) (code_simp, simp)

theorem tombstone_node_wins_witness:
  "\<exists>h. fmlookup (st_nodes (apply_all (demo_op 9 (TombstoneNode ''root'') # hub_batch) (NewState ''org''))) ''root'' =
      Some ((empty_node ''root'')\<lparr>nd_tombstone_at := Some h\<rparr>) \<and> Some (stamp 9) \<le> Some h"
  using tombstone_node_wins [OF NewState_ok, of "demo_op 9 (TombstoneNode ''root'') # hub_batch"
      "demo_op 9 (TombstoneNode ''root'')" "''root''" "''org''"]
  by (simp add: demo_op_def hub_batch_def stamp_def positive_def HLCCmp_def)

theorem tab_registers_latest_witness:
  "\<exists>r. fmlookup (st_tabs demo_tabbed) ''tab'' = Some r \<and>
    lww_latest (writes_of (tab_write tile_val TAB_TYPE_AGENT ''tab'') (hub_batch @ tab_batch)) (tb_tile_id r)"
proof -
  obtain r where r: "fmlookup (st_tabs (apply_all (hub_batch @ tab_batch) (NewState ''org''))) ''tab'' = Some r"
    "tab_live r" "tb_tab_type r = TAB_TYPE_AGENT"
  proof -
    have "case fmlookup (st_tabs (apply_all (hub_batch @ tab_batch) (NewState ''org''))) ''tab'' of None \<Rightarrow> False
      | Some r \<Rightarrow> tab_live r \<and> tb_tab_type r = TAB_TYPE_AGENT" by code_simp
    then show ?thesis using that by (auto split: option.splits)
  qed
  have "stamped (hub_batch @ tab_batch)" unfolding stamped_def by code_simp
  from tab_registers_latest [OF this r(1,2)] r show ?thesis
    by (auto simp: demo_tabbed_def demo_state_def apply_all_def)
qed

theorem node_registers_latest_witness:
  "\<exists>r. fmlookup (st_nodes demo_state) ''root'' = Some r \<and>
    lww_latest (writes_of (node_write kind_val ''root'') hub_batch) (nd_kind r)"
proof -
  have "case fmlookup (st_nodes (apply_all hub_batch (NewState ''org''))) ''root'' of None \<Rightarrow> False
      | Some r \<Rightarrow> node_live r" by code_simp
  then obtain r where r: "fmlookup (st_nodes (apply_all hub_batch (NewState ''org''))) ''root'' = Some r" "node_live r"
    by (auto split: option.splits)
  have "stamped hub_batch" unfolding stamped_def by code_simp
  from node_registers_latest [OF this r] r show ?thesis by (auto simp: demo_state_def)
qed

theorem prune_removes_exactly_witness:
  "fmlookup (st_nodes (fst (PruneTombstonesAtOrBelow sorted_range
      (apply_all [demo_op 3 (TombstoneNode ''root'')] demo_state) (Some (stamp 3))))) ''root'' = None"
proof -
  have "case fmlookup (st_nodes (apply_all [demo_op 3 (TombstoneNode ''root'')] demo_state)) ''root'' of
      None \<Rightarrow> True | Some r \<Rightarrow> prunable nd_tombstone_at (Some (stamp 3)) r"
    unfolding prunable_def by code_simp
  moreover have "\<not> HLCIsZero (Some (stamp 3))" by code_simp
  ultimately show ?thesis
    using prune_removes_exactly [OF sorted_range_order, of "Some (stamp 3)"
        "apply_all [demo_op 3 (TombstoneNode ''root'')] demo_state" "''root''", THEN conjunct1]
    by (auto split: option.splits)
qed

theorem resolveParentChain_iff_witness:
  "\<exists>path. climbs (fmap_of_list [(''root'', ''ws'')]) (fmap_of_list [(''leaf'', ''root'')]) ''leaf'' path ''ws''"
  using resolveParentChain_iff [of "''ws''" "fmap_of_list [(''root'', ''ws'')]" "''leaf''" "fmap_of_list [(''leaf'', ''root'')]"]
  by (auto simp: resolveParentChain_def resolve_walk.simps)

theorem subtreePostOrder_spec_witness:
  "last (subtreePostOrder (fmap_of_list [(''root'', [''a'', ''b''])]) ''root'') = ''root'' \<and>
    distinct (subtreePostOrder (fmap_of_list [(''root'', [''a'', ''b''])]) ''root'')"
  using subtreePostOrder_spec [of "''root''" "fmap_of_list [(''root'', [''a'', ''b''])]"] by simp

definition demo_view :: materialized where
  "demo_view = \<lparr>mt_nodes = st_nodes demo_state, mt_tabs = fmempty, mt_windows = fmempty,
     mt_workspaces = st_workspaces demo_state\<rparr>"

theorem FindHeirTileID_total_witness:
  "\<exists>heir. FindHeirTileID 2 sorted_range demo_view ''root'' ''root'' = Some heir"
proof -
  have k: "LiveChildrenByParent sorted_range demo_view = fmap_of_list [([], [''root''])]"
    by code_simp
  have c: "child_rel (fmap_of_list [([], [''root''])]) = {([], ''root'')}"
    by (auto simp: child_rel_def kids_def split: if_splits)
  have "acyclic {([], ''root'')}" by (auto simp: acyclic_def trancl_insert)
  moreover have "{([], ''root'')}\<^sup>* `` {''root''} = {''root''}"
    by (auto elim: converse_rtranclE)
  ultimately show ?thesis
    using FindHeirTileID_total [of sorted_range demo_view "''root''" 2 "''root''"] unfolding k c by auto
qed

theorem projectTabs_projectOneTab_witness:
  "set (snd (projectTabs sorted_range demo_tabbed (registeredRoots sorted_range demo_tabbed))) =
    {row. \<exists>i. snd (projectOneTab demo_tabbed i (registeredRoots sorted_range demo_tabbed)) = Some row}"
  using projectTabs_projectOneTab [OF sorted_range_order, of demo_tabbed "registeredRoots sorted_range demo_tabbed"] by simp

theorem Project_deterministic_witness:
  "\<exists>p. Project sorted_range demo_tabbed = Some p \<and> Project (rev o sorted_range) demo_tabbed = Some p"
proof -
  have "range_order (rev o sorted_range)" using sorted_range_order by (simp add: range_order_def)
  then show ?thesis
    using Project_deterministic [of demo_tabbed sorted_range "rev o sorted_range"] demo_valid(2) sorted_range_order
    by (simp add: valid_state_def)
qed

theorem rendered_trees_wf_witness:
  "\<exists>p wp. Project sorted_range demo_tabbed = Some p \<and> fmlookup (pj_workspaces p) ''ws'' = Some wp \<and> tree_wf (wp_main_tree wp)"
proof -
  have "case Project sorted_range demo_tabbed of None \<Rightarrow> False
      | Some p \<Rightarrow> fmlookup (pj_workspaces p) ''ws'' \<noteq> None" by code_simp
  then obtain p wp where p: "Project sorted_range demo_tabbed = Some p" "fmlookup (pj_workspaces p) ''ws'' = Some wp"
    by (auto split: option.splits)
  have "state_ok demo_tabbed" using demo_valid(2) by (simp add: valid_state_def)
  from rendered_trees_wf [OF this sorted_range_order p] p show ?thesis by blast
qed

theorem batch_access_agrees_witness:
  "{''u''} = {u \<in> set [''u'', ''v'']. fst (crdt_CanAccessWorkspace demo_store ''org'' ''ws'' u ()) = Inr True}"
  by (rule batch_access_agrees [of demo_store "''org''" "''ws''" "[''u'', ''v'']" "()" "{''u''}" "()"]) code_simp

definition demo_user :: user_info where
  "demo_user = \<lparr>ui_id = UserID ''v'', ui_credential = \<lparr>cr_kind = credentialDelegation, cr_id = ''d'',
     cr_workspace_id = ''ws'', cr_worker_id = ''wk''\<rparr>\<rparr>"

theorem delegation_scope_bounded_witness:
  "\<exists>p. workerScopePredicate (fst (fst (ResolveDelegationWorkerScope demo_store (Some demo_user) ()))) = Some p \<and>
    (\<forall>t. t \<noteq> [] \<and> p t \<longrightarrow> t = ''wk'')"
proof -
  obtain scope err w' where r: "ResolveDelegationWorkerScope demo_store (Some demo_user) () = ((scope, err), w')"
    by (metis surj_pair)
  have "IsDelegation (ui_credential demo_user)" "WorkerScopeID (ui_credential demo_user) = ''wk''"
    "fst (GetWorkerByID demo_store ''wk'' ()) = Inr \<lparr>kr_id = ''wk'', kr_registered_by = ''u'', kr_status = WORKER_STATUS_ACTIVE\<rparr>"
    "\<not> uid_Matches (ui_id demo_user) ''u''"
    by code_simp+
  then show ?thesis
    using delegation_scope_bounded [OF _ r] by (auto simp: r)
qed

theorem check_agrees_with_scope_witness:
  "fst (CheckDelegationWorkerScope demo_store (Some demo_user) ''wk'' ()) = None \<and>
   fst (CheckDelegationWorkerScope demo_store (Some demo_user) ''other'' ()) \<noteq> None"
proof -
  obtain scope where r: "ResolveDelegationWorkerScope demo_store (Some demo_user) () = ((scope, None), ())"
     and s: "scope_Allows scope ''wk''" "\<not> scope_Allows scope ''other''"
  proof -
    have "case ResolveDelegationWorkerScope demo_store (Some demo_user) () of
      ((scope, e), _) \<Rightarrow> e = None \<and> scope_Allows scope ''wk'' \<and> \<not> scope_Allows scope ''other''" by code_simp
    then show ?thesis using that by (auto split: prod.splits)
  qed
  show ?thesis
    using check_agrees_with_scope [OF r, of "''wk''"] check_agrees_with_scope [OF r, of "''other''"] s by simp
qed

theorem accepted_batch_authorized_witness:
  "owns_workspace demo_store ''org'' ''ws'' ''u'' \<and> may_use_worker demo_store ''org'' ''wk'' ''u''"
proof -
  obtain aff w' where acc: "ValidateBatch sorted_range demo_state tab_batch False ''u''
      (scopedAuthChecker (NewCRDTAuthChecker demo_store) ''ws'' None) () = (VAccept aff demo_tabbed, w')"
    using accepts_obtain [OF tab_accepts] demo_tabbed_def by metis
  let ?p = "demo_op 4 (SetTabRegister TAB_TYPE_AGENT ''tab'' (TabWorkerId ''wk''))"
  have "?p \<in> set tab_batch" by (simp add: tab_batch_def)
  note auth = accepted_batch_authorized [OF acc this]
  have "pre_workspace sorted_range demo_tabbed ?p = ''ws''" "st_org_id demo_state = ''org''"
    "\<not> IsTombstoneOp (op_body ?p)" "worker_ref (op_body ?p) = Some ''wk''"
    by code_simp+
  with auth show ?thesis by simp
qed

theorem accepted_batch_valid_witness:
  "sound_state sorted_range demo_tabbed \<and> valid_state sorted_range demo_tabbed"
proof -
  obtain aff w' where acc: "ValidateBatch sorted_range demo_state tab_batch False ''u''
      (scopedAuthChecker (NewCRDTAuthChecker demo_store) ''ws'' None) () = (VAccept aff demo_tabbed, w')"
    using accepts_obtain [OF tab_accepts] demo_tabbed_def by metis
  from accepted_batch_valid [OF sorted_range_order valid_sound [OF demo_valid(1)] acc] show ?thesis
    using demo_valid(1) demo_named(2) by blast
qed

text \<open>An operation on the empty tab id is accepted although the tab it creates has neither a tile nor
  a worker: the checks report the id of an offending record, and here that id reads as success.\<close>

definition nameless_batch :: "org_op list" where
  "nameless_batch = [demo_op 6 (SetTabRegister TAB_TYPE_AGENT empty_id (TabPosition ''a''))]"

theorem nameless_incomplete_accepted:
  "accepts (ValidateBatch sorted_range demo_state nameless_batch True [] no_auth ()) \<and>
   incomplete_at sorted_range (apply_all nameless_batch demo_state) empty_id"
proof -
  have "case fmlookup (st_tabs (apply_all nameless_batch demo_state)) empty_id of None \<Rightarrow> False | Some t \<Rightarrow> tab_incomplete t"
    by code_simp
  then have "incomplete_at sorted_range (apply_all nameless_batch demo_state) empty_id"
    unfolding incomplete_at_def by (auto split: option.splits)
  moreover have "accepts (ValidateBatch sorted_range demo_state nameless_batch True [] no_auth ())" by code_simp
  ultimately show ?thesis by blast
qed

theorem client_batch_keeps_roots_witness: "roots_alive demo_tabbed"
proof -
  obtain aff w' where acc: "ValidateBatch sorted_range demo_state tab_batch False ''u''
      (scopedAuthChecker (NewCRDTAuthChecker demo_store) ''ws'' None) () = (VAccept aff demo_tabbed, w')"
    using accepts_obtain [OF tab_accepts] demo_tabbed_def by metis
  have r: "registeredRoots sorted_range demo_state = \<lparr>rs_roots = fmap_of_list [(''root'', ''ws'')],
      rs_counts = fmap_of_list [(''root'', 1)], rs_workspace_roots = fmap_of_list [(''root'', ''ws'')], rs_window_roots = fmempty\<rparr>"
    by code_simp
  have "case fmlookup (st_nodes demo_state) ''root'' of None \<Rightarrow> False | Some n \<Rightarrow> node_live n \<and> nd_parent_id n = empty_id"
    by code_simp
  moreover have "i = ''root''" if "registers demo_state i w" for i w
    using registeredRoots_complete [OF sorted_range_order that] by (auto simp: r split: if_splits)
  ultimately have "roots_alive demo_state" unfolding roots_alive_def by (auto split: option.splits)
  from client_batch_keeps_roots [OF sorted_range_order demo_valid(1) demo_stamped(2) this acc] show ?thesis .
qed

theorem accepted_batch_set_once_witness:
  "fmlookup (st_workspaces demo_tabbed) ''ws'' = Some \<lparr>ws_workspace_id = ''ws'', ws_root_node_id = ''root''\<rparr>"
proof -
  obtain aff w' where acc: "ValidateBatch sorted_range demo_state tab_batch False ''u''
      (scopedAuthChecker (NewCRDTAuthChecker demo_store) ''ws'' None) () = (VAccept aff demo_tabbed, w')"
    using accepts_obtain [OF tab_accepts] demo_tabbed_def by metis
  have "fmlookup (st_workspaces demo_state) ''ws'' = Some \<lparr>ws_workspace_id = ''ws'', ws_root_node_id = ''root''\<rparr>"
    by code_simp
  with accepted_batch_set_once [OF demo_stamped(2) acc] show ?thesis by simp
qed

text \<open>The list with the one ratio 1 is valid; the tolerance is the double nearest to 1e-9.\<close>

lemma f64_one_sum: "f64_sum [f64_one] = f64_one"
proof -
  have "f64_encode_mag 1 = f64_one"
    by (simp add: f64_encode_mag_def floor_log2_def bitlen_def floorlog_def pow2_def round_half_even_def)
  then have "f64_of_rat False 1 = f64_one" by (simp add: f64_of_rat_def f64_set_sign_def)
  then show ?thesis using f64_one_rat by (simp add: f64_sum_def f64_add_def)
qed

lemma ratioTolerance_value: "ratioTolerance = 0x3E112E0BE826D695"
proof -
  have q: "quotient_of (1 / 1000000000) = (1, 1000000000)" "bitlen 1 = 1" "bitlen 1000000000 = 30" by code_simp+
  have "floor_log2 (1 / 1000000000) = - 30"
    by (simp add: floor_log2_def q pow2_def)
  moreover have "\<lfloor>9444732965739290427392 / 1953125 :: rat\<rfloor> = 4835703278458516" by (simp add: floor_eq_iff)
  ultimately have "f64_encode_mag (1 / 1000000000) = 0x3E112E0BE826D695"
    by (simp add: f64_encode_mag_def Let_def pow2_def round_half_even_def)
  then show ?thesis by (simp add: ratioTolerance_def f64_of_rat_def f64_set_sign_def)
qed

lemma ratioTolerance_positive: "f64_lt f64_zero ratioTolerance"
proof -
  have u: "unat ratioTolerance = 0x3E112E0BE826D695" by (simp add: ratioTolerance_value)
  have e: "f64_expo ratioTolerance = 993" "\<not> f64_sign ratioTolerance"
    by (simp_all only: f64_fields_nat u) simp_all
  then have "f64_mag ratioTolerance \<noteq> 0" by (simp add: f64_mag_zero_iff)
  then have "0 < f64_rat ratioTolerance" using e(2) f64_mag_nonneg [of ratioTolerance] by (simp add: f64_rat_def less_le)
  then show ?thesis using e by (simp add: f64_lt_def IsNaN_def IsInf_def)
qed

lemma validRatios_one: "validRatios [f64_one]"
proof -
  have "f64_sub f64_one f64_one = 0"
  proof -
    have "unat (f64_neg f64_one) = 0xBFF0000000000000" by (simp add: f64_neg_def)
    then have e: "f64_expo (f64_neg f64_one) = 1023" "f64_frac (f64_neg f64_one) = 0" "f64_sign (f64_neg f64_one)"
      by (simp_all only: f64_fields_nat) simp_all
    then have "\<not> IsNaN (f64_neg f64_one)" "\<not> IsInf (f64_neg f64_one)" "f64_rat (f64_neg f64_one) = - 1"
      by (simp_all add: IsNaN_def IsInf_def f64_rat_def f64_mag_def pow2_def)
    moreover have "\<not> f64_sign f64_one" by (simp add: f64_sign_def)
    ultimately show ?thesis using f64_one_rat by (simp add: f64_sub_def f64_add_def f64_of_rat_def f64_set_sign_def)
  qed
  moreover have "f64_finite f64_one \<and> \<not> f64_lt f64_one f64_zero"
    using f64_one_rat by (simp add: f64_finite_def f64_lt_def)
  moreover have "f64_add f64_zero f64_one = f64_one" using f64_one_sum by (simp add: f64_sum_def)
  ultimately show ?thesis using ratioTolerance_positive by (simp add: validRatios_def f64_abs_def f64_set_sign_def)
qed

definition ratio_batch :: "org_op list" where
  "ratio_batch = [demo_op 6 (SetNodeRegister ''root'' (NodeRatios [f64_one]))]"

definition demo_ratios :: org_state where
  "demo_ratios = apply_all ratio_batch demo_state"

theorem accepted_batch_domains_witness: "state_domain (apply_all tab_batch demo_ratios)"
proof -
  have "accepts (ValidateBatch sorted_range demo_ratios tab_batch False ''u''
      (scopedAuthChecker (NewCRDTAuthChecker demo_store) ''ws'' None) ())" by code_simp
  then obtain aff w' where acc: "ValidateBatch sorted_range demo_ratios tab_batch False ''u''
      (scopedAuthChecker (NewCRDTAuthChecker demo_store) ''ws'' None) () = (VAccept aff (apply_all tab_batch demo_ratios), w')"
    by (rule accepts_obtain)
  have "state_domain demo_state" by code_simp
  then have "state_domain demo_ratios"
    unfolding demo_ratios_def by (rule accepted_domain [rotated]) (simp add: ratio_batch_def demo_op_def domain_ok_def validRatios_one)
  from accepted_batch_domains [OF this acc] show ?thesis .
qed

theorem prune_invisible_witness:
  "valid_state sorted_range (fst (PruneTombstonesAtOrBelow sorted_range demo_tabbed (Some (stamp 9))))"
  using prune_invisible [OF sorted_range_order demo_valid(2)] by blast





end
