(* ===== verification/HubWitnesses.thy ===== *)
theory HubWitnesses
  imports Recovery Witnesses
begin

text \<open>
  The properties of the manager and of what surrounds it at concrete inputs: a hub over a
  database without faults, whose codec keeps values as they are, creates the example workspace.
\<close>

section \<open>A hub\<close>

text \<open>Powers as literals, for evaluation.\<close>

lemma wrap64_code [code]: "wrap64 x = (x + 9223372036854775808) mod 18446744073709551616 - 9223372036854775808"
  by (simp add: wrap64_def)

lemma duration_code [code]: "DedupTTL = 1209600000000000" "UnixMilli t = t div 1000000" "PresenceClearGrace = 60000000000"
  by (simp_all add: DedupTTL_def UnixMilli_def PresenceClearGrace_def)

definition demo_codec :: "(org_state + op_batch, op_batch) codec" where
  "demo_codec = \<lparr>cd_batch = (\<lambda>b. Some (Inr b)), cd_unbatch = (\<lambda>x. case x of Inr b \<Rightarrow> Some b | Inl _ \<Rightarrow> None),
     cd_state = (\<lambda>s. Some (Inl s)), cd_unstate = (\<lambda>x. case x of Inl s \<Rightarrow> Some s | Inr _ \<Rightarrow> None),
     cd_hash_batch = (\<lambda>b. Some (Inr b)), cd_sha = (\<lambda>x. case x of Inr b \<Rightarrow> b | Inl _ \<Rightarrow> \<lparr>batch_id = [], batch_ops = []\<rparr>)\<rparr>"

lemma demo_codec_ok: "codec_ok demo_codec"
  by (simp add: codec_ok_def demo_codec_def)

definition demo_env :: "((org_state + op_batch, op_batch) hub_db, unit, op_batch, op_batch, unit) manager_env" where
  "demo_env = \<lparr>env_it = sorted_range, env_itr = (\<lambda>_ _. [EntityNode ''root'']), env_journal = NewCRDTJournal (\<lambda>_. None) demo_codec,
     env_auth = no_auth, env_auth_many = None, env_now = (\<lambda>n. 2000000000 + int n), env_gen = (\<lambda>_. ''gen''),
     env_marshal = Some, env_sha = id\<rparr>"

lemma demo_env_fields: "env_journal demo_env = NewCRDTJournal (\<lambda>_. None) demo_codec" "env_it demo_env = sorted_range"
  "range_order (env_it demo_env)"
  by (simp_all add: demo_env_def sorted_range_order)

definition demo_db :: "(org_state + op_batch, op_batch) hub_db" where
  "demo_db = \<lparr>db_org_state = fmempty, db_batches = [], db_recent = fmempty, db_owned = (\<lambda>_. None), db_rendered = (\<lambda>_. None), db_calls = 0\<rparr>"

definition demo_input :: submit_input where
  "demo_input = \<lparr>in_org_id = ''org'', in_epoch = 1, in_batches = [\<lparr>batch_id = ''b1'', batch_ops = hub_batch\<rparr>], in_principal = ''hub'',
     in_origin = ''hub-client'', in_workspace_scope = empty_id, in_worker_scope = None, in_internal = True\<rparr>"

definition booted :: "('e db_error option \<times> ('j, 'w) manager) option \<Rightarrow> bool" where
  "booted r = (case r of Some (None, _) \<Rightarrow> True | _ \<Rightarrow> False)"

definition manager_of :: "('e db_error option \<times> ('j, 'w) manager) option \<Rightarrow> ('j, 'w) manager \<Rightarrow> ('j, 'w) manager" where
  "manager_of r m = (case r of Some (_, m') \<Rightarrow> m' | None \<Rightarrow> m)"

definition demo_m0 :: "((org_state + op_batch, op_batch) hub_db, unit) manager" where
  "demo_m0 = manager_of (Bootstrap demo_env (NewManager ''org'' demo_db ())) (NewManager ''org'' demo_db ())"

definition demo_m1 :: "((org_state + op_batch, op_batch) hub_db, unit) manager" where
  "demo_m1 = snd (SubmitInternal demo_env demo_input demo_m0)"

lemma booted_manager: "booted r \<Longrightarrow> r = Some (None, manager_of r m)"
  by (auto simp: booted_def manager_of_def split: option.splits prod.splits)

lemma demo_boots: "booted (Bootstrap demo_env (NewManager ''org'' demo_db ()))"
  by code_simp

lemma demo_reach0: "org_reachable demo_env ''org'' demo_m0"
proof (rule org_reachable.start)
  show "fresh_org ''org'' demo_db" by (simp add: fresh_org_def demo_db_def)
  show "Bootstrap demo_env (NewManager ''org'' demo_db ()) = Some (None, demo_m0)"
    unfolding demo_m0_def by (rule booted_manager [OF demo_boots])
qed

lemma demo_clock: "mg_clock demo_m0 = NewClock ''hub-canonical''"
  by code_simp

lemma demo_room: "room_for demo_input demo_m0" "clock_room 2 (mg_clock demo_m0)"
  by (simp_all add: room_for_def clock_room_def demo_clock NewClock_def is_int64_def demo_input_def hub_batch_def)

lemma demo_reach1: "org_reachable demo_env ''org'' demo_m1"
  by (rule org_reachable.step [OF demo_reach0 org_step.internal [OF demo_room(1), where r = "fst (SubmitInternal demo_env demo_input demo_m0)"]])
     (simp add: demo_m1_def)

text \<open>The pipeline, one stage at a time.\<close>

lemma processBatch_commits:
  assumes "batch_id b \<noteq> empty_id" "batch_ops b \<noteq> []" "runDedup env inp b m = (DedupMiss, m1)"
    "mint_ops (env_gen env) (in_origin inp) (UnixMilli (env_now env (ex_reads m1))) (batch_ops b) (ex_gen m1) (mg_clock m1) = (ops, n, c)"
    "ValidateBatch (env_it env) (mg_state m1) ops (in_internal inp) (in_principal inp)
        (scopedAuthChecker (env_auth env) (in_workspace_scope inp) (in_worker_scope inp)) (ex_auth m1) = (VAccept aff working, w)"
    "fst (commit env inp (b\<lparr>batch_ops := ops\<rparr>) working (m1\<lparr>ex_reads := Suc (ex_reads m1), ex_gen := n, mg_clock := c, ex_auth := w\<rparr>)) = None"
  shows "\<exists>res m' ids h e. processBatch env inp b m = (Inr res, m') \<and> res_outcome res = Committed ids h e"
proof -
  obtain m5 where "commit env inp (b\<lparr>batch_ops := ops\<rparr>) working (m1\<lparr>ex_reads := Suc (ex_reads m1), ex_gen := n, mg_clock := c, ex_auth := w\<rparr>) = (None, m5)"
    using assms(6) by (metis prod.collapse)
  then show ?thesis using assms(1-5) by (simp add: processBatch_def read_now_def Let_def)
qed

definition demo_batch :: op_batch where
  "demo_batch = \<lparr>batch_id = ''b1'', batch_ops = hub_batch\<rparr>"

definition demo_ops :: "org_op list" where
  "demo_ops = fst (mint_ops (\<lambda>_. ''gen'') ''hub-client'' 2000 hub_batch 0 (NewClock ''hub-canonical''))"

lemma demo_m0_fields: "mg_org_id demo_m0 = ''org''" "ex_reads demo_m0 = 1" "ex_gen demo_m0 = 0" "mg_state demo_m0 = NewState ''org''"
    "db_recent (ex_journal demo_m0) = fmempty" "ex_auth demo_m0 = ()"
  by code_simp+

definition demo_looked :: "((org_state + op_batch, op_batch) hub_db, unit) manager" where
  "demo_looked = demo_m0\<lparr>ex_journal := (ex_journal demo_m0)\<lparr>db_calls := Suc (db_calls (ex_journal demo_m0))\<rparr>\<rparr>"

lemma demo_dedup: "runDedup demo_env demo_input demo_batch demo_m0 = (DedupMiss, demo_looked)"
  by (simp add: runDedup_cases demo_env_def NewCRDTJournal_def LookupRecentBatchID_def GetRecentBatchID_def db_call_def Let_def
      demo_m0_fields demo_looked_def)

lemma demo_minted: "mint_ops (env_gen demo_env) (in_origin demo_input) (UnixMilli (env_now demo_env (ex_reads demo_looked))) (batch_ops demo_batch)
    (ex_gen demo_looked) (mg_clock demo_looked) = (demo_ops, 0, \<lparr>clock_client = ''hub-canonical'', maxPhys = 2000, maxLog = 1\<rparr>)"
proof -
  have "UnixMilli (env_now demo_env 1) = 2000" by code_simp
  moreover have "mint_ops (\<lambda>_. ''gen'') ''hub-client'' 2000 hub_batch 0 (NewClock ''hub-canonical'') =
      (demo_ops, 0, \<lparr>clock_client = ''hub-canonical'', maxPhys = 2000, maxLog = 1\<rparr>)" by code_simp
  ultimately show ?thesis
    by (simp add: demo_looked_def demo_m0_fields demo_clock demo_batch_def) (simp add: demo_env_def demo_input_def)
qed

lemma demo_ops_accepts: "accepts (ValidateBatch sorted_range (NewState ''org'') demo_ops True ''hub'' (scopedAuthChecker no_auth empty_id None) ())"
  by code_simp

lemma demo_commit: "fst (commit demo_env demo_input (demo_batch\<lparr>batch_ops := demo_ops\<rparr>) (apply_all demo_ops (NewState ''org''))
    (demo_looked\<lparr>ex_reads := Suc (ex_reads demo_looked), ex_gen := 0, mg_clock := \<lparr>clock_client = ''hub-canonical'', maxPhys = 2000, maxLog = 1\<rparr>,
      ex_auth := ()\<rparr>)) = None"
  by code_simp

lemma demo_committed: "\<exists>res m' ids h e. processBatch demo_env demo_input demo_batch demo_m0 = (Inr res, m') \<and> res_outcome res = Committed ids h e"
proof -
  obtain aff w where "ValidateBatch sorted_range (NewState ''org'') demo_ops True ''hub'' (scopedAuthChecker no_auth empty_id None) () =
      (VAccept aff (apply_all demo_ops (NewState ''org'')), w)"
    by (rule accepts_obtain [OF demo_ops_accepts])
  then have val: "ValidateBatch (env_it demo_env) (mg_state demo_looked) demo_ops (in_internal demo_input) (in_principal demo_input)
      (scopedAuthChecker (env_auth demo_env) (in_workspace_scope demo_input) (in_worker_scope demo_input)) (ex_auth demo_looked) =
      (VAccept aff (apply_all demo_ops (NewState ''org'')), ())"
    by (simp add: demo_env_def demo_input_def demo_looked_def demo_m0_fields)
  show ?thesis
    by (rule processBatch_commits [OF _ _ demo_dedup demo_minted val demo_commit]) (simp_all add: demo_batch_def hub_batch_def)
qed

section \<open>The manager\<close>

lemmas demo_system = demo_env_fields(1) demo_codec_ok demo_env_fields(3)

theorem restart_recovers_witness: "Bootstrap demo_env (NewManager ''org'' (ex_journal demo_m1) ()) \<noteq> None"
  using restart_recovers [OF demo_system demo_reach1, of "()"] by blast

theorem restart_succeeds_witness:
  "\<exists>m'. Bootstrap demo_env (NewManager ''org'' (ex_journal demo_m1) ()) = Some (None, m') \<and> mg_state m' = mg_state demo_m1"
  by (rule restart_succeeds [OF demo_system demo_reach1])

theorem org_reachable_invariant_witness: "sound_state sorted_range (mg_state demo_m1)"
  using org_reachable_invariant [OF demo_system demo_reach1] by (simp add: demo_env_fields)

theorem failed_batch_no_trace_witness:
  "mg_state (snd (processBatch demo_env demo_input \<lparr>batch_id = ''b2'', batch_ops = []\<rparr> demo_m0)) = mg_state demo_m0"
proof -
  let ?b = "\<lparr>batch_id = ''b2'', batch_ops = []\<rparr>"
  have p: "processBatch demo_env demo_input ?b demo_m0 = (Inr (rejectBatch ?b VALUE_DOMAIN empty_id), demo_m0)"
    by (simp add: processBatch_def)
  from failed_batch_no_trace [OF demo_system demo_reach0 _ p] clock_room_less [OF demo_room(2), of 0] show ?thesis
    by (simp add: p batch_failed_def rejectBatch_def)
qed

lemma hub_batch_length: "length hub_batch = 2"
  by (simp add: hub_batch_def)

theorem committed_batch_effect_witness:
  "\<exists>ops aff first w w' res m'. processBatch demo_env demo_input demo_batch demo_m0 = (Inr res, m') \<and> map op_body ops = map op_body hub_batch \<and>
     st_max_hlc (mg_state demo_m0) < Some first \<and> mg_state m' = apply_all ops (mg_state demo_m0) \<and>
     ValidateBatch (env_it demo_env) (mg_state demo_m0) ops (in_internal demo_input) (in_principal demo_input)
       (scopedAuthChecker (env_auth demo_env) (in_workspace_scope demo_input) (in_worker_scope demo_input)) w = (VAccept aff (mg_state m'), w')"
proof -
  obtain res m' ids h e where p: "processBatch demo_env demo_input demo_batch demo_m0 = (Inr res, m')" "res_outcome res = Committed ids h e"
    using demo_committed by blast
  have b: "clock_room (length (batch_ops demo_batch)) (mg_clock demo_m0)"
    using demo_room(2) by (simp add: demo_batch_def hub_batch_length)
  have none: "fmlookup (db_recent (ex_journal demo_m0)) (''org'', batch_id demo_batch) = None" by (simp add: demo_m0_fields)
  have ops: "batch_ops demo_batch = hub_batch" by (simp add: demo_batch_def)
  from committed_batch_effect [OF demo_system demo_reach0 b p none] show ?thesis
    unfolding ops using p(1) by (elim exE conjE) (intro exI conjI; assumption)
qed

definition demo_sub :: subscriber where
  "demo_sub = \<lparr>sub_user = ''u'', sub_client = ''c1'', sub_requested = None, sub_scope = empty_id,
     sub_filter = \<lparr>WorkspaceIDs = Some (fmupd ''ws'' True fmempty)\<rparr>, sub_send = ''stream''\<rparr>"

text \<open>The batch is sent again after a subscriber has left.\<close>

theorem retry_idempotent_witness:
  "\<exists>res m1 r m3. processBatch demo_env demo_input demo_batch demo_m0 = (Inr res, m1) \<and>
     processBatch demo_env demo_input demo_batch (unsub sorted_range 0 ''p'' demo_sub m1) = (r, m3) \<and> mg_state m3 = mg_state m1"
proof -
  obtain res m1 ids h e where p: "processBatch demo_env demo_input demo_batch demo_m0 = (Inr res, m1)" "res_outcome res = Committed ids h e"
    using demo_committed by blast
  let ?m2 = "unsub sorted_range 0 ''p'' demo_sub m1"
  obtain r m3 where q: "processBatch demo_env demo_input (demo_batch\<lparr>batch_ops := batch_ops demo_batch\<rparr>) ?m2 = (r, m3)" by fastforce
  have b: "clock_room (length (batch_ops demo_batch)) (mg_clock demo_m0)"
    using demo_room(2) by (simp add: demo_batch_def hub_batch_length)
  have none: "fmlookup (db_recent (ex_journal demo_m0)) (''org'', batch_id demo_batch) = None" by (simp add: demo_m0_fields)
  have run: "(org_step demo_env ''org'' 0)\<^sup>*\<^sup>* m1 ?m2"
    using org_step.unsubscribe [of demo_env "''org''" 0 m1 0 "''p''" demo_sub] by (simp add: demo_env_fields)
  have "0 \<le> env_now demo_env (Suc (ex_reads demo_m0)) + DedupTTL" by (simp add: demo_env_def DedupTTL_def)
  from retry_idempotent [OF demo_system demo_reach0 b p none run this refl refl q] have "mg_state m3 = mg_state m1"
    by (simp add: unsub_def)
  then show ?thesis using p(1) q by auto
qed

theorem housekeeping_invisible_witness: "same_live (mg_state (tickHousekeeping demo_env demo_m1)) (mg_state demo_m1)"
  using housekeeping_invisible [OF demo_system demo_reach1, of empty_id] by blast

theorem epoch_never_advances_witness: "currentEpoch demo_m1 = 1"
  using epoch_never_advances [OF demo_system demo_reach1] by blast

section \<open>Subscribers\<close>

definition demo_aff :: transitions where
  "demo_aff = fmupd (EntityNode ''root'') (''ws'', ''ws'') fmempty"

definition demo_event :: watch_event where
  "demo_event = EvBatch \<lparr>batch_id = ''b1'', batch_ops = [demo_op 1 (SetNodeRegister ''root'' (NodeKindField NODE_KIND_LEAF))]\<rparr>"

definition demo_ctl :: subscriber_controller where
  "demo_ctl = snd (ctl_Add sorted_range ''p'' demo_sub newSubscriberController)"

lemma demo_delivery:
  "(''stream'', demo_event) \<in> set (broadcastBatch (\<lambda>_ _. []) [demo_sub] demo_state demo_batch demo_aff)"
  "(''stream'', demo_event) \<in> set (broadcastBatch (\<lambda>_ _. []) (Snapshot demo_ctl) demo_state demo_batch demo_aff)"
  by code_simp+

theorem broadcastBatch_no_leak_witness: "event_admitted demo_state demo_batch demo_aff (sub_filter demo_sub) demo_event"
  using broadcastBatch_no_leak [OF demo_delivery(1)] by simp

lemma demo_sub_bounded: "bounded demo_sub"
  by (auto simp: bounded_def filter_is_set_def demo_sub_def subscriberMaySeeWorkspace_def split: if_splits)

theorem deliveries_within_bounds_witness:
  "\<exists>sub \<in> set (Snapshot demo_ctl). event_admitted demo_state demo_batch demo_aff (sub_filter sub) demo_event"
proof -
  have "(ctl_step sorted_range (crdt_auth demo_store) ''org'')\<^sup>*\<^sup>* newSubscriberController demo_ctl"
    unfolding demo_ctl_def by (intro r_into_rtranclp ctl_step.connect demo_sub_bounded)
  from deliveries_within_bounds [OF sorted_range_order this demo_delivery(2)] show ?thesis by blast
qed

lemma demo_ctl_ok: "ctl_ok demo_ctl"
proof -
  have "(ctl_step sorted_range (crdt_auth demo_store) ''org'')\<^sup>*\<^sup>* newSubscriberController demo_ctl"
    unfolding demo_ctl_def by (intro r_into_rtranclp ctl_step.connect demo_sub_bounded)
  from ctl_reachable_bounded [OF sorted_range_order this] show ?thesis by (simp add: ctl_bounded_def)
qed

theorem ExpandSubscribers_exact_witness:
  "\<exists>c'. ExpandSubscribersForWorkspace sorted_range (crdt_auth demo_store) ''org'' ''ws'' demo_ctl () = (None, c', ()) \<and>
    (\<exists>s'. fmlookup (ctl_subs c') ''p'' = Some (s', s') \<and> IsAllowed (sub_filter s') ''ws'')"
proof -
  have "fst (ExpandSubscribersForWorkspace sorted_range (crdt_auth demo_store) ''org'' ''ws'' demo_ctl ()) = None" by code_simp
  then obtain c' where run: "ExpandSubscribersForWorkspace sorted_range (crdt_auth demo_store) ''org'' ''ws'' demo_ctl () = (None, c', ())"
    by (cases "ExpandSubscribersForWorkspace sorted_range (crdt_auth demo_store) ''org'' ''ws'' demo_ctl ()") auto
  have s: "fmlookup (ctl_subs demo_ctl) ''p'' = Some (demo_sub, demo_sub)" by code_simp
  have "IsAllowed (sub_filter demo_sub) ''ws''" by code_simp
  with ExpandSubscribers_exact [OF sorted_range_order demo_ctl_ok _ run s] run show ?thesis by auto
qed

lemma demo_roots: "st_workspaces demo_state = fmupd ''ws'' \<lparr>ws_workspace_id = ''ws'', ws_root_node_id = ''root''\<rparr> fmempty"
    "st_windows demo_state = fmempty"
  by code_simp+

lemma demo_root_node: "case fmlookup (st_nodes demo_state) ''root'' of None \<Rightarrow> False | Some n \<Rightarrow> node_live n \<and> nd_parent_id n = empty_id"
  by code_simp

lemma demo_roots_alive: "roots_alive demo_state"
proof -
  obtain n where "fmlookup (st_nodes demo_state) ''root'' = Some n" "node_live n" "nd_parent_id n = empty_id"
    using demo_root_node by (auto split: option.splits)
  then show ?thesis
    by (auto simp: roots_alive_def registers.simps demo_roots split: if_splits)
qed

theorem materialized_matches_filter_witness:
  "fmlookup (mt_workspaces (materializedLocked sorted_range demo_state (sub_filter demo_sub))) ''ws'' =
     Some \<lparr>ws_workspace_id = ''ws'', ws_root_node_id = ''root''\<rparr>"
proof -
  have "IsAllowed (sub_filter demo_sub) ''ws''" by code_simp
  then show ?thesis
    using materialized_matches_filter [OF sorted_range_order demo_valid(1) demo_roots_alive, of "sub_filter demo_sub"] by (simp add: demo_roots)
qed

definition demo_reader :: user_info where
  "demo_reader = \<lparr>ui_id = UserID ''u'', ui_credential = \<lparr>cr_kind = credentialDelegation, cr_id = ''d'',
     cr_workspace_id = ''ws'', cr_worker_id = ''wk''\<rparr>\<rparr>"

theorem stream_filter_bounded_witness:
  "bounded (stream_subscriber demo_reader ''c1'' [''ws''] ''stream'' (fmupd ''ws'' True fmempty))"
proof -
  have "(case fst (resolveAllowedWorkspacesSetForUser (\<lambda>_ _ w. (Inr [], w)) demo_store (OrgBound ''org'') [''ws''] (Some demo_reader) ()) of
      Inr m \<Rightarrow> m = fmupd ''ws'' True fmempty | Inl _ \<Rightarrow> False)" by code_simp
  then have r: "resolveAllowedWorkspacesSetForUser (\<lambda>_ _ w. (Inr [], w)) demo_store (OrgBound ''org'') [''ws''] (Some demo_reader) () =
      (Inr (fmupd ''ws'' True fmempty), ())"
    by (auto split: sum.splits intro: prod_eqI)
  show ?thesis by (rule stream_filter_bounded [OF r]) (simp add: demo_reader_def IsDelegation_def)
qed

section \<open>Presence\<close>

definition demo_connected :: presence_ctl where
  "demo_connected = snd (presence_turn sorted_range 1 (PresenceJob ''ws'' ''c'') (OnConnect ''c'' (newPresenceController 60)))"

definition demo_left :: presence_ctl where
  "demo_left = timers_fire 70 (OnDisconnect 5 ''c'' demo_connected)"

theorem presence_announced_witness: "\<exists>view. presence_run sorted_range 60 demo_connected view \<and> view ''ws'' = ''c''"
proof -
  obtain as where t: "presence_turn sorted_range 1 (PresenceJob ''ws'' ''c'') (OnConnect ''c'' (newPresenceController 60)) = (as, demo_connected)"
    unfolding demo_connected_def by (metis prod.collapse)
  have run: "presence_run sorted_range 60 demo_connected (announce as (\<lambda>_. empty_id))"
    by (rule presence_run.turn [OF presence_run.on_connect [OF presence_run.init] t]) simp_all
  have "Active sorted_range (pc_tracker demo_connected) ''ws'' = ''c''" by code_simp
  with presence_announced [OF sorted_range_order run, of "''ws''"] run show ?thesis by auto
qed

theorem clear_spares_connected_witness:
  "\<exists>n. conn_run sorted_range 60 demo_left n \<and> n ''c'' = 0 \<and> \<not> (\<exists>c'. n c' > 0)"
proof -
  let ?n = "((\<lambda>_. 0)(''c'' := Suc 0))(''c'' := 0) :: ident \<Rightarrow> nat"
  obtain as where t: "presence_turn sorted_range 1 (PresenceJob ''ws'' ''c'') (OnConnect ''c'' (newPresenceController 60)) = (as, demo_connected)"
    unfolding demo_connected_def by (metis prod.collapse)
  have "conn_run sorted_range 60 (OnConnect ''c'' (newPresenceController 60)) ((\<lambda>_. 0)(''c'' := Suc 0))"
    using conn_run.open_conn [OF conn_run.init, of "''c''" sorted_range 60] by simp
  from conn_run.fire [OF conn_run.close_conn [OF conn_run.turn [OF this t], of "''c''" 0 5], of 70]
  have run: "conn_run sorted_range 60 demo_left ?n" by (simp add: demo_left_def)
  obtain ch p' where p: "processClear sorted_range ''c'' demo_left = (ch, p')" by fastforce
  have "Active sorted_range (pc_tracker (snd (processClear sorted_range ''c'' demo_left))) ''ws'' \<noteq> Active sorted_range (pc_tracker demo_left) ''ws''"
    by code_simp
  then have "pc_tracker p' \<noteq> pc_tracker demo_left" using p by auto
  from clear_spares_connected [OF run p this] run show ?thesis by auto
qed

end
