(* ===== verification/ChannelWire.thy ===== *)
theory ChannelWire
  imports Prelude "HOL-Library.Word"
begin

text \<open>
  The wire format of the end-to-end encrypted channel (backend/channelwire): length-prefixed
  frames, the split of a message into encrypted chunks, the buffer in which a receiver collects
  them, and the tracker with which the hub polices chunks it cannot decrypt
  (backend/internal/hub/channelmgr/chunker.go). The websocket, the cipher of the session and the
  protobuf encoding are parameters.
\<close>

unbundle bit_operations_syntax

type_synonym byte = "8 word"
type_synonym bytes = "byte list"
type_synonym corr_id = "64 word"

section \<open>Constants\<close>

definition NoiseAEADAuthTagSize :: nat where
  "NoiseAEADAuthTagSize = 16"

definition MaxCiphertextForChunk :: nat where
  "MaxCiphertextForChunk = 65535"

definition MaxPlaintextPerChunk :: nat where
  "MaxPlaintextPerChunk = MaxCiphertextForChunk - NoiseAEADAuthTagSize"

definition MaxInnerPayloadBytes :: nat where
  "MaxInnerPayloadBytes = 16 * 1024 * 1024"

definition InnerEnvelopeHeadroom :: nat where
  "InnerEnvelopeHeadroom = 1024 * 1024"

definition DefaultMaxMessageSize :: nat where
  "DefaultMaxMessageSize = MaxInnerPayloadBytes + InnerEnvelopeHeadroom"

definition DefaultMaxIncompleteChunked :: nat where
  "DefaultMaxIncompleteChunked = 4"

lemma chunk_size_pos [simp]: "0 < MaxPlaintextPerChunk"
  by (simp add: MaxPlaintextPerChunk_def MaxCiphertextForChunk_def NoiseAEADAuthTagSize_def)

section \<open>Frames\<close>

definition PutUint32 :: "32 word \<Rightarrow> bytes" where
  "PutUint32 v = [ucast (drop_bit 24 v), ucast (drop_bit 16 v), ucast (drop_bit 8 v), ucast v]"

fun GetUint32 :: "bytes \<Rightarrow> 32 word" where
  "GetUint32 (a # b # c # d # _) = push_bit 24 (ucast a) OR push_bit 16 (ucast b) OR push_bit 8 (ucast c) OR ucast d"
| "GetUint32 _ = 0"

text \<open>What is handed to the websocket, and what is made of a message read from it.\<close>

definition WriteFramedBytes :: "bytes \<Rightarrow> bytes" where
  "WriteFramedBytes payload = PutUint32 (of_nat (length payload)) @ payload"

datatype frame_error = FrameTooShort nat | FrameLengthMismatch nat nat

definition ReadFramedBytes :: "bytes \<Rightarrow> frame_error + bytes" where
  "ReadFramedBytes data =
     (if length data < 4 then Inl (FrameTooShort (length data))
      else let len = unat (GetUint32 data) in
        if len \<noteq> length data - 4 then Inl (FrameLengthMismatch len (length data - 4))
        else Inr (drop 4 data))"

section \<open>Chunks\<close>

text \<open>The flags are an open enumeration: any 32-bit integer may arrive.\<close>

definition FLAGS_UNSPECIFIED :: int where "FLAGS_UNSPECIFIED = 0"
definition FLAGS_MORE :: int where "FLAGS_MORE = 1"
definition FLAGS_CLOSE :: int where "FLAGS_CLOSE = 2"

definition ChunkContinuation :: "int \<Rightarrow> bool \<times> bool" where
  "ChunkContinuation flags = (if flags = FLAGS_MORE then (True, True)
     else if flags = FLAGS_UNSPECIFIED \<or> flags = FLAGS_CLOSE then (False, True) else (False, False))"

record channel_message =
  cm_version :: int
  cm_channel :: ident
  cm_corr :: corr_id
  cm_flags :: int
  cm_ciphertext :: bytes

datatype ('x, 'y) send_error = EncryptFailed 'x | SendFailed 'y

text \<open>The loop of the sender. \<open>encrypt\<close> and \<open>send\<close> act on the world: the state of the cipher and
  the connection.\<close>

function send_loop :: "(bytes \<Rightarrow> 'w \<Rightarrow> ('x + bytes) \<times> 'w) \<Rightarrow> ident \<Rightarrow> corr_id \<Rightarrow> bytes \<Rightarrow>
    (channel_message \<Rightarrow> 'w \<Rightarrow> 'y option \<times> 'w) \<Rightarrow> nat \<Rightarrow> 'w \<Rightarrow> ('x, 'y) send_error option \<times> 'w" where
  "send_loop encrypt channelID corr plaintext send offset w =
     (let stop0 = offset + MaxPlaintextPerChunk;
          more = \<not> stop0 \<ge> length plaintext;
          stop = (if more then stop0 else length plaintext) in
      case encrypt (take (stop - offset) (drop offset plaintext)) w of
        (Inl e, w1) \<Rightarrow> (Some (EncryptFailed e), w1)
      | (Inr ciphertext, w1) \<Rightarrow>
          (case send \<lparr>cm_version = 1, cm_channel = channelID, cm_corr = corr,
                      cm_flags = (if more then FLAGS_MORE else FLAGS_UNSPECIFIED), cm_ciphertext = ciphertext\<rparr> w1 of
             (Some e, w2) \<Rightarrow> (Some (SendFailed e), w2)
           | (None, w2) \<Rightarrow> if \<not> more then (None, w2) else send_loop encrypt channelID corr plaintext send stop w2))"
  by pat_completeness auto
termination
  by (relation "measure (\<lambda>(_, _, _, plaintext, _, offset, _). length plaintext - offset)")
     (use chunk_size_pos in \<open>auto simp del: chunk_size_pos\<close>)

definition SendChannelFrames :: "(bytes \<Rightarrow> 'w \<Rightarrow> ('x + bytes) \<times> 'w) \<Rightarrow> ident \<Rightarrow> corr_id \<Rightarrow> bytes \<Rightarrow>
    (channel_message \<Rightarrow> 'w \<Rightarrow> 'y option \<times> 'w) \<Rightarrow> 'w \<Rightarrow> ('x, 'y) send_error option \<times> 'w" where
  "SendChannelFrames encrypt channelID corr plaintext send w = send_loop encrypt channelID corr plaintext send 0 w"

declare send_loop.simps [simp del]

section \<open>The buffer of a receiver\<close>

record chunk_buffer =
  Parts :: "bytes list"
  Total :: nat
  Poisoned :: bool

definition empty_buffer :: chunk_buffer where
  "empty_buffer = \<lparr>Parts = [], Total = 0, Poisoned = False\<rparr>"

definition Poison :: "chunk_buffer \<Rightarrow> chunk_buffer" where
  "Poison b = b\<lparr>Poisoned := True, Parts := [], Total := 0\<rparr>"

definition AppendChunk :: "bytes \<Rightarrow> nat \<Rightarrow> chunk_buffer \<Rightarrow> nat \<times> bool \<times> chunk_buffer" where
  "AppendChunk chunk limit b =
     (let b' = b\<lparr>Parts := Parts b @ [chunk], Total := Total b + length chunk\<rparr> in (Total b', Total b' > limit, b'))"

definition Join :: "chunk_buffer \<Rightarrow> bytes" where
  "Join b = concat (Parts b)"

type_synonym buffers = "(corr_id, chunk_buffer) fmap"

definition buffer_list :: "buffers \<Rightarrow> chunk_buffer list" where
  "buffer_list m = map (\<lambda>k. the (fmlookup m k)) (sorted_list_of_fset (fmdom m))"

definition CountByState :: "buffers \<Rightarrow> nat \<times> nat" where
  "CountByState m = fold (\<lambda>b (live, tombstones). if Poisoned b then (live, Suc tombstones) else (Suc live, tombstones))
     (buffer_list m) (0, 0)"

section \<open>The tracker of the hub\<close>

record chunk_state =
  sequences :: "(corr_id, nat) fmap"
  inProgressID :: corr_id

type_synonym tracked = "(ident, (ident, chunk_state) fmap) fmap"

datatype track_error = InvalidCorrelation | CiphertextTooLarge nat | ChunkInterleaving corr_id corr_id | MessageTooLarge nat

abbreviation dirs_of :: "tracked \<Rightarrow> ident \<Rightarrow> (ident, chunk_state) fmap" where
  "dirs_of ct ch \<equiv> get_or fmempty id (fmlookup ct ch)"

definition put_state :: "ident \<Rightarrow> ident \<Rightarrow> chunk_state \<Rightarrow> tracked \<Rightarrow> tracked" where
  "put_state ch dir st ct = fmupd ch (fmupd dir st (dirs_of ct ch)) ct"

definition cleanupEmpty :: "ident \<Rightarrow> ident \<Rightarrow> tracked \<Rightarrow> tracked" where
  "cleanupEmpty ch dir ct = (case fmlookup ct ch of None \<Rightarrow> ct
     | Some dirs \<Rightarrow>
         let dirs' = (case fmlookup dirs dir of None \<Rightarrow> dirs
                      | Some st \<Rightarrow> if sequences st = fmempty then fmdrop dir dirs else dirs)
         in if dirs' = fmempty then fmdrop ch ct else fmupd ch dirs' ct)"

definition accumulate :: "nat \<Rightarrow> ident \<Rightarrow> ident \<Rightarrow> chunk_state \<Rightarrow> nat \<Rightarrow> corr_id \<Rightarrow> nat \<Rightarrow> tracked \<Rightarrow>
    track_error option \<times> chunk_state \<times> tracked" where
  "accumulate maxMessageSize ch dir st seen corr ciphertextLen ct =
     (let size = seen + (ciphertextLen - NoiseAEADAuthTagSize) in
      if size > maxMessageSize then
        let st' = st\<lparr>sequences := fmdrop corr (sequences st), inProgressID := (if inProgressID st = corr then 0 else inProgressID st)\<rparr>
        in (Some (MessageTooLarge size), st', cleanupEmpty ch dir (put_state ch dir st' ct))
      else let st' = st\<lparr>sequences := fmupd corr size (sequences st)\<rparr> in (None, st', put_state ch dir st' ct))"

definition Track :: "nat \<Rightarrow> ident \<Rightarrow> ident \<Rightarrow> corr_id \<Rightarrow> nat \<Rightarrow> bool \<Rightarrow> tracked \<Rightarrow> track_error option \<times> tracked" where
  "Track maxMessageSize ch dir corr ciphertextLen cont ct =
     (if corr = 0 then (Some InvalidCorrelation, ct)
      else if ciphertextLen > MaxCiphertextForChunk then (Some (CiphertextTooLarge ciphertextLen), ct)
      else if \<not> cont then
        (case fmlookup ct ch of None \<Rightarrow> (None, ct)
         | Some dirs \<Rightarrow> (case fmlookup dirs dir of None \<Rightarrow> (None, ct)
             | Some st \<Rightarrow>
                 let finish = (\<lambda>st. let st' = (if inProgressID st = corr then st\<lparr>inProgressID := 0\<rparr> else st) in
                       (None, cleanupEmpty ch dir (put_state ch dir st' ct))) in
                 (case fmlookup (sequences st) corr of None \<Rightarrow> finish st
                  | Some seen \<Rightarrow> (case accumulate maxMessageSize ch dir st seen corr ciphertextLen ct of
                        (Some e, st', ct') \<Rightarrow> (Some e, ct')
                      | (None, st', ct') \<Rightarrow> finish (st'\<lparr>sequences := fmdrop corr (sequences st')\<rparr>)))))
      else
        let st = get_or \<lparr>sequences = fmempty, inProgressID = 0\<rparr> id (fmlookup (dirs_of ct ch) dir) in
        (case fmlookup (sequences st) corr of
           Some seen \<Rightarrow> (case accumulate maxMessageSize ch dir st seen corr ciphertextLen ct of (r, _, ct') \<Rightarrow> (r, ct'))
         | None \<Rightarrow>
             if inProgressID st \<noteq> 0 \<and> inProgressID st \<noteq> corr
             then (Some (ChunkInterleaving corr (inProgressID st)), put_state ch dir st ct)
             else (case accumulate maxMessageSize ch dir (st\<lparr>sequences := fmupd corr 0 (sequences st), inProgressID := corr\<rparr>)
                          0 corr ciphertextLen ct of (r, _, ct') \<Rightarrow> (r, ct'))))"

definition RemoveChannel :: "ident \<Rightarrow> tracked \<Rightarrow> tracked" where
  "RemoveChannel ch ct = fmdrop ch ct"

section \<open>Laws\<close>

lemma GetUint32_Put: "GetUint32 (PutUint32 v @ xs) = v"
proof -
  have "(push_bit 24 (ucast (ucast (drop_bit 24 v) :: byte)) OR push_bit 16 (ucast (ucast (drop_bit 16 v) :: byte)) OR
      push_bit 8 (ucast (ucast (drop_bit 8 v) :: byte)) OR ucast (ucast v :: byte) :: 32 word) = v"
  proof (rule bit_word_eqI)
    fix n assume "n < LENGTH(32)"
    then consider "n < 8" | "8 \<le> n" "n < 16" | "16 \<le> n" "n < 24" | "24 \<le> n" "n < 32" by fastforce
    then show "bit ((push_bit 24 (ucast (ucast (drop_bit 24 v) :: byte)) OR push_bit 16 (ucast (ucast (drop_bit 16 v) :: byte)) OR
      push_bit 8 (ucast (ucast (drop_bit 8 v) :: byte)) OR ucast (ucast v :: byte)) :: 32 word) n = bit v n"
      by cases (simp_all add: bit_simps; arith)+
  qed
  then show ?thesis by (simp add: PutUint32_def)
qed

lemma length_PutUint32 [simp]: "length (PutUint32 v) = 4"
  by (simp add: PutUint32_def)

lemma ReadFramed_Write:
  "ReadFramedBytes (WriteFramedBytes p) = (if length p < 2 ^ 32 then Inr p
     else Inl (FrameLengthMismatch (length p mod 2 ^ 32) (length p)))"
  unfolding ReadFramedBytes_def WriteFramedBytes_def GetUint32_Put
  by (auto simp: Let_def unat_of_nat)

subsection \<open>What a sender puts on the wire\<close>

function chunks_of :: "bytes \<Rightarrow> bytes list" where
  "chunks_of p = (if length p \<le> MaxPlaintextPerChunk then [p]
     else take MaxPlaintextPerChunk p # chunks_of (drop MaxPlaintextPerChunk p))"
  by pat_completeness auto
termination
  by (relation "measure length") (use chunk_size_pos in \<open>auto simp del: chunk_size_pos\<close>)

declare chunks_of.simps [simp del]

lemma concat_chunks: "concat (chunks_of p) = p"
  by (induction p rule: chunks_of.induct) (subst chunks_of.simps, simp)

lemma chunks_not_Nil [simp]: "chunks_of p \<noteq> []"
  by (subst chunks_of.simps) simp

lemma chunk_bound: "c \<in> set (chunks_of p) \<Longrightarrow> length c \<le> MaxPlaintextPerChunk"
  by (induction p rule: chunks_of.induct) (subst (asm) (2) chunks_of.simps, auto split: if_splits)

text \<open>The frames of a message whose chunks are sealed from nonce \<open>n\<close> on.\<close>

fun frames_from :: "(nat \<Rightarrow> bytes \<Rightarrow> bytes) \<Rightarrow> ident \<Rightarrow> corr_id \<Rightarrow> nat \<Rightarrow> bytes list \<Rightarrow> channel_message list" where
  "frames_from seal ch corr n [] = []"
| "frames_from seal ch corr n (c # cs) =
     \<lparr>cm_version = 1, cm_channel = ch, cm_corr = corr, cm_flags = (if cs = [] then FLAGS_UNSPECIFIED else FLAGS_MORE),
      cm_ciphertext = seal n c\<rparr> # frames_from seal ch corr (Suc n) cs"

text \<open>A session and a connection that work: the \<open>n\<close>-th encryption is a seal under nonce \<open>n\<close> that adds
  the tag, and every frame handed over is appended to what was sent.\<close>

definition link_works :: "(nat \<Rightarrow> bytes \<Rightarrow> bytes) \<Rightarrow> ('w \<Rightarrow> nat) \<Rightarrow> ('w \<Rightarrow> channel_message list) \<Rightarrow>
    (bytes \<Rightarrow> 'w \<Rightarrow> ('x + bytes) \<times> 'w) \<Rightarrow> (channel_message \<Rightarrow> 'w \<Rightarrow> 'y option \<times> 'w) \<Rightarrow> bool" where
  "link_works seal nonce sent encrypt send \<longleftrightarrow>
     (\<forall>n p. length (seal n p) = length p + NoiseAEADAuthTagSize) \<and>
     (\<forall>p w. \<exists>w'. encrypt p w = (Inr (seal (nonce w) p), w') \<and> nonce w' = Suc (nonce w) \<and> sent w' = sent w) \<and>
     (\<forall>m w. \<exists>w'. send m w = (None, w') \<and> nonce w' = nonce w \<and> sent w' = sent w @ [m])"

lemma link_step:
  assumes "link_works seal nonce sent encrypt send"
  obtains w1 w2 where "encrypt p w = (Inr (seal (nonce w) p), w1)" "send (m (seal (nonce w) p)) w1 = (None, w2)"
    "nonce w2 = Suc (nonce w)" "sent w2 = sent w @ [m (seal (nonce w) p)]"
proof -
  obtain w1 where w1: "encrypt p w = (Inr (seal (nonce w) p), w1)" "nonce w1 = Suc (nonce w)" "sent w1 = sent w"
    using assms unfolding link_works_def by blast
  obtain w2 where "send (m (seal (nonce w) p)) w1 = (None, w2)" "nonce w2 = nonce w1" "sent w2 = sent w1 @ [m (seal (nonce w) p)]"
    using assms unfolding link_works_def by blast
  then show thesis using that w1 by simp
qed

lemma send_loop_frames:
  assumes link: "link_works seal nonce sent encrypt send"
  shows "offset \<le> length p \<Longrightarrow> \<exists>w'. send_loop encrypt ch corr p send offset w = (None, w') \<and>
    sent w' = sent w @ frames_from seal ch corr (nonce w) (chunks_of (drop offset p))"
proof (induction "length p - offset" arbitrary: offset w rule: less_induct)
  case less
  let ?M = MaxPlaintextPerChunk
  let ?more = "\<not> offset + ?M \<ge> length p"
  let ?c = "take ?M (drop offset p)"
  let ?m = "\<lambda>x. \<lparr>cm_version = 1, cm_channel = ch, cm_corr = corr, cm_flags = (if ?more then FLAGS_MORE else FLAGS_UNSPECIFIED), cm_ciphertext = x\<rparr>"
  obtain w1 w2 where w: "encrypt ?c w = (Inr (seal (nonce w) ?c), w1)" "send (?m (seal (nonce w) ?c)) w1 = (None, w2)"
    "nonce w2 = Suc (nonce w)" "sent w2 = sent w @ [?m (seal (nonce w) ?c)]"
    by (rule link_step [OF link, of ?c w ?m])
  show ?case
  proof (cases ?more)
    case True
    then have "length p - (offset + ?M) < length p - offset" "offset + ?M \<le> length p" using chunk_size_pos by linarith+
    from less.hyps [OF this, of w2] obtain w' where
      "send_loop encrypt ch corr p send (offset + ?M) w2 = (None, w')"
      "sent w' = sent w2 @ frames_from seal ch corr (nonce w2) (chunks_of (drop (offset + ?M) p))" by blast
    moreover have "\<not> length p - offset \<le> ?M" using True by linarith
    ultimately show ?thesis using True w
      by (subst send_loop.simps, subst chunks_of.simps) (simp add: Let_def add.commute)
  next
    case False
    then have "take (length p - offset) (drop offset p) = ?c" "drop offset p = ?c" by simp_all
    moreover have "length p - offset \<le> ?M" using False by linarith
    ultimately show ?thesis using False w
      by (subst send_loop.simps, subst chunks_of.simps) (simp add: Let_def)
  qed
qed

lemma SendChannelFrames_frames:
  assumes "link_works seal nonce sent encrypt send"
  shows "\<exists>w'. SendChannelFrames encrypt ch corr p send w = (None, w') \<and>
    sent w' = sent w @ frames_from seal ch corr (nonce w) (chunks_of p)"
  using send_loop_frames [OF assms, of 0 p] by (simp add: SendChannelFrames_def)

end
