(* ===== verification/GoHeap.thy ===== *)
theory GoHeap
  imports Prelude "HOL-Library.Multiset"
begin

text \<open>
  The priority queue of Go's standard library (container/heap) over a slice whose elements carry
  their own position, as backend/internal/hub/channelmgr/expiry_queue.go instantiates it: the
  element with the least key is at index 0, and an element can be removed or re-sorted by the
  position it carries. The key of an element is a parameter, because the caller changes it before
  it asks for the element to be re-sorted.
\<close>

section \<open>Operations\<close>

text \<open>The slice, and the position field of every element: -1 when it is not in the slice.\<close>

record 'a pheap =
  items :: "'a list"
  position :: "'a \<Rightarrow> int"

definition heap_Len :: "'a pheap \<Rightarrow> nat" where
  "heap_Len h = length (items h)"

definition heap_Swap :: "nat \<Rightarrow> nat \<Rightarrow> 'a pheap \<Rightarrow> 'a pheap" where
  "heap_Swap i j h =
     (let xs = (items h)[i := items h ! j, j := items h ! i] in
      h\<lparr>items := xs, position := (position h)(xs ! i := int i, xs ! j := int j)\<rparr>)"

definition heap_Push :: "'a \<Rightarrow> 'a pheap \<Rightarrow> 'a pheap" where
  "heap_Push x h = h\<lparr>position := (position h)(x := int (heap_Len h)), items := items h @ [x]\<rparr>"

definition heap_Pop :: "'a pheap \<Rightarrow> 'a pheap" where
  "heap_Pop h = h\<lparr>position := (position h)(last (items h) := -1), items := butlast (items h)\<rparr>"

function up :: "('a \<Rightarrow> 'k :: linorder) \<Rightarrow> nat \<Rightarrow> 'a pheap \<Rightarrow> 'a pheap" where
  "up key j h = (let i = (j - 1) div 2 in
     if i = j \<or> \<not> key (items h ! j) < key (items h ! i) then h else up key i (heap_Swap i j h))"
  by pat_completeness auto
termination by (relation "measure (\<lambda>(_, j, _). j)") auto

function down :: "('a \<Rightarrow> 'k :: linorder) \<Rightarrow> nat \<Rightarrow> nat \<Rightarrow> 'a pheap \<Rightarrow> nat \<times> 'a pheap" where
  "down key i n h = (let j1 = 2 * i + 1 in
     if j1 \<ge> n then (i, h)
     else let j = (if j1 + 1 < n \<and> key (items h ! (j1 + 1)) < key (items h ! j1) then j1 + 1 else j1) in
       if \<not> key (items h ! j) < key (items h ! i) then (i, h) else down key j n (heap_Swap i j h))"
  by pat_completeness auto
termination by (relation "measure (\<lambda>(_, i, n, _). n - i)") (auto split: if_splits)

declare up.simps [simp del] down.simps [simp del]

definition hpush :: "('a \<Rightarrow> 'k :: linorder) \<Rightarrow> 'a \<Rightarrow> 'a pheap \<Rightarrow> 'a pheap" where
  "hpush key x h = (let h1 = heap_Push x h in up key (heap_Len h1 - 1) h1)"

definition hfix :: "('a \<Rightarrow> 'k :: linorder) \<Rightarrow> nat \<Rightarrow> 'a pheap \<Rightarrow> 'a pheap" where
  "hfix key i h = (case down key i (heap_Len h) h of (k, h1) \<Rightarrow> if k > i then h1 else up key i h1)"

definition hpop :: "('a \<Rightarrow> 'k :: linorder) \<Rightarrow> 'a pheap \<Rightarrow> 'a pheap" where
  "hpop key h = (let n = heap_Len h - 1 in heap_Pop (snd (down key 0 n (heap_Swap 0 n h))))"

definition hremove :: "('a \<Rightarrow> 'k :: linorder) \<Rightarrow> nat \<Rightarrow> 'a pheap \<Rightarrow> 'a pheap" where
  "hremove key i h =
     (let n = heap_Len h - 1 in
      if n \<noteq> i then
        (case down key i n (heap_Swap i n h) of (k, h1) \<Rightarrow> heap_Pop (if k > i then h1 else up key i h1))
      else heap_Pop h)"

definition empty_pheap :: "'a pheap" where
  "empty_pheap = \<lparr>items = [], position = (\<lambda>_. -1)\<rparr>"

section \<open>Positions\<close>

text \<open>Every element knows where it is.\<close>

definition positions_ok :: "'a pheap \<Rightarrow> bool" where
  "positions_ok h \<longleftrightarrow> distinct (items h) \<and> (\<forall>i < length (items h). position h (items h ! i) = int i) \<and>
     (\<forall>x. x \<notin> set (items h) \<longrightarrow> position h x = -1)"

abbreviation swapped :: "'a list \<Rightarrow> nat \<Rightarrow> nat \<Rightarrow> 'a list" where
  "swapped xs i j \<equiv> xs[i := xs ! j, j := xs ! i]"

lemma items_Swap [simp]: "items (heap_Swap i j h) = swapped (items h) i j"
  by (simp add: heap_Swap_def Let_def)

lemma swapped_nth: "i < length xs \<Longrightarrow> j < length xs \<Longrightarrow> k < length xs \<Longrightarrow>
    swapped xs i j ! k = (if k = i then xs ! j else if k = j then xs ! i else xs ! k)"
  by (auto simp: nth_list_update)

lemma positions_Swap:
  assumes "positions_ok h" "i < length (items h)" "j < length (items h)"
  shows "positions_ok (heap_Swap i j h)"
proof -
  let ?xs = "swapped (items h) i j"
  have d: "distinct ?xs" "set ?xs = set (items h)"
    using assms by (simp_all add: positions_ok_def distinct_swap set_swap)
  have pos: "position h (items h ! k) = int k" if "k < length (items h)" for k using assms(1) that by (simp add: positions_ok_def)
  have "position (heap_Swap i j h) (?xs ! k) = int k" if k: "k < length (items h)" for k
    using nth_eq_iff_index_eq [OF d(1), of k i] nth_eq_iff_index_eq [OF d(1), of k j] k assms pos
    by (auto simp: heap_Swap_def Let_def swapped_nth)
  moreover have "position (heap_Swap i j h) x = -1" if "x \<notin> set ?xs" for x
    using that d assms nth_mem [of i ?xs] nth_mem [of j ?xs] by (auto simp: heap_Swap_def Let_def positions_ok_def)
  ultimately show ?thesis using d by (simp add: positions_ok_def)
qed

lemma positions_Push: "positions_ok h \<Longrightarrow> x \<notin> set (items h) \<Longrightarrow> positions_ok (heap_Push x h)"
  by (auto simp: positions_ok_def heap_Push_def heap_Len_def nth_append less_Suc_eq)

lemma positions_Pop:
  assumes "positions_ok h" "items h \<noteq> []"
  shows "positions_ok (heap_Pop h)"
proof -
  obtain xs x where h: "items h = xs @ [x]" using assms(2) by (cases "items h" rule: rev_cases) auto
  then have pos: "position h (xs ! i) = int i" if "i < length xs" for i
    using assms(1) that by (auto simp: positions_ok_def h nth_append dest: spec [of _ i])
  then show ?thesis using assms(1) by (auto simp: positions_ok_def heap_Pop_def h)
qed


section \<open>The order\<close>

definition par :: "nat \<Rightarrow> nat" where
  "par j = (j - 1) div 2"

definition heap_on :: "('a \<Rightarrow> 'k :: linorder) \<Rightarrow> nat \<Rightarrow> 'a list \<Rightarrow> bool" where
  "heap_on key n xs \<longleftrightarrow> (\<forall>j. 0 < j \<and> j < n \<longrightarrow> key (xs ! par j) \<le> key (xs ! j))"

text \<open>Ordered but for the element at \<open>i\<close>: around it, below it, above it.\<close>

definition spans :: "('a \<Rightarrow> 'k :: linorder) \<Rightarrow> nat \<Rightarrow> nat \<Rightarrow> 'a list \<Rightarrow> bool" where
  "spans key n i xs \<longleftrightarrow> (\<forall>j. 0 < j \<and> j < n \<and> par j = i \<and> 0 < i \<longrightarrow> key (xs ! par i) \<le> key (xs ! j))"

definition but_around :: "('a \<Rightarrow> 'k :: linorder) \<Rightarrow> nat \<Rightarrow> nat \<Rightarrow> 'a list \<Rightarrow> bool" where
  "but_around key n i xs \<longleftrightarrow> (\<forall>j. 0 < j \<and> j < n \<and> j \<noteq> i \<and> par j \<noteq> i \<longrightarrow> key (xs ! par j) \<le> key (xs ! j)) \<and> spans key n i xs"

definition but_below :: "('a \<Rightarrow> 'k :: linorder) \<Rightarrow> nat \<Rightarrow> nat \<Rightarrow> 'a list \<Rightarrow> bool" where
  "but_below key n i xs \<longleftrightarrow> (\<forall>j. 0 < j \<and> j < n \<and> par j \<noteq> i \<longrightarrow> key (xs ! par j) \<le> key (xs ! j)) \<and> spans key n i xs"

definition but_above :: "('a \<Rightarrow> 'k :: linorder) \<Rightarrow> nat \<Rightarrow> nat \<Rightarrow> 'a list \<Rightarrow> bool" where
  "but_above key n i xs \<longleftrightarrow> (\<forall>j. 0 < j \<and> j < n \<and> j \<noteq> i \<longrightarrow> key (xs ! par j) \<le> key (xs ! j)) \<and> spans key n i xs"

lemma par_less: "0 < j \<Longrightarrow> par j < j"
  by (simp add: par_def)

lemma par_le [simp]: "par j \<le> j"
  by (simp add: par_def)

lemma par_0 [simp]: "par 0 = 0"
  by (simp add: par_def)

lemma par_child: "0 < j \<and> par j = i \<longleftrightarrow> j = 2 * i + 1 \<or> j = 2 * i + 2"
  unfolding par_def by presburger

lemma child_bound: "0 < k \<Longrightarrow> k < n \<Longrightarrow> par k = i \<Longrightarrow> 2 * i + 1 < n"
proof -
  assume "0 < k" "k < n" "par k = i"
  then have "k = 2 * i + 1 \<or> k = 2 * i + 2" using par_child [of k i] by blast
  then show ?thesis using \<open>k < n\<close> by linarith
qed

lemma up_step: "up key j h = (if par j = j \<or> \<not> key (items h ! j) < key (items h ! par j) then h else up key (par j) (heap_Swap (par j) j h))"
  by (subst up.simps) (simp add: par_def Let_def)

lemma swap_above:
  assumes U: "but_above key n j xs" and j: "0 < j" "j < n" "n \<le> length xs" and lt: "key (xs ! j) < key (xs ! par j)"
  shows "but_above key n (par j) (swapped xs (par j) j)"
proof -
  let ?i = "par j"
  let ?ys = "swapped xs ?i j"
  have i: "?i < j" using par_less j by simp
  have nth: "?ys ! k = (if k = ?i then xs ! j else if k = j then xs ! ?i else xs ! k)" if "k < n" for k
    using swapped_nth [of ?i xs j k] i j that by simp
  have edge: "key (xs ! par k) \<le> key (xs ! k)" if "0 < k" "k < n" "k \<noteq> j" for k using U that by (simp add: but_above_def)
  have gp: "key (xs ! ?i) \<le> key (xs ! k)" if "0 < k" "k < n" "par k = j" for k
    using U that j unfolding but_above_def spans_def by blast
  have "key (?ys ! par k) \<le> key (?ys ! k)" if k: "0 < k" "k < n" "k \<noteq> ?i" for k
  proof -
    have pk: "par k < n" "par k < k" using par_less [OF k(1)] k(2) by linarith+
    note at = nth [OF k(2)] nth [OF pk(1)]
    consider "k = j" | "par k = j" | "k \<noteq> j" "par k = ?i" | "k \<noteq> j" "par k \<noteq> j" "par k \<noteq> ?i" by blast
    then show ?thesis
    proof cases
      case 1
      then have "?ys ! k = xs ! ?i" "?ys ! par k = xs ! j" using at i by simp_all
      then show ?thesis using lt by simp
    next
      case 2
      then have "?ys ! k = xs ! k" "?ys ! par k = xs ! ?i" using at i pk k(3) by simp_all
      then show ?thesis using gp [OF k(1,2) 2] by simp
    next
      case 3
      then have "?ys ! k = xs ! k" "?ys ! par k = xs ! j" using at k(3) by simp_all
      then show ?thesis using edge [OF k(1,2) 3(1)] 3(2) lt by simp
    next
      case 4
      then have "?ys ! k = xs ! k" "?ys ! par k = xs ! par k" using at k(3) by simp_all
      then show ?thesis using edge [OF k(1,2) 4(1)] by simp
    qed
  qed
  moreover have "key (?ys ! par ?i) \<le> key (?ys ! k)" if k: "0 < k" "k < n" "par k = ?i" "0 < ?i" for k
  proof -
    have pi: "par ?i < ?i" using par_less k(4) by simp
    have e: "key (xs ! par ?i) \<le> key (xs ! ?i)" using edge [of ?i] k(4) i j by simp
    have ki: "k \<noteq> ?i" using par_less [OF k(1)] k(3) by simp
    have pn: "?ys ! par ?i = xs ! par ?i" using nth [of "par ?i"] pi i j by simp
    show ?thesis
    proof (cases "k = j")
      case True
      then have "?ys ! k = xs ! ?i" using nth [OF k(2)] i by simp
      then show ?thesis using e pn by simp
    next
      case False
      then have "?ys ! k = xs ! k" using nth [OF k(2)] ki by simp
      moreover have "key (xs ! ?i) \<le> key (xs ! k)" using edge [OF k(1,2) False] k(3) by simp
      ultimately show ?thesis using e pn order_trans by simp
    qed
  qed
  ultimately show ?thesis by (simp add: but_above_def spans_def)
qed

lemma up_heap:
  "but_above key n j (items h) \<Longrightarrow> j < n \<Longrightarrow> n \<le> length (items h) \<Longrightarrow> heap_on key n (items (up key j h))"
proof (induction j arbitrary: h rule: less_induct)
  case (less j)
  show ?case
  proof (cases "par j = j \<or> \<not> key (items h ! j) < key (items h ! par j)")
    case True
    have "key (items h ! par k) \<le> key (items h ! k)" if "0 < k" "k < n" for k
      using True less.prems(1) that par_less [of j] by (cases "k = j") (auto simp: but_above_def not_less)
    moreover have "up key j h = h" using True by (subst up_step) (rule if_P)
    ultimately show ?thesis by (simp add: heap_on_def)
  next
    case False
    then have "0 < j" by (cases "j = 0") simp_all
    then have j: "0 < j" "par j < j" using par_less [of j] by simp_all
    have "but_above key n (par j) (items (heap_Swap (par j) j h))"
      using swap_above [OF less.prems(1) j(1) less.prems(2,3)] False by simp
    moreover have "up key j h = up key (par j) (heap_Swap (par j) j h)" using False by (subst up_step) (rule if_not_P)
    ultimately show ?thesis using less.IH [OF j(2)] j less.prems by simp
  qed
qed


definition least_child :: "('a \<Rightarrow> 'k :: linorder) \<Rightarrow> nat \<Rightarrow> nat \<Rightarrow> 'a list \<Rightarrow> nat" where
  "least_child key i n xs = (if 2 * i + 2 < n \<and> key (xs ! (2 * i + 2)) < key (xs ! (2 * i + 1)) then 2 * i + 2 else 2 * i + 1)"

lemma least_child_spec:
  assumes "2 * i + 1 < n"
  shows "0 < least_child key i n xs" "least_child key i n xs < n" "par (least_child key i n xs) = i" "i < least_child key i n xs"
    "\<And>k. 0 < k \<Longrightarrow> k < n \<Longrightarrow> par k = i \<Longrightarrow> key (xs ! least_child key i n xs) \<le> key (xs ! k)"
proof -
  let ?j = "least_child key i n xs"
  have j: "?j = 2 * i + 1 \<or> ?j = 2 * i + 2 \<and> 2 * i + 2 < n" by (simp add: least_child_def)
  then show "0 < ?j" "?j < n" "i < ?j" using assms by auto
  show "par ?j = i" using j par_child [of ?j i] by blast
  show "key (xs ! ?j) \<le> key (xs ! k)" if "0 < k" "k < n" "par k = i" for k
  proof -
    have "k = 2 * i + 1 \<or> k = 2 * i + 2" using par_child [of k i] that by blast
    then show ?thesis using that(2) by (auto simp: least_child_def)
  qed
qed

lemma down_step: "down key i n h =
    (if n \<le> 2 * i + 1 \<or> \<not> key (items h ! least_child key i n (items h)) < key (items h ! i) then (i, h)
     else down key (least_child key i n (items h)) n (heap_Swap i (least_child key i n (items h)) h))"
  by (subst down.simps) (simp add: least_child_def Let_def)

lemma swap_below:
  assumes U: "but_around key n i xs" and i: "2 * i + 1 < n" "n \<le> length xs"
    and lt: "key (xs ! least_child key i n xs) < key (xs ! i)"
  shows "but_below key n (least_child key i n xs) (swapped xs i (least_child key i n xs))"
proof -
  let ?j = "least_child key i n xs"
  let ?ys = "swapped xs i ?j"
  note j = least_child_spec [OF i(1), where key = key and xs = xs]
  have nth: "?ys ! k = (if k = i then xs ! ?j else if k = ?j then xs ! i else xs ! k)" if "k < n" for k
    using swapped_nth [of i xs ?j k] i j(2,4) that by simp
  have edge: "key (xs ! par k) \<le> key (xs ! k)" if "0 < k" "k < n" "k \<noteq> i" "par k \<noteq> i" for k using U that by (simp add: but_around_def)
  have gp: "key (xs ! par i) \<le> key (xs ! k)" if "0 < k" "k < n" "par k = i" "0 < i" for k
    using U that unfolding but_around_def spans_def by blast
  have "key (?ys ! par k) \<le> key (?ys ! k)" if k: "0 < k" "k < n" "par k \<noteq> ?j" for k
  proof -
    have pk: "par k < n" "par k < k" using par_less [OF k(1)] k(2) by linarith+
    note at = nth [OF k(2)] nth [OF pk(1)]
    consider "k = i" | "k = ?j" | "k \<noteq> ?j" "par k = i" | "k \<noteq> i" "k \<noteq> ?j" "par k \<noteq> i" by blast
    then show ?thesis
    proof cases
      case 1
      then have "?ys ! k = xs ! ?j" "?ys ! par k = xs ! par i" using at k(3) pk by simp_all
      then show ?thesis using gp [OF j(1,2,3)] k(1) 1 by simp
    next
      case 2
      then have "?ys ! k = xs ! i" "?ys ! par k = xs ! ?j" using at j(3,4) by simp_all
      then show ?thesis using lt by simp
    next
      case 3
      then have "?ys ! k = xs ! k" "?ys ! par k = xs ! ?j" using at pk by simp_all
      then show ?thesis using j(5) [OF k(1,2) 3(2)] by simp
    next
      case 4
      then have "?ys ! k = xs ! k" "?ys ! par k = xs ! par k" using at k(3) by simp_all
      then show ?thesis using edge [OF k(1,2) 4(1) 4(3)] by simp
    qed
  qed
  moreover have "key (?ys ! par ?j) \<le> key (?ys ! k)" if k: "0 < k" "k < n" "par k = ?j" for k
  proof -
    have "k \<noteq> i" "k \<noteq> ?j" using par_less [OF k(1)] k(3) j(4) by linarith+
    then have "?ys ! k = xs ! k" "?ys ! par ?j = xs ! ?j" using nth [OF k(2)] nth [of i] i j(3) by simp_all
    moreover have "key (xs ! ?j) \<le> key (xs ! k)" using edge [OF k(1,2)] \<open>k \<noteq> i\<close> k(3) j(4) by simp
    ultimately show ?thesis by simp
  qed
  ultimately show ?thesis by (simp add: but_below_def spans_def)
qed

lemma below_around: "but_below key n i xs \<Longrightarrow> but_around key n i xs"
  by (auto simp: but_below_def but_around_def)

lemma down_heap:
  "but_below key n i (items h) \<Longrightarrow> n \<le> length (items h) \<Longrightarrow> heap_on key n (items (snd (down key i n h)))"
proof (induction "n - i" arbitrary: i h rule: less_induct)
  case less
  let ?j = "least_child key i n (items h)"
  show ?case
  proof (cases "n \<le> 2 * i + 1 \<or> \<not> key (items h ! ?j) < key (items h ! i)")
    case True
    have "key (items h ! par k) \<le> key (items h ! k)" if k: "0 < k" "k < n" for k
    proof (cases "par k = i")
      case i: True
      then have n: "2 * i + 1 < n" using child_bound k by blast
      have "key (items h ! i) \<le> key (items h ! ?j)" using True n by auto
      then show ?thesis using least_child_spec(5) [OF n k i, of key "items h"] unfolding i by (rule order_trans)
    next
      case False
      then show ?thesis using less.prems(1) k by (simp add: but_below_def)
    qed
    moreover have "down key i n h = (i, h)" using True by (subst down_step) (rule if_P)
    ultimately show ?thesis by (simp add: heap_on_def)
  next
    case False
    then have n: "2 * i + 1 < n" by simp
    have "but_below key n ?j (items (heap_Swap i ?j h))" using swap_below [OF below_around [OF less.prems(1)] n less.prems(2)] False by simp
    moreover have "down key i n h = down key ?j n (heap_Swap i ?j h)" using False by (subst down_step) (rule if_not_P)
    ultimately show ?thesis using less.hyps [of ?j "heap_Swap i ?j h"] least_child_spec(2,4) [OF n, where key = key and xs = "items h"] less.prems by simp
  qed
qed

lemma down_ge: "i \<le> fst (down key i n h)"
proof (induction "n - i" arbitrary: i h rule: less_induct)
  case less
  let ?j = "least_child key i n (items h)"
  show ?case
  proof (cases "n \<le> 2 * i + 1 \<or> \<not> key (items h ! ?j) < key (items h ! i)")
    case True
    then have "down key i n h = (i, h)" by (subst down_step) (rule if_P)
    then show ?thesis by simp
  next
    case False
    then have n: "2 * i + 1 < n" by simp
    have "down key i n h = down key ?j n (heap_Swap i ?j h)" using False by (subst down_step) (rule if_not_P)
    moreover have "n - ?j < n - i" "i < ?j" using least_child_spec(2,4) [OF n, where key = key and xs = "items h"] by linarith+
    ultimately show ?thesis using less.hyps [of ?j "heap_Swap i ?j h"] by simp
  qed
qed

text \<open>The pair of loops with which an element is put where it belongs.\<close>

lemma sift_heap:
  assumes U: "but_around key n i (items h)" and i: "i < n" "n \<le> length (items h)" and run: "down key i n h = (k, h1)"
  shows "heap_on key n (items (if k > i then h1 else up key i h1))"
proof -
  let ?j = "least_child key i n (items h)"
  show ?thesis
  proof (cases "n \<le> 2 * i + 1 \<or> \<not> key (items h ! ?j) < key (items h ! i)")
    case True
    then have "down key i n h = (i, h)" by (subst down_step) (rule if_P)
    then have stop: "k = i" "h1 = h" using run by simp_all
    have "key (items h ! par k) \<le> key (items h ! k)" if k: "0 < k" "k < n" "k \<noteq> i" for k
    proof (cases "par k = i")
      case pi: True
      then have n: "2 * i + 1 < n" using child_bound k by blast
      have "key (items h ! i) \<le> key (items h ! ?j)" using True n by auto
      then show ?thesis using least_child_spec(5) [OF n k(1,2) pi, of key "items h"] unfolding pi by (rule order_trans)
    next
      case False
      then show ?thesis using U k by (simp add: but_around_def)
    qed
    then have "but_above key n i (items h)" using U by (simp add: but_above_def but_around_def)
    then show ?thesis using up_heap [OF _ i] stop by simp
  next
    case False
    then have n: "2 * i + 1 < n" by simp
    have d: "down key i n h = down key ?j n (heap_Swap i ?j h)" using False by (subst down_step) (rule if_not_P)
    have "but_below key n ?j (items (heap_Swap i ?j h))" using swap_below [OF U n i(2)] False by simp
    moreover have run': "down key ?j n (heap_Swap i ?j h) = (k, h1)" using d run by simp
    ultimately have "heap_on key n (items h1)" using down_heap [of key n ?j "heap_Swap i ?j h"] i(2) by simp
    moreover have "k > i" using down_ge [of ?j key n "heap_Swap i ?j h"] run' least_child_spec(4) [OF n, where key = key and xs = "items h"] by simp
    ultimately show ?thesis by simp
  qed
qed


lemma around_cong:
  assumes heap: "heap_on key' n xs'" and agree: "\<And>k. k < n \<Longrightarrow> k \<noteq> i \<Longrightarrow> key (xs ! k) = key' (xs' ! k)" and i: "i < n"
  shows "but_around key n i xs"
proof -
  have edge: "key' (xs' ! par k) \<le> key' (xs' ! k)" if "0 < k" "k < n" for k using heap that by (simp add: heap_on_def)
  have "key (xs ! par k) \<le> key (xs ! k)" if k: "0 < k" "k < n" "k \<noteq> i" "par k \<noteq> i" for k
    using edge [OF k(1,2)] agree [OF k(2,3)] agree [of "par k"] k par_less [OF k(1)] by simp
  moreover have "key (xs ! par i) \<le> key (xs ! k)" if k: "0 < k" "k < n" "par k = i" "0 < i" for k
  proof -
    have "k \<noteq> i" "par i \<noteq> i" "par i < n" using par_less [OF k(1)] par_less [OF k(4)] k(3) i by linarith+
    moreover have "key' (xs' ! par i) \<le> key' (xs' ! k)" using edge [OF k(1,2)] edge [of i] k(3,4) i order_trans by fastforce
    ultimately show ?thesis using agree [of k] agree [of "par i"] k(2) by simp
  qed
  ultimately show ?thesis by (simp add: but_around_def spans_def)
qed

subsection \<open>What the loops keep\<close>

text \<open>The same elements, each at the position it carries, and those past the first \<open>n\<close> in place.\<close>

definition same_content :: "nat \<Rightarrow> 'a pheap \<Rightarrow> 'a pheap \<Rightarrow> bool" where
  "same_content n h h' \<longleftrightarrow> length (items h') = length (items h) \<and> set (items h') = set (items h) \<and>
     (positions_ok h \<longrightarrow> positions_ok h') \<and> (\<forall>k. n \<le> k \<longrightarrow> items h' ! k = items h ! k)"

lemma same_content_refl [simp]: "same_content n h h"
  by (simp add: same_content_def)

lemma same_content_trans: "same_content n h h1 \<Longrightarrow> same_content n h1 h2 \<Longrightarrow> same_content n h h2"
  by (simp add: same_content_def)

lemma same_content_Swap: "i < n \<Longrightarrow> j < n \<Longrightarrow> n \<le> length (items h) \<Longrightarrow> same_content n h (heap_Swap i j h)"
  by (simp add: same_content_def positions_Swap set_swap)

lemma up_content: "j < n \<Longrightarrow> n \<le> length (items h) \<Longrightarrow> same_content n h (up key j h)"
proof (induction j arbitrary: h rule: less_induct)
  case (less j)
  show ?case
  proof (cases "par j = j \<or> \<not> key (items h ! j) < key (items h ! par j)")
    case True
    then have "up key j h = h" by (subst up_step) (rule if_P)
    then show ?thesis by simp
  next
    case False
    then have "0 < j" by (cases "j = 0") simp_all
    then have j: "par j < j" by (rule par_less)
    have "up key j h = up key (par j) (heap_Swap (par j) j h)" using False by (subst up_step) (rule if_not_P)
    moreover have "same_content n h (heap_Swap (par j) j h)" by (rule same_content_Swap) (use j less.prems in linarith)+
    ultimately show ?thesis using less.IH [OF j, of "heap_Swap (par j) j h"] j less.prems same_content_trans by fastforce
  qed
qed

lemma down_content: "i < n \<Longrightarrow> n \<le> length (items h) \<Longrightarrow> same_content n h (snd (down key i n h))"
proof (induction "n - i" arbitrary: i h rule: less_induct)
  case less
  let ?j = "least_child key i n (items h)"
  show ?case
  proof (cases "n \<le> 2 * i + 1 \<or> \<not> key (items h ! ?j) < key (items h ! i)")
    case True
    then have "down key i n h = (i, h)" by (subst down_step) (rule if_P)
    then show ?thesis by simp
  next
    case False
    then have n: "2 * i + 1 < n" by simp
    note j = least_child_spec(2,4) [OF n, where key = key and xs = "items h"]
    have "down key i n h = down key ?j n (heap_Swap i ?j h)" using False by (subst down_step) (rule if_not_P)
    moreover have "same_content n h (heap_Swap i ?j h)" by (rule same_content_Swap) (use j less.prems in linarith)+
    moreover have "n - ?j < n - i" using j by linarith
    ultimately show ?thesis using less.hyps [of ?j "heap_Swap i ?j h"] j less.prems same_content_trans by fastforce
  qed
qed

lemma sift_content:
  assumes "i < n" "n \<le> length (items h)" "down key i n h = (k, h1)"
  shows "same_content n h (if k > i then h1 else up key i h1)"
proof -
  have "same_content n h h1" using down_content [OF assms(1,2), of key] assms(3) by simp
  moreover from this have "same_content n h1 (up key i h1)" using assms(1,2) by (intro up_content) (simp_all add: same_content_def)
  ultimately show ?thesis using same_content_trans by auto
qed

section \<open>The queue\<close>

definition heap_ok :: "('a \<Rightarrow> 'k :: linorder) \<Rightarrow> 'a pheap \<Rightarrow> bool" where
  "heap_ok key h \<longleftrightarrow> positions_ok h \<and> heap_on key (length (items h)) (items h)"

lemma empty_heap_ok: "heap_ok key empty_pheap" "items empty_pheap = []"
  by (simp_all add: heap_ok_def positions_ok_def heap_on_def empty_pheap_def)

lemma heap_first:
  assumes "heap_on key n xs" "k < n"
  shows "key (xs ! 0) \<le> key (xs ! k)"
  using assms(2)
proof (induction k rule: less_induct)
  case (less k)
  show ?case
  proof (cases "k = 0")
    case False
    then have "par k < k" "key (xs ! par k) \<le> key (xs ! k)" using par_less assms(1) less.prems by (simp_all add: heap_on_def)
    then show ?thesis using less.IH [of "par k"] less.prems by (meson less_trans order_trans)
  qed simp
qed

lemma heap_ok_min: "heap_ok key h \<Longrightarrow> x \<in> set (items h) \<Longrightarrow> key (items h ! 0) \<le> key x"
  using heap_first by (fastforce simp: heap_ok_def in_set_conv_nth)

lemma heap_ok_cong:
  assumes "heap_ok key' h" "\<And>y. y \<in> set (items h) \<Longrightarrow> key y = key' y"
  shows "heap_ok key h"
proof -
  have "par k < length (items h)" if "k < length (items h)" for k using par_le [of k] that by linarith
  then show ?thesis using assms by (simp add: heap_ok_def heap_on_def)
qed

lemma hpush_ok:
  assumes h: "heap_ok key h" and x: "x \<notin> set (items h)"
  shows "heap_ok key (hpush key x h)" "set (items (hpush key x h)) = insert x (set (items h))"
proof -
  let ?h = "heap_Push x h" and ?n = "length (items h)"
  have it: "items ?h = items h @ [x]" by (simp add: heap_Push_def)
  have c: "same_content (Suc ?n) ?h (up key ?n ?h)" by (rule up_content) (simp_all add: it)
  have eq: "hpush key x h = up key ?n ?h" by (simp add: hpush_def Let_def heap_Len_def it)
  show "set (items (hpush key x h)) = insert x (set (items h))" using c by (simp add: eq same_content_def it)
  have "but_above key (Suc ?n) ?n (items ?h)"
    using h par_less by (auto simp: but_above_def heap_ok_def heap_on_def it nth_append spans_def dest: child_bound)
  then have "heap_on key (Suc ?n) (items (up key ?n ?h))" by (rule up_heap) (simp_all add: it)
  then show "heap_ok key (hpush key x h)" using c positions_Push [OF _ x] h by (simp add: heap_ok_def eq same_content_def it)
qed

lemma heap_Pop_ok:
  assumes pos: "positions_ok h" and n: "length (items h) = Suc n" and heap: "heap_on key n (items h)"
  shows "heap_ok key (heap_Pop h)" "set (items (heap_Pop h)) = set (items h) - {items h ! n}"
proof -
  obtain xs x where h: "items h = xs @ [x]" "length xs = n" using n by (cases "items h" rule: rev_cases) auto
  show "set (items (heap_Pop h)) = set (items h) - {items h ! n}" using pos h by (auto simp: heap_Pop_def positions_ok_def)
  have "par k < n" if "0 < k" "k < n" for k using par_less that less_trans by blast
  then have "heap_on key n xs" using heap h by (simp add: heap_on_def nth_append)
  then show "heap_ok key (heap_Pop h)" using positions_Pop [OF pos] h by (simp add: heap_ok_def heap_Pop_def)
qed

text \<open>The key of the element that is removed or re-sorted may have changed since the heap was ordered.\<close>

lemma hremove_ok:
  assumes h: "heap_ok key' h" and i: "i < length (items h)" and agree: "\<And>x. x \<noteq> items h ! i \<Longrightarrow> key x = key' x"
  shows "heap_ok key (hremove key i h) \<and> set (items (hremove key i h)) = set (items h) - {items h ! i}"
proof -
  obtain n where n: "length (items h) = Suc n" using i by (cases "length (items h)") auto
  have other: "key (items h ! j) = key' (items h ! j)" if "j < Suc n" "j \<noteq> i" for j
    using h that i n by (intro agree) (simp add: heap_ok_def positions_ok_def nth_eq_iff_index_eq)
  have heap': "heap_on key' n (items h)" using h n by (simp add: heap_ok_def heap_on_def)
  show ?thesis
  proof (cases "i = n")
    case True
    have "key (items h ! k) = key' (items h ! k)" if "k < n" for k using other [of k] that True by simp
    moreover have "par k < n" if "0 < k" "k < n" for k using par_less that less_trans by blast
    ultimately have "heap_on key n (items h)" using heap' by (simp add: heap_on_def)
    then show ?thesis using heap_Pop_ok [OF _ n, of key] h n True by (simp add: hremove_def Let_def heap_Len_def heap_ok_def)
  next
    case False
    then have lt: "i < n" using i n by simp
    let ?h = "heap_Swap i n h"
    obtain k h1 where run: "down key i n ?h = (k, h1)" by fastforce
    let ?h2 = "if k > i then h1 else up key i h1"
    have eq: "hremove key i h = heap_Pop ?h2" using False run n by (simp add: hremove_def Let_def heap_Len_def)
    have len: "length (items ?h) = Suc n" using n by simp
    have "but_around key n i (items ?h)"
      by (rule around_cong [OF heap' _ lt]) (use n i other in \<open>simp add: swapped_nth\<close>)
    then have "heap_on key n (items ?h2)" using sift_heap [OF _ lt _ run] len by simp
    moreover have c: "same_content n ?h ?h2" using sift_content [OF lt _ run] len by simp
    moreover have "positions_ok ?h" by (rule positions_Swap) (use h i n in \<open>simp_all add: heap_ok_def\<close>)
    moreover have "items ?h2 ! n = items h ! i" using c n i by (simp add: same_content_def swapped_nth)
    moreover have "set (items ?h) = set (items h)" using n i by (simp add: set_swap)
    ultimately show ?thesis using heap_Pop_ok [of ?h2 n key] len unfolding eq same_content_def by simp
  qed
qed

lemma hpop_hremove:
  assumes "heap_ok key h" "items h \<noteq> []"
  shows "hpop key h = hremove key 0 h"
proof -
  obtain n where n: "length (items h) = Suc n" using assms(2) by (cases "items h") auto
  show ?thesis
  proof (cases "n = 0")
    case True
    have "distinct (items h)" using assms(1) by (simp add: heap_ok_def positions_ok_def)
    have "heap_Swap 0 0 h = h" using assms(1) n by (simp add: heap_Swap_def Let_def heap_ok_def positions_ok_def fun_upd_idem)
    then show ?thesis using True n by (simp add: hpop_def hremove_def Let_def heap_Len_def down_step [of key 0 0])
  next
    case False
    obtain k h1 where run: "down key 0 n (heap_Swap 0 n h) = (k, h1)" by fastforce
    have "up key 0 h1 = h1" by (subst up_step) simp
    then show ?thesis using False n run by (simp add: hpop_def hremove_def Let_def heap_Len_def)
  qed
qed

lemma hfix_ok:
  assumes h: "heap_ok key' h" and i: "i < length (items h)" and agree: "\<And>x. x \<noteq> items h ! i \<Longrightarrow> key x = key' x"
  shows "heap_ok key (hfix key i h)" "set (items (hfix key i h)) = set (items h)"
proof -
  let ?n = "length (items h)"
  obtain k h1 where run: "down key i ?n h = (k, h1)" by fastforce
  have eq: "hfix key i h = (if k > i then h1 else up key i h1)" using run by (simp add: hfix_def heap_Len_def)
  have "items h ! j \<noteq> items h ! i" if "j < ?n" "j \<noteq> i" for j
    using h that i by (simp add: heap_ok_def positions_ok_def nth_eq_iff_index_eq)
  then have "but_around key ?n i (items h)" using h i agree by (intro around_cong [of key']) (simp_all add: heap_ok_def)
  then have "heap_on key ?n (items (hfix key i h))" using sift_heap [OF _ i _ run] by (simp add: eq)
  moreover have c: "same_content ?n h (hfix key i h)" using sift_content [OF i _ run] by (simp add: eq)
  ultimately show "heap_ok key (hfix key i h)" "set (items (hfix key i h)) = set (items h)"
    using h by (simp_all add: heap_ok_def same_content_def)
qed


section \<open>The interface of a queue of deadlines\<close>

text \<open>How the callers use the heap: an element is removed, or put in its place, by the position it
  carries.\<close>

definition queue_drop :: "('a \<Rightarrow> 'k :: linorder) \<Rightarrow> 'a \<Rightarrow> 'a pheap \<Rightarrow> 'a pheap" where
  "queue_drop key x h = (if position h x \<ge> 0 then hremove key (nat (position h x)) h else h)"

definition queue_put :: "('a \<Rightarrow> 'k :: linorder) \<Rightarrow> 'a \<Rightarrow> 'a pheap \<Rightarrow> 'a pheap" where
  "queue_put key x h = (if position h x \<ge> 0 then hfix key (nat (position h x)) h else hpush key x h)"

definition queue_top :: "'a pheap \<Rightarrow> 'a option" where
  "queue_top h = (case items h of [] \<Rightarrow> None | x # _ \<Rightarrow> Some x)"

lemma position_member:
  assumes "positions_ok h"
  shows "position h x \<ge> 0 \<longleftrightarrow> x \<in> set (items h)"
    "x \<in> set (items h) \<Longrightarrow> nat (position h x) < length (items h) \<and> items h ! nat (position h x) = x"
  using assms by (auto simp: positions_ok_def in_set_conv_nth)

text \<open>The loop that takes elements from the top while they are due. The fuel is the number of
  elements; the stray elements without a key, which the callers never put in, are dropped.\<close>

fun drain_due :: "('a \<Rightarrow> 'k :: linorder) \<Rightarrow> ('a \<Rightarrow> 'k option) \<Rightarrow> ('q \<Rightarrow> 'a option) \<Rightarrow> (('a \<Rightarrow> 'k) \<Rightarrow> 'q \<Rightarrow> 'q) \<Rightarrow> 'k \<Rightarrow>
    nat \<Rightarrow> 'q \<Rightarrow> 'a list \<times> 'q" where
  "drain_due key deadline first pop now 0 q = ([], q)"
| "drain_due key deadline first pop now (Suc n) q = (case first q of None \<Rightarrow> ([], q)
     | Some x \<Rightarrow> (case deadline x of
         None \<Rightarrow> drain_due key deadline first pop now n (pop key q)
       | Some t \<Rightarrow> if now < t then ([], q)
           else (case drain_due key deadline first pop now n (pop key q) of (xs, q') \<Rightarrow> (x # xs, q'))))"

locale deadline_queue =
  fixes first :: "'q \<Rightarrow> 'a option" and put :: "('a \<Rightarrow> 'k :: linorder) \<Rightarrow> 'a \<Rightarrow> 'q \<Rightarrow> 'q"
    and del :: "('a \<Rightarrow> 'k) \<Rightarrow> 'a \<Rightarrow> 'q \<Rightarrow> 'q" and pop :: "('a \<Rightarrow> 'k) \<Rightarrow> 'q \<Rightarrow> 'q"
    and members :: "'q \<Rightarrow> 'a set" and invar :: "('a \<Rightarrow> 'k) \<Rightarrow> 'q \<Rightarrow> bool"
  assumes finite_members: "finite (members q)"
    and first_empty: "first q = None \<longleftrightarrow> members q = {}"
    and first_least: "invar key q \<Longrightarrow> first q = Some x \<Longrightarrow> x \<in> members q \<and> (\<forall>y \<in> members q. key x \<le> key y)"
    and put_laws: "invar key' q \<Longrightarrow> (\<And>y. y \<noteq> x \<Longrightarrow> key y = key' y) \<Longrightarrow> invar key (put key x q) \<and> members (put key x q) = insert x (members q)"
    and del_laws: "invar key' q \<Longrightarrow> (\<And>y. y \<noteq> x \<Longrightarrow> key y = key' y) \<Longrightarrow> invar key (del key x q) \<and> members (del key x q) = members q - {x}"
    and pop_laws: "invar key q \<Longrightarrow> first q = Some x \<Longrightarrow> invar key (pop key q) \<and> members (pop key q) = members q - {x}"
    and key_of_members: "invar key' q \<Longrightarrow> (\<And>y. y \<in> members q \<Longrightarrow> key y = key' y) \<Longrightarrow> invar key q"
begin

lemma drain_exact:
  assumes "invar key q" "\<And>x. x \<in> members q \<Longrightarrow> deadline x = Some (key x)" "card (members q) \<le> n"
    "drain_due key deadline first pop now n q = (xs, q')"
  shows "set xs = {x \<in> members q. key x \<le> now} \<and> distinct xs \<and> invar key q' \<and> members q' = {x \<in> members q. now < key x}"
  using assms
proof (induction n arbitrary: q xs)
  case 0
  then show ?case using finite_members by simp
next
  case (Suc n)
  show ?case
  proof (cases "first q")
    case None
    then have "xs = []" "q' = q" using Suc.prems(4) by simp_all
    moreover have "members q = {}" using first_empty None by blast
    ultimately show ?thesis using Suc.prems(1) by simp
  next
    case (Some x)
    note least = first_least [OF Suc.prems(1) Some] and popped = pop_laws [OF Suc.prems(1) Some]
    have dl: "deadline x = Some (key x)" using least Suc.prems(2) by blast
    show ?thesis
    proof (cases "now < key x")
      case True
      then have "xs = []" "q' = q" using Suc.prems(4) Some dl by simp_all
      moreover have "now < key y" if "y \<in> members q" for y using True least that by (meson less_le_trans)
      ultimately show ?thesis using Suc.prems(1) by fastforce
    next
      case False
      obtain ys where ys: "drain_due key deadline first pop now n (pop key q) = (ys, q')" "xs = x # ys"
        using Suc.prems(4) Some dl False by (auto split: prod.splits)
      have "card (members (pop key q)) \<le> n" using popped least Suc.prems(3) finite_members [of q] by simp
      from Suc.IH [OF _ _ this ys(1)] popped Suc.prems(2)
      have "set ys = {y \<in> members q - {x}. key y \<le> now} \<and> distinct ys \<and> invar key q' \<and> members q' = {y \<in> members q - {x}. now < key y}"
        by auto
      then show ?thesis using ys(2) False least by auto
    qed
  qed
qed

end

interpretation go_heap: deadline_queue queue_top queue_put queue_drop hpop "\<lambda>h. set (items h)" heap_ok
proof unfold_locales
  fix h :: "'a pheap" and key key' :: "'a \<Rightarrow> 'k :: linorder" and x
  show "finite (set (items h))" by simp
  show "queue_top h = None \<longleftrightarrow> set (items h) = {}" by (simp add: queue_top_def split: list.splits)
  show "x \<in> set (items h) \<and> (\<forall>y \<in> set (items h). key x \<le> key y)" if "heap_ok key h" "queue_top h = Some x"
    using heap_ok_min [OF that(1)] that(2) by (auto simp: queue_top_def split: list.splits)
  show "heap_ok key (hpop key h) \<and> set (items (hpop key h)) = set (items h) - {x}" if ok: "heap_ok key h" and first: "queue_top h = Some x"
  proof -
    obtain xs where "items h = x # xs" using first by (auto simp: queue_top_def split: list.splits)
    then show ?thesis using hremove_ok [OF ok, of 0 key] hpop_hremove [OF ok] by simp
  qed
  show "heap_ok key h" if "heap_ok key' h" "\<And>y. y \<in> set (items h) \<Longrightarrow> key y = key' y"
    using heap_ok_cong that .
  assume ok: "heap_ok key' h" and agree: "\<And>y. y \<noteq> x \<Longrightarrow> key y = key' y"
  have p: "positions_ok h" using ok by (simp add: heap_ok_def)
  note pos = position_member [OF p, of x]
  have out: "heap_ok key h" if "x \<notin> set (items h)"
  proof (rule heap_ok_cong [OF ok])
    show "key y = key' y" if "y \<in> set (items h)" for y by (rule agree) (use that \<open>x \<notin> set (items h)\<close> in auto)
  qed
  let ?i = "nat (position h x)"
  have agree': "key y = key' y" if "x \<in> set (items h)" "y \<noteq> items h ! ?i" for y using pos(2) [OF that(1)] that(2) agree by simp
  show "heap_ok key (queue_drop key x h) \<and> set (items (queue_drop key x h)) = set (items h) - {x}"
  proof (cases "x \<in> set (items h)")
    case True
    have "heap_ok key (hremove key ?i h) \<and> set (items (hremove key ?i h)) = set (items h) - {items h ! ?i}"
      by (rule hremove_ok [OF ok]) (use pos(2) agree' True in blast)+
    then show ?thesis using pos True by (simp add: queue_drop_def)
  next
    case False
    then show ?thesis using out pos(1) by (simp add: queue_drop_def)
  qed
  show "heap_ok key (queue_put key x h) \<and> set (items (queue_put key x h)) = insert x (set (items h))"
  proof (cases "x \<in> set (items h)")
    case True
    have "heap_ok key (hfix key ?i h)" "set (items (hfix key ?i h)) = set (items h)"
      by (rule hfix_ok [OF ok]; use pos(2) agree' True in blast)+
    then show ?thesis using pos(1) True by (simp add: queue_put_def insert_absorb)
  next
    case False
    then show ?thesis using hpush_ok [OF out False] pos(1) by (simp add: queue_put_def)
  qed
qed

end
