(* ===== verification/ChannelMgr.thy ===== *)
theory ChannelMgr
  imports Access ChannelWire GoHeap
begin

text \<open>
  The channels the hub relays (backend/internal/hub/channelmgr/channelmgr.go and expiry\_queue.go)
  and the deadlines of credentials (backend/internal/hub/auth/credential\_deadline.go). A channel is an
  object shared by pointers, so it has an address; the maps of the manager hold addresses and
  ids. Callbacks (the send function of a connection, the cancel function of a context, the
  expiry callback of a channel) are names, and what is called is appended to \<open>hm_out\<close>; which sends fail is
  a parameter. Times are integers and the zero time is 0. Each definition is what runs under the
  locks it takes.
\<close>

section \<open>Deadlines\<close>

datatype deadline = Unset | NeverExpires | At int

definition DeadlineAt :: "int \<Rightarrow> deadline" where
  "DeadlineAt t = (if t = 0 then NeverExpires else At t)"

definition IsUnset :: "deadline \<Rightarrow> bool" where
  "IsUnset d \<longleftrightarrow> d = Unset"

definition deadline_At :: "deadline \<Rightarrow> int option" where
  "deadline_At d = (case d of At t \<Rightarrow> Some t | _ \<Rightarrow> None)"

definition IsCurrent :: "deadline \<Rightarrow> int \<Rightarrow> bool" where
  "IsCurrent d now = (case deadline_At d of None \<Rightarrow> True | Some t \<Rightarrow> now < t)"

definition Later :: "deadline \<Rightarrow> deadline \<Rightarrow> deadline" where
  "Later d e = (case (deadline_At d, deadline_At e) of (Some da, Some ea) \<Rightarrow> if ea > da then e else d | _ \<Rightarrow> NeverExpires)"

definition AdoptReschedule :: "deadline \<Rightarrow> deadline \<Rightarrow> deadline" where
  "AdoptReschedule d newExpiry = (case (deadline_At d, deadline_At newExpiry) of
     (Some cur, Some next) \<Rightarrow> if cur > next then d else newExpiry | _ \<Rightarrow> newExpiry)"

section \<open>State\<close>

type_synonym bearer_ref = "bearer_kind option \<times> ident"
type_synonym chan_ref = nat

definition bearer_IsValid :: "bearer_ref \<Rightarrow> bool" where
  "bearer_IsValid r \<longleftrightarrow> fst r \<noteq> None \<and> snd r \<noteq> empty_id"

definition BearerRef :: "credential_identity \<Rightarrow> bearer_ref option" where
  "BearerRef c = map_option (\<lambda>(k, i). (Some k, i)) (Bearer c)"

definition cred_Matches :: "credential_identity \<Rightarrow> credential_identity \<Rightarrow> bool" where
  "cred_Matches c d \<longleftrightarrow> c = d"

record auth_info =
  ai_credential :: credential_identity
  ai_generation :: int
  ai_expires :: deadline

record channel =
  ch_closed :: bool
  ch_id :: ident
  ch_worker :: ident
  ch_user :: ident
  ch_auth :: auth_info
  ch_conn :: ident
  ch_expiresAt :: deadline
  ch_pending :: deadline
  ch_onExpire :: "ident option"
  ch_cancel :: "ident option"

record user_conn =
  uc_send :: ident
  uc_cancel :: "ident option"

record closed_channel =
  cc_channel :: ident
  cc_worker :: ident
  cc_user :: ident

datatype effect = Delivered ident channel_message | Cancelled ident | OnExpire ident closed_channel

record channel_manager =
  hm_objs :: "(chan_ref, channel) fmap"
  hm_next :: chan_ref
  hm_channels :: "(ident, chan_ref) fmap"
  hm_byUser :: "(ident, ident fset) fmap"
  hm_byWorker :: "(ident, ident fset) fmap"
  hm_bySession :: "(ident, ident fset) fmap"
  hm_byBearer :: "(bearer_ref, ident fset) fmap"
  hm_senders :: "(ident, (ident, user_conn) fmap) fmap"
  hm_expiries :: "chan_ref pheap"
  hm_timer :: "int option"
  hm_tracker :: tracked
  hm_out :: "effect list"

definition new_manager :: channel_manager where
  "new_manager = \<lparr>hm_objs = fmempty, hm_next = 0, hm_channels = fmempty, hm_byUser = fmempty, hm_byWorker = fmempty,
     hm_bySession = fmempty, hm_byBearer = fmempty, hm_senders = fmempty, hm_expiries = empty_pheap, hm_timer = None,
     hm_tracker = fmempty, hm_out = []\<rparr>"

record channel_info =
  in_ChannelID :: ident
  in_WorkerID :: ident
  in_UserID :: ident
  in_ConnID :: ident
  in_AuthInfo :: auth_info

definition channelInfo :: "channel \<Rightarrow> channel_info" where
  "channelInfo ch = \<lparr>in_ChannelID = ch_id ch, in_WorkerID = ch_worker ch, in_UserID = ch_user ch, in_ConnID = ch_conn ch,
     in_AuthInfo = ch_auth ch\<rparr>"

definition zero_channel :: channel where
  "zero_channel = \<lparr>ch_closed = True, ch_id = [], ch_worker = [], ch_user = [],
     ch_auth = \<lparr>ai_credential = \<lparr>cr_kind = credentialNone, cr_id = [], cr_workspace_id = [], cr_worker_id = []\<rparr>,
                ai_generation = 0, ai_expires = Unset\<rparr>,
     ch_conn = [], ch_expiresAt = Unset, ch_pending = Unset, ch_onExpire = None, ch_cancel = None\<rparr>"

abbreviation obj :: "channel_manager \<Rightarrow> chan_ref \<Rightarrow> channel" where
  "obj m r \<equiv> get_or zero_channel id (fmlookup (hm_objs m) r)"

definition set_obj :: "chan_ref \<Rightarrow> channel \<Rightarrow> channel_manager \<Rightarrow> channel_manager" where
  "set_obj r ch m = m\<lparr>hm_objs := fmupd r ch (hm_objs m)\<rparr>"

section \<open>Registration and indexes\<close>

definition addChannelIndex :: "'k \<Rightarrow> ident \<Rightarrow> ('k, ident fset) fmap \<Rightarrow> ('k, ident fset) fmap" where
  "addChannelIndex key channelID index = fmupd key (finsert channelID (get_or {||} id (fmlookup index key))) index"

definition removeChannelIndex :: "'k \<Rightarrow> ident \<Rightarrow> ('k, ident fset) fmap \<Rightarrow> ('k, ident fset) fmap" where
  "removeChannelIndex key channelID index =
     (let ids = get_or {||} id (fmlookup index key) |-| {|channelID|} in
      if ids = {||} then fmdrop key index else fmupd key ids index)"

definition indexChannel :: "channel \<Rightarrow> channel_manager \<Rightarrow> channel_manager" where
  "indexChannel ch m =
     (let m1 = m\<lparr>hm_byUser := addChannelIndex (ch_user ch) (ch_id ch) (hm_byUser m)\<rparr>;
          m2 = m1\<lparr>hm_byWorker := addChannelIndex (ch_worker ch) (ch_id ch) (hm_byWorker m1)\<rparr>;
          sessionID = SessionID (ai_credential (ch_auth ch));
          m3 = (if sessionID \<noteq> empty_id then m2\<lparr>hm_bySession := addChannelIndex sessionID (ch_id ch) (hm_bySession m2)\<rparr> else m2)
      in case BearerRef (ai_credential (ch_auth ch)) of
           Some ref \<Rightarrow> m3\<lparr>hm_byBearer := addChannelIndex ref (ch_id ch) (hm_byBearer m3)\<rparr>
         | None \<Rightarrow> m3)"

definition unindexChannel :: "channel \<Rightarrow> channel_manager \<Rightarrow> channel_manager" where
  "unindexChannel ch m =
     (let m1 = m\<lparr>hm_byUser := removeChannelIndex (ch_user ch) (ch_id ch) (hm_byUser m)\<rparr>;
          m2 = m1\<lparr>hm_byWorker := removeChannelIndex (ch_worker ch) (ch_id ch) (hm_byWorker m1)\<rparr>;
          sessionID = SessionID (ai_credential (ch_auth ch));
          m3 = (if sessionID \<noteq> empty_id then m2\<lparr>hm_bySession := removeChannelIndex sessionID (ch_id ch) (hm_bySession m2)\<rparr> else m2)
      in case BearerRef (ai_credential (ch_auth ch)) of
           Some ref \<Rightarrow> m3\<lparr>hm_byBearer := removeChannelIndex ref (ch_id ch) (hm_byBearer m3)\<rparr>
         | None \<Rightarrow> m3)"

definition RegisterWithAuthInfo :: "ident \<Rightarrow> ident \<Rightarrow> ident \<Rightarrow> auth_info \<Rightarrow> ident option \<Rightarrow> channel_manager \<Rightarrow> channel_manager" where
  "RegisterWithAuthInfo channelID workerID userID authInfo cancel m =
     (let ch = \<lparr>ch_closed = False, ch_id = channelID, ch_worker = workerID, ch_user = userID, ch_auth = authInfo,
                ch_conn = empty_id, ch_expiresAt = Unset, ch_pending = Unset, ch_onExpire = None, ch_cancel = cancel\<rparr>;
          r = hm_next m
      in indexChannel ch ((set_obj r ch m)\<lparr>hm_next := Suc r, hm_channels := fmupd channelID r (hm_channels m)\<rparr>))"

section \<open>Connections\<close>

definition BindUser :: "ident \<Rightarrow> ident \<Rightarrow> ident \<Rightarrow> ident option \<Rightarrow> channel_manager \<Rightarrow> channel_manager" where
  "BindUser userID connID sendFn cancel m =
     m\<lparr>hm_senders := fmupd userID (fmupd connID \<lparr>uc_send = sendFn, uc_cancel = cancel\<rparr>
         (get_or fmempty id (fmlookup (hm_senders m) userID))) (hm_senders m)\<rparr>"

definition unbindLocked :: "ident \<Rightarrow> ident \<Rightarrow> channel_manager \<Rightarrow> (user_conn option \<times> bool) \<times> channel_manager" where
  "unbindLocked userID connID m = (case fmlookup (hm_senders m) userID of
     None \<Rightarrow> ((None, True), m)
   | Some conns \<Rightarrow>
       let uc = fmlookup conns connID; conns' = fmdrop connID conns in
       if conns' = fmempty then ((uc, True), m\<lparr>hm_senders := fmdrop userID (hm_senders m)\<rparr>)
       else ((uc, False), m\<lparr>hm_senders := fmupd userID conns' (hm_senders m)\<rparr>))"

definition call_cancel :: "ident option \<Rightarrow> channel_manager \<Rightarrow> channel_manager" where
  "call_cancel c m = (case c of None \<Rightarrow> m | Some f \<Rightarrow> m\<lparr>hm_out := hm_out m @ [Cancelled f]\<rparr>)"

definition UnbindUser :: "ident \<Rightarrow> ident \<Rightarrow> channel_manager \<Rightarrow> bool \<times> channel_manager" where
  "UnbindUser userID connID m = (case unbindLocked userID connID m of ((uc, noConns), m1) \<Rightarrow>
     (noConns, call_cancel (Option.bind uc uc_cancel) m1))"

definition getConnSender :: "ident \<Rightarrow> ident \<Rightarrow> channel_manager \<Rightarrow> ident option" where
  "getConnSender userID connID m = (case fmlookup (hm_senders m) userID of None \<Rightarrow> None
     | Some conns \<Rightarrow> map_option uc_send (fmlookup conns connID))"

section \<open>Routed operations\<close>

definition acquireChannelOp :: "ident \<Rightarrow> channel_manager \<Rightarrow> chan_ref option" where
  "acquireChannelOp channelID m = fmlookup (hm_channels m) channelID"

definition channelLiveLocked :: "ident \<Rightarrow> chan_ref \<Rightarrow> channel_manager \<Rightarrow> bool" where
  "channelLiveLocked channelID r m \<longleftrightarrow> \<not> ch_closed (obj m r) \<and> fmlookup (hm_channels m) channelID = Some r"

text \<open>The part of \<open>useChannel\<close> that runs under the lock of the manager. \<open>None\<close> as authorization is a nil
  function, and as connection a channel that is not bound.\<close>

definition use_check :: "ident \<Rightarrow> chan_ref \<Rightarrow> ident option \<Rightarrow> (channel_info \<Rightarrow> bool) option \<Rightarrow> channel_manager \<Rightarrow>
    channel_info option \<times> channel_manager" where
  "use_check channelID r bindConnID authorize m =
     (if \<not> channelLiveLocked channelID r m then (None, m)
      else let info = channelInfo (obj m r) in
        if (case authorize of None \<Rightarrow> False | Some p \<Rightarrow> \<not> p info) then (None, m)
        else (Some info, case bindConnID of None \<Rightarrow> m | Some c \<Rightarrow> set_obj r ((obj m r)\<lparr>ch_conn := c\<rparr>) m))"

definition useChannel :: "ident \<Rightarrow> ident option \<Rightarrow> (channel_info \<Rightarrow> bool) option \<Rightarrow>
    (channel_info \<Rightarrow> channel_manager \<Rightarrow> 'e option \<times> channel_manager) \<Rightarrow> channel_manager \<Rightarrow>
    (channel_info \<times> 'e option) option \<times> channel_manager" where
  "useChannel channelID bindConnID authorize operation m = (case acquireChannelOp channelID m of
     None \<Rightarrow> (None, m)
   | Some r \<Rightarrow> (case use_check channelID r bindConnID authorize m of
       (None, m1) \<Rightarrow> (None, m1)
     | (Some info, m1) \<Rightarrow> (case operation info m1 of (err, m2) \<Rightarrow> (Some (info, err), m2))))"

definition UseAuthorizedChannel :: "ident \<Rightarrow> ident \<Rightarrow> (channel_info \<Rightarrow> bool) \<Rightarrow>
    (channel_info \<Rightarrow> channel_manager \<Rightarrow> 'e option \<times> channel_manager) \<Rightarrow> channel_manager \<Rightarrow>
    (channel_info \<times> 'e option) option \<times> channel_manager" where
  "UseAuthorizedChannel channelID connID authorize operation m = useChannel channelID (Some connID) (Some authorize) operation m"

definition UseChannelIf :: "ident \<Rightarrow> (channel_info \<Rightarrow> bool) \<Rightarrow>
    (channel_info \<Rightarrow> channel_manager \<Rightarrow> 'e option \<times> channel_manager) \<Rightarrow> channel_manager \<Rightarrow>
    (channel_info \<times> 'e option) option \<times> channel_manager" where
  "UseChannelIf channelID authorize operation m = useChannel channelID None (Some authorize) operation m"

section \<open>Expiry\<close>

text \<open>The order of the heap: the instant of the deadline, the zero time for a deadline without one.\<close>

definition expiry_key :: "channel_manager \<Rightarrow> chan_ref \<Rightarrow> int" where
  "expiry_key m r = (case ch_expiresAt (obj m r) of At t \<Rightarrow> t | _ \<Rightarrow> 0)"

text \<open>The instant at which the timer fires: the deadline, or at once when it has passed.\<close>

definition expiry_fires :: "int \<Rightarrow> deadline \<Rightarrow> int" where
  "expiry_fires now d = (case deadline_At d of None \<Rightarrow> now | Some t \<Rightarrow> max t now)"

definition resetExpiryTimerLocked :: "int \<Rightarrow> channel_manager \<Rightarrow> channel_manager" where
  "resetExpiryTimerLocked now m = (case queue_top (hm_expiries m) of
     None \<Rightarrow> m\<lparr>hm_timer := None\<rparr>
   | Some r \<Rightarrow> m\<lparr>hm_timer := Some (expiry_fires now (ch_expiresAt (obj m r)))\<rparr>)"

definition ScheduleExpiry :: "int \<Rightarrow> ident \<Rightarrow> deadline \<Rightarrow> ident option \<Rightarrow> channel_manager \<Rightarrow> bool \<times> channel_manager" where
  "ScheduleExpiry now channelID expiresAt onExpire m =
     (if onExpire = None then (False, m)
      else case fmlookup (hm_channels m) channelID of None \<Rightarrow> (False, m)
        | Some r \<Rightarrow>
            if \<not> channelLiveLocked channelID r m then (False, m)
            else let ch = obj m r;
                     effective = (if \<not> IsUnset (ch_pending ch) then ch_pending ch else expiresAt);
                     ch1 = ch\<lparr>ch_pending := (if \<not> IsUnset (ch_pending ch) then Unset else ch_pending ch),
                              ch_auth := (ch_auth ch)\<lparr>ai_expires := effective\<rparr>, ch_onExpire := onExpire\<rparr>;
                     m1 = set_obj r ch1 m;
                     m2 = m1\<lparr>hm_expiries := queue_drop (expiry_key m1) r (hm_expiries m1)\<rparr>;
                     m3 = set_obj r (ch1\<lparr>ch_expiresAt := effective\<rparr>) m2;
                     m4 = (if deadline_At effective \<noteq> None
                           then m3\<lparr>hm_expiries := hpush (expiry_key m3) r (hm_expiries m3)\<rparr> else m3)
                 in (True, resetExpiryTimerLocked now m4))"

definition reschedule_one :: "deadline \<Rightarrow> ident \<Rightarrow> bool \<times> channel_manager \<Rightarrow> bool \<times> channel_manager" where
  "reschedule_one newExpiry i s = (case s of (changed, m) \<Rightarrow>
     (case fmlookup (hm_channels m) i of None \<Rightarrow> (changed, m)
      | Some r \<Rightarrow>
          let ch = obj m r in
          if ch_onExpire ch = None
          then (changed, set_obj r (ch\<lparr>ch_pending := AdoptReschedule (ch_pending ch) newExpiry\<rparr>) m)
          else let next = AdoptReschedule (ch_expiresAt ch) newExpiry;
                   m1 = set_obj r (ch\<lparr>ch_auth := (ch_auth ch)\<lparr>ai_expires := next\<rparr>, ch_expiresAt := next\<rparr>) m
               in (True, if deadline_At next = None
                         then m1\<lparr>hm_expiries := queue_drop (expiry_key m1) r (hm_expiries m1)\<rparr>
                         else m1\<lparr>hm_expiries := queue_put (expiry_key m1) r (hm_expiries m1)\<rparr>)))"

definition rescheduleExpiryLocked :: "range_fun \<Rightarrow> int \<Rightarrow> ident fset \<Rightarrow> deadline \<Rightarrow> channel_manager \<Rightarrow> channel_manager" where
  "rescheduleExpiryLocked it now ids newExpiry m =
     (case fold (reschedule_one newExpiry) (it ids) (False, m) of (changed, m1) \<Rightarrow>
        if changed then resetExpiryTimerLocked now m1 else m1)"

definition RescheduleExpiryBySession :: "range_fun \<Rightarrow> int \<Rightarrow> ident \<Rightarrow> deadline \<Rightarrow> channel_manager \<Rightarrow> channel_manager" where
  "RescheduleExpiryBySession it now sessionID newExpiry m =
     (if sessionID = empty_id then m
      else rescheduleExpiryLocked it now (get_or {||} id (fmlookup (hm_bySession m) sessionID)) newExpiry m)"

definition RescheduleExpiryByBearer :: "range_fun \<Rightarrow> int \<Rightarrow> bearer_ref \<Rightarrow> deadline \<Rightarrow> channel_manager \<Rightarrow> channel_manager" where
  "RescheduleExpiryByBearer it now ref newExpiry m =
     (if \<not> bearer_IsValid ref then m
      else rescheduleExpiryLocked it now (get_or {||} id (fmlookup (hm_byBearer m) ref)) newExpiry m)"

section \<open>Teardown\<close>

record removed_channel =
  rm_closed :: closed_channel
  rm_sender :: "ident option"
  rm_cancel :: "ident option"
  rm_onExpire :: "ident option"

text \<open>A predicate looks at the channel and, for the sweep of a connection, at the manager.\<close>

definition remove_locked :: "ident \<Rightarrow> chan_ref \<Rightarrow> (channel_manager \<Rightarrow> channel \<Rightarrow> bool) \<Rightarrow> channel_manager \<Rightarrow>
    removed_channel option \<times> channel_manager" where
  "remove_locked channelID r pred m =
     (let ch = obj m r in
      if \<not> channelLiveLocked channelID r m \<or> \<not> pred m ch then (None, m)
      else let m1 = set_obj r (ch\<lparr>ch_closed := True\<rparr>) m;
               m2 = unindexChannel ch (m1\<lparr>hm_channels := fmdrop channelID (hm_channels m1)\<rparr>);
               m3 = m2\<lparr>hm_expiries := queue_drop (expiry_key m2) r (hm_expiries m2)\<rparr>
           in (Some \<lparr>rm_closed = \<lparr>cc_channel = channelID, cc_worker = ch_worker ch, cc_user = ch_user ch\<rparr>,
                     rm_sender = getConnSender (ch_user ch) (ch_conn ch) m3, rm_cancel = ch_cancel ch,
                     rm_onExpire = ch_onExpire ch\<rparr>, m3))"

definition removeChannelIf :: "ident \<Rightarrow> (channel_manager \<Rightarrow> channel \<Rightarrow> bool) \<Rightarrow> channel_manager \<Rightarrow>
    removed_channel option \<times> channel_manager" where
  "removeChannelIf channelID pred m = (case acquireChannelOp channelID m of
     None \<Rightarrow> (None, m)
   | Some r \<Rightarrow> remove_locked channelID r pred m)"

definition deliver :: "(ident \<Rightarrow> channel_message \<Rightarrow> bool) \<Rightarrow> ident \<Rightarrow> channel_message \<Rightarrow> channel_manager \<Rightarrow> bool \<times> channel_manager" where
  "deliver fails stream msg m = (if fails stream msg then (False, m) else (True, m\<lparr>hm_out := hm_out m @ [Delivered stream msg]\<rparr>))"

definition close_message :: "ident \<Rightarrow> channel_message" where
  "close_message channelID = \<lparr>cm_version = 1, cm_channel = channelID, cm_corr = 0, cm_flags = FLAGS_CLOSE, cm_ciphertext = []\<rparr>"

definition sendCloseNotification :: "(ident \<Rightarrow> channel_message \<Rightarrow> bool) \<Rightarrow> ident option \<Rightarrow> ident \<Rightarrow> channel_manager \<Rightarrow> channel_manager" where
  "sendCloseNotification fails sender channelID m = (case sender of None \<Rightarrow> m
     | Some s \<Rightarrow> snd (deliver fails s (close_message channelID) m))"

definition drain_one :: "(ident \<Rightarrow> channel_message \<Rightarrow> bool) \<Rightarrow> removed_channel \<Rightarrow> channel_manager \<Rightarrow> channel_manager" where
  "drain_one fails item m =
     (let m1 = sendCloseNotification fails (rm_sender item) (cc_channel (rm_closed item)) m;
          m2 = m1\<lparr>hm_tracker := RemoveChannel (cc_channel (rm_closed item)) (hm_tracker m1)\<rparr>
      in call_cancel (rm_cancel item) m2)"

definition drainRemoved :: "(ident \<Rightarrow> channel_message \<Rightarrow> bool) \<Rightarrow> removed_channel list \<Rightarrow> channel_manager \<Rightarrow>
    closed_channel list \<times> channel_manager" where
  "drainRemoved fails removed m = (map rm_closed removed, fold (drain_one fails) removed m)"

fun remove_all :: "(channel_manager \<Rightarrow> channel \<Rightarrow> bool) \<Rightarrow> ident list \<Rightarrow> channel_manager \<Rightarrow> removed_channel list \<times> channel_manager" where
  "remove_all pred [] m = ([], m)"
| "remove_all pred (i # ids) m = (case removeChannelIf i pred m of
     (None, m1) \<Rightarrow> remove_all pred ids m1
   | (Some item, m1) \<Rightarrow> (case remove_all pred ids m1 of (removed, m2) \<Rightarrow> (item # removed, m2)))"

text \<open>The ids are torn down concurrently, each under its own lock; the list is the order in which they get it.\<close>

definition closeChannelIDs :: "(ident \<Rightarrow> channel_message \<Rightarrow> bool) \<Rightarrow> int \<Rightarrow> ident list \<Rightarrow> (channel_manager \<Rightarrow> channel \<Rightarrow> bool) \<Rightarrow>
    channel_manager \<Rightarrow> closed_channel list \<times> channel_manager" where
  "closeChannelIDs fails now ids pred m = (case remove_all pred ids m of (removed, m1) \<Rightarrow>
     drainRemoved fails removed (if removed \<noteq> [] then resetExpiryTimerLocked now m1 else m1))"

abbreviation any_channel :: "channel_manager \<Rightarrow> channel \<Rightarrow> bool" where
  "any_channel \<equiv> \<lambda>_ _. True"

definition UnregisterByWorker :: "range_fun \<Rightarrow> (ident \<Rightarrow> channel_message \<Rightarrow> bool) \<Rightarrow> int \<Rightarrow> ident \<Rightarrow> channel_manager \<Rightarrow>
    ident list \<times> channel_manager" where
  "UnregisterByWorker it fails now workerID m =
     (case closeChannelIDs fails now (it (get_or {||} id (fmlookup (hm_byWorker m) workerID))) any_channel m of
        (gone, m1) \<Rightarrow> (map cc_channel gone, m1))"

definition CloseByID :: "(ident \<Rightarrow> channel_message \<Rightarrow> bool) \<Rightarrow> int \<Rightarrow> ident \<Rightarrow> channel_manager \<Rightarrow> closed_channel list \<times> channel_manager" where
  "CloseByID fails now channelID m = (if channelID = empty_id then ([], m) else closeChannelIDs fails now [channelID] any_channel m)"

definition CloseByIDIf :: "(ident \<Rightarrow> channel_message \<Rightarrow> bool) \<Rightarrow> int \<Rightarrow> ident \<Rightarrow> (channel_info \<Rightarrow> bool) \<Rightarrow> channel_manager \<Rightarrow>
    closed_channel list \<times> channel_manager" where
  "CloseByIDIf fails now channelID pred m =
     (if channelID = empty_id then ([], m) else closeChannelIDs fails now [channelID] (\<lambda>_ ch. pred (channelInfo ch)) m)"

definition CloseByBearer :: "range_fun \<Rightarrow> (ident \<Rightarrow> channel_message \<Rightarrow> bool) \<Rightarrow> int \<Rightarrow> bearer_ref \<Rightarrow> channel_manager \<Rightarrow>
    closed_channel list \<times> channel_manager" where
  "CloseByBearer it fails now ref m = (if \<not> bearer_IsValid ref then ([], m)
     else closeChannelIDs fails now (it (get_or {||} id (fmlookup (hm_byBearer m) ref))) any_channel m)"

definition CloseBySession :: "range_fun \<Rightarrow> (ident \<Rightarrow> channel_message \<Rightarrow> bool) \<Rightarrow> int \<Rightarrow> ident \<Rightarrow> channel_manager \<Rightarrow>
    closed_channel list \<times> channel_manager" where
  "CloseBySession it fails now sessionID m = (if sessionID = empty_id then ([], m)
     else closeChannelIDs fails now (it (get_or {||} id (fmlookup (hm_bySession m) sessionID))) any_channel m)"

definition CloseByUsers :: "range_fun \<Rightarrow> (ident \<Rightarrow> channel_message \<Rightarrow> bool) \<Rightarrow> int \<Rightarrow> ident list \<Rightarrow> (channel_info \<Rightarrow> bool) option \<Rightarrow>
    channel_manager \<Rightarrow> closed_channel list \<times> channel_manager" where
  "CloseByUsers it fails now userIDs authorize m =
     (let users = filter (\<lambda>u. u \<noteq> empty_id) userIDs in
      if users = [] then ([], m)
      else let ids = fold (\<lambda>u s. get_or {||} id (fmlookup (hm_byUser m) u) |\<union>| s) users {||}
           in closeChannelIDs fails now (it ids)
                (\<lambda>_ ch. case authorize of None \<Rightarrow> True | Some p \<Rightarrow> p (channelInfo ch)) m)"

definition ShouldEvictForUserGeneration :: "int \<Rightarrow> int \<Rightarrow> bool" where
  "ShouldEvictForUserGeneration cachedGeneration revokeGeneration \<longleftrightarrow> revokeGeneration \<le> 0 \<or> cachedGeneration < revokeGeneration"

definition CloseByUserRevocation :: "range_fun \<Rightarrow> (ident \<Rightarrow> channel_message \<Rightarrow> bool) \<Rightarrow> int \<Rightarrow> ident \<Rightarrow> int \<Rightarrow> channel_manager \<Rightarrow>
    closed_channel list \<times> channel_manager" where
  "CloseByUserRevocation it fails now userID userAuthGeneration m = (if userID = empty_id then ([], m)
     else closeChannelIDs fails now (it (get_or {||} id (fmlookup (hm_byUser m) userID)))
            (\<lambda>_ ch. ShouldEvictForUserGeneration (ai_generation (ch_auth ch)) userAuthGeneration) m)"

definition restamp_one :: "int \<Rightarrow> ident \<Rightarrow> channel_manager \<Rightarrow> channel_manager" where
  "restamp_one newGeneration i m = (case fmlookup (hm_channels m) i of None \<Rightarrow> m
     | Some r \<Rightarrow> if ai_generation (ch_auth (obj m r)) < newGeneration
         then set_obj r ((obj m r)\<lparr>ch_auth := (ch_auth (obj m r))\<lparr>ai_generation := newGeneration\<rparr>\<rparr>) m else m)"

definition RestampSessionGeneration :: "range_fun \<Rightarrow> ident \<Rightarrow> int \<Rightarrow> channel_manager \<Rightarrow> channel_manager" where
  "RestampSessionGeneration it sessionID newGeneration m = (if sessionID = empty_id \<or> newGeneration \<le> 0 then m
     else fold (restamp_one newGeneration) (it (get_or {||} id (fmlookup (hm_bySession m) sessionID))) m)"

definition unbound_by :: "ident \<Rightarrow> ident \<Rightarrow> channel_manager \<Rightarrow> channel \<Rightarrow> bool" where
  "unbound_by userID connID m ch \<longleftrightarrow> ch_user ch = userID \<and>
     (ch_conn ch = connID \<or> get_or fmempty id (fmlookup (hm_senders m) userID) = fmempty \<and> ch_conn ch = empty_id)"

text \<open>\<open>closeMatchingWithLocked\<close> with the sweep of a connection as its callback.\<close>

definition UnbindUserAndCleanup :: "range_fun \<Rightarrow> (ident \<Rightarrow> channel_message \<Rightarrow> bool) \<Rightarrow> int \<Rightarrow> ident \<Rightarrow> ident \<Rightarrow> channel_manager \<Rightarrow>
    closed_channel list \<times> channel_manager" where
  "UnbindUserAndCleanup it fails now userID connID m = (case unbindLocked userID connID m of ((uc, _), m1) \<Rightarrow>
     let pred = unbound_by userID connID;
         candidates = it (get_or {||} id (fmlookup (hm_byUser m1) userID));
         ids = filter (\<lambda>i. case fmlookup (hm_channels m1) i of None \<Rightarrow> False | Some r \<Rightarrow> pred m1 (obj m1 r)) candidates
     in case closeChannelIDs fails now ids pred m1 of (gone, m2) \<Rightarrow> (gone, call_cancel (Option.bind uc uc_cancel) m2))"

definition expire_one :: "(ident \<Rightarrow> channel_message \<Rightarrow> bool) \<Rightarrow> int \<Rightarrow> ident \<Rightarrow> channel_manager \<Rightarrow> channel_manager" where
  "expire_one fails now channelID m =
     (case removeChannelIf channelID (\<lambda>_ ch. case deadline_At (ch_expiresAt ch) of None \<Rightarrow> False | Some t \<Rightarrow> \<not> now < t) m of
        (None, m1) \<Rightarrow> m1
      | (Some item, m1) \<Rightarrow>
          let m2 = snd (drainRemoved fails [item] m1) in
          (case rm_onExpire item of None \<Rightarrow> m2 | Some f \<Rightarrow> m2\<lparr>hm_out := hm_out m2 @ [OnExpire f (rm_closed item)]\<rparr>))"

definition expireDueChannels :: "(ident \<Rightarrow> channel_message \<Rightarrow> bool) \<Rightarrow> int \<Rightarrow> channel_manager \<Rightarrow> channel_manager" where
  "expireDueChannels fails now m =
     (case drain_due (expiry_key m) (\<lambda>r. deadline_At (ch_expiresAt (obj m r))) queue_top hpop now (heap_Len (hm_expiries m)) (hm_expiries m) of
        (due, h) \<Rightarrow>
          let m1 = resetExpiryTimerLocked now (m\<lparr>hm_expiries := h\<rparr>)
          in fold (expire_one fails now) (map (\<lambda>r. ch_id (obj m r)) due) m1)"

definition AuthorizedChannelIDsForUserWorker :: "range_fun \<Rightarrow> ident \<Rightarrow> ident \<Rightarrow> (channel_info \<Rightarrow> bool) option \<Rightarrow> channel_manager \<Rightarrow> ident list" where
  "AuthorizedChannelIDsForUserWorker it userID workerID authorize m =
     filter (\<lambda>i. case fmlookup (hm_channels m) i of None \<Rightarrow> False
               | Some r \<Rightarrow> ch_worker (obj m r) = workerID \<and> (case authorize of None \<Rightarrow> True | Some p \<Rightarrow> p (channelInfo (obj m r))))
       (it (get_or {||} id (fmlookup (hm_byUser m) userID)))"

section \<open>Relaying\<close>

definition SendToFrontendIf :: "(ident \<Rightarrow> channel_message \<Rightarrow> bool) \<Rightarrow> channel_message \<Rightarrow> (channel_info \<Rightarrow> bool) option \<Rightarrow> channel_manager \<Rightarrow>
    bool \<times> channel_manager" where
  "SendToFrontendIf fails msg authorize m = (case acquireChannelOp (cm_channel msg) m of
     None \<Rightarrow> (False, m)
   | Some r \<Rightarrow>
       if \<not> channelLiveLocked (cm_channel msg) r m then (False, m)
       else if (case authorize of None \<Rightarrow> False | Some p \<Rightarrow> \<not> p (channelInfo (obj m r))) then (False, m)
       else (case getConnSender (ch_user (obj m r)) (ch_conn (obj m r)) m of
               None \<Rightarrow> (False, m)
             | Some s \<Rightarrow> deliver fails s msg m))"

definition SendToFrontend :: "(ident \<Rightarrow> channel_message \<Rightarrow> bool) \<Rightarrow> channel_message \<Rightarrow> channel_manager \<Rightarrow> bool \<times> channel_manager" where
  "SendToFrontend fails msg m = SendToFrontendIf fails msg None m"

datatype relay_error = OutOfSpecFlags int | TrackFailed track_error | SenderUnavailable | SendToFrontendFailed

text \<open>Whether the channel is the worker's, the connection it is bound to, the error.\<close>

definition RelayWorkerMessage :: "(ident \<Rightarrow> channel_message \<Rightarrow> bool) \<Rightarrow> channel_message \<Rightarrow> ident \<Rightarrow> channel_manager \<Rightarrow>
    (bool \<times> ident \<times> relay_error option) \<times> channel_manager" where
  "RelayWorkerMessage fails msg workerID m = (case acquireChannelOp (cm_channel msg) m of
     None \<Rightarrow> ((False, empty_id, None), m)
   | Some r \<Rightarrow>
       if \<not> channelLiveLocked (cm_channel msg) r m \<or> ch_worker (obj m r) \<noteq> workerID then ((False, empty_id, None), m)
       else let connID = ch_conn (obj m r); sender = getConnSender (ch_user (obj m r)) connID m in
         (case ChunkContinuation (cm_flags msg) of (cont, valid) \<Rightarrow>
            if \<not> valid then ((True, connID, Some (OutOfSpecFlags (cm_flags msg))), m)
            else (case Track DefaultMaxMessageSize (cm_channel msg) ''w2fe'' (cm_corr msg) (length (cm_ciphertext msg)) cont (hm_tracker m) of
                (Some e, ct) \<Rightarrow> ((True, connID, Some (TrackFailed e)), m\<lparr>hm_tracker := ct\<rparr>)
              | (None, ct) \<Rightarrow>
                  let m1 = m\<lparr>hm_tracker := ct\<rparr> in
                  (case sender of None \<Rightarrow> ((True, connID, Some SenderUnavailable), m1)
                   | Some s \<Rightarrow> (case deliver fails s msg m1 of
                       (False, m2) \<Rightarrow> ((True, connID, Some SendToFrontendFailed), m2)
                     | (True, m2) \<Rightarrow> ((True, connID, None), m2))))))"

text \<open>The other direction (ws\_channel\_relay.go). The worker's connection is a parameter: none when it is
  offline, and whether a send on it fails.\<close>

definition relayFrontendMessageToWorker :: "(ident \<Rightarrow> (channel_message \<Rightarrow> bool) option) \<Rightarrow> channel_info \<Rightarrow> channel_message \<Rightarrow> channel_manager \<Rightarrow>
    unit option \<times> channel_manager" where
  "relayFrontendMessageToWorker conn info msg m =
     (if in_WorkerID info = empty_id then (None, m)
      else (case ChunkContinuation (cm_flags msg) of (cont, valid) \<Rightarrow>
        if \<not> valid then (Some (), m)
        else (case Track DefaultMaxMessageSize (in_ChannelID info) ''fe2w'' (cm_corr msg) (length (cm_ciphertext msg)) cont (hm_tracker m) of
            (Some e, ct) \<Rightarrow> (Some (), m\<lparr>hm_tracker := ct\<rparr>)
          | (None, ct) \<Rightarrow>
              let m1 = m\<lparr>hm_tracker := ct\<rparr> in
              (case conn (in_WorkerID info) of None \<Rightarrow> (Some (), m1)
               | Some fails \<Rightarrow> if fails msg then (Some (), m1)
                   else (None, m1\<lparr>hm_out := hm_out m1 @ [Delivered (in_WorkerID info) msg]\<rparr>)))))"

definition SendToUser :: "range_fun \<Rightarrow> (ident \<Rightarrow> channel_message \<Rightarrow> bool) \<Rightarrow> ident \<Rightarrow> channel_message \<Rightarrow> channel_manager \<Rightarrow> channel_manager" where
  "SendToUser it fails userID msg m = (case fmlookup (hm_senders m) userID of None \<Rightarrow> m
     | Some conns \<Rightarrow> fold (\<lambda>(_, uc) m. snd (deliver fails (uc_send uc) msg m)) (go_range it conns) m)"

definition GetChannelInfo :: "ident \<Rightarrow> channel_manager \<Rightarrow> channel_info option" where
  "GetChannelInfo channelID m = map_option (\<lambda>r. channelInfo (obj m r)) (fmlookup (hm_channels m) channelID)"

definition channel_Exists :: "ident \<Rightarrow> channel_manager \<Rightarrow> bool" where
  "channel_Exists channelID m \<longleftrightarrow> fmlookup (hm_channels m) channelID \<noteq> None"

section \<open>Who may use a channel\<close>

definition userCanUseChannel :: "user_info option \<Rightarrow> auth_info \<Rightarrow> ident \<Rightarrow> bool" where
  "userCanUseChannel user channelAuth channelUserID = (case user of None \<Rightarrow> False
     | Some u \<Rightarrow> if \<not> uid_Matches (ui_id u) channelUserID then False
         else cred_Matches (ai_credential channelAuth) (ui_credential u))"

definition channelWorkspaceUpdateAuthorized :: "credential_identity \<Rightarrow> ident \<Rightarrow> channel_info \<Rightarrow> bool" where
  "channelWorkspaceUpdateAuthorized caller workspaceID info =
     (let c = ai_credential (in_AuthInfo info); channelScope = WorkspaceScopeID c in
      if IsDelegation caller then cred_Matches c caller \<and> channelScope = workspaceID
      else channelScope = empty_id \<or> channelScope = workspaceID)"

definition channelClosedByWorkspaceRemoval :: "ident \<Rightarrow> channel_info \<Rightarrow> bool" where
  "channelClosedByWorkspaceRemoval workspaceID info =
     (let scope = WorkspaceScopeID (ai_credential (in_AuthInfo info)) in scope = empty_id \<or> scope = workspaceID)"

text \<open>One message of the relay's read loop: routed under the user's authorization, and the channel closed
  when it cannot go on. What is closed is handed to the dispatcher.\<close>

definition relay_message :: "(ident \<Rightarrow> channel_message \<Rightarrow> bool) \<Rightarrow> (ident \<Rightarrow> (channel_message \<Rightarrow> bool) option) \<Rightarrow> int \<Rightarrow> user_info \<Rightarrow> ident \<Rightarrow>
    channel_message \<Rightarrow> channel_manager \<Rightarrow> closed_channel list \<times> channel_manager" where
  "relay_message fails conn now user connID msg m =
     (if cm_channel msg = empty_id then ([], m)
      else let may = (\<lambda>info. userCanUseChannel (Some user) (in_AuthInfo info) (in_UserID info)) in
        (case UseAuthorizedChannel (cm_channel msg) connID may (\<lambda>info. relayFrontendMessageToWorker conn info msg) m of
           (None, m1) \<Rightarrow> ([], m1)
         | (Some (_, err), m1) \<Rightarrow> if err \<noteq> None then CloseByIDIf fails now (cm_channel msg) may m1 else ([], m1)))"

end
