(* ===== verification/Tokens.thy ===== *)
theory Tokens
  imports ChannelMgr
begin

text \<open>
  Bearer tokens and sessions (internal/hub/auth: api\_token.go, bearer.go and \<open>ValidateToken\<close> of
  auth.go): the wire form of a bearer, and how a presented credential becomes a user. The rows come from
  the store, which is a parameter and may fail; the keyed hash of a secret is a parameter.
\<close>

section \<open>The wire form of a bearer\<close>

definition TokenPrefix :: string where
  "TokenPrefix = ''lmx_''"

datatype token_error = ErrInvalidToken | ErrTokenExpired | ErrTokenRevoked | ErrRefreshReused
  | UserNotFound | UserIsDeleted | InvalidOrExpired

definition kind_char :: "bearer_kind \<Rightarrow> char" where
  "kind_char k = (case k of BearerKindAPI \<Rightarrow> CHR ''a'' | BearerKindDelegation \<Rightarrow> CHR ''d'')"

text \<open>A byte that names no kind is \<open>None\<close>.\<close>

definition char_kind :: "char \<Rightarrow> bearer_kind option" where
  "char_kind c = (if c = CHR ''a'' then Some BearerKindAPI else if c = CHR ''d'' then Some BearerKindDelegation else None)"

definition FormatBearer :: "bearer_kind \<Rightarrow> ident \<Rightarrow> string \<Rightarrow> string" where
  "FormatBearer kind tokenID secret = TokenPrefix @ [kind_char kind] @ tokenID @ ''_'' @ secret"

definition HasPrefix :: "string \<Rightarrow> string \<Rightarrow> bool" where
  "HasPrefix s p \<longleftrightarrow> length p \<le> length s \<and> take (length p) s = p"

definition IsLeapMuxBearer :: "string \<Rightarrow> bool" where
  "IsLeapMuxBearer token \<longleftrightarrow> HasPrefix token TokenPrefix"

text \<open>\<open>strings.Index\<close> for one byte.\<close>

fun IndexByte :: "string \<Rightarrow> char \<Rightarrow> nat option" where
  "IndexByte [] c = None"
| "IndexByte (x # xs) c = (if x = c then Some 0 else map_option Suc (IndexByte xs c))"

definition ParseBearer :: "string \<Rightarrow> token_error + (bearer_kind \<times> ident \<times> string)" where
  "ParseBearer bearer =
     (if \<not> HasPrefix bearer TokenPrefix then Inl ErrInvalidToken
      else case drop (length TokenPrefix) bearer of
        [] \<Rightarrow> Inl ErrInvalidToken
      | c # rest \<Rightarrow>
          (case char_kind c of None \<Rightarrow> Inl ErrInvalidToken
           | Some k \<Rightarrow> (case IndexByte rest (CHR ''_'') of None \<Rightarrow> Inl ErrInvalidToken
               | Some idx \<Rightarrow> if idx = 0 \<or> idx + 1 \<ge> length rest then Inl ErrInvalidToken
                   else Inr (k, take idx rest, drop (idx + 1) rest))))"

definition BearerPrefix :: string where
  "BearerPrefix = ''Bearer ''"

text \<open>The white space \<open>strings.TrimSpace\<close> cuts, in UTF-8.\<close>

definition space_runes :: "string list" where
  "space_runes = [[CHR 0x09], [CHR 0x0A], [CHR 0x0B], [CHR 0x0C], [CHR 0x0D], [CHR 0x20], [CHR 0xC2, CHR 0x85], [CHR 0xC2, CHR 0xA0],
     [CHR 0xE1, CHR 0x9A, CHR 0x80], [CHR 0xE2, CHR 0x80, CHR 0xA8], [CHR 0xE2, CHR 0x80, CHR 0xA9], [CHR 0xE2, CHR 0x80, CHR 0xAF],
     [CHR 0xE2, CHR 0x81, CHR 0x9F], [CHR 0xE3, CHR 0x80, CHR 0x80]] @
     map (\<lambda>n. [CHR 0xE2, CHR 0x80, char_of (0x80 + n)]) [0 ..< 11 :: nat]"

function trim_left :: "string list \<Rightarrow> string \<Rightarrow> string" where
  "trim_left rs s = (case find (\<lambda>r. r \<noteq> [] \<and> HasPrefix s r) rs of None \<Rightarrow> s | Some r \<Rightarrow> trim_left rs (drop (length r) s))"
  by pat_completeness auto
termination
proof (relation "measure (length o snd)")
  fix rs s and r :: string assume "find (\<lambda>r. r \<noteq> [] \<and> HasPrefix s r) rs = Some r"
  then have "r \<noteq> []" "length r \<le> length s" by (auto simp: find_Some_iff HasPrefix_def)
  then show "((rs, drop (length r) s), (rs, s)) \<in> measure (length o snd)" by (cases r; cases s) auto
qed simp

definition TrimSpace :: "string \<Rightarrow> string" where
  "TrimSpace s = rev (trim_left (map rev space_runes) (rev (trim_left space_runes s)))"

definition BearerToken :: "string \<Rightarrow> string option" where
  "BearerToken header =
     (if \<not> HasPrefix header BearerPrefix then None
      else let tok = TrimSpace (drop (length BearerPrefix) header) in if tok = [] then None else Some tok)"

section \<open>Rows and users\<close>

record auth_user = user_info +
  au_org :: ident
  au_username :: string
  au_admin :: bool
  au_email :: string
  au_verified :: bool
  au_since :: int
  au_expires :: deadline
  au_user_gen :: int
  au_gen :: nat

definition CredentialCurrent :: "auth_user \<Rightarrow> int \<Rightarrow> bool" where
  "CredentialCurrent u now = IsCurrent (au_expires u) now"

text \<open>A NULL column is \<open>None\<close>; an empty hash is a missing one.\<close>

record api_token =
  ap_id :: ident
  ap_user :: ident
  ap_secret :: string
  ap_refresh :: string
  ap_previous :: string
  ap_previous_expires :: "int option"
  ap_created :: int
  ap_generation :: int
  ap_expires :: "int option"
  ap_refresh_expires :: "int option"
  ap_revoked :: "int option"

record delegation_token =
  dt_id :: ident
  dt_user :: ident
  dt_worker :: ident
  dt_workspace :: ident
  dt_secret :: string
  dt_refresh :: string
  dt_created :: int
  dt_generation :: int
  dt_expires :: int
  dt_revoked :: "int option"

record user_row =
  us_id :: ident
  us_org :: ident
  us_username :: string
  us_email :: string
  us_verified :: bool
  us_admin :: bool
  us_generation :: int
  us_deleted :: "int option"

record session_row =
  se_user :: ident
  se_org :: ident
  se_username :: string
  se_admin :: bool
  se_verified :: bool
  se_email :: string
  se_created :: int
  se_expires :: int
  se_generation :: int

record ('w, 'e) token_store =
  GetAPIToken :: "ident \<Rightarrow> 'w \<Rightarrow> ('e store_error + api_token) \<times> 'w"
  GetDelegationToken :: "ident \<Rightarrow> 'w \<Rightarrow> ('e store_error + delegation_token) \<times> 'w"
  GetUserByID :: "ident \<Rightarrow> 'w \<Rightarrow> ('e store_error + user_row) \<times> 'w"
  ValidateWithUser :: "ident \<Rightarrow> 'w \<Rightarrow> ('e store_error + session_row) \<times> 'w"
  RevokeAPIToken :: "ident \<Rightarrow> 'w \<Rightarrow> 'e store_error option \<times> 'w"
  TouchToken :: "bearer_kind \<Rightarrow> ident \<Rightarrow> 'w \<Rightarrow> 'w"

datatype 'e auth_error = CodeUnauthenticated token_error | CodeInternal "'e store_error" | PlainError token_error | PlainStore "'e store_error"

definition IsExpired :: "int \<Rightarrow> int \<Rightarrow> bool" where
  "IsExpired now expiresAt \<longleftrightarrow> \<not> now < expiresAt"

definition loadUser :: "('w, 'e) token_store \<Rightarrow> ident \<Rightarrow> 'w \<Rightarrow> ('e auth_error + auth_user) \<times> 'w" where
  "loadUser st userID w = (case GetUserByID st userID w of
     (Inl ErrNotFound, w1) \<Rightarrow> (Inl (CodeUnauthenticated UserNotFound), w1)
   | (Inl e, w1) \<Rightarrow> (Inl (CodeInternal e), w1)
   | (Inr u, w1) \<Rightarrow>
       if us_deleted u \<noteq> None then (Inl (CodeUnauthenticated UserIsDeleted), w1)
       else (case New_userid (us_id u) of (i, ok) \<Rightarrow>
         if \<not> ok then (Inl (CodeUnauthenticated UserNotFound), w1)
         else (Inr \<lparr>ui_id = i, ui_credential = \<lparr>cr_kind = credentialNone, cr_id = [], cr_workspace_id = [], cr_worker_id = []\<rparr>,
                 au_org = us_org u, au_username = us_username u, au_admin = us_admin u, au_email = us_email u, au_verified = us_verified u,
                 au_since = 0, au_expires = Unset, au_user_gen = us_generation u, au_gen = 0\<rparr>, w1)))"

record row_fields =
  rf_revoked :: bool
  rf_expired :: bool
  rf_secret :: string
  rf_user :: ident
  rf_id :: ident
  rf_created :: int
  rf_expires :: int
  rf_generation :: int

definition validateRow :: "(string \<Rightarrow> string) \<Rightarrow> ('w, 'e) token_store \<Rightarrow> row_fields \<Rightarrow> string \<Rightarrow> 'w \<Rightarrow> ('e auth_error + auth_user) \<times> 'w" where
  "validateRow HashSecret st f secret w =
     (if HashSecret secret \<noteq> rf_secret f then (Inl (CodeUnauthenticated ErrInvalidToken), w)
      else if rf_revoked f then (Inl (CodeUnauthenticated ErrTokenRevoked), w)
      else if rf_expired f then (Inl (CodeUnauthenticated ErrTokenExpired), w)
      else (case loadUser st (rf_user f) w of
          (Inl e, w1) \<Rightarrow> (Inl e, w1)
        | (Inr user, w1) \<Rightarrow>
            if rf_generation f < au_user_gen user then (Inl (CodeUnauthenticated ErrTokenRevoked), w1)
            else (Inr (user\<lparr>au_since := rf_created f, au_expires := DeadlineAt (rf_expires f)\<rparr>), w1)))"

text \<open>What is loaded: the shared fields and the credential. The constructors of credentials panic on an
  empty id; the id of a parsed bearer is not empty, and the scope of a delegation is checked before.\<close>

definition loadBearer :: "('w, 'e) token_store \<Rightarrow> int \<Rightarrow> bearer_kind \<Rightarrow> ident \<Rightarrow> 'w \<Rightarrow>
    ('e auth_error + (row_fields \<times> credential_identity)) \<times> 'w" where
  "loadBearer st now kind tokenID w = (case kind of
     BearerKindAPI \<Rightarrow> (case GetAPIToken st tokenID w of
         (Inl ErrNotFound, w1) \<Rightarrow> (Inl (CodeUnauthenticated ErrInvalidToken), w1)
       | (Inl e, w1) \<Rightarrow> (Inl (CodeInternal e), w1)
       | (Inr api, w1) \<Rightarrow>
           (Inr (\<lparr>rf_revoked = ap_revoked api \<noteq> None,
                  rf_expired = (case ap_expires api of None \<Rightarrow> False | Some t \<Rightarrow> IsExpired now t),
                  rf_secret = ap_secret api, rf_user = ap_user api, rf_id = ap_id api, rf_created = ap_created api,
                  rf_expires = get_or 0 id (ap_expires api), rf_generation = ap_generation api\<rparr>,
                 \<lparr>cr_kind = credentialAPI, cr_id = tokenID, cr_workspace_id = [], cr_worker_id = []\<rparr>), w1))
   | BearerKindDelegation \<Rightarrow> (case GetDelegationToken st tokenID w of
         (Inl ErrNotFound, w1) \<Rightarrow> (Inl (CodeUnauthenticated ErrInvalidToken), w1)
       | (Inl e, w1) \<Rightarrow> (Inl (CodeInternal e), w1)
       | (Inr del, w1) \<Rightarrow>
           if dt_workspace del = [] \<or> dt_worker del = [] then (Inl (CodeUnauthenticated ErrInvalidToken), w1)
           else (Inr (\<lparr>rf_revoked = dt_revoked del \<noteq> None, rf_expired = IsExpired now (dt_expires del), rf_secret = dt_secret del,
                       rf_user = dt_user del, rf_id = dt_id del, rf_created = dt_created del, rf_expires = dt_expires del,
                       rf_generation = dt_generation del\<rparr>,
                      \<lparr>cr_kind = credentialDelegation, cr_id = tokenID, cr_workspace_id = dt_workspace del, cr_worker_id = dt_worker del\<rparr>), w1)))"

definition ValidateBearer :: "(string \<Rightarrow> string) \<Rightarrow> ('w, 'e) token_store \<Rightarrow> int \<Rightarrow> string \<Rightarrow> 'w \<Rightarrow> ('e auth_error + auth_user) \<times> 'w" where
  "ValidateBearer HashSecret st now bearer w = (case ParseBearer bearer of
     Inl e \<Rightarrow> (Inl (CodeUnauthenticated e), w)
   | Inr (kind, tokenID, secret) \<Rightarrow>
       (case loadBearer st now kind tokenID w of
          (Inl e, w1) \<Rightarrow> (Inl e, w1)
        | (Inr (loaded, credential), w1) \<Rightarrow>
            (case validateRow HashSecret st loaded secret w1 of
               (Inl e, w2) \<Rightarrow> (Inl e, w2)
             | (Inr user, w2) \<Rightarrow> (Inr (user\<lparr>ui_credential := credential\<rparr>), TouchToken st kind (rf_id loaded) w2))))"

definition ValidateToken :: "('w, 'e) token_store \<Rightarrow> ident \<Rightarrow> 'w \<Rightarrow> ('e auth_error + auth_user) \<times> 'w" where
  "ValidateToken st token w = (case ValidateWithUser st token w of
     (Inl ErrNotFound, w1) \<Rightarrow> (Inl (CodeUnauthenticated InvalidOrExpired), w1)
   | (Inl e, w1) \<Rightarrow> (Inl (PlainStore e), w1)
   | (Inr row, w1) \<Rightarrow> (case New_userid (se_user row) of (i, ok) \<Rightarrow>
       if \<not> ok then (Inl (CodeUnauthenticated InvalidOrExpired), w1)
       else (Inr \<lparr>ui_id = i, ui_credential = \<lparr>cr_kind = credentialSession, cr_id = token, cr_workspace_id = [], cr_worker_id = []\<rparr>,
               au_org = se_org row, au_username = se_username row, au_admin = se_admin row, au_email = se_email row,
               au_verified = se_verified row, au_since = se_created row, au_expires = DeadlineAt (se_expires row),
               au_user_gen = se_generation row, au_gen = 0\<rparr>, w1)))"

section \<open>Revocation and refresh by the holder of a secret\<close>

definition lookupRowSecretHashes :: "('w, 'e) token_store \<Rightarrow> bearer_kind \<Rightarrow> ident \<Rightarrow> 'w \<Rightarrow> ('e store_error + (ident \<times> string list)) \<times> 'w" where
  "lookupRowSecretHashes st kind tokenID w = (case kind of
     BearerKindAPI \<Rightarrow> (case GetAPIToken st tokenID w of (Inl e, w1) \<Rightarrow> (Inl e, w1)
       | (Inr row, w1) \<Rightarrow> (Inr (ap_id row, [ap_secret row, ap_refresh row, ap_previous row]), w1))
   | BearerKindDelegation \<Rightarrow> (case GetDelegationToken st tokenID w of (Inl e, w1) \<Rightarrow> (Inl e, w1)
       | (Inr row, w1) \<Rightarrow> (Inr (dt_id row, [dt_secret row, dt_refresh row]), w1)))"

definition VerifyBearerSecret :: "(string \<Rightarrow> string) \<Rightarrow> ('w, 'e) token_store \<Rightarrow> string \<Rightarrow> 'w \<Rightarrow> ('e auth_error + (bearer_kind \<times> ident)) \<times> 'w" where
  "VerifyBearerSecret HashSecret st bearer w = (case ParseBearer bearer of
     Inl _ \<Rightarrow> (Inl (PlainError ErrInvalidToken), w)
   | Inr (kind, tokenID, secret) \<Rightarrow> (case lookupRowSecretHashes st kind tokenID w of
       (Inl ErrNotFound, w1) \<Rightarrow> (Inl (PlainError ErrInvalidToken), w1)
     | (Inl e, w1) \<Rightarrow> (Inl (PlainStore e), w1)
     | (Inr (i, hashes), w1) \<Rightarrow>
         if \<exists>h \<in> set hashes. h \<noteq> [] \<and> HashSecret secret = h then (Inr (kind, i), w1) else (Inl (PlainError ErrInvalidToken), w1)))"

definition validateCredentialGeneration :: "('w, 'e) token_store \<Rightarrow> ident \<Rightarrow> int \<Rightarrow> 'w \<Rightarrow> 'e auth_error option \<times> 'w" where
  "validateCredentialGeneration st userID credentialGeneration w = (case GetUserByID st userID w of
     (Inl ErrNotFound, w1) \<Rightarrow> (Some (PlainError ErrTokenRevoked), w1)
   | (Inl e, w1) \<Rightarrow> (Some (PlainStore e), w1)
   | (Inr u, w1) \<Rightarrow> if us_deleted u \<noteq> None \<or> credentialGeneration < us_generation u then (Some (PlainError ErrTokenRevoked), w1) else (None, w1))"

definition ValidateAPIRefresh :: "(string \<Rightarrow> string) \<Rightarrow> ('w, 'e) token_store \<Rightarrow> int \<Rightarrow> string \<Rightarrow> 'w \<Rightarrow> ('e auth_error + (api_token \<times> bool)) \<times> 'w" where
  "ValidateAPIRefresh HashSecret st now refresh w = (case ParseBearer refresh of
     Inl e \<Rightarrow> (Inl (PlainError e), w)
   | Inr (kind, tokenID, secret) \<Rightarrow>
       if kind \<noteq> BearerKindAPI then (Inl (PlainError ErrInvalidToken), w)
       else (case GetAPIToken st tokenID w of
           (Inl ErrNotFound, w1) \<Rightarrow> (Inl (PlainError ErrInvalidToken), w1)
         | (Inl e, w1) \<Rightarrow> (Inl (PlainStore e), w1)
         | (Inr row, w1) \<Rightarrow>
             let hashed = HashSecret secret;
                 currentMatches = (ap_refresh row \<noteq> [] \<and> hashed = ap_refresh row);
                 previousMatches = (ap_previous row \<noteq> [] \<and> hashed = ap_previous row)
             in if \<not> currentMatches \<and> \<not> previousMatches then (Inl (PlainError ErrInvalidToken), w1)
                else if ap_revoked row \<noteq> None then (Inl (PlainError ErrTokenRevoked), w1)
                else if currentMatches then
                  (if (case ap_refresh_expires row of None \<Rightarrow> False | Some t \<Rightarrow> IsExpired now t) then (Inl (PlainError ErrTokenExpired), w1)
                   else (case validateCredentialGeneration st (ap_user row) (ap_generation row) w1 of
                       (Some e, w2) \<Rightarrow> (Inl e, w2) | (None, w2) \<Rightarrow> (Inr (row, False), w2)))
                else if (case ap_previous_expires row of None \<Rightarrow> False | Some t \<Rightarrow> \<not> IsExpired now t) then
                  (case validateCredentialGeneration st (ap_user row) (ap_generation row) w1 of
                     (Some e, w2) \<Rightarrow> (Inl e, w2) | (None, w2) \<Rightarrow> (Inr (row, True), w2))
                else (case RevokeAPIToken st (ap_id row) w1 of
                    (Some e, w2) \<Rightarrow> (Inl (PlainStore e), w2) | (None, w2) \<Rightarrow> (Inl (PlainError ErrRefreshReused), w2))))"

record minted_pair =
  mp_access :: string
  mp_refresh :: string
  mp_access_hash :: string
  mp_refresh_hash :: string
  mp_access_expires :: int
  mp_refresh_expires :: int

definition newBearerPair :: "(string \<Rightarrow> string) \<Rightarrow> bearer_kind \<Rightarrow> ident \<Rightarrow> string \<Rightarrow> string \<Rightarrow> int \<Rightarrow> int \<Rightarrow> int \<Rightarrow> minted_pair" where
  "newBearerPair HashSecret kind tokenID access refresh now accessTTL refreshTTL =
     \<lparr>mp_access = FormatBearer kind tokenID access, mp_refresh = FormatBearer kind tokenID refresh,
      mp_access_hash = HashSecret access, mp_refresh_hash = HashSecret refresh,
      mp_access_expires = now + accessTTL, mp_refresh_expires = now + refreshTTL\<rparr>"

text \<open>The next pair of a refreshed token. The keyed hash of a message and its base64 form are parameters.\<close>

definition deriveRefreshSecret :: "(string \<Rightarrow> string) \<Rightarrow> string \<Rightarrow> bearer_kind \<Rightarrow> ident \<Rightarrow> string \<Rightarrow> string" where
  "deriveRefreshSecret mac64 purpose kind tokenID refreshHash =
     mac64 (''leapmux-refresh-pair-v1'' @ [CHR 0x00, kind_char kind, CHR 0x00] @ tokenID @ [CHR 0x00] @ purpose @ [CHR 0x00] @ refreshHash)"

definition DeriveRefreshBearerPair :: "(string \<Rightarrow> string) \<Rightarrow> (string \<Rightarrow> string) \<Rightarrow> bearer_kind \<Rightarrow> ident \<Rightarrow> string \<Rightarrow> int \<Rightarrow> int \<Rightarrow> int \<Rightarrow> minted_pair" where
  "DeriveRefreshBearerPair HashSecret mac64 kind tokenID refreshHash now accessTTL refreshTTL =
     newBearerPair HashSecret kind tokenID (deriveRefreshSecret mac64 ''access'' kind tokenID refreshHash)
       (deriveRefreshSecret mac64 ''refresh'' kind tokenID refreshHash) now accessTTL refreshTTL"

section \<open>Formatting and parsing\<close>

lemma HasPrefix_append: "HasPrefix (p @ s) p"
  by (simp add: HasPrefix_def)

lemma HasPrefix_split: "HasPrefix s p \<Longrightarrow> s = p @ drop (length p) s"
  by (metis HasPrefix_def append_take_drop_id)

lemma IndexByte_Some:
  "IndexByte xs c = Some n \<longleftrightarrow> n < length xs \<and> xs ! n = c \<and> c \<notin> set (take n xs)"
proof (induction xs arbitrary: n)
  case (Cons x xs)
  show ?case using Cons.IH by (cases n) auto
qed simp

lemma IndexByte_append: "c \<notin> set xs \<Longrightarrow> IndexByte (xs @ c # ys) c = Some (length xs)"
  by (induction xs) auto

lemma char_kind_char [simp]: "char_kind (kind_char k) = Some k"
  by (cases k) (simp_all add: char_kind_def kind_char_def)

lemma char_kind_Some: "char_kind c = Some k \<longleftrightarrow> c = kind_char k"
  by (cases k) (auto simp: char_kind_def kind_char_def)

lemma ParseBearer_iff:
  "ParseBearer b = Inr (k, i, s) \<longleftrightarrow> b = FormatBearer k i s \<and> i \<noteq> [] \<and> CHR ''_'' \<notin> set i \<and> s \<noteq> []"
proof
  assume "b = FormatBearer k i s \<and> i \<noteq> [] \<and> CHR ''_'' \<notin> set i \<and> s \<noteq> []"
  then have b: "b = TokenPrefix @ kind_char k # i @ CHR ''_'' # s" and i: "i \<noteq> []" "CHR ''_'' \<notin> set i" and s: "s \<noteq> []"
    by (simp_all add: FormatBearer_def)
  have "HasPrefix b TokenPrefix" "drop (length TokenPrefix) b = kind_char k # i @ CHR ''_'' # s" by (simp_all add: b HasPrefix_append)
  then show "ParseBearer b = Inr (k, i, s)" using i s by (simp add: ParseBearer_def IndexByte_append)
next
  assume p: "ParseBearer b = Inr (k, i, s)"
  then have pre: "HasPrefix b TokenPrefix" by (auto simp: ParseBearer_def split: if_splits)
  obtain c rest where d: "drop (length TokenPrefix) b = c # rest" and k: "char_kind c = Some k" and
      idx: "\<exists>n. IndexByte rest (CHR ''_'') = Some n \<and> n \<noteq> 0 \<and> n + 1 < length rest \<and> i = take n rest \<and> s = drop (n + 1) rest"
    using p pre by (auto simp: ParseBearer_def split: list.splits option.splits if_splits)
  then obtain n where n: "IndexByte rest (CHR ''_'') = Some n" "n \<noteq> 0" "n + 1 < length rest" "i = take n rest" "s = drop (n + 1) rest" by blast
  then have at: "n < length rest" "rest ! n = CHR ''_''" "CHR ''_'' \<notin> set i" by (auto simp: IndexByte_Some)
  have "rest = i @ CHR ''_'' # s" using id_take_nth_drop [OF at(1)] at(2) n(4,5) by simp
  then have "b = FormatBearer k i s" using HasPrefix_split [OF pre] d k by (simp add: FormatBearer_def char_kind_Some)
  then show "b = FormatBearer k i s \<and> i \<noteq> [] \<and> CHR ''_'' \<notin> set i \<and> s \<noteq> []" using n at by auto
qed

text \<open>A bearer and its parts determine each other. Parsing gives the kind, the id and the secret exactly
  for the string that formatting makes of them, when the id is not empty and free of the separator and
  the secret is not empty; every other string is rejected.
\<close>

theorem bearer_roundtrip:
  "ParseBearer b = Inr (k, i, s) \<longleftrightarrow> b = FormatBearer k i s \<and> i \<noteq> [] \<and> CHR ''_'' \<notin> set i \<and> s \<noteq> []"
  by (rule ParseBearer_iff)

section \<open>Validation\<close>






text \<open>A lookup of a token that the store answers, with a row whose access secret is not the one presented or with none.\<close>

definition secret_unknown :: "(string \<Rightarrow> string) \<Rightarrow> ('w, 'e) token_store \<Rightarrow> bearer_kind \<Rightarrow> ident \<Rightarrow> string \<Rightarrow> 'w \<Rightarrow> bool" where
  "secret_unknown HashSecret st k i s w = (case k of
     BearerKindAPI \<Rightarrow> (case fst (GetAPIToken st i w) of Inl e \<Rightarrow> e = ErrNotFound | Inr row \<Rightarrow> HashSecret s \<noteq> ap_secret row)
   | BearerKindDelegation \<Rightarrow> (case fst (GetDelegationToken st i w) of Inl e \<Rightarrow> e = ErrNotFound | Inr row \<Rightarrow> HashSecret s \<noteq> dt_secret row))"

text \<open>Without the secret a bearer tells nothing. Whether the row exists, is revoked, expired or malformed,
  and whoever its user is, a bearer with a wrong secret gets one and the same answer, and the store is
  read once and not written.
\<close>

theorem wrong_secret_uniform:
  assumes "ParseBearer b = Inr (k, i, s)" "secret_unknown H st k i s w"
  shows "ValidateBearer H st now b w =
    (Inl (CodeUnauthenticated ErrInvalidToken),
     case k of BearerKindAPI \<Rightarrow> snd (GetAPIToken st i w) | BearerKindDelegation \<Rightarrow> snd (GetDelegationToken st i w))"
  using assms
  by (auto simp: ValidateBearer_def loadBearer_def validateRow_def secret_unknown_def
      split: bearer_kind.splits prod.splits sum.splits store_error.splits)

definition refresh_current :: "(string \<Rightarrow> string) \<Rightarrow> string \<Rightarrow> api_token \<Rightarrow> bool" where
  "refresh_current HashSecret s row \<longleftrightarrow> ap_refresh row \<noteq> [] \<and> HashSecret s = ap_refresh row"

definition refresh_previous :: "(string \<Rightarrow> string) \<Rightarrow> string \<Rightarrow> api_token \<Rightarrow> bool" where
  "refresh_previous HashSecret s row \<longleftrightarrow> ap_previous row \<noteq> [] \<and> HashSecret s = ap_previous row"

definition refresh_grace :: "int \<Rightarrow> api_token \<Rightarrow> bool" where
  "refresh_grace now row = (case ap_previous_expires row of None \<Rightarrow> False | Some t \<Rightarrow> now < t)"

text \<open>C28: Refreshing. A refresh token is accepted for a row that is not revoked and whose user is not past its
  generation, when it is the current one and has not expired, or the one before within its grace window. The one
  before, presented after that window, is never accepted and revokes the row.
\<close>

theorem refresh_exact:
  assumes "ParseBearer b = Inr (BearerKindAPI, i, s)" "GetAPIToken st i w = (Inr row, w1)"
  shows "((\<exists>retry w2. ValidateAPIRefresh H st now b w = (Inr (row, retry), w2)) \<longleftrightarrow>
      ap_revoked row = None \<and> fst (validateCredentialGeneration st (ap_user row) (ap_generation row) w1) = None \<and>
      (if refresh_current H s row then (case ap_refresh_expires row of None \<Rightarrow> True | Some t \<Rightarrow> now < t) else refresh_previous H s row \<and> refresh_grace now row)) \<and>
    (ap_revoked row = None \<and> \<not> refresh_current H s row \<and> refresh_previous H s row \<and> \<not> refresh_grace now row \<longrightarrow>
      snd (ValidateAPIRefresh H st now b w) = snd (RevokeAPIToken st (ap_id row) w1))"
proof -
  obtain g w2 where g: "validateCredentialGeneration st (ap_user row) (ap_generation row) w1 = (g, w2)" by fastforce
  obtain rv w3 where rv: "RevokeAPIToken st (ap_id row) w1 = (rv, w3)" by fastforce
  have grace: "(case ap_previous_expires row of None \<Rightarrow> False | Some t \<Rightarrow> \<not> IsExpired now t) = refresh_grace now row"
    by (simp add: refresh_grace_def IsExpired_def split: option.splits)
  have run: "ValidateAPIRefresh H st now b w =
    (if \<not> refresh_current H s row \<and> \<not> refresh_previous H s row then (Inl (PlainError ErrInvalidToken), w1)
     else if ap_revoked row \<noteq> None then (Inl (PlainError ErrTokenRevoked), w1)
     else if refresh_current H s row then (if (case ap_refresh_expires row of None \<Rightarrow> False | Some t \<Rightarrow> IsExpired now t) then (Inl (PlainError ErrTokenExpired), w1)
                   else (case g of Some e \<Rightarrow> (Inl e, w2) | None \<Rightarrow> (Inr (row, False), w2)))
     else if refresh_grace now row then (case g of Some e \<Rightarrow> (Inl e, w2) | None \<Rightarrow> (Inr (row, True), w2))
     else (case rv of Some e \<Rightarrow> (Inl (PlainStore e), w3) | None \<Rightarrow> (Inl (PlainError ErrRefreshReused), w3)))"
    by (simp add: ValidateAPIRefresh_def assms(1,2) g rv refresh_current_def refresh_previous_def grace Let_def del: not_None_eq)
  show ?thesis unfolding run g rv
    by (auto simp: IsExpired_def split: option.splits)
qed

section \<open>The properties at concrete inputs\<close>

text \<open>A store with one user, a live and a revoked token, and one delegation; secrets hash to themselves.\<close>

definition one_user :: user_row where
  "one_user = \<lparr>us_id = ''u'', us_org = ''o'', us_username = ''ann'', us_email = [], us_verified = True, us_admin = False, us_generation = 1, us_deleted = None\<rparr>"

definition one_api :: api_token where
  "one_api = \<lparr>ap_id = ''t'', ap_user = ''u'', ap_secret = ''s'', ap_refresh = ''r2'', ap_previous = ''r1'', ap_previous_expires = Some 5, ap_created = 1,
     ap_generation = 1, ap_expires = Some 10, ap_refresh_expires = None, ap_revoked = None\<rparr>"

definition one_store :: "(nat, unit) token_store" where
  "one_store = \<lparr>GetAPIToken = (\<lambda>i w. (if i = ''t'' then Inr one_api else Inl ErrNotFound, w)),
     GetDelegationToken = (\<lambda>_ w. (Inl ErrNotFound, w)), GetUserByID = (\<lambda>_ w. (Inr one_user, w)),
     ValidateWithUser = (\<lambda>_ w. (Inl ErrNotFound, w)), RevokeAPIToken = (\<lambda>_ w. (None, Suc w)), TouchToken = (\<lambda>_ _ w. w)\<rparr>"

lemma one_parse: "ParseBearer ''lmx_at_s'' = Inr (BearerKindAPI, ''t'', ''s'')" "ParseBearer ''lmx_at_x'' = Inr (BearerKindAPI, ''t'', ''x'')"
    "ParseBearer ''lmx_at_r1'' = Inr (BearerKindAPI, ''t'', ''r1'')"
  by (simp_all add: ParseBearer_iff FormatBearer_def TokenPrefix_def kind_char_def)


theorem wrong_secret_uniform_witness: "ValidateBearer id one_store 3 ''lmx_at_x'' 0 = (Inl (CodeUnauthenticated ErrInvalidToken), 0)"
  using wrong_secret_uniform [OF one_parse(2), of id one_store 0 3] by (simp add: secret_unknown_def one_store_def one_api_def)

theorem refresh_exact_witness: "snd (ValidateAPIRefresh id one_store 7 ''lmx_at_r1'' 0) = 1"
proof -
  have "GetAPIToken one_store ''t'' 0 = (Inr one_api, 0)" "snd (RevokeAPIToken one_store (ap_id one_api) 0) = 1"
    "ap_revoked one_api = None \<and> \<not> refresh_current id ''r1'' one_api \<and> refresh_previous id ''r1'' one_api \<and> \<not> refresh_grace 7 one_api"
    by (simp_all add: one_store_def one_api_def refresh_current_def refresh_previous_def refresh_grace_def)
  then show ?thesis using refresh_exact [OF one_parse(3), of one_store 0 one_api 0 id 7] by simp
qed

end
