(* ===== verification/AuthCache.thy ===== *)
theory AuthCache
  imports Tokens
begin

text \<open>
  The in-memory authentication state of the hub (internal/hub/auth: interceptor.go,
  revocation\_ledger.go, lease\_registry.go, credential\_lifecycle.go): the caches of validated sessions
  and bearers with their reverse indexes, the marks that order validations against revocations, and the
  leases that tie long-lived connections to a credential. Concurrent maps are finite maps, the auth lock
  makes each call one step. The generation counter is unbounded here; in the code it is 64 bits wide
  and moves once per revocation. Instants are integers, in seconds, zero the zero time.
\<close>

section \<open>State\<close>

record mark =
  mk_gen :: nat
  mk_at :: int

record user_mark = mark +
  mk_user_gen :: int

record cached_session =
  ca_user :: auth_user
  ca_at :: int
  ca_gen :: nat

type_synonym bearer_key = "bearer_ref \<times> string"

text \<open>A timer is the instant it fires at and the epoch it was armed in.\<close>

record lease =
  le_user :: auth_user
  le_cancel :: ident
  le_timer :: "(int \<times> nat) option"
  le_epoch :: nat

record auth_state =
  as_lastTouch :: "(ident, int) fmap"
  as_sessions :: "(ident, cached_session) fmap"
  as_userSessions :: "(ident, ident fset) fmap"
  as_bearers :: "(bearer_key, cached_session) fmap"
  as_bearerKeys :: "(bearer_ref, bearer_key fset) fmap"
  as_userBearerKeys :: "(ident, bearer_key fset) fmap"
  as_bearerExpiries :: "(bearer_ref, deadline) fmap"
  as_sessionRevocations :: "(ident, mark) fmap"
  as_userRevocations :: "(ident, user_mark) fmap"
  as_userInvalidations :: "(ident, mark) fmap"
  as_bearerRevocations :: "(bearer_ref, mark) fmap"
  as_bearerInvalidations :: "(bearer_ref, mark) fmap"
  as_gen :: nat
  as_nextLease :: nat
  as_leases :: "(nat, lease) fmap"
  as_leasesBySession :: "(ident, nat fset) fmap"
  as_leasesByBearer :: "(bearer_ref, nat fset) fmap"
  as_leasesByUser :: "(ident, nat fset) fmap"
  as_cancelled :: "ident list"

definition new_auth :: auth_state where
  "new_auth = \<lparr>as_lastTouch = fmempty, as_sessions = fmempty, as_userSessions = fmempty, as_bearers = fmempty, as_bearerKeys = fmempty,
     as_userBearerKeys = fmempty, as_bearerExpiries = fmempty, as_sessionRevocations = fmempty, as_userRevocations = fmempty,
     as_userInvalidations = fmempty, as_bearerRevocations = fmempty, as_bearerInvalidations = fmempty, as_gen = 0, as_nextLease = 0,
     as_leases = fmempty, as_leasesBySession = fmempty, as_leasesByBearer = fmempty, as_leasesByUser = fmempty, as_cancelled = []\<rparr>"

definition sessionCacheTTL :: int where "sessionCacheTTL = 30"
definition SessionDuration :: int where "SessionDuration = 24 * 60 * 60"
definition sessionTouchThreshold :: int where "sessionTouchThreshold = 5 * 60"

text \<open>The orders in which the loops over maps visit their keys.\<close>

record ranges =
  rg_ids :: "ident fset \<Rightarrow> ident list"
  rg_keys :: "bearer_key fset \<Rightarrow> bearer_key list"
  rg_leases :: "nat fset \<Rightarrow> nat list"

definition ranges_ok :: "ranges \<Rightarrow> bool" where
  "ranges_ok g \<longleftrightarrow> (\<forall>S. set (rg_ids g S) = fset S) \<and> (\<forall>S. set (rg_keys g S) = fset S) \<and> (\<forall>S. set (rg_leases g S) = fset S)"

section \<open>Reverse indexes\<close>

definition bucket :: "('k, 'e fset) fmap \<Rightarrow> 'k \<Rightarrow> 'e fset" where
  "bucket m k = get_or {||} id (fmlookup m k)"

definition indexSyncMap :: "'k \<Rightarrow> 'e \<Rightarrow> ('k, 'e fset) fmap \<Rightarrow> ('k, 'e fset) fmap" where
  "indexSyncMap k e m = fmupd k (finsert e (bucket m k)) m"

definition unindexSyncMap :: "'k \<Rightarrow> 'e \<Rightarrow> ('k, 'e fset) fmap \<Rightarrow> ('k, 'e fset) fmap" where
  "unindexSyncMap k e m = (case fmlookup m k of None \<Rightarrow> m
     | Some es \<Rightarrow> let es' = es |-| {|e|} in if es' = {||} then fmdrop k m else fmupd k es' m)"

definition indexLease :: "'k \<Rightarrow> nat \<Rightarrow> ('k, nat fset) fmap \<Rightarrow> ('k, nat fset) fmap" where
  "indexLease k i m = fmupd k (finsert i (bucket m k)) m"

definition removeLeaseIndex :: "'k \<Rightarrow> nat \<Rightarrow> ('k, nat fset) fmap \<Rightarrow> ('k, nat fset) fmap" where
  "removeLeaseIndex k i m = (let ids = bucket m k |-| {|i|} in if ids = {||} then fmdrop k m else fmupd k ids m)"

section \<open>Marks\<close>

definition bumpGeneration :: "auth_state \<Rightarrow> nat \<times> auth_state" where
  "bumpGeneration s = (Suc (as_gen s), s\<lparr>as_gen := Suc (as_gen s)\<rparr>)"

definition userRevokedAfter :: "(ident, user_mark) fmap \<Rightarrow> auth_user \<Rightarrow> nat \<Rightarrow> bool" where
  "userRevokedAfter m user cacheGeneration =
     (if uid_IsZero (ui_id user) then False
      else case fmlookup m (uid_id (ui_id user)) of None \<Rightarrow> False
        | Some k \<Rightarrow> if mk_user_gen k > 0 then au_user_gen user < mk_user_gen k else cacheGeneration < mk_gen k)"

definition recordRevocation :: "int \<Rightarrow> ident \<Rightarrow> nat \<Rightarrow> (ident, mark) fmap \<Rightarrow> (ident, mark) fmap" where
  "recordRevocation now key gen m = (if key = [] \<or> gen = 0 then m else fmupd key \<lparr>mk_gen = gen, mk_at = now\<rparr> m)"

definition recordBearerRevocation :: "int \<Rightarrow> bearer_ref \<Rightarrow> nat \<Rightarrow> (bearer_ref, mark) fmap \<Rightarrow> (bearer_ref, mark) fmap" where
  "recordBearerRevocation now ref gen m = (if \<not> bearer_IsValid ref \<or> gen = 0 then m else fmupd ref \<lparr>mk_gen = gen, mk_at = now\<rparr> m)"

definition revocationMarkAfter :: "('k, mark) fmap \<Rightarrow> 'k \<Rightarrow> nat \<Rightarrow> bool" where
  "revocationMarkAfter m key gen = (case fmlookup m key of None \<Rightarrow> False | Some k \<Rightarrow> gen < mk_gen k)"

definition bearerRevokedAfter :: "(bearer_ref, mark) fmap \<Rightarrow> bearer_ref \<Rightarrow> nat \<Rightarrow> bool" where
  "bearerRevokedAfter m ref gen = (if \<not> bearer_IsValid ref then False else revocationMarkAfter m ref gen)"

definition revokedAfter :: "(ident, mark) fmap \<Rightarrow> ident \<Rightarrow> nat \<Rightarrow> bool" where
  "revokedAfter m key gen = (if key = [] then False else revocationMarkAfter m key gen)"

definition userInvalidatedAfter :: "(ident, mark) fmap \<Rightarrow> ident \<Rightarrow> nat \<Rightarrow> bool" where
  "userInvalidatedAfter m userID validationGen = revokedAfter m userID validationGen"

definition sweepRevocationMarks :: "int \<Rightarrow> ('k, 'm mark_scheme) fmap \<Rightarrow> ('k, 'm mark_scheme) fmap" where
  "sweepRevocationMarks cutoff m = fmfilter (\<lambda>k. case fmlookup m k of None \<Rightarrow> True | Some x \<Rightarrow> \<not> (mk_at x \<noteq> 0 \<and> mk_at x < cutoff)) m"

section \<open>Leases\<close>

definition addLeaseLocked :: "lease \<Rightarrow> auth_state \<Rightarrow> nat \<times> auth_state" where
  "addLeaseLocked l s =
     (let i = Suc (as_nextLease s);
          s1 = s\<lparr>as_nextLease := i, as_leases := fmupd i l (as_leases s),
                 as_leasesByUser := indexLease (uid_id (ui_id (le_user l))) i (as_leasesByUser s)\<rparr>;
          sessionID = SessionID (ui_credential (le_user l));
          s2 = (if sessionID \<noteq> [] then s1\<lparr>as_leasesBySession := indexLease sessionID i (as_leasesBySession s1)\<rparr> else s1);
          s3 = (case BearerRef (ui_credential (le_user l)) of
                  Some ref \<Rightarrow> s2\<lparr>as_leasesByBearer := indexLease ref i (as_leasesByBearer s2)\<rparr> | None \<Rightarrow> s2)
      in (i, s3))"

definition removeLeaseLocked :: "nat \<Rightarrow> lease \<Rightarrow> auth_state \<Rightarrow> auth_state" where
  "removeLeaseLocked i l s =
     (let s1 = s\<lparr>as_leases := fmdrop i (as_leases s),
                 as_leasesByUser := removeLeaseIndex (uid_id (ui_id (le_user l))) i (as_leasesByUser s)\<rparr>;
          sessionID = SessionID (ui_credential (le_user l));
          s2 = (if sessionID \<noteq> [] then s1\<lparr>as_leasesBySession := removeLeaseIndex sessionID i (as_leasesBySession s1)\<rparr> else s1)
      in case BearerRef (ui_credential (le_user l)) of
           Some ref \<Rightarrow> s2\<lparr>as_leasesByBearer := removeLeaseIndex ref i (as_leasesByBearer s2)\<rparr> | None \<Rightarrow> s2)"

fun remove_leases :: "(lease \<Rightarrow> bool) \<Rightarrow> nat list \<Rightarrow> auth_state \<Rightarrow> lease list \<times> auth_state" where
  "remove_leases matches [] s = ([], s)"
| "remove_leases matches (i # is) s = (case fmlookup (as_leases s) i of
     None \<Rightarrow> remove_leases matches is s
   | Some l \<Rightarrow> if \<not> matches l then remove_leases matches is s
       else (case remove_leases matches is (removeLeaseLocked i l s) of (ls, s') \<Rightarrow> (l # ls, s')))"

definition removeIndexedLeasesLocked :: "ranges \<Rightarrow> (lease \<Rightarrow> bool) \<Rightarrow> nat fset \<Rightarrow> auth_state \<Rightarrow> lease list \<times> auth_state" where
  "removeIndexedLeasesLocked g matches index s = remove_leases matches (rg_leases g index) s"

definition removeAllLeasesLocked :: "ranges \<Rightarrow> (lease \<Rightarrow> bool) \<Rightarrow> auth_state \<Rightarrow> lease list \<times> auth_state" where
  "removeAllLeasesLocked g matches s = remove_leases matches (rg_leases g (fmdom (as_leases s))) s"

definition cancelLeases :: "lease list \<Rightarrow> auth_state \<Rightarrow> auth_state" where
  "cancelLeases ls s = s\<lparr>as_cancelled := as_cancelled s @ map le_cancel ls\<rparr>"

text \<open>A timer that fires with the epoch it was armed in.\<close>

definition expireLease :: "nat \<Rightarrow> nat \<Rightarrow> auth_state \<Rightarrow> auth_state" where
  "expireLease i epoch s = (case fmlookup (as_leases s) i of None \<Rightarrow> s
     | Some l \<Rightarrow> if le_epoch l \<noteq> epoch then s else cancelLeases [l] (removeLeaseLocked i l s))"

definition rescheduleLeaseLocked :: "nat \<Rightarrow> lease \<Rightarrow> deadline \<Rightarrow> auth_state \<Rightarrow> auth_state" where
  "rescheduleLeaseLocked i l newExpiry s =
     (let next = AdoptReschedule (au_expires (le_user l)) newExpiry;
          epoch = Suc (le_epoch l);
          l' = l\<lparr>le_user := (le_user l)\<lparr>au_expires := next\<rparr>, le_epoch := epoch,
                 le_timer := (case deadline_At next of None \<Rightarrow> None | Some t \<Rightarrow> Some (t, epoch))\<rparr>
      in s\<lparr>as_leases := fmupd i l' (as_leases s)\<rparr>)"

definition renewLeasesLocked :: "ranges \<Rightarrow> nat fset \<Rightarrow> deadline \<Rightarrow> auth_state \<Rightarrow> auth_state" where
  "renewLeasesLocked g ids newExpiry s =
     fold (\<lambda>i s. case fmlookup (as_leases s) i of None \<Rightarrow> s | Some l \<Rightarrow> rescheduleLeaseLocked i l newExpiry s) (rg_leases g ids) s"

definition restamp_lease :: "int \<Rightarrow> nat \<Rightarrow> auth_state \<Rightarrow> auth_state" where
  "restamp_lease newGeneration i s = (case fmlookup (as_leases s) i of None \<Rightarrow> s
     | Some l \<Rightarrow> if au_user_gen (le_user l) < newGeneration
         then s\<lparr>as_leases := fmupd i (l\<lparr>le_user := (le_user l)\<lparr>au_user_gen := newGeneration\<rparr>\<rparr>) (as_leases s)\<rparr> else s)"

definition RestampSessionLeaseGeneration :: "ranges \<Rightarrow> ident \<Rightarrow> int \<Rightarrow> auth_state \<Rightarrow> auth_state" where
  "RestampSessionLeaseGeneration g sessionID newGeneration s =
     (if sessionID = [] \<or> newGeneration \<le> 0 then s
      else fold (restamp_lease newGeneration) (rg_leases g (bucket (as_leasesBySession s) sessionID)) s)"

definition RenewBearerLeases :: "ranges \<Rightarrow> bearer_ref \<Rightarrow> deadline \<Rightarrow> auth_state \<Rightarrow> auth_state" where
  "RenewBearerLeases g ref newExpiry s =
     (if \<not> bearer_IsValid ref then s else renewLeasesLocked g (bucket (as_leasesByBearer s) ref) newExpiry s)"

section \<open>Cache entries\<close>

definition cloneUserInfoWithGeneration :: "auth_user \<Rightarrow> nat \<Rightarrow> auth_user" where
  "cloneUserInfoWithGeneration u gen = u\<lparr>au_gen := gen\<rparr>"

definition deleteBearerCacheEntry :: "bearer_key \<Rightarrow> auth_state \<Rightarrow> auth_state" where
  "deleteBearerCacheEntry key s = (case fmlookup (as_bearers s) key of None \<Rightarrow> s
     | Some c \<Rightarrow> s\<lparr>as_bearers := fmdrop key (as_bearers s), as_bearerKeys := unindexSyncMap (fst key) key (as_bearerKeys s),
         as_userBearerKeys := unindexSyncMap (uid_id (ui_id (ca_user c))) key (as_userBearerKeys s)\<rparr>)"

definition deleteBearerCacheEntries :: "ranges \<Rightarrow> bearer_ref \<Rightarrow> auth_state \<Rightarrow> auth_state" where
  "deleteBearerCacheEntries g ref s = (case fmlookup (as_bearerKeys s) ref of None \<Rightarrow> s
     | Some keys \<Rightarrow> fold deleteBearerCacheEntry (rg_keys g keys) (s\<lparr>as_bearerKeys := fmdrop ref (as_bearerKeys s)\<rparr>))"

definition indexBearerCacheEntry :: "bearer_key \<Rightarrow> cached_session \<Rightarrow> auth_state \<Rightarrow> auth_state" where
  "indexBearerCacheEntry key cached s =
     (let s1 = s\<lparr>as_bearerKeys := indexSyncMap (fst key) key (as_bearerKeys s)\<rparr>
      in if \<not> uid_IsZero (ui_id (ca_user cached))
         then s1\<lparr>as_userBearerKeys := indexSyncMap (uid_id (ui_id (ca_user cached))) key (as_userBearerKeys s1)\<rparr> else s1)"

definition deleteStaleSession :: "ident \<Rightarrow> cached_session \<Rightarrow> auth_state \<Rightarrow> auth_state" where
  "deleteStaleSession key stale s = (if fmlookup (as_sessions s) key \<noteq> Some stale then s
     else s\<lparr>as_sessions := fmdrop key (as_sessions s), as_userSessions := unindexSyncMap (uid_id (ui_id (ca_user stale))) key (as_userSessions s)\<rparr>)"

definition deleteStaleBearer :: "bearer_key \<Rightarrow> cached_session \<Rightarrow> auth_state \<Rightarrow> auth_state" where
  "deleteStaleBearer key stale s = (if fmlookup (as_bearers s) key \<noteq> Some stale then s
     else s\<lparr>as_bearers := fmdrop key (as_bearers s), as_bearerKeys := unindexSyncMap (fst key) key (as_bearerKeys s),
         as_userBearerKeys := unindexSyncMap (uid_id (ui_id (ca_user stale))) key (as_userBearerKeys s)\<rparr>)"

section \<open>Revocation and invalidation\<close>

definition EvictBearer :: "ranges \<Rightarrow> int \<Rightarrow> bearer_ref \<Rightarrow> auth_state \<Rightarrow> auth_state" where
  "EvictBearer g now ref s = (if \<not> bearer_IsValid ref then s
     else (case bumpGeneration (deleteBearerCacheEntries g ref s) of (gen, s1) \<Rightarrow>
       let s2 = s1\<lparr>as_bearerRevocations := recordBearerRevocation now ref gen (as_bearerRevocations s1)\<rparr>
       in (case removeIndexedLeasesLocked g (\<lambda>l. BearerRef (ui_credential (le_user l)) = Some ref) (bucket (as_leasesByBearer s2) ref) s2 of
             (ls, s3) \<Rightarrow> cancelLeases ls (s3\<lparr>as_bearerExpiries := fmdrop ref (as_bearerExpiries s3)\<rparr>))))"

definition InvalidateBearer :: "ranges \<Rightarrow> int \<Rightarrow> bearer_ref \<Rightarrow> auth_state \<Rightarrow> auth_state" where
  "InvalidateBearer g now ref s = (if \<not> bearer_IsValid ref then s
     else (case bumpGeneration (deleteBearerCacheEntries g ref s) of (gen, s1) \<Rightarrow>
       s1\<lparr>as_bearerInvalidations := recordBearerRevocation now ref gen (as_bearerInvalidations s1)\<rparr>))"

definition MatchesSession :: "credential_identity \<Rightarrow> ident \<Rightarrow> bool" where
  "MatchesSession c sessionID \<longleftrightarrow> sessionID \<noteq> [] \<and> cr_kind c = credentialSession \<and> cr_id c = sessionID"

definition Evict :: "ranges \<Rightarrow> int \<Rightarrow> ident \<Rightarrow> auth_state \<Rightarrow> auth_state" where
  "Evict g now sessionID s =
     (let s1 = (case fmlookup (as_sessions s) sessionID of None \<Rightarrow> s
          | Some c \<Rightarrow> s\<lparr>as_sessions := fmdrop sessionID (as_sessions s),
              as_userSessions := unindexSyncMap (uid_id (ui_id (ca_user c))) sessionID (as_userSessions s)\<rparr>);
          s2 = s1\<lparr>as_lastTouch := fmdrop sessionID (as_lastTouch s1)\<rparr>
      in case bumpGeneration s2 of (gen, s3) \<Rightarrow>
        let s4 = s3\<lparr>as_sessionRevocations := recordRevocation now sessionID gen (as_sessionRevocations s3)\<rparr>
        in case removeIndexedLeasesLocked g (\<lambda>l. MatchesSession (ui_credential (le_user l)) sessionID) (bucket (as_leasesBySession s4) sessionID) s4 of
             (ls, s5) \<Rightarrow> cancelLeases ls s5)"

definition evictSessionsByUserID :: "ranges \<Rightarrow> ident \<Rightarrow> auth_state \<Rightarrow> auth_state" where
  "evictSessionsByUserID g userID s = (case fmlookup (as_userSessions s) userID of None \<Rightarrow> s
     | Some ids \<Rightarrow> fold (\<lambda>i s. s\<lparr>as_lastTouch := fmdrop i (as_lastTouch s), as_sessions := fmdrop i (as_sessions s)\<rparr>) (rg_ids g ids)
         (s\<lparr>as_userSessions := fmdrop userID (as_userSessions s)\<rparr>))"

definition evict_session_at :: "ident \<Rightarrow> int \<Rightarrow> ident \<Rightarrow> auth_state \<Rightarrow> auth_state" where
  "evict_session_at userID userAuthGeneration key s = (case fmlookup (as_sessions s) key of None \<Rightarrow> s
     | Some c \<Rightarrow> if \<not> uid_Matches (ui_id (ca_user c)) userID then s
         else if \<not> ShouldEvictForUserGeneration (au_user_gen (ca_user c)) userAuthGeneration then s
         else s\<lparr>as_sessions := fmdrop key (as_sessions s), as_lastTouch := fmdrop key (as_lastTouch s),
                as_userSessions := unindexSyncMap userID key (as_userSessions s)\<rparr>)"

definition evictSessionsByUserGeneration :: "ranges \<Rightarrow> ident \<Rightarrow> int \<Rightarrow> auth_state \<Rightarrow> auth_state" where
  "evictSessionsByUserGeneration g userID userAuthGeneration s = (case fmlookup (as_userSessions s) userID of None \<Rightarrow> s
     | Some ids \<Rightarrow> fold (evict_session_at userID userAuthGeneration) (rg_ids g ids) s)"

definition evict_bearer_at :: "ident \<Rightarrow> int \<Rightarrow> bearer_key \<Rightarrow> auth_state \<Rightarrow> auth_state" where
  "evict_bearer_at userID userAuthGeneration key s = (case fmlookup (as_bearers s) key of None \<Rightarrow> s
     | Some c \<Rightarrow> if \<not> uid_Matches (ui_id (ca_user c)) userID then s
         else if ShouldEvictForUserGeneration (au_user_gen (ca_user c)) userAuthGeneration then deleteBearerCacheEntry key s else s)"

definition evictBearersByUserGeneration :: "ranges \<Rightarrow> ident \<Rightarrow> int \<Rightarrow> auth_state \<Rightarrow> auth_state" where
  "evictBearersByUserGeneration g userID userAuthGeneration s = (case fmlookup (as_userBearerKeys s) userID of None \<Rightarrow> s
     | Some keys \<Rightarrow> fold (evict_bearer_at userID userAuthGeneration) (rg_keys g keys) s)"

definition EvictByUserID :: "ranges \<Rightarrow> int \<Rightarrow> ident \<Rightarrow> auth_state \<Rightarrow> auth_state" where
  "EvictByUserID g now userID s = (if userID = [] then s
     else (case bumpGeneration s of (gen, s1) \<Rightarrow>
       evictBearersByUserGeneration g userID 0 (evictSessionsByUserID g userID
         (s1\<lparr>as_userInvalidations := recordRevocation now userID gen (as_userInvalidations s1)\<rparr>))))"

definition RevokeUserAuthContextAtGeneration :: "ranges \<Rightarrow> int \<Rightarrow> ident \<Rightarrow> int \<Rightarrow> auth_state \<Rightarrow> auth_state" where
  "RevokeUserAuthContextAtGeneration g now userID userAuthGeneration s =
     (if userID = [] then s
      else if (case fmlookup (as_userRevocations s) userID of None \<Rightarrow> False
               | Some k \<Rightarrow> userAuthGeneration > 0 \<and> mk_user_gen k \<ge> userAuthGeneration) then s
      else (case bumpGeneration s of (gen, s1) \<Rightarrow>
        let s2 = s1\<lparr>as_userRevocations := fmupd userID \<lparr>mk_gen = gen, mk_at = now, mk_user_gen = userAuthGeneration\<rparr> (as_userRevocations s1)\<rparr>
        in (case removeIndexedLeasesLocked g (\<lambda>l. uid_Matches (ui_id (le_user l)) userID \<and>
                    ShouldEvictForUserGeneration (au_user_gen (le_user l)) userAuthGeneration) (bucket (as_leasesByUser s2) userID) s2 of
              (ls, s3) \<Rightarrow> cancelLeases ls (evictBearersByUserGeneration g userID userAuthGeneration
                 (evictSessionsByUserGeneration g userID userAuthGeneration s3)))))"

definition currentSyntheticUser :: "auth_user \<Rightarrow> auth_state \<Rightarrow> auth_user" where
  "currentSyntheticUser user s =
     (let out = cloneUserInfoWithGeneration user (as_gen s) in
      case fmlookup (as_userRevocations s) (uid_id (ui_id user)) of None \<Rightarrow> out
      | Some k \<Rightarrow> if mk_user_gen k > au_user_gen out then out\<lparr>au_user_gen := mk_user_gen k\<rparr> else out)"

definition isAuthContextCurrentLocked :: "auth_user \<Rightarrow> auth_state \<Rightarrow> bool" where
  "isAuthContextCurrentLocked user s =
     (let gen = au_gen user in
      if revokedAfter (as_sessionRevocations s) (SessionID (ui_credential user)) gen then False
      else if (case BearerRef (ui_credential user) of None \<Rightarrow> False | Some ref \<Rightarrow> bearerRevokedAfter (as_bearerRevocations s) ref gen) then False
      else \<not> userRevokedAfter (as_userRevocations s) user gen)"

definition auth_Stop :: "ranges \<Rightarrow> auth_state \<Rightarrow> auth_state" where
  "auth_Stop g s = (case removeAllLeasesLocked g (\<lambda>_. True) s of (ls, s1) \<Rightarrow> cancelLeases ls s1)"

section \<open>Deadlines of credentials\<close>

definition cachedSessionExpiry :: "ident \<Rightarrow> auth_state \<Rightarrow> deadline option" where
  "cachedSessionExpiry sessionID s = map_option (\<lambda>c. au_expires (ca_user c)) (fmlookup (as_sessions s) sessionID)"

text \<open>\<open>sessionExpiry\<close> is the authoritative expiry of a session in the store, none when it is gone or the read failed.\<close>

definition CurrentCredentialExpiry :: "(ident \<Rightarrow> int option) \<Rightarrow> auth_user \<Rightarrow> auth_state \<Rightarrow> deadline" where
  "CurrentCredentialExpiry sessionExpiry user s =
     (let sessionID = SessionID (ui_credential user) in
      if sessionID = [] then
        (case BearerRef (ui_credential user) of None \<Rightarrow> au_expires user
         | Some ref \<Rightarrow> (case fmlookup (as_bearerExpiries s) ref of None \<Rightarrow> au_expires user | Some d \<Rightarrow> Later (au_expires user) d))
      else (case cachedSessionExpiry sessionID s of Some d \<Rightarrow> Later (au_expires user) d
        | None \<Rightarrow> (case sessionExpiry sessionID of Some t \<Rightarrow> Later (au_expires user) (DeadlineAt t) | None \<Rightarrow> au_expires user)))"

definition currentCredentialExpiryLocked :: "auth_user \<Rightarrow> auth_state \<Rightarrow> deadline" where
  "currentCredentialExpiryLocked user s =
     (let sessionID = SessionID (ui_credential user) in
      if sessionID \<noteq> [] then
        (case fmlookup (as_sessions s) sessionID of Some c \<Rightarrow> Later (au_expires user) (au_expires (ca_user c)) | None \<Rightarrow> au_expires user)
      else (case BearerRef (ui_credential user) of None \<Rightarrow> au_expires user
         | Some ref \<Rightarrow> (case fmlookup (as_bearerExpiries s) ref of None \<Rightarrow> au_expires user | Some d \<Rightarrow> Later (au_expires user) d)))"

definition RecordBearerExpiry :: "bearer_ref \<Rightarrow> deadline \<Rightarrow> auth_state \<Rightarrow> auth_state" where
  "RecordBearerExpiry ref newExpiry s = (if \<not> bearer_IsValid ref then s
     else case fmlookup (as_bearerExpiries s) ref of
       None \<Rightarrow> s\<lparr>as_bearerExpiries := fmupd ref newExpiry (as_bearerExpiries s)\<rparr>
     | Some prev \<Rightarrow> let merged = Later prev newExpiry in
         if merged = prev then s else s\<lparr>as_bearerExpiries := fmupd ref merged (as_bearerExpiries s)\<rparr>)"

text \<open>The lease's id, when it was registered. The deadline that was read off the lock is an argument.\<close>

definition RegisterAuthenticatedLease :: "int \<Rightarrow> deadline \<Rightarrow> auth_user \<Rightarrow> ident \<Rightarrow> auth_state \<Rightarrow> nat option \<times> auth_state" where
  "RegisterAuthenticatedLease now known user cancel s =
     (let effectiveExpiry = Later (currentCredentialExpiryLocked user s) known in
      if \<not> IsCurrent effectiveExpiry now \<or> \<not> isAuthContextCurrentLocked user s then (None, s\<lparr>as_cancelled := as_cancelled s @ [cancel]\<rparr>)
      else let l = \<lparr>le_user = user\<lparr>au_expires := effectiveExpiry\<rparr>, le_cancel = cancel,
                    le_timer = (case deadline_At effectiveExpiry of None \<Rightarrow> None | Some t \<Rightarrow> Some (t, 0)), le_epoch = 0\<rparr>
           in case addLeaseLocked l s of (i, s1) \<Rightarrow> (Some i, s1))"

definition releaseLease :: "nat \<Rightarrow> auth_state \<Rightarrow> auth_state" where
  "releaseLease i s = (case fmlookup (as_leases s) i of None \<Rightarrow> s | Some l \<Rightarrow> removeLeaseLocked i l s)"

section \<open>Serving requests\<close>

definition cacheEntryFresh :: "int \<Rightarrow> cached_session \<Rightarrow> bool" where
  "cacheEntryFresh now cs \<longleftrightarrow> now - ca_at cs < sessionCacheTTL \<and> CredentialCurrent (ca_user cs) now"

definition sessionRevoked :: "ident \<Rightarrow> auth_user \<Rightarrow> nat \<Rightarrow> auth_state \<Rightarrow> bool" where
  "sessionRevoked sessionID user validationGen s \<longleftrightarrow>
     revokedAfter (as_sessionRevocations s) sessionID validationGen \<or> userRevokedAfter (as_userRevocations s) user validationGen"

definition bearerRevoked :: "bearer_key \<Rightarrow> auth_user \<Rightarrow> nat \<Rightarrow> auth_state \<Rightarrow> bool" where
  "bearerRevoked key user validationGen s \<longleftrightarrow>
     bearerRevokedAfter (as_bearerRevocations s) (fst key) validationGen \<or> userRevokedAfter (as_userRevocations s) user validationGen"

definition sessionCacheFresh :: "int \<Rightarrow> ident \<Rightarrow> cached_session \<Rightarrow> auth_state \<Rightarrow> bool" where
  "sessionCacheFresh now sessionID c s \<longleftrightarrow> cacheEntryFresh now c \<and> \<not> sessionRevoked sessionID (ca_user c) (ca_gen c) s \<and>
     \<not> userInvalidatedAfter (as_userInvalidations s) (uid_id (ui_id (ca_user c))) (ca_gen c)"

definition bearerCacheFresh :: "int \<Rightarrow> bearer_key \<Rightarrow> cached_session \<Rightarrow> auth_state \<Rightarrow> bool" where
  "bearerCacheFresh now key c s \<longleftrightarrow> cacheEntryFresh now c \<and> \<not> bearerRevoked key (ca_user c) (ca_gen c) s \<and>
     \<not> bearerRevokedAfter (as_bearerInvalidations s) (fst key) (ca_gen c) \<and>
     \<not> userInvalidatedAfter (as_userInvalidations s) (uid_id (ui_id (ca_user c))) (ca_gen c)"

text \<open>What the locked part after a validation decides.\<close>

datatype publication = Published auth_user | Refused | Retry

definition publish_session :: "int \<Rightarrow> ident \<Rightarrow> auth_user \<Rightarrow> nat \<Rightarrow> auth_state \<Rightarrow> publication \<times> auth_state" where
  "publish_session now token user gen s =
     (if sessionRevoked token user gen s then (Refused, s)
      else if userInvalidatedAfter (as_userInvalidations s) (uid_id (ui_id user)) gen then (Retry, s)
      else (Published (cloneUserInfoWithGeneration user gen),
            s\<lparr>as_sessions := fmupd token \<lparr>ca_user = user, ca_at = now, ca_gen = gen\<rparr> (as_sessions s),
              as_userSessions := indexSyncMap (uid_id (ui_id user)) token (as_userSessions s)\<rparr>))"

definition publish_bearer :: "int \<Rightarrow> bearer_key \<Rightarrow> auth_user \<Rightarrow> nat \<Rightarrow> auth_state \<Rightarrow> publication \<times> auth_state" where
  "publish_bearer now key user gen s =
     (if bearerRevoked key user gen s then (Refused, s)
      else if bearerRevokedAfter (as_bearerInvalidations s) (fst key) gen then (Retry, s)
      else if userInvalidatedAfter (as_userInvalidations s) (uid_id (ui_id user)) gen then (Retry, s)
      else let cached = \<lparr>ca_user = user, ca_at = now, ca_gen = gen\<rparr> in
        (Published (cloneUserInfoWithGeneration user gen),
         indexBearerCacheEntry key cached (s\<lparr>as_bearers := fmupd key cached (as_bearers s)\<rparr>)))"

text \<open>The retry loops. The validation reads the store while other goroutines move on, so it takes the state
  to the state it comes back to. \<open>None\<close> is a loop that is still retrying when the fuel ends.\<close>

datatype 'e serve_error = FromStore "'e auth_error" | Revoked_serve token_error | NotAuthenticated | DelegationForbidden | EmailUnverified

fun session_loop :: "nat \<Rightarrow> (auth_state \<Rightarrow> ('e auth_error + auth_user) \<times> auth_state) \<Rightarrow> int \<Rightarrow> ident \<Rightarrow> auth_state \<Rightarrow>
    (('e serve_error + auth_user) \<times> auth_state) option" where
  "session_loop 0 validate now token s = None"
| "session_loop (Suc n) validate now token s = (case validate s of
     (Inl e, s1) \<Rightarrow> Some (Inl (FromStore e), s1)
   | (Inr u, s1) \<Rightarrow> (case publish_session now token u (as_gen s) s1 of
       (Published v, s2) \<Rightarrow> Some (Inr v, s2)
     | (Refused, s2) \<Rightarrow> Some (Inl (Revoked_serve InvalidOrExpired), s2)
     | (Retry, s2) \<Rightarrow> session_loop n validate now token s2))"

fun bearer_loop :: "nat \<Rightarrow> (auth_state \<Rightarrow> ('e auth_error + auth_user) \<times> auth_state) \<Rightarrow> int \<Rightarrow> bearer_key \<Rightarrow> auth_state \<Rightarrow>
    (('e serve_error + auth_user) \<times> auth_state) option" where
  "bearer_loop 0 validate now key s = None"
| "bearer_loop (Suc n) validate now key s =
     (if case fmlookup (as_bearers s) key of None \<Rightarrow> False | Some c \<Rightarrow> bearerCacheFresh now key c s
      then Some (Inr (case fmlookup (as_bearers s) key of Some c \<Rightarrow> cloneUserInfoWithGeneration (ca_user c) (ca_gen c)), s)
      else (case validate s of
        (Inl e, s1) \<Rightarrow> Some (Inl (FromStore e), s1)
      | (Inr u, s1) \<Rightarrow> (case publish_bearer now key u (as_gen s) s1 of
          (Published v, s2) \<Rightarrow> Some (Inr v, s2)
        | (Refused, s2) \<Rightarrow> Some (Inl (Revoked_serve ErrTokenRevoked), s2)
        | (Retry, s2) \<Rightarrow> bearer_loop n validate now key s2)))"

definition validateTokenCached :: "nat \<Rightarrow> (auth_state \<Rightarrow> ('e auth_error + auth_user) \<times> auth_state) \<Rightarrow> int \<Rightarrow> ident \<Rightarrow> auth_state \<Rightarrow>
    (('e serve_error + auth_user) \<times> auth_state) option" where
  "validateTokenCached n validate now token s = (case fmlookup (as_sessions s) token of
     None \<Rightarrow> session_loop n validate now token s
   | Some c \<Rightarrow> if sessionCacheFresh now token c s then Some (Inr (cloneUserInfoWithGeneration (ca_user c) (ca_gen c)), s)
       else session_loop n validate now token (deleteStaleSession token c s))"

text \<open>No bearer in the header is \<open>Some (Inr None)\<close>.\<close>

definition tryAuthenticateBearer :: "nat \<Rightarrow> ((string \<Rightarrow> string) \<times> (string \<Rightarrow> auth_state \<Rightarrow> ('e auth_error + auth_user) \<times> auth_state)) option \<Rightarrow>
    int \<Rightarrow> string \<Rightarrow> auth_state \<Rightarrow> (('e serve_error + auth_user option) \<times> auth_state) option" where
  "tryAuthenticateBearer n tokenValidator now authHeader s = (case tokenValidator of None \<Rightarrow> Some (Inr None, s)
     | Some (HashSecret, validate) \<Rightarrow>
         if authHeader = [] then Some (Inr None, s)
         else (case BearerToken authHeader of None \<Rightarrow> Some (Inr None, s)
           | Some bearer \<Rightarrow> if \<not> IsLeapMuxBearer bearer then Some (Inr None, s)
               else (case ParseBearer bearer of Inl _ \<Rightarrow> Some (Inl (Revoked_serve ErrInvalidToken), s)
                 | Inr (kind, tokenID, secret) \<Rightarrow>
                     let key = ((Some kind, tokenID), HashSecret secret);
                         run = (\<lambda>s. map_option (\<lambda>(r, s'). (case r of Inl e \<Rightarrow> Inl e | Inr u \<Rightarrow> Inr (Some u), s')) (bearer_loop n (validate bearer) now key s))
                     in (case fmlookup (as_bearers s) key of None \<Rightarrow> run s
                         | Some c \<Rightarrow> if bearerCacheFresh now key c s then Some (Inr (Some (cloneUserInfoWithGeneration (ca_user c) (ca_gen c))), s)
                             else run (deleteStaleBearer key c s)))))"

text \<open>The slide of a session. \<open>touch\<close> is the conditional update of the store: the rows it matched, or a
  failure. The result says whether the channels of the session are to be rescheduled.\<close>

definition touchSession :: "ranges \<Rightarrow> (ident \<Rightarrow> int \<Rightarrow> int \<Rightarrow> nat option) \<Rightarrow> int \<Rightarrow> ident \<Rightarrow> auth_user \<Rightarrow> auth_state \<Rightarrow>
    (auth_user \<times> deadline option) \<times> auth_state" where
  "touchSession g touch now sessionID user s =
     (if (case fmlookup (as_lastTouch s) sessionID of None \<Rightarrow> False | Some t \<Rightarrow> now - t < sessionTouchThreshold) then ((user, None), s)
      else let newExpiry = now + SessionDuration in
        (case touch sessionID newExpiry (now - sessionTouchThreshold) of None \<Rightarrow> ((user, None), s)
         | Some rows \<Rightarrow>
             let s1 = s\<lparr>as_lastTouch := fmupd sessionID now (as_lastTouch s)\<rparr> in
             if rows = 0 then ((user, None), s1)
             else let newDeadline = DeadlineAt newExpiry;
                      s2 = (case fmlookup (as_sessions s1) sessionID of None \<Rightarrow> s1
                        | Some c \<Rightarrow> s1\<lparr>as_sessions := fmupd sessionID
                            (c\<lparr>ca_user := (cloneUserInfoWithGeneration (ca_user c) (ca_gen c))\<lparr>au_expires := newDeadline\<rparr>\<rparr>) (as_sessions s1)\<rparr>)
                  in ((user\<lparr>au_expires := newDeadline\<rparr>, Some newDeadline), renewLeasesLocked g (bucket (as_leasesBySession s2) sessionID) newDeadline s2)))"

definition enforceEmailVerification :: "bool \<Rightarrow> (string \<Rightarrow> bool) \<Rightarrow> string \<Rightarrow> auth_user \<Rightarrow> 'e serve_error option" where
  "enforceEmailVerification required unverifiedAllowed procedure u =
     (if \<not> required \<or> au_admin u \<or> au_verified u then None
      else if unverifiedAllowed procedure then None else Some EmailUnverified)"

text \<open>The configuration of the interceptor. The sets of procedures are generated names.\<close>

record 'e interceptor =
  ic_solo :: "auth_user option"
  ic_tokens :: "((string \<Rightarrow> string) \<times> (string \<Rightarrow> auth_state \<Rightarrow> ('e auth_error + auth_user) \<times> auth_state)) option"
  ic_session :: "ident \<Rightarrow> auth_state \<Rightarrow> ('e auth_error + auth_user) \<times> auth_state"
  ic_cookie :: "string \<Rightarrow> ident"
  ic_touch :: "ident \<Rightarrow> int \<Rightarrow> int \<Rightarrow> nat option"
  ic_verify :: bool
  ic_public :: "string \<Rightarrow> bool"
  ic_delegation :: "string \<Rightarrow> bool"
  ic_unverified :: "string \<Rightarrow> bool"

text \<open>A public procedure is served without a user, \<open>Inr None\<close>.\<close>

definition authenticate :: "'e interceptor \<Rightarrow> ranges \<Rightarrow> nat \<Rightarrow> int \<Rightarrow> string \<Rightarrow> string \<Rightarrow> string \<Rightarrow> auth_state \<Rightarrow>
    (('e serve_error + auth_user option) \<times> auth_state) option" where
  "authenticate ic g n now procedure cookieHeader authHeader s = (case ic_solo ic of
     Some solo \<Rightarrow> Some (Inr (Some (currentSyntheticUser solo s)), s)
   | None \<Rightarrow>
       if ic_public ic procedure then Some (Inr None, s)
       else (case tryAuthenticateBearer n (ic_tokens ic) now authHeader s of None \<Rightarrow> None
         | Some (Inl e, s1) \<Rightarrow> Some (Inl e, s1)
         | Some (Inr (Some u), s1) \<Rightarrow>
             if IsDelegation (ui_credential u) \<and> \<not> ic_delegation ic procedure then Some (Inl DelegationForbidden, s1)
             else (case enforceEmailVerification (ic_verify ic) (ic_unverified ic) procedure u of
                 Some e \<Rightarrow> Some (Inl e, s1) | None \<Rightarrow> Some (Inr (Some u), s1))
         | Some (Inr None, s1) \<Rightarrow>
             let token = ic_cookie ic cookieHeader in
             if token = [] then Some (Inl NotAuthenticated, s1)
             else (case validateTokenCached n (ic_session ic token) now token s1 of None \<Rightarrow> None
               | Some (Inl e, s2) \<Rightarrow> Some (Inl e, s2)
               | Some (Inr u, s2) \<Rightarrow> (case touchSession g (ic_touch ic) now token u s2 of ((u', _), s3) \<Rightarrow>
                   (case enforceEmailVerification (ic_verify ic) (ic_unverified ic) procedure u' of
                      Some e \<Rightarrow> Some (Inl e, s3) | None \<Rightarrow> Some (Inr (Some u'), s3))))))"

definition sweepCachesOnce :: "ranges \<Rightarrow> int \<Rightarrow> auth_state \<Rightarrow> auth_state" where
  "sweepCachesOnce g now s =
     (let touchCutoff = now - SessionDuration;
          s1 = s\<lparr>as_lastTouch := fmfilter (\<lambda>k. case fmlookup (as_lastTouch s) k of None \<Rightarrow> True | Some t \<Rightarrow> \<not> t < touchCutoff) (as_lastTouch s)\<rparr>;
          s2 = s1\<lparr>as_bearerExpiries := fmfilter (\<lambda>k. case fmlookup (as_bearerExpiries s1) k of None \<Rightarrow> True
                 | Some d \<Rightarrow> (case deadline_At d of None \<Rightarrow> True | Some t \<Rightarrow> \<not> t < now)) (as_bearerExpiries s1)\<rparr>;
          old = (\<lambda>c. now - ca_at c > sessionCacheTTL);
          s3 = fold (\<lambda>k s. case fmlookup (as_sessions s2) k of None \<Rightarrow> s | Some c \<Rightarrow> if old c then deleteStaleSession k c s else s)
                 (rg_ids g (fmdom (as_sessions s2))) s2;
          s4 = fold (\<lambda>k s. case fmlookup (as_bearers s2) k of None \<Rightarrow> s | Some c \<Rightarrow> if old c then deleteStaleBearer k c s else s)
                 (rg_keys g (fmdom (as_bearers s2))) s3;
          cutoff = now - SessionDuration
      in s4\<lparr>as_sessionRevocations := sweepRevocationMarks cutoff (as_sessionRevocations s4),
            as_userRevocations := sweepRevocationMarks cutoff (as_userRevocations s4),
            as_userInvalidations := sweepRevocationMarks cutoff (as_userInvalidations s4),
            as_bearerRevocations := sweepRevocationMarks cutoff (as_bearerRevocations s4),
            as_bearerInvalidations := sweepRevocationMarks cutoff (as_bearerInvalidations s4)\<rparr>)"

section \<open>Effects of a credential's lifecycle\<close>

text \<open>On the authentication state and the channel manager together.\<close>

type_synonym hub_auth = "auth_state \<times> channel_manager"

definition SessionRevoked :: "ranges \<Rightarrow> range_fun \<Rightarrow> (ident \<Rightarrow> channel_message \<Rightarrow> bool) \<Rightarrow> int \<Rightarrow> ident \<Rightarrow> hub_auth \<Rightarrow> hub_auth" where
  "SessionRevoked g it fails now sessionID h = (case h of (a, m) \<Rightarrow>
     if sessionID = [] then (a, m) else (Evict g now sessionID a, snd (CloseBySession it fails now sessionID m)))"

definition BearerRevoked :: "ranges \<Rightarrow> range_fun \<Rightarrow> (ident \<Rightarrow> channel_message \<Rightarrow> bool) \<Rightarrow> int \<Rightarrow> bearer_kind \<Rightarrow> ident \<Rightarrow> hub_auth \<Rightarrow> hub_auth" where
  "BearerRevoked g it fails now kind tokenID h = (case h of (a, m) \<Rightarrow>
     if tokenID = [] then (a, m)
     else (EvictBearer g now (Some kind, tokenID) a, snd (CloseByBearer it fails now (Some kind, tokenID) m)))"

definition BearerRotatedExtending :: "ranges \<Rightarrow> range_fun \<Rightarrow> int \<Rightarrow> bearer_kind \<Rightarrow> ident \<Rightarrow> int \<Rightarrow> hub_auth \<Rightarrow> hub_auth" where
  "BearerRotatedExtending g it now kind tokenID newExpiresAt h = (case h of (a, m) \<Rightarrow>
     if tokenID = [] then (a, m)
     else let ref = (Some kind, tokenID); d = DeadlineAt newExpiresAt
          in (RenewBearerLeases g ref d (InvalidateBearer g now ref (RecordBearerExpiry ref d a)), RescheduleExpiryByBearer it now ref d m))"

definition BearerRotatedCacheOnly :: "ranges \<Rightarrow> int \<Rightarrow> bearer_kind \<Rightarrow> ident \<Rightarrow> hub_auth \<Rightarrow> hub_auth" where
  "BearerRotatedCacheOnly g now kind tokenID h = (case h of (a, m) \<Rightarrow>
     if tokenID = [] then (a, m) else (InvalidateBearer g now (Some kind, tokenID) a, m))"

definition preserveSession :: "ranges \<Rightarrow> range_fun \<Rightarrow> ident \<Rightarrow> int \<Rightarrow> hub_auth \<Rightarrow> hub_auth" where
  "preserveSession g it sessionID generation h = (case h of (a, m) \<Rightarrow>
     if sessionID = [] \<or> generation \<le> 0 then (a, m)
     else (RestampSessionLeaseGeneration g sessionID generation a, RestampSessionGeneration it sessionID generation m))"

definition UserRevoked :: "ranges \<Rightarrow> range_fun \<Rightarrow> (ident \<Rightarrow> channel_message \<Rightarrow> bool) \<Rightarrow> int \<Rightarrow> ident \<Rightarrow> int \<Rightarrow> hub_auth \<Rightarrow> hub_auth" where
  "UserRevoked g it fails now userID userAuthGeneration h = (case h of (a, m) \<Rightarrow>
     if userID = [] then (a, m)
     else (RevokeUserAuthContextAtGeneration g now userID userAuthGeneration a, snd (CloseByUserRevocation it fails now userID userAuthGeneration m)))"

definition RevokeUserPreservingSession :: "ranges \<Rightarrow> range_fun \<Rightarrow> (ident \<Rightarrow> channel_message \<Rightarrow> bool) \<Rightarrow> int \<Rightarrow> ident \<Rightarrow> ident \<Rightarrow> int \<Rightarrow> hub_auth \<Rightarrow> hub_auth" where
  "RevokeUserPreservingSession g it fails now userID sessionID generation h =
     (if userID = [] then h else UserRevoked g it fails now userID generation (preserveSession g it sessionID generation h))"

definition UserInfoInvalidated :: "ranges \<Rightarrow> int \<Rightarrow> ident \<Rightarrow> hub_auth \<Rightarrow> hub_auth" where
  "UserInfoInvalidated g now userID h = (case h of (a, m) \<Rightarrow> if userID = [] then (a, m) else (EvictByUserID g now userID a, m))"

end
