(* ===== verification/Reassembly.thy ===== *)
theory Reassembly
  imports ChannelWire
begin

text \<open>
  The two receivers of chunked messages: the session of a worker
  (backend/internal/worker/channel/chunker.go and the handling of a frame in session.go) and the
  client of a tunnel (backend/tunnel/channel.go). They share the buffer and differ in what they
  bound; what they promise the sender is the interface \<open>chunk_receiver\<close>, which both implement.
\<close>

section \<open>The worker\<close>

record reassembler =
  rs_buffers :: buffers
  rs_maxMessageSize :: nat
  rs_maxIncomplete :: nat

definition newReassembler :: "nat \<Rightarrow> nat \<Rightarrow> reassembler" where
  "newReassembler maxMessageSize maxIncomplete =
     \<lparr>rs_buffers = fmempty, rs_maxMessageSize = maxMessageSize, rs_maxIncomplete = maxIncomplete\<rparr>"

datatype reassembly_outcome =
    reassemblyDeliver bytes bool nat
  | reassemblyBuffered nat
  | reassemblyDropPoisoned
  | reassemblyTooManyIncomplete nat
  | reassemblyDropCapped
  | reassemblyTooLarge nat

definition poisoned_at :: "buffers \<Rightarrow> corr_id \<Rightarrow> bool" where
  "poisoned_at m k = (case fmlookup m k of None \<Rightarrow> False | Some b \<Rightarrow> Poisoned b)"

definition evict_candidate :: "corr_id \<Rightarrow> buffers \<Rightarrow> corr_id option" where
  "evict_candidate keep m = fold (\<lambda>k found. if poisoned_at m k \<and> k \<noteq> keep \<and> (case found of None \<Rightarrow> True | Some e \<Rightarrow> k < e)
     then Some k else found) (sorted_list_of_fset (fmdom m)) None"

lemma evict_fold:
  "(case fold (\<lambda>k found. if P k \<and> (case found of None \<Rightarrow> True | Some e \<Rightarrow> k < e) then Some k else found) ks a of
      None \<Rightarrow> a = None \<and> (\<forall>k \<in> set ks. \<not> P k)
    | Some e \<Rightarrow> (e \<in> set ks \<and> P e \<or> a = Some e) \<and> (\<forall>k \<in> set ks. P k \<longrightarrow> e \<le> k) \<and> (\<forall>x. a = Some x \<longrightarrow> e \<le> (x :: 'a :: linorder)))"
proof (induction ks arbitrary: a)
  case Nil
  then show ?case by (simp split: option.splits)
next
  case (Cons k ks)
  let ?a = "if P k \<and> (case a of None \<Rightarrow> True | Some e \<Rightarrow> k < e) then Some k else a"
  show ?case using Cons.IH [of ?a] by (cases a) (auto split: option.splits if_splits)
qed

lemma evict_candidate_spec:
  "evict_candidate keep m = Some k \<Longrightarrow> poisoned_at m k \<and> k \<noteq> keep \<and> k |\<in>| fmdom m \<and> (\<forall>j. poisoned_at m j \<and> j \<noteq> keep \<longrightarrow> k \<le> j)"
  "evict_candidate keep m = None \<Longrightarrow> poisoned_at m j \<Longrightarrow> j = keep"
proof -
  have dom: "poisoned_at m j \<Longrightarrow> j |\<in>| fmdom m" for j by (auto simp: poisoned_at_def intro: fmdomI split: option.splits)
  have eq: "evict_candidate keep m = fold (\<lambda>k found. if (poisoned_at m k \<and> k \<noteq> keep) \<and> (case found of None \<Rightarrow> True | Some e \<Rightarrow> k < e)
     then Some k else found) (sorted_list_of_fset (fmdom m)) None"
    by (simp add: evict_candidate_def conj_assoc)
  note spec = evict_fold [where P = "\<lambda>k. poisoned_at m k \<and> k \<noteq> keep" and ks = "sorted_list_of_fset (fmdom m)" and a = None, folded eq]
  show "poisoned_at m k \<and> k \<noteq> keep \<and> k |\<in>| fmdom m \<and> (\<forall>j. poisoned_at m j \<and> j \<noteq> keep \<longrightarrow> k \<le> j)"
    if "evict_candidate keep m = Some k"
    using spec that dom by (auto simp: sorted_list_of_fset.rep_eq)
  show "j = keep" if "evict_candidate keep m = None" "poisoned_at m j"
    using spec that dom by (auto simp: sorted_list_of_fset.rep_eq)
qed

function cap_tombstones :: "corr_id \<Rightarrow> nat \<Rightarrow> buffers \<Rightarrow> buffers" where
  "cap_tombstones keep maxIncomplete m =
     (if snd (CountByState m) \<le> maxIncomplete then m
      else case evict_candidate keep m of None \<Rightarrow> m | Some k \<Rightarrow> cap_tombstones keep maxIncomplete (fmdrop k m))"
  by pat_completeness auto
termination
proof (relation "measure (\<lambda>(_, _, m). fcard (fmdom m))", simp)
  fix keep :: corr_id and maxIncomplete m k
  assume "evict_candidate keep m = Some k"
  then have "k |\<in>| fmdom m" using evict_candidate_spec(1) by blast
  then have "0 < card (fset (fmdom m))" "k |\<in>| fmdom m" by (auto simp: card_gt_0_iff)
  then show "((keep, maxIncomplete, fmdrop k m), keep, maxIncomplete, m) \<in> measure (\<lambda>(_, _, m). fcard (fmdom m))"
    by (simp add: fcard.rep_eq)
qed

declare cap_tombstones.simps [simp del]

definition poisonAndCap :: "corr_id \<Rightarrow> chunk_buffer \<Rightarrow> reassembler \<Rightarrow> reassembler" where
  "poisonAndCap keep buf r = r\<lparr>rs_buffers := cap_tombstones keep (rs_maxIncomplete r) (fmupd keep (Poison buf) (rs_buffers r))\<rparr>"

definition accept :: "corr_id \<Rightarrow> bytes \<Rightarrow> bool \<Rightarrow> reassembler \<Rightarrow> reassembly_outcome \<times> reassembler" where
  "accept requestID chunk cont r =
     (let found = fmlookup (rs_buffers r) requestID;
          drop_entry = r\<lparr>rs_buffers := fmdrop requestID (rs_buffers r)\<rparr>;
          append = (\<lambda>buf. case AppendChunk chunk (rs_maxMessageSize r) buf of (tot, breached, buf') \<Rightarrow>
             if breached then (reassemblyTooLarge tot, poisonAndCap requestID buf' r)
             else (reassemblyBuffered tot, r\<lparr>rs_buffers := fmupd requestID buf' (rs_buffers r)\<rparr>)) in
      if (case found of None \<Rightarrow> False | Some b \<Rightarrow> Poisoned b)
      then (reassemblyDropPoisoned, if cont then r else drop_entry)
      else if cont then
        (case found of
           Some buf \<Rightarrow> append buf
         | None \<Rightarrow> (case CountByState (rs_buffers r) of (live, tombstones) \<Rightarrow>
             if live \<ge> rs_maxIncomplete r then
               if tombstones \<ge> rs_maxIncomplete r then (reassemblyDropCapped, r)
               else (reassemblyTooManyIncomplete live, r\<lparr>rs_buffers := fmupd requestID (empty_buffer\<lparr>Poisoned := True\<rparr>) (rs_buffers r)\<rparr>)
             else append empty_buffer))
      else
        (case found of
           None \<Rightarrow> (case CountByState (rs_buffers r) of (live, tombstones) \<Rightarrow>
             if live \<ge> rs_maxIncomplete r \<and> tombstones \<ge> rs_maxIncomplete r then (reassemblyDropCapped, r)
             else if length chunk > rs_maxMessageSize r then (reassemblyTooLarge (length chunk), r)
             else (reassemblyDeliver chunk False (length chunk), r))
         | Some buf \<Rightarrow> (case AppendChunk chunk (rs_maxMessageSize r) buf of (tot, breached, buf') \<Rightarrow>
             if breached then (reassemblyTooLarge tot, drop_entry)
             else (reassemblyDeliver (Join buf') True (length (Join buf')), drop_entry))))"

text \<open>A frame as the worker handles it: decrypted in the order of arrival, then reassembled. The
  sessions are named by their channel; a session is the state of its cipher and its reassembler.\<close>

record 'd channel_session =
  ss_cipher :: 'd
  ss_reassembly :: reassembler

datatype handled =
    HandleUnknownChannel
  | HandleDecryptFailed
  | HandleOutOfSpec
  | HandleDropped
  | HandleErrorQueued corr_id nat
  | HandleDispatch corr_id bytes

definition CodeResourceExhausted :: nat where
  "CodeResourceExhausted = 8"

definition reactToReassembly :: "corr_id \<Rightarrow> reassembly_outcome \<Rightarrow> handled" where
  "reactToReassembly requestID r = (case r of
     reassemblyDropPoisoned \<Rightarrow> HandleDropped
   | reassemblyDropCapped \<Rightarrow> HandleDropped
   | reassemblyTooManyIncomplete _ \<Rightarrow> HandleErrorQueued requestID CodeResourceExhausted
   | reassemblyTooLarge _ \<Rightarrow> HandleErrorQueued requestID CodeResourceExhausted
   | reassemblyBuffered _ \<Rightarrow> HandleDropped
   | reassemblyDeliver plaintext _ _ \<Rightarrow> HandleDispatch requestID plaintext)"

definition HandleMessage :: "(bytes \<Rightarrow> 'd \<Rightarrow> bytes option \<times> 'd) \<Rightarrow> channel_message \<Rightarrow> (ident, 'd channel_session) fmap \<Rightarrow>
    handled \<times> (ident, 'd channel_session) fmap" where
  "HandleMessage decrypt msg sessions = (case fmlookup sessions (cm_channel msg) of
     None \<Rightarrow> (HandleUnknownChannel, sessions)
   | Some sess \<Rightarrow> (case decrypt (cm_ciphertext msg) (ss_cipher sess) of
       (None, d) \<Rightarrow> (HandleDecryptFailed, fmdrop (cm_channel msg) sessions)
     | (Some decrypted, d) \<Rightarrow> (case ChunkContinuation (cm_flags msg) of (cont, valid) \<Rightarrow>
         if \<not> valid then (HandleOutOfSpec, fmupd (cm_channel msg) (sess\<lparr>ss_cipher := d\<rparr>) sessions)
         else (case accept (cm_corr msg) decrypted cont (ss_reassembly sess) of (r, re) \<Rightarrow>
           (reactToReassembly (cm_corr msg) r,
            fmupd (cm_channel msg) \<lparr>ss_cipher = d, ss_reassembly = re\<rparr> sessions)))))"

section \<open>The client\<close>

record tunnel_channel =
  tc_nextReqID :: corr_id
  tc_pending :: "corr_id fset"
  tc_streamCbs :: "corr_id fset"
  tc_reassembly :: buffers
  tc_closed :: bool

definition hasHandlerLocked :: "corr_id \<Rightarrow> tunnel_channel \<Rightarrow> bool" where
  "hasHandlerLocked reqID ch \<longleftrightarrow> reqID |\<in>| tc_pending ch \<or> reqID |\<in>| tc_streamCbs ch"

text \<open>\<open>None\<close> when the fuel runs out.\<close>

fun allocateReqIDLocked :: "nat \<Rightarrow> tunnel_channel \<Rightarrow> (corr_id \<times> tunnel_channel) option" where
  "allocateReqIDLocked 0 ch = None"
| "allocateReqIDLocked (Suc n) ch = (let k = tc_nextReqID ch + 1; ch' = ch\<lparr>tc_nextReqID := k\<rparr> in
     if k = 0 then allocateReqIDLocked n ch'
     else if \<not> hasHandlerLocked k ch' then Some (k, ch') else allocateReqIDLocked n ch')"

definition liveReassemblyLocked :: "tunnel_channel \<Rightarrow> nat" where
  "liveReassemblyLocked ch = fst (CountByState (tc_reassembly ch))"

definition poisonReassemblyLocked :: "corr_id \<Rightarrow> tunnel_channel \<Rightarrow> tunnel_channel" where
  "poisonReassemblyLocked corr ch = ch\<lparr>tc_reassembly :=
     fmupd corr (Poison (get_or empty_buffer id (fmlookup (tc_reassembly ch) corr))) (tc_reassembly ch)\<rparr>"

definition dropReassemblyLocked :: "corr_id \<Rightarrow> tunnel_channel \<Rightarrow> tunnel_channel" where
  "dropReassemblyLocked corr ch = ch\<lparr>tc_reassembly := fmdrop corr (tc_reassembly ch)\<rparr>"

definition unregisterRequest :: "corr_id \<Rightarrow> bool \<Rightarrow> bool \<Rightarrow> tunnel_channel \<Rightarrow> tunnel_channel" where
  "unregisterRequest reqID pending stream ch =
     (let ch1 = (if pending then ch\<lparr>tc_pending := tc_pending ch |-| {|reqID|}\<rparr> else ch);
          ch2 = (if stream then ch1\<lparr>tc_streamCbs := tc_streamCbs ch1 |-| {|reqID|}\<rparr> else ch1)
      in if \<not> hasHandlerLocked reqID ch2 then dropReassemblyLocked reqID ch2 else ch2)"

datatype reassemble_outcome =
    reassembleActBuffered
  | reassembleActDropUnknownID
  | reassembleActTooLarge
  | reassembleActDeliver bytes

definition reassembleLocked :: "corr_id \<Rightarrow> bool \<Rightarrow> bytes \<Rightarrow> tunnel_channel \<Rightarrow> reassemble_outcome \<times> tunnel_channel" where
  "reassembleLocked corr cont plaintext ch =
     (let found = fmlookup (tc_reassembly ch) corr;
          append = (\<lambda>buf. case AppendChunk plaintext DefaultMaxMessageSize buf of (_, breached, buf') \<Rightarrow>
             let ch' = ch\<lparr>tc_reassembly := fmupd corr buf' (tc_reassembly ch)\<rparr> in
             if breached then (reassembleActTooLarge, poisonReassemblyLocked corr ch') else (reassembleActBuffered, ch')) in
      if (case found of None \<Rightarrow> False | Some b \<Rightarrow> Poisoned b)
      then (reassembleActBuffered, if cont then ch else dropReassemblyLocked corr ch)
      else if cont then
        (case found of
           Some buf \<Rightarrow> append buf
         | None \<Rightarrow>
             if \<not> hasHandlerLocked corr ch then (reassembleActDropUnknownID, ch)
             else if liveReassemblyLocked ch \<ge> DefaultMaxIncompleteChunked then (reassembleActTooLarge, poisonReassemblyLocked corr ch)
             else append empty_buffer)
      else
        (case found of
           None \<Rightarrow> if length plaintext > DefaultMaxMessageSize then (reassembleActTooLarge, ch) else (reassembleActDeliver plaintext, ch)
         | Some buf \<Rightarrow> (case AppendChunk plaintext DefaultMaxMessageSize buf of (_, breached, buf') \<Rightarrow>
             if breached then (reassembleActTooLarge, dropReassemblyLocked corr ch)
             else (reassembleActDeliver (Join buf'), dropReassemblyLocked corr ch))))"

text \<open>Who is told of an error: the response handler, or else the stream handler.\<close>

datatype error_target = ToResponse corr_id | ToStream corr_id

definition deliverRPCError :: "corr_id \<Rightarrow> tunnel_channel \<Rightarrow> error_target option" where
  "deliverRPCError corr ch = (if corr |\<in>| tc_pending ch then Some (ToResponse corr)
     else if corr |\<in>| tc_streamCbs ch then Some (ToStream corr) else None)"

definition reassemble :: "corr_id \<Rightarrow> int \<Rightarrow> bytes \<Rightarrow> tunnel_channel \<Rightarrow> (bytes option \<times> error_target option) \<times> tunnel_channel" where
  "reassemble corr flags plaintext ch = (case ChunkContinuation flags of (cont, valid) \<Rightarrow>
     if \<not> valid then ((None, None), ch)
     else (case reassembleLocked corr cont plaintext ch of (out, ch') \<Rightarrow>
       (case out of
          reassembleActBuffered \<Rightarrow> (None, None)
        | reassembleActDropUnknownID \<Rightarrow> (None, None)
        | reassembleActTooLarge \<Rightarrow> (None, deliverRPCError corr ch')
        | reassembleActDeliver p \<Rightarrow> (Some p, None), ch')))"

definition channel_Close :: "tunnel_channel \<Rightarrow> tunnel_channel" where
  "channel_Close ch = (if tc_closed ch then ch
     else ch\<lparr>tc_closed := True, tc_pending := {||}, tc_streamCbs := {||}, tc_reassembly := fmempty\<rparr>)"

text \<open>The part of a request that runs under the lock: the handlers are installed under a fresh id.
  The inner \<open>None\<close> is the error of a closed channel, the outer one fuel run out.\<close>

definition SendRPCNoWait_install :: "nat \<Rightarrow> bool \<Rightarrow> bool \<Rightarrow> tunnel_channel \<Rightarrow> (corr_id option \<times> tunnel_channel) option" where
  "SendRPCNoWait_install fuel response stream ch =
     (if tc_closed ch then Some (None, ch)
      else case allocateReqIDLocked fuel ch of None \<Rightarrow> None
        | Some (reqID, ch1) \<Rightarrow>
            let ch2 = (if response then ch1\<lparr>tc_pending := finsert reqID (tc_pending ch1)\<rparr> else ch1);
                ch3 = (if stream then ch2\<lparr>tc_streamCbs := finsert reqID (tc_streamCbs ch2)\<rparr> else ch2)
            in Some (Some reqID, ch3))"

definition UnregisterPending :: "corr_id \<Rightarrow> tunnel_channel \<Rightarrow> tunnel_channel" where
  "UnregisterPending reqID ch = unregisterRequest reqID True False ch"

definition UnregisterStream :: "corr_id \<Rightarrow> tunnel_channel \<Rightarrow> tunnel_channel" where
  "UnregisterStream reqID ch = unregisterRequest reqID False True ch"

section \<open>What a receiver promises\<close>

fun feed :: "(corr_id \<Rightarrow> bytes \<Rightarrow> bool \<Rightarrow> 's \<Rightarrow> 'o \<times> 's) \<Rightarrow> ('o \<Rightarrow> bytes option) \<Rightarrow> (corr_id \<times> bytes \<times> bool) list \<Rightarrow> 's \<Rightarrow>
    (corr_id \<times> bytes option) list \<times> 's" where
  "feed step delivered [] s = ([], s)"
| "feed step delivered ((k, c, cont) # xs) s = (case step k c cont s of (r, s1) \<Rightarrow>
     (case feed step delivered xs s1 of (rs, s2) \<Rightarrow> ((k, delivered r) # rs, s2)))"

fun chunk_events :: "corr_id \<Rightarrow> bytes list \<Rightarrow> (corr_id \<times> bytes \<times> bool) list" where
  "chunk_events k [] = []"
| "chunk_events k (c # cs) = (k, c, cs \<noteq> []) # chunk_events k cs"

lemma feed_Cons [simp]:
  "fst (feed step delivered ((k, c, cont) # xs) s) =
     (k, delivered (fst (step k c cont s))) # fst (feed step delivered xs (snd (step k c cont s)))"
  by (simp split: prod.splits)

declare feed.simps(2) [simp del]

lemma feed_keys: "map fst (fst (feed step delivered xs s)) = map fst xs"
  by (induction xs arbitrary: s) auto

lemma feed_no_keys:
  assumes "filter (\<lambda>x. fst x = k) xs = []"
  shows "filter (\<lambda>x. fst x = k) (fst (feed step delivered xs s)) = []"
proof -
  have "k \<notin> set (map fst xs)" using assms by (auto simp: filter_empty_conv)
  then have "k \<notin> set (map fst (fst (feed step delivered xs s)))" by (simp only: feed_keys not_False_eq_True)
  then show ?thesis by (auto simp: filter_empty_conv)
qed

locale chunk_receiver =
  fixes step :: "corr_id \<Rightarrow> bytes \<Rightarrow> bool \<Rightarrow> 's \<Rightarrow> 'o \<times> 's" and delivered :: "'o \<Rightarrow> bytes option"
    and invar :: "'s \<Rightarrow> bool" and ready :: "'s \<Rightarrow> corr_id \<Rightarrow> bool" and partial :: "'s \<Rightarrow> corr_id \<Rightarrow> bytes option" and limit :: nat
  assumes step_invar: "invar s \<Longrightarrow> step k c cont s = (r, s') \<Longrightarrow> invar s'"
    and first_chunk: "invar s \<Longrightarrow> ready s k \<Longrightarrow> length c \<le> limit \<Longrightarrow> step k c True s = (r, s') \<Longrightarrow>
      delivered r = None \<and> partial s' k = Some c"
    and whole: "invar s \<Longrightarrow> ready s k \<Longrightarrow> length c \<le> limit \<Longrightarrow> step k c False s = (r, s') \<Longrightarrow> delivered r = Some c"
    and next_chunk: "invar s \<Longrightarrow> partial s k = Some p \<Longrightarrow> length (p @ c) \<le> limit \<Longrightarrow> step k c True s = (r, s') \<Longrightarrow>
      delivered r = None \<and> partial s' k = Some (p @ c)"
    and last_chunk: "invar s \<Longrightarrow> partial s k = Some p \<Longrightarrow> length (p @ c) \<le> limit \<Longrightarrow> step k c False s = (r, s') \<Longrightarrow>
      delivered r = Some (p @ c)"
    and other_sequence: "invar s \<Longrightarrow> partial s k = Some p \<Longrightarrow> j \<noteq> k \<Longrightarrow> step j c cont s = (r, s') \<Longrightarrow> partial s' k = Some p"
begin

lemma feed_continues:
  assumes "invar s" "partial s k = Some p" "filter (\<lambda>x. fst x = k) xs = chunk_events k cs" "cs \<noteq> []" "length (p @ concat cs) \<le> limit"
  shows "map snd (filter (\<lambda>x. fst x = k) (fst (feed step delivered xs s))) = replicate (length cs - 1) None @ [Some (p @ concat cs)]"
  using assms
proof (induction xs arbitrary: s p cs)
  case Nil
  then show ?case by (cases cs) simp_all
next
  case (Cons x xs)
  obtain j c cont where x: "x = (j, c, cont)" by (cases x)
  obtain r s1 where st: "step j c cont s = (r, s1)" by fastforce
  have inv: "invar s1" using step_invar [OF Cons.prems(1) st] .
  show ?case
  proof (cases "j = k")
    case False
    have "partial s1 k = Some p" using other_sequence [OF Cons.prems(1,2) False st] .
    from Cons.IH [OF inv this _ Cons.prems(4,5)] Cons.prems(3) False st show ?thesis
      by (simp add: x)
  next
    case True
    obtain cs' where cs: "cs = c # cs'" "cont = (cs' \<noteq> [])" "filter (\<lambda>x. fst x = k) xs = chunk_events k cs'"
      using Cons.prems(3,4) True x by (cases cs) auto
    show ?thesis
    proof (cases "cs' = []")
      case last: True
      have "delivered r = Some (p @ c)" using last_chunk [OF Cons.prems(1,2)] Cons.prems(5) st cs last True by simp
      moreover have "filter (\<lambda>x. fst x = k) (fst (feed step delivered xs s1)) = []"
        using feed_no_keys cs(3) last by simp
      ultimately show ?thesis using st True by (simp add: x cs last)
    next
      case more: False
      have d: "delivered r = None" "partial s1 k = Some (p @ c)"
        using next_chunk [OF Cons.prems(1,2), of c r s1] Cons.prems(5) st cs more True by simp_all
      obtain n where n: "length cs' = Suc n" using more by (cases cs') auto
      have "replicate (length cs' - 1) None @ [Some ((p @ c) @ concat cs')] = map snd (filter (\<lambda>x. fst x = k) (fst (feed step delivered xs s1)))"
        using Cons.IH [OF inv d(2) cs(3) more] Cons.prems(5) cs(1) by simp
      then show ?thesis using st True d(1) by (simp add: x cs(1) n flip: append_assoc)
    qed
  qed
qed

text \<open>A message cut into chunks arrives whole, whatever chunks of other sequences come in between.\<close>

lemma message_arrives:
  assumes inv: "invar s" and ready: "ready s k" and xs: "xs = (k, c, cont) # rest"
    and evs: "filter (\<lambda>x. fst x = k) xs = chunk_events k cs" and len: "length (concat cs) \<le> limit"
  shows "map snd (filter (\<lambda>x. fst x = k) (fst (feed step delivered xs s))) = replicate (length cs - 1) None @ [Some (concat cs)]"
proof -
  obtain cs' where cs: "cs = c # cs'" "cont = (cs' \<noteq> [])" "filter (\<lambda>x. fst x = k) rest = chunk_events k cs'"
    using evs xs by (cases cs) auto
  obtain r s1 where st: "step k c cont s = (r, s1)" by fastforce
  show ?thesis
  proof (cases "cs' = []")
    case True
    have "delivered r = Some c" using whole [OF inv ready, of c r s1] len st cs True by simp
    then show ?thesis using st feed_no_keys [of k rest step delivered s1] cs True by (simp add: xs)
  next
    case False
    have d: "delivered r = None" "partial s1 k = Some c" using first_chunk [OF inv ready, of c r s1] len st cs False by simp_all
    have "map snd (filter (\<lambda>x. fst x = k) (fst (feed step delivered rest s1))) = replicate (length cs' - 1) None @ [Some (c @ concat cs')]"
      by (rule feed_continues [OF step_invar [OF inv st] d(2) cs(3) False]) (use len cs(1) in simp)
    moreover obtain n where "length cs' = Suc n" using False by (cases cs') auto
    ultimately show ?thesis using st d(1) by (simp add: xs cs(1))
  qed
qed

end

end
