(* ===== verification/ReassemblyLaws.thy ===== *)
theory ReassemblyLaws
  imports Reassembly
begin

text \<open>
  Both receivers keep the promises of \<open>chunk_receiver\<close>, and the memory of the worker's receiver
  is bounded whatever a peer sends.
\<close>

section \<open>Counting\<close>

definition live_ids :: "buffers \<Rightarrow> corr_id set" where
  "live_ids m = {k. \<exists>b. fmlookup m k = Some b \<and> \<not> Poisoned b}"

definition dead_ids :: "buffers \<Rightarrow> corr_id set" where
  "dead_ids m = {k. \<exists>b. fmlookup m k = Some b \<and> Poisoned b}"

lemma ids_subset: "live_ids m \<subseteq> fset (fmdom m)" "dead_ids m \<subseteq> fset (fmdom m)"
  by (auto simp: live_ids_def dead_ids_def intro: fmdomI)

lemma finite_ids [simp]: "finite (live_ids m)" "finite (dead_ids m)"
  using ids_subset [of m] finite_fset rev_finite_subset by blast+

lemma count_fold: "fold (\<lambda>b (live, tombstones). if Poisoned b then (live, Suc tombstones) else (Suc live, tombstones)) bs (l, t) =
    (l + length (filter (Not o Poisoned) bs), t + length (filter Poisoned bs))"
  by (induction bs arbitrary: l t) auto

lemma count_keys: "length (filter P (buffer_list m)) = card {k. \<exists>b. fmlookup m k = Some b \<and> P b}"
proof -
  let ?ks = "sorted_list_of_fset (fmdom m)"
  have "distinct ?ks" by (simp add: sorted_list_of_fset.rep_eq)
  then have "distinct (filter (P o (\<lambda>k. the (fmlookup m k))) ?ks)" by simp
  from distinct_card [OF this] have "length (filter P (buffer_list m)) = card (set (filter (P o (\<lambda>k. the (fmlookup m k))) ?ks))"
    by (simp add: buffer_list_def filter_map)
  also have "set (filter (P o (\<lambda>k. the (fmlookup m k))) ?ks) = {k. \<exists>b. fmlookup m k = Some b \<and> P b}"
    by (auto simp: sorted_list_of_fset.rep_eq fmlookup_dom_iff intro: fmdomI)
  finally show ?thesis .
qed

lemma CountByState_card: "CountByState m = (card (live_ids m), card (dead_ids m))"
  by (simp add: CountByState_def count_fold count_keys live_ids_def dead_ids_def o_def)

lemma ids_upd:
  "live_ids (fmupd k b m) = (if Poisoned b then live_ids m - {k} else insert k (live_ids m))"
  "dead_ids (fmupd k b m) = (if Poisoned b then insert k (dead_ids m) else dead_ids m - {k})"
  "live_ids (fmdrop k m) = live_ids m - {k}" "dead_ids (fmdrop k m) = dead_ids m - {k}"
  by (auto simp: live_ids_def dead_ids_def split: if_splits)

lemma poisoned_dead: "poisoned_at m k \<longleftrightarrow> k \<in> dead_ids m"
  by (auto simp: poisoned_at_def dead_ids_def split: option.splits)

section \<open>The cap on tombstones\<close>

lemma cap_lookup:
  "fmlookup (cap_tombstones keep n m) k = fmlookup m k \<or> fmlookup (cap_tombstones keep n m) k = None \<and> k \<in> dead_ids m \<and> k \<noteq> keep"
proof (induction keep n m rule: cap_tombstones.induct)
  case (1 keep n m)
  show ?case
  proof (cases "snd (CountByState m) \<le> n \<or> evict_candidate keep m = None")
    case True
    then show ?thesis by (subst (1 2) cap_tombstones.simps) auto
  next
    case False
    then obtain e where e: "evict_candidate keep m = Some e" by auto
    have "e \<in> dead_ids m" "e \<noteq> keep" using evict_candidate_spec(1) [OF e] by (simp_all add: poisoned_dead)
    moreover have "cap_tombstones keep n m = cap_tombstones keep n (fmdrop e m)" using False e by (subst cap_tombstones.simps) simp
    ultimately show ?thesis using 1 [OF _ e] False by (auto simp: ids_upd split: if_splits)
  qed
qed

lemma cap_count: "card (dead_ids (cap_tombstones keep n m)) \<le> n \<or> dead_ids (cap_tombstones keep n m) \<subseteq> {keep}"
proof (induction keep n m rule: cap_tombstones.induct)
  case (1 keep n m)
  consider "snd (CountByState m) \<le> n" | "\<not> snd (CountByState m) \<le> n" "evict_candidate keep m = None"
    | e where "\<not> snd (CountByState m) \<le> n" "evict_candidate keep m = Some e" by fastforce
  then show ?case
  proof cases
    case 1
    then show ?thesis by (subst (1 2) cap_tombstones.simps) (simp add: CountByState_card)
  next
    case 2
    then show ?thesis using evict_candidate_spec(2) [OF 2(2)]
      by (subst (1 2) cap_tombstones.simps) (auto simp: poisoned_dead)
  next
    case 3
    have "cap_tombstones keep n m = cap_tombstones keep n (fmdrop e m)" using 3 by (subst cap_tombstones.simps) simp
    then show ?thesis using 1 [OF 3] by simp
  qed
qed

lemma cap_live: "live_ids (cap_tombstones keep n m) = live_ids m"
proof -
  have "fmlookup (cap_tombstones keep n m) k = Some b \<and> \<not> Poisoned b \<longleftrightarrow> fmlookup m k = Some b \<and> \<not> Poisoned b" for k b
    using cap_lookup [of keep n m k] by (auto simp: dead_ids_def)
  then show ?thesis by (simp add: live_ids_def)
qed

section \<open>The worker\<close>

text \<open>A buffer counts its bytes, holds at most the limit, and holds nothing once it is poisoned.\<close>

definition buf_ok :: "nat \<Rightarrow> chunk_buffer \<Rightarrow> bool" where
  "buf_ok limit b \<longleftrightarrow> Total b = length (concat (Parts b)) \<and> Total b \<le> limit \<and> (Poisoned b \<longrightarrow> Parts b = [])"

definition buffers_ok :: "nat \<Rightarrow> buffers \<Rightarrow> bool" where
  "buffers_ok limit m \<longleftrightarrow> (\<forall>k b. fmlookup m k = Some b \<longrightarrow> buf_ok limit b)"

definition rs_ok :: "nat \<Rightarrow> nat \<Rightarrow> reassembler \<Rightarrow> bool" where
  "rs_ok limit slots r \<longleftrightarrow> rs_maxMessageSize r = limit \<and> rs_maxIncomplete r = slots \<and> buffers_ok limit (rs_buffers r) \<and>
     card (live_ids (rs_buffers r)) \<le> slots \<and> card (dead_ids (rs_buffers r)) \<le> slots"

definition partial_of :: "buffers \<Rightarrow> corr_id \<Rightarrow> bytes option" where
  "partial_of m k = (case fmlookup m k of None \<Rightarrow> None | Some b \<Rightarrow> if Poisoned b then None else Some (concat (Parts b)))"

lemma buf_simps [simp]: "Poisoned (Poison b)" "Parts (Poison b) = []" "Total (Poison b) = 0"
    "\<not> Poisoned empty_buffer" "Parts empty_buffer = []" "Total empty_buffer = 0"
  by (simp_all add: Poison_def empty_buffer_def)

lemma buf_ok_simps [simp]: "buf_ok limit (Poison b)" "buf_ok limit empty_buffer" "buf_ok limit (empty_buffer\<lparr>Poisoned := True\<rparr>)"
  by (simp_all add: buf_ok_def)

lemma buffers_ok_upd: "buffers_ok limit m \<Longrightarrow> buf_ok limit b \<Longrightarrow> buffers_ok limit (fmupd k b m)"
  "buffers_ok limit m \<Longrightarrow> buffers_ok limit (fmdrop k m)"
  by (auto simp: buffers_ok_def split: if_splits)

lemma buffers_ok_cap: "buffers_ok limit m \<Longrightarrow> buffers_ok limit (cap_tombstones keep n m)"
  unfolding buffers_ok_def by (metis cap_lookup option.distinct(1))

lemma partial_upd [simp]:
  "partial_of (fmupd k b m) j = (if j = k then (if Poisoned b then None else Some (concat (Parts b))) else partial_of m j)"
  "partial_of (fmdrop k m) j = (if j = k then None else partial_of m j)"
  by (auto simp: partial_of_def)

lemma partial_cap: "partial_of (cap_tombstones keep n m) k = partial_of m k"
  using cap_lookup [of keep n m k] by (elim disjE) (auto simp: partial_of_def dead_ids_def)

text \<open>Appending to a live buffer.\<close>

lemma AppendChunk_fits:
  assumes "buf_ok limit b" "\<not> Poisoned b" "AppendChunk c limit b = (tot, breached, b')"
  shows "tot = length (concat (Parts b) @ c) \<and> breached = (tot > limit) \<and> concat (Parts b') = concat (Parts b) @ c \<and>
    \<not> Poisoned b' \<and> (\<not> breached \<longrightarrow> buf_ok limit b')"
  using assms by (auto simp: AppendChunk_def buf_ok_def Let_def)

text \<open>The ways in which a chunk changes the buffers of the worker.\<close>

lemma accept_effect:
  assumes run: "accept k c cont r = (out, r')" and ok: "rs_ok limit slots r"
  obtains (same) "r' = r"
  | (reap) "r' = r\<lparr>rs_buffers := fmdrop k (rs_buffers r)\<rparr>"
  | (grow) b where "r' = r\<lparr>rs_buffers := fmupd k b (rs_buffers r)\<rparr>" "buf_ok limit b" "\<not> Poisoned b"
      "k \<in> live_ids (rs_buffers r) \<or> card (live_ids (rs_buffers r)) < slots"
  | (breach) b where "r' = r\<lparr>rs_buffers := cap_tombstones k slots (fmupd k (Poison b) (rs_buffers r))\<rparr>"
      "k \<in> live_ids (rs_buffers r) \<or> card (live_ids (rs_buffers r)) < slots"
  | (tomb) "r' = r\<lparr>rs_buffers := fmupd k (empty_buffer\<lparr>Poisoned := True\<rparr>) (rs_buffers r)\<rparr>"
      "fmlookup (rs_buffers r) k = None" "card (dead_ids (rs_buffers r)) < slots"
proof -
  have lim: "rs_maxMessageSize r = limit" "rs_maxIncomplete r = slots" and bufs: "buffers_ok limit (rs_buffers r)"
    using ok by (simp_all add: rs_ok_def)
  have append: thesis
    if app: "AppendChunk c limit b = (tot, breached, b')" and b: "buf_ok limit b" "\<not> Poisoned b"
      and slot: "k \<in> live_ids (rs_buffers r) \<or> card (live_ids (rs_buffers r)) < slots"
      and r': "r' = (if breached then poisonAndCap k b' r else r\<lparr>rs_buffers := fmupd k b' (rs_buffers r)\<rparr>)" for b tot breached b'
    using AppendChunk_fits [OF b app] slot r' grow [of b'] breach [of b'] by (cases breached) (simp_all add: poisonAndCap_def lim)
  show thesis
  proof (cases "fmlookup (rs_buffers r) k")
    case None
    show thesis
      using run None lim that(1,5) append [of empty_buffer]
      by (cases cont) (auto simp: accept_def Let_def CountByState_card split: if_splits prod.splits)
  next
    case (Some b)
    have b: "buf_ok limit b" using bufs Some by (simp add: buffers_ok_def)
    have live: "k \<in> live_ids (rs_buffers r)" if "\<not> Poisoned b" using Some that by (simp add: live_ids_def)
    show thesis
      using run Some lim that(1,2) append [of b] b live
      by (cases "Poisoned b"; cases cont) (auto simp: accept_def Let_def split: if_splits prod.splits)
  qed
qed

lemma accept_ok:
  assumes ok: "rs_ok limit slots r" and run: "accept k c cont r = (out, r')"
  shows "rs_ok limit slots r'"
  using run ok
proof (cases rule: accept_effect)
  case same
  then show ?thesis using ok by simp
next
  case reap
  then show ?thesis using ok card_Diff1_le [of "live_ids (rs_buffers r)" k] card_Diff1_le [of "dead_ids (rs_buffers r)" k]
    by (simp add: rs_ok_def buffers_ok_upd ids_upd)
next
  case (grow b)
  then show ?thesis using ok card_Diff1_le [of "dead_ids (rs_buffers r)" k]
    by (auto simp: rs_ok_def buffers_ok_upd ids_upd card_insert_if)
next
  case (breach b)
  let ?m = "fmupd k (Poison b) (rs_buffers r)"
  have "1 \<le> slots" using breach(2) ok by (auto simp: rs_ok_def card_gt_0_iff Suc_le_eq intro: gr0I)
  moreover have "card (dead_ids (cap_tombstones k slots ?m)) \<le> slots \<or> card (dead_ids (cap_tombstones k slots ?m)) \<le> 1"
    using cap_count [of k slots ?m] card_mono [of "{k}" "dead_ids (cap_tombstones k slots ?m)"] by auto
  ultimately show ?thesis using ok breach(1) card_Diff1_le [of "live_ids (rs_buffers r)" k]
    by (auto simp: rs_ok_def cap_live ids_upd buffers_ok_cap buffers_ok_upd)
next
  case tomb
  then show ?thesis using ok card_Diff1_le [of "live_ids (rs_buffers r)" k] card_insert_if [of "dead_ids (rs_buffers r)" k]
    by (auto simp: rs_ok_def buffers_ok_upd ids_upd)
qed

lemma accept_other:
  assumes "rs_ok limit slots r" "partial_of (rs_buffers r) k = Some p" "j \<noteq> k" "accept j c cont r = (out, r')"
  shows "partial_of (rs_buffers r') k = Some p"
  using assms(4,1) by (cases rule: accept_effect) (use assms(2,3) in \<open>simp_all add: partial_cap\<close>)

definition delivered_worker :: "reassembly_outcome \<Rightarrow> bytes option" where
  "delivered_worker r = (case r of reassemblyDeliver p _ _ \<Rightarrow> Some p | _ \<Rightarrow> None)"

text \<open>The worker can take a new message: nothing of its id is known and a slot is free.\<close>

definition ready_worker :: "reassembler \<Rightarrow> corr_id \<Rightarrow> bool" where
  "ready_worker r k \<longleftrightarrow> fmlookup (rs_buffers r) k = None \<and> card (live_ids (rs_buffers r)) < rs_maxIncomplete r"

lemma partial_Some: "partial_of m k = Some p \<longleftrightarrow> (\<exists>b. fmlookup m k = Some b \<and> \<not> Poisoned b \<and> concat (Parts b) = p)"
  by (auto simp: partial_of_def split: option.splits)

lemma accept_appends:
  assumes ok: "rs_ok limit slots r" and b: "fmlookup (rs_buffers r) k = Some b \<and> \<not> Poisoned b \<or> ready_worker r k \<and> b = empty_buffer"
    and fits: "length (concat (Parts b) @ c) \<le> limit" and run: "accept k c True r = (out, r')"
  shows "delivered_worker out = None \<and> partial_of (rs_buffers r') k = Some (concat (Parts b) @ c)"
proof -
  have lim: "rs_maxMessageSize r = limit" "rs_maxIncomplete r = slots" using ok by (simp_all add: rs_ok_def)
  have bok: "buf_ok limit b" "\<not> Poisoned b" using ok b by (auto simp: rs_ok_def buffers_ok_def)
  obtain tot breached b' where app: "AppendChunk c limit b = (tot, breached, b')" by (metis surj_pair)
  note fit = AppendChunk_fits [OF bok app]
  have "\<not> breached" using fit fits by simp
  then have "out = reassemblyBuffered tot" "r' = r\<lparr>rs_buffers := fmupd k b' (rs_buffers r)\<rparr>"
    using run b app bok(2) lim by (auto simp: accept_def Let_def CountByState_card ready_worker_def split: if_splits)
  then show ?thesis using fit by (simp add: delivered_worker_def)
qed

lemma accept_finishes:
  assumes ok: "rs_ok limit slots r" and fits: "length (p @ c) \<le> limit" and run: "accept k c False r = (out, r')"
    and p: "partial_of (rs_buffers r) k = Some p \<or> ready_worker r k \<and> p = []"
  shows "delivered_worker out = Some (p @ c)"
proof (cases "ready_worker r k")
  case True
  then have "p = []" using p by (auto simp: ready_worker_def partial_of_def)
  then show ?thesis using True run fits ok
    by (auto simp: accept_def Let_def CountByState_card ready_worker_def delivered_worker_def rs_ok_def split: if_splits)
next
  case False
  then obtain b where b: "fmlookup (rs_buffers r) k = Some b" "\<not> Poisoned b" "concat (Parts b) = p" using p by (auto simp: partial_Some)
  have lim: "rs_maxMessageSize r = limit" and bok: "buf_ok limit b" using ok b by (auto simp: rs_ok_def buffers_ok_def)
  obtain tot breached b' where app: "AppendChunk c limit b = (tot, breached, b')" by (metis surj_pair)
  note fit = AppendChunk_fits [OF bok b(2) app]
  have "\<not> breached" using fit fits b(3) by simp
  then show ?thesis using run b app lim fit by (auto simp: accept_def Let_def delivered_worker_def Join_def split: if_splits)
qed

interpretation worker_receiver: chunk_receiver accept delivered_worker "rs_ok limit slots" ready_worker "\<lambda>r. partial_of (rs_buffers r)" limit
  for limit slots
proof unfold_locales
  fix s s' :: reassembler and k j :: corr_id and c p :: bytes and r
  assume ok: "rs_ok limit slots s"
  show "rs_ok limit slots s'" if "accept k c cont s = (r, s')" for cont using accept_ok [OF ok that] .
  show "delivered_worker r = None \<and> partial_of (rs_buffers s') k = Some c"
    if "ready_worker s k" "length c \<le> limit" "accept k c True s = (r, s')"
    using accept_appends [OF ok, of k empty_buffer c r s'] that by simp
  show "delivered_worker r = Some c" if "ready_worker s k" "length c \<le> limit" "accept k c False s = (r, s')"
    using accept_finishes [OF ok, of "[]" c k r s'] that by simp
  show "delivered_worker r = None \<and> partial_of (rs_buffers s') k = Some (p @ c)"
    if p: "partial_of (rs_buffers s) k = Some p" "length (p @ c) \<le> limit" "accept k c True s = (r, s')"
  proof -
    obtain b where "fmlookup (rs_buffers s) k = Some b" "\<not> Poisoned b" "concat (Parts b) = p" using p(1) by (auto simp: partial_Some)
    then show ?thesis using accept_appends [OF ok, of k b c r s'] p(2,3) by simp
  qed
  show "delivered_worker r = Some (p @ c)"
    if "partial_of (rs_buffers s) k = Some p" "length (p @ c) \<le> limit" "accept k c False s = (r, s')"
    using accept_finishes [OF ok that(2,3)] that(1) by simp
  show "partial_of (rs_buffers s') k = Some p"
    if "partial_of (rs_buffers s) k = Some p" "j \<noteq> k" "accept j c cont s = (r, s')" for cont
    using accept_other [OF ok that] .
qed

section \<open>The client\<close>

definition delivered_client :: "reassemble_outcome \<Rightarrow> bytes option" where
  "delivered_client r = (case r of reassembleActDeliver p \<Rightarrow> Some p | _ \<Rightarrow> None)"

abbreviation client_step :: "corr_id \<Rightarrow> bytes \<Rightarrow> bool \<Rightarrow> tunnel_channel \<Rightarrow> reassemble_outcome \<times> tunnel_channel" where
  "client_step k c cont ch \<equiv> reassembleLocked k cont c ch"

definition ready_client :: "tunnel_channel \<Rightarrow> corr_id \<Rightarrow> bool" where
  "ready_client ch k \<longleftrightarrow> fmlookup (tc_reassembly ch) k = None \<and> hasHandlerLocked k ch \<and>
     card (live_ids (tc_reassembly ch)) < DefaultMaxIncompleteChunked"

definition client_ok :: "tunnel_channel \<Rightarrow> bool" where
  "client_ok ch \<longleftrightarrow> buffers_ok DefaultMaxMessageSize (tc_reassembly ch) \<and> card (live_ids (tc_reassembly ch)) \<le> DefaultMaxIncompleteChunked"

lemma client_fields [simp]: "tc_reassembly (poisonReassemblyLocked k ch) =
      fmupd k (Poison (get_or empty_buffer id (fmlookup (tc_reassembly ch) k))) (tc_reassembly ch)"
    "tc_reassembly (dropReassemblyLocked k ch) = fmdrop k (tc_reassembly ch)"
  by (simp_all add: poisonReassemblyLocked_def dropReassemblyLocked_def)

lemma client_effect:
  assumes run: "client_step k c cont ch = (out, ch')" and ok: "client_ok ch"
  obtains (same) "tc_reassembly ch' = tc_reassembly ch"
  | (reap) "tc_reassembly ch' = fmdrop k (tc_reassembly ch)"
  | (grow) b where "tc_reassembly ch' = fmupd k b (tc_reassembly ch)" "buf_ok DefaultMaxMessageSize b" "\<not> Poisoned b"
      "k \<in> live_ids (tc_reassembly ch) \<or> card (live_ids (tc_reassembly ch)) < DefaultMaxIncompleteChunked"
  | (tomb) b where "tc_reassembly ch' = fmupd k b (tc_reassembly ch)" "Poisoned b" "buf_ok DefaultMaxMessageSize b"
proof -
  let ?m = "tc_reassembly ch"
  have bufs: "buffers_ok DefaultMaxMessageSize ?m" using ok by (simp add: client_ok_def)
  have append: thesis
    if app: "AppendChunk c DefaultMaxMessageSize b = (tot, breached, b')" and b: "buf_ok DefaultMaxMessageSize b" "\<not> Poisoned b"
      and slot: "k \<in> live_ids ?m \<or> card (live_ids ?m) < DefaultMaxIncompleteChunked"
      and ch': "tc_reassembly ch' = (if breached then fmupd k (Poison b') (fmupd k b' ?m) else fmupd k b' ?m)" for b tot breached b'
    using AppendChunk_fits [OF b app] slot ch' grow [of b'] tomb [of "Poison b'"] by (cases breached) (simp_all add: fmupd_cong)
  show thesis
  proof (cases "fmlookup ?m k")
    case None
    show thesis
      using run None that(1) tomb [of "Poison empty_buffer"] append [of empty_buffer]
      by (cases cont) (auto simp: reassembleLocked_def Let_def CountByState_card liveReassemblyLocked_def split: if_splits prod.splits)
  next
    case (Some b)
    have b: "buf_ok DefaultMaxMessageSize b" using bufs Some by (simp add: buffers_ok_def)
    have live: "k \<in> live_ids ?m" if "\<not> Poisoned b" using Some that by (simp add: live_ids_def)
    show thesis
      using run Some that(1,2) append [of b] b live
      by (cases "Poisoned b"; cases cont) (auto simp: reassembleLocked_def Let_def split: if_splits prod.splits)
  qed
qed

lemma client_step_ok:
  assumes ok: "client_ok ch" and run: "client_step k c cont ch = (out, ch')"
  shows "client_ok ch'"
  using run ok
proof (cases rule: client_effect)
  case same
  then show ?thesis using ok by (simp add: client_ok_def)
next
  case reap
  then show ?thesis using ok card_Diff1_le [of "live_ids (tc_reassembly ch)" k] by (simp add: client_ok_def buffers_ok_upd ids_upd)
next
  case (grow b)
  then show ?thesis using ok by (auto simp: client_ok_def buffers_ok_upd ids_upd card_insert_if)
next
  case (tomb b)
  then show ?thesis using ok card_Diff1_le [of "live_ids (tc_reassembly ch)" k] by (simp add: client_ok_def buffers_ok_upd ids_upd)
qed

lemma client_other:
  assumes "client_ok ch" "partial_of (tc_reassembly ch) k = Some p" "j \<noteq> k" "client_step j c cont ch = (out, ch')"
  shows "partial_of (tc_reassembly ch') k = Some p"
  using assms(4,1) by (cases rule: client_effect) (use assms(2,3) in simp_all)

lemma client_appends:
  assumes ok: "client_ok ch" and b: "fmlookup (tc_reassembly ch) k = Some b \<and> \<not> Poisoned b \<or> ready_client ch k \<and> b = empty_buffer"
    and fits: "length (concat (Parts b) @ c) \<le> DefaultMaxMessageSize" and run: "client_step k c True ch = (out, ch')"
  shows "delivered_client out = None \<and> partial_of (tc_reassembly ch') k = Some (concat (Parts b) @ c)"
proof -
  have bok: "buf_ok DefaultMaxMessageSize b" "\<not> Poisoned b" using ok b by (auto simp: client_ok_def buffers_ok_def)
  obtain tot breached b' where app: "AppendChunk c DefaultMaxMessageSize b = (tot, breached, b')" by (metis surj_pair)
  note fit = AppendChunk_fits [OF bok app]
  have "\<not> breached" using fit fits by simp
  then have "out = reassembleActBuffered" "tc_reassembly ch' = fmupd k b' (tc_reassembly ch)"
    using run b app bok(2) by (auto simp: reassembleLocked_def Let_def CountByState_card liveReassemblyLocked_def ready_client_def split: if_splits)
  then show ?thesis using fit by (simp add: delivered_client_def)
qed

lemma client_finishes:
  assumes ok: "client_ok ch" and fits: "length (p @ c) \<le> DefaultMaxMessageSize" and run: "client_step k c False ch = (out, ch')"
    and p: "partial_of (tc_reassembly ch) k = Some p \<or> ready_client ch k \<and> p = []"
  shows "delivered_client out = Some (p @ c)"
proof (cases "ready_client ch k")
  case True
  then have "p = []" using p by (auto simp: ready_client_def partial_of_def)
  then show ?thesis using True run fits by (auto simp: reassembleLocked_def Let_def ready_client_def delivered_client_def split: if_splits)
next
  case False
  then obtain b where b: "fmlookup (tc_reassembly ch) k = Some b" "\<not> Poisoned b" "concat (Parts b) = p" using p by (auto simp: partial_Some)
  have bok: "buf_ok DefaultMaxMessageSize b" using ok b by (auto simp: client_ok_def buffers_ok_def)
  obtain tot breached b' where app: "AppendChunk c DefaultMaxMessageSize b = (tot, breached, b')" by (metis surj_pair)
  note fit = AppendChunk_fits [OF bok b(2) app]
  have "\<not> breached" using fit fits b(3) by simp
  then show ?thesis using run b app fit by (auto simp: reassembleLocked_def Let_def delivered_client_def Join_def split: if_splits)
qed

interpretation client_receiver: chunk_receiver client_step delivered_client client_ok ready_client "\<lambda>ch. partial_of (tc_reassembly ch)" DefaultMaxMessageSize
proof unfold_locales
  fix s s' :: tunnel_channel and k j :: corr_id and c p :: bytes and r
  assume ok: "client_ok s"
  show "client_ok s'" if "client_step k c cont s = (r, s')" for cont using client_step_ok [OF ok that] .
  show "delivered_client r = None \<and> partial_of (tc_reassembly s') k = Some c"
    if "ready_client s k" "length c \<le> DefaultMaxMessageSize" "client_step k c True s = (r, s')"
    using client_appends [OF ok, of k empty_buffer c r s'] that by simp
  show "delivered_client r = Some c" if "ready_client s k" "length c \<le> DefaultMaxMessageSize" "client_step k c False s = (r, s')"
    using client_finishes [OF ok, of "[]" c k r s'] that by simp
  show "delivered_client r = None \<and> partial_of (tc_reassembly s') k = Some (p @ c)"
    if p: "partial_of (tc_reassembly s) k = Some p" "length (p @ c) \<le> DefaultMaxMessageSize" "client_step k c True s = (r, s')"
  proof -
    obtain b where "fmlookup (tc_reassembly s) k = Some b" "\<not> Poisoned b" "concat (Parts b) = p" using p(1) by (auto simp: partial_Some)
    then show ?thesis using client_appends [OF ok, of k b c r s'] p(2,3) by simp
  qed
  show "delivered_client r = Some (p @ c)"
    if "partial_of (tc_reassembly s) k = Some p" "length (p @ c) \<le> DefaultMaxMessageSize" "client_step k c False s = (r, s')"
    using client_finishes [OF ok that(2,3)] that(1) by simp
  show "partial_of (tc_reassembly s') k = Some p"
    if "partial_of (tc_reassembly s) k = Some p" "j \<noteq> k" "client_step j c cont s = (r, s')" for cont
    using client_other [OF ok that] .
qed

end
