(* ===== verification/ChannelLaws.thy ===== *)
theory ChannelLaws
  imports ReassemblyLaws
begin

text \<open>
  The channel end to end: what a sender puts on the wire passes the hub and arrives whole at the
  receiver; what a peer can make the receivers and the hub hold is bounded; request ids are fresh.
\<close>

section \<open>The worker handles frames\<close>

fun handle_all :: "(bytes \<Rightarrow> 'd \<Rightarrow> bytes option \<times> 'd) \<Rightarrow> channel_message list \<Rightarrow> (ident, 'd channel_session) fmap \<Rightarrow>
    handled list \<times> (ident, 'd channel_session) fmap" where
  "handle_all decrypt [] ss = ([], ss)"
| "handle_all decrypt (m # ms) ss = (case HandleMessage decrypt m ss of (h, ss1) \<Rightarrow>
     (case handle_all decrypt ms ss1 of (hs, ss2) \<Rightarrow> (h # hs, ss2)))"

lemma handle_all_Cons: "fst (handle_all decrypt (m # ms) ss) =
    fst (HandleMessage decrypt m ss) # fst (handle_all decrypt ms (snd (HandleMessage decrypt m ss)))"
  by (simp split: prod.splits)

declare handle_all.simps(2) [simp del]

definition dispatched :: "handled \<Rightarrow> bytes option" where
  "dispatched h = (case h of HandleDispatch _ p \<Rightarrow> Some p | _ \<Rightarrow> None)"

lemma dispatched_react: "dispatched (reactToReassembly k r) = delivered_worker r"
  by (cases r) (simp_all add: dispatched_def reactToReassembly_def delivered_worker_def)

text \<open>Decryption under a counter of nonces, as the session of the receiver does it.\<close>

definition counting :: "(nat \<Rightarrow> bytes \<Rightarrow> bytes option) \<Rightarrow> bytes \<Rightarrow> nat \<Rightarrow> bytes option \<times> nat" where
  "counting unseal c n = (unseal n c, case unseal n c of None \<Rightarrow> n | Some _ \<Rightarrow> Suc n)"

lemma handle_frames:
  assumes dec: "\<And>n p. unseal n (seal n p) = Some p"
  shows "fmlookup ss ch = Some \<lparr>ss_cipher = n, ss_reassembly = r\<rparr> \<Longrightarrow>
    map dispatched (fst (handle_all (counting unseal) (frames_from seal ch corr n cs) ss)) =
      map snd (fst (feed accept delivered_worker (chunk_events corr cs) r))"
proof (induction cs arbitrary: n r ss)
  case (Cons c cs)
  obtain q r1 where st: "accept corr c (cs \<noteq> []) r = (q, r1)" by fastforce
  let ?m = "\<lparr>cm_version = 1, cm_channel = ch, cm_corr = corr, cm_flags = (if cs = [] then FLAGS_UNSPECIFIED else FLAGS_MORE), cm_ciphertext = seal n c\<rparr>"
  have h: "HandleMessage (counting unseal) ?m ss = (reactToReassembly corr q, fmupd ch \<lparr>ss_cipher = Suc n, ss_reassembly = r1\<rparr> ss)"
    using Cons.prems st dec by (auto simp: HandleMessage_def counting_def ChunkContinuation_def FLAGS_UNSPECIFIED_def FLAGS_MORE_def)
  have "map dispatched (fst (handle_all (counting unseal) (frames_from seal ch corr (Suc n) cs) (fmupd ch \<lparr>ss_cipher = Suc n, ss_reassembly = r1\<rparr> ss))) =
      map snd (fst (feed accept delivered_worker (chunk_events corr cs) r1))"
    by (rule Cons.IH) simp
  then show ?case using h st by (simp add: dispatched_react handle_all_Cons)
qed simp

lemma chunk_events_key: "filter (\<lambda>x. fst x = k) (chunk_events k cs) = chunk_events k cs"
  by (induction cs) auto

lemma worker_takes_message:
  assumes dec: "\<And>n p. unseal n (seal n p) = Some p" and ss: "fmlookup ss ch = Some \<lparr>ss_cipher = n, ss_reassembly = r\<rparr>"
    and ok: "rs_ok limit slots r" and ready: "ready_worker r corr" and len: "length p \<le> limit"
  shows "map dispatched (fst (handle_all (counting unseal) (frames_from seal ch corr n (chunks_of p)) ss)) =
    replicate (length (chunks_of p) - 1) None @ [Some p]"
proof -
  obtain c cs where c: "chunks_of p = c # cs" by (cases "chunks_of p") auto
  have keys: "filter (\<lambda>x. fst x = corr) (fst (feed accept delivered_worker (chunk_events corr (chunks_of p)) r)) =
      fst (feed accept delivered_worker (chunk_events corr (chunks_of p)) r)"
    using feed_keys [of accept delivered_worker "chunk_events corr (chunks_of p)" r] chunk_events_key [of corr "chunks_of p"]
    by (simp add: filter_id_conv) (metis (no_types, lifting) filter_id_conv image_iff list.set_map)
  have "map snd (filter (\<lambda>x. fst x = corr) (fst (feed accept delivered_worker (chunk_events corr (chunks_of p)) r))) =
      replicate (length (chunks_of p) - 1) None @ [Some (concat (chunks_of p))]"
  proof (rule worker_receiver.message_arrives [OF ok ready _ chunk_events_key])
    show "chunk_events corr (chunks_of p) = (corr, c, cs \<noteq> []) # chunk_events corr cs" by (simp add: c)
    show "length (concat (chunks_of p)) \<le> limit" using len by (simp add: concat_chunks)
  qed
  then show ?thesis using handle_frames [where unseal = unseal and seal = seal, OF dec, where corr = corr and cs = "chunks_of p", OF ss] keys by (simp add: concat_chunks)
qed


section \<open>The tracker of the hub\<close>

text \<open>What the tracker is meant to be: for every channel and direction at most one message in
  progress, with the size seen so far.\<close>

fun slot_step :: "nat \<Rightarrow> corr_id \<Rightarrow> nat \<Rightarrow> bool \<Rightarrow> (corr_id \<times> nat) option \<Rightarrow> track_error option \<times> (corr_id \<times> nat) option" where
  "slot_step limit corr len cont slot =
     (if corr = 0 then (Some InvalidCorrelation, slot)
      else if len > MaxCiphertextForChunk then (Some (CiphertextTooLarge len), slot)
      else case slot of
        Some (k, seen) \<Rightarrow>
          if k \<noteq> corr then (if cont then Some (ChunkInterleaving corr k) else None, slot)
          else let size = seen + (len - NoiseAEADAuthTagSize) in
            (if size > limit then Some (MessageTooLarge size) else None, if size > limit \<or> \<not> cont then None else Some (k, size))
      | None \<Rightarrow> if \<not> cont then (None, None)
          else let size = len - NoiseAEADAuthTagSize in
            if size > limit then (Some (MessageTooLarge size), None) else (None, Some (corr, size)))"

definition one_sequence :: "nat \<Rightarrow> chunk_state \<Rightarrow> bool" where
  "one_sequence limit st \<longleftrightarrow> inProgressID st \<noteq> 0 \<and>
     (\<exists>n \<le> limit. sequences st = fmupd (inProgressID st) n fmempty)"

definition track_ok :: "nat \<Rightarrow> tracked \<Rightarrow> bool" where
  "track_ok limit ct \<longleftrightarrow> (\<forall>ch dirs. fmlookup ct ch = Some dirs \<longrightarrow> dirs \<noteq> fmempty \<and>
     (\<forall>dir st. fmlookup dirs dir = Some st \<longrightarrow> one_sequence limit st))"

definition state_at :: "tracked \<Rightarrow> ident \<Rightarrow> ident \<Rightarrow> chunk_state option" where
  "state_at ct ch dir = Option.bind (fmlookup ct ch) (\<lambda>dirs. fmlookup dirs dir)"

definition slot_at :: "tracked \<Rightarrow> ident \<Rightarrow> ident \<Rightarrow> (corr_id \<times> nat) option" where
  "slot_at ct ch dir = map_option (\<lambda>st. (inProgressID st, the (fmlookup (sequences st) (inProgressID st)))) (state_at ct ch dir)"

lemma state_put [simp]: "state_at (put_state ch dir st ct) ch' dir' = (if ch' = ch \<and> dir' = dir then Some st else state_at ct ch' dir')"
  by (cases "fmlookup ct ch") (auto simp: state_at_def put_state_def)

lemma fmdrop_empty: "fmdrop k m = fmempty \<Longrightarrow> j \<noteq> k \<Longrightarrow> fmlookup m j = None"
  by (metis fmempty_lookup fmlookup_drop)

lemma state_cleanup [simp]: "state_at (cleanupEmpty ch dir ct) ch' dir' =
    (if ch' = ch \<and> dir' = dir \<and> map_option sequences (state_at ct ch dir) = Some fmempty then None else state_at ct ch' dir')"
  by (auto simp: state_at_def cleanupEmpty_def Let_def fmdrop_empty split: option.splits)

definition no_empty_dirs :: "tracked \<Rightarrow> bool" where
  "no_empty_dirs ct \<longleftrightarrow> (\<forall>ch dirs. fmlookup ct ch = Some dirs \<longrightarrow> dirs \<noteq> fmempty)"

lemma no_empty_put [simp]: "no_empty_dirs ct \<Longrightarrow> no_empty_dirs (put_state ch dir st ct)"
  by (auto simp: no_empty_dirs_def put_state_def split: if_splits)

lemma no_empty_cleanup [simp]: "no_empty_dirs ct \<Longrightarrow> no_empty_dirs (cleanupEmpty ch dir ct)"
  by (auto simp: no_empty_dirs_def cleanupEmpty_def Let_def split: if_splits option.splits)

lemma track_ok_state: "track_ok limit ct \<longleftrightarrow> no_empty_dirs ct \<and> (\<forall>ch dir st. state_at ct ch dir = Some st \<longrightarrow> one_sequence limit st)"
  by (fastforce simp: track_ok_def no_empty_dirs_def state_at_def split: bind_splits)

lemma fmupd_not_empty [simp]: "fmupd k v m \<noteq> fmempty"
  by (metis fmempty_lookup fmupd_lookup option.distinct(1))

lemma fm_singleton [simp]: "fmdrop k (fmupd k v fmempty) = fmempty" "fmupd k v (fmupd k w m) = fmupd k v m"
  by (rule fmap_ext, simp)+

lemma one_sequence_new: "k \<noteq> 0 \<Longrightarrow> \<not> limit < n \<Longrightarrow> one_sequence limit \<lparr>sequences = fmupd k n fmempty, inProgressID = k\<rparr>"
  by (auto simp: one_sequence_def intro!: exI [of _ n])

lemma track_refines:
  assumes ok: "track_ok limit ct" and run: "Track limit ch dir corr len cont ct = (e, ct')"
  shows "track_ok limit ct' \<and> slot_step limit corr len cont (slot_at ct ch dir) = (e, slot_at ct' ch dir) \<and>
    (\<forall>ch' dir'. (ch', dir') \<noteq> (ch, dir) \<longrightarrow> slot_at ct' ch' dir' = slot_at ct ch' dir')"
proof (cases "state_at ct ch dir")
  case None
  then have "Option.bind (fmlookup ct ch) (\<lambda>dirs. fmlookup dirs dir) = None" by (simp add: state_at_def)
  then show ?thesis using ok run None
    by (cases "fmlookup ct ch")
       (auto simp: Track_def accumulate_def Let_def track_ok_state slot_at_def one_sequence_new split: if_splits)
next
  case (Some st)
  then obtain n where st: "inProgressID st \<noteq> 0" "n \<le> limit" "sequences st = fmupd (inProgressID st) n fmempty"
    using ok unfolding track_ok_state one_sequence_def by blast
  obtain dirs where d: "fmlookup ct ch = Some dirs" "fmlookup dirs dir = Some st" using Some by (auto simp: state_at_def bind_eq_Some_conv)
  obtain k q where stk: "st = \<lparr>sequences = fmupd k n fmempty, inProgressID = k\<rparr>" using st(3) by (cases st) simp
  show ?thesis using ok run Some st(1,2) d unfolding stk
    by (auto simp: Track_def accumulate_def Let_def track_ok_state slot_at_def one_sequence_new split: if_splits)
qed

subsection \<open>A message passes the hub\<close>

definition track_frame :: "nat \<Rightarrow> ident \<Rightarrow> channel_message \<Rightarrow> tracked \<Rightarrow> track_error option \<times> tracked" where
  "track_frame limit dir m ct = Track limit (cm_channel m) dir (cm_corr m) (length (cm_ciphertext m)) (fst (ChunkContinuation (cm_flags m))) ct"

fun track_all :: "nat \<Rightarrow> ident \<Rightarrow> channel_message list \<Rightarrow> tracked \<Rightarrow> track_error option list \<times> tracked" where
  "track_all limit dir [] ct = ([], ct)"
| "track_all limit dir (m # ms) ct = (case track_frame limit dir m ct of (e, ct1) \<Rightarrow>
     (case track_all limit dir ms ct1 of (es, ct2) \<Rightarrow> (e # es, ct2)))"

lemma frames_tracked:
  assumes tag: "\<And>n p. length (seal n p) = length p + NoiseAEADAuthTagSize" and corr: "corr \<noteq> 0"
  shows "track_ok limit ct \<Longrightarrow> slot_at ct ch dir = None \<and> seen = 0 \<or> slot_at ct ch dir = Some (corr, seen) \<Longrightarrow>
    seen + length (concat cs) \<le> limit \<Longrightarrow> \<forall>c \<in> set cs. length c \<le> MaxPlaintextPerChunk \<Longrightarrow> cs \<noteq> [] \<Longrightarrow>
    \<exists>ct'. track_all limit dir (frames_from seal ch corr n cs) ct = (replicate (length cs) None, ct') \<and>
      track_ok limit ct' \<and> slot_at ct' ch dir = None"
proof (induction cs arbitrary: n ct seen)
  case (Cons c cs)
  let ?m = "\<lparr>cm_version = 1, cm_channel = ch, cm_corr = corr, cm_flags = (if cs = [] then FLAGS_UNSPECIFIED else FLAGS_MORE), cm_ciphertext = seal n c\<rparr>"
  obtain e ct1 where st: "track_frame limit dir ?m ct = (e, ct1)" by fastforce
  then have run: "Track limit ch dir corr (length c + NoiseAEADAuthTagSize) (cs \<noteq> []) ct = (e, ct1)"
    by (auto simp: track_frame_def tag ChunkContinuation_def FLAGS_UNSPECIFIED_def FLAGS_MORE_def split: if_splits)
  have small: "length c + NoiseAEADAuthTagSize \<le> MaxCiphertextForChunk"
    using Cons.prems(4) by (simp add: MaxPlaintextPerChunk_def MaxCiphertextForChunk_def NoiseAEADAuthTagSize_def)
  have fits: "seen + length c \<le> limit" using Cons.prems(3) by simp
  note ref = track_refines [OF Cons.prems(1) run]
  have e: "e = None" and slot: "slot_at ct1 ch dir = (if cs = [] then None else Some (corr, seen + length c))"
    using ref Cons.prems(2) small fits corr by (auto split: if_splits)
  show ?case
  proof (cases "cs = []")
    case True
    then show ?thesis using st e slot ref by simp
  next
    case False
    have "\<exists>ct'. track_all limit dir (frames_from seal ch corr (Suc n) cs) ct1 = (replicate (length cs) None, ct') \<and>
        track_ok limit ct' \<and> slot_at ct' ch dir = None"
      by (rule Cons.IH [where seen = "seen + length c"]) (use ref slot False Cons.prems in auto)
    then show ?thesis using st e by auto
  qed
qed simp

section \<open>What the client holds\<close>

text \<open>The calls and frames a channel of the client sees, in any order.\<close>

datatype client_event = Install bool bool | DropPending corr_id | DropStream corr_id | DropBoth corr_id | Frame corr_id int bytes | CloseChannel

definition handlers :: "tunnel_channel \<Rightarrow> corr_id set" where
  "handlers ch = fset (tc_pending ch |\<union>| tc_streamCbs ch)"

definition id_fuel :: "tunnel_channel \<Rightarrow> nat" where
  "id_fuel ch = fcard (tc_pending ch) + fcard (tc_streamCbs ch) + 2"

definition client_event :: "client_event \<Rightarrow> tunnel_channel \<Rightarrow> tunnel_channel" where
  "client_event e ch = (case e of
     Install response stream \<Rightarrow> (case SendRPCNoWait_install (id_fuel ch) response stream ch of None \<Rightarrow> ch | Some (_, ch') \<Rightarrow> ch')
   | DropPending k \<Rightarrow> UnregisterPending k ch
   | DropStream k \<Rightarrow> UnregisterStream k ch
   | DropBoth k \<Rightarrow> unregisterRequest k True True ch
   | Frame k flags p \<Rightarrow> snd (reassemble k flags p ch)
   | CloseChannel \<Rightarrow> channel_Close ch)"

lemma hasHandler_handlers: "hasHandlerLocked k ch \<longleftrightarrow> k \<in> handlers ch"
  by (simp add: hasHandlerLocked_def handlers_def)

subsection \<open>Fresh ids\<close>

lemma allocate_result:
  "allocateReqIDLocked n ch = Some (k, ch') \<Longrightarrow> k \<noteq> 0 \<and> k \<notin> handlers ch \<and> ch' = ch\<lparr>tc_nextReqID := k\<rparr>"
proof (induction n arbitrary: ch)
  case (Suc n)
  let ?k = "tc_nextReqID ch + 1"
  let ?ch = "ch\<lparr>tc_nextReqID := ?k\<rparr>"
  have h: "handlers ?ch = handlers ch" by (simp add: handlers_def)
  show ?case
  proof (cases "?k = 0 \<or> ?k \<in> handlers ch")
    case True
    then have "allocateReqIDLocked n ?ch = Some (k, ch')" using Suc.prems by (auto simp: Let_def hasHandler_handlers h split: if_splits)
    from Suc.IH [OF this] show ?thesis by (simp add: h)
  next
    case False
    then show ?thesis using Suc.prems by (auto simp: Let_def hasHandler_handlers h split: if_splits)
  qed
qed simp

lemma allocate_skips:
  "allocateReqIDLocked n ch = None \<Longrightarrow> i < n \<Longrightarrow> tc_nextReqID ch + of_nat (Suc i) \<in> insert 0 (handlers ch)"
proof (induction n arbitrary: ch i)
  case (Suc n)
  let ?ch = "ch\<lparr>tc_nextReqID := tc_nextReqID ch + 1\<rparr>"
  have h: "handlers ?ch = handlers ch" by (simp add: handlers_def)
  have skip: "tc_nextReqID ch + 1 \<in> insert 0 (handlers ch)" "allocateReqIDLocked n ?ch = None"
    using Suc.prems(1) by (auto simp: Let_def hasHandler_handlers h split: if_splits)
  show ?case
  proof (cases i)
    case 0
    then show ?thesis using skip(1) by simp
  next
    case (Suc j)
    then show ?thesis using Suc.IH [OF skip(2), of j] Suc.prems(2) by (simp add: h add.assoc)
  qed
qed simp

lemma handlers_card: "card (insert 0 (handlers ch)) < id_fuel ch"
proof -
  have "card (handlers ch) \<le> fcard (tc_pending ch) + fcard (tc_streamCbs ch)"
    by (simp add: handlers_def fcard.rep_eq card_Un_le)
  then show ?thesis using card_insert_le_m1 [of "Suc (card (handlers ch))" "handlers ch" 0]
    by (simp add: id_fuel_def)
qed

lemma allocate_returns:
  assumes small: "id_fuel ch < 2 ^ 64"
  shows "allocateReqIDLocked (id_fuel ch) ch \<noteq> None"
proof
  assume none: "allocateReqIDLocked (id_fuel ch) ch = None"
  let ?f = "\<lambda>i. tc_nextReqID ch + of_nat (Suc i)"
  have "inj_on ?f {..<id_fuel ch}"
  proof (rule inj_onI)
    fix i j assume "i \<in> {..<id_fuel ch}" "j \<in> {..<id_fuel ch}" "?f i = ?f j"
    then have "unat (of_nat i :: corr_id) = unat (of_nat j :: corr_id)" "i < 2 ^ 64" "j < 2 ^ 64" using small by auto
    then show "i = j" by (simp add: unat_of_nat)
  qed
  moreover have "?f ` {..<id_fuel ch} \<subseteq> insert 0 (handlers ch)" using allocate_skips [OF none] by auto
  ultimately have "id_fuel ch \<le> card (insert 0 (handlers ch))"
    using card_inj_on_le [of ?f "{..<id_fuel ch}" "insert 0 (handlers ch)"] by (simp add: handlers_def)
  then show False using handlers_card [of ch] by simp
qed

lemma install_returns:
  assumes "id_fuel ch < 2 ^ 64" "\<not> tc_closed ch"
  obtains k ch' where "SendRPCNoWait_install (id_fuel ch) response stream ch = Some (Some k, ch')" "k \<noteq> 0" "k \<notin> handlers ch"
    "handlers ch' = (if response \<or> stream then insert k (handlers ch) else handlers ch)" "tc_reassembly ch' = tc_reassembly ch"
proof -
  obtain k ch1 where a: "allocateReqIDLocked (id_fuel ch) ch = Some (k, ch1)" using allocate_returns [OF assms(1)] by auto
  note k = allocate_result [OF a]
  show thesis using that [of k] a k assms(2) by (auto simp: SendRPCNoWait_install_def Let_def handlers_def)
qed

subsection \<open>Buffers belong to requests\<close>

definition client_owned :: "tunnel_channel \<Rightarrow> bool" where
  "client_owned ch \<longleftrightarrow> client_ok ch \<and> fset (fmdom (tc_reassembly ch)) \<subseteq> handlers ch"

lemma reassemble_owned:
  assumes "client_owned ch" "client_step k c cont ch = (out, ch')"
  shows "client_owned ch'"
proof -
  have "client_ok ch'" using client_step_ok assms by (auto simp: client_owned_def)
  moreover have "handlers ch' = handlers ch"
    using assms(2) by (auto simp: reassembleLocked_def Let_def handlers_def poisonReassemblyLocked_def dropReassemblyLocked_def
        split: option.splits if_splits prod.splits)
  moreover have "fset (fmdom (tc_reassembly ch')) \<subseteq> insert k (fset (fmdom (tc_reassembly ch)))"
    using assms(2) by (auto simp: reassembleLocked_def Let_def split: option.splits if_splits prod.splits)
  moreover have "k \<in> handlers ch" if "fmlookup (tc_reassembly ch') k \<noteq> None" "fmlookup (tc_reassembly ch) k = None"
    using that assms(2) by (auto simp: reassembleLocked_def Let_def hasHandler_handlers split: if_splits prod.splits)
  ultimately show ?thesis using assms(1) by (fastforce simp: client_owned_def fmlookup_dom_iff)
qed

lemma unregister_owned: "client_owned ch \<Longrightarrow> client_owned (unregisterRequest k p s ch)"
  using card_Diff1_le [of "live_ids (tc_reassembly ch)" k]
  by (auto simp: client_owned_def unregisterRequest_def Let_def client_ok_def buffers_ok_upd ids_upd handlers_def
      hasHandlerLocked_def dropReassemblyLocked_def)

lemma client_event_owned:
  assumes "client_owned ch"
  shows "client_owned (client_event e ch)"
proof (cases e)
  case (Install r s)
  have "b = ch\<lparr>tc_nextReqID := a\<rparr>" if "allocateReqIDLocked (id_fuel ch) ch = Some (a, b)" for a b
    using allocate_result [OF that] by simp
  then show ?thesis using assms Install
    by (fastforce simp: client_event_def SendRPCNoWait_install_def Let_def client_owned_def client_ok_def handlers_def
        split: option.splits)
next
  case (Frame k flags p)
  obtain cont valid where f: "ChunkContinuation flags = (cont, valid)" by fastforce
  obtain out ch' where st: "reassembleLocked k cont p ch = (out, ch')" by fastforce
  then show ?thesis using Frame f st assms reassemble_owned [OF assms st]
    by (auto simp: client_event_def reassemble_def)
next
  case CloseChannel
  then show ?thesis using assms by (auto simp: client_event_def channel_Close_def client_owned_def client_ok_def buffers_ok_def live_ids_def)
qed (auto simp: client_event_def UnregisterPending_def UnregisterStream_def unregister_owned assms)

definition new_channel :: tunnel_channel where
  "new_channel = \<lparr>tc_nextReqID = 0, tc_pending = {||}, tc_streamCbs = {||}, tc_reassembly = fmempty, tc_closed = False\<rparr>"

lemma new_channel_owned: "client_owned new_channel"
  by (simp add: client_owned_def new_channel_def client_ok_def buffers_ok_def live_ids_def)

lemma client_events_owned: "client_owned ch \<Longrightarrow> client_owned (fold client_event es ch)"
  by (induction es arbitrary: ch) (auto simp: client_event_owned)

subsection \<open>Bytes held\<close>

definition held_bytes :: "buffers \<Rightarrow> nat" where
  "held_bytes m = sum_list (map (\<lambda>b. length (concat (Parts b))) (buffer_list m))"

lemma held_bound:
  assumes "buffers_ok limit m"
  shows "held_bytes m \<le> card (live_ids m) * limit"
proof -
  have ok: "buf_ok limit b" if "b \<in> set (buffer_list m)" for b
    using that assms by (auto simp: buffer_list_def buffers_ok_def sorted_list_of_fset.rep_eq fmlookup_dom_iff)
  have "sum_list (map (\<lambda>b. length (concat (Parts b))) bs) \<le> length (filter (\<lambda>b. \<not> Poisoned b) bs) * limit"
    if "\<forall>b \<in> set bs. buf_ok limit b" for bs
    using that by (induction bs) (fastforce simp: buf_ok_def)+
  from this [of "buffer_list m"] ok show ?thesis
    unfolding held_bytes_def live_ids_def using count_keys [of "\<lambda>b. \<not> Poisoned b" m] by simp
qed

lemma held_bounded:
  assumes "buffers_ok limit m" and slots: "card (live_ids m) \<le> slots"
  shows "held_bytes m \<le> slots * limit"
  using held_bound [OF assms(1)] mult_le_mono1 [OF slots] by (rule order_trans)

lemma feed_rs_ok: "rs_ok limit slots r \<Longrightarrow> rs_ok limit slots (snd (feed accept delivered_worker xs r))"
proof (induction xs arbitrary: r)
  case (Cons x xs)
  obtain k c cont where x: "x = (k, c, cont)" by (cases x)
  obtain q r1 where st: "accept k c cont r = (q, r1)" by fastforce
  show ?case using Cons.IH [OF accept_ok [OF Cons.prems st]] st by (simp add: x feed.simps(2) prod.case_eq_if)
qed simp

lemma new_reassembler_ok: "rs_ok limit slots (newReassembler limit slots)"
  by (simp add: rs_ok_def newReassembler_def buffers_ok_def live_ids_def dead_ids_def)

section \<open>Properties\<close>

text \<open>C29: A message of any size up to the limit, handed to \<open>SendChannelFrames\<close> on a working link, is cut into
  frames. The hub, idle on that channel and direction, accepts every frame and is idle again after the
  last one; a worker with a free slot dispatches nothing for all frames but the last and exactly the
  message for the last. The cipher is any pair of functions of which the second undoes the first.\<close>

theorem channel_end_to_end:
  assumes link: "link_works seal nonce sent encrypt send" and dec: "\<And>n p. unseal n (seal n p) = Some p"
    and corr: "corr \<noteq> 0" and len: "length p \<le> limit"
    and hub: "track_ok limit ct" "slot_at ct ch dir = None"
    and worker: "fmlookup ss ch = Some \<lparr>ss_cipher = nonce w, ss_reassembly = r\<rparr>" "rs_ok limit slots r" "ready_worker r corr"
  shows "\<exists>w' frames ct'. SendChannelFrames encrypt ch corr p send w = (None, w') \<and> sent w' = sent w @ frames \<and>
    track_all limit dir frames ct = (replicate (length frames) None, ct') \<and> slot_at ct' ch dir = None \<and>
    map dispatched (fst (handle_all (counting unseal) frames ss)) = replicate (length frames - 1) None @ [Some p]"
proof -
  let ?frames = "frames_from seal ch corr (nonce w) (chunks_of p)"
  have n: "length (frames_from seal ch corr n cs) = length cs" for n cs by (induction cs arbitrary: n) simp_all
  obtain w' where "SendChannelFrames encrypt ch corr p send w = (None, w')" "sent w' = sent w @ ?frames"
    using SendChannelFrames_frames [OF link] by blast
  moreover have "\<exists>ct'. track_all limit dir ?frames ct = (replicate (length (chunks_of p)) None, ct') \<and>
      track_ok limit ct' \<and> slot_at ct' ch dir = None"
    by (rule frames_tracked [where seen = 0]) (use link corr hub len chunk_bound in \<open>auto simp: link_works_def concat_chunks\<close>)
  moreover have "map dispatched (fst (handle_all (counting unseal) ?frames ss)) = replicate (length (chunks_of p) - 1) None @ [Some p]"
    by (rule worker_takes_message [where seal = seal, OF dec worker len])
  ultimately show ?thesis using n by (intro exI [of _ w'] exI [of _ ?frames]) auto
qed

text \<open>Reading back a written frame gives the payload, for every payload whose length fits the
  four-byte prefix.\<close>

theorem frame_roundtrip: "length p < 2 ^ 32 \<Longrightarrow> ReadFramedBytes (WriteFramedBytes p) = Inr p"
  by (simp add: ReadFramed_Write)

text \<open>C39: Over any sequence of decrypted chunks, under any ids and continuation flags, the worker's receiver
  holds at most \<open>slots\<close> partial messages, at most \<open>slots\<close> tombstones and at most \<open>slots * limit\<close> bytes.\<close>

theorem worker_memory_bounded:
  "let m = rs_buffers (snd (feed accept delivered_worker xs (newReassembler limit slots))) in
     fst (CountByState m) \<le> slots \<and> snd (CountByState m) \<le> slots \<and> held_bytes m \<le> slots * limit"
proof -
  let ?m = "rs_buffers (snd (feed accept delivered_worker xs (newReassembler limit slots)))"
  have ok: "rs_ok limit slots (snd (feed accept delivered_worker xs (newReassembler limit slots)))"
    using feed_rs_ok new_reassembler_ok by blast
  then have "held_bytes ?m \<le> slots * limit"
    by (simp add: held_bounded rs_ok_def)
  then show ?thesis using ok by (simp add: Let_def CountByState_card rs_ok_def)
qed

text \<open>The tracker of the hub refines a machine with one slot per channel and direction: each call
  returns what the machine returns, moves that slot as the machine does, leaves every other slot alone
  and keeps the invariant (one sequence, the one in progress, within the limit, no empty entries).\<close>

theorem hub_one_message:
  assumes "track_ok limit ct" and "Track limit ch dir corr len cont ct = (e, ct')"
  shows "track_ok limit ct' \<and> slot_step limit corr len cont (slot_at ct ch dir) = (e, slot_at ct' ch dir) \<and>
    (\<forall>ch' dir'. (ch', dir') \<noteq> (ch, dir) \<longrightarrow> slot_at ct' ch' dir' = slot_at ct ch' dir')"
  using track_refines [OF assms] .

text \<open>On an open channel the search for a request id ends within one step more than there are handlers
  and 0 to skip, and returns an id that is not 0 and that no registered handler has.\<close>

theorem request_id_fresh:
  assumes "id_fuel ch < 2 ^ 64" and "\<not> tc_closed ch"
  shows "\<exists>k ch'. SendRPCNoWait_install (id_fuel ch) response stream ch = Some (Some k, ch') \<and> k \<noteq> 0 \<and> k \<notin> handlers ch"
  using install_returns [OF assms] by metis

text \<open>Over any history of requests, cancellations, frames and closing, the buffers of a client's channel
  belong to requests that still have a handler, at most four are live, and the bytes held are bounded.\<close>

theorem client_memory_bounded:
  "let ch = fold client_event es new_channel in
     fset (fmdom (tc_reassembly ch)) \<subseteq> handlers ch \<and> liveReassemblyLocked ch \<le> DefaultMaxIncompleteChunked \<and>
     held_bytes (tc_reassembly ch) \<le> DefaultMaxIncompleteChunked * DefaultMaxMessageSize"
proof -
  let ?ch = "fold client_event es new_channel"
  have own: "client_owned ?ch" using client_events_owned new_channel_owned by blast
  then have "held_bytes (tc_reassembly ?ch) \<le> DefaultMaxIncompleteChunked * DefaultMaxMessageSize"
    by (simp add: held_bounded client_owned_def client_ok_def)
  then show ?thesis using own by (simp add: Let_def client_owned_def client_ok_def liveReassemblyLocked_def CountByState_card)
qed

section \<open>The properties at concrete inputs\<close>

text \<open>A session that seals by appending a tag, and a connection that records what is sent.\<close>

definition tag_seal :: "nat \<Rightarrow> bytes \<Rightarrow> bytes" where
  "tag_seal n p = p @ replicate NoiseAEADAuthTagSize (of_nat n)"

definition tag_unseal :: "nat \<Rightarrow> bytes \<Rightarrow> bytes option" where
  "tag_unseal n c = (if drop (length c - NoiseAEADAuthTagSize) c = replicate NoiseAEADAuthTagSize (of_nat n)
     then Some (take (length c - NoiseAEADAuthTagSize) c) else None)"

definition tag_encrypt :: "bytes \<Rightarrow> nat \<times> channel_message list \<Rightarrow> (unit + bytes) \<times> nat \<times> channel_message list" where
  "tag_encrypt p w = (Inr (tag_seal (fst w) p), Suc (fst w), snd w)"

definition record_send :: "channel_message \<Rightarrow> nat \<times> channel_message list \<Rightarrow> unit option \<times> nat \<times> channel_message list" where
  "record_send m w = (None, fst w, snd w @ [m])"

lemma tag_link: "link_works tag_seal fst snd tag_encrypt record_send"
  by (simp add: link_works_def tag_seal_def tag_encrypt_def record_send_def)

lemma tag_unseal_seal: "tag_unseal n (tag_seal n p) = Some p"
  by (simp add: tag_unseal_def tag_seal_def)

theorem channel_end_to_end_witness:
  "\<exists>w' frames ct'. SendChannelFrames tag_encrypt ''ch'' 7 [1, 2, 3] record_send (0, []) = (None, w') \<and> snd w' = [] @ frames \<and>
    track_all 100 ''fe2w'' frames fmempty = (replicate (length frames) None, ct') \<and> slot_at ct' ''ch'' ''fe2w'' = None \<and>
    map dispatched (fst (handle_all (counting tag_unseal) frames
      (fmupd ''ch'' \<lparr>ss_cipher = 0, ss_reassembly = newReassembler 100 4\<rparr> fmempty))) = replicate (length frames - 1) None @ [Some [1, 2, 3]]"
  using channel_end_to_end [OF tag_link tag_unseal_seal, of 7 "[1, 2, 3]" 100 fmempty "''ch''" "''fe2w''"
      "fmupd ''ch'' \<lparr>ss_cipher = 0, ss_reassembly = newReassembler 100 4\<rparr> fmempty" "(0, [])" "newReassembler 100 4" 4]
    new_reassembler_ok [of 100 4]
  by (simp add: track_ok_def slot_at_def state_at_def ready_worker_def newReassembler_def live_ids_def)

theorem frame_roundtrip_witness: "ReadFramedBytes (WriteFramedBytes [1, 2, 3]) = Inr [1, 2, 3]"
  using frame_roundtrip [of "[1, 2, 3]"] by simp

theorem hub_one_message_witness:
  "track_ok 100 (snd (Track 100 ''ch'' ''fe2w'' 7 40 True fmempty)) \<and>
   slot_at (snd (Track 100 ''ch'' ''fe2w'' 7 40 True fmempty)) ''ch'' ''fe2w'' = Some (7, 24)"
  using hub_one_message [of 100 fmempty "''ch''" "''fe2w''" 7 40 True "fst (Track 100 ''ch'' ''fe2w'' 7 40 True fmempty)"
      "snd (Track 100 ''ch'' ''fe2w'' 7 40 True fmempty)"]
  by (simp add: track_ok_def slot_at_def state_at_def MaxCiphertextForChunk_def NoiseAEADAuthTagSize_def)

theorem request_id_fresh_witness:
  "\<exists>k ch'. SendRPCNoWait_install (id_fuel new_channel) True False new_channel = Some (Some k, ch') \<and> k \<noteq> 0 \<and> k \<notin> handlers new_channel"
  using request_id_fresh [of new_channel True False] by (simp add: id_fuel_def new_channel_def fcard.rep_eq)

end
