(* ===== verification/ChannelMgrLaws.thy ===== *)
theory ChannelMgrLaws
  imports ChannelMgr ChannelLaws
begin

text \<open>
  The manager of channels as a map from ids to channels. The reverse indexes hold exactly what they
  claim, the heap holds exactly the channels with a deadline, and closing by a credential removes
  exactly the channels of that credential.
\<close>

section \<open>The registered channels\<close>

definition reg :: "channel_manager \<Rightarrow> ident \<Rightarrow> channel option" where
  "reg m i = map_option (obj m) (fmlookup (hm_channels m) i)"

definition refs_ok :: "channel_manager \<Rightarrow> bool" where
  "refs_ok m \<longleftrightarrow> (\<forall>r. r |\<in>| fmdom (hm_objs m) \<longrightarrow> r < hm_next m) \<and>
     (\<forall>i r. fmlookup (hm_channels m) i = Some r \<longrightarrow> r |\<in>| fmdom (hm_objs m) \<and> ch_id (obj m r) = i \<and> \<not> ch_closed (obj m r))"

lemma refs_inj: "refs_ok m \<Longrightarrow> fmlookup (hm_channels m) i = Some r \<Longrightarrow> fmlookup (hm_channels m) j = Some r \<Longrightarrow> i = j"
  unfolding refs_ok_def by metis

lemma refs_okD:
  assumes "refs_ok m"
  shows "r |\<in>| fmdom (hm_objs m) \<Longrightarrow> r < hm_next m"
    "fmlookup (hm_channels m) i = Some r \<Longrightarrow> r |\<in>| fmdom (hm_objs m)"
    "fmlookup (hm_channels m) i = Some r \<Longrightarrow> ch_id (obj m r) = i"
    "fmlookup (hm_channels m) i = Some r \<Longrightarrow> \<not> ch_closed (obj m r)"
  using assms by (simp_all add: refs_ok_def)

lemma refs_okI:
  assumes "\<And>r. r |\<in>| fmdom (hm_objs m) \<Longrightarrow> r < hm_next m"
    and "\<And>i r. fmlookup (hm_channels m) i = Some r \<Longrightarrow> r |\<in>| fmdom (hm_objs m) \<and> ch_id (obj m r) = i \<and> \<not> ch_closed (obj m r)"
  shows "refs_ok m"
  using assms by (simp add: refs_ok_def)

lemma reg_cong: "hm_objs m = hm_objs n \<Longrightarrow> hm_channels m = hm_channels n \<Longrightarrow> reg m = reg n"
  by (rule ext) (simp add: reg_def)

lemma reg_set_obj:
  assumes "refs_ok m" "fmlookup (hm_channels m) i = Some r"
  shows "reg (set_obj r ch m) = (reg m)(i := Some ch)"
proof (rule ext)
  fix j show "reg (set_obj r ch m) j = ((reg m)(i := Some ch)) j"
    using assms refs_inj [OF assms(1), of j r i]
    by (cases "fmlookup (hm_channels m) j") (auto simp: reg_def set_obj_def)
qed

section \<open>Indexes\<close>

definition idx_get :: "('k, ident fset) fmap \<Rightarrow> 'k \<Rightarrow> ident set" where
  "idx_get idx k = fset (get_or {||} id (fmlookup idx k))"

lemma idx_add: "idx_get (addChannelIndex k i idx) = (\<lambda>j. if j = k then insert i (idx_get idx k) else idx_get idx j)"
  by (rule ext) (simp add: idx_get_def addChannelIndex_def)

lemma idx_remove: "idx_get (removeChannelIndex k i idx) = (\<lambda>j. if j = k then idx_get idx k - {i} else idx_get idx j)"
proof (rule ext)
  fix j show "idx_get (removeChannelIndex k i idx) j = (if j = k then idx_get idx k - {i} else idx_get idx j)"
  proof (cases "get_or {||} id (fmlookup idx k) |-| {|i|} = {||}")
    case True
    then have "idx_get idx k - {i} = {}" by (auto simp: idx_get_def)
    then show ?thesis using True by (simp add: idx_get_def removeChannelIndex_def)
  qed (simp add: idx_get_def removeChannelIndex_def Let_def)
qed

text \<open>An index is exact for the key a channel has, if it has one.\<close>

definition index_exact :: "(channel \<Rightarrow> 'k option) \<Rightarrow> (ident \<Rightarrow> channel option) \<Rightarrow> ('k, ident fset) fmap \<Rightarrow> bool" where
  "index_exact key g idx \<longleftrightarrow> (\<forall>k. idx_get idx k = {i. \<exists>ch. g i = Some ch \<and> key ch = Some k})"

lemma index_exact_add:
  assumes "index_exact key g idx" "g i = None"
  shows "index_exact key (g(i := Some ch)) (case key ch of None \<Rightarrow> idx | Some k \<Rightarrow> addChannelIndex k i idx)"
  using assms by (cases "key ch") (auto simp: index_exact_def idx_add split: if_splits)

lemma index_exact_remove:
  assumes "index_exact key g idx" "g i = Some ch"
  shows "index_exact key (g(i := None)) (case key ch of None \<Rightarrow> idx | Some k \<Rightarrow> removeChannelIndex k i idx)"
  using assms by (cases "key ch") (auto simp: index_exact_def idx_remove split: if_splits)

lemma index_exact_upd:
  assumes "index_exact key g idx" "g i = Some ch" "key ch' = key ch"
  shows "index_exact key (g(i := Some ch')) idx"
  using assms by (auto simp: index_exact_def split: if_splits)

definition user_key :: "channel \<Rightarrow> ident option" where
  "user_key ch = Some (ch_user ch)"

definition worker_key :: "channel \<Rightarrow> ident option" where
  "worker_key ch = Some (ch_worker ch)"

definition session_key :: "channel \<Rightarrow> ident option" where
  "session_key ch = (let s = SessionID (ai_credential (ch_auth ch)) in if s \<noteq> empty_id then Some s else None)"

definition bearer_key :: "channel \<Rightarrow> bearer_ref option" where
  "bearer_key ch = BearerRef (ai_credential (ch_auth ch))"

lemmas key_defs = user_key_def worker_key_def session_key_def bearer_key_def

definition indexes_ok :: "channel_manager \<Rightarrow> bool" where
  "indexes_ok m \<longleftrightarrow> index_exact user_key (reg m) (hm_byUser m) \<and> index_exact worker_key (reg m) (hm_byWorker m) \<and>
     index_exact session_key (reg m) (hm_bySession m) \<and> index_exact bearer_key (reg m) (hm_byBearer m)"

lemma indexChannel_eq: "indexChannel ch m = m\<lparr>
    hm_byUser := (case user_key ch of None \<Rightarrow> hm_byUser m | Some k \<Rightarrow> addChannelIndex k (ch_id ch) (hm_byUser m)),
    hm_byWorker := (case worker_key ch of None \<Rightarrow> hm_byWorker m | Some k \<Rightarrow> addChannelIndex k (ch_id ch) (hm_byWorker m)),
    hm_bySession := (case session_key ch of None \<Rightarrow> hm_bySession m | Some k \<Rightarrow> addChannelIndex k (ch_id ch) (hm_bySession m)),
    hm_byBearer := (case bearer_key ch of None \<Rightarrow> hm_byBearer m | Some k \<Rightarrow> addChannelIndex k (ch_id ch) (hm_byBearer m))\<rparr>"
  by (simp add: indexChannel_def Let_def key_defs split: option.splits)

lemma unindexChannel_eq: "unindexChannel ch m = m\<lparr>
    hm_byUser := (case user_key ch of None \<Rightarrow> hm_byUser m | Some k \<Rightarrow> removeChannelIndex k (ch_id ch) (hm_byUser m)),
    hm_byWorker := (case worker_key ch of None \<Rightarrow> hm_byWorker m | Some k \<Rightarrow> removeChannelIndex k (ch_id ch) (hm_byWorker m)),
    hm_bySession := (case session_key ch of None \<Rightarrow> hm_bySession m | Some k \<Rightarrow> removeChannelIndex k (ch_id ch) (hm_bySession m)),
    hm_byBearer := (case bearer_key ch of None \<Rightarrow> hm_byBearer m | Some k \<Rightarrow> removeChannelIndex k (ch_id ch) (hm_byBearer m))\<rparr>"
  by (simp add: unindexChannel_def Let_def key_defs split: option.splits)

section \<open>The invariant\<close>

definition timed :: "channel_manager \<Rightarrow> chan_ref set" where
  "timed m = {r. \<exists>i. fmlookup (hm_channels m) i = Some r \<and> deadline_At (ch_expiresAt (obj m r)) \<noteq> None}"

text \<open>The set \<open>D\<close> is what the expiry sweep has taken from the heap and not yet torn down.\<close>

definition expiry_but :: "chan_ref set \<Rightarrow> channel_manager \<Rightarrow> bool" where
  "expiry_but D m \<longleftrightarrow> heap_ok (expiry_key m) (hm_expiries m) \<and> set (items (hm_expiries m)) = timed m - D \<and>
     (\<forall>i ch. reg m i = Some ch \<and> ch_onExpire ch = None \<longrightarrow> ch_expiresAt ch = Unset)"

definition core_but :: "chan_ref set \<Rightarrow> channel_manager \<Rightarrow> bool" where
  "core_but D m \<longleftrightarrow> refs_ok m \<and> indexes_ok m \<and> expiry_but D m"

abbreviation core_ok :: "channel_manager \<Rightarrow> bool" where
  "core_ok \<equiv> core_but {}"

definition tracker_ok :: "channel_manager \<Rightarrow> bool" where
  "tracker_ok m \<longleftrightarrow> fset (fmdom (hm_tracker m)) \<subseteq> fset (fmdom (hm_channels m)) \<and> track_ok DefaultMaxMessageSize (hm_tracker m)"

definition mgr_ok :: "channel_manager \<Rightarrow> bool" where
  "mgr_ok m \<longleftrightarrow> core_ok m \<and> tracker_ok m"

lemma expiry_key_cong: "hm_objs m = hm_objs n \<Longrightarrow> expiry_key m = expiry_key n"
  by (rule ext) (simp add: expiry_key_def)

lemma core_cong:
  assumes "hm_objs m = hm_objs n" "hm_next m = hm_next n" "hm_channels m = hm_channels n" "hm_byUser m = hm_byUser n"
    "hm_byWorker m = hm_byWorker n" "hm_bySession m = hm_bySession n" "hm_byBearer m = hm_byBearer n" "hm_expiries m = hm_expiries n"
  shows "core_but D m = core_but D n"
  using assms reg_cong [OF assms(1,3)] expiry_key_cong [OF assms(1)]
  by (simp add: core_but_def refs_ok_def indexes_ok_def expiry_but_def timed_def)

lemma core_frames [simp]:
  "core_but D (m\<lparr>hm_senders := a\<rparr>) = core_but D m" "core_but D (m\<lparr>hm_timer := b\<rparr>) = core_but D m"
  "core_but D (m\<lparr>hm_tracker := c\<rparr>) = core_but D m" "core_but D (m\<lparr>hm_out := d\<rparr>) = core_but D m"
  by (rule core_cong; simp)+

lemma reg_frames [simp]:
  "reg (m\<lparr>hm_senders := a\<rparr>) = reg m" "reg (m\<lparr>hm_timer := b\<rparr>) = reg m" "reg (m\<lparr>hm_tracker := c\<rparr>) = reg m"
  "reg (m\<lparr>hm_out := d\<rparr>) = reg m" "reg (m\<lparr>hm_expiries := e\<rparr>) = reg m"
  by (rule reg_cong; simp)+

lemma reset_frames [simp]:
  "core_but D (resetExpiryTimerLocked now m) = core_but D m" "reg (resetExpiryTimerLocked now m) = reg m"
  "hm_channels (resetExpiryTimerLocked now m) = hm_channels m" "hm_tracker (resetExpiryTimerLocked now m) = hm_tracker m"
  "hm_senders (resetExpiryTimerLocked now m) = hm_senders m" "hm_expiries (resetExpiryTimerLocked now m) = hm_expiries m"
  "hm_objs (resetExpiryTimerLocked now m) = hm_objs m" "hm_out (resetExpiryTimerLocked now m) = hm_out m"
  by (simp_all add: resetExpiryTimerLocked_def split: option.splits)

lemma reg_Some: "reg m i = Some ch \<longleftrightarrow> (\<exists>r. fmlookup (hm_channels m) i = Some r \<and> obj m r = ch)"
  by (auto simp: reg_def)

lemma key_upd: "x \<noteq> r \<Longrightarrow> expiry_key (set_obj r ch m) x = expiry_key m x"
  by (simp add: expiry_key_def set_obj_def)

section \<open>Updating one channel\<close>

text \<open>A change of a channel that keeps its keys and its place in the heap right keeps the invariant.\<close>

lemma core_set_obj:
  assumes ok: "core_ok m" and r: "fmlookup (hm_channels m) i = Some r"
    and same: "ch_id ch = i" "\<not> ch_closed ch" "ch_user ch = ch_user (obj m r)" "ch_worker ch = ch_worker (obj m r)"
      "ai_credential (ch_auth ch) = ai_credential (ch_auth (obj m r))"
    and armed: "ch_onExpire ch = None \<Longrightarrow> ch_expiresAt ch = Unset"
    and heap: "heap_ok (expiry_key (set_obj r ch m)) h"
      "set (items h) = (if deadline_At (ch_expiresAt ch) = None then timed m - {r} else insert r (timed m))"
  shows "core_ok ((set_obj r ch m)\<lparr>hm_expiries := h\<rparr>) \<and> reg ((set_obj r ch m)\<lparr>hm_expiries := h\<rparr>) = (reg m)(i := Some ch)"
proof -
  let ?m = "(set_obj r ch m)\<lparr>hm_expiries := h\<rparr>"
  have refs: "refs_ok m" and idx: "indexes_ok m" and ex: "expiry_but {} m" using ok by (simp_all add: core_but_def)
  have g: "reg ?m = (reg m)(i := Some ch)" using reg_set_obj [OF refs r] by simp
  have gi: "reg m i = Some (obj m r)" using r by (simp add: reg_def)
  have f: "hm_channels ?m = hm_channels m" "hm_next ?m = hm_next m" "hm_objs ?m = fmupd r ch (hm_objs m)" by (simp_all add: set_obj_def)
  have obj: "obj ?m x = (if x = r then ch else obj m x)" for x by (simp add: set_obj_def)
  have "refs_ok ?m"
  proof (rule refs_okI)
    show "x < hm_next ?m" if "x |\<in>| fmdom (hm_objs ?m)" for x
      using that refs_okD(1) [OF refs, of x] refs_okD(1) [OF refs refs_okD(2) [OF refs r]] by (auto simp: f)
    show "x |\<in>| fmdom (hm_objs ?m) \<and> ch_id (obj ?m x) = j \<and> \<not> ch_closed (obj ?m x)" if "fmlookup (hm_channels ?m) j = Some x" for j x
    proof (cases "x = r")
      case True
      then have "j = i" using refs_inj [OF refs _ r] that f by simp
      then show ?thesis using True same(1,2) by (simp add: set_obj_def)
    next
      case False
      then show ?thesis using refs_okD(2-4) [OF refs, of j x] that by (simp add: set_obj_def)
    qed
  qed
  moreover have "indexes_ok ?m"
  proof -
    have k: "user_key ch = user_key (obj m r)" "worker_key ch = worker_key (obj m r)" "session_key ch = session_key (obj m r)"
      "bearer_key ch = bearer_key (obj m r)" by (simp_all add: key_defs same(3-5))
    have i: "hm_byUser ?m = hm_byUser m" "hm_byWorker ?m = hm_byWorker m" "hm_bySession ?m = hm_bySession m" "hm_byBearer ?m = hm_byBearer m"
      by (simp_all add: set_obj_def)
    show ?thesis using idx index_exact_upd [of user_key "reg m" "hm_byUser m" i, OF _ gi k(1)]
        index_exact_upd [of worker_key "reg m" "hm_byWorker m" i, OF _ gi k(2)]
        index_exact_upd [of session_key "reg m" "hm_bySession m" i, OF _ gi k(3)]
        index_exact_upd [of bearer_key "reg m" "hm_byBearer m" i, OF _ gi k(4)]
      unfolding indexes_ok_def g i by blast
  qed
  moreover have "timed ?m = (if deadline_At (ch_expiresAt ch) = None then timed m - {r} else insert r (timed m))"
    using r by (auto simp: timed_def f obj split: if_splits)
  moreover have "expiry_key ?m = expiry_key (set_obj r ch m)" by (rule expiry_key_cong) simp
  ultimately show ?thesis using g heap ex armed by (auto simp: core_but_def expiry_but_def split: if_splits)
qed

section \<open>Removal\<close>

lemma removeChannelIf_spec:
  assumes ok: "core_but D m" and run: "removeChannelIf i pred m = (out, m')"
  shows "case reg m i of
      Some ch \<Rightarrow> if pred m ch then reg m' = (reg m)(i := None) \<and> core_but D m' \<and> hm_senders m' = hm_senders m \<and> hm_tracker m' = hm_tracker m \<and>
          hm_channels m' = fmdrop i (hm_channels m) \<and> hm_out m' = hm_out m \<and>
          out = Some \<lparr>rm_closed = \<lparr>cc_channel = i, cc_worker = ch_worker ch, cc_user = ch_user ch\<rparr>,
            rm_sender = getConnSender (ch_user ch) (ch_conn ch) m, rm_cancel = ch_cancel ch, rm_onExpire = ch_onExpire ch\<rparr>
        else out = None \<and> m' = m
    | None \<Rightarrow> out = None \<and> m' = m"
proof (cases "fmlookup (hm_channels m) i")
  case None
  then show ?thesis using run by (simp add: reg_def removeChannelIf_def remove_locked_def acquireChannelOp_def)
next
  case (Some r)
  let ?ch = "obj m r"
  have refs: "refs_ok m" and idx: "indexes_ok m" and ex: "expiry_but D m" using ok by (simp_all add: core_but_def)
  have ch: "ch_id ?ch = i" "\<not> ch_closed ?ch" "r |\<in>| fmdom (hm_objs m)" using refs Some by (simp_all add: refs_ok_def)
  have gi: "reg m i = Some ?ch" using Some by (simp add: reg_def)
  show ?thesis
  proof (cases "pred m ?ch")
    case False
    then show ?thesis using run Some gi by (simp add: removeChannelIf_def remove_locked_def acquireChannelOp_def Let_def)
  next
    case True
    define m1 where "m1 = set_obj r (?ch\<lparr>ch_closed := True\<rparr>) m"
    define m2 where "m2 = unindexChannel ?ch (m1\<lparr>hm_channels := fmdrop i (hm_channels m1)\<rparr>)"
    have f: "hm_channels m2 = fmdrop i (hm_channels m)" "hm_next m2 = hm_next m" "hm_objs m2 = fmupd r (?ch\<lparr>ch_closed := True\<rparr>) (hm_objs m)"
      "hm_expiries m2 = hm_expiries m" "hm_senders m2 = hm_senders m" "hm_tracker m2 = hm_tracker m" "hm_out m2 = hm_out m"
      by (simp_all add: m2_def m1_def unindexChannel_eq set_obj_def)
    let ?m3 = "m2\<lparr>hm_expiries := queue_drop (expiry_key m2) r (hm_expiries m2)\<rparr>"
    have "removeChannelIf i pred m = (Some \<lparr>rm_closed = \<lparr>cc_channel = i, cc_worker = ch_worker ?ch, cc_user = ch_user ?ch\<rparr>,
            rm_sender = getConnSender (ch_user ?ch) (ch_conn ?ch) ?m3, rm_cancel = ch_cancel ?ch, rm_onExpire = ch_onExpire ?ch\<rparr>, ?m3)"
      unfolding m2_def m1_def using Some True ch(2) by (simp add: removeChannelIf_def remove_locked_def acquireChannelOp_def Let_def channelLiveLocked_def)
    moreover have "getConnSender u c ?m3 = getConnSender u c m" for u c by (simp add: getConnSender_def f(5))
    ultimately have m': "m' = ?m3" and out: "out = Some \<lparr>rm_closed = \<lparr>cc_channel = i, cc_worker = ch_worker ?ch, cc_user = ch_user ?ch\<rparr>,
            rm_sender = getConnSender (ch_user ?ch) (ch_conn ?ch) m, rm_cancel = ch_cancel ?ch, rm_onExpire = ch_onExpire ?ch\<rparr>"
      using run by simp_all
    have obj: "obj m2 x = (if x = r then ?ch\<lparr>ch_closed := True\<rparr> else obj m x)" for x by (simp add: f)
    have other: "x \<noteq> r" if "fmlookup (hm_channels m) j = Some x" "j \<noteq> i" for j x using refs_inj [OF refs _ Some] that by blast
    have g: "reg m2 = (reg m)(i := None)" by (rule ext) (auto simp: reg_def f(1) obj map_option_case dest: other split: option.splits)
    have "refs_ok m2"
    proof (rule refs_okI)
      show "x < hm_next m2" if "x |\<in>| fmdom (hm_objs m2)" for x
        using that refs_okD(1) [OF refs, of x] refs_okD(1) [OF refs ch(3)] by (auto simp: f)
      show "x |\<in>| fmdom (hm_objs m2) \<and> ch_id (obj m2 x) = j \<and> \<not> ch_closed (obj m2 x)" if "fmlookup (hm_channels m2) j = Some x" for j x
      proof -
        have j: "fmlookup (hm_channels m) j = Some x" "j \<noteq> i" using that by (auto simp: f split: if_splits)
        then show ?thesis using other [OF j] refs_okD(2-4) [OF refs j(1)] by (simp add: f)
      qed
    qed
    moreover have "indexes_ok m2"
    proof -
      have fi: "hm_byUser m2 = (case user_key ?ch of None \<Rightarrow> hm_byUser m | Some k \<Rightarrow> removeChannelIndex k i (hm_byUser m))"
        "hm_byWorker m2 = (case worker_key ?ch of None \<Rightarrow> hm_byWorker m | Some k \<Rightarrow> removeChannelIndex k i (hm_byWorker m))"
        "hm_bySession m2 = (case session_key ?ch of None \<Rightarrow> hm_bySession m | Some k \<Rightarrow> removeChannelIndex k i (hm_bySession m))"
        "hm_byBearer m2 = (case bearer_key ?ch of None \<Rightarrow> hm_byBearer m | Some k \<Rightarrow> removeChannelIndex k i (hm_byBearer m))"
        using ch(1) by (simp_all add: m2_def m1_def unindexChannel_eq set_obj_def split: option.splits)
      show ?thesis using idx index_exact_remove [of user_key "reg m" "hm_byUser m" i, OF _ gi]
          index_exact_remove [of worker_key "reg m" "hm_byWorker m" i, OF _ gi]
          index_exact_remove [of session_key "reg m" "hm_bySession m" i, OF _ gi]
          index_exact_remove [of bearer_key "reg m" "hm_byBearer m" i, OF _ gi]
        unfolding indexes_ok_def g fi by blast
    qed
    moreover have "expiry_but D (m2\<lparr>hm_expiries := queue_drop (expiry_key m2) r (hm_expiries m2)\<rparr>)"
    proof -
      have "expiry_key m2 x = expiry_key m x" for x by (simp add: expiry_key_def obj)
      then have q: "heap_ok (expiry_key m2) (queue_drop (expiry_key m2) r (hm_expiries m2)) \<and>
          set (items (queue_drop (expiry_key m2) r (hm_expiries m2))) = set (items (hm_expiries m)) - {r}"
        using go_heap.del_laws [of "expiry_key m" "hm_expiries m" r "expiry_key m2"] ex by (simp add: f expiry_but_def)
      have t: "timed m2 = timed m - {r}"
      proof -
        have "(\<exists>j. fmlookup (hm_channels m2) j = Some x) \<longleftrightarrow> (\<exists>j. fmlookup (hm_channels m) j = Some x) \<and> x \<noteq> r" for x
          using other Some by (auto simp: f(1))
        then show ?thesis by (auto simp: timed_def obj)
      qed
      have k: "expiry_key (m2\<lparr>hm_expiries := h\<rparr>) = expiry_key m2" "timed (m2\<lparr>hm_expiries := h\<rparr>) = timed m2" for h
        by (rule expiry_key_cong, simp) (simp add: timed_def)
      show ?thesis using q t ex g by (auto simp: expiry_but_def k split: if_splits)
    qed
    ultimately have "core_but D m'" unfolding m' by (simp add: core_but_def refs_ok_def indexes_ok_def)
    then show ?thesis using True gi g out by (simp add: m' f)
  qed
qed


lemma drain_frames:
  "core_but D (fold (drain_one fails) removed m) = core_but D m" "reg (fold (drain_one fails) removed m) = reg m"
  "hm_channels (fold (drain_one fails) removed m) = hm_channels m" "hm_senders (fold (drain_one fails) removed m) = hm_senders m"
  "hm_objs (fold (drain_one fails) removed m) = hm_objs m" "hm_expiries (fold (drain_one fails) removed m) = hm_expiries m"
  "hm_timer (fold (drain_one fails) removed m) = hm_timer m"
  "hm_tracker (fold (drain_one fails) removed m) = fold (\<lambda>x. RemoveChannel (cc_channel (rm_closed x))) removed (hm_tracker m)"
  by (induction removed arbitrary: m)
     (simp_all add: drain_one_def Let_def call_cancel_def sendCloseNotification_def deliver_def split: option.splits)

text \<open>A predicate of the channel, and of what removal leaves alone.\<close>

definition steady :: "(channel_manager \<Rightarrow> channel \<Rightarrow> bool) \<Rightarrow> bool" where
  "steady pred \<longleftrightarrow> (\<forall>m n ch. hm_senders m = hm_senders n \<longrightarrow> pred m ch = pred n ch)"

definition closes :: "(channel_manager \<Rightarrow> channel \<Rightarrow> bool) \<Rightarrow> ident set \<Rightarrow> channel_manager \<Rightarrow> ident set" where
  "closes pred ids m = {i \<in> ids. \<exists>ch. reg m i = Some ch \<and> pred m ch}"

lemma remove_all_spec:
  assumes "steady pred"
  shows "core_but D m \<Longrightarrow> remove_all pred ids m = (removed, m') \<Longrightarrow>
    core_but D m' \<and> reg m' = (\<lambda>i. if i \<in> closes pred (set ids) m then None else reg m i) \<and>
    set (map (cc_channel o rm_closed) removed) = closes pred (set ids) m \<and> distinct (map (cc_channel o rm_closed) removed) \<and>
    hm_senders m' = hm_senders m \<and> hm_tracker m' = hm_tracker m"
proof (induction ids arbitrary: m removed)
  case Nil
  then show ?case by (auto simp: closes_def)
next
  case (Cons i ids)
  obtain out m1 where run: "removeChannelIf i pred m = (out, m1)" by fastforce
  note spec = removeChannelIf_spec [OF Cons.prems(1) run]
  show ?case
  proof (cases "i \<in> closes pred {i} m")
    case False
    then have same: "out = None" "m1 = m" using spec by (auto simp: closes_def split: option.splits if_splits)
    have c: "closes pred (set (i # ids)) m = closes pred (set ids) m" using False by (auto simp: closes_def)
    have "remove_all pred ids m = (removed, m')" using Cons.prems(2) run same by simp
    then show ?thesis using Cons.IH [OF Cons.prems(1)] unfolding c by blast
  next
    case True
    then obtain ch where ch: "reg m i = Some ch" "pred m ch" by (auto simp: closes_def)
    then obtain item where m1: "reg m1 = (reg m)(i := None)" "core_but D m1" "hm_senders m1 = hm_senders m" "hm_tracker m1 = hm_tracker m"
        and item: "out = Some item" "cc_channel (rm_closed item) = i" using spec by auto
    obtain rest where rest: "remove_all pred ids m1 = (rest, m')" "removed = item # rest"
      using Cons.prems(2) run item(1) by (auto split: prod.splits)
    have "pred m1 ch' = pred m ch'" for ch' using assms m1(3) unfolding steady_def by blast
    then have c: "closes pred (set ids) m1 = closes pred (set ids) m - {i}" using m1(1) by (auto simp: closes_def split: if_splits)
    have ci: "closes pred (set (i # ids)) m = insert i (closes pred (set ids) m)" using ch by (auto simp: closes_def)
    from Cons.IH [OF m1(2) rest(1)] show ?thesis unfolding c ci rest(2) using m1 item(2) by (auto simp: fun_eq_iff)
  qed
qed

lemma RemoveChannel_ok: "track_ok limit ct \<Longrightarrow> track_ok limit (RemoveChannel ch ct)"
  unfolding track_ok_def RemoveChannel_def fmlookup_drop by (metis option.distinct(1))

lemma closeChannelIDs_spec:
  assumes ok: "core_but D m" and pred: "steady pred" and run: "closeChannelIDs fails now ids pred m = (gone, m')"
  shows "core_but D m'" "reg m' = (\<lambda>i. if i \<in> closes pred (set ids) m then None else reg m i)"
    "set (map cc_channel gone) = closes pred (set ids) m" "distinct (map cc_channel gone)" "hm_senders m' = hm_senders m"
    "tracker_ok m \<Longrightarrow> tracker_ok m'"
proof -
  obtain removed m1 where all: "remove_all pred ids m = (removed, m1)" by fastforce
  note spec = remove_all_spec [OF pred ok all]
  let ?m = "if removed \<noteq> [] then resetExpiryTimerLocked now m1 else m1"
  have m': "m' = fold (drain_one fails) removed ?m" "gone = map rm_closed removed"
    using run all by (auto simp: closeChannelIDs_def drainRemoved_def)
  have m: "core_but D ?m = core_but D m1" "reg ?m = reg m1" "hm_senders ?m = hm_senders m1" "hm_tracker ?m = hm_tracker m1" by simp_all
  show "core_but D m'" "reg m' = (\<lambda>i. if i \<in> closes pred (set ids) m then None else reg m i)" "hm_senders m' = hm_senders m"
    using spec by (simp_all add: m'(1) drain_frames m)
  show "set (map cc_channel gone) = closes pred (set ids) m" "distinct (map cc_channel gone)" using spec m'(2) by (simp_all add: comp_def)
  assume t: "tracker_ok m"
  have tr: "hm_tracker m' = fold (\<lambda>x. RemoveChannel (cc_channel (rm_closed x))) removed (hm_tracker m)"
    using spec by (simp add: m'(1) drain_frames m)
  have dropped: "fmdom (fold (\<lambda>x. RemoveChannel (cc_channel (rm_closed x))) rs ct) = fmdom ct |-| fset_of_list (map (cc_channel o rm_closed) rs)"
    for rs and ct :: tracked
    by (induction rs arbitrary: ct) (auto simp: RemoveChannel_def)
  have kept: "track_ok DefaultMaxMessageSize ct \<Longrightarrow> track_ok DefaultMaxMessageSize (fold (\<lambda>x. RemoveChannel (cc_channel (rm_closed x))) rs ct)"
    for rs and ct :: tracked
    by (induction rs arbitrary: ct) (simp_all add: RemoveChannel_ok)
  have "fset (fmdom (hm_channels m')) = {i. reg m' i \<noteq> None}" "fset (fmdom (hm_channels m)) = {i. reg m i \<noteq> None}"
    by (auto simp: reg_def fmlookup_dom_iff)
  then show "tracker_ok m'"
    using t kept spec \<open>reg m' = (\<lambda>i. if i \<in> closes pred (set ids) m then None else reg m i)\<close>
    by (auto simp: tracker_ok_def tr dropped fset_of_list.rep_eq subset_iff)
qed


section \<open>Registration\<close>

lemma Register_spec:
  assumes ok: "core_ok m" and fresh: "reg m i = None"
  shows "core_ok (RegisterWithAuthInfo i w u ai cancel m)"
    "reg (RegisterWithAuthInfo i w u ai cancel m) = (reg m)(i := Some \<lparr>ch_closed = False, ch_id = i, ch_worker = w, ch_user = u, ch_auth = ai,
       ch_conn = empty_id, ch_expiresAt = Unset, ch_pending = Unset, ch_onExpire = None, ch_cancel = cancel\<rparr>)"
proof -
  let ?ch = "\<lparr>ch_closed = False, ch_id = i, ch_worker = w, ch_user = u, ch_auth = ai, ch_conn = empty_id, ch_expiresAt = Unset,
    ch_pending = Unset, ch_onExpire = None, ch_cancel = cancel\<rparr>" and ?r = "hm_next m" and ?m = "RegisterWithAuthInfo i w u ai cancel m"
  have refs: "refs_ok m" and idx: "indexes_ok m" and ex: "expiry_but {} m" using ok by (simp_all add: core_but_def)
  have new: "\<not> ?r |\<in>| fmdom (hm_objs m)" "fmlookup (hm_channels m) i = None" using refs_okD(1) [OF refs, of ?r] fresh by (auto simp: reg_def)
  have f: "hm_channels ?m = fmupd i ?r (hm_channels m)" "hm_next ?m = Suc ?r" "hm_objs ?m = fmupd ?r ?ch (hm_objs m)"
    "hm_expiries ?m = hm_expiries m" by (simp_all add: RegisterWithAuthInfo_def Let_def indexChannel_eq set_obj_def)
  have old: "x \<noteq> ?r" if "fmlookup (hm_channels m) j = Some x" for j x using refs_okD(2) [OF refs that] new(1) by auto
  have obj: "obj ?m x = (if x = ?r then ?ch else obj m x)" for x by (simp add: f(3))
  show g: "reg ?m = (reg m)(i := Some ?ch)" by (rule ext) (auto simp: reg_def f(1) obj map_option_case dest: old split: option.splits)
  have "refs_ok ?m"
  proof (rule refs_okI)
    show "x < hm_next ?m" if "x |\<in>| fmdom (hm_objs ?m)" for x using that refs_okD(1) [OF refs, of x] by (auto simp: f)
    show "x |\<in>| fmdom (hm_objs ?m) \<and> ch_id (obj ?m x) = j \<and> \<not> ch_closed (obj ?m x)" if "fmlookup (hm_channels ?m) j = Some x" for j x
    proof (cases "j = i")
      case True
      then show ?thesis using that by (simp add: f)
    next
      case False
      then have j: "fmlookup (hm_channels m) j = Some x" using that by (simp add: f)
      show ?thesis using refs_okD(2-4) [OF refs j] old [OF j] by (simp add: f)
    qed
  qed
  moreover have "indexes_ok ?m"
  proof -
    have fi: "hm_byUser ?m = (case user_key ?ch of None \<Rightarrow> hm_byUser m | Some k \<Rightarrow> addChannelIndex k i (hm_byUser m))"
      "hm_byWorker ?m = (case worker_key ?ch of None \<Rightarrow> hm_byWorker m | Some k \<Rightarrow> addChannelIndex k i (hm_byWorker m))"
      "hm_bySession ?m = (case session_key ?ch of None \<Rightarrow> hm_bySession m | Some k \<Rightarrow> addChannelIndex k i (hm_bySession m))"
      "hm_byBearer ?m = (case bearer_key ?ch of None \<Rightarrow> hm_byBearer m | Some k \<Rightarrow> addChannelIndex k i (hm_byBearer m))"
      by (simp_all add: RegisterWithAuthInfo_def Let_def indexChannel_eq set_obj_def split: option.splits)
    show ?thesis using idx index_exact_add [of user_key "reg m" "hm_byUser m" i ?ch, OF _ fresh]
        index_exact_add [of worker_key "reg m" "hm_byWorker m" i ?ch, OF _ fresh]
        index_exact_add [of session_key "reg m" "hm_bySession m" i ?ch, OF _ fresh]
        index_exact_add [of bearer_key "reg m" "hm_byBearer m" i ?ch, OF _ fresh]
      unfolding indexes_ok_def g fi by blast
  qed
  moreover have "expiry_but {} ?m"
  proof -
    have t: "timed ?m = timed m"
    proof -
      have "(\<exists>j. fmlookup (hm_channels ?m) j = Some x) \<longleftrightarrow> x = ?r \<or> (\<exists>j. fmlookup (hm_channels m) j = Some x)" for x
        using new(2) by (auto simp: f(1)) (metis option.distinct(1))
      moreover have "deadline_At (ch_expiresAt (obj ?m ?r)) = None" by (simp add: obj deadline_At_def)
      ultimately show ?thesis using old by (auto simp: timed_def obj)
    qed
    have "heap_ok (expiry_key ?m) (hm_expiries m)"
    proof (rule heap_ok_cong)
      show "heap_ok (expiry_key m) (hm_expiries m)" using ex by (simp add: expiry_but_def)
      show "expiry_key ?m x = expiry_key m x" if "x \<in> set (items (hm_expiries m))" for x
        using that ex old by (auto simp: expiry_but_def timed_def expiry_key_def obj)
    qed
    then show ?thesis using ex t g by (auto simp: expiry_but_def f(4) split: if_splits)
  qed
  ultimately show "core_ok ?m" by (simp add: core_but_def)
qed

section \<open>Changes of one channel\<close>

lemma core_keep:
  assumes ok: "core_ok m" and r: "fmlookup (hm_channels m) i = Some r"
    and same: "ch_id ch = ch_id (obj m r)" "ch_closed ch = ch_closed (obj m r)" "ch_user ch = ch_user (obj m r)" "ch_worker ch = ch_worker (obj m r)"
      "ai_credential (ch_auth ch) = ai_credential (ch_auth (obj m r))" "ch_onExpire ch = ch_onExpire (obj m r)" "ch_expiresAt ch = ch_expiresAt (obj m r)"
  shows "core_ok (set_obj r ch m)" "reg (set_obj r ch m) = (reg m)(i := Some ch)"
proof -
  have refs: "refs_ok m" and ex: "expiry_but {} m" using ok by (simp_all add: core_but_def)
  have "expiry_key (set_obj r ch m) = expiry_key m" by (rule ext) (simp add: expiry_key_def set_obj_def same(7))
  moreover have "set (items (hm_expiries m)) = (if deadline_At (ch_expiresAt ch) = None then timed m - {r} else insert r (timed m))"
    using ex r by (auto simp: expiry_but_def timed_def same(7))
  moreover have "ch_expiresAt ch = Unset" if "ch_onExpire ch = None" using ex r that by (auto simp: expiry_but_def reg_def same(6,7))
  ultimately have "core_ok ((set_obj r ch m)\<lparr>hm_expiries := hm_expiries m\<rparr>) \<and>
      reg ((set_obj r ch m)\<lparr>hm_expiries := hm_expiries m\<rparr>) = (reg m)(i := Some ch)"
    using ex refs_okD(3,4) [OF refs r] by (intro core_set_obj [OF ok r]) (simp_all add: same(1-5) expiry_but_def)
  moreover have "(set_obj r ch m)\<lparr>hm_expiries := hm_expiries m\<rparr> = set_obj r ch m" by (simp add: set_obj_def)
  ultimately show "core_ok (set_obj r ch m)" "reg (set_obj r ch m) = (reg m)(i := Some ch)" by simp_all
qed

text \<open>The deadline of a channel moves.\<close>

lemma core_deadline:
  assumes ok: "core_ok m" and r: "fmlookup (hm_channels m) i = Some r"
    and ch: "ch = (obj m r)\<lparr>ch_auth := (ch_auth (obj m r))\<lparr>ai_expires := d\<rparr>, ch_expiresAt := d, ch_onExpire := Some f, ch_pending := p\<rparr>"
    and h: "h = (if deadline_At d = None then queue_drop (expiry_key (set_obj r ch m)) r (hm_expiries m)
                 else queue_put (expiry_key (set_obj r ch m)) r (hm_expiries m))"
  shows "core_ok ((set_obj r ch m)\<lparr>hm_expiries := h\<rparr>)" "reg ((set_obj r ch m)\<lparr>hm_expiries := h\<rparr>) = (reg m)(i := Some ch)"
proof -
  have refs: "refs_ok m" and ex: "expiry_but {} m" using ok by (simp_all add: core_but_def)
  let ?k = "expiry_key (set_obj r ch m)"
  have heap: "heap_ok (expiry_key m) (hm_expiries m)" and mem: "set (items (hm_expiries m)) = timed m" using ex by (simp_all add: expiry_but_def)
  note agree = key_upd [of _ r ch m]
  have "heap_ok ?k h \<and> set (items h) = (if deadline_At (ch_expiresAt ch) = None then timed m - {r} else insert r (timed m))"
    using go_heap.del_laws [OF heap agree, of r] go_heap.put_laws [OF heap agree, of r] mem by (simp add: h ch)
  then have "core_ok ((set_obj r ch m)\<lparr>hm_expiries := h\<rparr>) \<and> reg ((set_obj r ch m)\<lparr>hm_expiries := h\<rparr>) = (reg m)(i := Some ch)"
    using refs_okD(3,4) [OF refs r] by (intro core_set_obj [OF ok r]) (simp_all add: ch)
  then show "core_ok ((set_obj r ch m)\<lparr>hm_expiries := h\<rparr>)" "reg ((set_obj r ch m)\<lparr>hm_expiries := h\<rparr>) = (reg m)(i := Some ch)" by simp_all
qed


lemma set_obj_simps [simp]:
  "set_obj r a (m\<lparr>hm_expiries := h\<rparr>) = (set_obj r a m)\<lparr>hm_expiries := h\<rparr>" "set_obj r a (set_obj r b m) = set_obj r a m"
  "expiry_key (m\<lparr>hm_expiries := h\<rparr>) = expiry_key m" "hm_expiries (set_obj r a m) = hm_expiries m"
  "hm_channels (set_obj r a m) = hm_channels m" "hm_tracker (set_obj r a m) = hm_tracker m" "hm_senders (set_obj r a m) = hm_senders m"
  "hm_objs (set_obj r a m) = fmupd r a (hm_objs m)"
  by (simp_all add: set_obj_def) (rule expiry_key_cong, simp)

lemma ScheduleExpiry_spec:
  assumes ok: "core_ok m" and run: "ScheduleExpiry now i d f m = (b, m')"
  shows "core_ok m'" "hm_tracker m' = hm_tracker m" "hm_channels m' = hm_channels m"
    "b \<longleftrightarrow> f \<noteq> None \<and> reg m i \<noteq> None" "\<not> b \<Longrightarrow> m' = m"
    "b \<Longrightarrow> reg m' = (reg m)(i := map_option (\<lambda>ch. let e = (if IsUnset (ch_pending ch) then d else ch_pending ch) in
       ch\<lparr>ch_auth := (ch_auth ch)\<lparr>ai_expires := e\<rparr>, ch_expiresAt := e, ch_onExpire := f, ch_pending := Unset\<rparr>) (reg m i))"
proof -
  have refs: "refs_ok m" and ex: "expiry_but {} m" using ok by (simp_all add: core_but_def)
  have "core_ok m' \<and> hm_tracker m' = hm_tracker m \<and> hm_channels m' = hm_channels m \<and> (b \<longleftrightarrow> f \<noteq> None \<and> reg m i \<noteq> None) \<and> (\<not> b \<longrightarrow> m' = m) \<and>
    (b \<longrightarrow> reg m' = (reg m)(i := map_option (\<lambda>ch. let e = (if IsUnset (ch_pending ch) then d else ch_pending ch) in
       ch\<lparr>ch_auth := (ch_auth ch)\<lparr>ai_expires := e\<rparr>, ch_expiresAt := e, ch_onExpire := f, ch_pending := Unset\<rparr>) (reg m i)))"
  proof (cases "f = None \<or> fmlookup (hm_channels m) i = None")
    case True
    then show ?thesis using run ok by (auto simp: ScheduleExpiry_def reg_def split: option.splits)
  next
    case False
    then obtain g r where f: "f = Some g" and r: "fmlookup (hm_channels m) i = Some r" by auto
    let ?ch = "obj m r"
    have live: "channelLiveLocked i r m" using refs_okD(4) [OF refs r] r by (simp add: channelLiveLocked_def)
    define e where "e = (if \<not> IsUnset (ch_pending ?ch) then ch_pending ?ch else d)"
    define ch1 where "ch1 = ?ch\<lparr>ch_pending := Unset, ch_auth := (ch_auth ?ch)\<lparr>ai_expires := e\<rparr>, ch_onExpire := Some g\<rparr>"
    define ch2 where "ch2 = ?ch\<lparr>ch_auth := (ch_auth ?ch)\<lparr>ai_expires := e\<rparr>, ch_expiresAt := e, ch_onExpire := Some g, ch_pending := Unset\<rparr>"
    define h1 where "h1 = queue_drop (expiry_key (set_obj r ch1 m)) r (hm_expiries m)"
    define h where "h = (if deadline_At e = None then h1 else hpush (expiry_key (set_obj r ch2 m)) r h1)"
    have pend: "(if \<not> IsUnset (ch_pending ?ch) then Unset else ch_pending ?ch) = Unset" by (simp add: IsUnset_def)
    have ch2: "ch1\<lparr>ch_expiresAt := e\<rparr> = ch2" by (simp add: ch1_def ch2_def)
    have "ScheduleExpiry now i d f m = (True, resetExpiryTimerLocked now ((set_obj r ch2 m)\<lparr>hm_expiries := h\<rparr>))"
      using f r live
      by (simp only: ScheduleExpiry_def Let_def pend f option.case option.distinct if_False simp_thms live e_def [symmetric] ch1_def [symmetric] ch2)
         (simp add: h_def h1_def)
    then have m': "m' = resetExpiryTimerLocked now ((set_obj r ch2 m)\<lparr>hm_expiries := h\<rparr>)" and b: b using run by simp_all
    have heap: "heap_ok (expiry_key m) (hm_expiries m)" and mem: "set (items (hm_expiries m)) = timed m" using ex by (simp_all add: expiry_but_def)
    have k1: "expiry_key (set_obj r ch1 m) = expiry_key m" by (rule ext) (simp add: expiry_key_def ch1_def)
    have d1: "heap_ok (expiry_key m) h1 \<and> set (items h1) = timed m - {r}"
      using go_heap.del_laws [OF heap, of r "expiry_key m"] mem by (simp add: h1_def k1)
    have heap2: "heap_ok (expiry_key (set_obj r ch2 m)) h1"
    proof (rule heap_ok_cong)
      show "heap_ok (expiry_key m) h1" using d1 by simp
      show "expiry_key (set_obj r ch2 m) x = expiry_key m x" if "x \<in> set (items h1)" for x by (rule key_upd) (use d1 that in blast)
    qed
    have "heap_ok (expiry_key (set_obj r ch2 m)) h \<and>
        set (items h) = (if deadline_At (ch_expiresAt ch2) = None then timed m - {r} else insert r (timed m))"
      using hpush_ok [OF heap2, of r] heap2 d1 by (auto simp: h_def ch2_def)
    then have "core_ok ((set_obj r ch2 m)\<lparr>hm_expiries := h\<rparr>) \<and> reg ((set_obj r ch2 m)\<lparr>hm_expiries := h\<rparr>) = (reg m)(i := Some ch2)"
      using refs_okD(3,4) [OF refs r] by (intro core_set_obj [OF ok r]) (simp_all add: ch2_def)
    then show ?thesis using b f r by (simp add: m' reg_def [of m i] Let_def ch2_def e_def if_not_P split: if_splits)
  qed
  then show "core_ok m'" "hm_tracker m' = hm_tracker m" "hm_channels m' = hm_channels m"
    "b \<longleftrightarrow> f \<noteq> None \<and> reg m i \<noteq> None" "\<not> b \<Longrightarrow> m' = m"
    "b \<Longrightarrow> reg m' = (reg m)(i := map_option (\<lambda>ch. let e = (if IsUnset (ch_pending ch) then d else ch_pending ch) in
       ch\<lparr>ch_auth := (ch_auth ch)\<lparr>ai_expires := e\<rparr>, ch_expiresAt := e, ch_onExpire := f, ch_pending := Unset\<rparr>) (reg m i))" by blast+
qed


definition rescheduled :: "deadline \<Rightarrow> channel \<Rightarrow> channel" where
  "rescheduled d ch = (if ch_onExpire ch = None then ch\<lparr>ch_pending := AdoptReschedule (ch_pending ch) d\<rparr>
     else let e = AdoptReschedule (ch_expiresAt ch) d in ch\<lparr>ch_auth := (ch_auth ch)\<lparr>ai_expires := e\<rparr>, ch_expiresAt := e\<rparr>)"

lemma reschedule_one_spec:
  assumes ok: "core_ok m" and run: "reschedule_one d i (c, m) = (c', m')"
  shows "core_ok m' \<and> hm_tracker m' = hm_tracker m \<and> hm_channels m' = hm_channels m \<and>
    reg m' = (reg m)(i := map_option (rescheduled d) (reg m i))"
proof (cases "fmlookup (hm_channels m) i")
  case None
  then show ?thesis using run ok by (auto simp: reschedule_one_def reg_def fun_eq_iff)
next
  case (Some r)
  show ?thesis
  proof (cases "ch_onExpire (obj m r)")
    case None
    let ?ch = "rescheduled d (obj m r)"
    have ch: "?ch = (obj m r)\<lparr>ch_pending := AdoptReschedule (ch_pending (obj m r)) d\<rparr>" using None by (simp add: rescheduled_def)
    have "m' = set_obj r ?ch m" using run Some None by (simp add: reschedule_one_def Let_def ch)
    then show ?thesis using core_keep [OF ok Some, of ?ch] Some by (simp add: ch reg_def [of m i])
  next
    case (Some f)
    note r = \<open>fmlookup (hm_channels m) i = Some r\<close>
    let ?e = "AdoptReschedule (ch_expiresAt (obj m r)) d"
    let ?ch = "rescheduled d (obj m r)"
    have ch: "?ch = (obj m r)\<lparr>ch_auth := (ch_auth (obj m r))\<lparr>ai_expires := ?e\<rparr>, ch_expiresAt := ?e\<rparr>" using Some by (simp add: rescheduled_def Let_def)
    have ch': "?ch = (obj m r)\<lparr>ch_auth := (ch_auth (obj m r))\<lparr>ai_expires := ?e\<rparr>, ch_expiresAt := ?e, ch_onExpire := Some f, ch_pending := ch_pending (obj m r)\<rparr>"
      unfolding ch using Some by (cases "obj m r") simp
    define h where "h = (if deadline_At ?e = None then queue_drop (expiry_key (set_obj r ?ch m)) r (hm_expiries m)
                 else queue_put (expiry_key (set_obj r ?ch m)) r (hm_expiries m))"
    have "m' = (set_obj r ?ch m)\<lparr>hm_expiries := h\<rparr>" using run r Some unfolding h_def ch by (auto simp: reschedule_one_def Let_def)
    then show ?thesis using core_deadline [OF ok r ch' h_def] r by (simp add: reg_def [of m i])
  qed
qed

lemma reschedule_fold:
  "core_ok m \<Longrightarrow> fold (reschedule_one d) ids (c, m) = (c', m') \<Longrightarrow>
    core_ok m' \<and> hm_tracker m' = hm_tracker m \<and> hm_channels m' = hm_channels m"
proof (induction ids arbitrary: c m)
  case (Cons i ids)
  obtain c1 m1 where st: "reschedule_one d i (c, m) = (c1, m1)" by fastforce
  then show ?case using Cons reschedule_one_spec [OF Cons.prems(1) st] by auto
qed simp

lemma reschedule_ok:
  "core_ok m \<Longrightarrow> core_ok (rescheduleExpiryLocked it now ids d m) \<and> hm_tracker (rescheduleExpiryLocked it now ids d m) = hm_tracker m \<and>
    hm_channels (rescheduleExpiryLocked it now ids d m) = hm_channels m"
  using reschedule_fold [of m d "it ids" False] by (auto simp: rescheduleExpiryLocked_def split: prod.splits)

lemma restamp_one_ok:
  assumes "core_ok m"
  shows "core_ok (restamp_one g i m) \<and> hm_tracker (restamp_one g i m) = hm_tracker m \<and> hm_channels (restamp_one g i m) = hm_channels m"
proof (cases "fmlookup (hm_channels m) i")
  case (Some r)
  then show ?thesis using core_keep(1) [OF assms Some, of "(obj m r)\<lparr>ch_auth := (ch_auth (obj m r))\<lparr>ai_generation := g\<rparr>\<rparr>"] assms
    by (simp add: restamp_one_def)
qed (simp add: restamp_one_def assms)

lemma restamp_ok:
  "core_ok m \<Longrightarrow> core_ok (fold (restamp_one g) ids m) \<and> hm_tracker (fold (restamp_one g) ids m) = hm_tracker m \<and>
    hm_channels (fold (restamp_one g) ids m) = hm_channels m"
  by (induction ids arbitrary: m) (auto simp: restamp_one_ok)

lemma use_check_spec:
  assumes ok: "core_ok m" and r: "fmlookup (hm_channels m) i = Some r" and run: "use_check i r c p m = (out, m')"
  shows "core_ok m' \<and> hm_tracker m' = hm_tracker m \<and> hm_channels m' = hm_channels m \<and>
    (out = None \<longrightarrow> m' = m) \<and> (\<forall>info. out = Some info \<longrightarrow> info = channelInfo (obj m r) \<and> (\<forall>q. p = Some q \<longrightarrow> q info))"
  using run core_keep(1) [OF ok r, of "(obj m r)\<lparr>ch_conn := the c\<rparr>"] ok
  by (auto simp: use_check_def Let_def split: if_splits option.splits)

section \<open>Relaying\<close>

lemma put_state_dom [simp]: "fmdom (put_state ch dir st ct) = finsert ch (fmdom ct)"
  by (simp add: put_state_def)

lemma cleanup_dom: "fmdom (cleanupEmpty ch dir ct) |\<subseteq>| fmdom ct"
  by (auto simp: cleanupEmpty_def Let_def split: option.splits if_splits intro: fmdomI)

lemma Track_dom:
  assumes "Track limit ch dir corr len cont ct = (e, ct')"
  shows "fset (fmdom ct') \<subseteq> insert ch (fset (fmdom ct))"
proof -
  have c: "fset (fmdom (cleanupEmpty ch dir (put_state ch dir st x))) \<subseteq> insert ch (fset (fmdom x))" for st x
    using cleanup_dom [of ch dir "put_state ch dir st x"] by (auto simp: less_eq_fset.rep_eq)
  have acc: "fset (fmdom (snd (snd (accumulate limit ch dir st seen corr len ct)))) \<subseteq> insert ch (fset (fmdom ct))" for st seen
    using c by (simp add: accumulate_def Let_def)
  show ?thesis
    using assms acc c unfolding Track_def Let_def
    by (auto split: if_splits option.splits prod.splits) (metis (no_types, lifting) acc insertE snd_conv subsetD)+
qed

lemma track_message_ok:
  assumes "mgr_ok m" "fmlookup (hm_channels m) i \<noteq> None" "Track DefaultMaxMessageSize i dir corr len cont (hm_tracker m) = (e, ct)"
  shows "mgr_ok (m\<lparr>hm_tracker := ct\<rparr>)"
  using assms track_refines [OF _ assms(3)] Track_dom [OF assms(3)] by (auto simp: mgr_ok_def tracker_ok_def intro: fmdomI)

lemma mgr_out [simp]: "mgr_ok (m\<lparr>hm_out := x\<rparr>) = mgr_ok m"
  by (simp add: mgr_ok_def tracker_ok_def)

lemma RelayWorker_ok:
  assumes ok: "mgr_ok m" and run: "RelayWorkerMessage fails msg w m = (out, m')"
  shows "mgr_ok m' \<and> hm_channels m' = hm_channels m"
proof -
  obtain cont valid where f: "ChunkContinuation (cm_flags msg) = (cont, valid)" by fastforce
  obtain e ct where t: "Track DefaultMaxMessageSize (cm_channel msg) ''w2fe'' (cm_corr msg) (length (cm_ciphertext msg)) cont (hm_tracker m) = (e, ct)"
    by fastforce
  have "fmlookup (hm_channels m) (cm_channel msg) \<noteq> None \<Longrightarrow> mgr_ok (m\<lparr>hm_tracker := ct\<rparr>)" using track_message_ok [OF ok _ t] .
  then show ?thesis using run ok f t
    by (auto simp: RelayWorkerMessage_def acquireChannelOp_def Let_def deliver_def split: option.splits if_splits)
qed

lemma RelayFrontend_ok:
  assumes ok: "mgr_ok m" and i: "fmlookup (hm_channels m) (in_ChannelID info) \<noteq> None" and run: "relayFrontendMessageToWorker conn info msg m = (out, m')"
  shows "mgr_ok m' \<and> hm_channels m' = hm_channels m"
proof -
  obtain cont valid where f: "ChunkContinuation (cm_flags msg) = (cont, valid)" by fastforce
  obtain e ct where t: "Track DefaultMaxMessageSize (in_ChannelID info) ''fe2w'' (cm_corr msg) (length (cm_ciphertext msg)) cont (hm_tracker m) = (e, ct)"
    by fastforce
  show ?thesis using run ok f t track_message_ok [OF ok i t]
    by (auto simp: relayFrontendMessageToWorker_def Let_def split: option.splits if_splits)
qed

section \<open>Expiry\<close>

definition due :: "int \<Rightarrow> channel \<Rightarrow> bool" where
  "due now ch = (case deadline_At (ch_expiresAt ch) of None \<Rightarrow> False | Some t \<Rightarrow> t \<le> now)"

section \<open>The timer\<close>

text \<open>The timer fires no later than the deadline of any channel, or than the present when it has passed.\<close>

definition timer_ok :: "int \<Rightarrow> channel_manager \<Rightarrow> bool" where
  "timer_ok now m \<longleftrightarrow> (\<forall>i ch d. reg m i = Some ch \<and> ch_expiresAt ch = At d \<longrightarrow> (\<exists>x. hm_timer m = Some x \<and> x \<le> max d now))"

lemma timer_reset_but:
  assumes core: "core_but D m" and r: "fmlookup (hm_channels m) i = Some r" "r \<notin> D" "ch_expiresAt (obj m r) = At d"
  shows "\<exists>x. hm_timer (resetExpiryTimerLocked now m) = Some x \<and> x \<le> max d now"
proof -
  have heap: "heap_ok (expiry_key m) (hm_expiries m)" and mem: "set (items (hm_expiries m)) = timed m - D"
    using core by (simp_all add: core_but_def expiry_but_def)
  have rt: "r \<in> set (items (hm_expiries m))" using r unfolding mem by (auto simp: timed_def deadline_At_def)
  then obtain r0 where first: "queue_top (hm_expiries m) = Some r0" by (cases "items (hm_expiries m)") (auto simp: queue_top_def)
  have r0: "r0 \<in> timed m" "expiry_key m r0 \<le> expiry_key m r" using go_heap.first_least [OF heap first] rt mem by blast+
  have "expiry_fires now (ch_expiresAt (obj m r0)) = max (expiry_key m r0) now"
    using r0(1) by (auto simp: timed_def expiry_fires_def expiry_key_def deadline_At_def split: deadline.splits)
  moreover have "expiry_key m r = d" using r(3) by (simp add: expiry_key_def)
  ultimately show ?thesis using first r0(2) by (simp add: resetExpiryTimerLocked_def)
qed

lemma timer_reset:
  assumes "core_ok m"
  shows "timer_ok now (resetExpiryTimerLocked now m)"
  unfolding timer_ok_def reset_frames reg_Some using timer_reset_but [OF assms] by blast

lemma remove_timer: "hm_timer (snd (removeChannelIf i pred m)) = hm_timer m"
  by (simp add: removeChannelIf_def remove_locked_def Let_def unindexChannel_eq set_obj_def split: option.splits)

lemma expire_one_timer: "hm_timer (expire_one fails now i m) = hm_timer m"
proof -
  have d: "hm_timer (snd (drainRemoved fails [x] n)) = hm_timer n" for x n using drain_frames(7) [of fails "[x]" n] by (simp add: drainRemoved_def)
  show ?thesis using remove_timer [of i "\<lambda>_ ch. case deadline_At (ch_expiresAt ch) of None \<Rightarrow> False | Some t \<Rightarrow> \<not> now < t" m]
    by (auto simp: expire_one_def Let_def d split: prod.splits option.splits)
qed


lemma expire_one_spec:
  assumes ok: "core_but D m"
  shows "core_but D (expire_one fails now i m)"
    "reg (expire_one fails now i m) = (\<lambda>j. if j = i \<and> (\<exists>ch. reg m i = Some ch \<and> due now ch) then None else reg m j)"
    "tracker_ok m \<Longrightarrow> tracker_ok (expire_one fails now i m)"
    "fmlookup (hm_channels (expire_one fails now i m)) j = Some r \<Longrightarrow> fmlookup (hm_channels m) j = Some r"
proof -
  let ?pred = "\<lambda>(_ :: channel_manager) ch. case deadline_At (ch_expiresAt ch) of None \<Rightarrow> False | Some t \<Rightarrow> \<not> now < t"
  obtain out m1 where run: "removeChannelIf i ?pred m = (out, m1)" by fastforce
  note spec = removeChannelIf_spec [OF ok run]
  have pred: "?pred n ch = due now ch" for n ch by (auto simp: due_def split: option.splits)
  have "core_but D (expire_one fails now i m) \<and>
    reg (expire_one fails now i m) = (\<lambda>j. if j = i \<and> (\<exists>ch. reg m i = Some ch \<and> due now ch) then None else reg m j) \<and>
    (tracker_ok m \<longrightarrow> tracker_ok (expire_one fails now i m)) \<and>
    (\<forall>j r. fmlookup (hm_channels (expire_one fails now i m)) j = Some r \<longrightarrow> fmlookup (hm_channels m) j = Some r)"
  proof (cases "\<exists>ch. reg m i = Some ch \<and> due now ch")
    case False
    then have "out = None" "m1 = m" using spec by (auto simp: pred split: option.splits if_splits)
    then have "expire_one fails now i m = m" using run by (simp add: expire_one_def)
    then show ?thesis using ok False by (auto simp: fun_eq_iff)
  next
    case True
    then obtain ch item where m1: "reg m1 = (reg m)(i := None)" "core_but D m1" "hm_tracker m1 = hm_tracker m" "hm_channels m1 = fmdrop i (hm_channels m)"
      and item: "out = Some item" "cc_channel (rm_closed item) = i" using spec by (auto simp: pred)
    let ?m2 = "fold (drain_one fails) [item] m1"
    have "expire_one fails now i m = (case rm_onExpire item of None \<Rightarrow> ?m2 | Some f \<Rightarrow> ?m2\<lparr>hm_out := hm_out ?m2 @ [OnExpire f (rm_closed item)]\<rparr>)"
      using run item by (simp add: expire_one_def drainRemoved_def Let_def split: option.splits)
    moreover have "core_but D ?m2" "reg ?m2 = (reg m)(i := None)" "hm_channels ?m2 = fmdrop i (hm_channels m)"
      "hm_tracker ?m2 = RemoveChannel i (hm_tracker m)" using m1 item by (simp_all only: drain_frames) (simp_all add: item)
    moreover have "tracker_ok ?m2" if "tracker_ok m"
      using that calculation(4,5) RemoveChannel_ok by (auto simp: tracker_ok_def RemoveChannel_def)
    ultimately show ?thesis using True by (auto simp: tracker_ok_def fun_eq_iff split: option.splits if_splits)
  qed
  then show "core_but D (expire_one fails now i m)"
    "reg (expire_one fails now i m) = (\<lambda>j. if j = i \<and> (\<exists>ch. reg m i = Some ch \<and> due now ch) then None else reg m j)"
    "tracker_ok m \<Longrightarrow> tracker_ok (expire_one fails now i m)"
    "fmlookup (hm_channels (expire_one fails now i m)) j = Some r \<Longrightarrow> fmlookup (hm_channels m) j = Some r" by blast+
qed

lemma expire_fold:
  "core_but D m \<Longrightarrow> core_but D (fold (expire_one fails now) ids m) \<and>
    reg (fold (expire_one fails now) ids m) = (\<lambda>j. if j \<in> set ids \<and> (\<exists>ch. reg m j = Some ch \<and> due now ch) then None else reg m j) \<and>
    (tracker_ok m \<longrightarrow> tracker_ok (fold (expire_one fails now) ids m)) \<and>
    (\<forall>j r. fmlookup (hm_channels (fold (expire_one fails now) ids m)) j = Some r \<longrightarrow> fmlookup (hm_channels m) j = Some r)"
proof (induction ids arbitrary: m)
  case (Cons i ids)
  note one = expire_one_spec [OF Cons.prems, of fails now i]
  show ?case using Cons.IH [OF one(1)] one(2-4) by (auto simp: fun_eq_iff)
qed simp

lemma expireDueChannels_spec:
  assumes ok: "core_ok m"
  shows "core_ok (expireDueChannels fails now m)"
    "reg (expireDueChannels fails now m) = (\<lambda>j. if \<exists>ch. reg m j = Some ch \<and> due now ch then None else reg m j)"
    "tracker_ok m \<Longrightarrow> tracker_ok (expireDueChannels fails now m)"
    "timer_ok now (expireDueChannels fails now m)"
proof -
  have refs: "refs_ok m" and ex: "expiry_but {} m" using ok by (simp_all add: core_but_def)
  let ?dl = "\<lambda>r. deadline_At (ch_expiresAt (obj m r))"
  obtain dues h where run: "drain_due (expiry_key m) ?dl queue_top hpop now (heap_Len (hm_expiries m)) (hm_expiries m) = (dues, h)" by fastforce
  have heap: "heap_ok (expiry_key m) (hm_expiries m)" and mem: "set (items (hm_expiries m)) = timed m" using ex by (simp_all add: expiry_but_def)
  have key: "?dl r = Some (expiry_key m r)" if "r \<in> set (items (hm_expiries m))" for r
    using that unfolding mem by (auto simp: timed_def expiry_key_def deadline_At_def split: deadline.splits)
  have len: "card (set (items (hm_expiries m))) \<le> heap_Len (hm_expiries m)" by (simp add: heap_Len_def card_length)
  have drained: "set dues = {r \<in> timed m. expiry_key m r \<le> now} \<and> heap_ok (expiry_key m) h \<and> set (items h) = {r \<in> timed m. now < expiry_key m r}"
    using go_heap.drain_exact [OF heap key len run] unfolding mem by blast
  let ?m1 = "resetExpiryTimerLocked now (m\<lparr>hm_expiries := h\<rparr>)" and ?ids = "map (\<lambda>r. ch_id (obj m r)) dues"
  have m': "expireDueChannels fails now m = fold (expire_one fails now) ?ids ?m1" using run by (simp add: expireDueChannels_def Let_def)
  have "core_but (set dues) (m\<lparr>hm_expiries := h\<rparr>)"
    using ok drained by (auto simp: core_but_def expiry_but_def refs_ok_def indexes_ok_def timed_def)
  then have m1: "core_but (set dues) ?m1" "reg ?m1 = reg m" by simp_all
  note f = expire_fold [OF m1(1), of fails now ?ids, folded m']
  have all: "j \<in> set ?ids" if "reg m j = Some ch" "due now ch" for j ch
  proof -
    obtain r where r: "fmlookup (hm_channels m) j = Some r" "obj m r = ch" using \<open>reg m j = Some ch\<close> unfolding reg_Some by blast
    then have "r \<in> set dues" using that(2) drained by (auto simp: due_def timed_def expiry_key_def deadline_At_def split: deadline.splits)
    then show ?thesis using refs_okD(3) [OF refs r(1)] by force
  qed
  show g: "reg (expireDueChannels fails now m) = (\<lambda>j. if \<exists>ch. reg m j = Some ch \<and> due now ch then None else reg m j)"
    using f m1(2) all by (auto simp: fun_eq_iff)
  show "tracker_ok (expireDueChannels fails now m)" if "tracker_ok m" using f that by (simp add: tracker_ok_def)
  show "timer_ok now (expireDueChannels fails now m)"
    unfolding timer_ok_def
  proof (intro allI impI)
    fix i ch d assume a: "reg (expireDueChannels fails now m) i = Some ch \<and> ch_expiresAt ch = At d"
    then have "reg m i = Some ch" "\<not> due now ch" unfolding g by (auto split: if_splits)
    then obtain r where r: "fmlookup (hm_channels m) i = Some r" "obj m r = ch" "\<not> due now (obj m r)" unfolding reg_Some by blast
    then have "r \<notin> set dues" using drained by (auto simp: due_def timed_def expiry_key_def deadline_At_def split: deadline.splits)
    then have "\<exists>x. hm_timer ?m1 = Some x \<and> x \<le> max d now"
      using timer_reset_but [OF \<open>core_but (set dues) (m\<lparr>hm_expiries := h\<rparr>)\<close>, of i r d] r a by simp
    moreover have "hm_timer (fold (expire_one fails now) ids n) = hm_timer n" for ids n by (induction ids arbitrary: n) (simp_all add: expire_one_timer)
    ultimately show "\<exists>x. hm_timer (expireDueChannels fails now m) = Some x \<and> x \<le> max d now" unfolding m' by simp
  qed
  have "r \<notin> timed (expireDueChannels fails now m)" if "r \<in> set dues" for r
  proof
    assume "r \<in> timed (expireDueChannels fails now m)"
    then obtain j where j': "fmlookup (hm_channels (expireDueChannels fails now m)) j = Some r" by (auto simp: timed_def)
    then have j: "fmlookup (hm_channels m) j = Some r" using f by simp
    have "due now (obj m r)" using that drained by (auto simp: due_def timed_def expiry_key_def deadline_At_def split: deadline.splits)
    then have "reg (expireDueChannels fails now m) j = None" using g j by (simp add: reg_def [of m])
    then show False using j' by (simp add: reg_def)
  qed
  then have "timed (expireDueChannels fails now m) - set dues = timed (expireDueChannels fails now m) - {}" by blast
  moreover have "core_but (set dues) (expireDueChannels fails now m)" using f by blast
  ultimately show "core_ok (expireDueChannels fails now m)" unfolding core_but_def expiry_but_def by (simp; blast)
qed


section \<open>Histories\<close>

text \<open>What the hub does with its channels, in any order, as time passes. Ids of channels are generated and fresh.\<close>

inductive mgr_reachable :: "int \<Rightarrow> channel_manager \<Rightarrow> bool" where
  start: "mgr_reachable now new_manager"
| wait: "mgr_reachable t m \<Longrightarrow> t \<le> now \<Longrightarrow> mgr_reachable now m"
| register: "mgr_reachable now m \<Longrightarrow> fmlookup (hm_channels m) i = None \<Longrightarrow> mgr_reachable now (RegisterWithAuthInfo i w u ai cancel m)"
| bind: "mgr_reachable now m \<Longrightarrow> mgr_reachable now (BindUser u c s cancel m)"
| unbind: "mgr_reachable now m \<Longrightarrow> mgr_reachable now (snd (UnbindUser u c m))"
| leave: "mgr_reachable now m \<Longrightarrow> mgr_reachable now (snd (UnbindUserAndCleanup it fails now u c m))"
| schedule: "mgr_reachable now m \<Longrightarrow> mgr_reachable now (snd (ScheduleExpiry now i d f m))"
| slide: "mgr_reachable now m \<Longrightarrow> mgr_reachable now (RescheduleExpiryBySession it now s d m)"
| rotate: "mgr_reachable now m \<Longrightarrow> mgr_reachable now (RescheduleExpiryByBearer it now b d m)"
| restamp: "mgr_reachable now m \<Longrightarrow> mgr_reachable now (RestampSessionGeneration it s g m)"
| expire: "mgr_reachable now m \<Longrightarrow> mgr_reachable now (expireDueChannels fails now m)"
| close_worker: "mgr_reachable now m \<Longrightarrow> mgr_reachable now (snd (UnregisterByWorker it fails now w m))"
| close_id: "mgr_reachable now m \<Longrightarrow> mgr_reachable now (snd (CloseByID fails now i m))"
| close_if: "mgr_reachable now m \<Longrightarrow> mgr_reachable now (snd (CloseByIDIf fails now i p m))"
| close_bearer: "mgr_reachable now m \<Longrightarrow> mgr_reachable now (snd (CloseByBearer it fails now b m))"
| close_session: "mgr_reachable now m \<Longrightarrow> mgr_reachable now (snd (CloseBySession it fails now s m))"
| close_users: "mgr_reachable now m \<Longrightarrow> mgr_reachable now (snd (CloseByUsers it fails now us p m))"
| revoke_user: "mgr_reachable now m \<Longrightarrow> mgr_reachable now (snd (CloseByUserRevocation it fails now u g m))"
| from_worker: "mgr_reachable now m \<Longrightarrow> mgr_reachable now (snd (RelayWorkerMessage fails msg w m))"
| from_frontend: "mgr_reachable now m \<Longrightarrow> mgr_reachable now (snd (relay_message fails conn now user c msg m))"
| to_frontend: "mgr_reachable now m \<Longrightarrow> mgr_reachable now (snd (SendToFrontendIf fails msg p m))"
| to_user: "mgr_reachable now m \<Longrightarrow> mgr_reachable now (SendToUser it fails u msg m)"

lemma new_manager_ok: "mgr_ok new_manager"
proof -
  have "reg new_manager = (\<lambda>_. None)" by (rule ext) (simp add: reg_def new_manager_def)
  then show ?thesis using empty_heap_ok
    by (simp add: mgr_ok_def core_but_def tracker_ok_def refs_ok_def indexes_ok_def index_exact_def idx_get_def expiry_but_def timed_def track_ok_def)
       (simp add: new_manager_def empty_heap_ok)
qed

lemma close_mgr_ok:
  assumes "mgr_ok m" "steady pred"
  shows "mgr_ok (snd (closeChannelIDs fails now ids pred m))"
proof -
  obtain gone m' where run: "closeChannelIDs fails now ids pred m = (gone, m')" by fastforce
  have "core_ok m" "tracker_ok m" using assms(1) by (simp_all add: mgr_ok_def)
  then show ?thesis using closeChannelIDs_spec(1,6) [OF _ assms(2) run] run by (auto simp: mgr_ok_def)
qed

lemma steady_info [simp]: "steady (\<lambda>_ ch. P ch)"
  by (simp add: steady_def)

lemma steady_unbound [simp]: "steady (unbound_by u c)"
  by (simp add: steady_def unbound_by_def)

lemma mgr_cong: "core_ok m' \<Longrightarrow> hm_tracker m' = hm_tracker m \<Longrightarrow> hm_channels m' = hm_channels m \<Longrightarrow> mgr_ok m \<Longrightarrow> mgr_ok m'"
  by (simp add: mgr_ok_def tracker_ok_def)

lemma mgr_frames [simp]: "mgr_ok (m\<lparr>hm_senders := a\<rparr>) = mgr_ok m" "mgr_ok (call_cancel c m) = mgr_ok m" "mgr_ok (snd (deliver fails s msg m)) = mgr_ok m"
  by (simp_all add: mgr_ok_def tracker_ok_def call_cancel_def deliver_def split: option.splits)

lemma unbind_ok: "unbindLocked u c m = (x, m') \<Longrightarrow> mgr_ok m' = mgr_ok m"
  by (auto simp: unbindLocked_def Let_def split: option.splits if_splits)

lemma relay_message_ok:
  assumes ok: "mgr_ok m"
  shows "mgr_ok (snd (relay_message fails conn now user c msg m))"
proof -
  let ?may = "\<lambda>info. userCanUseChannel (Some user) (in_AuthInfo info) (in_UserID info)"
  let ?op = "\<lambda>info. relayFrontendMessageToWorker conn info msg"
  obtain out m1 where use: "UseAuthorizedChannel (cm_channel msg) c ?may ?op m = (out, m1)" by fastforce
  have m1: "mgr_ok m1"
  proof (cases "fmlookup (hm_channels m) (cm_channel msg)")
    case None
    then show ?thesis using use ok by (simp add: UseAuthorizedChannel_def useChannel_def acquireChannelOp_def)
  next
    case (Some r)
    obtain info m2 where chk: "use_check (cm_channel msg) r (Some c) (Some ?may) m = (info, m2)" by fastforce
    note spec = use_check_spec [OF _ Some chk]
    have m2: "mgr_ok m2" "hm_channels m2 = hm_channels m" using spec ok by (simp_all add: mgr_ok_def tracker_ok_def)
    show ?thesis
    proof (cases info)
      case None
      then show ?thesis using use Some chk m2 by (simp add: UseAuthorizedChannel_def useChannel_def acquireChannelOp_def)
    next
      case (Some i)
      have "refs_ok m" using ok by (simp add: mgr_ok_def core_but_def)
      then have "in_ChannelID i = cm_channel msg"
        using spec ok Some \<open>fmlookup (hm_channels m) (cm_channel msg) = Some r\<close> refs_okD(3) by (auto simp: mgr_ok_def channelInfo_def)
      then have "fmlookup (hm_channels m2) (in_ChannelID i) \<noteq> None" using m2(2) \<open>fmlookup (hm_channels m) (cm_channel msg) = Some r\<close> by simp
      moreover obtain e m3 where rel: "relayFrontendMessageToWorker conn i msg m2 = (e, m3)" by fastforce
      ultimately have "mgr_ok m3" using RelayFrontend_ok [OF m2(1) _ rel] by blast
      moreover have "m1 = m3" using use \<open>fmlookup (hm_channels m) (cm_channel msg) = Some r\<close> chk Some rel
        by (simp add: UseAuthorizedChannel_def useChannel_def acquireChannelOp_def)
      ultimately show ?thesis by simp
    qed
  qed
  then show ?thesis using use ok by (auto simp: relay_message_def Let_def CloseByIDIf_def close_mgr_ok split: option.splits)
qed

lemma mgr_reachable_ok: "mgr_reachable now m \<Longrightarrow> mgr_ok m"
proof (induction rule: mgr_reachable.induct)
  case (start now)
  show ?case by (rule new_manager_ok)
next
  case (register now m i w u ai cancel)
  then have fresh: "reg m i = None" by (simp add: reg_def)
  have "hm_tracker (RegisterWithAuthInfo i w u ai cancel m) = hm_tracker m" "hm_channels (RegisterWithAuthInfo i w u ai cancel m) = fmupd i (hm_next m) (hm_channels m)"
    by (simp_all add: RegisterWithAuthInfo_def Let_def indexChannel_eq)
  then show ?case using Register_spec(1) [OF _ fresh] register.IH by (auto simp: mgr_ok_def tracker_ok_def)
next
  case (unbind now m u c)
  then show ?case by (auto simp: UnbindUser_def dest: unbind_ok split: prod.splits)
next
  case (leave now m it fails u c)
  then show ?case by (auto simp: UnbindUserAndCleanup_def Let_def close_mgr_ok dest!: unbind_ok split: prod.splits)
       (metis close_mgr_ok snd_conv steady_unbound)
next
  case (schedule now m i d f)
  obtain b m' where run: "ScheduleExpiry now i d f m = (b, m')" by fastforce
  then show ?case using ScheduleExpiry_spec(1-3) [OF _ run] schedule.IH by (auto simp: mgr_ok_def tracker_ok_def)
next
  case (slide now m it s d)
  then show ?case using reschedule_ok by (auto simp: RescheduleExpiryBySession_def mgr_ok_def tracker_ok_def)
next
  case (rotate now m it b d)
  then show ?case using reschedule_ok by (auto simp: RescheduleExpiryByBearer_def mgr_ok_def tracker_ok_def)
next
  case (restamp now m it s g)
  then show ?case using restamp_ok by (auto simp: RestampSessionGeneration_def mgr_ok_def tracker_ok_def)
next
  case (expire now m fails)
  then show ?case using expireDueChannels_spec by (simp add: mgr_ok_def)
next
  case (from_worker now m fails msg w)
  then show ?case using RelayWorker_ok [OF from_worker.IH] by (metis prod.collapse)
next
  case (from_frontend now m fails conn user c msg)
  then show ?case by (intro relay_message_ok)
next
  case (to_user now m it fails u msg)
  have "mgr_ok x \<Longrightarrow> mgr_ok (fold (\<lambda>(_, uc) m. snd (deliver fails (uc_send uc) msg m)) ys x)" for ys x by (induction ys arbitrary: x) auto
  then show ?case using to_user.IH by (auto simp: SendToUser_def split: option.splits)
qed (auto simp: BindUser_def CloseByID_def CloseByIDIf_def CloseByBearer_def CloseBySession_def CloseByUsers_def CloseByUserRevocation_def
       UnregisterByWorker_def SendToFrontendIf_def Let_def close_mgr_ok prod.case_eq_if split: option.splits)


section \<open>The timer over histories\<close>

lemma timer_cong:
  assumes "timer_ok now m" "hm_timer m' = hm_timer m" "\<And>i ch. reg m' i = Some ch \<Longrightarrow> ch_expiresAt ch \<noteq> Unset \<Longrightarrow> \<exists>ch0. reg m i = Some ch0 \<and> ch_expiresAt ch0 = ch_expiresAt ch"
  shows "timer_ok now m'"
  unfolding timer_ok_def
proof (intro allI impI)
  fix i ch d assume a: "reg m' i = Some ch \<and> ch_expiresAt ch = At d"
  then obtain ch0 where "reg m i = Some ch0" "ch_expiresAt ch0 = At d" using assms(3) [of i ch] by auto
  then show "\<exists>x. hm_timer m' = Some x \<and> x \<le> max d now" using assms(1,2) by (auto simp: timer_ok_def)
qed

lemma timer_frames [simp]: "timer_ok now (m\<lparr>hm_senders := a\<rparr>) = timer_ok now m" "timer_ok now (m\<lparr>hm_out := b\<rparr>) = timer_ok now m"
  "timer_ok now (m\<lparr>hm_tracker := c\<rparr>) = timer_ok now m" "timer_ok now (call_cancel f m) = timer_ok now m" "timer_ok now (snd (deliver fails s msg m)) = timer_ok now m"
  by (simp_all add: timer_ok_def call_cancel_def deliver_def split: option.splits)

lemma remove_all_none: "remove_all pred ids m = ([], m') \<Longrightarrow> m' = m"
proof (induction ids arbitrary: m)
  case (Cons i ids)
  obtain out m1 where run: "removeChannelIf i pred m = (out, m1)" by fastforce
  then have "out = None" "remove_all pred ids m1 = ([], m')" using Cons.prems by (auto split: option.splits prod.splits)
  moreover have "m1 = m" using run \<open>out = None\<close> by (auto simp: removeChannelIf_def remove_locked_def Let_def split: option.splits if_splits)
  ultimately show ?case using Cons.IH by simp
qed simp

lemma close_timer:
  assumes "core_ok m" "timer_ok now m" "steady pred"
  shows "timer_ok now (snd (closeChannelIDs fails now ids pred m))"
proof -
  obtain removed m1 where all: "remove_all pred ids m = (removed, m1)" by fastforce
  have "core_ok m1" using remove_all_spec [OF assms(3,1) all] by blast
  then have "timer_ok now (if removed \<noteq> [] then resetExpiryTimerLocked now m1 else m1)"
    using timer_reset remove_all_none [of pred ids m m1] all assms(2) by auto
  then show ?thesis by (simp add: closeChannelIDs_def all drainRemoved_def timer_ok_def drain_frames)
qed

lemma timer_keep:
  assumes ok: "core_ok m" "timer_ok now m" and r: "fmlookup (hm_channels m) i = Some r"
    and same: "ch_id ch = ch_id (obj m r)" "ch_closed ch = ch_closed (obj m r)" "ch_user ch = ch_user (obj m r)" "ch_worker ch = ch_worker (obj m r)"
      "ai_credential (ch_auth ch) = ai_credential (ch_auth (obj m r))" "ch_onExpire ch = ch_onExpire (obj m r)" "ch_expiresAt ch = ch_expiresAt (obj m r)"
  shows "timer_ok now (set_obj r ch m)"
proof (rule timer_cong [OF ok(2)])
  show "hm_timer (set_obj r ch m) = hm_timer m" by (simp add: set_obj_def)
  show "\<exists>ch0. reg m j = Some ch0 \<and> ch_expiresAt ch0 = ch_expiresAt ch'" if "reg (set_obj r ch m) j = Some ch'" for j ch'
    using that same(7) r unfolding core_keep(2) [OF ok(1) r same] by (cases "j = i") (auto simp: reg_def [of m i])
qed

lemma use_check_timer:
  assumes ok: "core_ok m" "timer_ok now m" and r: "fmlookup (hm_channels m) i = Some r" and run: "use_check i r c p m = (out, m')"
  shows "timer_ok now m'"
proof (cases "m' = m")
  case False
  then obtain x where m': "m' = set_obj r ((obj m r)\<lparr>ch_conn := x\<rparr>) m" using run by (auto simp: use_check_def Let_def split: if_splits option.splits)
  show ?thesis unfolding m' by (rule timer_keep [OF ok r]) simp_all
qed (use ok in simp)

lemma relay_message_timer:
  assumes ok: "mgr_ok m" "timer_ok now m"
  shows "timer_ok now (snd (relay_message fails conn now user c msg m))"
proof -
  let ?may = "\<lambda>info. userCanUseChannel (Some user) (in_AuthInfo info) (in_UserID info)"
  obtain out m1 where use: "UseAuthorizedChannel (cm_channel msg) c ?may (\<lambda>info. relayFrontendMessageToWorker conn info msg) m = (out, m1)" by fastforce
  have core: "core_ok m" using ok(1) by (simp add: mgr_ok_def)
  have op: "relayFrontendMessageToWorker conn info msg n = (e, n') \<Longrightarrow> timer_ok now n' = timer_ok now n \<and> core_ok n' = core_ok n" for info n e n'
    by (auto simp: relayFrontendMessageToWorker_def Let_def split: if_splits option.splits prod.splits)
  have "timer_ok now m1 \<and> core_ok m1"
    using use use_check_timer [OF core ok(2)] use_check_spec [OF core] core ok(2)
    by (auto simp: UseAuthorizedChannel_def useChannel_def acquireChannelOp_def dest!: op split: option.splits prod.splits)
  then show ?thesis using use ok(2) by (auto simp: relay_message_def Let_def CloseByIDIf_def close_timer split: option.splits)
qed

lemma timer_mono: "timer_ok t m \<Longrightarrow> t \<le> now \<Longrightarrow> timer_ok now m"
  unfolding timer_ok_def by (meson max.mono order_refl order_trans)

lemma reschedule_timer:
  assumes ok: "core_ok m" "timer_ok now m"
  shows "timer_ok now (rescheduleExpiryLocked it now ids d m)"
proof -
  have run: "core_ok m \<Longrightarrow> timer_ok now m \<Longrightarrow> fold (reschedule_one d) xs (False, m) = (c', m') \<Longrightarrow> \<not> c' \<Longrightarrow> timer_ok now m'" for xs m c' m'
  proof (induction xs arbitrary: m)
    case (Cons i xs)
    obtain c1 m1 where st: "reschedule_one d i (False, m) = (c1, m1)" by fastforce
    have keep: "fst (fold (reschedule_one d) ys (True, x))" for ys x
      by (induction ys arbitrary: x) (auto simp: reschedule_one_def Let_def split: option.splits)
    have c1: "\<not> c1" using Cons.prems(3,4) st keep [of xs m1] by (cases c1) auto
    have "timer_ok now m1"
    proof (rule timer_cong [OF Cons.prems(2)])
      show "hm_timer m1 = hm_timer m" using st c1 by (auto simp: reschedule_one_def Let_def set_obj_def split: option.splits if_splits)
      show "\<exists>ch0. reg m j = Some ch0 \<and> ch_expiresAt ch0 = ch_expiresAt ch" if "reg m1 j = Some ch" for j ch
      proof -
        have "reg m1 = (reg m)(i := map_option (rescheduled d) (reg m i))" using reschedule_one_spec [OF Cons.prems(1) st] by blast
        moreover have "ch_expiresAt (rescheduled d ch0) = ch_expiresAt ch0" if "reg m i = Some ch0" for ch0
          using st c1 that by (auto simp: reschedule_one_def Let_def rescheduled_def reg_Some split: if_splits)
        ultimately show ?thesis using that by (auto split: if_splits)
      qed
    qed
    moreover have "core_ok m1" using reschedule_one_spec [OF Cons.prems(1) st] by blast
    ultimately show ?case using Cons.IH [of m1] Cons.prems(3,4) st c1 by simp
  qed simp
  obtain c' m' where f: "fold (reschedule_one d) (it ids) (False, m) = (c', m')" by fastforce
  then show ?thesis using run [OF ok f] timer_reset reschedule_fold [OF ok(1) f] by (auto simp: rescheduleExpiryLocked_def)
qed

lemma mgr_reachable_timer: "mgr_reachable now m \<Longrightarrow> timer_ok now m"
proof (induction rule: mgr_reachable.induct)
  case (wait t m now)
  then show ?case using timer_mono by blast
next
  case (register now m i w u ai cancel)
  have fresh: "reg m i = None" and core: "core_ok m" using mgr_reachable_ok [OF register.hyps(1)] register.hyps(2) by (simp_all add: reg_def mgr_ok_def)
  show ?case
    by (rule timer_cong [OF register.IH])
       (auto simp: Register_spec(2) [OF core fresh] split: if_splits, simp add: RegisterWithAuthInfo_def Let_def indexChannel_eq set_obj_def)
next
  case (unbind now m u c)
  then show ?case by (auto simp: UnbindUser_def unbindLocked_def Let_def split: option.splits if_splits)
next
  case (leave now m it fails u c)
  have core: "core_ok m" using mgr_reachable_ok [OF leave.hyps(1)] by (simp add: mgr_ok_def)
  show ?case using leave.IH core
    by (auto simp: UnbindUserAndCleanup_def unbindLocked_def Let_def prod.case_eq_if close_timer split: option.splits)
next
  case (schedule now m i d f)
  have core: "core_ok m" using mgr_reachable_ok [OF schedule.hyps(1)] by (simp add: mgr_ok_def)
  obtain b m' where run: "ScheduleExpiry now i d f m = (b, m')" by fastforce
  have "m' = m \<or> (\<exists>m4. m' = resetExpiryTimerLocked now m4)" using run by (auto simp: ScheduleExpiry_def Let_def split: if_splits option.splits)
  then show ?case using ScheduleExpiry_spec(1) [OF core run] timer_reset run schedule.IH by auto
next
  case (slide now m it s d)
  then show ?case using reschedule_timer mgr_reachable_ok by (auto simp: RescheduleExpiryBySession_def mgr_ok_def)
next
  case (rotate now m it b d)
  then show ?case using reschedule_timer mgr_reachable_ok by (auto simp: RescheduleExpiryByBearer_def mgr_ok_def)
next
  case (restamp now m it s g)
  have one: "timer_ok now (restamp_one g j x)" if "core_ok x" "timer_ok now x" for j x
    using that timer_keep [OF that] by (auto simp: restamp_one_def split: option.splits)
  have "core_ok x \<Longrightarrow> timer_ok now x \<Longrightarrow> timer_ok now (fold (restamp_one g) js x)" for js x
    by (induction js arbitrary: x) (auto simp: one restamp_one_ok)
  then show ?case using restamp.IH mgr_reachable_ok [OF restamp.hyps(1)] by (auto simp: RestampSessionGeneration_def mgr_ok_def)
next
  case (expire now m fails)
  then show ?case using expireDueChannels_spec(4) mgr_reachable_ok by (auto simp: mgr_ok_def)
next
  case (from_worker now m fails msg w)
  then show ?case
    by (auto simp: RelayWorkerMessage_def Let_def deliver_def split: option.splits if_splits prod.splits)
next
  case (from_frontend now m fails conn user c msg)
  then show ?case using relay_message_timer mgr_reachable_ok by blast
next
  case (to_user now m it fails u msg)
  have "timer_ok now x \<Longrightarrow> timer_ok now (fold (\<lambda>(_, uc) m. snd (deliver fails (uc_send uc) msg m)) ys x)" for ys x by (induction ys arbitrary: x) auto
  then show ?case using to_user.IH by (auto simp: SendToUser_def split: option.splits)
next
  case (start now)
  show ?case by (simp add: timer_ok_def reg_def new_manager_def)
qed (auto simp: BindUser_def CloseByID_def CloseByIDIf_def CloseByBearer_def CloseBySession_def CloseByUsers_def CloseByUserRevocation_def
       UnregisterByWorker_def SendToFrontendIf_def Let_def close_timer prod.case_eq_if mgr_ok_def split: option.splits dest!: mgr_reachable_ok)

end
