(* ===== verification/ChannelHub.thy ===== *)
theory ChannelHub
  imports ChannelMgrLaws
begin

text \<open>
  What the channel manager of the hub promises: revocation and expiry close exactly the channels they
  should, messages go only where a channel leads, and no operation runs on a channel after it was
  closed, whatever the interleaving of the goroutines that use and close channels.
\<close>

section \<open>Routing\<close>

lemma reg_refs: "mgr_reachable now m \<Longrightarrow> refs_ok m"
  using mgr_reachable_ok by (auto simp: mgr_ok_def core_but_def)

lemma RelayWorker_out:
  assumes refs: "refs_ok m" and run: "RelayWorkerMessage fails msg w m = ((known, c, err), m')"
  shows "hm_out m' = hm_out m \<or> (\<exists>ch s. reg m (cm_channel msg) = Some ch \<and> ch_worker ch = w \<and>
      getConnSender (ch_user ch) (ch_conn ch) m = Some s \<and> hm_out m' = hm_out m @ [Delivered s msg] \<and> err = None)"
    "known \<longleftrightarrow> (\<exists>ch. reg m (cm_channel msg) = Some ch \<and> ch_worker ch = w)"
    "err = None \<and> known \<Longrightarrow> hm_out m' \<noteq> hm_out m"
  using run refs_okD(4) [OF refs]
  by (auto simp: RelayWorkerMessage_def acquireChannelOp_def channelLiveLocked_def Let_def deliver_def reg_def
      split: option.splits if_splits prod.splits)

section \<open>Interleavings\<close>

text \<open>
  Goroutines and the locks they take. A goroutine that wants a channel looks it up, waits for the
  operation lock of the object it found, and holds it until it is done. While it holds the lock it
  takes the lock of the manager for its check (\<open>use_check\<close>) or for the removal (\<open>remove_locked\<close>),
  and it runs the routed operation without that lock. Every other call of the manager is one step.
\<close>

datatype goal = ToUse "ident option" "(channel_info \<Rightarrow> bool) option" | ToRemove "channel_manager \<Rightarrow> channel \<Rightarrow> bool"

datatype phase = Waiting ident chan_ref goal | Holding ident chan_ref goal | Operating ident chan_ref

record world =
  wd_mgr :: channel_manager
  wd_lock :: "chan_ref \<Rightarrow> nat option"
  wd_phase :: "nat \<Rightarrow> phase option"

datatype channel_event = Used chan_ref | Closed chan_ref

text \<open>The calls that take only the lock of the manager.\<close>

inductive mgr_call :: "channel_manager \<Rightarrow> channel_manager \<Rightarrow> bool" where
  "mgr_call m (RegisterWithAuthInfo i w u ai cancel m)"
| "mgr_call m (BindUser u c s cancel m)"
| "mgr_call m (snd (UnbindUser u c m))"
| "mgr_call m (snd (ScheduleExpiry now i d f m))"
| "mgr_call m (RescheduleExpiryBySession it now s d m)"
| "mgr_call m (RescheduleExpiryByBearer it now b d m)"
| "mgr_call m (RestampSessionGeneration it s g m)"
| "mgr_call m (resetExpiryTimerLocked now m)"
| "mgr_call m (drain_one fails item m)"
| "mgr_call m (m\<lparr>hm_expiries := h\<rparr>)"

inductive race :: "world \<Rightarrow> channel_event option \<Rightarrow> world \<Rightarrow> bool" where
  look: "wd_phase w t = None \<Longrightarrow> acquireChannelOp i (wd_mgr w) = Some r \<Longrightarrow>
    race w None (w\<lparr>wd_phase := (wd_phase w)(t := Some (Waiting i r g))\<rparr>)"
| lock: "wd_phase w t = Some (Waiting i r g) \<Longrightarrow> wd_lock w r = None \<Longrightarrow>
    race w None (w\<lparr>wd_phase := (wd_phase w)(t := Some (Holding i r g)), wd_lock := (wd_lock w)(r := Some t)\<rparr>)"
| refuse: "wd_phase w t = Some (Holding i r (ToUse c p)) \<Longrightarrow> use_check i r c p (wd_mgr w) = (None, m') \<Longrightarrow>
    race w None (w\<lparr>wd_mgr := m', wd_phase := (wd_phase w)(t := None), wd_lock := (wd_lock w)(r := None)\<rparr>)"
| admit: "wd_phase w t = Some (Holding i r (ToUse c p)) \<Longrightarrow> use_check i r c p (wd_mgr w) = (Some info, m') \<Longrightarrow>
    race w None (w\<lparr>wd_mgr := m', wd_phase := (wd_phase w)(t := Some (Operating i r))\<rparr>)"
| operate: "wd_phase w t = Some (Operating i r) \<Longrightarrow>
    race w (Some (Used r)) (w\<lparr>wd_mgr := (wd_mgr w)\<lparr>hm_tracker := ct, hm_out := sent\<rparr>\<rparr>)"
| release: "wd_phase w t = Some (Operating i r) \<Longrightarrow>
    race w None (w\<lparr>wd_phase := (wd_phase w)(t := None), wd_lock := (wd_lock w)(r := None)\<rparr>)"
| spare: "wd_phase w t = Some (Holding i r (ToRemove q)) \<Longrightarrow> remove_locked i r q (wd_mgr w) = (None, m') \<Longrightarrow>
    race w None (w\<lparr>wd_mgr := m', wd_phase := (wd_phase w)(t := None), wd_lock := (wd_lock w)(r := None)\<rparr>)"
| remove: "wd_phase w t = Some (Holding i r (ToRemove q)) \<Longrightarrow> remove_locked i r q (wd_mgr w) = (Some item, m') \<Longrightarrow>
    race w (Some (Closed r)) (w\<lparr>wd_mgr := m', wd_phase := (wd_phase w)(t := None), wd_lock := (wd_lock w)(r := None)\<rparr>)"
| call: "mgr_call (wd_mgr w) m' \<Longrightarrow> race w None (w\<lparr>wd_mgr := m'\<rparr>)"

inductive runs :: "world \<Rightarrow> channel_event list \<Rightarrow> world \<Rightarrow> bool" where
  none: "runs w [] w"
| step: "runs w es w1 \<Longrightarrow> race w1 e w2 \<Longrightarrow> runs w (es @ (case e of None \<Rightarrow> [] | Some x \<Rightarrow> [x])) w2"

lemma runs_quiet: "runs v es w1 \<Longrightarrow> race w1 None w2 \<Longrightarrow> runs v es w2"
  using runs.step by fastforce

lemma runs_event: "runs v es w1 \<Longrightarrow> race w1 (Some x) w2 \<Longrightarrow> runs v (es @ [x]) w2"
  using runs.step by fastforce

definition idle_world :: "channel_manager \<Rightarrow> world" where
  "idle_world m = \<lparr>wd_mgr = m, wd_lock = (\<lambda>_. None), wd_phase = (\<lambda>_. None)\<rparr>"

subsection \<open>Locks and closed objects\<close>

definition holds :: "phase option \<Rightarrow> chan_ref option" where
  "holds p = (case p of Some (Holding _ r _) \<Rightarrow> Some r | Some (Operating _ r) \<Rightarrow> Some r | _ \<Rightarrow> None)"

lemma holds_simps [simp]: "holds None = None" "holds (Some (Waiting i r g)) = None" "holds (Some (Holding i r g)) = Some r"
    "holds (Some (Operating i r)) = Some r"
  by (simp_all add: holds_def)

definition objs_sane :: "channel_manager \<Rightarrow> bool" where
  "objs_sane m \<longleftrightarrow> (\<forall>r. r |\<in>| fmdom (hm_objs m) \<longrightarrow> r < hm_next m) \<and>
     (\<forall>i r. fmlookup (hm_channels m) i = Some r \<longrightarrow> r |\<in>| fmdom (hm_objs m))"

definition race_ok :: "world \<Rightarrow> bool" where
  "race_ok w \<longleftrightarrow> (\<forall>t r. wd_lock w r = Some t \<longleftrightarrow> holds (wd_phase w t) = Some r) \<and>
     (\<forall>t i r. wd_phase w t = Some (Operating i r) \<longrightarrow> \<not> ch_closed (obj (wd_mgr w) r)) \<and> objs_sane (wd_mgr w)"

text \<open>What is closed stays closed, and only a removal closes what exists.\<close>

definition closed_kept :: "channel_manager \<Rightarrow> channel_manager \<Rightarrow> bool" where
  "closed_kept m m' \<longleftrightarrow> (\<forall>r. r |\<in>| fmdom (hm_objs m) \<longrightarrow> r |\<in>| fmdom (hm_objs m') \<and> ch_closed (obj m' r) = ch_closed (obj m r))"

lemma closed_kept_refl [simp]: "closed_kept m m"
  by (simp add: closed_kept_def)

lemma closed_kept_trans: "closed_kept a b \<Longrightarrow> closed_kept b c \<Longrightarrow> closed_kept a c"
  by (simp add: closed_kept_def)


lemma live_in_dom: "\<not> ch_closed (obj m r) \<Longrightarrow> r |\<in>| fmdom (hm_objs m)"
  by (cases "fmlookup (hm_objs m) r") (auto simp: zero_channel_def intro: fmdomI)

definition harmless :: "channel_manager \<Rightarrow> channel_manager \<Rightarrow> bool" where
  "harmless m m' \<longleftrightarrow> (objs_sane m \<longrightarrow> closed_kept m m' \<and> objs_sane m')"

lemma harmless_refl [simp]: "harmless m m"
  by (simp add: harmless_def)

lemma harmless_trans: "harmless a b \<Longrightarrow> harmless b c \<Longrightarrow> harmless a c"
  unfolding harmless_def using closed_kept_trans by blast

lemma harmless_cong: "hm_objs m' = hm_objs m \<Longrightarrow> hm_next m' = hm_next m \<Longrightarrow> hm_channels m' = hm_channels m \<Longrightarrow> harmless m m'"
  by (simp add: harmless_def closed_kept_def objs_sane_def)

lemma harmless_set_obj:
  assumes "r |\<in>| fmdom (hm_objs m)" "ch_closed ch = ch_closed (obj m r)" "hm_objs m' = fmupd r ch (hm_objs m)" "hm_next m' = hm_next m"
    "hm_channels m' = hm_channels m"
  shows "harmless m m'"
  using assms by (auto simp: harmless_def closed_kept_def objs_sane_def)

lemma harmless_channel:
  assumes "fmlookup (hm_channels m) i = Some r" "ch_closed ch = ch_closed (obj m r)" "hm_objs m' = fmupd r ch (hm_objs m)" "hm_next m' = hm_next m"
    "hm_channels m' = hm_channels m"
  shows "harmless m m'"
  using harmless_set_obj [OF _ assms(2-5)] assms(1) by (auto simp: harmless_def objs_sane_def)

lemma harmless_fold: "(\<And>x m. harmless m (f x m)) \<Longrightarrow> harmless m (fold f xs m)"
  by (induction xs arbitrary: m) (auto intro: harmless_trans)

lemma harmless_reset [simp]: "harmless m (resetExpiryTimerLocked now m)"
  by (rule harmless_cong) (simp_all add: resetExpiryTimerLocked_def split: option.splits)

lemma harmless_reschedule: "harmless m (rescheduleExpiryLocked it now ids d m)"
proof -
  have one: "harmless m (snd (reschedule_one d i (c, m)))" for i c m
  proof (cases "fmlookup (hm_channels m) i")
    case (Some r)
    let ?e = "AdoptReschedule (ch_expiresAt (obj m r)) d"
    show ?thesis
      by (rule harmless_channel [OF Some, where ch = "if ch_onExpire (obj m r) = None then (obj m r)\<lparr>ch_pending := AdoptReschedule (ch_pending (obj m r)) d\<rparr>
            else (obj m r)\<lparr>ch_auth := (ch_auth (obj m r))\<lparr>ai_expires := ?e\<rparr>, ch_expiresAt := ?e\<rparr>"])
         (use Some in \<open>auto simp: reschedule_one_def Let_def set_obj_def\<close>)
  qed (simp add: reschedule_one_def)
  have "harmless m (snd (fold (reschedule_one d) xs (c, m)))" for xs c
  proof (induction xs arbitrary: c m)
    case (Cons x xs)
    obtain c1 m1 where st: "reschedule_one d x (c, m) = (c1, m1)" by fastforce
    then show ?case using harmless_trans [OF one [where i = x and c = c and m = m]] Cons.IH [where c = c1 and m = m1] by simp
  qed simp
  then have all: "harmless m (snd (fold (reschedule_one d) (it ids) (False, m)))" .
  show ?thesis unfolding rescheduleExpiryLocked_def prod.case_eq_if using all harmless_trans [OF all harmless_reset, of now] by simp
qed

lemma harmless_schedule: "harmless m (snd (ScheduleExpiry now i d f m))"
proof (cases "fmlookup (hm_channels m) i")
  case (Some r)
  let ?ch = "obj m r" and ?m' = "snd (ScheduleExpiry now i d f m)"
  let ?eff = "if \<not> IsUnset (ch_pending ?ch) then ch_pending ?ch else d"
  let ?new = "?ch\<lparr>ch_pending := (if \<not> IsUnset (ch_pending ?ch) then Unset else ch_pending ?ch),
      ch_auth := (ch_auth ?ch)\<lparr>ai_expires := ?eff\<rparr>, ch_onExpire := f, ch_expiresAt := ?eff\<rparr>"
  have "?m' = m \<or> (hm_objs ?m' = fmupd r ?new (hm_objs m) \<and> hm_next ?m' = hm_next m \<and> hm_channels ?m' = hm_channels m)"
    using Some by (auto simp: ScheduleExpiry_def Let_def resetExpiryTimerLocked_def set_obj_def split: option.splits)
  then show ?thesis
  proof (elim disjE conjE)
    assume "hm_objs ?m' = fmupd r ?new (hm_objs m)" "hm_next ?m' = hm_next m" "hm_channels ?m' = hm_channels m"
    then show ?thesis by (intro harmless_channel [OF Some]) simp_all
  qed (simp only: harmless_refl)
qed (simp add: ScheduleExpiry_def)

lemma harmless_register: "harmless m (RegisterWithAuthInfo i w u ai cancel m)"
  by (auto simp: harmless_def closed_kept_def objs_sane_def RegisterWithAuthInfo_def Let_def indexChannel_eq set_obj_def less_Suc_eq split: if_splits)

lemma harmless_call: "mgr_call m m' \<Longrightarrow> harmless m m'"
proof (induction rule: mgr_call.induct)
  case (7 m it s g)
  have "harmless m (restamp_one g i m)" for i m
  proof (cases "fmlookup (hm_channels m) i")
    case (Some r)
    have "harmless m (set_obj r ((obj m r)\<lparr>ch_auth := (ch_auth (obj m r))\<lparr>ai_generation := g\<rparr>\<rparr>) m)"
      by (rule harmless_channel [OF Some _ refl [THEN trans]]) (simp_all add: set_obj_def)
    then show ?thesis using Some by (simp add: restamp_one_def)
  qed (simp add: restamp_one_def)
  then show ?case by (auto simp: RestampSessionGeneration_def intro: harmless_fold)
next
  case (3 m u c)
  then show ?case by (intro harmless_cong) (auto simp: UnbindUser_def unbindLocked_def Let_def call_cancel_def split: option.splits prod.splits)
next
  case (9 m fails item)
  then show ?case using drain_frames(3,5) [of fails "[item]" m] by (intro harmless_cong) (simp_all add: drain_one_def Let_def call_cancel_def sendCloseNotification_def deliver_def split: option.splits)
qed (auto simp: harmless_register harmless_schedule harmless_reschedule RescheduleExpiryBySession_def RescheduleExpiryByBearer_def BindUser_def intro!: harmless_cong)

lemma harmless_use:
  assumes "use_check i r c p m = (out, m')"
  shows "harmless m m'" "out \<noteq> None \<Longrightarrow> \<not> ch_closed (obj m r)"
proof -
  show live: "\<not> ch_closed (obj m r)" if "out \<noteq> None" using assms that by (auto simp: use_check_def channelLiveLocked_def split: if_splits)
  have "m' = m \<or> (\<not> ch_closed (obj m r) \<and> (\<exists>x. m' = set_obj r ((obj m r)\<lparr>ch_conn := x\<rparr>) m))"
    using assms by (auto simp: use_check_def Let_def channelLiveLocked_def split: if_splits option.splits)
  then show "harmless m m'"
  proof (elim disjE conjE exE)
    fix x assume "\<not> ch_closed (obj m r)" and m': "m' = set_obj r ((obj m r)\<lparr>ch_conn := x\<rparr>) m"
    then show ?thesis using harmless_set_obj [OF live_in_dom, of m r "(obj m r)\<lparr>ch_conn := x\<rparr>" m'] by (simp add: set_obj_def)
  qed simp
qed

lemma remove_effect:
  assumes "remove_locked i r q m = (out, m')" "objs_sane m"
  shows "out = None \<Longrightarrow> m' = m"
    "out \<noteq> None \<Longrightarrow> objs_sane m' \<and> \<not> ch_closed (obj m r) \<and> r |\<in>| fmdom (hm_objs m') \<and> ch_closed (obj m' r) \<and>
       (\<forall>x. x |\<in>| fmdom (hm_objs m) \<and> x \<noteq> r \<longrightarrow> x |\<in>| fmdom (hm_objs m') \<and> ch_closed (obj m' x) = ch_closed (obj m x))"
proof -
  show "out = None \<Longrightarrow> m' = m" using assms(1) by (auto simp: remove_locked_def Let_def split: if_splits)
  assume "out \<noteq> None"
  then have live: "\<not> ch_closed (obj m r)" and f: "hm_objs m' = fmupd r ((obj m r)\<lparr>ch_closed := True\<rparr>) (hm_objs m)" "hm_next m' = hm_next m"
      "hm_channels m' = fmdrop i (hm_channels m)"
    using assms(1) by (auto simp: remove_locked_def Let_def channelLiveLocked_def unindexChannel_eq set_obj_def split: if_splits)
  then show "objs_sane m' \<and> \<not> ch_closed (obj m r) \<and> r |\<in>| fmdom (hm_objs m') \<and> ch_closed (obj m' r) \<and>
       (\<forall>x. x |\<in>| fmdom (hm_objs m) \<and> x \<noteq> r \<longrightarrow> x |\<in>| fmdom (hm_objs m') \<and> ch_closed (obj m' x) = ch_closed (obj m x))"
    using assms(2) live_in_dom [OF live] by (auto simp: objs_sane_def split: if_splits)
qed

subsection \<open>No use after close\<close>

definition history_ok :: "channel_event list \<Rightarrow> world \<Rightarrow> bool" where
  "history_ok es w \<longleftrightarrow> race_ok w \<and>
     (\<forall>r. Closed r \<in> set es \<longrightarrow> r |\<in>| fmdom (hm_objs (wd_mgr w)) \<and> ch_closed (obj (wd_mgr w) r))"

lemma race_ok_harmless:
  assumes ok: "race_ok w" and h: "harmless (wd_mgr w) m'"
    and locks: "\<And>t r. wd_lock w' r = Some t \<longleftrightarrow> holds (wd_phase w' t) = Some r" and mgr: "wd_mgr w' = m'"
    and op: "\<And>t i r. wd_phase w' t = Some (Operating i r) \<Longrightarrow> wd_phase w t = Some (Operating i r) \<or> \<not> ch_closed (obj (wd_mgr w) r)"
  shows "race_ok w'"
proof -
  have sane: "objs_sane m'" and kept: "closed_kept (wd_mgr w) m'" using ok h by (auto simp: race_ok_def harmless_def)
  have "\<not> ch_closed (obj m' r)" if "wd_phase w' t = Some (Operating i r)" for t i r
  proof -
    have live: "\<not> ch_closed (obj (wd_mgr w) r)" using op [OF that] ok by (auto simp: race_ok_def)
    then show ?thesis using kept live_in_dom [OF live] by (auto simp: closed_kept_def)
  qed
  then show ?thesis using sane locks mgr by (auto simp: race_ok_def)
qed

lemma history_keep:
  assumes "history_ok es w" "race_ok w'" "harmless (wd_mgr w) (wd_mgr w')"
  shows "history_ok es w'"
  using assms by (auto simp: history_ok_def race_ok_def harmless_def closed_kept_def)

lemma locks_step:
  assumes "\<forall>t r. wd_lock w r = Some t \<longleftrightarrow> holds (wd_phase w t) = Some r" 
  shows "holds (wd_phase w t) = Some r \<Longrightarrow> holds q = None \<Longrightarrow>
      ((wd_lock w)(r := None)) x = Some u \<longleftrightarrow> holds (((wd_phase w)(t := q)) u) = Some x"
    "holds (wd_phase w t) = Some r \<Longrightarrow> holds q = Some r \<Longrightarrow> wd_lock w x = Some u \<longleftrightarrow> holds (((wd_phase w)(t := q)) u) = Some x"
    "holds (wd_phase w t) = None \<Longrightarrow> holds q = None \<Longrightarrow> wd_lock w x = Some u \<longleftrightarrow> holds (((wd_phase w)(t := q)) u) = Some x"
    "holds (wd_phase w t) = None \<Longrightarrow> wd_lock w r = None \<Longrightarrow> holds q = Some r \<Longrightarrow>
      ((wd_lock w)(r := Some t)) x = Some u \<longleftrightarrow> holds (((wd_phase w)(t := q)) u) = Some x"
proof -
  have l: "wd_lock w x = Some u \<longleftrightarrow> holds (wd_phase w u) = Some x" for x u using assms by blast
  show "holds (wd_phase w t) = Some r \<Longrightarrow> holds q = None \<Longrightarrow>
      ((wd_lock w)(r := None)) x = Some u \<longleftrightarrow> holds (((wd_phase w)(t := q)) u) = Some x"
    using l [of x u] l [of r t] l [of r u] by auto
  show "holds (wd_phase w t) = Some r \<Longrightarrow> holds q = Some r \<Longrightarrow> wd_lock w x = Some u \<longleftrightarrow> holds (((wd_phase w)(t := q)) u) = Some x"
    using l [of x u] by auto
  show "holds (wd_phase w t) = None \<Longrightarrow> holds q = None \<Longrightarrow> wd_lock w x = Some u \<longleftrightarrow> holds (((wd_phase w)(t := q)) u) = Some x"
    using l [of x u] by auto
  show "holds (wd_phase w t) = None \<Longrightarrow> wd_lock w r = None \<Longrightarrow> holds q = Some r \<Longrightarrow>
      ((wd_lock w)(r := Some t)) x = Some u \<longleftrightarrow> holds (((wd_phase w)(t := q)) u) = Some x"
    using l [of x u] l [of r u] by auto
qed

lemma race_move:
  assumes ok: "race_ok w" and h: "harmless (wd_mgr w) (wd_mgr w')" and ph: "wd_phase w' = (wd_phase w)(t := q)"
    and op: "\<And>i r. q = Some (Operating i r) \<Longrightarrow> \<not> ch_closed (obj (wd_mgr w) r)"
    and locks: "\<And>x u. wd_lock w' x = Some u \<longleftrightarrow> holds (((wd_phase w)(t := q)) u) = Some x"
  shows "race_ok w'"
  by (rule race_ok_harmless [OF ok h _ refl]) (use locks op in \<open>auto simp: ph split: if_splits\<close>)

lemma race_history:
  assumes step: "race w e w'" and hist: "history_ok es w"
  shows "history_ok (es @ (case e of None \<Rightarrow> [] | Some x \<Rightarrow> [x])) w' \<and> (\<forall>r. e = Some (Used r) \<longrightarrow> Closed r \<notin> set es)"
proof -
  have ok: "race_ok w" and l: "\<forall>t r. wd_lock w r = Some t \<longleftrightarrow> holds (wd_phase w t) = Some r" and sane: "objs_sane (wd_mgr w)"
    using hist by (auto simp: history_ok_def race_ok_def)
  note lk = locks_step [OF l]
  have quiet: ?thesis if "e = None" "harmless (wd_mgr w) (wd_mgr w')" "race_ok w'"
    using history_keep [OF hist that(3,2)] that(1) by simp
  have moved: ?thesis if "e = None" "harmless (wd_mgr w) (wd_mgr w')" "wd_phase w' = (wd_phase w)(t := q)"
      "\<And>i r. q = Some (Operating i r) \<Longrightarrow> \<not> ch_closed (obj (wd_mgr w) r)"
      "\<And>x u. wd_lock w' x = Some u \<longleftrightarrow> holds (((wd_phase w)(t := q)) u) = Some x" for t q
    using quiet [OF that(1,2) race_move [OF ok that(2-5)]] .
  from step show ?thesis
  proof cases
    case (look t i r g)
    show ?thesis by (rule moved [where t = t and q = "Some (Waiting i r g)"]) (use lk(3) in \<open>simp_all add: look\<close>)
  next
    case (lock t i r g)
    show ?thesis by (rule moved [where t = t and q = "Some (Holding i r g)"]) (use lk(4) in \<open>simp_all add: lock\<close>)
  next
    case (refuse t i r c p m')
    show ?thesis by (rule moved [where t = t and q = None]) (use lk(1) harmless_use [OF refuse(4)] in \<open>simp_all add: refuse\<close>)
  next
    case (admit t i r c p info m')
    show ?thesis
      by (rule moved [where t = t and q = "Some (Operating i r)"]) (use lk(2) harmless_use [OF admit(4)] in \<open>simp_all add: admit\<close>)
  next
    case (operate t i r ct sent)
    have h: "harmless (wd_mgr w) (wd_mgr w')" by (rule harmless_cong) (simp_all add: operate)
    have "race_ok w'" by (rule race_ok_harmless [OF ok h _ refl]) (use l in \<open>simp_all add: operate\<close>)
    then have "history_ok es w'" by (rule history_keep [OF hist _ h])
    moreover have "Closed r \<notin> set es" using hist operate(3) by (auto simp: history_ok_def race_ok_def)
    ultimately show ?thesis using operate(1) by (simp add: history_ok_def)
  next
    case (release t i r)
    show ?thesis by (rule moved [where t = t and q = None]) (use lk(1) in \<open>simp_all add: release\<close>)
  next
    case (spare t i r q m')
    show ?thesis by (rule moved [where t = t and q = None]) (use lk(1) remove_effect(1) [OF spare(4) sane] in \<open>simp_all add: spare\<close>)
  next
    case (remove t i r q item m')
    have rm: "objs_sane m'" "r |\<in>| fmdom (hm_objs m')" "ch_closed (obj m' r)"
        "\<And>x. x |\<in>| fmdom (hm_objs (wd_mgr w)) \<Longrightarrow> x \<noteq> r \<Longrightarrow> x |\<in>| fmdom (hm_objs m') \<and> ch_closed (obj m' x) = ch_closed (obj (wd_mgr w) x)"
      using remove_effect(2) [OF remove(4) sane] by simp_all
    have held: "holds (wd_phase w t) = Some r" using remove(3) by simp
    have "\<not> ch_closed (obj m' x)" if op: "wd_phase w u = Some (Operating j x)" "u \<noteq> t" for u j x
    proof -
      have "wd_lock w x = Some u" "wd_lock w r = Some t" using l op(1) held by (metis holds_simps(4))+
      then have "x \<noteq> r" using op(2) by auto
      moreover have "\<not> ch_closed (obj (wd_mgr w) x)" using ok op(1) by (auto simp: race_ok_def)
      ultimately show ?thesis using rm(4) [of x] live_in_dom by blast
    qed
    then have "race_ok w'" using lk(1) [OF held, of None] rm(1) by (auto simp: race_ok_def remove split: if_splits)
    moreover have "x |\<in>| fmdom (hm_objs m') \<and> ch_closed (obj m' x)" if "Closed x \<in> set es" for x
      using hist that rm(2,3) rm(4) [of x] by (cases "x = r") (auto simp: history_ok_def)
    ultimately show ?thesis using rm(2,3) by (auto simp: history_ok_def remove)
  next
    case (call m')
    show ?thesis by (rule quiet [OF call(1)]) (use harmless_call [OF call(3)] l in \<open>auto simp: call intro: race_ok_harmless [OF ok]\<close>)
  qed
qed

lemma runs_history:
  "runs w es w' \<Longrightarrow> race_ok w \<Longrightarrow> history_ok es w' \<and> (\<forall>xs ys r. es = xs @ Closed r # ys \<longrightarrow> Used r \<notin> set ys)"
proof (induction rule: runs.induct)
  case (none w)
  then show ?case by (simp add: history_ok_def)
next
  case (step w es w1 e w2)
  then have hist: "history_ok es w1" and old: "\<And>xs ys r. es = xs @ Closed r # ys \<Longrightarrow> Used r \<notin> set ys" by auto
  note next_step = race_history [OF step.hyps(2) hist]
  have "Used r \<notin> set ys" if "es @ (case e of None \<Rightarrow> [] | Some x \<Rightarrow> [x]) = xs @ Closed r # ys" for xs ys r
  proof (cases e)
    case (Some x)
    then have split: "es @ [x] = xs @ Closed r # ys" using that by simp
    show ?thesis
    proof (cases ys rule: rev_cases)
      case (snoc zs z)
      then have es: "es = xs @ Closed r # zs" "x = z" using split by auto
      then show ?thesis using old [OF es(1)] next_step Some snoc by auto
    qed simp
  qed (use that old in simp)
  then show ?case using next_step by blast
qed

lemma idle_ok: "refs_ok m \<Longrightarrow> race_ok (idle_world m)"
  by (simp add: race_ok_def idle_world_def objs_sane_def refs_ok_def)

section \<open>What the hub promises\<close>

text \<open>C17: No use after close. Goroutines look channels up, wait for their operation locks, use them and
  remove them in any interleaving, with any other call of the manager in between. Once a removal has
  closed a channel object, no operation is routed through that object.
\<close>

theorem no_use_after_close:
  assumes "mgr_reachable now m" "runs (idle_world m) (xs @ Closed r # ys) w"
  shows "Used r \<notin> set ys"
  using runs_history [OF assms(2) idle_ok [OF reg_refs [OF assms(1)]]] by blast

text \<open>C18: The invariant of the channel manager. In every reachable state each id leads to a live object of
  its own, the four reverse indexes hold exactly the ids with that key, the heap holds exactly the
  channels with a deadline, in heap order with right positions, and the chunk tracker holds only state
  of registered channels, within its bound.
\<close>

theorem channel_manager_invariant:
  assumes "mgr_reachable now m"
  shows "refs_ok m \<and> indexes_ok m \<and> heap_ok (expiry_key m) (hm_expiries m) \<and> set (items (hm_expiries m)) = timed m \<and> tracker_ok m"
  using mgr_reachable_ok [OF assms] by (simp add: mgr_ok_def core_but_def expiry_but_def)

text \<open>The channels of a key, and what closing them does.\<close>

definition drop_channels :: "(channel \<Rightarrow> bool) \<Rightarrow> channel_manager \<Rightarrow> ident \<Rightarrow> channel option" where
  "drop_channels p m i = (case reg m i of None \<Rightarrow> None | Some ch \<Rightarrow> if p ch then None else Some ch)"

lemma close_index_exact:
  assumes ok: "mgr_ok m" and it: "range_order it" and idx: "index_exact key (reg m) idx" and pred: "steady pred"
    and run: "closeChannelIDs fails now (it (get_or {||} id (fmlookup idx k))) pred m = (gone, m')"
  shows "reg m' = drop_channels (\<lambda>ch. key ch = Some k \<and> pred m ch) m"
    "set (map cc_channel gone) = {i. \<exists>ch. reg m i = Some ch \<and> key ch = Some k \<and> pred m ch}"
proof -
  have core: "core_ok m" using ok by (simp add: mgr_ok_def)
  have ids: "set (it (get_or {||} id (fmlookup idx k))) = {i. \<exists>ch. reg m i = Some ch \<and> key ch = Some k}"
    using idx range_order_set [OF it] by (simp add: index_exact_def idx_get_def)
  note spec = closeChannelIDs_spec(2,3) [OF core pred run]
  show "set (map cc_channel gone) = {i. \<exists>ch. reg m i = Some ch \<and> key ch = Some k \<and> pred m ch}" using spec(2) by (auto simp: closes_def ids)
  show "reg m' = drop_channels (\<lambda>ch. key ch = Some k \<and> pred m ch) m"
    unfolding spec(1) by (auto simp: drop_channels_def closes_def ids fun_eq_iff split: option.splits)
qed

text \<open>C19: Revocation is exact. Closing by a session, by a bearer credential or by a user's generation removes
  the channels opened with that session, with that credential, or by that user under an older
  generation, and leaves every other channel as it was.
\<close>

theorem revocation_exact:
  assumes "mgr_reachable now m" "range_order it" "s \<noteq> empty_id" "bearer_IsValid b" "u \<noteq> empty_id"
  shows "reg (snd (CloseBySession it fails now s m)) = drop_channels (\<lambda>ch. SessionID (ai_credential (ch_auth ch)) = s) m \<and>
    reg (snd (CloseByBearer it fails now b m)) = drop_channels (\<lambda>ch. BearerRef (ai_credential (ch_auth ch)) = Some b) m \<and>
    reg (snd (CloseByUserRevocation it fails now u g m)) =
      drop_channels (\<lambda>ch. ch_user ch = u \<and> (g \<le> 0 \<or> ai_generation (ch_auth ch) < g)) m"
proof -
  have ok: "mgr_ok m" using mgr_reachable_ok [OF assms(1)] .
  then have idx: "index_exact user_key (reg m) (hm_byUser m)" "index_exact session_key (reg m) (hm_bySession m)"
      "index_exact bearer_key (reg m) (hm_byBearer m)" by (simp_all add: mgr_ok_def core_but_def indexes_ok_def)
  have sk: "session_key ch = Some s \<longleftrightarrow> SessionID (ai_credential (ch_auth ch)) = s" for ch using assms(3) by (auto simp: session_key_def Let_def)
  have "reg (snd (CloseBySession it fails now s m)) = drop_channels (\<lambda>ch. session_key ch = Some s) m"
    using close_index_exact(1) [OF ok assms(2) idx(2) steady_info surjective_pairing] assms(3) by (simp add: CloseBySession_def)
  moreover have "reg (snd (CloseByBearer it fails now b m)) = drop_channels (\<lambda>ch. bearer_key ch = Some b) m"
    using close_index_exact(1) [OF ok assms(2) idx(3) steady_info surjective_pairing] assms(4) by (simp add: CloseByBearer_def)
  moreover have "reg (snd (CloseByUserRevocation it fails now u g m)) =
      drop_channels (\<lambda>ch. user_key ch = Some u \<and> ShouldEvictForUserGeneration (ai_generation (ch_auth ch)) g) m"
    using close_index_exact(1) [OF ok assms(2) idx(1) steady_info surjective_pairing] assms(5) by (simp add: CloseByUserRevocation_def)
  ultimately show ?thesis by (simp add: sk bearer_key_def user_key_def ShouldEvictForUserGeneration_def)
qed

text \<open>C20: A credential's deadline is enforced in time. In every reachable state a channel with a deadline
  has the expiry timer armed for no later than that deadline, or the present when it has passed; and the
  sweep the timer runs at any later instant removes exactly the channels whose deadline is due.
\<close>

theorem expired_closed_in_time:
  assumes "mgr_reachable now m" "reg m i = Some ch" "ch_expiresAt ch = At d"
  shows "(\<exists>x. hm_timer m = Some x \<and> x \<le> max d now) \<and>
    reg (expireDueChannels fails t m) i = (if d \<le> t then None else Some ch) \<and>
    reg (expireDueChannels fails t m) = drop_channels (due t) m"
proof -
  have core: "core_ok m" using mgr_reachable_ok [OF assms(1)] by (simp add: mgr_ok_def)
  have sweep: "reg (expireDueChannels fails t m) = drop_channels (due t) m"
    using expireDueChannels_spec(2) [OF core, of fails t] by (auto simp: drop_channels_def fun_eq_iff split: option.splits)
  then have "reg (expireDueChannels fails t m) i = (if d \<le> t then None else Some ch)"
    using assms(2,3) by (simp add: drop_channels_def due_def deadline_At_def)
  moreover have "\<exists>x. hm_timer m = Some x \<and> x \<le> max d now" using mgr_reachable_timer [OF assms(1)] assms(2,3) by (auto simp: timer_ok_def)
  ultimately show ?thesis using sweep by blast
qed

text \<open>C22: A worker's message goes nowhere but to the frontend connection its channel is bound to. The channel
  must be registered for that worker, and the call reports success exactly when the message was handed
  to that connection.
\<close>

theorem relay_isolated:
  assumes "mgr_reachable now m" "RelayWorkerMessage fails msg w m = ((known, c, err), m')"
  shows "(known \<longleftrightarrow> (\<exists>ch. reg m (cm_channel msg) = Some ch \<and> ch_worker ch = w)) \<and>
    (if known \<and> err = None
     then \<exists>ch s. reg m (cm_channel msg) = Some ch \<and> ch_worker ch = w \<and> getConnSender (ch_user ch) (ch_conn ch) m = Some s \<and>
            hm_out m' = hm_out m @ [Delivered s msg]
     else hm_out m' = hm_out m)"
  using RelayWorker_out [OF reg_refs [OF assms(1)] assms(2)] by auto

lemma close_gone: "closeChannelIDs fails now ids pred m = ([], m') \<Longrightarrow> m' = m"
  using remove_all_none by (auto simp: closeChannelIDs_def drainRemoved_def split: prod.splits if_splits)

lemma relayFrontend_out:
  assumes "relayFrontendMessageToWorker conn info msg m = (err, m')"
  shows "hm_out m' = hm_out m \<or> err = None \<and> in_WorkerID info \<noteq> empty_id \<and> hm_out m' = hm_out m @ [Delivered (in_WorkerID info) msg]"
    "hm_objs m' = hm_objs m" "hm_channels m' = hm_channels m"
  using assms by (auto simp: relayFrontendMessageToWorker_def Let_def split: if_splits prod.splits option.splits)

lemma singleton_list:
  assumes "distinct xs" "set xs = {a}"
  shows "xs = [a]"
proof -
  have "length xs = Suc 0" using distinct_card [OF assms(1)] assms(2) by simp
  then show ?thesis using assms(2) by (cases xs) auto
qed

lemma relay_message_steps:
  assumes ok: "mgr_ok m" and run: "relay_message fails conn now user c msg m = (gone, m')" "(gone, m') \<noteq> ([], m)"
  defines "i \<equiv> cm_channel msg" and "may \<equiv> \<lambda>info. userCanUseChannel (Some user) (in_AuthInfo info) (in_UserID info)"
  obtains ch and e :: "unit option" and m2 where "reg m i = Some ch" "may (channelInfo ch)" "mgr_ok m2" "reg m2 = (reg m)(i := Some (ch\<lparr>ch_conn := c\<rparr>))"
    "hm_out m2 = hm_out m \<or> e = None \<and> hm_out m2 = hm_out m @ [Delivered (ch_worker ch) msg]"
    "(gone, m') = (if e \<noteq> None then closeChannelIDs fails now [i] (\<lambda>_ ch. may (channelInfo ch)) m2 else ([], m2))"
proof -
  have refs: "refs_ok m" using ok by (simp add: mgr_ok_def core_but_def)
  have "\<exists>r. fmlookup (hm_channels m) i = Some r \<and> may (channelInfo (obj m r))"
    using run unfolding i_def may_def
    by (auto simp: relay_message_def UseAuthorizedChannel_def useChannel_def acquireChannelOp_def use_check_def Let_def split: if_splits option.splits)
  then obtain r where r: "fmlookup (hm_channels m) i = Some r" and may: "may (channelInfo (obj m r))" by blast
  define ch where "ch = obj m r"
  define m1 where "m1 = set_obj r (ch\<lparr>ch_conn := c\<rparr>) m"
  have live: "channelLiveLocked i r m" using refs_okD(4) [OF refs r] r by (simp add: channelLiveLocked_def)
  have chk: "use_check i r (Some c) (Some may) m = (Some (channelInfo ch), m1)" using live may by (simp add: use_check_def m1_def ch_def)
  have m1: "mgr_ok m1" "reg m1 = (reg m)(i := Some (ch\<lparr>ch_conn := c\<rparr>))" "hm_channels m1 = hm_channels m" "hm_out m1 = hm_out m"
    using use_check_spec [OF _ r chk] ok reg_set_obj [OF refs r] by (simp_all add: mgr_ok_def tracker_ok_def m1_def set_obj_def)
  obtain e m2 where rel: "relayFrontendMessageToWorker conn (channelInfo ch) msg m1 = (e, m2)" by fastforce
  have id: "in_ChannelID (channelInfo ch) = i" "in_WorkerID (channelInfo ch) = ch_worker ch"
    using refs_okD(3) [OF refs r] by (simp_all add: channelInfo_def ch_def)
  have m2: "mgr_ok m2" "reg m2 = (reg m)(i := Some (ch\<lparr>ch_conn := c\<rparr>))"
    using RelayFrontend_ok [OF m1(1) _ rel] m1 r id reg_cong [OF relayFrontend_out(2,3) [OF rel]] by simp_all
  have out: "hm_out m2 = hm_out m \<or> e = None \<and> hm_out m2 = hm_out m @ [Delivered (ch_worker ch) msg]"
    using relayFrontend_out(1) [OF rel] m1(4) id(2) by auto
  have named: "i \<noteq> empty_id" using run unfolding i_def by (cases "cm_channel msg = empty_id") (simp_all add: relay_message_def)
  have use: "UseAuthorizedChannel i c may (\<lambda>info. relayFrontendMessageToWorker conn info msg) m = (Some (channelInfo ch, e), m2)"
    unfolding UseAuthorizedChannel_def useChannel_def acquireChannelOp_def r by (simp only: option.case chk prod.case rel)
  have close: "CloseByIDIf fails now i may m2 = closeChannelIDs fails now [i] (\<lambda>_ ch. may (channelInfo ch)) m2"
    using named by (simp add: CloseByIDIf_def)
  have fin: "(gone, m') = (if e \<noteq> None then closeChannelIDs fails now [i] (\<lambda>_ ch. may (channelInfo ch)) m2 else ([], m2))"
    using run(1) use close named unfolding relay_message_def Let_def i_def [symmetric] may_def [symmetric]
    by (simp only: named if_False prod.case option.case)
  have "reg m i = Some ch" "may (channelInfo ch)" using r may by (simp_all add: reg_def ch_def)
  then show ?thesis using m2 out fin by (rule that)
qed

text \<open>C21: A frontend's message goes nowhere but to the worker of the channel it names, and only for the user
  that opened the channel, with the credential it was opened with. Without both the message changes
  nothing; with both the channel is bound to the connection the message came from, or closed.
\<close>

theorem frontend_relay_authorized:
  assumes "mgr_reachable now m" "relay_message fails conn now user c msg m = (gone, m')" "(gone, m') \<noteq> ([], m)"
  shows "\<exists>ch. reg m (cm_channel msg) = Some ch \<and> uid_Matches (ui_id user) (ch_user ch) \<and>
     ai_credential (ch_auth ch) = ui_credential user \<and>
     (if gone = [] then (hm_out m' = hm_out m \<or> hm_out m' = hm_out m @ [Delivered (ch_worker ch) msg]) \<and>
        reg m' = (reg m)(cm_channel msg := Some (ch\<lparr>ch_conn := c\<rparr>))
      else map cc_channel gone = [cm_channel msg] \<and> reg m' = (reg m)(cm_channel msg := None))"
proof -
  let ?i = "cm_channel msg" and ?may = "\<lambda>info. userCanUseChannel (Some user) (in_AuthInfo info) (in_UserID info)"
  let ?pred = "\<lambda>(_ :: channel_manager) ch. ?may (channelInfo ch)"
  obtain ch and e :: "unit option" and m2 where ch: "reg m ?i = Some ch" "?may (channelInfo ch)" and m2: "mgr_ok m2" "reg m2 = (reg m)(?i := Some (ch\<lparr>ch_conn := c\<rparr>))"
      and out: "hm_out m2 = hm_out m \<or> e = None \<and> hm_out m2 = hm_out m @ [Delivered (ch_worker ch) msg]"
      and run: "(gone, m') = (if e \<noteq> None then closeChannelIDs fails now [?i] ?pred m2 else ([], m2))"
    using relay_message_steps [OF mgr_reachable_ok [OF assms(1)] assms(2,3)] .
  have may: "uid_Matches (ui_id user) (ch_user ch)" "ai_credential (ch_auth ch) = ui_credential user"
    using ch(2) by (auto simp: channelInfo_def userCanUseChannel_def cred_Matches_def split: if_splits)
  show ?thesis
  proof (cases e)
    case (Some x)
    have close: "closeChannelIDs fails now [?i] ?pred m2 = (gone, m')" using run Some by simp
    have core: "core_ok m2" using m2(1) by (simp add: mgr_ok_def)
    have "channelInfo (ch\<lparr>ch_conn := c\<rparr>) = (channelInfo ch)\<lparr>in_ConnID := c\<rparr>" by (simp add: channelInfo_def)
    then have "closes ?pred (set [?i]) m2 = {?i}" using ch(2) m2(2) by (auto simp: closes_def)
    then have gone: "reg m' = (\<lambda>i. if i \<in> {?i} then None else reg m2 i)" "set (map cc_channel gone) = {?i}" "distinct (map cc_channel gone)"
      using closeChannelIDs_spec(2-4) [OF core steady_info close] by simp_all
    have "map cc_channel gone = [?i]" using singleton_list [OF gone(3,2)] .
    moreover have "reg m' = (reg m)(?i := None)" using gone(1) m2(2) by (auto simp: fun_eq_iff)
    ultimately show ?thesis using ch may by auto
  qed (use run ch may m2(2) out in auto)
qed

section \<open>The promises at concrete inputs\<close>

text \<open>A hub with one channel of a session, with a deadline, bound to a connection.\<close>

definition ex_auth :: auth_info where
  "ex_auth = \<lparr>ai_credential = \<lparr>cr_kind = credentialSession, cr_id = ''s'', cr_workspace_id = [], cr_worker_id = []\<rparr>,
     ai_generation = 1, ai_expires = Unset\<rparr>"

definition ex_hub :: channel_manager where
  "ex_hub = snd (ScheduleExpiry 0 ''c'' (At 10) (Some ''f'') (RegisterWithAuthInfo ''c'' ''w'' ''u'' ex_auth None new_manager))"

lemma ex_reachable: "mgr_reachable 0 ex_hub"
  unfolding ex_hub_def
  by (rule mgr_reachable.schedule [OF mgr_reachable.register [OF mgr_reachable.start]]) (simp add: new_manager_def)

definition ex_channel :: channel where
  "ex_channel = \<lparr>ch_closed = False, ch_id = ''c'', ch_worker = ''w'', ch_user = ''u'', ch_auth = ex_auth\<lparr>ai_expires := At 10\<rparr>,
     ch_conn = [], ch_expiresAt = At 10, ch_pending = Unset, ch_onExpire = Some ''f'', ch_cancel = None\<rparr>"

lemma ex_reg: "reg ex_hub = [''c'' \<mapsto> ex_channel]"
proof -
  let ?m = "RegisterWithAuthInfo ''c'' ''w'' ''u'' ex_auth None new_manager"
  have none: "reg new_manager = Map.empty" by (simp add: reg_def new_manager_def fun_eq_iff)
  have core: "core_ok new_manager" using new_manager_ok by (simp add: mgr_ok_def)
  note r = Register_spec [OF core, of "''c''" "''w''" "''u''" ex_auth None]
  obtain b m' where run: "ScheduleExpiry 0 ''c'' (At 10) (Some ''f'') ?m = (b, m')" by fastforce
  note s = ScheduleExpiry_spec [OF r(1) run]
  show ?thesis using s(4,6) r(2) run by (simp add: ex_hub_def none Let_def IsUnset_def ex_channel_def)
qed

theorem channel_manager_invariant_witness:
  "refs_ok ex_hub \<and> indexes_ok ex_hub \<and> heap_ok (expiry_key ex_hub) (hm_expiries ex_hub) \<and>
   set (items (hm_expiries ex_hub)) = timed ex_hub \<and> tracker_ok ex_hub"
  using channel_manager_invariant [OF ex_reachable] .

theorem expired_closed_in_time_witness:
  "(\<exists>x. hm_timer ex_hub = Some x \<and> x \<le> 10) \<and> reg (expireDueChannels (\<lambda>_ _. False) 12 ex_hub) ''c'' = None"
proof -
  have ch: "reg ex_hub ''c'' = Some ex_channel" "ch_expiresAt ex_channel = At 10" by (simp_all add: ex_reg ex_channel_def)
  note e = expired_closed_in_time [OF ex_reachable ch, of "\<lambda>_ _. False" 12]
  show ?thesis using conjunct1 [OF e] conjunct1 [OF conjunct2 [OF e]] by simp
qed

lemma drop_demo: "drop_channels p ex_hub i = (if i = ''c'' \<and> \<not> p ex_channel then Some ex_channel else None)"
  by (simp add: drop_channels_def ex_reg)

theorem revocation_exact_witness:
  "reg (snd (CloseBySession sorted_range (\<lambda>_ _. False) 3 ''s'' ex_hub)) = Map.empty"
proof -
  have "reg (snd (CloseBySession sorted_range (\<lambda>_ _. False) 3 ''s'' ex_hub)) =
      drop_channels (\<lambda>ch. SessionID (ai_credential (ch_auth ch)) = ''s'') ex_hub"
    using revocation_exact [OF mgr_reachable.wait [OF ex_reachable, of 3] sorted_range_order, of "''s''" "(Some BearerKindAPI, ''k'')" "''v''"
      "\<lambda>_ _. False" 1] by (simp add: bearer_IsValid_def)
  then show ?thesis by (simp add: fun_eq_iff drop_demo ex_channel_def ex_auth_def SessionID_def)
qed

text \<open>A message each way through a channel that has no deadline yet.\<close>

definition ex_plain :: channel_manager where
  "ex_plain = BindUser ''u'' ''k'' ''send'' None (RegisterWithAuthInfo ''c'' ''w'' ''u'' ex_auth None new_manager)"

definition ex_user :: user_info where
  "ex_user = \<lparr>ui_id = UserID ''u'', ui_credential = ai_credential ex_auth\<rparr>"

definition ex_msg :: channel_message where
  "ex_msg = \<lparr>cm_version = 1, cm_channel = ''c'', cm_corr = 7, cm_flags = FLAGS_UNSPECIFIED, cm_ciphertext = [1, 2]\<rparr>"

definition ex_open :: channel_manager where
  "ex_open = snd (relay_message (\<lambda>_ _. False) (\<lambda>_. Some (\<lambda>_. False)) 0 ex_user ''k'' ex_msg ex_plain)"

lemma ex_plain_reachable: "mgr_reachable 0 ex_plain"
  unfolding ex_plain_def
  by (rule mgr_reachable.bind [OF mgr_reachable.register [OF mgr_reachable.start]]) (simp add: new_manager_def)

lemma ex_plain_simps:
  "fmlookup (hm_channels ex_plain) ''c'' = Some 0" "hm_tracker ex_plain = fmempty" "hm_out ex_plain = []"
  "fmlookup (hm_objs ex_plain) 0 = Some (ex_channel\<lparr>ch_auth := ex_auth, ch_expiresAt := Unset, ch_onExpire := None\<rparr>)"
  "getConnSender ''u'' ''k'' ex_plain = Some ''send''"
  by (simp_all add: ex_plain_def BindUser_def RegisterWithAuthInfo_def Let_def indexChannel_eq set_obj_def new_manager_def ex_channel_def getConnSender_def)

lemma ex_relay:
  "relay_message (\<lambda>_ _. False) (\<lambda>_. Some (\<lambda>_. False)) 0 ex_user ''k'' ex_msg ex_plain =
    ([], (set_obj 0 (obj ex_plain 0\<lparr>ch_conn := ''k''\<rparr>) ex_plain)\<lparr>hm_tracker := fmempty, hm_out := [Delivered ''w'' ex_msg]\<rparr>)"
  by (simp add: relay_message_def UseAuthorizedChannel_def useChannel_def acquireChannelOp_def use_check_def channelLiveLocked_def ex_plain_simps
      ex_msg_def ex_user_def Let_def relayFrontendMessageToWorker_def channelInfo_def userCanUseChannel_def uid_Matches_def cred_Matches_def
      ChunkContinuation_def FLAGS_UNSPECIFIED_def FLAGS_MORE_def Track_def ex_channel_def MaxCiphertextForChunk_def NoiseAEADAuthTagSize_def set_obj_def)

lemma ex_open_eq:
  "ex_open = (set_obj 0 (obj ex_plain 0\<lparr>ch_conn := ''k''\<rparr>) ex_plain)\<lparr>hm_tracker := fmempty, hm_out := [Delivered ''w'' ex_msg]\<rparr>"
  by (simp add: ex_open_def ex_relay)

lemma ex_open_run:
  "relay_message (\<lambda>_ _. False) (\<lambda>_. Some (\<lambda>_. False)) 0 ex_user ''k'' ex_msg ex_plain = ([], ex_open)"
  "([], ex_open) \<noteq> ([], ex_plain)"
proof -
  show "relay_message (\<lambda>_ _. False) (\<lambda>_. Some (\<lambda>_. False)) 0 ex_user ''k'' ex_msg ex_plain = ([], ex_open)"
    by (simp add: ex_open_def ex_relay)
  have "hm_out ex_open \<noteq> hm_out ex_plain" by (simp add: ex_open_eq ex_plain_simps)
  then show "([], ex_open) \<noteq> ([], ex_plain)" by auto
qed

theorem frontend_relay_authorized_witness:
  "\<exists>ch. reg ex_plain ''c'' = Some ch \<and> reg ex_open = (reg ex_plain)(''c'' := Some (ch\<lparr>ch_conn := ''k''\<rparr>))"
proof -
  have "cm_channel ex_msg = ''c''" by (simp add: ex_msg_def)
  then show ?thesis using frontend_relay_authorized [OF ex_plain_reachable ex_open_run] by auto
qed

lemma ex_open_reachable: "mgr_reachable 0 ex_open"
  unfolding ex_open_def by (rule mgr_reachable.from_frontend [OF ex_plain_reachable])

theorem relay_isolated_witness:
  "\<exists>c err m'. RelayWorkerMessage (\<lambda>_ _. False) ex_msg ''other'' ex_open = ((False, c, err), m') \<and> hm_out m' = hm_out ex_open"
proof -
  obtain known c err m' where run: "RelayWorkerMessage (\<lambda>_ _. False) ex_msg ''other'' ex_open = ((known, c, err), m')" by (metis prod.exhaust)
  have "reg ex_open (cm_channel ex_msg) = Some (ex_channel\<lparr>ch_auth := ex_auth, ch_expiresAt := Unset, ch_onExpire := None, ch_conn := ''k''\<rparr>)"
    by (simp add: reg_def ex_open_eq ex_plain_simps ex_msg_def ex_channel_def set_obj_def)
  then have "\<not> known" using relay_isolated [OF ex_open_reachable run] by (simp add: ex_channel_def)
  then show ?thesis using relay_isolated [OF ex_open_reachable run] run by auto
qed

subsection \<open>A removal and a use\<close>

definition ex_two :: channel_manager where
  "ex_two = RegisterWithAuthInfo ''d'' ''w'' ''u'' ex_auth None (RegisterWithAuthInfo ''c'' ''w'' ''u'' ex_auth None new_manager)"

lemma ex_two_reachable: "mgr_reachable 0 ex_two"
  unfolding ex_two_def
  by (rule mgr_reachable.register [OF mgr_reachable.register [OF mgr_reachable.start]])
     (simp_all add: new_manager_def RegisterWithAuthInfo_def Let_def indexChannel_eq set_obj_def)

lemma ex_two_simps:
  "fmlookup (hm_channels ex_two) ''c'' = Some 0" "fmlookup (hm_channels ex_two) ''d'' = Some 1"
  "\<not> ch_closed (obj ex_two 0)" "\<not> ch_closed (obj ex_two (Suc 0))"
  by (simp_all add: ex_two_def RegisterWithAuthInfo_def Let_def indexChannel_eq set_obj_def new_manager_def)

lemma ex_run: "\<exists>w. runs (idle_world ex_two) ([] @ Closed 0 # [Used 1]) w"
proof -
  obtain item m1 where rm: "remove_locked ''c'' 0 any_channel ex_two = (Some item, m1)"
      and m1: "fmlookup (hm_channels m1) ''d'' = Some 1" "\<not> ch_closed (obj m1 (Suc 0))"
    by (simp add: remove_locked_def Let_def channelLiveLocked_def ex_two_simps unindexChannel_eq set_obj_def)
  obtain info where chk: "use_check ''d'' (Suc 0) None None m1 = (Some info, m1)" by (simp add: use_check_def channelLiveLocked_def m1)
  define w0 where "w0 = idle_world ex_two"
  define w1 where "w1 = w0\<lparr>wd_phase := (wd_phase w0)(0 := Some (Waiting ''c'' 0 (ToRemove any_channel)))\<rparr>"
  define w2 where "w2 = w1\<lparr>wd_phase := (wd_phase w1)(0 := Some (Holding ''c'' 0 (ToRemove any_channel))), wd_lock := (wd_lock w1)(0 := Some 0)\<rparr>"
  define w3 where "w3 = w2\<lparr>wd_mgr := m1, wd_phase := (wd_phase w2)(0 := None), wd_lock := (wd_lock w2)(0 := None)\<rparr>"
  define w4 where "w4 = w3\<lparr>wd_phase := (wd_phase w3)(5 := Some (Waiting ''d'' 1 (ToUse None None)))\<rparr>"
  define w5 where "w5 = w4\<lparr>wd_phase := (wd_phase w4)(5 := Some (Holding ''d'' 1 (ToUse None None))), wd_lock := (wd_lock w4)(1 := Some 5)\<rparr>"
  define w6 where "w6 = w5\<lparr>wd_mgr := m1, wd_phase := (wd_phase w5)(5 := Some (Operating ''d'' 1))\<rparr>"
  define w7 where "w7 = w6\<lparr>wd_mgr := (wd_mgr w6)\<lparr>hm_tracker := fmempty, hm_out := []\<rparr>\<rparr>"
  have s1: "race w0 None w1" unfolding w1_def by (rule race.look) (simp_all add: w0_def idle_world_def acquireChannelOp_def ex_two_simps)
  have s2: "race w1 None w2" unfolding w2_def by (rule race.lock) (simp_all add: w0_def w1_def idle_world_def)
  have s3: "race w2 (Some (Closed 0)) w3"
  proof -
    have "wd_phase w2 0 = Some (Holding ''c'' 0 (ToRemove any_channel))" "wd_mgr w2 = ex_two" by (simp_all add: w0_def w1_def w2_def idle_world_def)
    then show ?thesis unfolding w3_def using race.remove [of w2 0 "''c''" 0 any_channel item m1] rm by simp
  qed
  have s4: "race w3 None w4" unfolding w4_def
    by (rule race.look) (simp_all add: w0_def w1_def w2_def w3_def idle_world_def acquireChannelOp_def m1)
  have s5: "race w4 None w5" unfolding w5_def by (rule race.lock) (simp_all add: w0_def w1_def w2_def w3_def w4_def idle_world_def)
  have s6: "race w5 None w6"
  proof -
    have "wd_phase w5 5 = Some (Holding ''d'' 1 (ToUse None None))" "wd_mgr w5 = m1" by (simp_all add: w3_def w4_def w5_def)
    then show ?thesis unfolding w6_def using race.admit [of w5 5 "''d''" 1 None None info m1] chk by simp
  qed
  have s7: "race w6 (Some (Used 1)) w7" unfolding w7_def by (rule race.operate [where t = 5 and i = "''d''"]) (simp add: w6_def)
  show ?thesis
    using runs_event [OF runs_quiet [OF runs_quiet [OF runs_quiet [OF runs_event [OF runs_quiet [OF runs_quiet [OF runs.none s1] s2] s3] s4] s5] s6] s7]
    unfolding w0_def by auto
qed

theorem no_use_after_close_witness:
  "\<exists>w. runs (idle_world ex_two) ([] @ Closed 0 # [Used 1]) w \<and> Used 0 \<notin> set [Used 1]"
proof -
  obtain w where run: "runs (idle_world ex_two) ([] @ Closed 0 # [Used 1]) w" using ex_run by blast
  then show ?thesis using no_use_after_close [OF ex_two_reachable run] by blast
qed

end
