(* ===== verification/AuthLaws.thy ===== *)
theory AuthLaws
  imports AuthCache ChannelHub
begin

text \<open>
  What the authentication state promises: a revoked credential is not served again, from the cache or
  from a validation that raced the revocation, no lease outlives the revocation of its credential,
  and sweeping old marks does not weaken this.
\<close>

section \<open>Indexes\<close>

lemma bucket_index [simp]: "bucket (indexSyncMap k e m) j = (if j = k then finsert e (bucket m k) else bucket m j)"
  by (simp add: bucket_def indexSyncMap_def)

lemma bucket_index_lease [simp]: "bucket (indexLease k e m) j = (if j = k then finsert e (bucket m k) else bucket m j)"
  by (simp add: bucket_def indexLease_def)

lemma bucket_unindex [simp]: "bucket (unindexSyncMap k e m) j = (if j = k then bucket m k |-| {|e|} else bucket m j)"
  by (auto simp: bucket_def unindexSyncMap_def Let_def split: option.splits)

lemma bucket_unindex_lease [simp]: "bucket (removeLeaseIndex k e m) j = (if j = k then bucket m k |-| {|e|} else bucket m j)"
proof (cases "bucket m k |-| {|e|} = {||}")
  case True
  then show ?thesis by (auto simp: bucket_def removeLeaseIndex_def Let_def)
qed (simp add: bucket_def removeLeaseIndex_def Let_def)

lemma bucket_drop [simp]: "bucket (fmdrop k m) j = (if j = k then {||} else bucket m j)"
  by (simp add: bucket_def)

lemma bucket_mem: "e |\<in>| bucket m k \<longleftrightarrow> (\<exists>es. fmlookup m k = Some es \<and> e |\<in>| es)"
  by (cases "fmlookup m k") (simp_all add: bucket_def)

section \<open>What a revocation rules out\<close>

datatype revocation = RevSession ident nat | RevBearer bearer_ref nat | RevUser ident nat int

fun outdated :: "auth_user \<Rightarrow> revocation \<Rightarrow> bool" where
  "outdated u (RevSession i n) \<longleftrightarrow> SessionID (ui_credential u) = i \<and> au_gen u < n"
| "outdated u (RevBearer b n) \<longleftrightarrow> BearerRef (ui_credential u) = Some b \<and> au_gen u < n"
| "outdated u (RevUser i n g) \<longleftrightarrow> uid_id (ui_id u) = i \<and> au_gen u < n \<and> (0 < g \<longrightarrow> au_user_gen u < g)"

text \<open>
  A revocation of a user names the generation of the user it revokes below, or none (zero or
  negative): then it is for everything validated before it. There is one mark per user, and the
  next revocation that takes effect replaces it. A mark with a generation compares generations of
  the user only, so it stops less than the one it replaces when that one had no generation, or a
  greater one.
\<close>

fun weakens :: "revocation \<Rightarrow> revocation \<Rightarrow> bool" where
  "weakens (RevUser i _ n) (RevUser j _ g) \<longleftrightarrow> i = j \<and> 0 < n \<and> (g \<le> 0 \<or> n < g)"
| "weakens _ _ \<longleftrightarrow> False"

text \<open>The user of a cache entry as it is handed out.\<close>

abbreviation entry_user :: "cached_session \<Rightarrow> auth_user" where
  "entry_user c \<equiv> (ca_user c)\<lparr>au_gen := ca_gen c\<rparr>"

text \<open>A validation in flight: what it is for, the generation it read and when. An identity in use: when it was handed out.\<close>

datatype target = ForSession ident | ForBearer bearer_key

record auth_world =
  aw_state :: auth_state
  aw_log :: "(revocation \<times> int) list"
  aw_flights :: "(target \<times> nat \<times> int) list"
  aw_users :: "(auth_user \<times> int) list"

definition cache_ok :: "auth_state \<Rightarrow> bool" where
  "cache_ok s \<longleftrightarrow>
     (\<forall>i c. fmlookup (as_sessions s) i = Some c \<longrightarrow> i \<noteq> [] \<and> SessionID (ui_credential (ca_user c)) = i \<and> \<not> uid_IsZero (ui_id (ca_user c)) \<and>
        ca_gen c \<le> as_gen s \<and> i |\<in>| bucket (as_userSessions s) (uid_id (ui_id (ca_user c)))) \<and>
     (\<forall>k c. fmlookup (as_bearers s) k = Some c \<longrightarrow> bearer_IsValid (fst k) \<and> BearerRef (ui_credential (ca_user c)) = Some (fst k) \<and>
        \<not> uid_IsZero (ui_id (ca_user c)) \<and> ca_gen c \<le> as_gen s \<and>
        k |\<in>| bucket (as_bearerKeys s) (fst k) \<and> k |\<in>| bucket (as_userBearerKeys s) (uid_id (ui_id (ca_user c))))"

text \<open>Every lease is indexed, and the index of a session names leases of that session only.\<close>

definition lease_ok :: "auth_state \<Rightarrow> bool" where
  "lease_ok s \<longleftrightarrow> (\<forall>e i. i |\<in>| bucket (as_leasesBySession s) e \<longrightarrow> i \<le> as_nextLease s \<and>
       (\<forall>l. fmlookup (as_leases s) i = Some l \<longrightarrow> SessionID (ui_credential (le_user l)) = e)) \<and> (\<forall>i l. fmlookup (as_leases s) i = Some l \<longrightarrow> i \<le> as_nextLease s \<and> au_gen (le_user l) \<le> as_gen s \<and>
     i |\<in>| bucket (as_leasesByUser s) (uid_id (ui_id (le_user l))) \<and>
     (SessionID (ui_credential (le_user l)) \<noteq> [] \<longrightarrow> i |\<in>| bucket (as_leasesBySession s) (SessionID (ui_credential (le_user l)))) \<and>
     (\<forall>b. BearerRef (ui_credential (le_user l)) = Some b \<longrightarrow> i |\<in>| bucket (as_leasesByBearer s) b))"

text \<open>A recent revocation still has its mark.\<close>

fun marked :: "auth_state \<Rightarrow> revocation \<Rightarrow> int \<Rightarrow> bool" where
  "marked s (RevSession i n) cutoff \<longleftrightarrow> (\<exists>k. fmlookup (as_sessionRevocations s) i = Some k \<and> n \<le> mk_gen k \<and> cutoff \<le> mk_at k)"
| "marked s (RevBearer b n) cutoff \<longleftrightarrow> (\<exists>k. fmlookup (as_bearerRevocations s) b = Some k \<and> n \<le> mk_gen k \<and> cutoff \<le> mk_at k)"
| "marked s (RevUser i n g) cutoff \<longleftrightarrow> (\<exists>k. fmlookup (as_userRevocations s) i = Some k \<and> cutoff \<le> mk_at k \<and>
     (if 0 < mk_user_gen k then 0 < g \<and> g \<le> mk_user_gen k else n \<le> mk_gen k))"

section \<open>Removing cache entries\<close>

lemma cache_okD:
  assumes "cache_ok s"
  shows "fmlookup (as_sessions s) i = Some c \<Longrightarrow> i \<noteq> [] \<and> SessionID (ui_credential (ca_user c)) = i \<and> \<not> uid_IsZero (ui_id (ca_user c)) \<and>
      ca_gen c \<le> as_gen s \<and> i |\<in>| bucket (as_userSessions s) (uid_id (ui_id (ca_user c)))"
    "fmlookup (as_bearers s) k = Some c \<Longrightarrow> bearer_IsValid (fst k) \<and> BearerRef (ui_credential (ca_user c)) = Some (fst k) \<and>
      \<not> uid_IsZero (ui_id (ca_user c)) \<and> ca_gen c \<le> as_gen s \<and>
      k |\<in>| bucket (as_bearerKeys s) (fst k) \<and> k |\<in>| bucket (as_userBearerKeys s) (uid_id (ui_id (ca_user c)))"
  using assms unfolding cache_ok_def by blast+

text \<open>What a change of the caches keeps: entries only go away, and those that stay are still indexed.\<close>

definition fewer_entries :: "auth_state \<Rightarrow> auth_state \<Rightarrow> bool" where
  "fewer_entries s s' \<longleftrightarrow> as_gen s \<le> as_gen s' \<and>
     (\<forall>i c. fmlookup (as_sessions s') i = Some c \<longrightarrow> fmlookup (as_sessions s) i = Some c \<and>
        (\<forall>j. i |\<in>| bucket (as_userSessions s) j \<longrightarrow> i |\<in>| bucket (as_userSessions s') j)) \<and>
     (\<forall>k c. fmlookup (as_bearers s') k = Some c \<longrightarrow> fmlookup (as_bearers s) k = Some c \<and>
        (\<forall>j. k |\<in>| bucket (as_bearerKeys s) j \<longrightarrow> k |\<in>| bucket (as_bearerKeys s') j) \<and>
        (\<forall>j. k |\<in>| bucket (as_userBearerKeys s) j \<longrightarrow> k |\<in>| bucket (as_userBearerKeys s') j))"

lemma fewerD:
  assumes "fewer_entries s s'"
  shows "as_gen s \<le> as_gen s'"
    "fmlookup (as_sessions s') i = Some c \<Longrightarrow> fmlookup (as_sessions s) i = Some c"
    "fmlookup (as_sessions s') i = Some c \<Longrightarrow> i |\<in>| bucket (as_userSessions s) j \<Longrightarrow> i |\<in>| bucket (as_userSessions s') j"
    "fmlookup (as_bearers s') k = Some c \<Longrightarrow> fmlookup (as_bearers s) k = Some c"
    "fmlookup (as_bearers s') k = Some c \<Longrightarrow> k |\<in>| bucket (as_bearerKeys s) b \<Longrightarrow> k |\<in>| bucket (as_bearerKeys s') b"
    "fmlookup (as_bearers s') k = Some c \<Longrightarrow> k |\<in>| bucket (as_userBearerKeys s) j \<Longrightarrow> k |\<in>| bucket (as_userBearerKeys s') j"
  using assms unfolding fewer_entries_def by blast+

lemma fewer_refl [simp]: "fewer_entries s s"
  by (simp add: fewer_entries_def)

lemma fewer_trans: "fewer_entries a b \<Longrightarrow> fewer_entries b c \<Longrightarrow> fewer_entries a c"
  unfolding fewer_entries_def by (meson order.trans)

lemma fewer_cong:
  "as_gen s \<le> as_gen s' \<Longrightarrow> as_sessions s' = as_sessions s \<Longrightarrow> as_userSessions s' = as_userSessions s \<Longrightarrow> as_bearers s' = as_bearers s \<Longrightarrow>
   as_bearerKeys s' = as_bearerKeys s \<Longrightarrow> as_userBearerKeys s' = as_userBearerKeys s \<Longrightarrow> fewer_entries s s'"
  by (simp add: fewer_entries_def)

lemma fewer_cache_ok:
  assumes "cache_ok s" "fewer_entries s s'"
  shows "cache_ok s'"
proof -
  have gen: "as_gen s \<le> as_gen s'" using fewerD(1) [OF assms(2)] .
  have "i \<noteq> [] \<and> SessionID (ui_credential (ca_user c)) = i \<and> \<not> uid_IsZero (ui_id (ca_user c)) \<and> ca_gen c \<le> as_gen s' \<and>
      i |\<in>| bucket (as_userSessions s') (uid_id (ui_id (ca_user c)))" if "fmlookup (as_sessions s') i = Some c" for i c
    using cache_okD(1) [OF assms(1) fewerD(2) [OF assms(2) that]] fewerD(3) [OF assms(2) that] gen by auto
  moreover have "bearer_IsValid (fst k) \<and> BearerRef (ui_credential (ca_user c)) = Some (fst k) \<and>
      \<not> uid_IsZero (ui_id (ca_user c)) \<and> ca_gen c \<le> as_gen s' \<and>
      k |\<in>| bucket (as_bearerKeys s') (fst k) \<and> k |\<in>| bucket (as_userBearerKeys s') (uid_id (ui_id (ca_user c)))"
    if "fmlookup (as_bearers s') k = Some c" for k c
    using cache_okD(2) [OF assms(1) fewerD(4) [OF assms(2) that]] fewerD(5,6) [OF assms(2) that] gen by auto
  ultimately show ?thesis unfolding cache_ok_def by blast
qed

text \<open>The caches and their indexes are a part of the state of their own.\<close>

definition same_rest :: "auth_state \<Rightarrow> auth_state \<Rightarrow> bool" where
  "same_rest s s' \<longleftrightarrow> as_gen s' = as_gen s \<and> as_leases s' = as_leases s \<and> as_nextLease s' = as_nextLease s \<and>
     as_leasesBySession s' = as_leasesBySession s \<and> as_leasesByBearer s' = as_leasesByBearer s \<and> as_leasesByUser s' = as_leasesByUser s \<and>
     as_sessionRevocations s' = as_sessionRevocations s \<and> as_userRevocations s' = as_userRevocations s \<and>
     as_bearerRevocations s' = as_bearerRevocations s"

lemma same_rest_refl [simp]: "same_rest s s"
  by (simp add: same_rest_def)

lemma same_rest_trans: "same_rest a b \<Longrightarrow> same_rest b c \<Longrightarrow> same_rest a c"
  by (simp add: same_rest_def)

definition trims :: "auth_state \<Rightarrow> auth_state \<Rightarrow> bool" where
  "trims s s' \<longleftrightarrow> fewer_entries s s' \<and> same_rest s s'"

lemma trims_refl [simp]: "trims s s"
  by (simp add: trims_def)

lemma trims_trans: "trims a b \<Longrightarrow> trims b c \<Longrightarrow> trims a c"
  unfolding trims_def using fewer_trans same_rest_trans by blast

lemma trims_fold: "(\<And>x s. trims s (f x s)) \<Longrightarrow> trims s (fold f xs s)"
  by (induction xs arbitrary: s) (auto intro: trims_trans)

lemma trims_delete_bearer: "trims s (deleteBearerCacheEntry k s)"
  by (auto simp: trims_def fewer_entries_def same_rest_def deleteBearerCacheEntry_def split: option.splits if_splits)

lemma trims_stale_session: "trims s (deleteStaleSession k c s)"
  by (auto simp: trims_def fewer_entries_def same_rest_def deleteStaleSession_def split: if_splits)

lemma trims_stale_bearer: "trims s (deleteStaleBearer k c s)"
  by (auto simp: trims_def fewer_entries_def same_rest_def deleteStaleBearer_def split: if_splits)

lemma trims_session_at: "trims s (evict_session_at u n k s)"
  by (auto simp: trims_def fewer_entries_def same_rest_def evict_session_at_def split: option.splits if_splits)

lemma trims_bearer_at: "trims s (evict_bearer_at u n k s)"
  by (auto simp: evict_bearer_at_def intro: trims_delete_bearer split: option.splits)

lemma trims_sessions: "trims s (evictSessionsByUserGeneration g u n s)"
  by (auto simp: evictSessionsByUserGeneration_def intro: trims_fold trims_session_at split: option.splits)

lemma trims_bearers: "trims s (evictBearersByUserGeneration g u n s)"
  by (auto simp: evictBearersByUserGeneration_def intro: trims_fold trims_bearer_at split: option.splits)

text \<open>Whole buckets.\<close>

lemma delete_bearers_lookup:
  "fmlookup (as_bearers (fold deleteBearerCacheEntry ks s)) k = (if k \<in> set ks then None else fmlookup (as_bearers s) k)"
proof (induction ks arbitrary: s)
  case (Cons x xs)
  have "fmlookup (as_bearers (deleteBearerCacheEntry x s)) k = (if k = x then None else fmlookup (as_bearers s) k)"
    by (auto simp: deleteBearerCacheEntry_def split: option.splits)
  then show ?case using Cons.IH [of "deleteBearerCacheEntry x s"] by (auto split: if_splits)
qed simp

lemma delete_bucket:
  assumes ok: "cache_ok s" and g: "ranges_ok g"
  shows "trims s (deleteBearerCacheEntries g ref s)" "fmlookup (as_bearers (deleteBearerCacheEntries g ref s)) (ref, h) = None"
proof -
  have "trims s (deleteBearerCacheEntries g ref s) \<and> fmlookup (as_bearers (deleteBearerCacheEntries g ref s)) (ref, h) = None"
  proof (cases "fmlookup (as_bearerKeys s) ref")
    case None
    then have "bucket (as_bearerKeys s) ref = {||}" by (simp add: bucket_def)
    then show ?thesis using None cache_okD(2) [OF ok, of "(ref, h)"] by (cases "fmlookup (as_bearers s) (ref, h)") (auto simp: deleteBearerCacheEntries_def)
  next
    case (Some keys)
    let ?s0 = "s\<lparr>as_bearerKeys := fmdrop ref (as_bearerKeys s)\<rparr>" and ?s' = "deleteBearerCacheEntries g ref s"
    have run: "?s' = fold deleteBearerCacheEntry (rg_keys g keys) ?s0" using Some by (simp add: deleteBearerCacheEntries_def)
    have keys: "set (rg_keys g keys) = fset keys" using g by (simp add: ranges_ok_def)
    have t: "trims ?s0 ?s'" unfolding run by (rule trims_fold) (rule trims_delete_bearer)
    then have f0: "fewer_entries ?s0 ?s'" by (simp add: trims_def)
    have lk: "fmlookup (as_bearers ?s') k = (if k \<in> fset keys then None else fmlookup (as_bearers s) k)" for k
      unfolding run by (simp add: delete_bearers_lookup keys)
    have buck: "bucket (as_bearerKeys s) ref = keys" using Some by (simp add: bucket_def)
    have gone: "fmlookup (as_bearers ?s') k = None" if "fst k = ref" for k
      using lk [of k] cache_okD(2) [OF ok, of k] that buck by (cases "fmlookup (as_bearers s) k") auto
    have "fewer_entries s ?s'"
      unfolding fewer_entries_def
    proof (intro conjI allI impI)
      show "as_gen s \<le> as_gen ?s'" using fewerD(1) [OF f0] by simp
      fix i c assume "fmlookup (as_sessions ?s') i = Some c"
      then show "fmlookup (as_sessions s) i = Some c" "i |\<in>| bucket (as_userSessions s) j \<Longrightarrow> i |\<in>| bucket (as_userSessions ?s') j" for j
        using fewerD(2,3) [OF f0] by simp_all
    next
      fix k c assume k: "fmlookup (as_bearers ?s') k = Some c"
      have out: "\<not> k |\<in>| keys" using k lk [of k] by (auto split: if_splits)
      have b0: "k |\<in>| bucket (as_bearerKeys ?s0) b" if "k |\<in>| bucket (as_bearerKeys s) b" for b
        using that out buck by (cases "b = ref") auto
      show "fmlookup (as_bearers s) k = Some c" using fewerD(4) [OF f0 k] by simp
      show "k |\<in>| bucket (as_bearerKeys ?s') b" if "k |\<in>| bucket (as_bearerKeys s) b" for b using fewerD(5) [OF f0 k b0 [OF that]] .
      show "k |\<in>| bucket (as_userBearerKeys ?s') j" if "k |\<in>| bucket (as_userBearerKeys s) j" for j using fewerD(6) [OF f0 k] that by simp
    qed
    moreover have "same_rest s ?s'" using t by (simp add: trims_def same_rest_def)
    ultimately show ?thesis using gone [of "(ref, h)"] by (simp add: trims_def)
  qed
  then show "trims s (deleteBearerCacheEntries g ref s)" "fmlookup (as_bearers (deleteBearerCacheEntries g ref s)) (ref, h) = None" by blast+
qed

lemma drop_sessions_lookup:
  fixes s :: auth_state
  defines "f \<equiv> \<lambda>i (s :: auth_state). s\<lparr>as_lastTouch := fmdrop i (as_lastTouch s), as_sessions := fmdrop i (as_sessions s)\<rparr>"
  shows "fmlookup (as_sessions (fold f zs s)) i = (if i \<in> set zs then None else fmlookup (as_sessions s) i)"
    "as_userSessions (fold f zs s) = as_userSessions s" "as_bearers (fold f zs s) = as_bearers s" "as_bearerKeys (fold f zs s) = as_bearerKeys s"
    "as_userBearerKeys (fold f zs s) = as_userBearerKeys s" "same_rest s (fold f zs s)"
  by (induction zs arbitrary: s) (simp_all add: f_def same_rest_def)

lemma trims_user_sessions:
  assumes ok: "cache_ok s" and g: "ranges_ok g"
  shows "trims s (evictSessionsByUserID g u s)"
proof (cases "fmlookup (as_userSessions s) u")
  case (Some ids)
  let ?s0 = "s\<lparr>as_userSessions := fmdrop u (as_userSessions s)\<rparr>" and ?s' = "evictSessionsByUserID g u s"
  have run: "?s' = fold (\<lambda>i s. s\<lparr>as_lastTouch := fmdrop i (as_lastTouch s), as_sessions := fmdrop i (as_sessions s)\<rparr>) (rg_ids g ids) ?s0"
    using Some by (simp add: evictSessionsByUserID_def)
  have ids: "set (rg_ids g ids) = fset ids" "bucket (as_userSessions s) u = ids" using g Some by (simp_all add: ranges_ok_def bucket_def)
  note d = drop_sessions_lookup [where s = ?s0 and zs = "rg_ids g ids", folded run]
  have rest: "same_rest s ?s'" using d(6) by (simp add: same_rest_def)
  have "i |\<in>| bucket (as_userSessions ?s') j" if "fmlookup (as_sessions ?s') i = Some c" "i |\<in>| bucket (as_userSessions s) j" for i c j
    using that d(1) [of i] d(2) ids by (cases "j = u") (auto split: if_splits)
  then have "fewer_entries s ?s'" using d(1,3-5) rest by (auto simp: fewer_entries_def same_rest_def split: if_splits)
  then show ?thesis using rest by (simp add: trims_def)
qed (simp add: evictSessionsByUserID_def)

text \<open>What a user-wide revocation leaves: no entry of the user that it should evict.\<close>

lemma trims_lookup:
  assumes "trims s s'"
  shows "fmlookup (as_sessions s') i = Some c \<Longrightarrow> fmlookup (as_sessions s) i = Some c"
    "fmlookup (as_bearers s') k = Some c \<Longrightarrow> fmlookup (as_bearers s) k = Some c"
  using assms fewerD(2,4) unfolding trims_def by blast+

lemma session_at_gone:
  assumes "i \<in> set zs" "fmlookup (as_sessions (fold (evict_session_at u n) zs s)) i = Some c" "uid_Matches (ui_id (ca_user c)) u"
  shows "\<not> ShouldEvictForUserGeneration (au_user_gen (ca_user c)) n"
  using assms
proof (induction zs arbitrary: s)
  case (Cons x xs)
  let ?s1 = "evict_session_at u n x s"
  show ?case
  proof (cases "i \<in> set xs")
    case False
    then have "i = x" using Cons.prems(1) by simp
    moreover have "fmlookup (as_sessions ?s1) i = Some c"
      using trims_lookup(1) [OF trims_fold [where f = "evict_session_at u n" and s = ?s1 and xs = xs, OF trims_session_at]] Cons.prems(2) by simp
    ultimately show ?thesis using Cons.prems(3) by (auto simp: evict_session_at_def split: option.splits if_splits)
  qed (use Cons in simp)
qed simp

lemma bearer_at_gone:
  assumes "k \<in> set ks" "fmlookup (as_bearers (fold (evict_bearer_at u n) ks s)) k = Some c" "uid_Matches (ui_id (ca_user c)) u"
  shows "\<not> ShouldEvictForUserGeneration (au_user_gen (ca_user c)) n"
  using assms
proof (induction ks arbitrary: s)
  case (Cons x xs)
  let ?s1 = "evict_bearer_at u n x s"
  show ?case
  proof (cases "k \<in> set xs")
    case False
    then have "k = x" using Cons.prems(1) by simp
    moreover have "fmlookup (as_bearers ?s1) k = Some c"
      using trims_lookup(2) [OF trims_fold [where f = "evict_bearer_at u n" and s = ?s1 and xs = xs, OF trims_bearer_at]] Cons.prems(2) by simp
    ultimately show ?thesis using Cons.prems(3) by (auto simp: evict_bearer_at_def deleteBearerCacheEntry_def split: option.splits if_splits)
  qed (use Cons in simp)
qed simp

lemma user_evicted:
  fixes n :: int
  assumes ok: "cache_ok s" and g: "ranges_ok g" and u: "u \<noteq> []"
  defines "s' \<equiv> evictBearersByUserGeneration g u n (evictSessionsByUserGeneration g u n s)"
  shows "trims s s'"
    "fmlookup (as_sessions s') i = Some c \<Longrightarrow> uid_id (ui_id (ca_user c)) = u \<Longrightarrow> \<not> ShouldEvictForUserGeneration (au_user_gen (ca_user c)) n"
    "fmlookup (as_bearers s') k = Some c \<Longrightarrow> uid_id (ui_id (ca_user c)) = u \<Longrightarrow> \<not> ShouldEvictForUserGeneration (au_user_gen (ca_user c)) n"
proof -
  let ?s1 = "evictSessionsByUserGeneration g u n s"
  have t1: "trims s ?s1" by (rule trims_sessions)
  have t2: "trims ?s1 s'" unfolding s'_def by (rule trims_bearers)
  show "trims s s'" using trims_trans [OF t1 t2] .
  have ok1: "cache_ok ?s1" using fewer_cache_ok [OF ok] t1 by (simp add: trims_def)
  have match: "uid_Matches (ui_id (ca_user c)) u" if "uid_id (ui_id (ca_user c)) = u" for c using that u by (simp add: uid_Matches_def)
  show "\<not> ShouldEvictForUserGeneration (au_user_gen (ca_user c)) n" if c: "fmlookup (as_sessions s') i = Some c" "uid_id (ui_id (ca_user c)) = u"
  proof -
    have c1: "fmlookup (as_sessions ?s1) i = Some c" using trims_lookup(1) [OF t2 c(1)] .
    then have "i |\<in>| bucket (as_userSessions s) u" using cache_okD(1) [OF ok trims_lookup(1) [OF t1 c1]] c(2) by blast
    then obtain ids where ids: "fmlookup (as_userSessions s) u = Some ids" "i |\<in>| ids" by (auto simp: bucket_mem)
    then have "i \<in> set (rg_ids g ids)" using g by (simp add: ranges_ok_def)
    then show ?thesis using session_at_gone [of i _ u n s c] c1 ids(1) match [OF c(2)] by (simp add: evictSessionsByUserGeneration_def)
  qed
  show "\<not> ShouldEvictForUserGeneration (au_user_gen (ca_user c)) n" if c: "fmlookup (as_bearers s') k = Some c" "uid_id (ui_id (ca_user c)) = u"
  proof -
    have c1: "fmlookup (as_bearers ?s1) k = Some c" using trims_lookup(2) [OF t2 c(1)] .
    then have "k |\<in>| bucket (as_userBearerKeys ?s1) u" using cache_okD(2) [OF ok1 c1] c(2) by blast
    then obtain ks where ks: "fmlookup (as_userBearerKeys ?s1) u = Some ks" "k |\<in>| ks" by (auto simp: bucket_mem)
    then have "k \<in> set (rg_keys g ks)" using g by (simp add: ranges_ok_def)
    then show ?thesis using bearer_at_gone [of k _ u n ?s1 c] c(1) ks(1) match [OF c(2)] by (simp add: s'_def evictBearersByUserGeneration_def)
  qed
qed

section \<open>Removing leases\<close>

lemma lease_okD:
  assumes "lease_ok s" "fmlookup (as_leases s) i = Some l"
  shows "i \<le> as_nextLease s" "au_gen (le_user l) \<le> as_gen s" "i |\<in>| bucket (as_leasesByUser s) (uid_id (ui_id (le_user l)))"
    "SessionID (ui_credential (le_user l)) \<noteq> [] \<Longrightarrow> i |\<in>| bucket (as_leasesBySession s) (SessionID (ui_credential (le_user l)))"
    "BearerRef (ui_credential (le_user l)) = Some b \<Longrightarrow> i |\<in>| bucket (as_leasesByBearer s) b"
    "i |\<in>| bucket (as_leasesBySession s) e \<Longrightarrow> SessionID (ui_credential (le_user l)) = e"
  using assms unfolding lease_ok_def by blast+

lemma lease_okI:
  assumes "\<And>e i. i |\<in>| bucket (as_leasesBySession s) e \<Longrightarrow> i \<le> as_nextLease s"
    "\<And>e i l. i |\<in>| bucket (as_leasesBySession s) e \<Longrightarrow> fmlookup (as_leases s) i = Some l \<Longrightarrow> SessionID (ui_credential (le_user l)) = e"
    "\<And>i l. fmlookup (as_leases s) i = Some l \<Longrightarrow> i \<le> as_nextLease s \<and> au_gen (le_user l) \<le> as_gen s \<and>
     i |\<in>| bucket (as_leasesByUser s) (uid_id (ui_id (le_user l))) \<and>
     (SessionID (ui_credential (le_user l)) \<noteq> [] \<longrightarrow> i |\<in>| bucket (as_leasesBySession s) (SessionID (ui_credential (le_user l)))) \<and>
     (\<forall>b. BearerRef (ui_credential (le_user l)) = Some b \<longrightarrow> i |\<in>| bucket (as_leasesByBearer s) b)"
  shows "lease_ok s"
  using assms unfolding lease_ok_def by blast

lemma lease_ok_index: "lease_ok s \<Longrightarrow> i |\<in>| bucket (as_leasesBySession s) e \<Longrightarrow> i \<le> as_nextLease s"
  unfolding lease_ok_def by blast

text \<open>Everything but the leases.\<close>

definition same_cache :: "auth_state \<Rightarrow> auth_state \<Rightarrow> bool" where
  "same_cache s s' \<longleftrightarrow> as_gen s' = as_gen s \<and> as_sessions s' = as_sessions s \<and> as_userSessions s' = as_userSessions s \<and> as_bearers s' = as_bearers s \<and>
     as_bearerKeys s' = as_bearerKeys s \<and> as_userBearerKeys s' = as_userBearerKeys s \<and> as_sessionRevocations s' = as_sessionRevocations s \<and>
     as_userRevocations s' = as_userRevocations s \<and> as_bearerRevocations s' = as_bearerRevocations s"

lemma same_cache_refl [simp]: "same_cache s s"
  by (simp add: same_cache_def)

lemma same_cache_trans: "same_cache a b \<Longrightarrow> same_cache b c \<Longrightarrow> same_cache a c"
  by (simp add: same_cache_def)

lemma removeLease_eq: "removeLeaseLocked i l s = s\<lparr>as_leases := fmdrop i (as_leases s),
    as_leasesBySession := (if SessionID (ui_credential (le_user l)) \<noteq> [] then removeLeaseIndex (SessionID (ui_credential (le_user l))) i (as_leasesBySession s)
       else as_leasesBySession s),
    as_leasesByBearer := (case BearerRef (ui_credential (le_user l)) of Some b \<Rightarrow> removeLeaseIndex b i (as_leasesByBearer s) | None \<Rightarrow> as_leasesByBearer s),
    as_leasesByUser := removeLeaseIndex (uid_id (ui_id (le_user l))) i (as_leasesByUser s)\<rparr>"
  by (simp add: removeLeaseLocked_def Let_def split: option.splits)

lemma remove_lease:
  assumes "lease_ok s" "fmlookup (as_leases s) i = Some l"
  shows "lease_ok (removeLeaseLocked i l s)" "same_cache s (removeLeaseLocked i l s)" "as_leases (removeLeaseLocked i l s) = fmdrop i (as_leases s)"
proof -
  show "same_cache s (removeLeaseLocked i l s)" "as_leases (removeLeaseLocked i l s) = fmdrop i (as_leases s)"
    by (simp_all add: removeLease_eq same_cache_def)
  have sub: "j |\<in>| bucket (as_leasesBySession s) e" if "j |\<in>| bucket (as_leasesBySession (removeLeaseLocked i l s)) e" for j e
    using that unfolding removeLease_eq by (cases "SessionID (ui_credential (le_user l)) = []"; cases "e = SessionID (ui_credential (le_user l))") simp_all
  show "lease_ok (removeLeaseLocked i l s)"
  proof (rule lease_okI)
    show "j \<le> as_nextLease (removeLeaseLocked i l s)" if "j |\<in>| bucket (as_leasesBySession (removeLeaseLocked i l s)) e" for j e
      using lease_ok_index [OF assms(1) sub [OF that]] by (simp add: removeLease_eq)
    show "SessionID (ui_credential (le_user k)) = e"
      if "j |\<in>| bucket (as_leasesBySession (removeLeaseLocked i l s)) e" "fmlookup (as_leases (removeLeaseLocked i l s)) j = Some k" for j e k
      using lease_okD(6) [OF assms(1) _ sub [OF that(1)]] that(2) by (simp add: removeLease_eq split: if_splits)
  next
    fix j k assume k: "fmlookup (as_leases (removeLeaseLocked i l s)) j = Some k"
    then have "j \<noteq> i" "fmlookup (as_leases s) j = Some k" by (auto simp: removeLease_eq split: if_splits)
    with lease_okD(1-5) [OF assms(1) this(2)]
    show "j \<le> as_nextLease (removeLeaseLocked i l s) \<and> au_gen (le_user k) \<le> as_gen (removeLeaseLocked i l s) \<and>
        j |\<in>| bucket (as_leasesByUser (removeLeaseLocked i l s)) (uid_id (ui_id (le_user k))) \<and>
        (SessionID (ui_credential (le_user k)) \<noteq> [] \<longrightarrow>
           j |\<in>| bucket (as_leasesBySession (removeLeaseLocked i l s)) (SessionID (ui_credential (le_user k)))) \<and>
        (\<forall>b. BearerRef (ui_credential (le_user k)) = Some b \<longrightarrow> j |\<in>| bucket (as_leasesByBearer (removeLeaseLocked i l s)) b)"
      by (auto simp: removeLease_eq split: option.splits)
  qed
qed

lemma remove_leases_spec:
  "lease_ok s \<Longrightarrow> remove_leases p zs s = (ls, s') \<Longrightarrow> lease_ok s' \<and> same_cache s s' \<and>
    (\<forall>i. fmlookup (as_leases s') i = (case fmlookup (as_leases s) i of None \<Rightarrow> None | Some l \<Rightarrow> if i \<in> set zs \<and> p l then None else Some l))"
proof (induction zs arbitrary: s ls)
  case (Cons x xs)
  show ?case
  proof (cases "\<exists>l. fmlookup (as_leases s) x = Some l \<and> p l")
    case True
    then obtain l where l: "fmlookup (as_leases s) x = Some l" "p l" by blast
    obtain ms where ms: "remove_leases p xs (removeLeaseLocked x l s) = (ms, s')" using Cons.prems(2) l by (auto split: prod.splits)
    note r = remove_lease [OF Cons.prems(1) l(1)]
    have ih: "lease_ok s' \<and> same_cache (removeLeaseLocked x l s) s' \<and> (\<forall>i. fmlookup (as_leases s') i =
        (case fmlookup (as_leases (removeLeaseLocked x l s)) i of None \<Rightarrow> None | Some l \<Rightarrow> if i \<in> set xs \<and> p l then None else Some l))"
      using Cons.IH [OF r(1) ms] .
    have "fmlookup (as_leases s') i = (case fmlookup (as_leases s) i of None \<Rightarrow> None | Some l \<Rightarrow> if i \<in> set (x # xs) \<and> p l then None else Some l)" for i
      using ih l r(3) by (cases "i = x") (auto split: option.splits)
    then show ?thesis using ih same_cache_trans [OF r(2)] by blast
  next
    case False
    then have run: "remove_leases p xs s = (ls, s')" using Cons.prems(2) by (auto split: option.splits if_splits)
    have ih: "lease_ok s' \<and> same_cache s s' \<and> (\<forall>i. fmlookup (as_leases s') i =
        (case fmlookup (as_leases s) i of None \<Rightarrow> None | Some l \<Rightarrow> if i \<in> set xs \<and> p l then None else Some l))"
      using Cons.IH [OF Cons.prems(1) run] .
    have "fmlookup (as_leases s') i = (case fmlookup (as_leases s) i of None \<Rightarrow> None | Some l \<Rightarrow> if i \<in> set (x # xs) \<and> p l then None else Some l)" for i
      using ih False by (cases "i = x") (auto split: option.splits)
    then show ?thesis using ih by blast
  qed
qed (auto split: option.splits)

section \<open>Keeping what revocations ruled out\<close>

definition same_user :: "auth_user \<Rightarrow> auth_user \<Rightarrow> bool" where
  "same_user u v \<longleftrightarrow> ui_id v = ui_id u \<and> ui_credential v = ui_credential u \<and> au_gen v = au_gen u \<and> au_user_gen u \<le> au_user_gen v"

lemma same_user_refl [simp]: "same_user u u"
  by (simp add: same_user_def)

lemma same_user_outdated: "same_user u v \<Longrightarrow> outdated v x \<Longrightarrow> outdated u x"
  by (cases x) (auto simp: same_user_def)

definition keeps :: "auth_state \<Rightarrow> auth_state \<Rightarrow> bool" where
  "keeps s s' \<longleftrightarrow> as_gen s \<le> as_gen s' \<and>
     (\<forall>i c. fmlookup (as_sessions s') i = Some c \<longrightarrow> (\<exists>c0. fmlookup (as_sessions s) i = Some c0 \<and> same_user (entry_user c0) (entry_user c))) \<and>
     (\<forall>k c. fmlookup (as_bearers s') k = Some c \<longrightarrow> (\<exists>c0. fmlookup (as_bearers s) k = Some c0 \<and> same_user (entry_user c0) (entry_user c))) \<and>
     (\<forall>i l. fmlookup (as_leases s') i = Some l \<longrightarrow> (\<exists>l0. fmlookup (as_leases s) i = Some l0 \<and> same_user (le_user l0) (le_user l)))"

lemma keepsD:
  assumes "keeps s s'"
  shows "as_gen s \<le> as_gen s'"
    "fmlookup (as_sessions s') i = Some c \<Longrightarrow> \<exists>c0. fmlookup (as_sessions s) i = Some c0 \<and> same_user (entry_user c0) (entry_user c)"
    "fmlookup (as_bearers s') k = Some c \<Longrightarrow> \<exists>c0. fmlookup (as_bearers s) k = Some c0 \<and> same_user (entry_user c0) (entry_user c)"
    "fmlookup (as_leases s') j = Some l \<Longrightarrow> \<exists>l0. fmlookup (as_leases s) j = Some l0 \<and> same_user (le_user l0) (le_user l)"
  using assms unfolding keeps_def by blast+

lemma auth_keeps_trans: "keeps a b \<Longrightarrow> keeps b c \<Longrightarrow> keeps a c"
proof -
  have t: "same_user u v \<Longrightarrow> same_user v w \<Longrightarrow> same_user u w" for u v w by (simp add: same_user_def)
  show "keeps a b \<Longrightarrow> keeps b c \<Longrightarrow> keeps a c" unfolding keeps_def by (meson order.trans t)
qed

lemma keeps_trims: "trims s s' \<Longrightarrow> keeps s s'"
  using trims_lookup [of s s'] unfolding keeps_def by (auto simp: trims_def same_rest_def simp del: split_paired_All split_paired_Ex)

lemma keeps_leases: "same_cache s s' \<Longrightarrow> (\<And>i l. fmlookup (as_leases s') i = Some l \<Longrightarrow> \<exists>l0. fmlookup (as_leases s) i = Some l0 \<and> same_user (le_user l0) (le_user l)) \<Longrightarrow> keeps s s'"
  unfolding keeps_def by (auto simp: same_cache_def simp del: split_paired_All split_paired_Ex)

text \<open>All the parts at once: the invariants hold after the step, and nothing new has come in.\<close>

definition tidy :: "auth_state \<Rightarrow> auth_state \<Rightarrow> bool" where
  "tidy s s' \<longleftrightarrow> (cache_ok s \<and> lease_ok s \<longrightarrow> cache_ok s' \<and> lease_ok s' \<and> keeps s s')"

lemma tidy_refl [simp]: "tidy s s"
  by (simp add: tidy_def keeps_def)

lemma tidy_trans: "tidy a b \<Longrightarrow> tidy b c \<Longrightarrow> tidy a c"
  unfolding tidy_def using auth_keeps_trans by blast

lemma tidy_trims:
  assumes "trims s s'"
  shows "tidy s s'"
proof -
  have "lease_ok s' = lease_ok s" using assms by (simp add: trims_def same_rest_def lease_ok_def)
  then show ?thesis using assms fewer_cache_ok keeps_trims by (auto simp: tidy_def trims_def)
qed

lemma same_cache_ok: "same_cache s s' \<Longrightarrow> cache_ok s' = cache_ok s"
  by (simp add: same_cache_def cache_ok_def)

lemma tidy_remove:
  assumes "remove_leases p zs s = (ls, s')"
  shows "tidy s s'"
proof -
  have "lease_ok s' \<and> same_cache s s' \<and> keeps s s'" if "lease_ok s"
  proof -
    note r = remove_leases_spec [OF that assms]
    have "\<exists>l0. fmlookup (as_leases s) i = Some l0 \<and> same_user (le_user l0) (le_user l)" if "fmlookup (as_leases s') i = Some l" for i l
      using r that by (auto split: option.splits if_splits)
    then show ?thesis using r keeps_leases by blast
  qed
  then show ?thesis using same_cache_ok by (auto simp: tidy_def)
qed

lemma tidy_cong:
  assumes "as_gen s \<le> as_gen s'" "as_sessions s' = as_sessions s" "as_userSessions s' = as_userSessions s" "as_bearers s' = as_bearers s"
    "as_bearerKeys s' = as_bearerKeys s" "as_userBearerKeys s' = as_userBearerKeys s" "as_leases s' = as_leases s" "as_nextLease s' = as_nextLease s"
    "as_leasesBySession s' = as_leasesBySession s" "as_leasesByBearer s' = as_leasesByBearer s" "as_leasesByUser s' = as_leasesByUser s"
  shows "tidy s s'"
proof -
  have "cache_ok s'" if "cache_ok s" using fewer_cache_ok [OF that fewer_cong [of s s']] assms by simp
  moreover have "lease_ok s'" if "lease_ok s"
  proof (rule lease_okI)
    show "i \<le> as_nextLease s'" if "i |\<in>| bucket (as_leasesBySession s') e" for e i using lease_ok_index [OF \<open>lease_ok s\<close>] that by (simp add: assms(7-11))
    show "SessionID (ui_credential (le_user l)) = e" if "i |\<in>| bucket (as_leasesBySession s') e" "fmlookup (as_leases s') i = Some l" for e i l
      using lease_okD(6) [OF \<open>lease_ok s\<close>] that by (simp add: assms(7-11))
    show "i \<le> as_nextLease s' \<and> au_gen (le_user l) \<le> as_gen s' \<and> i |\<in>| bucket (as_leasesByUser s') (uid_id (ui_id (le_user l))) \<and>
       (SessionID (ui_credential (le_user l)) \<noteq> [] \<longrightarrow> i |\<in>| bucket (as_leasesBySession s') (SessionID (ui_credential (le_user l)))) \<and>
       (\<forall>b. BearerRef (ui_credential (le_user l)) = Some b \<longrightarrow> i |\<in>| bucket (as_leasesByBearer s') b)" if "fmlookup (as_leases s') i = Some l" for i l
      using lease_okD [OF \<open>lease_ok s\<close>, of i l] that assms(1) by (simp add: assms(7-11) del: split_paired_All)
  qed
  moreover have "keeps s s'" using assms by (auto simp: keeps_def simp del: split_paired_All split_paired_Ex)
  ultimately show ?thesis by (simp add: tidy_def)
qed

section \<open>The revocations\<close>

definition marks :: "auth_state \<Rightarrow> (ident, mark) fmap \<times> (ident, user_mark) fmap \<times> (bearer_ref, mark) fmap" where
  "marks s = (as_sessionRevocations s, as_userRevocations s, as_bearerRevocations s)"

lemma marks_trims: "trims s s' \<Longrightarrow> marks s' = marks s \<and> as_gen s' = as_gen s"
  by (simp add: trims_def same_rest_def marks_def)

lemma removed_frames:
  assumes "remove_leases p zs s = (ls, s')"
  shows "marks s' = marks s" "as_gen s' = as_gen s" "as_sessions s' = as_sessions s" "as_bearers s' = as_bearers s"
proof -
  have "marks (removeLeaseLocked i l s) = marks s \<and> as_gen (removeLeaseLocked i l s) = as_gen s \<and>
      as_sessions (removeLeaseLocked i l s) = as_sessions s \<and> as_bearers (removeLeaseLocked i l s) = as_bearers s" for i l s
    by (simp add: removeLease_eq marks_def)
  then have "remove_leases p zs s = (ls, s') \<Longrightarrow> marks s' = marks s \<and> as_gen s' = as_gen s \<and> as_sessions s' = as_sessions s \<and> as_bearers s' = as_bearers s"
    by (induction zs arbitrary: s ls) (auto split: option.splits if_splits prod.splits)
  then show "marks s' = marks s" "as_gen s' = as_gen s" "as_sessions s' = as_sessions s" "as_bearers s' = as_bearers s" using assms by simp_all
qed

lemma removed_gone:
  assumes "lease_ok s" "remove_leases p zs s = (ls, s')" "\<And>i l. fmlookup (as_leases s) i = Some l \<Longrightarrow> p l \<Longrightarrow> i \<in> set zs"
    "fmlookup (as_leases s') i = Some l"
  shows "\<not> p l"
  using remove_leases_spec [OF assms(1,2)] assms(3,4) by (auto split: option.splits if_splits)

lemma leases_frames [simp]:
  "as_leases (cancelLeases ls s) = as_leases s" "as_sessions (cancelLeases ls s) = as_sessions s" "as_bearers (cancelLeases ls s) = as_bearers s"
  "as_gen (cancelLeases ls s) = as_gen s" "marks (cancelLeases ls s) = marks s"
  by (simp_all add: cancelLeases_def marks_def)

lemma tidy_cancel: "tidy s (cancelLeases ls s)"
  by (rule tidy_cong) (simp_all add: cancelLeases_def)

lemma tidyD: "tidy s s' \<Longrightarrow> cache_ok s \<Longrightarrow> lease_ok s \<Longrightarrow> cache_ok s' \<and> lease_ok s' \<and> keeps s s'"
  by (simp add: tidy_def)

lemma Evict_spec:
  assumes ok: "cache_ok s" "lease_ok s" and g: "ranges_ok g" and i: "i \<noteq> []"
  shows "tidy s (Evict g now i s)" "as_gen (Evict g now i s) = Suc (as_gen s)"
    "marks (Evict g now i s) = (fmupd i \<lparr>mk_gen = Suc (as_gen s), mk_at = now\<rparr> (as_sessionRevocations s), as_userRevocations s, as_bearerRevocations s)"
    "fmlookup (as_sessions (Evict g now i s)) i = None"
    "fmlookup (as_leases (Evict g now i s)) j = Some l \<Longrightarrow> SessionID (ui_credential (le_user l)) \<noteq> i"
proof -
  define s1 where "s1 = (case fmlookup (as_sessions s) i of None \<Rightarrow> s | Some c \<Rightarrow> deleteStaleSession i c s)"
  define s4 where "s4 = s1\<lparr>as_lastTouch := fmdrop i (as_lastTouch s1), as_gen := Suc (as_gen s1),
     as_sessionRevocations := fmupd i \<lparr>mk_gen = Suc (as_gen s1), mk_at = now\<rparr> (as_sessionRevocations s1)\<rparr>"
  let ?p = "\<lambda>l. MatchesSession (ui_credential (le_user l)) i" and ?zs = "rg_leases g (bucket (as_leasesBySession s4) i)"
  obtain ls s5 where rm: "remove_leases ?p ?zs s4 = (ls, s5)" by fastforce
  have run: "Evict g now i s = cancelLeases ls s5"
    using rm i by (auto simp: Evict_def s1_def s4_def bumpGeneration_def recordRevocation_def removeIndexedLeasesLocked_def deleteStaleSession_def
        split: option.splits)
  have t1: "trims s s1" by (auto simp: s1_def intro: trims_stale_session split: option.splits)
  have t4: "tidy s1 s4" by (rule tidy_cong) (simp_all add: s4_def)
  have t: "tidy s s4" using tidy_trans [OF tidy_trims [OF t1] t4] .
  have ok4: "lease_ok s4" using tidyD [OF t ok] by blast
  show "tidy s (Evict g now i s)" unfolding run by (rule tidy_trans [OF tidy_trans [OF t tidy_remove [OF rm]] tidy_cancel])
  have m1: "as_gen s1 = as_gen s" "as_sessionRevocations s1 = as_sessionRevocations s" "as_userRevocations s1 = as_userRevocations s"
      "as_bearerRevocations s1 = as_bearerRevocations s" using marks_trims [OF t1] by (simp_all add: marks_def)
  show "as_gen (Evict g now i s) = Suc (as_gen s)" using removed_frames(2) [OF rm] m1 by (simp add: run s4_def)
  show "marks (Evict g now i s) = (fmupd i \<lparr>mk_gen = Suc (as_gen s), mk_at = now\<rparr> (as_sessionRevocations s), as_userRevocations s, as_bearerRevocations s)"
    using removed_frames(1) [OF rm] m1 by (simp add: run s4_def marks_def cancelLeases_def)
  show "fmlookup (as_sessions (Evict g now i s)) i = None"
    using removed_frames(3) [OF rm] by (auto simp: run s4_def s1_def deleteStaleSession_def split: option.splits)
  show "SessionID (ui_credential (le_user l)) \<noteq> i" if "fmlookup (as_leases (Evict g now i s)) j = Some l"
  proof -
    have idx: "j \<in> set ?zs" if "fmlookup (as_leases s4) j = Some l" "?p l" for j l
    proof -
      have "SessionID (ui_credential (le_user l)) = i" using that(2) by (simp add: MatchesSession_def SessionID_def)
      then show ?thesis using lease_okD(4) [OF ok4 that(1)] i g by (simp add: ranges_ok_def)
    qed
    have "\<not> ?p l" by (rule removed_gone [OF ok4 rm idx]) (use that in \<open>simp_all add: run\<close>)
    then show ?thesis using i by (auto simp: MatchesSession_def SessionID_def split: if_splits)
  qed
qed

lemma EvictBearer_spec:
  assumes ok: "cache_ok s" "lease_ok s" and g: "ranges_ok g" and b: "bearer_IsValid b"
  shows "tidy s (EvictBearer g now b s)" "as_gen (EvictBearer g now b s) = Suc (as_gen s)"
    "marks (EvictBearer g now b s) = (as_sessionRevocations s, as_userRevocations s, fmupd b \<lparr>mk_gen = Suc (as_gen s), mk_at = now\<rparr> (as_bearerRevocations s))"
    "fmlookup (as_bearers (EvictBearer g now b s)) (b, h) = None"
    "fmlookup (as_leases (EvictBearer g now b s)) j = Some l \<Longrightarrow> BearerRef (ui_credential (le_user l)) \<noteq> Some b"
proof -
  define s1 where "s1 = deleteBearerCacheEntries g b s"
  define s4 where "s4 = s1\<lparr>as_gen := Suc (as_gen s1), as_bearerRevocations := fmupd b \<lparr>mk_gen = Suc (as_gen s1), mk_at = now\<rparr> (as_bearerRevocations s1)\<rparr>"
  let ?p = "\<lambda>l. BearerRef (ui_credential (le_user l)) = Some b" and ?zs = "rg_leases g (bucket (as_leasesByBearer s4) b)"
  obtain ls s5 where rm: "remove_leases ?p ?zs s4 = (ls, s5)" by fastforce
  let ?s6 = "s5\<lparr>as_bearerExpiries := fmdrop b (as_bearerExpiries s5)\<rparr>"
  have run: "EvictBearer g now b s = cancelLeases ls ?s6"
    using rm b by (simp add: EvictBearer_def s1_def s4_def bumpGeneration_def recordBearerRevocation_def removeIndexedLeasesLocked_def Let_def)
  have t1: "trims s s1" unfolding s1_def by (rule delete_bucket [OF ok(1) g])
  have t4: "tidy s1 s4" by (rule tidy_cong) (simp_all add: s4_def)
  have t6: "tidy s5 ?s6" by (rule tidy_cong) simp_all
  have t: "tidy s s4" using tidy_trans [OF tidy_trims [OF t1] t4] .
  have ok4: "lease_ok s4" using tidyD [OF t ok] by blast
  show "tidy s (EvictBearer g now b s)"
    unfolding run by (rule tidy_trans [OF tidy_trans [OF tidy_trans [OF t tidy_remove [OF rm]] t6] tidy_cancel])
  have m1: "as_gen s1 = as_gen s" "as_sessionRevocations s1 = as_sessionRevocations s" "as_userRevocations s1 = as_userRevocations s"
      "as_bearerRevocations s1 = as_bearerRevocations s" using marks_trims [OF t1] by (simp_all add: marks_def)
  show "as_gen (EvictBearer g now b s) = Suc (as_gen s)" using removed_frames(2) [OF rm] m1 by (simp add: run s4_def)
  show "marks (EvictBearer g now b s) = (as_sessionRevocations s, as_userRevocations s, fmupd b \<lparr>mk_gen = Suc (as_gen s), mk_at = now\<rparr> (as_bearerRevocations s))"
    using removed_frames(1) [OF rm] m1 by (simp add: run s4_def marks_def cancelLeases_def)
  show "fmlookup (as_bearers (EvictBearer g now b s)) (b, h) = None"
    using removed_frames(4) [OF rm] delete_bucket(2) [OF ok(1) g, of b h] by (simp add: run s4_def s1_def)
  show "BearerRef (ui_credential (le_user l)) \<noteq> Some b" if "fmlookup (as_leases (EvictBearer g now b s)) j = Some l"
  proof -
    have idx: "j \<in> set ?zs" if "fmlookup (as_leases s4) j = Some l" "?p l" for j l
      using lease_okD(5) [OF ok4 that] g by (simp add: ranges_ok_def)
    show ?thesis by (rule removed_gone [OF ok4 rm idx]) (use that in \<open>simp_all add: run\<close>)
  qed
qed

lemma RevokeUser_spec:
  fixes now n :: int
  assumes ok: "cache_ok s" "lease_ok s" and g: "ranges_ok g" and u: "u \<noteq> []"
  defines "s' \<equiv> RevokeUserAuthContextAtGeneration g now u n s"
  shows "s' = s \<or> tidy s s' \<and> as_gen s' = Suc (as_gen s) \<and>
      marks s' = (as_sessionRevocations s, fmupd u \<lparr>mk_gen = Suc (as_gen s), mk_at = now, mk_user_gen = n\<rparr> (as_userRevocations s), as_bearerRevocations s) \<and>
      (\<forall>k. fmlookup (as_userRevocations s) u = Some k \<longrightarrow> 0 < n \<longrightarrow> mk_user_gen k < n) \<and>
      (\<forall>i c. fmlookup (as_sessions s') i = Some c \<longrightarrow> uid_id (ui_id (ca_user c)) = u \<longrightarrow> 0 < n \<and> n \<le> au_user_gen (ca_user c)) \<and>
      (\<forall>k c. fmlookup (as_bearers s') k = Some c \<longrightarrow> uid_id (ui_id (ca_user c)) = u \<longrightarrow> 0 < n \<and> n \<le> au_user_gen (ca_user c)) \<and>
      (\<forall>i l. fmlookup (as_leases s') i = Some l \<longrightarrow> uid_id (ui_id (le_user l)) = u \<longrightarrow> 0 < n \<and> n \<le> au_user_gen (le_user l))"
proof (cases "\<exists>k. fmlookup (as_userRevocations s) u = Some k \<and> 0 < n \<and> n \<le> mk_user_gen k")
  case True
  then have "s' = s" using u by (auto simp: s'_def RevokeUserAuthContextAtGeneration_def)
  then show ?thesis by simp
next
  case False
  define s2 where "s2 = s\<lparr>as_gen := Suc (as_gen s), as_userRevocations :=
     fmupd u \<lparr>mk_gen = Suc (as_gen s), mk_at = now, mk_user_gen = n\<rparr> (as_userRevocations s)\<rparr>"
  let ?p = "\<lambda>l. uid_Matches (ui_id (le_user l)) u \<and> ShouldEvictForUserGeneration (au_user_gen (le_user l)) n"
  let ?zs = "rg_leases g (bucket (as_leasesByUser s2) u)"
  obtain ls s3 where rm: "remove_leases ?p ?zs s2 = (ls, s3)" by fastforce
  define s4 where "s4 = evictBearersByUserGeneration g u n (evictSessionsByUserGeneration g u n s3)"
  have run: "s' = cancelLeases ls s4"
    unfolding s'_def s4_def using rm u False
    by (auto simp: RevokeUserAuthContextAtGeneration_def s2_def bumpGeneration_def removeIndexedLeasesLocked_def Let_def split: option.splits)
  have t2: "tidy s s2" by (rule tidy_cong) (simp_all add: s2_def)
  have t3: "tidy s s3" using tidy_trans [OF t2 tidy_remove [OF rm]] .
  have ok3: "cache_ok s3" using tidyD [OF t3 ok] by blast
  have ok2: "lease_ok s2" using tidyD [OF t2 ok] by blast
  note e = user_evicted [OF ok3 g u, where n = n, folded s4_def]
  have evict: "\<not> ShouldEvictForUserGeneration x n \<longleftrightarrow> 0 < n \<and> n \<le> x" for x by (auto simp: ShouldEvictForUserGeneration_def)
  have "tidy s s'" unfolding run by (rule tidy_trans [OF tidy_trans [OF t3 tidy_trims [OF e(1)]] tidy_cancel])
  moreover have "as_gen s' = Suc (as_gen s)" "marks s' = (as_sessionRevocations s,
      fmupd u \<lparr>mk_gen = Suc (as_gen s), mk_at = now, mk_user_gen = n\<rparr> (as_userRevocations s), as_bearerRevocations s)"
    using marks_trims [OF e(1)] removed_frames(1,2) [OF rm] by (simp_all add: run) (simp_all add: s2_def marks_def)
  moreover have "0 < n \<and> n \<le> au_user_gen (ca_user c)" if "fmlookup (as_sessions s') i = Some c" "uid_id (ui_id (ca_user c)) = u" for i c
    using e(2) [of i c] that by (simp add: run evict)
  moreover have "0 < n \<and> n \<le> au_user_gen (ca_user c)" if "fmlookup (as_bearers s') k = Some c" "uid_id (ui_id (ca_user c)) = u" for k c
    using e(3) [of k c] that by (simp add: run evict)
  moreover have "0 < n \<and> n \<le> au_user_gen (le_user l)" if l: "fmlookup (as_leases s') i = Some l" "uid_id (ui_id (le_user l)) = u" for i l
  proof -
    have idx: "j \<in> set ?zs" if "fmlookup (as_leases s2) j = Some k" "?p k" for j k
      using lease_okD(3) [OF ok2 that(1)] that(2) g by (simp add: ranges_ok_def uid_Matches_def)
    have "as_leases s4 = as_leases s3" using e(1) by (simp add: trims_def same_rest_def)
    then have "\<not> ?p l" by (intro removed_gone [OF ok2 rm idx]) (use l(1) in \<open>simp_all add: run\<close>)
    then show ?thesis using l(2) u evict [of "au_user_gen (le_user l)"] by (auto simp: uid_Matches_def)
  qed
  ultimately show ?thesis using False by (intro disjI2) (auto simp: not_le simp del: split_paired_All)
qed

section \<open>The other calls\<close>

lemma tidy_lease_upd:
  assumes "fmlookup (as_leases s) i = Some l" "same_user (le_user l) (le_user l')"
  shows "tidy s (s\<lparr>as_leases := fmupd i l' (as_leases s)\<rparr>)"
proof -
  let ?s' = "s\<lparr>as_leases := fmupd i l' (as_leases s)\<rparr>"
  have sc: "same_cache s ?s'" by (simp add: same_cache_def)
  have "\<exists>l0. fmlookup (as_leases s) j = Some l0 \<and> same_user (le_user l0) (le_user k)" if "fmlookup (as_leases ?s') j = Some k" for j k
    using that assms by (auto split: if_splits)
  then have "keeps s ?s'" by (rule keeps_leases [OF sc])
  moreover have "lease_ok ?s'" if "lease_ok s"
    using that assms unfolding lease_ok_def by (auto simp: same_user_def split: if_splits)
  ultimately show ?thesis using same_cache_ok [OF sc] by (simp add: tidy_def)
qed

lemma tidy_fold: "(\<And>x s. tidy s (f x s)) \<Longrightarrow> tidy s (fold f xs s)"
  by (induction xs arbitrary: s) (auto intro: tidy_trans)

lemma marks_fold: "(\<And>x s. marks (f x s) = marks s) \<Longrightarrow> marks (fold f xs s) = marks s"
  by (induction xs arbitrary: s) auto

lemma renew_tidy: "tidy s (renewLeasesLocked g ids d s)" "marks (renewLeasesLocked g ids d s) = marks s"
proof -
  let ?f = "\<lambda>i s. case fmlookup (as_leases s) i of None \<Rightarrow> s | Some l \<Rightarrow> rescheduleLeaseLocked i l d s"
  have "tidy s (?f i s)" for i s
    by (auto simp: rescheduleLeaseLocked_def Let_def same_user_def intro!: tidy_lease_upd split: option.splits)
  moreover have "marks (?f i s) = marks s" for i s by (simp add: rescheduleLeaseLocked_def Let_def marks_def split: option.splits)
  ultimately show "tidy s (renewLeasesLocked g ids d s)" "marks (renewLeasesLocked g ids d s) = marks s"
    unfolding renewLeasesLocked_def using tidy_fold [of ?f] marks_fold [of ?f] by blast+
qed

lemma restamp_tidy: "tidy s (RestampSessionLeaseGeneration g i n s)" "marks (RestampSessionLeaseGeneration g i n s) = marks s"
proof -
  have "tidy s (restamp_lease n i s)" for i s
    by (auto simp: restamp_lease_def same_user_def intro!: tidy_lease_upd split: option.splits)
  moreover have "marks (restamp_lease n i s) = marks s" for i s by (simp add: restamp_lease_def marks_def split: option.splits)
  ultimately show "tidy s (RestampSessionLeaseGeneration g i n s)" "marks (RestampSessionLeaseGeneration g i n s) = marks s"
    unfolding RestampSessionLeaseGeneration_def using tidy_fold [of "restamp_lease n"] marks_fold [of "restamp_lease n"] by simp_all
qed

lemma tidy_session_upd:
  assumes "fmlookup (as_sessions s) i = Some c" "same_user (entry_user c) (entry_user c')"
  shows "tidy s (s\<lparr>as_sessions := fmupd i c' (as_sessions s)\<rparr>)"
proof -
  let ?s' = "s\<lparr>as_sessions := fmupd i c' (as_sessions s)\<rparr>"
  have "cache_ok ?s'" if "cache_ok s"
    unfolding cache_ok_def
  proof (intro conjI allI impI)
    fix j d assume "fmlookup (as_sessions ?s') j = Some d"
    then have "fmlookup (as_sessions s) j = Some d \<or> j = i \<and> d = c'" by (auto split: if_splits)
    then show "j \<noteq> []" "SessionID (ui_credential (ca_user d)) = j" "\<not> uid_IsZero (ui_id (ca_user d))" "ca_gen d \<le> as_gen ?s'"
        "j |\<in>| bucket (as_userSessions ?s') (uid_id (ui_id (ca_user d)))"
      using cache_okD(1) [OF that assms(1)] cache_okD(1) [OF that, of j d] assms(2) by (elim disjE conjE; simp add: same_user_def)+
  next
    fix k d assume "fmlookup (as_bearers ?s') k = Some d"
    then show "bearer_IsValid (fst k)" "BearerRef (ui_credential (ca_user d)) = Some (fst k)" "\<not> uid_IsZero (ui_id (ca_user d))" "ca_gen d \<le> as_gen ?s'"
        "k |\<in>| bucket (as_bearerKeys ?s') (fst k)" "k |\<in>| bucket (as_userBearerKeys ?s') (uid_id (ui_id (ca_user d)))"
      using cache_okD(2) [OF that, of k d] by simp_all
  qed
  moreover have "keeps s ?s'"
    unfolding keeps_def using assms by (auto simp: same_user_def simp del: split_paired_All split_paired_Ex split: if_splits)
  ultimately show ?thesis by (simp add: tidy_def lease_ok_def)
qed

lemma touch_tidy:
  assumes "touchSession g touch now i u s = (out, s')"
  shows "tidy s s'" "marks s' = marks s"
proof -
  let ?e = "DeadlineAt (now + SessionDuration)"
  define s1 where "s1 = s\<lparr>as_lastTouch := fmupd i now (as_lastTouch s)\<rparr>"
  define s2 where "s2 = (case fmlookup (as_sessions s1) i of None \<Rightarrow> s1
     | Some c \<Rightarrow> s1\<lparr>as_sessions := fmupd i (c\<lparr>ca_user := (cloneUserInfoWithGeneration (ca_user c) (ca_gen c))\<lparr>au_expires := ?e\<rparr>\<rparr>) (as_sessions s1)\<rparr>)"
  have cases: "s' = s \<or> s' = s1 \<or> s' = renewLeasesLocked g (bucket (as_leasesBySession s2) i) ?e s2"
    using assms by (auto simp: touchSession_def Let_def s2_def s1_def split: if_splits option.splits)
  have t1: "tidy s s1" by (rule tidy_cong) (simp_all add: s1_def)
  have t2: "tidy s1 s2"
  proof (cases "fmlookup (as_sessions s1) i")
    case (Some c)
    show ?thesis unfolding s2_def Some option.case
      by (rule tidy_session_upd [OF Some]) (simp_all add: same_user_def cloneUserInfoWithGeneration_def)
  qed (simp add: s2_def)
  show "tidy s s'" using cases t1 tidy_trans [OF t1 tidy_trans [OF t2 renew_tidy(1)]] by auto
  show "marks s' = marks s" using cases renew_tidy(2) by (auto simp: s2_def s1_def marks_def split: option.splits)
qed

text \<open>The calls that revoke nothing and hand out nothing.\<close>

inductive quiet_call :: "int \<Rightarrow> auth_state \<Rightarrow> auth_state \<Rightarrow> bool" for now :: int where
  "ranges_ok g \<Longrightarrow> quiet_call now s (InvalidateBearer g now b s)"
| "ranges_ok g \<Longrightarrow> quiet_call now s (EvictByUserID g now u s)"
| "quiet_call now s (snd (touchSession g touch now i v s))"
| "quiet_call now s (sweepCachesOnce g now s)"
| "quiet_call now s (RecordBearerExpiry b d s)"
| "quiet_call now s (RenewBearerLeases g b d s)"
| "quiet_call now s (RestampSessionLeaseGeneration g i n s)"
| "quiet_call now s (expireLease j e s)"
| "quiet_call now s (releaseLease j s)"
| "quiet_call now s (auth_Stop g s)"
| "quiet_call now s (deleteStaleSession i c s)"
| "quiet_call now s (deleteStaleBearer k c s)"

fun rev_gen :: "revocation \<Rightarrow> nat" where
  "rev_gen (RevSession _ n) = n" | "rev_gen (RevBearer _ n) = n" | "rev_gen (RevUser _ n _) = n"

definition marks_kept :: "int \<Rightarrow> auth_state \<Rightarrow> auth_state \<Rightarrow> bool" where
  "marks_kept now s s' \<longleftrightarrow> (\<forall>x t. now - SessionDuration \<le> t \<longrightarrow> t \<le> now \<longrightarrow> rev_gen x \<le> as_gen s \<longrightarrow> marked s x t \<longrightarrow> marked s' x t)"

lemma marks_kept_same: "marks s' = marks s \<Longrightarrow> marks_kept now s s'"
proof -
  assume a: "marks s' = marks s"
  have "marked s x t = marked s' x t" for x t using a by (cases x) (simp_all add: marks_def)
  then show ?thesis by (simp add: marks_kept_def)
qed

lemma tidy_one_lease: "tidy s (case fmlookup (as_leases s) j of None \<Rightarrow> s | Some l \<Rightarrow> removeLeaseLocked j l s)"
proof (cases "fmlookup (as_leases s) j")
  case (Some l)
  then have run: "remove_leases (\<lambda>_. True) [j] s = ([l], removeLeaseLocked j l s)" by simp
  show ?thesis unfolding Some option.case by (rule tidy_remove [OF run])
qed simp

lemma sweep_marked: "fmlookup m i = Some k \<Longrightarrow> c \<le> t \<Longrightarrow> t \<le> mk_at k \<Longrightarrow> fmlookup (sweepRevocationMarks c m) i = Some k"
  by (simp add: sweepRevocationMarks_def)

lemma sweep_spec: "tidy s (sweepCachesOnce g now s)" "marks_kept now s (sweepCachesOnce g now s)"
proof -
  let ?s' = "sweepCachesOnce g now s" and ?w = "\<lambda>m. sweepRevocationMarks (now - SessionDuration) m"
  define s1 where "s1 = s\<lparr>as_lastTouch := fmfilter (\<lambda>k. case fmlookup (as_lastTouch s) k of None \<Rightarrow> True | Some t \<Rightarrow> \<not> t < now - SessionDuration) (as_lastTouch s)\<rparr>"
  define s2 where "s2 = s1\<lparr>as_bearerExpiries := fmfilter (\<lambda>k. case fmlookup (as_bearerExpiries s1) k of None \<Rightarrow> True
                 | Some d \<Rightarrow> (case deadline_At d of None \<Rightarrow> True | Some t \<Rightarrow> \<not> t < now)) (as_bearerExpiries s1)\<rparr>"
  let ?f = "\<lambda>k s. case fmlookup (as_sessions s2) k of None \<Rightarrow> s | Some c \<Rightarrow> if now - ca_at c > sessionCacheTTL then deleteStaleSession k c s else s"
  let ?h = "\<lambda>k s. case fmlookup (as_bearers s2) k of None \<Rightarrow> s | Some c \<Rightarrow> if now - ca_at c > sessionCacheTTL then deleteStaleBearer k c s else s"
  define s4 where "s4 = fold ?h (rg_keys g (fmdom (as_bearers s2))) (fold ?f (rg_ids g (fmdom (as_sessions s2))) s2)"
  have run: "?s' = s4\<lparr>as_sessionRevocations := ?w (as_sessionRevocations s4), as_userRevocations := ?w (as_userRevocations s4),
      as_userInvalidations := ?w (as_userInvalidations s4), as_bearerRevocations := ?w (as_bearerRevocations s4),
      as_bearerInvalidations := ?w (as_bearerInvalidations s4)\<rparr>"
    by (simp only: sweepCachesOnce_def Let_def s4_def s2_def s1_def)
  have t2: "tidy s s2" by (rule tidy_cong) (simp_all add: s2_def s1_def)
  have "trims x (?f k x)" "trims x (?h j x)" for k j x by (auto intro: trims_stale_session trims_stale_bearer split: option.splits)
  then have t: "trims s2 s4" unfolding s4_def using trims_trans [OF trims_fold [of ?f] trims_fold [of ?h]] by blast
  have "tidy s4 ?s'" by (rule tidy_cong) (simp_all add: run)
  then show "tidy s ?s'" using tidy_trans [OF tidy_trans [OF t2 tidy_trims [OF t]]] by blast
  have "marks s4 = marks s" using marks_trims [OF t] by (simp add: s2_def s1_def marks_def)
  then have m: "as_sessionRevocations s4 = as_sessionRevocations s" "as_userRevocations s4 = as_userRevocations s"
      "as_bearerRevocations s4 = as_bearerRevocations s" by (simp_all add: marks_def)
  have "marked ?s' x t" if cut: "now - SessionDuration \<le> t" and mk: "marked s x t" for x t
  proof (cases x)
    case (RevSession i n)
    then obtain k where "fmlookup (as_sessionRevocations s) i = Some k" "n \<le> mk_gen k" "t \<le> mk_at k" using mk by auto
    with sweep_marked [OF this(1) cut this(3)] show ?thesis by (simp add: run m RevSession)
  next
    case (RevBearer b n)
    then obtain k where "fmlookup (as_bearerRevocations s) b = Some k" "n \<le> mk_gen k" "t \<le> mk_at k" using mk by auto
    with sweep_marked [OF this(1) cut this(3)] show ?thesis by (simp add: run m RevBearer)
  next
    case (RevUser i n v)
    have "marked s (RevUser i n v) t" using mk unfolding RevUser .
    then obtain k where "fmlookup (as_userRevocations s) i = Some k" "t \<le> mk_at k"
        "if 0 < mk_user_gen k then 0 < v \<and> v \<le> mk_user_gen k else n \<le> mk_gen k" unfolding marked.simps by blast
    with sweep_marked [OF this(1) cut this(2)] show ?thesis by (simp add: run m RevUser)
  qed
  then show "marks_kept now s ?s'" by (simp add: marks_kept_def)
qed

lemma quiet_spec:
  assumes "quiet_call now s s'" "cache_ok s" "lease_ok s"
  shows "tidy s s' \<and> marks_kept now s s'"
  using assms
proof (induction rule: quiet_call.induct)
  case (1 g s b)
  let ?s1 = "deleteBearerCacheEntries g b s"
  have t1: "trims s ?s1" by (rule delete_bucket [OF 1(2,1)])
  have "tidy ?s1 (InvalidateBearer g now b s) \<and> marks (InvalidateBearer g now b s) = marks ?s1 \<or> InvalidateBearer g now b s = s"
    by (auto simp: InvalidateBearer_def bumpGeneration_def marks_def intro: tidy_cong)
  then show ?case using tidy_trans [OF tidy_trims [OF t1]] marks_trims [OF t1] marks_kept_same by (auto simp: marks_kept_def)
next
  case (2 g s u)
  define s1 where "s1 = s\<lparr>as_gen := Suc (as_gen s), as_userInvalidations := recordRevocation now u (Suc (as_gen s)) (as_userInvalidations s)\<rparr>"
  have t1: "tidy s s1" by (rule tidy_cong) (simp_all add: s1_def)
  have ok1: "cache_ok s1" using tidyD [OF t1 2(2,3)] by blast
  have t: "trims s1 (evictBearersByUserGeneration g u 0 (evictSessionsByUserID g u s1))"
    by (rule trims_trans [OF trims_user_sessions [OF ok1 2(1)] trims_bearers])
  have "EvictByUserID g now u s = s \<or> EvictByUserID g now u s = evictBearersByUserGeneration g u 0 (evictSessionsByUserID g u s1)"
    by (simp add: EvictByUserID_def bumpGeneration_def s1_def)
  moreover have "marks s1 = marks s" by (simp add: s1_def marks_def)
  ultimately show ?case using tidy_trans [OF t1 tidy_trims [OF t]] marks_trims [OF t] marks_kept_same by (auto simp: marks_kept_def)
next
  case (3 s g touch i v)
  then show ?case using touch_tidy [of g touch now i v s] marks_kept_same by (cases "touchSession g touch now i v s") auto
next
  case (4 s g)
  then show ?case using sweep_spec by blast
next
  case (5 s b d)
  have "tidy s (RecordBearerExpiry b d s)" by (rule tidy_cong) (simp_all add: RecordBearerExpiry_def Let_def split: option.splits)
  moreover have "marks (RecordBearerExpiry b d s) = marks s" by (simp add: RecordBearerExpiry_def Let_def marks_def split: option.splits)
  ultimately show ?case using marks_kept_same by blast
next
  case (6 s g b d)
  then show ?case using renew_tidy marks_kept_same by (auto simp: RenewBearerLeases_def marks_kept_def)
next
  case (7 s g i n)
  then show ?case using restamp_tidy marks_kept_same by blast
next
  case (8 s j e)
  have "expireLease j e s = s \<or> (\<exists>l. expireLease j e s = cancelLeases [l] (releaseLease j s))"
    by (auto simp: expireLease_def releaseLease_def split: option.splits)
  moreover have "tidy s (releaseLease j s)" "marks (releaseLease j s) = marks s"
    using tidy_one_lease by (auto simp: releaseLease_def removeLease_eq marks_def split: option.splits)
  ultimately show ?case using tidy_trans [OF _ tidy_cancel] marks_kept_same by (auto simp: marks_kept_def)
next
  case (9 s j)
  have "tidy s (releaseLease j s)" "marks (releaseLease j s) = marks s"
    using tidy_one_lease by (auto simp: releaseLease_def removeLease_eq marks_def split: option.splits)
  then show ?case using marks_kept_same by blast
next
  case (10 s g)
  obtain ls s1 where rm: "remove_leases (\<lambda>_. True) (rg_leases g (fmdom (as_leases s))) s = (ls, s1)" by fastforce
  have "auth_Stop g s = cancelLeases ls s1" using rm by (simp add: auth_Stop_def removeAllLeasesLocked_def)
  then show ?case using tidy_trans [OF tidy_remove [OF rm] tidy_cancel] removed_frames(1) [OF rm] marks_kept_same by simp
next
  case (11 s i c)
  then show ?case using tidy_trims [OF trims_stale_session] marks_trims [OF trims_stale_session] marks_kept_same by blast
next
  case (12 s k c)
  then show ?case using tidy_trims [OF trims_stale_bearer] marks_trims [OF trims_stale_bearer] marks_kept_same by blast
qed

end
