(* ===== verification/AuthHub.thy ===== *)
theory AuthHub
  imports AuthLaws "HOL-Library.Product_Lexorder"
begin

text \<open>
  Histories of the authentication state, in which validations race revocations, and the effects of a
  credential's lifecycle on leases and channels together.
\<close>

section \<open>Histories\<close>

text \<open>
  Calls in any order as time passes. A validation is two steps, since it reads the store without the
  lock: it notes the generation when it begins and publishes its result later. A cache hit counts at the
  moment it loads the entry. Neither a validation nor the request that was handed an identity lasts
  longer than the session duration. A revocation of a user may name any generation, also none
  (zero or negative, the fail-safe form).
\<close>

inductive auth_reachable :: "int \<Rightarrow> auth_world \<Rightarrow> bool" where
  start: "auth_reachable now \<lparr>aw_state = new_auth, aw_log = [], aw_flights = [], aw_users = []\<rparr>"
| wait: "auth_reachable t w \<Longrightarrow> t \<le> now \<Longrightarrow> auth_reachable now w"
| quiet: "auth_reachable now w \<Longrightarrow> quiet_call now (aw_state w) s' \<Longrightarrow> auth_reachable now (w\<lparr>aw_state := s'\<rparr>)"
| revoke_session: "auth_reachable now w \<Longrightarrow> ranges_ok g \<Longrightarrow> i \<noteq> [] \<Longrightarrow>
    auth_reachable now (w\<lparr>aw_state := Evict g now i (aw_state w), aw_log := (RevSession i (Suc (as_gen (aw_state w))), now) # aw_log w\<rparr>)"
| revoke_bearer: "auth_reachable now w \<Longrightarrow> ranges_ok g \<Longrightarrow> bearer_IsValid b \<Longrightarrow>
    auth_reachable now (w\<lparr>aw_state := EvictBearer g now b (aw_state w), aw_log := (RevBearer b (Suc (as_gen (aw_state w))), now) # aw_log w\<rparr>)"
| revoke_user: "auth_reachable now w \<Longrightarrow> ranges_ok g \<Longrightarrow> u \<noteq> [] \<Longrightarrow> s' = RevokeUserAuthContextAtGeneration g now u n (aw_state w) \<Longrightarrow>
    auth_reachable now (w\<lparr>aw_state := s',
      aw_log := (if s' = aw_state w then aw_log w else (RevUser u (Suc (as_gen (aw_state w))) n, now) # aw_log w)\<rparr>)"
| begin_validation: "auth_reachable now w \<Longrightarrow> auth_reachable now (w\<lparr>aw_flights := (tg, as_gen (aw_state w), now) # aw_flights w\<rparr>)"
| session_validated: "auth_reachable now w \<Longrightarrow> (ForSession i, n, t0) \<in> set (aw_flights w) \<Longrightarrow> now - t0 \<le> SessionDuration \<Longrightarrow> i \<noteq> [] \<Longrightarrow>
    SessionID (ui_credential u) = i \<Longrightarrow> \<not> uid_IsZero (ui_id u) \<Longrightarrow> publish_session now i u n (aw_state w) = (Published v, s') \<Longrightarrow>
    auth_reachable now (w\<lparr>aw_state := s', aw_users := (v, now) # aw_users w\<rparr>)"
| bearer_validated: "auth_reachable now w \<Longrightarrow> (ForBearer k, n, t0) \<in> set (aw_flights w) \<Longrightarrow> now - t0 \<le> SessionDuration \<Longrightarrow> bearer_IsValid (fst k) \<Longrightarrow>
    BearerRef (ui_credential u) = Some (fst k) \<Longrightarrow> \<not> uid_IsZero (ui_id u) \<Longrightarrow> publish_bearer now k u n (aw_state w) = (Published v, s') \<Longrightarrow>
    auth_reachable now (w\<lparr>aw_state := s', aw_users := (v, now) # aw_users w\<rparr>)"
| session_hit: "auth_reachable now w \<Longrightarrow> fmlookup (as_sessions (aw_state w)) i = Some c \<Longrightarrow> sessionCacheFresh now i c (aw_state w) \<Longrightarrow>
    auth_reachable now (w\<lparr>aw_users := (cloneUserInfoWithGeneration (ca_user c) (ca_gen c), now) # aw_users w\<rparr>)"
| bearer_hit: "auth_reachable now w \<Longrightarrow> fmlookup (as_bearers (aw_state w)) k = Some c \<Longrightarrow> bearerCacheFresh now k c (aw_state w) \<Longrightarrow>
    auth_reachable now (w\<lparr>aw_users := (cloneUserInfoWithGeneration (ca_user c) (ca_gen c), now) # aw_users w\<rparr>)"
| solo: "auth_reachable now w \<Longrightarrow> auth_reachable now (w\<lparr>aw_users := (currentSyntheticUser u (aw_state w), now) # aw_users w\<rparr>)"
| lease: "auth_reachable now w \<Longrightarrow> (u, t0) \<in> set (aw_users w) \<Longrightarrow> now - t0 \<le> SessionDuration \<Longrightarrow>
    auth_reachable now (w\<lparr>aw_state := snd (RegisterAuthenticatedLease now d (u\<lparr>au_expires := e\<rparr>) cancel (aw_state w))\<rparr>)"

fun rev_named :: "revocation \<Rightarrow> bool" where
  "rev_named (RevSession i _) \<longleftrightarrow> i \<noteq> []" | "rev_named (RevBearer b _) \<longleftrightarrow> bearer_IsValid b" | "rev_named (RevUser i _ _) \<longleftrightarrow> i \<noteq> []"

lemma outdated_gen: "outdated u x \<Longrightarrow> au_gen u < rev_gen x"
  by (cases x) auto

definition log_ok :: "int \<Rightarrow> auth_state \<Rightarrow> (revocation \<times> int) list \<Rightarrow> bool" where
  "log_ok now s revs \<longleftrightarrow> (\<forall>(x, t) \<in> set revs. t \<le> now \<and> rev_gen x \<le> as_gen s \<and> rev_named x \<and> (now - SessionDuration \<le> t \<longrightarrow> marked s x t))"

definition clean_of :: "auth_state \<Rightarrow> revocation \<Rightarrow> bool" where
  "clean_of s x \<longleftrightarrow> (\<forall>i c. fmlookup (as_sessions s) i = Some c \<longrightarrow> \<not> outdated (entry_user c) x) \<and>
     (\<forall>k c. fmlookup (as_bearers s) k = Some c \<longrightarrow> \<not> outdated (entry_user c) x) \<and>
     (\<forall>i l. fmlookup (as_leases s) i = Some l \<longrightarrow> \<not> outdated (le_user l) x)"

definition state_clean :: "auth_state \<Rightarrow> (revocation \<times> int) list \<Rightarrow> bool" where
  "state_clean s revs \<longleftrightarrow> (\<forall>(x, t) \<in> set revs. clean_of s x)"

text \<open>Nothing was handed out after a revocation that rules it out.\<close>

definition users_clean :: "(auth_user \<times> int) list \<Rightarrow> (revocation \<times> int) list \<Rightarrow> bool" where
  "users_clean us revs \<longleftrightarrow> (\<forall>(u, t0) \<in> set us. \<forall>(x, t) \<in> set revs. outdated u x \<longrightarrow> t0 \<le> t)"

definition flights_ok :: "nat \<Rightarrow> (target \<times> nat \<times> int) list \<Rightarrow> (revocation \<times> int) list \<Rightarrow> bool" where
  "flights_ok top_gen fs revs \<longleftrightarrow> (\<forall>(tg, n, t0) \<in> set fs. n \<le> top_gen \<and> (\<forall>(x, t) \<in> set revs. n < rev_gen x \<longrightarrow> t0 \<le> t))"

definition auth_ok :: "int \<Rightarrow> auth_world \<Rightarrow> bool" where
  "auth_ok now w \<longleftrightarrow> cache_ok (aw_state w) \<and> lease_ok (aw_state w) \<and> log_ok now (aw_state w) (aw_log w) \<and> state_clean (aw_state w) (aw_log w) \<and>
     users_clean (aw_users w) (aw_log w) \<and> flights_ok (as_gen (aw_state w)) (aw_flights w) (aw_log w) \<and>
     (\<forall>(u, t0) \<in> set (aw_users w). au_gen u \<le> as_gen (aw_state w) \<and> t0 \<le> now) \<and> (\<forall>(tg, n, t0) \<in> set (aw_flights w). t0 \<le> now)"

section \<open>Every step keeps it\<close>

lemma clean_of_keeps:
  assumes "clean_of s x" "keeps s s'"
  shows "clean_of s' x"
  unfolding clean_of_def
proof (intro conjI allI impI)
  show "\<not> outdated (entry_user c) x" if "fmlookup (as_sessions s') i = Some c" for i c
    using keepsD(2) [OF assms(2) that] assms(1) same_user_outdated unfolding clean_of_def by blast
  show "\<not> outdated (entry_user c) x" if "fmlookup (as_bearers s') k = Some c" for k c
    using keepsD(3) [OF assms(2) that] assms(1) same_user_outdated unfolding clean_of_def by blast
  show "\<not> outdated (le_user l) x" if "fmlookup (as_leases s') i = Some l" for i l
    using keepsD(4) [OF assms(2) that] assms(1) same_user_outdated unfolding clean_of_def by blast
qed

lemma clean_keeps: "state_clean s revs \<Longrightarrow> keeps s s' \<Longrightarrow> state_clean s' revs"
  using clean_of_keeps by (auto simp: state_clean_def)

text \<open>The marks of a list of revocations survive a step.\<close>

definition keeps_marks_of :: "(revocation \<times> int) list \<Rightarrow> int \<Rightarrow> auth_state \<Rightarrow> auth_state \<Rightarrow> bool" where
  "keeps_marks_of revs now s s' \<longleftrightarrow> (\<forall>(x, t) \<in> set revs. now - SessionDuration \<le> t \<longrightarrow> t \<le> now \<longrightarrow> rev_gen x \<le> as_gen s \<longrightarrow> marked s x t \<longrightarrow> marked s' x t)"

lemma marks_kept_of: "marks_kept now s s' \<Longrightarrow> keeps_marks_of revs now s s'"
  by (auto simp: marks_kept_def keeps_marks_of_def)

lemma log_keep:
  assumes "log_ok now s revs" "as_gen s \<le> as_gen s'" "keeps_marks_of revs now s s'"
  shows "log_ok now s' revs"
proof -
  have "t \<le> now \<and> rev_gen x \<le> as_gen s' \<and> rev_named x \<and> (now - SessionDuration \<le> t \<longrightarrow> marked s' x t)" if x: "(x, t) \<in> set revs" for x t
  proof -
    have "t \<le> now" "rev_gen x \<le> as_gen s" "rev_named x" "now - SessionDuration \<le> t \<Longrightarrow> marked s x t" using assms(1) x by (auto simp: log_ok_def)
    then show ?thesis using assms(2,3) x by (fastforce simp: keeps_marks_of_def)
  qed
  then show ?thesis by (auto simp: log_ok_def)
qed

lemma auth_tidy:
  assumes ok: "auth_ok now w" and t: "tidy (aw_state w) s'" and m: "keeps_marks_of (aw_log w) now (aw_state w) s'"
  shows "auth_ok now (w\<lparr>aw_state := s'\<rparr>)"
proof -
  have k: "cache_ok s'" "lease_ok s'" "keeps (aw_state w) s'" using ok tidyD [OF t] by (auto simp: auth_ok_def)
  have g: "as_gen (aw_state w) \<le> as_gen s'" using keepsD(1) [OF k(3)] .
  have "flights_ok (as_gen s') (aw_flights w) (aw_log w)" using ok g by (fastforce simp: auth_ok_def flights_ok_def)
  moreover have "\<forall>(u, t0) \<in> set (aw_users w). au_gen u \<le> as_gen s' \<and> t0 \<le> now" using ok g by (fastforce simp: auth_ok_def)
  ultimately show ?thesis using ok k clean_keeps [OF _ k(3)] log_keep [OF _ g m] by (simp add: auth_ok_def)
qed

lemma auth_revoke:
  assumes ok: "auth_ok now w" and t: "tidy (aw_state w) s'" and m: "keeps_marks_of (aw_log w) now (aw_state w) s'" and x: "rev_gen x = as_gen s'" "rev_named x" "marked s' x now"
    and clean: "clean_of s' x"
  shows "auth_ok now (w\<lparr>aw_state := s', aw_log := (x, now) # aw_log w\<rparr>)"
proof -
  have o: "auth_ok now (w\<lparr>aw_state := s'\<rparr>)" by (rule auth_tidy [OF ok t m])
  have "state_clean s' ((x, now) # aw_log w)" using o clean by (simp add: auth_ok_def state_clean_def)
  moreover have "log_ok now s' ((x, now) # aw_log w)" using o x by (simp add: auth_ok_def log_ok_def)
  moreover have "users_clean (aw_users w) ((x, now) # aw_log w)" using o by (auto simp: auth_ok_def users_clean_def)
  moreover have "flights_ok (as_gen s') (aw_flights w) ((x, now) # aw_log w)" using o by (auto simp: auth_ok_def flights_ok_def)
  ultimately show ?thesis using o by (simp add: auth_ok_def)
qed

text \<open>The revocations that no later one weakens, newest first.\<close>

fun live_log :: "(revocation \<times> int) list \<Rightarrow> (revocation \<times> int) list" where
  "live_log [] = []"
| "live_log ((x, t) # revs) = (x, t) # filter (\<lambda>(y, _). \<not> weakens x y) (live_log revs)"

lemma live_log_mem: "\<forall>(y, _) \<in> set later. \<not> weakens y x \<Longrightarrow> (x, t) \<in> set (live_log (later @ (x, t) # earlier))"
  by (induction later) auto

lemma auth_shrink: "auth_ok now w \<Longrightarrow> set revs \<subseteq> set (aw_log w) \<Longrightarrow> auth_ok now (w\<lparr>aw_log := revs\<rparr>)"
  by (fastforce simp: auth_ok_def log_ok_def state_clean_def users_clean_def flights_ok_def)

text \<open>A mark stops what a recent revocation rules out.\<close>

lemma marked_session: "marked s (RevSession i n) t \<Longrightarrow> i \<noteq> [] \<Longrightarrow> m < n \<Longrightarrow> revokedAfter (as_sessionRevocations s) i m"
  by (auto simp: revokedAfter_def revocationMarkAfter_def)

lemma marked_bearer: "marked s (RevBearer b n) t \<Longrightarrow> bearer_IsValid b \<Longrightarrow> m < n \<Longrightarrow> bearerRevokedAfter (as_bearerRevocations s) b m"
  by (auto simp: bearerRevokedAfter_def revocationMarkAfter_def)

lemma marked_user: "marked s (RevUser i n g) t \<Longrightarrow> uid_id (ui_id u) = i \<Longrightarrow> i \<noteq> [] \<Longrightarrow> 0 < g \<longrightarrow> au_user_gen u < g \<Longrightarrow> m < n \<Longrightarrow>
    userRevokedAfter (as_userRevocations s) u m"
  by (auto simp: userRevokedAfter_def uid_IsZero_def split: if_splits)

lemma session_not_bearer: "SessionID c \<noteq> [] \<Longrightarrow> BearerRef c = None"
  by (auto simp: SessionID_def BearerRef_def Bearer_def split: if_splits credential_kind.splits)

lemma recent_marked:
  assumes "log_ok now s revs" "(x, t) \<in> set revs" "t0 \<le> t" "now - t0 \<le> SessionDuration"
  shows "marked s x t" "rev_named x"
  using assms unfolding log_ok_def by fastforce+

lemma flight_recent:
  assumes "auth_ok now w" "(tg, n, t0) \<in> set (aw_flights w)" "now - t0 \<le> SessionDuration" "(x, t) \<in> set (aw_log w)" "n < rev_gen x"
  shows "marked (aw_state w) x t" "rev_named x"
proof -
  have "t0 \<le> t" using assms(1,2,4,5) by (fastforce simp: auth_ok_def flights_ok_def)
  then show "marked (aw_state w) x t" "rev_named x" using recent_marked [of now "aw_state w" "aw_log w" x t t0] assms(1,3,4) by (auto simp: auth_ok_def)
qed

lemma session_validated_clean:
  assumes ok: "auth_ok now w" and fl: "(ForSession i, n, t0) \<in> set (aw_flights w)" "now - t0 \<le> SessionDuration" and i: "i \<noteq> []"
    and u: "SessionID (ui_credential u) = i" and live: "\<not> sessionRevoked i u n (aw_state w)" and x: "(x, t) \<in> set (aw_log w)"
  shows "\<not> outdated (u\<lparr>au_gen := n\<rparr>) x"
proof
  assume out: "outdated (u\<lparr>au_gen := n\<rparr>) x"
  then have "n < rev_gen x" using outdated_gen by fastforce
  note m = flight_recent [OF ok fl x this]
  show False
  proof (cases x)
    case (RevSession j k)
    then show False using out live u i m marked_session [of "aw_state w" j k t n] by (auto simp: sessionRevoked_def)
  next
    case (RevBearer b k)
    then show False using out u i session_not_bearer [of "ui_credential u"] by auto
  next
    case (RevUser j k v)
    then show False using out live m marked_user [of "aw_state w" j k v t u n] by (auto simp: sessionRevoked_def)
  qed
qed

lemma bearer_validated_clean:
  assumes ok: "auth_ok now w" and fl: "(ForBearer k, n, t0) \<in> set (aw_flights w)" "now - t0 \<le> SessionDuration" and k: "bearer_IsValid (fst k)"
    and u: "BearerRef (ui_credential u) = Some (fst k)" and live: "\<not> bearerRevoked k u n (aw_state w)" and x: "(x, t) \<in> set (aw_log w)"
  shows "\<not> outdated (u\<lparr>au_gen := n\<rparr>) x"
proof
  assume out: "outdated (u\<lparr>au_gen := n\<rparr>) x"
  then have "n < rev_gen x" using outdated_gen by fastforce
  note m = flight_recent [OF ok fl x this]
  show False
  proof (cases x)
    case (RevSession j q)
    then show False using out u m session_not_bearer [of "ui_credential u"] by auto
  next
    case (RevBearer b q)
    then show False using out live u k m marked_bearer [of "aw_state w" b q t n] by (auto simp: bearerRevoked_def)
  next
    case (RevUser j q v)
    then show False using out live m marked_user [of "aw_state w" j q v t u n] by (auto simp: bearerRevoked_def)
  qed
qed

text \<open>What comes in is fresh.\<close>

lemma auth_hand_out:
  assumes ok: "auth_ok now (w\<lparr>aw_state := s'\<rparr>)" and v: "au_gen v \<le> as_gen s'" "\<And>x t. (x, t) \<in> set (aw_log w) \<Longrightarrow> \<not> outdated v x"
  shows "auth_ok now (w\<lparr>aw_state := s', aw_users := (v, now) # aw_users w\<rparr>)"
proof -
  have "users_clean ((v, now) # aw_users w) (aw_log w)" using ok v(2) by (auto simp: auth_ok_def users_clean_def)
  then show ?thesis using ok v(1) by (simp add: auth_ok_def)
qed

lemma auth_add:
  assumes ok: "auth_ok now w" and st: "cache_ok s'" "lease_ok s'" "as_gen s' = as_gen (aw_state w)" "marks s' = marks (aw_state w)"
    and clean: "\<And>x t. (x, t) \<in> set (aw_log w) \<Longrightarrow> clean_of s' x"
  shows "auth_ok now (w\<lparr>aw_state := s'\<rparr>)"
proof -
  have "log_ok now s' (aw_log w)" using log_keep [OF _ _ marks_kept_of [OF marks_kept_same [OF st(4)]]] ok st(3) by (simp add: auth_ok_def)
  moreover have "state_clean s' (aw_log w)" using clean by (auto simp: state_clean_def)
  ultimately show ?thesis using ok st by (simp add: auth_ok_def)
qed

lemma clean_of_log: "auth_ok now w \<Longrightarrow> (x, t) \<in> set (aw_log w) \<Longrightarrow> clean_of (aw_state w) x"
  by (auto simp: auth_ok_def state_clean_def)

lemma flight_gen: "auth_ok now w \<Longrightarrow> (tg, n, t0) \<in> set (aw_flights w) \<Longrightarrow> n \<le> as_gen (aw_state w)"
  by (auto simp: auth_ok_def flights_ok_def)

lemma clean_of_added:
  assumes "clean_of s x" "\<And>i c. fmlookup (as_sessions s') i = Some c \<Longrightarrow> fmlookup (as_sessions s) i = Some c \<or> \<not> outdated (entry_user c) x"
    "\<And>k c. fmlookup (as_bearers s') k = Some c \<Longrightarrow> fmlookup (as_bearers s) k = Some c \<or> \<not> outdated (entry_user c) x"
    "\<And>i l. fmlookup (as_leases s') i = Some l \<Longrightarrow> fmlookup (as_leases s) i = Some l \<or> \<not> outdated (le_user l) x"
  shows "clean_of s' x"
  using assms unfolding clean_of_def by blast

lemma session_added:
  assumes ok: "cache_ok s" and c: "i \<noteq> []" "SessionID (ui_credential (ca_user c)) = i" "\<not> uid_IsZero (ui_id (ca_user c))" "ca_gen c \<le> as_gen s"
  shows "cache_ok (s\<lparr>as_sessions := fmupd i c (as_sessions s), as_userSessions := indexSyncMap (uid_id (ui_id (ca_user c))) i (as_userSessions s)\<rparr>)"
    (is "cache_ok ?s'")
proof -
  have "j \<noteq> [] \<and> SessionID (ui_credential (ca_user d)) = j \<and> \<not> uid_IsZero (ui_id (ca_user d)) \<and> ca_gen d \<le> as_gen ?s' \<and>
      j |\<in>| bucket (as_userSessions ?s') (uid_id (ui_id (ca_user d)))" if d: "fmlookup (as_sessions ?s') j = Some d" for j d
  proof (cases "j = i")
    case False
    then have "fmlookup (as_sessions s) j = Some d" using d by simp
    from cache_okD(1) [OF ok this] show ?thesis by auto
  qed (use d c in simp)
  moreover have "bearer_IsValid (fst k) \<and> BearerRef (ui_credential (ca_user d)) = Some (fst k) \<and> \<not> uid_IsZero (ui_id (ca_user d)) \<and> ca_gen d \<le> as_gen ?s' \<and>
      k |\<in>| bucket (as_bearerKeys ?s') (fst k) \<and> k |\<in>| bucket (as_userBearerKeys ?s') (uid_id (ui_id (ca_user d)))"
      if "fmlookup (as_bearers ?s') k = Some d" for k d
    using cache_okD(2) [OF ok, of k d] that by simp
  ultimately show ?thesis unfolding cache_ok_def by blast
qed

lemma bearer_added:
  assumes ok: "cache_ok s" and c: "bearer_IsValid (fst b)" "BearerRef (ui_credential (ca_user c)) = Some (fst b)" "\<not> uid_IsZero (ui_id (ca_user c))" "ca_gen c \<le> as_gen s"
  shows "cache_ok (s\<lparr>as_bearers := fmupd b c (as_bearers s), as_bearerKeys := indexSyncMap (fst b) b (as_bearerKeys s),
        as_userBearerKeys := indexSyncMap (uid_id (ui_id (ca_user c))) b (as_userBearerKeys s)\<rparr>)"
    (is "cache_ok ?s'")
proof -
  have "bearer_IsValid (fst k) \<and> BearerRef (ui_credential (ca_user d)) = Some (fst k) \<and> \<not> uid_IsZero (ui_id (ca_user d)) \<and> ca_gen d \<le> as_gen ?s' \<and>
      k |\<in>| bucket (as_bearerKeys ?s') (fst k) \<and> k |\<in>| bucket (as_userBearerKeys ?s') (uid_id (ui_id (ca_user d)))"
      if d: "fmlookup (as_bearers ?s') k = Some d" for k d
  proof (cases "k = b")
    case False
    then have "fmlookup (as_bearers s) k = Some d" using d by simp
    from cache_okD(2) [OF ok this] show ?thesis by auto
  qed (use d c in simp)
  moreover have "j \<noteq> [] \<and> SessionID (ui_credential (ca_user d)) = j \<and> \<not> uid_IsZero (ui_id (ca_user d)) \<and> ca_gen d \<le> as_gen ?s' \<and>
      j |\<in>| bucket (as_userSessions ?s') (uid_id (ui_id (ca_user d)))" if "fmlookup (as_sessions ?s') j = Some d" for j d
    using cache_okD(1) [OF ok, of j d] that by simp
  ultimately show ?thesis unfolding cache_ok_def by blast
qed

lemma session_validated_ok:
  assumes ok: "auth_ok now w" and fl: "(ForSession i, n, t0) \<in> set (aw_flights w)" "now - t0 \<le> SessionDuration" and i: "i \<noteq> []"
    and u: "SessionID (ui_credential u) = i" "\<not> uid_IsZero (ui_id u)" and pub: "publish_session now i u n (aw_state w) = (Published v, s')"
  shows "auth_ok now (w\<lparr>aw_state := s', aw_users := (v, now) # aw_users w\<rparr>)"
proof -
  let ?s = "aw_state w" and ?c = "\<lparr>ca_user = u, ca_at = now, ca_gen = n\<rparr>"
  have live: "\<not> sessionRevoked i u n ?s" and v: "v = u\<lparr>au_gen := n\<rparr>"
      and s': "s' = ?s\<lparr>as_sessions := fmupd i ?c (as_sessions ?s), as_userSessions := indexSyncMap (uid_id (ui_id (ca_user ?c))) i (as_userSessions ?s)\<rparr>"
    using pub by (auto simp: publish_session_def cloneUserInfoWithGeneration_def split: if_splits)
  have n: "n \<le> as_gen ?s" using flight_gen [OF ok fl(1)] .
  have c: "cache_ok ?s" "lease_ok ?s" using ok by (simp_all add: auth_ok_def)
  note new = session_validated_clean [OF ok fl i u(1) live]
  have clean: "clean_of s' x" if "(x, t) \<in> set (aw_log w)" for x t
    by (rule clean_of_added [OF clean_of_log [OF ok that]]) (use new [OF that] in \<open>auto simp: s' split: if_splits\<close>)
  have "cache_ok s'" unfolding s' by (rule session_added [OF c(1) i]) (use u n in simp_all)
  moreover have "lease_ok s'" using c(2) by (simp add: s' lease_ok_def)
  ultimately have "auth_ok now (w\<lparr>aw_state := s'\<rparr>)" by (rule auth_add [OF ok]) (use clean in \<open>simp_all add: s' marks_def\<close>)
  then show ?thesis by (rule auth_hand_out) (use n new in \<open>simp_all add: v s'\<close>)
qed

lemma bearer_validated_ok:
  assumes ok: "auth_ok now w" and fl: "(ForBearer b, n, t0) \<in> set (aw_flights w)" "now - t0 \<le> SessionDuration" and b: "bearer_IsValid (fst b)"
    and u: "BearerRef (ui_credential u) = Some (fst b)" "\<not> uid_IsZero (ui_id u)" and pub: "publish_bearer now b u n (aw_state w) = (Published v, s')"
  shows "auth_ok now (w\<lparr>aw_state := s', aw_users := (v, now) # aw_users w\<rparr>)"
proof -
  let ?s = "aw_state w" and ?c = "\<lparr>ca_user = u, ca_at = now, ca_gen = n\<rparr>"
  have live: "\<not> bearerRevoked b u n ?s" and v: "v = u\<lparr>au_gen := n\<rparr>"
      and s': "s' = ?s\<lparr>as_bearers := fmupd b ?c (as_bearers ?s), as_bearerKeys := indexSyncMap (fst b) b (as_bearerKeys ?s),
        as_userBearerKeys := indexSyncMap (uid_id (ui_id (ca_user ?c))) b (as_userBearerKeys ?s)\<rparr>"
    using pub u(2) by (auto simp: publish_bearer_def cloneUserInfoWithGeneration_def indexBearerCacheEntry_def Let_def split: if_splits)
  have n: "n \<le> as_gen ?s" using flight_gen [OF ok fl(1)] .
  have c: "cache_ok ?s" "lease_ok ?s" using ok by (simp_all add: auth_ok_def)
  note new = bearer_validated_clean [OF ok fl b u(1) live]
  have clean: "clean_of s' x" if "(x, t) \<in> set (aw_log w)" for x t
    by (rule clean_of_added [OF clean_of_log [OF ok that]]) (use new [OF that] in \<open>auto simp: s' split: if_splits\<close>)
  have "cache_ok s'" unfolding s' by (rule bearer_added [OF c(1) b]) (use u n in simp_all)
  moreover have "lease_ok s'" using c(2) by (simp add: s' lease_ok_def)
  ultimately have "auth_ok now (w\<lparr>aw_state := s'\<rparr>)" by (rule auth_add [OF ok]) (use clean in \<open>simp_all add: s' marks_def\<close>)
  then show ?thesis by (rule auth_hand_out) (use n new in \<open>simp_all add: v s'\<close>)
qed

lemma user_current_clean:
  assumes ok: "auth_ok now w" and u: "(u, t0) \<in> set (aw_users w)" "now - t0 \<le> SessionDuration" and v: "same_user u v" and cur: "isAuthContextCurrentLocked v (aw_state w)"
    and x: "(x, t) \<in> set (aw_log w)"
  shows "\<not> outdated v x"
proof
  assume out: "outdated v x"
  have "users_clean (aw_users w) (aw_log w)" using ok by (simp add: auth_ok_def)
  moreover have "outdated u x" using out same_user_outdated [OF v] by blast
  ultimately have "t0 \<le> t" using u(1) x by (fastforce simp: users_clean_def)
  then have m: "marked (aw_state w) x t" "rev_named x" using recent_marked [of now "aw_state w" "aw_log w" x t t0] ok x u(2) by (auto simp: auth_ok_def)
  show False
  proof (cases x)
    case (RevSession j k)
    then show False using out cur m marked_session [of "aw_state w" j k t "au_gen v"] by (auto simp: isAuthContextCurrentLocked_def Let_def)
  next
    case (RevBearer b k)
    then show False using out cur m marked_bearer [of "aw_state w" b k t "au_gen v"] by (auto simp: isAuthContextCurrentLocked_def Let_def split: if_splits)
  next
    case (RevUser j k g)
    then show False using out cur m marked_user [of "aw_state w" j k g t v "au_gen v"] by (auto simp: isAuthContextCurrentLocked_def Let_def split: if_splits)
  qed
qed

lemma addLease_frames:
  assumes "addLeaseLocked l s = (i, s')"
  shows "as_gen s' = as_gen s" "marks s' = marks s" "same_cache s s'" "as_leases s' = fmupd i l (as_leases s)" "i = Suc (as_nextLease s)" "as_nextLease s' = i"
    "i |\<in>| bucket (as_leasesByUser s') (uid_id (ui_id (le_user l)))"
    "SessionID (ui_credential (le_user l)) \<noteq> [] \<Longrightarrow> i |\<in>| bucket (as_leasesBySession s') (SessionID (ui_credential (le_user l)))"
    "BearerRef (ui_credential (le_user l)) = Some b \<Longrightarrow> i |\<in>| bucket (as_leasesByBearer s') b"
    "j |\<in>| bucket (as_leasesByUser s) e \<Longrightarrow> j |\<in>| bucket (as_leasesByUser s') e"
    "j |\<in>| bucket (as_leasesBySession s) e \<Longrightarrow> j |\<in>| bucket (as_leasesBySession s') e"
    "j |\<in>| bucket (as_leasesByBearer s) b \<Longrightarrow> j |\<in>| bucket (as_leasesByBearer s') b"
  using assms by (auto simp: addLeaseLocked_def Let_def marks_def same_cache_def split: option.splits)

lemma lease_added:
  assumes ok: "lease_ok s" and add: "addLeaseLocked l s = (i, s')" and l: "au_gen (le_user l) \<le> as_gen s"
  shows "lease_ok s'"
proof -
  note f = addLease_frames [OF add]
  have "j \<le> as_nextLease s' \<and> au_gen (le_user k) \<le> as_gen s' \<and> j |\<in>| bucket (as_leasesByUser s') (uid_id (ui_id (le_user k))) \<and>
     (SessionID (ui_credential (le_user k)) \<noteq> [] \<longrightarrow> j |\<in>| bucket (as_leasesBySession s') (SessionID (ui_credential (le_user k)))) \<and>
     (\<forall>b. BearerRef (ui_credential (le_user k)) = Some b \<longrightarrow> j |\<in>| bucket (as_leasesByBearer s') b)" if k: "fmlookup (as_leases s') j = Some k" for j k
  proof (cases "j = i")
    case True
    then have "k = l" using k f(4) by simp
    then show ?thesis using True f(1,6-9) l by simp
  next
    case False
    then have "fmlookup (as_leases s) j = Some k" using k f(4) by simp
    note o = lease_okD [OF ok this]
    then show ?thesis using f(1,5,6,10-12) by (auto intro: le_SucI)
  qed
  moreover have "j = i \<or> j |\<in>| bucket (as_leasesBySession s) e" "j = i \<Longrightarrow> SessionID (ui_credential (le_user l)) = e"
    if "j |\<in>| bucket (as_leasesBySession s') e" for j e
    using that lease_ok_index [OF ok, of i e] add by (auto simp: addLeaseLocked_def Let_def split: option.splits if_splits)
  ultimately show ?thesis using f(4-6) lease_ok_index [OF ok] lease_okD(6) [OF ok] by (intro lease_okI) (fastforce split: if_splits)+
qed

lemma lease_registered_ok:
  assumes ok: "auth_ok now w" and u: "(u, t0) \<in> set (aw_users w)" "now - t0 \<le> SessionDuration"
  shows "auth_ok now (w\<lparr>aw_state := snd (RegisterAuthenticatedLease now d (u\<lparr>au_expires := e\<rparr>) cancel (aw_state w))\<rparr>)"
proof -
  let ?s = "aw_state w" and ?u = "u\<lparr>au_expires := e\<rparr>"
  define x where "x = Later (currentCredentialExpiryLocked ?u ?s) d"
  define l where "l = \<lparr>le_user = ?u\<lparr>au_expires := x\<rparr>, le_cancel = cancel, le_timer = (case deadline_At x of None \<Rightarrow> None | Some t \<Rightarrow> Some (t, 0)), le_epoch = 0\<rparr>"
  obtain i s' where add: "addLeaseLocked l ?s = (i, s')" by fastforce
  note f = addLease_frames [OF add]
  have c: "cache_ok ?s" "lease_ok ?s" using ok by (simp_all add: auth_ok_def)
  show ?thesis
  proof (cases "IsCurrent x now \<and> isAuthContextCurrentLocked ?u ?s")
    case False
    then have "snd (RegisterAuthenticatedLease now d ?u cancel ?s) = ?s\<lparr>as_cancelled := as_cancelled ?s @ [cancel]\<rparr>"
      by (auto simp: RegisterAuthenticatedLease_def Let_def x_def)
    moreover have "tidy ?s (?s\<lparr>as_cancelled := as_cancelled ?s @ [cancel]\<rparr>)" by (rule tidy_cong) simp_all
    ultimately show ?thesis using auth_tidy [OF ok] marks_kept_of [OF marks_kept_same] by (simp add: marks_def)
  next
    case True
    then have run: "snd (RegisterAuthenticatedLease now d ?u cancel ?s) = s'"
      using add by (auto simp: RegisterAuthenticatedLease_def Let_def x_def l_def)
    have "le_user l = u\<lparr>au_expires := x\<rparr>" by (simp add: l_def)
    have g: "au_gen (le_user l) \<le> as_gen ?s" using ok u(1) by (auto simp: auth_ok_def l_def)
    have "same_user u ?u" "same_user ?u (le_user l)" by (simp_all add: same_user_def l_def)
    then have clean: "\<not> outdated (le_user l) y" if "(y, t) \<in> set (aw_log w)" for y t
      using user_current_clean [OF ok u _ _ that, of ?u] True same_user_outdated by blast
    have "clean_of s' y" if "(y, t) \<in> set (aw_log w)" for y t
      by (rule clean_of_added [OF clean_of_log [OF ok that]])
        (use clean [OF that] f(3,4) in \<open>auto simp: same_cache_def split: if_splits\<close>)
    then show ?thesis unfolding run using same_cache_ok [OF f(3)] c lease_added [OF c(2) add g] f(1,2) by (intro auth_add [OF ok]) auto
  qed
qed

lemma marks_kept_session:
  assumes "marks s' = (fmupd i \<lparr>mk_gen = Suc (as_gen s), mk_at = now\<rparr> (as_sessionRevocations s), as_userRevocations s, as_bearerRevocations s)"
  shows "marks_kept now s s'" "marked s' (RevSession i (Suc (as_gen s))) now"
proof -
  have "marked s' x t" if "t \<le> now" "rev_gen x \<le> as_gen s" "marked s x t" for x t
    using that assms by (cases x) (auto simp: marks_def)
  then show "marks_kept now s s'" by (simp add: marks_kept_def)
  show "marked s' (RevSession i (Suc (as_gen s))) now" using assms by (simp add: marks_def)
qed

lemma marks_kept_bearer:
  assumes "marks s' = (as_sessionRevocations s, as_userRevocations s, fmupd b \<lparr>mk_gen = Suc (as_gen s), mk_at = now\<rparr> (as_bearerRevocations s))"
  shows "marks_kept now s s'" "marked s' (RevBearer b (Suc (as_gen s))) now"
proof -
  have "marked s' x t" if "t \<le> now" "rev_gen x \<le> as_gen s" "marked s x t" for x t
    using that assms by (cases x) (auto simp: marks_def)
  then show "marks_kept now s s'" by (simp add: marks_kept_def)
  show "marked s' (RevBearer b (Suc (as_gen s))) now" using assms by (simp add: marks_def)
qed

lemma marks_kept_user:
  assumes "marks s' = (as_sessionRevocations s, fmupd u \<lparr>mk_gen = Suc (as_gen s), mk_at = now, mk_user_gen = n\<rparr> (as_userRevocations s), as_bearerRevocations s)"
  shows "\<forall>(y, _) \<in> set revs. \<not> weakens (RevUser u (Suc (as_gen s)) n) y \<Longrightarrow> keeps_marks_of revs now s s'" "marked s' (RevUser u (Suc (as_gen s)) n) now"
proof -
  have "marked s' x t" if "\<not> weakens (RevUser u (Suc (as_gen s)) n) x" "t \<le> now" "rev_gen x \<le> as_gen s" "marked s x t" for x t
    using that assms by (cases x) (auto simp: marks_def split: if_splits)
  then show "keeps_marks_of revs now s s'" if "\<forall>(y, _) \<in> set revs. \<not> weakens (RevUser u (Suc (as_gen s)) n) y"
    using that by (fastforce simp: keeps_marks_of_def)
  show "marked s' (RevUser u (Suc (as_gen s)) n) now" using assms by (simp add: marks_def)
qed

lemma revoke_session_ok:
  assumes ok: "auth_ok now w" and g: "ranges_ok g" and i: "i \<noteq> []"
  shows "auth_ok now (w\<lparr>aw_state := Evict g now i (aw_state w), aw_log := (RevSession i (Suc (as_gen (aw_state w))), now) # aw_log w\<rparr>)"
proof -
  let ?s = "aw_state w" and ?s' = "Evict g now i (aw_state w)"
  have c: "cache_ok ?s" "lease_ok ?s" using ok by (simp_all add: auth_ok_def)
  note e = Evict_spec [OF c g i, where now = now]
  have c': "cache_ok ?s'" using tidyD [OF e(1) c] by blast
  have "clean_of ?s' (RevSession i n)" for n
    unfolding clean_of_def
  proof (intro conjI allI impI)
    show "\<not> outdated (entry_user c) (RevSession i n)" if "fmlookup (as_sessions ?s') j = Some c" for j c
      using cache_okD(1) [OF c' that] that e(4) by (cases "j = i") auto
    show "\<not> outdated (entry_user c) (RevSession i n)" if "fmlookup (as_bearers ?s') k = Some c" for k c
      using cache_okD(2) [OF c' that] session_not_bearer [of "ui_credential (ca_user c)"] i by auto
    show "\<not> outdated (le_user l) (RevSession i n)" if "fmlookup (as_leases ?s') j = Some l" for j l
      using e(5) [OF that] by simp
  qed
  then show ?thesis using marks_kept_of [OF marks_kept_session(1) [OF e(3)]] marks_kept_session(2) [OF e(3)] e(2) i by (intro auth_revoke [OF ok e(1)]) simp_all
qed

lemma revoke_bearer_ok:
  assumes ok: "auth_ok now w" and g: "ranges_ok g" and b: "bearer_IsValid b"
  shows "auth_ok now (w\<lparr>aw_state := EvictBearer g now b (aw_state w), aw_log := (RevBearer b (Suc (as_gen (aw_state w))), now) # aw_log w\<rparr>)"
proof -
  let ?s = "aw_state w" and ?s' = "EvictBearer g now b (aw_state w)"
  have c: "cache_ok ?s" "lease_ok ?s" using ok by (simp_all add: auth_ok_def)
  note e = EvictBearer_spec [OF c g b, where now = now]
  have c': "cache_ok ?s'" using tidyD [OF e(1) c] by blast
  have "clean_of ?s' (RevBearer b n)" for n
    unfolding clean_of_def
  proof (intro conjI allI impI)
    show "\<not> outdated (entry_user c) (RevBearer b n)" if "fmlookup (as_sessions ?s') j = Some c" for j c
      using cache_okD(1) [OF c' that] session_not_bearer [of "ui_credential (ca_user c)"] by auto
    show "\<not> outdated (entry_user c) (RevBearer b n)" if "fmlookup (as_bearers ?s') k = Some c" for k c
      using cache_okD(2) [OF c' that] that e(4) [of "snd k"] by (cases "fst k = b") auto
    show "\<not> outdated (le_user l) (RevBearer b n)" if "fmlookup (as_leases ?s') j = Some l" for j l
      using e(5) [OF that] by simp
  qed
  then show ?thesis using marks_kept_of [OF marks_kept_bearer(1) [OF e(3)]] marks_kept_bearer(2) [OF e(3)] e(2) b by (intro auth_revoke [OF ok e(1)]) simp_all
qed

lemma revoke_user_ok:
  fixes now n :: int
  assumes ok: "auth_ok now w" and g: "ranges_ok g" and u: "u \<noteq> []"
  defines "s' \<equiv> RevokeUserAuthContextAtGeneration g now u n (aw_state w)" and "x \<equiv> RevUser u (Suc (as_gen (aw_state w))) n"
  assumes new: "s' \<noteq> aw_state w"
  shows "auth_ok now (w\<lparr>aw_state := s', aw_log := (x, now) # filter (\<lambda>(y, _). \<not> weakens x y) (aw_log w)\<rparr>)"
proof -
  have c: "cache_ok (aw_state w)" "lease_ok (aw_state w)" using ok by (simp_all add: auth_ok_def)
  from RevokeUser_spec [OF c g u, where now = now and n = n, folded s'_def] new
  have e: "tidy (aw_state w) s'" "as_gen s' = Suc (as_gen (aw_state w))"
      "marks s' = (as_sessionRevocations (aw_state w), fmupd u \<lparr>mk_gen = Suc (as_gen (aw_state w)), mk_at = now, mk_user_gen = n\<rparr> (as_userRevocations (aw_state w)),
         as_bearerRevocations (aw_state w))"
    and gone: "\<forall>i c. fmlookup (as_sessions s') i = Some c \<longrightarrow> uid_id (ui_id (ca_user c)) = u \<longrightarrow> 0 < n \<and> n \<le> au_user_gen (ca_user c)"
      "\<forall>k c. fmlookup (as_bearers s') k = Some c \<longrightarrow> uid_id (ui_id (ca_user c)) = u \<longrightarrow> 0 < n \<and> n \<le> au_user_gen (ca_user c)"
      "\<forall>i l. fmlookup (as_leases s') i = Some l \<longrightarrow> uid_id (ui_id (le_user l)) = u \<longrightarrow> 0 < n \<and> n \<le> au_user_gen (le_user l)"
    by blast+
  have clean: "clean_of s' x"
    unfolding clean_of_def
  proof (intro conjI allI impI)
    show "\<not> outdated (entry_user c) x" if "fmlookup (as_sessions s') j = Some c" for j c using gone(1) [rule_format, OF that] by (force simp: x_def)
    show "\<not> outdated (entry_user c) x" if "fmlookup (as_bearers s') j = Some c" for j c using gone(2) [rule_format, OF that] by (force simp: x_def)
    show "\<not> outdated (le_user l) x" if "fmlookup (as_leases s') j = Some l" for j l using gone(3) [rule_format, OF that] by (force simp: x_def)
  qed
  let ?w = "w\<lparr>aw_log := filter (\<lambda>(y, _). \<not> weakens x y) (aw_log w)\<rparr>"
  have okw: "auth_ok now ?w" by (rule auth_shrink [OF ok]) auto
  have "keeps_marks_of (aw_log ?w) now (aw_state ?w) s'" using marks_kept_user(1) [OF e(3), of "aw_log ?w"] by (auto simp: x_def)
  from auth_revoke [OF okw _ this, of x] show ?thesis
    using e marks_kept_user(2) [OF e(3)] clean u by (simp add: x_def)
qed

lemma auth_hand_out_same:
  assumes ok: "auth_ok now w" and v: "au_gen v \<le> as_gen (aw_state w)" "\<And>x t. (x, t) \<in> set (aw_log w) \<Longrightarrow> \<not> outdated v x"
  shows "auth_ok now (w\<lparr>aw_users := (v, now) # aw_users w\<rparr>)"
  using auth_hand_out [where w = w and s' = "aw_state w" and v = v] ok v by simp

text \<open>The world with the revocations that no later one weakens.\<close>

abbreviation live_world :: "auth_world \<Rightarrow> auth_world" where
  "live_world w \<equiv> w\<lparr>aw_log := live_log (aw_log w)\<rparr>"

lemma auth_reachable_ok: "auth_reachable now w \<Longrightarrow> auth_ok now (live_world w)"
proof (induction rule: auth_reachable.induct)
  case (start now)
  show ?case by (simp add: auth_ok_def new_auth_def cache_ok_def lease_ok_def bucket_mem log_ok_def state_clean_def users_clean_def flights_ok_def)
next
  case (wait t w now)
  then show ?case unfolding auth_ok_def log_ok_def by fastforce
next
  case (quiet now w s')
  then have "tidy (aw_state w) s' \<and> marks_kept now (aw_state w) s'" by (intro quiet_spec) (auto simp: auth_ok_def)
  then show ?case using auth_tidy [OF quiet.IH] marks_kept_of by (cases w) auto
next
  case (revoke_session now w g i)
  then show ?case using revoke_session_ok [OF revoke_session.IH] by (cases w) simp
next
  case (revoke_bearer now w g b)
  then show ?case using revoke_bearer_ok [OF revoke_bearer.IH] by (cases w) simp
next
  case (revoke_user now w g u s' n)
  then show ?case using revoke_user_ok [OF revoke_user.IH, of g u n] by (cases w) auto
next
  case (begin_validation now w tg)
  then show ?case by (auto simp: auth_ok_def flights_ok_def log_ok_def)
next
  case (session_validated now w i n t0 u v s')
  then show ?case using session_validated_ok [OF session_validated.IH] by (cases w) auto
next
  case (bearer_validated now w k n t0 u v s')
  then show ?case using bearer_validated_ok [OF bearer_validated.IH] by (cases w) auto
next
  case (session_hit now w i c)
  have c: "cache_ok (aw_state w)" using session_hit.IH by (simp add: auth_ok_def)
  have "\<not> outdated (entry_user c) x" if "(x, t) \<in> set (aw_log (live_world w))" for x t
  proof -
    have "clean_of (aw_state w) x" using clean_of_log [OF session_hit.IH that] by simp
    then show ?thesis using session_hit.hyps(2) unfolding clean_of_def by blast
  qed
  then show ?case using cache_okD(1) [OF c session_hit.hyps(2)] auth_hand_out_same [OF session_hit.IH, of "entry_user c"]
    by (cases w) (simp add: cloneUserInfoWithGeneration_def)
next
  case (bearer_hit now w k c)
  have c: "cache_ok (aw_state w)" using bearer_hit.IH by (simp add: auth_ok_def)
  have "\<not> outdated (entry_user c) x" if "(x, t) \<in> set (aw_log (live_world w))" for x t
  proof -
    have "clean_of (aw_state w) x" using clean_of_log [OF bearer_hit.IH that] by simp
    then show ?thesis using bearer_hit.hyps(2) unfolding clean_of_def by blast
  qed
  then show ?case using cache_okD(2) [OF c bearer_hit.hyps(2)] auth_hand_out_same [OF bearer_hit.IH, of "entry_user c"]
    by (cases w) (simp add: cloneUserInfoWithGeneration_def)
next
  case (solo now w u)
  let ?u = "currentSyntheticUser u (aw_state w)"
  have g: "au_gen ?u = as_gen (aw_state w)"
    by (auto simp: currentSyntheticUser_def Let_def cloneUserInfoWithGeneration_def split: option.splits)
  have "rev_gen x \<le> as_gen (aw_state w)" if "(x, t) \<in> set (aw_log (live_world w))" for x t
    using solo.IH that by (auto simp: auth_ok_def log_ok_def)
  then have "\<not> outdated ?u x" if "(x, t) \<in> set (aw_log (live_world w))" for x t
    using outdated_gen [of ?u x] that g by fastforce
  then show ?case using g auth_hand_out_same [OF solo.IH, of ?u] by (cases w) simp
next
  case (lease now w u t0 d e cancel)
  then show ?case using lease_registered_ok [OF lease.IH, of u t0 d e cancel] by (cases w) simp
qed

section \<open>Revocations across the hub\<close>

text \<open>C23: A revocation is final. Whatever the order of validations, cache hits, registrations of leases, rotations,
  sweeps and revocations, of sessions, of bearers and of users with a generation or without one: once a
  session, a bearer or a user's generation was revoked, no cached identity and no lease of it from before is
  left, and no request is handed it afterwards, not even by a validation that read the store before the
  revocation. For a user-wide revocation this holds until a later one of the same user replaces its mark by a weaker one,
  that is, names a positive generation while the earlier one named none or a greater one.\<close>

theorem revoked_never_served:
  assumes "auth_reachable now w" and "aw_log w = later @ (x, t) # earlier" and "\<forall>(y, _) \<in> set later. \<not> weakens y x"
  shows "(\<forall>i c. fmlookup (as_sessions (aw_state w)) i = Some c \<longrightarrow> \<not> outdated ((ca_user c)\<lparr>au_gen := ca_gen c\<rparr>) x) \<and>
    (\<forall>k c. fmlookup (as_bearers (aw_state w)) k = Some c \<longrightarrow> \<not> outdated ((ca_user c)\<lparr>au_gen := ca_gen c\<rparr>) x) \<and>
    (\<forall>j l. fmlookup (as_leases (aw_state w)) j = Some l \<longrightarrow> \<not> outdated (le_user l) x) \<and>
    (\<forall>u t0. (u, t0) \<in> set (aw_users w) \<longrightarrow> outdated u x \<longrightarrow> t0 \<le> t)"
proof -
  have ok: "auth_ok now (live_world w)" using auth_reachable_ok [OF assms(1)] .
  have x: "(x, t) \<in> set (aw_log (live_world w))" using live_log_mem [OF assms(3), of t earlier] by (simp add: assms(2))
  have "\<forall>u t0. (u, t0) \<in> set (aw_users w) \<longrightarrow> outdated u x \<longrightarrow> t0 \<le> t"
    using ok x by (fastforce simp: auth_ok_def users_clean_def)
  then show ?thesis using clean_of_log [OF ok x] unfolding clean_of_def by simp
qed

lemma Evict_leases:
  assumes ok: "lease_ok s" and g: "ranges_ok g" and i: "i \<noteq> []"
  shows "fmlookup (as_leases (Evict g now i s)) j =
    (case fmlookup (as_leases s) j of None \<Rightarrow> None | Some l \<Rightarrow> if SessionID (ui_credential (le_user l)) = i then None else Some l)"
proof -
  define s1 where "s1 = (case fmlookup (as_sessions s) i of None \<Rightarrow> s | Some c \<Rightarrow> deleteStaleSession i c s)"
  define s4 where "s4 = s1\<lparr>as_lastTouch := fmdrop i (as_lastTouch s1), as_gen := Suc (as_gen s1),
      as_sessionRevocations := fmupd i \<lparr>mk_gen = Suc (as_gen s1), mk_at = now\<rparr> (as_sessionRevocations s1)\<rparr>"
  let ?p = "\<lambda>l. MatchesSession (ui_credential (le_user l)) i" and ?zs = "rg_leases g (bucket (as_leasesBySession s4) i)"
  have m: "?p l \<longleftrightarrow> SessionID (ui_credential (le_user l)) = i" for l using i by (auto simp: MatchesSession_def SessionID_def)
  have same: "as_leases s4 = as_leases s" "as_leasesBySession s4 = as_leasesBySession s" "as_leasesByUser s4 = as_leasesByUser s"
      "as_leasesByBearer s4 = as_leasesByBearer s" "as_nextLease s4 = as_nextLease s" "as_gen s4 = Suc (as_gen s)"
    by (simp_all add: s4_def s1_def deleteStaleSession_def split: option.splits)
  have ok4: "lease_ok s4" using ok unfolding lease_ok_def same by (auto intro: le_SucI)
  obtain ls s5 where rm: "remove_leases ?p ?zs s4 = (ls, s5)" by fastforce
  have "Evict g now i s = cancelLeases ls s5"
    using rm i by (simp add: Evict_def s4_def s1_def deleteStaleSession_def bumpGeneration_def recordRevocation_def removeIndexedLeasesLocked_def Let_def split: option.splits)
  moreover have "j \<in> set ?zs" if "fmlookup (as_leases s) j = Some l" "?p l" for l
    using lease_okD(4) [OF ok that(1)] that(2) g i by (simp add: ranges_ok_def m same)
  ultimately show ?thesis using remove_leases_spec [OF ok4 rm] by (auto simp: same m split: option.splits)
qed

lemma RevokeUser_leases:
  assumes ok: "lease_ok s" and g: "ranges_ok g" and u: "u \<noteq> []" and n: "0 < n" and new: "\<forall>k. fmlookup (as_userRevocations s) u = Some k \<longrightarrow> mk_user_gen k < n"
  shows "fmlookup (as_leases (RevokeUserAuthContextAtGeneration g now u n s)) j =
    (case fmlookup (as_leases s) j of None \<Rightarrow> None | Some l \<Rightarrow> if uid_id (ui_id (le_user l)) = u \<and> au_user_gen (le_user l) < n then None else Some l)"
proof -
  define s2 where "s2 = s\<lparr>as_gen := Suc (as_gen s), as_userRevocations :=
     fmupd u \<lparr>mk_gen = Suc (as_gen s), mk_at = now, mk_user_gen = n\<rparr> (as_userRevocations s)\<rparr>"
  let ?p = "\<lambda>l. uid_Matches (ui_id (le_user l)) u \<and> ShouldEvictForUserGeneration (au_user_gen (le_user l)) n"
  let ?zs = "rg_leases g (bucket (as_leasesByUser s2) u)"
  have m: "?p l \<longleftrightarrow> uid_id (ui_id (le_user l)) = u \<and> au_user_gen (le_user l) < n" for l
    using u n by (auto simp: uid_Matches_def ShouldEvictForUserGeneration_def)
  obtain ls s3 where rm: "remove_leases ?p ?zs s2 = (ls, s3)" by fastforce
  have ok2: "lease_ok s2" using ok unfolding lease_ok_def s2_def by (auto intro: le_SucI)
  let ?s4 = "evictBearersByUserGeneration g u n (evictSessionsByUserGeneration g u n s3)"
  have "RevokeUserAuthContextAtGeneration g now u n s = cancelLeases ls ?s4"
    using rm u new by (auto simp: RevokeUserAuthContextAtGeneration_def s2_def bumpGeneration_def removeIndexedLeasesLocked_def Let_def split: option.splits)
  moreover have "as_leases ?s4 = as_leases s3"
    using trims_trans [OF trims_sessions trims_bearers] by (auto simp: trims_def same_rest_def)
  moreover have "j \<in> set ?zs" if "fmlookup (as_leases s) j = Some l" "?p l" for l
    using lease_okD(3) [OF ok that(1)] that(2) g by (auto simp: ranges_ok_def m s2_def)
  ultimately show ?thesis using remove_leases_spec [OF ok2 rm] by (auto simp: s2_def m split: option.splits)
qed

abbreviation raised :: "int \<Rightarrow> lease \<Rightarrow> lease" where
  "raised n l \<equiv> l\<lparr>le_user := (le_user l)\<lparr>au_user_gen := max n (au_user_gen (le_user l))\<rparr>\<rparr>"

lemma restamp_lease_step:
  "fmlookup (as_leases (restamp_lease n i s)) j = (case fmlookup (as_leases s) j of None \<Rightarrow> None | Some l \<Rightarrow> Some (if j = i then raised n l else l))"
  by (auto simp: restamp_lease_def max_def split: option.splits)

lemma restamp_leases:
  "fmlookup (as_leases (fold (restamp_lease n) zs s)) j =
    (case fmlookup (as_leases s) j of None \<Rightarrow> None | Some l \<Rightarrow> Some (if j \<in> set zs then raised n l else l))"
  by (induction zs arbitrary: s) (auto simp: restamp_lease_step max_def split: option.splits)

abbreviation raised_channel :: "int \<Rightarrow> channel \<Rightarrow> channel" where
  "raised_channel n ch \<equiv> ch\<lparr>ch_auth := (ch_auth ch)\<lparr>ai_generation := max n (ai_generation (ch_auth ch))\<rparr>\<rparr>"

lemma restamp_one_reg:
  assumes "core_ok m"
  shows "reg (restamp_one n i m) j = (case reg m j of None \<Rightarrow> None | Some ch \<Rightarrow> Some (if j = i then raised_channel n ch else ch))"
proof (cases "fmlookup (hm_channels m) i")
  case (Some r)
  have refs: "refs_ok m" using assms by (simp add: core_but_def)
  have "reg m i = Some (obj m r)" using Some by (simp add: reg_def)
  then show ?thesis using Some reg_set_obj [OF refs Some] by (auto simp: restamp_one_def max_def split: option.splits)
qed (auto simp: restamp_one_def reg_def split: option.splits)

lemma restamp_reg:
  "core_ok m \<Longrightarrow> reg (fold (restamp_one n) is m) j = (case reg m j of None \<Rightarrow> None | Some ch \<Rightarrow> Some (if j \<in> set is then raised_channel n ch else ch))"
  by (induction "is" arbitrary: m) (auto simp: restamp_one_reg restamp_one_ok max_def split: option.splits)

lemma revoke_user_channels:
  assumes "mgr_reachable now m" "range_order it" "u \<noteq> []" "0 < n"
  shows "reg (snd (CloseByUserRevocation it fails now u n m)) = drop_channels (\<lambda>ch. ch_user ch = u \<and> ai_generation (ch_auth ch) < n) m"
proof -
  have ok: "mgr_ok m" using mgr_reachable_ok [OF assms(1)] .
  then have "index_exact user_key (reg m) (hm_byUser m)" by (simp add: mgr_ok_def core_but_def indexes_ok_def)
  then have "reg (snd (CloseByUserRevocation it fails now u n m)) =
      drop_channels (\<lambda>ch. user_key ch = Some u \<and> ShouldEvictForUserGeneration (ai_generation (ch_auth ch)) n) m"
    using close_index_exact(1) [OF ok assms(2) _ steady_info surjective_pairing] assms(3) by (simp add: CloseByUserRevocation_def)
  then show ?thesis using assms(4) by (simp add: user_key_def ShouldEvictForUserGeneration_def)
qed

text \<open>C26: Changing a password signs out everything but the session that did it. The leases and channels of that
  session stay, moved to the new generation; those of the user's other credentials that belong to an
  older generation go; those of other users stay as they were.\<close>

theorem password_change_exact:
  assumes "auth_reachable now w" "mgr_reachable now m" "ranges_ok g" "range_order it" "u \<noteq> []" "i \<noteq> []" "0 < n"
    and new: "\<forall>k. fmlookup (as_userRevocations (aw_state w)) u = Some k \<longrightarrow> mk_user_gen k < n"
    and run: "RevokeUserPreservingSession g it fails now u i n (aw_state w, m) = (a', m')"
  shows "fmlookup (as_leases a') j = (case fmlookup (as_leases (aw_state w)) j of None \<Rightarrow> None | Some l \<Rightarrow>
       if SessionID (ui_credential (le_user l)) = i then Some (l\<lparr>le_user := (le_user l)\<lparr>au_user_gen := max n (au_user_gen (le_user l))\<rparr>\<rparr>)
       else if uid_id (ui_id (le_user l)) = u \<and> au_user_gen (le_user l) < n then None else Some l) \<and>
    reg m' c = (case reg m c of None \<Rightarrow> None | Some ch \<Rightarrow>
       if SessionID (ai_credential (ch_auth ch)) = i then Some (ch\<lparr>ch_auth := (ch_auth ch)\<lparr>ai_generation := max n (ai_generation (ch_auth ch))\<rparr>\<rparr>)
       else if ch_user ch = u \<and> ai_generation (ch_auth ch) < n then None else Some ch)"
proof -
  let ?a = "RestampSessionLeaseGeneration g i n (aw_state w)" and ?m = "RestampSessionGeneration it i n m"
  have a': "a' = RevokeUserAuthContextAtGeneration g now u n ?a" and m': "m' = snd (CloseByUserRevocation it fails now u n ?m)"
    using run assms(5-7) by (auto simp: RevokeUserPreservingSession_def UserRevoked_def preserveSession_def)
  have ok: "cache_ok (aw_state w)" "lease_ok (aw_state w)" using auth_reachable_ok [OF assms(1)] by (simp_all add: auth_ok_def)
  have ok1: "lease_ok ?a" using tidyD [OF restamp_tidy(1) ok] by blast
  have new1: "\<forall>k. fmlookup (as_userRevocations ?a) u = Some k \<longrightarrow> mk_user_gen k < n" using new restamp_tidy(2) [of g i n "aw_state w"] by (simp add: marks_def)
  have l1: "fmlookup (as_leases ?a) j = (case fmlookup (as_leases (aw_state w)) j of None \<Rightarrow> None
      | Some l \<Rightarrow> Some (if SessionID (ui_credential (le_user l)) = i then raised n l else l))"
  proof (cases "fmlookup (as_leases (aw_state w)) j")
    case (Some l)
    then show ?thesis using lease_okD(4,6) [OF ok(2) Some] assms(3,6,7)
      by (auto simp: RestampSessionLeaseGeneration_def restamp_leases ranges_ok_def)
  qed (use assms(6,7) in \<open>simp add: RestampSessionLeaseGeneration_def restamp_leases\<close>)
  have ok': "mgr_ok m" using mgr_reachable_ok [OF assms(2)] .
  then have core: "core_ok m" and idx: "index_exact session_key (reg m) (hm_bySession m)" by (simp_all add: mgr_ok_def core_but_def indexes_ok_def)
  have "set (it (get_or {||} id (fmlookup (hm_bySession m) i))) = {j. \<exists>ch. reg m j = Some ch \<and> session_key ch = Some i}"
    using idx range_order_set [OF assms(4)] by (simp add: index_exact_def idx_get_def)
  moreover have "session_key ch = Some i \<longleftrightarrow> SessionID (ai_credential (ch_auth ch)) = i" for ch using assms(6) by (auto simp: session_key_def Let_def)
  ultimately have c1: "reg ?m c = (case reg m c of None \<Rightarrow> None | Some ch \<Rightarrow> Some (if SessionID (ai_credential (ch_auth ch)) = i then raised_channel n ch else ch))"
    using assms(6,7) by (auto simp: RestampSessionGeneration_def restamp_reg [OF core] split: option.splits)
  have "reg m' = drop_channels (\<lambda>ch. ch_user ch = u \<and> ai_generation (ch_auth ch) < n) ?m"
    using revoke_user_channels [OF mgr_reachable.restamp [OF assms(2)] assms(4,5,7)] by (simp add: m')
  then have "reg m' c = (case reg ?m c of None \<Rightarrow> None | Some ch \<Rightarrow> if ch_user ch = u \<and> ai_generation (ch_auth ch) < n then None else Some ch)"
    by (auto simp: drop_channels_def split: option.splits)
  with c1 have "reg m' c = (case reg m c of None \<Rightarrow> None | Some ch \<Rightarrow>
       if SessionID (ai_credential (ch_auth ch)) = i then Some (raised_channel n ch)
       else if ch_user ch = u \<and> ai_generation (ch_auth ch) < n then None else Some ch)" by (auto split: option.splits)
  moreover have "fmlookup (as_leases a') j = (case fmlookup (as_leases (aw_state w)) j of None \<Rightarrow> None | Some l \<Rightarrow>
       if SessionID (ui_credential (le_user l)) = i then Some (raised n l)
       else if uid_id (ui_id (le_user l)) = u \<and> au_user_gen (le_user l) < n then None else Some l)"
    using RevokeUser_leases [OF ok1 assms(3,5,7) new1, of now j] l1 by (auto simp: a' split: option.splits)
  ultimately show ?thesis by blast
qed

text \<open>Signing out is exact. Revoking a session removes its cached identity, its leases and the channels opened
  with it, and leaves every other lease and channel as it was.\<close>

theorem logout_exact:
  assumes "auth_reachable now w" "mgr_reachable now m" "ranges_ok g" "range_order it" "i \<noteq> []"
    and run: "SessionRevoked g it fails now i (aw_state w, m) = (a', m')"
  shows "fmlookup (as_sessions a') i = None \<and>
    fmlookup (as_leases a') j = (case fmlookup (as_leases (aw_state w)) j of None \<Rightarrow> None
       | Some l \<Rightarrow> if SessionID (ui_credential (le_user l)) = i then None else Some l) \<and>
    reg m' = drop_channels (\<lambda>ch. SessionID (ai_credential (ch_auth ch)) = i) m"
proof -
  have a': "a' = Evict g now i (aw_state w)" and m': "m' = snd (CloseBySession it fails now i m)" using run assms(5) by (auto simp: SessionRevoked_def)
  have ok: "cache_ok (aw_state w)" "lease_ok (aw_state w)" using auth_reachable_ok [OF assms(1)] by (simp_all add: auth_ok_def)
  have mok: "mgr_ok m" using mgr_reachable_ok [OF assms(2)] .
  then have idx: "index_exact session_key (reg m) (hm_bySession m)" by (simp add: mgr_ok_def core_but_def indexes_ok_def)
  have "reg m' = drop_channels (\<lambda>ch. session_key ch = Some i) m"
    using close_index_exact(1) [OF mok assms(4) idx steady_info surjective_pairing] assms(5) by (simp add: m' CloseBySession_def)
  moreover have "session_key ch = Some i \<longleftrightarrow> SessionID (ai_credential (ch_auth ch)) = i" for ch using assms(5) by (auto simp: session_key_def Let_def)
  ultimately show ?thesis using Evict_spec(4) [OF ok assms(3,5)] Evict_leases [OF ok(2) assms(3,5)] by (simp add: a')
qed

section \<open>An example\<close>

instantiation bearer_kind :: linorder
begin

definition less_eq_bearer_kind :: "bearer_kind \<Rightarrow> bearer_kind \<Rightarrow> bool" where
  "less_eq_bearer_kind a b \<longleftrightarrow> a = b \<or> a = BearerKindAPI"

definition less_bearer_kind :: "bearer_kind \<Rightarrow> bearer_kind \<Rightarrow> bool" where
  "less_bearer_kind a b \<longleftrightarrow> a \<noteq> b \<and> a = BearerKindAPI"

instance
proof
  fix a b c :: bearer_kind
  show "(a < b) = (a \<le> b \<and> \<not> b \<le> a)" by (auto simp: less_eq_bearer_kind_def less_bearer_kind_def)
  show "a \<le> a" by (simp add: less_eq_bearer_kind_def)
  show "a \<le> b \<Longrightarrow> b \<le> c \<Longrightarrow> a \<le> c" by (auto simp: less_eq_bearer_kind_def)
  show "a \<le> b \<Longrightarrow> b \<le> a \<Longrightarrow> a = b" by (auto simp: less_eq_bearer_kind_def)
  show "a \<le> b \<or> b \<le> a" by (cases a; cases b) (auto simp: less_eq_bearer_kind_def)
qed

end

definition sorted_ranges :: ranges where
  "sorted_ranges = \<lparr>rg_ids = sorted_list_of_fset, rg_keys = sorted_list_of_fset, rg_leases = sorted_list_of_fset\<rparr>"

lemma sorted_ranges_ok: "ranges_ok sorted_ranges"
  by (simp add: ranges_ok_def sorted_ranges_def sorted_list_of_fset.rep_eq)

definition ann :: auth_user where
  "ann = \<lparr>ui_id = UserID ''u'', ui_credential = ai_credential ex_auth, au_org = ''o'', au_username = ''ann'', au_admin = False, au_email = [],
     au_verified = True, au_since = 0, au_expires = At 100, au_user_gen = 1, au_gen = 0\<rparr>"

text \<open>Ann's session is validated, a connection takes a lease on it, and the session is revoked five seconds on.\<close>

definition ann_begun :: auth_world where
  "ann_begun = \<lparr>aw_state = new_auth, aw_log = [], aw_flights = [(ForSession ''s'', 0, 0)], aw_users = []\<rparr>"

definition ann_in :: auth_world where
  "ann_in = ann_begun\<lparr>aw_state := snd (publish_session 0 ''s'' ann 0 new_auth), aw_users := [(ann, 0)]\<rparr>"

definition ann_leased :: auth_world where
  "ann_leased = ann_in\<lparr>aw_state := snd (RegisterAuthenticatedLease 0 (At 100) ann ''conn'' (aw_state ann_in))\<rparr>"

definition ann_out :: auth_world where
  "ann_out = ann_leased\<lparr>aw_state := Evict sorted_ranges 5 ''s'' (aw_state ann_leased), aw_log := [(RevSession ''s'' 1, 5)]\<rparr>"

lemma ann_leased_reachable: "auth_reachable 0 ann_leased"
proof -
  have "auth_reachable 0 \<lparr>aw_state = new_auth, aw_log = [], aw_flights = [], aw_users = []\<rparr>" by (rule auth_reachable.start)
  from auth_reachable.begin_validation [OF this, of "ForSession ''s''"] have 1: "auth_reachable 0 ann_begun" by (simp add: ann_begun_def new_auth_def)
  have "publish_session 0 ''s'' ann 0 new_auth = (Published ann, snd (publish_session 0 ''s'' ann 0 new_auth))"
    by (simp add: publish_session_def sessionRevoked_def revokedAfter_def revocationMarkAfter_def userRevokedAfter_def userInvalidatedAfter_def
        cloneUserInfoWithGeneration_def new_auth_def ann_def)
  with auth_reachable.session_validated [OF 1, of "''s''" 0 0 ann] have 2: "auth_reachable 0 ann_in"
    by (simp add: ann_begun_def ann_in_def SessionDuration_def ann_def ex_auth_def SessionID_def uid_IsZero_def)
  have "ann\<lparr>au_expires := At 100\<rparr> = ann" by (simp add: ann_def)
  with auth_reachable.lease [OF 2, of ann 0 "At 100" "At 100" "''conn''"] show ?thesis by (simp add: ann_leased_def ann_in_def SessionDuration_def)
qed

lemma ann_out_reachable: "auth_reachable 5 ann_out"
proof -
  have "as_gen (aw_state ann_leased) = 0"
    by (simp add: ann_leased_def ann_in_def ann_begun_def RegisterAuthenticatedLease_def Let_def addLeaseLocked_def publish_session_def new_auth_def split: option.splits)
  moreover have "aw_log ann_leased = []" by (simp add: ann_leased_def ann_in_def ann_begun_def)
  ultimately show ?thesis
    using auth_reachable.revoke_session [OF auth_reachable.wait [OF ann_leased_reachable] sorted_ranges_ok, of 5 "''s''"] by (simp add: ann_out_def)
qed

theorem revoked_never_served_witness:
  "auth_reachable 5 ann_out \<and> aw_log ann_out = [(RevSession ''s'' 1, 5)] \<and> outdated ann (RevSession ''s'' 1) \<and>
    \<not> (\<exists>j l. fmlookup (as_leases (aw_state ann_out)) j = Some l \<and> outdated (le_user l) (RevSession ''s'' 1))"
proof -
  have r: "aw_log ann_out = [] @ (RevSession ''s'' 1, 5) # []" by (simp add: ann_out_def)
  have "\<not> (\<exists>j l. fmlookup (as_leases (aw_state ann_out)) j = Some l \<and> outdated (le_user l) (RevSession ''s'' 1))"
    using revoked_never_served [OF ann_out_reachable r] by auto
  then show ?thesis using ann_out_reachable r by (simp add: ann_def ex_auth_def SessionID_def)
qed

text \<open>A fail-safe revocation is undone by a later one with a generation: the mark of the second
  compares generations of the user only, and Ann's session, whose validation began before both, is published.\<close>

definition ann_revoked :: auth_state where
  "ann_revoked = RevokeUserAuthContextAtGeneration sorted_ranges 7 ''u'' 1 (RevokeUserAuthContextAtGeneration sorted_ranges 5 ''u'' 0 new_auth)"

theorem failsafe_mark_replaced:
  "outdated ann (RevUser ''u'' 1 0) \<and> weakens (RevUser ''u'' 2 1) (RevUser ''u'' 1 0) \<and>
   fst (publish_session 8 ''s'' ann 0 (RevokeUserAuthContextAtGeneration sorted_ranges 5 ''u'' 0 new_auth)) = Refused \<and>
   fst (publish_session 8 ''s'' ann 0 ann_revoked) = Published ann"
  by (simp add: ann_revoked_def RevokeUserAuthContextAtGeneration_def removeIndexedLeasesLocked_def bumpGeneration_def new_auth_def
      evictSessionsByUserGeneration_def evictBearersByUserGeneration_def cancelLeases_def sorted_ranges_def bucket_def Let_def ann_def
      publish_session_def sessionRevoked_def revokedAfter_def revocationMarkAfter_def userRevokedAfter_def userInvalidatedAfter_def uid_IsZero_def
      cloneUserInfoWithGeneration_def sorted_list_of_fset.rep_eq)

lemma ann_lease: "fmlookup (as_leases (aw_state ann_leased)) 1 = Some \<lparr>le_user = ann, le_cancel = ''conn'', le_timer = Some (100, 0), le_epoch = 0\<rparr>"
  by (simp add: ann_leased_def ann_in_def RegisterAuthenticatedLease_def publish_session_def sessionRevoked_def revokedAfter_def revocationMarkAfter_def
      userRevokedAfter_def userInvalidatedAfter_def new_auth_def ann_def ex_auth_def SessionID_def BearerRef_def Bearer_def Let_def addLeaseLocked_def
      currentCredentialExpiryLocked_def Later_def IsCurrent_def deadline_At_def isAuthContextCurrentLocked_def bucket_def indexLease_def)

theorem logout_exact_witness:
  "reg (snd (SessionRevoked sorted_ranges sorted_range (\<lambda>_ _. False) 0 ''s'' (aw_state ann_leased, ex_hub))) = Map.empty \<and>
    fmlookup (as_leases (fst (SessionRevoked sorted_ranges sorted_range (\<lambda>_ _. False) 0 ''s'' (aw_state ann_leased, ex_hub)))) 1 = None"
proof -
  let ?r = "SessionRevoked sorted_ranges sorted_range (\<lambda>_ _. False) 0 ''s'' (aw_state ann_leased, ex_hub)"
  note e = logout_exact [OF ann_leased_reachable ex_reachable sorted_ranges_ok sorted_range_order _ surjective_pairing, of "''s''" "\<lambda>_ _. False" 1]
  have "reg (snd ?r) = drop_channels (\<lambda>ch. SessionID (ai_credential (ch_auth ch)) = ''s'') ex_hub" using e by blast
  moreover have "fmlookup (as_leases (fst ?r)) 1 = None" using e ann_lease by (simp add: ann_def ex_auth_def SessionID_def)
  ultimately show ?thesis by (simp add: fun_eq_iff drop_demo ex_channel_def ex_auth_def SessionID_def)
qed

theorem password_change_exact_witness:
  "fmlookup (as_leases (fst (RevokeUserPreservingSession sorted_ranges sorted_range (\<lambda>_ _. False) 0 ''u'' ''s'' 2 (aw_state ann_leased, ex_hub)))) 1 =
     Some \<lparr>le_user = ann\<lparr>au_user_gen := 2\<rparr>, le_cancel = ''conn'', le_timer = Some (100, 0), le_epoch = 0\<rparr> \<and>
   reg (snd (RevokeUserPreservingSession sorted_ranges sorted_range (\<lambda>_ _. False) 0 ''u'' ''s'' 2 (aw_state ann_leased, ex_hub))) ''c'' =
     Some (ex_channel\<lparr>ch_auth := (ch_auth ex_channel)\<lparr>ai_generation := 2\<rparr>\<rparr>)"
proof -
  have "as_userRevocations (aw_state ann_leased) = fmempty"
    by (simp add: ann_leased_def ann_in_def RegisterAuthenticatedLease_def publish_session_def new_auth_def Let_def addLeaseLocked_def split: option.splits)
  then have new: "\<forall>k. fmlookup (as_userRevocations (aw_state ann_leased)) ''u'' = Some k \<longrightarrow> mk_user_gen k < 2" by simp
  note e = password_change_exact [OF ann_leased_reachable ex_reachable sorted_ranges_ok sorted_range_order _ _ _ new surjective_pairing,
      of "''s''" "\<lambda>_ _. False" 1 "''c''"]
  show ?thesis using e ann_lease by (simp add: ex_reg ann_def ex_channel_def ex_auth_def SessionID_def)
qed

end
