(* ===== verification/Revocation.thy ===== *)
theory Revocation
  imports AuthCache
begin

text \<open>
  Revocations across processes. A change of a credential writes an event in the same transaction; the hub
  that holds the lease publishes pending events under gapless numbers (store/revocation\_core.go and the
  statements of the SQL stores), and its watcher (revocationwatcher/watcher.go) applies them in order to the
  caches and channels. The lease is one row of the database, so that one hub runs at a time. A call to the
  store is given by what it answers; times are milliseconds, the resolution of the lease.
\<close>

section \<open>The tables\<close>

record rev_event =
  ev_ID :: ident
  ev_Kind :: string
  ev_SubjectID :: ident
  ev_UserID :: ident
  ev_RevokedAt :: int
  ev_Generation :: int
  ev_CreatedAt :: int

record rev_row =
  rr_event :: rev_event
  rr_seq :: "int option"
  rr_publishedAt :: int

record rev_lease =
  rl_holder :: ident
  rl_cursor :: int
  rl_expires :: int

record rev_db =
  rd_rows :: "rev_row list"
  rd_lastSeq :: int
  rd_lease :: "rev_lease option"

datatype rev_error = ErrHubAlreadyRunning | HolderRequired | LeaseTooShort | RevStoreError string

text \<open>A duration in nanoseconds, truncated to milliseconds. The durations of a hub are whole
  milliseconds here, as its clock is; \<open>milliseconds\<close> makes them durations of the language.\<close>

definition HubRuntimeLeaseMillis :: "int \<Rightarrow> rev_error + int" where
  "HubRuntimeLeaseMillis duration = (let millis = duration div 1000000
     in if duration \<le> 0 \<or> millis \<le> 0 then Inl LeaseTooShort else Inr millis)"

definition milliseconds :: "int \<Rightarrow> int" where
  "milliseconds n = n * 1000000"

lemma HubRuntimeLeaseMillis_whole [simp]:
  "HubRuntimeLeaseMillis (milliseconds n) = (if n \<le> 0 then Inl LeaseTooShort else Inr n)"
  by (simp add: HubRuntimeLeaseMillis_def milliseconds_def mult_le_0_iff)

text \<open>The pending events in the order of their creation, and the statement that numbers the first of them.\<close>

definition pending_ids :: "rev_row list \<Rightarrow> ident list" where
  "pending_ids rows = map (\<lambda>r. ev_ID (rr_event r))
     (sort_key (\<lambda>r. ev_CreatedAt (rr_event r)) (sort_key (\<lambda>r. ev_ID (rr_event r)) (filter (\<lambda>r. rr_seq r = None) rows)))"

fun offset_of :: "ident list \<Rightarrow> ident \<Rightarrow> nat option" where
  "offset_of [] i = None"
| "offset_of (j # js) i = (if i = j then Some 1 else map_option Suc (offset_of js i))"

definition PublishRows :: "int \<Rightarrow> nat \<Rightarrow> int \<Rightarrow> rev_row list \<Rightarrow> nat \<times> rev_row list" where
  "PublishRows now limit lastSeq rows =
     (let ids = take limit (pending_ids rows)
      in (length ids, map (\<lambda>r. case offset_of ids (ev_ID (rr_event r)) of None \<Rightarrow> r
            | Some k \<Rightarrow> if rr_seq r = None then r\<lparr>rr_seq := Some (lastSeq + int k), rr_publishedAt := now\<rparr> else r) rows))"

definition publishPending :: "int \<Rightarrow> int \<Rightarrow> rev_db \<Rightarrow> (int \<times> int) \<times> rev_db" where
  "publishPending now limit db =
     (if limit \<le> 0 then ((0, rd_lastSeq db), db)
      else (case PublishRows now (nat limit) (rd_lastSeq db) (rd_rows db) of (n, rows) \<Rightarrow>
        let nextSeq = rd_lastSeq db + int n in
        if n = 0 then ((0, nextSeq), db) else ((int n, nextSeq), db\<lparr>rd_rows := rows, rd_lastSeq := nextSeq\<rparr>)))"

definition PublishPending :: "int \<Rightarrow> int \<Rightarrow> rev_db \<Rightarrow> int \<times> rev_db" where
  "PublishPending now limit db =
     (if limit \<le> 0 then (0, db)
      else if \<not> (\<exists>r \<in> set (rd_rows db). rr_seq r = None) then (0, db)
      else (case publishPending now limit db of ((n, _), db1) \<Rightarrow> (n, db1)))"

definition DeleteExpiredLease :: "int \<Rightarrow> rev_db \<Rightarrow> rev_db" where
  "DeleteExpiredLease now db = (case rd_lease db of None \<Rightarrow> db | Some l \<Rightarrow> if rl_expires l \<le> now then db\<lparr>rd_lease := None\<rparr> else db)"

definition AcquireHubRuntimeLease :: "int \<Rightarrow> ident \<Rightarrow> int \<Rightarrow> int \<Rightarrow> rev_db \<Rightarrow> (rev_error + int) \<times> rev_db" where
  "AcquireHubRuntimeLease now holder publishLimit duration db =
     (if holder = [] then (Inl HolderRequired, db)
      else case HubRuntimeLeaseMillis (milliseconds duration) of Inl e \<Rightarrow> (Inl e, db)
      | Inr millis \<Rightarrow> (case publishPending now publishLimit db of ((_, fence), db1) \<Rightarrow>
          let db2 = DeleteExpiredLease now db1 in
          if rd_lease db2 \<noteq> None then (Inl ErrHubAlreadyRunning, db)
          else (Inr fence, db2\<lparr>rd_lease := Some \<lparr>rl_holder = holder, rl_cursor = fence, rl_expires = now + millis\<rparr>\<rparr>)))"

definition RenewHubRuntimeLease :: "int \<Rightarrow> ident \<Rightarrow> int \<Rightarrow> int \<Rightarrow> rev_db \<Rightarrow> (rev_error + bool) \<times> rev_db" where
  "RenewHubRuntimeLease now holder cursor duration db = (case HubRuntimeLeaseMillis (milliseconds duration) of Inl e \<Rightarrow> (Inl e, db)
     | Inr millis \<Rightarrow> (case rd_lease db of None \<Rightarrow> (Inr False, db)
        | Some l \<Rightarrow> if rl_holder l = holder \<and> rl_expires l > now \<and> rl_cursor l \<le> cursor \<and> cursor \<le> rd_lastSeq db
            then (Inr True, db\<lparr>rd_lease := Some (l\<lparr>rl_cursor := cursor, rl_expires := now + millis\<rparr>)\<rparr>)
            else (Inr False, db)))"

definition ReleaseHubRuntimeLease :: "ident \<Rightarrow> rev_db \<Rightarrow> rev_db" where
  "ReleaseHubRuntimeLease holder db = (case rd_lease db of None \<Rightarrow> db | Some l \<Rightarrow> if rl_holder l = holder then db\<lparr>rd_lease := None\<rparr> else db)"

text \<open>Compaction removes at most a thousand published events, none beyond the cursor of the lease.\<close>

definition compactable :: "int \<Rightarrow> rev_db \<Rightarrow> rev_row list" where
  "compactable cutoff db =
     (let upTo = (case rd_lease db of None \<Rightarrow> rd_lastSeq db | Some l \<Rightarrow> rl_cursor l)
      in take 1000 (sort_key (\<lambda>r. the (rr_seq r)) (filter (\<lambda>r. rr_seq r \<noteq> None \<and> rr_publishedAt r < cutoff \<and> the (rr_seq r) \<le> upTo) (rd_rows db))))"

definition CompactPublished :: "int \<Rightarrow> int \<Rightarrow> rev_db \<Rightarrow> rev_db" where
  "CompactPublished now cutoff db =
     (let db1 = DeleteExpiredLease now db; ids = map (\<lambda>r. ev_ID (rr_event r)) (compactable cutoff db1)
      in db1\<lparr>rd_rows := filter (\<lambda>r. ev_ID (rr_event r) \<notin> set ids) (rd_rows db1)\<rparr>)"

definition ListPublishedAfter :: "int \<Rightarrow> int \<Rightarrow> rev_db \<Rightarrow> (int \<times> rev_event) list" where
  "ListPublishedAfter afterSeq limit db =
     (if limit \<le> 0 then []
      else take (nat limit) (map (\<lambda>r. (the (rr_seq r), rr_event r))
        (sort_key (\<lambda>r. the (rr_seq r)) (filter (\<lambda>r. rr_seq r \<noteq> None \<and> the (rr_seq r) > afterSeq) (rd_rows db)))))"

definition insertRevocationEvent :: "rev_event \<Rightarrow> rev_db \<Rightarrow> rev_db" where
  "insertRevocationEvent ev db = db\<lparr>rd_rows := rd_rows db @ [\<lparr>rr_event = ev, rr_seq = None, rr_publishedAt = 0\<rparr>]\<rparr>"

section \<open>The watcher\<close>

datatype watch_error = ErrLeaseLost | ErrNotSeeded | ErrWatcherClosed | AlreadySeeded | WatchStoreError string | WatchCtxDone

text \<open>\<open>wt_fatal\<close> is the error in the channel of errors, which has room for one.\<close>

record watcher =
  wt_leaseDuration :: int
  wt_pageSize :: int
  wt_maxEvents :: int
  wt_lastSeq :: int
  wt_expires :: int
  wt_seeded :: bool
  wt_closed :: bool
  wt_fatal :: "watch_error option"

definition new_watcher :: "int \<Rightarrow> int \<Rightarrow> int \<Rightarrow> watcher" where
  "new_watcher leaseDuration pageSize maxEvents = \<lparr>wt_leaseDuration = leaseDuration, wt_pageSize = pageSize, wt_maxEvents = maxEvents,
     wt_lastSeq = 0, wt_expires = 0, wt_seeded = False, wt_closed = False, wt_fatal = None\<rparr>"

definition errorsIsLeaseFatal :: "watch_error \<Rightarrow> bool" where
  "errorsIsLeaseFatal e \<longleftrightarrow> e = ErrLeaseLost \<or> e = ErrNotSeeded"

definition signalFatalLocked :: "watch_error \<Rightarrow> watcher \<Rightarrow> watcher" where
  "signalFatalLocked e w = (case wt_fatal w of None \<Rightarrow> w\<lparr>wt_fatal := Some e\<rparr> | Some _ \<Rightarrow> w)"

definition checkLeaseLocked :: "int \<Rightarrow> watcher \<Rightarrow> watch_error option" where
  "checkLeaseLocked now w = (if now < wt_expires w then None else Some ErrLeaseLost)"

definition leaseBudgetExpiry :: "int \<Rightarrow> int \<Rightarrow> int \<Rightarrow> int \<times> bool" where
  "leaseBudgetExpiry now startedAt duration = (startedAt + duration, \<not> now < startedAt + duration)"

definition handleStoreErrorLocked :: "int \<Rightarrow> watch_error \<Rightarrow> watcher \<Rightarrow> watch_error \<times> watcher" where
  "handleStoreErrorLocked now e w = (case checkLeaseLocked now w of Some e' \<Rightarrow> (e', signalFatalLocked e' w) | None \<Rightarrow> (e, w))"

text \<open>The two ends of acquiring the lease, around the call to the store. The flag says that the lease is to be released.\<close>

definition seed_start :: "watcher \<Rightarrow> watch_error option" where
  "seed_start w = (if wt_closed w then Some ErrWatcherClosed else if wt_seeded w then Some AlreadySeeded else None)"

definition seed_finish :: "int \<Rightarrow> int \<Rightarrow> int \<Rightarrow> watcher \<Rightarrow> (watch_error option \<times> bool) \<times> watcher" where
  "seed_finish now startedAt maxSeq w =
     (if wt_closed w then ((Some ErrWatcherClosed, True), w)
      else case leaseBudgetExpiry now startedAt (wt_leaseDuration w) of (expiresAt, exceeded) \<Rightarrow>
        if exceeded then ((Some ErrLeaseLost, True), w)
        else ((None, False), w\<lparr>wt_lastSeq := maxSeq, wt_expires := expiresAt, wt_seeded := True\<rparr>))"

text \<open>The two ends of a renewal.\<close>

definition renew_start :: "int \<Rightarrow> watcher \<Rightarrow> watch_error option \<times> watcher" where
  "renew_start now w =
     (if wt_closed w then (Some ErrWatcherClosed, w)
      else if \<not> now < wt_expires w then (Some ErrLeaseLost, signalFatalLocked ErrLeaseLost w)
      else (None, w))"

definition renew_finish :: "int \<Rightarrow> int \<Rightarrow> (watch_error + bool) \<Rightarrow> watcher \<Rightarrow> watch_error option \<times> watcher" where
  "renew_finish now startedAt answer w = (case answer of
     Inl e \<Rightarrow> (case handleStoreErrorLocked now e w of (e', w') \<Rightarrow> (Some e', w'))
   | Inr advanced \<Rightarrow>
       if \<not> advanced then (Some ErrLeaseLost, signalFatalLocked ErrLeaseLost w)
       else (case leaseBudgetExpiry now startedAt (wt_leaseDuration w) of (expiresAt, exceeded) \<Rightarrow>
         if exceeded then (Some ErrLeaseLost, signalFatalLocked ErrLeaseLost w) else (None, w\<lparr>wt_expires := expiresAt\<rparr>)))"

definition renew_stale :: "int \<Rightarrow> watcher \<Rightarrow> bool" where
  "renew_stale now w \<longleftrightarrow> \<not> (2 * (wt_expires w - now) > wt_leaseDuration w)"

text \<open>
  A sweep, by the places where it waits: for the publication of a page with so many published, for the list of a page
  with so many processed, for the effect of an event with the rest of its page, and for renewals in between.
\<close>

datatype phase = Idle
  | PublishCall int | PublishGot int "watch_error + int" | PublishRenew int
  | ListCall int | ListGot int "watch_error + (int \<times> rev_event) list" | ListRenew
  | Applying "(int \<times> rev_event) list" int int int
  | Effect "int \<times> rev_event" "(int \<times> rev_event) list" int int int
  | PageRenew int int int

definition page_limit :: "int \<Rightarrow> watcher \<Rightarrow> int" where
  "page_limit done_so_far w = min (wt_pageSize w) (wt_maxEvents w - done_so_far)"

definition run_begin :: "int \<Rightarrow> watcher \<Rightarrow> watch_error option \<times> watcher" where
  "run_begin now w =
     (if wt_closed w then (Some ErrWatcherClosed, w)
      else if \<not> wt_seeded w then (Some ErrNotSeeded, w)
      else (case checkLeaseLocked now w of Some e \<Rightarrow> (Some e, signalFatalLocked e w) | None \<Rightarrow> (None, w)))"

definition consume_from :: "int \<Rightarrow> watcher \<Rightarrow> phase" where
  "consume_from processed w = (if processed < wt_maxEvents w then ListCall processed else Idle)"

definition publish_from :: "int \<Rightarrow> watcher \<Rightarrow> phase" where
  "publish_from published w = (if published < wt_maxEvents w then PublishCall published else consume_from 0 w)"

text \<open>After the call that published a page.\<close>

definition publishPendingLocked :: "int \<Rightarrow> int \<Rightarrow> (watch_error + int) \<Rightarrow> watcher \<Rightarrow> phase \<times> watcher" where
  "publishPendingLocked now published answer w = (case answer of
     Inl e \<Rightarrow> (case handleStoreErrorLocked now e w of (e', w') \<Rightarrow> (if errorsIsLeaseFatal e' then Idle else consume_from 0 w', w'))
   | Inr n \<Rightarrow>
       if n = 0 then (consume_from 0 w, w)
       else if n < page_limit published w then (consume_from 0 w, w)
       else if renew_stale now w then (PublishRenew (published + n), w)
       else (publish_from (published + n) w, w))"

text \<open>After the call that listed a page.\<close>

definition consumePageLocked :: "int \<Rightarrow> int \<Rightarrow> (watch_error + (int \<times> rev_event) list) \<Rightarrow> watcher \<Rightarrow> phase \<times> watcher" where
  "consumePageLocked now processed answer w = (case answer of
     Inl e \<Rightarrow> (case handleStoreErrorLocked now e w of (e', w') \<Rightarrow> (Idle, w'))
   | Inr events \<Rightarrow>
       if events = [] then (if renew_stale now w then ListRenew else Idle, w)
       else (Applying events (page_limit processed w) processed (int (length events)), w))"

text \<open>Before each event, and after its effect.\<close>

definition apply_check :: "int \<Rightarrow> bool \<Rightarrow> watcher \<Rightarrow> watch_error option \<times> watcher" where
  "apply_check now ctxDone w =
     (if ctxDone then (Some WatchCtxDone, w)
      else if wt_closed w \<or> \<not> wt_seeded w then (Some ErrWatcherClosed, w)
      else (case checkLeaseLocked now w of Some e \<Rightarrow> (Some e, signalFatalLocked e w) | None \<Rightarrow> (None, w)))"

definition apply_done :: "bool \<Rightarrow> int \<Rightarrow> watcher \<Rightarrow> watch_error option \<times> watcher" where
  "apply_done ctxDone seq w =
     (let w1 = w\<lparr>wt_lastSeq := seq\<rparr> in
      if ctxDone then (Some WatchCtxDone, w1) else if wt_closed w1 \<or> \<not> wt_seeded w1 then (Some ErrWatcherClosed, w1) else (None, w1))"

text \<open>After the renewal at the end of a page of \<open>n\<close> events.\<close>

definition page_done :: "int \<Rightarrow> int \<Rightarrow> int \<Rightarrow> watcher \<Rightarrow> phase" where
  "page_done limit processed n w = (if n < limit then Idle else consume_from (processed + n) w)"

section \<open>The effect of an event\<close>

definition eventUserID :: "rev_event \<Rightarrow> ident" where
  "eventUserID ev = (if ev_UserID ev \<noteq> [] then ev_UserID ev else ev_SubjectID ev)"

definition applyEvent :: "ranges \<Rightarrow> range_fun \<Rightarrow> (ident \<Rightarrow> channel_message \<Rightarrow> bool) \<Rightarrow> int \<Rightarrow> rev_event \<Rightarrow> hub_auth \<Rightarrow> hub_auth" where
  "applyEvent g it fails now ev h =
     (if ev_Kind ev = ''session'' then SessionRevoked g it fails now (ev_SubjectID ev) h
      else if ev_Kind ev = ''api_token'' then BearerRevoked g it fails now BearerKindAPI (ev_SubjectID ev) h
      else if ev_Kind ev = ''api_token_rotation'' then BearerRotatedCacheOnly g now BearerKindAPI (ev_SubjectID ev) h
      else if ev_Kind ev = ''delegation_token'' then BearerRevoked g it fails now BearerKindDelegation (ev_SubjectID ev) h
      else if ev_Kind ev = ''user_tokens'' then UserRevoked g it fails now (eventUserID ev) (ev_Generation ev) h
      else if ev_Kind ev = ''user_info'' then UserInfoInvalidated g now (eventUserID ev) h
      else h)"

end
