(* ===== verification/RevocationLaws.thy ===== *)
theory RevocationLaws
  imports Revocation
begin

text \<open>
  Hubs that compete for the lease of one database, with the delays of every call to it: at most one believes
  that it holds the lease, and each applies, in order and without a gap, exactly the events published since it
  started. Events are published once, under consecutive numbers, and kept until the holder has consumed them.
\<close>

section \<open>Numbering\<close>

lemma offset_of_iff: "distinct ids \<Longrightarrow> offset_of ids i = Some k \<longleftrightarrow> 1 \<le> k \<and> k \<le> length ids \<and> ids ! (k - 1) = i"
proof (induction ids arbitrary: k)
  case (Cons j ids)
  show ?case
  proof (cases "i = j")
    case True
    then have "i \<notin> set ids" using Cons.prems by simp
    then show ?thesis using True by (cases k) (auto simp: nth_Cons split: nat.splits)
  next
    case False
    then show ?thesis using Cons by (cases k) (auto simp: nth_Cons split: nat.splits)
  qed
qed simp

abbreviation row_id :: "rev_row \<Rightarrow> ident" where
  "row_id r \<equiv> ev_ID (rr_event r)"

definition floor_seq :: "rev_db \<Rightarrow> int" where
  "floor_seq db = (case rd_lease db of None \<Rightarrow> rd_lastSeq db | Some l \<Rightarrow> rl_cursor l)"

text \<open>The invariant of the tables: \<open>hist\<close> says which event was published under a number.\<close>

definition rows_ok :: "rev_db \<Rightarrow> (int \<Rightarrow> rev_event) \<Rightarrow> bool" where
  "rows_ok db hist \<longleftrightarrow> distinct (map row_id (rd_rows db)) \<and> 0 \<le> rd_lastSeq db \<and>
     (\<forall>r \<in> set (rd_rows db). \<forall>s. rr_seq r = Some s \<longrightarrow> s \<le> rd_lastSeq db \<and> rr_event r = hist s) \<and>
     (\<forall>r \<in> set (rd_rows db). \<forall>r' \<in> set (rd_rows db). \<forall>s. rr_seq r = Some s \<and> rr_seq r' = Some s \<longrightarrow> r = r')"

lemma rows_ok_lease [simp]: "rows_ok (db\<lparr>rd_lease := l\<rparr>) hist = rows_ok db hist"
  by (simp add: rows_ok_def)

definition db_ok :: "rev_db \<Rightarrow> (int \<Rightarrow> rev_event) \<Rightarrow> bool" where
  "db_ok db hist \<longleftrightarrow> rows_ok db hist \<and> floor_seq db \<le> rd_lastSeq db \<and>
     (\<forall>s. floor_seq db < s \<and> s \<le> rd_lastSeq db \<longrightarrow> (\<exists>r \<in> set (rd_rows db). rr_seq r = Some s))"

text \<open>The history after a publication.\<close>

definition published_at :: "rev_row list \<Rightarrow> int \<Rightarrow> rev_event" where
  "published_at rows s = rr_event (the (find (\<lambda>r. rr_seq r = Some s) rows))"

definition hist_after :: "rev_db \<Rightarrow> rev_db \<Rightarrow> (int \<Rightarrow> rev_event) \<Rightarrow> int \<Rightarrow> rev_event" where
  "hist_after db db' hist s = (if rd_lastSeq db < s \<and> s \<le> rd_lastSeq db' then published_at (rd_rows db') s else hist s)"

lemma hist_after_old: "s \<le> rd_lastSeq db \<Longrightarrow> hist_after db db' hist s = hist s"
  by (simp add: hist_after_def)

lemma hist_after_same: "rd_lastSeq db' = rd_lastSeq db \<Longrightarrow> hist_after db db' hist = hist"
  by (rule ext) (auto simp: hist_after_def)

lemma pending_spec: "set (pending_ids rows) = {row_id r | r. r \<in> set rows \<and> rr_seq r = None}"
  by (auto simp: pending_ids_def)

lemma pending_distinct:
  assumes "distinct (map row_id rows)"
  shows "distinct (pending_ids rows)"
proof -
  have "distinct (map row_id (filter (\<lambda>r. rr_seq r = None) rows))" using assms distinct_map_filter by blast
  moreover have "mset (pending_ids rows) = mset (map row_id (filter (\<lambda>r. rr_seq r = None) rows))" by (simp add: pending_ids_def)
  ultimately show ?thesis using mset_eq_imp_distinct_iff by metis
qed

text \<open>Publishing numbers the first pending rows consecutively and leaves the others.\<close>

definition numbered :: "rev_row list \<Rightarrow> int \<Rightarrow> nat \<Rightarrow> rev_row list \<Rightarrow> bool" where
  "numbered rows base n rows' \<longleftrightarrow> map row_id rows' = map row_id rows \<and>
     (\<forall>r' \<in> set rows'. r' \<in> set rows \<or> (\<exists>k. 1 \<le> k \<and> k \<le> n \<and> rr_seq r' = Some (base + int k))) \<and>
     (\<forall>r \<in> set rows. rr_seq r \<noteq> None \<longrightarrow> r \<in> set rows') \<and>
     (\<forall>k. 1 \<le> k \<and> k \<le> n \<longrightarrow> (\<exists>!r'. r' \<in> set rows' \<and> r' \<notin> set rows \<and> rr_seq r' = Some (base + int k)))"

lemma PublishRows_numbered:
  assumes d: "distinct (map row_id rows)" and p: "PublishRows now limit base rows = (n, rows')"
  shows "numbered rows base n rows'"
proof -
  define ids where "ids = take limit (pending_ids rows)"
  define f where "f = (\<lambda>r. case offset_of ids (row_id r) of None \<Rightarrow> r
      | Some k \<Rightarrow> if rr_seq r = None then r\<lparr>rr_seq := Some (base + int k), rr_publishedAt := now\<rparr> else r)"
  have n: "n = length ids" and rows': "rows' = map f rows" using p by (simp_all add: PublishRows_def ids_def f_def Let_def)
  have di: "distinct ids" using pending_distinct [OF d] by (simp add: ids_def)
  have pend: "\<exists>r \<in> set rows. row_id r = i \<and> rr_seq r = None" if "i \<in> set ids" for i
    using in_set_takeD [OF that [unfolded ids_def]] pending_spec [of rows] by auto
  have same: "r = r'" if "r \<in> set rows" "r' \<in> set rows" "row_id r = row_id r'" for r r' using d that by (auto simp: distinct_map inj_on_def)
  have fid: "row_id (f r) = row_id r" for r by (simp add: f_def split: option.splits)
  have fold: "rr_seq r \<noteq> None \<Longrightarrow> f r = r" for r by (auto simp: f_def split: option.splits)
  have fnew: "f r = r \<or> (\<exists>k. 1 \<le> k \<and> k \<le> n \<and> rr_seq (f r) = Some (base + int k) \<and> rr_seq r = None)" for r
    using offset_of_iff [OF di] by (auto simp: f_def n split: option.splits)
  have ex: "\<exists>!r'. r' \<in> set rows' \<and> r' \<notin> set rows \<and> rr_seq r' = Some (base + int k)" if k: "1 \<le> k" "k \<le> n" for k
  proof -
    have "ids ! (k - 1) \<in> set ids" using k n by simp
    then obtain r where r: "r \<in> set rows" "row_id r = ids ! (k - 1)" "rr_seq r = None" using pend by blast
    then have o: "offset_of ids (row_id r) = Some k" using offset_of_iff [OF di, of "row_id r" k] k n by simp
    then have fr: "f r = r\<lparr>rr_seq := Some (base + int k), rr_publishedAt := now\<rparr>" using r(3) by (simp add: f_def)
    have seq: "rr_seq (f r) = Some (base + int k)" using fr by simp
    then have "f r \<notin> set rows" using same [OF r(1), of "f r"] fid [of r] r(3) by force
    moreover have "r' = f r" if r': "r' \<in> set rows'" "r' \<notin> set rows" "rr_seq r' = Some (base + int k)" for r'
    proof -
      obtain x where x: "x \<in> set rows" "r' = f x" using r'(1) rows' by auto
      then have "f x \<noteq> x" using r'(2) by auto
      then obtain k' where k': "offset_of ids (row_id x) = Some k'" "rr_seq (f x) = Some (base + int k')" by (auto simp: f_def split: option.splits if_splits)
      then have "k' = k" using r'(3) x(2) by simp
      then have "row_id x = row_id r" using k'(1) o offset_of_iff [OF di] by metis
      then show ?thesis using same [OF x(1) r(1)] x(2) by simp
    qed
    moreover have "f r \<in> set rows'" using r(1) rows' by simp
    ultimately show ?thesis using seq by blast
  qed
  have "map row_id rows' = map row_id rows" using fid by (simp add: rows')
  moreover have "\<forall>r' \<in> set rows'. r' \<in> set rows \<or> (\<exists>k. 1 \<le> k \<and> k \<le> n \<and> rr_seq r' = Some (base + int k))"
  proof
    fix r' assume "r' \<in> set rows'"
    then obtain x where "x \<in> set rows" "r' = f x" using rows' by auto
    then show "r' \<in> set rows \<or> (\<exists>k. 1 \<le> k \<and> k \<le> n \<and> rr_seq r' = Some (base + int k))" using fnew [of x] by auto
  qed
  moreover have "\<forall>r \<in> set rows. rr_seq r \<noteq> None \<longrightarrow> r \<in> set rows'" unfolding rows' using fold by (metis image_eqI list.set_map)
  ultimately show ?thesis unfolding numbered_def using ex by blast
qed

lemma find_unique:
  assumes "r \<in> set rows" "P r" "\<And>r'. r' \<in> set rows \<Longrightarrow> P r' \<Longrightarrow> r' = r"
  shows "find P rows = Some r"
proof (cases "find P rows")
  case None
  then show ?thesis using assms(1,2) by (auto simp: find_None_iff)
next
  case (Some x)
  then have "x \<in> set rows" "P x" by (auto simp: find_Some_iff)
  then show ?thesis using assms(3) Some by simp
qed

lemma publish_rows_ok:
  assumes ok: "rows_ok db hist" and num: "numbered (rd_rows db) (rd_lastSeq db) n rows'"
  defines "db' \<equiv> db\<lparr>rd_rows := rows', rd_lastSeq := rd_lastSeq db + int n\<rparr>"
  shows "rows_ok db' (hist_after db db' hist)" "\<And>s. rd_lastSeq db < s \<Longrightarrow> s \<le> rd_lastSeq db' \<Longrightarrow> \<exists>r \<in> set rows'. rr_seq r = Some s"
proof -
  let ?L = "rd_lastSeq db"
  have old: "s \<le> ?L" "rr_event r = hist s" if "r \<in> set (rd_rows db)" "rr_seq r = Some s" for r s using ok that by (auto simp: rows_ok_def)
  have uniq: "r = r'" if rs: "r \<in> set rows'" "r' \<in> set rows'" "rr_seq r = Some s" "rr_seq r' = Some s" for r r' s
  proof (cases "s \<le> ?L")
    case True
    have "x \<in> set (rd_rows db)" if "x \<in> set rows'" "rr_seq x = Some s" for x using that num True unfolding numbered_def by fastforce
    then show ?thesis using ok rs by (auto simp: rows_ok_def)
  next
    case False
    have fresh: "x \<notin> set (rd_rows db)" if "rr_seq x = Some s" for x using old(1) that False by blast
    then obtain k where k: "1 \<le> k" "k \<le> n" "rr_seq r = Some (?L + int k)" using num rs(1,3) unfolding numbered_def by blast
    then have "s = ?L + int k" using rs(3) by simp
    moreover have "\<exists>!x. x \<in> set rows' \<and> x \<notin> set (rd_rows db) \<and> rr_seq x = Some (?L + int k)" using num k(1,2) unfolding numbered_def by blast
    ultimately show ?thesis using rs fresh by blast
  qed
  show new: "\<exists>r \<in> set rows'. rr_seq r = Some s" if "?L < s" "s \<le> rd_lastSeq db'" for s
  proof -
    have "1 \<le> nat (s - ?L)" "nat (s - ?L) \<le> n" "s = ?L + int (nat (s - ?L))" using that by (auto simp: db'_def)
    then show ?thesis using num unfolding numbered_def by metis
  qed
  have le: "s \<le> rd_lastSeq db'" if "r \<in> set rows'" "rr_seq r = Some s" for r s
    using that num old(1) unfolding numbered_def db'_def by fastforce
  have ev: "rr_event r = hist_after db db' hist s" if "r \<in> set rows'" "rr_seq r = Some s" for r s
  proof (cases "s \<le> ?L")
    case True
    then have "r \<in> set (rd_rows db)" using that num unfolding numbered_def by fastforce
    then show ?thesis using True old(2) that by (simp add: hist_after_def)
  next
    case False
    have "find (\<lambda>r. rr_seq r = Some s) rows' = Some r" by (rule find_unique) (use that uniq in auto)
    then show ?thesis using False le [OF that] by (simp add: hist_after_def published_at_def db'_def)
  qed
  show "rows_ok db' (hist_after db db' hist)" using ok num uniq le ev unfolding rows_ok_def by (auto simp: db'_def numbered_def)
qed

text \<open>A change of the tables by a publication, if any.\<close>

lemma publishPending_ok:
  assumes ok: "db_ok db hist" and p: "publishPending now limit db = ((n, fence), db')"
  shows "db_ok db' (hist_after db db' hist)" "rd_lastSeq db \<le> rd_lastSeq db'" "rd_lease db' = rd_lease db" "fence = rd_lastSeq db'"
proof -
  obtain m rows where r: "PublishRows now (nat limit) (rd_lastSeq db) (rd_rows db) = (m, rows)" by (cases "PublishRows now (nat limit) (rd_lastSeq db) (rd_rows db)")
  consider "db' = db" "fence = rd_lastSeq db" | "db' = db\<lparr>rd_rows := rows, rd_lastSeq := rd_lastSeq db + int m\<rparr>" "fence = rd_lastSeq db'"
    using p r by (auto simp: publishPending_def Let_def split: if_splits)
  then have "db_ok db' (hist_after db db' hist) \<and> rd_lastSeq db \<le> rd_lastSeq db' \<and> rd_lease db' = rd_lease db \<and> fence = rd_lastSeq db'"
  proof cases
    case 2
    have "numbered (rd_rows db) (rd_lastSeq db) m rows" using PublishRows_numbered [OF _ r] ok by (simp add: db_ok_def rows_ok_def)
    from publish_rows_ok [OF _ this, of hist, folded 2(1)] ok
    have ro: "rows_ok db' (hist_after db db' hist)" "\<And>s. rd_lastSeq db < s \<Longrightarrow> s \<le> rd_lastSeq db' \<Longrightarrow> \<exists>r \<in> set rows. rr_seq r = Some s" by (auto simp: db_ok_def)
    have "\<exists>r \<in> set rows. rr_seq r = Some s" if "floor_seq db' < s" "s \<le> rd_lastSeq db'" for s
    proof (cases "rd_lastSeq db < s")
      case False
      then have "floor_seq db < s" using that 2(1) by (auto simp: floor_seq_def split: option.splits)
      then obtain r where "r \<in> set (rd_rows db)" "rr_seq r = Some s" using ok False by (auto simp: db_ok_def)
      then show ?thesis using \<open>numbered _ _ _ _\<close> unfolding numbered_def by (metis option.distinct(1))
    qed (use ro(2) that in blast)
    moreover have "floor_seq db' \<le> rd_lastSeq db'" using ok 2(1) by (auto simp: db_ok_def floor_seq_def split: option.splits)
    ultimately show ?thesis using 2 ro(1) by (auto simp: db_ok_def)
  qed (use ok hist_after_same [of db' db hist] in simp)
  then show "db_ok db' (hist_after db db' hist)" "rd_lastSeq db \<le> rd_lastSeq db'" "rd_lease db' = rd_lease db" "fence = rd_lastSeq db'" by auto
qed

lemma DeleteExpired_ok: "db_ok db hist \<Longrightarrow> db_ok (DeleteExpiredLease now db) hist"
  by (auto simp: db_ok_def DeleteExpiredLease_def floor_seq_def split: option.splits)

lemma Release_ok: "db_ok db hist \<Longrightarrow> db_ok (ReleaseHubRuntimeLease h db) hist"
  by (auto simp: db_ok_def ReleaseHubRuntimeLease_def floor_seq_def split: option.splits)

lemma Renew_ok: "db_ok db hist \<Longrightarrow> RenewHubRuntimeLease now h cursor dur db = (a, db') \<Longrightarrow> db_ok db' hist"
  by (auto simp: db_ok_def RenewHubRuntimeLease_def floor_seq_def split: option.splits if_splits sum.splits)

lemma insert_ok:
  assumes "db_ok db hist" "\<forall>r \<in> set (rd_rows db). row_id r \<noteq> ev_ID ev"
  shows "db_ok (insertRevocationEvent ev db) hist"
  using assms by (auto simp: db_ok_def rows_ok_def insertRevocationEvent_def floor_seq_def split: option.splits)

lemma Compact_ok:
  assumes "db_ok db hist"
  shows "db_ok (CompactPublished now cutoff db) hist"
proof -
  let ?d = "DeleteExpiredLease now db"
  have ok: "db_ok ?d hist" using DeleteExpired_ok [OF assms] .
  have old: "the (rr_seq r) \<le> floor_seq ?d \<and> r \<in> set (rd_rows ?d)" if "r \<in> set (compactable cutoff ?d)" for r
    using in_set_takeD [OF that [unfolded compactable_def Let_def]] by (auto simp: floor_seq_def split: option.splits)
  have keep: "row_id r \<notin> row_id ` set (compactable cutoff ?d)" if "r \<in> set (rd_rows ?d)" "rr_seq r = Some s" "floor_seq ?d < s" for r s
  proof
    assume "row_id r \<in> row_id ` set (compactable cutoff ?d)"
    then obtain x where x: "x \<in> set (compactable cutoff ?d)" "row_id r = row_id x" by blast
    then have "x = r" using old [OF x(1)] that(1) ok by (auto simp: db_ok_def rows_ok_def distinct_map inj_on_def)
    then show False using old [OF x(1)] that by simp
  qed
  have "rows_ok (CompactPublished now cutoff db) hist"
    using ok by (auto simp: db_ok_def rows_ok_def CompactPublished_def Let_def distinct_map_filter)
  moreover have "floor_seq (CompactPublished now cutoff db) = floor_seq ?d" "rd_lastSeq (CompactPublished now cutoff db) = rd_lastSeq ?d"
    by (simp_all add: CompactPublished_def floor_seq_def Let_def split: option.splits)
  moreover have "\<exists>r \<in> set (rd_rows (CompactPublished now cutoff db)). rr_seq r = Some s" if "floor_seq ?d < s" "s \<le> rd_lastSeq ?d" for s
    using ok that keep by (fastforce simp: db_ok_def CompactPublished_def Let_def)
  ultimately show ?thesis using ok by (simp add: db_ok_def)
qed

section \<open>Listing\<close>

definition consecutive :: "(int \<Rightarrow> rev_event) \<Rightarrow> int \<Rightarrow> int \<Rightarrow> (int \<times> rev_event) list \<Rightarrow> bool" where
  "consecutive hist upTo a evs \<longleftrightarrow> evs = map (\<lambda>i. (i, hist i)) [a + 1..a + int (length evs)] \<and> a + int (length evs) \<le> upTo"

lemma take_upto: "take k [a + 1..b] = [a + 1..a + int (min k (nat (b - a)))]"
proof (cases "k < nat (b - a) \<and> 0 < k")
  case True
  then have "[a + 1..b] = [a + 1..a + int k] @ [a + int k + 1..b]" by (intro upto_split2) auto
  then show ?thesis using True by (simp add: min_def)
next
  case False
  then show ?thesis by (cases "k = 0") (auto simp: min_def)
qed

text \<open>After a cursor from which nothing was removed, a page is what comes next.\<close>

lemma list_next:
  assumes ok: "db_ok db hist" and a: "floor_seq db \<le> a" "a \<le> rd_lastSeq db"
  shows "consecutive hist (rd_lastSeq db) a (ListPublishedAfter a limit db)"
proof (cases "limit \<le> 0")
  case False
  define sel where "sel = filter (\<lambda>r. rr_seq r \<noteq> None \<and> the (rr_seq r) > a) (rd_rows db)"
  define rows where "rows = sort_key (\<lambda>r. the (rr_seq r)) sel"
  have mem: "set rows = {r \<in> set (rd_rows db). rr_seq r \<noteq> None \<and> the (rr_seq r) > a}" by (auto simp: rows_def sel_def)
  have "distinct (rd_rows db)" using ok by (auto simp: db_ok_def rows_ok_def distinct_map)
  then have "distinct rows" by (simp add: rows_def sel_def)
  moreover have "inj_on (\<lambda>r. the (rr_seq r)) (set rows)" using ok unfolding mem inj_on_def db_ok_def rows_ok_def by auto
  ultimately have "distinct (map (\<lambda>r. the (rr_seq r)) rows)" by (simp add: distinct_map)
  moreover have "sorted (map (\<lambda>r. the (rr_seq r)) rows)" by (simp add: rows_def)
  moreover have "set (map (\<lambda>r. the (rr_seq r)) rows) = set [a + 1..rd_lastSeq db]"
  proof -
    have "s \<in> (\<lambda>r. the (rr_seq r)) ` set rows" if s: "a + 1 \<le> s" "s \<le> rd_lastSeq db" for s
    proof -
      have "floor_seq db < s" using s a by simp
      then obtain r where "r \<in> set (rd_rows db)" "rr_seq r = Some s" using ok s(2) unfolding db_ok_def by blast
      then show ?thesis using s mem by (intro image_eqI [of _ _ r]) auto
    qed
    then have "set [a + 1..rd_lastSeq db] \<subseteq> (\<lambda>r. the (rr_seq r)) ` set rows" by auto
    moreover have "(\<lambda>r. the (rr_seq r)) ` set rows \<subseteq> set [a + 1..rd_lastSeq db]" using ok mem by (auto simp: db_ok_def rows_ok_def)
    ultimately show ?thesis by auto
  qed
  ultimately have seqs: "map (\<lambda>r. the (rr_seq r)) rows = [a + 1..rd_lastSeq db]" using sorted_distinct_set_unique by (metis distinct_upto sorted_upto)
  have "map (\<lambda>r. (the (rr_seq r), rr_event r)) rows = map (\<lambda>r. (\<lambda>i. (i, hist i)) (the (rr_seq r))) rows"
    using ok mem by (auto simp: db_ok_def rows_ok_def)
  also have "\<dots> = map (\<lambda>i. (i, hist i)) [a + 1..rd_lastSeq db]" unfolding seqs [symmetric] by simp
  finally have l: "ListPublishedAfter a limit db = take (nat limit) (map (\<lambda>i. (i, hist i)) [a + 1..rd_lastSeq db])"
    using False by (simp add: ListPublishedAfter_def rows_def sel_def)
  show ?thesis using a(2) take_upto by (simp add: consecutive_def l take_map)
qed (simp add: consecutive_def ListPublishedAfter_def a(2))

section \<open>Hubs\<close>

text \<open>
  A process: its watcher, where its sweep is, a renewal that is under way (when it began and what the store answered), an
  acquisition that is under way, the number it started from, and the events it has applied.
\<close>

record process =
  pr_w :: watcher
  pr_phase :: phase
  pr_renew :: "(int \<times> (watch_error + bool) option) option"
  pr_acq :: "(int \<times> int option) option"
  pr_fence :: int
  pr_applied :: "(int \<times> rev_event) list"

record rev_world =
  rv_db :: rev_db
  rv_now :: int
  rv_procs :: "(ident, process) fmap"
  rv_hist :: "int \<Rightarrow> rev_event"

definition after_renew :: "watch_error option \<Rightarrow> watcher \<Rightarrow> phase \<Rightarrow> phase" where
  "after_renew e w ph = (case ph of
     PublishRenew k \<Rightarrow> (case e of None \<Rightarrow> publish_from k w | Some err \<Rightarrow> if errorsIsLeaseFatal err then Idle else consume_from 0 w)
   | ListRenew \<Rightarrow> Idle
   | PageRenew l k n \<Rightarrow> (case e of None \<Rightarrow> page_done l k n w | Some _ \<Rightarrow> Idle)
   | _ \<Rightarrow> ph)"

definition with_proc :: "ident \<Rightarrow> process \<Rightarrow> rev_world \<Rightarrow> rev_world" where
  "with_proc h p v = v\<lparr>rv_procs := fmupd h p (rv_procs v)\<rparr>"

definition with_db :: "rev_db \<Rightarrow> rev_world \<Rightarrow> rev_world" where
  "with_db db v = v\<lparr>rv_db := db, rv_hist := hist_after (rv_db v) db (rv_hist v)\<rparr>"

definition store_answer :: "rev_error + bool \<Rightarrow> watch_error + bool" where
  "store_answer a = (case a of Inl _ \<Rightarrow> Inl (WatchStoreError []) | Inr b \<Rightarrow> Inr b)"

text \<open>
  Every call to the store begins, takes effect and returns in steps of their own. It may fail before or after it took
  effect. Processes stop when their context ends, at any time; events are inserted and compacted by others.
\<close>

inductive rev_reachable :: "rev_world \<Rightarrow> bool" where
  start: "rev_reachable \<lparr>rv_db = \<lparr>rd_rows = [], rd_lastSeq = 0, rd_lease = None\<rparr>, rv_now = now, rv_procs = fmempty, rv_hist = hist\<rparr>"
| tick: "rev_reachable v \<Longrightarrow> rv_now v \<le> now \<Longrightarrow> rev_reachable (v\<lparr>rv_now := now\<rparr>)"
| insert: "rev_reachable v \<Longrightarrow> \<forall>r \<in> set (rd_rows (rv_db v)). row_id r \<noteq> ev_ID ev \<Longrightarrow> rev_reachable (with_db (insertRevocationEvent ev (rv_db v)) v)"
| compact: "rev_reachable v \<Longrightarrow> rev_reachable (with_db (CompactPublished (rv_now v) cutoff (rv_db v)) v)"
| create: "rev_reachable v \<Longrightarrow> fmlookup (rv_procs v) h = None \<Longrightarrow> \<not> (\<exists>l. rd_lease (rv_db v) = Some l \<and> rl_holder l = h) \<Longrightarrow> 0 < dur \<Longrightarrow>
    rev_reachable (with_proc h \<lparr>pr_w = new_watcher dur pageSize maxEvents, pr_phase = Idle, pr_renew = None, pr_acq = None, pr_fence = 0, pr_applied = []\<rparr> v)"
| seed: "rev_reachable v \<Longrightarrow> fmlookup (rv_procs v) h = Some p \<Longrightarrow> pr_acq p = None \<Longrightarrow> seed_start (pr_w p) = None \<Longrightarrow>
    rev_reachable (with_proc h (p\<lparr>pr_acq := Some (rv_now v, None)\<rparr>) v)"
| acquired: "rev_reachable v \<Longrightarrow> fmlookup (rv_procs v) h = Some p \<Longrightarrow> pr_acq p = Some (s, None) \<Longrightarrow>
    AcquireHubRuntimeLease (rv_now v) h (wt_maxEvents (pr_w p)) (wt_leaseDuration (pr_w p)) (rv_db v) = (Inr fence, db) \<Longrightarrow>
    rev_reachable (with_proc h (p\<lparr>pr_acq := Some (s, Some fence)\<rparr>) (with_db db v))"
| seed_failed: "rev_reachable v \<Longrightarrow> fmlookup (rv_procs v) h = Some p \<Longrightarrow> pr_acq p = Some a \<Longrightarrow> rev_reachable (with_proc h (p\<lparr>pr_acq := None\<rparr>) v)"
| seeded: "rev_reachable v \<Longrightarrow> fmlookup (rv_procs v) h = Some p \<Longrightarrow> pr_acq p = Some (s, Some fence) \<Longrightarrow> seed_finish (rv_now v) s fence (pr_w p) = ((e, rel), w) \<Longrightarrow>
    rev_reachable (with_proc h (p\<lparr>pr_w := w, pr_acq := None, pr_fence := (if e = None then fence else pr_fence p)\<rparr>)
      (with_db (if rel \<and> released then ReleaseHubRuntimeLease h (rv_db v) else rv_db v) v))"
| run: "rev_reachable v \<Longrightarrow> fmlookup (rv_procs v) h = Some p \<Longrightarrow> pr_phase p = Idle \<Longrightarrow> pr_acq p = None \<Longrightarrow> pr_renew p = None \<Longrightarrow> run_begin (rv_now v) (pr_w p) = (e, w) \<Longrightarrow>
    rev_reachable (with_proc h (p\<lparr>pr_w := w, pr_phase := (if e = None then publish_from 0 w else Idle)\<rparr>) v)"
| publish: "rev_reachable v \<Longrightarrow> fmlookup (rv_procs v) h = Some p \<Longrightarrow> pr_phase p = PublishCall k \<Longrightarrow>
    PublishPending (rv_now v) (page_limit k (pr_w p)) (rv_db v) = (n, db) \<Longrightarrow> a = Inr n \<or> a = Inl (WatchStoreError m) \<Longrightarrow>
    rev_reachable (with_proc h (p\<lparr>pr_phase := PublishGot k a\<rparr>) (with_db db v))"
| publish_failed: "rev_reachable v \<Longrightarrow> fmlookup (rv_procs v) h = Some p \<Longrightarrow> pr_phase p = PublishCall k \<Longrightarrow>
    rev_reachable (with_proc h (p\<lparr>pr_phase := PublishGot k (Inl (WatchStoreError m))\<rparr>) v)"
| published: "rev_reachable v \<Longrightarrow> fmlookup (rv_procs v) h = Some p \<Longrightarrow> pr_phase p = PublishGot k a \<Longrightarrow> pr_renew p = None \<Longrightarrow>
    publishPendingLocked (rv_now v) k a (pr_w p) = (ph, w) \<Longrightarrow> rev_reachable (with_proc h (p\<lparr>pr_w := w, pr_phase := ph\<rparr>) v)"
| list: "rev_reachable v \<Longrightarrow> fmlookup (rv_procs v) h = Some p \<Longrightarrow> pr_phase p = ListCall k \<Longrightarrow>
    a = Inr (ListPublishedAfter (wt_lastSeq (pr_w p)) (page_limit k (pr_w p)) (rv_db v)) \<or> a = Inl (WatchStoreError m) \<Longrightarrow>
    rev_reachable (with_proc h (p\<lparr>pr_phase := ListGot k a\<rparr>) v)"
| listed: "rev_reachable v \<Longrightarrow> fmlookup (rv_procs v) h = Some p \<Longrightarrow> pr_phase p = ListGot k a \<Longrightarrow> pr_renew p = None \<Longrightarrow>
    consumePageLocked (rv_now v) k a (pr_w p) = (ph, w) \<Longrightarrow> rev_reachable (with_proc h (p\<lparr>pr_w := w, pr_phase := ph\<rparr>) v)"
| effect_begin: "rev_reachable v \<Longrightarrow> fmlookup (rv_procs v) h = Some p \<Longrightarrow> pr_phase p = Applying (ev # evs) l k n \<Longrightarrow> pr_renew p = None \<Longrightarrow>
    apply_check (rv_now v) ctxDone (pr_w p) = (e, w) \<Longrightarrow>
    rev_reachable (with_proc h (p\<lparr>pr_w := w, pr_phase := (if e = None then Effect ev evs l k n else Idle)\<rparr>) v)"
| effect_end: "rev_reachable v \<Longrightarrow> fmlookup (rv_procs v) h = Some p \<Longrightarrow> pr_phase p = Effect ev evs l k n \<Longrightarrow> pr_renew p = None \<Longrightarrow>
    apply_done ctxDone (fst ev) (pr_w p) = (e, w) \<Longrightarrow>
    rev_reachable (with_proc h (p\<lparr>pr_w := w, pr_phase := (if e = None then Applying evs l k n else Idle), pr_applied := pr_applied p @ [ev]\<rparr>) v)"
| page_end: "rev_reachable v \<Longrightarrow> fmlookup (rv_procs v) h = Some p \<Longrightarrow> pr_phase p = Applying [] l k n \<Longrightarrow> pr_renew p = None \<Longrightarrow>
    rev_reachable (with_proc h (p\<lparr>pr_phase := PageRenew l k n\<rparr>) v)"
| renew: "rev_reachable v \<Longrightarrow> fmlookup (rv_procs v) h = Some p \<Longrightarrow> pr_renew p = None \<Longrightarrow> pr_acq p = None \<Longrightarrow> wt_seeded (pr_w p) \<or> wt_closed (pr_w p) \<Longrightarrow>
    renew_start (rv_now v) (pr_w p) = (e, w) \<Longrightarrow>
    rev_reachable (with_proc h (p\<lparr>pr_w := w, pr_renew := (if e = None then Some (rv_now v, None) else None), pr_phase := (if e = None then pr_phase p else after_renew e w (pr_phase p))\<rparr>) v)"
| renewed: "rev_reachable v \<Longrightarrow> fmlookup (rv_procs v) h = Some p \<Longrightarrow> pr_renew p = Some (s, None) \<Longrightarrow>
    RenewHubRuntimeLease (rv_now v) h (wt_lastSeq (pr_w p)) (wt_leaseDuration (pr_w p)) (rv_db v) = (a, db) \<Longrightarrow>
    rev_reachable (with_proc h (p\<lparr>pr_renew := Some (s, Some (store_answer a))\<rparr>) (with_db db v))"
| renew_returns: "rev_reachable v \<Longrightarrow> fmlookup (rv_procs v) h = Some p \<Longrightarrow> pr_renew p = Some (s, x) \<Longrightarrow> x = Some a \<or> a = Inl (WatchStoreError m) \<Longrightarrow>
    renew_finish (rv_now v) s a (pr_w p) = (e, w) \<Longrightarrow> rev_reachable (with_proc h (p\<lparr>pr_w := w, pr_renew := None, pr_phase := after_renew e w (pr_phase p)\<rparr>) v)"
| stop: "rev_reachable v \<Longrightarrow> fmlookup (rv_procs v) h = Some p \<Longrightarrow> pr_renew p = None \<Longrightarrow> rev_reachable (with_proc h (p\<lparr>pr_phase := Idle\<rparr>) v)"
| close: "rev_reachable v \<Longrightarrow> fmlookup (rv_procs v) h = Some p \<Longrightarrow> rev_reachable (with_proc h (p\<lparr>pr_w := (pr_w p)\<lparr>wt_closed := True\<rparr>\<rparr>) v)"
| release: "rev_reachable v \<Longrightarrow> fmlookup (rv_procs v) h = Some p \<Longrightarrow> wt_closed (pr_w p) \<Longrightarrow> wt_seeded (pr_w p) \<Longrightarrow> pr_renew p = None \<Longrightarrow> pr_acq p = None \<Longrightarrow>
    rev_reachable (with_proc h (p\<lparr>pr_w := (pr_w p)\<lparr>wt_seeded := \<not> returned\<rparr>\<rparr>) (with_db (ReleaseHubRuntimeLease h (rv_db v)) v))"

section \<open>The invariant\<close>

definition leased :: "rev_db \<Rightarrow> ident \<Rightarrow> int \<Rightarrow> bool" where
  "leased db h t \<longleftrightarrow> (\<exists>l. rd_lease db = Some l \<and> rl_holder l = h \<and> t \<le> rl_expires l)"

definition holds :: "rev_db \<Rightarrow> ident \<Rightarrow> bool" where
  "holds db h \<longleftrightarrow> (\<exists>l. rd_lease db = Some l \<and> rl_holder l = h)"

definition cursor_ok :: "rev_db \<Rightarrow> ident \<Rightarrow> int \<Rightarrow> bool" where
  "cursor_ok db h a \<longleftrightarrow> (\<forall>l. rd_lease db = Some l \<longrightarrow> rl_holder l = h \<longrightarrow> rl_cursor l \<le> a)"

definition lease_part :: "rev_db \<Rightarrow> int \<Rightarrow> ident \<Rightarrow> process \<Rightarrow> bool" where
  "lease_part db now h p \<longleftrightarrow> 0 < wt_leaseDuration (pr_w p) \<and>
     (\<not> wt_closed (pr_w p) \<and> wt_seeded (pr_w p) \<and> now < wt_expires (pr_w p) \<longrightarrow> leased db h (wt_expires (pr_w p))) \<and>
     (wt_seeded (pr_w p) \<longrightarrow> wt_expires (pr_w p) \<le> now + wt_leaseDuration (pr_w p))"

definition renew_part :: "rev_db \<Rightarrow> int \<Rightarrow> ident \<Rightarrow> process \<Rightarrow> bool" where
  "renew_part db now h p \<longleftrightarrow> (\<forall>s x. pr_renew p = Some (s, x) \<longrightarrow> s \<le> now \<and>
     (x = Some (Inr True) \<and> \<not> wt_closed (pr_w p) \<and> now < s + wt_leaseDuration (pr_w p) \<longrightarrow> leased db h (s + wt_leaseDuration (pr_w p))))"

definition acq_part :: "rev_db \<Rightarrow> int \<Rightarrow> ident \<Rightarrow> process \<Rightarrow> bool" where
  "acq_part db now h p \<longleftrightarrow> (\<forall>s x. pr_acq p = Some (s, x) \<longrightarrow> s \<le> now \<and> \<not> wt_seeded (pr_w p) \<and> pr_phase p = Idle \<and> pr_renew p = None \<and> pr_applied p = [] \<and>
     (\<forall>fence. x = Some fence \<longrightarrow> 0 \<le> fence \<and> fence \<le> rd_lastSeq db \<and>
        (now < s + wt_leaseDuration (pr_w p) \<longrightarrow> leased db h (s + wt_leaseDuration (pr_w p)) \<and> cursor_ok db h fence)))"

definition phase_part :: "rev_db \<Rightarrow> (int \<Rightarrow> rev_event) \<Rightarrow> ident \<Rightarrow> int \<Rightarrow> phase \<Rightarrow> bool" where
  "phase_part db hist h a ph = (case ph of
     ListGot k (Inr evs) \<Rightarrow> holds db h \<longrightarrow> consecutive hist (rd_lastSeq db) a evs
   | Applying evs l k n \<Rightarrow> holds db h \<longrightarrow> consecutive hist (rd_lastSeq db) a evs
   | Effect ev evs l k n \<Rightarrow> ev = (a + 1, hist (a + 1)) \<and> a + 1 \<le> rd_lastSeq db \<and> (holds db h \<longrightarrow> consecutive hist (rd_lastSeq db) (a + 1) evs)
   | _ \<Rightarrow> True)"

definition stream_part :: "rev_db \<Rightarrow> (int \<Rightarrow> rev_event) \<Rightarrow> ident \<Rightarrow> process \<Rightarrow> bool" where
  "stream_part db hist h p \<longleftrightarrow> pr_fence p \<le> wt_lastSeq (pr_w p) \<and> wt_lastSeq (pr_w p) \<le> rd_lastSeq db \<and>
     (wt_seeded (pr_w p) \<or> pr_phase p \<noteq> Idle \<longrightarrow> cursor_ok db h (wt_lastSeq (pr_w p))) \<and>
     pr_applied p = map (\<lambda>i. (i, hist i)) [pr_fence p + 1..wt_lastSeq (pr_w p)] \<and>
     (\<not> wt_seeded (pr_w p) \<and> \<not> wt_closed (pr_w p) \<longrightarrow> pr_phase p = Idle \<and> pr_renew p = None \<and> pr_applied p = [])"

definition proc_ok :: "rev_db \<Rightarrow> int \<Rightarrow> (int \<Rightarrow> rev_event) \<Rightarrow> ident \<Rightarrow> process \<Rightarrow> bool" where
  "proc_ok db now hist h p \<longleftrightarrow> lease_part db now h p \<and> renew_part db now h p \<and> acq_part db now h p \<and>
     phase_part db hist h (wt_lastSeq (pr_w p)) (pr_phase p) \<and> stream_part db hist h p"

definition world_ok :: "rev_world \<Rightarrow> bool" where
  "world_ok v \<longleftrightarrow> db_ok (rv_db v) (rv_hist v) \<and> (\<forall>h p. fmlookup (rv_procs v) h = Some p \<longrightarrow> proc_ok (rv_db v) (rv_now v) (rv_hist v) h p)"

lemmas part_defs = lease_part_def renew_part_def acq_part_def phase_part_def stream_part_def

text \<open>A change of the tables that does not concern a process: its lease stays while it is live, and no other appears.\<close>

definition unconcerned :: "int \<Rightarrow> ident \<Rightarrow> rev_db \<Rightarrow> rev_db \<Rightarrow> bool" where
  "unconcerned now h db db' \<longleftrightarrow> rd_lastSeq db \<le> rd_lastSeq db' \<and>
     (\<forall>l. rd_lease db' = Some l \<longrightarrow> rl_holder l = h \<longrightarrow> rd_lease db = Some l) \<and>
     (\<forall>l. rd_lease db = Some l \<longrightarrow> rl_holder l = h \<longrightarrow> now < rl_expires l \<longrightarrow> rd_lease db' = Some l)"

lemma unconcerned_leased: "unconcerned now h db db' \<Longrightarrow> now < t \<Longrightarrow> leased db h t \<Longrightarrow> leased db' h t"
proof -
  assume u: "unconcerned now h db db'" and t: "now < t" and "leased db h t"
  then obtain l where l: "rd_lease db = Some l" "rl_holder l = h" "t \<le> rl_expires l" by (auto simp: leased_def)
  then have "now < rl_expires l" using t by simp
  then have "rd_lease db' = Some l" using u l(1,2) unfolding unconcerned_def by blast
  then show "leased db' h t" using l by (auto simp: leased_def)
qed

lemma unconcerned_holds: "unconcerned now h db db' \<Longrightarrow> holds db' h \<Longrightarrow> holds db h"
  unfolding unconcerned_def holds_def by blast

lemma unconcerned_cursor: "unconcerned now h db db' \<Longrightarrow> cursor_ok db h a \<Longrightarrow> cursor_ok db' h a"
  unfolding unconcerned_def cursor_ok_def by blast

lemma unconcerned_seq: "unconcerned now h db db' \<Longrightarrow> rd_lastSeq db \<le> rd_lastSeq db'"
  unfolding unconcerned_def by blast

lemma consecutive_mono:
  assumes c: "consecutive hist b a evs" and b: "b \<le> b'" and h: "\<And>i. i \<le> b \<Longrightarrow> hist' i = hist i"
  shows "consecutive hist' b' a evs"
proof -
  have "map (\<lambda>i. (i, hist i)) [a + 1..a + int (length evs)] = map (\<lambda>i. (i, hist' i)) [a + 1..a + int (length evs)]"
    using c h by (intro map_cong) (auto simp: consecutive_def)
  then show ?thesis using c b unfolding consecutive_def by (metis order.trans)
qed

lemma proc_env:
  assumes ok: "proc_ok db now hist h p" and u: "unconcerned now h db db'" and hist: "\<And>i. i \<le> rd_lastSeq db \<Longrightarrow> hist' i = hist i"
  shows "proc_ok db' now hist' h p"
proof -
  note f = unconcerned_leased [OF u] unconcerned_holds [OF u] unconcerned_cursor [OF u] unconcerned_seq [OF u]
  have a: "wt_lastSeq (pr_w p) \<le> rd_lastSeq db" using ok by (simp add: proc_ok_def stream_part_def)
  have "lease_part db' now h p" "renew_part db' now h p" using ok f(1) by (auto simp: proc_ok_def lease_part_def renew_part_def)
  moreover have "acq_part db' now h p"
  proof -
    have "acq_part db now h p" using ok by (simp add: proc_ok_def)
    moreover have "x \<le> rd_lastSeq db \<Longrightarrow> x \<le> rd_lastSeq db'" for x using f(4) by simp
    ultimately show ?thesis using f(1,3) unfolding acq_part_def by blast
  qed
  moreover have "phase_part db' hist' h (wt_lastSeq (pr_w p)) (pr_phase p)"
    using ok f(2,4) consecutive_mono [where hist = hist and hist' = hist', OF _ f(4) hist] hist
    by (auto simp: proc_ok_def phase_part_def split: phase.splits sum.splits)
  moreover have "pr_applied p = map (\<lambda>i. (i, hist' i)) [pr_fence p + 1..wt_lastSeq (pr_w p)]"
    using ok a hist by (auto simp: proc_ok_def stream_part_def)
  then have "stream_part db' hist' h p" using ok f(3,4) a by (auto simp: proc_ok_def stream_part_def)
  ultimately show ?thesis by (simp add: proc_ok_def)
qed

lemma proc_tick: "proc_ok db now hist h p \<Longrightarrow> now \<le> now' \<Longrightarrow> proc_ok db now' hist h p"
  unfolding proc_ok_def lease_part_def renew_part_def acq_part_def by (intro conjI; force)

text \<open>A step of one process, with a change of the tables that concerns only it.\<close>

lemma world_step:
  assumes ok: "world_ok v" and db: "db_ok db (hist_after (rv_db v) db (rv_hist v))" and u: "\<And>h'. h' \<noteq> h \<Longrightarrow> unconcerned (rv_now v) h' (rv_db v) db"
    and p: "proc_ok db (rv_now v) (hist_after (rv_db v) db (rv_hist v)) h p"
  shows "world_ok (with_proc h p (with_db db v))"
proof -
  have "proc_ok db (rv_now v) (hist_after (rv_db v) db (rv_hist v)) h' q" if "h' \<noteq> h" "fmlookup (rv_procs v) h' = Some q" for h' q
    by (rule proc_env [OF _ u [OF that(1)]]) (use ok that(2) in \<open>auto simp: world_ok_def hist_after_old\<close>)
  then show ?thesis using db p by (auto simp: world_ok_def with_proc_def with_db_def)
qed

lemma world_proc: "world_ok v \<Longrightarrow> proc_ok (rv_db v) (rv_now v) (rv_hist v) h p \<Longrightarrow> world_ok (with_proc h p v)"
  by (auto simp: world_ok_def with_proc_def)

lemma world_db:
  assumes ok: "world_ok v" and db: "db_ok db (hist_after (rv_db v) db (rv_hist v))" and u: "\<And>h. unconcerned (rv_now v) h (rv_db v) db"
  shows "world_ok (with_db db v)"
proof -
  have "proc_ok db (rv_now v) (hist_after (rv_db v) db (rv_hist v)) h' q" if "fmlookup (rv_procs v) h' = Some q" for h' q
    by (rule proc_env [OF _ u]) (use ok that in \<open>auto simp: world_ok_def hist_after_old\<close>)
  then show ?thesis using db by (auto simp: world_ok_def with_db_def)
qed

lemma world_okD: "world_ok v \<Longrightarrow> fmlookup (rv_procs v) h = Some p \<Longrightarrow> proc_ok (rv_db v) (rv_now v) (rv_hist v) h p" "world_ok v \<Longrightarrow> db_ok (rv_db v) (rv_hist v)"
  by (auto simp: world_ok_def)

end
