(* ===== verification/RevocationHubs.thy ===== *)
theory RevocationHubs
  imports RevocationLaws
begin

text \<open>
  The invariant of competing hubs is kept by every step, and what follows: one live holder, and a stream that is
  applied in order and without a gap.
\<close>

section \<open>Steps that leave the tables\<close>

text \<open>A watcher that differs in its reported error only.\<close>

definition same_watch :: "watcher \<Rightarrow> watcher \<Rightarrow> bool" where
  "same_watch w w' \<longleftrightarrow> w' = w\<lparr>wt_fatal := wt_fatal w'\<rparr>"

lemma same_watch_fields:
  assumes "same_watch w w'"
  shows "wt_leaseDuration w' = wt_leaseDuration w" "wt_lastSeq w' = wt_lastSeq w" "wt_expires w' = wt_expires w" "wt_seeded w' = wt_seeded w"
    "wt_closed w' = wt_closed w" "wt_maxEvents w' = wt_maxEvents w" "wt_pageSize w' = wt_pageSize w"
  using assms unfolding same_watch_def by (metis watcher.select_convs watcher.surjective watcher.update_convs(8))+

lemma same_refl [simp]: "same_watch w w"
  by (simp add: same_watch_def)

lemma same_signal [simp]: "same_watch w (signalFatalLocked e w)"
  by (simp add: same_watch_def signalFatalLocked_def split: option.splits)

lemma same_handle: "handleStoreErrorLocked now e w = (e', w') \<Longrightarrow> same_watch w w'"
  by (auto simp: handleStoreErrorLocked_def split: option.splits)

lemma same_run: "run_begin now w = (e, w') \<Longrightarrow> same_watch w w'"
  by (auto simp: run_begin_def split: if_splits option.splits)

lemma same_publish: "publishPendingLocked now k a w = (ph, w') \<Longrightarrow> same_watch w w'"
  by (auto simp: publishPendingLocked_def split: if_splits sum.splits prod.splits dest: same_handle)

lemma same_consume: "consumePageLocked now k a w = (ph, w') \<Longrightarrow> same_watch w w'"
  by (auto simp: consumePageLocked_def split: if_splits sum.splits prod.splits dest: same_handle)

lemma same_check: "apply_check now c w = (e, w') \<Longrightarrow> same_watch w w'"
  by (auto simp: apply_check_def split: if_splits option.splits)

lemma same_renew: "renew_start now w = (e, w') \<Longrightarrow> same_watch w w'"
  by (auto simp: renew_start_def split: if_splits)

lemmas same_steps = same_run same_publish same_consume same_check same_renew

text \<open>Phases without events say nothing.\<close>

lemma phase_trivial [simp]:
  "phase_part db hist h a Idle" "phase_part db hist h a (PublishCall k)" "phase_part db hist h a (PublishGot k r)" "phase_part db hist h a (PublishRenew k)"
  "phase_part db hist h a (ListCall k)" "phase_part db hist h a (ListGot k (Inl e))" "phase_part db hist h a ListRenew" "phase_part db hist h a (PageRenew l k n)"
  "phase_part db hist h a (publish_from k w)" "phase_part db hist h a (consume_from k w)" "phase_part db hist h a (page_done l k n w)"
  by (simp_all add: phase_part_def publish_from_def consume_from_def page_done_def)

lemma proc_phase:
  assumes ok: "proc_ok db now hist h p" and same: "same_watch (pr_w p) w" and ph: "phase_part db hist h (wt_lastSeq (pr_w p)) ph"
    and idle: "ph = Idle \<or> pr_phase p \<noteq> Idle \<or> wt_seeded (pr_w p) \<and> pr_acq p = None"
  shows "proc_ok db now hist h (p\<lparr>pr_w := w, pr_phase := ph\<rparr>)"
  using ok ph idle unfolding proc_ok_def lease_part_def renew_part_def acq_part_def stream_part_def
  by (auto simp: same_watch_fields [OF same])

lemma proc_stop: "proc_ok db now hist h p \<Longrightarrow> proc_ok db now hist h (p\<lparr>pr_phase := Idle\<rparr>)"
  using proc_phase [of db now hist h p "pr_w p" Idle] by simp

lemma phase_after_renew: "phase_part db hist h a ph \<Longrightarrow> phase_part db hist h a (after_renew e w ph)"
  by (auto simp: after_renew_def split: phase.splits option.splits)

lemma after_renew_Idle: "after_renew e w Idle = Idle"
  by (simp add: after_renew_def)

lemma proc_renew:
  assumes ok: "proc_ok db now hist h p" and acq: "pr_acq p = None" and live: "wt_seeded (pr_w p) \<or> wt_closed (pr_w p)"
  shows "proc_ok db now hist h (p\<lparr>pr_renew := Some (now, None)\<rparr>)" "proc_ok db now hist h (p\<lparr>pr_renew := None\<rparr>)"
  using ok acq live by (auto simp: proc_ok_def lease_part_def renew_part_def acq_part_def stream_part_def)

lemma consecutive_Cons:
  "consecutive hist b a (ev # evs) \<longleftrightarrow> ev = (a + 1, hist (a + 1)) \<and> a + 1 \<le> b \<and> consecutive hist b (a + 1) evs"
proof -
  have "[a + 1..a + int (length (ev # evs))] = (a + 1) # [a + 1 + 1..a + 1 + int (length evs)]" by (simp add: upto_rec1 algebra_simps)
  then show ?thesis unfolding consecutive_def by (auto simp: algebra_simps)
qed

lemma proc_effect_begin:
  assumes ok: "proc_ok db now hist h p" and ph: "pr_phase p = Applying (ev # evs) l k n" and c: "apply_check now ctxDone (pr_w p) = (e, w)"
  shows "proc_ok db now hist h (p\<lparr>pr_w := w, pr_phase := (if e = None then Effect ev evs l k n else Idle)\<rparr>)"
proof (rule proc_phase [OF ok same_check [OF c]])
  show "phase_part db hist h (wt_lastSeq (pr_w p)) (if e = None then Effect ev evs l k n else Idle)"
  proof (cases "e = None")
    case True
    then have "leased db h (wt_expires (pr_w p))" using c ok
      by (auto simp: apply_check_def checkLeaseLocked_def proc_ok_def lease_part_def split: if_splits option.splits)
    then have "holds db h" by (auto simp: leased_def holds_def)
    then have cons: "consecutive hist (rd_lastSeq db) (wt_lastSeq (pr_w p)) (ev # evs)" using ok ph by (simp add: proc_ok_def phase_part_def)
    then show ?thesis using True by (simp add: phase_part_def consecutive_Cons)
  qed auto
qed (use ph in simp)

lemma proc_effect_end:
  assumes ok: "proc_ok db now hist h p" and ph: "pr_phase p = Effect ev evs l k n" and d: "apply_done ctxDone (fst ev) (pr_w p) = (e, w)"
  shows "proc_ok db now hist h (p\<lparr>pr_w := w, pr_phase := (if e = None then Applying evs l k n else Idle), pr_applied := pr_applied p @ [ev]\<rparr>)"
proof -
  let ?a = "wt_lastSeq (pr_w p)"
  have ev: "ev = (?a + 1, hist (?a + 1))" "?a + 1 \<le> rd_lastSeq db" "holds db h \<longrightarrow> consecutive hist (rd_lastSeq db) (?a + 1) evs"
    using ok ph by (auto simp: proc_ok_def phase_part_def)
  have w: "w = (pr_w p)\<lparr>wt_lastSeq := ?a + 1\<rparr>" using d ev(1) by (auto simp: apply_done_def Let_def split: if_splits)
  have f: "pr_fence p \<le> ?a" "pr_applied p = map (\<lambda>i. (i, hist i)) [pr_fence p + 1..?a]" using ok by (simp_all add: proc_ok_def stream_part_def)
  have "[pr_fence p + 1..?a + 1] = [pr_fence p + 1..?a] @ [?a + 1]" using f(1) upto_rec2 [of "pr_fence p + 1" "?a + 1"] by simp
  then have "pr_applied p @ [ev] = map (\<lambda>i. (i, hist i)) [pr_fence p + 1..?a + 1]" using f(2) ev(1) by simp
  moreover have "cursor_ok db h (?a + 1)" using ok ph by (force simp: proc_ok_def stream_part_def cursor_ok_def)
  moreover have "phase_part db hist h (?a + 1) (if e = None then Applying evs l k n else Idle)" using ev(3) by (auto simp: phase_part_def)
  moreover have "e = None \<longrightarrow> wt_seeded (pr_w p)" using d by (auto simp: apply_done_def Let_def split: if_splits)
  ultimately show ?thesis using ok ph ev(2) f(1) unfolding w proc_ok_def lease_part_def renew_part_def acq_part_def stream_part_def by auto
qed

lemma proc_renew_returns:
  assumes ok: "proc_ok db now hist h p" and r: "pr_renew p = Some (s, x)" and x: "x = Some a \<or> a = Inl err"
    and f: "renew_finish now s a (pr_w p) = (e, w)"
  shows "proc_ok db now hist h (p\<lparr>pr_w := w, pr_renew := None, pr_phase := after_renew e w (pr_phase p)\<rparr>)"
proof -
  have acq: "pr_acq p = None" using ok r by (cases "pr_acq p") (auto simp: proc_ok_def acq_part_def)
  have live: "wt_seeded (pr_w p) \<or> wt_closed (pr_w p)" using ok r by (auto simp: proc_ok_def stream_part_def)
  have wcases: "same_watch (pr_w p) w \<or>
      a = Inr True \<and> now < s + wt_leaseDuration (pr_w p) \<and> w = (pr_w p)\<lparr>wt_expires := s + wt_leaseDuration (pr_w p)\<rparr>"
    using f by (auto simp: renew_finish_def leaseBudgetExpiry_def split: sum.splits prod.splits if_splits dest: same_handle)
  then consider "same_watch (pr_w p) w" | "a = Inr True" "now < s + wt_leaseDuration (pr_w p)" "w = (pr_w p)\<lparr>wt_expires := s + wt_leaseDuration (pr_w p)\<rparr>"
    by blast
  then have q: "proc_ok db now hist h (p\<lparr>pr_w := w, pr_renew := None\<rparr>)"
  proof cases
    case 1
    then show ?thesis using ok acq live unfolding proc_ok_def lease_part_def renew_part_def acq_part_def stream_part_def
      by (auto simp: same_watch_fields [OF 1])
  next
    case 2
    then have "x = Some (Inr True)" using x by auto
    then have s: "s \<le> now" "\<not> wt_closed (pr_w p) \<longrightarrow> leased db h (s + wt_leaseDuration (pr_w p))" using ok r 2(2) by (auto simp: proc_ok_def renew_part_def)
    then show ?thesis using ok acq live unfolding 2(3) by (auto simp: proc_ok_def lease_part_def renew_part_def acq_part_def stream_part_def)
  qed
  have "phase_part db hist h (wt_lastSeq w) (pr_phase p)" using q by (simp add: proc_ok_def)
  then show ?thesis using proc_phase [OF q, of w "after_renew e w (pr_phase p)"] after_renew_Idle [of e w]
    by (cases p; cases "pr_phase p = Idle") (simp_all add: phase_after_renew)
qed

lemma proc_seeded:
  assumes ok: "proc_ok db now hist h p" and a: "pr_acq p = Some (s, Some fence)" and f: "seed_finish now s fence (pr_w p) = ((None, rel), w)"
  shows "proc_ok db now hist h (p\<lparr>pr_w := w, pr_acq := None, pr_fence := fence\<rparr>)" "\<not> rel"
proof -
  let ?d = "wt_leaseDuration (pr_w p)"
  have n: "now < s + ?d" "\<not> rel" and w: "w = (pr_w p)\<lparr>wt_lastSeq := fence, wt_expires := s + ?d, wt_seeded := True\<rparr>"
    using f by (auto simp: seed_finish_def leaseBudgetExpiry_def split: if_splits)
  then show "\<not> rel" by simp
  have "s \<le> now" "pr_phase p = Idle" "pr_renew p = None" "pr_applied p = []" "0 \<le> fence" "fence \<le> rd_lastSeq db" "leased db h (s + ?d)" "cursor_ok db h fence"
    using ok a n by (auto simp: proc_ok_def acq_part_def)
  then show "proc_ok db now hist h (p\<lparr>pr_w := w, pr_acq := None, pr_fence := fence\<rparr>)"
    using ok unfolding w by (auto simp: proc_ok_def lease_part_def renew_part_def acq_part_def stream_part_def)
qed

lemma proc_not_seeded:
  assumes ok: "proc_ok db now hist h p" and a: "pr_acq p = Some a" 
  shows "proc_ok db now hist h (p\<lparr>pr_acq := None\<rparr>)"
  using ok by (auto simp: proc_ok_def lease_part_def renew_part_def acq_part_def stream_part_def)

section \<open>Steps that change the tables\<close>

lemma unconcerned_refl [simp]: "unconcerned now h db db"
  by (simp add: unconcerned_def)

lemma unconcerned_same_lease: "rd_lease db' = rd_lease db \<Longrightarrow> rd_lastSeq db \<le> rd_lastSeq db' \<Longrightarrow> unconcerned now h db db'"
  by (simp add: unconcerned_def)

lemma Delete_unconcerned: "unconcerned now h db (DeleteExpiredLease now db)"
  by (cases "rd_lease db") (simp_all add: unconcerned_def DeleteExpiredLease_def)

lemma unconcerned_cong: "rd_lease b = rd_lease a \<Longrightarrow> rd_lastSeq b = rd_lastSeq a \<Longrightarrow> unconcerned now h db b = unconcerned now h db a"
  by (simp only: unconcerned_def)

lemma Compact_unconcerned: "unconcerned now h db (CompactPublished now cutoff db)"
  by (subst unconcerned_cong [of _ "DeleteExpiredLease now db"]) (simp_all add: CompactPublished_def Let_def Delete_unconcerned)

lemma Release_unconcerned: "h' \<noteq> h \<Longrightarrow> unconcerned now h' db (ReleaseHubRuntimeLease h db)"
  by (auto simp: unconcerned_def ReleaseHubRuntimeLease_def split: option.splits)

lemma Renew_unconcerned: "RenewHubRuntimeLease now h cursor dur db = (a, db') \<Longrightarrow> h' \<noteq> h \<Longrightarrow> unconcerned now h' db db'"
  by (auto simp: unconcerned_def RenewHubRuntimeLease_def split: option.splits sum.splits if_splits)

lemma hist_after_cong: "rd_rows db' = rd_rows db'' \<Longrightarrow> rd_lastSeq db' = rd_lastSeq db'' \<Longrightarrow> hist_after db db' hist = hist_after db db'' hist"
  by (rule ext) (simp add: hist_after_def)

lemma Delete_fields [simp]: "rd_rows (DeleteExpiredLease now db) = rd_rows db" "rd_lastSeq (DeleteExpiredLease now db) = rd_lastSeq db"
  by (simp_all add: DeleteExpiredLease_def split: option.splits)

lemma Release_fields [simp]: "rd_rows (ReleaseHubRuntimeLease h db) = rd_rows db" "rd_lastSeq (ReleaseHubRuntimeLease h db) = rd_lastSeq db"
  by (simp_all add: ReleaseHubRuntimeLease_def split: option.splits)

lemma Compact_seq [simp]: "rd_lastSeq (CompactPublished now cutoff db) = rd_lastSeq db"
  by (simp add: CompactPublished_def Let_def)

lemma insert_fields [simp]: "rd_lastSeq (insertRevocationEvent ev db) = rd_lastSeq db" "rd_lease (insertRevocationEvent ev db) = rd_lease db"
  by (simp_all add: insertRevocationEvent_def)

lemma Renew_seq: "RenewHubRuntimeLease now h cursor dur db = (a, db') \<Longrightarrow> rd_lastSeq db' = rd_lastSeq db"
  by (auto simp: RenewHubRuntimeLease_def split: option.splits sum.splits if_splits)

lemma Acquire_ok:
  assumes ok: "db_ok db hist" and a: "AcquireHubRuntimeLease now h limit dur db = (Inr fence, db')"
  shows "db_ok db' (hist_after db db' hist)" "rd_lastSeq db \<le> rd_lastSeq db'" "fence = rd_lastSeq db'"
    "rd_lease db' = Some \<lparr>rl_holder = h, rl_cursor = fence, rl_expires = now + dur\<rparr>" "h' \<noteq> h \<Longrightarrow> unconcerned now h' db db'"
proof -
  obtain n f db1 where p: "publishPending now limit db = ((n, f), db1)" by (metis prod.exhaust)
  note pub = publishPending_ok [OF ok p]
  have free: "rd_lease (DeleteExpiredLease now db1) = None" and fence: "fence = f"
    and db': "db' = (DeleteExpiredLease now db1)\<lparr>rd_lease := Some \<lparr>rl_holder = h, rl_cursor = fence, rl_expires = now + dur\<rparr>\<rparr>"
    using a p by (auto simp: AcquireHubRuntimeLease_def Let_def split: if_splits sum.splits)
  show seq: "fence = rd_lastSeq db'" "rd_lastSeq db \<le> rd_lastSeq db'" using pub(2,4) fence by (simp_all add: db')
  show "rd_lease db' = Some \<lparr>rl_holder = h, rl_cursor = fence, rl_expires = now + dur\<rparr>" by (simp add: db')
  have "hist_after db db' hist = hist_after db db1 hist" by (rule hist_after_cong) (simp_all add: db')
  moreover have "rows_ok db' (hist_after db db1 hist)" using pub(1) by (simp add: db' db_ok_def rows_ok_def)
  moreover have "floor_seq db' = rd_lastSeq db'" using seq(1) by (simp add: floor_seq_def db')
  ultimately show "db_ok db' (hist_after db db' hist)" by (auto simp: db_ok_def)
  show "unconcerned now h' db db'" if "h' \<noteq> h" for h'
    using free pub(3) seq(2) that by (auto simp: unconcerned_def db' DeleteExpiredLease_def split: option.splits if_splits)
qed

lemma Publish_ok:
  assumes ok: "db_ok db hist" and p: "PublishPending now limit db = (n, db')"
  shows "db_ok db' (hist_after db db' hist)" "rd_lastSeq db \<le> rd_lastSeq db'" "rd_lease db' = rd_lease db"
proof -
  obtain m f db1 where pp: "publishPending now limit db = ((m, f), db1)" by (metis prod.exhaust)
  have "db' = db \<or> db' = db1" using p pp by (auto simp: PublishPending_def split: if_splits)
  then show "db_ok db' (hist_after db db' hist)" "rd_lastSeq db \<le> rd_lastSeq db'" "rd_lease db' = rd_lease db"
    using publishPending_ok [OF ok pp] ok hist_after_same [of db db hist] by auto
qed

lemma proc_acquired:
  assumes ok: "proc_ok db now hist h p" and a: "pr_acq p = Some (s, None)"
    and db: "rd_lastSeq db \<le> rd_lastSeq db'" "fence = rd_lastSeq db'" "rd_lease db' = Some \<lparr>rl_holder = h, rl_cursor = fence, rl_expires = now + wt_leaseDuration (pr_w p)\<rparr>" "0 \<le> fence"
  shows "proc_ok db' now hist' h (p\<lparr>pr_acq := Some (s, Some fence)\<rparr>)"
proof -
  have p: "s \<le> now" "\<not> wt_seeded (pr_w p)" "pr_phase p = Idle" "pr_renew p = None" "pr_applied p = []" using ok a by (auto simp: proc_ok_def acq_part_def)
  have "[pr_fence p + 1..wt_lastSeq (pr_w p)] = []" using ok p(5) by (simp add: proc_ok_def stream_part_def)
  then show ?thesis using ok p db by (auto simp: proc_ok_def lease_part_def renew_part_def acq_part_def stream_part_def leased_def cursor_ok_def)
qed

lemma proc_renewed:
  assumes ok: "proc_ok db now hist h p" and r: "pr_renew p = Some (s, None)"
    and a: "RenewHubRuntimeLease now h (wt_lastSeq (pr_w p)) (wt_leaseDuration (pr_w p)) db = (a, db')"
  shows "proc_ok db' now hist h (p\<lparr>pr_renew := Some (s, Some (store_answer a))\<rparr>)"
proof (cases "a = Inr True")
  case True
  then obtain l where l: "rd_lease db = Some l" "rl_holder l = h"
    and db': "db' = db\<lparr>rd_lease := Some (l\<lparr>rl_cursor := wt_lastSeq (pr_w p), rl_expires := now + wt_leaseDuration (pr_w p)\<rparr>)\<rparr>"
    using a by (auto simp: RenewHubRuntimeLease_def split: if_splits sum.splits option.splits)
  have h: "holds db h" "holds db' h" using l db' by (auto simp: holds_def)
  have le: "leased db' h t" if "t \<le> now + wt_leaseDuration (pr_w p)" for t using that l db' by (auto simp: leased_def)
  have cu: "cursor_ok db' h (wt_lastSeq (pr_w p))" using db' by (simp add: cursor_ok_def)
  have sq: "rd_lastSeq db' = rd_lastSeq db" using db' by simp
  have acq: "pr_acq p = None" using ok r by (cases "pr_acq p") (auto simp: proc_ok_def acq_part_def)
  have "phase_part db' hist h (wt_lastSeq (pr_w p)) (pr_phase p)" using ok h sq by (auto simp: proc_ok_def phase_part_def split: phase.splits sum.splits)
  then show ?thesis using ok r acq le cu unfolding proc_ok_def lease_part_def renew_part_def acq_part_def stream_part_def sq by auto
next
  case False
  then have "db' = db" "store_answer a \<noteq> Inr True" using a
    by (auto simp: RenewHubRuntimeLease_def store_answer_def split: if_splits sum.splits option.splits)
  then show ?thesis using ok r by (auto simp: proc_ok_def lease_part_def renew_part_def acq_part_def stream_part_def)
qed

lemma proc_released:
  assumes ok: "proc_ok db now hist h p" and c: "wt_closed (pr_w p)" and s: "wt_seeded (pr_w p)" and r: "pr_renew p = None" and a: "pr_acq p = None"
  shows "proc_ok (ReleaseHubRuntimeLease h db) now hist h (p\<lparr>pr_w := (pr_w p)\<lparr>wt_seeded := b\<rparr>\<rparr>)"
proof -
  have rel: "\<not> holds (ReleaseHubRuntimeLease h db) h" "cursor_ok (ReleaseHubRuntimeLease h db) h x" for x
    by (auto simp: holds_def cursor_ok_def ReleaseHubRuntimeLease_def split: option.splits if_splits)
  have "phase_part (ReleaseHubRuntimeLease h db) hist h (wt_lastSeq (pr_w p)) (pr_phase p)"
    using ok rel(1) by (auto simp: proc_ok_def phase_part_def split: phase.splits sum.splits)
  then show ?thesis using ok c r a rel s unfolding proc_ok_def lease_part_def renew_part_def acq_part_def stream_part_def by auto
qed

section \<open>Every reachable state\<close>

lemma world_acquired:
  assumes v: "world_ok v" and p: "fmlookup (rv_procs v) h = Some p" and a: "pr_acq p = Some (s, None)"
    and acq: "AcquireHubRuntimeLease (rv_now v) h (wt_maxEvents (pr_w p)) (wt_leaseDuration (pr_w p)) (rv_db v) = (Inr fence, db)"
  shows "world_ok (with_proc h (p\<lparr>pr_acq := Some (s, Some fence)\<rparr>) (with_db db v))"
proof -
  note A = Acquire_ok [OF world_okD(2) [OF v] acq]
  have "0 \<le> fence" using A(2,3) world_okD(2) [OF v] by (simp add: db_ok_def rows_ok_def)
  then show ?thesis using world_step [OF v A(1) A(5)] proc_acquired [OF world_okD(1) [OF v p] a A(2,3,4)] by blast
qed

lemma world_renewed:
  assumes v: "world_ok v" and p: "fmlookup (rv_procs v) h = Some p" and r: "pr_renew p = Some (s, None)"
    and a: "RenewHubRuntimeLease (rv_now v) h (wt_lastSeq (pr_w p)) (wt_leaseDuration (pr_w p)) (rv_db v) = (a, db)"
  shows "world_ok (with_proc h (p\<lparr>pr_renew := Some (s, Some (store_answer a))\<rparr>) (with_db db v))"
proof -
  have "hist_after (rv_db v) db (rv_hist v) = rv_hist v" using hist_after_same Renew_seq [OF a] by blast
  then show ?thesis using world_step [OF v _ Renew_unconcerned [OF a]] Renew_ok [OF world_okD(2) [OF v] a] proc_renewed [OF world_okD(1) [OF v p] r a] by simp
qed

lemma world_released:
  assumes v: "world_ok v" and p: "proc_ok (ReleaseHubRuntimeLease h (rv_db v)) (rv_now v) (rv_hist v) h p"
  shows "world_ok (with_proc h p (with_db (ReleaseHubRuntimeLease h (rv_db v)) v))"
proof -
  have "hist_after (rv_db v) (ReleaseHubRuntimeLease h (rv_db v)) (rv_hist v) = rv_hist v" by (simp add: hist_after_same)
  then show ?thesis using world_step [OF v _ Release_unconcerned] Release_ok [OF world_okD(2) [OF v]] p by simp
qed

lemma world_seeded:
  assumes v: "world_ok v" and p: "fmlookup (rv_procs v) h = Some p" and a: "pr_acq p = Some (s, Some fence)"
    and f: "seed_finish (rv_now v) s fence (pr_w p) = ((e, rel), w)"
  shows "world_ok (with_proc h (p\<lparr>pr_w := w, pr_acq := None, pr_fence := (if e = None then fence else pr_fence p)\<rparr>)
      (with_db (if rel \<and> released then ReleaseHubRuntimeLease h (rv_db v) else rv_db v) v))"
proof (cases e)
  case None
  note S = proc_seeded [OF world_okD(1) [OF v p] a f [unfolded None]]
  show ?thesis using world_step [OF v] world_okD(2) [OF v] S None by (simp add: hist_after_same)
next
  case (Some err)
  have w: "w = pr_w p" using f Some by (auto simp: seed_finish_def leaseBudgetExpiry_def split: if_splits)
  have q: "proc_ok (rv_db v) (rv_now v) (rv_hist v) h (p\<lparr>pr_acq := None\<rparr>)" using proc_not_seeded [OF world_okD(1) [OF v p] a] .
  have n: "\<not> wt_seeded (pr_w p)" "pr_phase p = Idle" "pr_renew p = None" "pr_applied p = []" using world_okD(1) [OF v p] a by (auto simp: proc_ok_def acq_part_def)
  have eq: "p\<lparr>pr_w := w, pr_acq := None, pr_fence := (if e = None then fence else pr_fence p)\<rparr> = p\<lparr>pr_acq := None\<rparr>" using w Some by (cases p) simp
  have "proc_ok (ReleaseHubRuntimeLease h (rv_db v)) (rv_now v) (rv_hist v) h (p\<lparr>pr_acq := None\<rparr>)"
    using q n by (auto simp: proc_ok_def lease_part_def renew_part_def acq_part_def stream_part_def)
  from world_released [OF v this] world_step [OF v, of "rv_db v" h "p\<lparr>pr_acq := None\<rparr>"] q world_okD(2) [OF v] show ?thesis
    unfolding eq by (cases "rel \<and> released") (simp_all add: hist_after_same)
qed

lemma world_publish:
  assumes v: "world_ok v" and p: "fmlookup (rv_procs v) h = Some p" and ph: "pr_phase p = PublishCall k"
    and pub: "PublishPending (rv_now v) limit (rv_db v) = (n, db)"
  shows "world_ok (with_proc h (p\<lparr>pr_phase := PublishGot k a\<rparr>) (with_db db v))"
proof -
  note P = Publish_ok [OF world_okD(2) [OF v] pub]
  have u: "unconcerned (rv_now v) h' (rv_db v) db" for h' using P by (intro unconcerned_same_lease) auto
  have "proc_ok db (rv_now v) (hist_after (rv_db v) db (rv_hist v)) h p"
    by (rule proc_env [OF world_okD(1) [OF v p] u]) (simp add: hist_after_old)
  then have "proc_ok db (rv_now v) (hist_after (rv_db v) db (rv_hist v)) h (p\<lparr>pr_phase := PublishGot k a\<rparr>)"
    using proc_phase [of db "rv_now v" "hist_after (rv_db v) db (rv_hist v)" h p "pr_w p" "PublishGot k a"] ph by simp
  then show ?thesis by (rule world_step [OF v P(1) u])
qed

lemma phase_publish: "publishPendingLocked now k a w = (ph, w') \<Longrightarrow> phase_part db hist h s ph"
  by (auto simp: publishPendingLocked_def split: sum.splits prod.splits if_splits)

lemma phase_consume:
  assumes "consumePageLocked now k a w = (ph, w')" "phase_part db hist h s (ListGot k a)"
  shows "phase_part db hist h s ph"
  using assms by (auto simp: consumePageLocked_def phase_part_def split: sum.splits prod.splits if_splits)

lemma phase_list:
  assumes ok: "db_ok db hist" and c: "cursor_ok db h s" and s: "s \<le> rd_lastSeq db" and a: "a = Inr (ListPublishedAfter s limit db) \<or> a = Inl e"
  shows "phase_part db hist h s (ListGot k a)"
proof -
  have "consecutive hist (rd_lastSeq db) s (ListPublishedAfter s limit db)" if "holds db h"
    using list_next [OF ok _ s] that c by (auto simp: holds_def cursor_ok_def floor_seq_def)
  then show ?thesis using a by (auto simp: phase_part_def)
qed

lemma proc_created:
  assumes "db_ok db hist" "0 < dur"
  shows "proc_ok db now hist h \<lparr>pr_w = new_watcher dur pageSize maxEvents, pr_phase = Idle, pr_renew = None, pr_acq = None, pr_fence = 0, pr_applied = []\<rparr>"
  using assms by (simp add: proc_ok_def lease_part_def renew_part_def acq_part_def stream_part_def new_watcher_def db_ok_def rows_ok_def)

lemma proc_seed:
  assumes "proc_ok db now hist h p" "seed_start (pr_w p) = None"
  shows "proc_ok db now hist h (p\<lparr>pr_acq := Some (now, None)\<rparr>)"
  using assms by (auto simp: proc_ok_def lease_part_def renew_part_def acq_part_def stream_part_def seed_start_def split: if_splits)

lemma proc_closed: "proc_ok db now hist h p \<Longrightarrow> proc_ok db now hist h (p\<lparr>pr_w := (pr_w p)\<lparr>wt_closed := True\<rparr>\<rparr>)"
  by (auto simp: proc_ok_def lease_part_def renew_part_def acq_part_def stream_part_def)

lemma run_seeded: "run_begin now w = (None, w') \<Longrightarrow> wt_seeded w"
  by (auto simp: run_begin_def split: if_splits option.splits)

lemma proc_renew_start:
  assumes ok: "proc_ok db now hist h p" and acq: "pr_acq p = None" and live: "wt_seeded (pr_w p) \<or> wt_closed (pr_w p)" and r: "pr_renew p = None"
    and st: "renew_start now (pr_w p) = (e, w)"
  shows "proc_ok db now hist h (p\<lparr>pr_w := w, pr_renew := (if e = None then Some (now, None) else None), pr_phase := (if e = None then pr_phase p else after_renew e w (pr_phase p))\<rparr>)"
proof (cases e)
  case None
  then have "w = pr_w p" using st by (auto simp: renew_start_def split: if_splits)
  then show ?thesis using proc_renew(1) [OF ok acq live] None by (cases p) simp
next
  case (Some err)
  have "phase_part db hist h (wt_lastSeq (pr_w p)) (after_renew e w (pr_phase p))" using ok phase_after_renew by (simp add: proc_ok_def)
  from proc_phase [OF ok same_renew [OF st] this] show ?thesis using Some r after_renew_Idle [of e w] by (cases p; cases "pr_phase p = Idle") simp_all
qed

theorem world_reachable: "rev_reachable v \<Longrightarrow> world_ok v"
proof (induction rule: rev_reachable.induct)
  case (start now hist)
  then show ?case by (simp add: world_ok_def db_ok_def rows_ok_def floor_seq_def)
next
  case (tick v now)
  then show ?case by (auto simp: world_ok_def intro: proc_tick)
next
  case (insert v ev)
  then show ?case using world_db [OF insert.IH, of "insertRevocationEvent ev (rv_db v)"] insert_ok [OF world_okD(2)]
    by (simp add: hist_after_same unconcerned_same_lease)
next
  case (compact v cutoff)
  then show ?case using world_db [OF compact.IH, of "CompactPublished (rv_now v) cutoff (rv_db v)"] Compact_ok [OF world_okD(2)]
    by (simp add: hist_after_same Compact_unconcerned)
next
  case (create v h dur pageSize maxEvents)
  then show ?case by (intro world_proc proc_created world_okD)
next
  case (seed v h p)
  then show ?case by (intro world_proc proc_seed world_okD)
next
  case (acquired v h p s fence db)
  then show ?case by (intro world_acquired)
next
  case (seed_failed v h p a)
  then show ?case by (intro world_proc proc_not_seeded world_okD)
next
  case (seeded v h p s fence e rel w released)
  then show ?case by (intro world_seeded)
next
  case (run v h p e w)
  show ?case by (rule world_proc [OF run.IH], rule proc_phase [OF world_okD(1) [OF run.IH run.hyps(2)] same_run]) (use run run_seeded in auto)
next
  case (publish v h p k n db a m)
  then show ?case by (intro world_publish)
next
  case (publish_failed v h p k m)
  then show ?case using world_proc proc_phase [OF world_okD(1) same_refl, of v h p "PublishGot k (Inl (WatchStoreError m))"] by simp
next
  case (published v h p k a ph w)
  show ?case by (rule world_proc [OF published.IH], rule proc_phase [OF world_okD(1) [OF published.IH published.hyps(2)] same_publish phase_publish]) (use published in auto)
next
  case (list v h p k a m)
  have ok: "proc_ok (rv_db v) (rv_now v) (rv_hist v) h p" using world_okD(1) [OF list.IH] list.hyps by simp
  then have "phase_part (rv_db v) (rv_hist v) h (wt_lastSeq (pr_w p)) (ListGot k a)"
    using phase_list [OF world_okD(2) [OF list.IH]] list.hyps by (auto simp: proc_ok_def stream_part_def)
  from proc_phase [OF ok same_refl this] show ?case using world_proc [OF list.IH] list.hyps by simp
next
  case (listed v h p k a ph w)
  have ok: "proc_ok (rv_db v) (rv_now v) (rv_hist v) h p" using world_okD(1) [OF listed.IH] listed.hyps by simp
  then have "phase_part (rv_db v) (rv_hist v) h (wt_lastSeq (pr_w p)) ph" using phase_consume [OF listed.hyps(5)] listed.hyps by (simp add: proc_ok_def)
  from proc_phase [OF ok same_consume [OF listed.hyps(5)] this] show ?case using world_proc [OF listed.IH] listed.hyps by simp
next
  case (effect_begin v h p ev evs l k n ctxDone e w)
  then show ?case by (intro world_proc proc_effect_begin world_okD)
next
  case (effect_end v h p ev evs l k n ctxDone e w)
  then show ?case by (intro world_proc proc_effect_end world_okD)
next
  case (page_end v h p l k n)
  then show ?case using world_proc proc_phase [OF world_okD(1) same_refl, of v h p "PageRenew l k n"] by simp
next
  case (renew v h p e w)
  then show ?case by (intro world_proc proc_renew_start world_okD)
next
  case (renewed v h p s a db)
  then show ?case by (intro world_renewed)
next
  case (renew_returns v h p s x a m e w)
  then show ?case by (intro world_proc proc_renew_returns world_okD)
next
  case (stop v h p)
  then show ?case by (intro world_proc proc_stop world_okD)
next
  case (close v h p)
  then show ?case by (intro world_proc proc_closed world_okD)
next
  case (release v h p returned)
  then show ?case by (intro world_released proc_released world_okD)
qed

section \<open>What follows\<close>

text \<open>A hub that would act: it is seeded, not closed, and its own clock has not reached the end of its lease.\<close>

definition hub_live :: "ident \<Rightarrow> rev_world \<Rightarrow> bool" where
  "hub_live h v = (case fmlookup (rv_procs v) h of None \<Rightarrow> False
     | Some p \<Rightarrow> \<not> wt_closed (pr_w p) \<and> wt_seeded (pr_w p) \<and> rv_now v < wt_expires (pr_w p))"

lemma live_leased:
  assumes "rev_reachable v" "hub_live h v"
  shows "\<exists>l. rd_lease (rv_db v) = Some l \<and> rl_holder l = h \<and> rv_now v < rl_expires l"
  using assms(2) world_okD(1) [OF world_reachable [OF assms(1)], of h]
  by (fastforce simp: hub_live_def proc_ok_def lease_part_def leased_def split: option.splits)

text \<open>C24: However long calls to the database take and whenever they fail, at most one hub acts at a time, and the database
  knows it as the holder of a lease that has not run out.
\<close>

theorem lease_exclusive:
  assumes "rev_reachable v" "hub_live h v"
  shows "(\<exists>l. rd_lease (rv_db v) = Some l \<and> rl_holder l = h \<and> rv_now v < rl_expires l) \<and> (\<forall>h'. hub_live h' v \<longrightarrow> h' = h)"
  using live_leased [OF assms] live_leased [OF assms(1)] by auto

text \<open>C25: A hub applies the events published since it took the lease, each once, in the order of their numbers and with none
  left out; the table agrees about the event under a number; and while the hub is live no event it has yet to apply is removed.
\<close>

theorem revocations_in_order:
  assumes v: "rev_reachable v" and p: "fmlookup (rv_procs v) h = Some p"
  shows "pr_applied p = map (\<lambda>i. (i, rv_hist v i)) [pr_fence p + 1..wt_lastSeq (pr_w p)]
    \<and> (\<forall>r \<in> set (rd_rows (rv_db v)). \<forall>i. rr_seq r = Some i \<longrightarrow> rr_event r = rv_hist v i)
    \<and> (hub_live h v \<longrightarrow> (\<forall>i. wt_lastSeq (pr_w p) < i \<and> i \<le> rd_lastSeq (rv_db v) \<longrightarrow> (\<exists>r \<in> set (rd_rows (rv_db v)). rr_seq r = Some i)))"
proof -
  note ok = world_reachable [OF v]
  note P = world_okD(1) [OF ok p] and D = world_okD(2) [OF ok]
  have "\<exists>r \<in> set (rd_rows (rv_db v)). rr_seq r = Some i" if "hub_live h v" "wt_lastSeq (pr_w p) < i" "i \<le> rd_lastSeq (rv_db v)" for i
  proof -
    have "floor_seq (rv_db v) \<le> wt_lastSeq (pr_w p)" using live_leased [OF v that(1)] P that(1) p
      by (auto simp: proc_ok_def stream_part_def cursor_ok_def floor_seq_def hub_live_def)
    then show ?thesis using D that(2,3) by (simp add: db_ok_def)
  qed
  then show ?thesis using P D by (simp add: proc_ok_def stream_part_def db_ok_def rows_ok_def)
qed

section \<open>A hub at work\<close>

text \<open>One hub takes the lease, an event is inserted, and a sweep publishes it, lists it and applies it.\<close>

definition example_event :: rev_event where
  "example_event = \<lparr>ev_ID = ''e'', ev_Kind = ''session'', ev_SubjectID = ''s'', ev_UserID = ''u'', ev_RevokedAt = 1, ev_Generation = 0, ev_CreatedAt = 1\<rparr>"

definition example_world :: "rev_db \<Rightarrow> int \<Rightarrow> watcher \<Rightarrow> phase \<Rightarrow> (int \<times> int option) option \<Rightarrow> (int \<times> rev_event) list \<Rightarrow> rev_world" where
  "example_world db now w ph acq app = \<lparr>rv_db = db, rv_now = now,
     rv_procs = fmupd ''a'' \<lparr>pr_w = w, pr_phase = ph, pr_renew = None, pr_acq = acq, pr_fence = 0, pr_applied = app\<rparr> fmempty, rv_hist = (\<lambda>_. example_event)\<rparr>"

definition example_db :: "int option \<Rightarrow> rev_db" where
  "example_db seq = \<lparr>rd_rows = [\<lparr>rr_event = example_event, rr_seq = seq, rr_publishedAt = (if seq = None then 0 else 3)\<rparr>],
     rd_lastSeq = (if seq = None then 0 else 1), rd_lease = Some \<lparr>rl_holder = ''a'', rl_cursor = 0, rl_expires = 31\<rparr>\<rparr>"

definition example_seeded :: watcher where
  "example_seeded = (new_watcher 30 10 100)\<lparr>wt_expires := 30, wt_seeded := True\<rparr>"

lemma example_proc: "with_proc ''a'' \<lparr>pr_w = w, pr_phase = ph, pr_renew = None, pr_acq = acq, pr_fence = 0, pr_applied = app\<rparr> (example_world db now w' ph' acq' app')
    = example_world db now w ph acq app"
  by (simp add: with_proc_def example_world_def)

lemma example_lookup [simp]: "fmlookup (rv_procs (example_world db now w ph acq app)) ''a''
    = Some \<lparr>pr_w = w, pr_phase = ph, pr_renew = None, pr_acq = acq, pr_fence = 0, pr_applied = app\<rparr>"
  "rv_now (example_world db now w ph acq app) = now" "rv_db (example_world db now w ph acq app) = db"
  by (simp_all add: example_world_def)

lemma example_tables:
  assumes "\<And>s. rd_lastSeq db < s \<Longrightarrow> s \<le> rd_lastSeq db' \<Longrightarrow> published_at (rd_rows db') s = example_event"
  shows "with_db db' (example_world db now w ph acq app) = example_world db' now w ph acq app"
proof -
  have "hist_after db db' (\<lambda>_. example_event) = (\<lambda>_. example_event)" using assms by (auto simp: hist_after_def)
  then show ?thesis by (simp add: with_db_def example_world_def)
qed

lemma example_tables_same: "rd_lastSeq db' = rd_lastSeq db \<Longrightarrow> with_db db' (example_world db now w ph acq app) = example_world db' now w ph acq app"
  by (rule example_tables) simp

lemma example_acquired: "rev_reachable (example_world \<lparr>rd_rows = [], rd_lastSeq = 0, rd_lease = Some \<lparr>rl_holder = ''a'', rl_cursor = 0, rl_expires = 31\<rparr>\<rparr> 1 (new_watcher 30 10 100) Idle (Some (0, Some 0)) [])"
proof -
  let ?d0 = "\<lparr>rd_rows = [], rd_lastSeq = 0, rd_lease = None\<rparr>" and ?w = "new_watcher 30 10 100"
  have "rev_reachable \<lparr>rv_db = ?d0, rv_now = 0, rv_procs = fmempty, rv_hist = (\<lambda>_. example_event)\<rparr>" by (rule rev_reachable.start)
  from rev_reachable.create [OF this, of "''a''" 30 10 100] have 1: "rev_reachable (example_world ?d0 0 ?w Idle None [])"
    by (simp add: example_world_def with_proc_def)
  from rev_reachable.seed [OF 1 example_lookup(1)] have 2: "rev_reachable (example_world ?d0 0 ?w Idle (Some (0, None)) [])"
    by (simp add: example_proc seed_start_def new_watcher_def)
  from rev_reachable.tick [OF 2, of 1] have 3: "rev_reachable (example_world ?d0 1 ?w Idle (Some (0, None)) [])" by (simp add: example_world_def)
  from rev_reachable.acquired [OF 3 example_lookup(1), where s = 0 and fence = 0 and db = "\<lparr>rd_rows = [], rd_lastSeq = 0, rd_lease = Some \<lparr>rl_holder = ''a'', rl_cursor = 0, rl_expires = 31\<rparr>\<rparr>"] show ?thesis
    by (simp add: example_tables_same example_proc AcquireHubRuntimeLease_def publishPending_def PublishRows_def pending_ids_def DeleteExpiredLease_def
      new_watcher_def Let_def)
qed

lemma example_inserted: "rev_reachable (example_world (example_db None) 2 example_seeded Idle None [])"
proof -
  note 1 = example_acquired
  from rev_reachable.seeded [OF 1 example_lookup(1), where s = 0 and fence = 0 and e = None and rel = False and w = example_seeded] have 2: "rev_reachable (example_world \<lparr>rd_rows = [], rd_lastSeq = 0, rd_lease = Some \<lparr>rl_holder = ''a'', rl_cursor = 0, rl_expires = 31\<rparr>\<rparr> 1 example_seeded Idle None [])"
    by (simp add: example_tables_same example_proc seed_finish_def leaseBudgetExpiry_def new_watcher_def example_seeded_def)
  from rev_reachable.tick [OF 2, of 2] have 3: "rev_reachable (example_world \<lparr>rd_rows = [], rd_lastSeq = 0, rd_lease = Some \<lparr>rl_holder = ''a'', rl_cursor = 0, rl_expires = 31\<rparr>\<rparr> 2 example_seeded Idle None [])"
    by (simp add: example_world_def)
  from rev_reachable.insert [OF 3, of example_event] show ?thesis by (simp add: example_tables_same insertRevocationEvent_def example_db_def)
qed

lemma example_published: "rev_reachable (example_world (example_db (Some 1)) 3 example_seeded (PublishGot 0 (Inr 1)) None [])"
proof -
  from rev_reachable.tick [OF example_inserted, of 3] have 1: "rev_reachable (example_world (example_db None) 3 example_seeded Idle None [])" by (simp add: example_world_def)
  from rev_reachable.run [OF 1 example_lookup(1), where e = None and w = example_seeded] have 2: "rev_reachable (example_world (example_db None) 3 example_seeded (PublishCall 0) None [])"
    by (simp add: example_proc run_begin_def checkLeaseLocked_def publish_from_def example_seeded_def new_watcher_def)
  have "published_at (rd_rows (example_db (Some 1))) 1 = example_event" by (simp add: published_at_def example_db_def)
  then have "with_db (example_db (Some 1)) (example_world (example_db None) 3 example_seeded (PublishCall 0) None []) = example_world (example_db (Some 1)) 3 example_seeded (PublishCall 0) None []"
    by (intro example_tables) (auto simp: example_db_def dest: zless_imp_add1_zle)
  moreover have "PublishPending 3 (page_limit 0 example_seeded) (example_db None) = (1, example_db (Some 1))"
    by (simp add: PublishPending_def publishPending_def PublishRows_def pending_ids_def page_limit_def example_seeded_def new_watcher_def example_db_def Let_def)
  ultimately show ?thesis using rev_reachable.publish [OF 2 example_lookup(1), where k = 0 and n = 1 and db = "example_db (Some 1)" and a = "Inr 1"] by (simp add: example_proc)
qed

lemma example_applied: "rev_reachable (example_world (example_db (Some 1)) 3 (example_seeded\<lparr>wt_lastSeq := 1\<rparr>) (Applying [] 10 0 1) None [(1, example_event)])"
proof -
  let ?d = "example_db (Some 1)"
  from rev_reachable.published [OF example_published example_lookup(1), where k = 0 and a = "Inr 1" and ph = "ListCall 0" and w = example_seeded] have 1: "rev_reachable (example_world ?d 3 example_seeded (ListCall 0) None [])"
    by (simp add: example_proc publishPendingLocked_def page_limit_def consume_from_def example_seeded_def new_watcher_def)
  have "ListPublishedAfter (wt_lastSeq example_seeded) (page_limit 0 example_seeded) ?d = [(1, example_event)]"
    by (simp add: ListPublishedAfter_def page_limit_def example_seeded_def new_watcher_def example_db_def)
  with rev_reachable.list [OF 1 example_lookup(1), where k = 0 and a = "Inr [(1, example_event)]"] have 2: "rev_reachable (example_world ?d 3 example_seeded (ListGot 0 (Inr [(1, example_event)])) None [])"
    by (simp add: example_proc)
  from rev_reachable.listed [OF 2 example_lookup(1), where k = 0 and a = "Inr [(1, example_event)]" and ph = "Applying [(1, example_event)] 10 0 1" and w = example_seeded] have 3: "rev_reachable (example_world ?d 3 example_seeded (Applying [(1, example_event)] 10 0 1) None [])"
    by (simp add: example_proc consumePageLocked_def page_limit_def example_seeded_def new_watcher_def)
  from rev_reachable.effect_begin [OF 3 example_lookup(1), where ev = "(1, example_event)" and evs = "[]" and l = 10 and k = 0 and n = 1 and ctxDone = False and e = None and w = example_seeded] have 4: "rev_reachable (example_world ?d 3 example_seeded (Effect (1, example_event) [] 10 0 1) None [])"
    by (simp add: example_proc apply_check_def checkLeaseLocked_def example_seeded_def new_watcher_def)
  from rev_reachable.effect_end [OF 4 example_lookup(1), where ev = "(1, example_event)" and evs = "[]" and l = 10 and k = 0 and n = 1 and ctxDone = False and e = None and w = "example_seeded\<lparr>wt_lastSeq := 1\<rparr>"] show ?thesis
    by (simp add: example_proc apply_done_def Let_def example_seeded_def new_watcher_def)
qed

theorem lease_exclusive_witness: "{h. hub_live h (example_world (example_db None) 2 example_seeded Idle None [])} = {''a''}"
proof -
  have "hub_live ''a'' (example_world (example_db None) 2 example_seeded Idle None [])" by (simp add: hub_live_def example_seeded_def new_watcher_def)
  then show ?thesis using lease_exclusive [OF example_inserted] by blast
qed

theorem revocations_in_order_witness:
  defines "v \<equiv> example_world (example_db (Some 1)) 3 (example_seeded\<lparr>wt_lastSeq := 1\<rparr>) (Applying [] 10 0 1) None [(1, example_event)]"
  shows "hub_live ''a'' v \<and> [(1, example_event)] = map (\<lambda>i. (i, rv_hist v i)) [1..1]"
proof -
  have "[(1, example_event)] = map (\<lambda>i. (i, rv_hist v i)) [0 + 1..wt_lastSeq (example_seeded\<lparr>wt_lastSeq := 1\<rparr>)]"
    using revocations_in_order [OF example_applied example_lookup(1), folded v_def] by (simp only: process.select_convs)
  then show ?thesis by (simp add: hub_live_def v_def example_seeded_def new_watcher_def)
qed

end
