(* ===== verification/Tunnel.thy ===== *)
theory Tunnel
  imports ChannelWire
begin

text \<open>
  TCP through a channel (internal/tunnelflow, tunnel/conn.go and its helpers on the client,
  internal/worker/service: tunnel.go, tunnel\_flow.go, cancel\_markers.go on the worker). A blocking call is
  a function that says whether it returns in the given state: \<open>None\<close> is a call that parks. Which arm of a select
  fires is an argument. Sequence numbers are natural numbers here; the code has 64 bits, one number per
  frame of a connection. The wire format of the requests is that of protobuf and is not modelled.
\<close>

section \<open>Window sizes\<close>

definition WriteWindowFrames :: nat where "WriteWindowFrames = 64"
definition ReadBufFrames :: nat where "ReadBufFrames = 256"
definition ReadCreditBatch :: nat where "ReadCreditBatch = 16"
definition MaxChunkBytes :: nat where "MaxChunkBytes = 32 * 1024"
definition MaxWriteSeqLookahead :: nat where "MaxWriteSeqLookahead = 256"
definition InitialReadWindow :: nat where "InitialReadWindow = 128"

section \<open>The write gate of the worker\<close>

datatype write_turn = writeTurnProceed | writeTurnClosed | writeTurnRejected

text \<open>\<open>wg_waiters\<close> are the sequence numbers that have a channel. A channel is closed when its number leaves the set.\<close>

record write_gate =
  wg_next :: nat
  wg_claimed :: bool
  wg_waiters :: "nat fset"
  wg_closed :: bool

definition newWriteSeqGate :: write_gate where
  "newWriteSeqGate = \<lparr>wg_next = 0, wg_claimed = False, wg_waiters = {||}, wg_closed = False\<rparr>"

definition waiterLocked :: "nat \<Rightarrow> write_gate \<Rightarrow> write_gate" where
  "waiterLocked seq g = g\<lparr>wg_waiters := finsert seq (wg_waiters g)\<rparr>"

text \<open>One pass of the loop; \<open>None\<close> is a goroutine that goes to sleep on the channel of its number.\<close>

definition waitTurn :: "nat \<Rightarrow> write_gate \<Rightarrow> write_turn option \<times> write_gate" where
  "waitTurn seq g =
     (if wg_closed g then (Some writeTurnClosed, g)
      else if wg_next g = seq \<and> \<not> wg_claimed g then (Some writeTurnProceed, g\<lparr>wg_claimed := True\<rparr>)
      else if seq < wg_next g \<or> (wg_next g = seq \<and> wg_claimed g) \<or> seq - wg_next g > MaxWriteSeqLookahead then (Some writeTurnRejected, g)
      else (None, waiterLocked seq g))"

text \<open>Whether the wait is over; one that parks also returns when its context expires.\<close>

definition waitReached :: "nat \<Rightarrow> write_gate \<Rightarrow> bool \<times> write_gate" where
  "waitReached seq g = (if wg_closed g \<or> seq \<le> wg_next g then (True, g) else (False, waiterLocked seq g))"

definition advance :: "write_gate \<Rightarrow> write_gate" where
  "advance g = g\<lparr>wg_next := Suc (wg_next g), wg_claimed := False, wg_waiters := wg_waiters g |-| {|Suc (wg_next g)|}\<rparr>"

definition gate_close :: "write_gate \<Rightarrow> write_gate" where
  "gate_close g = (if wg_closed g then g else g\<lparr>wg_closed := True, wg_waiters := {||}\<rparr>)"

section \<open>The read window of the worker\<close>

record credit_window =
  cw_credit :: int
  cw_max :: int
  cw_closed :: bool

definition newCreditWindow :: "int \<Rightarrow> credit_window" where
  "newCreditWindow n = \<lparr>cw_credit = n, cw_max = n, cw_closed = False\<rparr>"

definition credit_acquire :: "credit_window \<Rightarrow> bool option \<times> credit_window" where
  "credit_acquire w =
     (if cw_credit w \<le> 0 then (if cw_closed w then (Some False, w) else (None, w))
      else (Some True, w\<lparr>cw_credit := cw_credit w - 1\<rparr>))"

text \<open>The grant is an unsigned 64-bit number that the code converts to a signed one.\<close>

definition credit_add :: "64 word \<Rightarrow> credit_window \<Rightarrow> credit_window" where
  "credit_add credit w =
     (let new = wrap64 (cw_credit w + sint credit)
      in w\<lparr>cw_credit := (if new < cw_credit w \<or> new > cw_max w then cw_max w else new)\<rparr>)"

definition credit_close :: "credit_window \<Rightarrow> credit_window" where
  "credit_close w = w\<lparr>cw_closed := True\<rparr>"

section \<open>Grants of the client\<close>

record read_credit =
  rc_pending :: nat
  rc_batch :: nat
  rc_signal :: bool
  rc_stopped :: bool

definition newReadCredit :: "nat \<Rightarrow> read_credit" where
  "newReadCredit batch = \<lparr>rc_pending = 0, rc_batch = batch, rc_signal = False, rc_stopped = False\<rparr>"

definition credit_consume :: "nat \<Rightarrow> read_credit \<Rightarrow> read_credit" where
  "credit_consume frames c = (let c1 = c\<lparr>rc_pending := rc_pending c + frames\<rparr>
     in if rc_pending c1 \<ge> rc_batch c1 then c1\<lparr>rc_signal := True\<rparr> else c1)"

text \<open>One turn of the loop, when it can run: the grant it sends, if any.\<close>

definition credit_turn :: "read_credit \<Rightarrow> (nat option \<times> read_credit) option" where
  "credit_turn c = (if rc_stopped c \<or> \<not> rc_signal c then None
     else Some (if rc_pending c > 0 then Some (rc_pending c) else None, c\<lparr>rc_pending := 0, rc_signal := False\<rparr>))"

definition credit_stop :: "read_credit \<Rightarrow> read_credit" where
  "credit_stop c = c\<lparr>rc_stopped := True\<rparr>"

section \<open>Latches and deadlines\<close>

definition latch_Set :: "'e \<Rightarrow> 'e option \<Rightarrow> 'e option" where
  "latch_Set e l = (case l of None \<Rightarrow> Some e | Some e0 \<Rightarrow> Some e0)"

text \<open>No deadline is the zero time, \<open>None\<close>.\<close>

datatype armed = NoTimer | Fires int | Expired

definition armTimer :: "int option \<Rightarrow> int \<Rightarrow> armed" where
  "armTimer deadline now = (case deadline of None \<Rightarrow> NoTimer | Some d \<Rightarrow> if d - now \<le> 0 then Expired else Fires d)"

section \<open>The connection on the client\<close>

datatype conn_error = ErrClosed | ErrDeadlineExceeded | EOF | ErrUnexpectedEOF | StreamError string | DecodeError | TunnelError string
  | ChunkTooLarge nat | WriteRejected int string | SendError string

record conn =
  cn_readBuf :: "bytes list"
  cn_readPart :: bytes
  cn_terminal :: "conn_error option"
  cn_credit :: read_credit
  cn_writeSeq :: nat
  cn_closeWriteSent :: bool
  cn_sendWindow :: nat
  cn_writeErr :: "conn_error option"
  cn_closed :: bool
  cn_readDeadline :: "int option"
  cn_writeDeadline :: "int option"

definition newConn :: conn where
  "newConn = \<lparr>cn_readBuf = [], cn_readPart = [], cn_terminal = None, cn_credit = newReadCredit ReadCreditBatch, cn_writeSeq = 0,
     cn_closeWriteSent = False, cn_sendWindow = 0, cn_writeErr = None, cn_closed = False, cn_readDeadline = None, cn_writeDeadline = None\<rparr>"

record tunnel_event =
  te_data :: bytes
  te_eof :: bool
  te_error :: string

text \<open>A message of the stream: an error, or a payload and what it decodes to.\<close>

datatype stream_message = StreamIsError string | StreamPayload "tunnel_event option"

text \<open>\<open>None\<close> is a receiver that waits for room in the buffer.\<close>

definition onStreamMessage :: "stream_message \<Rightarrow> conn \<Rightarrow> conn option" where
  "onStreamMessage msg c =
     (if cn_closed c \<or> cn_terminal c \<noteq> None then Some c
      else case msg of
        StreamIsError e \<Rightarrow> Some (c\<lparr>cn_terminal := latch_Set (StreamError e) (cn_terminal c)\<rparr>)
      | StreamPayload None \<Rightarrow> Some (c\<lparr>cn_terminal := latch_Set DecodeError (cn_terminal c)\<rparr>)
      | StreamPayload (Some ev) \<Rightarrow>
          if te_eof ev then Some (c\<lparr>cn_terminal := latch_Set EOF (cn_terminal c)\<rparr>)
          else if te_error ev \<noteq> [] then Some (c\<lparr>cn_terminal := latch_Set (TunnelError (te_error ev)) (cn_terminal c)\<rparr>)
          else if te_data ev = [] then Some c
          else if length (te_data ev) > MaxChunkBytes then Some (c\<lparr>cn_terminal := latch_Set (ChunkTooLarge (length (te_data ev))) (cn_terminal c)\<rparr>)
          else if length (cn_readBuf c) < ReadBufFrames then Some (c\<lparr>cn_readBuf := cn_readBuf c @ [te_data ev]\<rparr>) else None)"

text \<open>The bytes copied into a buffer of length \<open>n\<close>.\<close>

definition consumeFrame :: "nat \<Rightarrow> bytes \<Rightarrow> conn \<Rightarrow> bytes \<times> conn" where
  "consumeFrame n data c = (take n data, c\<lparr>cn_readPart := (if n < length data then drop n data else cn_readPart c),
     cn_credit := credit_consume 1 (cn_credit c)\<rparr>)"

text \<open>A read into a buffer of length \<open>n\<close> looks twice: for data, then for the end of the stream. Each answer is the bytes
  read or an error; \<open>None\<close> is a look that found nothing. The receiver may run in between.
  \<open>channelDone\<close> says whether the context of the channel has ended.\<close>

definition read_poll :: "nat \<Rightarrow> conn \<Rightarrow> (conn_error + bytes) option \<times> conn" where
  "read_poll n c =
     (if cn_closed c then (Some (Inl ErrClosed), c)
      else if cn_readPart c \<noteq> [] then (Some (Inr (take n (cn_readPart c))), c\<lparr>cn_readPart := drop n (cn_readPart c)\<rparr>)
      else case cn_readBuf c of
        data # rest \<Rightarrow> (case consumeFrame n data (c\<lparr>cn_readBuf := rest\<rparr>) of (bs, c1) \<Rightarrow> (Some (Inr bs), c1))
      | [] \<Rightarrow> (None, c))"

definition read_settle :: "bool \<Rightarrow> int \<Rightarrow> conn \<Rightarrow> (conn_error + bytes) option \<times> conn" where
  "read_settle channelDone now c = (case cn_terminal c of
     Some e \<Rightarrow> (Some (Inl e), c)
   | None \<Rightarrow> if armTimer (cn_readDeadline c) now = Expired then (Some (Inl ErrDeadlineExceeded), c)
       else if channelDone then (Some (Inl ErrUnexpectedEOF), c\<lparr>cn_terminal := latch_Set ErrUnexpectedEOF (cn_terminal c)\<rparr>)
       else (None, c))"

text \<open>One pass of the loop of a read that nothing interrupts; \<open>None\<close> is a read that waits.\<close>

definition conn_Read :: "bool \<Rightarrow> int \<Rightarrow> nat \<Rightarrow> conn \<Rightarrow> (conn_error + bytes) option \<times> conn" where
  "conn_Read channelDone now n c =
     (if n = 0 then (Some (Inr []), c)
      else case read_poll n c of (Some r, c1) \<Rightarrow> (Some r, c1) | (None, c1) \<Rightarrow> read_settle channelDone now c1)"

section \<open>Writing\<close>

record frame =
  fr_seq :: nat
  fr_data :: bytes
  fr_closeWrite :: bool

datatype slot_arm = SlotArm | ClosedArm | NakArm | ChannelArm | DeadlineArm

text \<open>\<open>None\<close> when the arm is not ready. The channel's end reaches the deadline path through the derived context,
  with the same error.\<close>

definition acquireSendSlot :: "slot_arm \<Rightarrow> int \<Rightarrow> conn \<Rightarrow> (conn_error + conn) option" where
  "acquireSendSlot arm now c = (case arm of
     SlotArm \<Rightarrow> if cn_sendWindow c < WriteWindowFrames then Some (Inr (c\<lparr>cn_sendWindow := Suc (cn_sendWindow c)\<rparr>)) else None
   | ClosedArm \<Rightarrow> if cn_closed c then Some (Inl ErrClosed) else None
   | NakArm \<Rightarrow> map_option Inl (cn_writeErr c)
   | ChannelArm \<Rightarrow> Some (Inl ErrClosed)
   | DeadlineArm \<Rightarrow> if armTimer (cn_writeDeadline c) now = Expired then Some (Inl ErrDeadlineExceeded) else None)"

text \<open>A frame is sent in three parts: the checks on entry, the wait for a slot, and the rest once the slot is
  held. Other goroutines may run in between.\<close>

definition sendFrame_check :: "bool \<Rightarrow> conn \<Rightarrow> conn_error option" where
  "sendFrame_check closeWrite c = (if cn_closeWriteSent c \<and> \<not> closeWrite then Some ErrClosed else cn_writeErr c)"

definition release_slot :: "conn \<Rightarrow> conn" where
  "release_slot c = c\<lparr>cn_sendWindow := cn_sendWindow c - 1\<rparr>"

text \<open>\<open>failure\<close> is the error of the send on the shared channel, remapped when the write deadline ended it.\<close>

definition sendFrame_send :: "conn_error option \<Rightarrow> bytes \<Rightarrow> bool \<Rightarrow> conn \<Rightarrow> (conn_error + frame) \<times> conn" where
  "sendFrame_send failure data closeWrite c =
     (if cn_closed c then (Inl ErrClosed, release_slot c)
      else case cn_writeErr c of Some e \<Rightarrow> (Inl e, release_slot c)
      | None \<Rightarrow> (case failure of Some e \<Rightarrow> (Inl e, release_slot c)
        | None \<Rightarrow> (Inr \<lparr>fr_seq = cn_writeSeq c, fr_data = data, fr_closeWrite = closeWrite\<rparr>, c\<lparr>cn_writeSeq := Suc (cn_writeSeq c)\<rparr>)))"

definition writeFailure :: "conn_error \<Rightarrow> bool \<Rightarrow> conn_error" where
  "writeFailure e deadlineExceeded = (if deadlineExceeded then ErrDeadlineExceeded else e)"

definition sendFrameLocked :: "slot_arm \<times> conn_error option \<Rightarrow> int \<Rightarrow> bytes \<Rightarrow> bool \<Rightarrow> conn \<Rightarrow> ((conn_error + frame) \<times> conn) option" where
  "sendFrameLocked how now data closeWrite c = (case sendFrame_check closeWrite c of Some e \<Rightarrow> Some (Inl e, c)
   | None \<Rightarrow> (case acquireSendSlot (fst how) now c of None \<Rightarrow> None
       | Some (Inl e) \<Rightarrow> Some (Inl e, c)
       | Some (Inr c1) \<Rightarrow> Some (sendFrame_send (snd how) data closeWrite c1)))"

text \<open>The loop of a write, with what happens to each chunk: bytes written, error, frames sent. \<open>None\<close> is a write
  that waits for a slot.\<close>

fun write_loop :: "(slot_arm \<times> conn_error option) list \<Rightarrow> int \<Rightarrow> nat \<Rightarrow> bytes \<Rightarrow> conn \<Rightarrow> ((nat \<times> conn_error option) \<times> frame list \<times> conn) option" where
  "write_loop [] now written b c = (if b = [] then Some ((written, None), [], c) else None)"
| "write_loop (how # hows) now written b c =
     (if b = [] then Some ((written, None), [], c)
      else let chunk = take MaxChunkBytes b in
        (case sendFrameLocked how now chunk False c of None \<Rightarrow> None
         | Some (Inl e, c1) \<Rightarrow> Some ((written, Some e), [], c1)
         | Some (Inr f, c1) \<Rightarrow> map_option (\<lambda>(r, fs, c2). (r, f # fs, c2)) (write_loop hows now (written + length chunk) (drop (length chunk) b) c1)))"

definition conn_Write :: "(slot_arm \<times> conn_error option) list \<Rightarrow> int \<Rightarrow> bytes \<Rightarrow> conn \<Rightarrow> ((nat \<times> conn_error option) \<times> frame list \<times> conn) option" where
  "conn_Write hows now b c = (if cn_closed c then Some ((0, Some ErrClosed), [], c) else if b = [] then Some ((0, None), [], c) else write_loop hows now 0 b c)"

text \<open>How the wait for an acknowledgement ends.\<close>

datatype ack = AckOk | AckError int string | AckConnClosed | AckChannelDone

definition awaitWriteAck :: "ack \<Rightarrow> conn \<Rightarrow> conn" where
  "awaitWriteAck a c = (let c1 = (case a of AckError code m \<Rightarrow> c\<lparr>cn_writeErr := latch_Set (WriteRejected code m) (cn_writeErr c)\<rparr> | _ \<Rightarrow> c)
     in c1\<lparr>cn_sendWindow := cn_sendWindow c1 - 1\<rparr>)"

text \<open>\<open>gotLock\<close> says whether the write lock was acquired before the deadline.\<close>

definition conn_CloseWrite :: "bool \<Rightarrow> slot_arm \<times> conn_error option \<Rightarrow> int \<Rightarrow> conn \<Rightarrow> ((conn_error option \<times> frame list) \<times> conn) option" where
  "conn_CloseWrite gotLock how now c =
     (if \<not> gotLock then Some ((Some ErrDeadlineExceeded, []), c)
      else if cn_closeWriteSent c then Some ((None, []), c)
      else if cn_closed c then Some ((Some ErrClosed, []), c)
      else (case sendFrameLocked how now [] True c of None \<Rightarrow> None
        | Some (Inl e, c1) \<Rightarrow> Some ((Some e, []), c1)
        | Some (Inr f, c1) \<Rightarrow> Some ((None, [f]), c1\<lparr>cn_closeWriteSent := True\<rparr>)))"

text \<open>Closing; the remote close carries the sequence number when the write lock could be taken in time, and 0 otherwise.\<close>

definition conn_Close :: "conn \<Rightarrow> conn" where
  "conn_Close c = (if cn_closed c then c else c\<lparr>cn_closed := True, cn_credit := credit_stop (cn_credit c)\<rparr>)"

definition readWriteSeqForClose :: "bool \<Rightarrow> conn \<Rightarrow> nat" where
  "readWriteSeqForClose gotLock c = (if gotLock then cn_writeSeq c else 0)"

section \<open>The connection on the worker\<close>

text \<open>\<open>tn_out\<close> is what the target has received, \<open>tn_half\<close> whether its write side was closed.\<close>

record tunnel_conn =
  tn_closed :: bool
  tn_gate :: write_gate
  tn_credit :: credit_window
  tn_out :: bytes
  tn_half :: bool

definition newTunnelConn :: tunnel_conn where
  "newTunnelConn = \<lparr>tn_closed = False, tn_gate = newWriteSeqGate, tn_credit = newCreditWindow (int InitialReadWindow), tn_out = [], tn_half = False\<rparr>"

datatype write_error = ErrChunkTooLarge | ErrWriteSeqRejected | NetErrClosed | ErrNoProgress | CtxErr | TargetErr string

text \<open>What calls to write on the target answer: how many bytes they took, or an error. \<open>None\<close> is a call that does not return.\<close>

fun write_target :: "(string + nat) list \<Rightarrow> bytes \<Rightarrow> (write_error option \<times> bytes) option" where
  "write_target answers [] = Some (None, [])"
| "write_target [] (b # bs) = None"
| "write_target (Inl e # answers) (b # bs) = Some (Some (TargetErr e), [])"
| "write_target (Inr n # answers) (b # bs) = (if n = 0 then Some (Some ErrNoProgress, [])
     else map_option (\<lambda>(r, w). (r, take n (b # bs) @ w)) (write_target answers (drop n (b # bs))))"

text \<open>The write of a frame whose turn it is. \<open>half\<close> is what closing the target's write side answers.\<close>

definition writeData_turn :: "bool \<Rightarrow> (string + nat) list \<Rightarrow> string option \<Rightarrow> bytes \<Rightarrow> bool \<Rightarrow> tunnel_conn \<Rightarrow> (write_error option \<times> tunnel_conn) option" where
  "writeData_turn ctxEnded answers half data closeWrite t =
     (if length data > MaxChunkBytes then Some (Some ErrChunkTooLarge, t)
      else if ctxEnded then Some (Some CtxErr, t)
      else (case write_target answers data of None \<Rightarrow> None
        | Some (Some e, w) \<Rightarrow> Some (Some e, t\<lparr>tn_out := tn_out t @ w\<rparr>)
        | Some (None, w) \<Rightarrow> (let t1 = t\<lparr>tn_out := tn_out t @ w\<rparr> in
            if closeWrite then (case half of Some e \<Rightarrow> Some (Some (TargetErr e), t1) | None \<Rightarrow> Some (None, t1\<lparr>tn_half := True\<rparr>)) else Some (None, t1))))"

text \<open>The end of a turn, on success and on failure.\<close>

definition end_turn :: "tunnel_conn \<Rightarrow> tunnel_conn" where
  "end_turn t = t\<lparr>tn_gate := advance (tn_gate t)\<rparr>"

definition tunnel_close :: "tunnel_conn \<Rightarrow> bool \<times> tunnel_conn" where
  "tunnel_close t = (if tn_closed t then (False, t)
     else (True, t\<lparr>tn_closed := True, tn_gate := gate_close (tn_gate t), tn_credit := credit_close (tn_credit t)\<rparr>))"

datatype reply = ReplyOk | InvalidArgument | FailedPrecondition | InternalError | NotFound

definition classifyTunnelWriteError :: "write_error \<Rightarrow> reply" where
  "classifyTunnelWriteError e = (case e of ErrChunkTooLarge \<Rightarrow> InvalidArgument | ErrWriteSeqRejected \<Rightarrow> FailedPrecondition | _ \<Rightarrow> InternalError)"

text \<open>One turn of the read loop: the target's answer is the bytes read and how the read ended. \<open>ReadStop\<close> ends the
  loop, closing the connection when its flag says so. \<open>sends\<close> says whether each event could be sent.\<close>

datatype read_end = ReadMore | ReadEOF | ReadError string
datatype read_result = ReadAgain | ReadParked | ReadStop bool

definition event_turn :: "read_end \<Rightarrow> bool \<Rightarrow> tunnel_conn \<Rightarrow> read_result \<times> tunnel_event list" where
  "event_turn how sends t = (case how of ReadMore \<Rightarrow> (ReadAgain, [])
     | ReadEOF \<Rightarrow> if tn_closed t then (ReadStop True, []) else
         let ev = \<lparr>te_data = [], te_eof = True, te_error = []\<rparr> in if sends then (ReadStop False, [ev]) else (ReadStop True, [])
     | ReadError e \<Rightarrow> if tn_closed t then (ReadStop True, []) else
         let ev = \<lparr>te_data = [], te_eof = False, te_error = e\<rparr> in (ReadStop True, if sends then [ev] else []))"

definition tunnelReadLoop_turn :: "bytes \<Rightarrow> read_end \<Rightarrow> bool \<Rightarrow> bool \<Rightarrow> tunnel_conn \<Rightarrow> (read_result \<times> tunnel_event list) \<times> tunnel_conn" where
  "tunnelReadLoop_turn data how sends1 sends2 t =
     (if data = [] then (event_turn how sends2 t, t)
      else (case credit_acquire (tn_credit t) of
        (None, w) \<Rightarrow> ((ReadParked, []), t)
      | (Some False, w) \<Rightarrow> ((ReadStop True, []), t)
      | (Some True, w) \<Rightarrow> let t1 = t\<lparr>tn_credit := w\<rparr> in
          if \<not> sends1 then ((ReadStop True, []), t1)
          else (case event_turn how sends2 t1 of (r, evs) \<Rightarrow> ((r, \<lparr>te_data = data, te_eof = False, te_error = []\<rparr> # evs), t1))))"

section \<open>Markers of early closes\<close>

text \<open>Entries are numbered, for the pointers of the code.\<close>

record cancel_markers =
  cm_markers :: "(ident, nat) fmap"
  cm_expiry :: "(nat \<times> ident \<times> int) list"
  cm_fresh :: nat

definition newCancelMarkers :: cancel_markers where
  "newCancelMarkers = \<lparr>cm_markers = fmempty, cm_expiry = [], cm_fresh = 0\<rparr>"

definition markDuringOpen :: "ident \<Rightarrow> int \<Rightarrow> cancel_markers \<Rightarrow> cancel_markers" where
  "markDuringOpen connID expiresAt c = c\<lparr>cm_markers := fmupd connID (cm_fresh c) (cm_markers c), cm_fresh := Suc (cm_fresh c)\<rparr>"

definition cancel_mark :: "ident \<Rightarrow> int \<Rightarrow> cancel_markers \<Rightarrow> cancel_markers" where
  "cancel_mark connID expiresAt c =
     (let c1 = markDuringOpen connID expiresAt c; entry = cm_fresh c1
      in c1\<lparr>cm_expiry := cm_expiry c1 @ [(entry, connID, expiresAt)], cm_markers := fmupd connID entry (cm_markers c1), cm_fresh := Suc entry\<rparr>)"

definition cancel_take :: "ident \<Rightarrow> cancel_markers \<Rightarrow> bool \<times> cancel_markers" where
  "cancel_take connID c = (if fmlookup (cm_markers c) connID = None then (False, c) else (True, c\<lparr>cm_markers := fmdrop connID (cm_markers c)\<rparr>))"

definition cancel_clear :: "ident \<Rightarrow> cancel_markers \<Rightarrow> cancel_markers" where
  "cancel_clear connID c = c\<lparr>cm_markers := fmdrop connID (cm_markers c)\<rparr>"

fun sweep_expiry :: "int \<Rightarrow> (nat \<times> ident \<times> int) list \<Rightarrow> (ident, nat) fmap \<Rightarrow> (nat \<times> ident \<times> int) list \<times> (ident, nat) fmap" where
  "sweep_expiry now [] m = ([], m)"
| "sweep_expiry now ((e, i, t) # es) m = (if now < t then ((e, i, t) # es, m)
     else sweep_expiry now es (if fmlookup m i = Some e then fmdrop i m else m))"

definition cancel_sweep :: "int \<Rightarrow> cancel_markers \<Rightarrow> cancel_markers" where
  "cancel_sweep now c = (case sweep_expiry now (cm_expiry c) (cm_markers c) of (es, m) \<Rightarrow> c\<lparr>cm_expiry := es, cm_markers := m\<rparr>)"

section \<open>The tunnels of a worker\<close>

text \<open>Connections are named in a store, as they are shared. \<open>tm_dials\<close> are the dials that were cancelled.\<close>

record tunnel_manager =
  tm_conns :: "(ident, nat) fmap"
  tm_objs :: "(nat, tunnel_conn) fmap"
  tm_opening :: "ident fset"
  tm_canceled :: cancel_markers
  tm_dials :: "ident list"

definition newTunnelManager :: tunnel_manager where
  "newTunnelManager = \<lparr>tm_conns = fmempty, tm_objs = fmempty, tm_opening = {||}, tm_canceled = newCancelMarkers, tm_dials = []\<rparr>"

definition staleCancelMarkerTTL :: int where "staleCancelMarkerTTL = 5"

definition tunnel_get :: "ident \<Rightarrow> tunnel_manager \<Rightarrow> nat option" where
  "tunnel_get connID m = fmlookup (tm_conns m) connID"

definition close_obj :: "nat \<Rightarrow> tunnel_manager \<Rightarrow> tunnel_manager" where
  "close_obj r m = (case fmlookup (tm_objs m) r of None \<Rightarrow> m | Some t \<Rightarrow> m\<lparr>tm_objs := fmupd r (snd (tunnel_close t)) (tm_objs m)\<rparr>)"

definition tunnel_store :: "ident \<Rightarrow> nat \<Rightarrow> tunnel_manager \<Rightarrow> bool \<times> tunnel_manager" where
  "tunnel_store connID r m =
     (let m1 = m\<lparr>tm_opening := tm_opening m |-| {|connID|}\<rparr> in
      case cancel_take connID (tm_canceled m1) of (taken, c) \<Rightarrow>
        if taken then (False, close_obj r (m1\<lparr>tm_canceled := c\<rparr>)) else (True, m1\<lparr>tm_conns := fmupd connID r (tm_conns m1)\<rparr>))"

definition beginOpen :: "int \<Rightarrow> ident \<Rightarrow> tunnel_manager \<Rightarrow> bool \<times> tunnel_manager" where
  "beginOpen now connID m =
     (let m1 = m\<lparr>tm_canceled := cancel_sweep now (tm_canceled m)\<rparr> in
      case cancel_take connID (tm_canceled m1) of (taken, c) \<Rightarrow>
        if taken then (False, m1\<lparr>tm_canceled := c\<rparr>)
        else if connID |\<in>| tm_opening m1 then (False, m1)
        else if fmlookup (tm_conns m1) connID \<noteq> None then (False, m1)
        else (True, m1\<lparr>tm_opening := finsert connID (tm_opening m1)\<rparr>))"

definition abortOpen :: "ident \<Rightarrow> tunnel_manager \<Rightarrow> tunnel_manager" where
  "abortOpen connID m = m\<lparr>tm_opening := tm_opening m |-| {|connID|}, tm_canceled := cancel_clear connID (tm_canceled m)\<rparr>"

definition tunnel_remove :: "ident \<Rightarrow> tunnel_manager \<Rightarrow> nat option \<times> tunnel_manager" where
  "tunnel_remove connID m = (fmlookup (tm_conns m) connID, m\<lparr>tm_conns := fmdrop connID (tm_conns m)\<rparr>)"

definition tunnel_removeIf :: "ident \<Rightarrow> nat \<Rightarrow> tunnel_manager \<Rightarrow> tunnel_manager" where
  "tunnel_removeIf connID r m = (if fmlookup (tm_conns m) connID = Some r then m\<lparr>tm_conns := fmdrop connID (tm_conns m)\<rparr> else m)"

definition closeAndRemove :: "ident \<Rightarrow> nat \<Rightarrow> tunnel_manager \<Rightarrow> tunnel_manager" where
  "closeAndRemove connID r m = tunnel_removeIf connID r (close_obj r m)"

definition tunnel_cancel :: "int \<Rightarrow> ident \<Rightarrow> tunnel_manager \<Rightarrow> nat option \<times> tunnel_manager" where
  "tunnel_cancel now connID m =
     (let m1 = m\<lparr>tm_canceled := cancel_sweep now (tm_canceled m)\<rparr> in
      case tunnel_remove connID m1 of
        (Some r, m2) \<Rightarrow> (Some r, m2)
      | (None, m2) \<Rightarrow>
          if connID |\<in>| tm_opening m2
          then (None, m2\<lparr>tm_canceled := markDuringOpen connID (now + staleCancelMarkerTTL) (tm_canceled m2), tm_opening := tm_opening m2 |-| {|connID|},
                  tm_dials := tm_dials m2 @ [connID]\<rparr>)
          else (None, m2\<lparr>tm_canceled := cancel_mark connID (now + staleCancelMarkerTTL) (tm_canceled m2)\<rparr>))"

text \<open>A request to write on a connection: the answer when it needs no turn, otherwise the connection whose gate it waits at.\<close>

definition sendData_lookup :: "ident \<Rightarrow> tunnel_manager \<Rightarrow> reply + nat" where
  "sendData_lookup connID m = (case tunnel_get connID m of None \<Rightarrow> Inl NotFound
     | Some r \<Rightarrow> (case fmlookup (tm_objs m) r of None \<Rightarrow> Inl NotFound | Some t \<Rightarrow> if tn_closed t then Inl NotFound else Inr r))"

text \<open>Closing waits first, within a time limit, until the writes below the sequence number of the close are done: one pass
  of that wait, and whether it is over.\<close>

definition closeConn_flush :: "ident \<Rightarrow> nat \<Rightarrow> tunnel_manager \<Rightarrow> bool \<times> tunnel_manager" where
  "closeConn_flush connID seq m = (case tunnel_get connID m of None \<Rightarrow> (True, m)
     | Some r \<Rightarrow> (case fmlookup (tm_objs m) r of None \<Rightarrow> (True, m)
        | Some t \<Rightarrow> (case waitReached seq (tn_gate t) of (reached, g) \<Rightarrow> (reached, m\<lparr>tm_objs := fmupd r (t\<lparr>tn_gate := g\<rparr>) (tm_objs m)\<rparr>))))"

text \<open>The rest of a close, when the wait is over or its time is up.\<close>

definition closeConn :: "int \<Rightarrow> ident \<Rightarrow> tunnel_manager \<Rightarrow> tunnel_manager" where
  "closeConn now connID m = (case tunnel_cancel now connID m of (None, m1) \<Rightarrow> m1 | (Some r, m1) \<Rightarrow> close_obj r m1)"

definition grantReadCredit :: "ident \<Rightarrow> 64 word \<Rightarrow> tunnel_manager \<Rightarrow> tunnel_manager" where
  "grantReadCredit connID credit m = (case tunnel_get connID m of None \<Rightarrow> m
     | Some r \<Rightarrow> (case fmlookup (tm_objs m) r of None \<Rightarrow> m
        | Some t \<Rightarrow> m\<lparr>tm_objs := fmupd r (t\<lparr>tn_credit := credit_add credit (tn_credit t)\<rparr>) (tm_objs m)\<rparr>))"

text \<open>The checks on a request to open, after which the target is dialled.\<close>

definition openConn_check :: "string \<Rightarrow> nat \<Rightarrow> reply option" where
  "openConn_check targetAddr targetPort = (if targetAddr = [] then Some InvalidArgument else if targetPort = 0 \<or> targetPort > 65535 then Some InvalidArgument else None)"

text \<open>The end of an open that was dialled, up to the deferred clean-up: \<open>sends\<close> says whether the response could be sent.\<close>

definition openConn_finish :: "nat \<Rightarrow> bool \<Rightarrow> ident \<Rightarrow> tunnel_manager \<Rightarrow> tunnel_manager" where
  "openConn_finish r sends connID m = (case tunnel_store connID r (m\<lparr>tm_objs := fmupd r newTunnelConn (tm_objs m)\<rparr>) of
     (False, m1) \<Rightarrow> m1 | (True, m1) \<Rightarrow> if sends then m1 else closeAndRemove connID r m1)"

end
