(* ===== verification/TunnelLaws.thy ===== *)
theory TunnelLaws
  imports Tunnel "HOL-Library.Multiset"
begin

text \<open>
  What the two ends of a tunnelled connection achieve together: bytes arrive once and in order whatever
  the order in which goroutines run, windows bound what is in flight, and neither direction gets
  stuck. An early close keeps its connection from being opened.
\<close>

section \<open>Writing\<close>

datatype handler_state = HNew | HParked | HWriting

text \<open>
  \<open>ww_slot\<close> is the frame of the writer that holds a slot and has not sent it yet, \<open>ww_sent\<close> every frame sent,
  \<open>ww_waiting\<close> the sequence numbers whose acknowledgement is awaited, \<open>ww_rejected\<close> and \<open>ww_failed\<close> whether
  the gate ever rejected a frame and whether a write on the target ever failed.
\<close>

record write_world =
  ww_conn :: conn
  ww_slot :: "(bytes \<times> bool) option"
  ww_wire :: "frame list"
  ww_handlers :: "(frame \<times> handler_state) multiset"
  ww_target :: tunnel_conn
  ww_acks :: "(nat \<times> ack) multiset"
  ww_waiting :: "nat fset"
  ww_sent :: "frame list"
  ww_rejected :: bool
  ww_failed :: bool

definition write_start :: write_world where
  "write_start = \<lparr>ww_conn = newConn, ww_slot = None, ww_wire = [], ww_handlers = {#}, ww_target = newTunnelConn, ww_acks = {#},
     ww_waiting = {||}, ww_sent = [], ww_rejected = False, ww_failed = False\<rparr>"

abbreviation gate_of :: "write_world \<Rightarrow> write_gate" where
  "gate_of w \<equiv> tn_gate (ww_target w)"

text \<open>Whether a goroutine that handles a frame can run: it is new, or its channel is closed.\<close>

definition can_run :: "write_gate \<Rightarrow> frame \<Rightarrow> handler_state \<Rightarrow> bool" where
  "can_run g f h \<longleftrightarrow> h = HNew \<or> h = HParked \<and> fr_seq f |\<notin>| wg_waiters g"

inductive write_reachable :: "write_world \<Rightarrow> bool" where
  start: "write_reachable write_start"
| acquire: "write_reachable w \<Longrightarrow> ww_slot w = None \<Longrightarrow> length data \<le> MaxChunkBytes \<Longrightarrow> (cw \<Longrightarrow> \<not> cn_closeWriteSent (ww_conn w)) \<Longrightarrow> sendFrame_check cw (ww_conn w) = None \<Longrightarrow>
    acquireSendSlot SlotArm now (ww_conn w) = Some (Inr c) \<Longrightarrow> write_reachable (w\<lparr>ww_conn := c, ww_slot := Some (data, cw)\<rparr>)"
| send: "write_reachable w \<Longrightarrow> ww_slot w = Some (data, cw) \<Longrightarrow> sendFrame_send failure data cw (ww_conn w) = (Inr f, c) \<Longrightarrow>
    write_reachable (w\<lparr>ww_conn := c\<lparr>cn_closeWriteSent := cn_closeWriteSent c \<or> cw\<rparr>, ww_slot := None, ww_wire := ww_wire w @ [f],
      ww_sent := ww_sent w @ [f], ww_waiting := finsert (fr_seq f) (ww_waiting w)\<rparr>)"
| send_fails: "write_reachable w \<Longrightarrow> ww_slot w = Some (data, cw) \<Longrightarrow> sendFrame_send failure data cw (ww_conn w) = (Inl e, c) \<Longrightarrow>
    write_reachable (w\<lparr>ww_conn := c, ww_slot := None\<rparr>)"
| deliver: "write_reachable w \<Longrightarrow> ww_wire w = f # fs \<Longrightarrow>
    write_reachable (w\<lparr>ww_wire := fs, ww_handlers := ww_handlers w + {#(f, HNew)#}\<rparr>)"
| turn: "write_reachable w \<Longrightarrow> (f, h) \<in># ww_handlers w \<Longrightarrow> can_run (gate_of w) f h \<Longrightarrow> waitTurn (fr_seq f) (gate_of w) = (Some writeTurnProceed, g) \<Longrightarrow>
    write_reachable (w\<lparr>ww_target := (ww_target w)\<lparr>tn_gate := g\<rparr>, ww_handlers := ww_handlers w - {#(f, h)#} + {#(f, HWriting)#}\<rparr>)"
| park: "write_reachable w \<Longrightarrow> (f, h) \<in># ww_handlers w \<Longrightarrow> can_run (gate_of w) f h \<Longrightarrow> waitTurn (fr_seq f) (gate_of w) = (None, g) \<Longrightarrow>
    write_reachable (w\<lparr>ww_target := (ww_target w)\<lparr>tn_gate := g\<rparr>, ww_handlers := ww_handlers w - {#(f, h)#} + {#(f, HParked)#}\<rparr>)"
| refuse: "write_reachable w \<Longrightarrow> (f, h) \<in># ww_handlers w \<Longrightarrow> can_run (gate_of w) f h \<Longrightarrow>
    waitTurn (fr_seq f) (gate_of w) = (Some t, g) \<Longrightarrow> t \<noteq> writeTurnProceed \<Longrightarrow>
    write_reachable (w\<lparr>ww_handlers := ww_handlers w - {#(f, h)#}, ww_acks := ww_acks w + {#(fr_seq f, AckError code msg)#},
      ww_rejected := ww_rejected w \<or> t = writeTurnRejected\<rparr>)"
| written: "write_reachable w \<Longrightarrow> (f, HWriting) \<in># ww_handlers w \<Longrightarrow>
    writeData_turn ended answers half (fr_data f) (fr_closeWrite f) (ww_target w) = Some (e, t) \<Longrightarrow>
    write_reachable (w\<lparr>ww_target := end_turn t, ww_handlers := ww_handlers w - {#(f, HWriting)#},
      ww_acks := ww_acks w + {#(fr_seq f, case e of None \<Rightarrow> AckOk | Some _ \<Rightarrow> AckError code msg)#}, ww_failed := ww_failed w \<or> e \<noteq> None\<rparr>)"
| flush: "write_reachable w \<Longrightarrow> waitReached seq (gate_of w) = (b, g) \<Longrightarrow> write_reachable (w\<lparr>ww_target := (ww_target w)\<lparr>tn_gate := g\<rparr>\<rparr>)"
| acked: "write_reachable w \<Longrightarrow> (s, a) \<in># ww_acks w \<Longrightarrow> s |\<in>| ww_waiting w \<Longrightarrow>
    write_reachable (w\<lparr>ww_conn := awaitWriteAck a (ww_conn w), ww_acks := ww_acks w - {#(s, a)#}, ww_waiting := ww_waiting w |-| {|s|}\<rparr>)"
| ack_dropped: "write_reachable w \<Longrightarrow> (s, a) \<in># ww_acks w \<Longrightarrow> s |\<notin>| ww_waiting w \<Longrightarrow> write_reachable (w\<lparr>ww_acks := ww_acks w - {#(s, a)#}\<rparr>)"
| abandoned: "write_reachable w \<Longrightarrow> s |\<in>| ww_waiting w \<Longrightarrow> cn_closed (ww_conn w) \<Longrightarrow>
    write_reachable (w\<lparr>ww_conn := awaitWriteAck AckConnClosed (ww_conn w), ww_waiting := ww_waiting w |-| {|s|}\<rparr>)"
| client_close: "write_reachable w \<Longrightarrow> write_reachable (w\<lparr>ww_conn := conn_Close (ww_conn w)\<rparr>)"
| worker_close: "write_reachable w \<Longrightarrow> write_reachable (w\<lparr>ww_target := snd (tunnel_close (ww_target w))\<rparr>)"

definition frame_seqs :: "write_world \<Rightarrow> nat multiset" where
  "frame_seqs w = mset (map fr_seq (ww_wire w)) + image_mset (\<lambda>p. fr_seq (fst p)) (ww_handlers w)"

text \<open>The invariant: of the client, of the gate, of what is under way, and of what arrived. While the gate is
  open, the frames under way are exactly those from the turn up to the last sent.\<close>

definition client_side :: "write_world \<Rightarrow> bool" where
  "client_side w \<longleftrightarrow>
     map fr_seq (ww_sent w) = [0..<cn_writeSeq (ww_conn w)] \<and>
     cn_sendWindow (ww_conn w) = fcard (ww_waiting w) + (if ww_slot w = None then 0 else 1) \<and> cn_sendWindow (ww_conn w) \<le> WriteWindowFrames \<and>
     (\<forall>s. s |\<in>| ww_waiting w \<longrightarrow> s < cn_writeSeq (ww_conn w)) \<and>
     (\<forall>f \<in> set (ww_sent w). length (fr_data f) \<le> MaxChunkBytes) \<and> (\<forall>data cw. ww_slot w = Some (data, cw) \<longrightarrow> length data \<le> MaxChunkBytes) \<and>
     (cn_closeWriteSent (ww_conn w) \<longrightarrow> ww_slot w = None) \<and>
     (\<forall>f \<in> set (ww_sent w). fr_closeWrite f \<longrightarrow> cn_closeWriteSent (ww_conn w) \<and> Suc (fr_seq f) = cn_writeSeq (ww_conn w))"

definition gate_side :: "write_world \<Rightarrow> bool" where
  "gate_side w \<longleftrightarrow>
     (\<forall>f \<in> set (ww_wire w). f \<in> set (ww_sent w)) \<and> (\<forall>p \<in># ww_handlers w. fst p \<in> set (ww_sent w)) \<and>
     (\<forall>s. s |\<in>| wg_waiters (gate_of w) \<longrightarrow> wg_next (gate_of w) < s) \<and>
     {#fr_seq (fst p). p \<in># filter_mset (\<lambda>p. snd p = HWriting) (ww_handlers w)#} = (if wg_claimed (gate_of w) then {#wg_next (gate_of w)#} else {#}) \<and>
     wg_next (gate_of w) \<le> cn_writeSeq (ww_conn w)"

definition in_flight :: "write_world \<Rightarrow> bool" where
  "in_flight w \<longleftrightarrow> (wg_closed (gate_of w) \<or>
     frame_seqs w = mset [wg_next (gate_of w)..<cn_writeSeq (ww_conn w)] \<and>
     cn_writeSeq (ww_conn w) - wg_next (gate_of w) \<le> WriteWindowFrames \<and>
     (cn_closed (ww_conn w) \<or> {wg_next (gate_of w)..<cn_writeSeq (ww_conn w)} \<subseteq> fset (ww_waiting w)) \<and>
     (\<forall>p \<in># ww_acks w. fst p < wg_next (gate_of w))) \<and> \<not> ww_rejected w"

definition arrived :: "write_world \<Rightarrow> bool" where
  "arrived w \<longleftrightarrow> (ww_failed w \<or> tn_out (ww_target w) = concat (map fr_data (take (wg_next (gate_of w)) (ww_sent w)))) \<and>
     (tn_half (ww_target w) \<longrightarrow> wg_next (gate_of w) = cn_writeSeq (ww_conn w) \<and> cn_closeWriteSent (ww_conn w))"

definition write_ok :: "write_world \<Rightarrow> bool" where
  "write_ok w \<longleftrightarrow> client_side w \<and> gate_side w \<and> in_flight w \<and> arrived w"

lemmas write_defs = write_ok_def client_side_def gate_side_def in_flight_def arrived_def frame_seqs_def

lemma sent_at:
  assumes "client_side w" "f \<in> set (ww_sent w)"
  shows "fr_seq f < length (ww_sent w)" "ww_sent w ! fr_seq f = f" "length (ww_sent w) = cn_writeSeq (ww_conn w)"
proof -
  have m: "map fr_seq (ww_sent w) = [0..<cn_writeSeq (ww_conn w)]" using assms(1) by (simp add: client_side_def)
  then show l: "length (ww_sent w) = cn_writeSeq (ww_conn w)" by (metis length_map length_upt minus_nat.diff_0)
  from assms(2) obtain k where k: "k < length (ww_sent w)" "ww_sent w ! k = f" by (auto simp: in_set_conv_nth)
  then have "fr_seq f = [0..<cn_writeSeq (ww_conn w)] ! k" using arg_cong [OF m, of "\<lambda>xs. xs ! k"] by simp
  then have "fr_seq f = k" using k l by simp
  then show "fr_seq f < length (ww_sent w)" "ww_sent w ! fr_seq f = f" using k by simp_all
qed

lemma ok_start: "write_ok write_start"
  by (simp add: write_defs write_start_def newConn_def newTunnelConn_def newWriteSeqGate_def WriteWindowFrames_def)

lemma ok_acquire:
  assumes ok: "write_ok w" and st: "ww_slot w = None" "length data \<le> MaxChunkBytes" "cw \<Longrightarrow> \<not> cn_closeWriteSent (ww_conn w)"
    "sendFrame_check cw (ww_conn w) = None" "acquireSendSlot SlotArm now (ww_conn w) = Some (Inr c)"
  shows "write_ok (w\<lparr>ww_conn := c, ww_slot := Some (data, cw)\<rparr>)"
proof -
  have "c = (ww_conn w)\<lparr>cn_sendWindow := Suc (cn_sendWindow (ww_conn w))\<rparr>" "cn_sendWindow (ww_conn w) < WriteWindowFrames"
    using st(5) by (auto simp: acquireSendSlot_def split: if_splits)
  moreover have "\<not> cn_closeWriteSent (ww_conn w)" using st(3,4) by (cases cw) (auto simp: sendFrame_check_def split: if_splits)
  ultimately show ?thesis using ok st(1,2) by (auto simp: write_defs)
qed

lemma ok_send:
  assumes ok: "write_ok w" and st: "ww_slot w = Some (data, cw)" "sendFrame_send failure data cw (ww_conn w) = (Inr f, c)"
  shows "write_ok (w\<lparr>ww_conn := c\<lparr>cn_closeWriteSent := cn_closeWriteSent c \<or> cw\<rparr>, ww_slot := None, ww_wire := ww_wire w @ [f],
      ww_sent := ww_sent w @ [f], ww_waiting := finsert (fr_seq f) (ww_waiting w)\<rparr>)"
proof -
  let ?n = "cn_writeSeq (ww_conn w)"
  have f: "f = \<lparr>fr_seq = ?n, fr_data = data, fr_closeWrite = cw\<rparr>" and c: "c = (ww_conn w)\<lparr>cn_writeSeq := Suc ?n\<rparr>" and opn: "\<not> cn_closed (ww_conn w)"
    using st(2) by (auto simp: sendFrame_send_def split: if_splits option.splits)
  have cl: "client_side w" and gs: "gate_side w" and fl: "in_flight w" and ar: "arrived w" using ok by (simp_all add: write_ok_def)
  have fresh: "?n |\<notin>| ww_waiting w" and nocw: "\<not> cn_closeWriteSent (ww_conn w)" using cl st(1) by (auto simp: client_side_def)
  have room: "?n - wg_next (gate_of w) < WriteWindowFrames" if "\<not> wg_closed (gate_of w)"
  proof -
    have "{wg_next (gate_of w)..<?n} \<subseteq> fset (ww_waiting w)" using fl that opn by (simp add: in_flight_def)
    from card_mono [OF _ this] have "?n - wg_next (gate_of w) \<le> fcard (ww_waiting w)" by (simp add: fcard.rep_eq)
    then show ?thesis using cl st(1) by (simp add: client_side_def)
  qed
  have len: "length (ww_sent w) = ?n" using arg_cong [of _ _ length, OF conjunct1 [OF cl [unfolded client_side_def]]] by simp
  have "client_side (w\<lparr>ww_conn := c\<lparr>cn_closeWriteSent := cn_closeWriteSent c \<or> cw\<rparr>, ww_slot := None, ww_wire := ww_wire w @ [f],
      ww_sent := ww_sent w @ [f], ww_waiting := finsert (fr_seq f) (ww_waiting w)\<rparr>)"
    using cl st(1) fresh nocw by (auto simp: client_side_def f c less_Suc_eq fcard_finsert_disjoint)
  moreover have "gate_side (w\<lparr>ww_conn := c\<lparr>cn_closeWriteSent := cn_closeWriteSent c \<or> cw\<rparr>, ww_slot := None, ww_wire := ww_wire w @ [f],
      ww_sent := ww_sent w @ [f], ww_waiting := finsert (fr_seq f) (ww_waiting w)\<rparr>)"
    using gs by (auto simp: gate_side_def c)
  moreover have "in_flight (w\<lparr>ww_conn := c\<lparr>cn_closeWriteSent := cn_closeWriteSent c \<or> cw\<rparr>, ww_slot := None, ww_wire := ww_wire w @ [f],
      ww_sent := ww_sent w @ [f], ww_waiting := finsert (fr_seq f) (ww_waiting w)\<rparr>)"
    using fl gs room opn by (auto simp: in_flight_def gate_side_def frame_seqs_def c f le_Suc_eq less_Suc_eq)
  moreover have "arrived (w\<lparr>ww_conn := c\<lparr>cn_closeWriteSent := cn_closeWriteSent c \<or> cw\<rparr>, ww_slot := None, ww_wire := ww_wire w @ [f],
      ww_sent := ww_sent w @ [f], ww_waiting := finsert (fr_seq f) (ww_waiting w)\<rparr>)"
    using ar gs nocw len by (auto simp: arrived_def gate_side_def c)
  ultimately show ?thesis by (simp add: write_ok_def)
qed

lemma ok_send_fails:
  assumes ok: "write_ok w" and st: "ww_slot w = Some (data, cw)" "sendFrame_send failure data cw (ww_conn w) = (Inl e, c)"
  shows "write_ok (w\<lparr>ww_conn := c, ww_slot := None\<rparr>)"
proof -
  have "c = release_slot (ww_conn w)" using st(2) by (auto simp: sendFrame_send_def split: if_splits option.splits)
  then show ?thesis using ok st(1) by (auto simp: write_defs release_slot_def)
qed

lemma ok_deliver:
  assumes "write_ok w" "ww_wire w = f # fs"
  shows "write_ok (w\<lparr>ww_wire := fs, ww_handlers := ww_handlers w + {#(f, HNew)#}\<rparr>)"
  using assms by (auto simp: write_defs)

text \<open>A goroutine that waits for its turn and one that has it are about different frames.\<close>

lemma waiting_seq:
  assumes ok: "write_ok w" and p: "(f, h) \<in># ww_handlers w" "h \<noteq> HWriting" and opn: "\<not> wg_closed (gate_of w)"
  shows "wg_next (gate_of w) \<le> fr_seq f" "fr_seq f < cn_writeSeq (ww_conn w)" "wg_claimed (gate_of w) \<Longrightarrow> fr_seq f \<noteq> wg_next (gate_of w)"
proof -
  let ?n = "wg_next (gate_of w)" and ?w = "filter_mset (\<lambda>p. snd p = HWriting) (ww_handlers w)"
  have fs: "frame_seqs w = mset [?n..<cn_writeSeq (ww_conn w)]" using ok opn by (simp add: write_ok_def in_flight_def)
  obtain rest where rest: "ww_handlers w = add_mset (f, h) rest" using multi_member_split [OF p(1)] by blast
  have "fr_seq f \<in># frame_seqs w" by (simp add: frame_seqs_def rest)
  then show b: "?n \<le> fr_seq f" "fr_seq f < cn_writeSeq (ww_conn w)" unfolding fs by auto
  show "fr_seq f \<noteq> ?n" if "wg_claimed (gate_of w)"
  proof
    assume eq: "fr_seq f = ?n"
    have "{#fr_seq (fst p). p \<in># ?w#} = {#?n#}" using ok that by (simp add: write_ok_def gate_side_def)
    moreover have "?w \<subseteq># rest" using p(2) by (simp add: rest)
    ultimately have "{#?n#} \<subseteq># {#fr_seq (fst p). p \<in># rest#}" using image_mset_subseteq_mono by metis
    then have "?n \<in># {#fr_seq (fst p). p \<in># rest#}" by simp
    then have "count (frame_seqs w) ?n \<ge> 2" by (simp add: frame_seqs_def rest eq count_greater_eq_Suc_zero_iff Suc_le_eq not_in_iff numeral_2_eq_2)
    moreover have "count (frame_seqs w) ?n \<le> 1" unfolding fs by (simp add: count_mset_set')
    ultimately show False by simp
  qed
qed

lemma can_run_state: "can_run g f h \<Longrightarrow> h \<noteq> HWriting"
  by (auto simp: can_run_def)

lemma swap_handler:
  assumes "(f, h) \<in># hs"
  shows "{#fr_seq (fst p). p \<in># hs - {#(f, h)#} + {#(f, h')#}#} = {#fr_seq (fst p). p \<in># hs#}"
    "p \<in># hs - {#(f, h)#} + {#(f, h')#} \<Longrightarrow> fst p = f \<or> p \<in># hs"
  using multi_member_split [OF assms] by auto

lemma ok_turn:
  assumes ok: "write_ok w" and p: "(f, h) \<in># ww_handlers w" "can_run (gate_of w) f h"
    and t: "waitTurn (fr_seq f) (gate_of w) = (Some writeTurnProceed, g)"
  shows "write_ok (w\<lparr>ww_target := (ww_target w)\<lparr>tn_gate := g\<rparr>, ww_handlers := ww_handlers w - {#(f, h)#} + {#(f, HWriting)#}\<rparr>)"
proof -
  have g: "g = (gate_of w)\<lparr>wg_claimed := True\<rparr>" "fr_seq f = wg_next (gate_of w)" "\<not> wg_claimed (gate_of w)"
    using t by (auto simp: waitTurn_def split: if_splits)
  obtain rest where rest: "ww_handlers w = add_mset (f, h) rest" using multi_member_split [OF p(1)] by blast
  have "h \<noteq> HWriting" using can_run_state [OF p(2)] .
  then show ?thesis using ok g by (auto simp: write_defs rest)
qed

lemma ok_park:
  assumes ok: "write_ok w" and p: "(f, h) \<in># ww_handlers w" "can_run (gate_of w) f h" and t: "waitTurn (fr_seq f) (gate_of w) = (None, g)"
  shows "write_ok (w\<lparr>ww_target := (ww_target w)\<lparr>tn_gate := g\<rparr>, ww_handlers := ww_handlers w - {#(f, h)#} + {#(f, HParked)#}\<rparr>)"
proof -
  have g: "g = waiterLocked (fr_seq f) (gate_of w)" "wg_next (gate_of w) < fr_seq f" using t by (auto simp: waitTurn_def split: if_splits)
  obtain rest where rest: "ww_handlers w = add_mset (f, h) rest" using multi_member_split [OF p(1)] by blast
  have "h \<noteq> HWriting" using can_run_state [OF p(2)] .
  then show ?thesis using ok g by (auto simp: write_defs rest waiterLocked_def)
qed

lemma ok_refuse:
  assumes ok: "write_ok w" and p: "(f, h) \<in># ww_handlers w" "can_run (gate_of w) f h"
    and t: "waitTurn (fr_seq f) (gate_of w) = (Some t, g)" "t \<noteq> writeTurnProceed"
  shows "write_ok (w\<lparr>ww_handlers := ww_handlers w - {#(f, h)#}, ww_acks := ww_acks w + {#(fr_seq f, AckError code msg)#},
      ww_rejected := ww_rejected w \<or> t = writeTurnRejected\<rparr>)"
proof -
  have h: "h \<noteq> HWriting" using can_run_state [OF p(2)] .
  have cl: "wg_closed (gate_of w)"
  proof (rule ccontr)
    assume opn: "\<not> wg_closed (gate_of w)"
    note s = waiting_seq [OF ok p(1) h opn]
    have "cn_writeSeq (ww_conn w) - wg_next (gate_of w) \<le> MaxWriteSeqLookahead"
      using ok opn by (simp add: write_ok_def in_flight_def WriteWindowFrames_def MaxWriteSeqLookahead_def)
    then show False using t s opn by (auto simp: waitTurn_def split: if_splits)
  qed
  then have "t = writeTurnClosed" using t by (simp add: waitTurn_def)
  obtain rest where rest: "ww_handlers w = add_mset (f, h) rest" using multi_member_split [OF p(1)] by blast
  show ?thesis using ok cl h \<open>t = writeTurnClosed\<close> by (auto simp: write_defs rest)
qed

lemma writeData_frames:
  assumes "writeData_turn ended answers half data cw t = Some (e, t')"
  shows "tn_gate t' = tn_gate t" "e = None \<Longrightarrow> tn_out t' = tn_out t @ data" "tn_half t' \<Longrightarrow> tn_half t \<or> cw"
proof -
  have "write_target answers data = Some (None, v) \<Longrightarrow> v = data" for answers v
    by (induction answers data arbitrary: v rule: write_target.induct) (auto split: if_splits)
  then show "tn_gate t' = tn_gate t" "e = None \<Longrightarrow> tn_out t' = tn_out t @ data" "tn_half t' \<Longrightarrow> tn_half t \<or> cw"
    using assms by (auto simp: writeData_turn_def Let_def split: if_splits option.splits)
qed

lemma writing_only:
  assumes ok: "write_ok w" and p: "(f, HWriting) \<in># ww_handlers w"
  shows "wg_claimed (gate_of w)" "fr_seq f = wg_next (gate_of w)" "f \<in> set (ww_sent w)"
    "{#fr_seq (fst p). p \<in># filter_mset (\<lambda>p. snd p = HWriting) (ww_handlers w - {#(f, HWriting)#})#} = {#}"
proof -
  obtain rest where rest: "ww_handlers w = add_mset (f, HWriting) rest" using multi_member_split [OF p] by blast
  then show "wg_claimed (gate_of w)" "fr_seq f = wg_next (gate_of w)" "f \<in> set (ww_sent w)"
    "{#fr_seq (fst p). p \<in># filter_mset (\<lambda>p. snd p = HWriting) (ww_handlers w - {#(f, HWriting)#})#} = {#}"
    using ok by (auto simp: write_ok_def gate_side_def split: if_splits)
qed

lemma ok_written:
  assumes ok: "write_ok w" and p: "(f, HWriting) \<in># ww_handlers w"
    and wr: "writeData_turn ended answers half (fr_data f) (fr_closeWrite f) (ww_target w) = Some (e, t)"
  shows "write_ok (w\<lparr>ww_target := end_turn t, ww_handlers := ww_handlers w - {#(f, HWriting)#},
      ww_acks := ww_acks w + {#(fr_seq f, case e of None \<Rightarrow> AckOk | Some _ \<Rightarrow> AckError code msg)#}, ww_failed := ww_failed w \<or> e \<noteq> None\<rparr>)"
    (is "write_ok ?w'")
proof -
  let ?n = "wg_next (gate_of w)" and ?k = "cn_writeSeq (ww_conn w)"
  note o = writing_only [OF ok p] and d = writeData_frames [OF wr]
  have cl: "client_side w" and gs: "gate_side w" and fl: "in_flight w" and ar: "arrived w" using ok by (simp_all add: write_ok_def)
  note at = sent_at [OF cl o(3)]
  have next_less: "?n < ?k" using at o(2) by simp
  have g: "gate_of ?w' = advance (gate_of w)" using d(1) by (simp add: end_turn_def)
  obtain rest where rest: "ww_handlers w = add_mset (f, HWriting) rest" using multi_member_split [OF p] by blast
  have "client_side ?w'" using cl by (simp add: client_side_def)
  moreover have "gate_side ?w'"
    using gs o(4) next_less unfolding gate_side_def g by (auto simp: advance_def rest split: if_splits)
  moreover have "in_flight ?w'"
  proof (cases "wg_closed (gate_of w)")
    case True
    then show ?thesis using fl unfolding in_flight_def g by (simp add: advance_def)
  next
    case False
    have fs: "frame_seqs w = mset [?n..<?k]" using fl False by (simp add: in_flight_def)
    have "frame_seqs w = add_mset ?n (frame_seqs ?w')" using o(2) by (simp add: frame_seqs_def rest)
    then have "frame_seqs ?w' = mset [Suc ?n..<?k]" using fs next_less by (simp add: upt_conv_Cons)
    then show ?thesis using fl False o(2) unfolding in_flight_def g by (auto simp: advance_def)
  qed
  moreover have "arrived ?w'"
  proof -
    have "concat (map fr_data (take (Suc ?n) (ww_sent w))) = concat (map fr_data (take ?n (ww_sent w))) @ fr_data f"
      using at o(2) by (simp add: take_Suc_conv_app_nth)
    moreover have "Suc ?n = ?k \<and> cn_closeWriteSent (ww_conn w)" if "fr_closeWrite f" using cl o(2,3) that by (auto simp: client_side_def)
    ultimately show ?thesis using ar d(2,3) next_less unfolding arrived_def g by (cases e) (auto simp: advance_def end_turn_def)
  qed
  ultimately show ?thesis by (simp add: write_ok_def)
qed

lemma fcard_fminus_single: "s |\<in>| S \<Longrightarrow> fcard S = Suc (fcard (S |-| {|s|}))"
  by (auto simp: fcard.rep_eq minus_fset.rep_eq card_gt_0_iff intro!: Suc_pred [symmetric])

lemma await_frames:
  "cn_sendWindow (awaitWriteAck a c) = cn_sendWindow c - 1" "cn_writeSeq (awaitWriteAck a c) = cn_writeSeq c" "cn_closed (awaitWriteAck a c) = cn_closed c"
  "cn_closeWriteSent (awaitWriteAck a c) = cn_closeWriteSent c"
  by (simp_all add: awaitWriteAck_def Let_def split: ack.splits)

lemma ok_acked:
  assumes ok: "write_ok w" and a: "(s, a) \<in># ww_acks w" "s |\<in>| ww_waiting w"
  shows "write_ok (w\<lparr>ww_conn := awaitWriteAck a (ww_conn w), ww_acks := ww_acks w - {#(s, a)#}, ww_waiting := ww_waiting w |-| {|s|}\<rparr>)"
proof -
  have "s < wg_next (gate_of w)" if "\<not> wg_closed (gate_of w)" using ok a(1) that by (auto simp: write_ok_def in_flight_def)
  then show ?thesis using ok fcard_fminus_single [OF a(2)] by (auto simp: write_defs await_frames dest: in_diffD)
qed

lemma ok_abandoned:
  assumes ok: "write_ok w" and a: "s |\<in>| ww_waiting w" "cn_closed (ww_conn w)"
  shows "write_ok (w\<lparr>ww_conn := awaitWriteAck AckConnClosed (ww_conn w), ww_waiting := ww_waiting w |-| {|s|}\<rparr>)"
  using ok a(2) fcard_fminus_single [OF a(1)] by (auto simp: write_defs await_frames)

lemma write_reachable_ok: "write_reachable w \<Longrightarrow> write_ok w"
proof (induction rule: write_reachable.induct)
  case (ack_dropped w s a)
  then show ?case by (auto simp: write_defs dest: in_diffD)
next
  case (flush w seq b g)
  have "w\<lparr>ww_target := (ww_target w)\<lparr>tn_gate := gate_of w\<rparr>\<rparr> = w" by simp
  then consider "w\<lparr>ww_target := (ww_target w)\<lparr>tn_gate := g\<rparr>\<rparr> = w" | "g = waiterLocked seq (gate_of w)" "wg_next (gate_of w) < seq"
    using flush(2) by (auto simp: waitReached_def simp del: write_world.surjective split: if_splits)
  then show ?case using flush.IH by cases (auto simp: write_defs waiterLocked_def)
next
  case (client_close w)
  then show ?case by (auto simp: write_defs conn_Close_def)
next
  case (worker_close w)
  then show ?case by (auto simp: write_defs tunnel_close_def gate_close_def)
qed (blast intro: ok_start ok_acquire ok_send ok_send_fails ok_deliver ok_turn ok_park ok_refuse ok_written ok_acked ok_abandoned)+

text \<open>C30: Writes arrive once and in order. The worker handles every frame on a goroutine of its own, and they may run in
  any order. As long as no write on the target has failed, the target has received exactly the data of the
  frames whose turn has passed, in the order in which they were sent; it sees the end of the stream only after
  all of it; and no frame of the client is ever rejected as out of order.\<close>

theorem tunnel_write_exact:
  assumes "write_reachable w"
  shows "\<not> ww_rejected w \<and>
    (ww_failed w \<or> tn_out (ww_target w) = concat (map fr_data (take (wg_next (tn_gate (ww_target w))) (ww_sent w)))) \<and>
    (\<not> tn_half (ww_target w) \<or> wg_next (tn_gate (ww_target w)) = length (ww_sent w))"
proof -
  have ok: "write_ok w" using write_reachable_ok [OF assms] .
  have "length (ww_sent w) = cn_writeSeq (ww_conn w)" using ok by (metis client_side_def length_map length_upt minus_nat.diff_0 write_ok_def)
  then show ?thesis using ok by (auto simp: write_ok_def in_flight_def arrived_def)
qed

lemma sum_chunks: "(\<And>f. f \<in># M \<Longrightarrow> length (fr_data f) \<le> k) \<Longrightarrow> (\<Sum>f \<in># M. length (fr_data f)) \<le> size M * k"
  by (induction M) (auto intro!: add_mono)

text \<open>C35: The write window bounds what a connection holds. While the connection is open, the frames on the wire and
  those of goroutines on the worker are no more than the window, and hold no more than a chunk each.\<close>

theorem tunnel_write_bounded:
  assumes "write_reachable w" "\<not> wg_closed (tn_gate (ww_target w))"
  shows "length (ww_wire w) + size (ww_handlers w) \<le> WriteWindowFrames \<and>
    (\<Sum>f \<in># mset (ww_wire w) + image_mset fst (ww_handlers w). length (fr_data f)) \<le> WriteWindowFrames * MaxChunkBytes"
proof -
  let ?M = "mset (ww_wire w) + image_mset fst (ww_handlers w)"
  have ok: "write_ok w" using write_reachable_ok [OF assms(1)] .
  have "frame_seqs w = mset [wg_next (gate_of w)..<cn_writeSeq (ww_conn w)]" using ok assms(2) by (simp add: write_ok_def in_flight_def)
  from arg_cong [OF this, of size] have n: "size ?M = cn_writeSeq (ww_conn w) - wg_next (gate_of w)" by (simp add: frame_seqs_def)
  then have le: "size ?M \<le> WriteWindowFrames" using ok assms(2) by (simp add: write_ok_def in_flight_def)
  have "length (fr_data f) \<le> MaxChunkBytes" if "f \<in># ?M" for f using that ok by (auto simp: write_ok_def gate_side_def client_side_def)
  from sum_chunks [OF this] have "(\<Sum>f \<in># ?M. length (fr_data f)) \<le> size ?M * MaxChunkBytes" .
  also have "\<dots> \<le> WriteWindowFrames * MaxChunkBytes" using le by simp
  finally show ?thesis using le by simp
qed

text \<open>C31: Writing never gets stuck. While the connection is open and a frame that was sent has not had its turn, a frame is
  still to be delivered, or a goroutine is writing, or one that can run finds that it is its turn. A goroutine that
  sleeps is woken when its turn comes.\<close>

theorem tunnel_write_progress:
  assumes "write_reachable w" "\<not> wg_closed (tn_gate (ww_target w))" "wg_next (tn_gate (ww_target w)) < length (ww_sent w)"
  shows "ww_wire w \<noteq> [] \<or> (\<exists>f. (f, HWriting) \<in># ww_handlers w) \<or>
    (\<exists>f h. (f, h) \<in># ww_handlers w \<and> can_run (tn_gate (ww_target w)) f h \<and> fst (waitTurn (fr_seq f) (tn_gate (ww_target w))) = Some writeTurnProceed)"
proof -
  let ?n = "wg_next (gate_of w)"
  have ok: "write_ok w" using write_reachable_ok [OF assms(1)] .
  have "length (ww_sent w) = cn_writeSeq (ww_conn w)" using ok by (metis client_side_def length_map length_upt minus_nat.diff_0 write_ok_def)
  then have "?n \<in># frame_seqs w" using ok assms(2,3) by (simp add: write_ok_def in_flight_def)
  then consider "ww_wire w \<noteq> []" | f h where "(f, h) \<in># ww_handlers w" "fr_seq f = ?n" by (force simp: frame_seqs_def)
  then show ?thesis
  proof cases
    case (2 f h)
    show ?thesis
    proof (cases "h = HWriting")
      case False
      have "\<not> wg_claimed (gate_of w)" using waiting_seq(3) [OF ok 2(1) False assms(2)] 2(2) by blast
      moreover have "?n |\<notin>| wg_waiters (gate_of w)" using ok by (auto simp: write_ok_def gate_side_def)
      then have "can_run (gate_of w) f h" using False 2(2) by (cases h) (auto simp: can_run_def)
      moreover have "fst (waitTurn (fr_seq f) (gate_of w)) = Some writeTurnProceed" using calculation(1) 2(2) assms(2) by (simp add: waitTurn_def)
      ultimately show ?thesis using 2(1) by blast
    qed (use 2 in blast)
  qed blast
qed

text \<open>The frames of one write.\<close>

lemma sendFrame_sent:
  assumes "sendFrameLocked how now data cw c = Some (Inr f, c')"
  shows "f = \<lparr>fr_seq = cn_writeSeq c, fr_data = data, fr_closeWrite = cw\<rparr>" "cn_writeSeq c' = Suc (cn_writeSeq c)"
  using assms
  by (auto simp: sendFrameLocked_def acquireSendSlot_def sendFrame_send_def split: option.splits if_splits sum.splits slot_arm.splits prod.splits)

lemma sendFrame_unsent: "sendFrameLocked how now data cw c = Some (Inl e, c') \<Longrightarrow> cn_writeSeq c' = cn_writeSeq c"
  by (auto simp: sendFrameLocked_def acquireSendSlot_def sendFrame_send_def release_slot_def split: option.splits if_splits sum.splits slot_arm.splits prod.splits)

lemma write_loop_spec:
  assumes "write_loop hows now k b c = Some ((n, err), fs, c')"
  shows "k \<le> n \<and> n - k \<le> length b \<and> concat (map fr_data fs) = take (n - k) b \<and> (err = None \<longrightarrow> n = k + length b) \<and>
    (\<forall>f \<in> set fs. 0 < length (fr_data f) \<and> length (fr_data f) \<le> MaxChunkBytes \<and> \<not> fr_closeWrite f) \<and>
    map fr_seq fs = [cn_writeSeq c..<cn_writeSeq c'] \<and> cn_writeSeq c' = cn_writeSeq c + length fs"
  using assms
proof (induction hows now k b c arbitrary: n err fs c' rule: write_loop.induct)
  case (1 now written b c)
  then show ?case by (auto split: if_splits)
next
  case (2 how hows now k b c)
  show ?case
  proof (cases "b = []")
    case False
    let ?chunk = "take MaxChunkBytes b"
    from 2(2) False obtain r c1 where r: "sendFrameLocked how now ?chunk False c = Some (r, c1)" by (auto simp: Let_def split: option.splits)
    show ?thesis
    proof (cases r)
      case (Inl e)
      then show ?thesis using 2(2) False r sendFrame_unsent [of how now ?chunk False c e c1] by (auto simp: Let_def)
    next
      case (Inr f)
      then obtain fs1 where rec: "write_loop hows now (k + length ?chunk) (drop (length ?chunk) b) c1 = Some ((n, err), fs1, c')" "fs = f # fs1"
        using 2(2) False r by (auto simp: Let_def)
      note f = sendFrame_sent [OF r [unfolded Inr]]
      have pos: "0 < length ?chunk" using False by (simp add: MaxChunkBytes_def)
      note ih = 2(1) [OF False refl r [unfolded Inr] refl refl rec(1)]
      have "?chunk @ take (n - (k + length ?chunk)) (drop (length ?chunk) b) = take (n - k) b"
        using take_add [of "length ?chunk" "n - (k + length ?chunk)" b] ih by (simp add: min_def)
      moreover have "cn_writeSeq c # [Suc (cn_writeSeq c)..<cn_writeSeq c'] = [cn_writeSeq c..<cn_writeSeq c']"
        using ih f(2) upt_conv_Cons [of "cn_writeSeq c" "cn_writeSeq c'"] by simp
      ultimately show ?thesis using ih f pos rec(2) by (auto simp del: upt_Suc)
    qed
  qed (use 2(2) in auto)
qed

text \<open>A write is cut into frames and nothing is lost. Whatever happens while it waits for room, the frames a write
  sends carry exactly the bytes it reports as written, a prefix of the buffer, in chunks within the bound and
  under consecutive numbers; without an error that is the whole buffer.\<close>

theorem conn_Write_exact:
  assumes "conn_Write hows now b c = Some ((n, err), fs, c')"
  shows "concat (map fr_data fs) = take n b \<and> n \<le> length b \<and> (err = None \<longrightarrow> n = length b) \<and>
    (\<forall>f \<in> set fs. length (fr_data f) \<le> MaxChunkBytes) \<and> map fr_seq fs = [cn_writeSeq c..<cn_writeSeq c']"
proof (cases "cn_closed c \<or> b = []")
  case False
  then show ?thesis using write_loop_spec [of hows now 0 b c n err fs c'] assms by (simp add: conn_Write_def)
qed (use assms in \<open>auto simp: conn_Write_def split: if_splits\<close>)

section \<open>Reading\<close>

text \<open>\<open>rw_source\<close> is what the target sent, \<open>rw_got\<close> what the client read. The worker's loop ends when \<open>rw_ended\<close>.\<close>

record read_world =
  rw_conn :: conn
  rw_wire :: "tunnel_event list"
  rw_grants :: "nat list"
  rw_target :: tunnel_conn
  rw_ended :: bool
  rw_source :: bytes
  rw_got :: bytes

definition read_start :: read_world where
  "read_start = \<lparr>rw_conn = newConn, rw_wire = [], rw_grants = [], rw_target = newTunnelConn, rw_ended = False, rw_source = [], rw_got = []\<rparr>"

text \<open>Both ends stay open. The client reads into buffers of any size, its grants travel apart from the stream.\<close>

inductive read_reachable :: "read_world \<Rightarrow> bool" where
  start: "read_reachable read_start"
| source: "read_reachable w \<Longrightarrow> \<not> rw_ended w \<Longrightarrow> length data \<le> MaxChunkBytes \<Longrightarrow> how = ReadMore \<or> how = ReadEOF \<Longrightarrow>
    tunnelReadLoop_turn data how True True (rw_target w) = ((r, evs), t) \<Longrightarrow> r \<noteq> ReadParked \<Longrightarrow>
    read_reachable (w\<lparr>rw_target := t, rw_wire := rw_wire w @ evs, rw_source := rw_source w @ data, rw_ended := (r \<noteq> ReadAgain)\<rparr>)"
| deliver: "read_reachable w \<Longrightarrow> rw_wire w = ev # evs \<Longrightarrow> onStreamMessage (StreamPayload (Some ev)) (rw_conn w) = Some c \<Longrightarrow>
    read_reachable (w\<lparr>rw_conn := c, rw_wire := evs\<rparr>)"
| client_read: "read_reachable w \<Longrightarrow> conn_Read False now n (rw_conn w) = (Some (Inr bs), c) \<Longrightarrow> read_reachable (w\<lparr>rw_conn := c, rw_got := rw_got w @ bs\<rparr>)"
| grant: "read_reachable w \<Longrightarrow> credit_turn (cn_credit (rw_conn w)) = Some (g, rc) \<Longrightarrow>
    read_reachable (w\<lparr>rw_conn := (rw_conn w)\<lparr>cn_credit := rc\<rparr>, rw_grants := rw_grants w @ (case g of None \<Rightarrow> [] | Some n \<Rightarrow> [n])\<rparr>)"
| granted: "read_reachable w \<Longrightarrow> rw_grants w = gs @ n # gs' \<Longrightarrow>
    read_reachable (w\<lparr>rw_grants := gs @ gs', rw_target := (rw_target w)\<lparr>tn_credit := credit_add (of_nat n) (tn_credit (rw_target w))\<rparr>\<rparr>)"

definition data_event :: "tunnel_event \<Rightarrow> bool" where
  "data_event ev \<longleftrightarrow> \<not> te_eof ev \<and> te_error ev = [] \<and> te_data ev \<noteq> [] \<and> length (te_data ev) \<le> MaxChunkBytes"

definition eof_event :: tunnel_event where
  "eof_event = \<lparr>te_data = [], te_eof = True, te_error = []\<rparr>"

text \<open>The frames under way, and whether the end of the stream is.\<close>

definition under_way :: "read_world \<Rightarrow> tunnel_event list" where
  "under_way w = filter (\<lambda>ev. \<not> te_eof ev) (rw_wire w)"

definition window_ok :: "read_world \<Rightarrow> bool" where
  "window_ok w \<longleftrightarrow> 0 \<le> cw_credit (tn_credit (rw_target w)) \<and> cw_max (tn_credit (rw_target w)) = int InitialReadWindow \<and>
     cw_credit (tn_credit (rw_target w)) + int (length (under_way w) + length (cn_readBuf (rw_conn w)) + rc_pending (cn_credit (rw_conn w)) + sum_list (rw_grants w)) =
       int InitialReadWindow \<and>
     rc_batch (cn_credit (rw_conn w)) = ReadCreditBatch \<and> \<not> rc_stopped (cn_credit (rw_conn w)) \<and>
     (ReadCreditBatch \<le> rc_pending (cn_credit (rw_conn w)) \<longrightarrow> rc_signal (cn_credit (rw_conn w)))"

definition stream_ok :: "read_world \<Rightarrow> bool" where
  "stream_ok w \<longleftrightarrow> \<not> cn_closed (rw_conn w) \<and> \<not> tn_closed (rw_target w) \<and> \<not> cw_closed (tn_credit (rw_target w)) \<and>
     (\<exists>evs. (\<forall>ev \<in> set evs. data_event ev) \<and> rw_wire w = evs @ (if rw_ended w \<and> cn_terminal (rw_conn w) = None then [eof_event] else [])) \<and>
     (cn_terminal (rw_conn w) = None \<or> cn_terminal (rw_conn w) = Some EOF \<and> rw_ended w \<and> rw_wire w = []) \<and>
     rw_got w @ cn_readPart (rw_conn w) @ concat (cn_readBuf (rw_conn w)) @ concat (map te_data (rw_wire w)) = rw_source w"

lemma under_way_split:
  assumes "\<forall>ev \<in> set evs. data_event ev"
  shows "filter (\<lambda>ev. \<not> te_eof ev) evs = evs"
  using assms by (auto simp: data_event_def filter_id_conv)

lemma ok_source:
  assumes ok: "window_ok w" "stream_ok w" and st: "\<not> rw_ended w" "length data \<le> MaxChunkBytes" "how = ReadMore \<or> how = ReadEOF"
    "tunnelReadLoop_turn data how True True (rw_target w) = ((r, evs), t)" "r \<noteq> ReadParked"
  shows "window_ok (w\<lparr>rw_target := t, rw_wire := rw_wire w @ evs, rw_source := rw_source w @ data, rw_ended := (r \<noteq> ReadAgain)\<rparr>)" (is "window_ok ?w'")
    "stream_ok (w\<lparr>rw_target := t, rw_wire := rw_wire w @ evs, rw_source := rw_source w @ data, rw_ended := (r \<noteq> ReadAgain)\<rparr>)"
proof -
  let ?w = "tn_credit (rw_target w)"
  let ?ev = "\<lparr>te_data = data, te_eof = False, te_error = []\<rparr>"
  let ?evs = "(if data = [] then [] else [?ev]) @ (if how = ReadEOF then [eof_event] else [])"
  have opn: "\<not> tn_closed (rw_target w)" "\<not> cw_closed ?w" "cn_terminal (rw_conn w) = None" using ok(2) st(1) by (auto simp: stream_ok_def)
  have pos: "data = [] \<or> 0 < cw_credit ?w" using st(4,5) opn(2) by (auto simp: tunnelReadLoop_turn_def credit_acquire_def split: if_splits)
  have res: "evs = ?evs" "(r \<noteq> ReadAgain) = (how = ReadEOF)"
      "t = (if data = [] then rw_target w else (rw_target w)\<lparr>tn_credit := ?w\<lparr>cw_credit := cw_credit ?w - 1\<rparr>\<rparr>)"
    using st(3,4,5) opn pos by (auto simp: tunnelReadLoop_turn_def credit_acquire_def event_turn_def eof_event_def Let_def split: if_splits)
  show "window_ok ?w'" using ok(1) pos by (auto simp: window_ok_def res under_way_def eof_event_def)
  show "stream_ok ?w'"
  proof -
    from ok(2) st(1) opn(3) obtain es where es: "\<forall>ev \<in> set es. data_event ev" "rw_wire w = es" by (auto simp: stream_ok_def)
    have "\<forall>ev \<in> set (es @ (if data = [] then [] else [?ev])). data_event ev" using es(1) st(2) by (auto simp: data_event_def)
    moreover have "rw_wire ?w' = (es @ (if data = [] then [] else [?ev])) @ (if rw_ended ?w' \<and> cn_terminal (rw_conn ?w') = None then [eof_event] else [])"
      using es(2) opn(3) by (simp add: res)
    ultimately have "\<exists>evs. (\<forall>ev \<in> set evs. data_event ev) \<and> rw_wire ?w' = evs @ (if rw_ended ?w' \<and> cn_terminal (rw_conn ?w') = None then [eof_event] else [])"
      by blast
    then show ?thesis using ok(2) opn unfolding stream_ok_def by (auto simp: res eof_event_def)
  qed
qed

lemma ok_deliver_event:
  assumes ok: "window_ok w" "stream_ok w" and st: "rw_wire w = ev # evs" "onStreamMessage (StreamPayload (Some ev)) (rw_conn w) = Some c"
  shows "window_ok (w\<lparr>rw_conn := c, rw_wire := evs\<rparr>)" "stream_ok (w\<lparr>rw_conn := c, rw_wire := evs\<rparr>)"
proof -
  let ?c = "rw_conn w"
  have opn: "\<not> cn_closed ?c" "cn_terminal ?c = None" using ok(2) st(1) by (auto simp: stream_ok_def)
  from ok(2) st(1) opn(2) obtain es where es: "\<forall>ev \<in> set es. data_event ev" "ev # evs = es @ (if rw_ended w then [eof_event] else [])"
    by (auto simp: stream_ok_def)
  have "window_ok (w\<lparr>rw_conn := c, rw_wire := evs\<rparr>) \<and> stream_ok (w\<lparr>rw_conn := c, rw_wire := evs\<rparr>)"
  proof (cases es)
    case Nil
    then have e: "ev = eof_event" "evs = []" "rw_ended w" using es(2) by (auto split: if_splits)
    then have "c = ?c\<lparr>cn_terminal := Some EOF\<rparr>" using st(2) opn by (simp add: onStreamMessage_def eof_event_def latch_Set_def)
    then show ?thesis using ok e st(1) by (auto simp: window_ok_def stream_ok_def under_way_def eof_event_def)
  next
    case (Cons x xs)
    then have e: "data_event ev" "evs = xs @ (if rw_ended w then [eof_event] else [])" "\<forall>ev \<in> set xs. data_event ev" using es by auto
    then have "c = ?c\<lparr>cn_readBuf := cn_readBuf ?c @ [te_data ev]\<rparr>"
      using st(2) opn by (auto simp: onStreamMessage_def data_event_def split: if_splits)
    then show ?thesis using ok e st(1) opn(2) by (auto simp: window_ok_def stream_ok_def under_way_def data_event_def)
  qed
  then show "window_ok (w\<lparr>rw_conn := c, rw_wire := evs\<rparr>)" "stream_ok (w\<lparr>rw_conn := c, rw_wire := evs\<rparr>)" by blast+
qed

lemma take_drop_assoc [simp]: "take n xs @ drop n xs @ ys = xs @ ys"
  by (metis append.assoc append_take_drop_id)

lemma conn_Read_cases:
  assumes "conn_Read False now n c = (Some (Inr bs), c')"
  shows "c' = c \<and> bs = [] \<or> c' = c\<lparr>cn_readPart := drop n (cn_readPart c)\<rparr> \<and> bs = take n (cn_readPart c) \<or>
    (\<exists>d rest. cn_readPart c = [] \<and> cn_readBuf c = d # rest \<and> bs = take n d \<and>
      c' = c\<lparr>cn_readBuf := rest, cn_readPart := drop n d, cn_credit := credit_consume 1 (cn_credit c)\<rparr>)"
  using assms by (auto simp: conn_Read_def read_poll_def read_settle_def consumeFrame_def split: if_splits list.splits option.splits)

lemma ok_client_read:
  assumes ok: "window_ok w" "stream_ok w" and st: "conn_Read False now n (rw_conn w) = (Some (Inr bs), c)"
  shows "window_ok (w\<lparr>rw_conn := c, rw_got := rw_got w @ bs\<rparr>)" "stream_ok (w\<lparr>rw_conn := c, rw_got := rw_got w @ bs\<rparr>)"
proof -
  have "window_ok (w\<lparr>rw_conn := c, rw_got := rw_got w @ bs\<rparr>) \<and> stream_ok (w\<lparr>rw_conn := c, rw_got := rw_got w @ bs\<rparr>)"
    using conn_Read_cases [OF st]
  proof (elim disjE exE conjE)
    fix d rest assume r: "cn_readPart (rw_conn w) = []" "cn_readBuf (rw_conn w) = d # rest" "bs = take n d"
      "c = rw_conn w\<lparr>cn_readBuf := rest, cn_readPart := drop n d, cn_credit := credit_consume 1 (cn_credit (rw_conn w))\<rparr>"
    have "window_ok (w\<lparr>rw_conn := c, rw_got := rw_got w @ bs\<rparr>)" using ok(1) r by (auto simp: window_ok_def under_way_def credit_consume_def Let_def)
    moreover have "stream_ok (w\<lparr>rw_conn := c, rw_got := rw_got w @ bs\<rparr>)" using ok(2) r unfolding stream_ok_def by simp
    ultimately show ?thesis by blast
  next
    assume r: "c = rw_conn w\<lparr>cn_readPart := drop n (cn_readPart (rw_conn w))\<rparr>" "bs = take n (cn_readPart (rw_conn w))"
    then show ?thesis using ok by (auto simp: window_ok_def stream_ok_def under_way_def)
  qed (use ok in \<open>auto simp: window_ok_def stream_ok_def under_way_def\<close>)
  then show "window_ok (w\<lparr>rw_conn := c, rw_got := rw_got w @ bs\<rparr>)" "stream_ok (w\<lparr>rw_conn := c, rw_got := rw_got w @ bs\<rparr>)" by blast+
qed

lemma sint_small: "n \<le> InitialReadWindow \<Longrightarrow> sint (word_of_nat n :: 64 word) = int n"
  by (simp add: InitialReadWindow_def signed_of_nat signed_take_bit_int_eq_self)

lemma ok_granted:
  assumes ok: "window_ok w" "stream_ok w" and st: "rw_grants w = gs @ n # gs'"
  shows "window_ok (w\<lparr>rw_grants := gs @ gs', rw_target := (rw_target w)\<lparr>tn_credit := credit_add (of_nat n) (tn_credit (rw_target w))\<rparr>\<rparr>)"
    "stream_ok (w\<lparr>rw_grants := gs @ gs', rw_target := (rw_target w)\<lparr>tn_credit := credit_add (of_nat n) (tn_credit (rw_target w))\<rparr>\<rparr>)"
proof -
  let ?k = "tn_credit (rw_target w)"
  have n: "n \<le> InitialReadWindow" "cw_credit ?k + int n \<le> int InitialReadWindow" "0 \<le> cw_credit ?k" "cw_max ?k = int InitialReadWindow"
    using ok(1) st by (auto simp: window_ok_def)
  have "wrap64 (cw_credit ?k + int n) = cw_credit ?k + int n" using n by (intro wrap64_id) (simp add: is_int64_def InitialReadWindow_def)
  then have "credit_add (of_nat n) ?k = ?k\<lparr>cw_credit := cw_credit ?k + int n\<rparr>" using n sint_small [OF n(1)] by (simp add: credit_add_def Let_def)
  then show "window_ok (w\<lparr>rw_grants := gs @ gs', rw_target := (rw_target w)\<lparr>tn_credit := credit_add (of_nat n) ?k\<rparr>\<rparr>)"
    "stream_ok (w\<lparr>rw_grants := gs @ gs', rw_target := (rw_target w)\<lparr>tn_credit := credit_add (of_nat n) ?k\<rparr>\<rparr>)"
    using ok st by (auto simp: window_ok_def stream_ok_def under_way_def)
qed

lemma read_reachable_ok: "read_reachable w \<Longrightarrow> window_ok w \<and> stream_ok w"
proof (induction rule: read_reachable.induct)
  case start
  show ?case by (simp add: window_ok_def stream_ok_def read_start_def newConn_def newTunnelConn_def newCreditWindow_def newReadCredit_def under_way_def
      InitialReadWindow_def ReadCreditBatch_def)
next
  case (source w data how r evs t)
  then show ?case using ok_source [of w data how r evs t] by blast
next
  case (deliver w ev evs c)
  then show ?case using ok_deliver_event by blast
next
  case (client_read w now n bs c)
  then show ?case using ok_client_read by blast
next
  case (grant w g rc)
  then show ?case by (auto simp: window_ok_def stream_ok_def under_way_def credit_turn_def ReadCreditBatch_def split: if_splits)
next
  case (granted w gs n gs')
  then show ?case using ok_granted by blast
qed

text \<open>C32: Reads are exact, bounded and never starve. What the client has read, what it buffers and what is under way are, in
  order, the bytes that the target sent. The client's buffer never fills, so the receiver that all
  connections share never waits for one of them. And when the worker has no credit left, credit is on its way
  back: a frame to deliver or to read, a grant to send, or one to arrive.\<close>

theorem tunnel_read_exact:
  assumes "read_reachable w"
  shows "rw_got w @ cn_readPart (rw_conn w) @ concat (cn_readBuf (rw_conn w)) @ concat (map te_data (rw_wire w)) = rw_source w \<and>
    length (cn_readBuf (rw_conn w)) + length (filter (\<lambda>ev. \<not> te_eof ev) (rw_wire w)) \<le> InitialReadWindow \<and> InitialReadWindow < ReadBufFrames \<and>
    (cw_credit (tn_credit (rw_target w)) \<le> 0 \<longrightarrow> rw_wire w \<noteq> [] \<or> cn_readBuf (rw_conn w) \<noteq> [] \<or> rc_signal (cn_credit (rw_conn w)) \<or> rw_grants w \<noteq> [])"
proof -
  have ok: "window_ok w" "stream_ok w" using read_reachable_ok [OF assms] by simp_all
  have "rw_wire w \<noteq> [] \<or> cn_readBuf (rw_conn w) \<noteq> [] \<or> rc_signal (cn_credit (rw_conn w)) \<or> rw_grants w \<noteq> []" if "cw_credit (tn_credit (rw_target w)) \<le> 0"
    using ok(1) that by (auto simp: window_ok_def under_way_def ReadCreditBatch_def InitialReadWindow_def)
  then show ?thesis using ok by (auto simp: window_ok_def stream_ok_def under_way_def InitialReadWindow_def ReadBufFrames_def)
qed

text \<open>The end of a stream can overtake its last bytes. A read that found the buffer empty looks at the end of the
  stream next; when the receiver queues the last frame and the end in between, the read reports the end while
  that frame is still in the buffer. Reading on would return it; a copy loop stops at the end.\<close>

theorem read_end_race:
  "read_poll n newConn = (None, newConn) \<and>
    (\<exists>c1 c2. onStreamMessage (StreamPayload (Some \<lparr>te_data = [7], te_eof = False, te_error = []\<rparr>)) newConn = Some c1 \<and> onStreamMessage (StreamPayload (Some \<lparr>te_data = [], te_eof = True, te_error = []\<rparr>)) c1 = Some c2 \<and>
      read_settle False now c2 = (Some (Inl EOF), c2) \<and> cn_readBuf c2 = [[7]])"
  by (simp add: read_poll_def read_settle_def onStreamMessage_def newConn_def MaxChunkBytes_def ReadBufFrames_def latch_Set_def)

text \<open>C34: A hostile client cannot break the read window. Whatever credits are granted, at any of the 64 bits, and however
  grants and frames interleave, the credit of a connection stays between zero and the size of the window.\<close>

theorem credit_bounded:
  fixes ops :: "64 word option list"
  shows "cw_credit (fold (\<lambda>op w. case op of None \<Rightarrow> snd (credit_acquire w) | Some g \<Rightarrow> credit_add g w) ops (newCreditWindow (int InitialReadWindow)))
    \<in> {0..int InitialReadWindow}"
proof -
  let ?f = "\<lambda>op w. case op of None \<Rightarrow> snd (credit_acquire w) | Some g \<Rightarrow> credit_add g w" and ?b = "int InitialReadWindow"
  have step: "0 \<le> cw_credit (?f op w) \<and> cw_credit (?f op w) \<le> ?b \<and> cw_max (?f op w) = ?b"
    if "0 \<le> cw_credit w \<and> cw_credit w \<le> ?b \<and> cw_max w = ?b" for op w
    using that by (auto simp: credit_acquire_def credit_add_def Let_def split: option.splits)
  have "0 \<le> cw_credit w \<and> cw_credit w \<le> ?b \<and> cw_max w = ?b \<Longrightarrow>
      0 \<le> cw_credit (fold ?f ops w) \<and> cw_credit (fold ?f ops w) \<le> ?b \<and> cw_max (fold ?f ops w) = ?b" for w
    by (induction ops arbitrary: w) (use step in auto)
  from this [of "newCreditWindow ?b"] show ?thesis by (simp add: newCreditWindow_def)
qed

section \<open>Early closes\<close>

text \<open>
  Opens and closes of connections in any order, each identifier opened once and closed once. An open begins,
  dials for as long as it takes, and ends with the connection stored or with a failure; then its deferred
  clean-up runs. \<open>ow_begun\<close> and \<open>ow_closed\<close> say when the open and the close of an identifier were handled.
\<close>

record open_world =
  ow_mgr :: tunnel_manager
  ow_now :: int
  ow_begun :: "ident \<Rightarrow> int option"
  ow_closed :: "ident \<Rightarrow> int option"
  ow_dialing :: "ident set"
  ow_ending :: "ident set"

inductive open_reachable :: "open_world \<Rightarrow> bool" where
  start: "open_reachable \<lparr>ow_mgr = newTunnelManager, ow_now = now, ow_begun = Map.empty, ow_closed = Map.empty, ow_dialing = {}, ow_ending = {}\<rparr>"
| wait: "open_reachable w \<Longrightarrow> ow_now w \<le> now \<Longrightarrow> open_reachable (w\<lparr>ow_now := now\<rparr>)"
| begin_open: "open_reachable w \<Longrightarrow> ow_begun w i = None \<Longrightarrow> beginOpen (ow_now w) i (ow_mgr w) = (ok, m) \<Longrightarrow>
    open_reachable (w\<lparr>ow_mgr := m, ow_begun := (ow_begun w)(i \<mapsto> ow_now w), ow_dialing := (if ok then insert i (ow_dialing w) else ow_dialing w)\<rparr>)"
| dialled: "open_reachable w \<Longrightarrow> i \<in> ow_dialing w \<Longrightarrow> fmlookup (tm_objs (ow_mgr w)) r = None \<Longrightarrow>
    open_reachable (w\<lparr>ow_mgr := openConn_finish r sends i (ow_mgr w), ow_dialing := ow_dialing w - {i}, ow_ending := insert i (ow_ending w)\<rparr>)"
| dial_failed: "open_reachable w \<Longrightarrow> i \<in> ow_dialing w \<Longrightarrow> open_reachable (w\<lparr>ow_dialing := ow_dialing w - {i}, ow_ending := insert i (ow_ending w)\<rparr>)"
| ended: "open_reachable w \<Longrightarrow> i \<in> ow_ending w \<Longrightarrow> open_reachable (w\<lparr>ow_mgr := abortOpen i (ow_mgr w), ow_ending := ow_ending w - {i}\<rparr>)"
| client_close: "open_reachable w \<Longrightarrow> ow_closed w i = None \<Longrightarrow>
    open_reachable (w\<lparr>ow_mgr := closeConn (ow_now w) i (ow_mgr w), ow_closed := (ow_closed w)(i \<mapsto> ow_now w)\<rparr>)"
| flush: "open_reachable w \<Longrightarrow> closeConn_flush i seq (ow_mgr w) = (b, m) \<Longrightarrow> open_reachable (w\<lparr>ow_mgr := m\<rparr>)"
| granted: "open_reachable w \<Longrightarrow> open_reachable (w\<lparr>ow_mgr := grantReadCredit i credit (ow_mgr w)\<rparr>)"
| reader_ends: "open_reachable w \<Longrightarrow> open_reachable (w\<lparr>ow_mgr := closeAndRemove i r (ow_mgr w)\<rparr>)"

text \<open>An open that came too late for its marker.\<close>

definition came_late :: "open_world \<Rightarrow> ident \<Rightarrow> bool" where
  "came_late w i \<longleftrightarrow> (\<exists>b t. ow_begun w i = Some b \<and> ow_closed w i = Some t \<and> t + staleCancelMarkerTTL \<le> b)"

definition entries :: "cancel_markers \<Rightarrow> nat set" where
  "entries c = fst ` set (cm_expiry c)"

definition markers_ok :: "cancel_markers \<Rightarrow> bool" where
  "markers_ok c \<longleftrightarrow> distinct (map fst (cm_expiry c)) \<and> (\<forall>e \<in> entries c. e < cm_fresh c) \<and> (\<forall>i e. fmlookup (cm_markers c) i = Some e \<longrightarrow> e < cm_fresh c)"

text \<open>What is known of an identifier that was closed at \<open>t\<close>: it has no connection; while its open dials, a marker without
  an expiry stands; before its open, a marker stands until it expires.\<close>

definition fenced :: "tunnel_manager \<Rightarrow> int \<Rightarrow> ident set \<Rightarrow> int option \<Rightarrow> int \<Rightarrow> ident \<Rightarrow> bool" where
  "fenced m now dialing begun t i \<longleftrightarrow> fmlookup (tm_conns m) i = None \<and>
     (i \<in> dialing \<longrightarrow> (\<exists>e. fmlookup (cm_markers (tm_canceled m)) i = Some e \<and> e \<notin> entries (tm_canceled m))) \<and>
     (begun = None \<and> now < t + staleCancelMarkerTTL \<longrightarrow>
        (\<exists>e. fmlookup (cm_markers (tm_canceled m)) i = Some e \<and> (e, i, t + staleCancelMarkerTTL) \<in> set (cm_expiry (tm_canceled m))))"

definition opens_ok :: "open_world \<Rightarrow> bool" where
  "opens_ok w \<longleftrightarrow> markers_ok (tm_canceled (ow_mgr w)) \<and>
     (\<forall>i. i \<in> ow_dialing w \<or> i \<in> ow_ending w \<or> fmlookup (tm_conns (ow_mgr w)) i \<noteq> None \<longrightarrow> ow_begun w i \<noteq> None) \<and>
     (\<forall>i. i |\<in>| tm_opening (ow_mgr w) \<longrightarrow> i \<in> ow_dialing w \<union> ow_ending w) \<and>
     (\<forall>i \<in> ow_dialing w. fmlookup (tm_conns (ow_mgr w)) i = None \<and> (ow_closed w i = None \<longrightarrow> i |\<in>| tm_opening (ow_mgr w))) \<and>
     ow_dialing w \<inter> ow_ending w = {} \<and>
     (\<forall>i t. ow_closed w i = Some t \<longrightarrow> t \<le> ow_now w) \<and> (\<forall>i b. ow_begun w i = Some b \<longrightarrow> b \<le> ow_now w)"

definition fence_ok :: "open_world \<Rightarrow> bool" where
  "fence_ok w \<longleftrightarrow> opens_ok w \<and>
     (\<forall>i t. ow_closed w i = Some t \<longrightarrow> came_late w i \<or> fenced (ow_mgr w) (ow_now w) (ow_dialing w) (ow_begun w i) t i)"

lemma cancel_sweep_prefix: "sweep_expiry now es m = (es', m') \<Longrightarrow> \<exists>pre. es = pre @ es' \<and> (\<forall>x \<in> set pre. snd (snd x) \<le> now)"
proof (induction now es m rule: sweep_expiry.induct)
  case (2 now e i t es m)
  show ?case
  proof (cases "now < t")
    case False
    then obtain pre where "es = pre @ es'" "\<forall>x \<in> set pre. snd (snd x) \<le> now" using 2 by auto
    then have "(e, i, t) # es = ((e, i, t) # pre) @ es' \<and> (\<forall>x \<in> set ((e, i, t) # pre). snd (snd x) \<le> now)" using False by simp
    then show ?thesis by blast
  qed (use 2(2) in auto)
qed auto

lemma cancel_sweep_marker: "sweep_expiry now es m = (es', m') \<Longrightarrow> fmlookup m' j = Some k \<Longrightarrow> fmlookup m j = Some k"
  by (induction now es m rule: sweep_expiry.induct) (auto split: if_splits)

lemma cancel_sweep_keeps:
  "sweep_expiry now es m = (es', m') \<Longrightarrow> fmlookup m j = Some k \<Longrightarrow> (\<And>t. (k, j, t) \<in> set es \<Longrightarrow> now < t) \<Longrightarrow> fmlookup m' j = Some k"
proof (induction now es m rule: sweep_expiry.induct)
  case (2 now e i t es m)
  show ?case
  proof (cases "now < t")
    case False
    let ?m = "if fmlookup m i = Some e then fmdrop i m else m"
    have run: "sweep_expiry now es ?m = (es', m')" using 2(2) False by simp
    have "\<not> (i = j \<and> e = k)" using 2(4) [of t] False by auto
    then have "fmlookup ?m j = Some k" using 2(3) by auto
    then show ?thesis using 2(1) [OF False run] 2(4) by simp
  qed (use 2(2,3) in auto)
qed auto

lemma cancel_sweep_spec:
  assumes "markers_ok c"
  shows "markers_ok (cancel_sweep now c)" "entries (cancel_sweep now c) \<subseteq> entries c"
    "fmlookup (cm_markers c) i = Some e \<Longrightarrow> e \<notin> entries c \<Longrightarrow> fmlookup (cm_markers (cancel_sweep now c)) i = Some e"
    "fmlookup (cm_markers c) i = Some e \<Longrightarrow> (e, i, t) \<in> set (cm_expiry c) \<Longrightarrow> now < t \<Longrightarrow>
      fmlookup (cm_markers (cancel_sweep now c)) i = Some e \<and> (e, i, t) \<in> set (cm_expiry (cancel_sweep now c))"
proof -
  obtain es m where run: "sweep_expiry now (cm_expiry c) (cm_markers c) = (es, m)" by fastforce
  then have c: "cancel_sweep now c = c\<lparr>cm_expiry := es, cm_markers := m\<rparr>" by (simp add: cancel_sweep_def)
  obtain pre where pre: "cm_expiry c = pre @ es" "\<forall>x \<in> set pre. snd (snd x) \<le> now" using cancel_sweep_prefix [OF run] by blast
  have "distinct (map fst es)" "\<forall>e \<in> fst ` set es. e < cm_fresh c" using assms pre(1) by (auto simp: markers_ok_def entries_def)
  moreover have "e < cm_fresh c" if "fmlookup m i = Some e" for i e using assms cancel_sweep_marker [OF run that] by (simp add: markers_ok_def)
  ultimately show "markers_ok (cancel_sweep now c)" by (simp add: markers_ok_def entries_def c)
  show "entries (cancel_sweep now c) \<subseteq> entries c" using pre(1) by (auto simp: entries_def c)
  show "fmlookup (cm_markers (cancel_sweep now c)) i = Some e" if k: "fmlookup (cm_markers c) i = Some e" "e \<notin> entries c"
  proof -
    have "(e, i, t) \<notin> set (cm_expiry c)" for t using k(2) by (force simp: entries_def)
    then show ?thesis using cancel_sweep_keeps [OF run k(1)] by (simp add: c)
  qed
  show "fmlookup (cm_markers (cancel_sweep now c)) i = Some e \<and> (e, i, t) \<in> set (cm_expiry (cancel_sweep now c))"
    if k: "fmlookup (cm_markers c) i = Some e" "(e, i, t) \<in> set (cm_expiry c)" "now < t"
  proof -
    have "u = t" if "(e, i, u) \<in> set (cm_expiry c)" for u
      using assms that k(2) eq_key_imp_eq_value [of "cm_expiry c" e "(i, u)" "(i, t)"] by (simp add: markers_ok_def)
    then have "fmlookup m i = Some e" using cancel_sweep_keeps [OF run k(1)] k(3) by blast
    moreover have "(e, i, t) \<in> set es" using pre k(2,3) by auto
    ultimately show ?thesis by (simp add: c)
  qed
qed

lemma fenced_sweep:
  assumes "markers_ok (tm_canceled m)" "fenced m now dialing b t i"
  shows "fenced (m\<lparr>tm_canceled := cancel_sweep now (tm_canceled m)\<rparr>) now dialing b t i"
  unfolding fenced_def
proof (intro conjI impI)
  note f = assms(2) [unfolded fenced_def]
  show "fmlookup (tm_conns (m\<lparr>tm_canceled := cancel_sweep now (tm_canceled m)\<rparr>)) i = None" using f by simp
  show "\<exists>e. fmlookup (cm_markers (tm_canceled (m\<lparr>tm_canceled := cancel_sweep now (tm_canceled m)\<rparr>))) i = Some e \<and>
      e \<notin> entries (tm_canceled (m\<lparr>tm_canceled := cancel_sweep now (tm_canceled m)\<rparr>))" if "i \<in> dialing"
  proof -
    from f that obtain e where "fmlookup (cm_markers (tm_canceled m)) i = Some e" "e \<notin> entries (tm_canceled m)" by blast
    then show ?thesis using cancel_sweep_spec(2,3) [OF assms(1), where now = now] by (simp add: subset_iff) blast
  qed
  show "\<exists>e. fmlookup (cm_markers (tm_canceled (m\<lparr>tm_canceled := cancel_sweep now (tm_canceled m)\<rparr>))) i = Some e \<and>
      (e, i, t + staleCancelMarkerTTL) \<in> set (cm_expiry (tm_canceled (m\<lparr>tm_canceled := cancel_sweep now (tm_canceled m)\<rparr>)))"
    if "b = None \<and> now < t + staleCancelMarkerTTL"
  proof -
    from f that obtain e where "fmlookup (cm_markers (tm_canceled m)) i = Some e" "(e, i, t + staleCancelMarkerTTL) \<in> set (cm_expiry (tm_canceled m))" by blast
    then show ?thesis using cancel_sweep_spec(4) [OF assms(1), where now = now] that by simp
  qed
qed

text \<open>What concerns one identifier leaves the others alone.\<close>

lemma fenced_other:
  assumes f: "fenced m now dialing b t j" and same: "fmlookup (tm_conns m') j = fmlookup (tm_conns m) j"
    "fmlookup (cm_markers (tm_canceled m')) j = fmlookup (cm_markers (tm_canceled m)) j"
    and more: "set (cm_expiry (tm_canceled m)) \<subseteq> set (cm_expiry (tm_canceled m'))" and ok: "markers_ok (tm_canceled m)"
    and new: "entries (tm_canceled m') \<subseteq> entries (tm_canceled m) \<union> {cm_fresh (tm_canceled m)..}" and d: "j \<in> dialing' \<Longrightarrow> j \<in> dialing"
  shows "fenced m' now dialing' b t j"
proof -
  have "e \<notin> entries (tm_canceled m')" if "fmlookup (cm_markers (tm_canceled m)) j = Some e" "e \<notin> entries (tm_canceled m)" for e
  proof -
    have "e < cm_fresh (tm_canceled m)" using ok that(1) by (simp add: markers_ok_def)
    then show ?thesis using new that(2) by fastforce
  qed
  then show ?thesis using f more d unfolding fenced_def same by blast
qed

lemma marker_ops:
  assumes "markers_ok c"
  shows "markers_ok (c\<lparr>cm_markers := fmdrop i (cm_markers c)\<rparr>)" "markers_ok (markDuringOpen i t c)" "markers_ok (cancel_mark i t c)"
    "entries (markDuringOpen i t c) = entries c" "entries (cancel_mark i t c) = insert (Suc (cm_fresh c)) (entries c)" "cm_fresh c \<notin> entries c"
  using assms by (auto simp: markers_ok_def markDuringOpen_def cancel_mark_def entries_def Let_def less_Suc_eq split: if_splits)

lemma take_frames:
  "snd (cancel_take i c) = c\<lparr>cm_markers := fmdrop i (cm_markers c)\<rparr>" "fst (cancel_take i c) \<longleftrightarrow> fmlookup (cm_markers c) i \<noteq> None"
  by (auto simp: cancel_take_def fmdrop_idle' fmlookup_dom'_iff intro: cancel_markers.equality)

lemma begin_cases:
  assumes "beginOpen now i m = (ok, m')"
  defines "m1 \<equiv> m\<lparr>tm_canceled := cancel_sweep now (tm_canceled m)\<rparr>"
  shows "ok \<longleftrightarrow> fmlookup (cm_markers (tm_canceled m1)) i = None \<and> i |\<notin>| tm_opening m \<and> fmlookup (tm_conns m) i = None"
    "tm_canceled m' = snd (cancel_take i (tm_canceled m1))" "tm_conns m' = tm_conns m" "tm_opening m' = (if ok then finsert i (tm_opening m) else tm_opening m)"
  using assms(1) take_frames(2) [of i "tm_canceled m1"]
  by (auto simp: beginOpen_def m1_def Let_def cancel_take_def split: prod.splits if_splits)

lemma fence_begin:
  assumes ok: "fence_ok w" and i: "ow_begun w i = None" and run: "beginOpen (ow_now w) i (ow_mgr w) = (r, m)"
  shows "fence_ok (w\<lparr>ow_mgr := m, ow_begun := (ow_begun w)(i \<mapsto> ow_now w), ow_dialing := (if r then insert i (ow_dialing w) else ow_dialing w)\<rparr>)" (is "fence_ok ?w'")
proof -
  define m1 where "m1 = ow_mgr w\<lparr>tm_canceled := cancel_sweep (ow_now w) (tm_canceled (ow_mgr w))\<rparr>"
  note c = begin_cases [OF run, folded m1_def]
  have o: "opens_ok w" using ok by (simp add: fence_ok_def)
  then have mk: "markers_ok (tm_canceled (ow_mgr w))" by (simp add: opens_ok_def)
  have mk1: "markers_ok (tm_canceled m1)" using cancel_sweep_spec(1) [OF mk] by (simp add: m1_def)
  have ca: "tm_canceled m = (tm_canceled m1)\<lparr>cm_markers := fmdrop i (cm_markers (tm_canceled m1))\<rparr>" using c(2) take_frames(1) by simp
  have "opens_ok ?w'" using o i c(1,3,4) marker_ops(1) [OF mk1, of i] by (auto simp: opens_ok_def ca split: if_splits)
  moreover have "came_late ?w' j \<or> fenced m (ow_now w) (ow_dialing ?w') (ow_begun ?w' j) t j" if j: "ow_closed w j = Some t" for j t
  proof (cases "j = i")
    case False
    have "came_late w j \<or> fenced (ow_mgr w) (ow_now w) (ow_dialing w) (ow_begun w j) t j" using ok j by (simp add: fence_ok_def)
    then show ?thesis
    proof
      assume "fenced (ow_mgr w) (ow_now w) (ow_dialing w) (ow_begun w j) t j"
      then have "fenced m1 (ow_now w) (ow_dialing w) (ow_begun w j) t j" using fenced_sweep [OF mk] by (simp add: m1_def)
      then have "fenced m (ow_now w) (ow_dialing ?w') (ow_begun w j) t j"
        by (rule fenced_other) (use False mk1 c(3) in \<open>auto simp: ca m1_def entries_def split: if_splits\<close>)
      then show ?thesis using False by simp
    qed (use False in \<open>simp add: came_late_def\<close>)
  next
    case True
    show ?thesis
    proof (cases "t + staleCancelMarkerTTL \<le> ow_now w")
      case False
      have "\<not> came_late w i" using i by (simp add: came_late_def)
      then have "fenced (ow_mgr w) (ow_now w) (ow_dialing w) (ow_begun w i) t i" using ok j True by (auto simp: fence_ok_def)
      then have f: "fenced m1 (ow_now w) (ow_dialing w) None t i" using fenced_sweep [OF mk] i by (simp add: m1_def)
      then have "\<not> r" using c(1) False by (auto simp: fenced_def)
      moreover have "i \<notin> ow_dialing w" using o i by (auto simp: opens_ok_def)
      ultimately show ?thesis using f True c(3) by (simp add: fenced_def m1_def)
    qed (use True j in \<open>simp add: came_late_def\<close>)
  qed
  ultimately show ?thesis by (simp add: fence_ok_def)
qed

lemma finish_cases:
  assumes "m' = openConn_finish r sends i m"
  shows "tm_canceled m' = snd (cancel_take i (tm_canceled m))" "tm_opening m' = tm_opening m |-| {|i|}"
    "fmlookup (tm_conns m') j = fmlookup (tm_conns m) j \<or> j = i \<and> fmlookup (cm_markers (tm_canceled m)) i = None \<or> fmlookup (tm_conns m') j = None"
proof -
  have co: "tm_canceled (close_obj r x) = tm_canceled x" "tm_opening (close_obj r x) = tm_opening x" "tm_conns (close_obj r x) = tm_conns x" for x
    by (simp_all add: close_obj_def split: option.splits)
  show "tm_canceled m' = snd (cancel_take i (tm_canceled m))" "tm_opening m' = tm_opening m |-| {|i|}"
    "fmlookup (tm_conns m') j = fmlookup (tm_conns m) j \<or> j = i \<and> fmlookup (cm_markers (tm_canceled m)) i = None \<or> fmlookup (tm_conns m') j = None"
    using assms by (auto simp: openConn_finish_def tunnel_store_def Let_def cancel_take_def closeAndRemove_def tunnel_removeIf_def co split: if_splits)
qed

lemma fence_dialled:
  assumes ok: "fence_ok w" and i: "i \<in> ow_dialing w"
  shows "fence_ok (w\<lparr>ow_mgr := openConn_finish r sends i (ow_mgr w), ow_dialing := ow_dialing w - {i}, ow_ending := insert i (ow_ending w)\<rparr>)" (is "fence_ok ?w'")
proof -
  define m where "m = openConn_finish r sends i (ow_mgr w)"
  note c = finish_cases [OF m_def]
  have o: "opens_ok w" using ok by (simp add: fence_ok_def)
  then have mk: "markers_ok (tm_canceled (ow_mgr w))" by (simp add: opens_ok_def)
  have ca: "tm_canceled m = (tm_canceled (ow_mgr w))\<lparr>cm_markers := fmdrop i (cm_markers (tm_canceled (ow_mgr w)))\<rparr>" using c(1) take_frames(1) by simp
  have conns: "fmlookup (tm_conns m) j = None" if "j \<noteq> i" "fmlookup (tm_conns (ow_mgr w)) j = None" for j using c(3) [of j] that by auto
  have begun: "ow_begun w j \<noteq> None" if "fmlookup (tm_conns m) j \<noteq> None" for j
    using c(3) [of j] that o i by (cases "j = i") (auto simp: opens_ok_def)
  have "opens_ok ?w'" using o i c(2) marker_ops(1) [OF mk, of i] conns begun unfolding opens_ok_def m_def [symmetric] by (auto simp: ca)
  moreover have "came_late w j \<or> fenced m (ow_now w) (ow_dialing w - {i}) (ow_begun w j) t j" if j: "ow_closed w j = Some t" for j t
  proof -
    have "came_late w j \<or> fenced (ow_mgr w) (ow_now w) (ow_dialing w) (ow_begun w j) t j" using ok j by (simp add: fence_ok_def)
    moreover have "fenced m (ow_now w) (ow_dialing w - {i}) (ow_begun w j) t j" if f: "fenced (ow_mgr w) (ow_now w) (ow_dialing w) (ow_begun w j) t j"
    proof (cases "j = i")
      case False
      have "fmlookup (tm_conns (ow_mgr w)) j = None" using f by (simp add: fenced_def)
      then show ?thesis using conns [OF False] by (intro fenced_other [OF f]) (use False mk in \<open>auto simp: ca entries_def\<close>)
    next
      case True
      have "fmlookup (cm_markers (tm_canceled (ow_mgr w))) i \<noteq> None" "fmlookup (tm_conns (ow_mgr w)) i = None" using f i True by (auto simp: fenced_def)
      then have "fmlookup (tm_conns m) i = None" using c(3) [of i] by auto
      moreover have "ow_begun w i \<noteq> None" using o i by (simp add: opens_ok_def)
      ultimately show ?thesis using True by (auto simp: fenced_def)
    qed
    ultimately show ?thesis by blast
  qed
  ultimately show ?thesis by (simp add: fence_ok_def m_def came_late_def)
qed

lemma close_cases:
  assumes "m' = closeConn now i m"
  defines "m1 \<equiv> m\<lparr>tm_canceled := cancel_sweep now (tm_canceled m)\<rparr>"
  shows "tm_conns m' = fmdrop i (tm_conns m)" "tm_opening m' |\<subseteq>| tm_opening m" "j \<noteq> i \<Longrightarrow> j |\<in>| tm_opening m' \<longleftrightarrow> j |\<in>| tm_opening m"
    "tm_canceled m' = (if fmlookup (tm_conns m) i \<noteq> None then tm_canceled m1
       else if i |\<in>| tm_opening m then markDuringOpen i (now + staleCancelMarkerTTL) (tm_canceled m1)
       else cancel_mark i (now + staleCancelMarkerTTL) (tm_canceled m1))"
proof -
  have co: "tm_canceled (close_obj r x) = tm_canceled x" "tm_opening (close_obj r x) = tm_opening x" "tm_conns (close_obj r x) = tm_conns x" for r x
    by (simp_all add: close_obj_def split: option.splits)
  show "tm_conns m' = fmdrop i (tm_conns m)" "tm_opening m' |\<subseteq>| tm_opening m" "j \<noteq> i \<Longrightarrow> j |\<in>| tm_opening m' \<longleftrightarrow> j |\<in>| tm_opening m"
    "tm_canceled m' = (if fmlookup (tm_conns m) i \<noteq> None then tm_canceled m1
       else if i |\<in>| tm_opening m then markDuringOpen i (now + staleCancelMarkerTTL) (tm_canceled m1)
       else cancel_mark i (now + staleCancelMarkerTTL) (tm_canceled m1))"
    by (auto simp: assms closeConn_def tunnel_cancel_def tunnel_remove_def Let_def co split: option.splits)
qed

lemma fence_close:
  assumes ok: "fence_ok w" and i: "ow_closed w i = None"
  shows "fence_ok (w\<lparr>ow_mgr := closeConn (ow_now w) i (ow_mgr w), ow_closed := (ow_closed w)(i \<mapsto> ow_now w)\<rparr>)" (is "fence_ok ?w'")
proof -
  define m where "m = closeConn (ow_now w) i (ow_mgr w)"
  define m1 where "m1 = ow_mgr w\<lparr>tm_canceled := cancel_sweep (ow_now w) (tm_canceled (ow_mgr w))\<rparr>"
  note c = close_cases [OF m_def, folded m1_def]
  have o: "opens_ok w" using ok by (simp add: fence_ok_def)
  then have mk: "markers_ok (tm_canceled (ow_mgr w))" by (simp add: opens_ok_def)
  have mk1: "markers_ok (tm_canceled m1)" using cancel_sweep_spec(1) [OF mk] by (simp add: m1_def)
  note mo = marker_ops [OF mk1]
  have "markers_ok (tm_canceled m)" using c(4) mk1 mo(2,3) by simp
  then have "opens_ok ?w'" using o c(1,2,3) unfolding opens_ok_def m_def [symmetric] by (auto simp: fsubset_iff split: if_splits)
  moreover have "came_late ?w' j \<or> fenced m (ow_now w) (ow_dialing w) (ow_begun w j) t j" if j: "ow_closed ?w' j = Some t" for j t
  proof (cases "j = i")
    case True
    then have t: "t = ow_now w" using j by simp
    have "\<exists>e. fmlookup (cm_markers (tm_canceled m)) i = Some e \<and> e \<notin> entries (tm_canceled m)" if "i \<in> ow_dialing w"
    proof -
      have "fmlookup (tm_conns (ow_mgr w)) i = None" "i |\<in>| tm_opening (ow_mgr w)" using o that i by (auto simp: opens_ok_def)
      then show ?thesis using c(4) mo(4,6) by (simp add: markDuringOpen_def entries_def)
    qed
    moreover have "\<exists>e. fmlookup (cm_markers (tm_canceled m)) i = Some e \<and> (e, i, t + staleCancelMarkerTTL) \<in> set (cm_expiry (tm_canceled m))"
      if "ow_begun w i = None"
    proof -
      have "fmlookup (tm_conns (ow_mgr w)) i = None" "i |\<notin>| tm_opening (ow_mgr w)" using o that by (auto simp: opens_ok_def)
      then show ?thesis using c(4) t by (simp add: cancel_mark_def Let_def)
    qed
    ultimately show ?thesis using True c(1) by (simp add: fenced_def)
  next
    case False
    then have "came_late w j \<or> fenced (ow_mgr w) (ow_now w) (ow_dialing w) (ow_begun w j) t j" using ok j by (simp add: fence_ok_def)
    then show ?thesis
    proof
      assume "fenced (ow_mgr w) (ow_now w) (ow_dialing w) (ow_begun w j) t j"
      then have "fenced m1 (ow_now w) (ow_dialing w) (ow_begun w j) t j" using fenced_sweep [OF mk] by (simp add: m1_def)
      then have "fenced m (ow_now w) (ow_dialing w) (ow_begun w j) t j"
        by (rule fenced_other) (use False mk1 c(1,4) in \<open>auto simp: m1_def entries_def markDuringOpen_def cancel_mark_def Let_def\<close>)
      then show ?thesis ..
    qed (use False in \<open>simp add: came_late_def\<close>)
  qed
  ultimately show ?thesis by (simp add: fence_ok_def m_def)
qed

lemma fence_fewer:
  assumes ok: "fence_ok w" and m: "tm_canceled m = tm_canceled (ow_mgr w)" "tm_opening m = tm_opening (ow_mgr w)"
    "\<And>j. fmlookup (tm_conns m) j = fmlookup (tm_conns (ow_mgr w)) j \<or> fmlookup (tm_conns m) j = None"
  shows "fence_ok (w\<lparr>ow_mgr := m\<rparr>)"
proof -
  have none: "fmlookup (tm_conns (ow_mgr w)) j = None \<Longrightarrow> fmlookup (tm_conns m) j = None" for j using m(3) [of j] by auto
  have o: "opens_ok w" using ok by (simp add: fence_ok_def)
  have "ow_begun w j \<noteq> None" if "fmlookup (tm_conns m) j = Some x" for j x
  proof -
    have "fmlookup (tm_conns (ow_mgr w)) j \<noteq> None" using none [of j] that by auto
    then show ?thesis using o unfolding opens_ok_def by blast
  qed
  then have "opens_ok (w\<lparr>ow_mgr := m\<rparr>)" using o none by (auto simp: opens_ok_def m(1,2))
  moreover have "fenced (ow_mgr w) (ow_now w) (ow_dialing w) b t j \<Longrightarrow> fenced m (ow_now w) (ow_dialing w) b t j" for b t j
    using none by (simp add: fenced_def m(1))
  ultimately show ?thesis using ok unfolding fence_ok_def came_late_def by (simp, blast)
qed

lemma fence_ended:
  assumes ok: "fence_ok w" and i: "i \<in> ow_ending w"
  shows "fence_ok (w\<lparr>ow_mgr := abortOpen i (ow_mgr w), ow_ending := ow_ending w - {i}\<rparr>)" (is "fence_ok ?w'")
proof -
  let ?m = "abortOpen i (ow_mgr w)"
  have o: "opens_ok w" using ok by (simp add: fence_ok_def)
  then have mk: "markers_ok (tm_canceled (ow_mgr w))" and b: "ow_begun w i \<noteq> None" "i \<notin> ow_dialing w" using i by (auto simp: opens_ok_def)
  have "opens_ok ?w'" using o i marker_ops(1) [OF mk, of i] by (auto simp: opens_ok_def abortOpen_def cancel_clear_def)
  moreover have "fenced ?m (ow_now w) (ow_dialing w) (ow_begun w j) t j" if f: "fenced (ow_mgr w) (ow_now w) (ow_dialing w) (ow_begun w j) t j" for j t
  proof (cases "j = i")
    case False
    then show ?thesis by (intro fenced_other [OF f]) (use mk in \<open>auto simp: abortOpen_def cancel_clear_def entries_def\<close>)
  qed (use f b in \<open>auto simp: fenced_def abortOpen_def\<close>)
  ultimately show ?thesis using ok unfolding fence_ok_def came_late_def by (simp, blast)
qed

lemma open_reachable_ok: "open_reachable w \<Longrightarrow> fence_ok w"
proof (induction rule: open_reachable.induct)
  case (start now)
  show ?case by (simp add: fence_ok_def opens_ok_def markers_ok_def newTunnelManager_def newCancelMarkers_def entries_def)
next
  case (wait w now)
  then have "opens_ok w" by (simp add: fence_ok_def)
  moreover have "opens_ok v \<Longrightarrow> ow_now v \<le> now \<Longrightarrow> opens_ok (v\<lparr>ow_now := now\<rparr>)" for v
    unfolding opens_ok_def by simp (meson order.trans)
  ultimately have "opens_ok (w\<lparr>ow_now := now\<rparr>)" using wait(2) by blast
  moreover have "fenced (ow_mgr w) (ow_now w) d b t j \<Longrightarrow> fenced (ow_mgr w) now d b t j" for d b t j using wait(2) by (auto simp: fenced_def)
  ultimately show ?case using wait(3) unfolding fence_ok_def came_late_def by (simp, blast)
next
  case (begin_open w i ok m)
  then show ?case using fence_begin by blast
next
  case (dialled w i r sends)
  then show ?case using fence_dialled by blast
next
  case (dial_failed w i)
  then have "opens_ok (w\<lparr>ow_dialing := ow_dialing w - {i}, ow_ending := insert i (ow_ending w)\<rparr>)" by (auto simp: fence_ok_def opens_ok_def)
  moreover have "fenced m n d b t j \<Longrightarrow> fenced m n (d - {i}) b t j" for m n d b t j by (simp add: fenced_def)
  ultimately show ?case using dial_failed(3) unfolding fence_ok_def came_late_def by (simp, blast)
next
  case (ended w i)
  then show ?case using fence_ended by blast
next
  case (client_close w i)
  then show ?case using fence_close by blast
next
  case (flush w i seq b m)
  show ?case using flush.IH by (rule fence_fewer) (use flush(2) in \<open>auto simp: closeConn_flush_def split: option.splits prod.splits\<close>)
next
  case (granted w i credit)
  show ?case using granted.IH by (rule fence_fewer) (auto simp: grantReadCredit_def split: option.splits)
next
  case (reader_ends w i r)
  have co: "tm_canceled (close_obj r x) = tm_canceled x" "tm_opening (close_obj r x) = tm_opening x" "tm_conns (close_obj r x) = tm_conns x" for x
    by (simp_all add: close_obj_def split: option.splits)
  show ?case using reader_ends.IH by (rule fence_fewer) (auto simp: closeAndRemove_def tunnel_removeIf_def co)
qed

text \<open>C33: A close is never overtaken. Whether the close of a connection is handled before its open, while it dials or
  after, once it was handled the worker holds no connection of that name, unless the open came only after the
  marker of the close had expired.\<close>

theorem closed_stays_closed:
  assumes "open_reachable w" "ow_closed w i = Some t" "\<forall>b. ow_begun w i = Some b \<longrightarrow> b < t + staleCancelMarkerTTL"
  shows "tunnel_get i (ow_mgr w) = None"
proof -
  have "\<not> came_late w i" using assms(2,3) by (auto simp: came_late_def)
  then have "fenced (ow_mgr w) (ow_now w) (ow_dialing w) (ow_begun w i) t i" using open_reachable_ok [OF assms(1)] assms(2) by (auto simp: fence_ok_def)
  then show ?thesis by (simp add: fenced_def tunnel_get_def)
qed

section \<open>Examples\<close>

text \<open>Two frames are sent; the goroutine of the second runs first and sleeps.\<close>

definition frame_a :: frame where "frame_a = \<lparr>fr_seq = 0, fr_data = [1, 2], fr_closeWrite = False\<rparr>"
definition frame_b :: frame where "frame_b = \<lparr>fr_seq = 1, fr_data = [3], fr_closeWrite = False\<rparr>"

lemma send_step:
  assumes "write_reachable w" "ww_slot w = None" "length data \<le> MaxChunkBytes" "\<not> cn_closeWriteSent (ww_conn w)" "cn_writeErr (ww_conn w) = None"
    "cn_sendWindow (ww_conn w) < WriteWindowFrames" "\<not> cn_closed (ww_conn w)" "f = \<lparr>fr_seq = cn_writeSeq (ww_conn w), fr_data = data, fr_closeWrite = False\<rparr>"
  shows "write_reachable (w\<lparr>ww_conn := (ww_conn w)\<lparr>cn_sendWindow := Suc (cn_sendWindow (ww_conn w)), cn_writeSeq := Suc (cn_writeSeq (ww_conn w))\<rparr>,
    ww_wire := ww_wire w @ [f], ww_sent := ww_sent w @ [f], ww_waiting := finsert (fr_seq f) (ww_waiting w)\<rparr>)"
proof -
  have a: "write_reachable (w\<lparr>ww_conn := (ww_conn w)\<lparr>cn_sendWindow := Suc (cn_sendWindow (ww_conn w))\<rparr>, ww_slot := Some (data, False)\<rparr>)" (is "write_reachable ?v")
    by (rule write_reachable.acquire [OF assms(1-3)]) (use assms in \<open>simp_all add: sendFrame_check_def acquireSendSlot_def\<close>)
  have eq: "w\<lparr>ww_conn := (ww_conn w)\<lparr>cn_sendWindow := Suc (cn_sendWindow (ww_conn w)), cn_writeSeq := Suc (cn_writeSeq (ww_conn w))\<rparr>,
      ww_wire := ww_wire w @ [f], ww_sent := ww_sent w @ [f], ww_waiting := finsert (fr_seq f) (ww_waiting w)\<rparr> =
    ?v\<lparr>ww_conn := ((ww_conn ?v)\<lparr>cn_writeSeq := Suc (cn_writeSeq (ww_conn ?v))\<rparr>)\<lparr>cn_closeWriteSent := cn_closeWriteSent (ww_conn ?v) \<or> False\<rparr>,
      ww_slot := None, ww_wire := ww_wire ?v @ [f], ww_sent := ww_sent ?v @ [f], ww_waiting := finsert (fr_seq f) (ww_waiting ?v)\<rparr>"
    using assms(2) by simp
  have "write_reachable (?v\<lparr>ww_conn := ((ww_conn ?v)\<lparr>cn_writeSeq := Suc (cn_writeSeq (ww_conn ?v))\<rparr>)\<lparr>cn_closeWriteSent := cn_closeWriteSent ((ww_conn ?v)\<lparr>cn_writeSeq := Suc (cn_writeSeq (ww_conn ?v))\<rparr>) \<or> False\<rparr>,
      ww_slot := None, ww_wire := ww_wire ?v @ [f], ww_sent := ww_sent ?v @ [f], ww_waiting := finsert (fr_seq f) (ww_waiting ?v)\<rparr>)"
    by (rule write_reachable.send [OF a, where failure = None and data = data]) (use assms in \<open>simp_all add: sendFrame_send_def\<close>)
  then show ?thesis using eq by simp
qed

definition two_sent :: write_world where
  "two_sent = write_start\<lparr>ww_conn := newConn\<lparr>cn_sendWindow := 2, cn_writeSeq := 2\<rparr>, ww_wire := [frame_a, frame_b], ww_sent := [frame_a, frame_b], ww_waiting := {|1, 0|}\<rparr>"

lemma two_sent_reachable: "write_reachable two_sent"
proof -
  note defs = write_start_def newConn_def MaxChunkBytes_def WriteWindowFrames_def frame_a_def frame_b_def
  have "write_reachable (write_start\<lparr>ww_conn := newConn\<lparr>cn_sendWindow := 1, cn_writeSeq := 1\<rparr>, ww_wire := [frame_a], ww_sent := [frame_a], ww_waiting := {|0|}\<rparr>)" (is "write_reachable ?w")
    using send_step [OF write_reachable.start, of "[1, 2]" frame_a] by (simp add: defs)
  from send_step [OF this, of "[3]" frame_b] show ?thesis by (simp add: defs two_sent_def numeral_2_eq_2)
qed

definition b_parked :: write_world where
  "b_parked = two_sent\<lparr>ww_wire := [], ww_handlers := {#(frame_a, HNew), (frame_b, HParked)#}, ww_target := newTunnelConn\<lparr>tn_gate := newWriteSeqGate\<lparr>wg_waiters := {|1|}\<rparr>\<rparr>\<rparr>"

lemma b_parked_reachable: "write_reachable b_parked"
proof -
  have "write_reachable (two_sent\<lparr>ww_wire := [frame_b], ww_handlers := {#(frame_a, HNew)#}\<rparr>)"
    using write_reachable.deliver [OF two_sent_reachable, of frame_a "[frame_b]"] by (simp add: two_sent_def write_start_def)
  then have "write_reachable (two_sent\<lparr>ww_wire := [], ww_handlers := {#(frame_a, HNew), (frame_b, HNew)#}\<rparr>)" (is "write_reachable ?w")
    using write_reachable.deliver [of "two_sent\<lparr>ww_wire := [frame_b], ww_handlers := {#(frame_a, HNew)#}\<rparr>" frame_b "[]"] by (simp add: two_sent_def write_start_def add_mset_commute)
  from write_reachable.park [OF this, of frame_b HNew "newWriteSeqGate\<lparr>wg_waiters := {|1|}\<rparr>"] show ?thesis
    by (simp add: can_run_def waitTurn_def waiterLocked_def MaxWriteSeqLookahead_def newWriteSeqGate_def newTunnelConn_def two_sent_def write_start_def b_parked_def frame_b_def add_mset_commute)
qed

definition a_written :: write_world where
  "a_written = b_parked\<lparr>ww_handlers := {#(frame_b, HParked)#}, ww_target := newTunnelConn\<lparr>tn_gate := newWriteSeqGate\<lparr>wg_next := 1\<rparr>, tn_out := [1, 2]\<rparr>, ww_acks := {#(0, AckOk)#}\<rparr>"

lemma a_written_reachable: "write_reachable a_written"
proof -
  have "write_reachable (b_parked\<lparr>ww_handlers := {#(frame_a, HWriting), (frame_b, HParked)#}, ww_target := newTunnelConn\<lparr>tn_gate := newWriteSeqGate\<lparr>wg_claimed := True, wg_waiters := {|1|}\<rparr>\<rparr>\<rparr>)"
    using write_reachable.turn [OF b_parked_reachable, of frame_a HNew "newWriteSeqGate\<lparr>wg_claimed := True, wg_waiters := {|1|}\<rparr>"]
    by (simp add: can_run_def waitTurn_def newWriteSeqGate_def newTunnelConn_def two_sent_def write_start_def b_parked_def frame_a_def add_mset_commute)
  from write_reachable.written [OF this, of frame_a False "[Inr 2]" None None
      "newTunnelConn\<lparr>tn_gate := newWriteSeqGate\<lparr>wg_claimed := True, wg_waiters := {|1|}\<rparr>, tn_out := [1, 2]\<rparr>" 0 "[]"]
  show ?thesis by (simp add: writeData_turn_def MaxChunkBytes_def end_turn_def advance_def newWriteSeqGate_def newTunnelConn_def two_sent_def write_start_def a_written_def b_parked_def frame_a_def)
qed

lemma tunnel_write_exact_witness:
  "tn_out (ww_target a_written) = [1, 2] \<and> ww_sent a_written = [frame_a, frame_b] \<and>
   concat (map fr_data (take (wg_next (tn_gate (ww_target a_written))) (ww_sent a_written))) = [1, 2]"
proof -
  have "\<not> ww_failed a_written" "tn_out (ww_target a_written) = [1, 2]" "ww_sent a_written = [frame_a, frame_b]" by (simp_all add: a_written_def b_parked_def two_sent_def write_start_def)
  then show ?thesis using tunnel_write_exact [OF a_written_reachable] by simp
qed

lemma tunnel_write_bounded_witness:
  "length (ww_wire b_parked) + size (ww_handlers b_parked) = 2 \<and> length (ww_wire b_parked) + size (ww_handlers b_parked) \<le> WriteWindowFrames"
  using tunnel_write_bounded [OF b_parked_reachable] by (simp add: b_parked_def newWriteSeqGate_def newTunnelConn_def two_sent_def write_start_def)

text \<open>The goroutine that slept can run.\<close>

lemma tunnel_write_progress_witness: "\<exists>f h. (f, h) \<in># ww_handlers a_written \<and> can_run (tn_gate (ww_target a_written)) f h"
  using tunnel_write_progress [OF a_written_reachable]
  by (auto simp: a_written_def b_parked_def newWriteSeqGate_def newTunnelConn_def two_sent_def write_start_def)

lemma conn_Write_exact_witness:
  "conn_Write [(SlotArm, None)] 0 [1, 2] newConn = Some ((2, None), [frame_a], newConn\<lparr>cn_sendWindow := 1, cn_writeSeq := 1\<rparr>) \<and> fr_data frame_a = take 2 [1, 2]"
proof -
  have w: "conn_Write [(SlotArm, None)] 0 [1, 2] newConn = Some ((2, None), [frame_a], newConn\<lparr>cn_sendWindow := 1, cn_writeSeq := 1\<rparr>)"
    by (simp add: conn_Write_def newConn_def MaxChunkBytes_def sendFrameLocked_def sendFrame_check_def acquireSendSlot_def WriteWindowFrames_def sendFrame_send_def frame_a_def)
  then show ?thesis using conn_Write_exact [OF w] by simp
qed

text \<open>A frame that the target sent is delivered and its first byte read.\<close>

lemma tunnel_read_exact_witness: "\<exists>w. read_reachable w \<and> rw_source w = [7, 8] \<and> rw_got w = [7] \<and> rw_got w @ cn_readPart (rw_conn w) = rw_source w"
proof -
  let ?ev = "\<lparr>te_data = [7, 8], te_eof = False, te_error = []\<rparr>" and ?t = "newTunnelConn\<lparr>tn_credit := (newCreditWindow 128)\<lparr>cw_credit := 127\<rparr>\<rparr>"
  note defs = newCreditWindow_def InitialReadWindow_def newTunnelConn_def read_start_def newConn_def MaxChunkBytes_def
  have "read_reachable (read_start\<lparr>rw_target := ?t, rw_wire := [?ev], rw_source := [7, 8]\<rparr>)"
    using read_reachable.source [OF read_reachable.start, of "[7, 8]" ReadMore ReadAgain "[?ev]" ?t]
    by (simp add: tunnelReadLoop_turn_def event_turn_def credit_acquire_def defs)
  from read_reachable.deliver [OF this, of ?ev "[]" "newConn\<lparr>cn_readBuf := [[7, 8]]\<rparr>"]
  have "read_reachable (read_start\<lparr>rw_target := ?t, rw_conn := newConn\<lparr>cn_readBuf := [[7, 8]]\<rparr>, rw_source := [7, 8]\<rparr>)"
    by (simp add: onStreamMessage_def ReadBufFrames_def defs)
  from read_reachable.client_read [OF this, of 0 1 "[7]" "newConn\<lparr>cn_readPart := [8], cn_credit := credit_consume 1 (newReadCredit ReadCreditBatch)\<rparr>"]
  have r: "read_reachable (read_start\<lparr>rw_target := ?t, rw_conn := newConn\<lparr>cn_readPart := [8], cn_credit := credit_consume 1 (newReadCredit ReadCreditBatch)\<rparr>, rw_source := [7, 8], rw_got := [7]\<rparr>)" (is "read_reachable ?w")
    by (simp add: conn_Read_def read_poll_def consumeFrame_def defs)
  then have "rw_got ?w @ cn_readPart (rw_conn ?w) = rw_source ?w" using tunnel_read_exact [OF r] by (simp add: read_start_def newConn_def)
  then show ?thesis using r by (intro exI [of _ ?w]) simp
qed

text \<open>A close is handled before the open of its connection, which is refused.\<close>

lemma closed_stays_closed_witness:
  "\<exists>w. open_reachable w \<and> ow_closed w ''c'' = Some 0 \<and> ow_begun w ''c'' = Some 1 \<and> tunnel_get ''c'' (ow_mgr w) = None"
proof -
  let ?w0 = "\<lparr>ow_mgr = newTunnelManager, ow_now = 0, ow_begun = Map.empty, ow_closed = Map.empty, ow_dialing = {}, ow_ending = {}\<rparr>"
  let ?w1 = "?w0\<lparr>ow_mgr := closeConn 0 ''c'' newTunnelManager, ow_closed := [''c'' \<mapsto> 0]\<rparr>"
  obtain ok m where b: "beginOpen 1 ''c'' (closeConn 0 ''c'' newTunnelManager) = (ok, m)" by fastforce
  have "open_reachable ?w1" using open_reachable.client_close [OF open_reachable.start [of 0], of "''c''"] by simp
  from open_reachable.wait [OF this, of 1] have "open_reachable (?w1\<lparr>ow_now := 1\<rparr>)" by simp
  from open_reachable.begin_open [OF this, of "''c''" ok m]
  have "open_reachable (?w1\<lparr>ow_mgr := m, ow_now := 1, ow_begun := [''c'' \<mapsto> 1], ow_dialing := (if ok then {''c''} else {})\<rparr>)" (is "open_reachable ?w")
    using b by (cases ok) simp_all
  then show ?thesis using closed_stays_closed [of ?w "''c''" 0] by (intro exI [of _ ?w]) (simp add: staleCancelMarkerTTL_def)
qed

end
