(* ===== verification/Terminal.thy ===== *)
theory Terminal
  imports ChannelWire
begin

text \<open>
  Terminals of the worker (internal/worker/terminal). A screen buffer keeps the last bytes a terminal has put
  out, in a ring, with a count of all of them (terminal.go); beside it a tracker follows the escape
  sequences that change the mode of the terminal (mode\_tracker.go), so that a client that reconnects can be
  given the modes and the retained bytes. The manager keeps the terminals (manager.go). The process and its
  pseudo terminal are I/O: what they answer is an argument. Counts of bytes are unbounded here, 64 bits in the code.
\<close>

section \<open>The tracker of modes\<close>

datatype parse_state = stateGround | stateEsc | stateCSI | stateOSC | stateOSCEsc
datatype mouse_track = mouseTrackOff | mouseTrackX10 | mouseTrackBtnEvent | mouseTrackAnyEvent
datatype mouse_encoding = mouseEncOff | mouseEncSGR | mouseEncURXVT

definition paramBufCap :: nat where "paramBufCap = 64"
definition oscBufCap :: nat where "oscBufCap = 256"

text \<open>The fields of the tracker in two groups: the modes, and the parser. A buffer and its length are a list.\<close>

record modes =
  md_altScreen :: bool
  md_cursorHidden :: bool
  md_autoWrapOff :: bool
  md_appCursorKeys :: bool
  md_bracketedPaste :: bool
  md_mouseTrack :: mouse_track
  md_mouseEncoding :: mouse_encoding
  md_title :: "bytes option"

record mode_tracker =
  mt_modes :: modes
  mt_state :: parse_state
  mt_params :: bytes
  mt_osc :: bytes
  mt_overrun :: bool

definition default_modes :: modes where
  "default_modes = \<lparr>md_altScreen = False, md_cursorHidden = False, md_autoWrapOff = False, md_appCursorKeys = False, md_bracketedPaste = False,
     md_mouseTrack = mouseTrackOff, md_mouseEncoding = mouseEncOff, md_title = None\<rparr>"

definition new_tracker :: mode_tracker where
  "new_tracker = \<lparr>mt_modes = default_modes, mt_state = stateGround, mt_params = [], mt_osc = [], mt_overrun = False\<rparr>"

definition handleEscIntro :: "byte \<Rightarrow> mode_tracker \<Rightarrow> mode_tracker" where
  "handleEscIntro b t =
     (if b = 0x5b then t\<lparr>mt_params := [], mt_state := stateCSI\<rparr>
      else if b = 0x5d then t\<lparr>mt_osc := [], mt_overrun := False, mt_state := stateOSC\<rparr>
      else if b = 0x1b then t\<lparr>mt_state := stateEsc\<rparr>
      else t\<lparr>mt_state := stateGround\<rparr>)"

definition setOrClearSlot :: "'a \<Rightarrow> 'a \<Rightarrow> 'a \<Rightarrow> bool \<Rightarrow> 'a" where
  "setOrClearSlot slot on off enable = (if enable then on else if slot = on then off else slot)"

definition applyMode :: "64 word \<Rightarrow> bool \<Rightarrow> modes \<Rightarrow> modes" where
  "applyMode code enable m =
     (if code = 1 then m\<lparr>md_appCursorKeys := enable\<rparr>
      else if code = 7 then m\<lparr>md_autoWrapOff := \<not> enable\<rparr>
      else if code = 25 then m\<lparr>md_cursorHidden := \<not> enable\<rparr>
      else if code = 47 \<or> code = 1047 \<or> code = 1049 then m\<lparr>md_altScreen := enable\<rparr>
      else if code = 2004 then m\<lparr>md_bracketedPaste := enable\<rparr>
      else if code = 1000 then m\<lparr>md_mouseTrack := setOrClearSlot (md_mouseTrack m) mouseTrackX10 mouseTrackOff enable\<rparr>
      else if code = 1002 then m\<lparr>md_mouseTrack := setOrClearSlot (md_mouseTrack m) mouseTrackBtnEvent mouseTrackOff enable\<rparr>
      else if code = 1003 then m\<lparr>md_mouseTrack := setOrClearSlot (md_mouseTrack m) mouseTrackAnyEvent mouseTrackOff enable\<rparr>
      else if code = 1006 then m\<lparr>md_mouseEncoding := setOrClearSlot (md_mouseEncoding m) mouseEncSGR mouseEncOff enable\<rparr>
      else if code = 1015 then m\<lparr>md_mouseEncoding := setOrClearSlot (md_mouseEncoding m) mouseEncURXVT mouseEncOff enable\<rparr>
      else m)"

text \<open>The numbers of a parameter list, which wrap at 64 bits.\<close>

fun walk_params :: "bool \<Rightarrow> bytes \<Rightarrow> 64 word \<Rightarrow> bool \<Rightarrow> modes \<Rightarrow> modes" where
  "walk_params enable [] n hasDigit m = (if hasDigit then applyMode n enable m else m)"
| "walk_params enable (c # cs) n hasDigit m =
     (if c = 0x3b then walk_params enable cs 0 False (if hasDigit then applyMode n enable m else m)
      else if c \<ge> 0x30 \<and> c \<le> 0x39 then walk_params enable cs (n * 10 + ucast (c - 0x30)) True m
      else walk_params enable cs 0 False (if hasDigit then applyMode n enable m else m))"

definition dispatchCSI :: "byte \<Rightarrow> mode_tracker \<Rightarrow> mode_tracker" where
  "dispatchCSI final t =
     (if final \<noteq> 0x68 \<and> final \<noteq> 0x6c then t
      else case mt_params t of [] \<Rightarrow> t
      | p # ps \<Rightarrow> if p \<noteq> 0x3f then t else t\<lparr>mt_modes := walk_params (final = 0x68) ps 0 False (mt_modes t)\<rparr>)"

text \<open>An empty text appended to a title that was never set leaves it so.\<close>

definition set_title :: "bytes \<Rightarrow> modes \<Rightarrow> modes" where
  "set_title text m = m\<lparr>md_title := (if md_title m = None \<and> text = [] then None else Some text)\<rparr>"

definition dispatchOSC :: "mode_tracker \<Rightarrow> mode_tracker" where
  "dispatchOSC t =
     (let t' = t\<lparr>mt_osc := [], mt_overrun := False\<rparr>; body = mt_osc t in
      if mt_overrun t then t'
      else if length body < 2 \<or> body ! 1 \<noteq> 0x3b then t'
      else if body ! 0 \<noteq> 0x30 \<and> body ! 0 \<noteq> 0x32 then t'
      else t'\<lparr>mt_modes := set_title (drop 2 body) (mt_modes t')\<rparr>)"

definition feed_byte :: "byte \<Rightarrow> mode_tracker \<Rightarrow> mode_tracker" where
  "feed_byte b t = (case mt_state t of
     stateGround \<Rightarrow> if b = 0x1b then t\<lparr>mt_state := stateEsc\<rparr> else t
   | stateEsc \<Rightarrow> handleEscIntro b t
   | stateCSI \<Rightarrow>
       if b = 0x1b then t\<lparr>mt_state := stateEsc\<rparr>
       else if b \<ge> 0x40 \<and> b \<le> 0x7e then (dispatchCSI b t)\<lparr>mt_state := stateGround\<rparr>
       else if length (mt_params t) \<ge> paramBufCap then t\<lparr>mt_state := stateGround\<rparr>
       else t\<lparr>mt_params := mt_params t @ [b]\<rparr>
   | stateOSC \<Rightarrow>
       if b = 0x07 then (dispatchOSC t)\<lparr>mt_state := stateGround\<rparr>
       else if b = 0x1b then t\<lparr>mt_state := stateOSCEsc\<rparr>
       else if length (mt_osc t) < oscBufCap then t\<lparr>mt_osc := mt_osc t @ [b]\<rparr>
       else t\<lparr>mt_overrun := True\<rparr>
   | stateOSCEsc \<Rightarrow>
       if b = 0x5c then (dispatchOSC t)\<lparr>mt_state := stateGround\<rparr>
       else handleEscIntro b (t\<lparr>mt_osc := [], mt_overrun := False\<rparr>))"

definition tracker_feed :: "bytes \<Rightarrow> mode_tracker \<Rightarrow> mode_tracker" where
  "tracker_feed data t = fold feed_byte data t"

definition isDefault :: "mode_tracker \<Rightarrow> bool" where
  "isDefault t = (let m = mt_modes t in \<not> md_altScreen m \<and> \<not> md_cursorHidden m \<and> \<not> md_autoWrapOff m \<and> \<not> md_appCursorKeys m \<and> \<not> md_bracketedPaste m \<and>
     md_mouseTrack m = mouseTrackOff \<and> md_mouseEncoding m = mouseEncOff \<and> md_title m = None)"

text \<open>The sequence that sets or resets a mode: its number as digits, and the final byte.\<close>

definition dec_mode :: "bytes \<Rightarrow> byte \<Rightarrow> bytes" where
  "dec_mode digits final = [0x1b, 0x5b, 0x3f] @ digits @ [final]"

definition snapshotPrefix :: "mode_tracker \<Rightarrow> bytes" where
  "snapshotPrefix t = (let m = mt_modes t in
     if isDefault t then []
     else (if md_altScreen m then dec_mode [0x31, 0x30, 0x34, 0x39] 0x68 else []) @
       (if md_cursorHidden m then dec_mode [0x32, 0x35] 0x6c else []) @
       (if md_autoWrapOff m then dec_mode [0x37] 0x6c else []) @
       (if md_appCursorKeys m then dec_mode [0x31] 0x68 else []) @
       (if md_bracketedPaste m then dec_mode [0x32, 0x30, 0x30, 0x34] 0x68 else []) @
       (case md_mouseTrack m of mouseTrackOff \<Rightarrow> []
        | mouseTrackX10 \<Rightarrow> dec_mode [0x31, 0x30, 0x30, 0x30] 0x68
        | mouseTrackBtnEvent \<Rightarrow> dec_mode [0x31, 0x30, 0x30, 0x32] 0x68
        | mouseTrackAnyEvent \<Rightarrow> dec_mode [0x31, 0x30, 0x30, 0x33] 0x68) @
       (case md_mouseEncoding m of mouseEncOff \<Rightarrow> []
        | mouseEncSGR \<Rightarrow> dec_mode [0x31, 0x30, 0x30, 0x36] 0x68
        | mouseEncURXVT \<Rightarrow> dec_mode [0x31, 0x30, 0x31, 0x35] 0x68) @
       (case md_title m of None \<Rightarrow> [] | Some title \<Rightarrow> [0x1b, 0x5d, 0x30, 0x3b] @ title @ [0x07]))"

section \<open>The screen buffer\<close>

definition screenBufferSize :: nat where "screenBufferSize = 100 * 1024"

record screen_buffer =
  sb_buf :: bytes
  sb_pos :: nat
  sb_full :: bool
  sb_total :: int
  sb_tracker :: mode_tracker

definition NewScreenBufferWithOffset :: "int \<Rightarrow> screen_buffer" where
  "NewScreenBufferWithOffset initialOffset =
     \<lparr>sb_buf = replicate screenBufferSize 0, sb_pos = 0, sb_full = False, sb_total = initialOffset, sb_tracker = new_tracker\<rparr>"

definition NewScreenBuffer :: screen_buffer where
  "NewScreenBuffer = NewScreenBufferWithOffset 0"

text \<open>The loop that copies into the ring: the buffer, the position and whether it wrapped. \<open>None\<close> is a loop that does not end.\<close>

partial_function (option) write_ring :: "bytes \<Rightarrow> bytes \<Rightarrow> nat \<Rightarrow> bool \<Rightarrow> (bytes \<times> nat \<times> bool) option" where
  "write_ring data buf pos full =
     (if data = [] then Some (buf, pos, full)
      else let n = min (length buf - pos) (length data);
               buf1 = take pos buf @ take n data @ drop (pos + n) buf
           in if pos + n \<ge> length buf then write_ring (drop n data) buf1 0 True
              else write_ring (drop n data) buf1 (pos + n) full)"

definition Write :: "bytes \<Rightarrow> screen_buffer \<Rightarrow> (int \<times> screen_buffer) option" where
  "Write data sb =
     (let sb1 = sb\<lparr>sb_tracker := tracker_feed data (sb_tracker sb), sb_total := sb_total sb + int (length data)\<rparr>;
          cap = length (sb_buf sb)
      in if length data \<ge> cap then Some (sb_total sb1, sb1\<lparr>sb_buf := drop (length data - cap) data, sb_pos := 0, sb_full := True\<rparr>)
         else map_option (\<lambda>(buf, pos, full). (sb_total sb1, sb1\<lparr>sb_buf := buf, sb_pos := pos, sb_full := full\<rparr>))
           (write_ring data (sb_buf sb) (sb_pos sb) (sb_full sb)))"

definition TotalBytes :: "screen_buffer \<Rightarrow> int" where
  "TotalBytes sb = sb_total sb"

definition retainedLocked :: "screen_buffer \<Rightarrow> nat" where
  "retainedLocked sb = (if sb_full sb then length (sb_buf sb) else sb_pos sb)"

definition tailLocked :: "nat \<Rightarrow> screen_buffer \<Rightarrow> bytes \<times> bytes" where
  "tailLocked n0 sb =
     (let n = min n0 (retainedLocked sb); start = int (sb_pos sb) - int n
      in if start \<ge> 0 then ([], drop (nat start) (take (sb_pos sb) (sb_buf sb)))
         else (drop (length (sb_buf sb) - nat (- start)) (sb_buf sb), take (sb_pos sb) (sb_buf sb)))"

definition tailBytesLocked :: "nat \<Rightarrow> screen_buffer \<Rightarrow> bytes" where
  "tailBytesLocked n sb = (case tailLocked n sb of (head, wrap) \<Rightarrow> head @ wrap)"

definition prependPrefix :: "bytes \<Rightarrow> bytes \<Rightarrow> bytes" where
  "prependPrefix prefix body = (if prefix = [] then body else prefix @ body)"

definition screen_Snapshot :: "screen_buffer \<Rightarrow> bytes \<times> int" where
  "screen_Snapshot sb = (prependPrefix (snapshotPrefix (sb_tracker sb)) (tailBytesLocked (retainedLocked sb) sb), sb_total sb)"

definition HasSuffix :: "bytes \<Rightarrow> screen_buffer \<Rightarrow> bool" where
  "HasSuffix needle sb =
     (if needle = [] then True
      else case tailLocked (length needle) sb of (head, wrap) \<Rightarrow>
        if length head + length wrap < length needle then False
        else head = take (length head) needle \<and> wrap = drop (length head) needle)"

definition SnapshotSince :: "int \<Rightarrow> screen_buffer \<Rightarrow> bytes \<times> int \<times> bool" where
  "SnapshotSince afterOffset sb =
     (let total = sb_total sb; windowStart = total - int (retainedLocked sb)
      in if afterOffset = total then ([], total, False)
         else if afterOffset \<ge> windowStart \<and> afterOffset < total then (tailBytesLocked (nat (total - afterOffset)) sb, total, False)
         else (prependPrefix (snapshotPrefix (sb_tracker sb)) (tailBytesLocked (retainedLocked sb) sb), total, True))"

section \<open>The manager of terminals\<close>

text \<open>
  Terminals and their screen buffers are names in a store: a terminal that is restarted shares the buffer of the one
  before it, whose reader may still run. What was handed to
  the output handler is a list.
\<close>

record terminal_meta =
  tm_WorkspaceID :: ident
  tm_WorkingDir :: string
  tm_ShellStartDir :: string
  tm_Title :: string
  tm_Cols :: "32 word"
  tm_Rows :: "32 word"

definition zero_meta :: terminal_meta where
  "zero_meta = \<lparr>tm_WorkspaceID = [], tm_WorkingDir = [], tm_ShellStartDir = [], tm_Title = [], tm_Cols = 0, tm_Rows = 0\<rparr>"

record terminal =
  tl_id :: ident
  tl_buf :: nat
  tl_stopped :: bool
  tl_exited :: bool

record terminal_options =
  to_ID :: ident
  to_WorkspaceID :: ident
  to_WorkingDir :: string
  to_ShellStartDir :: string
  to_Cols :: "16 word"
  to_Rows :: "16 word"

record terminal_manager =
  ts_terminals :: "(ident, nat) fmap"
  ts_meta :: "(ident, terminal_meta) fmap"
  ts_objs :: "(nat, terminal) fmap"
  ts_bufs :: "(nat, screen_buffer) fmap"
  ts_fresh :: nat
  ts_out :: "(ident \<times> bytes \<times> int) list"

datatype terminal_error = TerminalExists | ErrTerminalNotFound | ErrTerminalStillRunning | TerminalExited | TerminalStopped | SpawnError string | PtyError string

definition NewTerminalManager :: terminal_manager where
  "NewTerminalManager = \<lparr>ts_terminals = fmempty, ts_meta = fmempty, ts_objs = fmempty, ts_bufs = fmempty, ts_fresh = 0, ts_out = []\<rparr>"

definition terminal_of :: "ident \<Rightarrow> terminal_manager \<Rightarrow> (nat \<times> terminal) option" where
  "terminal_of i m = (case fmlookup (ts_terminals m) i of None \<Rightarrow> None | Some r \<Rightarrow> map_option (Pair r) (fmlookup (ts_objs m) r))"

definition term_Stop :: "nat \<Rightarrow> terminal_manager \<Rightarrow> terminal_manager" where
  "term_Stop r m = (case fmlookup (ts_objs m) r of None \<Rightarrow> m | Some t \<Rightarrow> m\<lparr>ts_objs := fmupd r (t\<lparr>tl_stopped := True\<rparr>) (ts_objs m)\<rparr>)"

text \<open>Output of a terminal, from its process or injected: into the buffer, then to the handler.\<close>

definition wrappedOutput :: "nat \<Rightarrow> bytes \<Rightarrow> terminal_manager \<Rightarrow> terminal_manager option" where
  "wrappedOutput r data m = (case fmlookup (ts_objs m) r of None \<Rightarrow> Some m
     | Some t \<Rightarrow> (case fmlookup (ts_bufs m) (tl_buf t) of None \<Rightarrow> Some m
       | Some sb \<Rightarrow> map_option (\<lambda>(endOffset, sb1). m\<lparr>ts_bufs := fmupd (tl_buf t) sb1 (ts_bufs m), ts_out := ts_out m @ [(tl_id t, data, endOffset)]\<rparr>) (Write data sb)))"

definition term_AppendOutput :: "nat \<Rightarrow> bytes \<Rightarrow> terminal_manager \<Rightarrow> terminal_manager option" where
  "term_AppendOutput r data m = (if data = [] then Some m else wrappedOutput r data m)"

definition waitForExit :: "nat \<Rightarrow> terminal_manager \<Rightarrow> terminal_manager" where
  "waitForExit r m = (case fmlookup (ts_objs m) r of None \<Rightarrow> m | Some t \<Rightarrow> m\<lparr>ts_objs := fmupd r (t\<lparr>tl_exited := True\<rparr>) (ts_objs m)\<rparr>)"

definition installTerminal :: "ident \<Rightarrow> nat \<Rightarrow> (terminal_meta \<Rightarrow> terminal_meta) \<Rightarrow> terminal_manager \<Rightarrow> terminal_manager" where
  "installTerminal i r composeMeta m =
     m\<lparr>ts_terminals := fmupd i r (ts_terminals m), ts_meta := fmupd i (composeMeta (get_or zero_meta (\<lambda>meta. meta) (fmlookup (ts_meta m) i))) (ts_meta m)\<rparr>"

text \<open>A spawn that works on the buffer \<open>b\<close>; the new terminal is named by the counter.\<close>

definition startWithScreenBuffer :: "string option \<Rightarrow> ident \<Rightarrow> nat \<Rightarrow> terminal_manager \<Rightarrow> (terminal_error + nat) \<times> terminal_manager" where
  "startWithScreenBuffer failure i b m = (case failure of Some e \<Rightarrow> (Inl (SpawnError e), m)
     | None \<Rightarrow> let r = ts_fresh m in (Inr r, m\<lparr>ts_objs := fmupd r \<lparr>tl_id = i, tl_buf = b, tl_stopped = False, tl_exited = False\<rparr> (ts_objs m), ts_fresh := Suc r\<rparr>))"

definition new_buffer :: "int \<Rightarrow> terminal_manager \<Rightarrow> nat \<times> terminal_manager" where
  "new_buffer offset m = (ts_fresh m, m\<lparr>ts_bufs := fmupd (ts_fresh m) (NewScreenBufferWithOffset offset) (ts_bufs m), ts_fresh := Suc (ts_fresh m)\<rparr>)"

definition StartTerminal :: "string option \<Rightarrow> terminal_options \<Rightarrow> terminal_manager \<Rightarrow> terminal_error option \<times> terminal_manager" where
  "StartTerminal failure opts m =
     (if fmlookup (ts_terminals m) (to_ID opts) \<noteq> None then (Some TerminalExists, m)
      else case new_buffer 0 m of (b, m1) \<Rightarrow> (case startWithScreenBuffer failure (to_ID opts) b m1 of
          (Inl e, m2) \<Rightarrow> (Some e, m2)
        | (Inr r, m2) \<Rightarrow> (None, installTerminal (to_ID opts) r
            (\<lambda>_. \<lparr>tm_WorkspaceID = to_WorkspaceID opts, tm_WorkingDir = to_WorkingDir opts, tm_ShellStartDir = to_ShellStartDir opts, tm_Title = [],
                  tm_Cols = ucast (to_Cols opts), tm_Rows = ucast (to_Rows opts)\<rparr>) m2)))"

definition RestartTerminal :: "string option \<Rightarrow> terminal_options \<Rightarrow> int \<Rightarrow> terminal_manager \<Rightarrow> terminal_error option \<times> terminal_manager" where
  "RestartTerminal failure opts fallbackOffset m =
     (let go = (\<lambda>b m1. case startWithScreenBuffer failure (to_ID opts) b m1 of
          (Inl e, m2) \<Rightarrow> (Some e, m2)
        | (Inr r, m2) \<Rightarrow> (None, installTerminal (to_ID opts) r
            (\<lambda>prev. prev\<lparr>tm_WorkspaceID := to_WorkspaceID opts, tm_WorkingDir := to_WorkingDir opts, tm_ShellStartDir := to_ShellStartDir opts,
                  tm_Cols := ucast (to_Cols opts), tm_Rows := ucast (to_Rows opts)\<rparr>) m2))
      in case terminal_of (to_ID opts) m of
           Some (_, prev) \<Rightarrow> if \<not> tl_exited prev then (Some ErrTerminalStillRunning, m) else go (tl_buf prev) m
         | None \<Rightarrow> (case new_buffer fallbackOffset m of (b, m1) \<Rightarrow> go b m1))"

definition term_SendInput :: "string option \<Rightarrow> ident \<Rightarrow> terminal_manager \<Rightarrow> terminal_error option" where
  "term_SendInput pty i m = (case terminal_of i m of None \<Rightarrow> Some ErrTerminalNotFound
     | Some (_, t) \<Rightarrow> if tl_exited t then Some TerminalExited else if tl_stopped t then Some TerminalStopped else map_option PtyError pty)"

definition Resize :: "string option \<Rightarrow> ident \<Rightarrow> 16 word \<Rightarrow> 16 word \<Rightarrow> terminal_manager \<Rightarrow> terminal_error option \<times> terminal_manager" where
  "Resize pty i cols rows m = (case terminal_of i m of None \<Rightarrow> (Some ErrTerminalNotFound, m)
     | Some (_, t) \<Rightarrow>
         let meta = get_or zero_meta (\<lambda>meta. meta) (fmlookup (ts_meta m) i) in
         if tl_exited t then (Some TerminalExited, m)
         else if tm_Cols meta = ucast cols \<and> tm_Rows meta = ucast rows then (None, m)
         else if tl_stopped t then (Some TerminalStopped, m)
         else (case pty of Some e \<Rightarrow> (Some (PtyError e), m)
           | None \<Rightarrow> (None, case fmlookup (ts_meta m) i of None \<Rightarrow> m
               | Some mt \<Rightarrow> m\<lparr>ts_meta := fmupd i (mt\<lparr>tm_Cols := ucast cols, tm_Rows := ucast rows\<rparr>) (ts_meta m)\<rparr>)))"

definition StopTerminal :: "ident \<Rightarrow> terminal_manager \<Rightarrow> terminal_manager" where
  "StopTerminal i m = (case fmlookup (ts_terminals m) i of None \<Rightarrow> m | Some r \<Rightarrow> term_Stop r m)"

definition RemoveTerminal :: "ident \<Rightarrow> terminal_manager \<Rightarrow> terminal_manager" where
  "RemoveTerminal i m = (case fmlookup (ts_terminals m) i of None \<Rightarrow> m
     | Some r \<Rightarrow> term_Stop r (m\<lparr>ts_terminals := fmdrop i (ts_terminals m), ts_meta := fmdrop i (ts_meta m)\<rparr>))"

definition HasTerminal :: "ident \<Rightarrow> terminal_manager \<Rightarrow> bool" where
  "HasTerminal i m \<longleftrightarrow> fmlookup (ts_terminals m) i \<noteq> None"

definition IsRunning :: "ident \<Rightarrow> terminal_manager \<Rightarrow> bool" where
  "IsRunning i m = (case terminal_of i m of None \<Rightarrow> False | Some (_, t) \<Rightarrow> \<not> tl_exited t)"

definition term_IsExited :: "ident \<Rightarrow> terminal_manager \<Rightarrow> bool" where
  "term_IsExited i m = (case terminal_of i m of None \<Rightarrow> False | Some (_, t) \<Rightarrow> tl_exited t)"

definition UpdateTitle :: "ident \<Rightarrow> string \<Rightarrow> terminal_manager \<Rightarrow> bool \<times> terminal_manager" where
  "UpdateTitle i title m = (case fmlookup (ts_meta m) i of None \<Rightarrow> (False, m)
     | Some meta \<Rightarrow> (True, m\<lparr>ts_meta := fmupd i (meta\<lparr>tm_Title := title\<rparr>) (ts_meta m)\<rparr>))"

definition buffer_of :: "ident \<Rightarrow> terminal_manager \<Rightarrow> screen_buffer option" where
  "buffer_of i m = (case terminal_of i m of None \<Rightarrow> None | Some (_, t) \<Rightarrow> fmlookup (ts_bufs m) (tl_buf t))"

definition ScreenSnapshotSince :: "ident \<Rightarrow> int \<Rightarrow> terminal_manager \<Rightarrow> bytes \<times> int \<times> bool" where
  "ScreenSnapshotSince i afterOffset m = (case buffer_of i m of None \<Rightarrow> ([], 0, False) | Some sb \<Rightarrow> SnapshotSince afterOffset sb)"

definition ScreenHasSuffix :: "ident \<Rightarrow> bytes \<Rightarrow> terminal_manager \<Rightarrow> bool" where
  "ScreenHasSuffix i needle m = (case buffer_of i m of None \<Rightarrow> False | Some sb \<Rightarrow> HasSuffix needle sb)"

definition mgr_AppendOutput :: "ident \<Rightarrow> bytes \<Rightarrow> terminal_manager \<Rightarrow> (bool \<times> terminal_manager) option" where
  "mgr_AppendOutput i data m = (case fmlookup (ts_terminals m) i of None \<Rightarrow> Some (False, m) | Some r \<Rightarrow> map_option (Pair True) (term_AppendOutput r data m))"

definition SnapshotTerminal :: "ident \<Rightarrow> terminal_manager \<Rightarrow> (terminal_meta \<times> bytes) option" where
  "SnapshotTerminal i m = (case buffer_of i m of None \<Rightarrow> None
     | Some sb \<Rightarrow> let screen = fst (screen_Snapshot sb) in
         if screen = [] then None
         else (case fmlookup (ts_meta m) i of None \<Rightarrow> None | Some meta \<Rightarrow> if tm_WorkspaceID meta = [] then None else Some (meta, screen)))"

record terminal_entry =
  te_ID :: ident
  te_Meta :: terminal_meta
  te_Screen :: bytes
  te_ScreenEndOffset :: int
  te_Exited :: bool

definition buildEntryLocked :: "ident \<Rightarrow> terminal_meta \<Rightarrow> terminal_manager \<Rightarrow> terminal_entry" where
  "buildEntryLocked i meta m = (case terminal_of i m of
     Some (_, t) \<Rightarrow> (case buffer_of i m of
         Some sb \<Rightarrow> \<lparr>te_ID = i, te_Meta = meta, te_Screen = fst (screen_Snapshot sb), te_ScreenEndOffset = snd (screen_Snapshot sb), te_Exited = tl_exited t\<rparr>
       | None \<Rightarrow> \<lparr>te_ID = i, te_Meta = meta, te_Screen = [], te_ScreenEndOffset = 0, te_Exited = tl_exited t\<rparr>)
   | None \<Rightarrow> \<lparr>te_ID = i, te_Meta = meta, te_Screen = [], te_ScreenEndOffset = 0, te_Exited = True\<rparr>)"

definition ListByWorkspace :: "range_fun \<Rightarrow> ident \<Rightarrow> terminal_manager \<Rightarrow> terminal_entry list" where
  "ListByWorkspace it ws m = map (\<lambda>(i, meta). buildEntryLocked i meta m) (filter (\<lambda>(i, meta). tm_WorkspaceID meta = ws) (go_range it (ts_meta m)))"

definition ListByIDs :: "ident list \<Rightarrow> terminal_manager \<Rightarrow> terminal_entry list" where
  "ListByIDs ids m = List.map_filter (\<lambda>i. map_option (\<lambda>meta. buildEntryLocked i meta m) (fmlookup (ts_meta m) i)) ids"

definition StopAll :: "range_fun \<Rightarrow> terminal_manager \<Rightarrow> terminal_manager" where
  "StopAll it m = fold (\<lambda>(i, r). term_Stop r) (go_range it (ts_terminals m)) (m\<lparr>ts_terminals := fmempty, ts_meta := fmempty\<rparr>)"

end
