(* ===== verification/TerminalModes.thy ===== *)
theory TerminalModes
  imports Terminal
begin

text \<open>
  What the tracker of modes achieves. Its effect is a sequence of operations on modes; a run that starts in the
  middle of the output performs the last of them; and every mode is sticky: performing operations a second time on
  top of their result changes nothing (interface \<open>sticky\<close>). Hence the prefix of a snapshot, followed by whatever
  part of the output is retained, restores the modes.
\<close>

section \<open>Operations on modes\<close>

datatype mode_op = SetMode "64 word" bool | SetTitle bytes

definition run_op :: "mode_op \<Rightarrow> modes \<Rightarrow> modes" where
  "run_op op m = (case op of SetMode code enable \<Rightarrow> applyMode code enable m | SetTitle text \<Rightarrow> set_title text m)"

fun param_ops :: "bool \<Rightarrow> bytes \<Rightarrow> 64 word \<Rightarrow> bool \<Rightarrow> mode_op list" where
  "param_ops enable [] n hasDigit = (if hasDigit then [SetMode n enable] else [])"
| "param_ops enable (c # cs) n hasDigit =
     (if c = 0x3b then (if hasDigit then [SetMode n enable] else []) @ param_ops enable cs 0 False
      else if c \<ge> 0x30 \<and> c \<le> 0x39 then param_ops enable cs (n * 10 + ucast (c - 0x30)) True
      else (if hasDigit then [SetMode n enable] else []) @ param_ops enable cs 0 False)"

lemma walk_params_ops: "walk_params enable ps n d m = fold run_op (param_ops enable ps n d) m"
  by (induction enable ps n d m rule: walk_params.induct) (auto simp: run_op_def)

definition osc_ops :: "mode_tracker \<Rightarrow> mode_op list" where
  "osc_ops t = (let body = mt_osc t in
     if mt_overrun t \<or> length body < 2 \<or> body ! 1 \<noteq> 0x3b \<or> (body ! 0 \<noteq> 0x30 \<and> body ! 0 \<noteq> 0x32) then [] else [SetTitle (drop 2 body)])"

definition csi_ops :: "byte \<Rightarrow> mode_tracker \<Rightarrow> mode_op list" where
  "csi_ops final t = (if final \<noteq> 0x68 \<and> final \<noteq> 0x6c then [] else
     case mt_params t of [] \<Rightarrow> [] | p # ps \<Rightarrow> if p \<noteq> 0x3f then [] else param_ops (final = 0x68) ps 0 False)"

definition emitted :: "byte \<Rightarrow> mode_tracker \<Rightarrow> mode_op list" where
  "emitted b t = (case mt_state t of
     stateCSI \<Rightarrow> if b \<noteq> 0x1b \<and> b \<ge> 0x40 \<and> b \<le> 0x7e then csi_ops b t else []
   | stateOSC \<Rightarrow> if b = 0x07 then osc_ops t else []
   | stateOSCEsc \<Rightarrow> if b = 0x5c then osc_ops t else []
   | _ \<Rightarrow> [])"

fun events :: "bytes \<Rightarrow> mode_tracker \<Rightarrow> mode_op list" where
  "events [] t = []"
| "events (b # bs) t = emitted b t @ events bs (feed_byte b t)"

lemma feed_simps [simp]:
  "tracker_feed [] t = t" "tracker_feed (b # bs) t = tracker_feed bs (feed_byte b t)" "tracker_feed (xs @ ys) t = tracker_feed ys (tracker_feed xs t)"
  by (simp_all add: tracker_feed_def)

lemma intro_frames [simp]: "mt_modes (handleEscIntro b t) = mt_modes t"
  by (simp add: handleEscIntro_def)

lemma dispatch_ops:
  "mt_modes (dispatchCSI b t) = fold run_op (csi_ops b t) (mt_modes t)" "mt_modes (dispatchOSC t) = fold run_op (osc_ops t) (mt_modes t)"
  by (simp_all add: dispatchCSI_def csi_ops_def dispatchOSC_def osc_ops_def walk_params_ops run_op_def Let_def split: list.splits)

lemma feed_byte_modes: "mt_modes (feed_byte b t) = fold run_op (emitted b t) (mt_modes t)"
  by (cases "mt_state t") (simp_all add: feed_byte_def emitted_def dispatch_ops)

lemma feed_modes: "mt_modes (tracker_feed bs t) = fold run_op (events bs t) (mt_modes t)"
  by (induction bs arbitrary: t) (simp_all add: feed_byte_modes)

section \<open>Joining in the middle\<close>

text \<open>Two parsers in the same place, and one that joined in the middle of a sequence and waits for the next.\<close>

definition aligned :: "mode_tracker \<Rightarrow> mode_tracker \<Rightarrow> bool" where
  "aligned t u \<longleftrightarrow> mt_state u = mt_state t \<and> (mt_state t = stateCSI \<longrightarrow> mt_params u = mt_params t) \<and>
     (mt_state t = stateOSC \<or> mt_state t = stateOSCEsc \<longrightarrow> mt_osc u = mt_osc t \<and> mt_overrun u = mt_overrun t)"

definition joining :: "mode_tracker \<Rightarrow> mode_tracker \<Rightarrow> bool" where
  "joining t u \<longleftrightarrow> mt_state u = stateGround \<or> mt_state u = stateEsc \<and> mt_state t = stateOSCEsc"

lemma dispatch_frames [simp]:
  "mt_state (dispatchCSI b t) = mt_state t" "mt_params (dispatchCSI b t) = mt_params t" "mt_osc (dispatchCSI b t) = mt_osc t" "mt_overrun (dispatchCSI b t) = mt_overrun t"
  "mt_state (dispatchOSC t) = mt_state t" "mt_params (dispatchOSC t) = mt_params t" "mt_osc (dispatchOSC t) = []" "\<not> mt_overrun (dispatchOSC t)"
  by (simp_all add: dispatchCSI_def dispatchOSC_def Let_def split: list.splits)

lemma aligned_step:
  assumes "aligned t u"
  shows "emitted b u = emitted b t" "aligned (feed_byte b t) (feed_byte b u)"
  using assms
  by (cases "mt_state t"; simp add: aligned_def emitted_def feed_byte_def handleEscIntro_def csi_ops_def osc_ops_def)+

lemma joining_step:
  assumes "joining t u"
  shows "emitted b u = []" "joining (feed_byte b t) (feed_byte b u) \<or> aligned (feed_byte b t) (feed_byte b u)"
  using assms
  by (cases "mt_state t"; auto simp: joining_def aligned_def emitted_def feed_byte_def handleEscIntro_def)+

lemma aligned_events: "aligned t u \<Longrightarrow> events bs u = events bs t"
  by (induction bs arbitrary: t u) (simp_all add: aligned_step)

lemma joined_events: "joining t u \<or> aligned t u \<Longrightarrow> \<exists>pre. events bs t = pre @ events bs u"
proof (induction bs arbitrary: t u)
  case (Cons b bs)
  show ?case
  proof (cases "aligned t u")
    case True
    then show ?thesis using aligned_events [OF True, of "b # bs"] by (intro exI [of _ "[]"]) simp
  next
    case False
    then have "joining (feed_byte b t) (feed_byte b u) \<or> aligned (feed_byte b t) (feed_byte b u)" "emitted b u = []"
      using Cons.prems joining_step by blast+
    then show ?thesis using Cons.IH [of "feed_byte b t" "feed_byte b u"] by auto
  qed
qed simp

section \<open>Modes are sticky\<close>

text \<open>A change of a mode that sets it whatever it was, or puts some values back to a default.\<close>

definition settles :: "'a \<Rightarrow> ('a \<Rightarrow> 'a) \<Rightarrow> bool" where
  "settles rest g \<longleftrightarrow> (\<exists>c. g = (\<lambda>_. c)) \<or> (\<exists>R. g = (\<lambda>x. if x \<in> R then rest else x))"

lemma settles_basic [simp]: "settles rest (\<lambda>_. c)" "settles rest (\<lambda>x. x)" "settles rest (\<lambda>x. setOrClearSlot x on rest enable)"
proof -
  show "settles rest (\<lambda>_. c)" by (auto simp: settles_def)
  show "settles rest (\<lambda>x. x)" unfolding settles_def by (intro disjI2 exI [of _ "{}"]) simp
  show "settles rest (\<lambda>x. setOrClearSlot x on rest enable)"
  proof (cases enable)
    case False
    then show ?thesis unfolding settles_def by (intro disjI2 exI [of _ "{on}"]) (simp add: setOrClearSlot_def)
  qed (auto simp: settles_def setOrClearSlot_def)
qed

lemma settles_comp:
  assumes "settles rest f" "settles rest g"
  shows "settles rest (\<lambda>x. g (f x))"
proof (cases "(\<exists>c. f = (\<lambda>_. c)) \<or> (\<exists>c. g = (\<lambda>_. c))")
  case False
  then obtain R S where "f = (\<lambda>x. if x \<in> R then rest else x)" "g = (\<lambda>x. if x \<in> S then rest else x)" using assms by (auto simp: settles_def)
  then have "(\<lambda>x. g (f x)) = (\<lambda>x. if x \<in> R \<union> S then rest else x)" by auto
  then show ?thesis unfolding settles_def by blast
qed (auto simp: settles_def)

lemma settles_twice: "settles rest g \<Longrightarrow> g (g x) = g x"
  by (auto simp: settles_def)

locale sticky =
  fixes comp :: "modes \<Rightarrow> 'a" and rest :: 'a and change :: "mode_op \<Rightarrow> 'a \<Rightarrow> 'a"
  assumes follows: "comp (run_op op m) = change op (comp m)" and settles: "settles rest (change op)"
begin

lemma fold_settles: "\<exists>g. settles rest g \<and> (\<forall>m. comp (fold run_op ops m) = g (comp m))"
proof (induction ops)
  case (Cons op ops)
  then obtain g where "settles rest g" "\<forall>m. comp (fold run_op ops m) = g (comp m)" by blast
  then show ?case using settles_comp [OF settles [of op]] follows by (intro exI [of _ "\<lambda>x. g (change op x)"]) simp
qed (auto intro: exI [of _ "\<lambda>x. x"])

lemma replay:
  assumes "comp m' = comp (fold run_op (pre @ ops) m)"
  shows "comp (fold run_op ops m') = comp (fold run_op (pre @ ops) m)"
proof -
  obtain g where g: "settles rest g" "\<And>m. comp (fold run_op ops m) = g (comp m)" using fold_settles by blast
  then show ?thesis using assms settles_twice [OF g(1)] by simp
qed

end

definition shown_title :: "modes \<Rightarrow> bytes" where
  "shown_title m = (case md_title m of None \<Rightarrow> [] | Some title \<Rightarrow> title)"

abbreviation switch :: "64 word set \<Rightarrow> bool \<Rightarrow> mode_op \<Rightarrow> bool \<Rightarrow> bool" where
  "switch codes flip op \<equiv> (case op of SetMode code enable \<Rightarrow> if code \<in> codes then (\<lambda>_. enable \<noteq> flip) else (\<lambda>x. x) | SetTitle _ \<Rightarrow> (\<lambda>x. x))"

lemmas run_defs = run_op_def applyMode_def set_title_def

interpretation alt: sticky md_altScreen False "switch {47, 1047, 1049} False"
  by unfold_locales (auto simp: run_defs split: mode_op.splits)

interpretation cursor: sticky md_cursorHidden False "switch {25} True"
  by unfold_locales (auto simp: run_defs split: mode_op.splits)

interpretation wrap: sticky md_autoWrapOff False "switch {7} True"
  by unfold_locales (auto simp: run_defs split: mode_op.splits)

interpretation keys: sticky md_appCursorKeys False "switch {1} False"
  by unfold_locales (auto simp: run_defs split: mode_op.splits)

interpretation paste: sticky md_bracketedPaste False "switch {2004} False"
  by unfold_locales (auto simp: run_defs split: mode_op.splits)

interpretation track: sticky md_mouseTrack mouseTrackOff
  "\<lambda>op. case op of SetMode code enable \<Rightarrow>
      if code = 1000 then (\<lambda>x. setOrClearSlot x mouseTrackX10 mouseTrackOff enable)
      else if code = 1002 then (\<lambda>x. setOrClearSlot x mouseTrackBtnEvent mouseTrackOff enable)
      else if code = 1003 then (\<lambda>x. setOrClearSlot x mouseTrackAnyEvent mouseTrackOff enable) else (\<lambda>x. x)
    | SetTitle _ \<Rightarrow> (\<lambda>x. x)"
  by unfold_locales (auto simp: run_defs split: mode_op.splits)

interpretation encoding: sticky md_mouseEncoding mouseEncOff
  "\<lambda>op. case op of SetMode code enable \<Rightarrow>
      if code = 1006 then (\<lambda>x. setOrClearSlot x mouseEncSGR mouseEncOff enable)
      else if code = 1015 then (\<lambda>x. setOrClearSlot x mouseEncURXVT mouseEncOff enable) else (\<lambda>x. x)
    | SetTitle _ \<Rightarrow> (\<lambda>x. x)"
  by unfold_locales (auto simp: run_defs split: mode_op.splits)

interpretation titles: sticky shown_title "[]" "\<lambda>op. case op of SetMode _ _ \<Rightarrow> (\<lambda>x. x) | SetTitle text \<Rightarrow> (\<lambda>_. text)"
  by unfold_locales (auto simp: run_defs shown_title_def split: mode_op.splits)

text \<open>Modes as a client sees them: a title that was never set is an empty one.\<close>

definition same_modes :: "modes \<Rightarrow> modes \<Rightarrow> bool" where
  "same_modes m n \<longleftrightarrow> m\<lparr>md_title := Some (shown_title m)\<rparr> = n\<lparr>md_title := Some (shown_title n)\<rparr>"

lemma same_modes_iff: "same_modes m n \<longleftrightarrow> md_altScreen m = md_altScreen n \<and> md_cursorHidden m = md_cursorHidden n \<and> md_autoWrapOff m = md_autoWrapOff n \<and>
    md_appCursorKeys m = md_appCursorKeys n \<and> md_bracketedPaste m = md_bracketedPaste n \<and> md_mouseTrack m = md_mouseTrack n \<and>
    md_mouseEncoding m = md_mouseEncoding n \<and> shown_title m = shown_title n"
  by (cases m; cases n) (auto simp: same_modes_def)

lemma replay_modes: "same_modes m' (fold run_op (pre @ ops) m) \<Longrightarrow> same_modes (fold run_op ops m') (fold run_op (pre @ ops) m)"
  unfolding same_modes_iff by (intro conjI alt.replay cursor.replay wrap.replay keys.replay paste.replay track.replay encoding.replay titles.replay; blast)

section \<open>What the prefix of a snapshot does\<close>

definition plain :: "bytes \<Rightarrow> bool" where
  "plain bs \<longleftrightarrow> (\<forall>b \<in> set bs. b \<noteq> 0x07 \<and> b \<noteq> 0x1b)"

text \<open>The invariant of a tracker: its buffers and the title are within their bounds, and text holds no terminator.\<close>

definition modes_ok :: "mode_tracker \<Rightarrow> bool" where
  "modes_ok t \<longleftrightarrow> length (mt_osc t) \<le> oscBufCap \<and> plain (mt_osc t) \<and> length (mt_params t) \<le> paramBufCap \<and>
     (case md_title (mt_modes t) of None \<Rightarrow> True | Some title \<Rightarrow> plain title \<and> length title + 2 \<le> oscBufCap)"

lemma title_kept: "md_title (applyMode code enable m) = md_title m"
  by (simp add: applyMode_def)

lemma walk_title: "md_title (walk_params enable ps n d m) = md_title m"
  by (induction enable ps n d m rule: walk_params.induct) (auto simp: title_kept)

lemma plain_drop: "plain bs \<Longrightarrow> plain (drop n bs)"
  by (auto simp: plain_def dest: in_set_dropD)

lemma dispatch_ok: "modes_ok t \<Longrightarrow> modes_ok (dispatchCSI b t)" "modes_ok t \<Longrightarrow> modes_ok (dispatchOSC t)"
  by (auto simp: modes_ok_def dispatchCSI_def dispatchOSC_def walk_title set_title_def plain_drop Let_def plain_def [of "[]"] split: list.splits)

lemma intro_ok: "modes_ok t \<Longrightarrow> modes_ok (handleEscIntro b t)"
  by (simp add: modes_ok_def handleEscIntro_def plain_def)

lemma feed_byte_ok: "modes_ok t \<Longrightarrow> modes_ok (feed_byte b t)"
proof (cases "mt_state t")
  case stateCSI
  assume "modes_ok t"
  then show ?thesis using dispatch_ok(1) [of t b] stateCSI by (auto simp: feed_byte_def modes_ok_def)
next
  case stateOSC
  assume "modes_ok t"
  then show ?thesis using dispatch_ok(2) [of t] stateOSC by (auto simp: feed_byte_def modes_ok_def plain_def)
next
  case stateOSCEsc
  assume ok: "modes_ok t"
  then have "modes_ok (t\<lparr>mt_osc := [], mt_overrun := False\<rparr>)" by (simp add: modes_ok_def plain_def)
  from intro_ok [OF this, of b] show ?thesis using dispatch_ok(2) [OF ok] stateOSCEsc by (simp add: feed_byte_def modes_ok_def)
qed (use intro_ok [of t b] in \<open>auto simp: feed_byte_def modes_ok_def\<close>)

lemma feed_ok: "modes_ok t \<Longrightarrow> modes_ok (tracker_feed bs t)"
  by (induction bs arbitrary: t) (simp_all add: feed_byte_ok)

lemma new_tracker_ok: "modes_ok new_tracker"
  by (simp add: modes_ok_def new_tracker_def default_modes_def plain_def)

lemma feed_digits:
  assumes "mt_state t = stateCSI" "\<forall>b \<in> set ds. b \<ge> 0x30 \<and> b \<le> 0x3f" "length (mt_params t) + length ds \<le> paramBufCap"
  shows "tracker_feed ds t = t\<lparr>mt_params := mt_params t @ ds\<rparr>"
  using assms
proof (induction ds arbitrary: t)
  case (Cons d ds)
  then have "\<not> d \<ge> 0x40" "d \<noteq> 0x1b" by (auto simp: word_le_nat_alt)
  then have "feed_byte d t = t\<lparr>mt_params := mt_params t @ [d]\<rparr>" using Cons.prems by (simp add: feed_byte_def)
  then show ?case using Cons.IH [of "t\<lparr>mt_params := mt_params t @ [d]\<rparr>"] Cons.prems by simp
qed simp

lemma feed_dec:
  assumes "mt_state t = stateGround" "\<forall>b \<in> set ds. b \<ge> 0x30 \<and> b \<le> 0x3f" "length ds < paramBufCap" "final = 0x68 \<or> final = 0x6c"
  shows "mt_state (tracker_feed (dec_mode ds final) t) = stateGround"
    "mt_modes (tracker_feed (dec_mode ds final) t) = walk_params (final = 0x68) ds 0 False (mt_modes t)"
proof -
  let ?u = "t\<lparr>mt_state := stateCSI, mt_params := []\<rparr>"
  have "feed_byte 0x5b (feed_byte 0x1b t) = ?u" using assms(1) by (simp add: feed_byte_def handleEscIntro_def)
  moreover have "tracker_feed (0x3f # ds) ?u = ?u\<lparr>mt_params := 0x3f # ds\<rparr>"
    using feed_digits [of ?u "0x3f # ds"] assms(2,3) by simp
  ultimately have eq: "tracker_feed (dec_mode ds final) t = feed_byte final (?u\<lparr>mt_params := 0x3f # ds\<rparr>)" by (simp add: dec_mode_def)
  show "mt_state (tracker_feed (dec_mode ds final) t) = stateGround"
    "mt_modes (tracker_feed (dec_mode ds final) t) = walk_params (final = 0x68) ds 0 False (mt_modes t)"
    using assms(4) unfolding eq by (auto simp: feed_byte_def dispatchCSI_def)
qed

lemma feed_text:
  assumes "mt_state t = stateOSC" "plain bs" "length (mt_osc t) + length bs \<le> oscBufCap"
  shows "tracker_feed bs t = t\<lparr>mt_osc := mt_osc t @ bs\<rparr>"
  using assms
proof (induction bs arbitrary: t)
  case (Cons b bs)
  then have "feed_byte b t = t\<lparr>mt_osc := mt_osc t @ [b]\<rparr>" by (simp add: feed_byte_def plain_def)
  then show ?case using Cons.IH [of "t\<lparr>mt_osc := mt_osc t @ [b]\<rparr>"] Cons.prems by (simp add: plain_def)
qed simp

lemma feed_title:
  assumes "mt_state t = stateGround" "plain title" "length title + 2 \<le> oscBufCap"
  shows "mt_state (tracker_feed ([0x1b, 0x5d, 0x30, 0x3b] @ title @ [0x07]) t) = stateGround"
    "mt_modes (tracker_feed ([0x1b, 0x5d, 0x30, 0x3b] @ title @ [0x07]) t) = set_title title (mt_modes t)"
proof -
  let ?u = "t\<lparr>mt_state := stateOSC, mt_osc := [], mt_overrun := False\<rparr>"
  have "tracker_feed [0x1b, 0x5d] t = ?u" using assms(1) by (simp add: feed_byte_def handleEscIntro_def)
  moreover have "tracker_feed ([0x30, 0x3b] @ title) ?u = ?u\<lparr>mt_osc := [0x30, 0x3b] @ title\<rparr>"
    using feed_text [of ?u "[0x30, 0x3b] @ title"] assms(2,3) by (simp add: plain_def)
  ultimately have eq: "tracker_feed ([0x1b, 0x5d, 0x30, 0x3b] @ title @ [0x07]) t = feed_byte 0x07 (?u\<lparr>mt_osc := [0x30, 0x3b] @ title\<rparr>)"
    by (metis append.assoc append_Cons append_Nil feed_simps(1-3))
  show "mt_state (tracker_feed ([0x1b, 0x5d, 0x30, 0x3b] @ title @ [0x07]) t) = stateGround"
    "mt_modes (tracker_feed ([0x1b, 0x5d, 0x30, 0x3b] @ title @ [0x07]) t) = set_title title (mt_modes t)"
    unfolding eq by (simp_all add: feed_byte_def dispatchOSC_def Let_def)
qed

text \<open>Each part of the prefix sets its own mode. \<open>at_rest\<close> says where the parser is after a part, and the modes.\<close>

definition at_rest :: "mode_tracker \<Rightarrow> modes \<Rightarrow> bool" where
  "at_rest t m \<longleftrightarrow> mt_state t = stateGround \<and> mt_modes t = m"

lemma at_rest_dec:
  assumes "at_rest t m" "\<forall>b \<in> set ds. b \<ge> 0x30 \<and> b \<le> 0x3f" "length ds < paramBufCap" "final = 0x68 \<or> final = 0x6c"
    "m' = (if P then walk_params (final = 0x68) ds 0 False m else m)"
  shows "at_rest (tracker_feed (if P then dec_mode ds final else []) t) m'"
  using assms feed_dec [of t ds final] by (auto simp: at_rest_def)

lemma at_rest_track:
  "at_rest t m \<Longrightarrow> md_mouseTrack m = mouseTrackOff \<Longrightarrow> at_rest (tracker_feed (case k of mouseTrackOff \<Rightarrow> []
        | mouseTrackX10 \<Rightarrow> dec_mode [0x31, 0x30, 0x30, 0x30] 0x68
        | mouseTrackBtnEvent \<Rightarrow> dec_mode [0x31, 0x30, 0x30, 0x32] 0x68
        | mouseTrackAnyEvent \<Rightarrow> dec_mode [0x31, 0x30, 0x30, 0x33] 0x68) t) (m\<lparr>md_mouseTrack := k\<rparr>)"
  by (cases k) (auto simp: at_rest_def feed_dec paramBufCap_def applyMode_def setOrClearSlot_def)

lemma at_rest_encoding:
  "at_rest t m \<Longrightarrow> md_mouseEncoding m = mouseEncOff \<Longrightarrow> at_rest (tracker_feed (case k of mouseEncOff \<Rightarrow> []
        | mouseEncSGR \<Rightarrow> dec_mode [0x31, 0x30, 0x30, 0x36] 0x68
        | mouseEncURXVT \<Rightarrow> dec_mode [0x31, 0x30, 0x31, 0x35] 0x68) t) (m\<lparr>md_mouseEncoding := k\<rparr>)"
  by (cases k) (auto simp: at_rest_def feed_dec paramBufCap_def applyMode_def setOrClearSlot_def)

lemma at_rest_title:
  "at_rest t m \<Longrightarrow> md_title m = None \<Longrightarrow> (\<And>title. k = Some title \<Longrightarrow> plain title \<and> length title + 2 \<le> oscBufCap) \<Longrightarrow>
   at_rest (tracker_feed (case k of None \<Rightarrow> [] | Some title \<Rightarrow> [0x1b, 0x5d, 0x30, 0x3b] @ title @ [0x07]) t) (case k of None \<Rightarrow> m | Some title \<Rightarrow> set_title title m)"
  using feed_title [of t] by (cases k) (auto simp: at_rest_def)

lemma prefix_restores:
  assumes "modes_ok t"
  shows "mt_state (tracker_feed (snapshotPrefix t) new_tracker) = stateGround \<and> same_modes (mt_modes (tracker_feed (snapshotPrefix t) new_tracker)) (mt_modes t)"
proof (cases "isDefault t")
  case True
  then show ?thesis by (simp add: snapshotPrefix_def isDefault_def same_modes_iff new_tracker_def default_modes_def shown_title_def Let_def)
next
  case False
  define m where "m = mt_modes t"
  have title: "\<And>title. md_title m = Some title \<Longrightarrow> plain title \<and> length title + 2 \<le> oscBufCap" using assms by (simp add: modes_ok_def m_def)
  note defs = paramBufCap_def applyMode_def default_modes_def
  have 0: "at_rest new_tracker default_modes" by (simp add: at_rest_def new_tracker_def)
  note 1 = at_rest_dec [OF 0, of "[0x31, 0x30, 0x34, 0x39]" "0x68" "default_modes\<lparr>md_altScreen := md_altScreen m\<rparr>" "md_altScreen m"]
  note 2 = at_rest_dec [OF 1, of "[0x32, 0x35]" "0x6c" "default_modes\<lparr>md_altScreen := md_altScreen m, md_cursorHidden := md_cursorHidden m\<rparr>" "md_cursorHidden m"]
  note 3 = at_rest_dec [OF 2, of "[0x37]" "0x6c" "default_modes\<lparr>md_altScreen := md_altScreen m, md_cursorHidden := md_cursorHidden m, md_autoWrapOff := md_autoWrapOff m\<rparr>" "md_autoWrapOff m"]
  note 4 = at_rest_dec [OF 3, of "[0x31]" "0x68" "default_modes\<lparr>md_altScreen := md_altScreen m, md_cursorHidden := md_cursorHidden m, md_autoWrapOff := md_autoWrapOff m,
    md_appCursorKeys := md_appCursorKeys m\<rparr>" "md_appCursorKeys m"]
  note 5 = at_rest_dec [OF 4, of "[0x32, 0x30, 0x30, 0x34]" "0x68" "default_modes\<lparr>md_altScreen := md_altScreen m, md_cursorHidden := md_cursorHidden m, md_autoWrapOff := md_autoWrapOff m,
    md_appCursorKeys := md_appCursorKeys m, md_bracketedPaste := md_bracketedPaste m\<rparr>" "md_bracketedPaste m"]
  note 6 = at_rest_title [OF at_rest_encoding [OF at_rest_track [OF 5, of "md_mouseTrack m"], of "md_mouseEncoding m"], of "md_title m"]
  let ?d = "default_modes\<lparr>md_altScreen := md_altScreen m, md_cursorHidden := md_cursorHidden m, md_autoWrapOff := md_autoWrapOff m, md_appCursorKeys := md_appCursorKeys m,
      md_bracketedPaste := md_bracketedPaste m, md_mouseTrack := md_mouseTrack m, md_mouseEncoding := md_mouseEncoding m\<rparr>"
  have "at_rest (tracker_feed (snapshotPrefix t) new_tracker) (case md_title m of None \<Rightarrow> ?d | Some title \<Rightarrow> set_title title ?d)"
    unfolding snapshotPrefix_def Let_def m_def [symmetric] using False
    by (simp only: if_False feed_simps(3)) (rule 6; simp add: defs title title [simplified])
  moreover have "?d = m\<lparr>md_title := None\<rparr>" by (cases m) (simp add: default_modes_def)
  ultimately have "at_rest (tracker_feed (snapshotPrefix t) new_tracker)
      (case md_title m of None \<Rightarrow> m\<lparr>md_title := None\<rparr> | Some title \<Rightarrow> set_title title (m\<lparr>md_title := None\<rparr>))" by (simp only:)
  then show ?thesis unfolding at_rest_def m_def
    by (auto simp: same_modes_iff set_title_def shown_title_def split: option.splits)
qed

text \<open>A snapshot restores the modes of a terminal. Whatever was put out before, and wherever the retained part begins, even
  in the middle of an escape sequence: a client that starts afresh and reads the prefix of the
  snapshot and then the retained part ends in the modes that the terminal is in.\<close>

lemma snapshot_restores_modes:
  "same_modes (mt_modes (tracker_feed (snapshotPrefix (tracker_feed (before @ retained) new_tracker) @ retained) new_tracker))
    (mt_modes (tracker_feed (before @ retained) new_tracker))"
proof -
  let ?start = "tracker_feed before new_tracker" and ?t = "tracker_feed (before @ retained) new_tracker"
  let ?u = "tracker_feed (snapshotPrefix ?t) new_tracker"
  have ok: "modes_ok ?t" using feed_ok new_tracker_ok by blast
  from prefix_restores [OF ok] have u: "mt_state ?u = stateGround" "same_modes (mt_modes ?u) (mt_modes ?t)" by blast+
  have "joining ?start ?u" using u(1) by (simp add: joining_def)
  then obtain pre where pre: "events retained ?start = pre @ events retained ?u" using joined_events by blast
  have t: "mt_modes ?t = fold run_op (pre @ events retained ?u) (mt_modes ?start)" using feed_modes [of retained ?start] pre by simp
  show ?thesis using replay_modes [of "mt_modes ?u" pre "events retained ?u" "mt_modes ?start"] u(2) t feed_modes [of retained ?u] by simp
qed

end
