(* ===== verification/TerminalLaws.thy ===== *)
theory TerminalLaws
  imports TerminalModes
begin

text \<open>
  The screen buffer and the manager of terminals: the ring holds the last bytes, a client that comes back at any offset is
  given exactly what it missed, a snapshot restores what it shows, and a restart continues the stream.
\<close>

section \<open>The ring\<close>

definition last_n :: "nat \<Rightarrow> 'a list \<Rightarrow> 'a list" where
  "last_n n xs = drop (length xs - n) xs"

lemma length_last_n [simp]: "length (last_n n xs) = min n (length xs)"
  by (simp add: last_n_def)

lemma last_n_all: "length xs \<le> n \<Longrightarrow> last_n n xs = xs"
  by (simp add: last_n_def)

lemma last_n_append: "last_n n (last_n n xs @ ys) = last_n n (xs @ ys)"
  by (cases "length xs \<le> n") (auto simp: last_n_def add.commute)

lemma last_n_last_n: "k \<le> n \<Longrightarrow> last_n k (last_n n xs) = last_n k xs" "last_n (min n (length xs)) xs = last_n n xs"
  by (cases "length xs \<le> n"; auto simp: last_n_def)+

definition ring :: "bytes \<Rightarrow> nat \<Rightarrow> bool \<Rightarrow> bytes" where
  "ring buf pos full = (if full then drop pos buf @ take pos buf else take pos buf)"

abbreviation recent :: "screen_buffer \<Rightarrow> bytes" where
  "recent sb \<equiv> ring (sb_buf sb) (sb_pos sb) (sb_full sb)"

lemma ring_step:
  assumes "pos < length buf" "n \<le> length buf - pos" "n \<le> length data"
  shows "pos + n < length buf \<Longrightarrow> ring (take pos buf @ take n data @ drop (pos + n) buf) (pos + n) full = last_n (length buf) (ring buf pos full @ take n data)"
    "pos + n = length buf \<Longrightarrow> ring (take pos buf @ take n data @ drop (pos + n) buf) 0 True = last_n (length buf) (ring buf pos full @ take n data)"
  using assms by (auto simp: ring_def last_n_def min_def add.commute)

text \<open>The loop ends, as it always has room, and appends to the ring.\<close>

lemma write_ring_spec:
  "pos < length buf \<Longrightarrow> \<exists>buf' pos' full'. write_ring data buf pos full = Some (buf', pos', full') \<and> length buf' = length buf \<and> pos' < length buf \<and>
     ring buf' pos' full' = last_n (length buf) (ring buf pos full @ data)"
proof (induction "length data" arbitrary: data buf pos full rule: less_induct)
  case less
  show ?case
  proof (cases "data = []")
    case True
    then have "write_ring data buf pos full = Some (buf, pos, full)" by (subst write_ring.simps) simp
    then show ?thesis using less.prems True by (auto simp: ring_def last_n_def)
  next
    case False
    define n where "n = min (length buf - pos) (length data)"
    define buf1 where "buf1 = take pos buf @ take n data @ drop (pos + n) buf"
    have n: "0 < n" "n \<le> length buf - pos" "n \<le> length data" using False less.prems by (auto simp: n_def)
    have len: "length buf1 = length buf" using n less.prems by (simp add: buf1_def)
    have eq: "write_ring data buf pos full = (if pos + n \<ge> length buf then write_ring (drop n data) buf1 0 True else write_ring (drop n data) buf1 (pos + n) full)"
      using False by (subst write_ring.simps) (simp add: n_def [symmetric] buf1_def Let_def)
    define p f where "p = (if pos + n \<ge> length buf then 0 else pos + n)" and "f = (full \<or> pos + n \<ge> length buf)"
    have r: "ring buf1 p f = last_n (length buf) (ring buf pos full @ take n data)"
      using ring_step [OF less.prems n(2,3), of full] n less.prems unfolding buf1_def p_def f_def by (cases "pos + n < length buf") auto
    have "length (drop n data) < length data" using n by simp
    moreover have "p < length buf1" using less.prems by (auto simp: p_def len)
    ultimately have "\<exists>buf' pos' full'. write_ring (drop n data) buf1 p f = Some (buf', pos', full') \<and> length buf' = length buf1 \<and> pos' < length buf1 \<and>
        ring buf' pos' full' = last_n (length buf1) (ring buf1 p f @ drop n data)" by (rule less.hyps)
    then
    obtain buf' pos' full' where w: "write_ring (drop n data) buf1 p f = Some (buf', pos', full')" "length buf' = length buf" "pos' < length buf"
        "ring buf' pos' full' = last_n (length buf) (ring buf1 p f @ drop n data)"
      unfolding len by blast
    have "write_ring data buf pos full = Some (buf', pos', full')" using w(1) unfolding eq p_def f_def by (cases "length buf \<le> pos + n") auto
    moreover have "ring buf' pos' full' = last_n (length buf) (ring buf pos full @ data)" using w(4) unfolding r last_n_append by simp
    ultimately show ?thesis using w by blast
  qed
qed

text \<open>A buffer that shows what was put out since the offset \<open>base\<close>.\<close>

definition shows_stream :: "screen_buffer \<Rightarrow> int \<Rightarrow> bytes \<Rightarrow> bool" where
  "shows_stream sb base stream \<longleftrightarrow> length (sb_buf sb) = screenBufferSize \<and> sb_pos sb < screenBufferSize \<and>
     recent sb = last_n screenBufferSize stream \<and> sb_total sb = base + int (length stream) \<and> sb_tracker sb = tracker_feed stream new_tracker"

lemma new_shows: "shows_stream (NewScreenBufferWithOffset offset) offset []"
  by (simp add: shows_stream_def NewScreenBufferWithOffset_def ring_def last_n_def screenBufferSize_def)

lemma Write_shows:
  assumes "shows_stream sb base stream"
  shows "\<exists>sb'. Write data sb = Some (base + int (length (stream @ data)), sb') \<and> shows_stream sb' base (stream @ data)"
proof (cases "length data \<ge> screenBufferSize")
  case True
  then show ?thesis using assms by (simp add: Write_def shows_stream_def Let_def ring_def last_n_def screenBufferSize_def)
next
  case False
  have s: "length (sb_buf sb) = screenBufferSize" "sb_pos sb < screenBufferSize" "recent sb = last_n screenBufferSize stream" using assms by (simp_all add: shows_stream_def)
  with write_ring_spec [of "sb_pos sb" "sb_buf sb" data "sb_full sb"]
  obtain buf' pos' full' where w: "write_ring data (sb_buf sb) (sb_pos sb) (sb_full sb) = Some (buf', pos', full')" "length buf' = screenBufferSize" "pos' < screenBufferSize"
      "ring buf' pos' full' = last_n screenBufferSize (last_n screenBufferSize stream @ data)" by auto
  then show ?thesis using assms False s(1) by (simp add: Write_def shows_stream_def Let_def last_n_append)
qed

lemma tail_recent:
  assumes "length (sb_buf sb) = screenBufferSize" "sb_pos sb < screenBufferSize"
  shows "retainedLocked sb = length (recent sb)" "tailBytesLocked n sb = last_n n (recent sb)"
proof -
  show r: "retainedLocked sb = length (recent sb)" using assms by (auto simp: retainedLocked_def ring_def)
  show "tailBytesLocked n sb = last_n n (recent sb)"
    using assms by (auto simp: tailBytesLocked_def tailLocked_def retainedLocked_def ring_def last_n_def Let_def min_def nat_diff_distrib algebra_simps split: if_splits)
qed

text \<open>What a client that has seen the stream up to an offset is to be given: what it missed, or a snapshot.\<close>

definition snapshot_of :: "bytes \<Rightarrow> bytes" where
  "snapshot_of stream = snapshotPrefix (tracker_feed stream new_tracker) @ last_n screenBufferSize stream"

definition catch_up :: "int \<Rightarrow> bytes \<Rightarrow> int \<Rightarrow> bytes \<times> int \<times> bool" where
  "catch_up base stream offset =
     (let now = base + int (length stream) in
      if now - int (min screenBufferSize (length stream)) \<le> offset \<and> offset \<le> now then (drop (nat (offset - base)) stream, now, False)
      else (snapshot_of stream, now, True))"

lemma screen_Snapshot_shows: "shows_stream sb base stream \<Longrightarrow> screen_Snapshot sb = (snapshot_of stream, base + int (length stream))"
  using tail_recent [of sb] by (auto simp: shows_stream_def screen_Snapshot_def prependPrefix_def snapshot_of_def last_n_all)

lemma SnapshotSince_shows:
  assumes "shows_stream sb base stream"
  shows "SnapshotSince offset sb = catch_up base stream offset"
proof -
  let ?now = "base + int (length stream)"
  have s: "retainedLocked sb = min screenBufferSize (length stream)" "\<And>n. tailBytesLocked n sb = last_n n (last_n screenBufferSize stream)" "sb_total sb = ?now"
    using assms tail_recent [of sb] by (simp_all add: shows_stream_def)
  show ?thesis
  proof (cases "?now - int (min screenBufferSize (length stream)) \<le> offset \<and> offset < ?now")
    case True
    then have k: "nat (?now - offset) \<le> screenBufferSize" "nat (?now - offset) \<le> length stream" by auto
    have "length stream - nat (?now - offset) = nat (offset - base)" using True by auto
    then have "last_n (nat (?now - offset)) stream = drop (nat (offset - base)) stream" by (simp add: last_n_def)
    then show ?thesis using True k(1) s by (simp add: SnapshotSince_def catch_up_def Let_def last_n_last_n)
  next
    case False
    have "sb_tracker sb = tracker_feed stream new_tracker" using assms by (simp add: shows_stream_def)
    then show ?thesis using False s by (auto simp: SnapshotSince_def catch_up_def Let_def prependPrefix_def snapshot_of_def last_n_last_n)
  qed
qed

fun write_all :: "bytes list \<Rightarrow> screen_buffer \<Rightarrow> screen_buffer option" where
  "write_all [] sb = Some sb"
| "write_all (data # rest) sb = (case Write data sb of None \<Rightarrow> None | Some (_, sb1) \<Rightarrow> write_all rest sb1)"

lemma write_all_shows: "shows_stream sb base stream \<Longrightarrow> \<exists>sb'. write_all ws sb = Some sb' \<and> shows_stream sb' base (stream @ concat ws)"
proof (induction ws arbitrary: sb stream)
  case (Cons data ws)
  from Write_shows [OF Cons.prems, of data] obtain sb1 where "Write data sb = Some (base + int (length (stream @ data)), sb1)" "shows_stream sb1 base (stream @ data)" by blast
  then show ?case using Cons.IH [of sb1 "stream @ data"] by simp
qed simp

text \<open>C36: The screen buffer implements its specification. Whatever is written, in pieces of any size, even larger than the
  ring: every write returns, the snapshot is the prefix of the modes and the last bytes in order, and a client at
  any offset is given exactly the bytes after it when they are all retained, otherwise a snapshot that says so.\<close>

theorem screen_buffer_exact:
  "\<exists>sb. write_all ws (NewScreenBufferWithOffset base) = Some sb \<and> TotalBytes sb = base + int (length (concat ws)) \<and>
     screen_Snapshot sb = (snapshot_of (concat ws), base + int (length (concat ws))) \<and> (\<forall>offset. SnapshotSince offset sb = catch_up base (concat ws) offset)"
proof -
  obtain sb where sb: "write_all ws (NewScreenBufferWithOffset base) = Some sb" "shows_stream sb base ([] @ concat ws)"
    using write_all_shows [OF new_shows] by blast
  then show ?thesis using screen_Snapshot_shows [OF sb(2)] SnapshotSince_shows [OF sb(2)] by (intro exI [of _ sb]) (simp add: TotalBytes_def shows_stream_def)
qed

text \<open>C37: A snapshot restores the modes of a terminal. Whatever was put out, and wherever the retained part begins, even in the
  middle of an escape sequence: a client that starts afresh and reads the snapshot ends in the modes that the
  terminal is in.\<close>

theorem snapshot_restores:
  "\<exists>sb. write_all ws (NewScreenBufferWithOffset base) = Some sb \<and>
     same_modes (mt_modes (tracker_feed (fst (screen_Snapshot sb)) new_tracker)) (mt_modes (sb_tracker sb))"
proof -
  obtain sb where sb: "write_all ws (NewScreenBufferWithOffset base) = Some sb" "shows_stream sb base ([] @ concat ws)"
    using write_all_shows [OF new_shows] by blast
  let ?s = "concat ws" and ?n = "length (concat ws) - screenBufferSize"
  have "sb_tracker sb = tracker_feed ?s new_tracker" using sb(2) by (simp add: shows_stream_def)
  moreover have "fst (screen_Snapshot sb) = snapshotPrefix (tracker_feed (take ?n ?s @ drop ?n ?s) new_tracker) @ drop ?n ?s"
    using screen_Snapshot_shows [OF sb(2)] by (simp add: snapshot_of_def last_n_def del: feed_simps)
  moreover have "tracker_feed ?s new_tracker = tracker_feed (take ?n ?s @ drop ?n ?s) new_tracker" by (simp del: feed_simps)
  ultimately show ?thesis using sb(1) snapshot_restores_modes [of "take ?n ?s" "drop ?n ?s"] by metis
qed

section \<open>The manager\<close>

text \<open>Terminals over time, with what was put out into each buffer (\<open>tw_stream\<close>) since its first offset (\<open>tw_base\<close>).\<close>

record term_world =
  tw_mgr :: terminal_manager
  tw_base :: "nat \<Rightarrow> int"
  tw_stream :: "nat \<Rightarrow> bytes"

inductive term_reachable :: "term_world \<Rightarrow> bool" where
  start: "term_reachable \<lparr>tw_mgr = NewTerminalManager, tw_base = base, tw_stream = (\<lambda>_. [])\<rparr>"
| start_terminal: "term_reachable w \<Longrightarrow> StartTerminal failure opts (tw_mgr w) = (e, m) \<Longrightarrow>
    term_reachable (w\<lparr>tw_mgr := m, tw_base := (tw_base w)(ts_fresh (tw_mgr w) := 0)\<rparr>)"
| restart: "term_reachable w \<Longrightarrow> RestartTerminal failure opts offset (tw_mgr w) = (e, m) \<Longrightarrow>
    term_reachable (w\<lparr>tw_mgr := m, tw_base := (tw_base w)(ts_fresh (tw_mgr w) := offset)\<rparr>)"
| put_out: "term_reachable w \<Longrightarrow> fmlookup (ts_objs (tw_mgr w)) r = Some t \<Longrightarrow> wrappedOutput r data (tw_mgr w) = Some m \<Longrightarrow>
    term_reachable (w\<lparr>tw_mgr := m, tw_stream := (tw_stream w)(tl_buf t := tw_stream w (tl_buf t) @ data)\<rparr>)"
| exits: "term_reachable w \<Longrightarrow> term_reachable (w\<lparr>tw_mgr := waitForExit r (tw_mgr w)\<rparr>)"
| resize: "term_reachable w \<Longrightarrow> Resize pty i cols rows (tw_mgr w) = (e, m) \<Longrightarrow> term_reachable (w\<lparr>tw_mgr := m\<rparr>)"
| title: "term_reachable w \<Longrightarrow> UpdateTitle i name (tw_mgr w) = (ok, m) \<Longrightarrow> term_reachable (w\<lparr>tw_mgr := m\<rparr>)"
| stop: "term_reachable w \<Longrightarrow> term_reachable (w\<lparr>tw_mgr := StopTerminal i (tw_mgr w)\<rparr>)"
| remove: "term_reachable w \<Longrightarrow> term_reachable (w\<lparr>tw_mgr := RemoveTerminal i (tw_mgr w)\<rparr>)"
| stop_all: "term_reachable w \<Longrightarrow> term_reachable (w\<lparr>tw_mgr := StopAll it (tw_mgr w)\<rparr>)"

definition term_ok :: "terminal_manager \<Rightarrow> (nat \<Rightarrow> int) \<Rightarrow> (nat \<Rightarrow> bytes) \<Rightarrow> bool" where
  "term_ok m base stream \<longleftrightarrow>
     (\<forall>b sb. fmlookup (ts_bufs m) b = Some sb \<longrightarrow> b < ts_fresh m \<and> shows_stream sb (base b) (stream b)) \<and>
     (\<forall>r t. fmlookup (ts_objs m) r = Some t \<longrightarrow> r < ts_fresh m \<and> fmlookup (ts_bufs m) (tl_buf t) \<noteq> None) \<and>
     (\<forall>b. ts_fresh m \<le> b \<longrightarrow> stream b = [])"

lemma term_okD:
  assumes "term_ok m base stream"
  shows "fmlookup (ts_bufs m) b = Some sb \<Longrightarrow> b < ts_fresh m \<and> shows_stream sb (base b) (stream b)"
    "fmlookup (ts_objs m) r = Some t \<Longrightarrow> r < ts_fresh m \<and> (\<exists>sb. fmlookup (ts_bufs m) (tl_buf t) = Some sb)" "ts_fresh m \<le> b \<Longrightarrow> stream b = []"
  using assms by (auto simp: term_ok_def)

text \<open>Operations that change neither buffers nor which buffer a terminal writes to.\<close>

lemma term_ok_frame:
  assumes "term_ok m base stream" "ts_bufs m' = ts_bufs m" "ts_fresh m' = ts_fresh m"
    "\<And>r t. fmlookup (ts_objs m') r = Some t \<Longrightarrow> \<exists>t'. fmlookup (ts_objs m) r = Some t' \<and> tl_buf t = tl_buf t'"
  shows "term_ok m' base stream"
  using assms(1,4) unfolding term_ok_def assms(2,3) by (metis (no_types, lifting))

lemma Stop_frames [simp]: "ts_bufs (term_Stop r m) = ts_bufs m" "ts_fresh (term_Stop r m) = ts_fresh m" "ts_terminals (term_Stop r m) = ts_terminals m"
  by (simp_all add: term_Stop_def split: option.splits)

lemma term_ok_Stop: "term_ok m base stream \<Longrightarrow> term_ok (term_Stop r m) base stream"
  by (erule term_ok_frame) (auto simp: term_Stop_def split: option.splits if_splits)

lemma term_ok_spawn:
  assumes "term_ok m base stream" "fmlookup (ts_bufs m) b \<noteq> None" "startWithScreenBuffer failure i b m = (e, m')"
  shows "term_ok m' base stream"
  using assms by (auto simp: term_ok_def startWithScreenBuffer_def Let_def less_Suc_eq split: option.splits if_splits)

lemma term_ok_buffer:
  assumes "term_ok m base stream" "new_buffer offset m = (b, m')"
  shows "term_ok m' (base(b := offset)) stream" "b = ts_fresh m" "fmlookup (ts_bufs m') b \<noteq> None"
  using assms new_shows by (auto simp: term_ok_def new_buffer_def less_Suc_eq)

lemma term_ok_install: "term_ok (installTerminal i r f m) base stream = term_ok m base stream"
  by (simp add: term_ok_def installTerminal_def)

lemma term_ok_base: "term_ok m base stream \<Longrightarrow> term_ok m (base(ts_fresh m := offset)) stream"
  by (auto simp: term_ok_def)

lemma term_ok_output:
  assumes ok: "term_ok m base stream" and t: "fmlookup (ts_objs m) r = Some t" and w: "wrappedOutput r data m = Some m'"
  shows "term_ok m' base (stream(tl_buf t := stream (tl_buf t) @ data))"
proof -
  obtain sb where sb: "fmlookup (ts_bufs m) (tl_buf t) = Some sb" "shows_stream sb (base (tl_buf t)) (stream (tl_buf t))" "tl_buf t < ts_fresh m"
    using term_okD(2) [OF ok t] term_okD(1) [OF ok] by blast
  from Write_shows [OF sb(2), of data] obtain off sb' where "Write data sb = Some (off, sb')" "shows_stream sb' (base (tl_buf t)) (stream (tl_buf t) @ data)" by blast
  then have m': "m' = m\<lparr>ts_bufs := fmupd (tl_buf t) sb' (ts_bufs m), ts_out := ts_out m @ [(tl_id t, data, off)]\<rparr>" "shows_stream sb' (base (tl_buf t)) (stream (tl_buf t) @ data)"
    using w t sb(1) by (simp_all add: wrappedOutput_def)
  have "\<forall>b. ts_fresh m \<le> b \<longrightarrow> (stream(tl_buf t := stream (tl_buf t) @ data)) b = []" using term_okD(3) [OF ok] sb(3) by auto
  then show ?thesis using term_okD [OF ok] m' sb(3) by (auto simp: term_ok_def simp del: fun_upd_apply simp: fun_upd_def)
qed

lemma term_ok_go:
  assumes ok: "term_ok m base stream" "fmlookup (ts_bufs m) b \<noteq> None"
    and go: "(case startWithScreenBuffer failure i b m of (Inl e, m2) \<Rightarrow> (Some e, m2) | (Inr r, m2) \<Rightarrow> (None, installTerminal i r f m2)) = (e', m')"
  shows "term_ok m' base stream"
proof -
  obtain res m2 where s: "startWithScreenBuffer failure i b m = (res, m2)" by (cases "startWithScreenBuffer failure i b m")
  then show ?thesis using go term_ok_spawn [OF ok s] term_ok_install by (auto split: sum.splits)
qed

lemma term_ok_start:
  assumes ok: "term_ok m base stream" and st: "StartTerminal failure opts m = (e, m')"
  shows "term_ok m' (base(ts_fresh m := 0)) stream"
proof (cases "fmlookup (ts_terminals m) (to_ID opts)")
  case None
  obtain b m1 where b: "new_buffer 0 m = (b, m1)" by (cases "new_buffer 0 m")
  note B = term_ok_buffer [OF ok b]
  show ?thesis using st None b term_ok_go [OF B(1,3)] unfolding B(2) [symmetric] by (simp add: StartTerminal_def)
qed (use st term_ok_base [OF ok] in \<open>simp add: StartTerminal_def\<close>)

lemma term_ok_restart:
  assumes ok: "term_ok m base stream" and st: "RestartTerminal failure opts offset m = (e, m')"
  shows "term_ok m' (base(ts_fresh m := offset)) stream"
proof (cases "terminal_of (to_ID opts) m")
  case None
  obtain b m1 where b: "new_buffer offset m = (b, m1)" by (cases "new_buffer offset m")
  note B = term_ok_buffer [OF ok b]
  show ?thesis using st None b term_ok_go [OF B(1,3)] unfolding B(2) [symmetric] by (simp add: RestartTerminal_def Let_def)
next
  case (Some p)
  then have "fmlookup (ts_objs m) (fst p) = Some (snd p)" by (auto simp: terminal_of_def split: option.splits)
  then have "fmlookup (ts_bufs m) (tl_buf (snd p)) \<noteq> None" using term_okD(2) [OF ok] by auto
  from term_ok_go [OF term_ok_base [OF ok] this] show ?thesis
    using st Some term_ok_base [OF ok] by (cases p) (auto simp: RestartTerminal_def Let_def split: if_splits)
qed

lemma term_reachable_ok: "term_reachable w \<Longrightarrow> term_ok (tw_mgr w) (tw_base w) (tw_stream w)"
proof (induction rule: term_reachable.induct)
  case (start base)
  show ?case by (simp add: term_ok_def NewTerminalManager_def)
next
  case (start_terminal w failure opts e m)
  show ?case using term_ok_start [OF start_terminal(3,2)] by (simp add: fun_upd_def)
next
  case (restart w failure opts offset e m)
  show ?case using term_ok_restart [OF restart(3,2)] by (simp add: fun_upd_def)
next
  case (put_out w r t data m)
  show ?case using term_ok_output [OF put_out(4,2,3)] by (simp add: fun_upd_def)
next
  case (exits w r)
  show ?case using exits.IH by (simp, rule term_ok_frame) (auto simp: waitForExit_def split: option.splits if_splits)
next
  case (resize w pty i cols rows e m)
  show ?case using resize(3) by (simp, rule term_ok_frame) (use resize(2) in \<open>auto simp: Resize_def Let_def split: option.splits if_splits prod.splits\<close>)
next
  case (title w i name ok m)
  show ?case using title(3) by (simp, rule term_ok_frame) (use title(2) in \<open>auto simp: UpdateTitle_def split: option.splits\<close>)
next
  case (stop w i)
  then show ?case by (auto simp: StopTerminal_def term_ok_Stop split: option.splits)
next
  case (remove w i)
  have "term_ok (tw_mgr w\<lparr>ts_terminals := T, ts_meta := M\<rparr>) (tw_base w) (tw_stream w)" for T M using remove.IH by (simp add: term_ok_def)
  then show ?case using remove.IH by (auto simp: RemoveTerminal_def term_ok_Stop split: option.splits)
next
  case (stop_all w it)
  have "term_ok m base stream \<Longrightarrow> term_ok (fold (\<lambda>(i, r). term_Stop r) xs m) base stream" for xs m base stream
    by (induction xs arbitrary: m) (auto simp: term_ok_Stop)
  moreover have "term_ok (tw_mgr w\<lparr>ts_terminals := fmempty, ts_meta := fmempty\<rparr>) (tw_base w) (tw_stream w)" using stop_all.IH by (simp add: term_ok_def)
  ultimately show ?case by (simp add: StopAll_def)
qed

text \<open>C38: Clients resume exactly, across restarts. In every state that terminals can reach, a client at any offset of a
  terminal is given what it missed of everything that was ever put out under its buffer, or a snapshot; and when
  the process of a terminal has exited and is restarted, the new one goes on with the same buffer and count.\<close>

theorem terminal_resume:
  assumes "term_reachable w" "terminal_of i (tw_mgr w) = Some (r, t)"
  shows "ScreenSnapshotSince i offset (tw_mgr w) = catch_up (tw_base w (tl_buf t)) (tw_stream w (tl_buf t)) offset \<and>
    (tl_exited t \<longrightarrow> to_ID opts = i \<longrightarrow> (\<exists>m. RestartTerminal None opts fallback (tw_mgr w) = (None, m) \<and>
       (\<exists>r' t'. terminal_of i m = Some (r', t') \<and> tl_buf t' = tl_buf t \<and> \<not> tl_exited t') \<and> ts_bufs m = ts_bufs (tw_mgr w)))"
proof -
  have ok: "term_ok (tw_mgr w) (tw_base w) (tw_stream w)" using term_reachable_ok [OF assms(1)] .
  have "fmlookup (ts_objs (tw_mgr w)) r = Some t" using assms(2) by (auto simp: terminal_of_def split: option.splits)
  then obtain sb where sb: "fmlookup (ts_bufs (tw_mgr w)) (tl_buf t) = Some sb" "shows_stream sb (tw_base w (tl_buf t)) (tw_stream w (tl_buf t))"
    using term_okD(1,2) [OF ok] by blast
  then have "ScreenSnapshotSince i offset (tw_mgr w) = catch_up (tw_base w (tl_buf t)) (tw_stream w (tl_buf t)) offset"
    using assms(2) SnapshotSince_shows by (simp add: ScreenSnapshotSince_def buffer_of_def)
  then show ?thesis using assms(2) by (auto simp: RestartTerminal_def startWithScreenBuffer_def installTerminal_def terminal_of_def Let_def)
qed

text \<open>A terminal that has put out a byte, exited and is asked for everything from its start.\<close>

lemma terminal_resume_witness:
  "\<exists>w t. term_reachable w \<and> terminal_of ''t'' (tw_mgr w) = Some (1, t) \<and> tl_exited t \<and> ScreenSnapshotSince ''t'' 0 (tw_mgr w) = ([65], 1, False)"
proof -
  let ?opts = "\<lparr>to_ID = ''t'', to_WorkspaceID = ''w'', to_WorkingDir = [], to_ShellStartDir = [], to_Cols = 80, to_Rows = 25\<rparr>"
  obtain e m where m: "StartTerminal None ?opts NewTerminalManager = (e, m)" by fastforce
  have f: "fmlookup (ts_terminals m) ''t'' = Some 1" "fmlookup (ts_objs m) 1 = Some \<lparr>tl_id = ''t'', tl_buf = 0, tl_stopped = False, tl_exited = False\<rparr>"
      "fmlookup (ts_bufs m) 0 = Some (NewScreenBufferWithOffset 0)"
    using m by (auto simp: StartTerminal_def NewTerminalManager_def new_buffer_def startWithScreenBuffer_def installTerminal_def Let_def)
  from term_reachable.start_terminal [OF term_reachable.start [of "\<lambda>_. 0"], of None ?opts e m]
  have 1: "term_reachable \<lparr>tw_mgr = m, tw_base = (\<lambda>_. 0), tw_stream = (\<lambda>_. [])\<rparr>" using m by (simp add: fun_upd_idem)
  obtain off sb where sb: "Write [65] (NewScreenBufferWithOffset 0) = Some (off, sb)" using Write_shows [OF new_shows, of "[65]"] by blast
  then obtain m2 where m2: "wrappedOutput 1 [65] m = Some m2" "ts_terminals m2 = ts_terminals m" "ts_objs m2 = ts_objs m" using f by (simp add: wrappedOutput_def)
  from term_reachable.exits [OF term_reachable.put_out [OF 1], of 1 _ "[65]" m2 1]
  have 2: "term_reachable \<lparr>tw_mgr = waitForExit 1 m2, tw_base = (\<lambda>_. 0), tw_stream = (\<lambda>_. [])(0 := [65])\<rparr>" (is "term_reachable ?w") using f m2(1) by simp
  have t: "terminal_of ''t'' (tw_mgr ?w) = Some (1, \<lparr>tl_id = ''t'', tl_buf = 0, tl_stopped = False, tl_exited = True\<rparr>)"
    using f m2 by (simp add: terminal_of_def waitForExit_def)
  then show ?thesis using terminal_resume [OF 2 t, of 0] 2 by (intro exI [of _ ?w]) (auto simp: catch_up_def screenBufferSize_def)
qed

end
