(* ===== verification/Spec2Isabelle.thy ===== *)
theory Spec2Isabelle
  imports HubWitnesses AuthHub RevocationHubs TunnelLaws TerminalLaws
begin

text \<open>
  LeapMux runs coding agents on worker machines and shows them in browser windows. A hub stands
  between the two. It keeps, for every organization, the layout of workspaces (tiles, tabs, floating
  windows) as a replicated data type, decides who may change and see it, and relays end-to-end
  encrypted channels between clients and workers that it cannot decrypt; TCP connections are tunnelled
  through them. This development models six parts of the backend (Go, under src/backend): the
  organization CRDT with everything it takes to run it on the hub, the channel between client and
  worker, the authentication that both rest on, the stream of revocations between processes, tunnels,
  and the terminals of the worker.

  \<^bold>\<open>The organization CRDT\<close> (internal/hub/crdt and what it uses of internal/hub/service,
  internal/hub/store and internal/hub/auth).

  \<^item> \<open>Prelude\<close>: Go maps as finite maps, iteration over a map in an order that is an argument
    (interface \<open>go_map_range\<close>), generic lemmas. \<open>Float64\<close>: IEEE 754 doubles as bit patterns, with
    rounding, as the ratios of the layout need them.
  \<^item> \<open>Hlc\<close>: the hybrid logical clock (op.go): \<open>Tick\<close>, \<open>Observe\<close>, \<open>HLCCmp\<close>, at 64 bits.
  \<^item> \<open>OrgOps\<close>, \<open>OrgState\<close>: operations, records and the transition function \<open>Apply\<close> (state.go) with
    its register writes, tombstones and pruning. \<open>Converge\<close> proves that compatible logs converge
    in any order (interface \<open>commuting_log\<close>); \<open>StateLaws\<close> proves that registers hold the latest write
    (interface \<open>lww_register\<close>), that tombstones win and what pruning removes.
  \<^item> \<open>TreeOps\<close>, \<open>Roots\<close>, \<open>Project\<close>, \<open>TabIndex\<close>: walks over the layout tree (treeops.go), the workspace an
    entity belongs to (project.go, validate\_resolve.go), rendering, and the incremental plan for
    the index tables (tabindex.go), which is proved to agree with the full projection.
  \<^item> \<open>Access\<close>, \<open>AuthCheck\<close>: who may do what (auth, crdt\_auth.go, validate\_auth.go), with the store as a
    parameter that may fail. \<open>auth_contract\<close> is what the validator relies on; the checker used in
    production, alone and narrowed to a delegation, implements it.
  \<^item> \<open>Validate\<close>, \<open>ValidState\<close>: every check of \<open>ValidateBatch\<close> in its order, and what accepted batches
    keep: \<open>sound_state\<close>, whatever identifiers a batch names, and the stronger \<open>valid_state\<close> when no record is
    filed under the empty identifier, which two of the checks take for success; and the domains of
    stored numbers, with sums of ratios in double arithmetic.
  \<^item> \<open>Journal\<close>, \<open>JournalLaws\<close>: the journal over the tables of the database (crdt\_journal.go). Every
    call to the database may fail, by a parameter; a transaction that fails leaves no trace.
    \<open>journal_contract\<close> is what the manager relies on.
  \<^item> \<open>Broadcast\<close>, \<open>BroadcastLaws\<close>, \<open>Materialize\<close>, \<open>Presence\<close>: the fan-out of events with its caches,
    the set of subscribers, the snapshot a subscriber starts from, active clients and deferred
    clears.
  \<^item> \<open>Manager\<close>, \<open>Minting\<close>, \<open>ManagerLaws\<close>, \<open>Recovery\<close>: the manager of an organization (manager.go,
    manager\_compaction.go, manager\_audit.go): start, the pipeline of a submission (duplicates,
    timestamps, validation, commit, apply, broadcast), housekeeping, subscriptions. \<open>Recovery\<close> puts
    these together as the step relation \<open>org_step\<close> and the managers it reaches from an empty
    organization (\<open>org_reachable\<close>): submissions with any batches that the clock has room for, housekeeping,
    subscriptions, restarts, and faults of the database in each of them. In every reachable state the memory is what a
    restart recovers, the index tables hold its projection (for every non-empty tab id) and the state is
    sound; a batch that is sent again within the life of its dedup row changes nothing.
  \<^item> \<open>Example\<close>, \<open>Witnesses\<close>, \<open>HubWitnesses\<close>: a small organization and the properties applied to it.

  \<^bold>\<open>The channel\<close> (channelwire, internal/hub/channelmgr, internal/worker/channel, tunnel).

  \<^item> \<open>ChannelWire\<close>: frames with a length prefix, the split of a message into encrypted chunks, the
    buffer of a receiver, and the tracker with which the hub polices chunks it cannot read.
  \<^item> \<open>Reassembly\<close>, \<open>ReassemblyLaws\<close>: the receivers of the worker and of the client. What both promise
    is the interface \<open>chunk_receiver\<close>, in which it is proved that a message arrives whole whatever
    comes in between; both are interpretations of it.
  \<^item> \<open>ChannelLaws\<close>: the sender, the hub and the worker together; what a peer can make each of them
    hold; fresh request ids.
  \<^item> \<open>GoHeap\<close>: container/heap with the position of every element, as the expiry queue uses it
    (expiry\_queue.go): a heap stays a heap and its head is a least element.
  \<^item> \<open>ChannelMgr\<close>, \<open>ChannelMgrLaws\<close>: the channels the hub knows (channelmgr.go): registration, indexes by
    worker, user, session and bearer, bindings of connections, deadlines, teardown. The invariant of
    reachable managers; revocation by session, bearer and user generation removes exactly what it names.
  \<^item> \<open>ChannelHub\<close>: the step relation \<open>race\<close> for goroutines that look up, lock and use a channel while others
    remove it; who may use a channel and the relaying of messages in both directions
    (channel\_auth.go, ws\_channel\_relay.go, \<open>RelayWorkerMessage\<close>).

  \<^bold>\<open>Authentication\<close> (internal/hub/auth).

  \<^item> \<open>Tokens\<close>: bearer tokens (api\_token.go, bearer.go) from their text to a validated user, refresh and
    its grace period, sessions (auth.go). The hash is a parameter.
  \<^item> \<open>AuthCache\<close>: the state of the interceptor (interceptor.go, revocation\_ledger.go, lease\_registry.go):
    caches with reverse indexes, revocation marks, leases; validation with its retry loop, revocation,
    rotation, expiry, the sweep; and the effects of credential\_lifecycle.go on it and on the channels.
  \<^item> \<open>AuthLaws\<close>, \<open>AuthHub\<close>: a step relation in which validations begin, wait for the database and publish
    while others revoke, by session, by bearer, by user with a generation and without: nothing revoked is
    served afterwards, until the mark of a user is replaced by a weaker one (\<open>weakens\<close>;
    \<open>failsafe_mark_replaced\<close> shows that this happens). What a password change keeps and ends.

  \<^bold>\<open>Revocations between processes\<close> (internal/hub/revocationwatcher, internal/hub/store).

  \<^item> \<open>Revocation\<close>: the tables of events, of their numbers and of the lease (revocation\_core.go and the
    statements of the SQLite store), and the watcher (watcher.go) as what it does before and after each call
    to the database; the effect of an event on the authentication state.
  \<^item> \<open>RevocationLaws\<close>: publication numbers pending events without gaps, compaction keeps what the
    holder of the lease has not consumed. The step relation \<open>rev_reachable\<close>: hubs that are created, seed, sweep,
    renew, close and release, while calls take any time and fail before or after they took effect.
    Hubs and database measure time by one clock of whole milliseconds.
  \<^item> \<open>RevocationHubs\<close>: its invariant; one hub acts at a time, and each applies the events in order, once and
    without a gap.

  \<^bold>\<open>Tunnels\<close> (internal/tunnelflow, tunnel, internal/worker/service).

  \<^item> \<open>Tunnel\<close>: the connection of the client (conn.go, read\_credit.go), that of the worker (tunnel.go) with its
    write gate and read window (tunnel\_flow.go), and the markers of closes that come early
    (cancel\_markers.go).
  \<^item> \<open>TunnelLaws\<close>: three step relations over both ends. Writes arrive once and in order whatever the
    order of goroutines, within the window, and never get stuck; reads likewise, and credit comes
    back; a close is not overtaken by its open. A client that opens and closes every identifier
    once is assumed there; the bound on credits holds for any client.

  \<^bold>\<open>Terminals\<close> (internal/worker/terminal).

  \<^item> \<open>Terminal\<close>: the ring of recent output and its snapshots (terminal.go), the parser that follows the modes
    of a terminal (mode\_tracker.go), and the manager of terminals (manager.go).
  \<^item> \<open>TerminalModes\<close>: the prefix of a snapshot, read by the parser itself, sets the modes it was made from
    (interface \<open>sticky\<close>, what a mode sequence sets and leaves).
  \<^item> \<open>TerminalLaws\<close>: the ring is the list of the last bytes; a snapshot brings a client into the modes of
    the terminal; a client that resumes at any offset misses nothing, across restarts.

  \<^bold>\<open>Conventions.\<close> A struct is a record, an identifier a string, a Go map a finite map; an error is a value
  of a datatype or of a sum. Pointers that are shared and mutated (subscribers) are names in a
  map, as are channels, leases and tunnel connections. A call that blocks is a function that says whether
  it returns in the given state, and goroutines are the steps of a relation. Times are integers. A loop over a map takes its order as an argument, and a result that must
  not depend on the order is proved not to. Code outside the repository is a parameter with named
  hypotheses: the database engine (which calls fail), the protobuf codec (what is decoded is what was
  encoded), SHA-256, the cipher of a session (opening undoes sealing), the websocket.

  \<^bold>\<open>Termination and fuel.\<close> Walks over the layout carry the visited set of the code and are total.
  \<open>buildPathToNode\<close> and \<open>firstLeafID\<close> have no such guard in the code; their fuel is one more than the
  number of nodes, which is proved enough on acyclic trees. The search for a request id has fuel one
  more than the ids it can have to skip. Reading pages of the journal has fuel, and enough fuel is
  proved to exist for every journal. The retry loops of the interceptor have fuel, as they repeat
  while revocations race them; \<open>None\<close> is a loop that has not ended within it. The loop that writes into
  the ring of a terminal is a partial function, proved to return on every buffer that is made.

  \<^bold>\<open>Not modelled\<close>: goroutines, locks and channels inside one manager (a job runs to its end, as the
  single worker goroutine of the code does); the application of lifecycle rows (manager\_lifecycle.go
  beyond its walks) and the registry of managers; the Noise handshake; HTTP, websockets and OAuth; SQL
  beyond the tables named above; the agents, git and file services of the worker, which are processes and
  I/O; processes and pseudo terminals under a terminal; the desktop application, the command line and the
  frontend.
\<close>

end
